(* ===== verification/Prelude.thy ===== *)
theory Prelude
  imports Complex_Main "HOL-Library.Multiset" "HOL-Library.Word"
begin

text \<open>
  What the components share: Go's \<open>time.Time\<close> and \<open>time.Duration\<close> as nanosecond
  counts, the parts of the \<open>strings\<close> and \<open>sort\<close> packages that the code calls,
  and the generic lemmas on lists that the component proofs use.

  Text is a list of bytes (\<open>string\<close>). Case folding and the white space predicate are
  those of the ASCII range; a byte outside it is an opaque non-space letter.
\<close>

named_theorems table_simps \<open>how queries and updates of a table of rows behave\<close>
named_theorems db_simps \<open>which tables an operation of the store changes\<close>

section \<open>Time\<close>

text \<open>
  A \<open>time.Time\<close> is the number of nanoseconds since 1 January of year 1 (UTC), so that
  Go's zero time is \<open>0\<close>; a \<open>time.Duration\<close> is a number of nanoseconds; a \<open>*time.Time\<close>
  is an option.
\<close>

type_synonym Time = int
type_synonym Duration = int

definition IsZero :: "Time \<Rightarrow> bool" where
  "IsZero t \<longleftrightarrow> t = 0"

definition After :: "Time \<Rightarrow> Time \<Rightarrow> bool" where
  "After t u \<longleftrightarrow> u < t"

definition Before :: "Time \<Rightarrow> Time \<Rightarrow> bool" where
  "Before t u \<longleftrightarrow> t < u"

abbreviation Hour :: Duration where "Hour \<equiv> 3600 * 1000000000"
abbreviation Minute :: Duration where "Minute \<equiv> 60 * 1000000000"
abbreviation Second :: Duration where "Second \<equiv> 1000000000"

definition unix_epoch :: Time where
  "unix_epoch = 62135596800 * 1000000000"

text \<open>\<open>Time.UnixMilli\<close> rounds towards the past, and \<open>time.UnixMilli\<close> reads it back.\<close>

definition UnixMilli :: "Time \<Rightarrow> int" where
  "UnixMilli t = (t - unix_epoch) div 1000000"

definition of_UnixMilli :: "int \<Rightarrow> Time" where
  "of_UnixMilli n = n * 1000000 + unix_epoch"

text \<open>\<open>Time.Sub\<close> saturates at the range of an \<open>int64\<close>.\<close>

definition Sub :: "Time \<Rightarrow> Time \<Rightarrow> Duration" where
  "Sub t u = max (- (2 ^ 63)) (min (2 ^ 63 - 1) (t - u))"

definition Hours :: "Duration \<Rightarrow> real" where
  "Hours d = real_of_int d / real_of_int Hour"

lemma UnixMilli_of_UnixMilli [simp]: "UnixMilli (of_UnixMilli n) = n"
  by (simp add: UnixMilli_def of_UnixMilli_def)

lemma of_UnixMilli_le: "of_UnixMilli (UnixMilli t) \<le> t"
  using pos_mod_sign [of "1000000" "t - unix_epoch"] div_mult_mod_eq [of "t - unix_epoch" "1000000"]
  unfolding of_UnixMilli_def UnixMilli_def by linarith

lemma UnixMilli_mono: "t \<le> u \<Longrightarrow> UnixMilli t \<le> UnixMilli u"
  by (simp add: UnixMilli_def zdiv_mono1)

lemma of_UnixMilli_mono [simp]: "of_UnixMilli m \<le> of_UnixMilli n \<longleftrightarrow> m \<le> n"
  by (simp add: of_UnixMilli_def)

lemma of_UnixMilli_less [simp]: "of_UnixMilli m < of_UnixMilli n \<longleftrightarrow> m < n"
  by (simp add: of_UnixMilli_def)

section \<open>Strings\<close>

definition lower_char :: "char \<Rightarrow> char" where
  "lower_char c = (let n = of_char c :: nat in
     if 65 \<le> n \<and> n \<le> 90 then char_of (n + 32) else c)"

definition ToLower :: "string \<Rightarrow> string" where
  "ToLower = map lower_char"

definition is_space :: "char \<Rightarrow> bool" where
  "is_space c = (let n = of_char c :: nat in n = 32 \<or> (9 \<le> n \<and> n \<le> 13))"

text \<open>\<open>strings.Split\<close> at the characters of a predicate, keeping empty pieces.\<close>

fun split_on :: "('a \<Rightarrow> bool) \<Rightarrow> 'a list \<Rightarrow> 'a list list" where
  "split_on p [] = [[]]"
| "split_on p (x # xs) =
     (if p x then [] # split_on p xs
      else (x # hd (split_on p xs)) # tl (split_on p xs))"

definition Fields :: "string \<Rightarrow> string list" where
  "Fields s = filter (\<lambda>w. w \<noteq> []) (split_on is_space s)"

definition TrimSpace :: "string \<Rightarrow> string" where
  "TrimSpace s = rev (dropWhile is_space (rev (dropWhile is_space s)))"

fun Join :: "'a list list \<Rightarrow> 'a list \<Rightarrow> 'a list" where
  "Join [] sep = []"
| "Join [w] sep = w"
| "Join (w # ws) sep = w @ sep @ Join ws sep"

definition HasPrefix :: "string \<Rightarrow> string \<Rightarrow> bool" where
  "HasPrefix s p \<longleftrightarrow> take (length p) s = p"

lemma of_char_lower_char:
  "(of_char (lower_char c) :: nat) = (let n = of_char c in if 65 \<le> n \<and> n \<le> 90 then n + 32 else n)"
  by (simp add: lower_char_def Let_def)

lemma lower_char_idem [simp]: "lower_char (lower_char c) = lower_char c"
  by (simp add: lower_char_def Let_def)

lemma ToLower_idem [simp]: "ToLower (ToLower s) = ToLower s"
  by (simp add: ToLower_def)

lemma length_ToLower [simp]: "length (ToLower s) = length s"
  by (simp add: ToLower_def)

lemma is_space_lower_char [simp]: "is_space (lower_char c) = is_space c"
  by (simp add: is_space_def of_char_lower_char Let_def)

lemma split_on_nonempty [simp]: "split_on p xs \<noteq> []"
  by (cases xs) auto

lemma split_on_no_sep: "w \<in> set (split_on p xs) \<Longrightarrow> x \<in> set w \<Longrightarrow> \<not> p x"
proof (induction xs arbitrary: w x)
  case Nil
  then show ?case by simp
next
  case (Cons a xs)
  have hd_in: "hd (split_on p xs) \<in> set (split_on p xs)" by simp
  have tl_in: "v \<in> set (split_on p xs)" if "v \<in> set (tl (split_on p xs))" for v
    using that by (metis list.set_sel(2) split_on_nonempty)
  show ?case
    using Cons.prems Cons.IH [OF hd_in] Cons.IH [OF tl_in]
    by (auto split: if_splits dest: Cons.IH)
qed

lemma split_on_append_sep:
  "\<forall>x \<in> set w. \<not> p x \<Longrightarrow> p s \<Longrightarrow> split_on p (w @ s # xs) = w # split_on p xs"
  by (induction w) auto

lemma split_on_all_no_sep: "\<forall>x \<in> set w. \<not> p x \<Longrightarrow> split_on p w = [w]"
  by (induction w) auto

lemma split_on_Join:
  assumes "ws \<noteq> []" and "\<forall>w \<in> set ws. \<forall>x \<in> set w. \<not> p x" and "p s"
  shows "split_on p (Join ws [s]) = ws"
  using assms(1,2)
proof (induction ws "[s]" rule: Join.induct)
  case (3 w v vs)
  then show ?case using assms(3) by (simp add: split_on_append_sep)
qed (auto simp: split_on_all_no_sep)

section \<open>Stable sorting\<close>

text \<open>
  \<open>sort.SliceStable\<close>: the elements in the order of a \<open>less\<close> function, those that it
  does not order in the order they had.
\<close>

fun insert_stable :: "('a \<Rightarrow> 'a \<Rightarrow> bool) \<Rightarrow> 'a \<Rightarrow> 'a list \<Rightarrow> 'a list" where
  "insert_stable lt x [] = [x]"
| "insert_stable lt x (y # ys) =
     (if lt y x then y # insert_stable lt x ys else x # y # ys)"

definition SliceStable :: "('a \<Rightarrow> 'a \<Rightarrow> bool) \<Rightarrow> 'a list \<Rightarrow> 'a list" where
  "SliceStable lt xs = foldr (insert_stable lt) xs []"

lemma SliceStable_Nil [simp]: "SliceStable lt [] = []"
  by (simp add: SliceStable_def)

lemma SliceStable_Cons: "SliceStable lt (x # xs) = insert_stable lt x (SliceStable lt xs)"
  by (simp add: SliceStable_def)

lemma mset_insert_stable [simp]: "mset (insert_stable lt x ys) = add_mset x (mset ys)"
  by (induction ys) auto

lemma mset_SliceStable [simp]: "mset (SliceStable lt xs) = mset xs"
  by (induction xs) (auto simp: SliceStable_Cons)

lemma set_SliceStable [simp]: "set (SliceStable lt xs) = set xs"
  by (metis mset_SliceStable set_mset_mset)

lemma length_SliceStable [simp]: "length (SliceStable lt xs) = length xs"
  by (metis mset_SliceStable size_mset)

lemma distinct_SliceStable [simp]: "distinct (SliceStable lt xs) = distinct xs"
  by (metis distinct_count_atmost_1 mset_SliceStable set_SliceStable)

text \<open>
  What \<open>sort.SliceStable\<close> requires of its \<open>less\<close> function, and what it then returns.
\<close>

locale strict_weak_order =
  fixes lt :: "'a \<Rightarrow> 'a \<Rightarrow> bool"
  assumes asym: "lt x y \<Longrightarrow> \<not> lt y x"
    and neg_trans: "lt x z \<Longrightarrow> lt x y \<or> lt y z"
begin

lemma sorted_insert_stable:
  "sorted_wrt (\<lambda>a b. \<not> lt b a) ys \<Longrightarrow> sorted_wrt (\<lambda>a b. \<not> lt b a) (insert_stable lt x ys)"
proof (induction ys)
  case Nil
  then show ?case by simp
next
  case (Cons y ys)
  have mem: "z = x \<or> z \<in> set ys" if "z \<in> set (insert_stable lt x ys)" for z
    using that by (metis insert_iff mset_insert_stable set_mset_add_mset_insert set_mset_mset)
  show ?case
  proof (cases "lt y x")
    case True
    with Cons show ?thesis by (auto dest!: mem dest: asym)
  next
    case False
    with Cons.prems show ?thesis by (auto dest: neg_trans [of _ x y])
  qed
qed

lemma sorted_SliceStable: "sorted_wrt (\<lambda>a b. \<not> lt b a) (SliceStable lt xs)"
  by (induction xs) (simp_all add: SliceStable_Cons sorted_insert_stable)

lemma insert_stable_front:
  "\<forall>y \<in> set ys. \<not> lt y x \<Longrightarrow> insert_stable lt x ys = x # ys"
  by (cases ys) auto

text \<open>A list that is in order already is returned as it is.\<close>

lemma SliceStable_sorted: "sorted_wrt (\<lambda>a b. \<not> lt b a) xs \<Longrightarrow> SliceStable lt xs = xs"
  by (induction xs) (auto simp: SliceStable_Cons intro: insert_stable_front)

lemma SliceStable_idem [simp]: "SliceStable lt (SliceStable lt xs) = SliceStable lt xs"
  by (rule SliceStable_sorted) (rule sorted_SliceStable)

text \<open>Stability: elements of one class of equivalent ones keep their order.\<close>

lemma filter_insert_stable:
  assumes "\<And>a b. P a \<Longrightarrow> P b \<Longrightarrow> \<not> lt a b"
  shows "filter P (insert_stable lt x ys) = (if P x then x # filter P ys else filter P ys)"
  by (induction ys) (use assms in auto)

lemma filter_SliceStable:
  assumes "\<And>a b. P a \<Longrightarrow> P b \<Longrightarrow> \<not> lt a b"
  shows "filter P (SliceStable lt xs) = filter P xs"
  by (induction xs) (auto simp: SliceStable_Cons filter_insert_stable [OF assms])

text \<open>Selecting before or after the sort is the same.\<close>

lemma filter_insert_stable_comm:
  assumes "sorted_wrt (\<lambda>a b. \<not> lt b a) ys"
  shows "filter P (insert_stable lt x ys) =
    (if P x then insert_stable lt x (filter P ys) else filter P ys)"
  using assms
proof (induction ys)
  case (Cons y ys)
  show ?case
  proof (cases "lt y x")
    case True
    with Cons show ?thesis by simp
  next
    case False
    with Cons.prems have "\<forall>z \<in> set (filter P (y # ys)). \<not> lt z x"
      by (auto dest: neg_trans [of _ x y])
    then have "insert_stable lt x (filter P (y # ys)) = x # filter P (y # ys)"
      by (rule insert_stable_front)
    then show ?thesis using False by auto
  qed
qed simp

lemma filter_SliceStable_comm: "filter P (SliceStable lt xs) = SliceStable lt (filter P xs)"
  by (induction xs) (auto simp: SliceStable_Cons filter_insert_stable_comm sorted_SliceStable)

end

lemma filter_sorted_drop:
  assumes "sorted_wrt r xs" and "k < length xs" and "\<And>x y. r x y \<Longrightarrow> \<not> r y x" and "\<And>x. \<not> r x x"
  shows "filter (r (xs ! k)) xs = drop (Suc k) xs"
  using assms(1,2)
proof (induction xs arbitrary: k)
  case (Cons x xs)
  show ?case
  proof (cases k)
    case 0
    then have "filter (r x) xs = xs" using Cons.prems by (simp add: filter_id_conv)
    then show ?thesis using 0 assms(4) by simp
  next
    case (Suc j)
    then have "r x (xs ! j)" using Cons.prems by simp
    then show ?thesis using Suc Cons assms(3) by simp
  qed
qed simp

section \<open>Lists\<close>

lemma map_filter_idem: "(\<And>x. p x \<Longrightarrow> f x = x) \<Longrightarrow> map f (filter p xs) = filter p xs"
  by (induction xs) auto

lemma find_Some_set: "find p xs = Some x \<Longrightarrow> x \<in> set xs \<and> p x"
  by (auto simp: find_Some_iff)

lemma find_None_all: "find p xs = None \<longleftrightarrow> (\<forall>x \<in> set xs. \<not> p x)"
  by (auto simp: find_None_iff)

lemma find_append: "find p (xs @ ys) = (case find p xs of Some x \<Rightarrow> Some x | None \<Rightarrow> find p ys)"
  by (induction xs) auto

lemma find_cong': "(\<And>x. x \<in> set xs \<Longrightarrow> p x = q x) \<Longrightarrow> find p xs = find q xs"
  by (induction xs) auto

lemma in_map_filter: "y \<in> set (List.map_filter f xs) \<longleftrightarrow> (\<exists>x \<in> set xs. f x = Some y)"
  by (force simp: List.map_filter_def)

end
