(* ===== verification/Memory_Types.thy ===== *)
theory Memory_Types
  imports Prelude
begin

text \<open>
  The domain types of \<open>internal/memory/types.go\<close>: tiers, levels, the memory record, its
  quality scores and the content fingerprint. Floating point numbers are reals (rounding
  is not modelled); the package variables \<open>StabilityK\<close> and \<open>AssessedSalienceWeight\<close>,
  which the server sets from its configuration, are the fields of a \<open>tuning\<close> record.
\<close>

section \<open>Tiers and levels\<close>

type_synonym Tier = string
type_synonym Level = string

abbreviation TierWorking :: Tier where "TierWorking \<equiv> ''working''"
abbreviation TierEpisodic :: Tier where "TierEpisodic \<equiv> ''episodic''"
abbreviation TierSemantic :: Tier where "TierSemantic \<equiv> ''semantic''"
abbreviation TierProcedural :: Tier where "TierProcedural \<equiv> ''procedural''"

datatype Term = ShortTerm | LongTerm

definition Tier_Term :: "Tier \<Rightarrow> Term" where
  "Tier_Term t = (if t = TierWorking \<or> t = TierEpisodic then ShortTerm else LongTerm)"

definition DefaultTTL :: "Tier \<Rightarrow> Duration" where
  "DefaultTTL t =
     (if t = TierWorking then 72 * Hour
      else if t = TierEpisodic then 30 * 24 * Hour
      else 0)"

definition Tier_Valid :: "Tier \<Rightarrow> bool" where
  "Tier_Valid t \<longleftrightarrow> t = TierWorking \<or> t = TierEpisodic \<or> t = TierSemantic \<or> t = TierProcedural"

abbreviation LevelExplicit :: Level where "LevelExplicit \<equiv> ''explicit''"
abbreviation LevelDeduced :: Level where "LevelDeduced \<equiv> ''deduced''"

definition Level_Valid :: "Level \<Rightarrow> bool" where
  "Level_Valid l \<longleftrightarrow> l = LevelExplicit \<or> l = LevelDeduced"

section \<open>The memory record\<close>

text \<open>A value of Go's \<open>any\<close> in metadata: what survives its storage as JSON.\<close>

datatype json =
    JNull | JBool bool | JNum real | JStr string | JArr "json list" | JObj "(string \<times> json) list"

type_synonym metadata = "string \<rightharpoonup> json"
type_synonym vec = "real list"

record chunk =
  Idx :: int
  Text :: string
  chunkEmbedding :: vec

record memory =
  ID :: string
  Namespace :: string
  mTier :: Tier
  mLevel :: Level
  Content :: string
  Summary :: string
  Metadata :: metadata
  Tags :: "string list"
  Importance :: real
  CreatedAt :: Time
  UpdatedAt :: Time
  LastAccessedAt :: Time
  AccessCount :: int
  ExpiresAt :: "Time option"
  SupersededBy :: "string option"
  ValidFrom :: "Time option"
  ValidTo :: "Time option"
  Confidence :: "real option"
  AssessedImportance :: "real option"
  LinkedMemoryIDs :: "string list"
  Embedding :: vec
  EmbedState :: string
  Chunks :: "chunk list option"

definition Expired :: "memory \<Rightarrow> Time \<Rightarrow> bool" where
  "Expired m now = (case ExpiresAt m of None \<Rightarrow> False | Some e \<Rightarrow> \<not> After e now)"

abbreviation PendingEmbedKey :: string where "PendingEmbedKey \<equiv> ''pending_embed''"
abbreviation PendingEmbedValue :: string where "PendingEmbedValue \<equiv> ''true''"
abbreviation EmbedStateStuck :: string where "EmbedStateStuck \<equiv> ''failed''"

definition PendingEmbed :: "memory \<Rightarrow> bool" where
  "PendingEmbed m \<longleftrightarrow>
     (if EmbedState m \<noteq> '''' \<and> EmbedState m \<noteq> EmbedStateStuck then True
      else Metadata m PendingEmbedKey = Some (JStr PendingEmbedValue))"

definition EmbedStuck :: "memory \<Rightarrow> bool" where
  "EmbedStuck m \<longleftrightarrow> EmbedState m = EmbedStateStuck"

section \<open>Salience, confidence and quality\<close>

record tuning =
  StabilityK :: real
  AssessedSalienceWeight :: real

abbreviation retentionHalfLife :: Duration where "retentionHalfLife \<equiv> 7 * 24 * Hour"

definition tierSalience :: "Tier \<rightharpoonup> real" where
  "tierSalience =
     [TierProcedural \<mapsto> 0.95, TierSemantic \<mapsto> 0.90, TierEpisodic \<mapsto> 0.55, TierWorking \<mapsto> 0.30]"

abbreviation ConfidenceSeedFresh :: real where "ConfidenceSeedFresh \<equiv> 0.4"
abbreviation ConfidenceSeedImported :: real where "ConfidenceSeedImported \<equiv> 0.25"
abbreviation ConfidenceDemoteFloor :: real where "ConfidenceDemoteFloor \<equiv> 0.35"
abbreviation confidenceDecayPerWeek :: real where "confidenceDecayPerWeek \<equiv> 0.05"
abbreviation confidenceFloor :: real where "confidenceFloor \<equiv> 0.05"

definition clamp01 :: "real \<Rightarrow> real" where
  "clamp01 x = (if x < 0 then 0 else if x > 1 then 1 else x)"

definition Salience :: "tuning \<Rightarrow> memory \<Rightarrow> real" where
  "Salience cfg m =
     (let w = (case tierSalience (mTier m) of None \<Rightarrow> 0.5 | Some w \<Rightarrow> w);
          imp = clamp01 (Importance m);
          imp' = (case AssessedImportance m of
                    Some a \<Rightarrow> if AssessedSalienceWeight cfg > 0
                              then (1 - AssessedSalienceWeight cfg) * imp
                                   + AssessedSalienceWeight cfg * clamp01 a
                              else imp
                  | None \<Rightarrow> imp)
      in clamp01 (w * (0.5 + 0.5 * imp')))"

definition SeedImportance :: "Tier \<Rightarrow> real" where
  "SeedImportance t =
     (if t = TierSemantic \<or> t = TierProcedural then 0.6
      else if t = TierEpisodic then 0.3
      else 0.1)"

definition EffectiveImportance :: "memory \<Rightarrow> real" where
  "EffectiveImportance m =
     (case AssessedImportance m of Some a \<Rightarrow> clamp01 a | None \<Rightarrow> clamp01 (Importance m))"

definition decayConfidence :: "real \<Rightarrow> real \<Rightarrow> real" where
  "decayConfidence c weeks =
     (if weeks \<le> 1 then c
      else max confidenceFloor (c - confidenceDecayPerWeek * (weeks - 1)))"

definition EffectiveConfidence :: "memory \<Rightarrow> Time \<Rightarrow> real" where
  "EffectiveConfidence m now =
     (case Confidence m of
        None \<Rightarrow> 1
      | Some c \<Rightarrow>
          if Tier_Term (mTier m) \<noteq> LongTerm then 1
          else
            (let base = (if After (LastAccessedAt m) (UpdatedAt m) then LastAccessedAt m else UpdatedAt m);
                 weeks = Hours (Sub now base) / (7 * 24)
             in decayConfidence (clamp01 c) weeks))"

definition GrowConfidence :: "real \<Rightarrow> real" where
  "GrowConfidence c = clamp01 (c + 0.1 * (1 - c))"

definition DurableScore :: "tuning \<Rightarrow> memory \<Rightarrow> Time \<Rightarrow> real" where
  "DurableScore cfg m now =
     (let usage = 1 + ln (1 + real_of_int (AccessCount m))
      in Salience cfg m * EffectiveConfidence m now * usage)"

definition Quality :: "tuning \<Rightarrow> memory \<Rightarrow> Time \<Rightarrow> real" where
  "Quality cfg m now =
     (if Tier_Term (mTier m) = LongTerm then DurableScore cfg m now
      else
        (let age = max (Sub now (LastAccessedAt m)) 0;
             usage = 1 + ln (1 + real_of_int (AccessCount m));
             stability = real_of_int retentionHalfLife
                         * (1 + StabilityK cfg * ln (1 + real_of_int (AccessCount m)));
             recency = exp (- real_of_int age / stability)
         in Salience cfg m * EffectiveConfidence m now * usage * recency))"

definition RetentionScore :: "tuning \<Rightarrow> memory \<Rightarrow> Time \<Rightarrow> real" where
  "RetentionScore cfg m now = Quality cfg m now"

definition Recency :: "memory \<Rightarrow> Time \<Rightarrow> real" where
  "Recency m now =
     (let age = max (Sub now (LastAccessedAt m)) 0
      in exp (- real_of_int age / real_of_int retentionHalfLife))"

section \<open>Content normalisation and fingerprint\<close>

definition NormalizeContent :: "string \<Rightarrow> string" where
  "NormalizeContent s = ToLower (Join (Fields s) '' '')"

text \<open>\<open>crypto/sha256.Sum256\<close>, on the bytes of the message; the constants are written in decimal.\<close>

definition sha256_k :: "32 word list" where
  "sha256_k =
    [1116352408, 1899447441, 3049323471, 3921009573, 961987163, 1508970993, 2453635748, 2870763221,
     3624381080, 310598401, 607225278, 1426881987, 1925078388, 2162078206, 2614888103, 3248222580,
     3835390401, 4022224774, 264347078, 604807628, 770255983, 1249150122, 1555081692, 1996064986,
     2554220882, 2821834349, 2952996808, 3210313671, 3336571891, 3584528711, 113926993, 338241895,
     666307205, 773529912, 1294757372, 1396182291, 1695183700, 1986661051, 2177026350, 2456956037,
     2730485921, 2820302411, 3259730800, 3345764771, 3516065817, 3600352804, 4094571909, 275423344,
     430227734, 506948616, 659060556, 883997877, 958139571, 1322822218, 1537002063, 1747873779,
     1955562222, 2024104815, 2227730452, 2361852424, 2428436474, 2756734187, 3204031479, 3329325298]"

definition sha256_init :: "32 word list" where
  "sha256_init =
    [1779033703, 3144134277, 1013904242, 2773480762, 1359893119, 2600822924, 528734635, 1541459225]"

unbundle bit_operations_syntax

definition sha256_pad :: "nat list \<Rightarrow> nat list" where
  "sha256_pad bs =
     (let n = length bs
      in bs @ [128] @ replicate ((119 - n mod 64) mod 64) 0
         @ map (\<lambda>i. (8 * n div 256 ^ (7 - i)) mod 256) [0..<8])"

fun sha256_words :: "nat list \<Rightarrow> 32 word list" where
  "sha256_words (a # b # c # d # bs) =
     of_nat (((a * 256 + b) * 256 + c) * 256 + d) # sha256_words bs"
| "sha256_words _ = []"

text \<open>The message schedule, newest word first.\<close>

fun sha256_schedule :: "nat \<Rightarrow> 32 word list \<Rightarrow> 32 word list" where
  "sha256_schedule 0 ws = ws"
| "sha256_schedule (Suc n) ws =
     (let w15 = ws ! 14; w2 = ws ! 1;
          s0 = word_rotr 7 w15 XOR word_rotr 18 w15 XOR drop_bit 3 w15;
          s1 = word_rotr 17 w2 XOR word_rotr 19 w2 XOR drop_bit 10 w2
      in sha256_schedule n ((ws ! 15 + s0 + ws ! 6 + s1) # ws))"

fun sha256_round :: "32 word list \<Rightarrow> 32 word \<times> 32 word \<Rightarrow> 32 word list" where
  "sha256_round [a, b, c, d, e, f, g, h] (k, w) =
     (let s1 = word_rotr 6 e XOR word_rotr 11 e XOR word_rotr 25 e;
          ch = (e AND f) XOR (NOT e AND g);
          t1 = h + s1 + ch + k + w;
          s0 = word_rotr 2 a XOR word_rotr 13 a XOR word_rotr 22 a;
          mj = (a AND b) XOR (a AND c) XOR (b AND c);
          t2 = s0 + mj
      in [t1 + t2, a, b, c, d + t1, e, f, g])"
| "sha256_round st _ = st"

definition sha256_block :: "32 word list \<Rightarrow> 32 word list \<Rightarrow> 32 word list" where
  "sha256_block st ws =
     map2 (+) st (foldl sha256_round st (zip sha256_k (rev (sha256_schedule 48 (rev ws)))))"

function sha256_blocks :: "32 word list \<Rightarrow> 32 word list \<Rightarrow> 32 word list" where
  "sha256_blocks st ws =
     (if ws = [] then st else sha256_blocks (sha256_block st (take 16 ws)) (drop 16 ws))"
  by pat_completeness auto
termination
  by (relation "measure (\<lambda>(st, ws). length ws)") auto

declare sha256_blocks.simps [simp del]

definition hex_digit :: "nat \<Rightarrow> char" where
  "hex_digit n = ''0123456789abcdef'' ! n"

definition hex_word :: "32 word \<Rightarrow> string" where
  "hex_word w = map (\<lambda>i. hex_digit (unat w div 16 ^ (7 - i) mod 16)) [0..<8]"

definition sha256_hex :: "string \<Rightarrow> string" where
  "sha256_hex s =
     concat (map hex_word
       (sha256_blocks sha256_init (sha256_words (sha256_pad (map of_char s)))))"

definition Fingerprint :: "string \<Rightarrow> string" where
  "Fingerprint content = sha256_hex (NormalizeContent content)"

section \<open>Tiers\<close>

text \<open>Exactly the short-term tiers carry a default time to live.\<close>

lemma DefaultTTL_pos_iff: "0 < DefaultTTL t \<longleftrightarrow> Tier_Term t = ShortTerm"
  by (simp add: DefaultTTL_def Tier_Term_def)

lemma DefaultTTL_nonneg: "0 \<le> DefaultTTL t"
  by (simp add: DefaultTTL_def)

lemma LongTerm_iff_no_TTL: "Tier_Term t = LongTerm \<longleftrightarrow> DefaultTTL t = 0"
  by (simp add: DefaultTTL_def Tier_Term_def)

section \<open>Bounds of the scores\<close>

lemma clamp01_bounds [simp]: "0 \<le> clamp01 x" "clamp01 x \<le> 1"
  by (simp_all add: clamp01_def)

lemma clamp01_id: "0 \<le> x \<Longrightarrow> x \<le> 1 \<Longrightarrow> clamp01 x = x"
  by (simp add: clamp01_def)

lemma clamp01_mono: "x \<le> y \<Longrightarrow> clamp01 x \<le> clamp01 y"
  by (simp add: clamp01_def)

lemma Salience_bounds: "0 \<le> Salience cfg m" "Salience cfg m \<le> 1"
  by (simp_all add: Salience_def Let_def)

lemma EffectiveImportance_bounds: "0 \<le> EffectiveImportance m" "EffectiveImportance m \<le> 1"
  by (simp_all add: EffectiveImportance_def split: option.split)

lemma decayConfidence_nonneg: "0 \<le> c \<Longrightarrow> 0 \<le> decayConfidence c w"
  unfolding decayConfidence_def max_def by (auto simp: field_simps)

lemma decayConfidence_le: "confidenceFloor \<le> c \<Longrightarrow> decayConfidence c w \<le> c"
  by (simp add: decayConfidence_def)

lemma decayConfidence_floor: "confidenceFloor \<le> c \<Longrightarrow> confidenceFloor \<le> decayConfidence c w"
  by (auto simp: decayConfidence_def max_def)

lemma decayConfidence_le_1: "c \<le> 1 \<Longrightarrow> decayConfidence c w \<le> 1"
  unfolding decayConfidence_def max_def by (auto simp: field_simps)

lemma decayConfidence_antimono: "confidenceFloor \<le> c \<Longrightarrow> v \<le> w \<Longrightarrow> decayConfidence c w \<le> decayConfidence c v"
  unfolding decayConfidence_def max_def by (auto simp: field_simps)

lemma EffectiveConfidence_bounds: "0 \<le> EffectiveConfidence m now" "EffectiveConfidence m now \<le> 1"
  by (simp_all add: EffectiveConfidence_def Let_def decayConfidence_nonneg decayConfidence_le_1
      split: option.split)

lemma GrowConfidence_unclamped:
  "0 \<le> c \<Longrightarrow> c \<le> 1 \<Longrightarrow> GrowConfidence c = c + 0.1 * (1 - c)"
  unfolding GrowConfidence_def by (rule clamp01_id) (simp_all add: field_simps)

lemma GrowConfidence_range: "0 \<le> c \<Longrightarrow> c \<le> 1 \<Longrightarrow> 0 \<le> GrowConfidence c \<and> GrowConfidence c \<le> 1"
  by (simp add: GrowConfidence_def)

text \<open>Each corroboration closes a tenth of the gap, so after \<open>n\<close> of them \<open>0.9 ^ n\<close> is left.\<close>

lemma GrowConfidence_iterate:
  assumes "0 \<le> c" and "c \<le> 1"
  shows "1 - (GrowConfidence ^^ n) c = 0.9 ^ n * (1 - c)
       \<and> 0 \<le> (GrowConfidence ^^ n) c \<and> (GrowConfidence ^^ n) c \<le> 1"
proof (induction n)
  case 0
  then show ?case using assms by simp
next
  case (Suc n)
  let ?g = "(GrowConfidence ^^ n) c"
  have "GrowConfidence ?g = ?g + 0.1 * (1 - ?g)"
    using Suc by (intro GrowConfidence_unclamped) auto
  then have "1 - GrowConfidence ?g = 0.9 * (1 - ?g)" by (simp add: field_simps)
  moreover have "0 \<le> GrowConfidence ?g \<and> GrowConfidence ?g \<le> 1"
    using Suc by (intro GrowConfidence_range) auto
  ultimately show ?case using Suc by simp
qed

lemma Recency_bounds: "0 < Recency m now" "Recency m now \<le> 1"
  by (simp_all add: Recency_def Let_def)

lemma usage_ge_1: "0 \<le> n \<Longrightarrow> 1 \<le> 1 + ln (1 + real_of_int n)"
  by simp

lemma DurableScore_nonneg: "0 \<le> AccessCount m \<Longrightarrow> 0 \<le> DurableScore cfg m now"
  using usage_ge_1 [of "AccessCount m"]
  by (simp add: DurableScore_def Let_def Salience_bounds EffectiveConfidence_bounds)

lemma Quality_LongTerm: "Tier_Term (mTier m) = LongTerm \<Longrightarrow> Quality cfg m now = DurableScore cfg m now"
  by (simp add: Quality_def)

lemma Quality_ShortTerm:
  "Tier_Term (mTier m) = ShortTerm \<Longrightarrow>
   Quality cfg m now =
     Salience cfg m * (1 + ln (1 + real_of_int (AccessCount m)))
     * exp (- real_of_int (max (Sub now (LastAccessedAt m)) 0) /
            (real_of_int retentionHalfLife * (1 + StabilityK cfg * ln (1 + real_of_int (AccessCount m)))))"
  by (simp add: Quality_def Let_def EffectiveConfidence_def split: option.split)

lemma Quality_nonneg:
  assumes "0 \<le> AccessCount m"
  shows "0 \<le> Quality cfg m now"
proof (cases "Tier_Term (mTier m)")
  case ShortTerm
  have "1 \<le> 1 + ln (1 + real_of_int (AccessCount m))" using assms by (rule usage_ge_1)
  then show ?thesis
    by (simp add: Quality_ShortTerm [OF ShortTerm] Salience_bounds)
next
  case LongTerm
  then show ?thesis using assms by (simp add: Quality_LongTerm DurableScore_nonneg)
qed

text \<open>At a stability of 0 the short-term recency factor is that of \<open>Recency\<close>.\<close>

lemma Quality_no_stability:
  "Tier_Term (mTier m) = ShortTerm \<Longrightarrow> StabilityK cfg = 0 \<Longrightarrow>
   Quality cfg m now = Salience cfg m * (1 + ln (1 + real_of_int (AccessCount m))) * Recency m now"
  by (simp add: Quality_ShortTerm Recency_def Let_def)

section \<open>Normalisation\<close>

lemma Fields_no_space: "w \<in> set (Fields s) \<Longrightarrow> w \<noteq> [] \<and> (\<forall>x \<in> set w. \<not> is_space x)"
  by (auto simp: Fields_def dest: split_on_no_sep)

lemma is_space_space: "is_space CHR '' ''"
  by (simp add: is_space_def)

lemma Fields_Join:
  assumes "\<forall>w \<in> set ws. w \<noteq> [] \<and> (\<forall>x \<in> set w. \<not> is_space x)"
  shows "Fields (Join ws '' '') = ws"
proof (cases "ws = []")
  case True
  then show ?thesis by (simp add: Fields_def)
next
  case False
  then have "split_on is_space (Join ws '' '') = ws"
    using assms is_space_space by (intro split_on_Join) auto
  then show ?thesis using assms by (simp add: Fields_def)
qed

lemma ToLower_Join: "ToLower (Join ws sep) = Join (map ToLower ws) (ToLower sep)"
  by (induction ws sep rule: Join.induct) (auto simp: ToLower_def)

lemma ToLower_space: "ToLower '' '' = '' ''"
  by (simp add: ToLower_def lower_char_def)

lemma Fields_NormalizeContent: "Fields (NormalizeContent s) = map ToLower (Fields s)"
proof -
  have "NormalizeContent s = Join (map ToLower (Fields s)) '' ''"
    by (simp add: NormalizeContent_def ToLower_Join ToLower_space)
  moreover have "\<forall>w \<in> set (map ToLower (Fields s)). w \<noteq> [] \<and> (\<forall>x \<in> set w. \<not> is_space x)"
    using Fields_no_space by (fastforce simp: ToLower_def)
  ultimately show ?thesis by (simp add: Fields_Join)
qed

lemma NormalizeContent_eq_iff:
  "NormalizeContent s = NormalizeContent t \<longleftrightarrow> map ToLower (Fields s) = map ToLower (Fields t)"
proof
  assume "NormalizeContent s = NormalizeContent t"
  then show "map ToLower (Fields s) = map ToLower (Fields t)"
    by (metis Fields_NormalizeContent)
next
  assume "map ToLower (Fields s) = map ToLower (Fields t)"
  then show "NormalizeContent s = NormalizeContent t"
    by (simp add: NormalizeContent_def ToLower_Join)
qed

lemma NormalizeContent_idem [simp]: "NormalizeContent (NormalizeContent s) = NormalizeContent s"
  by (simp add: NormalizeContent_eq_iff Fields_NormalizeContent)

lemma Fingerprint_NormalizeContent [simp]: "Fingerprint (NormalizeContent s) = Fingerprint s"
  by (simp add: Fingerprint_def)

lemma length_sha256_round: "length (sha256_round st p) = length st"
  by (cases "(st, p)" rule: sha256_round.cases) (simp_all add: Let_def)

lemma length_sha256_block: "length (sha256_block st ws) = length st"
proof -
  have "length (foldl sha256_round st ps) = length st" for ps
    by (induction ps arbitrary: st) (simp_all add: length_sha256_round)
  then show ?thesis by (simp add: sha256_block_def)
qed

lemma length_sha256_blocks: "length (sha256_blocks st ws) = length st"
proof (induction st ws rule: sha256_blocks.induct)
  case (1 st ws)
  then show ?case by (subst sha256_blocks.simps) (simp add: length_sha256_block)
qed

lemma length_Fingerprint: "length (Fingerprint s) = 64"
proof -
  have "length (concat (map hex_word ws)) = 8 * length ws" for ws
    by (induction ws) (simp_all add: hex_word_def)
  then show ?thesis by (simp add: Fingerprint_def sha256_hex_def length_sha256_blocks sha256_init_def)
qed

lemma Fingerprint_nonempty [simp]: "Fingerprint s \<noteq> ''''"
  using length_Fingerprint [of s] by (metis list.size(3) zero_neq_numeral)

end
