(* ===== verification/Namespaces.thy ===== *)
theory Namespaces
  imports Prelude
begin

text \<open>
  Namespace strings, \<open>internal/httputil/httputil.go\<close>: the canonical form
  (\<open>NormalizeNamespace\<close>), the validity check (\<open>ValidateNamespace\<close>) and the warning about an
  overridden home namespace.
\<close>

section \<open>The code\<close>

abbreviation slash :: char where "slash \<equiv> CHR ''/''"

definition Trim :: "char \<Rightarrow> string \<Rightarrow> string" where
  "Trim c s = rev (dropWhile (\<lambda>x. x = c) (rev (dropWhile (\<lambda>x. x = c) s)))"

text \<open>\<open>strings.Contains(ns, "//")\<close> and \<open>strings.ReplaceAll(ns, "//", "/")\<close>.\<close>

fun has_double_slash :: "string \<Rightarrow> bool" where
  "has_double_slash (a # b # s) = ((a = slash \<and> b = slash) \<or> has_double_slash (b # s))"
| "has_double_slash _ = False"

fun replace_double_slash :: "string \<Rightarrow> string" where
  "replace_double_slash (a # b # s) =
     (if a = slash \<and> b = slash then slash # replace_double_slash s
      else a # replace_double_slash (b # s))"
| "replace_double_slash s = s"

lemma length_replace_double_slash: "length (replace_double_slash s) \<le> length s"
  by (induction s rule: replace_double_slash.induct) auto

lemma length_replace_less: "has_double_slash s \<Longrightarrow> length (replace_double_slash s) < length s"
proof (induction s rule: replace_double_slash.induct)
  case (1 a b s)
  then show ?case using length_replace_double_slash [of s] by (auto split: if_splits)
qed auto

function collapse_slashes :: "string \<Rightarrow> string" where
  "collapse_slashes ns =
     (if has_double_slash ns then collapse_slashes (replace_double_slash ns) else ns)"
  by pat_completeness auto
termination
  by (relation "measure length") (auto simp: length_replace_less)

declare collapse_slashes.simps [simp del]

definition NormalizeNamespace :: "string \<Rightarrow> string" where
  "NormalizeNamespace ns = collapse_slashes (Trim slash (TrimSpace ns))"

datatype namespace_error = NamespaceEmpty | NamespaceTooLong | NamespaceNUL

definition ValidateNamespace :: "string \<Rightarrow> namespace_error option" where
  "ValidateNamespace ns =
     (if ns = '''' then Some NamespaceEmpty
      else if length ns > 256 then Some NamespaceTooLong
      else if char_of (0 :: nat) \<in> set ns then Some NamespaceNUL
      else None)"

text \<open>The names the warning's text is built from: header home, key name, bound home.\<close>

definition HomeConflictWarning :: "string \<Rightarrow> string \<Rightarrow> string \<Rightarrow> (string \<times> string \<times> string) option" where
  "HomeConflictWarning keyName keyHome headerHome =
     (if keyHome = '''' \<or> headerHome = '''' \<or> keyHome = headerHome then None
      else Some (headerHome, keyName, keyHome))"

section \<open>The canonical form\<close>

text \<open>What the loop computes, in one pass over the string.\<close>

fun single_slashes :: "string \<Rightarrow> string" where
  "single_slashes (a # b # s) =
     (if a = slash \<and> b = slash then single_slashes (b # s) else a # single_slashes (b # s))"
| "single_slashes s = s"

lemma single_slashes_id: "\<not> has_double_slash s \<Longrightarrow> single_slashes s = s"
  by (induction s rule: single_slashes.induct) auto

lemma single_slashes_Cons: "single_slashes (a # s) =
   (if a = slash \<and> s \<noteq> [] \<and> hd s = slash then single_slashes s else a # single_slashes s)"
  by (cases s) auto

lemma hd_replace: "s \<noteq> [] \<Longrightarrow> hd (replace_double_slash s) = hd s \<and> replace_double_slash s \<noteq> []"
  by (induction s rule: replace_double_slash.induct) auto

lemma single_slashes_replace: "single_slashes (replace_double_slash s) = single_slashes s"
proof (induction s rule: replace_double_slash.induct)
  case (1 a b s)
  show ?case
  proof (cases "a = slash \<and> b = slash")
    case True
    show ?thesis
    proof (cases s)
      case Nil
      with True show ?thesis by simp
    next
      case (Cons c t)
      have "hd (replace_double_slash s) = hd s \<and> replace_double_slash s \<noteq> []"
        using hd_replace [of s] Cons by simp
      moreover have "s \<noteq> []" using Cons by simp
      ultimately show ?thesis using True "1.IH"(1) [OF True] by (simp add: single_slashes_Cons)
    qed
  next
    case False
    then have "hd (replace_double_slash (b # s)) = b \<and> replace_double_slash (b # s) \<noteq> []"
      using hd_replace [of "b # s"] by simp
    then show ?thesis using False "1.IH"(2) [OF False] by (auto simp: single_slashes_Cons)
  qed
qed auto

lemma collapse_slashes_eq: "collapse_slashes s = single_slashes s"
proof (induction s rule: collapse_slashes.induct)
  case (1 ns)
  then show ?case
    by (subst collapse_slashes.simps) (simp add: single_slashes_replace single_slashes_id)
qed

lemma collapse_slashes_no_double: "\<not> has_double_slash (collapse_slashes s)"
proof (induction s rule: collapse_slashes.induct)
  case (1 ns)
  then show ?case by (subst collapse_slashes.simps) simp
qed

lemma hd_single_slashes: "s \<noteq> [] \<Longrightarrow> hd (single_slashes s) = hd s \<and> single_slashes s \<noteq> []"
  by (induction s rule: single_slashes.induct) auto

lemma last_single_slashes: "s \<noteq> [] \<Longrightarrow> last (single_slashes s) = last s"
proof (induction s rule: single_slashes.induct)
  case (1 a b s)
  then show ?case using hd_single_slashes [of "b # s"] by (auto simp: last_ConsR)
qed auto

lemma Trim_hd:
  assumes ne: "Trim c s \<noteq> []"
  shows "hd (Trim c s) \<noteq> c \<and> last (Trim c s) \<noteq> c"
proof -
  define d where "d = dropWhile (\<lambda>x. x = c) s"
  define e where "e = dropWhile (\<lambda>x. x = c) (rev d)"
  have T: "Trim c s = rev e" by (simp add: Trim_def d_def e_def)
  then have e: "e \<noteq> []" using ne by simp
  then have d: "d \<noteq> []" by (auto simp: e_def)
  have "hd e \<noteq> c" using hd_dropWhile [of "\<lambda>x. x = c" "rev d"] e by (simp add: e_def)
  then have l: "last (rev e) \<noteq> c" using e by (simp add: last_rev)
  obtain zs where "rev d = zs @ e"
    unfolding e_def by (metis takeWhile_dropWhile_id)
  then have "d = rev e @ rev zs" by (metis rev_append rev_rev_ident)
  with e have "hd d = hd (rev e)" by (metis hd_append2 rev_is_Nil_conv)
  moreover have "hd d \<noteq> c" using hd_dropWhile [of "\<lambda>x. x = c" s] d by (simp add: d_def)
  ultimately show ?thesis using l T by simp
qed

lemma NormalizeNamespace_canonical:
  fixes ns :: string
  defines "r \<equiv> NormalizeNamespace ns"
  shows "\<not> has_double_slash r \<and> (r \<noteq> [] \<longrightarrow> hd r \<noteq> slash \<and> last r \<noteq> slash)"
proof -
  let ?t = "Trim slash (TrimSpace ns)"
  have r: "r = single_slashes ?t" by (simp add: r_def NormalizeNamespace_def collapse_slashes_eq)
  have "r \<noteq> [] \<Longrightarrow> hd r \<noteq> slash \<and> last r \<noteq> slash"
  proof -
    assume "r \<noteq> []"
    then have "?t \<noteq> []" using r by auto
    then show ?thesis using Trim_hd hd_single_slashes last_single_slashes r by metis
  qed
  moreover have "\<not> has_double_slash r"
    by (simp add: r_def NormalizeNamespace_def collapse_slashes_no_double)
  ultimately show ?thesis by blast
qed

lemma dropWhile_id: "xs = [] \<or> \<not> p (hd xs) \<Longrightarrow> dropWhile p xs = xs"
  by (cases xs) auto

lemma Trim_id: "s = [] \<or> (hd s \<noteq> c \<and> last s \<noteq> c) \<Longrightarrow> Trim c s = s"
  by (auto simp: Trim_def dropWhile_id hd_rev)

lemma TrimSpace_id: "s = [] \<or> (\<not> is_space (hd s) \<and> \<not> is_space (last s)) \<Longrightarrow> TrimSpace s = s"
  by (auto simp: TrimSpace_def dropWhile_id hd_rev)

text \<open>
  A name that is canonical already, with no white space at its ends, is left alone; so
  normalising twice is normalising once unless the slashes at the ends of the name hide
  white space behind them.
\<close>

lemma NormalizeNamespace_id:
  assumes "\<not> has_double_slash s" and "s = [] \<or> (hd s \<noteq> slash \<and> last s \<noteq> slash)"
    and "s = [] \<or> (\<not> is_space (hd s) \<and> \<not> is_space (last s))"
  shows "NormalizeNamespace s = s"
  using assms by (simp add: NormalizeNamespace_def TrimSpace_id Trim_id collapse_slashes_eq single_slashes_id)

lemma ValidateNamespace_None_iff:
  "ValidateNamespace ns = None \<longleftrightarrow> 1 \<le> length ns \<and> length ns \<le> 256 \<and> char_of (0 :: nat) \<notin> set ns"
  by (cases ns) (auto simp: ValidateNamespace_def)

end
