(* ===== verification/Client_Settings.thy ===== *)
theory Client_Settings
  imports Memory_Types Namespaces
begin

text \<open>
  The client settings of \<open>internal/store/store.go\<close>: the record in which every field is
  optional, its validation, the built-in defaults and the layered merge with its
  provenance map.
\<close>

section \<open>The code\<close>

record ClientSettings =
  CaptureTurns :: "bool option"
  SessionDigest :: "bool option"
  InlineExtract :: "bool option"
  AutoSave :: "bool option"
  AutoSaveInterval :: "int option"
  AutoSaveMinEvents :: "int option"
  InjectBriefingPinned :: "int option"
  InjectBriefingFacts :: "int option"
  InjectBriefingProcedures :: "int option"
  InjectBriefingRecent :: "int option"
  InjectBriefingMaxTok :: "int option"
  InjectPretoolItems :: "int option"
  InjectPretoolMaxTok :: "int option"
  InjectPretoolMinScore :: "real option"
  InjectPretoolTools :: "string list option"
  InjectPretoolGateMs :: "int option"
  InjectDedupe :: "bool option"
  InjectTelemetry :: "bool option"
  InjectCooldownMs :: "int option"
  InjectCooldownPrompts :: "int option"
  InjectLabels :: "string list option"
  Recall :: "bool option"
  Capture :: "bool option"
  RecallLimit :: "int option"
  InjectRecallMaxTok :: "int option"
  InjectRecallMinScore :: "real option"
  MinCaptureChars :: "int option"
  CaptureUserMaxChars :: "int option"
  CaptureAssistantMaxChars :: "int option"
  RequestTimeoutMs :: "int option"
  NamespaceScope :: "string option"
  NamespacePrefix :: "string option"

text \<open>The zero value: every field unset.\<close>

definition no_settings :: ClientSettings where
  "no_settings =
    \<lparr> CaptureTurns = None,
      SessionDigest = None,
      InlineExtract = None,
      AutoSave = None,
      AutoSaveInterval = None,
      AutoSaveMinEvents = None,
      InjectBriefingPinned = None,
      InjectBriefingFacts = None,
      InjectBriefingProcedures = None,
      InjectBriefingRecent = None,
      InjectBriefingMaxTok = None,
      InjectPretoolItems = None,
      InjectPretoolMaxTok = None,
      InjectPretoolMinScore = None,
      InjectPretoolTools = None,
      InjectPretoolGateMs = None,
      InjectDedupe = None,
      InjectTelemetry = None,
      InjectCooldownMs = None,
      InjectCooldownPrompts = None,
      InjectLabels = None,
      Recall = None,
      Capture = None,
      RecallLimit = None,
      InjectRecallMaxTok = None,
      InjectRecallMinScore = None,
      MinCaptureChars = None,
      CaptureUserMaxChars = None,
      CaptureAssistantMaxChars = None,
      RequestTimeoutMs = None,
      NamespaceScope = None,
      NamespacePrefix = None \<rparr>"

datatype settings_error =
    BelowMinimum string int int  \<comment> \<open>key, bound, value\<close>
  | NegativeFloat string real
  | BadNamespaceScope string
  | BadInjectLabel string
  | BadNamespacePrefix namespace_error
  | TooManyTools nat
  | ToolNameTooLong nat

definition nonNegativeInts :: "ClientSettings \<Rightarrow> (string \<times> int option) list" where
  "nonNegativeInts s =
    [(''auto_save_min_events'', AutoSaveMinEvents s),
     (''inject_briefing_pinned'', InjectBriefingPinned s),
     (''inject_briefing_facts'', InjectBriefingFacts s),
     (''inject_briefing_procedures'', InjectBriefingProcedures s),
     (''inject_briefing_recent'', InjectBriefingRecent s),
     (''inject_briefing_max_tok'', InjectBriefingMaxTok s),
     (''inject_pretool_items'', InjectPretoolItems s),
     (''inject_pretool_max_tok'', InjectPretoolMaxTok s),
     (''inject_pretool_gate_ms'', InjectPretoolGateMs s),
     (''inject_cooldown_ms'', InjectCooldownMs s),
     (''inject_cooldown_prompts'', InjectCooldownPrompts s),
     (''recall_limit'', RecallLimit s),
     (''inject_recall_max_tok'', InjectRecallMaxTok s),
     (''min_capture_chars'', MinCaptureChars s),
     (''capture_user_max_chars'', CaptureUserMaxChars s),
     (''capture_assistant_max_chars'', CaptureAssistantMaxChars s)]"

definition nonNegativeFloats :: "ClientSettings \<Rightarrow> (string \<times> real option) list" where
  "nonNegativeFloats s =
    [(''inject_pretool_min_score'', InjectPretoolMinScore s),
     (''inject_recall_min_score'', InjectRecallMinScore s)]"

definition int_below :: "int \<Rightarrow> int option \<Rightarrow> bool" where
  "int_below b v = (case v of Some n \<Rightarrow> n < b | None \<Rightarrow> False)"

fun first_negative_int :: "(string \<times> int option) list \<Rightarrow> settings_error option" where
  "first_negative_int [] = None"
| "first_negative_int ((k, v) # fs) =
     (if int_below 0 v then Some (BelowMinimum k 0 (the v)) else first_negative_int fs)"

fun first_negative_float :: "(string \<times> real option) list \<Rightarrow> settings_error option" where
  "first_negative_float [] = None"
| "first_negative_float ((k, v) # fs) =
     (case v of
        Some x \<Rightarrow> if x < 0 then Some (NegativeFloat k x) else first_negative_float fs
      | None \<Rightarrow> first_negative_float fs)"

definition valid_scope :: "string \<Rightarrow> bool" where
  "valid_scope sc \<longleftrightarrow> sc = ''repo'' \<or> sc = ''owner_repo'' \<or> sc = ''owner_tree''"

definition valid_label :: "string \<Rightarrow> bool" where
  "valid_label l \<longleftrightarrow> l = ''tier'' \<or> l = ''confidence'' \<or> l = ''age'' \<or> l = ''reason''"

definition check_scope :: "string option \<Rightarrow> settings_error option" where
  "check_scope v =
     (case v of Some sc \<Rightarrow> if valid_scope sc then None else Some (BadNamespaceScope sc) | None \<Rightarrow> None)"

definition check_labels :: "string list option \<Rightarrow> settings_error option" where
  "check_labels v =
     (case v of
        Some ls \<Rightarrow> map_option BadInjectLabel (find (\<lambda>l. \<not> valid_label l) ls)
      | None \<Rightarrow> None)"

definition check_prefix :: "string option \<Rightarrow> settings_error option" where
  "check_prefix v =
     (case v of
        Some p \<Rightarrow> if p \<noteq> '''' then map_option BadNamespacePrefix (ValidateNamespace p) else None
      | None \<Rightarrow> None)"

definition check_tools :: "string list option \<Rightarrow> settings_error option" where
  "check_tools v =
     (case v of
        Some ts \<Rightarrow>
          if length ts > 64 then Some (TooManyTools (length ts))
          else map_option (\<lambda>t. ToolNameTooLong (length t)) (find (\<lambda>t. length t > 128) ts)
      | None \<Rightarrow> None)"

text \<open>The checks in the code's order; the first error is returned.\<close>

fun first_error :: "'e option list \<Rightarrow> 'e option" where
  "first_error [] = None"
| "first_error (None # es) = first_error es"
| "first_error (Some e # es) = Some e"

definition Validate :: "ClientSettings \<Rightarrow> settings_error option" where
  "Validate s = first_error
    [if int_below 1 (AutoSaveInterval s)
       then Some (BelowMinimum ''auto_save_interval'' 1 (the (AutoSaveInterval s))) else None,
     if int_below 100 (RequestTimeoutMs s)
       then Some (BelowMinimum ''request_timeout_ms'' 100 (the (RequestTimeoutMs s))) else None,
     first_negative_int (nonNegativeInts s),
     first_negative_float (nonNegativeFloats s),
     check_scope (NamespaceScope s),
     check_labels (InjectLabels s),
     check_prefix (NamespacePrefix s),
     check_tools (InjectPretoolTools s)]"

definition DefaultClientSettings :: ClientSettings where
  "DefaultClientSettings =
    \<lparr> CaptureTurns = Some True,
      SessionDigest = Some True,
      InlineExtract = Some True,
      AutoSave = Some True,
      AutoSaveInterval = Some 10,
      AutoSaveMinEvents = Some 3,
      InjectBriefingPinned = Some 5,
      InjectBriefingFacts = Some 5,
      InjectBriefingProcedures = Some 5,
      InjectBriefingRecent = Some 3,
      InjectBriefingMaxTok = Some 600,
      InjectPretoolItems = Some 3,
      InjectPretoolMaxTok = Some 200,
      InjectPretoolMinScore = Some 0.5,
      InjectPretoolTools = Some [''Read'', ''Write'', ''Edit'', ''MultiEdit''],
      InjectPretoolGateMs = Some 90000,
      InjectDedupe = Some True,
      InjectTelemetry = Some True,
      InjectCooldownMs = Some 1800000,
      InjectCooldownPrompts = Some 3,
      InjectLabels = Some [],
      Recall = Some True,
      Capture = Some True,
      RecallLimit = Some 3,
      InjectRecallMaxTok = Some 250,
      InjectRecallMinScore = Some 0.5,
      MinCaptureChars = Some 0,
      CaptureUserMaxChars = Some 1000,
      CaptureAssistantMaxChars = Some 3000,
      RequestTimeoutMs = Some 30000,
      NamespaceScope = Some ''repo'',
      NamespacePrefix = Some '''' \<rparr>"

record SettingsLayer =
  Source :: string
  S :: ClientSettings

text \<open>\<open>applyPtr\<close>: the new value of the destination; it reports whether the source was set.\<close>

definition applyPtr :: "'a option \<Rightarrow> 'a option \<Rightarrow> 'a option" where
  "applyPtr dst src = (case src of None \<Rightarrow> dst | Some _ \<Rightarrow> src)"

definition note_source :: "string \<Rightarrow> string \<Rightarrow> 'a option \<Rightarrow> (string \<rightharpoonup> string) \<Rightarrow> (string \<rightharpoonup> string)" where
  "note_source key src v m = (case v of None \<Rightarrow> m | Some _ \<Rightarrow> m(key \<mapsto> src))"

definition merge_fields :: "ClientSettings \<Rightarrow> ClientSettings \<Rightarrow> ClientSettings" where
  "merge_fields out s =
    \<lparr> CaptureTurns = applyPtr (CaptureTurns out) (CaptureTurns s),
      SessionDigest = applyPtr (SessionDigest out) (SessionDigest s),
      InlineExtract = applyPtr (InlineExtract out) (InlineExtract s),
      AutoSave = applyPtr (AutoSave out) (AutoSave s),
      AutoSaveInterval = applyPtr (AutoSaveInterval out) (AutoSaveInterval s),
      AutoSaveMinEvents = applyPtr (AutoSaveMinEvents out) (AutoSaveMinEvents s),
      InjectBriefingPinned = applyPtr (InjectBriefingPinned out) (InjectBriefingPinned s),
      InjectBriefingFacts = applyPtr (InjectBriefingFacts out) (InjectBriefingFacts s),
      InjectBriefingProcedures = applyPtr (InjectBriefingProcedures out) (InjectBriefingProcedures s),
      InjectBriefingRecent = applyPtr (InjectBriefingRecent out) (InjectBriefingRecent s),
      InjectBriefingMaxTok = applyPtr (InjectBriefingMaxTok out) (InjectBriefingMaxTok s),
      InjectPretoolItems = applyPtr (InjectPretoolItems out) (InjectPretoolItems s),
      InjectPretoolMaxTok = applyPtr (InjectPretoolMaxTok out) (InjectPretoolMaxTok s),
      InjectPretoolMinScore = applyPtr (InjectPretoolMinScore out) (InjectPretoolMinScore s),
      InjectPretoolTools = applyPtr (InjectPretoolTools out) (InjectPretoolTools s),
      InjectPretoolGateMs = applyPtr (InjectPretoolGateMs out) (InjectPretoolGateMs s),
      InjectDedupe = applyPtr (InjectDedupe out) (InjectDedupe s),
      InjectTelemetry = applyPtr (InjectTelemetry out) (InjectTelemetry s),
      InjectCooldownMs = applyPtr (InjectCooldownMs out) (InjectCooldownMs s),
      InjectCooldownPrompts = applyPtr (InjectCooldownPrompts out) (InjectCooldownPrompts s),
      InjectLabels = applyPtr (InjectLabels out) (InjectLabels s),
      Recall = applyPtr (Recall out) (Recall s),
      Capture = applyPtr (Capture out) (Capture s),
      RecallLimit = applyPtr (RecallLimit out) (RecallLimit s),
      InjectRecallMaxTok = applyPtr (InjectRecallMaxTok out) (InjectRecallMaxTok s),
      InjectRecallMinScore = applyPtr (InjectRecallMinScore out) (InjectRecallMinScore s),
      MinCaptureChars = applyPtr (MinCaptureChars out) (MinCaptureChars s),
      CaptureUserMaxChars = applyPtr (CaptureUserMaxChars out) (CaptureUserMaxChars s),
      CaptureAssistantMaxChars = applyPtr (CaptureAssistantMaxChars out) (CaptureAssistantMaxChars s),
      RequestTimeoutMs = applyPtr (RequestTimeoutMs out) (RequestTimeoutMs s),
      NamespaceScope = applyPtr (NamespaceScope out) (NamespaceScope s),
      NamespacePrefix = applyPtr (NamespacePrefix out) (NamespacePrefix s) \<rparr>"

definition merge_sources :: "SettingsLayer \<Rightarrow> (string \<rightharpoonup> string) \<Rightarrow> (string \<rightharpoonup> string)" where
  "merge_sources l m =
    (let s = S l; n = Source l in
      note_source ''namespace_prefix'' n (NamespacePrefix s) (
      note_source ''namespace_scope'' n (NamespaceScope s) (
      note_source ''request_timeout_ms'' n (RequestTimeoutMs s) (
      note_source ''capture_assistant_max_chars'' n (CaptureAssistantMaxChars s) (
      note_source ''capture_user_max_chars'' n (CaptureUserMaxChars s) (
      note_source ''min_capture_chars'' n (MinCaptureChars s) (
      note_source ''inject_recall_min_score'' n (InjectRecallMinScore s) (
      note_source ''inject_recall_max_tok'' n (InjectRecallMaxTok s) (
      note_source ''recall_limit'' n (RecallLimit s) (
      note_source ''capture'' n (Capture s) (
      note_source ''recall'' n (Recall s) (
      note_source ''inject_labels'' n (InjectLabels s) (
      note_source ''inject_cooldown_prompts'' n (InjectCooldownPrompts s) (
      note_source ''inject_cooldown_ms'' n (InjectCooldownMs s) (
      note_source ''inject_dedupe'' n (InjectDedupe s) (
      note_source ''inject_telemetry'' n (InjectTelemetry s) (
      note_source ''inject_pretool_gate_ms'' n (InjectPretoolGateMs s) (
      note_source ''inject_pretool_tools'' n (InjectPretoolTools s) (
      note_source ''inject_pretool_min_score'' n (InjectPretoolMinScore s) (
      note_source ''inject_pretool_max_tok'' n (InjectPretoolMaxTok s) (
      note_source ''inject_pretool_items'' n (InjectPretoolItems s) (
      note_source ''inject_briefing_max_tok'' n (InjectBriefingMaxTok s) (
      note_source ''inject_briefing_recent'' n (InjectBriefingRecent s) (
      note_source ''inject_briefing_procedures'' n (InjectBriefingProcedures s) (
      note_source ''inject_briefing_facts'' n (InjectBriefingFacts s) (
      note_source ''inject_briefing_pinned'' n (InjectBriefingPinned s) (
      note_source ''auto_save_min_events'' n (AutoSaveMinEvents s) (
      note_source ''auto_save_interval'' n (AutoSaveInterval s) (
      note_source ''auto_save'' n (AutoSave s) (
      note_source ''inline_extract'' n (InlineExtract s) (
      note_source ''session_digest'' n (SessionDigest s) (
      note_source ''capture_turns'' n (CaptureTurns s) (
      m)))))))))))))))))))))))))))))))))"

definition merge_layer ::
  "ClientSettings \<times> (string \<rightharpoonup> string) \<Rightarrow> SettingsLayer \<Rightarrow> ClientSettings \<times> (string \<rightharpoonup> string)" where
  "merge_layer acc l = (merge_fields (fst acc) (S l), merge_sources l (snd acc))"

definition MergeClientSettings :: "SettingsLayer list \<Rightarrow> ClientSettings \<times> (string \<rightharpoonup> string)" where
  "MergeClientSettings layers = foldl merge_layer (no_settings, Map.empty) layers"

section \<open>The wire view\<close>

text \<open>
  The JSON object a settings value encodes to: the tag of each field, with its value
  where it is set (\<open>omitempty\<close> on a pointer drops it exactly when it is nil).
\<close>

definition jint :: "int \<Rightarrow> json" where "jint n = JNum (of_int n)"
definition jstrs :: "string list \<Rightarrow> json" where "jstrs ss = JArr (map JStr ss)"

definition wire_fields :: "ClientSettings \<Rightarrow> (string \<times> json option) list" where
  "wire_fields s =
    [(''capture_turns'', map_option JBool (CaptureTurns s)),
     (''session_digest'', map_option JBool (SessionDigest s)),
     (''inline_extract'', map_option JBool (InlineExtract s)),
     (''auto_save'', map_option JBool (AutoSave s)),
     (''auto_save_interval'', map_option jint (AutoSaveInterval s)),
     (''auto_save_min_events'', map_option jint (AutoSaveMinEvents s)),
     (''inject_briefing_pinned'', map_option jint (InjectBriefingPinned s)),
     (''inject_briefing_facts'', map_option jint (InjectBriefingFacts s)),
     (''inject_briefing_procedures'', map_option jint (InjectBriefingProcedures s)),
     (''inject_briefing_recent'', map_option jint (InjectBriefingRecent s)),
     (''inject_briefing_max_tok'', map_option jint (InjectBriefingMaxTok s)),
     (''inject_pretool_items'', map_option jint (InjectPretoolItems s)),
     (''inject_pretool_max_tok'', map_option jint (InjectPretoolMaxTok s)),
     (''inject_pretool_min_score'', map_option JNum (InjectPretoolMinScore s)),
     (''inject_pretool_tools'', map_option jstrs (InjectPretoolTools s)),
     (''inject_pretool_gate_ms'', map_option jint (InjectPretoolGateMs s)),
     (''inject_telemetry'', map_option JBool (InjectTelemetry s)),
     (''inject_dedupe'', map_option JBool (InjectDedupe s)),
     (''inject_cooldown_ms'', map_option jint (InjectCooldownMs s)),
     (''inject_cooldown_prompts'', map_option jint (InjectCooldownPrompts s)),
     (''inject_labels'', map_option jstrs (InjectLabels s)),
     (''recall'', map_option JBool (Recall s)),
     (''capture'', map_option JBool (Capture s)),
     (''recall_limit'', map_option jint (RecallLimit s)),
     (''inject_recall_max_tok'', map_option jint (InjectRecallMaxTok s)),
     (''inject_recall_min_score'', map_option JNum (InjectRecallMinScore s)),
     (''min_capture_chars'', map_option jint (MinCaptureChars s)),
     (''capture_user_max_chars'', map_option jint (CaptureUserMaxChars s)),
     (''capture_assistant_max_chars'', map_option jint (CaptureAssistantMaxChars s)),
     (''request_timeout_ms'', map_option jint (RequestTimeoutMs s)),
     (''namespace_scope'', map_option JStr (NamespaceScope s)),
     (''namespace_prefix'', map_option JStr (NamespacePrefix s))]"

definition wire :: "ClientSettings \<Rightarrow> (string \<rightharpoonup> json)" where
  "wire s k = (case map_of (wire_fields s) k of Some v \<Rightarrow> v | None \<Rightarrow> None)"

definition settings_keys :: "string list" where
  "settings_keys =
    [''capture_turns'',
     ''session_digest'',
     ''inline_extract'',
     ''auto_save'',
     ''auto_save_interval'',
     ''auto_save_min_events'',
     ''inject_briefing_pinned'',
     ''inject_briefing_facts'',
     ''inject_briefing_procedures'',
     ''inject_briefing_recent'',
     ''inject_briefing_max_tok'',
     ''inject_pretool_items'',
     ''inject_pretool_max_tok'',
     ''inject_pretool_min_score'',
     ''inject_pretool_tools'',
     ''inject_pretool_gate_ms'',
     ''inject_telemetry'',
     ''inject_dedupe'',
     ''inject_cooldown_ms'',
     ''inject_cooldown_prompts'',
     ''inject_labels'',
     ''recall'',
     ''capture'',
     ''recall_limit'',
     ''inject_recall_max_tok'',
     ''inject_recall_min_score'',
     ''min_capture_chars'',
     ''capture_user_max_chars'',
     ''capture_assistant_max_chars'',
     ''request_timeout_ms'',
     ''namespace_scope'',
     ''namespace_prefix'']"

section \<open>The merge\<close>

text \<open>
  Two lists with the same keys agree on a lookup when they agree entry by entry; merging
  the entries of two settings values is \<open>applyPtr\<close> on each.
\<close>

definition wire_of :: "(string \<times> json option) list \<Rightarrow> (string \<rightharpoonup> json)" where
  "wire_of fs k = (case map_of fs k of Some v \<Rightarrow> v | None \<Rightarrow> None)"

lemma wire_wire_of: "wire s = wire_of (wire_fields s)"
  by (simp add: fun_eq_iff wire_def wire_of_def)

lemma map_option_applyPtr: "map_option f (applyPtr x y) = applyPtr (map_option f x) (map_option f y)"
  by (simp add: applyPtr_def split: option.split)

lemma applyPtr_None [simp]: "applyPtr x None = x" "applyPtr None y = y"
  by (simp_all add: applyPtr_def split: option.split)

lemma applyPtr_Some [simp]: "applyPtr x (Some v) = Some v"
  by (simp add: applyPtr_def)

lemma applyPtr_eq_None [simp]: "applyPtr x y = None \<longleftrightarrow> x = None \<and> y = None"
  by (simp add: applyPtr_def split: option.split)

definition merge_entry :: "string \<times> json option \<Rightarrow> string \<times> json option \<Rightarrow> string \<times> json option" where
  "merge_entry a b = (fst a, applyPtr (snd a) (snd b))"

lemma wire_fields_merge: "wire_fields (merge_fields a b) = map2 merge_entry (wire_fields a) (wire_fields b)"
  by (simp add: wire_fields_def merge_fields_def merge_entry_def map_option_applyPtr)

lemma wire_of_map2:
  "map fst fs = map fst gs \<Longrightarrow> wire_of (map2 merge_entry fs gs) = wire_of fs ++ wire_of gs"
proof (induction fs gs rule: list_induct2')
  case (4 x xs y ys)
  then have "wire_of (map2 merge_entry xs ys) k = (wire_of xs ++ wire_of ys) k" for k by simp
  then show ?case using 4
    by (auto simp: fun_eq_iff wire_of_def merge_entry_def map_add_def applyPtr_def split: option.splits)
qed (auto simp: wire_of_def fun_eq_iff map_add_def)

lemma fst_wire_fields: "map fst (wire_fields s) = settings_keys"
  by (simp add: wire_fields_def settings_keys_def)

lemma wire_merge_fields: "wire (merge_fields a b) = wire a ++ wire b"
  by (simp add: wire_wire_of wire_fields_merge wire_of_map2 fst_wire_fields)

lemma wire_no_settings: "wire no_settings = Map.empty"
  by (simp add: fun_eq_iff wire_def wire_fields_def no_settings_def)

lemma distinct_settings_keys: "distinct settings_keys"
  by (simp add: settings_keys_def)

lemma dom_wire: "dom (wire s) \<subseteq> set settings_keys"
  by (auto simp: wire_def fst_wire_fields [of s, symmetric] dom_def split: option.splits dest: map_of_SomeD
      intro: rev_image_eqI)

text \<open>The sources of one layer: its name under every key that it sets, the earlier ones elsewhere.\<close>

lemma note_source_map_option: "note_source k n (map_option f v) m = note_source k n v m"
  by (simp add: note_source_def split: option.split)

lemma merge_sources_foldl:
  "merge_sources l m = foldl (\<lambda>m (k, v). note_source k (Source l) v m) m (wire_fields (S l))"
  by (simp add: merge_sources_def Let_def wire_fields_def note_source_map_option)

lemma foldl_note_source:
  "distinct (map fst fs) \<Longrightarrow>
   foldl (\<lambda>m (k, v). note_source k n v m) m fs k =
     (if wire_of fs k \<noteq> None then Some n else m k)"
proof (induction fs arbitrary: m)
  case Nil
  then show ?case by (simp add: wire_of_def)
next
  case (Cons f fs)
  obtain k' v where f: "f = (k', v)" by force
  have "k' \<notin> fst ` set fs" using Cons.prems f by simp
  then have "map_of fs k' = None" by (simp add: map_of_eq_None_iff)
  then show ?case
    using Cons f by (auto simp: wire_of_def note_source_def split: option.splits)
qed

lemma merge_sources_eq:
  "merge_sources l m k = (if wire (S l) k \<noteq> None then Some (Source l) else m k)"
  by (simp add: merge_sources_foldl foldl_note_source fst_wire_fields distinct_settings_keys
      wire_wire_of)

text \<open>The last layer of a list that sets a key.\<close>

definition winner :: "string \<Rightarrow> SettingsLayer list \<Rightarrow> SettingsLayer option" where
  "winner k layers = find (\<lambda>l. wire (S l) k \<noteq> None) (rev layers)"

lemma MergeClientSettings_snoc:
  "MergeClientSettings (ls @ [l]) = merge_layer (MergeClientSettings ls) l"
  by (simp add: MergeClientSettings_def)

lemma winner_snoc:
  "winner k (ls @ [l]) = (if wire (S l) k \<noteq> None then Some l else winner k ls)"
  by (simp add: winner_def)

lemma MergeClientSettings_winner:
  "wire (fst (MergeClientSettings ls)) k = Option.bind (winner k ls) (\<lambda>l. wire (S l) k)
   \<and> snd (MergeClientSettings ls) k = map_option Source (winner k ls)"
proof (induction ls rule: rev_induct)
  case Nil
  then show ?case by (simp add: MergeClientSettings_def winner_def wire_no_settings)
next
  case (snoc l ls)
  then show ?case
    by (simp add: MergeClientSettings_snoc merge_layer_def wire_merge_fields merge_sources_eq
        winner_snoc map_add_def split: option.splits)
qed

section \<open>Validation\<close>

lemma first_error_None: "first_error es = None \<longleftrightarrow> (\<forall>e \<in> set es. e = None)"
  by (induction es rule: first_error.induct) auto

lemma first_negative_int_None:
  "first_negative_int fs = None \<longleftrightarrow> (\<forall>(k, v) \<in> set fs. \<not> int_below 0 v)"
  by (induction fs rule: first_negative_int.induct) auto

lemma first_negative_float_None:
  "first_negative_float fs = None \<longleftrightarrow> (\<forall>(k, v) \<in> set fs. \<forall>x. v = Some x \<longrightarrow> 0 \<le> x)"
  by (induction fs rule: first_negative_float.induct) (auto split: option.splits)

text \<open>Every check is a condition on one field that an unset field satisfies.\<close>

lemma int_below_applyPtr: "\<not> int_below b x \<Longrightarrow> \<not> int_below b y \<Longrightarrow> \<not> int_below b (applyPtr x y)"
  by (cases y) auto

lemma check_applyPtr:
  "check_scope x = None \<Longrightarrow> check_scope y = None \<Longrightarrow> check_scope (applyPtr x y) = None"
  "check_labels u = None \<Longrightarrow> check_labels v = None \<Longrightarrow> check_labels (applyPtr u v) = None"
  "check_prefix x = None \<Longrightarrow> check_prefix y = None \<Longrightarrow> check_prefix (applyPtr x y) = None"
  "check_tools u = None \<Longrightarrow> check_tools v = None \<Longrightarrow> check_tools (applyPtr u v) = None"
  by (cases y; cases v; simp)+

lemma Validate_None_iff:
  "Validate s = None \<longleftrightarrow>
     \<not> int_below 1 (AutoSaveInterval s) \<and> \<not> int_below 100 (RequestTimeoutMs s)
     \<and> first_negative_int (nonNegativeInts s) = None
     \<and> first_negative_float (nonNegativeFloats s) = None
     \<and> check_scope (NamespaceScope s) = None \<and> check_labels (InjectLabels s) = None
     \<and> check_prefix (NamespacePrefix s) = None \<and> check_tools (InjectPretoolTools s) = None"
  by (simp add: Validate_def first_error_None)

lemma nonNegativeInts_merge:
  assumes "first_negative_int (nonNegativeInts a) = None" "first_negative_int (nonNegativeInts b) = None"
  shows "first_negative_int (nonNegativeInts (merge_fields a b)) = None"
  using assms unfolding first_negative_int_None
  by (simp add: nonNegativeInts_def merge_fields_def int_below_applyPtr)

lemma nonNegativeFloats_merge:
  assumes "first_negative_float (nonNegativeFloats a) = None"
    and "first_negative_float (nonNegativeFloats b) = None"
  shows "first_negative_float (nonNegativeFloats (merge_fields a b)) = None"
  using assms unfolding first_negative_float_None
  by (auto simp: nonNegativeFloats_def merge_fields_def applyPtr_def
      split: option.splits)

lemma Validate_merge_fields:
  assumes "Validate a = None" and "Validate b = None"
  shows "Validate (merge_fields a b) = None"
proof -
  have "AutoSaveInterval (merge_fields a b) = applyPtr (AutoSaveInterval a) (AutoSaveInterval b)"
    "RequestTimeoutMs (merge_fields a b) = applyPtr (RequestTimeoutMs a) (RequestTimeoutMs b)"
    "NamespaceScope (merge_fields a b) = applyPtr (NamespaceScope a) (NamespaceScope b)"
    "InjectLabels (merge_fields a b) = applyPtr (InjectLabels a) (InjectLabels b)"
    "NamespacePrefix (merge_fields a b) = applyPtr (NamespacePrefix a) (NamespacePrefix b)"
    "InjectPretoolTools (merge_fields a b) = applyPtr (InjectPretoolTools a) (InjectPretoolTools b)"
    by (simp_all add: merge_fields_def)
  then show ?thesis
    using assms
    by (simp add: Validate_None_iff int_below_applyPtr check_applyPtr nonNegativeInts_merge
        nonNegativeFloats_merge)
qed

lemma Validate_no_settings: "Validate no_settings = None"
  by (simp add: Validate_None_iff no_settings_def int_below_def nonNegativeInts_def
      nonNegativeFloats_def check_scope_def check_labels_def check_prefix_def check_tools_def)

lemma Validate_DefaultClientSettings: "Validate DefaultClientSettings = None"
  by (simp add: Validate_None_iff DefaultClientSettings_def int_below_def nonNegativeInts_def
      nonNegativeFloats_def check_scope_def check_labels_def check_prefix_def check_tools_def valid_scope_def)

lemma Validate_Merge:
  "\<forall>l \<in> set ls. Validate (S l) = None \<Longrightarrow> Validate (fst (MergeClientSettings ls)) = None"
proof (induction ls rule: rev_induct)
  case Nil
  then show ?case by (simp add: MergeClientSettings_def Validate_no_settings)
next
  case (snoc l ls)
  then show ?case
    by (simp add: MergeClientSettings_snoc merge_layer_def Validate_merge_fields)
qed

lemma dom_wire_Default: "dom (wire DefaultClientSettings) = set settings_keys"
proof
  show "dom (wire DefaultClientSettings) \<subseteq> set settings_keys" by (rule dom_wire)
  have "\<forall>k \<in> set settings_keys. wire DefaultClientSettings k \<noteq> None"
    by (simp add: settings_keys_def wire_def wire_fields_def DefaultClientSettings_def)
  then show "set settings_keys \<subseteq> dom (wire DefaultClientSettings)" by auto
qed

end
