(* ===== verification/Store_Types.thy ===== *)
theory Store_Types
  imports Client_Settings
begin

text \<open>
  The types of the storage contract, \<open>internal/store/store.go\<close>: scored hits, filters, the
  deferred-repair states and rows, namespace links, API keys, pins and the activity log.
  The contract itself (the interface \<open>Store\<close>) is the locale of the theory
  \<open>Store_Contract\<close>.
\<close>

datatype store_error =
    ErrNotFound
  | ErrConflict string string            \<comment> \<open>the id and the namespace that holds it\<close>
  | DimsMismatch nat nat                 \<comment> \<open>dimensions given, dimensions expected\<close>
  | ChunkDimsMismatch int nat nat        \<comment> \<open>chunk index, dimensions given, expected\<close>
  | InvalidRepairState string
  | UniqueViolation string               \<comment> \<open>a uniqueness constraint of the schema\<close>

record Scored =
  sMemory :: memory
  Score :: real
  MatchedChunk :: string

definition WithScore :: "Scored \<Rightarrow> real \<Rightarrow> Scored" where
  "WithScore s v = s\<lparr>Score := v\<rparr>"

lemma WithScore_simps [simp]:
  "sMemory (WithScore s v) = sMemory s" "Score (WithScore s v) = v"
  "MatchedChunk (WithScore s v) = MatchedChunk s"
  by (simp_all add: WithScore_def)

type_synonym SortKey = string

abbreviation SortCreatedAt :: SortKey where "SortCreatedAt \<equiv> ''created_at''"
abbreviation SortUpdatedAt :: SortKey where "SortUpdatedAt \<equiv> ''updated_at''"
abbreviation SortLastAccessedAt :: SortKey where "SortLastAccessedAt \<equiv> ''last_accessed_at''"
abbreviation SortAccessCount :: SortKey where "SortAccessCount \<equiv> ''access_count''"
abbreviation SortImportance :: SortKey where "SortImportance \<equiv> ''importance''"

record SortSpec =
  Key :: SortKey
  Asc :: bool

text \<open>A \<open>map[string]string\<close> is an association list: the code only ranges over it.\<close>

record Filter =
  fTiers :: "Tier list"
  fLevels :: "Level list"
  fTags :: "string list"
  fMetadata :: "(string \<times> string) list"
  ExcludeMetadata :: "(string \<times> string) list"
  ExcludeIDs :: "string list"
  IncludeExpired :: bool
  IncludeSuperseded :: bool
  Now :: Time
  AsOf :: Time
  MemoryTypes :: "string list"
  CreatedAfter :: Time
  AccessedAfter :: Time
  fSort :: SortSpec

definition no_filter :: Filter where
  "no_filter =
    \<lparr> fTiers = [], fLevels = [], fTags = [], fMetadata = [], ExcludeMetadata = [], ExcludeIDs = [],
      IncludeExpired = False, IncludeSuperseded = False, Now = 0, AsOf = 0, MemoryTypes = [],
      CreatedAfter = 0, AccessedAfter = 0, fSort = \<lparr> Key = '''', Asc = False \<rparr> \<rparr>"

section \<open>Deferred repair\<close>

type_synonym RepairState = string

abbreviation RepairNone :: RepairState where "RepairNone \<equiv> ''''"
abbreviation RepairPending :: RepairState where "RepairPending \<equiv> ''pending''"
abbreviation RepairEnrich :: RepairState where "RepairEnrich \<equiv> ''enrich''"
abbreviation RepairFailed :: RepairState where "RepairFailed \<equiv> ''failed''"

definition ValidRepairState :: "RepairState \<Rightarrow> bool" where
  "ValidRepairState s \<longleftrightarrow> s = RepairNone \<or> s = RepairPending \<or> s = RepairEnrich \<or> s = RepairFailed"

record RepairRow =
  rID :: string
  rNamespace :: string
  rTier :: Tier
  rContent :: string
  rFingerprint :: string
  State :: RepairState
  Attempts :: int

record RepairStat =
  statState :: RepairState
  Count :: nat
  OldestAt :: Time
  LastError :: string

section \<open>Links, keys, pins\<close>

record NamespaceLink =
  Src :: string
  Dst :: string
  lTiers :: "Tier list"
  lNote :: string
  lCreatedAt :: Time

record NamespaceActivityRow =
  NS :: string
  Total :: nat
  LastWrite :: Time

record APIKey =
  Name :: string
  Hash :: string
  HomeNS :: string
  DefaultNS :: string
  kCreatedAt :: Time
  Disabled :: bool
  Admin :: bool
  ReadOnly :: bool
  Settings :: ClientSettings

record Pin =
  pKey :: string
  pNamespace :: string
  pNote :: string
  CreatedBy :: string
  pCreatedAt :: Time
  pUpdatedAt :: Time

section \<open>The activity log\<close>

type_synonym EventKind = string

abbreviation EventRecall :: EventKind where "EventRecall \<equiv> ''recall''"
abbreviation EventGet :: EventKind where "EventGet \<equiv> ''get''"
abbreviation EventBriefing :: EventKind where "EventBriefing \<equiv> ''briefing''"
abbreviation EventRemember :: EventKind where "EventRemember \<equiv> ''remember''"
abbreviation EventUpdate :: EventKind where "EventUpdate \<equiv> ''update''"
abbreviation EventForget :: EventKind where "EventForget \<equiv> ''forget''"
abbreviation EventSupersede :: EventKind where "EventSupersede \<equiv> ''supersede''"
abbreviation EventPin :: EventKind where "EventPin \<equiv> ''pin''"
abbreviation EventUnpin :: EventKind where "EventUnpin \<equiv> ''unpin''"
abbreviation EventSettings :: EventKind where "EventSettings \<equiv> ''settings''"
abbreviation EventInject :: EventKind where "EventInject \<equiv> ''inject''"

definition ValidEventKind :: "EventKind \<Rightarrow> bool" where
  "ValidEventKind k \<longleftrightarrow>
     k \<in> set [EventRecall, EventGet, EventBriefing, EventRemember, EventUpdate, EventForget,
             EventSupersede, EventPin, EventUnpin, EventSettings, EventInject]"

record MemorySnapshot =
  snapNamespace :: string
  snapTier :: Tier
  snapSummary :: string

record Event =
  eID :: int
  OpID :: string
  Kind :: EventKind
  eNamespace :: string
  Query :: string
  MemoryID :: string
  MemoryNS :: string
  MemoryTier :: Tier
  MemorySummary :: string
  Rank :: int
  eScore :: "real option"
  Detail :: metadata
  Actor :: string
  ActorKind :: string
  eCreatedAt :: Time

record EventFilter =
  efNamespace :: string
  efNamespaces :: "string list"
  efKinds :: "EventKind list"
  efActor :: string
  efTiers :: "Tier list"
  efText :: string
  Since :: Time
  BeforeT :: Time
  BeforeID :: int
  Limit :: int

end
