(* ===== verification/Sql_Tables.thy ===== *)
theory Sql_Tables
  imports Prelude "HOL-Library.List_Lexorder" "HOL-Library.Char_ord"
begin

text \<open>
  A table is the list of its rows, in the order of their row ids. The statements that the
  drivers execute are \<open>update_where\<close>, \<open>delete_where\<close>, \<open>count_where\<close>, appending a row
  whose id is \<open>next_rowid\<close>, and \<open>order_by\<close>; \<open>lookup\<close> reads the row with a given
  value in a column.
\<close>

section \<open>Statements\<close>

definition lookup :: "('r \<Rightarrow> 'k) \<Rightarrow> 'r list \<Rightarrow> 'k \<Rightarrow> 'r option" where
  "lookup key t k = find (\<lambda>r. key r = k) t"

definition update_where :: "('r \<Rightarrow> bool) \<Rightarrow> ('r \<Rightarrow> 'r) \<Rightarrow> 'r list \<Rightarrow> 'r list" where
  "update_where p f t = map (\<lambda>r. if p r then f r else r) t"

definition delete_where :: "('r \<Rightarrow> bool) \<Rightarrow> 'r list \<Rightarrow> 'r list" where
  "delete_where p t = filter (\<lambda>r. \<not> p r) t"

definition count_where :: "('r \<Rightarrow> bool) \<Rightarrow> 'r list \<Rightarrow> nat" where
  "count_where p t = length (filter p t)"

text \<open>
  SQLite gives a new row the id that follows the largest id in use (the tables have an
  \<open>INTEGER PRIMARY KEY\<close> without \<open>AUTOINCREMENT\<close>).
\<close>

definition next_rowid :: "int list \<Rightarrow> int" where
  "next_rowid ids = fold max ids 0 + 1"

text \<open>\<open>ORDER BY\<close> with the comparison of its sort terms; \<open>LIMIT n\<close>.\<close>

abbreviation order_by :: "('r \<Rightarrow> 'r \<Rightarrow> bool) \<Rightarrow> 'r list \<Rightarrow> 'r list" where
  "order_by \<equiv> SliceStable"

definition limit_rows :: "int \<Rightarrow> 'r list \<Rightarrow> 'r list" where
  "limit_rows n t = (if n < 0 then t else take (nat n) t)"

section \<open>Lookups\<close>

lemma lookup_Nil [table_simps]: "lookup key [] k = None"
  by (simp add: lookup_def)

lemma lookup_append [table_simps]:
  "lookup key (s @ t) k = (case lookup key s k of Some r \<Rightarrow> Some r | None \<Rightarrow> lookup key t k)"
  by (simp add: lookup_def find_append split: option.split)

lemma lookup_single [table_simps]: "lookup key [r] k = (if key r = k then Some r else None)"
  by (simp add: lookup_def)

lemma lookup_Some: "lookup key t k = Some r \<Longrightarrow> r \<in> set t \<and> key r = k"
  by (auto simp: lookup_def dest: find_Some_set)

lemma lookup_None_iff: "lookup key t k = None \<longleftrightarrow> k \<notin> key ` set t"
  by (auto simp: lookup_def find_None_iff)

lemma lookup_unique: "distinct (map key t) \<Longrightarrow> r \<in> set t \<Longrightarrow> lookup key t (key r) = Some r"
proof (induction t)
  case (Cons a t)
  then show ?case by (auto simp: lookup_def image_iff)
qed (simp add: lookup_def)

lemma lookup_eq_Some_iff:
  "distinct (map key t) \<Longrightarrow> lookup key t k = Some r \<longleftrightarrow> r \<in> set t \<and> key r = k"
  by (metis lookup_Some lookup_unique)

lemma lookup_update [table_simps]:
  "(\<And>r. key (f r) = key r) \<Longrightarrow>
   lookup key (update_where p f t) k = map_option (\<lambda>r. if p r then f r else r) (lookup key t k)"
  by (induction t) (auto simp: lookup_def update_where_def)

lemma lookup_delete:
  "distinct (map key t) \<Longrightarrow>
   lookup key (delete_where p t) k =
     (case lookup key t k of Some r \<Rightarrow> if p r then None else Some r | None \<Rightarrow> None)"
proof (induction t)
  case Nil
  then show ?case by (simp add: delete_where_def lookup_def)
next
  case (Cons a t)
  have "lookup key t (key a) = None"
    using Cons.prems by (simp add: lookup_None_iff)
  then show ?case using Cons by (auto simp: lookup_def delete_where_def)
qed

lemma lookup_delete_key [table_simps]:
  "lookup key (delete_where (\<lambda>r. q (key r)) t) k = (if q k then None else lookup key t k)"
  by (induction t) (auto simp: lookup_def delete_where_def)

section \<open>Rows\<close>

lemma set_delete_where [table_simps]: "set (delete_where p t) = {r \<in> set t. \<not> p r}"
  by (auto simp: delete_where_def)

lemma set_update_where: "set (update_where p f t) = (\<lambda>r. if p r then f r else r) ` set t"
  by (simp add: update_where_def)

lemma map_update_where [table_simps]:
  "(\<And>r. g (f r) = g r) \<Longrightarrow> map g (update_where p f t) = map g t"
  by (induction t) (auto simp: update_where_def)

lemma length_update_where [simp]: "length (update_where p f t) = length t"
  by (simp add: update_where_def)

lemma distinct_delete_where [table_simps]: "distinct (map g t) \<Longrightarrow> distinct (map g (delete_where p t))"
  by (simp add: delete_where_def distinct_map_filter)

lemma count_where_0 [simp]: "count_where p t = 0 \<longleftrightarrow> (\<forall>r \<in> set t. \<not> p r)"
  by (simp add: count_where_def filter_empty_conv)

lemma update_where_none: "(\<forall>r \<in> set t. \<not> p r) \<Longrightarrow> update_where p f t = t"
  unfolding update_where_def by (induction t) auto

lemma delete_where_none: "(\<forall>r \<in> set t. \<not> p r) \<Longrightarrow> delete_where p t = t"
  by (simp add: delete_where_def)

lemma length_delete_where: "length (delete_where p t) + count_where p t = length t"
  using sum_length_filter_compl [of p t] by (simp add: delete_where_def count_where_def)

lemma count_delete_where [simp]: "count_where p (delete_where p t) = 0"
  by (auto simp: delete_where_def count_where_def filter_empty_conv)

lemma fold_max_ge: "(a :: int) \<le> fold max xs a \<and> (\<forall>x \<in> set xs. x \<le> fold max xs a)"
proof (induction xs arbitrary: a)
  case (Cons x xs)
  have "max x a \<le> fold max xs (max x a)" and "\<forall>y \<in> set xs. y \<le> fold max xs (max x a)"
    using Cons by auto
  then show ?case by auto
qed simp

lemma next_rowid_fresh: "next_rowid ids \<notin> set ids"
  using fold_max_ge [of 0 ids] by (force simp: next_rowid_def)

lemma next_rowid_greater: "x \<in> set ids \<Longrightarrow> x < next_rowid ids"
  using fold_max_ge [of 0 ids] by (force simp: next_rowid_def)

lemma next_rowid_pos: "0 < next_rowid ids"
  using fold_max_ge [of 0 ids] by (simp add: next_rowid_def)

lemma set_limit_rows: "set (limit_rows n t) \<subseteq> set t"
  by (auto simp: limit_rows_def dest: in_set_takeD)

lemma length_limit_rows: "0 \<le> n \<Longrightarrow> length (limit_rows n t) \<le> nat n"
  by (simp add: limit_rows_def)

end
