(* ===== verification/Sqlite_Schema.thy ===== *)
theory Sqlite_Schema
  imports Store_Types Sql_Tables
begin

text \<open>
  The database of \<open>internal/store/sqlitevec\<close>: the rows of its tables (the columns of the
  \<open>CREATE TABLE\<close> statements of \<open>migrate\<close>), the conversions between rows and the Go structs
  (\<open>scanRow\<close> and the arguments of the \<open>INSERT\<close>), the search filter (\<open>filterClause\<close>), the
  sort order (\<open>orderClause\<close>) and the schema invariant.

  JSON columns hold the value they encode. What SQLite's JSON functions print for an array
  or an object, the distance of sqlite-vec and the ranking of FTS5 are third-party code:
  the fields of the record \<open>engine\<close>, an argument of the operations that use them.
\<close>

section \<open>Rows and tables\<close>

record mem_row =
  c_rowid :: int
  c_id :: string
  c_namespace :: string
  c_tier :: string
  c_content :: string
  c_summary :: string
  c_metadata :: metadata
  c_tags :: "string list"
  c_importance :: real
  c_created_at :: int
  c_updated_at :: int
  c_last_accessed_at :: int
  c_access_count :: int
  c_expires_at :: "int option"
  c_superseded_by :: "string option"
  c_valid_from :: "int option"
  c_valid_to :: "int option"
  c_confidence :: "real option"
  c_assessed_importance :: "real option"
  c_fingerprint :: string
  c_level :: string
  c_linked_memory_ids :: "string list"
  c_embed_state :: string
  c_embed_attempts :: int
  c_embed_next_run_at :: "int option"
  c_embed_last_error :: string

record vec_row =
  v_rowid :: int
  v_namespace :: string
  v_embedding :: vec

record fts_row =
  f_rowid :: int
  f_content :: string
  f_summary :: string
  f_tags :: string

record chunk_row =
  k_rowid :: int
  k_memory_rowid :: int
  k_chunk_idx :: int
  k_text :: string

datatype meta_value = MetaText string | MetaSettings ClientSettings

record db =
  dims :: nat
  memories :: "mem_row list"
  vec_memories :: "vec_row list"
  fts_memories :: "fts_row list"
  memory_chunks :: "chunk_row list"
  vec_chunks :: "vec_row list"
  meta :: "string \<rightharpoonup> meta_value"
  namespace_links :: "NamespaceLink list"
  api_keys :: "APIKey list"
  memory_events :: "Event list"
  pins :: "Pin list"

definition empty_db :: "nat \<Rightarrow> db" where
  "empty_db n =
    \<lparr> dims = n, memories = [], vec_memories = [], fts_memories = [], memory_chunks = [],
      vec_chunks = [], meta = Map.empty, namespace_links = [], api_keys = [],
      memory_events = [], pins = [] \<rparr>"

record engine =
  json_text :: "json \<Rightarrow> string"
  distance :: "vec \<Rightarrow> vec \<Rightarrow> real"
  bm25 :: "string list \<Rightarrow> fts_row \<Rightarrow> real option"  \<comment> \<open>\<open>None\<close> when the row does not match\<close>

section \<open>Rows and Go values\<close>

abbreviation ms :: "Time \<Rightarrow> int" where "ms \<equiv> UnixMilli"
abbreviation fromMs :: "int \<Rightarrow> Time" where "fromMs \<equiv> of_UnixMilli"

definition repairDueAt :: "string \<Rightarrow> int option" where
  "repairDueAt state = (if state = '''' then None else Some 0)"

definition insert_row :: "int \<Rightarrow> memory \<Rightarrow> mem_row" where
  "insert_row rowID m =
    \<lparr> c_rowid = rowID, c_id = ID m, c_namespace = Namespace m, c_tier = mTier m,
      c_content = Content m, c_summary = Summary m, c_metadata = Metadata m, c_tags = Tags m,
      c_importance = Importance m, c_created_at = ms (CreatedAt m), c_updated_at = ms (UpdatedAt m),
      c_last_accessed_at = ms (LastAccessedAt m), c_access_count = AccessCount m,
      c_expires_at = map_option ms (ExpiresAt m), c_superseded_by = SupersededBy m,
      c_valid_from = map_option ms (ValidFrom m), c_valid_to = map_option ms (ValidTo m),
      c_confidence = Confidence m, c_assessed_importance = AssessedImportance m,
      c_fingerprint = Fingerprint (Content m), c_level = mLevel m,
      c_linked_memory_ids = LinkedMemoryIDs m, c_embed_state = EmbedState m,
      c_embed_attempts = 0, c_embed_next_run_at = repairDueAt (EmbedState m),
      c_embed_last_error = '''' \<rparr>"

text \<open>The \<open>UPDATE\<close> of \<open>Upsert\<close>: all columns but the row id, id, namespace and \<open>created_at\<close>.\<close>

definition update_row :: "memory \<Rightarrow> mem_row \<Rightarrow> mem_row" where
  "update_row m r = r
    \<lparr> c_tier := mTier m, c_content := Content m, c_summary := Summary m,
      c_metadata := Metadata m, c_tags := Tags m, c_importance := Importance m,
      c_updated_at := ms (UpdatedAt m), c_last_accessed_at := ms (LastAccessedAt m),
      c_access_count := AccessCount m, c_expires_at := map_option ms (ExpiresAt m),
      c_superseded_by := SupersededBy m, c_valid_from := map_option ms (ValidFrom m),
      c_valid_to := map_option ms (ValidTo m), c_confidence := Confidence m,
      c_assessed_importance := AssessedImportance m, c_fingerprint := Fingerprint (Content m),
      c_level := mLevel m, c_linked_memory_ids := LinkedMemoryIDs m, c_embed_state := EmbedState m,
      c_embed_attempts := (if EmbedState m = '''' then 0 else c_embed_attempts r),
      c_embed_next_run_at := repairDueAt (EmbedState m) \<rparr>"

definition scanRow :: "mem_row \<Rightarrow> memory" where
  "scanRow r =
    \<lparr> ID = c_id r, Namespace = c_namespace r, mTier = c_tier r, mLevel = c_level r,
      Content = c_content r, Summary = c_summary r, Metadata = c_metadata r, Tags = c_tags r,
      Importance = c_importance r, CreatedAt = fromMs (c_created_at r),
      UpdatedAt = fromMs (c_updated_at r), LastAccessedAt = fromMs (c_last_accessed_at r),
      AccessCount = c_access_count r, ExpiresAt = map_option fromMs (c_expires_at r),
      SupersededBy = c_superseded_by r, ValidFrom = map_option fromMs (c_valid_from r),
      ValidTo = map_option fromMs (c_valid_to r), Confidence = c_confidence r,
      AssessedImportance = c_assessed_importance r, LinkedMemoryIDs = c_linked_memory_ids r,
      Embedding = [], EmbedState = c_embed_state r, Chunks = None \<rparr>"

definition fts_row_of :: "int \<Rightarrow> memory \<Rightarrow> fts_row" where
  "fts_row_of rowID m =
    \<lparr> f_rowid = rowID, f_content = Content m, f_summary = Summary m, f_tags = Join (Tags m) '' '' \<rparr>"

section \<open>The search filter\<close>

text \<open>
  The \<open>value\<close> column of \<open>json_each\<close>, compared with a text parameter: a JSON string is
  its text, an array or object the text SQLite prints for it, a number, boolean or null
  is not equal to any text.
\<close>

definition json_each_text :: "engine \<Rightarrow> json \<Rightarrow> string option" where
  "json_each_text eng v =
     (case v of JStr s \<Rightarrow> Some s | JArr _ \<Rightarrow> Some (json_text eng v) | JObj _ \<Rightarrow> Some (json_text eng v)
      | _ \<Rightarrow> None)"

definition meta_has :: "engine \<Rightarrow> metadata \<Rightarrow> string \<Rightarrow> string \<Rightarrow> bool" where
  "meta_has eng md k v =
     (case md k of Some j \<Rightarrow> json_each_text eng j = Some v | None \<Rightarrow> False)"

definition filter_ref :: "Time \<Rightarrow> Filter \<Rightarrow> Time" where
  "filter_ref wall f =
     (let ref = (if \<not> IsZero (AsOf f) then AsOf f else Now f)
      in if IsZero ref then wall else ref)"

definition null_or :: "('a \<Rightarrow> bool) \<Rightarrow> 'a option \<Rightarrow> bool" where
  "null_or p c = (case c of None \<Rightarrow> True | Some x \<Rightarrow> p x)"

definition filterClause :: "engine \<Rightarrow> Time \<Rightarrow> Filter \<Rightarrow> mem_row \<Rightarrow> bool" where
  "filterClause eng wall f r \<longleftrightarrow>
     (fTiers f \<noteq> [] \<longrightarrow> c_tier r \<in> set (fTiers f)) \<and>
     (fLevels f \<noteq> [] \<longrightarrow> c_level r \<in> set (fLevels f)) \<and>
     list_all (\<lambda>tag. tag \<in> set (c_tags r)) (fTags f) \<and>
     list_all (\<lambda>(k, v). meta_has eng (c_metadata r) k v) (fMetadata f) \<and>
     list_all (\<lambda>(k, v). \<not> meta_has eng (c_metadata r) k v) (ExcludeMetadata f) \<and>
     (ExcludeIDs f \<noteq> [] \<longrightarrow> c_id r \<notin> set (ExcludeIDs f)) \<and>
     (MemoryTypes f \<noteq> [] \<longrightarrow>
        list_ex (\<lambda>t. meta_has eng (c_metadata r) ''memory_type'' t) (MemoryTypes f)) \<and>
     (\<not> IsZero (CreatedAfter f) \<longrightarrow> ms (CreatedAfter f) \<le> c_created_at r) \<and>
     (\<not> IsZero (AccessedAfter f) \<longrightarrow> ms (AccessedAfter f) \<le> c_last_accessed_at r) \<and>
     (\<not> IncludeExpired f \<longrightarrow> null_or (\<lambda>e. ms (filter_ref wall f) < e) (c_expires_at r)) \<and>
     (if \<not> IsZero (AsOf f)
      then null_or (\<lambda>v. v \<le> ms (AsOf f)) (c_valid_from r)
           \<and> null_or (\<lambda>v. ms (AsOf f) < v) (c_valid_to r)
      else (\<not> IncludeSuperseded f \<longrightarrow>
              c_superseded_by r = None
              \<and> null_or (\<lambda>v. ms (filter_ref wall f) < v) (c_valid_to r)))"

section \<open>The sort order\<close>

text \<open>The value of the whitelisted sort column; an unknown key falls back to \<open>created_at\<close>.\<close>

definition sort_column :: "SortKey \<Rightarrow> mem_row \<Rightarrow> real" where
  "sort_column k r =
     (if k = SortUpdatedAt then of_int (c_updated_at r)
      else if k = SortLastAccessedAt then of_int (c_last_accessed_at r)
      else if k = SortAccessCount then of_int (c_access_count r)
      else if k = SortImportance then c_importance r
      else of_int (c_created_at r))"

definition orderClause :: "SortSpec \<Rightarrow> mem_row \<Rightarrow> mem_row \<Rightarrow> bool" where
  "orderClause s a b \<longleftrightarrow>
     (let x = sort_column (Key s) a; y = sort_column (Key s) b
      in if x \<noteq> y then (if Asc s then x < y else y < x) else c_id a < c_id b)"

definition distanceToScore :: "real \<Rightarrow> real" where
  "distanceToScore d = 1 / (1 + d)"

section \<open>Terms of a query\<close>

definition is_term_char :: "char \<Rightarrow> bool" where
  "is_term_char c \<longleftrightarrow> (CHR ''a'' \<le> c \<and> c \<le> CHR ''z'') \<or> (CHR ''0'' \<le> c \<and> c \<le> CHR ''9'')"

text \<open>\<open>tokenize\<close>: the loop over the runes, with the current term and the flushed ones.\<close>

fun tokenize_loop :: "string \<Rightarrow> string \<Rightarrow> string list" where
  "tokenize_loop [] cur = (if 2 \<le> length cur then [cur] else [])"
| "tokenize_loop (r # rs) cur =
     (if is_term_char r then tokenize_loop rs (cur @ [r])
      else (if 2 \<le> length cur then [cur] else []) @ tokenize_loop rs '''')"

definition tokenize :: "string \<Rightarrow> string list" where
  "tokenize s = tokenize_loop (ToLower s) ''''"

definition ftsQuery :: "string \<Rightarrow> string" where
  "ftsQuery query = Join (map (\<lambda>t. CHR 34 # t @ [CHR 34]) (tokenize query)) '' OR ''"

definition escapeLike :: "string \<Rightarrow> string" where
  "escapeLike s = concat (map (\<lambda>c. if c = CHR 92 \<or> c = CHR ''%'' \<or> c = CHR ''_'' then [CHR 92, c] else [c]) s)"

text \<open>
  SQLite's \<open>LIKE ... ESCAPE\<close> over bytes: \<open>%\<close> matches any text, \<open>_\<close> any character, and the
  character after the escape itself; letters match in either case.
\<close>

fun like :: "char \<Rightarrow> string \<Rightarrow> string \<Rightarrow> bool" where
  "like esc [] s = (s = [])"
| "like esc (c # p) s =
     (if c = esc then
        (case p of [] \<Rightarrow> False
         | d # p' \<Rightarrow> (case s of [] \<Rightarrow> False | x # s' \<Rightarrow> lower_char d = lower_char x \<and> like esc p' s'))
      else if c = CHR ''%'' then
        like esc p s \<or> (case s of [] \<Rightarrow> False | x # s' \<Rightarrow> like esc (c # p) s')
      else if c = CHR ''_'' then (case s of [] \<Rightarrow> False | x # s' \<Rightarrow> like esc p s')
      else (case s of [] \<Rightarrow> False | x # s' \<Rightarrow> lower_char c = lower_char x \<and> like esc p s'))"

end
