(* ===== verification/Sqlite_Memories.thy ===== *)
theory Sqlite_Memories
  imports Sqlite_Schema
begin

text \<open>
  The operations of \<open>internal/store/sqlitevec/store.go\<close> and \<open>chunks.go\<close> on memories,
  vectors, chunks and namespaces. Each is one transaction: an error leaves the database as
  it was, so an operation returns the error or the new database (with its result). The
  errors of the engine itself (a full disk, a lost connection) are not modelled. The clock
  that an operation reads is its argument \<open>wall\<close>.
\<close>

section \<open>Chunks\<close>

definition chunk_ids_of :: "int \<Rightarrow> db \<Rightarrow> int set" where
  "chunk_ids_of memRowID d = k_rowid ` {c \<in> set (memory_chunks d). k_memory_rowid c = memRowID}"

definition clear_chunks :: "int \<Rightarrow> db \<Rightarrow> db" where
  "clear_chunks memRowID d = d
    \<lparr> vec_chunks := delete_where (\<lambda>v. v_rowid v \<in> chunk_ids_of memRowID d) (vec_chunks d),
      memory_chunks := delete_where (\<lambda>c. k_memory_rowid c = memRowID) (memory_chunks d) \<rparr>"

fun insert_chunks :: "int \<Rightarrow> string \<Rightarrow> chunk list \<Rightarrow> db \<Rightarrow> store_error + db" where
  "insert_chunks memRowID ns [] d = Inr d"
| "insert_chunks memRowID ns (c # cs) d =
     (if length (chunkEmbedding c) \<noteq> dims d
      then Inl (ChunkDimsMismatch (Idx c) (length (chunkEmbedding c)) (dims d))
      else if (memRowID, Idx c) \<in> set (map (\<lambda>k. (k_memory_rowid k, k_chunk_idx k)) (memory_chunks d))
      then Inl (UniqueViolation ''memory_chunks'')
      else
        (let chunkRowID = next_rowid (map k_rowid (memory_chunks d))
         in if chunkRowID \<in> set (map v_rowid (vec_chunks d))
            then Inl (UniqueViolation ''vec_chunks'')
            else insert_chunks memRowID ns cs
              (d\<lparr> memory_chunks := memory_chunks d @
                    [\<lparr> k_rowid = chunkRowID, k_memory_rowid = memRowID,
                       k_chunk_idx = Idx c, k_text = Text c \<rparr>],
                  vec_chunks := vec_chunks d @
                    [\<lparr> v_rowid = chunkRowID, v_namespace = ns, v_embedding = chunkEmbedding c \<rparr>] \<rparr>)))"

definition writeChunks :: "int \<Rightarrow> string \<Rightarrow> chunk list \<Rightarrow> db \<Rightarrow> store_error + db" where
  "writeChunks memRowID ns chunks d = insert_chunks memRowID ns chunks (clear_chunks memRowID d)"

definition deleteChunksFor :: "int list \<Rightarrow> db \<Rightarrow> db" where
  "deleteChunksFor memRowIDs d = fold clear_chunks memRowIDs d"

text \<open>
  Each chunk vector of the memory is deleted and inserted again under the new partition;
  the rows move to the end of the table, in the order the query returned them.
\<close>

definition reassignChunks :: "int \<Rightarrow> string \<Rightarrow> db \<Rightarrow> db" where
  "reassignChunks memRowID toNS d =
     (let mine = (\<lambda>v. v_rowid v \<in> chunk_ids_of memRowID d)
      in d\<lparr> vec_chunks := delete_where mine (vec_chunks d)
              @ map (\<lambda>v. v\<lparr> v_namespace := toNS \<rparr>) (filter mine (vec_chunks d)) \<rparr>)"

section \<open>Writing a memory\<close>

definition vec_clear :: "int \<Rightarrow> db \<Rightarrow> db" where
  "vec_clear rowID d = d\<lparr> vec_memories := delete_where (\<lambda>v. v_rowid v = rowID) (vec_memories d) \<rparr>"

definition vec_insert :: "int \<Rightarrow> string \<Rightarrow> vec \<Rightarrow> db \<Rightarrow> db" where
  "vec_insert rowID ns v d = d\<lparr> vec_memories := vec_memories d @
     [\<lparr> v_rowid = rowID, v_namespace = ns, v_embedding = v \<rparr>] \<rparr>"

definition fts_rewrite :: "int \<Rightarrow> memory \<Rightarrow> db \<Rightarrow> db" where
  "fts_rewrite rowID m d = d\<lparr> fts_memories :=
     delete_where (\<lambda>f. f_rowid f = rowID) (fts_memories d) @ [fts_row_of rowID m] \<rparr>"

definition write_indexes :: "int \<Rightarrow> bool \<Rightarrow> memory \<Rightarrow> db \<Rightarrow> store_error + db" where
  "write_indexes rowID rewriteChunks m d =
     (let d1 = vec_clear rowID d;
          d2 = (if Embedding m \<noteq> [] then vec_insert rowID (Namespace m) (Embedding m) d1 else d1);
          r = (if rewriteChunks
               then writeChunks rowID (Namespace m) (case Chunks m of None \<Rightarrow> [] | Some cs \<Rightarrow> cs) d2
               else Inr d2)
      in case r of Inl e \<Rightarrow> Inl e | Inr d3 \<Rightarrow> Inr (fts_rewrite rowID m d3))"

definition Upsert :: "memory \<Rightarrow> db \<Rightarrow> store_error + db" where
  "Upsert m d =
     (if Embedding m \<noteq> [] \<and> length (Embedding m) \<noteq> dims d
      then Inl (DimsMismatch (length (Embedding m)) (dims d))
      else
        (case lookup c_id (memories d) (ID m) of
           None \<Rightarrow>
             (let rowID = next_rowid (map c_rowid (memories d))
              in write_indexes rowID True m (d\<lparr> memories := memories d @ [insert_row rowID m] \<rparr>))
         | Some r \<Rightarrow>
             if c_namespace r \<noteq> Namespace m then Inl (ErrConflict (ID m) (c_namespace r))
             else write_indexes (c_rowid r)
                    (Chunks m \<noteq> None \<or> c_fingerprint r \<noteq> Fingerprint (Content m)) m
                    (d\<lparr> memories := update_where (\<lambda>x. c_rowid x = c_rowid r) (update_row m) (memories d) \<rparr>)))"

section \<open>Point updates\<close>

text \<open>The \<open>WHERE id=? AND namespace=?\<close> of the point statements.\<close>

definition row_at :: "string \<Rightarrow> string \<Rightarrow> mem_row \<Rightarrow> bool" where
  "row_at ns i r \<longleftrightarrow> c_id r = i \<and> c_namespace r = ns"

text \<open>An \<open>UPDATE\<close> whose \<open>RowsAffected\<close> of 0 is reported as \<open>ErrNotFound\<close>.\<close>

definition update_or_notfound :: "(mem_row \<Rightarrow> bool) \<Rightarrow> (mem_row \<Rightarrow> mem_row) \<Rightarrow> db \<Rightarrow> store_error + db" where
  "update_or_notfound p f d =
     (if count_where p (memories d) = 0 then Inl ErrNotFound
      else Inr (d\<lparr> memories := update_where p f (memories d) \<rparr>))"

definition Reinforce :: "string \<Rightarrow> string list \<Rightarrow> Time \<Rightarrow> Time option \<Rightarrow> db \<Rightarrow> db" where
  "Reinforce ns ids accessedAt newExpiry d =
     (if ids = [] then d
      else d\<lparr> memories := update_where (\<lambda>r. c_namespace r = ns \<and> c_id r \<in> set ids)
        (\<lambda>r. r\<lparr> c_access_count := c_access_count r + 1, c_last_accessed_at := ms accessedAt,
               c_expires_at := (case newExpiry of
                   None \<Rightarrow> c_expires_at r
                 | Some e \<Rightarrow> (case c_expires_at r of None \<Rightarrow> None | Some _ \<Rightarrow> Some (ms e))) \<rparr>)
        (memories d) \<rparr>)"

definition SetSuperseded :: "Time \<Rightarrow> string \<Rightarrow> string \<Rightarrow> string \<Rightarrow> db \<Rightarrow> store_error + db" where
  "SetSuperseded wall ns i supersededBy d =
     update_or_notfound (row_at ns i)
       (\<lambda>r. r\<lparr> c_superseded_by := Some supersededBy,
              c_valid_to := (case c_valid_to r of Some v \<Rightarrow> Some v | None \<Rightarrow> Some (ms wall)) \<rparr>) d"

definition Restore :: "string \<Rightarrow> string \<Rightarrow> db \<Rightarrow> store_error + db" where
  "Restore ns i d =
     update_or_notfound (row_at ns i) (\<lambda>r. r\<lparr> c_superseded_by := None, c_valid_to := None \<rparr>) d"

definition Retier :: "string \<Rightarrow> string \<Rightarrow> Tier \<Rightarrow> Time option \<Rightarrow> db \<Rightarrow> store_error + db" where
  "Retier ns i tier expiresAt d =
     update_or_notfound (row_at ns i)
       (\<lambda>r. r\<lparr> c_tier := tier, c_expires_at := map_option ms expiresAt \<rparr>) d"

definition valid_at :: "Time \<Rightarrow> mem_row \<Rightarrow> bool" where
  "valid_at now r \<longleftrightarrow> null_or (\<lambda>v. ms now < v) (c_valid_to r)"

definition SetConfidence :: "string \<Rightarrow> string \<Rightarrow> real \<Rightarrow> Time \<Rightarrow> db \<Rightarrow> store_error + db" where
  "SetConfidence ns i confidence now d =
     update_or_notfound (\<lambda>r. row_at ns i r \<and> valid_at now r)
       (\<lambda>r. r\<lparr> c_confidence := Some confidence, c_updated_at := ms now \<rparr>) d"

definition SetAssessedImportance :: "string \<Rightarrow> string \<Rightarrow> real \<Rightarrow> Time \<Rightarrow> db \<Rightarrow> store_error + db" where
  "SetAssessedImportance ns i v now d =
     update_or_notfound (\<lambda>r. row_at ns i r \<and> valid_at now r)
       (\<lambda>r. r\<lparr> c_assessed_importance := Some v \<rparr>) d"

definition MarkContradicted ::
  "string \<Rightarrow> string \<Rightarrow> string \<Rightarrow> real \<Rightarrow> Time \<Rightarrow> db \<Rightarrow> store_error + db" where
  "MarkContradicted ns i contradictedBy confidence now d =
     update_or_notfound (row_at ns i)
       (\<lambda>r. r\<lparr> c_metadata := (c_metadata r)
                 (''contradicted_by'' \<mapsto> JStr contradictedBy,
                  ''contradicted_prev_confidence'' \<mapsto>
                    (case c_confidence r of None \<Rightarrow> JNull | Some c \<Rightarrow> JNum c)),
              c_confidence := Some confidence,
              c_valid_to := (case c_valid_to r of Some v \<Rightarrow> Some v | None \<Rightarrow> Some (ms now)),
              c_updated_at := ms now \<rparr>) d"

section \<open>Deletion\<close>

definition delete_memory_rows :: "int \<Rightarrow> db \<Rightarrow> db" where
  "delete_memory_rows rowID d =
     (let d1 = deleteChunksFor [rowID] d
      in d1\<lparr> memories := delete_where (\<lambda>r. c_rowid r = rowID) (memories d1),
             vec_memories := delete_where (\<lambda>v. v_rowid v = rowID) (vec_memories d1),
             fts_memories := delete_where (\<lambda>f. f_rowid f = rowID) (fts_memories d1) \<rparr>)"

definition Delete :: "string \<Rightarrow> string \<Rightarrow> db \<Rightarrow> store_error + db" where
  "Delete ns i d =
     (case find (row_at ns i) (memories d) of
        None \<Rightarrow> Inl ErrNotFound
      | Some r \<Rightarrow> Inr (delete_memory_rows (c_rowid r) d))"

definition DeleteIfExpiredBefore :: "string \<Rightarrow> string \<Rightarrow> Time \<Rightarrow> db \<Rightarrow> store_error + db" where
  "DeleteIfExpiredBefore ns i cutoff d =
     (case find (\<lambda>r. row_at ns i r \<and>
               (case c_expires_at r of None \<Rightarrow> False | Some e \<Rightarrow> e \<le> ms cutoff)) (memories d) of
        None \<Rightarrow> Inl ErrNotFound
      | Some r \<Rightarrow> Inr (delete_memory_rows (c_rowid r) d))"

definition collectRowIDs :: "string \<Rightarrow> db \<Rightarrow> int list" where
  "collectRowIDs ns d = map c_rowid (filter (\<lambda>r. c_namespace r = ns) (memories d))"

definition DeleteNamespace :: "string \<Rightarrow> db \<Rightarrow> db \<times> nat" where
  "DeleteNamespace ns d =
     (let d0 = d\<lparr> namespace_links := delete_where (\<lambda>l. Src l = ns \<or> Dst l = ns) (namespace_links d) \<rparr>;
          rowIDs = collectRowIDs ns d0
      in if rowIDs = [] then (d0, 0)
         else
           (let mine = set rowIDs;
                chunkIDs = k_rowid ` {c \<in> set (memory_chunks d0). k_memory_rowid c \<in> mine}
            in (d0\<lparr> vec_chunks := delete_where (\<lambda>v. v_rowid v \<in> chunkIDs) (vec_chunks d0),
                    memory_chunks := delete_where (\<lambda>c. k_memory_rowid c \<in> mine) (memory_chunks d0),
                    vec_memories := delete_where (\<lambda>v. v_rowid v \<in> mine) (vec_memories d0),
                    fts_memories := delete_where (\<lambda>f. f_rowid f \<in> mine) (fts_memories d0),
                    memories := delete_where (\<lambda>r. c_namespace r = ns) (memories d0) \<rparr>,
                length rowIDs)))"

section \<open>Moving memories between namespaces\<close>

definition reassign_one :: "string \<Rightarrow> string \<Rightarrow> string \<Rightarrow> db \<times> nat \<Rightarrow> db \<times> nat" where
  "reassign_one fromNS toNS i acc =
     (let d = fst acc
      in case find (row_at fromNS i) (memories d) of
           None \<Rightarrow> acc
         | Some r \<Rightarrow>
             (let rowID = c_rowid r;
                  emb = lookup v_rowid (vec_memories d) rowID;
                  d1 = d\<lparr> memories := update_where (\<lambda>x. c_rowid x = rowID)
                           (\<lambda>x. x\<lparr> c_namespace := toNS \<rparr>) (memories d) \<rparr>;
                  d2 = vec_clear rowID d1;
                  d3 = (case emb of None \<Rightarrow> d2 | Some v \<Rightarrow> vec_insert rowID toNS (v_embedding v) d2);
                  d4 = reassignChunks rowID toNS d3
              in (d4, Suc (snd acc))))"

definition Reassign :: "string \<Rightarrow> string list \<Rightarrow> string \<Rightarrow> db \<Rightarrow> db \<times> nat" where
  "Reassign fromNS ids toNS d =
     (if ids = [] \<or> fromNS = toNS then (d, 0)
      else fold (reassign_one fromNS toNS) ids (d, 0))"

section \<open>Reading\<close>

definition Get :: "string \<Rightarrow> string \<Rightarrow> db \<Rightarrow> store_error + memory" where
  "Get ns i d =
     (case find (row_at ns i) (memories d) of None \<Rightarrow> Inl ErrNotFound | Some r \<Rightarrow> Inr (scanRow r))"

definition IDsByPrefix :: "string \<Rightarrow> string \<Rightarrow> int \<Rightarrow> db \<Rightarrow> string list" where
  "IDsByPrefix ns prefix limit d =
     (if prefix = '''' \<or> limit \<le> 0 then []
      else limit_rows limit (map c_id (order_by (\<lambda>a b. c_id a < c_id b)
             (filter (\<lambda>r. c_namespace r = ns
                          \<and> like (CHR 92) (escapeLike prefix @ ''%'') (c_id r)
                          \<and> take (length prefix) (c_id r) = prefix) (memories d)))))"

definition GetEmbedding :: "string \<Rightarrow> string \<Rightarrow> db \<Rightarrow> store_error + vec option" where
  "GetEmbedding ns i d =
     (case find (row_at ns i) (memories d) of
        None \<Rightarrow> Inl ErrNotFound
      | Some r \<Rightarrow> Inr (map_option v_embedding (lookup v_rowid (vec_memories d) (c_rowid r))))"

definition PredecessorIDs :: "string \<Rightarrow> string \<Rightarrow> db \<Rightarrow> string list" where
  "PredecessorIDs ns i d =
     map c_id (filter (\<lambda>r. c_namespace r = ns \<and> c_superseded_by r = Some i) (memories d))"

definition live_at :: "Time \<Rightarrow> mem_row \<Rightarrow> bool" where
  "live_at now r \<longleftrightarrow> c_superseded_by r = None
     \<and> null_or (\<lambda>e. ms now < e) (c_expires_at r) \<and> valid_at now r"

definition GetByFingerprint ::
  "Time \<Rightarrow> string \<Rightarrow> Tier \<Rightarrow> string \<Rightarrow> Time \<Rightarrow> db \<Rightarrow> store_error + memory" where
  "GetByFingerprint wall ns tier fingerprint now d =
     (if fingerprint = '''' then Inl ErrNotFound
      else
        (let now' = (if IsZero now then wall else now)
         in case order_by (\<lambda>a b. c_created_at b < c_created_at a)
                   (filter (\<lambda>r. c_namespace r = ns \<and> c_tier r = tier \<and> c_fingerprint r = fingerprint
                                \<and> live_at now' r) (memories d)) of
              [] \<Rightarrow> Inl ErrNotFound
            | r # _ \<Rightarrow> Inr (scanRow r)))"

definition ListExpired :: "Time \<Rightarrow> int \<Rightarrow> db \<Rightarrow> memory list" where
  "ListExpired now limit d =
     map scanRow (limit_rows limit
       (filter (\<lambda>r. case c_expires_at r of None \<Rightarrow> False | Some e \<Rightarrow> e \<le> ms now) (memories d)))"

definition List_memories :: "engine \<Rightarrow> Time \<Rightarrow> string \<Rightarrow> Filter \<Rightarrow> int \<Rightarrow> db \<Rightarrow> memory list" where
  "List_memories eng wall ns f limit d =
     (let rows = order_by (orderClause (fSort f))
                   (filter (\<lambda>r. c_namespace r = ns \<and> filterClause eng wall f r) (memories d))
      in map scanRow (if limit > 0 then limit_rows limit rows else rows))"

definition ListNamespaces :: "db \<Rightarrow> string list" where
  "ListNamespaces d = order_by (<) (remdups (map c_namespace (memories d)))"

definition NamespaceActivity :: "engine \<Rightarrow> Time \<Rightarrow> Time \<Rightarrow> db \<Rightarrow> NamespaceActivityRow list" where
  "NamespaceActivity eng wall now d =
     (let live = filter (filterClause eng wall (no_filter\<lparr> Now := now \<rparr>)) (memories d)
      in map (\<lambda>ns. let mine = filter (\<lambda>r. c_namespace r = ns) live
                   in \<lparr> NS = ns, Total = length mine,
                        LastWrite = fromMs (Max (set (map c_created_at mine))) \<rparr>)
           (order_by (<) (remdups (map c_namespace live))))"

section \<open>Searching\<close>

abbreviation overFetch :: nat where "overFetch \<equiv> 4"
abbreviation chunkOverFetch :: nat where "chunkOverFetch \<equiv> 8"

text \<open>sqlite-vec's KNN over one partition: the \<open>k\<close> nearest rows, nearest first.\<close>

definition knn :: "engine \<Rightarrow> string \<Rightarrow> vec \<Rightarrow> nat \<Rightarrow> vec_row list \<Rightarrow> vec_row list" where
  "knn eng ns q k vs =
     take k (order_by (\<lambda>a b. distance eng q (v_embedding a) < distance eng q (v_embedding b))
       (filter (\<lambda>v. v_namespace v = ns) vs))"

definition join_memories :: "('v \<Rightarrow> int) \<Rightarrow> db \<Rightarrow> 'v list \<Rightarrow> ('v \<times> mem_row) list" where
  "join_memories key d vs =
     List.map_filter (\<lambda>v. map_option (Pair v) (lookup c_rowid (memories d) (key v))) vs"

definition VectorSearch ::
  "engine \<Rightarrow> Time \<Rightarrow> string \<Rightarrow> vec \<Rightarrow> Filter \<Rightarrow> nat \<Rightarrow> db \<Rightarrow> store_error + Scored list" where
  "VectorSearch eng wall ns q f k d =
     (if length q \<noteq> dims d then Inl (DimsMismatch (length q) (dims d))
      else Inr (map (\<lambda>(v, r). \<lparr> sMemory = scanRow r,
                               Score = distanceToScore (distance eng q (v_embedding v)),
                               MatchedChunk = '''' \<rparr>)
        (take k (filter (\<lambda>(v, r). filterClause eng wall f r)
          (join_memories v_rowid d (knn eng ns q (k * overFetch) (vec_memories d)))))))"

definition KeywordSearch ::
  "engine \<Rightarrow> Time \<Rightarrow> string \<Rightarrow> string \<Rightarrow> Filter \<Rightarrow> nat \<Rightarrow> db \<Rightarrow> Scored list" where
  "KeywordSearch eng wall ns query f k d =
     (if tokenize query = [] then []
      else
        (let ranked = List.map_filter (\<lambda>x. map_option (Pair x) (bm25 eng (tokenize query) x)) (fts_memories d);
             rows = List.map_filter (\<lambda>(x, b). map_option (\<lambda>r. (b, r)) (lookup c_rowid (memories d) (f_rowid x))) ranked;
             kept = filter (\<lambda>(b, r). c_namespace r = ns \<and> filterClause eng wall f r) rows
         in map (\<lambda>(b, r). \<lparr> sMemory = scanRow r, Score = - b, MatchedChunk = '''' \<rparr>)
              (take k (order_by (\<lambda>x y. fst x < fst y) kept))))"

text \<open>
  \<open>GROUP BY m.rowid\<close> with \<open>MIN(v.distance)\<close>: one row per memory, that of its nearest chunk
  (the KNN rows come nearest first, so the first row of a memory is its minimum).
\<close>

fun group_first :: "('a \<Rightarrow> 'b) \<Rightarrow> 'a list \<Rightarrow> 'a list" where
  "group_first g [] = []"
| "group_first g (x # xs) = x # group_first g (filter (\<lambda>y. g y \<noteq> g x) xs)"

definition ChunkVectorSearch ::
  "engine \<Rightarrow> Time \<Rightarrow> string \<Rightarrow> vec \<Rightarrow> Filter \<Rightarrow> int \<Rightarrow> db \<Rightarrow> store_error + Scored list" where
  "ChunkVectorSearch eng wall ns q f k d =
     (if length q \<noteq> dims d then Inl (DimsMismatch (length q) (dims d))
      else if k \<le> 0 then Inr []
      else
        (let hits = knn eng ns q (nat k * overFetch * chunkOverFetch) (vec_chunks d);
             mapped = List.map_filter
               (\<lambda>v. map_option (Pair v) (lookup k_rowid (memory_chunks d) (v_rowid v))) hits;
             rows = join_memories (\<lambda>(v, c). k_memory_rowid c) d mapped;
             kept = filter (\<lambda>((v, c), r). filterClause eng wall f r) rows
         in Inr (map (\<lambda>((v, c), r). \<lparr> sMemory = scanRow r,
                               Score = distanceToScore (distance eng q (v_embedding v)),
                               MatchedChunk = k_text c \<rparr>)
              (take (nat k) (group_first (\<lambda>((v, c), r). c_rowid r) kept)))))"

section \<open>The chunk backfill's queries\<close>

definition has_chunks :: "db \<Rightarrow> mem_row \<Rightarrow> bool" where
  "has_chunks d r = list_ex (\<lambda>c. k_memory_rowid c = c_rowid r) (memory_chunks d)"

text \<open>
  SQLite's \<open>length()\<close> of a text: its characters up to a NUL, where a lead byte takes the
  continuation bytes that follow it along.
\<close>

function sql_chars :: "nat list \<Rightarrow> nat" where
  "sql_chars [] = 0"
| "sql_chars (b # bs) =
     (if b = 0 then 0
      else Suc (sql_chars (if 0xC0 \<le> b then dropWhile (\<lambda>x. 0x80 \<le> x \<and> x < 0xC0) bs else bs)))"
  by pat_completeness auto
termination
  by (relation "measure length") (auto simp: le_imp_less_Suc length_dropWhile_le)

definition sql_length :: "string \<Rightarrow> nat" where
  "sql_length s = sql_chars (map of_char s)"

definition unchunked :: "string \<Rightarrow> int \<Rightarrow> db \<Rightarrow> mem_row \<Rightarrow> bool" where
  "unchunked ns minRunes d r \<longleftrightarrow>
     minRunes < int (sql_length (c_content r)) \<and> \<not> has_chunks d r \<and> (ns \<noteq> '''' \<longrightarrow> c_namespace r = ns)"

definition ListUnchunked :: "string \<Rightarrow> int \<Rightarrow> string \<Rightarrow> int \<Rightarrow> db \<Rightarrow> memory list" where
  "ListUnchunked ns minRunes afterID limit d =
     (if limit \<le> 0 then []
      else map scanRow (limit_rows limit (order_by (\<lambda>a b. c_id a < c_id b)
        (filter (\<lambda>r. unchunked ns minRunes d r \<and> (afterID \<noteq> '''' \<longrightarrow> afterID < c_id r)) (memories d)))))"

definition CountUnchunked :: "string \<Rightarrow> int \<Rightarrow> db \<Rightarrow> nat" where
  "CountUnchunked ns minRunes d = count_where (unchunked ns minRunes d) (memories d)"

definition PutChunks ::
  "string \<Rightarrow> string \<Rightarrow> Time \<Rightarrow> chunk list \<Rightarrow> db \<Rightarrow> store_error + (bool \<times> db)" where
  "PutChunks ns i updatedAt chunks d =
     (case find (row_at ns i) (memories d) of
        None \<Rightarrow> Inr (False, d)
      | Some r \<Rightarrow>
          if c_updated_at r \<noteq> ms updatedAt then Inr (False, d)
          else
            (case writeChunks (c_rowid r) ns chunks d of
               Inl e \<Rightarrow> Inl e
             | Inr d' \<Rightarrow> Inr (True, d')))"

definition CountChunks :: "string \<Rightarrow> db \<Rightarrow> nat" where
  "CountChunks ns d =
     count_where (\<lambda>c. ns = '''' \<or>
       (case lookup c_rowid (memories d) (k_memory_rowid c) of
          None \<Rightarrow> True
        | Some r \<Rightarrow> c_namespace r = ns)) (memory_chunks d)"

section \<open>Store metadata\<close>

definition EmbedModel :: "db \<Rightarrow> string" where
  "EmbedModel d = (case meta d ''embed_model'' of Some (MetaText v) \<Rightarrow> v | _ \<Rightarrow> '''')"

definition SetEmbedModel :: "string \<Rightarrow> db \<Rightarrow> db" where
  "SetEmbedModel model d = d\<lparr> meta := (meta d)(''embed_model'' \<mapsto> MetaText model) \<rparr>"

definition GlobalClientSettings :: "db \<Rightarrow> ClientSettings" where
  "GlobalClientSettings d =
     (case meta d ''client_settings_defaults'' of Some (MetaSettings s) \<Rightarrow> s | _ \<Rightarrow> no_settings)"

definition SetGlobalClientSettings :: "ClientSettings \<Rightarrow> db \<Rightarrow> db" where
  "SetGlobalClientSettings s d =
     d\<lparr> meta := (meta d)(''client_settings_defaults'' \<mapsto> MetaSettings s) \<rparr>"

end
