(* ===== verification/Sqlite_Invariant.thy ===== *)
theory Sqlite_Invariant
  imports Sqlite_Memories
begin

text \<open>
  The schema invariant of the SQLite store: unique row ids and memory ids, fingerprints
  that are those of the content, and the four index tables in step with the memories: a
  vector row stands in the partition of its memory's namespace and has the configured
  width, every memory has exactly its full-text row, and chunk rows and chunk vectors
  belong to an existing memory. Every operation preserves it; the lemmas are about the
  statements, so that the proof for an operation is a composition.
\<close>

section \<open>The invariant\<close>

definition ns_of :: "mem_row list \<Rightarrow> int \<Rightarrow> string option" where
  "ns_of t i = map_option c_namespace (lookup c_rowid t i)"

definition fts_of_row :: "mem_row \<Rightarrow> fts_row" where
  "fts_of_row r =
    \<lparr> f_rowid = c_rowid r, f_content = c_content r, f_summary = c_summary r,
      f_tags = Join (c_tags r) '' '' \<rparr>"

definition rows_ok :: "mem_row list \<Rightarrow> bool" where
  "rows_ok t \<longleftrightarrow> distinct (map c_rowid t) \<and> distinct (map c_id t)
     \<and> (\<forall>r \<in> set t. c_fingerprint r = Fingerprint (c_content r))"

definition vecs_ok :: "nat \<Rightarrow> mem_row list \<Rightarrow> vec_row list \<Rightarrow> bool" where
  "vecs_ok n t vs \<longleftrightarrow> distinct (map v_rowid vs)
     \<and> (\<forall>v \<in> set vs. ns_of t (v_rowid v) = Some (v_namespace v) \<and> length (v_embedding v) = n)"

definition fts_ok :: "mem_row list \<Rightarrow> fts_row list \<Rightarrow> bool" where
  "fts_ok t fs \<longleftrightarrow> distinct (map f_rowid fs)
     \<and> (\<forall>i. lookup f_rowid fs i = map_option fts_of_row (lookup c_rowid t i))"

definition chunks_ok :: "mem_row list \<Rightarrow> chunk_row list \<Rightarrow> bool" where
  "chunks_ok t cs \<longleftrightarrow> distinct (map k_rowid cs)
     \<and> distinct (map (\<lambda>c. (k_memory_rowid c, k_chunk_idx c)) cs)
     \<and> (\<forall>c \<in> set cs. ns_of t (k_memory_rowid c) \<noteq> None)"

definition chunk_vecs_ok :: "nat \<Rightarrow> mem_row list \<Rightarrow> chunk_row list \<Rightarrow> vec_row list \<Rightarrow> bool" where
  "chunk_vecs_ok n t cs vcs \<longleftrightarrow> distinct (map v_rowid vcs)
     \<and> v_rowid ` set vcs = k_rowid ` set cs
     \<and> (\<forall>v \<in> set vcs. length (v_embedding v) = n)
     \<and> (\<forall>v \<in> set vcs. \<forall>c \<in> set cs. k_rowid c = v_rowid v \<longrightarrow>
          ns_of t (k_memory_rowid c) = Some (v_namespace v))"

definition db_ok :: "db \<Rightarrow> bool" where
  "db_ok d \<longleftrightarrow> rows_ok (memories d) \<and> vecs_ok (dims d) (memories d) (vec_memories d)
     \<and> fts_ok (memories d) (fts_memories d) \<and> chunks_ok (memories d) (memory_chunks d)
     \<and> chunk_vecs_ok (dims d) (memories d) (memory_chunks d) (vec_chunks d)"

lemma empty_db_ok: "db_ok (empty_db n)"
  by (simp add: db_ok_def empty_db_def rows_ok_def vecs_ok_def fts_ok_def chunks_ok_def
      chunk_vecs_ok_def lookup_def)

section \<open>Statements that leave the indexed columns alone\<close>

definition indexed :: "mem_row \<Rightarrow> int \<times> string \<times> string \<times> string \<times> string \<times> string list \<times> string" where
  "indexed r = (c_rowid r, c_id r, c_namespace r, c_content r, c_summary r, c_tags r, c_fingerprint r)"

lemma indexed_cong:
  assumes "indexed (f r) = indexed r"
  shows "c_rowid (f r) = c_rowid r" "c_id (f r) = c_id r" "c_namespace (f r) = c_namespace r"
    "fts_of_row (f r) = fts_of_row r" "c_content (f r) = c_content r" "c_fingerprint (f r) = c_fingerprint r"
  using assms by (auto simp: indexed_def fts_of_row_def)

lemma ns_of_update:
  assumes "\<And>r. c_rowid (f r) = c_rowid r" and "\<And>r. c_namespace (f r) = c_namespace r"
  shows "ns_of (update_where p f t) i = ns_of t i"
  by (cases "lookup c_rowid t i") (simp_all add: ns_of_def lookup_update assms)

lemma db_ok_update_columns:
  assumes f: "\<And>r. indexed (f r) = indexed r" and ok: "db_ok d"
  shows "db_ok (d\<lparr> memories := update_where p f (memories d) \<rparr>)"
proof -
  note [simp] = indexed_cong [of f, OF f]
  let ?t = "memories d" and ?u = "update_where p f (memories d)"
  have ns: "ns_of ?u i = ns_of ?t i" for i by (rule ns_of_update) simp_all
  have fts: "map_option fts_of_row (lookup c_rowid ?u i) = map_option fts_of_row (lookup c_rowid ?t i)" for i
    by (cases "lookup c_rowid ?t i") (simp_all add: lookup_update)
  have "rows_ok ?u" using ok by (auto simp: db_ok_def rows_ok_def map_update_where set_update_where)
  then show ?thesis
    using ok by (simp add: db_ok_def vecs_ok_def fts_ok_def chunks_ok_def chunk_vecs_ok_def ns fts)
qed

lemma db_ok_update_or_notfound:
  assumes "\<And>r. indexed (f r) = indexed r" and "db_ok d" and "update_or_notfound p f d = Inr d'"
  shows "db_ok d'"
  using assms by (auto simp: update_or_notfound_def db_ok_update_columns split: if_splits)

section \<open>Statements on the index tables\<close>

text \<open>Between its statements \<open>Upsert\<close> holds the invariant but for the full-text row it is about to rewrite.\<close>

definition fts_ok_but :: "int \<Rightarrow> mem_row list \<Rightarrow> fts_row list \<Rightarrow> bool" where
  "fts_ok_but i t fs \<longleftrightarrow> distinct (map f_rowid fs)
     \<and> (\<forall>j. j \<noteq> i \<longrightarrow> lookup f_rowid fs j = map_option fts_of_row (lookup c_rowid t j))"

definition ok_but_fts :: "int \<Rightarrow> db \<Rightarrow> bool" where
  "ok_but_fts i d \<longleftrightarrow> rows_ok (memories d) \<and> vecs_ok (dims d) (memories d) (vec_memories d)
     \<and> fts_ok_but i (memories d) (fts_memories d) \<and> chunks_ok (memories d) (memory_chunks d)
     \<and> chunk_vecs_ok (dims d) (memories d) (memory_chunks d) (vec_chunks d)"

lemma db_ok_ok_but_fts: "db_ok d \<Longrightarrow> ok_but_fts i d"
  by (simp add: db_ok_def ok_but_fts_def fts_ok_def fts_ok_but_def)

lemma vec_clear_ok: "ok_but_fts i d \<Longrightarrow> ok_but_fts i (vec_clear j d)"
  by (simp add: ok_but_fts_def vec_clear_def vecs_ok_def distinct_delete_where set_delete_where)

lemma vec_insert_ok:
  assumes "ok_but_fts i d" and "ns_of (memories d) j = Some ns" and "length v = dims d"
    and "j \<notin> v_rowid ` set (vec_memories d)"
  shows "ok_but_fts i (vec_insert j ns v d)"
  using assms by (auto simp: ok_but_fts_def vec_insert_def vecs_ok_def)

lemma chunk_vecs_ok_delete:
  assumes ok: "chunk_vecs_ok n t cs vcs" and dc: "distinct (map k_rowid cs)"
  shows "chunk_vecs_ok n t (delete_where p cs)
           (delete_where (\<lambda>v. v_rowid v \<in> k_rowid ` {c \<in> set cs. p c}) vcs)"
proof -
  have inj: "c = c'" if "c \<in> set cs" "c' \<in> set cs" "k_rowid c = k_rowid c'" for c c'
    using dc that by (auto simp: distinct_map inj_on_def)
  have "k_rowid ` {c \<in> set cs. \<not> p c} = k_rowid ` set cs - k_rowid ` {c \<in> set cs. p c}"
    using inj by blast
  moreover have "v_rowid ` {v \<in> set vcs. v_rowid v \<notin> k_rowid ` {c \<in> set cs. p c}}
      = v_rowid ` set vcs - k_rowid ` {c \<in> set cs. p c}" by auto
  ultimately show ?thesis
    using ok by (auto simp: chunk_vecs_ok_def distinct_delete_where set_delete_where)
qed

lemma chunks_ok_delete: "chunks_ok t cs \<Longrightarrow> chunks_ok t (delete_where p cs)"
  by (auto simp: chunks_ok_def distinct_delete_where set_delete_where)

lemma clear_chunks_ok: "ok_but_fts i d \<Longrightarrow> ok_but_fts i (clear_chunks j d)"
  using chunk_vecs_ok_delete [of "dims d" "memories d" "memory_chunks d" "vec_chunks d" "\<lambda>c. k_memory_rowid c = j"]
    chunks_ok_delete [of "memories d" "memory_chunks d" "\<lambda>c. k_memory_rowid c = j"]
  by (auto simp: ok_but_fts_def clear_chunks_def chunk_ids_of_def chunks_ok_def)

lemma insert_chunks_ok:
  "insert_chunks j ns cs d = Inr d' \<Longrightarrow> ok_but_fts i d \<Longrightarrow> ns_of (memories d) j = Some ns \<Longrightarrow>
   ok_but_fts i d'"
proof (induction cs arbitrary: d)
  case Nil
  then show ?case by simp
next
  case (Cons c cs)
  let ?k = "next_rowid (map k_rowid (memory_chunks d))"
  let ?d1 = "d\<lparr> memory_chunks := memory_chunks d @
                    [\<lparr> k_rowid = ?k, k_memory_rowid = j, k_chunk_idx = Idx c, k_text = Text c \<rparr>],
                vec_chunks := vec_chunks d @
                    [\<lparr> v_rowid = ?k, v_namespace = ns, v_embedding = chunkEmbedding c \<rparr>] \<rparr>"
  have fresh: "\<forall>c \<in> set (memory_chunks d). k_rowid c \<noteq> ?k"
    using next_rowid_fresh [of "map k_rowid (memory_chunks d)"] by force
  have len: "length (chunkEmbedding c) = dims d"
    and new: "(j, Idx c) \<notin> (\<lambda>k. (k_memory_rowid k, k_chunk_idx k)) ` set (memory_chunks d)"
    and newv: "\<forall>v \<in> set (vec_chunks d). v_rowid v \<noteq> ?k"
    and rest: "insert_chunks j ns cs ?d1 = Inr d'"
    using Cons.prems(1) by (force simp: Let_def split: if_splits)+
  have "ok_but_fts i ?d1"
    using Cons.prems(2,3) fresh len new newv
    unfolding ok_but_fts_def chunks_ok_def chunk_vecs_ok_def by auto
  then show ?case using Cons.IH [OF rest] Cons.prems(3) by simp
qed

lemma writeChunks_ok:
  "writeChunks j ns cs d = Inr d' \<Longrightarrow> ok_but_fts i d \<Longrightarrow> ns_of (memories d) j = Some ns \<Longrightarrow>
   ok_but_fts i d'"
  unfolding writeChunks_def
  by (erule insert_chunks_ok) (auto simp: clear_chunks_ok, simp add: clear_chunks_def)

lemma fts_rewrite_ok:
  assumes ok: "ok_but_fts i d" and r: "lookup c_rowid (memories d) i = Some r"
    and eq: "c_content r = Content m" "c_summary r = Summary m" "c_tags r = Tags m"
  shows "db_ok (fts_rewrite i m d)"
proof -
  have "c_rowid r = i" using r by (auto dest: lookup_Some)
  then have "fts_of_row r = fts_row_of i m" using eq by (simp add: fts_of_row_def fts_row_of_def)
  moreover have "lookup f_rowid (delete_where (\<lambda>f. f_rowid f = i) (fts_memories d)) j
      = (if j = i then None else lookup f_rowid (fts_memories d) j)" for j
    using lookup_delete_key [of f_rowid "\<lambda>x. x = i" "fts_memories d" j] by simp
  ultimately show ?thesis
    using ok r
    by (auto simp: db_ok_def ok_but_fts_def fts_rewrite_def fts_ok_def fts_ok_but_def lookup_append
        lookup_single distinct_delete_where set_delete_where fts_row_of_def split: option.splits)
qed

text \<open>The frame of the index statements: they leave the memories table alone.\<close>

lemma memories_index_statements [db_simps]:
  "memories (vec_clear i d) = memories d" "memories (vec_insert i ns v d) = memories d"
  "memories (clear_chunks i d) = memories d" "memories (fts_rewrite i m d) = memories d"
  "memories (reassignChunks i ns d) = memories d"
  "dims (vec_clear i d) = dims d" "dims (vec_insert i ns v d) = dims d"
  "dims (clear_chunks i d) = dims d" "dims (fts_rewrite i m d) = dims d"
  "vec_memories (clear_chunks i d) = vec_memories d" "vec_memories (fts_rewrite i m d) = vec_memories d"
  "fts_memories (clear_chunks i d) = fts_memories d"
  by (simp_all add: vec_clear_def vec_insert_def clear_chunks_def fts_rewrite_def reassignChunks_def Let_def)

lemma insert_chunks_frame:
  "insert_chunks j ns cs d = Inr d' \<Longrightarrow>
   memories d' = memories d \<and> dims d' = dims d \<and> vec_memories d' = vec_memories d
   \<and> fts_memories d' = fts_memories d"
  by (induction j ns cs d rule: insert_chunks.induct) (auto simp: Let_def split: if_splits)

lemma writeChunks_frame:
  "writeChunks j ns cs d = Inr d' \<Longrightarrow>
   memories d' = memories d \<and> dims d' = dims d \<and> vec_memories d' = vec_memories d
   \<and> fts_memories d' = fts_memories d"
  by (auto simp: writeChunks_def clear_chunks_def dest: insert_chunks_frame)

lemma write_indexes_ok:
  assumes w: "write_indexes i rw m d = Inr d'" and ok: "ok_but_fts i d"
    and r: "lookup c_rowid (memories d) i = Some r" and ns: "c_namespace r = Namespace m"
    and eq: "c_content r = Content m" "c_summary r = Summary m" "c_tags r = Tags m"
    and len: "Embedding m \<noteq> [] \<Longrightarrow> length (Embedding m) = dims d"
  shows "db_ok d' \<and> memories d' = memories d"
proof -
  define d2 where "d2 = (if Embedding m \<noteq> [] then vec_insert i (Namespace m) (Embedding m) (vec_clear i d)
                         else vec_clear i d)"
  have nsi: "ns_of (memories d) i = Some (Namespace m)" using r ns by (simp add: ns_of_def)
  have "i \<notin> v_rowid ` set (vec_memories (vec_clear i d))"
    by (auto simp: vec_clear_def set_delete_where)
  then have ok2: "ok_but_fts i d2" and m2: "memories d2 = memories d"
    using vec_clear_ok [OF ok, of i] vec_insert_ok [of i "vec_clear i d" i "Namespace m" "Embedding m"] nsi len
    by (auto simp: d2_def db_simps)
  obtain d3 where d3: "(if rw then writeChunks i (Namespace m) (case Chunks m of None \<Rightarrow> [] | Some cs \<Rightarrow> cs) d2
                        else Inr d2) = Inr d3"
    and d': "d' = fts_rewrite i m d3"
    using w unfolding write_indexes_def d2_def Let_def by (auto split: sum.splits)
  have ok3: "ok_but_fts i d3" and m3: "memories d3 = memories d"
    using d3 ok2 m2 nsi writeChunks_ok writeChunks_frame
    by (auto split: if_splits)
  have "db_ok d'"
    unfolding d' using fts_rewrite_ok [OF ok3, of r m] r m3 eq by simp
  then show ?thesis using m3 by (simp add: d' db_simps)
qed

section \<open>Upsert\<close>

lemma lookup_rowid_append_fresh:
  "lookup c_rowid (t @ [r]) (c_rowid r) = Some r" if "c_rowid r \<notin> c_rowid ` set t"
  using that lookup_None_iff [of c_rowid t "c_rowid r"] by (simp add: lookup_append lookup_single)

lemma ns_of_append: "ns_of t i = Some n \<Longrightarrow> ns_of (t @ [r]) i = Some n"
  by (auto simp: ns_of_def lookup_append)

lemma ok_but_fts_insert:
  assumes ok: "db_ok d" and id: "lookup c_id (memories d) (ID m) = None"
  defines "i \<equiv> next_rowid (map c_rowid (memories d))"
  shows "ok_but_fts i (d\<lparr> memories := memories d @ [insert_row i m] \<rparr>)"
proof -
  let ?r = "insert_row i m" and ?t = "memories d"
  have [simp]: "c_rowid ?r = i" "c_id ?r = ID m" "c_content ?r = Content m"
    "c_fingerprint ?r = Fingerprint (Content m)"
    by (simp_all add: insert_row_def)
  have fresh: "i \<notin> c_rowid ` set ?t" using next_rowid_fresh [of "map c_rowid ?t"] by (simp add: i_def)
  have rows: "rows_ok (?t @ [?r])"
    using ok id fresh by (auto simp: db_ok_def rows_ok_def lookup_None_iff)
  have "lookup c_rowid (?t @ [?r]) j = lookup c_rowid ?t j" if "j \<noteq> i" for j
    using that by (simp add: lookup_append lookup_single split: option.split)
  then have fts: "fts_ok_but i (?t @ [?r]) (fts_memories d)"
    using ok by (simp add: db_ok_def fts_ok_def fts_ok_but_def)
  have "vecs_ok (dims d) (?t @ [?r]) (vec_memories d)"
    "chunk_vecs_ok (dims d) (?t @ [?r]) (memory_chunks d) (vec_chunks d)"
    using ok by (auto simp: db_ok_def vecs_ok_def chunk_vecs_ok_def intro: ns_of_append)
  moreover have "chunks_ok (?t @ [?r]) (memory_chunks d)"
    using ok ns_of_append by (fastforce simp: db_ok_def chunks_ok_def)
  ultimately show ?thesis using rows fts by (simp add: ok_but_fts_def)
qed

lemma ok_but_fts_update:
  assumes ok: "db_ok d"
  shows "ok_but_fts i (d\<lparr> memories := update_where (\<lambda>x. c_rowid x = i) (update_row m) (memories d) \<rparr>)"
proof -
  let ?u = "update_where (\<lambda>x. c_rowid x = i) (update_row m) (memories d)"
  have [simp]: "c_rowid (update_row m r) = c_rowid r" "c_id (update_row m r) = c_id r"
    "c_namespace (update_row m r) = c_namespace r" "c_content (update_row m r) = Content m"
    "c_fingerprint (update_row m r) = Fingerprint (Content m)" for r
    by (simp_all add: update_row_def)
  have ns: "ns_of ?u j = ns_of (memories d) j" for j by (rule ns_of_update) simp_all
  have "rows_ok ?u"
    using ok by (auto simp: db_ok_def rows_ok_def map_update_where set_update_where)
  moreover have "map_option fts_of_row (lookup c_rowid ?u j) = map_option fts_of_row (lookup c_rowid (memories d) j)"
    if "j \<noteq> i" for j
    using that by (cases "lookup c_rowid (memories d) j") (auto simp: lookup_update dest: lookup_Some)
  then have "fts_ok_but i ?u (fts_memories d)"
    using ok by (simp add: db_ok_def fts_ok_def fts_ok_but_def)
  ultimately show ?thesis
    using ok by (simp add: ok_but_fts_def db_ok_def vecs_ok_def chunks_ok_def chunk_vecs_ok_def ns)
qed

text \<open>What a successful \<open>Upsert\<close> did to the memories table.\<close>

definition upsert_rows :: "memory \<Rightarrow> mem_row list \<Rightarrow> mem_row list" where
  "upsert_rows m t =
     (case lookup c_id t (ID m) of
        None \<Rightarrow> t @ [insert_row (next_rowid (map c_rowid t)) m]
      | Some r \<Rightarrow> update_where (\<lambda>x. c_rowid x = c_rowid r) (update_row m) t)"

lemma Upsert_ok:
  assumes u: "Upsert m d = Inr d'" and ok: "db_ok d"
  shows "db_ok d' \<and> memories d' = upsert_rows m (memories d)"
proof (cases "lookup c_id (memories d) (ID m)")
  case None
  let ?i = "next_rowid (map c_rowid (memories d))"
  let ?d = "d\<lparr> memories := memories d @ [insert_row ?i m] \<rparr>"
  have w: "write_indexes ?i True m ?d = Inr d'" and len: "Embedding m \<noteq> [] \<Longrightarrow> length (Embedding m) = dims ?d"
    using u None by (auto simp: Upsert_def Let_def split: if_splits)
  have "c_rowid (insert_row ?i m) \<notin> c_rowid ` set (memories d)"
    using next_rowid_fresh [of "map c_rowid (memories d)"] by (simp add: insert_row_def)
  from lookup_rowid_append_fresh [OF this]
  have r: "lookup c_rowid (memories ?d) ?i = Some (insert_row ?i m)" by (simp add: insert_row_def)
  show ?thesis
    using write_indexes_ok [OF w ok_but_fts_insert [OF ok None] r _ _ _ _ len] None
    by (simp add: insert_row_def upsert_rows_def)
next
  case (Some r)
  let ?d = "d\<lparr> memories := update_where (\<lambda>x. c_rowid x = c_rowid r) (update_row m) (memories d) \<rparr>"
  have w: "write_indexes (c_rowid r) (Chunks m \<noteq> None \<or> c_fingerprint r \<noteq> Fingerprint (Content m)) m ?d = Inr d'"
    and len: "Embedding m \<noteq> [] \<Longrightarrow> length (Embedding m) = dims ?d" and ns: "c_namespace r = Namespace m"
    using u Some by (auto simp: Upsert_def Let_def split: if_splits)
  have "lookup c_rowid (memories d) (c_rowid r) = Some r"
    using ok lookup_Some [OF Some] by (auto simp: db_ok_def rows_ok_def intro: lookup_unique)
  then have r: "lookup c_rowid (memories ?d) (c_rowid r) = Some (update_row m r)"
    by (simp add: lookup_update update_row_def)
  show ?thesis
    using write_indexes_ok [OF w ok_but_fts_update [OF ok] r _ _ _ _ len] Some ns
    by (simp add: update_row_def upsert_rows_def)
qed

section \<open>Deletion\<close>

text \<open>Removing the memories with the given row ids, and everything that hangs on them.\<close>

definition purge :: "int set \<Rightarrow> db \<Rightarrow> db" where
  "purge I d = d
    \<lparr> vec_chunks := delete_where (\<lambda>v. v_rowid v \<in> k_rowid ` {c \<in> set (memory_chunks d). k_memory_rowid c \<in> I})
                      (vec_chunks d),
      memory_chunks := delete_where (\<lambda>c. k_memory_rowid c \<in> I) (memory_chunks d),
      vec_memories := delete_where (\<lambda>v. v_rowid v \<in> I) (vec_memories d),
      fts_memories := delete_where (\<lambda>f. f_rowid f \<in> I) (fts_memories d),
      memories := delete_where (\<lambda>r. c_rowid r \<in> I) (memories d) \<rparr>"

lemma lookup_delete_rowids:
  "lookup c_rowid (delete_where (\<lambda>r. c_rowid r \<in> I) t) i = (if i \<in> I then None else lookup c_rowid t i)"
  by (rule lookup_delete_key)

lemma ns_of_delete_rowids:
  "ns_of (delete_where (\<lambda>r. c_rowid r \<in> I) t) i = (if i \<in> I then None else ns_of t i)"
  by (simp add: ns_of_def lookup_delete_rowids)

lemma purge_ok:
  assumes ok: "db_ok d"
  shows "db_ok (purge I d)"
proof -
  let ?t = "delete_where (\<lambda>r. c_rowid r \<in> I) (memories d)"
  let ?cs = "delete_where (\<lambda>c. k_memory_rowid c \<in> I) (memory_chunks d)"
  have rows: "rows_ok ?t"
    using ok by (auto simp: db_ok_def rows_ok_def distinct_delete_where set_delete_where)
  have vecs: "vecs_ok (dims d) ?t (delete_where (\<lambda>v. v_rowid v \<in> I) (vec_memories d))"
    using ok by (auto simp: db_ok_def vecs_ok_def distinct_delete_where set_delete_where ns_of_delete_rowids)
  have fts: "fts_ok ?t (delete_where (\<lambda>f. f_rowid f \<in> I) (fts_memories d))"
    using ok lookup_delete_key [of f_rowid "\<lambda>i. i \<in> I" "fts_memories d"]
    by (simp add: db_ok_def fts_ok_def distinct_delete_where lookup_delete_rowids)
  have chunks: "chunks_ok ?t ?cs"
    using ok by (auto simp: db_ok_def chunks_ok_def distinct_delete_where set_delete_where ns_of_delete_rowids)
  have "chunk_vecs_ok (dims d) (memories d) ?cs
          (delete_where (\<lambda>v. v_rowid v \<in> k_rowid ` {c \<in> set (memory_chunks d). k_memory_rowid c \<in> I}) (vec_chunks d))"
    using ok by (intro chunk_vecs_ok_delete) (auto simp: db_ok_def chunks_ok_def)
  then have "chunk_vecs_ok (dims d) ?t ?cs
          (delete_where (\<lambda>v. v_rowid v \<in> k_rowid ` {c \<in> set (memory_chunks d). k_memory_rowid c \<in> I}) (vec_chunks d))"
    by (simp add: chunk_vecs_ok_def set_delete_where ns_of_delete_rowids)
  then show ?thesis
    using rows vecs fts chunks by (simp add: db_ok_def purge_def)
qed

lemma delete_memory_rows_purge: "delete_memory_rows i d = purge {i} d"
  by (simp add: delete_memory_rows_def deleteChunksFor_def clear_chunks_def chunk_ids_of_def purge_def Let_def)

lemma Delete_ok: "Delete ns i d = Inr d' \<Longrightarrow> db_ok d \<Longrightarrow> db_ok d'"
  by (auto simp: Delete_def delete_memory_rows_purge purge_ok split: option.splits)

lemma DeleteIfExpiredBefore_ok: "DeleteIfExpiredBefore ns i t d = Inr d' \<Longrightarrow> db_ok d \<Longrightarrow> db_ok d'"
  by (auto simp: DeleteIfExpiredBefore_def delete_memory_rows_purge purge_ok split: option.splits)

text \<open>\<open>DeleteNamespace\<close> is such a removal, of the namespace's row ids, after dropping its links.\<close>

lemma DeleteNamespace_purge:
  assumes "db_ok d"
  shows "fst (DeleteNamespace ns d) =
    purge (set (collectRowIDs ns d))
      (d\<lparr> namespace_links := delete_where (\<lambda>l. Src l = ns \<or> Dst l = ns) (namespace_links d) \<rparr>)"
proof -
  let ?I = "set (collectRowIDs ns d)"
  have "r \<in> set (memories d) \<Longrightarrow> c_rowid r \<in> ?I \<longleftrightarrow> c_namespace r = ns" for r
    using assms by (auto simp: collectRowIDs_def db_ok_def rows_ok_def distinct_map inj_on_def)
  then have mem: "delete_where (\<lambda>r. c_namespace r = ns) (memories d) = delete_where (\<lambda>r. c_rowid r \<in> ?I) (memories d)"
    unfolding delete_where_def by (intro filter_cong) auto
  show ?thesis
  proof (cases "collectRowIDs ns d = []")
    case True
    then show ?thesis
      by (auto simp: DeleteNamespace_def Let_def purge_def delete_where_none collectRowIDs_def)
  next
    case False
    then show ?thesis
      by (simp add: DeleteNamespace_def Let_def purge_def mem collectRowIDs_def)
  qed
qed

lemma DeleteNamespace_ok:
  assumes "db_ok d"
  shows "db_ok (fst (DeleteNamespace ns d))"
proof -
  have "db_ok (d\<lparr> namespace_links := delete_where (\<lambda>l. Src l = ns \<or> Dst l = ns) (namespace_links d) \<rparr>)"
    using assms by (simp add: db_ok_def)
  then show ?thesis using assms by (simp add: DeleteNamespace_purge purge_ok)
qed

section \<open>Moving\<close>

lemma ns_of_set_namespace:
  "ns_of (update_where (\<lambda>x. c_rowid x = i) (\<lambda>x. x\<lparr> c_namespace := ns \<rparr>) t) j =
     (if j = i \<and> ns_of t j \<noteq> None then Some ns else ns_of t j)"
  by (cases "lookup c_rowid t j") (auto simp: ns_of_def lookup_update dest: lookup_Some)

lemma reassign_vecs_ok:
  fixes ns :: string
  assumes ok: "vecs_ok n t vs" and i: "ns_of t i \<noteq> None"
  defines "t' \<equiv> update_where (\<lambda>x. c_rowid x = i) (\<lambda>x. x\<lparr> c_namespace := ns \<rparr>) t"
  shows "vecs_ok n t' (delete_where (\<lambda>v. v_rowid v = i) vs @
           (case lookup v_rowid vs i of None \<Rightarrow> []
            | Some v \<Rightarrow> [\<lparr> v_rowid = i, v_namespace = ns, v_embedding = v_embedding v \<rparr>]))"
  using assms
  by (auto simp: vecs_ok_def ns_of_set_namespace distinct_delete_where set_delete_where
      split: option.splits dest!: lookup_Some)

lemma mset_delete_filter: "mset (delete_where p xs) + mset (filter p xs) = mset xs"
  by (induction xs) (auto simp: delete_where_def)

lemma reassign_chunk_vecs_ok:
  fixes ns :: string and i :: int
  assumes ok: "chunk_vecs_ok n t cs vcs" and dc: "distinct (map k_rowid cs)"
    and some: "\<forall>c \<in> set cs. ns_of t (k_memory_rowid c) \<noteq> None"
  defines "t' \<equiv> update_where (\<lambda>x. c_rowid x = i) (\<lambda>x. x\<lparr> c_namespace := ns \<rparr>) t"
    and "mine \<equiv> \<lambda>v. v_rowid v \<in> k_rowid ` {c \<in> set cs. k_memory_rowid c = i}"
  shows "chunk_vecs_ok n t' cs (delete_where mine vcs @ map (\<lambda>v. v\<lparr> v_namespace := ns \<rparr>) (filter mine vcs))"
proof -
  let ?new = "delete_where mine vcs @ map (\<lambda>v. v\<lparr> v_namespace := ns \<rparr>) (filter mine vcs)"
  have inj: "c = c'" if "c \<in> set cs" "c' \<in> set cs" "k_rowid c = k_rowid c'" for c c'
    using dc that by (auto simp: distinct_map inj_on_def)
  have "mset (map v_rowid ?new) = image_mset v_rowid (mset (delete_where mine vcs) + mset (filter mine vcs))"
    by (simp add: comp_def)
  also have "\<dots> = mset (map v_rowid vcs)"
    by (simp only: mset_delete_filter mset_map)
  finally have ms: "mset (map v_rowid ?new) = mset (map v_rowid vcs)" .
  have "distinct (map v_rowid vcs)" using ok by (simp add: chunk_vecs_ok_def)
  then have dist: "distinct (map v_rowid ?new)" using mset_eq_imp_distinct_iff [OF ms] by blast
  have ids: "v_rowid ` set ?new = v_rowid ` set vcs"
    using mset_eq_setD [OF ms] unfolding set_map .
  have "ns_of t' (k_memory_rowid c) = Some (v_namespace v)"
    if v: "v \<in> set ?new" and c: "c \<in> set cs" and eq: "k_rowid c = v_rowid v" for v c
  proof (cases "k_memory_rowid c = i")
    case True
    then have "mine v" using c eq by (force simp: mine_def)
    then have "v_namespace v = ns" using v by (auto simp: delete_where_def mine_def)
    then show ?thesis using True some c by (auto simp: t'_def ns_of_set_namespace)
  next
    case False
    have "\<not> mine v"
    proof
      assume "mine v"
      then obtain x where x: "x \<in> set cs" "k_memory_rowid x = i" "v_rowid v = k_rowid x"
        by (auto simp: mine_def)
      then have "c = x" using inj [OF c x(1)] eq by simp
      then show False using False x by simp
    qed
    then have "v \<in> set vcs" using v by (auto simp: delete_where_def mine_def)
    then have "ns_of t (k_memory_rowid c) = Some (v_namespace v)"
      using ok c eq unfolding chunk_vecs_ok_def by blast
    then show ?thesis using False by (simp add: t'_def ns_of_set_namespace)
  qed
  moreover have "\<forall>v \<in> set ?new. length (v_embedding v) = n"
    using ok unfolding chunk_vecs_ok_def by (auto simp: delete_where_def)
  moreover have "v_rowid ` set ?new = k_rowid ` set cs" using ids ok by (simp only: chunk_vecs_ok_def)
  ultimately show ?thesis using dist unfolding chunk_vecs_ok_def by blast
qed

definition move_rows :: "string \<Rightarrow> string \<Rightarrow> string \<Rightarrow> mem_row list \<Rightarrow> mem_row list" where
  "move_rows fromNS toNS i t =
     (case find (row_at fromNS i) t of
        None \<Rightarrow> t
      | Some r \<Rightarrow> update_where (\<lambda>x. c_rowid x = c_rowid r) (\<lambda>x. x\<lparr> c_namespace := toNS \<rparr>) t)"

lemma reassign_one_ok:
  assumes ok: "db_ok (fst acc)"
  shows "db_ok (fst (reassign_one fromNS toNS i acc))
    \<and> memories (fst (reassign_one fromNS toNS i acc)) = move_rows fromNS toNS i (memories (fst acc))"
proof (cases "find (row_at fromNS i) (memories (fst acc))")
  case None
  then show ?thesis using ok by (simp add: reassign_one_def Let_def move_rows_def)
next
  case (Some r)
  define d where "d = fst acc"
  let ?i = "c_rowid r"
  let ?t = "update_where (\<lambda>x. c_rowid x = ?i) (\<lambda>x. x\<lparr> c_namespace := toNS \<rparr>) (memories d)"
  let ?d' = "fst (reassign_one fromNS toNS i acc)"
  have mem: "memories ?d' = ?t" and dm: "dims ?d' = dims d"
    and fts: "fts_memories ?d' = fts_memories d" and cs: "memory_chunks ?d' = memory_chunks d"
    and vs: "vec_memories ?d' = delete_where (\<lambda>v. v_rowid v = ?i) (vec_memories d) @
           (case lookup v_rowid (vec_memories d) ?i of None \<Rightarrow> []
            | Some v \<Rightarrow> [\<lparr> v_rowid = ?i, v_namespace = toNS, v_embedding = v_embedding v \<rparr>])"
    and vcs: "vec_chunks ?d' =
        delete_where (\<lambda>v. v_rowid v \<in> k_rowid ` {c \<in> set (memory_chunks d). k_memory_rowid c = ?i}) (vec_chunks d)
        @ map (\<lambda>v. v\<lparr> v_namespace := toNS \<rparr>)
            (filter (\<lambda>v. v_rowid v \<in> k_rowid ` {c \<in> set (memory_chunks d). k_memory_rowid c = ?i}) (vec_chunks d))"
    using Some
    by (auto simp: reassign_one_def Let_def d_def reassignChunks_def vec_clear_def vec_insert_def
        chunk_ids_of_def split: option.splits)
  have nsi: "ns_of (memories d) ?i \<noteq> None"
    using find_Some_set [OF Some] by (auto simp: ns_of_def d_def lookup_None_iff)
  have nsj: "ns_of ?t j \<noteq> None \<longleftrightarrow> ns_of (memories d) j \<noteq> None" for j
    by (auto simp: ns_of_set_namespace)
  have rows: "rows_ok ?t"
    using ok by (auto simp: db_ok_def rows_ok_def d_def map_update_where set_update_where)
  have "map_option fts_of_row (lookup c_rowid ?t j) = map_option fts_of_row (lookup c_rowid (memories d) j)" for j
    by (cases "lookup c_rowid (memories d) j") (simp_all add: lookup_update fts_of_row_def)
  then have "fts_ok ?t (fts_memories d)" using ok by (simp add: db_ok_def fts_ok_def d_def)
  moreover have "chunks_ok ?t (memory_chunks d)"
    using ok nsj by (simp add: db_ok_def chunks_ok_def d_def)
  ultimately have "db_ok ?d'"
    using ok rows reassign_vecs_ok [of "dims d" "memories d" "vec_memories d" ?i toNS] nsi
      reassign_chunk_vecs_ok [of "dims d" "memories d" "memory_chunks d" "vec_chunks d" ?i toNS]
    unfolding db_ok_def mem dm fts cs vs vcs d_def [symmetric]
    by (auto simp: chunks_ok_def)
  then show ?thesis using Some by (simp add: mem move_rows_def d_def)
qed

lemma fold_reassign_ok:
  "db_ok (fst acc) \<Longrightarrow>
   db_ok (fst (fold (reassign_one fromNS toNS) ids acc))
   \<and> memories (fst (fold (reassign_one fromNS toNS) ids acc)) = fold (move_rows fromNS toNS) ids (memories (fst acc))"
  by (induction ids arbitrary: acc) (simp_all add: reassign_one_ok)

lemma Reassign_ok: "db_ok d \<Longrightarrow> db_ok (fst (Reassign fromNS ids toNS d))"
  by (simp add: Reassign_def fold_reassign_ok)

section \<open>Chunk writes\<close>

lemma ok_but_fts_db_ok:
  assumes "ok_but_fts i d'" and "db_ok d" and "memories d' = memories d" and "fts_memories d' = fts_memories d"
  shows "db_ok d'"
  using assms by (simp add: ok_but_fts_def db_ok_def)

lemma PutChunks_ok:
  assumes p: "PutChunks ns i t chunks d = Inr (b, d')" and ok: "db_ok d"
  shows "db_ok d' \<and> memories d' = memories d"
proof (cases b)
  case False
  then show ?thesis using p ok by (auto simp: PutChunks_def split: option.splits if_splits sum.splits)
next
  case True
  then obtain r where r: "find (row_at ns i) (memories d) = Some r"
    and w: "writeChunks (c_rowid r) ns chunks d = Inr d'"
    using p by (auto simp: PutChunks_def split: option.splits if_splits sum.splits)
  have "lookup c_rowid (memories d) (c_rowid r) = Some r" and "c_namespace r = ns"
    using find_Some_set [OF r] ok
    by (auto simp: row_at_def db_ok_def rows_ok_def intro: lookup_unique)
  then have "ns_of (memories d) (c_rowid r) = Some ns" by (simp add: ns_of_def)
  then have "ok_but_fts 0 d'" using writeChunks_ok [OF w db_ok_ok_but_fts [OF ok]] by simp
  moreover have "memories d' = memories d \<and> fts_memories d' = fts_memories d"
    using writeChunks_frame [OF w] by simp
  ultimately show ?thesis using ok ok_but_fts_db_ok by blast
qed

section \<open>Column updates\<close>

lemma Reinforce_ok: "db_ok d \<Longrightarrow> db_ok (Reinforce ns ids t e d)"
  by (auto simp: Reinforce_def indexed_def intro: db_ok_update_columns)

lemma point_updates_ok:
  assumes "db_ok d"
  shows "SetSuperseded wall ns i s d = Inr d' \<Longrightarrow> db_ok d'"
    and "Restore ns i d = Inr d' \<Longrightarrow> db_ok d'"
    and "Retier ns i tier e d = Inr d' \<Longrightarrow> db_ok d'"
    and "SetConfidence ns i c now d = Inr d' \<Longrightarrow> db_ok d'"
    and "SetAssessedImportance ns i v now d = Inr d' \<Longrightarrow> db_ok d'"
    and "MarkContradicted ns i s c now d = Inr d' \<Longrightarrow> db_ok d'"
  unfolding SetSuperseded_def Restore_def Retier_def SetConfidence_def SetAssessedImportance_def
    MarkContradicted_def
  by (erule db_ok_update_or_notfound [OF _ assms, rotated], simp add: indexed_def)+

end
