(* ===== verification/Sqlite_Repair.thy ===== *)
theory Sqlite_Repair
  imports Sqlite_Invariant
begin

text \<open>
  The deferred-repair queue of \<open>internal/store/sqlitevec/repair.go\<close>. The queue is four
  columns of the memories table; \<open>embed_next_run_at\<close> is both the due time and the claim
  lease. The lemmas show that claims are exclusive while the lease runs, charge exactly
  one attempt and take the rows due longest, that the completing writes are guarded by the
  fingerprint, and that the states of the rows stay in the closed set.
\<close>

section \<open>The code\<close>

definition claimable :: "RepairState \<Rightarrow> Time \<Rightarrow> mem_row \<Rightarrow> bool" where
  "claimable state now r \<longleftrightarrow>
     c_embed_state r = state \<and> null_or (\<lambda>t. t \<le> ms now) (c_embed_next_run_at r)"

text \<open>\<open>ORDER BY embed_next_run_at, id\<close>: SQLite sorts a null before every number.\<close>

definition claim_less :: "mem_row \<Rightarrow> mem_row \<Rightarrow> bool" where
  "claim_less a b \<longleftrightarrow>
     (case (c_embed_next_run_at a, c_embed_next_run_at b) of
        (None, None) \<Rightarrow> c_id a < c_id b
      | (None, Some _) \<Rightarrow> True
      | (Some _, None) \<Rightarrow> False
      | (Some x, Some y) \<Rightarrow> if x \<noteq> y then x < y else c_id a < c_id b)"

definition claim_selection :: "RepairState \<Rightarrow> Time \<Rightarrow> int \<Rightarrow> db \<Rightarrow> mem_row list" where
  "claim_selection state now limit d =
     limit_rows limit (order_by claim_less (filter (claimable state now) (memories d)))"

definition repair_row_of :: "mem_row \<Rightarrow> RepairRow" where
  "repair_row_of r =
    \<lparr> rID = c_id r, rNamespace = c_namespace r, rTier = c_tier r, rContent = c_content r,
      rFingerprint = c_fingerprint r, State = c_embed_state r, Attempts = c_embed_attempts r \<rparr>"

text \<open>\<open>RETURNING\<close> yields the updated rows in an order of its own: here that of the table.\<close>

definition ClaimRepairs ::
  "RepairState \<Rightarrow> Time \<Rightarrow> Duration \<Rightarrow> int \<Rightarrow> db \<Rightarrow> store_error + (RepairRow list \<times> db)" where
  "ClaimRepairs state now lease limit d =
     (if \<not> ValidRepairState state \<or> state = RepairNone then Inl (InvalidRepairState state)
      else if limit \<le> 0 then Inr ([], d)
      else
        (let ids = set (map c_id (claim_selection state now limit d));
             t' = update_where (\<lambda>r. c_id r \<in> ids)
                    (\<lambda>r. r\<lparr> c_embed_attempts := c_embed_attempts r + 1,
                           c_embed_next_run_at := Some (ms (now + lease)) \<rparr>) (memories d)
         in Inr (map repair_row_of (filter (\<lambda>r. c_id r \<in> ids) t'), d\<lparr> memories := t' \<rparr>)))"

definition remove_pending_embed :: "metadata \<Rightarrow> metadata" where
  "remove_pending_embed md = md(PendingEmbedKey := None)"

definition setRepairColumnsTx :: "int \<Rightarrow> RepairState \<Rightarrow> db \<Rightarrow> db" where
  "setRepairColumnsTx rowID next d =
     (if next = RepairNone then
        d\<lparr> memories := update_where (\<lambda>r. c_rowid r = rowID)
             (\<lambda>r. r\<lparr> c_embed_state := '''', c_embed_attempts := 0, c_embed_next_run_at := None,
                    c_embed_last_error := '''', c_metadata := remove_pending_embed (c_metadata r) \<rparr>)
             (memories d) \<rparr>
      else
        d\<lparr> memories := update_where (\<lambda>r. c_rowid r = rowID)
             (\<lambda>r. r\<lparr> c_embed_state := next, c_embed_attempts := 0, c_embed_next_run_at := Some 0,
                    c_embed_last_error := '''' \<rparr>) (memories d) \<rparr>)"

definition SetEmbeddingIfUnchanged ::
  "string \<Rightarrow> string \<Rightarrow> string \<Rightarrow> vec \<Rightarrow> RepairState \<Rightarrow> db \<Rightarrow> store_error + (bool \<times> db)" where
  "SetEmbeddingIfUnchanged ns i fingerprint v next d =
     (if \<not> ValidRepairState next then Inl (InvalidRepairState next)
      else if v \<noteq> [] \<and> length v \<noteq> dims d then Inl (DimsMismatch (length v) (dims d))
      else
        (case find (\<lambda>r. row_at ns i r \<and> c_fingerprint r = fingerprint) (memories d) of
           None \<Rightarrow> Inr (False, d)
         | Some r \<Rightarrow>
             (let d1 = vec_clear (c_rowid r) d;
                  d2 = (if v \<noteq> [] then vec_insert (c_rowid r) ns v d1 else d1)
              in Inr (True, setRepairColumnsTx (c_rowid r) next d2))))"

definition SetRepairState ::
  "string \<Rightarrow> string \<Rightarrow> string \<Rightarrow> RepairState \<Rightarrow> db \<Rightarrow> store_error + (bool \<times> db)" where
  "SetRepairState ns i fingerprint next d =
     (if \<not> ValidRepairState next then Inl (InvalidRepairState next)
      else
        (let p = (\<lambda>r. row_at ns i r \<and> c_fingerprint r = fingerprint)
         in Inr (count_where p (memories d) > 0,
              d\<lparr> memories := update_where p
                (\<lambda>r. r\<lparr> c_embed_state := next, c_embed_attempts := 0,
                       c_embed_next_run_at := (if next = '''' then None else Some 0),
                       c_embed_last_error := '''',
                       c_metadata := (if next = '''' then remove_pending_embed (c_metadata r)
                                      else c_metadata r) \<rparr>) (memories d) \<rparr>)))"

abbreviation repairErrMaxLen :: nat where "repairErrMaxLen \<equiv> 1000"

text \<open>The ellipsis is three bytes.\<close>

definition truncErr :: "string \<Rightarrow> string" where
  "truncErr s = (if length s \<le> repairErrMaxLen then s
                 else take repairErrMaxLen s @ map char_of [226, 128, 166 :: nat])"

definition FailRepair :: "string \<Rightarrow> string \<Rightarrow> string \<Rightarrow> Time \<Rightarrow> db \<Rightarrow> db" where
  "FailRepair ns i lastErr nextRunAt d = d\<lparr> memories := update_where (row_at ns i)
     (\<lambda>r. r\<lparr> c_embed_next_run_at := Some (ms nextRunAt), c_embed_last_error := truncErr lastErr \<rparr>)
     (memories d) \<rparr>"

definition ParkRepair :: "string \<Rightarrow> string \<Rightarrow> string \<Rightarrow> Time \<Rightarrow> db \<Rightarrow> db" where
  "ParkRepair ns i lastErr now d = d\<lparr> memories := update_where (row_at ns i)
     (\<lambda>r. r\<lparr> c_embed_state := RepairFailed, c_embed_next_run_at := Some (ms now),
            c_embed_last_error := truncErr lastErr \<rparr>) (memories d) \<rparr>"

definition parked_before :: "Time \<Rightarrow> mem_row \<Rightarrow> bool" where
  "parked_before t r \<longleftrightarrow> c_embed_state r = RepairFailed
     \<and> (case c_embed_next_run_at r of None \<Rightarrow> False | Some p \<Rightarrow> p \<le> ms t)"

definition RearmRepairs :: "Time \<Rightarrow> Time \<Rightarrow> db \<Rightarrow> db \<times> nat" where
  "RearmRepairs failedBefore now d =
     (d\<lparr> memories := update_where (parked_before failedBefore)
        (\<lambda>r. r\<lparr> c_embed_state := RepairPending, c_embed_attempts := 0,
               c_embed_next_run_at := Some (ms now) \<rparr>) (memories d) \<rparr>,
      count_where (parked_before failedBefore) (memories d))"

definition MarkRepairNeeded ::
  "string \<Rightarrow> string list \<Rightarrow> RepairState \<Rightarrow> db \<Rightarrow> store_error + (nat \<times> db)" where
  "MarkRepairNeeded ns ids state d =
     (if ids = [] then Inr (0, d)
      else if \<not> ValidRepairState state \<or> state = RepairNone then Inl (InvalidRepairState state)
      else
        (let p = (\<lambda>r. c_embed_state r = '''' \<and> c_id r \<in> set ids \<and> (ns \<noteq> '''' \<longrightarrow> c_namespace r = ns))
         in Inr (count_where p (memories d),
              d\<lparr> memories := update_where p
                (\<lambda>r. r\<lparr> c_embed_state := state, c_embed_attempts := 0, c_embed_next_run_at := Some 0 \<rparr>)
                (memories d) \<rparr>)))"

text \<open>\<open>MAX\<close> of a text column compares the texts byte by byte.\<close>

definition RepairStats :: "db \<Rightarrow> RepairStat list" where
  "RepairStats d =
     (let owing = filter (\<lambda>r. c_embed_state r \<noteq> '''') (memories d)
      in map (\<lambda>st. let mine = filter (\<lambda>r. c_embed_state r = st) owing
                   in \<lparr> statState = st, Count = length mine,
                        OldestAt = fromMs (Min (set (map c_created_at mine))),
                        LastError = fold max (map c_embed_last_error mine) '''' \<rparr>)
           (order_by (<) (remdups (map c_embed_state owing))))"

definition RepairStateOf :: "string \<Rightarrow> string \<Rightarrow> db \<Rightarrow> store_error + (RepairState \<times> int \<times> string)" where
  "RepairStateOf ns i d =
     (case find (row_at ns i) (memories d) of
        None \<Rightarrow> Inl ErrNotFound
      | Some r \<Rightarrow> Inr (c_embed_state r, c_embed_attempts r, c_embed_last_error r))"

section \<open>The schema invariant\<close>

lemma setRepairColumnsTx_ok: "db_ok d \<Longrightarrow> db_ok (setRepairColumnsTx i next d)"
  unfolding setRepairColumnsTx_def by (simp add: db_ok_update_columns indexed_def)

lemma ClaimRepairs_ok: "ClaimRepairs state now lease limit d = Inr (rows, d') \<Longrightarrow> db_ok d \<Longrightarrow> db_ok d'"
  by (auto simp: ClaimRepairs_def Let_def indexed_def split: if_splits intro: db_ok_update_columns)

lemma SetEmbeddingIfUnchanged_ok:
  assumes s: "SetEmbeddingIfUnchanged ns i fp v next d = Inr (b, d')" and ok: "db_ok d"
  shows "db_ok d'"
proof (cases b)
  case False
  then show ?thesis using s ok
    by (auto simp: SetEmbeddingIfUnchanged_def Let_def split: if_splits option.splits)
next
  case True
  then obtain r where r: "find (\<lambda>r. row_at ns i r \<and> c_fingerprint r = fp) (memories d) = Some r"
    and len: "v \<noteq> [] \<Longrightarrow> length v = dims d"
    and d': "d' = setRepairColumnsTx (c_rowid r) next
               (if v \<noteq> [] then vec_insert (c_rowid r) ns v (vec_clear (c_rowid r) d) else vec_clear (c_rowid r) d)"
    using s by (auto simp: SetEmbeddingIfUnchanged_def Let_def split: if_splits option.splits)
  have "lookup c_rowid (memories d) (c_rowid r) = Some r" and "c_namespace r = ns"
    using find_Some_set [OF r] ok by (auto simp: row_at_def db_ok_def rows_ok_def intro: lookup_unique)
  then have nsr: "ns_of (memories d) (c_rowid r) = Some ns" by (simp add: ns_of_def)
  have clear: "ok_but_fts 0 (vec_clear (c_rowid r) d)" by (rule vec_clear_ok [OF db_ok_ok_but_fts [OF ok]])
  have "c_rowid r \<notin> v_rowid ` set (vec_memories (vec_clear (c_rowid r) d))"
    by (auto simp: vec_clear_def set_delete_where)
  with clear nsr len
  have "ok_but_fts 0 (if v \<noteq> [] then vec_insert (c_rowid r) ns v (vec_clear (c_rowid r) d) else vec_clear (c_rowid r) d)"
    by (auto simp: db_simps intro!: vec_insert_ok)
  then have "db_ok (if v \<noteq> [] then vec_insert (c_rowid r) ns v (vec_clear (c_rowid r) d) else vec_clear (c_rowid r) d)"
    by (rule ok_but_fts_db_ok [OF _ ok]) (simp_all add: vec_clear_def vec_insert_def)
  then show ?thesis unfolding d' by (rule setRepairColumnsTx_ok)
qed

lemma SetRepairState_ok: "SetRepairState ns i fp next d = Inr (b, d') \<Longrightarrow> db_ok d \<Longrightarrow> db_ok d'"
  by (auto simp: SetRepairState_def Let_def indexed_def split: if_splits intro: db_ok_update_columns)

lemma FailRepair_ok: "db_ok d \<Longrightarrow> db_ok (FailRepair ns i e t d)"
  and ParkRepair_ok: "db_ok d \<Longrightarrow> db_ok (ParkRepair ns i e t d)"
  and RearmRepairs_ok: "db_ok d \<Longrightarrow> db_ok (fst (RearmRepairs t u d))"
  by (simp_all add: FailRepair_def ParkRepair_def RearmRepairs_def db_ok_update_columns indexed_def)

lemma MarkRepairNeeded_ok: "MarkRepairNeeded ns ids state d = Inr (n, d') \<Longrightarrow> db_ok d \<Longrightarrow> db_ok d'"
  by (auto simp: MarkRepairNeeded_def Let_def indexed_def split: if_splits intro: db_ok_update_columns)

section \<open>Claims\<close>

text \<open>The order of the claim is a strict weak order, so the library's facts on sorting apply.\<close>

interpretation claim: strict_weak_order claim_less
  by unfold_locales (auto simp: claim_less_def split: option.splits if_splits)

lemma claim_selection_set: "r \<in> set (claim_selection state now limit d) \<Longrightarrow> r \<in> set (memories d) \<and> claimable state now r"
  using set_limit_rows by (fastforce simp: claim_selection_def)

text \<open>A row claimed now is not selected again before its lease runs out.\<close>

definition claimed_ids :: "RepairState \<Rightarrow> Time \<Rightarrow> int \<Rightarrow> db \<Rightarrow> string set" where
  "claimed_ids state now limit d = set (map c_id (claim_selection state now limit d))"

definition charge :: "Time \<Rightarrow> Duration \<Rightarrow> mem_row \<Rightarrow> mem_row" where
  "charge now lease r =
     r\<lparr> c_embed_attempts := c_embed_attempts r + 1, c_embed_next_run_at := Some (ms (now + lease)) \<rparr>"

lemma ClaimRepairs_InrD:
  assumes "ClaimRepairs state now lease limit d = Inr (rows, d')" and "0 < limit"
  shows "memories d' = update_where (\<lambda>r. c_id r \<in> claimed_ids state now limit d) (charge now lease) (memories d)"
    and "rows = map repair_row_of (filter (\<lambda>r. c_id r \<in> claimed_ids state now limit d) (memories d'))"
proof -
  let ?C = "claimed_ids state now limit d"
  let ?t = "update_where (\<lambda>r. c_id r \<in> ?C) (charge now lease) (memories d)"
  have "ValidRepairState state" "state \<noteq> RepairNone"
    using assms(1) by (auto simp: ClaimRepairs_def split: if_splits)
  then have "ClaimRepairs state now lease limit d =
      Inr (map repair_row_of (filter (\<lambda>r. c_id r \<in> ?C) ?t), d\<lparr> memories := ?t \<rparr>)"
    using assms(2) by (simp add: ClaimRepairs_def Let_def claimed_ids_def charge_def [abs_def])
  then have eq: "rows = map repair_row_of (filter (\<lambda>r. c_id r \<in> ?C) ?t)" "d' = d\<lparr> memories := ?t \<rparr>"
    using assms(1) by simp_all
  from eq(2) show "memories d' = ?t" by simp
  then show "rows = map repair_row_of (filter (\<lambda>r. c_id r \<in> ?C) (memories d'))" using eq(1) by simp
qed

lemma claimed_ids_memories: "claimed_ids state now limit d \<subseteq> c_id ` set (memories d)"
  by (auto simp: claimed_ids_def dest!: claim_selection_set)

lemma ClaimRepairs_rows_ids:
  assumes "ClaimRepairs state now lease limit d = Inr (rows, d')" and "0 < limit"
  shows "set (map rID rows) = claimed_ids state now limit d"
proof -
  have "map c_id (memories d') = map c_id (memories d)"
    unfolding ClaimRepairs_InrD(1) [OF assms] by (rule map_update_where) (simp add: charge_def)
  then have "c_id ` set (memories d') = c_id ` set (memories d)" by (metis set_map)
  then have "claimed_ids state now limit d \<subseteq> c_id ` set (memories d')"
    using claimed_ids_memories by simp
  moreover have "set (map rID rows) = {i \<in> c_id ` set (memories d'). i \<in> claimed_ids state now limit d}"
    by (auto simp: ClaimRepairs_InrD(2) [OF assms] repair_row_of_def)
  ultimately show ?thesis by auto
qed

lemma claimed_not_reclaimable:
  assumes c: "ClaimRepairs state now lease limit d = Inr (rows, d')" and pos: "0 < limit"
    and i: "c_id r \<in> claimed_ids state now limit d"
    and r: "r \<in> set (memories d')" and t: "ms now' < ms (now + lease)"
  shows "\<not> claimable state' now' r"
proof -
  obtain r0 where "r = (if c_id r0 \<in> claimed_ids state now limit d then charge now lease r0 else r0)"
    using r unfolding ClaimRepairs_InrD(1) [OF c pos] set_update_where by blast
  then have "c_embed_next_run_at r = Some (ms (now + lease))"
    using i by (simp add: charge_def split: if_splits)
  then show ?thesis using t by (simp add: claimable_def null_or_def)
qed

text \<open>Two claims whose leases overlap take different rows, whoever makes them.\<close>

lemma claims_disjoint:
  assumes c: "ClaimRepairs state now lease limit d = Inr (rows, d')"
    and c': "ClaimRepairs state' now' lease' limit' d' = Inr (rows', d'')"
    and t: "ms now' < ms (now + lease)"
  shows "set (map rID rows) \<inter> set (map rID rows') = {}"
proof (cases "0 < limit \<and> 0 < limit'")
  case True
  have "x \<notin> claimed_ids state' now' limit' d'" if x: "x \<in> claimed_ids state now limit d" for x
  proof
    assume "x \<in> claimed_ids state' now' limit' d'"
    then obtain r where "r \<in> set (claim_selection state' now' limit' d')" and rx: "c_id r = x"
      by (auto simp: claimed_ids_def)
    then have "r \<in> set (memories d')" and "claimable state' now' r"
      by (auto dest: claim_selection_set)
    then show False using claimed_not_reclaimable [OF c _ _ _ t] True x rx by blast
  qed
  then show ?thesis using True ClaimRepairs_rows_ids [OF c] ClaimRepairs_rows_ids [OF c'] by auto
next
  case False
  then have "rows = [] \<or> rows' = []" using c c' by (auto simp: ClaimRepairs_def split: if_splits)
  then show ?thesis by auto
qed

lemma length_limit_pos: "0 < n \<Longrightarrow> int (length (limit_rows n t)) \<le> n"
  by (simp add: limit_rows_def)

lemma claim_bounded:
  assumes c: "ClaimRepairs state now lease limit d = Inr (rows, d')" and ok: "db_ok d"
  shows "int (length rows) \<le> max 0 limit"
proof (cases "0 < limit")
  case True
  have ok': "db_ok d'" using c ok by (rule ClaimRepairs_ok)
  have "distinct (map rID rows)"
  proof -
    have "map rID rows = map c_id (filter (\<lambda>r. c_id r \<in> claimed_ids state now limit d) (memories d'))"
      by (simp add: ClaimRepairs_InrD(2) [OF c True] repair_row_of_def)
    then show ?thesis using ok' by (simp add: db_ok_def rows_ok_def distinct_map_filter)
  qed
  then have "length rows = card (claimed_ids state now limit d)"
    using ClaimRepairs_rows_ids [OF c True] by (metis distinct_card length_map)
  also have "\<dots> \<le> length (claim_selection state now limit d)"
    by (metis card_length claimed_ids_def length_map)
  finally show ?thesis using length_limit_pos [OF True] True unfolding claim_selection_def
    by (smt (verit) int_ops(1) of_nat_mono)
next
  case False
  then show ?thesis using c by (auto simp: ClaimRepairs_def split: if_splits)
qed

text \<open>The rows due longest go first: a due row that was passed over is not before a claimed one.\<close>

lemma take_sorted_least:
  assumes "sorted_wrt (\<lambda>a b. \<not> lt b a) xs" and "x \<in> set (take n xs)" and "y \<in> set xs" and "y \<notin> set (take n xs)"
  shows "\<not> lt y x"
proof -
  have "sorted_wrt (\<lambda>a b. \<not> lt b a) (take n xs @ drop n xs)" using assms(1) by simp
  moreover have "y \<in> set (drop n xs)"
    using assms(3,4) by (metis Un_iff append_take_drop_id set_append)
  ultimately show ?thesis using assms(2) unfolding sorted_wrt_append by blast
qed

lemma claim_oldest_first:
  assumes pos: "0 < limit" and x: "x \<in> set (claim_selection state now limit d)"
    and y: "y \<in> set (memories d)" "claimable state now y" "y \<notin> set (claim_selection state now limit d)"
  shows "\<not> claim_less y x"
  using take_sorted_least [OF claim.sorted_SliceStable, of x "nat limit" _ y] assms
  by (auto simp: claim_selection_def limit_rows_def)

section \<open>The fingerprint guard\<close>

text \<open>A completing write for content that has changed since the claim changes nothing.\<close>

lemma SetEmbedding_stale:
  assumes s: "SetEmbeddingIfUnchanged ns i fp v next d = Inr (b, d')"
    and stale: "\<forall>r \<in> set (memories d). row_at ns i r \<longrightarrow> c_fingerprint r \<noteq> fp"
  shows "\<not> b \<and> d' = d"
proof -
  have "find (\<lambda>r. row_at ns i r \<and> c_fingerprint r = fp) (memories d) = None"
    using stale by (auto simp: find_None_all)
  then show ?thesis using s by (auto simp: SetEmbeddingIfUnchanged_def split: if_splits)
qed

section \<open>The states of the queue\<close>

text \<open>One step of the queue: any of its operations, in any order.\<close>

inductive repair_step :: "db \<Rightarrow> db \<Rightarrow> bool" where
  claim: "ClaimRepairs state now lease limit d = Inr (rows, d') \<Longrightarrow> repair_step d d'"
| embed: "SetEmbeddingIfUnchanged ns i fp v next d = Inr (b, d') \<Longrightarrow> repair_step d d'"
| advance: "SetRepairState ns i fp next d = Inr (b, d') \<Longrightarrow> repair_step d d'"
| fail: "repair_step d (FailRepair ns i e t d)"
| park: "repair_step d (ParkRepair ns i e t d)"
| rearm: "repair_step d (fst (RearmRepairs t u d))"
| mark: "MarkRepairNeeded ns ids state d = Inr (n, d') \<Longrightarrow> repair_step d d'"

inductive_cases repair_stepE: "repair_step d d'"

text \<open>
  The states of all rows are in the closed set, a healthy row has no attempts charged, and
  no row has a negative count.
\<close>

definition queue_ok :: "db \<Rightarrow> bool" where
  "queue_ok d \<longleftrightarrow> (\<forall>r \<in> set (memories d). ValidRepairState (c_embed_state r)
     \<and> (c_embed_state r = RepairNone \<longrightarrow> c_embed_attempts r = 0) \<and> 0 \<le> c_embed_attempts r)"

lemma queue_ok_update:
  assumes "queue_ok d"
    and "\<And>r. r \<in> set (memories d) \<Longrightarrow> p r \<Longrightarrow> ValidRepairState (c_embed_state (f r))
           \<and> (c_embed_state (f r) = RepairNone \<longrightarrow> c_embed_attempts (f r) = 0) \<and> 0 \<le> c_embed_attempts (f r)"
  shows "queue_ok (d\<lparr> memories := update_where p f (memories d) \<rparr>)"
  using assms by (auto simp: queue_ok_def set_update_where)

lemma queue_ok_memories: "memories d' = memories d \<Longrightarrow> queue_ok d' = queue_ok d"
  by (simp add: queue_ok_def)

lemma setRepairColumnsTx_queue:
  assumes "queue_ok d" and "ValidRepairState next"
  shows "queue_ok (setRepairColumnsTx j next d)"
  using assms(2) unfolding setRepairColumnsTx_def
  by (auto intro!: queue_ok_update [OF assms(1)] simp: ValidRepairState_def)

lemma ClaimRepairs_queue:
  assumes c: "ClaimRepairs state now lease limit d = Inr (rows, d')" and ok: "queue_ok d" and u: "db_ok d"
  shows "queue_ok d'"
proof (cases "0 < limit")
  case True
  have ne: "state \<noteq> RepairNone" using c by (auto simp: ClaimRepairs_def split: if_splits)
  have st: "c_embed_state r = state"
    if r: "r \<in> set (memories d)" and i: "c_id r \<in> claimed_ids state now limit d" for r
  proof -
    obtain x where x: "x \<in> set (claim_selection state now limit d)" "c_id x = c_id r"
      using i by (auto simp: claimed_ids_def)
    then have "x = r" using claim_selection_set [OF x(1)] r u
      by (auto simp: db_ok_def rows_ok_def distinct_map inj_on_def)
    then show ?thesis using claim_selection_set [OF x(1)] by (simp add: claimable_def)
  qed
  have "queue_ok (d\<lparr> memories := update_where (\<lambda>r. c_id r \<in> claimed_ids state now limit d) (charge now lease) (memories d) \<rparr>)"
    by (rule queue_ok_update [OF ok]) (use ok st ne in \<open>auto simp: charge_def queue_ok_def\<close>)
  then show ?thesis by (simp add: queue_ok_def ClaimRepairs_InrD(1) [OF c True])
next
  case False
  then show ?thesis using c ok by (auto simp: ClaimRepairs_def split: if_splits)
qed

lemma repair_step_ok: "repair_step d d' \<Longrightarrow> db_ok d \<Longrightarrow> db_ok d'"
  by (induction rule: repair_step.induct)
    (auto intro: ClaimRepairs_ok SetEmbeddingIfUnchanged_ok SetRepairState_ok FailRepair_ok
      ParkRepair_ok RearmRepairs_ok MarkRepairNeeded_ok)

lemma repair_step_queue:
  assumes "repair_step d d'" and ok: "queue_ok d" and u: "db_ok d"
  shows "queue_ok d'"
  using assms(1)
proof (cases rule: repair_step.cases)
  case (claim state now lease limit rows)
  then show ?thesis using ok u by (blast intro: ClaimRepairs_queue)
next
  case (embed ns i fp v "next" b)
  have "queue_ok (vec_insert j n w (vec_clear k d))" "queue_ok (vec_clear k d)" for j n w k
    using ok by (simp_all add: queue_ok_def db_simps)
  then show ?thesis using embed ok
    by (auto simp: SetEmbeddingIfUnchanged_def Let_def intro!: setRepairColumnsTx_queue
        split: if_splits option.splits)
next
  case (advance ns i fp "next" b)
  then have v: "ValidRepairState next" by (auto simp: SetRepairState_def split: if_splits)
  from advance v show ?thesis
    by (auto simp: SetRepairState_def Let_def intro!: queue_ok_update [OF ok])
next
  case (fail ns i e t)
  show ?thesis unfolding fail FailRepair_def
    by (rule queue_ok_update [OF ok]) (use ok in \<open>auto simp: queue_ok_def ValidRepairState_def\<close>)
next
  case (park ns i e t)
  show ?thesis unfolding park ParkRepair_def
    by (rule queue_ok_update [OF ok]) (use ok in \<open>auto simp: queue_ok_def ValidRepairState_def\<close>)
next
  case (rearm t u)
  then show ?thesis unfolding RearmRepairs_def
    by (auto intro!: queue_ok_update [OF ok] simp: ValidRepairState_def)
next
  case (mark ns ids state n)
  then show ?thesis using ok
    by (auto simp: MarkRepairNeeded_def Let_def intro!: queue_ok_update [OF ok] split: if_splits)
qed

text \<open>Everything the queue can reach from a sound database is sound.\<close>

inductive repair_reachable :: "db \<Rightarrow> db \<Rightarrow> bool" for d0 :: db where
  start: "repair_reachable d0 d0"
| step: "repair_reachable d0 d \<Longrightarrow> repair_step d d' \<Longrightarrow> repair_reachable d0 d'"

lemma repair_reachable_ok:
  "repair_reachable d0 d \<Longrightarrow> db_ok d0 \<Longrightarrow> queue_ok d0 \<Longrightarrow> db_ok d \<and> queue_ok d"
  by (induction rule: repair_reachable.induct) (auto intro: repair_step_ok repair_step_queue)

end
