(* ===== verification/Sqlite_Links.thy ===== *)
theory Sqlite_Links
  imports Sqlite_Invariant
begin

text \<open>
  Namespace links, API keys and pins: the operations of \<open>internal/store/sqlitevec/store.go\<close>
  and \<open>pins.go\<close> on the three small tables. Their primary keys stay unique, a rename leaves
  no reference to the old namespace, an existing row wins where the code says so, and the
  provenance of a key or a pin survives an upsert.
\<close>

section \<open>Upserts\<close>

text \<open>\<open>INSERT ... ON CONFLICT(key) DO UPDATE\<close>.\<close>

definition upsert_by :: "('r \<Rightarrow> 'k) \<Rightarrow> ('r \<Rightarrow> 'r \<Rightarrow> 'r) \<Rightarrow> 'r \<Rightarrow> 'r list \<Rightarrow> 'r list" where
  "upsert_by key merge r t =
     (if lookup key t (key r) = None then t @ [r]
      else update_where (\<lambda>x. key x = key r) (merge r) t)"

lemma lookup_upsert_by:
  assumes "\<And>x. key x = key r \<Longrightarrow> key (merge r x) = key r"
  shows "lookup key (upsert_by key merge r t) k =
    (if k = key r then
       Some (case lookup key t k of None \<Rightarrow> r | Some x \<Rightarrow> merge r x)
     else lookup key t k)"
proof -
  have "lookup key (update_where (\<lambda>x. key x = key r) (merge r) t) k
      = map_option (\<lambda>x. if key x = key r then merge r x else x) (lookup key t k)"
    using assms by (induction t) (auto simp: lookup_def update_where_def)
  then show ?thesis
    by (auto simp: upsert_by_def lookup_append lookup_single split: option.splits dest: lookup_Some)
qed

lemma distinct_upsert_by:
  assumes "\<And>x. key x = key r \<Longrightarrow> key (merge r x) = key r" and "distinct (map key t)"
  shows "distinct (map key (upsert_by key merge r t))"
proof -
  have "map key (update_where (\<lambda>x. key x = key r) (merge r) t) = map key t"
    using assms(1) by (induction t) (auto simp: update_where_def)
  then show ?thesis using assms(2) by (auto simp: upsert_by_def lookup_None_iff)
qed

section \<open>Links\<close>

definition link_key :: "NamespaceLink \<Rightarrow> string \<times> string" where
  "link_key l = (Src l, Dst l)"

definition PutLink :: "Time \<Rightarrow> NamespaceLink \<Rightarrow> db \<Rightarrow> db" where
  "PutLink wall l d =
     (let l' = l\<lparr> lCreatedAt := (if IsZero (lCreatedAt l) then wall else lCreatedAt l) \<rparr>
      in d\<lparr> namespace_links := upsert_by link_key
           (\<lambda>new x. x\<lparr> lTiers := lTiers new, lNote := lNote new, lCreatedAt := lCreatedAt new \<rparr>)
           l' (namespace_links d) \<rparr>)"

definition DeleteLink :: "string \<Rightarrow> string \<Rightarrow> db \<Rightarrow> bool \<times> db" where
  "DeleteLink src dst d =
     (count_where (\<lambda>l. Src l = src \<and> Dst l = dst) (namespace_links d) > 0,
      d\<lparr> namespace_links := delete_where (\<lambda>l. Src l = src \<and> Dst l = dst) (namespace_links d) \<rparr>)"

definition link_less :: "NamespaceLink \<Rightarrow> NamespaceLink \<Rightarrow> bool" where
  "link_less a b \<longleftrightarrow> Src a < Src b \<or> (Src a = Src b \<and> Dst a < Dst b)"

definition ListLinks :: "string \<Rightarrow> db \<Rightarrow> NamespaceLink list" where
  "ListLinks src d = order_by (\<lambda>a b. Dst a < Dst b) (filter (\<lambda>l. Src l = src) (namespace_links d))"

definition ListAllLinks :: "db \<Rightarrow> NamespaceLink list" where
  "ListAllLinks d = order_by link_less (namespace_links d)"

definition renamed :: "string \<Rightarrow> string \<Rightarrow> string \<Rightarrow> string" where
  "renamed frm to ns = (if ns = frm then to else ns)"

text \<open>One turn of the loop: the row is deleted, and inserted under its new key unless one is there.\<close>

definition rename_link :: "string \<Rightarrow> string \<Rightarrow> NamespaceLink \<Rightarrow> NamespaceLink list \<Rightarrow> NamespaceLink list" where
  "rename_link frm to r t =
     (let t1 = delete_where (\<lambda>l. Src l = Src r \<and> Dst l = Dst r) t;
          r' = r\<lparr> Src := renamed frm to (Src r), Dst := renamed frm to (Dst r) \<rparr>
      in if lookup link_key t1 (link_key r') = None then t1 @ [r'] else t1)"

definition RenameLinkEndpoints :: "string \<Rightarrow> string \<Rightarrow> db \<Rightarrow> db" where
  "RenameLinkEndpoints frm to d =
     (if frm = to then d
      else
        (let toRename = order_by link_less (filter (\<lambda>l. Src l = frm \<or> Dst l = frm) (namespace_links d))
         in d\<lparr> namespace_links := fold (rename_link frm to) toRename (namespace_links d) \<rparr>))"

section \<open>API keys\<close>

definition PutAPIKey :: "Time \<Rightarrow> APIKey \<Rightarrow> db \<Rightarrow> store_error + db" where
  "PutAPIKey wall k d =
     (let created = (if IsZero (kCreatedAt k)
                     then (case lookup Name (api_keys d) (Name k) of None \<Rightarrow> wall | Some x \<Rightarrow> kCreatedAt x)
                     else kCreatedAt k)
      in if list_ex (\<lambda>x. Hash x = Hash k \<and> Name x \<noteq> Name k) (api_keys d)
         then Inl (UniqueViolation ''api_keys.key_hash'')
         else Inr (d\<lparr> api_keys := upsert_by Name (\<lambda>new x. new) (k\<lparr> kCreatedAt := created \<rparr>) (api_keys d) \<rparr>))"

definition DeleteAPIKey :: "string \<Rightarrow> db \<Rightarrow> bool \<times> db" where
  "DeleteAPIKey name d =
     (count_where (\<lambda>k. Name k = name) (api_keys d) > 0,
      d\<lparr> api_keys := delete_where (\<lambda>k. Name k = name) (api_keys d) \<rparr>)"

definition ListAPIKeys :: "db \<Rightarrow> APIKey list" where
  "ListAPIKeys d = order_by (\<lambda>a b. Name a < Name b) (api_keys d)"

definition GetAPIKeyByHash :: "string \<Rightarrow> db \<Rightarrow> APIKey option" where
  "GetAPIKeyByHash hash d = lookup Hash (api_keys d) hash"

definition RenameAPIKeyNamespaces :: "string \<Rightarrow> string \<Rightarrow> db \<Rightarrow> db" where
  "RenameAPIKeyNamespaces frm to d =
     (if frm = to then d
      else d\<lparr> api_keys := update_where (\<lambda>k. HomeNS k = frm \<or> DefaultNS k = frm)
        (\<lambda>k. k\<lparr> HomeNS := renamed frm to (HomeNS k), DefaultNS := renamed frm to (DefaultNS k) \<rparr>)
        (api_keys d) \<rparr>)"

section \<open>Pins\<close>

definition put_pin :: "Time \<Rightarrow> Pin \<Rightarrow> Pin list \<Rightarrow> Pin list" where
  "put_pin now e t =
     (let created = (if IsZero (pCreatedAt e) then now else pCreatedAt e);
          updated = (if IsZero (pUpdatedAt e) then now else pUpdatedAt e);
          prov = (case lookup pKey t (pKey e) of
                    None \<Rightarrow> (created, CreatedBy e)
                  | Some x \<Rightarrow> (pCreatedAt x, CreatedBy x))
      in upsert_by pKey
           (\<lambda>new x. x\<lparr> pNamespace := pNamespace new, pNote := pNote new, pUpdatedAt := pUpdatedAt new \<rparr>)
           (e\<lparr> CreatedBy := snd prov, pCreatedAt := fst prov, pUpdatedAt := updated \<rparr>) t)"

definition PutPins :: "Time \<Rightarrow> Pin list \<Rightarrow> db \<Rightarrow> db" where
  "PutPins now entries d = d\<lparr> pins := fold (put_pin now) entries (pins d) \<rparr>"

definition GetPins :: "string list \<Rightarrow> db \<Rightarrow> Pin list" where
  "GetPins keys d = filter (\<lambda>p. pKey p \<in> set keys) (pins d)"

definition DeletePins :: "string list \<Rightarrow> db \<Rightarrow> nat \<times> db" where
  "DeletePins keys d =
     (count_where (\<lambda>p. pKey p \<in> set keys) (pins d),
      d\<lparr> pins := delete_where (\<lambda>p. pKey p \<in> set keys) (pins d) \<rparr>)"

definition ListPins :: "db \<Rightarrow> Pin list" where
  "ListPins d = order_by (\<lambda>a b. pKey a < pKey b) (pins d)"

definition RenamePinNamespaces :: "string \<Rightarrow> string \<Rightarrow> db \<Rightarrow> db" where
  "RenamePinNamespaces frm to d =
     (if frm = to then d
      else d\<lparr> pins := update_where (\<lambda>p. pNamespace p = frm) (\<lambda>p. p\<lparr> pNamespace := to \<rparr>) (pins d) \<rparr>)"

text \<open>
  \<open>renamePinsTable\<close>: the rows of a stray \<open>project_map\<close> table are folded into \<open>pins\<close>. The
  tables are the two options; the result is the pins table.
\<close>

definition renamePinsTable :: "Pin list option \<Rightarrow> Pin list option \<Rightarrow> Pin list option" where
  "renamePinsTable old new =
     (case old of
        None \<Rightarrow> new
      | Some stray \<Rightarrow>
          (case new of
             None \<Rightarrow> Some stray
           | Some t \<Rightarrow> Some (fold (upsert_by pKey
               (\<lambda>new x. x\<lparr> pNamespace := pNamespace new, pNote := pNote new, pUpdatedAt := pUpdatedAt new \<rparr>))
               stray t)))"

section \<open>Unique keys\<close>

definition links_ok :: "db \<Rightarrow> bool" where
  "links_ok d \<longleftrightarrow> distinct (map link_key (namespace_links d))
     \<and> distinct (map Name (api_keys d)) \<and> distinct (map Hash (api_keys d))
     \<and> distinct (map pKey (pins d))"

lemma PutLink_ok: "links_ok d \<Longrightarrow> links_ok (PutLink wall l d)"
  unfolding links_ok_def PutLink_def Let_def
  by (auto intro!: distinct_upsert_by simp: link_key_def)

lemma DeleteLink_ok: "links_ok d \<Longrightarrow> links_ok (snd (DeleteLink src dst d))"
  by (simp add: links_ok_def DeleteLink_def distinct_delete_where)

lemma rename_link_distinct:
  "distinct (map link_key t) \<Longrightarrow> distinct (map link_key (rename_link frm to r t))"
  by (auto simp: rename_link_def Let_def distinct_delete_where lookup_None_iff)

lemma fold_rename_link_distinct:
  "distinct (map link_key t) \<Longrightarrow> distinct (map link_key (fold (rename_link frm to) rs t))"
  by (induction rs arbitrary: t) (auto simp: rename_link_distinct)

lemma RenameLinkEndpoints_ok: "links_ok d \<Longrightarrow> links_ok (RenameLinkEndpoints frm to d)"
  by (simp add: links_ok_def RenameLinkEndpoints_def Let_def fold_rename_link_distinct)

lemma distinct_upsert_hash:
  assumes "distinct (map Hash t)" and "distinct (map Name t)"
    and "\<forall>x \<in> set t. Hash x = Hash k \<longrightarrow> Name x = Name k"
  shows "distinct (map Hash (upsert_by Name (\<lambda>new x. new) k t))"
  using assms
proof (induction t)
  case Nil
  then show ?case by (simp add: upsert_by_def lookup_def)
next
  case (Cons x t)
  show ?case
  proof (cases "Name x = Name k")
    case True
    then have "\<forall>y \<in> set t. Name y \<noteq> Name k" using Cons.prems(2) by (metis distinct.simps(2) image_eqI list.map(2) list.set_map)
    then have u: "update_where (\<lambda>x. Name x = Name k) (\<lambda>x. k) t = t" by (simp add: update_where_none)
    have "Hash k \<notin> Hash ` set t"
    proof
      assume "Hash k \<in> Hash ` set t"
      then obtain y where "y \<in> set t" "Hash y = Hash k" by (metis imageE)
      then show False using Cons.prems(3) \<open>\<forall>y \<in> set t. Name y \<noteq> Name k\<close>
        by (meson list.set_intros(2))
    qed
    moreover have "distinct (map Hash t)" using Cons.prems(1) by simp
    moreover have "upsert_by Name (\<lambda>new x. new) k (x # t) = k # t"
      using True u by (simp add: upsert_by_def lookup_def update_where_def)
    ultimately show ?thesis by simp
  next
    case False
    then have "Hash x \<noteq> Hash k" using Cons.prems(3) by (meson list.set_intros(1))
    moreover have "upsert_by Name (\<lambda>new x. new) k (x # t) = x # upsert_by Name (\<lambda>new x. new) k t"
      using False by (simp add: upsert_by_def lookup_def update_where_def)
    moreover have "Hash ` set (upsert_by Name (\<lambda>new x. new) k t) \<subseteq> insert (Hash k) (Hash ` set t)"
      by (auto simp: upsert_by_def set_update_where)
    moreover have "Hash x \<notin> Hash ` set t" and "distinct (map Hash t)" and "distinct (map Name t)"
      using Cons.prems(1,2) by auto
    moreover have "\<forall>y \<in> set t. Hash y = Hash k \<longrightarrow> Name y = Name k"
      using Cons.prems(3) by (meson list.set_intros(2))
    ultimately show ?thesis using Cons.IH by (auto dest!: subsetD)
  qed
qed

lemma PutAPIKey_ok:
  assumes "PutAPIKey wall k d = Inr d'" and "links_ok d"
  shows "links_ok d'"
proof -
  let ?c = "if IsZero (kCreatedAt k)
            then (case lookup Name (api_keys d) (Name k) of None \<Rightarrow> wall | Some x \<Rightarrow> kCreatedAt x)
            else kCreatedAt k"
  have "\<forall>x \<in> set (api_keys d). Hash x = Hash k \<longrightarrow> Name x = Name k"
    and d': "d' = d\<lparr> api_keys := upsert_by Name (\<lambda>new x. new) (k\<lparr> kCreatedAt := ?c \<rparr>) (api_keys d) \<rparr>"
    using assms(1) by (auto simp: PutAPIKey_def Let_def list_ex_iff split: if_splits)
  then show ?thesis
    using assms(2) distinct_upsert_hash [of "api_keys d" "k\<lparr> kCreatedAt := ?c \<rparr>"]
    by (simp add: links_ok_def distinct_upsert_by)
qed

lemma DeleteAPIKey_ok: "links_ok d \<Longrightarrow> links_ok (snd (DeleteAPIKey name d))"
  by (simp add: links_ok_def DeleteAPIKey_def distinct_delete_where)

lemma RenameAPIKeyNamespaces_ok: "links_ok d \<Longrightarrow> links_ok (RenameAPIKeyNamespaces frm to d)"
  by (simp add: links_ok_def RenameAPIKeyNamespaces_def map_update_where)

lemma put_pin_distinct: "distinct (map pKey t) \<Longrightarrow> distinct (map pKey (put_pin now e t))"
  by (simp add: put_pin_def Let_def distinct_upsert_by)

lemma fold_put_pin_distinct:
  "distinct (map pKey t) \<Longrightarrow> distinct (map pKey (fold (put_pin now) es t))"
  by (induction es arbitrary: t) (auto simp: put_pin_distinct)

lemma PutPins_ok: "links_ok d \<Longrightarrow> links_ok (PutPins now es d)"
  by (simp add: links_ok_def PutPins_def fold_put_pin_distinct)

lemma DeletePins_ok: "links_ok d \<Longrightarrow> links_ok (snd (DeletePins keys d))"
  and RenamePinNamespaces_ok: "links_ok d \<Longrightarrow> links_ok (RenamePinNamespaces frm to d)"
  by (simp_all add: links_ok_def DeletePins_def RenamePinNamespaces_def distinct_delete_where map_update_where)

section \<open>Renaming the endpoints of links\<close>

lemma rename_link_keeps:
  "l \<in> set t \<Longrightarrow> link_key l \<noteq> link_key r \<Longrightarrow> l \<in> set (rename_link frm to r t)"
  by (auto simp: rename_link_def Let_def set_delete_where link_key_def)

lemma rename_link_set:
  "l \<in> set (rename_link frm to r t) \<Longrightarrow>
     (l \<in> set t \<and> link_key l \<noteq> link_key r)
     \<or> l = r\<lparr> Src := renamed frm to (Src r), Dst := renamed frm to (Dst r) \<rparr>"
  by (auto simp: rename_link_def Let_def set_delete_where link_key_def split: if_splits)

lemma fold_rename_link_keeps:
  "l \<in> set t \<Longrightarrow> link_key l \<notin> link_key ` set rs \<Longrightarrow> l \<in> set (fold (rename_link frm to) rs t)"
  by (induction rs arbitrary: t) (auto simp: rename_link_keeps)

lemma fold_rename_link_set:
  "l \<in> set (fold (rename_link frm to) rs t) \<Longrightarrow>
     (l \<in> set t \<and> link_key l \<notin> link_key ` set rs)
     \<or> (\<exists>r \<in> set rs. l = r\<lparr> Src := renamed frm to (Src r), Dst := renamed frm to (Dst r) \<rparr>)"
proof (induction rs arbitrary: t)
  case (Cons r rs)
  then have "(l \<in> set (rename_link frm to r t) \<and> link_key l \<notin> link_key ` set rs)
     \<or> (\<exists>r \<in> set rs. l = r\<lparr> Src := renamed frm to (Src r), Dst := renamed frm to (Dst r) \<rparr>)" by simp
  then show ?case using rename_link_set [of l frm to r t] by auto
qed simp

lemma RenameLinkEndpoints_no_from:
  assumes "frm \<noteq> to" and "l \<in> set (namespace_links (RenameLinkEndpoints frm to d))"
  shows "Src l \<noteq> frm \<and> Dst l \<noteq> frm"
  using assms
  by (auto simp: RenameLinkEndpoints_def Let_def renamed_def link_key_def image_iff
      dest!: fold_rename_link_set split: if_splits)

lemma RenameLinkEndpoints_keeps:
  assumes "l \<in> set (namespace_links d)" and "Src l \<noteq> frm" and "Dst l \<noteq> frm"
  shows "l \<in> set (namespace_links (RenameLinkEndpoints frm to d))"
  using assms
  by (auto simp: RenameLinkEndpoints_def Let_def link_key_def intro!: fold_rename_link_keeps)

section \<open>Provenance\<close>

lemma put_pin_lookup:
  "lookup pKey (put_pin now e t) k =
     (if k = pKey e then
        Some (case lookup pKey t k of
            None \<Rightarrow> e\<lparr> pCreatedAt := (if IsZero (pCreatedAt e) then now else pCreatedAt e),
                      pUpdatedAt := (if IsZero (pUpdatedAt e) then now else pUpdatedAt e) \<rparr>
          | Some x \<Rightarrow> x\<lparr> pNamespace := pNamespace e, pNote := pNote e,
                         pUpdatedAt := (if IsZero (pUpdatedAt e) then now else pUpdatedAt e) \<rparr>)
      else lookup pKey t k)"
  unfolding put_pin_def Let_def
  by (subst lookup_upsert_by) (auto split: option.splits)

lemma fold_put_pin_provenance:
  "lookup pKey t k = Some x \<Longrightarrow>
   \<exists>y. lookup pKey (fold (put_pin now) es t) k = Some y \<and> pKey y = pKey x
     \<and> pCreatedAt y = pCreatedAt x \<and> CreatedBy y = CreatedBy x"
proof (induction es arbitrary: t x)
  case Nil
  then show ?case by simp
next
  case (Cons e es)
  obtain z where z: "lookup pKey (put_pin now e t) k = Some z"
    "pKey z = pKey x" "pCreatedAt z = pCreatedAt x" "CreatedBy z = CreatedBy x"
    using Cons.prems lookup_Some [OF Cons.prems]
    by (cases "k = pKey e") (auto simp: put_pin_lookup)
  from Cons.IH [OF z(1)] z show ?case by auto
qed

lemma PutAPIKey_lookup:
  assumes "PutAPIKey wall k d = Inr d'"
  shows "lookup Name (api_keys d') n =
    (if n = Name k then
       Some (k\<lparr> kCreatedAt := (if \<not> IsZero (kCreatedAt k) then kCreatedAt k
                else case lookup Name (api_keys d) n of None \<Rightarrow> wall | Some x \<Rightarrow> kCreatedAt x) \<rparr>)
     else lookup Name (api_keys d) n)"
  using assms
  by (auto simp: PutAPIKey_def Let_def lookup_upsert_by split: if_splits option.splits)

lemma RenameAPIKeyNamespaces_no_from:
  "frm \<noteq> to \<Longrightarrow> k \<in> set (api_keys (RenameAPIKeyNamespaces frm to d)) \<Longrightarrow>
   HomeNS k \<noteq> frm \<and> DefaultNS k \<noteq> frm"
  by (auto simp: RenameAPIKeyNamespaces_def set_update_where renamed_def split: if_splits)

end
