(* ===== verification/Sqlite_Events.thy ===== *)
theory Sqlite_Events
  imports Sqlite_Invariant "HOL-Library.Sublist"
begin

text \<open>
  The activity log, \<open>internal/store/sqlitevec/events.go\<close>: \<open>AppendEvents\<close>,
  \<open>ListEvents\<close>, \<open>ServedSnapshots\<close> and \<open>PruneEvents\<close> on the table \<open>memory_events\<close>.
  The lemmas show the newest-first order, that the keyset cursor neither repeats nor skips
  a row, that the tier and text filters keep or drop an operation as a whole, and what
  pruning keeps.
\<close>

section \<open>Appending\<close>

definition append_event :: "Event \<Rightarrow> Event list \<Rightarrow> Event list" where
  "append_event e t =
     t @ [e\<lparr> eID := next_rowid (map eID t), eCreatedAt := fromMs (ms (eCreatedAt e)) \<rparr>]"

definition AppendEvents :: "Event list \<Rightarrow> db \<Rightarrow> db" where
  "AppendEvents events d =
     (if events = [] then d
      else d\<lparr> memory_events := fold append_event events (memory_events d) \<rparr>)"

section \<open>Reading\<close>

text \<open>\<open>ORDER BY created_at DESC, id DESC\<close>.\<close>

definition newer :: "Event \<Rightarrow> Event \<Rightarrow> bool" where
  "newer a b \<longleftrightarrow>
     ms (eCreatedAt b) < ms (eCreatedAt a)
     \<or> (ms (eCreatedAt a) = ms (eCreatedAt b) \<and> eID b < eID a)"

text \<open>The conditions on the row alone.\<close>

definition row_match :: "EventFilter \<Rightarrow> Event \<Rightarrow> bool" where
  "row_match f e \<longleftrightarrow>
     (if efNamespace f \<noteq> '''' then eNamespace e = efNamespace f
      else efNamespaces f \<noteq> [] \<longrightarrow> eNamespace e \<in> set (efNamespaces f))
     \<and> (efKinds f \<noteq> [] \<longrightarrow> Kind e \<in> set (efKinds f))
     \<and> (efActor f \<noteq> '''' \<longrightarrow> Actor e = efActor f)
     \<and> (\<not> IsZero (Since f) \<longrightarrow> ms (Since f) \<le> ms (eCreatedAt e))"

text \<open>The conditions on the operation: some row of the log with the same \<open>op_id\<close>.\<close>

definition text_pattern :: "string \<Rightarrow> string" where
  "text_pattern t = ''%'' @ escapeLike (ToLower t) @ ''%''"

definition row_has_text :: "string \<Rightarrow> Event \<Rightarrow> bool" where
  "row_has_text t e \<longleftrightarrow>
     like (CHR 92) (text_pattern t) (ToLower (Query e))
     \<or> like (CHR 92) (text_pattern t) (ToLower (MemorySummary e))"

definition op_match :: "EventFilter \<Rightarrow> Event list \<Rightarrow> string \<Rightarrow> bool" where
  "op_match f evs op \<longleftrightarrow>
     (efTiers f \<noteq> [] \<longrightarrow>
        op \<in> set (map OpID (filter (\<lambda>e. MemoryTier e \<in> set (efTiers f)) evs)))
     \<and> (efText f \<noteq> '''' \<longrightarrow> op \<in> set (map OpID (filter (row_has_text (efText f)) evs)))"

text \<open>The keyset cursor.\<close>

definition cursor_match :: "EventFilter \<Rightarrow> Event \<Rightarrow> bool" where
  "cursor_match f e \<longleftrightarrow>
     (\<not> IsZero (BeforeT f) \<longrightarrow>
        ms (eCreatedAt e) < ms (BeforeT f)
        \<or> (ms (eCreatedAt e) = ms (BeforeT f) \<and> eID e < BeforeID f))"

definition ListEvents :: "EventFilter \<Rightarrow> db \<Rightarrow> Event list" where
  "ListEvents f d =
     limit_rows (if Limit f > 0 then Limit f else -1)
       (order_by newer
         (filter (\<lambda>e. row_match f e \<and> op_match f (memory_events d) (OpID e) \<and> cursor_match f e)
            (memory_events d)))"

section \<open>Snapshots of served memories\<close>

definition newest_of :: "Event list \<Rightarrow> Event option" where
  "newest_of es =
     fold (\<lambda>e best. case best of None \<Rightarrow> Some e
                      | Some b \<Rightarrow> if eID b < eID e then Some e else Some b) es None"

definition served_row :: "string \<Rightarrow> Time \<Rightarrow> Event \<Rightarrow> bool" where
  "served_row ns since e \<longleftrightarrow>
     eNamespace e = ns \<and> MemoryNS e \<noteq> '''' \<and> Kind e \<in> set [EventRecall, EventBriefing]
     \<and> (\<not> IsZero since \<longrightarrow> ms since \<le> ms (eCreatedAt e))"

definition ServedSnapshots :: "string \<Rightarrow> string list \<Rightarrow> Time \<Rightarrow> db \<Rightarrow> (string \<rightharpoonup> MemorySnapshot)" where
  "ServedSnapshots ns ids since d =
     (if ids = [] then Map.empty
      else (\<lambda>i. if i \<in> set ids
                then map_option
                  (\<lambda>e. \<lparr> snapNamespace = MemoryNS e, snapTier = MemoryTier e, snapSummary = MemorySummary e \<rparr>)
                  (newest_of (filter (\<lambda>e. served_row ns since e \<and> MemoryID e = i) (memory_events d)))
                else None))"

section \<open>Pruning\<close>

definition prune_by_age :: "Time \<Rightarrow> Event list \<Rightarrow> nat \<times> Event list" where
  "prune_by_age olderThan t =
     (if IsZero olderThan then (0, t)
      else (count_where (\<lambda>e. ms (eCreatedAt e) < ms olderThan) t,
            delete_where (\<lambda>e. ms (eCreatedAt e) < ms olderThan) t))"

definition prune_by_cap :: "int \<Rightarrow> Event list \<Rightarrow> nat \<times> Event list" where
  "prune_by_cap keepMax t =
     (if keepMax > 0 then
        (let doomed = map eID (drop (nat keepMax) (order_by newer t))
         in (count_where (\<lambda>e. eID e \<in> set doomed) t, delete_where (\<lambda>e. eID e \<in> set doomed) t))
      else (0, t))"

definition PruneEvents :: "Time \<Rightarrow> int \<Rightarrow> db \<Rightarrow> nat \<times> db" where
  "PruneEvents olderThan keepMax d =
     (let (n1, t1) = prune_by_age olderThan (memory_events d);
          (n2, t2) = prune_by_cap keepMax t1
      in (n1 + n2, d\<lparr> memory_events := t2 \<rparr>))"

section \<open>Row ids and order\<close>

interpretation newer: strict_weak_order newer
  by unfold_locales (auto simp: newer_def)

lemma newer_total: "eID a \<noteq> eID b \<Longrightarrow> newer a b \<or> newer b a"
  by (auto simp: newer_def)

lemma append_event_ids: "distinct (map eID t) \<Longrightarrow> distinct (map eID (append_event e t))"
  using next_rowid_fresh [of "map eID t"] by (simp add: append_event_def)

lemma fold_append_ids: "distinct (map eID t) \<Longrightarrow> distinct (map eID (fold append_event es t))"
  by (induction es arbitrary: t) (auto simp: append_event_ids)

text \<open>New rows go after the old ones, with larger ids.\<close>

lemma fold_append_split:
  "\<exists>new. fold append_event es t = t @ new \<and> length new = length es
     \<and> (\<forall>e \<in> set new. \<forall>x \<in> set t. eID x < eID e)
     \<and> map OpID new = map OpID es \<and> (\<forall>e \<in> set new. \<exists>e' \<in> set es. eCreatedAt e = fromMs (ms (eCreatedAt e')))"
proof (induction es arbitrary: t)
  case (Cons e es)
  from Cons [of "append_event e t"] obtain new where
    n: "fold append_event es (append_event e t) = append_event e t @ new" "length new = length es"
      "\<forall>x \<in> set new. \<forall>y \<in> set (append_event e t). eID y < eID x" "map OpID new = map OpID es"
      "\<forall>x \<in> set new. \<exists>e' \<in> set es. eCreatedAt x = fromMs (ms (eCreatedAt e'))" by blast
  let ?e = "e\<lparr> eID := next_rowid (map eID t), eCreatedAt := fromMs (ms (eCreatedAt e)) \<rparr>"
  have "\<forall>x \<in> set t. eID x < eID ?e" using next_rowid_greater [of _ "map eID t"] by simp
  then show ?case using n by (intro exI [of _ "?e # new"]) (simp add: append_event_def [of e])
qed simp

lemma sorted_wrt_newer:
  "sorted_wrt (\<lambda>a b. \<not> newer b a) t \<Longrightarrow> distinct (map eID t) \<Longrightarrow> sorted_wrt newer t"
  by (induction t) (use newer_total in force)+

lemma sorted_events:
  assumes "distinct (map eID t)"
  shows "sorted_wrt newer (order_by newer t)"
proof (rule sorted_wrt_newer)
  show "sorted_wrt (\<lambda>a b. \<not> newer b a) (order_by newer t)" by (rule newer.sorted_SliceStable)
  show "distinct (map eID (order_by newer t))"
    using assms by (metis distinct_map distinct_SliceStable set_SliceStable)
qed

lemma ListEvents_sorted:
  assumes "distinct (map eID (memory_events d))"
  shows "sorted_wrt newer (ListEvents f d)"
proof -
  let ?p = "\<lambda>e. row_match f e \<and> op_match f (memory_events d) (OpID e) \<and> cursor_match f e"
  have "distinct (map eID (filter ?p (memory_events d)))"
    using assms by (rule distinct_map_filter)
  from sorted_events [OF this] show ?thesis
    by (simp add: ListEvents_def limit_rows_def sorted_wrt_take)
qed

lemma in_ListEvents:
  "e \<in> set (ListEvents f d) \<Longrightarrow>
   e \<in> set (memory_events d) \<and> row_match f e \<and> op_match f (memory_events d) (OpID e) \<and> cursor_match f e"
  using set_limit_rows unfolding ListEvents_def by fastforce

lemma ListEvents_length: "0 < Limit f \<Longrightarrow> length (ListEvents f d) \<le> nat (Limit f)"
  unfolding ListEvents_def by (simp add: length_limit_rows)

lemma ListEvents_unlimited:
  "Limit f \<le> 0 \<Longrightarrow> set (ListEvents f d) =
     {e \<in> set (memory_events d). row_match f e \<and> op_match f (memory_events d) (OpID e) \<and> cursor_match f e}"
  by (auto simp: ListEvents_def limit_rows_def)

section \<open>Pages\<close>

definition first_page :: "EventFilter \<Rightarrow> int \<Rightarrow> EventFilter" where
  "first_page f n = f\<lparr> BeforeT := 0, BeforeID := 0, Limit := n \<rparr>"

definition page_after :: "EventFilter \<Rightarrow> Event \<Rightarrow> int \<Rightarrow> EventFilter" where
  "page_after f e n = f\<lparr> BeforeT := eCreatedAt e, BeforeID := eID e, Limit := n \<rparr>"

lemma page_match [simp]:
  "row_match (first_page f n) = row_match f" "row_match (page_after f e n) = row_match f"
  "op_match (first_page f n) = op_match f" "op_match (page_after f e n) = op_match f"
  "cursor_match (first_page f n) = (\<lambda>_. True)" "Limit (first_page f n) = n" "Limit (page_after f e n) = n"
  by (auto simp: fun_eq_iff row_match_def op_match_def cursor_match_def first_page_def page_after_def IsZero_def)

lemma cursor_page_after:
  "\<not> IsZero (eCreatedAt e) \<Longrightarrow> cursor_match (page_after f e n) = newer e"
  by (auto simp: fun_eq_iff cursor_match_def page_after_def newer_def)

lemma page_after_drop:
  assumes "distinct (map eID (memory_events d))"
    and "k < length (ListEvents (first_page f 0) d)"
    and "e = ListEvents (first_page f 0) d ! k" and "\<not> IsZero (eCreatedAt e)"
  shows "ListEvents (page_after f e n) d =
    limit_rows (if n > 0 then n else -1) (drop (Suc k) (ListEvents (first_page f 0) d))"
proof -
  let ?L = "ListEvents (first_page f 0) d"
  let ?q = "\<lambda>e. row_match f e \<and> op_match f (memory_events d) (OpID e)"
  have L: "?L = order_by newer (filter ?q (memory_events d))"
    by (simp add: ListEvents_def limit_rows_def)
  have "order_by newer (filter (\<lambda>x. row_match f x \<and> op_match f (memory_events d) (OpID x) \<and> newer e x) (memory_events d))
      = filter (newer e) ?L"
    by (simp add: L newer.filter_SliceStable_comm conj_commute conj_left_commute)
  also have "\<dots> = drop (Suc k) ?L"
    unfolding assms(3)
    by (rule filter_sorted_drop [OF ListEvents_sorted [OF assms(1)] assms(2)]) (auto simp: newer_def)
  finally show ?thesis
    by (simp add: ListEvents_def [of "page_after f e n"] cursor_page_after [OF assms(4)])
qed

lemma first_page_take:
  "0 < n \<Longrightarrow> ListEvents (first_page f n) d = take (nat n) (ListEvents (first_page f 0) d)"
  by (simp add: ListEvents_def limit_rows_def)

text \<open>
  Operations logged between two reads do not disturb the later page: their rows are newer
  than the cursor row, so the page is the one that was there before.
\<close>

lemma page_after_append:
  assumes "e \<in> set (memory_events d)" and "\<not> IsZero (eCreatedAt e)"
    and "\<forall>x \<in> set es. eCreatedAt e \<le> eCreatedAt x"
    and "\<forall>x \<in> set es. OpID x \<notin> set (map OpID (memory_events d))"
  shows "ListEvents (page_after f e n) (AppendEvents es d) = ListEvents (page_after f e n) d"
proof (cases "es = []")
  case True
  then show ?thesis by (simp add: AppendEvents_def)
next
  case False
  obtain new where n: "fold append_event es (memory_events d) = memory_events d @ new"
    "\<forall>x \<in> set new. \<forall>y \<in> set (memory_events d). eID y < eID x" "map OpID new = map OpID es"
    "\<forall>x \<in> set new. \<exists>e' \<in> set es. eCreatedAt x = fromMs (ms (eCreatedAt e'))"
    using fold_append_split [of es "memory_events d"] by blast
  have ev: "memory_events (AppendEvents es d) = memory_events d @ new"
    using False n(1) by (simp add: AppendEvents_def)
  have old: "\<not> newer e x" if x: "x \<in> set new" for x
  proof -
    from n(4) x obtain e' where "e' \<in> set es" "eCreatedAt x = fromMs (ms (eCreatedAt e'))" by blast
    with assms(3) have "ms (eCreatedAt e) \<le> ms (eCreatedAt x)" by (simp add: UnixMilli_mono)
    moreover have "eID e < eID x" using n(2) x assms(1) by blast
    ultimately show ?thesis by (auto simp: newer_def)
  qed
  have op: "op_match f (memory_events d @ new) (OpID x) = op_match f (memory_events d) (OpID x)"
    if "x \<in> set (memory_events d)" for x
  proof -
    have "OpID x \<notin> OpID ` set new"
      using n(3) assms(4) that by (metis image_eqI image_iff list.set_map)
    then show ?thesis by (auto simp: op_match_def)
  qed
  have "filter (\<lambda>x. row_match f x \<and> op_match f (memory_events d @ new) (OpID x) \<and> newer e x) (memory_events d @ new)
      = filter (\<lambda>x. row_match f x \<and> op_match f (memory_events d) (OpID x) \<and> newer e x) (memory_events d)"
    using old op by (auto simp: filter_empty_conv intro: filter_cong)
  then show ?thesis
    by (simp add: ListEvents_def ev cursor_page_after [OF assms(2)] del: filter_append)
qed

text \<open>An operation is in the feed with all of its rows, or with none.\<close>

lemma whole_operation:
  assumes "e \<in> set (ListEvents (first_page f 0) d)"
    and "x \<in> set (memory_events d)" and "OpID x = OpID e" and "row_match f x"
  shows "x \<in> set (ListEvents (first_page f 0) d)"
  using in_ListEvents [OF assms(1)] assms(2-) by (simp add: ListEvents_unlimited)

section \<open>What pruning keeps\<close>

lemma order_by_split: "set (take n (order_by newer t)) \<union> set (drop n (order_by newer t)) = set t"
  by (metis append_take_drop_id set_SliceStable set_append)

lemma eID_image:
  assumes "distinct (map eID t)" and "A \<subseteq> set t" and "e \<in> set t"
  shows "eID e \<in> eID ` A \<longleftrightarrow> e \<in> A"
  using assms by (auto simp: distinct_map inj_on_def)

lemma prune_by_cap_set:
  assumes "distinct (map eID t)" and "0 < k"
  shows "set (snd (prune_by_cap k t)) = set (take (nat k) (order_by newer t))"
proof -
  let ?s = "order_by newer t"
  have d: "distinct ?s" using assms(1) by (simp add: distinct_map)
  have "set (take (nat k) ?s) \<inter> set (drop (nat k) ?s) = {}"
    using d by (simp add: set_take_disj_set_drop_if_distinct)
  moreover have "set (snd (prune_by_cap k t)) = {e \<in> set t. eID e \<notin> eID ` set (drop (nat k) ?s)}"
    using assms(2) by (auto simp: prune_by_cap_def Let_def delete_where_def)
  moreover have "set (drop (nat k) ?s) \<subseteq> set t" using order_by_split [of "nat k" t] by blast
  ultimately show ?thesis
    using order_by_split [of "nat k" t] eID_image [OF assms(1)] by blast
qed

lemma prune_by_cap_ids: "distinct (map eID t) \<Longrightarrow> distinct (map eID (snd (prune_by_cap k t)))"
  by (simp add: prune_by_cap_def Let_def distinct_delete_where)

lemma distinct_length_card: "distinct (map f t) \<Longrightarrow> length t = card (set t)"
  by (metis distinct_card distinct_map)

lemma prune_by_cap_length:
  assumes "distinct (map eID t)" and "0 < k"
  shows "length (snd (prune_by_cap k t)) = min (nat k) (length t)"
proof -
  have "length (snd (prune_by_cap k t)) = card (set (take (nat k) (order_by newer t)))"
    using prune_by_cap_set [OF assms] distinct_length_card [OF prune_by_cap_ids [OF assms(1)]] by simp
  also have "\<dots> = length (take (nat k) (order_by newer t))"
    using assms(1) by (intro distinct_card) (simp add: distinct_map)
  finally show ?thesis by simp
qed

lemma PruneEvents_count:
  assumes "PruneEvents t k d = (n, d')"
  shows "n + length (memory_events d') = length (memory_events d)"
proof -
  have age: "fst (prune_by_age t es) + length (snd (prune_by_age t es)) = length es" for es
    using length_delete_where [of _ es] by (simp add: prune_by_age_def add.commute)
  have cap: "fst (prune_by_cap k es) + length (snd (prune_by_cap k es)) = length es" for es
    using length_delete_where [of _ es] by (simp add: prune_by_cap_def Let_def add.commute)
  show ?thesis
    using assms age [of "memory_events d"] cap [of "snd (prune_by_age t (memory_events d))"]
    by (auto simp: PruneEvents_def split: prod.splits)
qed

lemma PruneEvents_ids:
  "distinct (map eID (memory_events d)) \<Longrightarrow> distinct (map eID (memory_events (snd (PruneEvents t k d))))"
  by (simp add: PruneEvents_def prune_by_age_def prune_by_cap_def Let_def distinct_delete_where split: prod.splits)

text \<open>No row that the cap deletes is newer than one that stays.\<close>

lemma prune_by_cap_newest:
  assumes "distinct (map eID t)" and "0 < k"
    and "x \<in> set (snd (prune_by_cap k t))" and "y \<in> set t" and "y \<notin> set (snd (prune_by_cap k t))"
  shows "newer x y"
proof -
  let ?s = "order_by newer t"
  have "x \<in> set (take (nat k) ?s)" and "y \<in> set (drop (nat k) ?s)"
    using assms prune_by_cap_set [OF assms(1,2)] order_by_split [of "nat k" t] by auto
  moreover have "sorted_wrt newer (take (nat k) ?s @ drop (nat k) ?s)"
    using sorted_events [OF assms(1)] by simp
  ultimately show ?thesis by (auto simp only: sorted_wrt_append)
qed

section \<open>Text\<close>

text \<open>
  What the patterns match: \<open>escapeLike\<close> makes every character of a text literal, and
  \<open>LIKE\<close> folds ASCII case.
\<close>

lemma like_literal:
  "like (CHR 92) (escapeLike t @ p) s \<longleftrightarrow>
     (\<exists>u v. s = u @ v \<and> map lower_char u = map lower_char t \<and> like (CHR 92) p v)"
proof (induction t arbitrary: s)
  case Nil
  then show ?case by (simp add: escapeLike_def)
next
  case (Cons c t)
  have step: "like (CHR 92) (escapeLike (c # t) @ p) s \<longleftrightarrow>
      (case s of [] \<Rightarrow> False
       | x # s' \<Rightarrow> lower_char c = lower_char x \<and> like (CHR 92) (escapeLike t @ p) s')"
    by (auto simp: escapeLike_def split: list.splits)
  show ?case
  proof (cases s)
    case Nil
    then show ?thesis using step by simp
  next
    case s: (Cons x s')
    have l: "like (CHR 92) (escapeLike (c # t) @ p) s \<longleftrightarrow>
        lower_char c = lower_char x \<and> like (CHR 92) (escapeLike t @ p) s'"
      using step s by simp
    show ?thesis
    proof
      assume "like (CHR 92) (escapeLike (c # t) @ p) s"
      then obtain u v where "lower_char c = lower_char x" "s' = u @ v"
        "map lower_char u = map lower_char t" "like (CHR 92) p v"
        using l Cons.IH by blast
      then show "\<exists>u v. s = u @ v \<and> map lower_char u = map lower_char (c # t) \<and> like (CHR 92) p v"
        using s by (intro exI [of _ "x # u"] exI [of _ v]) simp
    next
      assume "\<exists>u v. s = u @ v \<and> map lower_char u = map lower_char (c # t) \<and> like (CHR 92) p v"
      then obtain u v where "s = u @ v" "map lower_char u = map lower_char (c # t)" "like (CHR 92) p v" by blast
      then obtain u' where "s' = u' @ v" "map lower_char u' = map lower_char t" "lower_char x = lower_char c"
        using s by (cases u) auto
      then show "like (CHR 92) (escapeLike (c # t) @ p) s"
        using l Cons.IH \<open>like (CHR 92) p v\<close> by metis
    qed
  qed
qed

lemma like_percent: "like (CHR 92) ''%'' s"
  by (induction s) auto

lemma like_percent_Cons:
  "like (CHR 92) (CHR ''%'' # p) s \<longleftrightarrow> (\<exists>u v. s = u @ v \<and> like (CHR 92) p v)"
proof (induction s)
  case (Cons x s)
  then show ?case by (auto simp: Cons_eq_append_conv)
qed simp

lemma like_prefix:
  "like (CHR 92) (escapeLike p @ ''%'') s \<longleftrightarrow> prefix (map lower_char p) (map lower_char s)"
  unfolding like_literal by (auto simp: prefix_def map_eq_append_conv like_percent simp del: like.simps)

lemma like_text_pattern:
  "like (CHR 92) (text_pattern t) s \<longleftrightarrow> sublist (ToLower t) (ToLower s)"
proof -
  have "like (CHR 92) (text_pattern t) s \<longleftrightarrow>
      (\<exists>u v. s = u @ v \<and> prefix (ToLower t) (ToLower v))"
    by (simp add: text_pattern_def like_percent_Cons like_prefix del: like.simps flip: ToLower_def)
  also have "\<dots> \<longleftrightarrow> sublist (ToLower t) (ToLower s)"
  proof
    assume "sublist (ToLower t) (ToLower s)"
    then obtain a b where "map lower_char s = a @ ToLower t @ b" by (auto simp: sublist_def ToLower_def)
    then obtain u v where "s = u @ v" "map lower_char v = ToLower t @ b"
      by (metis map_eq_append_conv)
    then show "\<exists>u v. s = u @ v \<and> prefix (ToLower t) (ToLower v)" unfolding ToLower_def by (metis prefixI)
  next
    assume "\<exists>u v. s = u @ v \<and> prefix (ToLower t) (ToLower v)"
    then obtain u v b where "s = u @ v" "ToLower v = ToLower t @ b" by (auto simp: prefix_def)
    then have "ToLower s = ToLower u @ ToLower t @ b" by (simp add: ToLower_def)
    then show "sublist (ToLower t) (ToLower s)" unfolding sublist_def by blast
  qed
  finally show ?thesis .
qed

lemma row_has_text_iff:
  "row_has_text t e \<longleftrightarrow>
     sublist (ToLower t) (ToLower (Query e)) \<or> sublist (ToLower t) (ToLower (MemorySummary e))"
  by (simp add: row_has_text_def like_text_pattern)

section \<open>Provenance of snapshots\<close>

definition keep_newer :: "Event \<Rightarrow> Event option \<Rightarrow> Event option" where
  "keep_newer e best = (case best of None \<Rightarrow> Some e | Some b \<Rightarrow> if eID b < eID e then Some e else Some b)"

lemma fold_keep_newer:
  "\<exists>e. fold keep_newer es (Some b) = Some e \<and> (e = b \<or> e \<in> set es) \<and> eID b \<le> eID e
      \<and> (\<forall>x \<in> set es. eID x \<le> eID e)"
proof (induction es arbitrary: b)
  case (Cons y ys)
  show ?case using Cons [of "if eID b < eID y then y else b"] by (auto simp: keep_newer_def split: if_splits)
qed simp

lemma newest_of_keep_newer: "newest_of es = fold keep_newer es None"
  by (simp add: newest_of_def keep_newer_def [abs_def])

lemma newest_of_Some:
  assumes "newest_of es = Some e"
  shows "e \<in> set es \<and> (\<forall>x \<in> set es. eID x \<le> eID e)"
proof (cases es)
  case (Cons y ys)
  then show ?thesis using assms fold_keep_newer [of ys y]
    by (auto simp: newest_of_keep_newer keep_newer_def)
qed (use assms in \<open>simp add: newest_of_def\<close>)

text \<open>A caller learns of a memory only what a serve to its own namespace has shown.\<close>

lemma ServedSnapshots_source:
  assumes "ServedSnapshots ns ids since d i = Some s"
  obtains e where "e \<in> set (memory_events d)" and "served_row ns since e" and "MemoryID e = i"
    and "i \<in> set ids"
    and "s = \<lparr> snapNamespace = MemoryNS e, snapTier = MemoryTier e, snapSummary = MemorySummary e \<rparr>"
    and "\<And>x. x \<in> set (memory_events d) \<Longrightarrow> served_row ns since x \<Longrightarrow> MemoryID x = i \<Longrightarrow> eID x \<le> eID e"
proof -
  let ?t = "filter (\<lambda>e. served_row ns since e \<and> MemoryID e = i) (memory_events d)"
  from assms obtain e where e: "newest_of ?t = Some e" "i \<in> set ids"
    "s = \<lparr> snapNamespace = MemoryNS e, snapTier = MemoryTier e, snapSummary = MemorySummary e \<rparr>"
    by (auto simp: ServedSnapshots_def split: if_splits)
  from newest_of_Some [OF e(1)] show thesis
    using e(2,3) by (intro that [of e]) auto
qed

section \<open>The other tables\<close>

lemma db_ok_events [simp]: "db_ok (d\<lparr> memory_events := t \<rparr>) = db_ok d"
  by (simp add: db_ok_def)

lemma AppendEvents_ids:
  "distinct (map eID (memory_events d)) \<Longrightarrow> distinct (map eID (memory_events (AppendEvents es d)))"
  by (simp add: AppendEvents_def fold_append_ids)

end
