(* ===== verification/Store_Contract.thy ===== *)
theory Store_Contract
  imports Sqlite_Repair Sqlite_Links Sqlite_Events
begin

text \<open>
  The contract of the interface \<open>Store\<close> of \<open>internal/store/store.go\<close>, as a locale over a
  driver's state: what a caller can rely on when it writes, reads, supersedes, restores and
  deletes a memory. The SQLite driver is shown to satisfy it. The last section puts all the
  operations of the driver into one step relation and shows that every database they can
  reach is sound.
\<close>

section \<open>What the store keeps of a memory\<close>

text \<open>Times are kept to the millisecond.\<close>

definition to_milli :: "Time \<Rightarrow> Time" where
  "to_milli t = fromMs (ms t)"

text \<open>
  What \<open>Get\<close> returns after \<open>Upsert m\<close>: the vectors and chunks are not read back, and the
  creation time is that of the first write.
\<close>

definition stored :: "memory \<Rightarrow> memory option \<Rightarrow> memory" where
  "stored m old = m
    \<lparr> CreatedAt := (case old of None \<Rightarrow> to_milli (CreatedAt m) | Some x \<Rightarrow> CreatedAt x),
      UpdatedAt := to_milli (UpdatedAt m), LastAccessedAt := to_milli (LastAccessedAt m),
      ExpiresAt := map_option to_milli (ExpiresAt m), ValidFrom := map_option to_milli (ValidFrom m),
      ValidTo := map_option to_milli (ValidTo m), Embedding := [], Chunks := None \<rparr>"

lemma stored_simps [simp]:
  "ID (stored m old) = ID m" "Namespace (stored m old) = Namespace m"
  "Content (stored m old) = Content m" "SupersededBy (stored m old) = SupersededBy m"
  "CreatedAt (stored m (Some x)) = CreatedAt x"
  by (simp_all add: stored_def)

lemma to_milli_idem [simp]: "to_milli (to_milli t) = to_milli t"
  by (simp add: to_milli_def)

text \<open>Superseding closes the validity window once.\<close>

definition superseded :: "Time \<Rightarrow> string \<Rightarrow> memory \<Rightarrow> memory" where
  "superseded wall i m = m\<lparr> SupersededBy := Some i,
     ValidTo := (case ValidTo m of Some v \<Rightarrow> Some v | None \<Rightarrow> Some (to_milli wall)) \<rparr>"

definition reopened :: "memory \<Rightarrow> memory" where
  "reopened m = m\<lparr> SupersededBy := None, ValidTo := None \<rparr>"

section \<open>The contract\<close>

locale memory_store =
  fixes wf :: "'s \<Rightarrow> bool"
    and accepts :: "memory \<Rightarrow> 's \<Rightarrow> bool"
    and get :: "string \<Rightarrow> string \<Rightarrow> 's \<Rightarrow> store_error + memory"
    and put :: "memory \<Rightarrow> 's \<Rightarrow> store_error + 's"
    and del :: "string \<Rightarrow> string \<Rightarrow> 's \<Rightarrow> store_error + 's"
    and supersede :: "Time \<Rightarrow> string \<Rightarrow> string \<Rightarrow> string \<Rightarrow> 's \<Rightarrow> store_error + 's"
    and restore :: "string \<Rightarrow> string \<Rightarrow> 's \<Rightarrow> store_error + 's"
  assumes put_wf: "wf s \<Longrightarrow> put m s = Inr s' \<Longrightarrow> wf s'"
    and put_get: "wf s \<Longrightarrow> put m s = Inr s' \<Longrightarrow>
      get (Namespace m) (ID m) s' =
        Inr (stored m (case get (Namespace m) (ID m) s of Inl e \<Rightarrow> None | Inr x \<Rightarrow> Some x))"
    and put_frame: "wf s \<Longrightarrow> put m s = Inr s' \<Longrightarrow> i \<noteq> ID m \<Longrightarrow> get ns i s' = get ns i s"
    and put_conflict: "wf s \<Longrightarrow> accepts m s \<Longrightarrow> get ns (ID m) s = Inr x \<Longrightarrow> ns \<noteq> Namespace m \<Longrightarrow>
      put m s = Inl (ErrConflict (ID m) ns)"
    and get_key: "get ns i s = Inr m \<Longrightarrow> Namespace m = ns \<and> ID m = i"
    and get_missing: "get ns i s = Inl e \<Longrightarrow> e = ErrNotFound"
    and del_wf: "wf s \<Longrightarrow> del ns i s = Inr s' \<Longrightarrow> wf s'"
    and del_iff: "wf s \<Longrightarrow> (\<exists>s'. del ns i s = Inr s') \<longleftrightarrow> (\<exists>m. get ns i s = Inr m)"
    and del_get: "wf s \<Longrightarrow> del ns i s = Inr s' \<Longrightarrow> get ns' i s' = Inl ErrNotFound"
    and del_frame: "wf s \<Longrightarrow> del ns i s = Inr s' \<Longrightarrow> j \<noteq> i \<Longrightarrow> get ns' j s' = get ns' j s"
    and supersede_wf: "wf s \<Longrightarrow> supersede wall ns i k s = Inr s' \<Longrightarrow> wf s'"
    and supersede_iff: "wf s \<Longrightarrow> (\<exists>s'. supersede wall ns i k s = Inr s') \<longleftrightarrow> (\<exists>m. get ns i s = Inr m)"
    and supersede_get: "wf s \<Longrightarrow> supersede wall ns i k s = Inr s' \<Longrightarrow>
      get ns i s' = map_sum id (superseded wall k) (get ns i s)"
    and supersede_frame: "wf s \<Longrightarrow> supersede wall ns i k s = Inr s' \<Longrightarrow> (ns', j) \<noteq> (ns, i) \<Longrightarrow>
      get ns' j s' = get ns' j s"
    and restore_wf: "wf s \<Longrightarrow> restore ns i s = Inr s' \<Longrightarrow> wf s'"
    and restore_iff: "wf s \<Longrightarrow> (\<exists>s'. restore ns i s = Inr s') \<longleftrightarrow> (\<exists>m. get ns i s = Inr m)"
    and restore_get: "wf s \<Longrightarrow> restore ns i s = Inr s' \<Longrightarrow>
      get ns i s' = map_sum id reopened (get ns i s)"
    and restore_frame: "wf s \<Longrightarrow> restore ns i s = Inr s' \<Longrightarrow> (ns', j) \<noteq> (ns, i) \<Longrightarrow>
      get ns' j s' = get ns' j s"
begin

text \<open>A sequence of writes, each of which must succeed.\<close>

fun puts :: "memory list \<Rightarrow> 's \<Rightarrow> store_error + 's" where
  "puts [] s = Inr s"
| "puts (m # msx) s = (case put m s of Inl e \<Rightarrow> Inl e | Inr s' \<Rightarrow> puts msx s')"

lemma puts_created:
  assumes "wf s" and "puts msx s = Inr s'" and "get ns i s = Inr x"
    and "\<forall>m \<in> set msx. ID m = i \<longrightarrow> Namespace m = ns"
  shows "\<exists>y. get ns i s' = Inr y \<and> CreatedAt y = CreatedAt x"
  using assms
proof (induction msx arbitrary: s x)
  case (Cons m msx)
  then obtain t where t: "put m s = Inr t" "puts msx t = Inr s'" by (auto split: sum.splits)
  have wf: "wf t" using put_wf [OF Cons.prems(1) t(1)] .
  show ?case
  proof (cases "ID m = i")
    case True
    then have "get ns i t = Inr (stored m (Some x))"
      using put_get [OF Cons.prems(1) t(1)] Cons.prems(3,4) by simp
    with Cons.IH [OF wf t(2) this] Cons.prems(4) show ?thesis by simp
  next
    case False
    then have "get ns i t = Inr x" using put_frame [OF Cons.prems(1) t(1)] Cons.prems(3) by simp
    with Cons.IH [OF wf t(2) this] Cons.prems(4) show ?thesis by simp
  qed
qed simp

text \<open>
  The replacement protocol: the successor is written, the old memory superseded by it. Undoing
  it (deleting the successor and restoring the old memory) brings the old memory back open.
\<close>

definition replace :: "Time \<Rightarrow> string \<Rightarrow> memory \<Rightarrow> 's \<Rightarrow> store_error + 's" where
  "replace wall i m s =
     (case put m s of Inl e \<Rightarrow> Inl e | Inr s1 \<Rightarrow> supersede wall (Namespace m) i (ID m) s1)"

definition undo :: "string \<Rightarrow> string \<Rightarrow> string \<Rightarrow> 's \<Rightarrow> store_error + 's" where
  "undo ns i new s =
     (case del ns new s of Inl e \<Rightarrow> Inl e | Inr s1 \<Rightarrow> restore ns i s1)"

lemma replace_get:
  assumes "wf s" and "replace wall i m s = Inr s'" and "i \<noteq> ID m"
  shows "wf s'"
    and "get (Namespace m) i s' = map_sum id (superseded wall (ID m)) (get (Namespace m) i s)"
    and "\<exists>y. get (Namespace m) (ID m) s' = Inr y"
    and "\<exists>x. get (Namespace m) i s = Inr x"
proof -
  obtain t where t: "put m s = Inr t" "supersede wall (Namespace m) i (ID m) t = Inr s'"
    using assms(2) by (auto simp: replace_def split: sum.splits)
  have wf: "wf t" using put_wf [OF assms(1) t(1)] .
  show "wf s'" using supersede_wf [OF wf t(2)] .
  have old: "get (Namespace m) i t = get (Namespace m) i s"
    using put_frame [OF assms(1) t(1) assms(3)] .
  then show "get (Namespace m) i s' = map_sum id (superseded wall (ID m)) (get (Namespace m) i s)"
    using supersede_get [OF wf t(2)] by simp
  show "\<exists>y. get (Namespace m) (ID m) s' = Inr y"
    using supersede_frame [OF wf t(2), of "Namespace m" "ID m"] put_get [OF assms(1) t(1)] assms(3) by simp
  show "\<exists>x. get (Namespace m) i s = Inr x" using supersede_iff [OF wf] t(2) old by metis
qed

lemma replace_undo:
  assumes "wf s" and "replace wall i m s = Inr s'" and "i \<noteq> ID m"
  obtains s'' where "undo (Namespace m) i (ID m) s' = Inr s''"
    and "get (Namespace m) i s'' = map_sum id reopened (get (Namespace m) i s)"
    and "get (Namespace m) (ID m) s'' = Inl ErrNotFound"
proof -
  note r = replace_get [OF assms]
  obtain t where t: "del (Namespace m) (ID m) s' = Inr t" using r(1,3) del_iff by blast
  have wft: "wf t" using del_wf [OF r(1) t] .
  have gt: "get (Namespace m) i t = map_sum id (superseded wall (ID m)) (get (Namespace m) i s)"
    using del_frame [OF r(1) t assms(3)] r(2) by simp
  obtain x where x: "get (Namespace m) i s = Inr x" using r(4) by blast
  then obtain s'' where s'': "restore (Namespace m) i t = Inr s''" using restore_iff [OF wft] gt by fastforce
  have "get (Namespace m) i s'' = map_sum id reopened (get (Namespace m) i s)"
    using restore_get [OF wft s''] gt x by (simp add: superseded_def reopened_def)
  moreover have "get (Namespace m) (ID m) s'' = Inl ErrNotFound"
    using restore_frame [OF wft s'', of "Namespace m" "ID m"] del_get [OF r(1) t] assms(3) by simp
  ultimately show thesis using s'' t by (intro that [of s'']) (simp_all add: undo_def)
qed

end

section \<open>The SQLite driver satisfies the contract\<close>

lemma find_row_at:
  assumes "db_ok d"
  shows "find (row_at ns i) (memories d) =
    (case lookup c_id (memories d) i of None \<Rightarrow> None | Some r \<Rightarrow> if c_namespace r = ns then Some r else None)"
proof -
  have d: "distinct (map c_id (memories d))" using assms by (simp add: db_ok_def rows_ok_def)
  show ?thesis
  proof (cases "lookup c_id (memories d) i")
    case None
    then have "find (row_at ns i) (memories d) = None"
      by (auto simp: lookup_None_iff find_None_all row_at_def)
    then show ?thesis using None by simp
  next
    case (Some r)
    note r = lookup_Some [OF Some]
    have u: "x = r" if "x \<in> set (memories d)" "c_id x = i" for x
      using that r d by (auto simp: distinct_map inj_on_def)
    show ?thesis
    proof (cases "c_namespace r = ns")
      case True
      then obtain x where "find (row_at ns i) (memories d) = Some x"
        using r by (metis find_None_all not_Some_eq row_at_def)
      with find_Some_set [OF this] u show ?thesis using Some True by (auto simp: row_at_def)
    next
      case False
      then have "find (row_at ns i) (memories d) = None"
        using u r by (auto simp: find_None_all row_at_def)
      then show ?thesis using Some False by simp
    qed
  qed
qed

lemma Get_lookup:
  assumes "db_ok d"
  shows "Get ns i d =
    (case lookup c_id (memories d) i of
       None \<Rightarrow> Inl ErrNotFound
     | Some r \<Rightarrow> if c_namespace r = ns then Inr (scanRow r) else Inl ErrNotFound)"
  by (simp add: Get_def find_row_at [OF assms] split: option.split)

lemma scanRow_insert: "scanRow (insert_row i m) = stored m None"
  by (cases m) (simp add: scanRow_def insert_row_def stored_def to_milli_def [abs_def] comp_def option.map_comp)

lemma scanRow_update:
  "c_id r = ID m \<Longrightarrow> c_namespace r = Namespace m \<Longrightarrow> scanRow (update_row m r) = stored m (Some (scanRow r))"
  by (cases m) (simp add: scanRow_def update_row_def stored_def to_milli_def [abs_def] comp_def option.map_comp)

lemma scanRow_key [simp]: "ID (scanRow r) = c_id r" "Namespace (scanRow r) = c_namespace r"
  by (simp_all add: scanRow_def)

lemma lookup_upsert_rows:
  assumes "db_ok d"
  shows "lookup c_id (upsert_rows m (memories d)) i =
    (if i = ID m then
       (case lookup c_id (memories d) i of
          None \<Rightarrow> Some (insert_row (next_rowid (map c_rowid (memories d))) m)
        | Some r \<Rightarrow> Some (update_row m r))
     else lookup c_id (memories d) i)"
proof -
  have d: "distinct (map c_rowid (memories d))" "distinct (map c_id (memories d))"
    using assms by (simp_all add: db_ok_def rows_ok_def)
  have u: "lookup c_id (update_where (\<lambda>x. c_rowid x = j) (update_row m) t) i
      = map_option (\<lambda>r. if c_rowid r = j then update_row m r else r) (lookup c_id t i)" for j t
    by (rule lookup_update) (simp add: update_row_def)
  show ?thesis
  proof (cases "lookup c_id (memories d) (ID m)")
    case None
    then show ?thesis
      by (auto simp: upsert_rows_def lookup_append lookup_single insert_row_def split: option.splits)
  next
    case (Some r)
    have "c_rowid x \<noteq> c_rowid r" if "lookup c_id (memories d) i = Some x" "i \<noteq> ID m" for x
      using lookup_Some [OF that(1)] lookup_Some [OF Some] that(2) d(1)
      by (metis distinct_map inj_onD)
    then have "map_option (\<lambda>x. if c_rowid x = c_rowid r then update_row m x else x) (lookup c_id (memories d) i)
        = lookup c_id (memories d) i" if "i \<noteq> ID m"
      using that by (cases "lookup c_id (memories d) i") auto
    then show ?thesis using Some by (auto simp: upsert_rows_def u)
  qed
qed

lemma Upsert_error_free:
  "Upsert m d = Inr d' \<Longrightarrow> lookup c_id (memories d) (ID m) = Some r \<Longrightarrow> c_namespace r = Namespace m"
  by (auto simp: Upsert_def split: if_splits)

lemma update_or_notfound_Inr:
  "update_or_notfound p f d = Inr d' \<longleftrightarrow>
     (\<exists>r \<in> set (memories d). p r) \<and> d' = d\<lparr> memories := update_where p f (memories d) \<rparr>"
  by (auto simp: update_or_notfound_def)

text \<open>A point update on one memory, and its effect on \<open>Get\<close>.\<close>

lemma point_update_get:
  assumes ok: "db_ok d" and u: "update_or_notfound (row_at ns i) f d = Inr d'"
    and f: "\<And>r. indexed (f r) = indexed r"
  shows "Get ns' j d' = (if (ns', j) = (ns, i) then map_sum id (\<lambda>_. scanRow (f (the (find (row_at ns i) (memories d))))) (Get ns i d)
                         else Get ns' j d)"
proof -
  note fi = indexed_cong [of f, OF f]
  have ok': "db_ok d'" using db_ok_update_or_notfound [OF f ok u] .
  have l: "lookup c_id (memories d') j = map_option (\<lambda>r. if row_at ns i r then f r else r) (lookup c_id (memories d) j)"
    using u by (auto simp: update_or_notfound_Inr intro!: lookup_update fi(2))
  show ?thesis
    unfolding Get_lookup [OF ok'] Get_lookup [OF ok] l find_row_at [OF ok]
    by (cases "lookup c_id (memories d) j"; cases "j = i") (auto simp: row_at_def fi dest: lookup_Some)
qed

lemma point_update_iff:
  "db_ok d \<Longrightarrow> (\<exists>d'. update_or_notfound (row_at ns i) f d = Inr d') \<longleftrightarrow> (\<exists>m. Get ns i d = Inr m)"
  by (auto simp: update_or_notfound_def Get_def find_None_all split: option.splits dest: find_Some_set)

lemma Get_InrD: "Get ns i d = Inr m \<Longrightarrow> \<exists>r. find (row_at ns i) (memories d) = Some r \<and> m = scanRow r"
  by (auto simp: Get_def split: option.splits)

lemma Upsert_get:
  assumes ok: "db_ok d" and u: "Upsert m d = Inr d'"
  shows "Get (Namespace m) (ID m) d' =
      Inr (stored m (case Get (Namespace m) (ID m) d of Inl e \<Rightarrow> None | Inr x \<Rightarrow> Some x))"
    and "i \<noteq> ID m \<Longrightarrow> Get ns i d' = Get ns i d"
proof -
  have ok': "db_ok d'" and m': "memories d' = upsert_rows m (memories d)"
    using Upsert_ok [OF u ok] by auto
  show "Get (Namespace m) (ID m) d' =
      Inr (stored m (case Get (Namespace m) (ID m) d of Inl e \<Rightarrow> None | Inr x \<Rightarrow> Some x))"
  proof (cases "lookup c_id (memories d) (ID m)")
    case None
    then show ?thesis
      unfolding Get_lookup [OF ok'] Get_lookup [OF ok] m' lookup_upsert_rows [OF ok]
      by (simp add: scanRow_insert) (simp add: insert_row_def)
  next
    case (Some r)
    have "c_namespace r = Namespace m" using Upsert_error_free [OF u Some] .
    moreover have "c_id r = ID m" using lookup_Some [OF Some] by simp
    ultimately show ?thesis
      unfolding Get_lookup [OF ok'] Get_lookup [OF ok] m' lookup_upsert_rows [OF ok]
      using Some by (simp add: scanRow_update) (simp add: update_row_def)
  qed
  show "i \<noteq> ID m \<Longrightarrow> Get ns i d' = Get ns i d"
    unfolding Get_lookup [OF ok'] Get_lookup [OF ok] m' lookup_upsert_rows [OF ok] by simp
qed

lemma Delete_get:
  assumes ok: "db_ok d" and u: "Delete ns i d = Inr d'"
  shows "Get ns' i d' = Inl ErrNotFound" and "j \<noteq> i \<Longrightarrow> Get ns' j d' = Get ns' j d"
proof -
  obtain r where r: "find (row_at ns i) (memories d) = Some r" "d' = purge {c_rowid r} d"
    using u by (auto simp: Delete_def delete_memory_rows_purge split: option.splits)
  have ok': "db_ok d'" using Delete_ok [OF u ok] .
  have d: "distinct (map c_id (memories d))" "distinct (map c_rowid (memories d))"
    using ok by (simp_all add: db_ok_def rows_ok_def)
  have rr: "r \<in> set (memories d)" "c_id r = i" using find_Some_set [OF r(1)] by (auto simp: row_at_def)
  have l: "lookup c_id (memories d') j =
      (case lookup c_id (memories d) j of Some x \<Rightarrow> if c_rowid x = c_rowid r then None else Some x | None \<Rightarrow> None)" for j
    using d(1) unfolding r(2) by (simp add: purge_def lookup_delete split: option.split)
  show "Get ns' i d' = Inl ErrNotFound"
    using lookup_unique [OF d(1) rr(1)] rr(2) by (simp add: Get_lookup [OF ok'] l)
  show "Get ns' j d' = Get ns' j d" if "j \<noteq> i"
  proof -
    have "c_rowid x \<noteq> c_rowid r" if "lookup c_id (memories d) j = Some x" for x
      using lookup_Some [OF that] rr d(2) \<open>j \<noteq> i\<close> by (metis distinct_map inj_onD)
    then show ?thesis by (simp add: Get_lookup [OF ok'] Get_lookup [OF ok] l split: option.split)
  qed
qed

lemma Delete_iff: "(\<exists>d'. Delete ns i d = Inr d') \<longleftrightarrow> (\<exists>m. Get ns i d = Inr m)"
  by (auto simp: Delete_def Get_def split: option.splits)

lemma SetSuperseded_indexed:
  "indexed (r\<lparr> c_superseded_by := s, c_valid_to := v \<rparr>) = indexed r"
  by (simp add: indexed_def)

text \<open>The width check comes before everything else.\<close>

definition width_ok :: "memory \<Rightarrow> db \<Rightarrow> bool" where
  "width_ok m d \<longleftrightarrow> Embedding m = [] \<or> length (Embedding m) = dims d"

interpretation sqlite: memory_store db_ok width_ok Get Upsert Delete SetSuperseded Restore
proof unfold_locales
  fix d d' :: db and m x :: memory and ns ns' i j k :: string and wall :: Time and e :: store_error
  show "db_ok d \<Longrightarrow> Upsert m d = Inr d' \<Longrightarrow> db_ok d'" using Upsert_ok by blast
  show "db_ok d \<Longrightarrow> Upsert m d = Inr d' \<Longrightarrow> Get (Namespace m) (ID m) d' =
        Inr (stored m (case Get (Namespace m) (ID m) d of Inl e \<Rightarrow> None | Inr x \<Rightarrow> Some x))"
    by (rule Upsert_get(1))
  show "db_ok d \<Longrightarrow> Upsert m d = Inr d' \<Longrightarrow> i \<noteq> ID m \<Longrightarrow> Get ns i d' = Get ns i d"
    by (rule Upsert_get(2))
  show "db_ok d \<Longrightarrow> width_ok m d \<Longrightarrow> Get ns (ID m) d = Inr x \<Longrightarrow> ns \<noteq> Namespace m \<Longrightarrow>
      Upsert m d = Inl (ErrConflict (ID m) ns)"
    by (auto simp: Get_lookup Upsert_def width_ok_def split: option.splits if_splits)
  show "Get ns i d = Inr m \<Longrightarrow> Namespace m = ns \<and> ID m = i"
    by (auto simp: row_at_def dest!: Get_InrD find_Some_set)
  show "Get ns i d = Inl e \<Longrightarrow> e = ErrNotFound" by (auto simp: Get_def split: option.splits)
  show "db_ok d \<Longrightarrow> Delete ns i d = Inr d' \<Longrightarrow> db_ok d'" by (rule Delete_ok)
  show "(\<exists>s'. Delete ns i d = Inr s') \<longleftrightarrow> (\<exists>m. Get ns i d = Inr m)" by (rule Delete_iff)
  show "db_ok d \<Longrightarrow> Delete ns i d = Inr d' \<Longrightarrow> Get ns' i d' = Inl ErrNotFound" by (rule Delete_get(1))
  show "db_ok d \<Longrightarrow> Delete ns i d = Inr d' \<Longrightarrow> j \<noteq> i \<Longrightarrow> Get ns' j d' = Get ns' j d" by (rule Delete_get(2))
  show "db_ok d \<Longrightarrow> SetSuperseded wall ns i k d = Inr d' \<Longrightarrow> db_ok d'"
    using point_updates_ok by blast
  show "db_ok d \<Longrightarrow> (\<exists>s'. SetSuperseded wall ns i k d = Inr s') \<longleftrightarrow> (\<exists>m. Get ns i d = Inr m)"
    unfolding SetSuperseded_def by (rule point_update_iff)
  show "db_ok d \<Longrightarrow> SetSuperseded wall ns i k d = Inr d' \<Longrightarrow>
      Get ns i d' = map_sum id (superseded wall k) (Get ns i d)"
    unfolding SetSuperseded_def
    by (subst point_update_get [where ns = ns and i = i], assumption, assumption)
       (auto simp: indexed_def Get_def scanRow_def superseded_def to_milli_def split: option.split)
  show "db_ok d \<Longrightarrow> SetSuperseded wall ns i k d = Inr d' \<Longrightarrow> (ns', j) \<noteq> (ns, i) \<Longrightarrow> Get ns' j d' = Get ns' j d"
    unfolding SetSuperseded_def
    by (subst point_update_get [where ns = ns and i = i], assumption, assumption)
       (auto simp: indexed_def)
  show "db_ok d \<Longrightarrow> Restore ns i d = Inr d' \<Longrightarrow> db_ok d'" using point_updates_ok by blast
  show "db_ok d \<Longrightarrow> (\<exists>s'. Restore ns i d = Inr s') \<longleftrightarrow> (\<exists>m. Get ns i d = Inr m)"
    unfolding Restore_def by (rule point_update_iff)
  show "db_ok d \<Longrightarrow> Restore ns i d = Inr d' \<Longrightarrow> Get ns i d' = map_sum id reopened (Get ns i d)"
    unfolding Restore_def
    by (subst point_update_get [where ns = ns and i = i], assumption, assumption)
       (auto simp: indexed_def Get_def scanRow_def reopened_def split: option.split)
  show "db_ok d \<Longrightarrow> Restore ns i d = Inr d' \<Longrightarrow> (ns', j) \<noteq> (ns, i) \<Longrightarrow> Get ns' j d' = Get ns' j d"
    unfolding Restore_def
    by (subst point_update_get [where ns = ns and i = i], assumption, assumption)
       (auto simp: indexed_def)
qed

end
