(* ===== verification/Sqlite_Queries.thy ===== *)
theory Sqlite_Queries
  imports Store_Contract
begin

text \<open>
  What the reading operations of the SQLite driver return: the namespace and the filter hold
  of every hit, the limits are kept, the order is the one asked for, prefixes are literal, and
  a memory that was superseded, contradicted or has expired is not served by default.
\<close>

section \<open>The order clause\<close>

interpretation order_clause: strict_weak_order "orderClause s" for s
  by unfold_locales (auto simp: orderClause_def Let_def split: if_splits)

lemma sort_limit_set: "set (if n > 0 then limit_rows n (order_by lt t) else order_by lt t) \<subseteq> set t"
  using set_limit_rows [of n "order_by lt t"] by simp

lemma List_memories_sound:
  assumes "m \<in> set (List_memories eng wall ns f limit d)"
  shows "\<exists>r \<in> set (memories d). m = scanRow r \<and> c_namespace r = ns \<and> filterClause eng wall f r"
  using assms sort_limit_set [of limit "orderClause (fSort f)"]
  unfolding List_memories_def Let_def by fastforce

lemma List_memories_complete:
  "limit \<le> 0 \<Longrightarrow> set (List_memories eng wall ns f limit d) =
     scanRow ` {r \<in> set (memories d). c_namespace r = ns \<and> filterClause eng wall f r}"
  by (simp add: List_memories_def Let_def)

section \<open>Hits of a search\<close>


lemma in_join_memories:
  "(v, r) \<in> set (join_memories key d vs) \<longleftrightarrow> v \<in> set vs \<and> lookup c_rowid (memories d) (key v) = Some r"
  by (auto simp: join_memories_def in_map_filter)

lemma in_knn: "v \<in> set (knn eng ns q k vs) \<Longrightarrow> v \<in> set vs \<and> v_namespace v = ns"
  by (auto simp: knn_def dest: in_set_takeD)

lemma vec_namespace:
  assumes "db_ok d" and "v \<in> set (vec_memories d)" and "lookup c_rowid (memories d) (v_rowid v) = Some r"
  shows "c_namespace r = v_namespace v"
  using assms by (auto simp: db_ok_def vecs_ok_def ns_of_def)

lemma VectorSearch_sound:
  assumes ok: "db_ok d" and s: "VectorSearch eng wall ns q f k d = Inr hits" and h: "h \<in> set hits"
  shows "\<exists>r \<in> set (memories d). \<exists>v \<in> set (vec_memories d). v_rowid v = c_rowid r
    \<and> sMemory h = scanRow r \<and> c_namespace r = ns \<and> filterClause eng wall f r
    \<and> Score h = distanceToScore (distance eng q (v_embedding v))"
proof -
  from s h obtain v r where vr: "(v, r) \<in> set (take k (filter (\<lambda>(v, r). filterClause eng wall f r)
        (join_memories v_rowid d (knn eng ns q (k * overFetch) (vec_memories d)))))"
    and hh: "h = \<lparr> sMemory = scanRow r, Score = distanceToScore (distance eng q (v_embedding v)), MatchedChunk = '''' \<rparr>"
    by (auto simp: VectorSearch_def split: if_splits)
  from vr have j: "(v, r) \<in> set (join_memories v_rowid d (knn eng ns q (k * overFetch) (vec_memories d)))"
    and f: "filterClause eng wall f r" by (auto dest: in_set_takeD)
  from j have v: "v \<in> set (vec_memories d)" "v_namespace v = ns" and l: "lookup c_rowid (memories d) (v_rowid v) = Some r"
    by (auto simp: in_join_memories dest: in_knn)
  have "c_namespace r = ns" using vec_namespace [OF ok v(1) l] v(2) by simp
  then show ?thesis using lookup_Some [OF l] v f hh
    by (intro bexI [of _ r] bexI [of _ v]) simp_all
qed

lemma VectorSearch_length: "VectorSearch eng wall ns q f k d = Inr hits \<Longrightarrow> length hits \<le> k"
  by (auto simp: VectorSearch_def split: if_splits)

text \<open>Nearest first: the scores never increase along the hits.\<close>

interpretation nearer: strict_weak_order "\<lambda>a b. distance eng q (v_embedding a) < distance eng q (v_embedding b)" for eng q
  by unfold_locales auto

lemma sorted_wrt_map_filter:
  "sorted_wrt R xs \<Longrightarrow> (\<And>x y x' y'. R x y \<Longrightarrow> f x = Some x' \<Longrightarrow> f y = Some y' \<Longrightarrow> Q x' y') \<Longrightarrow>
   sorted_wrt Q (List.map_filter f xs)"
proof (induction xs)
  case (Cons a xs)
  then have "sorted_wrt Q (List.map_filter f xs)" and "\<forall>x \<in> set xs. R a x" by simp_all
  then show ?case using Cons.prems(2)
    by (cases "f a") (fastforce simp: List.map_filter_def)+
qed (simp add: List.map_filter_def)

lemma distanceToScore_antimono: "0 \<le> x \<Longrightarrow> x \<le> y \<Longrightarrow> distanceToScore y \<le> distanceToScore x"
  by (simp add: distanceToScore_def frac_le)

lemma VectorSearch_sorted:
  assumes s: "VectorSearch eng wall ns q f k d = Inr hits" and dist: "\<And>x y. 0 \<le> distance eng x y"
  shows "sorted_wrt (\<lambda>a b. Score b \<le> Score a) hits"
proof -
  let ?j = "join_memories v_rowid d (knn eng ns q (k * overFetch) (vec_memories d))"
  have "sorted_wrt (\<lambda>a b. distance eng q (v_embedding a) \<le> distance eng q (v_embedding b))
      (knn eng ns q (k * overFetch) (vec_memories d))"
    unfolding knn_def by (rule sorted_wrt_take)
      (rule sorted_wrt_mono_rel [OF _ nearer.sorted_SliceStable], simp add: not_less)
  then have "sorted_wrt (\<lambda>a b. distance eng q (v_embedding (fst a)) \<le> distance eng q (v_embedding (fst b))) ?j"
    unfolding join_memories_def by (rule sorted_wrt_map_filter) auto
  then have "sorted_wrt (\<lambda>a b. distance eng q (v_embedding (fst a)) \<le> distance eng q (v_embedding (fst b)))
      (take k (filter (\<lambda>(v, r). filterClause eng wall f r) ?j))"
    by (intro sorted_wrt_take sorted_wrt_filter)
  then show ?thesis
    using s by (auto simp: VectorSearch_def sorted_wrt_map case_prod_unfold dist distanceToScore_antimono
        split: if_splits elim!: sorted_wrt_mono_rel [rotated])
qed

lemma KeywordSearch_sound:
  assumes "h \<in> set (KeywordSearch eng wall ns query f k d)"
  shows "\<exists>r \<in> set (memories d). sMemory h = scanRow r \<and> c_namespace r = ns \<and> filterClause eng wall f r"
    and "length (KeywordSearch eng wall ns query f k d) \<le> k"
proof -
  show "\<exists>r \<in> set (memories d). sMemory h = scanRow r \<and> c_namespace r = ns \<and> filterClause eng wall f r"
    using assms
    by (fastforce simp: KeywordSearch_def Let_def in_map_filter split: if_splits
        dest!: in_set_takeD lookup_Some)
  show "length (KeywordSearch eng wall ns query f k d) \<le> k" by (simp add: KeywordSearch_def Let_def)
qed

lemma group_first_subseq: "set (group_first g xs) \<subseteq> set xs"
  by (induction g xs rule: group_first.induct) auto

lemma group_first_distinct: "distinct (map g (group_first g xs))"
proof (induction g xs rule: group_first.induct)
  case (2 g x xs)
  have "set (group_first g (filter (\<lambda>y. g y \<noteq> g x) xs)) \<subseteq> {y. g y \<noteq> g x}"
    using group_first_subseq [of g "filter (\<lambda>y. g y \<noteq> g x) xs"] by auto
  then show ?case using 2 by auto
qed simp

lemma group_first_covers: "g ` set (group_first g xs) = g ` set xs"
  by (induction g xs rule: group_first.induct) auto

text \<open>A chunk search returns a memory once, with the text of one of its own chunks.\<close>

lemma ChunkVectorSearch_sound:
  assumes ok: "db_ok d" and s: "ChunkVectorSearch eng wall ns q f k d = Inr hits" and h: "h \<in> set hits"
  shows "\<exists>r \<in> set (memories d). \<exists>c \<in> set (memory_chunks d). k_memory_rowid c = c_rowid r
    \<and> sMemory h = scanRow r \<and> MatchedChunk h = k_text c \<and> c_namespace r = ns \<and> filterClause eng wall f r"
proof -
  let ?hits = "knn eng ns q (nat k * overFetch * chunkOverFetch) (vec_chunks d)"
  let ?mapped = "List.map_filter (\<lambda>v. map_option (Pair v) (lookup k_rowid (memory_chunks d) (v_rowid v))) ?hits"
  let ?kept = "filter (\<lambda>((v, c), r). filterClause eng wall f r) (join_memories (\<lambda>(v, c). k_memory_rowid c) d ?mapped)"
  let ?hit = "\<lambda>((v, c), r). \<lparr> sMemory = scanRow r, Score = distanceToScore (distance eng q (v_embedding v)),
                     MatchedChunk = k_text c \<rparr>"
  have "hits = [] \<or> hits = map ?hit (take (nat k) (group_first (\<lambda>((v, c), r). c_rowid r) ?kept))"
    using s unfolding ChunkVectorSearch_def Let_def by (simp split: if_splits)
  with h obtain p where p: "p \<in> set (take (nat k) (group_first (\<lambda>((v, c), r). c_rowid r) ?kept))" "h = ?hit p"
    by auto
  obtain v c r where pp: "p = ((v, c), r)" by (metis prod.exhaust)
  have hh: "sMemory h = scanRow r" "MatchedChunk h = k_text c" using p(2) pp by simp_all
  have "((v, c), r) \<in> set ?kept"
    using in_set_takeD [OF p(1)] group_first_subseq [of "\<lambda>((v, c), r). c_rowid r" ?kept] unfolding pp by blast
  then have f: "filterClause eng wall f r" and m: "(v, c) \<in> set ?mapped"
    and l: "lookup c_rowid (memories d) (k_memory_rowid c) = Some r"
    by (auto simp: in_join_memories)
  from m have "v \<in> set ?hits" and lc: "lookup k_rowid (memory_chunks d) (v_rowid v) = Some c"
    by (auto simp: in_map_filter)
  then have v: "v \<in> set (vec_chunks d)" "v_namespace v = ns" by (simp_all add: in_knn)
  have c: "c \<in> set (memory_chunks d)" "k_rowid c = v_rowid v" using lookup_Some [OF lc] by simp_all
  have "ns_of (memories d) (k_memory_rowid c) = Some ns"
    using ok v c unfolding db_ok_def chunk_vecs_ok_def by simp
  then have "c_namespace r = ns" using l by (simp add: ns_of_def)
  with lookup_Some [OF l] c hh f show ?thesis
    by (intro bexI [of _ r] bexI [of _ c]) simp_all
qed

lemma ChunkVectorSearch_distinct:
  assumes ok: "db_ok d" and s: "ChunkVectorSearch eng wall ns q f k d = Inr hits"
  shows "distinct (map (\<lambda>h. ID (sMemory h)) hits)" and "length hits \<le> nat k"
proof -
  let ?hits = "knn eng ns q (nat k * overFetch * chunkOverFetch) (vec_chunks d)"
  let ?mapped = "List.map_filter (\<lambda>v. map_option (Pair v) (lookup k_rowid (memory_chunks d) (v_rowid v))) ?hits"
  let ?kept = "filter (\<lambda>((v, c), r). filterClause eng wall f r) (join_memories (\<lambda>(v, c). k_memory_rowid c) d ?mapped)"
  let ?g = "group_first (\<lambda>((v, c), r). c_rowid r) ?kept"
  have rows: "snd p \<in> set (memories d)" if "p \<in> set ?g" for p
  proof -
    have "p \<in> set ?kept" using that group_first_subseq [of "\<lambda>((v, c), r). c_rowid r" ?kept] by blast
    then have "(fst p, snd p) \<in> set (join_memories (\<lambda>(v, c). k_memory_rowid c) d ?mapped)" by simp
    then show ?thesis unfolding in_join_memories using lookup_Some by metis
  qed
  have inj: "inj_on c_id (set (memories d))" using ok by (simp add: db_ok_def rows_ok_def distinct_map)
  have "distinct (map (\<lambda>p. c_rowid (snd p)) ?g)"
    using group_first_distinct [of "\<lambda>((v, c), r). c_rowid r" ?kept] by (simp add: case_prod_unfold)
  then have "distinct (map (\<lambda>p. c_id (snd p)) ?g)"
    unfolding distinct_map
  proof (elim conjE, intro conjI inj_onI)
    fix p p' assume u: "inj_on (\<lambda>p. c_rowid (snd p)) (set ?g)" and m: "p \<in> set ?g" "p' \<in> set ?g"
      and eq: "c_id (snd p) = c_id (snd p')"
    have "snd p = snd p'" by (rule inj_onD [OF inj eq rows [OF m(1)] rows [OF m(2)]])
    then show "p = p'" using inj_onD [OF u _ m] by simp
  qed
  then have "distinct (map (\<lambda>p. c_id (snd p)) (take (nat k) ?g))"
    unfolding take_map [symmetric] by (rule distinct_take)
  moreover have "map (\<lambda>h. ID (sMemory h)) hits = (if k \<le> 0 then [] else map (\<lambda>p. c_id (snd p)) (take (nat k) ?g))"
    using s unfolding ChunkVectorSearch_def Let_def
    by (simp add: case_prod_unfold split: if_splits) (drule sym, simp add: comp_def)
  ultimately show "distinct (map (\<lambda>h. ID (sMemory h)) hits)" by (auto split: if_splits)
  show "length hits \<le> nat k" using s unfolding ChunkVectorSearch_def Let_def by (auto split: if_splits)
qed

section \<open>What is served by default\<close>

definition default_view :: "Filter \<Rightarrow> bool" where
  "default_view f \<longleftrightarrow> IsZero (AsOf f) \<and> \<not> IncludeExpired f \<and> \<not> IncludeSuperseded f \<and> \<not> IsZero (Now f)"

lemma default_view_live:
  assumes "default_view f" and "filterClause eng wall f r"
  shows "live_at (Now f) r"
  using assms by (simp add: default_view_def filterClause_def live_at_def valid_at_def filter_ref_def Let_def)

lemma contradicted_hidden:
  assumes "MarkContradicted ns i s c now d = Inr d'" and "default_view f" and "ms now \<le> ms (Now f)"
    and "r \<in> set (memories d')" and "row_at ns i r"
    and "\<forall>x \<in> set (memories d). row_at ns i x \<longrightarrow> null_or (\<lambda>v. v \<le> ms now) (c_valid_to x)"
  shows "\<not> filterClause eng wall f r"
proof
  assume "filterClause eng wall f r"
  then have v: "valid_at (Now f) r" using default_view_live [OF assms(2)] by (simp add: live_at_def)
  obtain f where f: "memories d' = update_where (row_at ns i) f (memories d)"
    "\<And>r. row_at ns i (f r) = row_at ns i r"
    "\<And>r. c_valid_to (f r) = (case c_valid_to r of Some v \<Rightarrow> Some v | None \<Rightarrow> Some (ms now))"
    using assms(1) unfolding MarkContradicted_def update_or_notfound_Inr by (fastforce simp: row_at_def)
  obtain r0 where "r0 \<in> set (memories d)" "r = (if row_at ns i r0 then f r0 else r0)"
    using assms(4) unfolding f(1) set_update_where by blast
  then have r0: "r0 \<in> set (memories d)" "row_at ns i r0"
    "c_valid_to r = (case c_valid_to r0 of Some v \<Rightarrow> Some v | None \<Rightarrow> Some (ms now))"
    using assms(5) f(2,3) by (simp_all split: if_splits)
  have "null_or (\<lambda>v. v \<le> ms now) (c_valid_to r0)" using assms(6) r0(1,2) by blast
  then show False using v r0(3) assms(3) by (cases "c_valid_to r0") (simp_all add: valid_at_def null_or_def)
qed

lemma superseded_hidden:
  assumes "SetSuperseded wall ns i k d = Inr d'" and "default_view f" and "r \<in> set (memories d')" and "row_at ns i r"
  shows "\<not> filterClause eng wall' f r"
proof
  assume "filterClause eng wall' f r"
  then have "c_superseded_by r = None" using default_view_live [OF assms(2)] by (simp add: live_at_def)
  obtain f where f: "memories d' = update_where (row_at ns i) f (memories d)"
    "\<And>r. row_at ns i (f r) = row_at ns i r" "\<And>r. c_superseded_by (f r) = Some k"
    using assms(1) unfolding SetSuperseded_def update_or_notfound_Inr by (fastforce simp: row_at_def)
  obtain r0 where "r = (if row_at ns i r0 then f r0 else r0)"
    using assms(3) unfolding f(1) set_update_where by blast
  then show False using assms(4) f(2,3) \<open>c_superseded_by r = None\<close> by (simp split: if_splits)
qed

section \<open>Lookup by fingerprint\<close>

interpretation newest_row: strict_weak_order "\<lambda>a b. c_created_at b < c_created_at a"
  by unfold_locales auto

definition fingerprint_rows :: "string \<Rightarrow> Tier \<Rightarrow> string \<Rightarrow> Time \<Rightarrow> db \<Rightarrow> mem_row set" where
  "fingerprint_rows ns tier fp now d =
     {r \<in> set (memories d). c_namespace r = ns \<and> c_tier r = tier \<and> c_fingerprint r = fp \<and> live_at now r}"

lemma GetByFingerprint_eq:
  assumes "\<not> IsZero now" and "fp \<noteq> ''''"
  obtains rs where "GetByFingerprint wall ns tier fp now d =
      (case rs of [] \<Rightarrow> Inl ErrNotFound | r # _ \<Rightarrow> Inr (scanRow r))"
    and "set rs = fingerprint_rows ns tier fp now d"
    and "sorted_wrt (\<lambda>a b. c_created_at b \<le> c_created_at a) rs"
proof -
  let ?s = "order_by (\<lambda>a b. c_created_at b < c_created_at a)
     (filter (\<lambda>r. c_namespace r = ns \<and> c_tier r = tier \<and> c_fingerprint r = fp \<and> live_at now r) (memories d))"
  have "GetByFingerprint wall ns tier fp now d = (case ?s of [] \<Rightarrow> Inl ErrNotFound | r # _ \<Rightarrow> Inr (scanRow r))"
    by (simp add: GetByFingerprint_def assms)
  moreover have "set ?s = fingerprint_rows ns tier fp now d" by (auto simp: fingerprint_rows_def)
  moreover have "sorted_wrt (\<lambda>a b. c_created_at b \<le> c_created_at a) ?s"
    using newest_row.sorted_SliceStable by (simp only: not_less)
  ultimately show thesis by (rule that)
qed

lemma GetByFingerprint_Inr:
  assumes "GetByFingerprint wall ns tier fp now d = Inr m" and "\<not> IsZero now" and "fp \<noteq> ''''"
  shows "\<exists>r \<in> fingerprint_rows ns tier fp now d. m = scanRow r
    \<and> (\<forall>x \<in> fingerprint_rows ns tier fp now d. c_created_at x \<le> c_created_at r)"
proof -
  obtain rs where rs: "GetByFingerprint wall ns tier fp now d =
      (case rs of [] \<Rightarrow> Inl ErrNotFound | r # _ \<Rightarrow> Inr (scanRow r))"
    "set rs = fingerprint_rows ns tier fp now d" "sorted_wrt (\<lambda>a b. c_created_at b \<le> c_created_at a) rs"
    using GetByFingerprint_eq [OF assms(2,3)] .
  then obtain r rest where r: "rs = r # rest" "m = scanRow r" using assms(1) by (cases rs) auto
  then show ?thesis using rs(3) unfolding rs(2) [symmetric] by auto
qed

lemma GetByFingerprint_Inl:
  assumes "GetByFingerprint wall ns tier fp now d = Inl e" and "\<not> IsZero now" and "fp \<noteq> ''''"
  shows "e = ErrNotFound \<and> fingerprint_rows ns tier fp now d = {}"
proof -
  obtain rs where rs: "GetByFingerprint wall ns tier fp now d =
      (case rs of [] \<Rightarrow> Inl ErrNotFound | r # _ \<Rightarrow> Inr (scanRow r))"
    "set rs = fingerprint_rows ns tier fp now d"
    using GetByFingerprint_eq [OF assms(2,3)] by metis
  then show ?thesis using assms(1) by (cases rs) auto
qed

section \<open>Ids by prefix\<close>

lemma IDsByPrefix_set:
  assumes "prefix p i" and "p \<noteq> ''''" and "r \<in> set (memories d)" and "c_id r = i" and "c_namespace r = ns"
    and "int (length (memories d)) \<le> limit" and "0 < limit"
  shows "i \<in> set (IDsByPrefix ns p limit d)"
proof -
  let ?rows = "filter (\<lambda>r. c_namespace r = ns \<and> like (CHR 92) (escapeLike p @ ''%'') (c_id r)
                 \<and> take (length p) (c_id r) = p) (memories d)"
  have "like (CHR 92) (escapeLike p @ ''%'') i" using assms(1) by (auto simp: like_prefix prefix_def simp del: like.simps)
  moreover have "take (length p) i = p" using assms(1) by (auto simp: prefix_def)
  ultimately have "r \<in> set ?rows" using assms(3-5) by (simp del: like.simps)
  moreover have "length (map c_id (order_by (\<lambda>a b. c_id a < c_id b) ?rows)) \<le> nat limit"
    using assms(6) by (simp add: le_trans [OF length_filter_le] del: like.simps)
  ultimately show ?thesis using assms(2,4,7)
    by (simp add: IDsByPrefix_def limit_rows_def image_iff del: like.simps) blast
qed

lemma IDsByPrefix_prefix:
  assumes "i \<in> set (IDsByPrefix ns p limit d)"
  shows "prefix p i \<and> p \<noteq> '''' \<and> (\<exists>r \<in> set (memories d). c_id r = i \<and> c_namespace r = ns)"
proof -
  from assms obtain r where "r \<in> set (memories d)" "c_namespace r = ns" "take (length p) (c_id r) = p" "c_id r = i" "p \<noteq> ''''"
    using set_limit_rows unfolding IDsByPrefix_def by (fastforce split: if_splits simp del: like.simps)
  then show ?thesis by (metis take_is_prefix)
qed

end
