(* ===== verification/Store_Steps.thy ===== *)
theory Store_Steps
  imports Sqlite_Queries
begin

text \<open>
  All operations of the SQLite driver that change the database, as one step relation, and the
  databases that any sequence of them reaches from the empty one.
\<close>

section \<open>Steps\<close>

inductive store_step :: "db \<Rightarrow> db \<Rightarrow> bool" where
  upsert: "Upsert m d = Inr d' \<Longrightarrow> store_step d d'"
| reinforce: "store_step d (Reinforce ns ids accessed expiry d)"
| superseded: "SetSuperseded wall ns i k d = Inr d' \<Longrightarrow> store_step d d'"
| restore: "Restore ns i d = Inr d' \<Longrightarrow> store_step d d'"
| retier: "Retier ns i tier expiry d = Inr d' \<Longrightarrow> store_step d d'"
| confidence: "SetConfidence ns i c now d = Inr d' \<Longrightarrow> store_step d d'"
| assessed: "SetAssessedImportance ns i v now d = Inr d' \<Longrightarrow> store_step d d'"
| contradicted: "MarkContradicted ns i k c now d = Inr d' \<Longrightarrow> store_step d d'"
| delete: "Delete ns i d = Inr d' \<Longrightarrow> store_step d d'"
| expired: "DeleteIfExpiredBefore ns i cutoff d = Inr d' \<Longrightarrow> store_step d d'"
| namespace: "store_step d (fst (DeleteNamespace ns d))"
| reassign: "store_step d (fst (Reassign ns ids ns' d))"
| chunks: "PutChunks ns i updated cs d = Inr (b, d') \<Longrightarrow> store_step d d'"
| embed_model: "store_step d (SetEmbedModel model d)"
| defaults: "store_step d (SetGlobalClientSettings s d)"
| repair: "repair_step d d' \<Longrightarrow> store_step d d'"
| put_link: "store_step d (PutLink wall l d)"
| delete_link: "store_step d (snd (DeleteLink ns ns' d))"
| rename_links: "store_step d (RenameLinkEndpoints ns ns' d)"
| put_key: "PutAPIKey wall k d = Inr d' \<Longrightarrow> store_step d d'"
| delete_key: "store_step d (snd (DeleteAPIKey name d))"
| rename_keys: "store_step d (RenameAPIKeyNamespaces ns ns' d)"
| put_pins: "store_step d (PutPins now entries d)"
| delete_pins: "store_step d (snd (DeletePins keys d))"
| rename_pins: "store_step d (RenamePinNamespaces ns ns' d)"
| append: "store_step d (AppendEvents es d)"
| prune: "store_step d (snd (PruneEvents olderThan keepMax d))"

inductive store_reachable :: "nat \<Rightarrow> db \<Rightarrow> bool" for n :: nat where
  empty: "store_reachable n (empty_db n)"
| step: "store_reachable n d \<Longrightarrow> store_step d d' \<Longrightarrow> store_reachable n d'"

section \<open>Soundness\<close>

definition events_ok :: "db \<Rightarrow> bool" where
  "events_ok d \<longleftrightarrow> distinct (map eID (memory_events d))"

definition store_ok :: "db \<Rightarrow> bool" where
  "store_ok d \<longleftrightarrow> db_ok d \<and> links_ok d \<and> events_ok d"

text \<open>The operations on memories leave the other tables alone, those on the others the memories.\<close>

definition side :: "db \<Rightarrow> NamespaceLink list \<times> APIKey list \<times> Pin list \<times> Event list" where
  "side d = (namespace_links d, api_keys d, pins d, memory_events d)"

lemma side_ok: "side d' = side d \<Longrightarrow> links_ok d' = links_ok d \<and> events_ok d' = events_ok d"
  by (simp add: side_def links_ok_def events_ok_def)

definition core :: "db \<Rightarrow> nat \<times> mem_row list \<times> vec_row list \<times> fts_row list \<times> chunk_row list \<times> vec_row list" where
  "core d = (dims d, memories d, vec_memories d, fts_memories d, memory_chunks d, vec_chunks d)"

lemma core_ok: "core d' = core d \<Longrightarrow> db_ok d' = db_ok d"
  by (simp add: core_def db_ok_def)

lemma side_statements [db_simps]:
  "side (vec_clear i d) = side d" "side (vec_insert i ns v d) = side d"
  "side (clear_chunks i d) = side d" "side (fts_rewrite i m d) = side d"
  "side (reassignChunks i ns d) = side d" "side (d\<lparr> memories := t \<rparr>) = side d"
  by (simp_all add: side_def vec_clear_def vec_insert_def clear_chunks_def fts_rewrite_def
      reassignChunks_def Let_def)

lemma insert_chunks_side: "insert_chunks j ns cs d = Inr d' \<Longrightarrow> side d' = side d"
  by (induction j ns cs d rule: insert_chunks.induct) (auto simp: Let_def side_def split: if_splits)

lemma writeChunks_side: "writeChunks j ns cs d = Inr d' \<Longrightarrow> side d' = side d"
  by (simp add: writeChunks_def db_simps insert_chunks_side [of j ns cs "clear_chunks j d"])

lemma write_indexes_side:
  assumes "write_indexes j rw m d = Inr d'"
  shows "side d' = side d"
proof -
  let ?d2 = "if Embedding m \<noteq> [] then vec_insert j (Namespace m) (Embedding m) (vec_clear j d) else vec_clear j d"
  let ?cs = "case Chunks m of None \<Rightarrow> [] | Some cs \<Rightarrow> cs"
  have d2: "side ?d2 = side d" by (simp add: db_simps)
  have "write_indexes j rw m d = (case (if rw then writeChunks j (Namespace m) ?cs ?d2 else Inr ?d2) of
      Inl e \<Rightarrow> Inl e | Inr d3 \<Rightarrow> Inr (fts_rewrite j m d3))"
    by (simp add: write_indexes_def Let_def)
  then obtain d3 where d3: "(if rw then writeChunks j (Namespace m) ?cs ?d2 else Inr ?d2) = Inr d3"
    and d': "d' = fts_rewrite j m d3"
    using assms by (cases "if rw then writeChunks j (Namespace m) ?cs ?d2 else Inr ?d2") simp_all
  have "side d3 = side d"
  proof (cases rw)
    case True
    then have "writeChunks j (Namespace m) ?cs ?d2 = Inr d3" using d3 by simp
    from writeChunks_side [OF this] d2 show ?thesis by simp
  next
    case False
    then have "d3 = ?d2" using d3 by simp
    then show ?thesis using d2 by simp
  qed
  then show ?thesis by (simp add: d' db_simps)
qed

lemma Upsert_side: "Upsert m d = Inr d' \<Longrightarrow> side d' = side d"
  by (auto simp: Upsert_def Let_def db_simps dest!: write_indexes_side split: if_splits option.splits)

lemma update_side: "update_or_notfound p f d = Inr d' \<Longrightarrow> side d' = side d"
  by (auto simp: update_or_notfound_Inr db_simps)

lemma purge_side: "side (purge A d) = side d"
  by (simp add: side_def purge_def)

lemma delete_rows_side: "side (delete_memory_rows i d) = side d"
  by (simp add: delete_memory_rows_purge purge_side)

lemma Delete_side: "Delete ns i d = Inr d' \<Longrightarrow> side d' = side d"
  and DeleteIfExpiredBefore_side: "DeleteIfExpiredBefore ns i t d = Inr d' \<Longrightarrow> side d' = side d"
  by (auto simp: Delete_def DeleteIfExpiredBefore_def delete_rows_side split: option.splits)

lemma reassign_one_side: "side (fst (reassign_one a b i acc)) = side (fst acc)"
  by (simp add: reassign_one_def Let_def db_simps split: option.split)

lemma fold_reassign_side: "side (fst (fold (reassign_one a b) ids acc)) = side (fst acc)"
  by (induction ids arbitrary: acc) (simp_all add: reassign_one_side)

lemma Reassign_side: "side (fst (Reassign ns ids ns' d)) = side d"
  by (simp add: Reassign_def fold_reassign_side)

lemma PutChunks_side: "PutChunks ns i t cs d = Inr (b, d') \<Longrightarrow> side d' = side d"
  by (auto simp: PutChunks_def dest: writeChunks_side split: option.splits if_splits sum.splits)

lemma setRepairColumnsTx_side: "side (setRepairColumnsTx j next e) = side e"
  by (simp add: setRepairColumnsTx_def db_simps)

lemma repair_step_side: "repair_step d d' \<Longrightarrow> side d' = side d"
proof (induction rule: repair_step.induct)
  case (embed ns i fp v "next" d b d')
  then show ?case
    by (auto simp: SetEmbeddingIfUnchanged_def Let_def db_simps setRepairColumnsTx_side
        split: if_splits option.splits)
qed (auto simp: ClaimRepairs_def SetRepairState_def FailRepair_def ParkRepair_def RearmRepairs_def
      MarkRepairNeeded_def Let_def db_simps split: if_splits)

lemma DeleteNamespace_links:
  "links_ok d \<Longrightarrow> links_ok (fst (DeleteNamespace ns d))" "events_ok d \<Longrightarrow> events_ok (fst (DeleteNamespace ns d))"
  by (simp_all add: DeleteNamespace_def Let_def links_ok_def events_ok_def distinct_delete_where)

lemma core_side_operations:
  "core (PutLink wall l d) = core d" "core (snd (DeleteLink ns ns' d)) = core d"
  "core (RenameLinkEndpoints ns ns' d) = core d" "core (snd (DeleteAPIKey name d)) = core d"
  "core (RenameAPIKeyNamespaces ns ns' d) = core d" "core (PutPins now entries d) = core d"
  "core (snd (DeletePins keys d)) = core d" "core (RenamePinNamespaces ns ns' d) = core d"
  "core (AppendEvents es d) = core d" "core (snd (PruneEvents olderThan keepMax d)) = core d"
  "core (SetEmbedModel model d) = core d" "core (SetGlobalClientSettings s d) = core d"
  by (simp_all add: core_def PutLink_def DeleteLink_def RenameLinkEndpoints_def DeleteAPIKey_def
      RenameAPIKeyNamespaces_def PutPins_def DeletePins_def RenamePinNamespaces_def AppendEvents_def
      PruneEvents_def SetEmbedModel_def SetGlobalClientSettings_def Let_def split: prod.split)

lemma PutAPIKey_core: "PutAPIKey wall k d = Inr d' \<Longrightarrow> core d' = core d"
  by (auto simp: PutAPIKey_def core_def Let_def split: if_splits)

lemma events_frame:
  "memory_events (PutLink wall l d) = memory_events d" "memory_events (snd (DeleteLink ns ns' d)) = memory_events d"
  "memory_events (RenameLinkEndpoints ns ns' d) = memory_events d"
  "memory_events (snd (DeleteAPIKey name d)) = memory_events d"
  "memory_events (RenameAPIKeyNamespaces ns ns' d) = memory_events d"
  "memory_events (PutPins now entries d) = memory_events d"
  "memory_events (snd (DeletePins keys d)) = memory_events d"
  "memory_events (RenamePinNamespaces ns ns' d) = memory_events d"
  "PutAPIKey wall k d = Inr d' \<Longrightarrow> memory_events d' = memory_events d"
  by (auto simp: PutLink_def DeleteLink_def RenameLinkEndpoints_def DeleteAPIKey_def PutAPIKey_def
      RenameAPIKeyNamespaces_def PutPins_def DeletePins_def RenamePinNamespaces_def Let_def split: if_splits)

lemma links_frame:
  "links_ok (AppendEvents es d) = links_ok d" "links_ok (snd (PruneEvents olderThan keepMax d)) = links_ok d"
  by (simp_all add: links_ok_def AppendEvents_def PruneEvents_def Let_def split: prod.split)

lemma side_step:
  assumes "side d' = side d" and "store_ok d" and "db_ok d'"
  shows "store_ok d'"
  using assms side_ok [OF assms(1)] by (simp add: store_ok_def)

lemma core_step:
  assumes "core d' = core d" and "store_ok d" and "links_ok d'" and "events_ok d'"
  shows "store_ok d'"
  using assms core_ok [OF assms(1)] by (simp add: store_ok_def)

lemma memory_step:
  assumes "store_ok d" and "side d' = side d" and "db_ok d \<Longrightarrow> db_ok d'"
  shows "store_ok d'"
  using side_step [OF assms(2,1)] assms(1,3) by (simp add: store_ok_def)

lemma point_step:
  assumes "store_ok d" and "update_or_notfound p f d = Inr d'" and "\<And>r. indexed (f r) = indexed r"
  shows "store_ok d'"
  using assms(1) update_side [OF assms(2)] db_ok_update_or_notfound [OF assms(3) _ assms(2)]
  by (rule memory_step)

lemma point_steps:
  assumes "store_ok d"
  shows "SetSuperseded wall ns i k d = Inr d' \<Longrightarrow> store_ok d'"
    and "Restore ns i d = Inr d' \<Longrightarrow> store_ok d'"
    and "Retier ns i tier e d = Inr d' \<Longrightarrow> store_ok d'"
    and "SetConfidence ns i c now d = Inr d' \<Longrightarrow> store_ok d'"
    and "SetAssessedImportance ns i v now d = Inr d' \<Longrightarrow> store_ok d'"
    and "MarkContradicted ns i s c now d = Inr d' \<Longrightarrow> store_ok d'"
  unfolding SetSuperseded_def Restore_def Retier_def SetConfidence_def SetAssessedImportance_def
    MarkContradicted_def
  by (erule point_step [OF assms], simp add: indexed_def)+

lemma Reinforce_side: "side (Reinforce ns ids accessed expiry d) = side d"
  by (simp add: Reinforce_def db_simps)

lemmas memory_steps =
  memory_step [OF _ Upsert_side conjunct1 [OF Upsert_ok]]
  memory_step [OF _ Reinforce_side Reinforce_ok]
  memory_step [OF _ Delete_side Delete_ok]
  memory_step [OF _ DeleteIfExpiredBefore_side DeleteIfExpiredBefore_ok]
  memory_step [OF _ Reassign_side Reassign_ok]
  memory_step [OF _ PutChunks_side conjunct1 [OF PutChunks_ok]]
  memory_step [OF _ repair_step_side repair_step_ok]

text \<open>An operation on links, keys or pins.\<close>

lemma table_step:
  assumes "core d' = core d" and "memory_events d' = memory_events d" and "links_ok d \<Longrightarrow> links_ok d'"
    and "store_ok d"
  shows "store_ok d'"
  using core_step [OF assms(1,4)] assms(2-) by (simp add: store_ok_def events_ok_def)

lemmas table_steps =
  table_step [OF core_side_operations(1) events_frame(1) PutLink_ok]
  table_step [OF core_side_operations(2) events_frame(2) DeleteLink_ok]
  table_step [OF core_side_operations(3) events_frame(3) RenameLinkEndpoints_ok]
  table_step [OF core_side_operations(4) events_frame(4) DeleteAPIKey_ok]
  table_step [OF core_side_operations(5) events_frame(5) RenameAPIKeyNamespaces_ok]
  table_step [OF core_side_operations(6) events_frame(6) PutPins_ok]
  table_step [OF core_side_operations(7) events_frame(7) DeletePins_ok]
  table_step [OF core_side_operations(8) events_frame(8) RenamePinNamespaces_ok]
  table_step [OF PutAPIKey_core events_frame(9) PutAPIKey_ok]

lemma meta_frame [simp]:
  "store_ok (SetEmbedModel model d) = store_ok d" "store_ok (SetGlobalClientSettings s d) = store_ok d"
  by (simp_all add: store_ok_def db_ok_def links_ok_def events_ok_def SetEmbedModel_def
      SetGlobalClientSettings_def)

lemma event_steps:
  assumes "store_ok d"
  shows "store_ok (AppendEvents es d)" and "store_ok (snd (PruneEvents olderThan keepMax d))"
  using core_step [OF core_side_operations(9) assms] core_step [OF core_side_operations(10) assms]
    assms AppendEvents_ids PruneEvents_ids
  by (simp_all add: links_frame store_ok_def events_ok_def)

lemma DeleteNamespace_step: "store_ok d \<Longrightarrow> store_ok (fst (DeleteNamespace ns d))"
  using DeleteNamespace_ok DeleteNamespace_links by (simp add: store_ok_def)

lemma store_step_ok: "store_step d d' \<Longrightarrow> store_ok d \<Longrightarrow> store_ok d'"
  by (induction rule: store_step.induct)
    ((rule memory_steps point_steps table_steps event_steps DeleteNamespace_step; assumption)
      | simp only: meta_frame)+

lemma empty_store_ok: "store_ok (empty_db n)"
  using empty_db_ok [of n] by (simp add: store_ok_def links_ok_def events_ok_def empty_db_def)

lemma reachable_store_ok: "store_reachable n d \<Longrightarrow> store_ok d"
  by (induction rule: store_reachable.induct) (auto intro: empty_store_ok store_step_ok)

end
