(* ===== verification/Lease_Steps.thy ===== *)
theory Lease_Steps
  imports Store_Steps
begin

text \<open>
  The lease of a claimed repair (\<open>internal/store/sqlitevec/repair.go\<close>). \<open>lease_step until i\<close> is
  every operation of the driver that a worker, a writer or a sweep may run while the memory \<open>i\<close> is
  claimed, except those that hand its repair back: a completion, stage advance, failure or park of
  \<open>i\<close> itself, a rewrite of \<open>i\<close>, a claim made after the lease, or a rearm of repairs parked after
  the lease. The lemmas show that such operations keep the lease.
\<close>

inductive lease_step :: "int \<Rightarrow> string \<Rightarrow> db \<Rightarrow> db \<Rightarrow> bool" for until :: int and i :: string where
  claim: "ClaimRepairs state now lease limit d = Inr (rows, d') \<Longrightarrow> ms now < until \<Longrightarrow> lease_step until i d d'"
| embed: "SetEmbeddingIfUnchanged ns j fp v next d = Inr (b, d') \<Longrightarrow> j \<noteq> i \<Longrightarrow> lease_step until i d d'"
| advance: "SetRepairState ns j fp next d = Inr (b, d') \<Longrightarrow> j \<noteq> i \<Longrightarrow> lease_step until i d d'"
| fail: "j \<noteq> i \<Longrightarrow> lease_step until i d (FailRepair ns j e t d)"
| park: "j \<noteq> i \<Longrightarrow> lease_step until i d (ParkRepair ns j e t d)"
| rearm: "ms t < until \<Longrightarrow> lease_step until i d (fst (RearmRepairs t now d))"
| mark: "MarkRepairNeeded ns ids state d = Inr (n, d') \<Longrightarrow> lease_step until i d d'"
| upsert: "Upsert m d = Inr d' \<Longrightarrow> ID m \<noteq> i \<Longrightarrow> lease_step until i d d'"
| reinforce: "lease_step until i d (Reinforce ns ids accessed expiry d)"
| superseded: "SetSuperseded wall ns j k d = Inr d' \<Longrightarrow> lease_step until i d d'"
| restore: "Restore ns j d = Inr d' \<Longrightarrow> lease_step until i d d'"
| retier: "Retier ns j tier expiry d = Inr d' \<Longrightarrow> lease_step until i d d'"
| confidence: "SetConfidence ns j c now d = Inr d' \<Longrightarrow> lease_step until i d d'"
| assessed: "SetAssessedImportance ns j v now d = Inr d' \<Longrightarrow> lease_step until i d d'"
| contradicted: "MarkContradicted ns j k c now d = Inr d' \<Longrightarrow> lease_step until i d d'"
| reassign: "lease_step until i d (fst (Reassign ns ids ns' d))"
| delete: "Delete ns j d = Inr d' \<Longrightarrow> lease_step until i d d'"
| expired: "DeleteIfExpiredBefore ns j cutoff d = Inr d' \<Longrightarrow> lease_step until i d d'"
| namespace: "lease_step until i d (fst (DeleteNamespace ns d))"
| tables: "store_step d d' \<Longrightarrow> memories d' = memories d \<Longrightarrow> lease_step until i d d'"

lemma lease_step_store: "lease_step until i d d' \<Longrightarrow> store_step d d'"
  by (induction rule: lease_step.induct) (blast intro: store_step.intros repair_step.intros)+

text \<open>The memory still owes a repair that is not due before the end of the lease.\<close>

definition leased :: "int \<Rightarrow> string \<Rightarrow> db \<Rightarrow> bool" where
  "leased until i d \<longleftrightarrow> (\<forall>r \<in> set (memories d). c_id r = i \<longrightarrow>
     c_embed_state r \<noteq> '''' \<and> (case c_embed_next_run_at r of None \<Rightarrow> False | Some t \<Rightarrow> until \<le> t))"

lemma leased_mono: "leased until i d \<Longrightarrow> set (memories d') \<subseteq> set (memories d) \<Longrightarrow> leased until i d'"
  by (auto simp: leased_def)

text \<open>An update of the rows that leaves the id and the two columns alone, or does not touch the memory.\<close>

lemma leased_update:
  assumes "leased until i d"
    and "\<And>r. r \<in> set (memories d) \<Longrightarrow> p r \<Longrightarrow> c_id (f r) = c_id r
          \<and> (c_id r = i \<longrightarrow> c_embed_state (f r) = c_embed_state r \<and> c_embed_next_run_at (f r) = c_embed_next_run_at r)"
    and "memories d' = update_where p f (memories d)"
  shows "leased until i d'"
  unfolding leased_def
proof (intro ballI impI)
  fix r
  assume "r \<in> set (memories d')" and i: "c_id r = i"
  then obtain x where x: "x \<in> set (memories d)" "r = (if p x then f x else x)"
    by (auto simp: assms(3) set_update_where)
  then have "c_id x = i" "c_embed_state r = c_embed_state x" "c_embed_next_run_at r = c_embed_next_run_at x"
    using assms(2) [of x] i by (auto split: if_splits)
  then show "c_embed_state r \<noteq> '''' \<and> (case c_embed_next_run_at r of None \<Rightarrow> False | Some t \<Rightarrow> until \<le> t)"
    using assms(1) x(1) by (simp add: leased_def)
qed

lemma leased_memories:
  assumes "leased until i d"
    and "\<And>r. r \<in> set (memories d) \<Longrightarrow> p r \<Longrightarrow> c_id (f r) = c_id r
          \<and> (c_id r = i \<longrightarrow> c_embed_state (f r) = c_embed_state r \<and> c_embed_next_run_at (f r) = c_embed_next_run_at r)"
  shows "leased until i (d\<lparr> memories := update_where p f (memories d) \<rparr>)"
  by (rule leased_update [OF assms]) simp_all

lemma leased_point:
  assumes "leased until i d" and "update_or_notfound p f d = Inr d'"
    and "\<And>r. c_id (f r) = c_id r \<and> c_embed_state (f r) = c_embed_state r \<and> c_embed_next_run_at (f r) = c_embed_next_run_at r"
  shows "leased until i d'"
  by (rule leased_update [OF assms(1), of p f]) (use assms(2,3) in \<open>auto simp: update_or_notfound_def split: if_splits\<close>)

lemma leased_point_steps:
  assumes "leased until i d"
  shows "SetSuperseded wall ns j k d = Inr d' \<Longrightarrow> leased until i d'"
    and "Restore ns j d = Inr d' \<Longrightarrow> leased until i d'"
    and "Retier ns j tier e d = Inr d' \<Longrightarrow> leased until i d'"
    and "SetConfidence ns j c now d = Inr d' \<Longrightarrow> leased until i d'"
    and "SetAssessedImportance ns j v now d = Inr d' \<Longrightarrow> leased until i d'"
    and "MarkContradicted ns j k c now d = Inr d' \<Longrightarrow> leased until i d'"
  unfolding SetSuperseded_def Restore_def Retier_def SetConfidence_def SetAssessedImportance_def MarkContradicted_def
  by (erule leased_point [OF assms], simp)+

lemma leased_reinforce: "leased until i d \<Longrightarrow> leased until i (Reinforce ns ids accessed expiry d)"
  unfolding Reinforce_def by (auto intro!: leased_memories)

lemma leased_upsert:
  assumes l: "leased until i d" and u: "Upsert m d = Inr d'" and ok: "db_ok d" and i: "ID m \<noteq> i"
  shows "leased until i d'"
proof (cases "lookup c_id (memories d) (ID m)")
  case None
  then have "memories d' = memories d @ [insert_row (next_rowid (map c_rowid (memories d))) m]"
    using Upsert_ok [OF u ok] by (simp add: upsert_rows_def)
  then show ?thesis using l i by (auto simp: leased_def insert_row_def)
next
  case (Some x)
  note x = lookup_Some [OF Some]
  have m: "memories d' = update_where (\<lambda>r. c_rowid r = c_rowid x) (update_row m) (memories d)"
    using Upsert_ok [OF u ok] Some by (simp add: upsert_rows_def)
  have "c_id r = ID m" if "r \<in> set (memories d)" "c_rowid r = c_rowid x" for r
    using that x ok by (auto simp: db_ok_def rows_ok_def distinct_map inj_on_def)
  then show ?thesis using i by (intro leased_update [OF l _ m]) (auto simp: update_row_def)
qed

lemma leased_move: "leased until i d \<Longrightarrow> memories d' = move_rows a b j (memories d) \<Longrightarrow> leased until i d'"
proof (cases "find (row_at a j) (memories d)")
  case None
  moreover assume "leased until i d" "memories d' = move_rows a b j (memories d)"
  ultimately show ?thesis by (auto simp: move_rows_def intro: leased_mono)
next
  case (Some r)
  moreover assume l: "leased until i d" and "memories d' = move_rows a b j (memories d)"
  ultimately have "memories d' = update_where (\<lambda>x. c_rowid x = c_rowid r) (\<lambda>x. x\<lparr> c_namespace := b \<rparr>) (memories d)"
    by (simp add: move_rows_def)
  then show ?thesis by (intro leased_update [OF l]) simp_all
qed

lemma leased_fold_move:
  "leased until i d \<Longrightarrow> memories d' = fold (move_rows a b) ids (memories d) \<Longrightarrow> leased until i d'"
proof (induction ids arbitrary: d)
  case (Cons j ids)
  have "leased until i (d\<lparr> memories := move_rows a b j (memories d) \<rparr>)"
    by (rule leased_move [OF Cons.prems(1)]) simp
  then show ?case by (rule Cons.IH) (simp add: Cons.prems(2))
qed (auto intro: leased_mono)

lemma leased_reassign: "leased until i d \<Longrightarrow> db_ok d \<Longrightarrow> leased until i (fst (Reassign ns ids ns' d))"
  using leased_fold_move [of until i d _ ns ns' ids] fold_reassign_ok [of "(d, 0)" ns ns' ids]
  by (auto simp: Reassign_def)

text \<open>The operations of the queue.\<close>

lemma leased_claim:
  assumes l: "leased until i d" and c: "ClaimRepairs state now lease limit d = Inr (rows, d')" and t: "ms now < until"
  shows "leased until i d'"
proof (cases "0 < limit")
  case True
  have "i \<notin> claimed_ids state now limit d"
  proof
    assume "i \<in> claimed_ids state now limit d"
    then obtain r where "r \<in> set (memories d)" "claimable state now r" "c_id r = i"
      by (auto simp: claimed_ids_def dest: claim_selection_set)
    then show False using l t by (auto simp: leased_def claimable_def null_or_def split: option.splits)
  qed
  then show ?thesis
    by (intro leased_update [OF l _ ClaimRepairs_InrD(1) [OF c True]]) (auto simp: charge_def)
next
  case False
  then show ?thesis using l c by (auto simp: ClaimRepairs_def split: if_splits)
qed

lemma leased_embed:
  assumes l: "leased until i d" and s: "SetEmbeddingIfUnchanged ns j fp v next d = Inr (b, d')" and ok: "db_ok d"
    and j: "j \<noteq> i"
  shows "leased until i d'"
proof (cases "find (\<lambda>r. row_at ns j r \<and> c_fingerprint r = fp) (memories d)")
  case None
  then show ?thesis using l s by (auto simp: SetEmbeddingIfUnchanged_def split: if_splits)
next
  case (Some r)
  have r: "r \<in> set (memories d)" "c_id r = j" using find_Some_set [OF Some] by (auto simp: row_at_def)
  have same: "c_id x = j" if "x \<in> set (memories d)" "c_rowid x = c_rowid r" for x
    using that r ok by (auto simp: db_ok_def rows_ok_def distinct_map inj_on_def)
  let ?e = "if v \<noteq> [] then vec_insert (c_rowid r) ns v (vec_clear (c_rowid r) d) else vec_clear (c_rowid r) d"
  have e: "memories ?e = memories d" "d' = setRepairColumnsTx (c_rowid r) next ?e"
    using s Some by (simp_all add: SetEmbeddingIfUnchanged_def Let_def db_simps split: if_splits)
  show ?thesis
  proof (cases "next = RepairNone")
    case True
    show ?thesis
      by (rule leased_update [OF l, where p = "\<lambda>x. c_rowid x = c_rowid r"])
        (use same j e True in \<open>simp_all add: setRepairColumnsTx_def\<close>)
  next
    case False
    show ?thesis
      by (rule leased_update [OF l, where p = "\<lambda>x. c_rowid x = c_rowid r"])
        (use same j e False in \<open>simp_all add: setRepairColumnsTx_def\<close>)
  qed
qed

lemma leased_queue_steps:
  assumes "leased until i d"
  shows "SetRepairState ns j fp next d = Inr (b, d') \<Longrightarrow> j \<noteq> i \<Longrightarrow> leased until i d'"
    and "j \<noteq> i \<Longrightarrow> leased until i (FailRepair ns j e t d)"
    and "j \<noteq> i \<Longrightarrow> leased until i (ParkRepair ns j e t d)"
    and "MarkRepairNeeded ns ids state d = Inr (n, d') \<Longrightarrow> leased until i d'"
    and "ms t < until \<Longrightarrow> leased until i (fst (RearmRepairs t now d))"
proof -
  show "leased until i d'" if "SetRepairState ns j fp next d = Inr (b, d')" "j \<noteq> i"
    using that by (auto simp: SetRepairState_def Let_def row_at_def split: if_splits intro!: leased_memories [OF assms])
  show "leased until i (FailRepair ns j e t d)" "leased until i (ParkRepair ns j e t d)" if "j \<noteq> i"
    using that by (auto simp: FailRepair_def ParkRepair_def row_at_def intro!: leased_memories [OF assms])
  show "leased until i d'" if "MarkRepairNeeded ns ids state d = Inr (n, d')"
  proof -
    have "c_embed_state r \<noteq> ''''" if "r \<in> set (memories d)" "c_id r = i" for r
      using that assms by (simp add: leased_def)
    then show ?thesis using assms that
      by (auto simp: MarkRepairNeeded_def Let_def split: if_splits intro!: leased_memories)
  qed
  show "leased until i (fst (RearmRepairs t now d))" if t: "ms t < until"
  proof -
    have "\<not> parked_before t r" if "r \<in> set (memories d)" "c_id r = i" for r
      using that assms t by (auto simp: leased_def parked_before_def split: option.splits)
    then show ?thesis by (auto simp: RearmRepairs_def intro!: leased_memories [OF assms])
  qed
qed

section \<open>The lease holds\<close>

lemma leased_step: "lease_step until i d d' \<Longrightarrow> db_ok d \<Longrightarrow> leased until i d \<Longrightarrow> leased until i d'"
proof (induction rule: lease_step.induct)
  case (namespace d ns)
  then show ?case using DeleteNamespace_purge [of d ns]
    by (auto intro!: leased_mono [of until i d] simp: purge_def set_delete_where)
next
  case (delete ns j d d')
  then show ?case
    by (auto intro!: leased_mono [of until i d] simp: Delete_def delete_memory_rows_purge purge_def set_delete_where
        split: option.splits)
next
  case (expired ns j cutoff d d')
  then show ?case
    by (auto intro!: leased_mono [of until i d] simp: DeleteIfExpiredBefore_def delete_memory_rows_purge purge_def
        set_delete_where split: option.splits)
next
  case (tables d d')
  then show ?case by (auto intro: leased_mono)
qed (blast intro: leased_claim leased_embed leased_queue_steps leased_upsert leased_reinforce leased_point_steps leased_reassign)+

lemma leased_steps: "(lease_step until i)\<^sup>*\<^sup>* d d' \<Longrightarrow> store_ok d \<Longrightarrow> leased until i d \<Longrightarrow> leased until i d' \<and> store_ok d'"
proof (induction rule: rtranclp_induct)
  case (step e e')
  then have "store_ok e" "leased until i e" by simp_all
  then show ?case
    using leased_step [OF step.hyps(2)] store_step_ok [OF lease_step_store [OF step.hyps(2)]] by (simp add: store_ok_def)
qed simp

lemma claim_leases:
  assumes c: "ClaimRepairs state now lease limit d = Inr (rows, d')" and ok: "db_ok d" and i: "i \<in> set (map rID rows)"
  shows "leased (ms (now + lease)) i d'"
proof -
  have pos: "0 < limit" and st: "state \<noteq> RepairNone" using c i by (auto simp: ClaimRepairs_def split: if_splits)
  let ?C = "claimed_ids state now limit d"
  have "i \<in> ?C" using i ClaimRepairs_rows_ids [OF c pos] by simp
  moreover have "c_embed_state r = state" if r: "r \<in> set (memories d)" "c_id r \<in> ?C" for r
  proof -
    obtain x where x: "x \<in> set (memories d)" "claimable state now x" "c_id x = c_id r"
      using r(2) claim_selection_set by (force simp: claimed_ids_def)
    then show ?thesis using r ok by (auto simp: claimable_def db_ok_def rows_ok_def distinct_map inj_on_def)
  qed
  ultimately show ?thesis using st
    by (auto simp: leased_def ClaimRepairs_InrD(1) [OF c pos] set_update_where charge_def)
qed

lemma leased_not_claimed:
  assumes l: "leased until i d" and c: "ClaimRepairs state now lease limit d = Inr (rows, d')" and t: "ms now < until"
  shows "i \<notin> set (map rID rows)"
proof
  assume i: "i \<in> set (map rID rows)"
  then have pos: "0 < limit" using c by (auto simp: ClaimRepairs_def split: if_splits)
  then have "i \<in> claimed_ids state now limit d" using i ClaimRepairs_rows_ids [OF c pos] by simp
  then obtain r where "r \<in> set (memories d)" "claimable state now r" "c_id r = i"
    by (auto simp: claimed_ids_def dest: claim_selection_set)
  then show False using l t by (auto simp: leased_def claimable_def null_or_def split: option.splits)
qed

end
