(* ===== verification/Core_Properties.thy ===== *)
theory Core_Properties
  imports Namespaces Client_Settings
begin

text \<open>
  Properties of the domain types: the scores of a memory over time, the confidence that
  corroboration builds, the normal form behind the content fingerprint, namespace names, and
  the layering of client settings.
\<close>

section \<open>Scores over time\<close>

lemma Sub_mono: "t \<le> t' \<Longrightarrow> Sub t u \<le> Sub t' u"
  by (simp add: Sub_def)

lemma Hours_mono: "a \<le> b \<Longrightarrow> Hours a \<le> Hours b"
  by (simp add: Hours_def divide_right_mono)

lemma EffectiveConfidence_antimono:
  assumes "now \<le> now'" and "\<forall>c. Confidence m = Some c \<longrightarrow> confidenceFloor \<le> clamp01 c"
  shows "EffectiveConfidence m now' \<le> EffectiveConfidence m now"
proof (cases "Confidence m")
  case (Some c)
  let ?b = "if After (LastAccessedAt m) (UpdatedAt m) then LastAccessedAt m else UpdatedAt m"
  have "Hours (Sub now ?b) / (7 * 24) \<le> Hours (Sub now' ?b) / (7 * 24)"
    using Hours_mono [OF Sub_mono [OF assms(1)]] by (simp add: divide_right_mono)
  then show ?thesis
    using Some assms(2) decayConfidence_antimono [of "clamp01 c"]
    by (auto simp: EffectiveConfidence_def Let_def)
qed (simp add: EffectiveConfidence_def)

lemma ShortTerm_factor_antimono:
  assumes "now \<le> now'" and "0 < s"
  shows "exp (- real_of_int (max (Sub now' u) 0) / s) \<le> exp (- real_of_int (max (Sub now u) 0) / s)"
  using Sub_mono [OF assms(1), of u] assms(2) by (simp add: divide_right_mono)

text \<open>
  A memory that nobody touches never gains rank: its quality (the retention score that
  eviction compares) at a later time is at most its quality now, in every tier.
\<close>

theorem quality_never_grows:
  assumes "now \<le> now'" and "0 \<le> AccessCount m" and "0 \<le> StabilityK cfg"
    and "\<forall>c. Confidence m = Some c \<longrightarrow> confidenceFloor \<le> clamp01 c"
  shows "Quality cfg m now' \<le> Quality cfg m now"
proof -
  let ?u = "1 + ln (1 + real_of_int (AccessCount m))"
  have u: "0 \<le> ?u" "0 \<le> ln (1 + real_of_int (AccessCount m))" using assms(2) by simp_all
  show ?thesis
  proof (cases "Tier_Term (mTier m)")
    case LongTerm
    have "Salience cfg m * EffectiveConfidence m now' * ?u \<le> Salience cfg m * EffectiveConfidence m now * ?u"
      using EffectiveConfidence_antimono [OF assms(1,4)] u(1) Salience_bounds(1)
      by (intro mult_right_mono mult_left_mono) auto
    then show ?thesis by (simp add: Quality_LongTerm [OF LongTerm] DurableScore_def Let_def)
  next
    case ShortTerm
    let ?s = "real_of_int retentionHalfLife * (1 + StabilityK cfg * ln (1 + real_of_int (AccessCount m)))"
    have "0 < 1 + StabilityK cfg * ln (1 + real_of_int (AccessCount m))"
      using u(2) assms(3) by (smt (verit) mult_nonneg_nonneg)
    then have "0 < ?s" by simp
    from ShortTerm_factor_antimono [OF assms(1) this]
    show ?thesis using u(1) Salience_bounds(1)
      unfolding Quality_ShortTerm [OF ShortTerm] by (intro mult_left_mono) auto
  qed
qed

definition sample_memory :: "string \<Rightarrow> string \<Rightarrow> string \<Rightarrow> memory" where
  "sample_memory ns i content =
    \<lparr> ID = i, Namespace = ns, mTier = TierSemantic, mLevel = LevelExplicit, Content = content,
      Summary = '''', Metadata = Map.empty, Tags = [], Importance = 1/2, CreatedAt = unix_epoch,
      UpdatedAt = unix_epoch, LastAccessedAt = unix_epoch, AccessCount = 3, ExpiresAt = None,
      SupersededBy = None, ValidFrom = None, ValidTo = None, Confidence = Some (2/5),
      AssessedImportance = None, LinkedMemoryIDs = [], Embedding = [], EmbedState = '''', Chunks = None \<rparr>"

lemma quality_never_grows_witness:
  "Quality \<lparr> StabilityK = 1, AssessedSalienceWeight = 0 \<rparr> (sample_memory ''a'' ''m1'' ''tea'') (unix_epoch + 1000 * Hour)
   \<le> Quality \<lparr> StabilityK = 1, AssessedSalienceWeight = 0 \<rparr> (sample_memory ''a'' ''m1'' ''tea'') unix_epoch"
  by (rule quality_never_grows) (simp_all add: sample_memory_def clamp01_def)

text \<open>
  Each corroboration closes a tenth of the gap between a confidence and certainty: after
  \<open>n\<close> of them \<open>0.9 ^ n\<close> of the gap is left, and the result stays within the unit interval.
\<close>

theorem corroboration_gap:
  assumes "0 \<le> c" and "c \<le> 1"
  shows "1 - (GrowConfidence ^^ n) c = 0.9 ^ n * (1 - c)
    \<and> 0 \<le> (GrowConfidence ^^ n) c \<and> (GrowConfidence ^^ n) c \<le> 1"
  by (rule GrowConfidence_iterate [OF assms])

lemma corroboration_gap_witness:
  "1 - (GrowConfidence ^^ 2) (1 / 2) = 81 / 200 \<and> (GrowConfidence ^^ 2) (1 / 2) \<le> 1"
  using corroboration_gap [of "1 / 2" 2] by (simp add: power2_eq_square)

section \<open>Content\<close>

text \<open>
  Two contents have the same normal form exactly when their words agree up to case;
  normalising twice is normalising once, and the fingerprint does not see the difference.
\<close>

theorem content_normal_form:
  "(NormalizeContent s = NormalizeContent t) = (map ToLower (Fields s) = map ToLower (Fields t))
   \<and> NormalizeContent (NormalizeContent s) = NormalizeContent s
   \<and> Fingerprint (NormalizeContent s) = Fingerprint s"
  by (simp_all add: NormalizeContent_eq_iff Fields_NormalizeContent)

section \<open>Namespaces\<close>

text \<open>
  A normalised namespace is canonical: it has no empty segment and no slash at either
  end, and a name that is canonical already (and not hidden behind white space) is a fixed
  point, so the same namespace is never stored under two spellings.
\<close>

theorem namespace_canonical:
  "\<not> has_double_slash (NormalizeNamespace ns)
   \<and> (NormalizeNamespace ns = [] \<or>
        hd (NormalizeNamespace ns) \<noteq> slash \<and> last (NormalizeNamespace ns) \<noteq> slash)
   \<and> (\<not> is_space (hd (NormalizeNamespace ns)) \<and> \<not> is_space (last (NormalizeNamespace ns))
        \<longrightarrow> NormalizeNamespace (NormalizeNamespace ns) = NormalizeNamespace ns)"
  using NormalizeNamespace_canonical [of ns] NormalizeNamespace_id [of "NormalizeNamespace ns"] by auto

lemma namespace_canonical_witness:
  "NormalizeNamespace '' /team//app/ '' = ''team/app'' \<and> NormalizeNamespace ''team/app'' = ''team/app''
   \<and> \<not> has_double_slash (NormalizeNamespace '' /team//app/ '')"
proof -
  have n: "NormalizeNamespace '' /team//app/ '' = ''team/app''"
    by (simp add: NormalizeNamespace_def Trim_def TrimSpace_def is_space_def collapse_slashes_eq)
  then show ?thesis
    using namespace_canonical [of "'' /team//app/ ''"] by (simp add: is_space_def)
qed

section \<open>Client settings\<close>

text \<open>
  Layering the settings of the levels gives every key the value of the last layer that
  sets it, names that layer as its source, and leaves a key that no layer sets unset.
\<close>

theorem settings_last_layer_wins:
  "wire (fst (MergeClientSettings ls)) k = Option.bind (winner k ls) (\<lambda>l. wire (S l) k)
   \<and> snd (MergeClientSettings ls) k = map_option Source (winner k ls)"
  by (rule MergeClientSettings_winner)

text \<open>
  Merging settings that each pass the validation gives settings that pass it, so a write
  that was accepted at its own level cannot make the effective settings invalid.
\<close>

theorem settings_merge_valid:
  assumes "\<forall>l \<in> set ls. Validate (S l) = None"
  shows "Validate (fst (MergeClientSettings (\<lparr> Source = ''default'', S = DefaultClientSettings \<rparr> # ls))) = None"
  using assms Validate_DefaultClientSettings by (intro Validate_Merge) auto

lemma settings_merge_valid_witness:
  "Validate (fst (MergeClientSettings
     [\<lparr> Source = ''default'', S = DefaultClientSettings \<rparr>,
      \<lparr> Source = ''key'', S = no_settings\<lparr> AutoSaveInterval := Some 7 \<rparr> \<rparr>])) = None"
  by (rule settings_merge_valid)
    (simp add: Validate_None_iff no_settings_def int_below_def nonNegativeInts_def
      nonNegativeFloats_def check_scope_def check_labels_def check_prefix_def check_tools_def)

end
