(* ===== verification/Store_Properties.thy ===== *)
theory Store_Properties
  imports Lease_Steps Core_Properties
begin

text \<open>
  Properties of the SQLite driver. The concrete databases of the witnesses are those that the
  operations build from the empty one.
\<close>

section \<open>Concrete databases\<close>

abbreviation tea :: memory where "tea \<equiv> sample_memory ''a'' ''m1'' ''tea''"
abbreviation coffee :: memory where "coffee \<equiv> (sample_memory ''a'' ''m2'' ''coffee'')\<lparr> Embedding := [1, 0] \<rparr>"

definition tea_db :: db where
  "tea_db = (empty_db 2)\<lparr> memories := [insert_row 1 tea], fts_memories := [fts_row_of 1 tea] \<rparr>"

definition coffee_db :: db where
  "coffee_db = tea_db\<lparr> memories := [insert_row 1 tea, insert_row 2 coffee],
     vec_memories := [\<lparr> v_rowid = 2, v_namespace = ''a'', v_embedding = [1, 0] \<rparr>],
     fts_memories := [fts_row_of 1 tea, fts_row_of 2 coffee] \<rparr>"

lemmas upsert_eval =
  Upsert_def write_indexes_def writeChunks_def clear_chunks_def chunk_ids_of_def vec_clear_def
  vec_insert_def fts_rewrite_def lookup_def delete_where_def next_rowid_def empty_db_def
  sample_memory_def insert_row_def fts_row_of_def

lemma Upsert_tea: "Upsert tea (empty_db 2) = Inr tea_db"
  by (simp add: upsert_eval tea_db_def)

lemma Upsert_coffee: "Upsert coffee tea_db = Inr coffee_db"
  by (simp add: upsert_eval tea_db_def coffee_db_def)

lemma coffee_reachable: "store_reachable 2 coffee_db"
  by (rule store_reachable.step [OF store_reachable.step [OF store_reachable.empty store_step.upsert [OF Upsert_tea]]
        store_step.upsert [OF Upsert_coffee]])

lemma coffee_db_ok: "db_ok coffee_db"
  using reachable_store_ok [OF coffee_reachable] by (simp add: store_ok_def)

lemma tea_db_ok: "db_ok tea_db"
  using Upsert_ok [OF Upsert_tea empty_db_ok] by simp

lemma coffee_memories [simp]: "memories coffee_db = [insert_row 1 tea, insert_row 2 coffee]"
  by (simp add: coffee_db_def)

lemma insert_row_simps [simp]:
  "c_id (insert_row i m) = ID m" "c_namespace (insert_row i m) = Namespace m" "c_rowid (insert_row i m) = i"
  "c_superseded_by (insert_row i m) = SupersededBy m" "c_valid_to (insert_row i m) = map_option ms (ValidTo m)"
  "c_expires_at (insert_row i m) = map_option ms (ExpiresAt m)" "c_embed_state (insert_row i m) = EmbedState m"
  "c_metadata (insert_row i m) = Metadata m" "c_confidence (insert_row i m) = Confidence m"
  by (simp_all add: insert_row_def)

lemma sample_memory_simps [simp]:
  "ID (sample_memory ns i c) = i" "Namespace (sample_memory ns i c) = ns" "Content (sample_memory ns i c) = c"
  "SupersededBy (sample_memory ns i c) = None" "ValidTo (sample_memory ns i c) = None"
  "ExpiresAt (sample_memory ns i c) = None" "EmbedState (sample_memory ns i c) = ''''"
  "Metadata (sample_memory ns i c) = Map.empty" "Confidence (sample_memory ns i c) = Some (2/5)"
  by (simp_all add: sample_memory_def)

section \<open>The database\<close>

text \<open>
  C1: Whatever sequence of operations the driver executes on an empty database (writes,
  point updates, deletions, moves between namespaces, chunk writes, the repair queue, links,
  keys, pins, the activity log), the tables stay in step: unique ids, fingerprints of the
  stored content, every vector in its memory's partition at the configured width, exactly one
  full-text row per memory, no orphaned chunk or chunk vector, unique keys of links, API keys
  and pins, unique event ids.
\<close>

theorem reachable_sound:
  assumes "store_reachable n d"
  shows "db_ok d \<and> links_ok d \<and> events_ok d"
  using reachable_store_ok [OF assms] by (simp add: store_ok_def)

lemma reachable_sound_witness: "db_ok coffee_db \<and> links_ok coffee_db \<and> events_ok coffee_db"
  by (rule reachable_sound [OF coffee_reachable])

text \<open>
  A write is read back: after \<open>Upsert m\<close> the memory at its id is \<open>m\<close> with times to the
  millisecond and without vectors, a rewrite keeps the creation time of the first write, and
  no other memory changes.
\<close>

theorem upsert_read_back:
  assumes "db_ok d" and "Upsert m d = Inr d'"
  shows "Get (Namespace m) (ID m) d' =
      Inr (stored m (case Get (Namespace m) (ID m) d of Inl e \<Rightarrow> None | Inr x \<Rightarrow> Some x))
    \<and> (\<forall>ns i. i \<noteq> ID m \<longrightarrow> Get ns i d' = Get ns i d)"
  using sqlite.put_get [OF assms] sqlite.put_frame [OF assms] by blast

lemma upsert_read_back_witness:
  "Get ''a'' ''m2'' coffee_db = Inr (stored coffee None) \<and> Get ''a'' ''m1'' coffee_db = Get ''a'' ''m1'' tea_db"
proof -
  have "Get ''a'' ''m2'' tea_db = Inl ErrNotFound" by (simp add: Get_def tea_db_def row_at_def)
  then show ?thesis using upsert_read_back [OF tea_db_ok Upsert_coffee] by simp
qed

text \<open>
  An id belongs to one namespace: writing it from another one is refused with the
  namespace that holds it, and only that way.
\<close>

theorem upsert_conflict:
  assumes "db_ok d" and "width_ok m d" and "Get ns (ID m) d = Inr x" and "ns \<noteq> Namespace m"
  shows "Upsert m d = Inl (ErrConflict (ID m) ns)"
  by (rule sqlite.put_conflict [OF assms])

lemma upsert_conflict_witness:
  "Upsert (sample_memory ''b'' ''m1'' ''milk'') coffee_db = Inl (ErrConflict ''m1'' ''a'')"
proof -
  have "Get ''a'' (ID (sample_memory ''b'' ''m1'' ''milk'')) coffee_db = Inr (scanRow (insert_row 1 tea))"
    by (simp add: Get_def row_at_def)
  moreover have "width_ok (sample_memory ''b'' ''m1'' ''milk'') coffee_db" by (simp add: width_ok_def sample_memory_def)
  ultimately show ?thesis using upsert_conflict [OF coffee_db_ok, of "sample_memory ''b'' ''m1'' ''milk''"] by simp
qed

text \<open>
  C2: Replacing a memory is undone by deleting the successor and restoring the predecessor:
  the predecessor is then as it was before, open again, and the successor is gone.
\<close>

theorem replace_undone:
  assumes "db_ok d" and "Upsert m d = Inr d1" and "SetSuperseded wall (Namespace m) i (ID m) d1 = Inr d2"
    and "i \<noteq> ID m"
  shows "\<exists>d3 d4. Delete (Namespace m) (ID m) d2 = Inr d3 \<and> Restore (Namespace m) i d3 = Inr d4
    \<and> Get (Namespace m) i d4 = map_sum id reopened (Get (Namespace m) i d)
    \<and> Get (Namespace m) (ID m) d4 = Inl ErrNotFound"
proof -
  have "sqlite.replace wall i m d = Inr d2" using assms(2,3) by (simp add: sqlite.replace_def)
  from sqlite.replace_undo [OF assms(1) this assms(4)] obtain d4 where
    d4: "sqlite.undo (Namespace m) i (ID m) d2 = Inr d4"
      "Get (Namespace m) i d4 = map_sum id reopened (Get (Namespace m) i d)"
      "Get (Namespace m) (ID m) d4 = Inl ErrNotFound" .
  from d4(1) obtain d3 where "Delete (Namespace m) (ID m) d2 = Inr d3" "Restore (Namespace m) i d3 = Inr d4"
    by (auto simp: sqlite.undo_def split: sum.splits)
  then show ?thesis using d4(2,3) by blast
qed

lemma replace_undone_witness:
  "\<exists>d2 d3 d4. SetSuperseded unix_epoch ''a'' ''m1'' ''m2'' coffee_db = Inr d2
    \<and> Delete ''a'' ''m2'' d2 = Inr d3 \<and> Restore ''a'' ''m1'' d3 = Inr d4
    \<and> Get ''a'' ''m1'' d4 = map_sum id reopened (Get ''a'' ''m1'' tea_db)"
proof -
  obtain d2 where d2: "SetSuperseded unix_epoch ''a'' ''m1'' ''m2'' coffee_db = Inr d2"
    by (simp add: SetSuperseded_def update_or_notfound_def row_at_def)
  then show ?thesis using replace_undone [OF tea_db_ok Upsert_coffee, of unix_epoch "''m1''" d2] by auto
qed

text \<open>
  A deleted memory leaves nothing behind: its row, its vector, its full-text row, its
  chunks and their vectors are gone, and every row of another memory is still there.
\<close>

theorem delete_purges:
  assumes "db_ok d" and "find (row_at ns i) (memories d) = Some r"
  shows "\<exists>d'. Delete ns i d = Inr d' \<and> db_ok d'
    \<and> memories d' = filter (\<lambda>x. c_rowid x \<noteq> c_rowid r) (memories d)
    \<and> vec_memories d' = filter (\<lambda>v. v_rowid v \<noteq> c_rowid r) (vec_memories d)
    \<and> fts_memories d' = filter (\<lambda>f. f_rowid f \<noteq> c_rowid r) (fts_memories d)
    \<and> memory_chunks d' = filter (\<lambda>c. k_memory_rowid c \<noteq> c_rowid r) (memory_chunks d)
    \<and> v_rowid ` set (vec_chunks d') = k_rowid ` set (memory_chunks d')"
proof -
  let ?d = "purge {c_rowid r} d"
  have "Delete ns i d = Inr ?d" using assms(2) by (simp add: Delete_def delete_memory_rows_purge)
  moreover have ok: "db_ok ?d" using Delete_ok [OF calculation assms(1)] .
  moreover have "v_rowid ` set (vec_chunks ?d) = k_rowid ` set (memory_chunks ?d)"
    using ok unfolding db_ok_def chunk_vecs_ok_def by blast
  ultimately show ?thesis by (intro exI [of _ ?d]) (simp add: purge_def delete_where_def)
qed

lemma delete_purges_witness:
  "\<exists>d'. Delete ''a'' ''m2'' coffee_db = Inr d' \<and> vec_memories d' = []"
  using delete_purges [OF coffee_db_ok, of "''a''" "''m2''" "insert_row 2 coffee"]
  by (auto simp: row_at_def coffee_db_def)

section \<open>Search\<close>

text \<open>
  A vector search returns at most \<open>k\<close> hits, best first, and each is a memory of the
  searched namespace that passes the whole filter, scored by the distance of its own stored
  vector.
\<close>

theorem vector_search_sound:
  assumes "db_ok d" and "VectorSearch eng wall ns q f k d = Inr hits" and "\<And>x y. 0 \<le> distance eng x y"
  shows "length hits \<le> k \<and> sorted_wrt (\<lambda>a b. Score b \<le> Score a) hits
    \<and> (\<forall>h \<in> set hits. \<exists>r \<in> set (memories d). \<exists>v \<in> set (vec_memories d). v_rowid v = c_rowid r
        \<and> sMemory h = scanRow r \<and> c_namespace r = ns \<and> filterClause eng wall f r
        \<and> Score h = distanceToScore (distance eng q (v_embedding v)))"
  using VectorSearch_sound [OF assms(1,2)] VectorSearch_length [OF assms(2)]
    VectorSearch_sorted [OF assms(2,3)] by blast

definition sample_engine :: engine where
  "sample_engine = \<lparr> json_text = (\<lambda>_. ''''), distance = (\<lambda>x y. \<bar>hd x - hd y\<bar>), bm25 = (\<lambda>_ _. None) \<rparr>"

lemma vector_search_sound_witness:
  "\<exists>hits. VectorSearch sample_engine 5 ''a'' [0, 1] no_filter 3 coffee_db = Inr hits \<and> length hits \<le> 3
    \<and> sMemory ` set hits \<subseteq> scanRow ` set (memories coffee_db)"
proof -
  obtain hits where h: "VectorSearch sample_engine 5 ''a'' [0, 1] no_filter 3 coffee_db = Inr hits"
    by (simp add: VectorSearch_def coffee_db_def tea_db_def empty_db_def)
  have "0 \<le> distance sample_engine x y" for x y by (simp add: sample_engine_def)
  from vector_search_sound [OF coffee_db_ok h this] show ?thesis using h by blast
qed

text \<open>
  A memory that has been contradicted is not served any more: no listing that looks at
  the present, from the moment of the contradiction on, contains it.
\<close>

theorem contradicted_not_listed:
  assumes "MarkContradicted ns i k c now d = Inr d'" and "default_view f" and "ms now \<le> ms (Now f)"
    and "\<forall>x \<in> set (memories d). row_at ns i x \<longrightarrow> null_or (\<lambda>v. v \<le> ms now) (c_valid_to x)"
    and "m \<in> set (List_memories eng wall ns f limit d')"
  shows "ID m \<noteq> i"
proof
  assume "ID m = i"
  obtain r where "r \<in> set (memories d')" "m = scanRow r" "c_namespace r = ns" "filterClause eng wall f r"
    using List_memories_sound [OF assms(5)] by blast
  then show False using contradicted_hidden [OF assms(1-3) _ _ assms(4)] \<open>ID m = i\<close> by (auto simp: row_at_def)
qed

lemma contradicted_not_listed_witness:
  "\<exists>d'. MarkContradicted ''a'' ''m1'' ''m2'' (1/5) unix_epoch coffee_db = Inr d'
    \<and> ''m1'' \<noteq> ID (scanRow (insert_row 2 coffee))
    \<and> scanRow (insert_row 2 coffee) \<in> set (List_memories sample_engine 0 ''a'' (no_filter\<lparr> Now := unix_epoch \<rparr>) 0 d')"
proof -
  let ?f = "no_filter\<lparr> Now := unix_epoch \<rparr>"
  obtain d' where d': "MarkContradicted ''a'' ''m1'' ''m2'' (1/5) unix_epoch coffee_db = Inr d'"
    by (simp add: MarkContradicted_def update_or_notfound_def row_at_def)
  have f: "default_view ?f" by (simp add: default_view_def no_filter_def IsZero_def unix_epoch_def)
  have "insert_row 2 coffee \<in> set (memories d')"
    using d' by (auto simp: MarkContradicted_def update_or_notfound_Inr row_at_def update_where_def)
  moreover have "filterClause sample_engine 0 ?f (insert_row 2 coffee)"
    by (simp add: filterClause_def no_filter_def IsZero_def null_or_def)
  ultimately have m: "scanRow (insert_row 2 coffee) \<in> set (List_memories sample_engine 0 ''a'' ?f 0 d')"
    by (auto simp: List_memories_complete)
  have "ID (scanRow (insert_row 2 coffee)) \<noteq> ''m1''"
    by (rule contradicted_not_listed [OF d' f _ _ m]) (simp_all add: null_or_def no_filter_def)
  then show ?thesis using d' m by metis
qed

text \<open>
  Ids are found by a literal prefix: with room for all of them, the ids returned are
  exactly those of the namespace that start with the prefix, whatever wild-card characters
  it contains.
\<close>

theorem ids_by_literal_prefix:
  assumes "p \<noteq> ''''" and "int (length (memories d)) \<le> limit" and "0 < limit"
  shows "set (IDsByPrefix ns p limit d) =
    {i. prefix p i \<and> (\<exists>r \<in> set (memories d). c_id r = i \<and> c_namespace r = ns)}"
  using IDsByPrefix_prefix IDsByPrefix_set [OF _ assms(1) _ _ _ assms(2,3)] by blast

lemma ids_by_literal_prefix_witness: "''m2'' \<in> set (IDsByPrefix ''a'' ''m'' 9 coffee_db)"
  unfolding ids_by_literal_prefix [of "''m''" coffee_db 9 "''a''", simplified] by simp

section \<open>The repair queue\<close>

text \<open>
  C3: From a sound database, a memory that one claim handed out is not handed out by any other
  claim made while the first lease runs, whichever worker makes it and whatever stage, batch size
  and lease it asks for. In between any number of operations of the driver may run (other claims,
  completions and failures of other memories, writes, deletions, moves, supersessions, rearms),
  except those that hand this memory's repair back: a completion, stage advance, failure or park
  of the memory, a rewrite of it, a claim or rearm whose clock is past the lease.
\<close>

theorem claims_never_overlap:
  assumes "store_ok d" and "ClaimRepairs state now lease limit d = Inr (rows, d1)" and "i \<in> set (map rID rows)"
    and "(lease_step (ms (now + lease)) i)\<^sup>*\<^sup>* d1 d2"
    and "ClaimRepairs state' now' lease' limit' d2 = Inr (rows', d3)" and "ms now' < ms (now + lease)"
  shows "i \<notin> set (map rID rows')"
proof -
  have ok: "db_ok d" using assms(1) by (simp add: store_ok_def)
  have "store_step d d1" using assms(2) by (blast intro: store_step.repair repair_step.claim)
  then have "store_ok d1" using assms(1) by (rule store_step_ok)
  then have "leased (ms (now + lease)) i d2"
    using leased_steps [OF assms(4)] claim_leases [OF assms(2) ok assms(3)] by blast
  then show ?thesis using assms(5,6) by (rule leased_not_claimed)
qed

definition pending_db :: db where
  "pending_db = coffee_db\<lparr> memories := update_where (\<lambda>r. c_id r = ''m1'')
     (\<lambda>r. r\<lparr> c_embed_state := RepairPending, c_embed_next_run_at := Some 0 \<rparr>) (memories coffee_db) \<rparr>"

lemma pending_db_ok: "store_ok pending_db"
proof -
  have "db_ok pending_db"
    unfolding pending_db_def by (rule db_ok_update_columns [OF _ coffee_db_ok]) (simp add: indexed_def)
  then show ?thesis
    by (simp add: store_ok_def pending_db_def coffee_db_def tea_db_def empty_db_def links_ok_def events_ok_def)
qed

lemma claims_never_overlap_witness:
  "\<exists>rows d1 rows' d3. ClaimRepairs RepairPending unix_epoch Minute 5 pending_db = Inr (rows, d1)
    \<and> ''m1'' \<in> set (map rID rows)
    \<and> ClaimRepairs RepairPending unix_epoch Minute 5 (ParkRepair ''a'' ''m2'' ''down'' unix_epoch d1) = Inr (rows', d3)
    \<and> ''m1'' \<notin> set (map rID rows')"
proof -
  obtain rows d1 where 1: "ClaimRepairs RepairPending unix_epoch Minute 5 pending_db = Inr (rows, d1)"
    by (simp add: ClaimRepairs_def ValidRepairState_def Let_def)
  have m: "memories pending_db = [(insert_row 1 tea)\<lparr> c_embed_state := RepairPending, c_embed_next_run_at := Some 0 \<rparr>,
      insert_row 2 coffee]"
    by (simp add: pending_db_def update_where_def)
  have "claim_selection RepairPending unix_epoch 5 pending_db
      = [(insert_row 1 tea)\<lparr> c_embed_state := RepairPending, c_embed_next_run_at := Some 0 \<rparr>]"
    by (simp add: claim_selection_def m claimable_def null_or_def SliceStable_def limit_rows_def UnixMilli_def)
  then have i: "''m1'' \<in> set (map rID rows)" using ClaimRepairs_rows_ids [OF 1] by (simp add: claimed_ids_def)
  let ?d2 = "ParkRepair ''a'' ''m2'' ''down'' unix_epoch d1"
  obtain rows' d3 where 2: "ClaimRepairs RepairPending unix_epoch Minute 5 ?d2 = Inr (rows', d3)"
    by (simp add: ClaimRepairs_def ValidRepairState_def Let_def)
  have "(lease_step (ms (unix_epoch + Minute)) ''m1'')\<^sup>*\<^sup>* d1 ?d2"
    by (rule r_into_rtranclp, rule lease_step.park) simp
  with claims_never_overlap [OF pending_db_ok 1 i _ 2] 1 2 i show ?thesis by (auto simp: UnixMilli_def)
qed

text \<open>
  From a sound database no sequence of queue operations leaves the closed set of repair
  states, charges attempts to a healthy memory, or breaks the tables.
\<close>

theorem repair_queue_sound:
  assumes "repair_reachable d0 d" and "db_ok d0" and "queue_ok d0"
  shows "db_ok d \<and> queue_ok d"
  by (rule repair_reachable_ok [OF assms])

lemma repair_queue_sound_witness:
  "queue_ok (ParkRepair ''a'' ''m1'' ''down'' unix_epoch coffee_db)"
proof -
  have "queue_ok coffee_db" by (simp add: queue_ok_def ValidRepairState_def) (simp add: insert_row_def)
  moreover have "repair_reachable coffee_db (ParkRepair ''a'' ''m1'' ''down'' unix_epoch coffee_db)"
    by (rule repair_reachable.step [OF repair_reachable.start repair_step.park])
  ultimately show ?thesis using repair_queue_sound coffee_db_ok by blast
qed

text \<open>
  A worker that finishes after the content it embedded has been rewritten changes
  nothing: no vector, no state, and it is told so.
\<close>

theorem stale_embedding_refused:
  assumes "SetEmbeddingIfUnchanged ns i fp v next d = Inr (b, d')"
    and "\<forall>r \<in> set (memories d). row_at ns i r \<longrightarrow> c_fingerprint r \<noteq> fp"
  shows "\<not> b \<and> d' = d"
  by (rule SetEmbedding_stale [OF assms])

lemma stale_embedding_refused_witness:
  "SetEmbeddingIfUnchanged ''a'' ''m1'' ''old'' [1, 0] RepairNone
     (coffee_db\<lparr> memories := [(insert_row 1 tea)\<lparr> c_fingerprint := ''new'' \<rparr>] \<rparr>)
   = Inr (False, coffee_db\<lparr> memories := [(insert_row 1 tea)\<lparr> c_fingerprint := ''new'' \<rparr>] \<rparr>)"
proof -
  let ?d = "coffee_db\<lparr> memories := [(insert_row 1 tea)\<lparr> c_fingerprint := ''new'' \<rparr>] \<rparr>"
  have "\<not> isl (SetEmbeddingIfUnchanged ''a'' ''m1'' ''old'' [1, 0] RepairNone ?d)"
    by (simp add: SetEmbeddingIfUnchanged_def ValidRepairState_def row_at_def coffee_db_def tea_db_def empty_db_def)
  then obtain b d' where r: "SetEmbeddingIfUnchanged ''a'' ''m1'' ''old'' [1, 0] RepairNone ?d = Inr (b, d')"
    by (metis isl_def old.prod.exhaust sumE)
  with stale_embedding_refused [OF r] show ?thesis by simp
qed

end
