(* ===== verification/Log_Properties.thy ===== *)
theory Log_Properties
  imports Store_Properties
begin

text \<open>Properties of the small tables (links, keys, pins) and of the activity log.\<close>

section \<open>Links, keys and pins\<close>

text \<open>
  Renaming a namespace leaves no link from or to the old name, keeps every link that did
  not touch it as it was, and keeps the links unique.
\<close>

theorem rename_links_complete:
  assumes "a \<noteq> b"
  shows "(\<forall>l \<in> set (namespace_links (RenameLinkEndpoints a b d)). Src l \<noteq> a \<and> Dst l \<noteq> a)
    \<and> (\<forall>l \<in> set (namespace_links d). Src l \<noteq> a \<and> Dst l \<noteq> a \<longrightarrow>
          l \<in> set (namespace_links (RenameLinkEndpoints a b d)))
    \<and> (links_ok d \<longrightarrow> links_ok (RenameLinkEndpoints a b d))"
  using RenameLinkEndpoints_no_from [OF assms] RenameLinkEndpoints_keeps RenameLinkEndpoints_ok by blast

definition sample_link :: "string \<Rightarrow> string \<Rightarrow> NamespaceLink" where
  "sample_link s t = \<lparr> Src = s, Dst = t, lTiers = [], lNote = '''', lCreatedAt = unix_epoch \<rparr>"

definition linked_db :: db where
  "linked_db = (empty_db 2)\<lparr> namespace_links :=
     [sample_link ''x'' ''y'', sample_link ''u'' ''x'', sample_link ''u'' ''v''] \<rparr>"

lemma rename_links_complete_witness:
  "sample_link ''u'' ''v'' \<in> set (namespace_links (RenameLinkEndpoints ''x'' ''z'' linked_db))
   \<and> ''x'' \<notin> Src ` set (namespace_links (RenameLinkEndpoints ''x'' ''z'' linked_db))
   \<and> ''x'' \<notin> Dst ` set (namespace_links (RenameLinkEndpoints ''x'' ''z'' linked_db))"
  using rename_links_complete [of "''x''" "''z''" linked_db] by (auto simp: linked_db_def sample_link_def)

text \<open>
  Rewriting a pin never rewrites its history: whatever entries are put, an existing key
  keeps who created it and when.
\<close>

theorem pin_provenance_kept:
  assumes "lookup pKey (pins d) k = Some x"
  shows "\<exists>y. lookup pKey (pins (PutPins now entries d)) k = Some y
    \<and> pCreatedAt y = pCreatedAt x \<and> CreatedBy y = CreatedBy x"
  using fold_put_pin_provenance [OF assms, of now entries] by (auto simp: PutPins_def)

definition sample_pin :: "string \<Rightarrow> string \<Rightarrow> Pin" where
  "sample_pin k by = \<lparr> pKey = k, pNamespace = ''a'', pNote = '''', CreatedBy = by, pCreatedAt = unix_epoch,
     pUpdatedAt = unix_epoch \<rparr>"

lemma pin_provenance_kept_witness:
  "\<exists>y. lookup pKey (pins (PutPins 9 [sample_pin ''repo'' ''eve'']
      ((empty_db 2)\<lparr> pins := [sample_pin ''repo'' ''ann''] \<rparr>))) ''repo'' = Some y \<and> CreatedBy y = ''ann''"
proof -
  have "lookup pKey (pins ((empty_db 2)\<lparr> pins := [sample_pin ''repo'' ''ann''] \<rparr>)) ''repo'' = Some (sample_pin ''repo'' ''ann'')"
    by (simp add: lookup_def sample_pin_def)
  from pin_provenance_kept [OF this, of 9 "[sample_pin ''repo'' ''eve'']"] show ?thesis
    by (auto simp: sample_pin_def)
qed

text \<open>
  Writing an API key replaces the key of that name and no other; a rotation that gives no
  creation time keeps the old one, and a hash that another key holds is refused.
\<close>

theorem api_key_write:
  fixes wall :: Time and k :: APIKey and d :: db
  shows "case PutAPIKey wall k d of
      Inl e \<Rightarrow> (\<exists>x \<in> set (api_keys d). Hash x = Hash k \<and> Name x \<noteq> Name k)
    | Inr d' \<Rightarrow> lookup Name (api_keys d') (Name k) =
          Some (k\<lparr> kCreatedAt := (if \<not> IsZero (kCreatedAt k) then kCreatedAt k
                  else case lookup Name (api_keys d) (Name k) of None \<Rightarrow> wall | Some x \<Rightarrow> kCreatedAt x) \<rparr>)
        \<and> (\<forall>n. n \<noteq> Name k \<longrightarrow> lookup Name (api_keys d') n = lookup Name (api_keys d) n)"
proof (cases "PutAPIKey wall k d")
  case (Inl e)
  then show ?thesis by (auto simp: PutAPIKey_def list_ex_iff Let_def split: if_splits)
next
  case (Inr d')
  then show ?thesis using PutAPIKey_lookup [OF Inr] by simp
qed

definition sample_key :: "string \<Rightarrow> string \<Rightarrow> APIKey" where
  "sample_key n h = \<lparr> Name = n, Hash = h, HomeNS = '''', DefaultNS = '''', kCreatedAt = 0, Disabled = False,
     Admin = False, ReadOnly = False, Settings = no_settings \<rparr>"

lemma api_key_write_witness:
  "case PutAPIKey 7 (sample_key ''ci'' ''h2'') ((empty_db 2)\<lparr> api_keys := [(sample_key ''ci'' ''h1'')\<lparr> kCreatedAt := 5 \<rparr>] \<rparr>) of
     Inl e \<Rightarrow> False
   | Inr d' \<Rightarrow> map_option kCreatedAt (lookup Name (api_keys d') ''ci'') = Some 5"
  using api_key_write [where wall = 7 and k = "sample_key ''ci'' ''h2''" and d = "(empty_db 2)\<lparr> api_keys := [(sample_key ''ci'' ''h1'')\<lparr> kCreatedAt := 5 \<rparr>] \<rparr>"]
  by (auto simp: sample_key_def lookup_def IsZero_def split: sum.splits)

section \<open>The activity log\<close>

text \<open>
  C4: Paging through the log neither repeats nor skips a row. The first page of \<open>n\<close> (\<open>0 < n\<close>) is
  the first \<open>n\<close> rows of the unpaged answer, and the page of limit \<open>k\<close> after its last row is the
  next \<open>k\<close> rows of that answer (all of them when \<open>k\<close> is not positive), even when events are logged
  between the two reads. Conditions: the ids of the log are distinct, the answer is not empty, the
  last row's time is not the zero time (which would switch the cursor off), and the events logged
  in between are not older than that row and belong to operations the log does not hold yet.
\<close>

theorem event_pages_exact:
  assumes "events_ok d" and "0 < n" and "ListEvents (first_page f 0) d \<noteq> []"
    and "e = last (ListEvents (first_page f (int n)) d)" and "\<not> IsZero (eCreatedAt e)"
    and "\<forall>x \<in> set es. eCreatedAt e \<le> eCreatedAt x"
    and "\<forall>x \<in> set es. OpID x \<notin> set (map OpID (memory_events d))"
  shows "ListEvents (first_page f (int n)) d = take n (ListEvents (first_page f 0) d)
    \<and> ListEvents (page_after f e k) (AppendEvents es d)
      = (if 0 < k then take (nat k) (drop n (ListEvents (first_page f 0) d)) else drop n (ListEvents (first_page f 0) d))"
proof
  let ?L = "ListEvents (first_page f 0) d"
  let ?m = "min n (length ?L)"
  show p: "ListEvents (first_page f (int n)) d = take n ?L" using first_page_take [of "int n"] assms(2) by simp
  have m: "0 < ?m" using assms(2,3) by simp
  then obtain m where m': "?m = Suc m" by (cases ?m) auto
  have "take n ?L = take ?m ?L" by (simp add: min_def)
  then have e: "e = ?L ! (?m - 1)" using assms(4) p m' by (simp add: take_Suc_conv_app_nth)
  have l: "?m - 1 < length ?L" using m by linarith
  then have "e \<in> set ?L" using e by simp
  then have mem: "e \<in> set (memory_events d)" using in_ListEvents by blast
  have "ListEvents (page_after f e k) d = limit_rows (if k > 0 then k else -1) (drop (Suc (?m - 1)) ?L)"
    using page_after_drop [of d "?m - 1" f e k] assms(1,5) e l by (simp add: events_ok_def)
  moreover have "drop (Suc (?m - 1)) ?L = drop n ?L" using m by (simp add: min_def)
  ultimately show "ListEvents (page_after f e k) (AppendEvents es d)
      = (if 0 < k then take (nat k) (drop n ?L) else drop n ?L)"
    unfolding page_after_append [OF mem assms(5-7)] by (simp add: limit_rows_def)
qed

definition sample_event :: "string \<Rightarrow> string \<Rightarrow> Time \<Rightarrow> Event" where
  "sample_event op tier t = \<lparr> eID = 0, OpID = op, Kind = EventRecall, eNamespace = ''a'', Query = ''tea'',
     MemoryID = ''m1'', MemoryNS = ''a'', MemoryTier = tier, MemorySummary = ''green'', Rank = 1, eScore = None,
     Detail = Map.empty, Actor = '''', ActorKind = ''none'', eCreatedAt = t \<rparr>"

definition no_event_filter :: EventFilter where
  "no_event_filter = \<lparr> efNamespace = '''', efNamespaces = [], efKinds = [], efActor = '''', efTiers = [],
     efText = '''', Since = 0, BeforeT = 0, BeforeID = 0, Limit = 0 \<rparr>"

definition log_db :: db where
  "log_db = AppendEvents [sample_event ''op1'' TierSemantic (fromMs 5), sample_event ''op1'' TierWorking (fromMs 5)]
     (empty_db 2)"

lemma log_rows: "memory_events log_db =
    [(sample_event ''op1'' TierSemantic (fromMs 5))\<lparr> eID := 1 \<rparr>, (sample_event ''op1'' TierWorking (fromMs 5))\<lparr> eID := 2 \<rparr>]"
  by (simp add: log_db_def AppendEvents_def append_event_def next_rowid_def empty_db_def sample_event_def)

lemma log_db_ok: "events_ok log_db"
  by (simp add: events_ok_def log_rows)

lemma log_list:
  "ListEvents (first_page no_event_filter 0) log_db =
    [(sample_event ''op1'' TierWorking (fromMs 5))\<lparr> eID := 2 \<rparr>, (sample_event ''op1'' TierSemantic (fromMs 5))\<lparr> eID := 1 \<rparr>]"
  "ListEvents (first_page no_event_filter 1) log_db = [(sample_event ''op1'' TierWorking (fromMs 5))\<lparr> eID := 2 \<rparr>]"
proof -
  show l: "ListEvents (first_page no_event_filter 0) log_db =
    [(sample_event ''op1'' TierWorking (fromMs 5))\<lparr> eID := 2 \<rparr>, (sample_event ''op1'' TierSemantic (fromMs 5))\<lparr> eID := 1 \<rparr>]"
    by (simp add: ListEvents_def log_rows limit_rows_def)
      (simp add: row_match_def op_match_def no_event_filter_def IsZero_def SliceStable_def newer_def sample_event_def)
  show "ListEvents (first_page no_event_filter 1) log_db = [(sample_event ''op1'' TierWorking (fromMs 5))\<lparr> eID := 2 \<rparr>]"
    by (simp add: first_page_take l)
qed

lemma fromMs_nonzero: "0 \<le> n \<Longrightarrow> \<not> IsZero (fromMs n)"
  by (simp add: IsZero_def of_UnixMilli_def unix_epoch_def)

lemma event_pages_exact_witness:
  "ListEvents (page_after no_event_filter (last (ListEvents (first_page no_event_filter (int 1)) log_db)) 1)
     (AppendEvents [sample_event ''op2'' TierSemantic (fromMs 9)] log_db)
   = [(sample_event ''op1'' TierSemantic (fromMs 5))\<lparr> eID := 1 \<rparr>]"
proof -
  have "ListEvents (page_after no_event_filter (last (ListEvents (first_page no_event_filter (int 1)) log_db)) 1)
      (AppendEvents [sample_event ''op2'' TierSemantic (fromMs 9)] log_db)
    = (if 0 < (1 :: int) then take (nat 1) (drop 1 (ListEvents (first_page no_event_filter 0) log_db))
       else drop 1 (ListEvents (first_page no_event_filter 0) log_db))"
    by (rule conjunct2 [OF event_pages_exact [OF log_db_ok]])
      (simp_all add: log_list log_rows sample_event_def fromMs_nonzero)
  then show ?thesis by (simp add: log_list)
qed

text \<open>
  The tier and text filters select operations: when one row of an operation is in the
  feed, so are all its rows that the other conditions admit.
\<close>

theorem operation_listed_whole:
  assumes "e \<in> set (ListEvents (first_page f 0) d)"
    and "x \<in> set (memory_events d)" and "OpID x = OpID e" and "row_match f x"
  shows "x \<in> set (ListEvents (first_page f 0) d)"
  by (rule whole_operation [OF assms])

lemma operation_listed_whole_witness:
  "hd (memory_events log_db) \<in> set (ListEvents (first_page (no_event_filter\<lparr> efTiers := [TierWorking] \<rparr>) 0) log_db)"
proof (rule operation_listed_whole)
  show "memory_events log_db ! 1 \<in> set (ListEvents (first_page (no_event_filter\<lparr> efTiers := [TierWorking] \<rparr>) 0) log_db)"
    by (simp add: ListEvents_unlimited log_rows)
      (simp add: row_match_def op_match_def no_event_filter_def IsZero_def sample_event_def)
qed (simp_all add: log_rows, simp_all add: row_match_def no_event_filter_def IsZero_def sample_event_def)

text \<open>
  Pruning to a cap keeps exactly the newest rows: as many as the cap allows, none of
  them older than a row that went, and the count it returns is the number of rows gone.
\<close>

theorem prune_keeps_newest:
  assumes "events_ok d" and "0 < k" and "PruneEvents 0 k d = (n, d')"
  shows "length (memory_events d') = min (nat k) (length (memory_events d))
    \<and> n + length (memory_events d') = length (memory_events d)
    \<and> set (memory_events d') \<subseteq> set (memory_events d)
    \<and> (\<forall>x \<in> set (memory_events d'). \<forall>y \<in> set (memory_events d). y \<notin> set (memory_events d') \<longrightarrow> newer x y)"
proof -
  have ids: "distinct (map eID (memory_events d))" using assms(1) by (simp add: events_ok_def)
  have m: "memory_events d' = snd (prune_by_cap k (memory_events d))"
    using assms(3) by (auto simp: PruneEvents_def prune_by_age_def IsZero_def split: prod.splits)
  have "set (memory_events d') \<subseteq> set (memory_events d)"
    unfolding m using prune_by_cap_set [OF ids assms(2)] order_by_split [of "nat k" "memory_events d"] by blast
  then show ?thesis
    using prune_by_cap_length [OF ids assms(2)] PruneEvents_count [OF assms(3)]
      prune_by_cap_newest [OF ids assms(2)] unfolding m by blast
qed

lemma prune_keeps_newest_witness:
  "length (memory_events (snd (PruneEvents 0 1 log_db))) = 1 \<and> fst (PruneEvents 0 1 log_db) = 1"
  using prune_keeps_newest [OF log_db_ok, of 1 "fst (PruneEvents 0 1 log_db)" "snd (PruneEvents 0 1 log_db)"]
  by (simp add: log_rows)

end
