(* ===== verification/Search.thy ===== *)
theory Search
  imports Store_Types "HOL-Library.Sublist"
begin

text \<open>
  \<open>internal/search\<close>: reciprocal rank fusion (\<open>rrf.go\<close>), score fusion (\<open>fusion.go\<close>), the
  composite re-rank and the content dedup (\<open>rank.go\<close>). Go's \<open>float64\<close> is \<open>real\<close>. The
  lemmas give the fused score of every memory as a sum over the hits, the order of the
  results, and how far a re-rank can move a memory.
\<close>

section \<open>Aggregating hits\<close>

text \<open>
  The map \<open>byID\<close> with the slice \<open>order\<close>: the hits in the order their ids were first
  seen, each with the score summed so far.
\<close>

type_synonym agg = "(Scored \<times> real) list"

abbreviation hit_id :: "Scored \<Rightarrow> string" where
  "hit_id sc \<equiv> ID (sMemory sc)"

definition backfill :: "Scored \<Rightarrow> Scored \<Rightarrow> Scored" where
  "backfill sc kept =
     (if MatchedChunk kept = '''' \<and> MatchedChunk sc \<noteq> ''''
      then kept\<lparr> MatchedChunk := MatchedChunk sc \<rparr> else kept)"

fun see_hit :: "Scored \<times> real \<Rightarrow> agg \<Rightarrow> agg" where
  "see_hit (sc, c) [] = [(sc, c)]"
| "see_hit (sc, c) ((kept, s) # r) =
     (if hit_id kept = hit_id sc then (backfill sc kept, s + c) # r
      else (kept, s) # see_hit (sc, c) r)"

definition best_first :: "nat \<times> Scored \<Rightarrow> nat \<times> Scored \<Rightarrow> bool" where
  "best_first a b \<longleftrightarrow>
     (if Score (snd a) \<noteq> Score (snd b) then Score (snd a) > Score (snd b) else fst a < fst b)"

text \<open>The end of both fusions: the aggregated scores, sorted, ties as first seen, cut to \<open>k\<close>.\<close>

definition finish :: "agg \<Rightarrow> int \<Rightarrow> Scored list" where
  "finish a k =
     (let fused = map (\<lambda>(m, s). WithScore m s) a;
          sorted = map snd (SliceStable best_first (List.enumerate 0 fused))
      in if 0 < k \<and> k < int (length sorted) then take (nat k) sorted else sorted)"

section \<open>Reciprocal rank fusion\<close>

definition DefaultRRFK :: real where "DefaultRRFK = 5"

definition rrf_hits :: "real \<Rightarrow> Scored list \<Rightarrow> (Scored \<times> real) list" where
  "rrf_hits rrfK l = map (\<lambda>(rank, sc). (sc, 1 / (rrfK + real rank))) (List.enumerate 0 l)"

definition Fuse :: "Scored list list \<Rightarrow> int \<Rightarrow> real \<Rightarrow> Scored list" where
  "Fuse legs k rrfK =
     (let rrfK = (if rrfK \<le> 0 then DefaultRRFK else rrfK)
      in finish (fold (\<lambda>l a. fold see_hit (rrf_hits rrfK l) a) legs []) k)"

section \<open>Score fusion\<close>

definition DefaultFusionAlpha :: real where "DefaultFusionAlpha = 0.5"

definition scoreRange :: "Scored list \<Rightarrow> real \<times> real" where
  "scoreRange l =
     (case l of [] \<Rightarrow> (0, 0)
      | x # xs \<Rightarrow> fold (\<lambda>sc (lo, hi). (if Score sc < lo then Score sc else lo,
                                       if Score sc > hi then Score sc else hi)) xs (Score x, Score x))"

definition norm_hits :: "real \<Rightarrow> Scored list \<Rightarrow> (Scored \<times> real) list" where
  "norm_hits w l =
     (let (lo, hi) = scoreRange l; span = hi - lo
      in map (\<lambda>sc. (sc, w * (if span > 0 then (Score sc - lo) / span else 1))) l)"

definition FuseScores :: "Scored list list \<Rightarrow> real list \<Rightarrow> int \<Rightarrow> Scored list" where
  "FuseScores legs weights k =
     finish (fold (\<lambda>(li, l) a. fold see_hit (norm_hits (if li < length weights then weights ! li else 1) l) a)
               (List.enumerate 0 legs) []) k"

section \<open>The composite re-rank\<close>

record RerankWeights =
  wRelevance :: real
  wRecency :: real
  wImportance :: real
  wQuality :: real

definition DefaultRerankWeights :: RerankWeights where
  "DefaultRerankWeights = \<lparr> wRelevance = 0.8, wRecency = 0, wImportance = 0, wQuality = 0.2 \<rparr>"

definition max_of :: "('a \<Rightarrow> real) \<Rightarrow> 'a list \<Rightarrow> real" where
  "max_of f xs = fold (\<lambda>x m. if f x > m then f x else m) xs 0"

definition composite :: "tuning \<Rightarrow> RerankWeights \<Rightarrow> Time \<Rightarrow> real \<Rightarrow> real \<Rightarrow> Scored \<Rightarrow> real" where
  "composite cfg w now maxRel maxQuality r =
     (let relevance = (if maxRel > 0 then Score r / maxRel else 0);
          recency = Recency (sMemory r) now;
          importance = EffectiveImportance (sMemory r);
          quality = (if maxQuality > 0 then Quality cfg (sMemory r) now / maxQuality else 0)
      in relevance * (wRelevance w + wQuality w * quality) + wRecency w * recency + wImportance w * importance)"

definition RerankWith :: "tuning \<Rightarrow> Scored list \<Rightarrow> Time \<Rightarrow> RerankWeights \<Rightarrow> Scored list" where
  "RerankWith cfg results now w =
     (if results = [] then results
      else
        (let maxRel = max_of Score results;
             maxQuality = max_of (\<lambda>r. Quality cfg (sMemory r) now) results;
             out = map (\<lambda>r. WithScore r (composite cfg w now maxRel maxQuality r)) results
         in map snd (SliceStable best_first (List.enumerate 0 out))))"

definition Rerank :: "tuning \<Rightarrow> Scored list \<Rightarrow> Time \<Rightarrow> Scored list" where
  "Rerank cfg results now = RerankWith cfg results now DefaultRerankWeights"

section \<open>Dedup\<close>

fun dedup_loop :: "string set \<Rightarrow> nat \<Rightarrow> Scored list \<Rightarrow> int \<Rightarrow> Scored list" where
  "dedup_loop seen n [] limit = []"
| "dedup_loop seen n (r # rs) limit =
     (let key = NormalizeContent (Content (sMemory r))
      in if key \<in> seen then dedup_loop seen n rs limit
         else if 0 < limit \<and> limit \<le> int (n + 1) then [r]
         else r # dedup_loop (insert key seen) (n + 1) rs limit)"

definition Dedup :: "Scored list \<Rightarrow> int \<Rightarrow> Scored list" where
  "Dedup results limit = dedup_loop {} 0 results limit"

section \<open>The order of the results\<close>

interpretation best_first: strict_weak_order best_first
  by unfold_locales (auto simp: best_first_def split: if_splits)

abbreviation higher :: "Scored \<Rightarrow> Scored \<Rightarrow> bool" where
  "higher a b \<equiv> Score b < Score a"

interpretation higher: strict_weak_order higher
  by unfold_locales auto

text \<open>Sorting with the position as the last key is the stable sort on the score alone.\<close>

lemma insert_best_first:
  "\<forall>p \<in> set ps. i < fst p \<Longrightarrow>
   map snd (insert_stable best_first (i, x) ps) = insert_stable higher x (map snd ps)"
  by (induction ps) (auto simp: best_first_def)

lemma sort_enumerate:
  "map snd (SliceStable best_first (List.enumerate n xs)) = SliceStable higher xs"
proof (induction xs arbitrary: n)
  case (Cons x xs)
  have "\<forall>p \<in> set (SliceStable best_first (List.enumerate (Suc n) xs)). n < fst p"
    by (auto simp: in_set_enumerate_eq)
  then show ?case using Cons [of "Suc n"] by (simp add: SliceStable_Cons insert_best_first)
qed simp

lemma finish_eq:
  "finish a k = (let s = SliceStable higher (map (\<lambda>(m, s). WithScore m s) a)
                 in if 0 < k \<and> k < int (length s) then take (nat k) s else s)"
  by (simp add: finish_def sort_enumerate Let_def)

lemma RerankWith_eq:
  "RerankWith cfg results now w =
     SliceStable higher (map (\<lambda>r. WithScore r (composite cfg w now (max_of Score results)
        (max_of (\<lambda>r. Quality cfg (sMemory r) now) results) r)) results)"
  by (simp add: RerankWith_def sort_enumerate Let_def)

lemma sorted_higher: "sorted_wrt (\<lambda>a b. Score b \<le> Score a) (SliceStable higher xs)"
  using higher.sorted_SliceStable [of xs] by (simp add: not_less)

lemma finish_sorted: "sorted_wrt (\<lambda>a b. Score b \<le> Score a) (finish a k)"
  by (simp add: finish_eq Let_def sorted_higher sorted_wrt_take)

lemma finish_length: "0 < k \<Longrightarrow> length (finish a k) \<le> nat k"
  by (auto simp: finish_eq Let_def)

lemma finish_all: "k \<le> 0 \<Longrightarrow> set (finish a k) = (\<lambda>(m, s). WithScore m s) ` set a"
  by (simp add: finish_eq Let_def)

lemma finish_set: "set (finish a k) \<subseteq> (\<lambda>(m, s). WithScore m s) ` set a"
  by (auto simp: finish_eq Let_def dest: in_set_takeD)

text \<open>The cut keeps the best: what it drops scores no higher than what it keeps.\<close>

lemma finish_top:
  assumes "x \<in> set (finish a k)" and "y \<in> set (finish a 0)" and "y \<notin> set (finish a k)"
  shows "Score y \<le> Score x"
proof (cases "0 < k \<and> k < int (length a)")
  case True
  let ?s = "SliceStable higher (map (\<lambda>(m, s). WithScore m s) a)"
  have f: "finish a k = take (nat k) ?s" "finish a 0 = ?s"
    using True by (auto simp: finish_eq Let_def)
  have "x \<in> set (take (nat k) ?s)" and "y \<in> set (drop (nat k) ?s)"
    using assms f by (metis, metis Un_iff append_take_drop_id set_append)
  moreover have "sorted_wrt (\<lambda>a b. Score b \<le> Score a) (take (nat k) ?s @ drop (nat k) ?s)"
    using sorted_higher by simp
  ultimately show ?thesis by (auto simp only: sorted_wrt_append)
next
  case False
  then have "finish a k = finish a 0" by (auto simp: finish_eq Let_def)
  then show ?thesis using assms by simp
qed

section \<open>The aggregated scores\<close>

definition agg_ids :: "agg \<Rightarrow> string list" where
  "agg_ids a = map (\<lambda>(m, s). hit_id m) a"

definition total_for :: "string \<Rightarrow> (Scored \<times> real) list \<Rightarrow> real" where
  "total_for i hits = sum_list (map snd (filter (\<lambda>(sc, c). hit_id sc = i) hits))"

lemma hit_id_backfill [simp]: "sMemory (backfill sc kept) = sMemory kept"
  by (simp add: backfill_def)

lemma agg_ids_see_hit:
  "agg_ids (see_hit (sc, c) a) = (if hit_id sc \<in> set (agg_ids a) then agg_ids a else agg_ids a @ [hit_id sc])"
  by (induction "(sc, c)" a rule: see_hit.induct) (auto simp: agg_ids_def)

lemma agg_ids_fold_distinct: "distinct (agg_ids a) \<Longrightarrow> distinct (agg_ids (fold see_hit hits a))"
  by (induction hits arbitrary: a) (auto simp: agg_ids_see_hit)

lemma agg_ids_fold_set:
  "set (agg_ids (fold see_hit hits a)) = set (agg_ids a) \<union> (hit_id \<circ> fst) ` set hits"
  by (induction hits arbitrary: a) (auto simp: agg_ids_see_hit split: if_splits)

lemma total_for_Cons:
  "total_for i ((sc, c) # hits) = (if hit_id sc = i then c else 0) + total_for i hits"
  by (simp add: total_for_def)

lemma total_for_append: "total_for i (xs @ ys) = total_for i xs + total_for i ys"
  by (simp add: total_for_def)

lemma total_for_see_hit: "total_for i (see_hit h a) = total_for i [h] + total_for i a"
  by (induction h a rule: see_hit.induct) (auto simp: total_for_def)

lemma total_for_fold: "total_for i (fold see_hit hits a) = total_for i hits + total_for i a"
proof (induction hits arbitrary: a)
  case (Cons h hits)
  then show ?case using total_for_append [of i "[h]" hits] by (simp add: total_for_see_hit)
qed (simp add: total_for_def)

lemma total_for_absent: "i \<notin> set (agg_ids a) \<Longrightarrow> total_for i a = 0"
  by (induction a) (auto simp: total_for_def agg_ids_def)

lemma total_for_member:
  "distinct (agg_ids a) \<Longrightarrow> (m, s) \<in> set a \<Longrightarrow> s = total_for (hit_id m) a"
proof (induction a)
  case (Cons p a)
  obtain m' s' where p: "p = (m', s')" by fastforce
  show ?case
  proof (cases "hit_id m' = hit_id m")
    case True
    then have "hit_id m \<notin> set (agg_ids a)" using Cons.prems p by (simp add: agg_ids_def)
    moreover from this have "(m, s) \<notin> set a" by (force simp: agg_ids_def)
    ultimately show ?thesis using Cons.prems p True by (simp add: total_for_Cons total_for_absent)
  next
    case False
    then have "(m, s) \<in> set a" using Cons.prems(2) p by auto
    then show ?thesis using Cons p False by (simp add: total_for_Cons agg_ids_def)
  qed
qed simp

lemma fold_concat_map: "fold (\<lambda>l a. fold f (g l) a) ls a = fold f (concat (map g ls)) a"
  by (induction ls arbitrary: a) simp_all

text \<open>What both fusions do with a list of hits.\<close>

definition fuse_hits :: "(Scored \<times> real) list \<Rightarrow> int \<Rightarrow> Scored list" where
  "fuse_hits hits k = finish (fold see_hit hits []) k"

lemma Fuse_hits:
  "Fuse legs k rrfK =
     fuse_hits (concat (map (rrf_hits (if rrfK \<le> 0 then DefaultRRFK else rrfK)) legs)) k"
  by (simp add: Fuse_def fuse_hits_def fold_concat_map)

definition weight_of :: "real list \<Rightarrow> nat \<Rightarrow> real" where
  "weight_of weights li = (if li < length weights then weights ! li else 1)"

lemma FuseScores_hits:
  "FuseScores legs weights k =
     fuse_hits (concat (map (\<lambda>(li, l). norm_hits (weight_of weights li) l) (List.enumerate 0 legs))) k"
  by (simp add: FuseScores_def fuse_hits_def weight_of_def case_prod_unfold fold_concat_map)

lemma fuse_hits_ids:
  "distinct (map hit_id (fuse_hits hits k))"
  "hit_id ` set (fuse_hits hits k) \<subseteq> (hit_id \<circ> fst) ` set hits"
  "k \<le> 0 \<Longrightarrow> hit_id ` set (fuse_hits hits k) = (hit_id \<circ> fst) ` set hits"
proof -
  let ?a = "fold see_hit hits []"
  have ids: "map hit_id (map (\<lambda>(m, s). WithScore m s) ?a) = agg_ids ?a" for a
    by (auto simp: agg_ids_def)
  have d: "distinct (agg_ids ?a)" by (rule agg_ids_fold_distinct) (simp add: agg_ids_def)
  have s: "set (agg_ids ?a) = (hit_id \<circ> fst) ` set hits"
    by (simp add: agg_ids_fold_set) (simp add: agg_ids_def)
  have "distinct (map hit_id (SliceStable higher (map (\<lambda>(m, s). WithScore m s) ?a)))"
    using d unfolding ids [symmetric] by (metis distinct_map distinct_SliceStable set_SliceStable)
  then show "distinct (map hit_id (fuse_hits hits k))"
    by (auto simp: fuse_hits_def finish_eq Let_def take_map distinct_take simp flip: take_map)
  show "hit_id ` set (fuse_hits hits k) \<subseteq> (hit_id \<circ> fst) ` set hits"
    using image_mono [OF finish_set [of ?a k], of hit_id] s
    unfolding ids [symmetric] fuse_hits_def list.set_map by blast
  show "k \<le> 0 \<Longrightarrow> hit_id ` set (fuse_hits hits k) = (hit_id \<circ> fst) ` set hits"
    using s unfolding ids [symmetric] by (simp add: fuse_hits_def finish_all image_image)
qed

lemma fuse_hits_score:
  assumes "x \<in> set (fuse_hits hits k)"
  shows "Score x = total_for (hit_id x) hits"
proof -
  obtain m s where ms: "(m, s) \<in> set (fold see_hit hits [])" "x = WithScore m s"
    using assms finish_set unfolding fuse_hits_def by fastforce
  have "distinct (agg_ids (fold see_hit hits []))"
    by (rule agg_ids_fold_distinct) (simp add: agg_ids_def)
  then have "s = total_for (hit_id m) (fold see_hit hits [])" using ms(1) by (rule total_for_member)
  then show ?thesis using ms(2) by (simp add: total_for_fold) (simp add: total_for_def)
qed

section \<open>Bounds of the fused scores\<close>

text \<open>A list that names a memory once gives it one contribution.\<close>

lemma total_for_distinct:
  "distinct (map (hit_id \<circ> fst) hits) \<Longrightarrow>
   total_for i hits = 0 \<or> (\<exists>sc c. (sc, c) \<in> set hits \<and> hit_id sc = i \<and> total_for i hits = c)"
proof (induction hits)
  case (Cons h hits)
  obtain sc c where h: "h = (sc, c)" by fastforce
  have "total_for i hits = 0" if "hit_id sc = i"
    using Cons.prems that h total_for_absent [of i hits] by (force simp: agg_ids_def)
  then show ?case using Cons h by (auto simp: total_for_Cons)
qed (simp add: total_for_def)

lemma scoreRange_bounds:
  "x \<in> set l \<Longrightarrow> fst (scoreRange l) \<le> Score x \<and> Score x \<le> snd (scoreRange l)"
proof -
  let ?g = "\<lambda>sc (lo, hi). (if Score sc < lo then Score sc else lo, if Score sc > hi then Score sc else hi)"
  have g: "fst (fold ?g xs (lo, hi)) \<le> lo \<and> hi \<le> snd (fold ?g xs (lo, hi))
      \<and> (\<forall>x \<in> set xs. fst (fold ?g xs (lo, hi)) \<le> Score x \<and> Score x \<le> snd (fold ?g xs (lo, hi)))" for xs lo hi
  proof (induction xs arbitrary: lo hi)
    case (Cons y ys)
    show ?case
      using Cons [of "if Score y < lo then Score y else lo" "if Score y > hi then Score y else hi"]
      by (auto split: if_splits)
  qed simp
  assume "x \<in> set l"
  then show ?thesis
    using g [of "tl l" "Score (hd l)" "Score (hd l)"] by (cases l) (auto simp: scoreRange_def)
qed

lemma norm_hits_bounds:
  assumes "(sc, c) \<in> set (norm_hits w l)" and "0 \<le> w"
  shows "0 \<le> c \<and> c \<le> w"
proof -
  let ?lo = "fst (scoreRange l)" and ?hi = "snd (scoreRange l)"
  from assms(1) have sc: "sc \<in> set l"
    and c: "c = w * (if ?hi - ?lo > 0 then (Score sc - ?lo) / (?hi - ?lo) else 1)"
    by (auto simp: norm_hits_def Let_def case_prod_unfold)
  have "0 \<le> (Score sc - ?lo) / (?hi - ?lo) \<and> (Score sc - ?lo) / (?hi - ?lo) \<le> 1" if "?hi - ?lo > 0"
    using scoreRange_bounds [OF sc] that by (simp add: divide_simps)
  then show ?thesis using c assms(2) by (auto simp: mult_left_le)
qed

lemma hits_ids [simp]:
  "map (hit_id \<circ> fst) (norm_hits w l) = map hit_id l" "map (hit_id \<circ> fst) (rrf_hits k l) = map hit_id l"
  by (auto simp: norm_hits_def rrf_hits_def case_prod_unfold Let_def comp_def enumerate_eq_zip
      intro!: nth_equalityI)

lemma FuseScores_bounds:
  assumes "\<forall>l \<in> set legs. distinct (map hit_id l)" and "\<forall>li. 0 \<le> weight_of weights li"
    and "x \<in> set (FuseScores legs weights k)"
  shows "0 \<le> Score x \<and> Score x \<le> (\<Sum>li<length legs. weight_of weights li)"
proof -
  let ?h = "\<lambda>(li, l). norm_hits (weight_of weights li) l"
  have sc: "Score x = total_for (hit_id x) (concat (map ?h (List.enumerate 0 legs)))"
    using fuse_hits_score assms(3) by (simp add: FuseScores_hits)
  have one: "0 \<le> total_for i (norm_hits w l) \<and> total_for i (norm_hits w l) \<le> w"
    if "distinct (map hit_id l)" "0 \<le> w" for i w l
    using total_for_distinct [of "norm_hits w l" i] norm_hits_bounds [of _ _ w l] that by auto
  have "0 \<le> total_for i (concat (map ?h (List.enumerate n ls)))
      \<and> total_for i (concat (map ?h (List.enumerate n ls))) \<le> (\<Sum>li<length ls. weight_of weights (n + li))"
    if "\<forall>l \<in> set ls. distinct (map hit_id l)" for i n ls
    using that
  proof (induction ls arbitrary: n)
    case (Cons l ls)
    have "0 \<le> weight_of weights n" using assms(2) by simp
    with one [of l "weight_of weights n" i] Cons.prems
    have a: "0 \<le> total_for i (norm_hits (weight_of weights n) l)
      \<and> total_for i (norm_hits (weight_of weights n) l) \<le> weight_of weights n" by simp
    have "(\<Sum>li<length (l # ls). weight_of weights (n + li))
        = weight_of weights n + (\<Sum>li<length ls. weight_of weights (Suc n + li))"
      by (simp add: sum.lessThan_Suc_shift del: sum.lessThan_Suc)
    then show ?case using Cons.IH [of "Suc n"] Cons.prems a by (simp add: total_for_append)
  qed (simp add: total_for_def)
  from this [of legs "hit_id x" 0] show ?thesis using assms(1) sc by simp
qed

lemma rrf_hits_bounds: "(sc, c) \<in> set (rrf_hits rrfK l) \<Longrightarrow> 0 < rrfK \<Longrightarrow> 0 < c \<and> c \<le> 1 / rrfK"
  by (auto simp: rrf_hits_def in_set_enumerate_eq frac_le)

section \<open>How far a re-rank moves a memory\<close>

lemma max_of_ge: "x \<in> set xs \<Longrightarrow> f x \<le> max_of f xs"
  and max_of_nonneg: "0 \<le> max_of f xs"
proof -
  have g: "m \<le> fold (\<lambda>x m. if f x > m then f x else m) ys m
      \<and> (\<forall>y \<in> set ys. f y \<le> fold (\<lambda>x m. if f x > m then f x else m) ys m)" for ys m
  proof (induction ys arbitrary: m)
    case (Cons y ys)
    show ?case using Cons [of "if f y > m then f y else m"] by (auto split: if_splits)
  qed simp
  show "x \<in> set xs \<Longrightarrow> f x \<le> max_of f xs" using g by (simp add: max_of_def)
  show "0 \<le> max_of f xs" using g by (simp add: max_of_def)
qed

lemma max_of_attained: "max_of f xs = 0 \<or> (\<exists>x \<in> set xs. f x = max_of f xs)"
proof -
  have "fold (\<lambda>x m. if f x > m then f x else m) ys m = m
      \<or> (\<exists>y \<in> set ys. f y = fold (\<lambda>x m. if f x > m then f x else m) ys m)" for ys m
  proof (induction ys arbitrary: m)
    case (Cons y ys)
    show ?case using Cons [of "if f y > m then f y else m"] by (cases "f y > m") auto
  qed simp
  then show ?thesis by (simp add: max_of_def)
qed

lemma RerankWith_perm:
  "image_mset sMemory (mset (RerankWith cfg results now w)) = image_mset sMemory (mset results)"
  by (simp add: RerankWith_eq flip: mset_map) (simp add: comp_def)

lemma RerankWith_sorted: "sorted_wrt (\<lambda>a b. Score b \<le> Score a) (RerankWith cfg results now w)"
  by (simp add: RerankWith_eq sorted_higher)

text \<open>With the production weights the composite lies between 0.8 and 1 times the relevance.\<close>

lemma composite_default:
  fixes cfg :: tuning and now :: Time
  assumes "r \<in> set results" and "0 \<le> Score r" and "0 \<le> AccessCount (sMemory r)"
  defines "c \<equiv> composite cfg DefaultRerankWeights now (max_of Score results)
            (max_of (\<lambda>r. Quality cfg (sMemory r) now) results) r"
    and "rel \<equiv> (if max_of Score results > 0 then Score r / max_of Score results else 0)"
  shows "0.8 * rel \<le> c \<and> c \<le> rel" "0 \<le> rel" "rel \<le> 1"
proof -
  let ?mq = "max_of (\<lambda>r. Quality cfg (sMemory r) now) results"
  obtain q where q_def: "q = (if ?mq > 0 then Quality cfg (sMemory r) now / ?mq else 0)" by simp
  show rel: "0 \<le> rel" "rel \<le> 1"
    using assms(2) max_of_ge [OF assms(1), of Score] by (auto simp: rel_def)
  have q: "0 \<le> q \<and> q \<le> 1"
    using max_of_ge [OF assms(1), of "\<lambda>r. Quality cfg (sMemory r) now"] Quality_nonneg [OF assms(3)]
    by (auto simp: q_def)
  have c: "c = rel * (0.8 + 0.2 * q)"
    by (simp add: q_def c_def rel_def composite_def DefaultRerankWeights_def Let_def)
  have "rel * 0.8 \<le> rel * (0.8 + 0.2 * q)" and "rel * (0.8 + 0.2 * q) \<le> rel * 1"
    using q by (intro mult_left_mono [OF _ rel(1)]; simp)+
  then show "0.8 * rel \<le> c \<and> c \<le> rel" unfolding c by simp
qed

text \<open>So quality never lifts a memory over one that is more than a quarter more relevant.\<close>

lemma sorted_index_less:
  assumes "sorted_wrt (\<lambda>a b. Score b \<le> Score a) xs" and "x \<in> set xs" and "y \<in> set xs" and "Score y < Score x"
  shows "\<exists>i j. i < j \<and> j < length xs \<and> xs ! i = x \<and> xs ! j = y"
proof -
  obtain i j where ij: "i < length xs" "xs ! i = x" "j < length xs" "xs ! j = y"
    using assms(2,3) by (metis in_set_conv_nth)
  have "\<not> j \<le> i"
  proof
    assume "j \<le> i"
    then have "Score (xs ! i) \<le> Score (xs ! j)"
      using assms(1) ij by (cases "i = j") (auto simp: sorted_wrt_iff_nth_less)
    then show False using ij assms(4) by simp
  qed
  then show ?thesis using ij by (intro exI [of _ i] exI [of _ j]) auto
qed

lemma Rerank_gap:
  assumes "a \<in> set results" and "b \<in> set results"
    and "0 \<le> Score b" and "0 \<le> AccessCount (sMemory a)" and "0 \<le> AccessCount (sMemory b)"
    and "Score b < 0.8 * Score a"
  shows "\<exists>i j. i < j \<and> j < length results
    \<and> sMemory (Rerank cfg results now ! i) = sMemory a \<and> sMemory (Rerank cfg results now ! j) = sMemory b"
proof -
  let ?m = "max_of Score results"
  let ?c = "\<lambda>r. composite cfg DefaultRerankWeights now ?m (max_of (\<lambda>r. Quality cfg (sMemory r) now) results) r"
  let ?out = "Rerank cfg results now"
  have pos: "0 < Score a" using assms(3,6) by simp
  then have m: "0 < ?m" using max_of_ge [OF assms(1), of Score] by simp
  have "?c b \<le> Score b / ?m"
    using composite_default(1) [OF assms(2,3,5)] m by simp
  also have "\<dots> < 0.8 * (Score a / ?m)" using assms(6) m by (simp add: divide_simps)
  also have "\<dots> \<le> ?c a"
    using composite_default(1) [OF assms(1) _ assms(4)] pos m by simp
  finally have lt: "?c b < ?c a" .
  have out: "?out = SliceStable higher (map (\<lambda>r. WithScore r (?c r)) results)"
    by (simp add: Rerank_def RerankWith_eq)
  have "\<exists>i j. i < j \<and> j < length ?out \<and> ?out ! i = WithScore a (?c a) \<and> ?out ! j = WithScore b (?c b)"
    by (rule sorted_index_less) (use assms(1,2) lt in \<open>auto simp: out sorted_higher\<close>)
  then obtain i j where "i < j" "j < length ?out" "?out ! i = WithScore a (?c a)" "?out ! j = WithScore b (?c b)"
    by blast
  moreover have "length ?out = length results" by (simp add: out)
  ultimately show ?thesis by (intro exI [of _ i] exI [of _ j]) simp
qed

text \<open>Where all memories have the same quality the re-rank keeps the order of relevance.\<close>

lemma Rerank_uniform:
  assumes "\<forall>r \<in> set results. Quality cfg (sMemory r) now = q"
    and "sorted_wrt (\<lambda>a b. Score b \<le> Score a) results"
  shows "map sMemory (Rerank cfg results now) = map sMemory results"
proof -
  let ?m = "max_of Score results" and ?mq = "max_of (\<lambda>r. Quality cfg (sMemory r) now) results"
  obtain f where f: "f = (if ?mq > 0 then q / ?mq else 0)" by simp
  have "q = ?mq" if "?mq > 0"
    using max_of_attained [of "\<lambda>r. Quality cfg (sMemory r) now" results] assms(1) that by auto
  then have f0: "0 \<le> 0.8 + 0.2 * f" by (auto simp: f)
  have c: "composite cfg DefaultRerankWeights now ?m ?mq r
      = (if ?m > 0 then Score r / ?m else 0) * (0.8 + 0.2 * f)" if "r \<in> set results" for r
    using assms(1) that by (simp add: composite_def DefaultRerankWeights_def Let_def f)
  let ?out = "map (\<lambda>r. WithScore r (composite cfg DefaultRerankWeights now ?m ?mq r)) results"
  have "composite cfg DefaultRerankWeights now ?m ?mq b \<le> composite cfg DefaultRerankWeights now ?m ?mq a"
    if "a \<in> set results" "b \<in> set results" "Score b \<le> Score a" for a b
    unfolding c [OF that(1)] c [OF that(2)]
    by (rule mult_right_mono [OF _ f0]) (use that(3) in \<open>simp add: divide_right_mono\<close>)
  then have "sorted_wrt (\<lambda>a b. \<not> Score a < Score b) ?out"
    unfolding sorted_wrt_map
    by (auto simp: not_less intro: sorted_wrt_mono_rel [OF _ assms(2)])
  then have "SliceStable higher ?out = ?out" by (rule higher.SliceStable_sorted)
  then show ?thesis by (simp add: Rerank_def RerankWith_eq comp_def)
qed

section \<open>Dedup keeps the first of each content\<close>

abbreviation content_key :: "Scored \<Rightarrow> string" where
  "content_key r \<equiv> NormalizeContent (Content (sMemory r))"

lemma dedup_loop_take:
  "0 < limit \<Longrightarrow> int n < limit \<Longrightarrow>
   dedup_loop seen n rs limit = take (nat (limit - int n)) (dedup_loop seen n rs 0)"
proof (induction seen n rs limit rule: dedup_loop.induct)
  case (2 seen n r rs limit)
  have shift: "dedup_loop s k rs 0 = dedup_loop s l rs 0" for s k l
    by (induction rs arbitrary: s k l) (auto simp: Let_def)
  show ?case
  proof (cases "content_key r \<in> seen")
    case True
    then show ?thesis using 2 by simp
  next
    case False
    show ?thesis
    proof (cases "limit \<le> int (n + 1)")
      case True
      then have "nat (limit - int n) = 1" using 2(4) by simp
      then show ?thesis using False True 2(3) by (simp add: Let_def)
    next
      case more: False
      then have "nat (limit - int n) = Suc (nat (limit - int (n + 1)))" by simp
      then show ?thesis
        using 2(2) [OF refl False] False more 2(3) shift [of _ "n + 1" "n + 1"] by (simp add: Let_def)
    qed
  qed
qed simp

lemma Dedup_take: "0 < limit \<Longrightarrow> Dedup rs limit = take (nat limit) (Dedup rs 0)"
  using dedup_loop_take [of limit 0] by (simp add: Dedup_def)

lemma dedup_loop_distinct:
  "distinct (map content_key (dedup_loop seen n rs limit))
   \<and> content_key ` set (dedup_loop seen n rs limit) \<inter> seen = {}"
  by (induction seen n rs limit rule: dedup_loop.induct) (auto simp: Let_def)

lemma dedup_loop_subseq: "subseq (dedup_loop seen n rs limit) rs"
  by (induction seen n rs limit rule: dedup_loop.induct) (auto simp: Let_def)

lemma dedup_loop_covers:
  "content_key ` set (dedup_loop seen n rs 0) = content_key ` set rs - seen"
  by (induction seen n rs "0::int" rule: dedup_loop.induct) (auto simp: Let_def)

lemma Dedup_first:
  assumes "i < length rs" and "\<forall>j < i. content_key (rs ! j) \<noteq> content_key (rs ! i)"
  shows "rs ! i \<in> set (Dedup rs 0)"
proof -
  have "rs ! i \<in> set (dedup_loop seen n rs 0)"
    if "content_key (rs ! i) \<notin> seen" "i < length rs" "\<forall>j < i. content_key (rs ! j) \<noteq> content_key (rs ! i)" for seen n
    using that
  proof (induction rs arbitrary: i seen n)
    case (Cons r rs)
    show ?case
    proof (cases i)
      case 0
      then show ?thesis using Cons.prems by (simp add: Let_def)
    next
      case (Suc k)
      then have "content_key r \<noteq> content_key (rs ! k)" "\<forall>j < k. content_key (rs ! j) \<noteq> content_key (rs ! k)"
        using Cons.prems(3) by fastforce+
      then show ?thesis using Cons.IH [of k] Cons.prems(1,2) Suc by (simp add: Let_def)
    qed
  qed simp
  then show ?thesis using assms by (simp add: Dedup_def)
qed

end
