(* ===== verification/Search_Properties.thy ===== *)
theory Search_Properties
  imports Search Core_Properties
begin

text \<open>Properties of the fusion and re-ranking of search results.\<close>

section \<open>Fusion\<close>

text \<open>
  Reciprocal rank fusion returns every memory of the lists once, best first, and its
  score is exactly the sum, over its occurrences, of \<open>1 / (rrfK + rank)\<close>.
\<close>

theorem rrf_scores:
  assumes "0 < rrfK"
  shows "distinct (map hit_id (Fuse legs k rrfK))
    \<and> sorted_wrt (\<lambda>a b. Score b \<le> Score a) (Fuse legs k rrfK)
    \<and> hit_id ` set (Fuse legs 0 rrfK) = (\<Union>l \<in> set legs. hit_id ` set l)
    \<and> (\<forall>x \<in> set (Fuse legs k rrfK).
          Score x = (\<Sum>l\<leftarrow>legs. \<Sum>(rank, sc)\<leftarrow>List.enumerate 0 l. if hit_id sc = hit_id x then 1 / (rrfK + real rank) else 0))"
proof -
  let ?hits = "concat (map (rrf_hits rrfK) legs)"
  have F: "Fuse legs k rrfK = fuse_hits ?hits k" for k using assms by (simp add: Fuse_hits)
  have one: "total_for i (map (\<lambda>(rank, sc). (sc, 1 / (rrfK + real rank))) ps)
      = (\<Sum>(rank, sc)\<leftarrow>ps. if hit_id sc = i then 1 / (rrfK + real rank) else 0)" for i ps
    by (induction ps) (auto simp: total_for_def)
  have "total_for i ?hits = (\<Sum>l\<leftarrow>legs. \<Sum>(rank, sc)\<leftarrow>List.enumerate 0 l.
      if hit_id sc = i then 1 / (rrfK + real rank) else 0)" for i
  proof (induction legs)
    case (Cons l legs)
    then show ?case using one [of i "List.enumerate 0 l"] by (simp add: total_for_append rrf_hits_def)
  qed (simp add: total_for_def)
  moreover have "(hit_id \<circ> fst) ` set (rrf_hits rrfK l) = hit_id ` set l" for l
    using hits_ids(2) [of rrfK l] by (metis list.set_map)
  then have "(hit_id \<circ> fst) ` set ?hits = (\<Union>l \<in> set legs. hit_id ` set l)"
    by (simp add: image_UN)
  ultimately show ?thesis
    unfolding F using fuse_hits_ids(1) [of ?hits k] fuse_hits_ids(3) [of 0 ?hits] fuse_hits_score [of _ ?hits k]
    by (simp add: fuse_hits_def finish_sorted)
qed

definition plain :: tuning where
  "plain = \<lparr> StabilityK = 0, AssessedSalienceWeight = 0 \<rparr>"

definition hit :: "string \<Rightarrow> real \<Rightarrow> Scored" where
  "hit i s = \<lparr> sMemory = sample_memory ''a'' i i, Score = s, MatchedChunk = '''' \<rparr>"

lemma rrf_scores_witness:
  "distinct (map hit_id (Fuse [[hit ''m1'' 9, hit ''m2'' 8], [hit ''m2'' 3]] 5 5))"
  using rrf_scores [of 5 "[[hit ''m1'' 9, hit ''m2'' 8], [hit ''m2'' 3]]" 5] by simp

text \<open>
  A fused relevance score stays between zero and the sum of the list weights, for lists
  that name a memory at most once; the limit keeps the best.
\<close>

theorem score_fusion_bounds:
  assumes "\<forall>l \<in> set legs. distinct (map hit_id l)" and "\<forall>w \<in> set weights. 0 \<le> w"
    and "length weights = length legs" and "x \<in> set (FuseScores legs weights k)"
  shows "0 \<le> Score x \<and> Score x \<le> sum_list weights
    \<and> (\<forall>y \<in> set (FuseScores legs weights 0). y \<notin> set (FuseScores legs weights k) \<longrightarrow> Score y \<le> Score x)"
proof -
  have "\<forall>li. 0 \<le> weight_of weights li" using assms(2) by (simp add: weight_of_def)
  from FuseScores_bounds [OF assms(1) this assms(4)]
  have "0 \<le> Score x \<and> Score x \<le> (\<Sum>li<length legs. weight_of weights li)" .
  moreover have "(\<Sum>li<length legs. weight_of weights li) = sum_list weights"
    using assms(3) by (simp add: weight_of_def sum_list_sum_nth atLeast0LessThan)
  moreover have "\<forall>y \<in> set (FuseScores legs weights 0). y \<notin> set (FuseScores legs weights k) \<longrightarrow> Score y \<le> Score x"
    using assms(4) finish_top unfolding FuseScores_hits fuse_hits_def by blast
  ultimately show ?thesis by simp
qed

lemma score_fusion_bounds_witness:
  "\<exists>x. x \<in> set (FuseScores [[hit ''m1'' 9, hit ''m2'' 8], [hit ''m2'' 3]] [1/2, 1/2] 0) \<and> 0 \<le> Score x \<and> Score x \<le> 1"
proof -
  let ?legs = "[[hit ''m1'' 9, hit ''m2'' 8], [hit ''m2'' 3]]"
  have "hit_id ` set (FuseScores ?legs [1/2, 1/2] 0) \<noteq> {}"
    unfolding FuseScores_hits by (subst fuse_hits_ids(3)) (simp_all add: norm_hits_def case_prod_unfold Let_def)
  then have "set (FuseScores ?legs [1/2, 1/2] 0) \<noteq> {}" by (simp only: image_is_empty not_False_eq_True)
  then obtain x where x: "x \<in> set (FuseScores ?legs [1/2, 1/2] 0)" by (meson ex_in_conv)
  have "0 \<le> Score x \<and> Score x \<le> sum_list [1/2, 1/2 :: real]"
    using score_fusion_bounds [of ?legs "[1/2, 1/2]" x 0] x by (simp add: hit_def sample_memory_def)
  then show ?thesis using x by auto
qed

section \<open>Re-ranking\<close>

text \<open>
  C5: Quality reorders only comparable candidates: with the production weights a memory that
  is more than a quarter more relevant than another stays in front of it, whatever their
  tiers, confidences, access counts and ages.
\<close>

theorem quality_cannot_overturn:
  assumes "a \<in> set results" and "b \<in> set results"
    and "0 \<le> Score b" and "0 \<le> AccessCount (sMemory a)" and "0 \<le> AccessCount (sMemory b)"
    and "Score b < 0.8 * Score a"
  shows "\<exists>i j. i < j \<and> j < length results
    \<and> sMemory (Rerank cfg results now ! i) = sMemory a \<and> sMemory (Rerank cfg results now ! j) = sMemory b"
  by (rule Rerank_gap [OF assms])

lemma quality_cannot_overturn_witness:
  "\<exists>i j. i < j \<and> j < length [hit ''m1'' 1, hit ''m2'' 2]
    \<and> sMemory (Rerank plain [hit ''m1'' 1, hit ''m2'' 2] unix_epoch ! i) = sMemory (hit ''m2'' 2)
    \<and> sMemory (Rerank plain [hit ''m1'' 1, hit ''m2'' 2] unix_epoch ! j) = sMemory (hit ''m1'' 1)"
  by (rule quality_cannot_overturn) (simp_all add: hit_def sample_memory_def)

text \<open>
  A re-rank loses and invents nothing, returns its results best first, and keeps the
  order of relevance where all memories have the same quality (a freshly ingested corpus).
\<close>

theorem rerank_order:
  "image_mset sMemory (mset (Rerank cfg results now)) = image_mset sMemory (mset results)
   \<and> sorted_wrt (\<lambda>a b. Score b \<le> Score a) (Rerank cfg results now)
   \<and> ((\<exists>q. \<forall>r \<in> set results. Quality cfg (sMemory r) now = q)
        \<and> sorted_wrt (\<lambda>a b. Score b \<le> Score a) results
      \<longrightarrow> map sMemory (Rerank cfg results now) = map sMemory results)"
  using RerankWith_perm RerankWith_sorted Rerank_uniform unfolding Rerank_def by blast

lemma rerank_order_witness:
  "map sMemory (Rerank plain [hit ''m1'' 2, hit ''m2'' 1] unix_epoch) = map sMemory [hit ''m1'' 2, hit ''m2'' 1]"
proof -
  have "Quality plain (sMemory (hit i s)) unix_epoch = Quality plain (sMemory (hit ''m1'' 2)) unix_epoch" for i s
    by (simp add: hit_def sample_memory_def Quality_def DurableScore_def Salience_def EffectiveConfidence_def Let_def)
  then have "\<exists>q. \<forall>r \<in> set [hit ''m1'' 2, hit ''m2'' 1]. Quality plain (sMemory r) unix_epoch = q"
    by (metis (no_types) empty_iff list.set(1) set_ConsD)
  moreover have "sorted_wrt (\<lambda>a b. Score b \<le> Score a) [hit ''m1'' 2, hit ''m2'' 1]" by (simp add: hit_def)
  ultimately show ?thesis using rerank_order [of plain "[hit ''m1'' 2, hit ''m2'' 1]" unix_epoch] by blast
qed

text \<open>
  Content dedup keeps, in order, the first result of every normalised content and no
  second one, and a limit cuts that list.
\<close>

theorem dedup_keeps_first:
  "distinct (map content_key (Dedup rs 0)) \<and> subseq (Dedup rs 0) rs
   \<and> content_key ` set (Dedup rs 0) = content_key ` set rs
   \<and> (\<forall>i < length rs. (\<forall>j < i. content_key (rs ! j) \<noteq> content_key (rs ! i)) \<longrightarrow> rs ! i \<in> set (Dedup rs 0))
   \<and> (0 < limit \<longrightarrow> Dedup rs limit = take (nat limit) (Dedup rs 0))"
  using dedup_loop_distinct [of "{}" 0 rs 0] dedup_loop_subseq [of "{}" 0 rs 0]
    dedup_loop_covers [of "{}" 0 rs] Dedup_first [of _ rs] Dedup_take [of limit rs]
  by (simp add: Dedup_def)

lemma dedup_keeps_first_witness:
  "Dedup [hit ''m1'' 2, hit ''M1'' 1, hit ''m2'' 1] 1 = take (nat 1) (Dedup [hit ''m1'' 2, hit ''M1'' 1, hit ''m2'' 1] 0)"
  using dedup_keeps_first [of "[hit ''m1'' 2, hit ''M1'' 1, hit ''m2'' 1]" 1] by simp

end
