(* ===== verification/Go_Strings.thy ===== *)
theory Go_Strings
  imports Namespaces
begin

text \<open>
  The functions of Go's \<open>strings\<close> package that the read set, the namespace resolution and
  the authentication use, on byte lists, with the facts about path prefixes they share.
\<close>

section \<open>Searching and cutting\<close>

definition IndexByte :: "string \<Rightarrow> char \<Rightarrow> int" where
  "IndexByte s c =
     (if c \<in> set s then int (length (takeWhile (\<lambda>x. x \<noteq> c) s)) else -1)"

definition LastIndexByte :: "string \<Rightarrow> char \<Rightarrow> int" where
  "LastIndexByte s c =
     (case dropWhile (\<lambda>x. x \<noteq> c) (rev s) of [] \<Rightarrow> -1 | _ # r \<Rightarrow> int (length r))"

definition HasSuffix :: "string \<Rightarrow> string \<Rightarrow> bool" where
  "HasSuffix s suf \<longleftrightarrow> length suf \<le> length s \<and> drop (length s - length suf) s = suf"

definition CutSuffix :: "string \<Rightarrow> string \<Rightarrow> string \<times> bool" where
  "CutSuffix s suf =
     (if HasSuffix s suf then (take (length s - length suf) s, True) else (s, False))"

text \<open>\<open>strings.Cut\<close> and \<open>strings.CutLast\<close> at a one-byte separator.\<close>

definition Cut :: "string \<Rightarrow> char \<Rightarrow> string \<times> string \<times> bool" where
  "Cut s c =
     (let i = IndexByte s c in
      if 0 \<le> i then (take (nat i) s, drop (nat i + 1) s, True) else (s, '''', False))"

definition CutLast :: "string \<Rightarrow> char \<Rightarrow> string \<times> string \<times> bool" where
  "CutLast s c =
     (let i = LastIndexByte s c in
      if 0 \<le> i then (take (nat i) s, drop (nat i + 1) s, True) else (s, '''', False))"

definition TrimRight :: "char \<Rightarrow> string \<Rightarrow> string" where
  "TrimRight c s = rev (dropWhile (\<lambda>x. x = c) (rev s))"

section \<open>Facts\<close>

lemma HasPrefix_iff: "HasPrefix s p \<longleftrightarrow> (\<exists>t. s = p @ t)"
  by (auto simp: HasPrefix_def) (metis append_take_drop_id)

lemma HasSuffix_iff: "HasSuffix s suf \<longleftrightarrow> (\<exists>t. s = t @ suf)"
  by (auto simp: HasSuffix_def) (metis append_take_drop_id)

lemma IndexByte_absent: "c \<notin> set s \<Longrightarrow> IndexByte s c = -1"
  by (simp add: IndexByte_def)

lemma takeWhile_drop: "takeWhile P xs @ drop (length (takeWhile P xs)) xs = xs"
  by (metis dropWhile_eq_drop takeWhile_dropWhile_id)

lemma takeWhile_absent: "c \<notin> set a \<Longrightarrow> takeWhile (\<lambda>x. x \<noteq> c) (a @ c # b) = a"
  by (subst takeWhile_append2) auto

lemma IndexByte_append: "c \<notin> set a \<Longrightarrow> IndexByte (a @ c # b) c = int (length a)"
  by (simp add: IndexByte_def takeWhile_absent)

lemma LastIndexByte_absent: "c \<notin> set s \<Longrightarrow> LastIndexByte s c = -1"
proof -
  assume "c \<notin> set s"
  then have "dropWhile (\<lambda>x. x \<noteq> c) (rev s) = []" by (subst dropWhile_eq_Nil_conv) auto
  then show ?thesis by (simp only: LastIndexByte_def list.case)
qed

lemma LastIndexByte_append: "c \<notin> set b \<Longrightarrow> LastIndexByte (a @ c # b) c = int (length a)"
proof -
  assume "c \<notin> set b"
  then have "dropWhile (\<lambda>x. x \<noteq> c) (rev b @ c # rev a) = c # rev a"
    by (subst dropWhile_append2) auto
  then show ?thesis by (simp add: LastIndexByte_def)
qed

lemma Cut_append: "c \<notin> set a \<Longrightarrow> Cut (a @ c # b) c = (a, b, True)"
  by (simp add: Cut_def IndexByte_append)

lemma Cut_absent: "c \<notin> set s \<Longrightarrow> Cut s c = (s, '''', False)"
  by (simp add: Cut_def IndexByte_absent)

lemma CutLast_append: "c \<notin> set b \<Longrightarrow> CutLast (a @ c # b) c = (a, b, True)"
  by (simp add: CutLast_def LastIndexByte_append)

lemma CutLast_absent: "c \<notin> set s \<Longrightarrow> CutLast s c = (s, '''', False)"
  by (simp add: CutLast_def LastIndexByte_absent)

text \<open>A string either has no separator or is split at its first, or its last, one.\<close>

lemma first_sep: "c \<in> set s \<Longrightarrow> \<exists>a b. s = a @ c # b \<and> c \<notin> set a"
  by (metis split_list_first)

lemma last_sep: "c \<in> set s \<Longrightarrow> \<exists>a b. s = a @ c # b \<and> c \<notin> set b"
  by (metis split_list_last)

lemma TrimRight_append: "s = [] \<or> last s \<noteq> c \<Longrightarrow> TrimRight c (s @ replicate n c) = s"
proof -
  assume *: "s = [] \<or> last s \<noteq> c"
  have "dropWhile (\<lambda>x. x = c) (replicate n c @ rev s) = dropWhile (\<lambda>x. x = c) (rev s)"
    by (rule dropWhile_append2) simp
  also have "\<dots> = rev s" using * by (cases s rule: rev_cases) auto
  finally show ?thesis by (simp add: TrimRight_def)
qed

end
