(* ===== verification/Api_Auth.thy ===== *)
theory Api_Auth
  imports Sqlite_Links Go_Strings
begin

text \<open>
  Who a request is: \<open>internal/apiauth\<close> (\<open>apiauth.go\<close>, \<open>filekeys.go\<close>) and the middleware of
  \<open>internal/api/rest\<close> (\<open>middleware.go\<close>, \<open>readonly.go\<close>) in the order \<open>Mount\<close> installs it.

  The key table is the record \<open>key_store\<close>; \<open>sqlite_keys\<close> is the driver's. The cache of the
  table's emptiness is a state that \<open>Authenticate\<close> reads and may refresh. Constant-time
  comparison is equality. A bearer secret is hashed by \<open>sha256_hex\<close>.
\<close>

section \<open>Principals and keys\<close>

record Principal =
  prName :: string
  prHomeNS :: string
  prDefaultNS :: string
  prAdmin :: bool
  prReadOnly :: bool

definition principal_of :: "APIKey \<Rightarrow> Principal" where
  "principal_of k =
     \<lparr> prName = Name k, prHomeNS = HomeNS k, prDefaultNS = DefaultNS k, prAdmin = Admin k, prReadOnly = ReadOnly k \<rparr>"

record key_store =
  by_hash :: "string \<Rightarrow> store_error + APIKey option"
  all_keys :: "store_error + APIKey list"

definition sqlite_keys :: "db \<Rightarrow> key_store" where
  "sqlite_keys d = \<lparr> by_hash = (\<lambda>h. Inr (GetAPIKeyByHash h d)), all_keys = Inr (ListAPIKeys d) \<rparr>"

definition HashToken :: "string \<Rightarrow> string" where
  "HashToken token = sha256_hex token"

section \<open>Declared keys\<close>

text \<open>The two maps of the set are association lists.\<close>

record FileKeySet =
  byHash :: "(string \<times> APIKey) list"
  byName :: "(string \<times> APIKey) list"

text \<open>
  One entry of the keys file after the YAML parser; the settings block is still the parser's
  value, of any type, and \<open>decode\<close> is the strict JSON decoding into the settings record.
\<close>

record 'y fileKeyEntry =
  feName :: string
  feHash :: string
  feSecret :: string
  feHome :: string
  feDefaultNamespace :: string
  feDisabled :: bool
  feAdmin :: bool
  feReadOnly :: bool
  feSettings :: "'y option"

datatype file_key_error =
    NameRequired nat
  | ExactlyOneSecret nat
  | BadHash nat
  | BadFileHome nat namespace_error
  | BadFileDefault nat namespace_error
  | UnknownSettings nat
  | BadFileSettings nat settings_error
  | DuplicateName nat string
  | HashCollision nat string string

definition is_hex :: "char \<Rightarrow> bool" where
  "is_hex c = (let n = of_char c :: nat in
     (48 \<le> n \<and> n \<le> 57) \<or> (97 \<le> n \<and> n \<le> 102) \<or> (65 \<le> n \<and> n \<le> 70))"

text \<open>\<open>hex.DecodeString\<close> succeeds with \<open>sha256.Size\<close> bytes.\<close>

definition hex_sha256 :: "string \<Rightarrow> bool" where
  "hex_sha256 h \<longleftrightarrow> length h = 64 \<and> list_all is_hex h"

definition check_file_namespace :: "string \<Rightarrow> namespace_error + string" where
  "check_file_namespace ns =
     (let n = NormalizeNamespace ns in
      if n = '''' then Inr n
      else case ValidateNamespace n of Some e \<Rightarrow> Inl e | None \<Rightarrow> Inr n)"

definition clientSettingsFromYAML ::
    "('y \<Rightarrow> ClientSettings option) \<Rightarrow> nat \<Rightarrow> 'y option \<Rightarrow> file_key_error + ClientSettings" where
  "clientSettingsFromYAML decode idx m =
     (case m of
        None \<Rightarrow> Inr no_settings
      | Some raw \<Rightarrow>
          (case decode raw of
             None \<Rightarrow> Inl (UnknownSettings idx)
           | Some s \<Rightarrow> (case Validate s of Some e \<Rightarrow> Inl (BadFileSettings idx e) | None \<Rightarrow> Inr s)))"

definition file_key_hash :: "nat \<Rightarrow> 'y fileKeyEntry \<Rightarrow> file_key_error + string" where
  "file_key_hash idx e =
     (let hasHash = TrimSpace (feHash e) \<noteq> ''''; hasSecret = feSecret e \<noteq> '''' in
      if hasHash = hasSecret then Inl (ExactlyOneSecret idx)
      else if hasHash then
        let h = ToLower (TrimSpace (feHash e)) in if hex_sha256 h then Inr h else Inl (BadHash idx)
      else Inr (HashToken (feSecret e)))"

definition validateFileKeyEntry ::
    "('y \<Rightarrow> ClientSettings option) \<Rightarrow> nat \<Rightarrow> 'y fileKeyEntry \<Rightarrow> file_key_error + APIKey" where
  "validateFileKeyEntry decode idx e =
     (let name = TrimSpace (feName e) in
      if name = '''' then Inl (NameRequired idx)
      else case file_key_hash idx e of
        Inl err \<Rightarrow> Inl err
      | Inr h \<Rightarrow>
          (case check_file_namespace (feHome e) of
             Inl err \<Rightarrow> Inl (BadFileHome idx err)
           | Inr hm \<Rightarrow>
               (case check_file_namespace (feDefaultNamespace e) of
                  Inl err \<Rightarrow> Inl (BadFileDefault idx err)
                | Inr def \<Rightarrow>
                    (case clientSettingsFromYAML decode idx (feSettings e) of
                       Inl err \<Rightarrow> Inl err
                     | Inr s \<Rightarrow>
                         Inr \<lparr> Name = name, Hash = h, HomeNS = hm, DefaultNS = def, kCreatedAt = 0,
                               Disabled = feDisabled e, Admin = feAdmin e, ReadOnly = feReadOnly e,
                               Settings = s \<rparr>))))"

fun load_entries ::
    "('y \<Rightarrow> ClientSettings option) \<Rightarrow> nat \<Rightarrow> 'y fileKeyEntry list \<Rightarrow> FileKeySet \<Rightarrow> file_key_error + FileKeySet" where
  "load_entries decode i [] fk = Inr fk"
| "load_entries decode i (e # es) fk =
     (case validateFileKeyEntry decode i e of
        Inl err \<Rightarrow> Inl err
      | Inr key \<Rightarrow>
          if map_of (byName fk) (Name key) \<noteq> None then Inl (DuplicateName i (Name key))
          else case map_of (byHash fk) (Hash key) of
                 Some prev \<Rightarrow> Inl (HashCollision i (Name key) (Name prev))
               | None \<Rightarrow> load_entries decode (Suc i) es
                   \<lparr> byHash = (Hash key, key) # byHash fk, byName = (Name key, key) # byName fk \<rparr>)"

definition LoadFileKeys ::
    "('y \<Rightarrow> ClientSettings option) \<Rightarrow> 'y fileKeyEntry list \<Rightarrow> file_key_error + FileKeySet" where
  "LoadFileKeys decode entries = load_entries decode 0 entries \<lparr> byHash = [], byName = [] \<rparr>"

text \<open>The methods of \<open>*FileKeySet\<close>; a nil receiver is \<open>None\<close>.\<close>

definition file_lookup :: "FileKeySet option \<Rightarrow> string \<Rightarrow> APIKey option" where
  "file_lookup fk h = (case fk of None \<Rightarrow> None | Some k \<Rightarrow> map_of (byHash k) h)"

definition enforced :: "FileKeySet option \<Rightarrow> bool" where
  "enforced fk = (case fk of None \<Rightarrow> False | Some k \<Rightarrow> byHash k \<noteq> [])"

definition IsFileKey :: "FileKeySet option \<Rightarrow> string \<Rightarrow> bool" where
  "IsFileKey fk name = (case fk of None \<Rightarrow> False | Some k \<Rightarrow> map_of (byName k) name \<noteq> None)"

definition FileKeys :: "FileKeySet option \<Rightarrow> APIKey list" where
  "FileKeys fk =
     (case fk of None \<Rightarrow> [] | Some k \<Rightarrow> SliceStable (\<lambda>a b. Name a < Name b) (map snd (byName k)))"

definition ShadowedDBKeyNames :: "FileKeySet option \<Rightarrow> key_store option \<Rightarrow> store_error + string list" where
  "ShadowedDBKeyNames fk ks =
     (case (fk, ks) of
        (Some f, Some k) \<Rightarrow>
          if byName f = [] then Inr []
          else (case all_keys k of
                  Inl e \<Rightarrow> Inl e
                | Inr keys \<Rightarrow> Inr (SliceStable (<) (filter (IsFileKey fk) (map Name keys))))
      | _ \<Rightarrow> Inr [])"

section \<open>Authentication\<close>

abbreviation keyTableCacheTTL :: Duration where "keyTableCacheTTL \<equiv> 10 * Second"

record tableCache =
  cache_at :: Time
  nonEmpty :: bool

definition fresh_cache :: tableCache where
  "fresh_cache = \<lparr> cache_at = 0, nonEmpty = False \<rparr>"

record AuthPolicy =
  adminKey :: string
  fileKeys :: "FileKeySet option"

datatype auth_result =
    Allowed "Principal option"
  | Rejected
  | AuthError store_error

definition tableNonEmpty :: "key_store \<Rightarrow> Time \<Rightarrow> tableCache \<Rightarrow> bool \<times> tableCache" where
  "tableNonEmpty ks now c =
     (if Sub now (cache_at c) < keyTableCacheTTL then (nonEmpty c, c)
      else case all_keys ks of
             Inl _ \<Rightarrow> (True, c\<lparr> nonEmpty := True \<rparr>)
           | Inr keys \<Rightarrow> (keys \<noteq> [], \<lparr> cache_at = now, nonEmpty = (keys \<noteq> []) \<rparr>))"

text \<open>\<open>Invalidate\<close> resets the time of the reading, not the reading.\<close>

definition Invalidate :: "tableCache \<Rightarrow> tableCache" where
  "Invalidate c = c\<lparr> cache_at := 0 \<rparr>"

text \<open>The last part of \<open>Authenticate\<close>: no usable token.\<close>

definition without_token ::
    "AuthPolicy \<Rightarrow> key_store option \<Rightarrow> Time \<Rightarrow> tableCache \<Rightarrow> auth_result \<times> tableCache" where
  "without_token pol ks now c =
     (if adminKey pol \<noteq> '''' then (Rejected, c)
      else if enforced (fileKeys pol) then (Rejected, c)
      else case ks of
             None \<Rightarrow> (Allowed None, c)
           | Some k \<Rightarrow>
               (let (ne, c') = tableNonEmpty k now c in (if ne then Rejected else Allowed None, c')))"

definition Authenticate ::
    "AuthPolicy \<Rightarrow> key_store option \<Rightarrow> Time \<Rightarrow> string \<Rightarrow> tableCache \<Rightarrow> auth_result \<times> tableCache" where
  "Authenticate pol ks now token c =
     (if adminKey pol \<noteq> '''' \<and> token = adminKey pol then (Allowed None, c)
      else
        case (if token \<noteq> '''' then file_lookup (fileKeys pol) (HashToken token) else None) of
          Some key \<Rightarrow> (if Disabled key then Rejected else Allowed (Some (principal_of key)), c)
        | None \<Rightarrow>
            (case (if token \<noteq> '''' then ks else None) of
               Some k \<Rightarrow>
                 (case by_hash k (HashToken token) of
                    Inl e \<Rightarrow> (AuthError e, c)
                  | Inr (Some key) \<Rightarrow>
                      (if Disabled key then Rejected else Allowed (Some (principal_of key)), c)
                  | Inr None \<Rightarrow> (Rejected, c))
             | None \<Rightarrow> without_token pol ks now c))"

section \<open>The middleware of a request\<close>

text \<open>\<open>Authorization\<close>, \<open>NsHeader\<close> and \<open>HomeHeader\<close> are the values of the headers, empty when absent.\<close>

record Request =
  Method :: string
  Path :: string
  Authorization :: string
  NsHeader :: string
  HomeHeader :: string

record ReqCtx =
  rcPrincipal :: "Principal option"
  rcActor :: "string \<times> string"
  rcNamespace :: string
  rcHome :: string
  rcWarning :: "(string \<times> string \<times> string) option"

datatype http_error =
    Unauthorized
  | Forbidden
  | BadRequest
  | NotFound
  | Conflict
  | NotImplemented
  | InternalError

definition bearer :: "Request \<Rightarrow> string" where
  "bearer r =
     (if HasPrefix (Authorization r) ''Bearer '' then drop (length ''Bearer '') (Authorization r)
      else Authorization r)"

definition readShapedPaths :: "string list" where
  "readShapedPaths = [''/v1/search'', ''/v1/answer'', ''/v1/handshake'']"

definition isReadRequest :: "string \<Rightarrow> string \<Rightarrow> bool" where
  "isReadRequest meth path \<longleftrightarrow>
     meth \<in> set [''GET'', ''HEAD'', ''OPTIONS''] \<or> fst (CutSuffix path ''/'') \<in> set readShapedPaths"

definition read_only_refuses :: "Principal option \<Rightarrow> Request \<Rightarrow> bool" where
  "read_only_refuses p r \<longleftrightarrow>
     (case p of None \<Rightarrow> False | Some q \<Rightarrow> prReadOnly q \<and> \<not> isReadRequest (Method r) (Path r))"

definition actor_of :: "Principal option \<Rightarrow> Request \<Rightarrow> string \<times> string" where
  "actor_of p r =
     (case p of
        Some q \<Rightarrow> (prName q, ''key'')
      | None \<Rightarrow> if TrimSpace (bearer r) \<noteq> '''' then ('''', ''env'') else ('''', ''none''))"

definition request_namespace :: "string \<Rightarrow> Principal option \<Rightarrow> Request \<Rightarrow> http_error + string" where
  "request_namespace defaultNS p r =
     (let ns = NormalizeNamespace (NsHeader r) in
      if ns \<noteq> '''' then (case ValidateNamespace ns of Some _ \<Rightarrow> Inl BadRequest | None \<Rightarrow> Inr ns)
      else case p of
             Some q \<Rightarrow> Inr (if prDefaultNS q \<noteq> '''' then prDefaultNS q else defaultNS)
           | None \<Rightarrow> Inr defaultNS)"

text \<open>The home namespace, and the warning when a bound key overrides the header.\<close>

definition header_home ::
    "Request \<Rightarrow> http_error + string \<times> (string \<times> string \<times> string) option" where
  "header_home r =
     (let h = NormalizeNamespace (HomeHeader r) in
      if h \<noteq> '''' \<and> ValidateNamespace h \<noteq> None then Inl BadRequest else Inr (h, None))"

definition request_home ::
    "Principal option \<Rightarrow> Request \<Rightarrow> http_error + string \<times> (string \<times> string \<times> string) option" where
  "request_home p r =
     (case p of
        Some q \<Rightarrow>
          if prHomeNS q \<noteq> '''' then
            Inr (prHomeNS q,
                 if TrimSpace (HomeHeader r) \<noteq> ''''
                 then HomeConflictWarning (prName q) (prHomeNS q)
                        (NormalizeNamespace (TrimSpace (HomeHeader r)))
                 else None)
          else header_home r
      | None \<Rightarrow> header_home r)"

text \<open>\<open>Mount\<close>: authentication, the read-only gate, attribution, namespace, home.\<close>

definition after_auth :: "string \<Rightarrow> Principal option \<Rightarrow> Request \<Rightarrow> http_error + ReqCtx" where
  "after_auth defaultNS p r =
     (if read_only_refuses p r then Inl Forbidden
      else case request_namespace defaultNS p r of
             Inl e \<Rightarrow> Inl e
           | Inr ns \<Rightarrow>
               (case request_home p r of
                  Inl e \<Rightarrow> Inl e
                | Inr (h, w) \<Rightarrow>
                    Inr \<lparr> rcPrincipal = p, rcActor = actor_of p r, rcNamespace = ns, rcHome = h, rcWarning = w \<rparr>))"

definition admit ::
    "AuthPolicy \<Rightarrow> string \<Rightarrow> key_store option \<Rightarrow> Time \<Rightarrow> Request \<Rightarrow> tableCache
      \<Rightarrow> (http_error + ReqCtx) \<times> tableCache" where
  "admit pol defaultNS ks now r c =
     (case Authenticate pol ks now (bearer r) c of
        (AuthError _, c') \<Rightarrow> (Inl InternalError, c')
      | (Rejected, c') \<Rightarrow> (Inl Unauthorized, c')
      | (Allowed p, c') \<Rightarrow> (after_auth defaultNS p r, c'))"

section \<open>Who is let in\<close>

lemma tableNonEmpty_fresh:
  "cache_at c = 0 \<Longrightarrow> keyTableCacheTTL \<le> now \<Longrightarrow>
   fst (tableNonEmpty ks now c) = (case all_keys ks of Inl _ \<Rightarrow> True | Inr keys \<Rightarrow> keys \<noteq> [])"
  by (auto simp: tableNonEmpty_def Sub_def min_def split: sum.split)

text \<open>A named caller is an enabled key, of the file or of the table, with the hash of the token.\<close>

lemma Authenticate_named:
  assumes "fst (Authenticate pol ks now token c) = Allowed (Some p)"
  shows "\<exists>key. p = principal_of key \<and> \<not> Disabled key
    \<and> (file_lookup (fileKeys pol) (HashToken token) = Some key
       \<or> (\<exists>k. ks = Some k \<and> by_hash k (HashToken token) = Inr (Some key)))"
  using assms
  by (auto simp: Authenticate_def without_token_def split: if_splits option.splits sum.splits prod.splits)

text \<open>A nameless caller has the admin key, or no credential is configured anywhere.\<close>

lemma Authenticate_nameless:
  assumes "fst (Authenticate pol ks now token c) = Allowed None"
  shows "(adminKey pol \<noteq> '''' \<and> token = adminKey pol)
    \<or> (adminKey pol = '''' \<and> \<not> enforced (fileKeys pol)
        \<and> (\<forall>k. ks = Some k \<longrightarrow> token = '''' \<and> fst (tableNonEmpty k now c) = False))"
  using assms
  by (auto simp: Authenticate_def without_token_def file_lookup_def enforced_def
      split: if_splits option.splits sum.splits prod.splits)

text \<open>The reading of the cache is either younger than its lifetime or taken from the table.\<close>

lemma tableNonEmpty_False:
  assumes "fst (tableNonEmpty ks now c) = False"
  shows "all_keys ks = Inr [] \<or> (Sub now (cache_at c) < keyTableCacheTTL \<and> \<not> nonEmpty c)"
  using assms by (auto simp: tableNonEmpty_def split: if_splits sum.splits)

section \<open>Declared keys\<close>

definition file_set_ok :: "FileKeySet \<Rightarrow> bool" where
  "file_set_ok fk \<longleftrightarrow>
     distinct (map fst (byHash fk)) \<and> distinct (map fst (byName fk))
     \<and> map snd (byHash fk) = map snd (byName fk)
     \<and> (\<forall>(h, k) \<in> set (byHash fk). h = Hash k) \<and> (\<forall>(n, k) \<in> set (byName fk). n = Name k)"

lemma load_entries_ok:
  "load_entries decode i es fk = Inr fk' \<Longrightarrow> file_set_ok fk \<Longrightarrow> file_set_ok fk'"
proof (induction decode i es fk rule: load_entries.induct)
  case (2 decode i e es fk)
  then obtain key where key: "validateFileKeyEntry decode i e = Inr key"
      "map_of (byName fk) (Name key) = None" "map_of (byHash fk) (Hash key) = None"
      "load_entries decode (Suc i) es \<lparr> byHash = (Hash key, key) # byHash fk, byName = (Name key, key) # byName fk \<rparr> = Inr fk'"
    by (auto split: sum.splits if_splits option.splits)
  have "file_set_ok \<lparr> byHash = (Hash key, key) # byHash fk, byName = (Name key, key) # byName fk \<rparr>"
    using "2.prems"(2) key(2,3) by (auto simp: file_set_ok_def map_of_eq_None_iff)
  then show ?case using "2.IH" [OF key(1)] key by simp
qed simp

lemma load_entries_valid:
  assumes "load_entries decode i es fk = Inr fk'" and "k \<in> snd ` set (byName fk')"
  shows "k \<in> snd ` set (byName fk) \<or> (\<exists>j e. e \<in> set es \<and> validateFileKeyEntry decode j e = Inr k)"
  using assms
proof (induction decode i es fk rule: load_entries.induct)
  case (2 decode i e es fk)
  then obtain key where key: "validateFileKeyEntry decode i e = Inr key"
      "map_of (byName fk) (Name key) = None" "map_of (byHash fk) (Hash key) = None"
      "load_entries decode (Suc i) es \<lparr> byHash = (Hash key, key) # byHash fk, byName = (Name key, key) # byName fk \<rparr> = Inr fk'"
    by (auto split: sum.splits if_splits option.splits)
  from "2.IH" [OF key(1) _ key(3) key(4) "2.prems"(2)] key(1,2) show ?case by auto
qed simp

lemma check_file_namespace_Inr:
  "check_file_namespace ns = Inr n \<Longrightarrow> n = '''' \<or> ValidateNamespace n = None"
  by (auto simp: check_file_namespace_def Let_def split: if_splits option.splits)

end
