(* ===== verification/Read_Set.thy ===== *)
theory Read_Set
  imports Go_Strings Store_Types
begin

text \<open>
  Which namespaces a read sees and where a write lands: \<open>internal/service/readset.go\<close>,
  \<open>internal/service/visibility.go\<close> and \<open>durableTiers\<close> of \<open>internal/service/service.go\<close>.

  What the service asks of the store is the record \<open>read_store\<close>: the namespaces, and the
  links of a namespace unless the store has no links (the type assertion to
  \<open>store.LinkStore\<close> that may fail).
\<close>

section \<open>Legs of a read set\<close>

type_synonym origin = string

abbreviation OriginPrimary :: origin where "OriginPrimary \<equiv> ''primary''"
abbreviation OriginAncestor :: origin where "OriginAncestor \<equiv> ''ancestor''"
abbreviation OriginHome :: origin where "OriginHome \<equiv> ''home''"
abbreviation OriginLink :: origin where "OriginLink \<equiv> ''link''"
abbreviation OriginCall :: origin where "OriginCall \<equiv> ''call''"

text \<open>\<open>leg_tiers\<close> is \<open>None\<close> for Go's nil: the tier filter of the request applies.\<close>

record scopeEntry =
  leg_ns :: string
  leg_tiers :: "Tier list option"
  leg_origin :: origin

record ReadSetEntry =
  reNS :: string
  reOrigin :: origin
  reTiers :: "Tier list option"

record readScope =
  sc_primary :: string
  sc_home :: string
  sc_explicit :: "string list"
  sc_subtree :: bool
  sc_bare :: bool
  sc_reqTiers :: "Tier list"

record read_store =
  list_namespaces :: "store_error + string list"
  list_links :: "(string \<Rightarrow> store_error + NamespaceLink list) option"

datatype read_error =
    TooManyNamespaces nat nat
  | InvalidReadNamespace string namespace_error
  | InvalidScope string
  | NeedsHome
  | NotInScope string "string list"
  | StoreFailed store_error

abbreviation readSetMaxEntries :: nat where "readSetMaxEntries \<equiv> 64"
abbreviation readSetMaxExplicit :: nat where "readSetMaxExplicit \<equiv> 16"

definition toReadSetEntries :: "scopeEntry list \<Rightarrow> ReadSetEntry list" where
  "toReadSetEntries = map (\<lambda>e. \<lparr> reNS = leg_ns e, reOrigin = leg_origin e, reTiers = leg_tiers e \<rparr>)"

definition put_origin :: "ReadSetEntry \<Rightarrow> (string \<rightharpoonup> origin) \<Rightarrow> (string \<rightharpoonup> origin)" where
  "put_origin e m = m(reNS e \<mapsto> reOrigin e)"

definition OriginMap :: "ReadSetEntry list \<Rightarrow> (string \<rightharpoonup> origin)" where
  "OriginMap es = fold put_origin es Map.empty"

definition ReadSetFrom :: "(string \<rightharpoonup> origin) \<Rightarrow> string \<Rightarrow> string" where
  "ReadSetFrom origins ns =
     (case origins ns of
        None \<Rightarrow> ''''
      | Some g \<Rightarrow>
          if g = OriginAncestor \<or> g = OriginHome then ns
          else if g = OriginLink then ''link:'' @ ns
          else if g = OriginCall then ''call:'' @ ns
          else '''')"

section \<open>Ancestors and tiers\<close>

lemma LastIndexByte_less: "0 < LastIndexByte s c \<Longrightarrow> nat (LastIndexByte s c) < length s"
proof -
  assume pos: "0 < LastIndexByte s c"
  then have "c \<in> set s" using LastIndexByte_absent [of c s] by (cases "c \<in> set s") simp_all
  then obtain a b where "s = a @ c # b" "c \<notin> set b" using last_sep by metis
  then show ?thesis by (simp add: LastIndexByte_append)
qed

text \<open>\<open>ancestorsOf\<close>: the loop cuts the name at its last slash while that is not the first byte.\<close>

function ancestorsOf :: "string \<Rightarrow> string list" where
  "ancestorsOf ns =
     (let i = LastIndexByte ns slash in
      if 0 < i then take (nat i) ns # ancestorsOf (take (nat i) ns) else [])"
  by pat_completeness blast
termination
proof (relation "measure length")
  fix ns :: string and i
  assume "i = LastIndexByte ns slash" and "0 < i"
  then have "nat i < length ns" using LastIndexByte_less by blast
  then show "(take (nat i) ns, ns) \<in> measure length" by (simp only: in_measure length_take min_less_iff_disj simp_thms)
qed simp

declare ancestorsOf.simps [simp del]

definition durableTiers :: "Tier list \<Rightarrow> Tier list" where
  "durableTiers requested =
     (if requested = [] then [TierSemantic, TierProcedural]
      else filter (\<lambda>t. t = TierSemantic \<or> t = TierProcedural) requested)"

definition intersectDurableTiers :: "Tier list \<Rightarrow> Tier list \<Rightarrow> Tier list" where
  "intersectDurableTiers linkTiers gt =
     (if linkTiers = [] then gt else filter (\<lambda>t. t \<in> set linkTiers) gt)"

section \<open>The default read set\<close>

definition subtreeFrom :: "string list \<Rightarrow> string \<Rightarrow> string list" where
  "subtreeFrom all top_ns = top_ns # filter (\<lambda>ns. ns \<noteq> top_ns \<and> HasPrefix ns (top_ns @ ''/'')) all"

definition primary_leg :: "string \<Rightarrow> scopeEntry" where
  "primary_leg n = \<lparr> leg_ns = n, leg_tiers = None, leg_origin = OriginPrimary \<rparr>"

fun addEntry :: "string \<Rightarrow> Tier list option \<Rightarrow> origin \<Rightarrow> scopeEntry list \<Rightarrow> scopeEntry list" where
  "addEntry n ts g [] = [\<lparr> leg_ns = n, leg_tiers = ts, leg_origin = g \<rparr>]"
| "addEntry n ts g (e # es) =
     (if leg_ns e = n then (if ts = None then e\<lparr> leg_tiers := None \<rparr> else e) # es
      else e # addEntry n ts g es)"

definition add_link :: "Tier list \<Rightarrow> NamespaceLink \<Rightarrow> scopeEntry list \<Rightarrow> scopeEntry list" where
  "add_link gt l es =
     (let ts = intersectDurableTiers (lTiers l) gt in
      if ts = [] then es else addEntry (Dst l) (Some ts) OriginLink es)"

text \<open>
  \<open>promoteProtected\<close>: \<open>taken\<close> holds the indices moved to the front, in order, after the
  first entry.
\<close>

definition protect :: "scopeEntry list \<Rightarrow> string \<Rightarrow> nat list \<Rightarrow> nat list" where
  "protect es p taken =
     (if p = '''' \<or> p = leg_ns (es ! 0) then taken
      else case find (\<lambda>i. i \<notin> set taken \<and> leg_ns (es ! i) = p) [1..<length es] of
             None \<Rightarrow> taken
           | Some i \<Rightarrow> taken @ [i])"

definition promoteProtected :: "scopeEntry list \<Rightarrow> string list \<Rightarrow> scopeEntry list" where
  "promoteProtected es protected =
     (if length es \<le> readSetMaxEntries \<or> length es = 0 then es
      else let taken = fold (protect es) protected [0] in
        if length taken = 1 then es
        else map ((!) es) taken @ map ((!) es) (filter (\<lambda>i. i \<notin> set taken) [1..<length es]))"

definition base_legs :: "read_store \<Rightarrow> readScope \<Rightarrow> store_error + scopeEntry list" where
  "base_legs st sc =
     (if sc_subtree sc then
        case list_namespaces st of
          Inl e \<Rightarrow> Inl e
        | Inr list \<Rightarrow> Inr (map primary_leg (subtreeFrom list (sc_primary sc)))
      else Inr [primary_leg (sc_primary sc)])"

definition ancestor_legs :: "Tier list \<Rightarrow> string \<Rightarrow> scopeEntry list \<Rightarrow> scopeEntry list" where
  "ancestor_legs gt p es = fold (\<lambda>a. addEntry a (Some gt) OriginAncestor) (ancestorsOf p) es"

definition home_leg :: "Tier list \<Rightarrow> string \<Rightarrow> scopeEntry list \<Rightarrow> scopeEntry list" where
  "home_leg gt h es = (if h = '''' then es else addEntry h (Some gt) OriginHome es)"

definition link_legs :: "read_store \<Rightarrow> Tier list \<Rightarrow> string \<Rightarrow> scopeEntry list \<Rightarrow> store_error + scopeEntry list" where
  "link_legs st gt p es =
     (case list_links st of
        None \<Rightarrow> Inr es
      | Some links \<Rightarrow>
          (case links p of
             Inl e \<Rightarrow> Inl e
           | Inr ls \<Rightarrow> Inr (fold (add_link gt) ls es)))"

definition resolveDefaultReadSet ::
    "bool \<Rightarrow> read_store \<Rightarrow> readScope \<Rightarrow> store_error + scopeEntry list" where
  "resolveDefaultReadSet cascade st sc =
     (case base_legs st sc of
        Inl e \<Rightarrow> Inl e
      | Inr entries \<Rightarrow>
          if sc_bare sc \<or> \<not> cascade then Inr entries
          else let gt = durableTiers (sc_reqTiers sc) in
            if gt = [] then Inr entries
            else case link_legs st gt (sc_primary sc)
                        (home_leg gt (sc_home sc) (ancestor_legs gt (sc_primary sc) entries)) of
                   Inl e \<Rightarrow> Inl e
                 | Inr es \<Rightarrow> Inr (promoteProtected es [sc_home sc]))"

section \<open>The explicit read set\<close>

text \<open>The map \<open>seen\<close> of the code holds the names of the entries.\<close>

definition add_call :: "string \<Rightarrow> string \<Rightarrow> scopeEntry list \<Rightarrow> scopeEntry list" where
  "add_call prim n es =
     (if n \<in> leg_ns ` set es then es
      else es @ [\<lparr> leg_ns = n, leg_tiers = None,
                   leg_origin = (if n = prim then OriginPrimary else OriginCall) \<rparr>])"

fun explicit_legs ::
    "read_store \<Rightarrow> string \<Rightarrow> string list \<Rightarrow> scopeEntry list \<Rightarrow> read_error + scopeEntry list" where
  "explicit_legs st prim [] es = Inr es"
| "explicit_legs st prim (r # rs) es =
     (let cut = CutSuffix (TrimSpace r) ''/*'';
          n = NormalizeNamespace (fst cut) in
      case ValidateNamespace n of
        Some err \<Rightarrow> Inl (InvalidReadNamespace r err)
      | None \<Rightarrow>
          if \<not> snd cut then explicit_legs st prim rs (add_call prim n es)
          else case list_namespaces st of
                 Inl e \<Rightarrow> Inl (StoreFailed e)
               | Inr names \<Rightarrow>
                   explicit_legs st prim rs
                     (fold (add_call prim) (filter (\<lambda>m. m \<noteq> n \<and> HasPrefix m (n @ ''/'')) names)
                       (add_call prim n es)))"

definition resolveExplicitReadSet ::
    "read_store \<Rightarrow> string \<Rightarrow> string list \<Rightarrow> read_error + scopeEntry list" where
  "resolveExplicitReadSet st prim raw =
     (if length raw > readSetMaxExplicit then Inl (TooManyNamespaces (length raw) readSetMaxExplicit)
      else explicit_legs st prim raw [])"

section \<open>The read set\<close>

definition primaryFirst :: "scopeEntry list \<Rightarrow> string \<Rightarrow> scopeEntry list" where
  "primaryFirst es p =
     (let idx = length (takeWhile (\<lambda>e. leg_ns e \<noteq> p) es) in
      if idx = length es \<or> idx = 0 then es
      else es ! idx # take idx es @ drop (idx + 1) es)"

definition clampReadSet :: "scopeEntry list \<Rightarrow> scopeEntry list" where
  "clampReadSet es = (if length es \<le> readSetMaxEntries then es else take readSetMaxEntries es)"

definition resolveReadSet :: "bool \<Rightarrow> read_store \<Rightarrow> readScope \<Rightarrow> read_error + scopeEntry list" where
  "resolveReadSet cascade st sc =
     (case (if sc_explicit sc \<noteq> [] then resolveExplicitReadSet st (sc_primary sc) (sc_explicit sc)
            else case resolveDefaultReadSet cascade st sc of
                   Inl e \<Rightarrow> Inl (StoreFailed e) | Inr es \<Rightarrow> Inr es) of
        Inl e \<Rightarrow> Inl e
      | Inr es \<Rightarrow> Inr (clampReadSet (primaryFirst es (sc_primary sc))))"

definition ResolveReadSetInfo ::
    "bool \<Rightarrow> read_store \<Rightarrow> string \<Rightarrow> string \<Rightarrow> read_error + ReadSetEntry list" where
  "ResolveReadSetInfo cascade st ns h =
     (case resolveReadSet cascade st
             \<lparr> sc_primary = ns, sc_home = h, sc_explicit = [], sc_subtree = False, sc_bare = False, sc_reqTiers = [] \<rparr> of
        Inl e \<Rightarrow> Inl e
      | Inr es \<Rightarrow> Inr (toReadSetEntries es))"

text \<open>\<open>parseScope\<close>: the flags \<open>(bare, subtree)\<close> of a scope word.\<close>

definition parseScope :: "string \<Rightarrow> read_error + bool \<times> bool" where
  "parseScope scope =
     (if scope = '''' \<or> scope = ''full'' then Inr (False, False)
      else if scope = ''project'' then Inr (True, False)
      else if scope = ''everywhere'' then Inr (False, True)
      else Inl (InvalidScope scope))"

section \<open>Where a write lands\<close>

definition lastSegment :: "string \<Rightarrow> string" where
  "lastSegment p = (let (_, segment, found) = CutLast p slash in if found then segment else p)"

text \<open>
  \<open>resolveVisibility\<close>: the namespace \<open>ns\<close> of the request, its visibility word, its home and
  the final tier give the namespace of the write. The loop over the ancestors returns at an
  exact match, so an exact match decides before the segment matches are counted.
\<close>

definition resolveVisibility :: "string \<Rightarrow> string \<Rightarrow> string \<Rightarrow> Tier \<Rightarrow> read_error + string" where
  "resolveVisibility ns visibility hm tier =
     (let v = TrimSpace visibility; h = TrimSpace hm in
      if v = '''' \<or> v = ''project'' then Inr ns
      else if Tier_Term tier \<noteq> LongTerm then Inr ns
      else if v = ''personal'' then (if h = '''' then Inl NeedsHome else Inr h)
      else
        let chain = ancestorsOf ns in
        if v \<in> set chain then Inr v
        else case filter (\<lambda>a. lastSegment a = v) chain of
               [a] \<Rightarrow> Inr a
             | _ \<Rightarrow> Inl (NotInScope v ([''project'', ''personal''] @ chain)))"

section \<open>Path prefixes\<close>

lemma ancestorsOf_flat: "slash \<notin> set ns \<Longrightarrow> ancestorsOf ns = []"
  by (subst ancestorsOf.simps) (simp add: LastIndexByte_absent)

lemma ancestorsOf_step:
  "slash \<notin> set b \<Longrightarrow> ancestorsOf (p @ slash # b) = (if p = [] then [] else p # ancestorsOf p)"
  by (subst ancestorsOf.simps) (simp add: LastIndexByte_append)

lemma split_before_last:
  assumes "a @ c # t = p @ c # b" and "c \<notin> set b"
  shows "a = p \<or> (\<exists>u. p = a @ c # u)"
proof -
  obtain us where "a = p @ us \<and> us @ c # t = c # b \<or> a @ us = p \<and> c # t = us @ c # b"
    using assms(1) append_eq_append_conv2 by blast
  moreover have "us = []" if "us @ c # t = c # b"
    using that assms(2) by (cases us) auto
  ultimately show ?thesis using assms(2) by (cases us) auto
qed

text \<open>The ancestors are the proper prefixes that end before a slash, nearest first.\<close>

lemma ancestorsOf_iff: "a \<in> set (ancestorsOf ns) \<longleftrightarrow> a \<noteq> [] \<and> (\<exists>t. ns = a @ slash # t)"
proof (induction "length ns" arbitrary: ns rule: less_induct)
  case less
  show ?case
  proof (cases "slash \<in> set ns")
    case False
    then show ?thesis by (auto simp: ancestorsOf_flat)
  next
    case True
    then obtain p b where ns: "ns = p @ slash # b" "slash \<notin> set b" using last_sep by metis
    then have "length p < length ns" by simp
    then have IH: "a \<in> set (ancestorsOf p) \<longleftrightarrow> a \<noteq> [] \<and> (\<exists>t. p = a @ slash # t)"
      by (rule less)
    have pre: "(\<exists>t. ns = a @ slash # t) \<longleftrightarrow> a = p \<or> (\<exists>u. p = a @ slash # u)"
    proof
      assume "\<exists>t. ns = a @ slash # t"
      then show "a = p \<or> (\<exists>u. p = a @ slash # u)" using split_before_last ns by metis
    next
      assume "a = p \<or> (\<exists>u. p = a @ slash # u)"
      then show "\<exists>t. ns = a @ slash # t" using ns(1) by (metis append.assoc append_Cons)
    qed
    have "a \<in> set (ancestorsOf ns) \<longleftrightarrow> p \<noteq> [] \<and> (a = p \<or> a \<in> set (ancestorsOf p))"
      using ns by (simp add: ancestorsOf_step)
    then show ?thesis using IH pre by (metis append_is_Nil_conv)
  qed
qed

lemma ancestorsOf_sorted: "sorted_wrt (\<lambda>a b. length b < length a) (ancestorsOf ns)"
proof (induction "length ns" arbitrary: ns rule: less_induct)
  case less
  show ?case
  proof (cases "slash \<in> set ns")
    case False
    then show ?thesis by (simp add: ancestorsOf_flat)
  next
    case True
    then obtain p b where ns: "ns = p @ slash # b" "slash \<notin> set b" using last_sep by metis
    then have "length p < length ns" by simp
    then have "sorted_wrt (\<lambda>a b. length b < length a) (ancestorsOf p)" by (rule less)
    then show ?thesis using ns by (auto simp: ancestorsOf_step ancestorsOf_iff)
  qed
qed

lemma not_own_ancestor: "ns \<notin> set (ancestorsOf ns)"
  by (auto simp: ancestorsOf_iff)

lemma durableTiers_set:
  "set (durableTiers req) \<subseteq> {TierSemantic, TierProcedural}"
  "req \<noteq> [] \<Longrightarrow> set (durableTiers req) \<subseteq> set req"
  by (auto simp: durableTiers_def)

lemma durableTiers_mem:
  "t = TierSemantic \<or> t = TierProcedural \<Longrightarrow> req = [] \<or> t \<in> set req \<Longrightarrow> t \<in> set (durableTiers req)"
  by (auto simp: durableTiers_def)

lemma intersectDurableTiers_set: "set (intersectDurableTiers lt gt) \<subseteq> set gt"
  by (auto simp: intersectDurableTiers_def)

section \<open>The cascade only adds legs\<close>

lemma addEntry_Some: "addEntry n (Some ts) g es =
   (if n \<in> leg_ns ` set es then es else es @ [\<lparr> leg_ns = n, leg_tiers = Some ts, leg_origin = g \<rparr>])"
  by (induction es) auto

text \<open>
  A list of legs grown from another: the old legs stand first, unchanged, and the new ones
  carry a non-empty list of the durable tiers \<open>gt\<close> and a name of their own.
\<close>

definition grown :: "Tier list \<Rightarrow> scopeEntry list \<Rightarrow> scopeEntry list \<Rightarrow> bool" where
  "grown gt es es' \<longleftrightarrow>
     (\<exists>new. es' = es @ new \<and> (distinct (map leg_ns es) \<longrightarrow> distinct (map leg_ns es'))
        \<and> (\<forall>e \<in> set new. leg_origin e \<noteq> OriginPrimary
              \<and> (\<exists>ts. leg_tiers e = Some ts \<and> ts \<noteq> [] \<and> set ts \<subseteq> set gt)))"

lemma grown_refl [intro, simp]: "grown gt es es"
  by (simp add: grown_def)

lemma grown_trans [trans]: "grown gt es es' \<Longrightarrow> grown gt es' es'' \<Longrightarrow> grown gt es es''"
  by (fastforce simp: grown_def)

lemma grown_addEntry:
  "ts \<noteq> [] \<Longrightarrow> set ts \<subseteq> set gt \<Longrightarrow> g \<noteq> OriginPrimary \<Longrightarrow> grown gt es (addEntry n (Some ts) g es)"
  by (auto simp: grown_def addEntry_Some)

lemma grown_fold: "(\<And>x es. grown gt es (f x es)) \<Longrightarrow> grown gt es (fold f xs es)"
  by (induction xs arbitrary: es) (auto intro: grown_trans)

lemma grown_ancestor_legs: "gt \<noteq> [] \<Longrightarrow> grown gt es (ancestor_legs gt p es)"
  unfolding ancestor_legs_def by (rule grown_fold) (simp add: grown_addEntry)

lemma grown_home_leg: "gt \<noteq> [] \<Longrightarrow> grown gt es (home_leg gt h es)"
  by (simp add: home_leg_def grown_addEntry)

lemma grown_add_link: "grown gt es (add_link gt l es)"
  using intersectDurableTiers_set [of "lTiers l" gt] by (auto simp: add_link_def Let_def intro: grown_addEntry)

lemma grown_link_legs: "link_legs st gt p es = Inr es' \<Longrightarrow> grown gt es es'"
  by (auto simp: link_legs_def grown_fold grown_add_link split: option.splits sum.splits)

lemma ns_ancestor_legs: "leg_ns ` set (ancestor_legs gt p es) = leg_ns ` set es \<union> set (ancestorsOf p)"
proof -
  have "leg_ns ` set (fold (\<lambda>a. addEntry a (Some gt) OriginAncestor) xs es) = leg_ns ` set es \<union> set xs" for xs
    by (induction xs arbitrary: es) (auto simp: addEntry_Some)
  then show ?thesis by (simp add: ancestor_legs_def)
qed

lemma ns_home_leg: "leg_ns ` set (home_leg gt h es) = leg_ns ` set es \<union> (if h = '''' then {} else {h})"
  by (auto simp: home_leg_def addEntry_Some)

lemma grown_mono: "grown gt es es' \<Longrightarrow> set es \<subseteq> set es'"
  by (auto simp: grown_def)

section \<open>Reordering and the clamp\<close>

lemma clampReadSet_take: "clampReadSet es = take readSetMaxEntries es"
  by (simp add: clampReadSet_def)

lemma protect_taken:
  assumes "distinct taken" and "set taken \<subseteq> {..<length es}" and "taken = 0 # r"
  shows "distinct (protect es p taken) \<and> set (protect es p taken) \<subseteq> {..<length es}
    \<and> (\<exists>r'. protect es p taken = 0 # r')"
  using assms by (auto simp: protect_def split: option.split dest: find_Some_set)

lemma fold_protect_taken:
  assumes "distinct taken" and "set taken \<subseteq> {..<length es}" and "taken = 0 # r"
  shows "distinct (fold (protect es) ps taken) \<and> set (fold (protect es) ps taken) \<subseteq> {..<length es}
    \<and> (\<exists>r'. fold (protect es) ps taken = 0 # r')"
  using assms
proof (induction ps arbitrary: taken r)
  case (Cons p ps)
  then show ?case using protect_taken [of taken es r p] by (metis fold_simps(2))
qed auto

lemma promoteProtected_mset: "mset (promoteProtected es ps) = mset es"
proof (cases "length es \<le> readSetMaxEntries \<or> length es = 0")
  case False
  define taken where "taken = fold (protect es) ps [0]"
  define rest where "rest = filter (\<lambda>i. i \<notin> set taken) [1..<length es]"
  have t: "distinct taken" "set taken \<subseteq> {..<length es}" "0 \<in> set taken"
    using False fold_protect_taken [of "[0]" es "[]" ps] unfolding taken_def by auto
  have "set (taken @ rest) = set [0..<length es]"
    using t False by (auto simp: rest_def) (metis One_nat_def Suc_leI gr0I)
  moreover have "distinct (taken @ rest)" using t by (auto simp: rest_def)
  ultimately have "mset (taken @ rest) = mset [0..<length es]"
    by (metis distinct_upt set_eq_iff_mset_eq_distinct)
  then have "mset (map ((!) es) (taken @ rest)) = mset (map ((!) es) [0..<length es])"
    by (metis mset_map)
  then show ?thesis
    using False unfolding promoteProtected_def Let_def taken_def [symmetric] rest_def [symmetric]
    by (auto simp: map_nth taken_def [symmetric])
qed (simp add: promoteProtected_def)

lemma promoteProtected_hd: "es \<noteq> [] \<Longrightarrow> hd (promoteProtected es ps) = hd es"
proof -
  assume ne: "es \<noteq> []"
  obtain r where "fold (protect es) ps [0] = 0 # r"
    using fold_protect_taken [of "[0]" es "[]" ps] ne by auto
  then show ?thesis using ne by (auto simp: promoteProtected_def Let_def hd_conv_nth)
qed

text \<open>Over the limit, the home leg is the second one.\<close>

lemma promoteProtected_home:
  assumes "h \<noteq> ''''" and "h \<in> leg_ns ` set es"
  shows "h \<in> leg_ns ` set (take readSetMaxEntries (promoteProtected es [h]))"
proof (cases "length es \<le> readSetMaxEntries")
  case True
  then show ?thesis using assms by (simp add: promoteProtected_def)
next
  case False
  then have ne: "es \<noteq> []" by auto
  have hd_in: "hd es \<in> set (take readSetMaxEntries (promoteProtected es [h]))"
    using promoteProtected_hd [OF ne, of "[h]"] promoteProtected_mset [of es "[h]"] ne
    by (cases "promoteProtected es [h]") auto
  show ?thesis
  proof (cases "h = leg_ns (es ! 0)")
    case True
    then show ?thesis using hd_in ne by (simp add: hd_conv_nth)
  next
    case other: False
    obtain j where "j < length es" "leg_ns (es ! j) = h" using assms(2) by (auto simp: in_set_conv_nth)
    then have "find (\<lambda>i. i \<notin> {0} \<and> leg_ns (es ! i) = h) [1..<length es] \<noteq> None"
      using other by (cases j) (auto simp: find_None_all intro!: bexI [of _ j])
    then obtain i where i: "find (\<lambda>i. i \<notin> {0} \<and> leg_ns (es ! i) = h) [1..<length es] = Some i" by blast
    then have "leg_ns (es ! i) = h" by (auto dest: find_Some_set)
    moreover have "promoteProtected es [h] = es ! 0 # es ! i # map ((!) es) (filter (\<lambda>k. k \<notin> set [0, i]) [1..<length es])"
      using False ne other assms(1) i by (simp add: promoteProtected_def protect_def Let_def)
    ultimately show ?thesis by simp
  qed
qed

lemma primaryFirst_mset: "mset (primaryFirst es p) = mset es"
proof -
  let ?i = "length (takeWhile (\<lambda>e. leg_ns e \<noteq> p) es)"
  have "mset (es ! i # take i es @ drop (i + 1) es) = mset es" if "i < length es" for i
    using id_take_nth_drop [OF that] by (metis Suc_eq_plus1 mset.simps(2) mset_append union_mset_add_mset_right)
  moreover have "?i \<le> length es" by (rule length_takeWhile_le)
  ultimately show ?thesis by (auto simp: primaryFirst_def Let_def)
qed

lemma primaryFirst_id: "es \<noteq> [] \<Longrightarrow> leg_ns (hd es) = p \<Longrightarrow> primaryFirst es p = es"
  by (cases es) (auto simp: primaryFirst_def)

lemma primaryFirst_hd: "p \<in> leg_ns ` set es \<Longrightarrow> leg_ns (hd (primaryFirst es p)) = p"
proof -
  assume p: "p \<in> leg_ns ` set es"
  let ?i = "length (takeWhile (\<lambda>e. leg_ns e \<noteq> p) es)"
  have "takeWhile (\<lambda>e. leg_ns e \<noteq> p) es \<noteq> es" using p by (auto simp: takeWhile_eq_all_conv)
  then have l: "?i < length es"
    by (metis length_takeWhile_le nat_less_le takeWhile_eq_take take_all_iff)
  have "leg_ns (es ! ?i) = p" using nth_length_takeWhile [OF l] by simp
  then show ?thesis using l by (cases "?i = 0") (auto simp: primaryFirst_def Let_def hd_conv_nth)
qed

section \<open>The default read set\<close>

lemma base_legs_cases:
  assumes "base_legs st sc = Inr base"
  shows "base = primary_leg (sc_primary sc) # tl base"
    and "e \<in> set base \<Longrightarrow> leg_origin e = OriginPrimary \<and> leg_tiers e = None"
    and "e \<in> set (tl base) \<Longrightarrow> sc_subtree sc \<and> HasPrefix (leg_ns e) (sc_primary sc @ ''/'')"
    and "(\<And>l. list_namespaces st = Inr l \<Longrightarrow> distinct l) \<Longrightarrow> distinct (map leg_ns base)"
  using assms
  by (auto simp: base_legs_def subtreeFrom_def primary_leg_def distinct_map inj_on_def split: if_splits sum.splits)

lemma resolveDefaultReadSet_cases:
  assumes "resolveDefaultReadSet cascade st sc = Inr es"
  obtains (base) "base_legs st sc = Inr es" "sc_bare sc \<or> \<not> cascade \<or> durableTiers (sc_reqTiers sc) = []"
    | (cascade) base legs where "base_legs st sc = Inr base" "\<not> sc_bare sc" cascade
        "durableTiers (sc_reqTiers sc) \<noteq> []"
        "link_legs st (durableTiers (sc_reqTiers sc)) (sc_primary sc)
           (home_leg (durableTiers (sc_reqTiers sc)) (sc_home sc)
             (ancestor_legs (durableTiers (sc_reqTiers sc)) (sc_primary sc) base)) = Inr legs"
        "es = promoteProtected legs [sc_home sc]"
  using assms unfolding resolveDefaultReadSet_def by (auto simp: Let_def split: sum.splits if_splits)

text \<open>All legs of the default read set before the clamp.\<close>

lemma resolveDefaultReadSet_grown:
  assumes "resolveDefaultReadSet cascade st sc = Inr es"
  obtains base legs where "base_legs st sc = Inr base" "grown (durableTiers (sc_reqTiers sc)) base legs"
    "mset es = mset legs" "hd es = primary_leg (sc_primary sc)" "es \<noteq> []"
    "sc_bare sc \<or> \<not> cascade \<Longrightarrow> es = base"
    "\<not> sc_bare sc \<Longrightarrow> cascade \<Longrightarrow> durableTiers (sc_reqTiers sc) \<noteq> [] \<Longrightarrow>
       leg_ns ` set base \<union> set (ancestorsOf (sc_primary sc)) \<union> ({sc_home sc} - {''''}) \<subseteq> leg_ns ` set legs"
  using assms
proof (cases rule: resolveDefaultReadSet_cases)
  case base
  then show ?thesis using that [of es es] base_legs_cases(1) [OF base(1)] by (metis grown_refl list.sel(1) list.distinct(1))
next
  case (cascade base legs)
  let ?gt = "durableTiers (sc_reqTiers sc)"
  let ?mid = "home_leg ?gt (sc_home sc) (ancestor_legs ?gt (sc_primary sc) base)"
  have mid: "grown ?gt base ?mid"
    using grown_trans [OF grown_ancestor_legs grown_home_leg] cascade(4) by blast
  have g: "grown ?gt base legs"
    using grown_trans [OF mid grown_link_legs [OF cascade(5)]] .
  have "leg_ns ` set ?mid \<subseteq> leg_ns ` set legs"
    using grown_mono [OF grown_link_legs [OF cascade(5)]] by blast
  then have names: "leg_ns ` set base \<union> set (ancestorsOf (sc_primary sc)) \<union> ({sc_home sc} - {''''}) \<subseteq> leg_ns ` set legs"
    by (auto simp: ns_home_leg ns_ancestor_legs split: if_splits)
  have "hd legs = primary_leg (sc_primary sc)" "legs \<noteq> []"
    using g base_legs_cases(1) [OF cascade(1)] unfolding grown_def by (metis append_Cons list.sel(1), fastforce)
  then have "hd es = primary_leg (sc_primary sc)" "es \<noteq> []"
    using promoteProtected_hd [of legs "[sc_home sc]"] promoteProtected_mset [of legs "[sc_home sc]"] cascade(6)
    by auto
  then show ?thesis
    using that [OF cascade(1) g _ _ _ _ names] promoteProtected_mset cascade(2,3,6) by metis
qed

lemma resolveReadSet_default:
  assumes "sc_explicit sc = []" and "resolveReadSet cascade st sc = Inr es"
  obtains legs where "resolveDefaultReadSet cascade st sc = Inr legs" "es = take readSetMaxEntries legs"
proof -
  obtain legs where legs: "resolveDefaultReadSet cascade st sc = Inr legs"
      "es = clampReadSet (primaryFirst legs (sc_primary sc))"
    using assms by (auto simp: resolveReadSet_def split: sum.splits)
  have "hd legs = primary_leg (sc_primary sc)" "legs \<noteq> []"
    using resolveDefaultReadSet_grown [OF legs(1)] by metis+
  then have "primaryFirst legs (sc_primary sc) = legs"
    by (simp add: primaryFirst_id primary_leg_def)
  then show ?thesis using that legs by (simp add: clampReadSet_take)
qed

text \<open>What a leg of the cascade may carry across the border of the primary namespace.\<close>

definition cascade_leg :: "Tier list \<Rightarrow> scopeEntry \<Rightarrow> bool" where
  "cascade_leg req e \<longleftrightarrow> (\<exists>ts. leg_tiers e = Some ts \<and> ts \<noteq> [] \<and> set ts \<subseteq> {TierSemantic, TierProcedural}
      \<and> (req = [] \<or> set ts \<subseteq> set req))"

lemma default_leg:
  assumes "sc_explicit sc = []" and "resolveReadSet cascade st sc = Inr es" and "e \<in> set es"
  shows "e = primary_leg (sc_primary sc)
    \<or> sc_subtree sc \<and> HasPrefix (leg_ns e) (sc_primary sc @ ''/'') \<and> leg_origin e = OriginPrimary \<and> leg_tiers e = None
    \<or> \<not> sc_bare sc \<and> cascade \<and> leg_origin e \<noteq> OriginPrimary \<and> cascade_leg (sc_reqTiers sc) e"
proof -
  let ?gt = "durableTiers (sc_reqTiers sc)"
  obtain full where full: "resolveDefaultReadSet cascade st sc = Inr full" "es = take readSetMaxEntries full"
    using resolveReadSet_default assms(1,2) by blast
  obtain base legs where b: "base_legs st sc = Inr base" "grown ?gt base legs" "mset full = mset legs"
      "sc_bare sc \<or> \<not> cascade \<Longrightarrow> full = base"
    using resolveDefaultReadSet_grown [OF full(1)] by metis
  have in_full: "e \<in> set full" using assms(3) full(2) by (meson in_set_takeD)
  show ?thesis
  proof (cases "e \<in> set base")
    case True
    then show ?thesis using base_legs_cases [OF b(1)] by (metis set_ConsD)
  next
    case False
    have "e \<in> set legs" using in_full b(3) by (metis mset_eq_setD)
    then obtain ts where ts: "leg_tiers e = Some ts" "ts \<noteq> []" "set ts \<subseteq> set ?gt" "leg_origin e \<noteq> OriginPrimary"
      using b(2) False unfolding grown_def by (metis Un_iff set_append)
    moreover have "\<not> sc_bare sc \<and> cascade" using False in_full b(4) by blast
    ultimately show ?thesis
      using durableTiers_set [of "sc_reqTiers sc"] unfolding cascade_leg_def by (meson subset_trans)
  qed
qed

lemma default_distinct:
  assumes "sc_explicit sc = []" and "resolveReadSet cascade st sc = Inr es"
    and "\<And>l. list_namespaces st = Inr l \<Longrightarrow> distinct l"
  shows "distinct (map leg_ns es)"
proof -
  obtain full where full: "resolveDefaultReadSet cascade st sc = Inr full" "es = take readSetMaxEntries full"
    using resolveReadSet_default assms(1,2) by blast
  obtain base legs where b: "base_legs st sc = Inr base" "grown (durableTiers (sc_reqTiers sc)) base legs"
      "mset full = mset legs"
    using resolveDefaultReadSet_grown [OF full(1)] by metis
  have "distinct (map leg_ns legs)"
    using base_legs_cases(4) [OF b(1) assms(3)] b(2) by (auto simp: grown_def)
  then have "distinct (map leg_ns full)"
    using b(3) by (metis mset_eq_imp_distinct_iff mset_map)
  then show ?thesis using full(2) by (simp add: take_map [symmetric])
qed

lemma default_primary:
  assumes "sc_explicit sc = []" and "resolveReadSet cascade st sc = Inr es"
  shows "es \<noteq> [] \<and> hd es = primary_leg (sc_primary sc) \<and> length es \<le> readSetMaxEntries"
proof -
  obtain full where full: "resolveDefaultReadSet cascade st sc = Inr full" "es = take readSetMaxEntries full"
    using resolveReadSet_default assms(1,2) by blast
  then have "hd full = primary_leg (sc_primary sc)" "full \<noteq> []"
    using resolveDefaultReadSet_grown [OF full(1)] by metis+
  then show ?thesis using full(2) by (cases full) auto
qed

text \<open>The home namespace survives the clamp, and the ancestors do unless it was needed.\<close>

lemma default_home:
  assumes "sc_explicit sc = []" and "resolveReadSet True st sc = Inr es" and "\<not> sc_bare sc"
    and "durableTiers (sc_reqTiers sc) \<noteq> []" and "sc_home sc \<noteq> ''''"
  shows "sc_home sc \<in> leg_ns ` set es"
proof -
  obtain full where full: "resolveDefaultReadSet True st sc = Inr full" "es = take readSetMaxEntries full"
    using resolveReadSet_default assms(1,2) by blast
  from full(1) show ?thesis
  proof (cases rule: resolveDefaultReadSet_cases)
    case base
    then show ?thesis using assms by simp
  next
    case (cascade b legs)
    have "sc_home sc \<in> leg_ns ` set legs"
      using image_mono [OF grown_mono [OF grown_link_legs [OF cascade(5)]], of leg_ns] assms(5)
      by (simp add: ns_home_leg)
    then show ?thesis using promoteProtected_home [OF assms(5)] full(2) cascade(6) by simp
  qed
qed

lemma default_ancestor:
  assumes "sc_explicit sc = []" and "resolveReadSet True st sc = Inr es" and "\<not> sc_bare sc"
    and "durableTiers (sc_reqTiers sc) \<noteq> []" and "length es < readSetMaxEntries"
  shows "set (ancestorsOf (sc_primary sc)) \<subseteq> leg_ns ` set es"
proof -
  obtain full where full: "resolveDefaultReadSet True st sc = Inr full" "es = take readSetMaxEntries full"
    using resolveReadSet_default assms(1,2) by blast
  then have "es = full" using assms(5) by simp
  then show ?thesis using resolveDefaultReadSet_grown [OF full(1)] assms(3,4) by (metis (no_types, lifting) Un_subset_iff mset_eq_setD)
qed

text \<open>
  Under the limit, an ancestor and the home namespace have a leg that admits every durable
  tier of the request.
\<close>

lemma wide_mid:
  assumes "\<forall>e \<in> set base. leg_tiers e = None" and "e \<in> set (home_leg gt h (ancestor_legs gt p base))"
  shows "leg_tiers e = None \<or> leg_tiers e = Some gt"
proof -
  have "\<forall>e \<in> set (fold (\<lambda>a. addEntry a (Some gt) OriginAncestor) xs es). leg_tiers e = None \<or> leg_tiers e = Some gt"
    if "\<forall>e \<in> set es. leg_tiers e = None \<or> leg_tiers e = Some gt" for xs es
    using that
  proof (induction xs arbitrary: es)
    case (Cons a xs)
    have "\<forall>e \<in> set (addEntry a (Some gt) OriginAncestor es). leg_tiers e = None \<or> leg_tiers e = Some gt"
      using Cons.prems by (auto simp: addEntry_Some)
    from Cons.IH [OF this] show ?case by simp
  qed simp
  then have "\<forall>e \<in> set (ancestor_legs gt p base). leg_tiers e = None \<or> leg_tiers e = Some gt"
    using assms(1) unfolding ancestor_legs_def by blast
  then show ?thesis using assms(2) by (auto simp: home_leg_def addEntry_Some split: if_splits)
qed

lemma default_wide:
  assumes "sc_explicit sc = []" and "resolveReadSet True st sc = Inr es" and "\<not> sc_bare sc"
    and "durableTiers (sc_reqTiers sc) \<noteq> []" and "length es < readSetMaxEntries"
    and "n \<in> {sc_primary sc} \<union> set (ancestorsOf (sc_primary sc)) \<union> ({sc_home sc} - {''''})"
  shows "\<exists>e \<in> set es. leg_ns e = n \<and> (leg_tiers e = None \<or> leg_tiers e = Some (durableTiers (sc_reqTiers sc)))"
proof -
  let ?gt = "durableTiers (sc_reqTiers sc)"
  obtain full where full: "resolveDefaultReadSet True st sc = Inr full" "es = take readSetMaxEntries full"
    using resolveReadSet_default assms(1,2) by blast
  then have es: "es = full" using assms(5) by simp
  from full(1) show ?thesis
  proof (cases rule: resolveDefaultReadSet_cases)
    case base
    then show ?thesis using assms by simp
  next
    case (cascade b legs)
    let ?mid = "home_leg ?gt (sc_home sc) (ancestor_legs ?gt (sc_primary sc) b)"
    have "sc_primary sc \<in> leg_ns ` set b"
      using base_legs_cases(1) [OF cascade(1)] by (metis image_eqI list.set_intros(1) primary_leg_def scopeEntry.select_convs(1))
    then have "n \<in> leg_ns ` set ?mid"
      using assms(6) by (auto simp: ns_home_leg ns_ancestor_legs split: if_splits)
    then obtain e where e: "e \<in> set ?mid" "leg_ns e = n" by blast
    have "leg_tiers e = None \<or> leg_tiers e = Some ?gt"
      using wide_mid [OF _ e(1)] base_legs_cases(2) [OF cascade(1)] by blast
    moreover have "e \<in> set es"
      using grown_mono [OF grown_link_legs [OF cascade(5)]] e(1) cascade(6) es promoteProtected_mset
      by (metis mset_eq_setD subsetD)
    ultimately show ?thesis using e(2) by blast
  qed
qed

section \<open>The explicit read set\<close>

text \<open>The namespaces that one entry of the caller's list stands for.\<close>

definition call_names :: "read_store \<Rightarrow> string \<Rightarrow> string set" where
  "call_names st r =
     (let cut = CutSuffix (TrimSpace r) ''/*''; n = NormalizeNamespace (fst cut) in
      {n} \<union> (if snd cut then
               (case list_namespaces st of Inl _ \<Rightarrow> {} | Inr names \<Rightarrow> {m \<in> set names. HasPrefix m (n @ ''/'')})
             else {}))"

definition call_legs_ok :: "string \<Rightarrow> scopeEntry list \<Rightarrow> bool" where
  "call_legs_ok prim es \<longleftrightarrow> distinct (map leg_ns es)
     \<and> (\<forall>e \<in> set es. leg_tiers e = None \<and> leg_origin e = (if leg_ns e = prim then OriginPrimary else OriginCall))"

lemma add_call_ok: "call_legs_ok prim es \<Longrightarrow> call_legs_ok prim (add_call prim n es)"
  by (auto simp: call_legs_ok_def add_call_def)

lemma add_call_ns: "leg_ns ` set (add_call prim n es) = insert n (leg_ns ` set es)"
  by (auto simp: add_call_def)

lemma fold_add_call:
  "call_legs_ok prim es \<Longrightarrow> call_legs_ok prim (fold (add_call prim) ns es)"
  "leg_ns ` set (fold (add_call prim) ns es) = leg_ns ` set es \<union> set ns"
  by (induction ns arbitrary: es) (auto simp: add_call_ok add_call_ns)

lemma explicit_legs_result:
  assumes "explicit_legs st prim raw es = Inr es'" and "call_legs_ok prim es"
  shows "call_legs_ok prim es' \<and> leg_ns ` set es' = leg_ns ` set es \<union> (\<Union>r \<in> set raw. call_names st r)
    \<and> (\<forall>r \<in> set raw. ValidateNamespace (NormalizeNamespace (fst (CutSuffix (TrimSpace r) ''/*''))) = None)"
  using assms
proof (induction raw arbitrary: es)
  case (Cons r raw)
  let ?cut = "CutSuffix (TrimSpace r) ''/*''"
  let ?n = "NormalizeNamespace (fst ?cut)"
  have valid: "ValidateNamespace ?n = None"
    using Cons.prems(1) by (auto simp: Let_def split: option.splits)
  show ?case
  proof (cases "snd ?cut")
    case False
    then have "explicit_legs st prim raw (add_call prim ?n es) = Inr es'"
      using Cons.prems(1) valid by (simp add: Let_def)
    from Cons.IH [OF this add_call_ok [OF Cons.prems(2)]] show ?thesis
      using False valid by (auto simp: add_call_ns call_names_def Let_def)
  next
    case True
    then obtain names where names: "list_namespaces st = Inr names"
        "explicit_legs st prim raw
           (fold (add_call prim) (filter (\<lambda>m. m \<noteq> ?n \<and> HasPrefix m (?n @ ''/'')) names) (add_call prim ?n es)) = Inr es'"
      using Cons.prems(1) valid by (auto simp: Let_def split: sum.splits)
    have "call_names st r = insert ?n (set (filter (\<lambda>m. m \<noteq> ?n \<and> HasPrefix m (?n @ ''/'')) names))"
      using True names(1) by (auto simp: call_names_def Let_def)
    then show ?thesis
      using Cons.IH [OF names(2) fold_add_call(1) [OF add_call_ok [OF Cons.prems(2)]]] valid
      by (auto simp: fold_add_call(2) add_call_ns)
  qed
qed simp

lemma resolveReadSet_explicit:
  assumes "sc_explicit sc \<noteq> []" and "resolveReadSet cascade st sc = Inr es"
  obtains legs where "explicit_legs st (sc_primary sc) (sc_explicit sc) [] = Inr legs"
    "es = take readSetMaxEntries (primaryFirst legs (sc_primary sc))"
    "length (sc_explicit sc) \<le> readSetMaxExplicit"
  using assms
  by (auto simp: resolveReadSet_def resolveExplicitReadSet_def clampReadSet_take split: sum.splits if_splits)

section \<open>Provenance\<close>

lemma OriginMap_lookup:
  assumes "distinct (map leg_ns es)" and "e \<in> set es"
  shows "OriginMap (toReadSetEntries es) (leg_ns e) = Some (leg_origin e)"
proof -
  have absent: "fold put_origin (toReadSetEntries xs) m n = m n" if "n \<notin> leg_ns ` set xs" for xs m n
    using that by (induction xs arbitrary: m) (auto simp: toReadSetEntries_def put_origin_def)
  have "fold put_origin (toReadSetEntries es) m (leg_ns e) = Some (leg_origin e)" for m
    using assms
  proof (induction es arbitrary: m)
    case (Cons x xs)
    show ?case
    proof (cases "e \<in> set xs")
      case True
      then show ?thesis using Cons by (simp add: toReadSetEntries_def)
    next
      case False
      then have x: "x = e" "leg_ns e \<notin> leg_ns ` set xs" using Cons.prems by auto
      have "fold put_origin (toReadSetEntries (x # xs)) m (leg_ns e)
          = put_origin \<lparr> reNS = leg_ns x, reOrigin = leg_origin x, reTiers = leg_tiers x \<rparr> m (leg_ns e)"
        using absent [OF x(2)] by (simp add: toReadSetEntries_def)
      also have "\<dots> = Some (leg_origin e)" using x(1) by (simp add: put_origin_def)
      finally show ?thesis .
    qed
  qed simp
  then show ?thesis by (simp add: OriginMap_def)
qed

end
