(* ===== verification/Namespace_Resolution.thy ===== *)
theory Namespace_Resolution
  imports Go_Strings Store_Types
begin

text \<open>
  Which namespace a project belongs to: the package \<open>internal/nsresolve\<close> (\<open>resolve.go\<close>,
  \<open>remote.go\<close>, \<open>keys.go\<close>). The facts a client sends, the pins of the server, the settings and
  the two defaults give the namespace and the rule that chose it.

  The regular expressions are written out as functions. \<open>PinLookup\<close> is a function of the pin
  keys, or \<open>None\<close> for a nil callback.
\<close>

section \<open>Remotes\<close>

text \<open>\<open>scpStyleRe\<close>, \<open>^[^/:]+:[^/]\<close>.\<close>

definition scp_style :: "string \<Rightarrow> bool" where
  "scp_style s =
     (let host = takeWhile (\<lambda>c. c \<noteq> slash \<and> c \<noteq> CHR '':'') s in
      host \<noteq> [] \<and>
      (case drop (length host) s of
         c # d # _ \<Rightarrow> c = CHR '':'' \<and> d \<noteq> slash
       | _ \<Rightarrow> False))"

definition is_letter :: "char \<Rightarrow> bool" where
  "is_letter c = (let n = of_char c :: nat in (65 \<le> n \<and> n \<le> 90) \<or> (97 \<le> n \<and> n \<le> 122))"

definition is_digit :: "char \<Rightarrow> bool" where
  "is_digit c = (let n = of_char c :: nat in 48 \<le> n \<and> n \<le> 57)"

text \<open>\<open>schemeRe.ReplaceAllString(s, "")\<close>, \<open>(?i)^[a-z][a-z0-9+.-]*://\<close>.\<close>

definition strip_scheme :: "string \<Rightarrow> string" where
  "strip_scheme s =
     (let tail = dropWhile (\<lambda>c. is_letter c \<or> is_digit c \<or> c \<in> set ''+.-'') s in
      if s \<noteq> [] \<and> is_letter (hd s) \<and> HasPrefix tail ''://'' then drop 3 tail else s)"

text \<open>\<open>dotGitRe.ReplaceAllString(s, "")\<close>, \<open>(?i)\.git$\<close>.\<close>

definition strip_dot_git :: "string \<Rightarrow> string" where
  "strip_dot_git s = (if HasSuffix (ToLower s) ''.git'' then take (length s - 4) s else s)"

definition cleanRemote :: "string \<Rightarrow> string" where
  "cleanRemote url = strip_dot_git (TrimRight slash (TrimSpace url))"

definition remotePathSegments :: "string \<Rightarrow> string list" where
  "remotePathSegments url =
     (if TrimSpace url = '''' then []
      else let cleaned = cleanRemote url in
        if cleaned = '''' then []
        else let path = (if scp_style cleaned
                         then let (_, after, found) = Cut cleaned (CHR '':'') in
                           if found then after else cleaned
                         else cleaned)
          in filter (\<lambda>s. s \<noteq> '''') (split_on (\<lambda>c. c = slash) path))"

text \<open>\<open>sanitizeSegmentRe\<close> replaces every run of other characters by one dash.\<close>

definition segment_char :: "char \<Rightarrow> bool" where
  "segment_char c \<longleftrightarrow> is_letter c \<or> is_digit c \<or> c \<in> set ''._-''"

fun dash_runs :: "bool \<Rightarrow> string \<Rightarrow> string" where
  "dash_runs in_run [] = []"
| "dash_runs in_run (c # s) =
     (if segment_char c then c # dash_runs False s
      else if in_run then dash_runs True s
      else CHR ''-'' # dash_runs True s)"

definition sanitizeSegment :: "string \<Rightarrow> string" where
  "sanitizeSegment s = Trim (CHR ''-'') (dash_runs False s)"

definition repoNameFromRemote :: "string \<Rightarrow> string" where
  "repoNameFromRemote url =
     (let segs = remotePathSegments url in if segs = [] then '''' else last segs)"

definition joinOwnerRepo :: "string \<Rightarrow> string \<Rightarrow> string" where
  "joinOwnerRepo url sep =
     (let segs = remotePathSegments url in
      if segs = [] then ''''
      else if length segs = 1 then hd segs
      else let owner = sanitizeSegment (segs ! (length segs - 2));
               repo = segs ! (length segs - 1)
        in if owner = '''' then repo else owner @ sep @ repo)"

definition repoSlugFromRemote :: "string \<Rightarrow> string" where
  "repoSlugFromRemote url = joinOwnerRepo url ''-''"

definition repoPathFromRemote :: "string \<Rightarrow> string" where
  "repoPathFromRemote url = joinOwnerRepo url ''/''"

text \<open>The authority without \<open>user@\<close> and without \<open>:port\<close>.\<close>

definition bare_host :: "string \<Rightarrow> string" where
  "bare_host authority =
     (let i = LastIndexByte authority (CHR ''@'');
          a = (if 0 \<le> i then drop (nat i + 1) authority else authority);
          j = IndexByte a (CHR '':'')
      in if 0 \<le> j then take (nat j) a else a)"

definition CanonicalRemote :: "string \<Rightarrow> string" where
  "CanonicalRemote url =
     (let cleaned = cleanRemote url in
      if cleaned = '''' then ''''
      else
        let (authority, path) =
              (if scp_style cleaned
               then let i = nat (IndexByte cleaned (CHR '':'')) in (take i cleaned, drop (i + 1) cleaned)
               else let rest = strip_scheme cleaned; (before, after, found) = Cut rest slash in
                 if found then (before, after) else (rest, ''''));
            host = bare_host authority
        in ToLower (if path \<noteq> '''' then host @ ''/'' @ path else host))"

section \<open>Facts and pin keys\<close>

record Facts =
  RemoteURL :: string
  ToplevelPath :: string
  ToplevelBasename :: string
  CwdBasename :: string
  Agent :: string
  EnvNamespace :: string
  DeclaredNamespace :: string

definition PinKeys :: "Facts \<Rightarrow> string list" where
  "PinKeys f =
     (let canon = CanonicalRemote (RemoteURL f) in
      (if canon \<noteq> '''' then [''remote:'' @ canon] else []) @
      (if ToplevelPath f \<noteq> '''' then [''path:'' @ ToplevelPath f] else []))"

section \<open>Resolution\<close>

datatype NamespaceSource =
    SourcePin | SourceEnv | SourceDeclared | SourceRemote | SourceToplevel | SourceCwd
  | SourceKeyDefault | SourceServerDefault

record Resolution =
  resNamespace :: string
  resSource :: NamespaceSource
  PinKey :: string

text \<open>The name of the offending fact, the value and what is wrong with it.\<close>

datatype resolve_error =
    InvalidInput string string namespace_error
  | PinLookupFailed store_error

type_synonym PinLookup = "(string list \<Rightarrow> store_error + (string \<times> string) option) option"

definition scope_of :: "ClientSettings \<Rightarrow> string" where
  "scope_of s = (case NamespaceScope s of Some v \<Rightarrow> v | None \<Rightarrow> ''repo'')"

definition derive :: "Facts \<Rightarrow> ClientSettings \<Rightarrow> (string \<times> NamespaceSource \<times> string) option" where
  "derive f s =
     (let name =
            (if RemoteURL f = '''' then ''''
             else if scope_of s = ''owner_repo'' then repoSlugFromRemote (RemoteURL f)
             else if scope_of s = ''owner_tree'' then repoPathFromRemote (RemoteURL f)
             else repoNameFromRemote (RemoteURL f))
      in if name \<noteq> '''' then Some (name, SourceRemote, ''remote_url'')
         else if ToplevelBasename f \<noteq> '''' then Some (ToplevelBasename f, SourceToplevel, ''toplevel_basename'')
         else if CwdBasename f \<noteq> '''' then Some (CwdBasename f, SourceCwd, ''cwd_basename'')
         else None)"

definition applyPrefix :: "string \<Rightarrow> ClientSettings \<Rightarrow> string" where
  "applyPrefix base s =
     (case NamespacePrefix s of
        Some p \<Rightarrow> if p \<noteq> '''' then p @ ''/'' @ base else base
      | None \<Rightarrow> base)"

definition withAgent :: "string \<Rightarrow> string \<Rightarrow> string" where
  "withAgent base agent =
     (let seg = sanitizeSegment agent in if seg = '''' then base else base @ ''/'' @ seg)"

definition finalize :: "string \<Rightarrow> string \<Rightarrow> resolve_error + string" where
  "finalize ns what =
     (let out = NormalizeNamespace ns in
      case ValidateNamespace out of
        Some e \<Rightarrow> Inl (InvalidInput what ns e)
      | None \<Rightarrow> Inr out)"

definition conclude :: "string \<Rightarrow> string \<Rightarrow> NamespaceSource \<Rightarrow> string \<Rightarrow> resolve_error + Resolution" where
  "conclude ns what src key =
     (case finalize ns what of
        Inl e \<Rightarrow> Inl e
      | Inr out \<Rightarrow> Inr \<lparr> resNamespace = out, resSource = src, PinKey = key \<rparr>)"

definition resolve_unpinned ::
    "Facts \<Rightarrow> ClientSettings \<Rightarrow> string \<Rightarrow> string \<Rightarrow> resolve_error + Resolution" where
  "resolve_unpinned f s keyDefault serverDefault =
     (if EnvNamespace f \<noteq> '''' then conclude (EnvNamespace f) ''env_namespace'' SourceEnv ''''
      else if DeclaredNamespace f \<noteq> '''' then
        conclude (DeclaredNamespace f) ''declared_namespace'' SourceDeclared ''''
      else
        case derive f s of
          Some (base, src, what) \<Rightarrow> conclude (withAgent (applyPrefix base s) (Agent f)) what src ''''
        | None \<Rightarrow>
            if keyDefault \<noteq> '''' then conclude keyDefault ''key_default'' SourceKeyDefault ''''
            else conclude serverDefault ''server_default'' SourceServerDefault '''')"

definition Resolve ::
    "Facts \<Rightarrow> PinLookup \<Rightarrow> ClientSettings \<Rightarrow> string \<Rightarrow> string \<Rightarrow> resolve_error + Resolution" where
  "Resolve f pin_lookup s keyDefault serverDefault =
     (case pin_lookup of
        None \<Rightarrow> resolve_unpinned f s keyDefault serverDefault
      | Some find_pin \<Rightarrow>
          if PinKeys f = [] then resolve_unpinned f s keyDefault serverDefault
          else case find_pin (PinKeys f) of
                 Inl e \<Rightarrow> Inl (PinLookupFailed e)
               | Inr (Some (ns, key)) \<Rightarrow> conclude ns ''pin'' SourcePin key
               | Inr None \<Rightarrow> resolve_unpinned f s keyDefault serverDefault)"

section \<open>The chosen namespace\<close>

lemma conclude_Inr:
  "conclude ns what src key = Inr r \<longleftrightarrow>
     ValidateNamespace (NormalizeNamespace ns) = None
     \<and> r = \<lparr> resNamespace = NormalizeNamespace ns, resSource = src, PinKey = key \<rparr>"
  by (auto simp: conclude_def finalize_def Let_def split: option.splits)

text \<open>Whatever the rule, the namespace is the normal form of some text, and valid.\<close>

lemma resolve_unpinned_conclude:
  "\<exists>ns what src. resolve_unpinned f s kd sd = conclude ns what src '''' \<and> src \<noteq> SourcePin"
proof -
  have "src \<noteq> SourcePin" if "derive f s = Some (b, src, what)" for b src what
    using that by (auto simp: derive_def Let_def split: if_splits)
  then show ?thesis
    unfolding resolve_unpinned_def by (auto split: option.split) metis+
qed

lemma Resolve_conclude:
  assumes "Resolve f pl s kd sd = Inr r"
  shows "\<exists>ns what src key. Inr r = conclude ns what src key \<and> (key \<noteq> '''' \<longrightarrow> src = SourcePin)"
  using assms resolve_unpinned_conclude [of f s kd sd]
  unfolding Resolve_def by (auto split: option.splits sum.splits if_splits) metis+

section \<open>Pin keys\<close>

lemma lower_char_eq [simp]:
  "lower_char c = slash \<longleftrightarrow> c = slash" "lower_char c = CHR ''@'' \<longleftrightarrow> c = CHR ''@''"
  "lower_char c = CHR '':'' \<longleftrightarrow> c = CHR '':''"
proof -
  have inj: "c = d \<longleftrightarrow> (of_char c :: nat) = of_char d" for c d :: char by simp
  show "lower_char c = slash \<longleftrightarrow> c = slash" "lower_char c = CHR ''@'' \<longleftrightarrow> c = CHR ''@''"
    "lower_char c = CHR '':'' \<longleftrightarrow> c = CHR '':''"
    by (simp_all only: inj of_char_lower_char Let_def) (simp_all add: of_char_def)
qed

lemma ToLower_mem:
  "slash \<in> set (ToLower s) \<longleftrightarrow> slash \<in> set s" "CHR ''@'' \<in> set (ToLower s) \<longleftrightarrow> CHR ''@'' \<in> set s"
  "CHR '':'' \<in> set (ToLower s) \<longleftrightarrow> CHR '':'' \<in> set s"
  by (induction s) (simp_all add: ToLower_def eq_commute [of _ "lower_char _"], simp_all add: eq_commute)

lemma bare_host_chars:
  "set (bare_host a) \<subseteq> set a" "CHR ''@'' \<notin> set (bare_host a)" "CHR '':'' \<notin> set (bare_host a)"
proof -
  define b where "b = (if 0 \<le> LastIndexByte a (CHR ''@'') then drop (nat (LastIndexByte a (CHR ''@'')) + 1) a else a)"
  have b: "set b \<subseteq> set a" "CHR ''@'' \<notin> set b"
  proof -
    show "set b \<subseteq> set a" by (auto simp: b_def dest: in_set_dropD)
    show "CHR ''@'' \<notin> set b"
    proof (cases "CHR ''@'' \<in> set a")
      case True
      then obtain x y where "a = x @ CHR ''@'' # y" "CHR ''@'' \<notin> set y" using last_sep by metis
      then show ?thesis by (simp add: b_def LastIndexByte_append)
    next
      case False
      then show ?thesis by (simp add: b_def LastIndexByte_absent)
    qed
  qed
  have h: "bare_host a = (if 0 \<le> IndexByte b (CHR '':'') then take (nat (IndexByte b (CHR '':''))) b else b)"
    by (simp add: bare_host_def b_def Let_def)
  have "set (bare_host a) \<subseteq> set b" by (auto simp: h dest: in_set_takeD)
  with b show "set (bare_host a) \<subseteq> set a" "CHR ''@'' \<notin> set (bare_host a)" by auto
  show "CHR '':'' \<notin> set (bare_host a)"
  proof (cases "CHR '':'' \<in> set b")
    case True
    then obtain x y where "b = x @ CHR '':'' # y" "CHR '':'' \<notin> set x" using first_sep by metis
    then show ?thesis by (simp add: h IndexByte_append)
  next
    case False
    then show ?thesis by (simp add: h IndexByte_absent)
  qed
qed

text \<open>The canonical form is a bare host, followed by a path or by nothing.\<close>

lemma CanonicalRemote_host:
  "\<exists>a path. slash \<notin> set a \<and> (CanonicalRemote url = ToLower (bare_host a @ slash # path)
      \<or> CanonicalRemote url = ToLower (bare_host a))"
proof (cases "cleanRemote url = ''''")
  case True
  have "bare_host '''' = ''''" by (simp add: bare_host_def LastIndexByte_absent IndexByte_absent)
  moreover have "CanonicalRemote url = ''''" using True by (simp add: CanonicalRemote_def)
  ultimately show ?thesis by (intro exI [of _ "''''"]) (simp add: ToLower_def)
next
  case False
  show ?thesis
  proof (cases "scp_style (cleanRemote url)")
    case True
    define host where "host = takeWhile (\<lambda>c. c \<noteq> slash \<and> c \<noteq> CHR '':'') (cleanRemote url)"
    define t where "t = drop (length host) (cleanRemote url)"
    have split: "cleanRemote url = host @ t"
      unfolding host_def t_def by (simp only: takeWhile_drop)
    obtain d r where "t = CHR '':'' # d # r"
      using True unfolding scp_style_def Let_def host_def [symmetric] t_def [symmetric]
      by (auto split: list.splits)
    with split have r: "cleanRemote url = host @ CHR '':'' # d # r" by simp
    have host: "slash \<notin> set host" "CHR '':'' \<notin> set host"
      unfolding host_def by (auto dest: set_takeWhileD)
    then have "CanonicalRemote url = ToLower (bare_host host @ slash # d # r)"
      using True r by (simp add: CanonicalRemote_def IndexByte_append)
    then show ?thesis using host(1) by blast
  next
    case no: False
    define rest where "rest = strip_scheme (cleanRemote url)"
    have canon: "CanonicalRemote url = (let (before, after, found) = Cut rest slash in
        ToLower (if found \<and> after \<noteq> '''' then bare_host before @ slash # after
                 else bare_host (if found then before else rest)))"
      using False no by (simp add: CanonicalRemote_def Let_def split: prod.split flip: rest_def)
    show ?thesis
    proof (cases "slash \<in> set rest")
      case True
      then obtain a path where a: "rest = a @ slash # path" "slash \<notin> set a" using first_sep by metis
      then have "CanonicalRemote url = ToLower (if path \<noteq> '''' then bare_host a @ slash # path else bare_host a)"
        unfolding canon a(1) Cut_append [OF a(2)] by simp
      then have "CanonicalRemote url = ToLower (bare_host a @ slash # path) \<or> CanonicalRemote url = ToLower (bare_host a)"
        by (simp split: if_splits)
      with a(2) show ?thesis by metis
    next
      case flat: False
      then have "CanonicalRemote url = ToLower (bare_host rest)"
        unfolding canon Cut_absent [OF flat] by simp
      then show ?thesis using flat by (metis (no_types))
    qed
  qed
qed

lemma takeWhile_ToLower: "takeWhile (\<lambda>c. c \<noteq> slash) (ToLower s) = ToLower (takeWhile (\<lambda>c. c \<noteq> slash) s)"
  by (induction s) (auto simp: ToLower_def)

lemma CanonicalRemote_credential_free:
  "CHR ''@'' \<notin> set (takeWhile (\<lambda>c. c \<noteq> slash) (CanonicalRemote url))
   \<and> CHR '':'' \<notin> set (takeWhile (\<lambda>c. c \<noteq> slash) (CanonicalRemote url))"
proof -
  obtain a path where a: "slash \<notin> set a" "CanonicalRemote url = ToLower (bare_host a @ slash # path)
      \<or> CanonicalRemote url = ToLower (bare_host a)"
    using CanonicalRemote_host by metis
  have flat: "slash \<notin> set (bare_host a)" using a(1) bare_host_chars(1) by blast
  have "takeWhile (\<lambda>c. c \<noteq> slash) (bare_host a @ slash # path) = bare_host a"
    using flat by (rule takeWhile_absent)
  moreover have "takeWhile (\<lambda>c. c \<noteq> slash) (bare_host a) = bare_host a"
    using flat unfolding takeWhile_eq_all_conv by metis
  ultimately have "takeWhile (\<lambda>c. c \<noteq> slash) (CanonicalRemote url) = ToLower (bare_host a)"
    using a(2) by (metis (no_types) takeWhile_ToLower)
  then show ?thesis using bare_host_chars(2,3) by (simp only: ToLower_mem) simp
qed

section \<open>One key for all spellings of a remote\<close>

lemma HasSuffix_after_sep:
  assumes "HasSuffix (a @ c # p) s" and "c \<notin> set s"
  shows "HasSuffix p s"
proof -
  obtain t where t: "a @ c # p = t @ s" using assms(1) by (auto simp: HasSuffix_iff)
  then have "(\<exists>us. a = t @ us \<and> us @ c # p = s) \<or> (\<exists>us. a @ us = t \<and> c # p = us @ s)"
    unfolding append_eq_append_conv2 by blast
  moreover have "us @ c # p \<noteq> s" for us using assms(2) by (metis in_set_conv_decomp)
  ultimately obtain us where us: "c # p = us @ s" by blast
  show ?thesis
  proof (cases us)
    case Nil
    then show ?thesis using us assms(2) by (metis append_Nil list.set_intros(1))
  next
    case (Cons _ v)
    then show ?thesis using us by (auto simp: HasSuffix_iff)
  qed
qed

text \<open>A plain path: no white space at its end, no slash at either end, no \<open>.git\<close>.\<close>

definition plain_path :: "string \<Rightarrow> bool" where
  "plain_path p \<longleftrightarrow> p \<noteq> '''' \<and> hd p \<noteq> slash \<and> last p \<noteq> slash \<and> \<not> is_space (last p)
     \<and> \<not> HasSuffix (ToLower p) ''.git''"

definition plain_name :: "string \<Rightarrow> bool" where
  "plain_name h \<longleftrightarrow> h \<noteq> '''' \<and> \<not> is_space (hd h) \<and> slash \<notin> set h \<and> CHR '':'' \<notin> set h \<and> CHR ''@'' \<notin> set h"

lemma not_space [simp]: "\<not> is_space slash" "\<not> is_space (CHR ''t'')" "\<not> is_space (CHR ''h'')" "\<not> is_space (CHR ''s'')"
  by (simp_all add: is_space_def of_char_def)

lemma cleanRemote_plain:
  assumes "x \<noteq> ''''" "\<not> is_space (hd x)" "c = slash \<or> c = CHR '':''" "plain_path p" "g = '''' \<or> g = ''.git''"
  shows "cleanRemote (x @ c # p @ g @ replicate n slash) = x @ c # p"
proof -
  let ?u = "x @ c # p @ g @ replicate n slash"
  have p: "p \<noteq> ''''" "last p \<noteq> slash" "\<not> is_space (last p)" "\<not> HasSuffix (ToLower p) ''.git''"
    using assms(4) by (simp_all add: plain_path_def)
  have "\<not> is_space (last ?u)"
    using p assms(5) by (cases n) (auto simp: last_append)
  then have trim: "TrimSpace ?u = ?u"
    using assms(1,2) by (intro TrimSpace_id) simp
  have "TrimRight slash ((x @ c # p @ g) @ replicate n slash) = x @ c # p @ g"
    using p assms(5) by (intro TrimRight_append) (auto simp: last_append)
  then have right: "TrimRight slash ?u = x @ c # p @ g" by simp
  have none: "\<not> HasSuffix (ToLower (x @ c # p)) ''.git''"
  proof
    assume "HasSuffix (ToLower (x @ c # p)) ''.git''"
    then have "HasSuffix (ToLower x @ lower_char c # ToLower p) ''.git''" by (simp add: ToLower_def)
    moreover have "lower_char c = c" using assms(3) by (metis lower_char_eq(1,3))
    ultimately have "HasSuffix (ToLower x @ c # ToLower p) ''.git''" by simp
    moreover have "c \<notin> set ''.git''" using assms(3) by (elim disjE) simp_all
    ultimately have "HasSuffix (ToLower p) ''.git''" by (rule HasSuffix_after_sep)
    then show False using p(4) by simp
  qed
  have "ToLower ''.git'' = ''.git''" by (simp add: ToLower_def lower_char_def of_char_def)
  then have git: "strip_dot_git (y @ ''.git'') = y" for y
    by (simp add: strip_dot_git_def ToLower_def HasSuffix_iff)
  show ?thesis
    unfolding cleanRemote_def trim right
    using assms(5) none git [of "x @ c # p"] by (auto simp: strip_dot_git_def)
qed

lemma bare_host_plain:
  assumes "plain_name h" and "CHR ''@'' \<notin> set port"
  shows "bare_host h = h" "bare_host (u @ ''@'' @ h) = h" "bare_host (h @ '':'' @ port) = h"
    "bare_host (u @ ''@'' @ h @ '':'' @ port) = h"
proof -
  have h: "CHR '':'' \<notin> set h" "CHR ''@'' \<notin> set h" using assms(1) by (simp_all add: plain_name_def)
  then have at: "CHR ''@'' \<notin> set (h @ CHR '':'' # port)" using assms(2) by simp
  show "bare_host h = h" using h by (simp add: bare_host_def LastIndexByte_absent IndexByte_absent)
  show "bare_host (u @ ''@'' @ h) = h"
    using h by (simp add: bare_host_def LastIndexByte_append IndexByte_absent)
  show "bare_host (h @ '':'' @ port) = h"
    using h at by (simp add: bare_host_def LastIndexByte_absent IndexByte_append)
  show "bare_host (u @ ''@'' @ h @ '':'' @ port) = h"
    using h LastIndexByte_append [OF at, of u] by (simp add: bare_host_def IndexByte_append)
qed

lemma scp_style_host:
  assumes "host \<noteq> ''''" "slash \<notin> set host" "CHR '':'' \<notin> set host"
  shows "scp_style (host @ CHR '':'' # p) \<longleftrightarrow> p \<noteq> '''' \<and> hd p \<noteq> slash"
proof -
  have "takeWhile (\<lambda>c. c \<noteq> slash \<and> c \<noteq> CHR '':'') (host @ CHR '':'' # p) = host"
    using assms by (subst takeWhile_append2) auto
  then show ?thesis using assms(1) by (cases p) (simp_all add: scp_style_def)
qed

lemma CanonicalRemote_url:
  assumes sch: "scheme = ''https'' \<or> scheme = ''ssh''" and a: "slash \<notin> set a" and p: "plain_path p"
    and g: "g = '''' \<or> g = ''.git''"
  shows "CanonicalRemote (scheme @ ''://'' @ a @ ''/'' @ p @ g @ replicate n slash) = ToLower (bare_host a @ ''/'' @ p)"
proof -
  have ne: "p \<noteq> ''''" using p by (simp add: plain_path_def)
  have clean: "cleanRemote (scheme @ ''://'' @ a @ ''/'' @ p @ g @ replicate n slash) = scheme @ ''://'' @ a @ slash # p"
    using cleanRemote_plain [of "scheme @ ''://'' @ a" slash p g n] sch p g by auto
  have "slash \<notin> set scheme" "CHR '':'' \<notin> set scheme" "scheme \<noteq> ''''" using sch by auto
  then have not_scp: "\<not> scp_style (scheme @ ''://'' @ a @ slash # p)"
    using scp_style_host [of scheme "''//'' @ a @ slash # p"] by simp
  have colon: "\<not> (is_letter (CHR '':'') \<or> is_digit (CHR '':'') \<or> CHR '':'' \<in> set ''+.-'')"
    by (simp add: is_letter_def is_digit_def of_char_def)
  have "\<forall>c \<in> set scheme. is_letter c" using sch by (auto simp: is_letter_def of_char_def)
  then have "dropWhile (\<lambda>c. is_letter c \<or> is_digit c \<or> c \<in> set ''+.-'') (scheme @ ''://'' @ a @ slash # p) = ''://'' @ a @ slash # p"
    using colon by (subst dropWhile_append2) auto
  moreover have "is_letter (hd (scheme @ ''://'' @ a @ slash # p))"
    using sch by (auto simp: is_letter_def of_char_def)
  ultimately have "strip_scheme (scheme @ ''://'' @ a @ slash # p) = a @ slash # p"
    by (simp add: strip_scheme_def HasPrefix_def)
  then show ?thesis
    unfolding CanonicalRemote_def clean using not_scp Cut_append [OF a] ne by simp
qed

lemma CanonicalRemote_scp:
  assumes u: "plain_name u" and h: "plain_name h" and p: "plain_path p" and g: "g = '''' \<or> g = ''.git''"
  shows "CanonicalRemote (u @ ''@'' @ h @ '':'' @ p @ g @ replicate n slash) = ToLower (h @ ''/'' @ p)"
proof -
  let ?a = "u @ ''@'' @ h"
  have a: "?a \<noteq> ''''" "slash \<notin> set ?a" "CHR '':'' \<notin> set ?a" "\<not> is_space (hd ?a)"
    using u h by (auto simp: plain_name_def)
  have ne: "p \<noteq> ''''" "hd p \<noteq> slash" using p by (simp_all add: plain_path_def)
  have clean: "cleanRemote (u @ ''@'' @ h @ '':'' @ p @ g @ replicate n slash) = ?a @ CHR '':'' # p"
    using cleanRemote_plain [of ?a "CHR '':''" p g n] a p g by simp
  have scp: "scp_style (?a @ CHR '':'' # p)"
    unfolding scp_style_host [OF a(1-3)] using ne by simp
  have "nat (IndexByte (?a @ CHR '':'' # p) (CHR '':'')) = length ?a"
    using IndexByte_append [OF a(3)] by (simp only: nat_int)
  then have "CanonicalRemote (u @ ''@'' @ h @ '':'' @ p @ g @ replicate n slash)
      = ToLower (bare_host ?a @ ''/'' @ p)"
    unfolding CanonicalRemote_def clean Let_def using scp ne(1) a(1) by simp
  then show ?thesis using bare_host_plain(2) [OF h, of "''''" u] by simp
qed

section \<open>A segment below a namespace\<close>

lemma set_dash_runs: "set (dash_runs b s) \<subseteq> {c. segment_char c}"
  by (induction b s rule: dash_runs.induct) (auto simp: segment_char_def)

lemma set_Trim: "set (Trim c s) \<subseteq> set s"
  by (auto simp: Trim_def dest!: set_dropWhileD)

lemma segment_char_code:
  assumes "segment_char c"
  shows "45 \<le> (of_char c :: nat) \<and> (of_char c :: nat) \<noteq> 47"
proof -
  have "c \<in> set ''._-'' \<Longrightarrow> ?thesis" by (elim set_ConsD [THEN disjE]) (simp_all add: of_char_def)
  then show ?thesis using assms by (auto simp: segment_char_def is_letter_def is_digit_def Let_def)
qed

lemma sanitizeSegment_chars:
  assumes "c \<in> set (sanitizeSegment s)"
  shows "c \<noteq> slash \<and> \<not> is_space c"
proof -
  have "segment_char c"
    using assms set_Trim set_dash_runs unfolding sanitizeSegment_def by blast
  then have code: "45 \<le> (of_char c :: nat)" "(of_char c :: nat) \<noteq> 47" using segment_char_code by blast+
  have "(of_char slash :: nat) = 47" by (simp add: of_char_def)
  then have "c \<noteq> slash" using code(2) by metis
  moreover have "\<not> is_space c" using code(1) by (simp add: is_space_def Let_def)
  ultimately show ?thesis by simp
qed

lemma dropWhile_snoc_part:
  assumes "b \<noteq> []" and "\<not> P (last b)"
  shows "dropWhile P (b @ ys) = dropWhile P b @ ys" "dropWhile P b \<noteq> []" "last (dropWhile P b) = last b"
proof -
  have l: "last b \<in> set b" using assms(1) by simp
  show "dropWhile P (b @ ys) = dropWhile P b @ ys" using l assms(2) by (rule dropWhile_append1)
  show ne: "dropWhile P b \<noteq> []" using l assms(2) by (auto simp: dropWhile_eq_Nil_conv)
  then show "last (dropWhile P b) = last b"
    by (metis last_appendR takeWhile_dropWhile_id)
qed

lemma trim_both_append:
  assumes "b \<noteq> []" and "\<not> P (last b)" and "ys \<noteq> []" and "\<not> P (last ys)"
  shows "rev (dropWhile P (rev (dropWhile P (b @ ys)))) = dropWhile P b @ ys"
    and "rev (dropWhile P (rev (dropWhile P b))) = dropWhile P b"
proof -
  have id: "rev (dropWhile P (rev zs)) = zs" if "zs \<noteq> []" "\<not> P (last zs)" for zs
    using that by (simp add: dropWhile_id hd_rev)
  show "rev (dropWhile P (rev (dropWhile P (b @ ys)))) = dropWhile P b @ ys"
    unfolding dropWhile_snoc_part(1) [where P = P and b = b, OF assms(1,2)] by (rule id) (use assms(3,4) in auto)
  show "rev (dropWhile P (rev (dropWhile P b))) = dropWhile P b"
    by (rule id) (use dropWhile_snoc_part [where P = P and b = b, OF assms(1,2)] assms(2) in auto)
qed

lemma single_slashes_segment:
  assumes "b \<noteq> []" and "last b \<noteq> slash" and "seg \<noteq> []" and "slash \<notin> set seg"
  shows "single_slashes (b @ slash # seg) = single_slashes b @ slash # seg"
  using assms(1,2)
proof (induction b rule: single_slashes.induct [case_names pair nil one])
  case (pair x y s)
  have "single_slashes (x # y # s @ slash # seg) =
      (if x = slash \<and> y = slash then single_slashes (y # s @ slash # seg)
       else x # single_slashes (y # s @ slash # seg))" by simp
  then show ?case using pair by (cases "x = slash \<and> y = slash") auto
next
  case (one x)
  have "\<not> has_double_slash seg" using assms(4) by (induction seg rule: has_double_slash.induct) auto
  then have "single_slashes seg = seg" by (rule single_slashes_id)
  moreover have "hd seg \<noteq> slash" using assms(3,4) by (metis list.set_sel(1))
  ultimately show ?case using one assms(3) by (simp add: single_slashes_Cons)
qed simp

text \<open>Normalising commutes with nesting a clean segment under a name with a clean end.\<close>

lemma NormalizeNamespace_segment:
  assumes "b \<noteq> []" "\<not> is_space (last b)" "last b \<noteq> slash"
    and "seg \<noteq> []" "\<And>c. c \<in> set seg \<Longrightarrow> c \<noteq> slash \<and> \<not> is_space c"
  shows "NormalizeNamespace (b @ slash # seg) = NormalizeNamespace b @ slash # seg" "NormalizeNamespace b \<noteq> []"
proof -
  define b1 where "b1 = dropWhile is_space b"
  define b2 where "b2 = dropWhile (\<lambda>x. x = slash) b1"
  have seg: "\<not> is_space (last (slash # seg))" "last (slash # seg) \<noteq> slash" "slash \<notin> set seg"
    using assms(4,5) last_in_set by auto
  have b1: "b1 \<noteq> []" "last b1 = last b" using dropWhile_snoc_part [where P = is_space and b = b] assms(1,2) by (simp_all add: b1_def)
  have b2: "b2 \<noteq> []" "last b2 = last b"
    using dropWhile_snoc_part [of b1 "\<lambda>x. x = slash"] b1 assms(3) by (simp_all add: b2_def)
  have "TrimSpace (b @ slash # seg) = b1 @ slash # seg" "TrimSpace b = b1"
    unfolding TrimSpace_def b1_def
    using trim_both_append [where P = is_space and b = b and ys = "slash # seg"] assms(1,2) seg(1) by simp_all
  moreover have "Trim slash (b1 @ slash # seg) = b2 @ slash # seg" "Trim slash b1 = b2"
    unfolding Trim_def b2_def
    using trim_both_append [where P = "\<lambda>x. x = slash" and b = b1 and ys = "slash # seg"] b1 assms(3) seg(2) by simp_all
  ultimately have N: "NormalizeNamespace (b @ slash # seg) = single_slashes (b2 @ slash # seg)"
    "NormalizeNamespace b = single_slashes b2"
    by (simp_all add: NormalizeNamespace_def collapse_slashes_eq)
  show "NormalizeNamespace (b @ slash # seg) = NormalizeNamespace b @ slash # seg"
    unfolding N using single_slashes_segment [OF b2(1) _ assms(4) seg(3)] b2(2) assms(3) by simp
  show "NormalizeNamespace b \<noteq> []" unfolding N using hd_single_slashes [OF b2(1)] by simp
qed

text \<open>A rule other than the derivation ignores the agent; the derivation appends it.\<close>

lemma resolve_agent:
  assumes "Resolve (f\<lparr> Agent := '''' \<rparr>) pl s kd sd = Inr r" and "Resolve f pl s kd sd = Inr r'"
    and "resSource r \<in> {SourceRemote, SourceToplevel, SourceCwd}"
  shows "\<exists>base src what. derive f s = Some (base, src, what)
     \<and> resNamespace r = NormalizeNamespace (applyPrefix base s)
     \<and> resNamespace r' = NormalizeNamespace (withAgent (applyPrefix base s) (Agent f))"
proof -
  have simps: "PinKeys (f\<lparr> Agent := '''' \<rparr>) = PinKeys f" by (simp add: PinKeys_def)
  have fields: "RemoteURL (f\<lparr> Agent := '''' \<rparr>) = RemoteURL f"
    "ToplevelBasename (f\<lparr> Agent := '''' \<rparr>) = ToplevelBasename f" "CwdBasename (f\<lparr> Agent := '''' \<rparr>) = CwdBasename f"
    by simp_all
  have same: "derive (f\<lparr> Agent := '''' \<rparr>) s = derive f s" unfolding derive_def fields ..
  have none: "withAgent b '''' = b" for b by (simp add: withAgent_def sanitizeSegment_def Trim_def)
  have U: "resolve_unpinned (f\<lparr> Agent := '''' \<rparr>) s kd sd = Inr r" "resolve_unpinned f s kd sd = Inr r'"
    using assms simps by (auto simp: Resolve_def conclude_Inr split: option.splits sum.splits if_splits)
  then show ?thesis
    using assms(3) by (auto simp: resolve_unpinned_def same conclude_Inr none split: if_splits option.splits prod.splits)
qed

end
