(* ===== verification/Config_Api.thy ===== *)
theory Config_Api
  imports Api_Auth Read_Set Namespace_Resolution Sqlite_Events
begin

text \<open>
  The configuration end points of \<open>internal/api/rest\<close> over the SQLite driver: key management
  (\<open>apikeys.go\<close>), pins (\<open>pins.go\<close>), the settings (\<open>selfsettings.go\<close>, \<open>settingsdefaults.go\<close>,
  \<open>config_shared.go\<close>) and the handshake (\<open>handshake.go\<close>).

  A handler takes the context the middleware built, the decoded body and the state of the
  server, and gives an HTTP error or a response, and the new state. The driver has every
  optional capability, so the answers 501 do not arise. The activity log is written in the
  order the requests submit to it; \<open>env_op\<close> supplies the identifiers and \<open>env_now\<close> the clock.
  The wire conversions of the settings are copies of the fields.
\<close>

section \<open>State and helpers\<close>

record server =
  srvAuth :: AuthPolicy
  srvDefaultNS :: string
  ClientDefaults :: "ClientSettings option"
  srvCascade :: bool

record live =
  live_db :: db
  live_cache :: tableCache

record env =
  env_now :: Time
  env_op :: "nat \<Rightarrow> string"
  env_log :: bool

definition statusFor :: "store_error \<Rightarrow> http_error" where
  "statusFor e =
     (case e of ErrNotFound \<Rightarrow> NotFound | ErrConflict _ _ \<Rightarrow> Conflict | _ \<Rightarrow> InternalError)"

definition LogConfigEvent ::
    "env \<Rightarrow> nat \<Rightarrow> ReqCtx \<Rightarrow> EventKind \<Rightarrow> string \<Rightarrow> metadata \<Rightarrow> db \<Rightarrow> db" where
  "LogConfigEvent env n ctx kind ns detail d =
     (if \<not> env_log env then d
      else AppendEvents
        [\<lparr> eID = 0, OpID = env_op env n, Kind = kind, eNamespace = ns, Query = '''', MemoryID = '''',
           MemoryNS = '''', MemoryTier = '''', MemorySummary = '''', Rank = 0, eScore = None,
           Detail = detail, Actor = fst (rcActor ctx), ActorKind = snd (rcActor ctx),
           eCreatedAt = env_now env \<rparr>] d)"

definition logCapabilityEvent :: "env \<Rightarrow> nat \<Rightarrow> ReqCtx \<Rightarrow> string \<Rightarrow> string \<Rightarrow> bool \<Rightarrow> db \<Rightarrow> db" where
  "logCapabilityEvent env n ctx name field v =
     LogConfigEvent env n ctx EventSettings '''' [''key_name'' \<mapsto> JStr name, field \<mapsto> JBool v]"

definition requireAdmin :: "ReqCtx \<Rightarrow> bool" where
  "requireAdmin ctx = (case rcPrincipal ctx of Some p \<Rightarrow> prAdmin p | None \<Rightarrow> True)"

definition findAPIKeyByName :: "string \<Rightarrow> db \<Rightarrow> APIKey option" where
  "findAPIKeyByName name d = find (\<lambda>k. Name k = name) (ListAPIKeys d)"

definition normalizeOptionalNamespace :: "string \<Rightarrow> http_error + string" where
  "normalizeOptionalNamespace ns =
     (let n = NormalizeNamespace ns in
      if n = '''' then Inr ''''
      else case ValidateNamespace n of Some _ \<Rightarrow> Inl BadRequest | None \<Rightarrow> Inr n)"

definition deref_string :: "string option \<Rightarrow> string" where
  "deref_string p = (case p of Some s \<Rightarrow> s | None \<Rightarrow> '''')"

definition deref_bool :: "bool option \<Rightarrow> bool" where
  "deref_bool p = (case p of Some b \<Rightarrow> b | None \<Rightarrow> False)"

text \<open>A successful write: the key row is stored and the emptiness reading forgotten.\<close>

definition put_key ::
    "env \<Rightarrow> APIKey \<Rightarrow> (db \<Rightarrow> db) \<Rightarrow> 'r \<Rightarrow> live \<Rightarrow> (http_error + 'r) \<times> live" where
  "put_key env key events resp s =
     (case PutAPIKey (env_now env) key (live_db s) of
        Inl e \<Rightarrow> (Inl (statusFor e), s)
      | Inr d \<Rightarrow> (Inr resp, \<lparr> live_db = events d, live_cache = Invalidate (live_cache s) \<rparr>))"

section \<open>API keys\<close>

record CreateApiKeyRequest =
  crName :: string
  crHome :: "string option"
  crDefaultNamespace :: "string option"
  crDisabled :: "bool option"
  crAdmin :: "bool option"
  crReadOnly :: "bool option"

definition created_key :: "env \<Rightarrow> string \<Rightarrow> string \<Rightarrow> string \<Rightarrow> CreateApiKeyRequest \<Rightarrow> APIKey" where
  "created_key env secret hm def req =
     \<lparr> Name = TrimSpace (crName req), Hash = HashToken secret, HomeNS = hm, DefaultNS = def,
       kCreatedAt = env_now env, Disabled = deref_bool (crDisabled req),
       Admin = deref_bool (crAdmin req), ReadOnly = deref_bool (crReadOnly req), Settings = no_settings \<rparr>"

definition create_events :: "env \<Rightarrow> ReqCtx \<Rightarrow> APIKey \<Rightarrow> db \<Rightarrow> db" where
  "create_events env ctx key d =
     (let d1 = (if Admin key then logCapabilityEvent env 0 ctx (Name key) ''admin'' True d else d)
      in if ReadOnly key then logCapabilityEvent env 1 ctx (Name key) ''read_only'' True d1 else d1)"

definition CreateApiKey ::
    "server \<Rightarrow> env \<Rightarrow> string \<Rightarrow> ReqCtx \<Rightarrow> CreateApiKeyRequest \<Rightarrow> live
      \<Rightarrow> (http_error + APIKey \<times> string) \<times> live" where
  "CreateApiKey srv env secret ctx req s =
     (let name = TrimSpace (crName req) in
      if \<not> requireAdmin ctx then (Inl Forbidden, s)
      else if name = '''' then (Inl BadRequest, s)
      else if slash \<in> set name then (Inl BadRequest, s)
      else if IsFileKey (fileKeys (srvAuth srv)) name then (Inl Conflict, s)
      else if findAPIKeyByName name (live_db s) \<noteq> None then (Inl Conflict, s)
      else case normalizeOptionalNamespace (deref_string (crHome req)) of
        Inl e \<Rightarrow> (Inl e, s)
      | Inr hm \<Rightarrow>
          (case normalizeOptionalNamespace (deref_string (crDefaultNamespace req)) of
             Inl e \<Rightarrow> (Inl e, s)
           | Inr def \<Rightarrow>
               (let key = created_key env secret hm def req
                in put_key env key (create_events env ctx key) (key, secret) s)))"

record UpdateApiKeyRequest =
  upHome :: "string option"
  upDefaultNamespace :: "string option"
  upDisabled :: "bool option"
  upAdmin :: "bool option"
  upReadOnly :: "bool option"
  upSettings :: "ClientSettings option"

text \<open>The self-guard: a named caller may not demote, disable or restrict its own key.\<close>

definition self_lockout :: "ReqCtx \<Rightarrow> string \<Rightarrow> UpdateApiKeyRequest \<Rightarrow> bool" where
  "self_lockout ctx name req \<longleftrightarrow>
     (case rcPrincipal ctx of
        None \<Rightarrow> False
      | Some p \<Rightarrow> prName p = name
          \<and> (upAdmin req = Some False \<or> upDisabled req = Some True \<or> upReadOnly req = Some True))"

definition opt_namespace :: "string option \<Rightarrow> string \<Rightarrow> http_error + string" where
  "opt_namespace new old =
     (case new of None \<Rightarrow> Inr old | Some v \<Rightarrow> normalizeOptionalNamespace v)"

definition opt_or :: "'a option \<Rightarrow> 'a \<Rightarrow> 'a" where
  "opt_or new old = (case new of None \<Rightarrow> old | Some v \<Rightarrow> v)"

definition update_events :: "env \<Rightarrow> ReqCtx \<Rightarrow> string \<Rightarrow> UpdateApiKeyRequest \<Rightarrow> APIKey \<Rightarrow> APIKey \<Rightarrow> db \<Rightarrow> db" where
  "update_events env ctx name req old new d =
     (let d1 = (if upSettings req \<noteq> None
                then LogConfigEvent env 0 ctx EventSettings '''' [''key_name'' \<mapsto> JStr name, ''layer'' \<mapsto> JStr ''key''] d
                else d);
          d2 = (if Admin new \<noteq> Admin old then logCapabilityEvent env 1 ctx name ''admin'' (Admin new) d1 else d1)
      in if ReadOnly new \<noteq> ReadOnly old then logCapabilityEvent env 2 ctx name ''read_only'' (ReadOnly new) d2
         else d2)"

definition UpdateApiKey ::
    "server \<Rightarrow> env \<Rightarrow> ReqCtx \<Rightarrow> string \<Rightarrow> UpdateApiKeyRequest \<Rightarrow> live \<Rightarrow> (http_error + APIKey) \<times> live" where
  "UpdateApiKey srv env ctx name req s =
     (if \<not> requireAdmin ctx then (Inl Forbidden, s)
      else if IsFileKey (fileKeys (srvAuth srv)) name then (Inl Conflict, s)
      else case findAPIKeyByName name (live_db s) of
        None \<Rightarrow> (Inl NotFound, s)
      | Some old \<Rightarrow>
          if self_lockout ctx name req then (Inl Conflict, s)
          else case opt_namespace (upHome req) (HomeNS old) of
            Inl e \<Rightarrow> (Inl e, s)
          | Inr hm \<Rightarrow>
              (case opt_namespace (upDefaultNamespace req) (DefaultNS old) of
                 Inl e \<Rightarrow> (Inl e, s)
               | Inr def \<Rightarrow>
                   (if (case upSettings req of Some st \<Rightarrow> Validate st \<noteq> None | None \<Rightarrow> False)
                    then (Inl BadRequest, s)
                    else
                      let new = old\<lparr> HomeNS := hm, DefaultNS := def,
                                     Disabled := opt_or (upDisabled req) (Disabled old),
                                     Admin := opt_or (upAdmin req) (Admin old),
                                     ReadOnly := opt_or (upReadOnly req) (ReadOnly old),
                                     Settings := opt_or (upSettings req) (Settings old) \<rparr>
                      in put_key env new (update_events env ctx name req old new) new s)))"

definition DeleteApiKey :: "server \<Rightarrow> env \<Rightarrow> ReqCtx \<Rightarrow> string \<Rightarrow> live \<Rightarrow> (http_error + unit) \<times> live" where
  "DeleteApiKey srv env ctx name s =
     (if \<not> requireAdmin ctx then (Inl Forbidden, s)
      else if IsFileKey (fileKeys (srvAuth srv)) name then (Inl Conflict, s)
      else if (case rcPrincipal ctx of Some p \<Rightarrow> prName p = name | None \<Rightarrow> False) then (Inl Conflict, s)
      else
        let existing = findAPIKeyByName name (live_db s);
            (found, d) = DeleteAPIKey name (live_db s)
        in if \<not> found then (Inl NotFound, s\<lparr> live_db := d \<rparr>)
           else (Inr (),
                 \<lparr> live_db = (case existing of
                                Some k \<Rightarrow> if Admin k then logCapabilityEvent env 0 ctx name ''admin'' False d else d
                              | None \<Rightarrow> d),
                   live_cache = Invalidate (live_cache s) \<rparr>))"

definition RotateApiKey ::
    "server \<Rightarrow> env \<Rightarrow> string \<Rightarrow> ReqCtx \<Rightarrow> string \<Rightarrow> live \<Rightarrow> (http_error + APIKey \<times> string) \<times> live" where
  "RotateApiKey srv env secret ctx name s =
     (if \<not> requireAdmin ctx then (Inl Forbidden, s)
      else if IsFileKey (fileKeys (srvAuth srv)) name then (Inl Conflict, s)
      else case findAPIKeyByName name (live_db s) of
        None \<Rightarrow> (Inl NotFound, s)
      | Some old \<Rightarrow>
          let new = old\<lparr> Hash := HashToken secret \<rparr> in put_key env new id (new, secret) s)"

definition ListApiKeys :: "server \<Rightarrow> ReqCtx \<Rightarrow> live \<Rightarrow> http_error + APIKey list \<times> APIKey list" where
  "ListApiKeys srv ctx s =
     (if \<not> requireAdmin ctx then Inl Forbidden
      else Inr (ListAPIKeys (live_db s), FileKeys (fileKeys (srvAuth srv))))"

section \<open>Settings\<close>

record Identity =
  idAuthenticated :: bool
  idAdmin :: bool
  idReadOnly :: bool
  idKeyName :: string
  idHome :: string
  idDefaultNamespace :: string

definition identityFor :: "ReqCtx \<Rightarrow> Request \<Rightarrow> Identity" where
  "identityFor ctx r =
     (case rcPrincipal ctx of
        Some p \<Rightarrow> \<lparr> idAuthenticated = True, idAdmin = prAdmin p, idReadOnly = prReadOnly p,
                    idKeyName = prName p, idHome = prHomeNS p, idDefaultNamespace = prDefaultNS p \<rparr>
      | None \<Rightarrow> \<lparr> idAuthenticated = (TrimSpace (bearer r) \<noteq> ''''), idAdmin = True, idReadOnly = False,
                  idKeyName = '''', idHome = '''', idDefaultNamespace = '''' \<rparr>)"

text \<open>The global layer, and whether the environment manages it.\<close>

definition globalDefaults :: "server \<Rightarrow> db \<Rightarrow> ClientSettings \<times> bool" where
  "globalDefaults srv d =
     (case ClientDefaults srv of Some s \<Rightarrow> (s, True) | None \<Rightarrow> (GlobalClientSettings d, False))"

definition perKeySettings :: "server \<Rightarrow> Principal \<Rightarrow> db \<Rightarrow> ClientSettings" where
  "perKeySettings srv p d =
     (if IsFileKey (fileKeys (srvAuth srv)) (prName p) then
        (case find (\<lambda>k. Name k = prName p) (FileKeys (fileKeys (srvAuth srv))) of
           Some k \<Rightarrow> Settings k | None \<Rightarrow> no_settings)
      else case findAPIKeyByName (prName p) d of Some k \<Rightarrow> Settings k | None \<Rightarrow> no_settings)"

definition settings_layers :: "server \<Rightarrow> Principal option \<Rightarrow> db \<Rightarrow> SettingsLayer list" where
  "settings_layers srv p d =
     [\<lparr> Source = ''default'', S = DefaultClientSettings \<rparr>,
      \<lparr> Source = ''global'', S = fst (globalDefaults srv d) \<rparr>] @
     (case p of Some q \<Rightarrow> [\<lparr> Source = ''key'', S = perKeySettings srv q d \<rparr>] | None \<Rightarrow> [])"

definition resolveSettingsFor ::
    "server \<Rightarrow> Principal option \<Rightarrow> db \<Rightarrow> ClientSettings \<times> (string \<rightharpoonup> string)" where
  "resolveSettingsFor srv p d = MergeClientSettings (settings_layers srv p d)"

definition GetSelf ::
    "server \<Rightarrow> ReqCtx \<Rightarrow> Request \<Rightarrow> live \<Rightarrow> Identity \<times> ClientSettings \<times> (string \<rightharpoonup> string)" where
  "GetSelf srv ctx r s = (identityFor ctx r, resolveSettingsFor srv (rcPrincipal ctx) (live_db s))"

definition PutSelfSettings ::
    "server \<Rightarrow> env \<Rightarrow> ReqCtx \<Rightarrow> Request \<Rightarrow> ClientSettings \<Rightarrow> live
      \<Rightarrow> (http_error + Identity \<times> ClientSettings \<times> (string \<rightharpoonup> string)) \<times> live" where
  "PutSelfSettings srv env ctx r settings s =
     (case rcPrincipal ctx of
        None \<Rightarrow> (Inl Forbidden, s)
      | Some p \<Rightarrow>
          if IsFileKey (fileKeys (srvAuth srv)) (prName p) then (Inl Conflict, s)
          else if Validate settings \<noteq> None then (Inl BadRequest, s)
          else case findAPIKeyByName (prName p) (live_db s) of
            None \<Rightarrow> (Inl InternalError, s)
          | Some old \<Rightarrow>
              (case PutAPIKey (env_now env) (old\<lparr> Settings := settings \<rparr>) (live_db s) of
                 Inl e \<Rightarrow> (Inl (statusFor e), s)
               | Inr d \<Rightarrow>
                   let s' = s\<lparr> live_db := LogConfigEvent env 0 ctx EventSettings ''''
                                [''key_name'' \<mapsto> JStr (prName p), ''layer'' \<mapsto> JStr ''key''] d \<rparr>
                   in (Inr (GetSelf srv ctx r s'), s')))"

definition GetSettingsDefaults :: "server \<Rightarrow> ReqCtx \<Rightarrow> live \<Rightarrow> http_error + ClientSettings \<times> bool" where
  "GetSettingsDefaults srv ctx s =
     (if \<not> requireAdmin ctx then Inl Forbidden
      else Inr (fst (resolveSettingsFor srv None (live_db s)), snd (globalDefaults srv (live_db s))))"

definition PutSettingsDefaults ::
    "server \<Rightarrow> env \<Rightarrow> ReqCtx \<Rightarrow> ClientSettings \<Rightarrow> live \<Rightarrow> (http_error + ClientSettings) \<times> live" where
  "PutSettingsDefaults srv env ctx settings s =
     (if \<not> requireAdmin ctx then (Inl Forbidden, s)
      else if ClientDefaults srv \<noteq> None then (Inl Conflict, s)
      else if Validate settings \<noteq> None then (Inl BadRequest, s)
      else
        (Inr (fst (MergeClientSettings
               [\<lparr> Source = ''default'', S = DefaultClientSettings \<rparr>, \<lparr> Source = ''global'', S = settings \<rparr>])),
         s\<lparr> live_db := LogConfigEvent env 0 ctx EventSettings '''' [''layer'' \<mapsto> JStr ''global'']
                         (SetGlobalClientSettings settings (live_db s)) \<rparr>))"

section \<open>Pins\<close>

record PinPutRequest =
  ppNamespace :: string
  ppRemoteUrl :: "string option"
  ppToplevelPath :: "string option"
  ppNote :: "string option"

definition key_facts :: "string option \<Rightarrow> string option \<Rightarrow> Facts" where
  "key_facts remote toplevel =
     \<lparr> RemoteURL = deref_string remote, ToplevelPath = deref_string toplevel, ToplevelBasename = '''',
       CwdBasename = '''', Agent = '''', EnvNamespace = '''', DeclaredNamespace = '''' \<rparr>"

definition PutPin :: "env \<Rightarrow> ReqCtx \<Rightarrow> PinPutRequest \<Rightarrow> live \<Rightarrow> (http_error + Pin) \<times> live" where
  "PutPin env ctx req s =
     (let ns = NormalizeNamespace (ppNamespace req);
          keys = PinKeys (key_facts (ppRemoteUrl req) (ppToplevelPath req));
          note = deref_string (ppNote req)
      in if ValidateNamespace ns \<noteq> None then (Inl BadRequest, s)
         else if CHR ''*'' \<in> set ns then (Inl BadRequest, s)
         else if keys = [] then (Inl BadRequest, s)
         else
           let createdBy = (case rcPrincipal ctx of Some p \<Rightarrow> prName p | None \<Rightarrow> '''');
               entries = map (\<lambda>k. \<lparr> pKey = k, pNamespace = ns, pNote = note, CreatedBy = createdBy,
                                    pCreatedAt = env_now env, pUpdatedAt = env_now env \<rparr>) keys;
               d = LogConfigEvent env 0 ctx EventPin ns
                     [''keys'' \<mapsto> JArr (map JStr keys), ''note'' \<mapsto> JStr note]
                     (PutPins (env_now env) entries (live_db s))
           in (Inr (case GetPins [hd keys] d of p # _ \<Rightarrow> p | [] \<Rightarrow> hd entries), s\<lparr> live_db := d \<rparr>))"

definition DeletePin ::
    "env \<Rightarrow> ReqCtx \<Rightarrow> string option \<Rightarrow> string option \<Rightarrow> live \<Rightarrow> (http_error + unit) \<times> live" where
  "DeletePin env ctx remote toplevel s =
     (let keys = PinKeys (key_facts remote toplevel) in
      if keys = [] then (Inl BadRequest, s)
      else let existing = GetPins keys (live_db s) in
        if existing = [] then (Inl NotFound, s)
        else let (n, d) = DeletePins keys (live_db s) in
          if n = 0 then (Inl NotFound, s\<lparr> live_db := d \<rparr>)
          else (Inr (),
                s\<lparr> live_db := LogConfigEvent env 0 ctx EventUnpin (pNamespace (hd existing))
                                [''keys'' \<mapsto> JArr (map (JStr \<circ> pKey) existing)] d \<rparr>))"

section \<open>The handshake\<close>

record HandshakeRequest =
  hrFacts :: Facts
  EnvNamespacePrefix :: "string option"

record HandshakeResponse =
  hsResolution :: Resolution
  hsIdentity :: Identity
  hsSettings :: ClientSettings
  hsSources :: "string \<rightharpoonup> string"
  hsReadSet :: "ReadSetEntry list"
  hsPin :: "Pin option"

text \<open>
  \<open>pinLookup\<close>: the pins of the facts, fetched once; a later row of the same key wins in the
  map, but keys are unique.
\<close>

definition pin_by_key :: "Pin list \<Rightarrow> string \<Rightarrow> Pin option" where
  "pin_by_key got k = find (\<lambda>e. pKey e = k) (rev got)"

definition pinLookup :: "Facts \<Rightarrow> db \<Rightarrow> PinLookup" where
  "pinLookup f d =
     (if PinKeys f = [] then None
      else let got = GetPins (PinKeys f) d in
        Some (\<lambda>candidates. Inr
          (case find (\<lambda>k. pin_by_key got k \<noteq> None) candidates of
             None \<Rightarrow> None
           | Some k \<Rightarrow> map_option (\<lambda>e. (pNamespace e, pKey e)) (pin_by_key got k))))"

definition override_prefix ::
    "string option \<Rightarrow> ClientSettings \<times> (string \<rightharpoonup> string) \<Rightarrow> ClientSettings \<times> (string \<rightharpoonup> string)" where
  "override_prefix p layered =
     (let v = TrimSpace (deref_string p) in
      if v \<noteq> '''' then ((fst layered)\<lparr> NamespacePrefix := Some v \<rparr>, (snd layered)(''namespace_prefix'' \<mapsto> ''env''))
      else layered)"

definition sqlite_reads :: "db \<Rightarrow> read_store" where
  "sqlite_reads d =
     \<lparr> list_namespaces = Inr (ListNamespaces d), list_links = Some (\<lambda>src. Inr (ListLinks src d)) \<rparr>"

definition Handshake ::
    "server \<Rightarrow> ReqCtx \<Rightarrow> Request \<Rightarrow> HandshakeRequest \<Rightarrow> live \<Rightarrow> http_error + HandshakeResponse" where
  "Handshake srv ctx r req s =
     (if TrimSpace (CwdBasename (hrFacts req)) = '''' then Inl BadRequest
      else
        let f = hrFacts req;
            (merged, sources) = override_prefix (EnvNamespacePrefix req)
                                  (resolveSettingsFor srv (rcPrincipal ctx) (live_db s));
            keyDefault = (case rcPrincipal ctx of Some p \<Rightarrow> prDefaultNS p | None \<Rightarrow> '''')
        in case Resolve f (pinLookup f (live_db s)) merged keyDefault (srvDefaultNS srv) of
             Inl (InvalidInput _ _ _) \<Rightarrow> Inl BadRequest
           | Inl (PinLookupFailed _) \<Rightarrow> Inl InternalError
           | Inr res \<Rightarrow>
               Inr \<lparr> hsResolution = res, hsIdentity = identityFor ctx r, hsSettings = merged,
                     hsSources = sources,
                     hsReadSet = (case ResolveReadSetInfo (srvCascade srv) (sqlite_reads (live_db s))
                                         (resNamespace res) (rcHome ctx) of
                                    Inr entries \<Rightarrow> entries
                                  | Inl _ \<Rightarrow> [\<lparr> reNS = resNamespace res, reOrigin = OriginPrimary, reTiers = None \<rparr>]),
                     hsPin = (if resSource res = SourcePin
                              then pin_by_key (GetPins (PinKeys f) (live_db s)) (PinKey res) else None) \<rparr>)"


end
