(* ===== verification/Config_Steps.thy ===== *)
theory Config_Steps
  imports Config_Api Store_Steps
begin

text \<open>
  The configuration end points as one step relation over the state of the server, labelled by
  the context of the caller; it refines the steps of the store. What the steps keep of the key
  table, and what one handler leaves for the next request.
\<close>

section \<open>Steps\<close>

inductive api_step :: "server \<Rightarrow> ReqCtx \<Rightarrow> live \<Rightarrow> live \<Rightarrow> bool" for srv :: server and ctx :: ReqCtx where
  create: "CreateApiKey srv env secret ctx cr s = (res, s') \<Longrightarrow> api_step srv ctx s s'"
| update: "UpdateApiKey srv env ctx name up s = (res, s') \<Longrightarrow> api_step srv ctx s s'"
| delete: "DeleteApiKey srv env ctx name s = (res, s') \<Longrightarrow> api_step srv ctx s s'"
| rotate: "RotateApiKey srv env secret ctx name s = (res, s') \<Longrightarrow> api_step srv ctx s s'"
| self: "PutSelfSettings srv env ctx r st s = (res, s') \<Longrightarrow> api_step srv ctx s s'"
| defaults: "PutSettingsDefaults srv env ctx st s = (res, s') \<Longrightarrow> api_step srv ctx s s'"
| pin: "PutPin env ctx pp s = (res, s') \<Longrightarrow> api_step srv ctx s s'"
| unpin: "DeletePin env ctx remote toplevel s = (res, s') \<Longrightarrow> api_step srv ctx s s'"
| authenticate: "Authenticate (srvAuth srv) (Some (sqlite_keys (live_db s))) now token (live_cache s) = (res, c)
    \<Longrightarrow> api_step srv ctx s (s\<lparr> live_cache := c \<rparr>)"

text \<open>Any number of steps by callers of a given kind.\<close>

inductive api_run :: "server \<Rightarrow> (ReqCtx \<Rightarrow> bool) \<Rightarrow> live \<Rightarrow> live \<Rightarrow> bool" for srv and who where
  start: "api_run srv who s s"
| step: "api_run srv who s s' \<Longrightarrow> who ctx \<Longrightarrow> api_step srv ctx s' s'' \<Longrightarrow> api_run srv who s s''"

section \<open>The log leaves the other tables alone\<close>

lemma LogConfigEvent_tables [simp]:
  "api_keys (LogConfigEvent env n ctx kind ns det d) = api_keys d"
  "pins (LogConfigEvent env n ctx kind ns det d) = pins d"
  "meta (LogConfigEvent env n ctx kind ns det d) = meta d"
  by (simp_all add: LogConfigEvent_def AppendEvents_def)

lemma logCapabilityEvent_tables [simp]:
  "api_keys (logCapabilityEvent env n ctx name field v d) = api_keys d"
  "pins (logCapabilityEvent env n ctx name field v d) = pins d"
  by (simp_all add: logCapabilityEvent_def)

lemma update_events_keys [simp]: "api_keys (update_events env ctx name req old new d) = api_keys d"
  by (simp add: update_events_def Let_def)

lemma LogConfigEvent_step: "store_step\<^sup>*\<^sup>* d (LogConfigEvent env n ctx kind ns det d)"
  unfolding LogConfigEvent_def by (auto intro: r_into_rtranclp store_step.append)

lemma logCapabilityEvent_step: "store_step\<^sup>*\<^sup>* d (logCapabilityEvent env n ctx name field v d)"
  unfolding logCapabilityEvent_def by (rule LogConfigEvent_step)

lemma update_events_step: "store_step\<^sup>*\<^sup>* d (update_events env ctx name req old new d)"
proof -
  have opt: "store_step\<^sup>*\<^sup>* e e' \<Longrightarrow> store_step\<^sup>*\<^sup>* e (if b then e' else e)" for b e e' by simp
  define d1 where "d1 = (if upSettings req \<noteq> None
      then LogConfigEvent env 0 ctx EventSettings '''' [''key_name'' \<mapsto> JStr name, ''layer'' \<mapsto> JStr ''key''] d else d)"
  define d2 where "d2 = (if Admin new \<noteq> Admin old then logCapabilityEvent env 1 ctx name ''admin'' (Admin new) d1 else d1)"
  have 1: "store_step\<^sup>*\<^sup>* d d1" unfolding d1_def by (rule opt) (rule LogConfigEvent_step)
  have 2: "store_step\<^sup>*\<^sup>* d1 d2" unfolding d2_def by (rule opt) (rule logCapabilityEvent_step)
  have "update_events env ctx name req old new d =
      (if ReadOnly new \<noteq> ReadOnly old then logCapabilityEvent env 2 ctx name ''read_only'' (ReadOnly new) d2 else d2)"
    unfolding update_events_def Let_def d1_def d2_def ..
  moreover have "store_step\<^sup>*\<^sup>* d2 \<dots>" by (rule opt) (rule logCapabilityEvent_step)
  ultimately show ?thesis using rtranclp_trans [OF rtranclp_trans [OF 1 2]] by simp
qed

section \<open>One row of the key table\<close>

lemma find_order_by:
  assumes "distinct (map key t)"
  shows "find (\<lambda>r. key r = k) (order_by lt t) = lookup key t k"
proof (cases "lookup key t k")
  case None
  then have "k \<notin> key ` set (order_by lt t)" by (simp add: lookup_None_iff)
  then show ?thesis using None by (auto simp: find_None_iff)
next
  case (Some r)
  then have r: "r \<in> set t" "key r = k" by (auto dest: lookup_Some)
  have d: "distinct (map key (order_by lt t))"
    using assms by (metis mset_SliceStable mset_eq_imp_distinct_iff mset_map)
  have "lookup key (order_by lt t) (key r) = Some r"
    using d r(1) by (intro lookup_unique) simp_all
  then show ?thesis using Some r(2) by (simp add: lookup_def)
qed

lemma findAPIKeyByName_lookup: "links_ok d \<Longrightarrow> findAPIKeyByName name d = lookup Name (api_keys d) name"
  unfolding findAPIKeyByName_def ListAPIKeys_def links_ok_def by (intro find_order_by) simp

lemma findAPIKeyByName_Some: "findAPIKeyByName name d = Some k \<Longrightarrow> k \<in> set (api_keys d) \<and> Name k = name"
  by (auto simp: findAPIKeyByName_def ListAPIKeys_def dest: find_Some_set)

lemma findAPIKeyByName_row:
  "findAPIKeyByName name d = Some k \<Longrightarrow> links_ok d \<Longrightarrow> lookup Name (api_keys d) name = Some k \<and> Name k = name"
  using findAPIKeyByName_lookup findAPIKeyByName_Some by metis

lemma put_key_Inr:
  assumes "put_key env key events resp s = (Inr x, s')"
  obtains d where "PutAPIKey (env_now env) key (live_db s) = Inr d" "x = resp"
    "s' = \<lparr> live_db = events d, live_cache = Invalidate (live_cache s) \<rparr>"
  using assms by (auto simp: put_key_def split: sum.splits)

lemma put_key_Inl: "put_key env key events resp s = (Inl e, s') \<Longrightarrow> s' = s"
  by (auto simp: put_key_def split: sum.splits)

lemma put_key_store:
  assumes "put_key env key events resp s = (res, s')" and "\<And>d. store_step\<^sup>*\<^sup>* d (events d)"
  shows "store_step\<^sup>*\<^sup>* (live_db s) (live_db s')"
  using assms
  by (auto simp: put_key_def split: sum.splits
      intro: converse_rtranclp_into_rtranclp store_step.put_key)

section \<open>The two ends of a handler\<close>

lemma create_events_step: "store_step\<^sup>*\<^sup>* d (create_events env ctx key d)"
proof -
  have opt: "store_step\<^sup>*\<^sup>* e e' \<Longrightarrow> store_step\<^sup>*\<^sup>* e (if b then e' else e)" for b e e' by simp
  show ?thesis unfolding create_events_def Let_def
    by (rule rtranclp_trans [OF opt opt]) (rule logCapabilityEvent_step)+
qed

lemma create_events_keys [simp]: "api_keys (create_events env ctx key d) = api_keys d"
  by (simp add: create_events_def Let_def)

lemma CreateApiKey_cases:
  assumes "CreateApiKey srv env secret ctx req s = (res, s')"
  obtains (refused) e where "res = Inl e" "s' = s"
    | (stored) hm def where "requireAdmin ctx" "TrimSpace (crName req) \<noteq> ''''"
        "\<not> IsFileKey (fileKeys (srvAuth srv)) (TrimSpace (crName req))"
        "findAPIKeyByName (TrimSpace (crName req)) (live_db s) = None"
        "put_key env (created_key env secret hm def req)
           (create_events env ctx (created_key env secret hm def req))
           (created_key env secret hm def req, secret) s = (res, s')"
proof -
  consider "requireAdmin ctx \<and> TrimSpace (crName req) \<noteq> '''' \<and> slash \<notin> set (TrimSpace (crName req))
      \<and> \<not> IsFileKey (fileKeys (srvAuth srv)) (TrimSpace (crName req))
      \<and> findAPIKeyByName (TrimSpace (crName req)) (live_db s) = None"
    | "\<exists>e. (res, s') = (Inl e, s)"
    using assms unfolding CreateApiKey_def Let_def by (auto split: if_splits)
  then show thesis
  proof cases
    case 1
    show thesis
    proof (cases "normalizeOptionalNamespace (deref_string (crHome req))")
      case (Inl e)
      then have "res = Inl e \<and> s' = s" using 1 assms by (simp add: CreateApiKey_def)
      then show thesis using refused by blast
    next
      case (Inr hm)
      show thesis
      proof (cases "normalizeOptionalNamespace (deref_string (crDefaultNamespace req))")
        case (Inl e)
        then have "res = Inl e \<and> s' = s" using 1 Inr assms by (simp add: CreateApiKey_def)
        then show thesis using refused by blast
      next
        case (Inr def)
        then show thesis
          using 1 \<open>_ = Inr hm\<close> assms stored by (simp add: CreateApiKey_def Let_def)
      qed
    qed
  next
    case 2
    then show thesis using refused by auto
  qed
qed

section \<open>Refinement of the store\<close>

lemma CreateApiKey_store: "CreateApiKey srv env secret ctx cr s = (res, s') \<Longrightarrow> store_step\<^sup>*\<^sup>* (live_db s) (live_db s')"
  by (elim CreateApiKey_cases) (auto dest: put_key_store [OF _ create_events_step])

lemma UpdateApiKey_store: "UpdateApiKey srv env ctx name up s = (res, s') \<Longrightarrow> store_step\<^sup>*\<^sup>* (live_db s) (live_db s')"
  unfolding UpdateApiKey_def Let_def
  by (auto split: if_splits sum.splits option.splits intro: update_events_step dest!: put_key_store)

lemma DeleteApiKey_store: "DeleteApiKey srv env ctx name s = (res, s') \<Longrightarrow> store_step\<^sup>*\<^sup>* (live_db s) (live_db s')"
proof -
  assume h: "DeleteApiKey srv env ctx name s = (res, s')"
  have del: "store_step\<^sup>*\<^sup>* (live_db s) (snd (DeleteAPIKey name (live_db s)))"
    by (intro r_into_rtranclp store_step.delete_key)
  have "live_db s' = live_db s \<or> live_db s' = snd (DeleteAPIKey name (live_db s))
      \<or> live_db s' = logCapabilityEvent env 0 ctx name ''admin'' False (snd (DeleteAPIKey name (live_db s)))"
    using h by (auto simp: DeleteApiKey_def Let_def split: if_splits prod.splits option.splits)
  then show ?thesis
    using del rtranclp_trans [OF del logCapabilityEvent_step] by (metis rtranclp.rtrancl_refl)
qed

lemma RotateApiKey_store: "RotateApiKey srv env secret ctx name s = (res, s') \<Longrightarrow> store_step\<^sup>*\<^sup>* (live_db s) (live_db s')"
  unfolding RotateApiKey_def Let_def
  by (auto split: if_splits option.splits dest!: put_key_store)

lemma PutSelfSettings_store: "PutSelfSettings srv env ctx r st s = (res, s') \<Longrightarrow> store_step\<^sup>*\<^sup>* (live_db s) (live_db s')"
  unfolding PutSelfSettings_def Let_def
  by (auto split: if_splits option.splits sum.splits
      intro: converse_rtranclp_into_rtranclp [OF store_step.put_key LogConfigEvent_step])

lemma PutSettingsDefaults_store:
  "PutSettingsDefaults srv env ctx st s = (res, s') \<Longrightarrow> store_step\<^sup>*\<^sup>* (live_db s) (live_db s')"
  unfolding PutSettingsDefaults_def
  by (auto split: if_splits intro: converse_rtranclp_into_rtranclp [OF store_step.defaults LogConfigEvent_step])

lemma PutPin_store: "PutPin env ctx pp s = (res, s') \<Longrightarrow> store_step\<^sup>*\<^sup>* (live_db s) (live_db s')"
  unfolding PutPin_def Let_def
  by (auto split: if_splits intro: converse_rtranclp_into_rtranclp [OF store_step.put_pins LogConfigEvent_step])

lemma DeletePin_store: "DeletePin env ctx remote toplevel s = (res, s') \<Longrightarrow> store_step\<^sup>*\<^sup>* (live_db s) (live_db s')"
proof -
  assume h: "DeletePin env ctx remote toplevel s = (res, s')"
  let ?keys = "PinKeys (key_facts remote toplevel)"
  have del: "store_step\<^sup>*\<^sup>* (live_db s) (snd (DeletePins ?keys (live_db s)))"
    by (intro r_into_rtranclp store_step.delete_pins)
  have "live_db s' = live_db s \<or> live_db s' = snd (DeletePins ?keys (live_db s))
      \<or> (\<exists>ns det. live_db s' = LogConfigEvent env 0 ctx EventUnpin ns det (snd (DeletePins ?keys (live_db s))))"
    using h by (auto simp: DeletePin_def Let_def case_prod_beta split: if_splits) blast
  then show ?thesis
    using del rtranclp_trans [OF del LogConfigEvent_step] by (metis rtranclp.rtrancl_refl)
qed

lemmas handler_store = CreateApiKey_store UpdateApiKey_store DeleteApiKey_store RotateApiKey_store
  PutSelfSettings_store PutSettingsDefaults_store PutPin_store DeletePin_store

lemma api_step_store: "api_step srv ctx s s' \<Longrightarrow> store_step\<^sup>*\<^sup>* (live_db s) (live_db s')"
  by (induction rule: api_step.induct) (auto dest: handler_store)

lemma api_run_store: "api_run srv who s s' \<Longrightarrow> store_step\<^sup>*\<^sup>* (live_db s) (live_db s')"
  by (induction rule: api_run.induct) (auto dest: api_step_store intro: rtranclp_trans)

lemma store_steps_ok: "store_step\<^sup>*\<^sup>* d d' \<Longrightarrow> store_ok d \<Longrightarrow> store_ok d'"
  by (induction rule: rtranclp_induct) (auto intro: store_step_ok)

section \<open>What a step keeps of the key table\<close>

text \<open>A key row without its settings.\<close>

definition credential :: "APIKey \<Rightarrow> APIKey" where
  "credential k = k\<lparr> Settings := no_settings \<rparr>"

definition credentials :: "live \<Rightarrow> APIKey list" where
  "credentials s = map credential (api_keys (live_db s))"

lemma not_admin_refused:
  assumes "\<not> requireAdmin ctx"
  shows "CreateApiKey srv env secret ctx cr s = (Inl Forbidden, s)"
    "UpdateApiKey srv env ctx name up s = (Inl Forbidden, s)"
    "DeleteApiKey srv env ctx name s = (Inl Forbidden, s)"
    "RotateApiKey srv env secret ctx name s = (Inl Forbidden, s)"
    "PutSettingsDefaults srv env ctx st s = (Inl Forbidden, s)"
  using assms
  by (simp_all add: CreateApiKey_def UpdateApiKey_def DeleteApiKey_def RotateApiKey_def
      PutSettingsDefaults_def Let_def)

lemma PutAPIKey_existing:
  assumes "PutAPIKey wall new d = Inr d'" and "links_ok d" and "lookup Name (api_keys d) (Name new) = Some old"
    and "kCreatedAt new = kCreatedAt old"
  shows "api_keys d' = update_where (\<lambda>k. Name k = Name new) (\<lambda>k. new) (api_keys d)"
proof -
  have same: "new\<lparr> kCreatedAt := kCreatedAt old \<rparr> = new" unfolding assms(4) [symmetric] by simp
  have "api_keys d' = update_where (\<lambda>k. Name k = Name new) (\<lambda>k. new\<lparr> kCreatedAt := kCreatedAt old \<rparr>) (api_keys d)"
    using assms(1,3,4)
    by (auto simp: PutAPIKey_def Let_def upsert_by_def split: if_splits)
  then show ?thesis by (simp only: same)
qed

lemma credentials_update:
  assumes "links_ok d" and "lookup Name (api_keys d) n = Some old" and "credential new = credential old"
  shows "map credential (update_where (\<lambda>k. Name k = n) (\<lambda>k. new) (api_keys d)) = map credential (api_keys d)"
proof -
  have "credential k = credential new" if "k \<in> set (api_keys d)" "Name k = n" for k
  proof -
    have "lookup Name (api_keys d) (Name k) = Some k"
      using assms(1) that(1) by (intro lookup_unique) (simp_all add: links_ok_def)
    then show ?thesis using that(2) assms(2,3) by simp
  qed
  then show ?thesis by (auto simp: update_where_def)
qed

lemma PutSelfSettings_credentials:
  assumes "PutSelfSettings srv env ctx r st s = (res, s')" and "links_ok (live_db s)"
  shows "credentials s' = credentials s"
proof (cases "s' = s")
  case False
  then obtain p old d where put: "rcPrincipal ctx = Some p" "findAPIKeyByName (prName p) (live_db s) = Some old"
      "PutAPIKey (env_now env) (old\<lparr> Settings := st \<rparr>) (live_db s) = Inr d" "api_keys (live_db s') = api_keys d"
    using assms(1) by (auto simp: PutSelfSettings_def Let_def split: option.splits if_splits sum.splits)
  have old: "lookup Name (api_keys (live_db s)) (prName p) = Some old" "Name old = prName p"
    using findAPIKeyByName_row [OF put(2) assms(2)] by simp_all
  have "api_keys d = update_where (\<lambda>k. Name k = prName p) (\<lambda>k. old\<lparr> Settings := st \<rparr>) (api_keys (live_db s))"
    using PutAPIKey_existing [OF put(3) assms(2), of old] old by simp
  then show ?thesis
    using credentials_update [OF assms(2) old(1), of "old\<lparr> Settings := st \<rparr>"] put(4)
    by (simp add: credentials_def credential_def)
qed simp

lemma pin_handlers_keys:
  "PutPin env ctx pp s = (res, s') \<Longrightarrow> api_keys (live_db s') = api_keys (live_db s)"
  "DeletePin env ctx remote toplevel s = (res', s') \<Longrightarrow> api_keys (live_db s') = api_keys (live_db s)"
proof -
  show "PutPin env ctx pp s = (res, s') \<Longrightarrow> api_keys (live_db s') = api_keys (live_db s)"
    by (auto simp: PutPin_def Let_def PutPins_def split: if_splits)
  show "DeletePin env ctx remote toplevel s = (res', s') \<Longrightarrow> api_keys (live_db s') = api_keys (live_db s)"
    by (auto simp: DeletePin_def Let_def DeletePins_def split: if_splits)
qed

lemma defaults_keys:
  "PutSettingsDefaults srv env ctx st s = (res, s') \<Longrightarrow> api_keys (live_db s') = api_keys (live_db s)"
  by (auto simp: PutSettingsDefaults_def SetGlobalClientSettings_def split: if_splits)

text \<open>Callers without the admin capability never change a credential.\<close>

lemma api_step_credentials:
  assumes "api_step srv ctx s s'" and "\<not> requireAdmin ctx" and "links_ok (live_db s)"
  shows "credentials s' = credentials s"
  using assms
proof (induction rule: api_step.induct)
  case (self env r st s res s')
  then show ?case using PutSelfSettings_credentials by blast
next
  case (pin env pp s res s')
  then show ?case by (simp add: credentials_def pin_handlers_keys)
next
  case (unpin env remote toplevel s res s')
  then show ?case by (simp add: credentials_def pin_handlers_keys)
qed (simp_all add: not_admin_refused credentials_def)

lemma api_run_credentials:
  assumes "api_run srv (\<lambda>ctx. \<not> requireAdmin ctx) s s'" and "store_ok (live_db s)"
  shows "credentials s' = credentials s \<and> store_ok (live_db s')"
  using assms
proof (induction rule: api_run.induct)
  case (step s s' ctx s'')
  then have "store_ok (live_db s')" by simp
  moreover from this have "store_ok (live_db s'')" using api_step_store [OF step.hyps(3)] store_steps_ok by blast
  moreover have "credentials s'' = credentials s'"
    using api_step_credentials [OF step.hyps(3) step.hyps(2)] \<open>store_ok (live_db s')\<close> by (simp add: store_ok_def)
  ultimately show ?case using step by simp
qed simp

section \<open>An admin key keeps itself\<close>

definition in_charge :: "string \<Rightarrow> live \<Rightarrow> bool" where
  "in_charge n s \<longleftrightarrow> (\<exists>k. lookup Name (api_keys (live_db s)) n = Some k \<and> Admin k \<and> \<not> Disabled k \<and> \<not> ReadOnly k)"

lemma in_charge_put:
  assumes "PutAPIKey wall new d = Inr (live_db s')" and "in_charge n s" and "live_db s = d"
    and "Name new = n \<Longrightarrow> Admin new \<and> \<not> Disabled new \<and> \<not> ReadOnly new"
  shows "in_charge n s'"
  using assms by (cases "n = Name new") (auto simp: in_charge_def PutAPIKey_lookup [OF assms(1)])

lemma in_charge_cong: "api_keys (live_db s') = api_keys (live_db s) \<Longrightarrow> in_charge n s' = in_charge n s"
  by (simp add: in_charge_def)

lemma in_charge_credentials:
  assumes "credentials s' = credentials s"
  shows "in_charge n s' = in_charge n s"
proof -
  have C: "in_charge n s = (\<exists>k. lookup Name (credentials s) n = Some k \<and> Admin k \<and> \<not> Disabled k \<and> \<not> ReadOnly k)" for s
  proof -
    have "lookup Name (map credential t) n = map_option credential (lookup Name t n)" for t
      by (induction t) (auto simp: lookup_def credential_def)
    then show ?thesis by (auto simp: in_charge_def credentials_def credential_def)
  qed
  show ?thesis unfolding C assms ..
qed

lemma put_key_in_charge:
  assumes "put_key env key events resp s = (res, s')" and "in_charge n s"
    and "\<And>d. api_keys (events d) = api_keys d"
    and "Name key = n \<Longrightarrow> Admin key \<and> \<not> Disabled key \<and> \<not> ReadOnly key"
  shows "in_charge n s'"
proof (cases res)
  case (Inl e)
  then show ?thesis using assms put_key_Inl by metis
next
  case (Inr x)
  then obtain d where d: "PutAPIKey (env_now env) key (live_db s) = Inr d" "live_db s' = events d"
    using assms(1) put_key_Inr by (metis live.select_convs(1))
  have "in_charge n (s\<lparr> live_db := d \<rparr>)"
    using in_charge_put [of "env_now env" key "live_db s" "s\<lparr> live_db := d \<rparr>" n s] d(1) assms(2,4) by simp
  then show ?thesis using d(2) assms(3) in_charge_cong [of s' "s\<lparr> live_db := d \<rparr>"] by simp
qed

lemma UpdateApiKey_cases:
  assumes "UpdateApiKey srv env ctx name req s = (res, s')"
  obtains (refused) e where "res = Inl e" "s' = s"
    | (stored) old new where "requireAdmin ctx" "findAPIKeyByName name (live_db s) = Some old"
        "\<not> self_lockout ctx name req" "Name new = Name old" "Hash new = Hash old"
        "Admin new = opt_or (upAdmin req) (Admin old)" "Disabled new = opt_or (upDisabled req) (Disabled old)"
        "ReadOnly new = opt_or (upReadOnly req) (ReadOnly old)"
        "put_key env new (update_events env ctx name req old new) new s = (res, s')"
proof (cases "(\<exists>e. res = Inl e) \<and> s' = s")
  case True
  then show thesis using refused by blast
next
  case False
  then obtain old hm def where h: "requireAdmin ctx" "findAPIKeyByName name (live_db s) = Some old"
      "\<not> self_lockout ctx name req" "opt_namespace (upHome req) (HomeNS old) = Inr hm"
      "opt_namespace (upDefaultNamespace req) (DefaultNS old) = Inr def"
      "\<not> (case upSettings req of Some st \<Rightarrow> Validate st \<noteq> None | None \<Rightarrow> False)"
      "\<not> IsFileKey (fileKeys (srvAuth srv)) name"
    using assms unfolding UpdateApiKey_def by (auto split: if_splits option.splits sum.splits)
  let ?new = "old\<lparr> HomeNS := hm, DefaultNS := def, Disabled := opt_or (upDisabled req) (Disabled old),
      Admin := opt_or (upAdmin req) (Admin old), ReadOnly := opt_or (upReadOnly req) (ReadOnly old),
      Settings := opt_or (upSettings req) (Settings old) \<rparr>"
  have "put_key env ?new (update_events env ctx name req old ?new) ?new s = (res, s')"
    using assms h unfolding UpdateApiKey_def by (simp add: Let_def)
  then show thesis using stored [of old ?new] h by simp
qed

lemma api_step_in_charge:
  assumes "api_step srv ctx s s'" and "rcPrincipal ctx = Some p" and "in_charge (prName p) s" and "links_ok (live_db s)"
  shows "in_charge (prName p) s'"
  using assms
proof (induction rule: api_step.induct)
  case (create env secret cr s res s')
  from create.hyps show ?case
  proof (cases rule: CreateApiKey_cases)
    case refused
    then show ?thesis using create.prems by simp
  next
    case (stored hm def)
    have "Name (created_key env secret hm def cr) \<noteq> prName p"
      using stored(4) create.prems findAPIKeyByName_lookup by (auto simp: in_charge_def created_key_def)
    then show ?thesis using put_key_in_charge [OF stored(5) create.prems(2)] by simp
  qed
next
  case (update env name up s res s')
  from update.hyps show ?case
  proof (cases rule: UpdateApiKey_cases)
    case refused
    then show ?thesis using update.prems by simp
  next
    case (stored old new)
    have old: "lookup Name (api_keys (live_db s)) name = Some old" "Name old = name"
      using findAPIKeyByName_row [OF stored(2) update.prems(3)] by simp_all
    have "Admin new \<and> \<not> Disabled new \<and> \<not> ReadOnly new" if "Name new = prName p"
    proof -
      have n: "name = prName p" using that stored(4) old(2) by simp
      then have "Admin old \<and> \<not> Disabled old \<and> \<not> ReadOnly old" using update.prems(2) old(1) by (auto simp: in_charge_def)
      moreover have "upAdmin up \<noteq> Some False" "upDisabled up \<noteq> Some True" "upReadOnly up \<noteq> Some True"
        using stored(3) update.prems(1) n by (auto simp: self_lockout_def)
      ultimately show ?thesis using stored(6-8) by (auto simp: opt_or_def split: option.splits)
    qed
    then show ?thesis using put_key_in_charge [OF stored(9) update.prems(2)] by simp
  qed
next
  case (delete env name s res s')
  show ?case
  proof (cases "api_keys (live_db s') = api_keys (live_db s)")
    case True
    then show ?thesis using delete.prems in_charge_cong by blast
  next
    case False
    then have del: "name \<noteq> prName p" "api_keys (live_db s') = delete_where (\<lambda>k. Name k = name) (api_keys (live_db s))"
      using delete.hyps delete.prems(1)
      by (auto simp: DeleteApiKey_def DeleteAPIKey_def Let_def split: if_splits option.splits)
    obtain k where k: "lookup Name (api_keys (live_db s)) (prName p) = Some k" "Admin k" "\<not> Disabled k" "\<not> ReadOnly k"
      using delete.prems(2) by (auto simp: in_charge_def)
    have "lookup Name (api_keys (live_db s')) (prName p) = Some k"
      unfolding del(2) using delete.prems(3) k(1) lookup_Some [OF k(1)] del(1)
      by (subst lookup_delete) (simp_all add: links_ok_def)
    then show ?thesis using k by (simp add: in_charge_def)
  qed
next
  case (rotate env secret name s res s')
  show ?case
  proof (cases "s' = s")
    case False
    then obtain old where old: "findAPIKeyByName name (live_db s) = Some old"
        "put_key env (old\<lparr> Hash := HashToken secret \<rparr>) id (old\<lparr> Hash := HashToken secret \<rparr>, secret) s = (res, s')"
      using rotate.hyps by (auto simp: RotateApiKey_def Let_def split: if_splits option.splits)
    have "lookup Name (api_keys (live_db s)) name = Some old" "Name old = name"
      using findAPIKeyByName_row [OF old(1) rotate.prems(3)] by simp_all
    then have "Name (old\<lparr> Hash := HashToken secret \<rparr>) = prName p \<Longrightarrow>
        Admin (old\<lparr> Hash := HashToken secret \<rparr>) \<and> \<not> Disabled (old\<lparr> Hash := HashToken secret \<rparr>)
        \<and> \<not> ReadOnly (old\<lparr> Hash := HashToken secret \<rparr>)"
      using rotate.prems(2) by (auto simp: in_charge_def)
    then show ?thesis using put_key_in_charge [OF old(2) rotate.prems(2)] by simp
  qed (use rotate.prems in simp)
next
  case (self env r st s res s')
  have "credentials s' = credentials s" using PutSelfSettings_credentials self by blast
  then show ?case using self.prems(2) in_charge_credentials by blast
next
  case (defaults env st s res s')
  then show ?case using defaults_keys in_charge_cong by blast
next
  case (pin env pp s res s')
  then show ?case using pin_handlers_keys in_charge_cong by blast
next
  case (unpin env remote toplevel s res s')
  then show ?case using pin_handlers_keys in_charge_cong by blast
qed (simp add: in_charge_def)

section \<open>The next request\<close>

lemma lookup_hash:
  assumes "links_ok d" and "k \<in> set (api_keys d)"
  shows "GetAPIKeyByHash (Hash k) d = Some k"
  unfolding GetAPIKeyByHash_def using assms by (intro lookup_unique) (simp_all add: links_ok_def)

text \<open>A token with a stored hash is decided by the stored row.\<close>

lemma Authenticate_stored:
  assumes "links_ok d" and "k \<in> set (api_keys d)" and "HashToken token = Hash k" and "token \<noteq> ''''"
    and "token \<noteq> adminKey pol" and "file_lookup (fileKeys pol) (HashToken token) = None"
  shows "fst (Authenticate pol (Some (sqlite_keys d)) now token c)
    = (if Disabled k then Rejected else Allowed (Some (principal_of k)))"
  using assms lookup_hash [OF assms(1,2)] by (simp add: Authenticate_def sqlite_keys_def)

text \<open>A token that names no key is refused once there are keys, unless it is the admin key.\<close>

lemma Authenticate_unknown:
  assumes "api_keys d \<noteq> []" and "cache_at c = 0" and "keyTableCacheTTL \<le> now"
    and "token = '''' \<or> HashToken token \<notin> Hash ` set (api_keys d)"
    and "adminKey pol = '''' \<or> token \<noteq> adminKey pol" and "file_lookup (fileKeys pol) (HashToken token) = None"
  shows "fst (Authenticate pol (Some (sqlite_keys d)) now token c) = Rejected"
proof (cases "token = ''''")
  case True
  have "ListAPIKeys d \<noteq> []" using assms(1) by (metis ListAPIKeys_def length_0_conv length_SliceStable)
  then have "fst (tableNonEmpty (sqlite_keys d) now c)"
    using tableNonEmpty_fresh [OF assms(2,3)] by (simp add: sqlite_keys_def)
  then show ?thesis using True assms(5) by (auto simp: Authenticate_def without_token_def split: prod.split)
next
  case False
  have "GetAPIKeyByHash (HashToken token) d = None"
    using assms(4) False by (simp add: GetAPIKeyByHash_def lookup_None_iff)
  then show ?thesis using False assms(5,6) by (auto simp: Authenticate_def sqlite_keys_def)
qed

lemma Invalidate_at [simp]: "cache_at (Invalidate c) = 0"
  by (simp add: Invalidate_def)

lemma PutAPIKey_stored:
  assumes "PutAPIKey wall k d = Inr d'" and "\<not> IsZero (kCreatedAt k)"
  shows "k \<in> set (api_keys d')"
proof -
  have "k\<lparr> kCreatedAt := kCreatedAt k \<rparr> = k" by simp
  then have "lookup Name (api_keys d') (Name k) = Some k"
    using PutAPIKey_lookup [OF assms(1), of "Name k"] assms(2) by simp
  then show ?thesis by (metis lookup_Some)
qed

lemma PutAPIKey_row:
  assumes "PutAPIKey wall k d = Inr d'"
    and "\<not> IsZero (kCreatedAt k) \<or> (\<exists>old. lookup Name (api_keys d) (Name k) = Some old \<and> kCreatedAt old = kCreatedAt k)"
  shows "k \<in> set (api_keys d')"
proof (cases "IsZero (kCreatedAt k)")
  case True
  then obtain old where old: "lookup Name (api_keys d) (Name k) = Some old" "kCreatedAt old = kCreatedAt k"
    using assms(2) by blast
  have "k\<lparr> kCreatedAt := kCreatedAt k \<rparr> = k" by simp
  then have "lookup Name (api_keys d') (Name k) = Some k"
    using PutAPIKey_lookup [OF assms(1), of "Name k"] True old by simp
  then show ?thesis by (metis lookup_Some)
qed (use PutAPIKey_stored [OF assms(1)] in blast)

text \<open>A successful creation or rotation ends in one write of the key that it returns.\<close>

lemma issued_key_put:
  assumes "(\<exists>req. CreateApiKey srv env secret ctx req s = (Inr (key, shown), s'))
      \<or> (\<exists>name. RotateApiKey srv env secret ctx name s = (Inr (key, shown), s'))"
    and "links_ok (live_db s)" and "env_now env \<noteq> 0"
  shows "\<exists>events. put_key env key events (key, secret) s = (Inr (key, shown), s')
    \<and> (\<forall>d. api_keys (events d) = api_keys d) \<and> Hash key = HashToken secret
    \<and> (kCreatedAt key \<noteq> 0 \<or> (\<exists>old. lookup Name (api_keys (live_db s)) (Name key) = Some old \<and> kCreatedAt old = kCreatedAt key))"
  using assms(1)
proof (elim disjE exE)
  fix req
  assume "CreateApiKey srv env secret ctx req s = (Inr (key, shown), s')"
  then show ?thesis
  proof (cases rule: CreateApiKey_cases)
    case (stored hm def)
    have "key = created_key env secret hm def req" using put_key_Inr [OF stored(5)] by blast
    then show ?thesis using stored(5) assms(3)
      by (intro exI [of _ "create_events env ctx key"]) (simp add: created_key_def)
  qed simp
next
  fix name
  assume rot: "RotateApiKey srv env secret ctx name s = (Inr (key, shown), s')"
  then obtain old where old: "findAPIKeyByName name (live_db s) = Some old"
      "put_key env (old\<lparr> Hash := HashToken secret \<rparr>) id (old\<lparr> Hash := HashToken secret \<rparr>, secret) s = (Inr (key, shown), s')"
    by (auto simp: RotateApiKey_def Let_def split: if_splits option.splits)
  have key: "key = old\<lparr> Hash := HashToken secret \<rparr>" using put_key_Inr [OF old(2)] by blast
  have "lookup Name (api_keys (live_db s)) (Name key) = Some old"
    using findAPIKeyByName_row [OF old(1) assms(2)] key by simp
  then show ?thesis using old(2) key by (intro exI [of _ id]) simp
qed

section \<open>Pins\<close>

lemma put_pin_namespace:
  "map_option pNamespace (lookup pKey (put_pin now e t) k) =
     (if k = pKey e then Some (pNamespace e) else map_option pNamespace (lookup pKey t k))"
  by (simp add: put_pin_lookup split: option.split)

lemma fold_put_pin_namespace:
  assumes "\<forall>e \<in> set es. pNamespace e = ns"
    and "k \<in> pKey ` set es \<or> map_option pNamespace (lookup pKey t k) = Some ns"
  shows "map_option pNamespace (lookup pKey (fold (put_pin now) es t) k) = Some ns"
  using assms
proof (induction es arbitrary: t)
  case (Cons e es)
  have "map_option pNamespace (lookup pKey (put_pin now e t) k) = Some ns \<or> k \<in> pKey ` set es"
    unfolding put_pin_namespace using Cons.prems by auto
  then have "map_option pNamespace (lookup pKey (fold (put_pin now) es (put_pin now e t)) k) = Some ns"
    using Cons.IH [of "put_pin now e t"] Cons.prems(1) by (metis list.set_intros(2))
  then show ?case by simp
qed simp

lemma fold_put_pin_key:
  assumes "\<forall>e \<in> set es. pNamespace e = ns" and "k \<in> pKey ` set es"
  shows "\<exists>p. lookup pKey (fold (put_pin now) es t) k = Some p \<and> pNamespace p = ns"
proof -
  have "map_option pNamespace (lookup pKey (fold (put_pin now) es t) k) = Some ns"
    using assms by (intro fold_put_pin_namespace) simp_all
  then show ?thesis by auto
qed

text \<open>The lookup of the handshake finds the row of the preferred key.\<close>

lemma pin_by_key_lookup:
  assumes "links_ok d" and "k \<in> set ks"
  shows "pin_by_key (GetPins ks d) k = lookup pKey (pins d) k"
proof -
  have dist: "distinct (map pKey (pins d))" using assms(1) by (simp add: links_ok_def)
  then have "distinct (map pKey (rev (GetPins ks d)))"
    by (simp add: GetPins_def distinct_map inj_on_def)
  show ?thesis
  proof (cases "lookup pKey (pins d) k")
    case None
    then have "k \<notin> pKey ` set (pins d)" by (simp add: lookup_None_iff)
    then have "find (\<lambda>e. pKey e = k) (rev (GetPins ks d)) = None"
      by (auto simp: find_None_all GetPins_def)
    then show ?thesis using None by (simp add: pin_by_key_def)
  next
    case (Some p)
    then have p: "p \<in> set (rev (GetPins ks d))" "pKey p = k"
      using assms(2) by (auto simp: GetPins_def dest: lookup_Some)
    have "lookup pKey (rev (GetPins ks d)) (pKey p) = Some p"
      using \<open>distinct (map pKey (rev _))\<close> p(1) by (rule lookup_unique)
    then show ?thesis using p(2) Some by (simp add: pin_by_key_def lookup_def)
  qed
qed

lemma Resolve_pinned:
  assumes "links_ok d" and "PinKeys f \<noteq> []" and "lookup pKey (pins d) (hd (PinKeys f)) = Some p"
  shows "Resolve f (pinLookup f d) s kd sd = conclude (pNamespace p) ''pin'' SourcePin (hd (PinKeys f))"
proof -
  have hd: "pin_by_key (GetPins (PinKeys f) d) (hd (PinKeys f)) = Some p"
    using pin_by_key_lookup [OF assms(1), of "hd (PinKeys f)" "PinKeys f"] assms(2,3) by simp
  have key: "pKey p = hd (PinKeys f)" using assms(3) by (auto dest: lookup_Some)
  have "find (\<lambda>k. pin_by_key (GetPins (PinKeys f) d) k \<noteq> None) (PinKeys f) = Some (hd (PinKeys f))"
    using assms(2) hd by (cases "PinKeys f") auto
  then show ?thesis using assms(2) hd key by (simp add: Resolve_def pinLookup_def Let_def)
qed

lemma Resolve_unpinned:
  assumes "links_ok d" and "\<forall>k \<in> set (PinKeys f). lookup pKey (pins d) k = None"
  shows "Resolve f (pinLookup f d) s kd sd = resolve_unpinned f s kd sd"
proof -
  have "find (\<lambda>k. pin_by_key (GetPins (PinKeys f) d) k \<noteq> None) (PinKeys f) = None"
    using assms pin_by_key_lookup by (simp add: find_None_iff)
  then show ?thesis by (simp add: Resolve_def pinLookup_def Let_def)
qed

lemma PutPin_stored:
  assumes "PutPin env ctx req s = (Inr p, s')" and "k \<in> set (PinKeys (key_facts (ppRemoteUrl req) (ppToplevelPath req)))"
  shows "\<exists>q. lookup pKey (pins (live_db s')) k = Some q \<and> pNamespace q = NormalizeNamespace (ppNamespace req)"
proof -
  let ?keys = "PinKeys (key_facts (ppRemoteUrl req) (ppToplevelPath req))"
  let ?ns = "NormalizeNamespace (ppNamespace req)"
  obtain e where e: "pins (live_db s') = fold (put_pin (env_now env)) (map e ?keys) (pins (live_db s))"
      "\<forall>k. pKey (e k) = k \<and> pNamespace (e k) = ?ns"
    using assms(1) by (auto simp: PutPin_def Let_def PutPins_def split: if_splits intro!: that)
  then show ?thesis
    unfolding e(1) using assms(2) by (intro fold_put_pin_key) (auto simp: image_image)
qed

lemma DeletePin_gone:
  assumes "DeletePin env ctx remote toplevel s = (Inr (), s')" and "k \<in> set (PinKeys (key_facts remote toplevel))"
  shows "lookup pKey (pins (live_db s')) k = None"
  using assms
  by (auto simp: DeletePin_def DeletePins_def Let_def lookup_None_iff delete_where_def split: if_splits)

end
