(* ===== verification/Access_Properties.thy ===== *)
theory Access_Properties
  imports Config_Steps Core_Properties
begin

text \<open>
  Properties of who may do what and where: authentication, key management, pins, namespace
  resolution, read sets and the target of a write.
\<close>

section \<open>Authentication and keys\<close>

text \<open>
  C6: A request that passes the middleware is who it claims to be.
\<close>

theorem admitted_is_authentic:
  assumes "fst (admit pol defaultNS (Some (sqlite_keys d)) now r c) = Inr ctx"
  shows "(\<forall>p. rcPrincipal ctx = Some p \<longrightarrow>
        (\<exists>key. p = principal_of key \<and> \<not> Disabled key
           \<and> (file_lookup (fileKeys pol) (HashToken (bearer r)) = Some key
              \<or> key \<in> set (api_keys d) \<and> Hash key = HashToken (bearer r)))
        \<and> (prReadOnly p \<longrightarrow> isReadRequest (Method r) (Path r))
        \<and> (prHomeNS p \<noteq> '''' \<longrightarrow> rcHome ctx = prHomeNS p) \<and> rcActor ctx = (prName p, ''key''))
    \<and> (rcPrincipal ctx = None \<longrightarrow>
        (adminKey pol \<noteq> '''' \<and> bearer r = adminKey pol)
        \<or> (adminKey pol = '''' \<and> \<not> enforced (fileKeys pol) \<and> bearer r = ''''
            \<and> (api_keys d = [] \<or> Sub now (cache_at c) < keyTableCacheTTL \<and> \<not> nonEmpty c)))"
proof -
  obtain p where auth: "fst (Authenticate pol (Some (sqlite_keys d)) now (bearer r) c) = Allowed p"
      and after: "after_auth defaultNS p r = Inr ctx"
    using assms by (auto simp: admit_def split: prod.splits auth_result.splits)
  have ctx: "rcPrincipal ctx = p" "rcActor ctx = actor_of p r" "\<not> read_only_refuses p r"
      "\<exists>w. request_home p r = Inr (rcHome ctx, w)"
    using after by (auto simp: after_auth_def split: if_splits sum.splits)
  show ?thesis
  proof (cases p)
    case None
    have "ListAPIKeys d = [] \<longleftrightarrow> api_keys d = []"
      by (metis ListAPIKeys_def length_0_conv length_SliceStable)
    then show ?thesis
      using Authenticate_nameless [OF auth [unfolded None]] tableNonEmpty_False [of "sqlite_keys d" now c] ctx(1) None
      by (auto simp: sqlite_keys_def)
  next
    case (Some q)
    obtain key where key: "q = principal_of key" "\<not> Disabled key"
        "file_lookup (fileKeys pol) (HashToken (bearer r)) = Some key
         \<or> GetAPIKeyByHash (HashToken (bearer r)) d = Some key"
      using Authenticate_named [OF auth [unfolded Some]] by (auto simp: sqlite_keys_def)
    have "GetAPIKeyByHash h d = Some key \<Longrightarrow> key \<in> set (api_keys d) \<and> Hash key = h" for h
      unfolding GetAPIKeyByHash_def by (rule lookup_Some)
    then show ?thesis
      using key ctx Some by (auto simp: actor_of_def read_only_refuses_def request_home_def)
  qed
qed

definition open_request :: Request where
  "open_request = \<lparr> Method = ''GET'', Path = ''/v1/self'', Authorization = ''Bearer s3'', NsHeader = ''work'', HomeHeader = '''' \<rparr>"

definition admin_policy :: AuthPolicy where
  "admin_policy = \<lparr> adminKey = ''s3'', fileKeys = None \<rparr>"

lemma admitted_is_authentic_witness:
  "\<exists>ctx. fst (admit admin_policy ''default'' (Some (sqlite_keys (empty_db 3))) 0 open_request fresh_cache) = Inr ctx
     \<and> rcNamespace ctx = ''work''
     \<and> (rcPrincipal ctx = None \<and> adminKey admin_policy = bearer open_request)"
proof -
  have b: "bearer open_request = ''s3''" by (simp add: bearer_def open_request_def HasPrefix_def)
  have N: "NormalizeNamespace ''work'' = ''work''" "NormalizeNamespace '''' = ''''" by code_simp+
  have V: "ValidateNamespace ''work'' = None" by code_simp
  have "request_namespace ''default'' None open_request = Inr ''work''"
    by (simp add: request_namespace_def open_request_def N V)
  moreover have "request_home None open_request = Inr ('''', None)"
    by (simp add: request_home_def header_home_def open_request_def N)
  ultimately obtain ctx where "after_auth ''default'' None open_request = Inr ctx"
      "rcNamespace ctx = ''work''" "rcPrincipal ctx = None"
    by (simp add: after_auth_def read_only_refuses_def)
  moreover have "fst (admit admin_policy ''default'' (Some (sqlite_keys (empty_db 3))) 0 open_request fresh_cache)
      = after_auth ''default'' None open_request"
    by (simp add: admit_def Authenticate_def b admin_policy_def)
  ultimately have ctx: "fst (admit admin_policy ''default'' (Some (sqlite_keys (empty_db 3))) 0 open_request fresh_cache) = Inr ctx"
      "rcNamespace ctx = ''work''" "rcPrincipal ctx = None" by simp_all
  show ?thesis using admitted_is_authentic [OF ctx(1)] ctx b by (auto simp: admin_policy_def)
qed

text \<open>
  C7: After a key was created or rotated the very next request is held to it.
\<close>

theorem issued_key_enforced:
  assumes "(\<exists>req. CreateApiKey srv env secret ctx req s = (Inr (key, shown), s'))
      \<or> (\<exists>name. RotateApiKey srv env secret ctx name s = (Inr (key, shown), s'))"
    and "store_ok (live_db s)" and "env_now env \<noteq> 0" and "keyTableCacheTTL \<le> now" and "secret \<noteq> ''''"
  shows "shown = secret \<and> Hash key = HashToken secret
    \<and> (secret \<noteq> adminKey (srvAuth srv) \<and> file_lookup (fileKeys (srvAuth srv)) (HashToken secret) = None \<longrightarrow>
         fst (Authenticate (srvAuth srv) (Some (sqlite_keys (live_db s'))) now secret (live_cache s'))
           = (if Disabled key then Rejected else Allowed (Some (principal_of key))))
    \<and> (\<forall>token. (token = '''' \<or> HashToken token \<notin> Hash ` set (api_keys (live_db s')))
         \<and> (adminKey (srvAuth srv) = '''' \<or> token \<noteq> adminKey (srvAuth srv))
         \<and> file_lookup (fileKeys (srvAuth srv)) (HashToken token) = None \<longrightarrow>
         fst (Authenticate (srvAuth srv) (Some (sqlite_keys (live_db s'))) now token (live_cache s')) = Rejected)"
proof -
  have links: "links_ok (live_db s)" using assms(2) by (simp add: store_ok_def)
  have "store_ok (live_db s')"
    using assms(1,2) handler_store store_steps_ok by metis
  then have links': "links_ok (live_db s')" by (simp add: store_ok_def)
  obtain events where put: "put_key env key events (key, secret) s = (Inr (key, shown), s')"
      and keys: "\<And>d. api_keys (events d) = api_keys d" and hash: "Hash key = HashToken secret"
      and created: "kCreatedAt key \<noteq> 0 \<or> (\<exists>old. lookup Name (api_keys (live_db s)) (Name key) = Some old \<and> kCreatedAt old = kCreatedAt key)"
    using issued_key_put [OF assms(1) links assms(3)] by blast
  obtain d where d: "PutAPIKey (env_now env) key (live_db s) = Inr d" "(key, shown) = (key, secret)"
      "live_db s' = events d" "live_cache s' = Invalidate (live_cache s)"
    using put put_key_Inr by (metis live.select_convs)
  have "key \<in> set (api_keys d)" using PutAPIKey_row [OF d(1)] created by (auto simp: IsZero_def)
  then have stored: "key \<in> set (api_keys (live_db s'))" using d(3) keys by simp
  then have "api_keys (live_db s') \<noteq> []" by auto
  then show ?thesis
    using d(2,4) hash stored links' assms(4,5)
      Authenticate_stored [OF links' stored, of secret "srvAuth srv" now "live_cache s'"]
      Authenticate_unknown [of "live_db s'" "live_cache s'" now]
    by simp
qed

definition open_server :: server where
  "open_server = \<lparr> srvAuth = \<lparr> adminKey = '''', fileKeys = None \<rparr>, srvDefaultNS = ''default'',
     ClientDefaults = None, srvCascade = True \<rparr>"

definition first_minute :: env where
  "first_minute = \<lparr> env_now = unix_epoch, env_op = (\<lambda>n. ''op''), env_log = True \<rparr>"

definition anyone :: ReqCtx where
  "anyone = \<lparr> rcPrincipal = None, rcActor = ('''', ''none''), rcNamespace = ''default'', rcHome = '''', rcWarning = None \<rparr>"

definition ci_request :: CreateApiKeyRequest where
  "ci_request = \<lparr> crName = ''ci'', crHome = None, crDefaultNamespace = None, crDisabled = None,
     crAdmin = Some True, crReadOnly = None \<rparr>"

definition blank :: live where
  "blank = \<lparr> live_db = empty_db 3, live_cache = fresh_cache \<rparr>"

lemma blank_created:
  "\<exists>key s'. CreateApiKey open_server first_minute ''s3'' anyone ci_request blank = (Inr (key, ''s3''), s')
     \<and> Name key = ''ci'' \<and> \<not> Disabled key \<and> Admin key \<and> \<not> ReadOnly key
     \<and> lookup Name (api_keys (live_db s')) ''ci'' = Some key \<and> store_ok (live_db s')"
proof -
  have T: "TrimSpace ''ci'' = ''ci''" by code_simp
  have N: "normalizeOptionalNamespace '''' = Inr ''''" by code_simp
  have K: "api_keys (empty_db 3) = []" by (simp add: empty_db_def)
  have F: "findAPIKeyByName ''ci'' (empty_db 3) = None"
    by (simp add: findAPIKeyByName_def ListAPIKeys_def K)
  let ?key = "created_key first_minute ''s3'' '''' '''' ci_request"
  have "CreateApiKey open_server first_minute ''s3'' anyone ci_request blank
      = put_key first_minute ?key (create_events first_minute anyone ?key) (?key, ''s3'') blank"
    by (simp add: CreateApiKey_def T anyone_def requireAdmin_def IsFileKey_def F deref_string_def N
        open_server_def blank_def ci_request_def Let_def)
  moreover obtain d where d: "PutAPIKey (env_now first_minute) ?key (empty_db 3) = Inr d"
    by (simp add: PutAPIKey_def K Let_def)
  ultimately have c: "CreateApiKey open_server first_minute ''s3'' anyone ci_request blank
      = (Inr (?key, ''s3''), \<lparr> live_db = create_events first_minute anyone ?key d, live_cache = Invalidate fresh_cache \<rparr>)"
    by (simp add: put_key_def blank_def)
  have key: "Name ?key = ''ci''" "\<not> Disabled ?key" "Admin ?key" "\<not> ReadOnly ?key" "kCreatedAt ?key \<noteq> 0"
    by (simp_all add: created_key_def ci_request_def T deref_bool_def first_minute_def unix_epoch_def)
  have "?key\<lparr> kCreatedAt := kCreatedAt ?key \<rparr> = ?key" by simp
  then have "lookup Name (api_keys d) ''ci'' = Some ?key"
    using PutAPIKey_lookup [OF d, of "''ci''"] key by (simp add: IsZero_def)
  moreover have "store_ok (create_events first_minute anyone ?key d)"
    using store_steps_ok [OF CreateApiKey_store [OF c]] by (simp add: blank_def empty_store_ok)
  ultimately show ?thesis using c key
    by (intro exI [of _ ?key]
        exI [of _ "\<lparr> live_db = create_events first_minute anyone ?key d, live_cache = Invalidate fresh_cache \<rparr>"]) simp
qed

lemma issued_key_enforced_witness:
  "\<exists>key s'. CreateApiKey open_server first_minute ''s3'' anyone ci_request blank = (Inr (key, ''s3''), s')
     \<and> fst (Authenticate (srvAuth open_server) (Some (sqlite_keys (live_db s'))) unix_epoch ''s3'' (live_cache s'))
         = Allowed (Some (principal_of key))
     \<and> fst (Authenticate (srvAuth open_server) (Some (sqlite_keys (live_db s'))) unix_epoch '''' (live_cache s')) = Rejected"
proof -
  obtain key s' where c: "CreateApiKey open_server first_minute ''s3'' anyone ci_request blank = (Inr (key, ''s3''), s')"
      "\<not> Disabled key"
    using blank_created by blast
  have ok: "store_ok (live_db blank)" by (simp add: blank_def empty_store_ok)
  have t: "env_now first_minute \<noteq> 0" "keyTableCacheTTL \<le> unix_epoch"
    by (simp_all add: first_minute_def unix_epoch_def)
  have pol: "adminKey (srvAuth open_server) = ''''" "fileKeys (srvAuth open_server) = None"
    by (simp_all add: open_server_def)
  have "(\<exists>req. CreateApiKey open_server first_minute ''s3'' anyone req blank = (Inr (key, ''s3''), s'))
      \<or> (\<exists>name. RotateApiKey open_server first_minute ''s3'' anyone name blank = (Inr (key, ''s3''), s'))"
    using c(1) by blast
  from issued_key_enforced [OF this ok t] show ?thesis
    using c pol by (intro exI [of _ key] exI [of _ s']) (simp add: file_lookup_def)
qed

text \<open>
  C8: Whatever any number of callers without the admin capability do through the
  configuration end points, no name, hash, binding or capability of any key changes.
\<close>

theorem only_admins_change_credentials:
  assumes "api_run srv (\<lambda>ctx. \<not> requireAdmin ctx) s s'" and "store_ok (live_db s)"
  shows "map (\<lambda>k. k\<lparr> Settings := no_settings \<rparr>) (api_keys (live_db s'))
      = map (\<lambda>k. k\<lparr> Settings := no_settings \<rparr>) (api_keys (live_db s))
    \<and> store_step\<^sup>*\<^sup>* (live_db s) (live_db s') \<and> store_ok (live_db s')"
proof -
  have "credential = (\<lambda>k. k\<lparr> Settings := no_settings \<rparr>)" by (rule ext) (simp add: credential_def)
  then show ?thesis
    using api_run_credentials [OF assms] api_run_store [OF assms(1)] by (simp add: credentials_def)
qed

definition reader :: ReqCtx where
  "reader = anyone\<lparr> rcPrincipal := Some \<lparr> prName = ''bot'', prHomeNS = '''', prDefaultNS = '''',
     prAdmin = False, prReadOnly = False \<rparr> \<rparr>"

definition path_pin :: PinPutRequest where
  "path_pin = \<lparr> ppNamespace = ''work/app'', ppRemoteUrl = Some ''git@github.com:acme/app.git'',
     ppToplevelPath = Some ''/src/app'', ppNote = None \<rparr>"

lemma only_admins_change_credentials_witness:
  "\<exists>s'. snd (PutPin first_minute reader path_pin blank) = s'
     \<and> map (\<lambda>k. k\<lparr> Settings := no_settings \<rparr>) (api_keys (live_db s')) = []"
proof -
  obtain res s' where p: "PutPin first_minute reader path_pin blank = (res, s')" by fastforce
  have "api_run open_server (\<lambda>ctx. \<not> requireAdmin ctx) blank s'"
    by (rule api_run.step [OF api_run.start _ api_step.pin [OF p]]) (simp add: reader_def requireAdmin_def)
  from only_admins_change_credentials [OF this] show ?thesis
    using p by (simp add: blank_def empty_store_ok) (simp add: empty_db_def)
qed

text \<open>
  An admin key that only uses the configuration end points itself never loses its own
  row, its admin capability, its right to write or its validity.
\<close>

theorem no_self_lockout:
  assumes "api_run srv (\<lambda>ctx. rcPrincipal ctx = Some p) s s'" and "store_ok (live_db s)"
    and "lookup Name (api_keys (live_db s)) (prName p) = Some k" and "Admin k" "\<not> Disabled k" "\<not> ReadOnly k"
  shows "\<exists>k'. lookup Name (api_keys (live_db s')) (prName p) = Some k' \<and> Admin k' \<and> \<not> Disabled k' \<and> \<not> ReadOnly k'"
proof -
  have "in_charge (prName p) s" using assms(3-6) by (auto simp: in_charge_def)
  with assms(1,2) have "in_charge (prName p) s' \<and> store_ok (live_db s')"
  proof (induction rule: api_run.induct)
    case (step s s' ctx s'')
    then have ih: "in_charge (prName p) s'" "store_ok (live_db s')" by simp_all
    then have "in_charge (prName p) s''"
      using api_step_in_charge [OF step.hyps(3,2)] by (simp add: store_ok_def)
    moreover have "store_ok (live_db s'')"
      using ih(2) api_step_store [OF step.hyps(3)] store_steps_ok by blast
    ultimately show ?case by simp
  qed simp
  then show ?thesis by (simp add: in_charge_def)
qed

definition ci_caller :: ReqCtx where
  "ci_caller = anyone\<lparr> rcPrincipal := Some \<lparr> prName = ''ci'', prHomeNS = '''', prDefaultNS = '''',
     prAdmin = True, prReadOnly = False \<rparr> \<rparr>"

lemma no_self_lockout_witness:
  "\<exists>s s' k. snd (DeleteApiKey open_server first_minute ci_caller ''ci'' s) = s'
     \<and> lookup Name (api_keys (live_db s')) ''ci'' = Some k \<and> Admin k \<and> \<not> Disabled k"
proof -
  obtain key and s :: live where s: "lookup Name (api_keys (live_db s)) ''ci'' = Some key" "Admin key" "\<not> Disabled key"
      "\<not> ReadOnly key" "store_ok (live_db s)"
    using blank_created by blast
  obtain res s' where d: "DeleteApiKey open_server first_minute ci_caller ''ci'' s = (res, s')" by fastforce
  define p where "p = the (rcPrincipal ci_caller)"
  have p: "rcPrincipal ci_caller = Some p" "prName p = ''ci''" by (simp_all add: p_def ci_caller_def)
  have "api_run open_server (\<lambda>ctx. rcPrincipal ctx = Some p) s s'"
    by (rule api_run.step [OF api_run.start _ api_step.delete [OF d]]) (rule p)
  from no_self_lockout [OF this s(5) s(1) [folded p(2)] s(2-4)] show ?thesis
    using d p(2) by (intro exI [of _ s] exI [of _ s']) auto
qed

section \<open>Namespaces\<close>

text \<open>
  Every spelling of a remote (HTTPS, SSH with a user and a port, or the scp form; with or
  without \<open>.git\<close> and trailing slashes) has one canonical key, the host and the path in lower
  case; and no key carries a user, a password or a port in its host.
\<close>

theorem one_key_per_remote:
  assumes "plain_name h" and "plain_name u" and "plain_path p" and "CHR ''@'' \<notin> set port" "slash \<notin> set port"
    and "g = '''' \<or> g = ''.git''"
  shows "CanonicalRemote (''https://'' @ h @ ''/'' @ p @ g @ replicate n slash) = ToLower (h @ ''/'' @ p)
    \<and> CanonicalRemote (''ssh://'' @ u @ ''@'' @ h @ '':'' @ port @ ''/'' @ p @ g @ replicate n slash) = ToLower (h @ ''/'' @ p)
    \<and> CanonicalRemote (u @ ''@'' @ h @ '':'' @ p @ g @ replicate n slash) = ToLower (h @ ''/'' @ p)
    \<and> (\<forall>url. CHR ''@'' \<notin> set (takeWhile (\<lambda>c. c \<noteq> slash) (CanonicalRemote url))
          \<and> CHR '':'' \<notin> set (takeWhile (\<lambda>c. c \<noteq> slash) (CanonicalRemote url)))"
proof -
  have h: "slash \<notin> set h" and u: "slash \<notin> set u" using assms(1,2) by (simp_all add: plain_name_def)
  have a: "slash \<notin> set (u @ ''@'' @ h @ '':'' @ port)" using h u assms(5) by simp
  have "CanonicalRemote (''https://'' @ h @ ''/'' @ p @ g @ replicate n slash) = ToLower (h @ ''/'' @ p)"
    using CanonicalRemote_url [of "''https''" h p g n] h assms(3,6) bare_host_plain(1) [OF assms(1,4)] by simp
  moreover have "CanonicalRemote (''ssh://'' @ u @ ''@'' @ h @ '':'' @ port @ ''/'' @ p @ g @ replicate n slash) = ToLower (h @ ''/'' @ p)"
    using CanonicalRemote_url [OF _ a assms(3,6), of "''ssh''" n] bare_host_plain(4) [OF assms(1,4), of u] by simp
  ultimately show ?thesis
    using CanonicalRemote_scp [OF assms(2,1,3,6)] CanonicalRemote_credential_free by blast
qed

lemma one_key_per_remote_witness:
  "CanonicalRemote (''git@GitHub.com:Acme/App.git'') = ToLower ''GitHub.com/Acme/App''
   \<and> CanonicalRemote (''https://GitHub.com/Acme/App.git'') = ToLower ''GitHub.com/Acme/App''"
proof -
  have "plain_name ''GitHub.com''" "plain_name ''git''" "plain_path ''Acme/App''" by code_simp+
  from one_key_per_remote [OF this, of "''22''" "''.git''" 0] show ?thesis by simp
qed

text \<open>
  A pin stored for any of a project's keys decides the handshake of that project, against
  any environment, declaration, settings and default.
\<close>

theorem pin_decides_handshake:
  assumes "PutPin env ctx req s = (Inr echoed, s')" and "store_ok (live_db s)"
    and "PinKeys f \<noteq> []" and "hd (PinKeys f) \<in> set (PinKeys (key_facts (ppRemoteUrl req) (ppToplevelPath req)))"
    and "TrimSpace (CwdBasename f) \<noteq> ''''"
    and "NormalizeNamespace (NormalizeNamespace (ppNamespace req)) = NormalizeNamespace (ppNamespace req)"
  shows "\<exists>resp pin. Handshake srv caller r \<lparr> hrFacts = f, EnvNamespacePrefix = px \<rparr> s' = Inr resp
    \<and> hsResolution resp = \<lparr> resNamespace = NormalizeNamespace (ppNamespace req), resSource = SourcePin, PinKey = hd (PinKeys f) \<rparr>
    \<and> hsPin resp = Some pin \<and> pKey pin = hd (PinKeys f) \<and> pNamespace pin = NormalizeNamespace (ppNamespace req)"
proof -
  let ?ns = "NormalizeNamespace (ppNamespace req)"
  have "store_ok (live_db s')" using store_steps_ok [OF PutPin_store [OF assms(1)] assms(2)] .
  then have ok: "links_ok (live_db s')" by (simp add: store_ok_def)
  obtain q where q: "lookup pKey (pins (live_db s')) (hd (PinKeys f)) = Some q" "pNamespace q = ?ns"
    using PutPin_stored [OF assms(1,4)] by blast
  have valid: "ValidateNamespace ?ns = None"
    using assms(1) by (auto simp: PutPin_def Let_def split: if_splits)
  let ?res = "\<lparr> resNamespace = ?ns, resSource = SourcePin, PinKey = hd (PinKeys f) \<rparr>"
  have res: "Resolve f (pinLookup f (live_db s')) st kd sd = Inr ?res" for st kd sd
    using Resolve_pinned [OF ok assms(3) q(1)] q(2) valid assms(6) by (simp add: conclude_Inr)
  have pin: "pin_by_key (GetPins (PinKeys f) (live_db s')) (hd (PinKeys f)) = Some q"
    using pin_by_key_lookup [OF ok] q(1) assms(3) by simp
  have key: "pKey q = hd (PinKeys f)" using q(1) by (auto dest: lookup_Some)
  show ?thesis
    unfolding Handshake_def Let_def
    using assms(5) res pin key q(2) by (simp split: prod.split)
qed

lemma pin_decides_handshake_witness:
  "\<exists>echoed s' resp. PutPin first_minute reader path_pin blank = (Inr echoed, s')
     \<and> Handshake open_server anyone open_request
         \<lparr> hrFacts = \<lparr> RemoteURL = ''https://github.com/ACME/app'', ToplevelPath = ''/elsewhere'', ToplevelBasename = ''app'',
             CwdBasename = ''app'', Agent = '''', EnvNamespace = ''mine'', DeclaredNamespace = '''' \<rparr>,
           EnvNamespacePrefix = None \<rparr> s' = Inr resp
     \<and> resNamespace (hsResolution resp) = ''work/app''"
proof -
  let ?f = "\<lparr> RemoteURL = ''https://github.com/ACME/app'', ToplevelPath = ''/elsewhere'', ToplevelBasename = ''app'',
      CwdBasename = ''app'', Agent = '''', EnvNamespace = ''mine'', DeclaredNamespace = '''' \<rparr>"
  have C: "CanonicalRemote ''https://github.com/ACME/app'' = ''github.com/acme/app''"
    "CanonicalRemote ''git@github.com:acme/app.git'' = ''github.com/acme/app''" by code_simp+
  have K: "PinKeys ?f = [''remote:github.com/acme/app'', ''path:/elsewhere'']"
    "PinKeys (key_facts (ppRemoteUrl path_pin) (ppToplevelPath path_pin)) = [''remote:github.com/acme/app'', ''path:/src/app'']"
    by (simp_all add: PinKeys_def key_facts_def path_pin_def deref_string_def C)
  have N: "NormalizeNamespace ''work/app'' = ''work/app''" "ValidateNamespace ''work/app'' = None"
    "TrimSpace ''app'' \<noteq> ''''" by code_simp+
  have ns: "ppNamespace path_pin = ''work/app''" by (simp add: path_pin_def)
  obtain echoed s' where p: "PutPin first_minute reader path_pin blank = (Inr echoed, s')"
    using K(2) by (simp add: PutPin_def ns N Let_def)
  have ok: "store_ok (live_db blank)" by (simp add: blank_def empty_store_ok)
  have "PinKeys ?f \<noteq> []" "hd (PinKeys ?f) \<in> set (PinKeys (key_facts (ppRemoteUrl path_pin) (ppToplevelPath path_pin)))"
    "TrimSpace (CwdBasename ?f) \<noteq> ''''"
    unfolding K using N(3) by simp_all
  from pin_decides_handshake [OF p ok this, of open_server anyone open_request None] show ?thesis
    using p ns N(1) by (intro exI [of _ echoed] exI [of _ s']) auto
qed

end
