(* ===== verification/Scope_Properties.thy ===== *)
theory Scope_Properties
  imports Read_Set Namespace_Resolution
begin

text \<open>
  What the namespace rules promise: the default read set, the agreement of the write path's
  \<open>resolveVisibility\<close> with the read path's \<open>resolveReadSet\<close>, and the nesting of agents under
  their project that lets an agent read what the project knows.
\<close>

section \<open>The default read set\<close>

text \<open>What may stand in a default read set: the own namespace, its subtree, or a durable leg.\<close>

definition default_leg_ok :: "bool \<Rightarrow> readScope \<Rightarrow> scopeEntry \<Rightarrow> bool" where
  "default_leg_ok cascade sc e \<longleftrightarrow>
     e = primary_leg (sc_primary sc)
     \<or> sc_subtree sc \<and> HasPrefix (leg_ns e) (sc_primary sc @ ''/'') \<and> leg_origin e = OriginPrimary \<and> leg_tiers e = None
     \<or> \<not> sc_bare sc \<and> cascade \<and> leg_origin e \<noteq> OriginPrimary \<and> cascade_leg (sc_reqTiers sc) e"


text \<open>
  C9: The default read set starts with the request's own namespace, has at most 64 legs, and
  apart from the namespace (and its subtree when asked for) holds only durable tiers of the
  request; its namespaces are distinct, and the caller's home is never crowded out.
\<close>

theorem read_set_default:
  assumes "sc_explicit sc = []" and "resolveReadSet cascade st sc = Inr es"
    and "list_namespaces st = Inr names" and "distinct names"
  shows "es \<noteq> [] \<and> hd es = primary_leg (sc_primary sc) \<and> length es \<le> readSetMaxEntries
    \<and> distinct (map leg_ns es)
    \<and> list_all (default_leg_ok cascade sc) es
    \<and> (sc_home sc \<in> leg_ns ` set es
        \<or> sc_home sc = '''' \<or> sc_bare sc \<or> \<not> cascade \<or> durableTiers (sc_reqTiers sc) = [])"
proof -
  have "distinct (map leg_ns es)" using default_distinct [OF assms(1,2)] assms(3,4) by simp
  moreover have "sc_home sc \<in> leg_ns ` set es
      \<or> sc_home sc = '''' \<or> sc_bare sc \<or> \<not> cascade \<or> durableTiers (sc_reqTiers sc) = []"
    using default_home [OF assms(1), of st es] assms(2) by (cases cascade) auto
  moreover have "list_all (default_leg_ok cascade sc) es"
    unfolding list_all_iff default_leg_ok_def using default_leg [OF assms(1,2)] by (intro ballI)
  ultimately show ?thesis
    using default_primary [OF assms(1,2)] by (simp only: simp_thms)
qed

definition link_to :: "string \<Rightarrow> Tier list \<Rightarrow> NamespaceLink" where
  "link_to d ts = \<lparr> Src = ''me/app'', Dst = d, lTiers = ts, lNote = '''', lCreatedAt = 0 \<rparr>"

definition two_links :: read_store where
  "two_links = \<lparr> list_namespaces = Inr [''me'', ''me/app'', ''me/app/bot'', ''lib''],
     list_links = Some (\<lambda>ns. Inr [link_to ''lib'' [TierSemantic], link_to ''log'' [TierEpisodic]]) \<rparr>"

definition app_scope :: readScope where
  "app_scope = \<lparr> sc_primary = ''me/app'', sc_home = ''home'', sc_explicit = [], sc_subtree = True,
     sc_bare = False, sc_reqTiers = [] \<rparr>"

lemma app_read_set:
  "\<exists>es. resolveReadSet True two_links app_scope = Inr es
     \<and> map leg_ns es = [''me/app'', ''me/app/bot'', ''me'', ''home'', ''lib'']"
proof -
  have "(case resolveReadSet True two_links app_scope of Inr es \<Rightarrow> Some (map leg_ns es) | Inl _ \<Rightarrow> None)
      = Some [''me/app'', ''me/app/bot'', ''me'', ''home'', ''lib'']"
    by code_simp
  then show ?thesis by (auto split: sum.splits)
qed

lemma read_set_default_witness:
  "\<exists>es. resolveReadSet True two_links app_scope = Inr es
     \<and> map leg_ns es = [''me/app'', ''me/app/bot'', ''me'', ''home'', ''lib''] \<and> distinct (map leg_ns es)"
proof -
  obtain es where es: "resolveReadSet True two_links app_scope = Inr es"
      "map leg_ns es = [''me/app'', ''me/app/bot'', ''me'', ''home'', ''lib'']"
    using app_read_set by (elim exE conjE) (rule that)
  have sc: "sc_explicit app_scope = []" by (simp add: app_scope_def)
  have names: "list_namespaces two_links = Inr [''me'', ''me/app'', ''me/app/bot'', ''lib'']" by (simp add: two_links_def)
  have d: "distinct [''me'', ''me/app'', ''me/app/bot'', ''lib'']" by simp
  show ?thesis
    using read_set_default [OF sc es(1) names d] es by metis
qed



section \<open>Agents\<close>

text \<open>
  An agent's namespace is its project's namespace or lies under it, and then the agent's
  default read set has the project's namespace as an ancestor leg.
\<close>

theorem agent_reads_project:
  assumes "Resolve (f\<lparr> Agent := '''' \<rparr>) pl s kd sd = Inr r" and "Resolve f pl s kd sd = Inr r'"
    and "derive f s = Some (b, resSource r, what)" and "\<not> is_space (last b)" "last b \<noteq> slash"
    and "resolveReadSet True st
        \<lparr> sc_primary = resNamespace r', sc_home = h, sc_explicit = [], sc_subtree = sub, sc_bare = False, sc_reqTiers = req \<rparr> = Inr es"
    and "length es < readSetMaxEntries" and "durableTiers req \<noteq> []"
  shows "(resNamespace r' = resNamespace r
          \<or> resNamespace r' = resNamespace r @ ''/'' @ sanitizeSegment (Agent f))
    \<and> (\<exists>e \<in> set es. leg_ns e = resNamespace r \<and> (leg_tiers e = None \<or> leg_tiers e = Some (durableTiers req)))"
proof -
  have src: "resSource r \<in> {SourceRemote, SourceToplevel, SourceCwd}" "b \<noteq> []"
    using assms(3) by (auto simp: derive_def Let_def split: if_splits)
  obtain base src what' where d: "derive f s = Some (base, src, what')"
      "resNamespace r = NormalizeNamespace (applyPrefix base s)"
      "resNamespace r' = NormalizeNamespace (withAgent (applyPrefix base s) (Agent f))"
    using resolve_agent [OF assms(1,2) src(1)] by blast
  let ?p = "applyPrefix b s" and ?seg = "sanitizeSegment (Agent f)"
  have b: "base = b" using d(1) assms(3) by simp
  have p: "?p \<noteq> []" "\<not> is_space (last ?p)" "last ?p \<noteq> slash"
    using src(2) assms(4,5) by (auto simp: applyPrefix_def split: option.splits)
  have seg: "c \<noteq> slash \<and> \<not> is_space c" if "c \<in> set ?seg" for c
    using that sanitizeSegment_chars by blast
  have nest: "resNamespace r' = resNamespace r \<or> resNamespace r' = resNamespace r @ ''/'' @ ?seg \<and> resNamespace r \<noteq> []"
  proof (cases "?seg = ''''")
    case True
    then show ?thesis using d(2,3) by (simp add: withAgent_def)
  next
    case False
    then have "resNamespace r' = NormalizeNamespace (?p @ slash # ?seg)" using d(3) b by (simp add: withAgent_def)
    then show ?thesis
      using NormalizeNamespace_segment [OF p False seg] d(2) b by simp
  qed
  then have "resNamespace r \<in> {resNamespace r'} \<union> set (ancestorsOf (resNamespace r'))"
    by (auto simp: ancestorsOf_iff)
  then show ?thesis
    using default_wide [OF _ assms(6) _ _ assms(7), of "resNamespace r"] assms(8) nest by auto
qed

definition bot_facts :: Facts where
  "bot_facts = \<lparr> RemoteURL = ''git@github.com:acme/app.git'', ToplevelPath = '''', ToplevelBasename = '''',
     CwdBasename = ''app'', Agent = ''Code Review'', EnvNamespace = '''', DeclaredNamespace = '''' \<rparr>"

lemma agent_reads_project_witness:
  "\<exists>r es. Resolve bot_facts None no_settings '''' ''default'' = Inr r
     \<and> resNamespace r = ''app/Code-Review''
     \<and> resolveReadSet True two_links \<lparr> sc_primary = resNamespace r, sc_home = '''', sc_explicit = [],
          sc_subtree = False, sc_bare = False, sc_reqTiers = [] \<rparr> = Inr es
     \<and> ''app'' \<in> leg_ns ` set es"
proof -
  let ?f = "bot_facts\<lparr> Agent := '''' \<rparr>"
  let ?r = "\<lparr> resNamespace = ''app'', resSource = SourceRemote, PinKey = '''' \<rparr>"
  let ?r' = "\<lparr> resNamespace = ''app/Code-Review'', resSource = SourceRemote, PinKey = '''' \<rparr>"
  let ?sc = "\<lparr> sc_primary = resNamespace ?r', sc_home = '''', sc_explicit = [], sc_subtree = False,
      sc_bare = False, sc_reqTiers = [] \<rparr>"
  have d: "derive bot_facts no_settings = Some (''app'', resSource ?r, ''remote_url'')" by code_simp
  have s: "sanitizeSegment ''Code Review'' = ''Code-Review''" "sanitizeSegment '''' = ''''" by code_simp+
  have n: "NormalizeNamespace ''app'' = ''app''" "NormalizeNamespace ''app/Code-Review'' = ''app/Code-Review''"
    "ValidateNamespace ''app'' = None" "ValidateNamespace ''app/Code-Review'' = None" by code_simp+
  have d': "derive ?f no_settings = Some (''app'', resSource ?r, ''remote_url'')" by code_simp
  have p: "applyPrefix ''app'' no_settings = ''app''" by code_simp
  have r: "Resolve ?f None no_settings '''' ''default'' = Inr ?r" "Resolve bot_facts None no_settings '''' ''default'' = Inr ?r'"
    using d d' s n p by (simp_all add: Resolve_def resolve_unpinned_def conclude_Inr withAgent_def bot_facts_def)
  have "(case resolveReadSet True two_links ?sc of Inr es \<Rightarrow> Some (length es) | Inl _ \<Rightarrow> None) = Some 3" by code_simp
  then obtain es where es: "resolveReadSet True two_links ?sc = Inr es" "length es = 3" by (auto split: sum.splits)
  have l: "\<not> is_space (last ''app'')" "last ''app'' \<noteq> slash" "durableTiers [] \<noteq> []" by code_simp+
  have len: "length es < readSetMaxEntries" using es(2) by simp
  from agent_reads_project [OF r d l(1,2) es(1) len l(3)] obtain e where "e \<in> set es" "leg_ns e = ''app''" by auto
  then have "''app'' \<in> leg_ns ` set es" by (metis image_eqI)
  with r(2) es(1) show ?thesis by (intro exI [of _ ?r'] exI [of _ es]) simp
qed

end
