(* ===== verification/Render.thy ===== *)
theory Render
  imports Memory_Types "HOL-Library.Sublist"
begin

text \<open>
  \<open>internal/api/render\<close>: the concise projection of a memory's text (\<open>concise.go\<close>) and the
  token estimate that the budgets share (\<open>estimate.go\<close>). A rune is a character, which for
  ASCII text is a byte; the ellipsis is the three bytes of its UTF-8 encoding.
\<close>

section \<open>Token estimates\<close>

abbreviation ItemOverheadTokens :: nat where "ItemOverheadTokens \<equiv> 10"

definition ApproxTokens :: "string \<Rightarrow> nat" where
  "ApproxTokens text =
     (if text = '''' then 0
      else let t = (length (Fields text) * 4 + 2) div 3 in if t > 1 then t else 1)"

section \<open>Concise texts\<close>

abbreviation SearchMax :: nat where "SearchMax \<equiv> 240"
abbreviation BriefingMax :: nat where "BriefingMax \<equiv> 280"
abbreviation TitleMax :: nat where "TitleMax \<equiv> 60"
abbreviation sentenceWindow :: nat where "sentenceWindow \<equiv> 4"

definition ellipsis :: string where
  "ellipsis = [CHR 0xE2, CHR 0x80, CHR 0xA6]"

definition isSentenceEnd :: "char \<Rightarrow> bool" where
  "isSentenceEnd r \<longleftrightarrow> r = CHR ''.'' \<or> r = CHR ''!'' \<or> r = CHR ''?''"

definition trimRightSpace :: "string \<Rightarrow> string" where
  "trimRightSpace runes = rev (dropWhile is_space (rev runes))"

text \<open>The loop goes down from the last index of the window and stops at the threshold.\<close>

definition lastSentenceEnd :: "string \<Rightarrow> nat \<Rightarrow> nat option" where
  "lastSentenceEnd runes mx =
     (let threshold = mx - mx div sentenceWindow in
      find (\<lambda>i. isSentenceEnd (runes ! i) \<and> (length runes \<le> i + 1 \<or> is_space (runes ! (i + 1))))
        (rev [threshold - 1..<mx]))"

definition cut :: "string \<Rightarrow> nat \<Rightarrow> string" where
  "cut runes mx =
     (let window = take mx runes in
      case lastSentenceEnd runes mx of
        Some i \<Rightarrow> take (i + 1) window
      | None \<Rightarrow>
          if is_space (runes ! mx) \<and> trimRightSpace window \<noteq> [] then trimRightSpace window
          else case find (\<lambda>j. is_space (window ! j)) (rev [0..<mx]) of
                 Some j \<Rightarrow> if trimRightSpace (take j window) \<noteq> [] then trimRightSpace (take j window) else window
               | None \<Rightarrow> window)"

definition Concise :: "string \<Rightarrow> string \<Rightarrow> nat \<Rightarrow> string \<times> bool" where
  "Concise content summary mx =
     (if summary \<noteq> '''' then (summary, False)
      else if length content \<le> mx then (content, False)
      else (cut content mx @ ellipsis, True))"

definition Title :: "string \<Rightarrow> string \<Rightarrow> string" where
  "Title content summary = fst (Concise content summary TitleMax)"

definition ContentHash :: "string \<Rightarrow> string \<Rightarrow> string" where
  "ContentHash content summary = take 16 (sha256_hex (if content = '''' then summary else content))"

section \<open>Where a text is cut\<close>

lemma trimRightSpace_take:
  "\<exists>n \<le> length w. trimRightSpace w = take n w \<and> (\<forall>i. n \<le> i \<and> i < length w \<longrightarrow> is_space (w ! i))
     \<and> (n = 0 \<or> \<not> is_space (w ! (n - 1)))"
proof (induction w rule: rev_induct)
  case Nil
  show ?case by (simp add: trimRightSpace_def)
next
  case (snoc x w)
  show ?case
  proof (cases "is_space x")
    case True
    then have eq: "trimRightSpace (w @ [x]) = trimRightSpace w" by (simp add: trimRightSpace_def)
    from snoc obtain n where n: "n \<le> length w" "trimRightSpace w = take n w"
        "\<forall>i. n \<le> i \<and> i < length w \<longrightarrow> is_space (w ! i)" "n = 0 \<or> \<not> is_space (w ! (n - 1))" by blast
    have "is_space ((w @ [x]) ! i)" if "n \<le> i" "i < length (w @ [x])" for i
      using that n(3) True by (cases "i < length w") (auto simp: nth_append)
    moreover have "n = 0 \<or> \<not> is_space ((w @ [x]) ! (n - 1))" using n(1,4) by (auto simp: nth_append)
    ultimately show ?thesis using n(1,2) eq by (intro exI [of _ n]) simp
  next
    case False
    then have "trimRightSpace (w @ [x]) = w @ [x]" by (simp add: trimRightSpace_def)
    then show ?thesis using False by (intro exI [of _ "Suc (length w)"]) auto
  qed
qed

text \<open>
  The cut is a prefix of at most \<open>mx\<close> runes, and it ends before white space unless the window
  is white space followed by one token that reaches its end.
\<close>

lemma cut_boundary:
  assumes "mx < length runes"
  shows "\<exists>n \<le> mx. cut runes mx = take n runes \<and> (0 < mx \<longrightarrow> 0 < n)
    \<and> (is_space (runes ! n) \<or> n = mx \<and> (\<forall>j < mx. is_space (runes ! j) \<longrightarrow> (\<forall>i < j. is_space (runes ! i))))"
proof -
  let ?window = "take mx runes"
  have len: "length ?window = mx" using assms by simp
  have trimmed: "\<exists>n \<le> m. trimRightSpace (take m runes) = take n runes \<and> 0 < n \<and> is_space (runes ! n)"
    if m: "m \<le> mx" "is_space (runes ! m)" and ne: "trimRightSpace (take m runes) \<noteq> []" for m
  proof -
    obtain n where n: "n \<le> length (take m runes)" "trimRightSpace (take m runes) = take n (take m runes)"
        "\<forall>i. n \<le> i \<and> i < length (take m runes) \<longrightarrow> is_space (take m runes ! i)"
      using trimRightSpace_take [of "take m runes"] by blast
    have "n \<le> m" using n(1) m(1) assms by simp
    moreover have "0 < n" using ne n(2) by (cases n) auto
    moreover have "is_space (runes ! n)"
      using n(3) m assms \<open>n \<le> m\<close> by (cases "n = m") auto
    ultimately show ?thesis using n(2) by (auto simp: min_def)
  qed
  show ?thesis
  proof (cases "lastSentenceEnd runes mx")
    case (Some i)
    then have i: "i < mx" "length runes \<le> i + 1 \<or> is_space (runes ! (i + 1))"
      by (auto simp: lastSentenceEnd_def Let_def dest!: find_Some_set)
    then have "is_space (runes ! (i + 1))" using assms by simp
    moreover have "cut runes mx = take (i + 1) runes" using Some i(1) by (simp add: cut_def min_def)
    ultimately show ?thesis using i(1) by (intro exI [of _ "i + 1"]) simp
  next
    case none: None
    show ?thesis
    proof (cases "is_space (runes ! mx) \<and> trimRightSpace ?window \<noteq> []")
      case True
      then have "cut runes mx = trimRightSpace ?window" using none by (simp add: cut_def)
      moreover obtain n where "n \<le> mx" "trimRightSpace ?window = take n runes" "0 < n" "is_space (runes ! n)"
        using trimmed [of mx] True by blast
      ultimately show ?thesis by (intro exI [of _ n]) simp
    next
      case False
      note no = this
      show ?thesis
      proof (cases "find (\<lambda>j. is_space (?window ! j)) (rev [0..<mx])")
        case None
        then have "\<forall>j < mx. \<not> is_space (runes ! j)" by (auto simp: find_None_iff)
        moreover have "cut runes mx = ?window" using none no None by (auto simp: cut_def Let_def)
        ultimately show ?thesis by (intro exI [of _ mx]) simp
      next
        case (Some j)
        then have j: "j < mx" "is_space (runes ! j)" by (auto dest!: find_Some_set)
        have later: "\<not> is_space (runes ! i)" if "j < i" "i < mx" for i
        proof -
          obtain k where k: "k < mx" "rev [0..<mx] ! k = j" "\<forall>k' < k. \<not> is_space (?window ! (rev [0..<mx] ! k'))"
            using Some by (auto simp: find_Some_iff)
          then have "j = mx - Suc k" by (simp add: rev_nth)
          then have "mx - Suc i < k" "rev [0..<mx] ! (mx - Suc i) = i" using that k(1) by (simp_all add: rev_nth)
          then show ?thesis using k(3) that by fastforce
        qed
        have c: "cut runes mx = (if trimRightSpace (take j runes) \<noteq> [] then trimRightSpace (take j runes) else ?window)"
          using none no Some j(1) by (auto simp: cut_def Let_def min_def)
        show ?thesis
        proof (cases "trimRightSpace (take j runes) = []")
          case False
          then obtain n where n: "n \<le> j" "trimRightSpace (take j runes) = take n runes" "0 < n" "is_space (runes ! n)"
            using trimmed [OF less_imp_le [OF j(1)] j(2)] by blast
          then have "cut runes mx = take n runes" using c False by simp
          then show ?thesis using n j(1) by (intro exI [of _ n]) simp
        next
          case True
          obtain n where n: "n \<le> length (take j runes)" "trimRightSpace (take j runes) = take n (take j runes)"
              "\<forall>i. n \<le> i \<and> i < length (take j runes) \<longrightarrow> is_space (take j runes ! i)"
            using trimRightSpace_take [of "take j runes"] by blast
          have "n = 0 \<or> j = 0" using True n(1,2) j(1) assms by (cases n) auto
          then have spaces: "is_space (runes ! i)" if "i < j" for i
            using n(3) [rule_format, of i] that j(1) assms by auto
          have "\<forall>j' < mx. is_space (runes ! j') \<longrightarrow> (\<forall>i < j'. is_space (runes ! i))"
          proof (intro allI impI)
            fix j' i assume a: "j' < mx" "is_space (runes ! j')" "i < j'"
            then have "j' \<le> j" using later by (meson not_le)
            then show "is_space (runes ! i)" using a(3) spaces by simp
          qed
          moreover have "cut runes mx = take mx runes" using c True by simp
          ultimately show ?thesis by (intro exI [of _ mx]) simp
        qed
      qed
    qed
  qed
qed

lemma ApproxTokens_pos: "text \<noteq> '''' \<Longrightarrow> 0 < ApproxTokens text"
  by (simp add: ApproxTokens_def Let_def)

end
