(* ===== verification/Recall_Stages.thy ===== *)
theory Recall_Stages
  imports Search Read_Set Render "HOL-Library.List_Lexorder" "HOL-Library.Char_ord"
begin

text \<open>
  The stages of a recall as \<open>internal/service/service.go\<close> has them between the searches and
  the answer: merging document and chunk hits (\<open>chunk_recall.go\<close>), the relevance gates, the
  slots reserved for durable tiers and for important candidates, the echo guard, the
  expansion along links and the token budget (\<open>budget.go\<close>). The lemmas say which hits a
  stage keeps, which it may move, and what it never touches.
\<close>

section \<open>Merging document and chunk hits\<close>

text \<open>The map \<open>byID\<close>: per id the hit with the higher score, the first one on a tie.\<close>

fun keep_best :: "Scored \<Rightarrow> Scored list \<Rightarrow> Scored list" where
  "keep_best s [] = [s]"
| "keep_best s (x # xs) =
     (if hit_id x = hit_id s then (if Score s > Score x then s else x) # xs else x # keep_best s xs)"

definition leg_order :: "Scored \<Rightarrow> Scored \<Rightarrow> bool" where
  "leg_order a b \<longleftrightarrow>
     (if Score a \<noteq> Score b then Score a > Score b else hit_id a < hit_id b)"

definition mergeVectorLegs :: "Scored list \<Rightarrow> Scored list \<Rightarrow> real \<Rightarrow> int \<Rightarrow> Scored list" where
  "mergeVectorLegs docs chunks weight k =
     (let out = SliceStable leg_order
            (fold keep_best (docs @ map (\<lambda>c. WithScore c (Score c * weight)) chunks) [])
      in if 0 < k \<and> k < int (length out) then take (nat k) out else out)"

definition mergeIfChunked :: "Scored list \<Rightarrow> Scored list \<Rightarrow> real \<Rightarrow> int \<Rightarrow> Scored list" where
  "mergeIfChunked docs chunks weight k = (if chunks = [] then docs else mergeVectorLegs docs chunks weight k)"

section \<open>Relevance gates\<close>

text \<open>\<open>gateSemantic\<close> for one namespace; a later hit of the same id decides what is known of it.\<close>

definition known_scores :: "Scored list \<Rightarrow> string \<rightharpoonup> real" where
  "known_scores v = map_of (rev (map (\<lambda>r. (hit_id r, Score r)) v))"

definition gate_namespace :: "real \<Rightarrow> Scored list \<times> Scored list \<Rightarrow> Scored list \<times> Scored list" where
  "gate_namespace gate legs =
     (filter (\<lambda>r. gate \<le> Score r) (fst legs),
      filter (\<lambda>r. case known_scores (fst legs) (hit_id r) of None \<Rightarrow> True | Some sc \<Rightarrow> gate \<le> sc) (snd legs))"

definition gateSemantic :: "(Scored list \<times> Scored list) list \<Rightarrow> real \<Rightarrow> (Scored list \<times> Scored list) list" where
  "gateSemantic legs gate = (if gate \<le> 0 then legs else map (gate_namespace gate) legs)"

definition applyRecallScoreFloor :: "Scored list \<Rightarrow> real \<Rightarrow> real \<Rightarrow> real \<Rightarrow> Scored list" where
  "applyRecallScoreFloor fused alpha defaultFloor overrideFloor =
     (if \<not> 0 \<le> alpha then fused
      else let gate = (if overrideFloor > 0 then overrideFloor else defaultFloor)
        in if \<not> 0 < gate then fused else filter (\<lambda>r. gate \<le> Score r) fused)"

definition applyMinRankScore :: "Scored list \<Rightarrow> real \<Rightarrow> Scored list \<times> Scored list" where
  "applyMinRankScore results gate =
     (if gate \<le> 0 then (results, [])
      else (filter (\<lambda>r. gate \<le> Score r) results, filter (\<lambda>r. \<not> gate \<le> Score r) results))"

definition validMinRankScore :: "real \<Rightarrow> bool" where
  "validMinRankScore v \<longleftrightarrow> 0 \<le> v \<and> v < 1"

definition clampRecallLimit :: "int \<Rightarrow> int" where
  "clampRecallLimit limit = (if limit \<le> 0 then 10 else if 100 < limit then 100 else limit)"

section \<open>Slots for durable tiers\<close>

definition percentile :: "real list \<Rightarrow> real \<Rightarrow> real" where
  "percentile scores p =
     (let sorted = sort scores in
      if 100 \<le> p \<or> length sorted = 1 then last sorted
      else let pos = p / 100 * real (length sorted - 1); lo = nat \<lfloor>pos\<rfloor>; frac = pos - real lo
        in sorted ! lo + frac * (sorted ! (lo + 1) - sorted ! lo))"

definition durable :: "Scored \<Rightarrow> bool" where
  "durable r \<longleftrightarrow> mTier (sMemory r) = TierSemantic \<or> mTier (sMemory r) = TierProcedural"

text \<open>
  The promotion loop: \<open>is\<close> are the indices behind the window still to be looked at, \<open>selected\<close>
  the indices chosen so far, \<open>n\<close> how many of them are durable.
\<close>

fun promote_durables ::
    "Scored list \<Rightarrow> nat \<Rightarrow> nat \<Rightarrow> (nat \<Rightarrow> real) \<Rightarrow> nat list \<Rightarrow> nat set \<Rightarrow> nat \<Rightarrow> nat set" where
  "promote_durables ranked limit reserve bar [] selected n = selected"
| "promote_durables ranked limit reserve bar (i # is) selected n =
     (if reserve \<le> n then selected
      else if \<not> durable (ranked ! i) then promote_durables ranked limit reserve bar is selected n
      else case find (\<lambda>j. j \<in> selected \<and> \<not> durable (ranked ! j)) (rev [0..<limit]) of
             None \<Rightarrow> selected
           | Some evict \<Rightarrow>
               if Score (ranked ! i) < bar evict then selected
               else promote_durables ranked limit reserve bar is (insert i (selected - {evict})) (n + 1))"

text \<open>The bar that a durable hit must reach to take the place of the hit at \<open>evict\<close>.\<close>

definition promotion_bar :: "Scored list \<Rightarrow> nat \<Rightarrow> real \<Rightarrow> real \<Rightarrow> real \<Rightarrow> nat \<Rightarrow> real" where
  "promotion_bar ranked limit ratio topAnchor gatePct evict =
     (if 0 < gatePct then percentile (map Score (take limit ranked)) gatePct
      else max (ratio * Score (ranked ! evict)) (topAnchor * Score (ranked ! 0)))"

definition recompose :: "Scored list \<Rightarrow> nat \<Rightarrow> nat set \<Rightarrow> Scored list" where
  "recompose ranked limit selected =
     (let window = map ((!) ranked) (filter (\<lambda>i. i \<in> selected) [0..<limit]);
          promoted = map ((!) ranked) (filter (\<lambda>i. i \<in> selected) [limit..<length ranked]);
          rest = map ((!) ranked) (filter (\<lambda>i. i \<notin> selected) [0..<length ranked])
      in take 1 window @ promoted @ drop 1 window @ rest)"

definition reserveDurableTiers ::
    "Scored list \<Rightarrow> int \<Rightarrow> int \<Rightarrow> real \<Rightarrow> real \<Rightarrow> real \<Rightarrow> Scored list" where
  "reserveDurableTiers ranked limit reserve ratio topAnchor gatePct =
     (if reserve \<le> 0 \<or> limit \<le> 0 \<or> int (length ranked) \<le> limit then ranked
      else
        let l = nat limit; r = nat (min reserve limit);
            durableCount = length (filter durable (take l ranked))
        in if r \<le> durableCount then ranked
           else recompose ranked l
                  (promote_durables ranked l r (promotion_bar ranked l ratio topAnchor gatePct)
                     [l..<length ranked] {0..<l} durableCount))"

section \<open>Slots for important candidates\<close>

definition important :: "real \<Rightarrow> Scored \<Rightarrow> bool" where
  "important minImp r \<longleftrightarrow> minImp \<le> EffectiveImportance (sMemory r)"

fun promote_important ::
    "real \<Rightarrow> nat \<Rightarrow> nat \<Rightarrow> nat \<Rightarrow> real \<Rightarrow> real \<Rightarrow> nat list \<Rightarrow> nat \<Rightarrow> Scored list \<Rightarrow> Scored list" where
  "promote_important minImp k poolSize reserve ratio topAnchor [] n out = out"
| "promote_important minImp k poolSize reserve ratio topAnchor (i # is) n out =
     (if reserve \<le> n then out
      else if \<not> important minImp (out ! i) then promote_important minImp k poolSize reserve ratio topAnchor is n out
      else case find (\<lambda>j. \<not> important minImp (out ! j)) (rev [k..<poolSize]) of
             None \<Rightarrow> out
           | Some evict \<Rightarrow>
               if Score (out ! i) < max (ratio * Score (out ! evict)) (topAnchor * Score (out ! 0)) then out
               else promote_important minImp k poolSize reserve ratio topAnchor is (n + 1)
                      (out[i := out ! evict, evict := out ! i]))"

definition reserveImportantPool ::
    "Scored list \<Rightarrow> int \<Rightarrow> int \<Rightarrow> int \<Rightarrow> real \<Rightarrow> real \<Rightarrow> real \<Rightarrow> Scored list" where
  "reserveImportantPool deduped k poolSize reserve minImp ratio topAnchor =
     (if reserve \<le> 0 \<or> k < 0 \<or> poolSize \<le> k \<or> int (length deduped) \<le> poolSize then deduped
      else let n = length (filter (important minImp) (take (nat poolSize) deduped)) in
        if nat reserve \<le> n then deduped
        else promote_important minImp (nat k) (nat poolSize) (nat reserve) ratio topAnchor
               [nat poolSize..<length deduped] n deduped)"

section \<open>The echo guard\<close>

definition isTurnCapture :: "metadata \<Rightarrow> bool" where
  "isTurnCapture meta \<longleftrightarrow> meta ''format'' = Some (JStr ''turn'')"

definition fresh_turn :: "Time \<Rightarrow> memory \<Rightarrow> bool" where
  "fresh_turn cutoff m \<longleftrightarrow>
     Tier_Term (mTier m) = ShortTerm \<and> After (CreatedAt m) cutoff \<and> isTurnCapture (Metadata m)"

definition applyTurnEchoGuard :: "Duration \<Rightarrow> Time \<Rightarrow> Scored list \<Rightarrow> Scored list" where
  "applyTurnEchoGuard window now ranked =
     (if window \<le> 0 then ranked else filter (\<lambda>r. \<not> fresh_turn (now - window) (sMemory r)) ranked)"

definition filterFreshTurns :: "Duration \<Rightarrow> Time \<Rightarrow> memory list \<Rightarrow> memory list" where
  "filterFreshTurns window now mems =
     (if window \<le> 0 then mems else filter (\<lambda>m. \<not> fresh_turn (now - window) m) mems)"

section \<open>Linked memories\<close>

text \<open>The links of the results that are not results themselves, once each, with the owner's namespace.\<close>

fun unseen_links :: "string set \<Rightarrow> (string \<times> string) list \<Rightarrow> (string \<times> string) list" where
  "unseen_links seen [] = []"
| "unseen_links seen ((lid, ns) # ls) =
     (if lid \<in> seen then unseen_links seen ls else (lid, ns) # unseen_links (insert lid seen) ls)"

definition links_to_fetch :: "Scored list \<Rightarrow> (string \<times> string) list" where
  "links_to_fetch results =
     unseen_links (set (map hit_id results))
       (concat (map (\<lambda>r. map (\<lambda>lid. (lid, Namespace (sMemory r))) (LinkedMemoryIDs (sMemory r))) results))"

text \<open>
  \<open>expandLinked\<close>. \<open>get\<close> is the store's \<open>Get\<close>. \<open>sort_desc\<close> is \<open>slices.SortFunc\<close> with the
  comparison of the scores, which leaves the order of equal scores open.
\<close>

definition expandLinked ::
    "(string \<Rightarrow> string \<Rightarrow> store_error + memory) \<Rightarrow> (Scored list \<Rightarrow> Scored list)
      \<Rightarrow> Scored list \<Rightarrow> int \<Rightarrow> Scored list" where
  "expandLinked get sort_desc results k =
     (let minScore = Score (last results);
          linked = List.map_filter
            (\<lambda>(lid, ns). case get ns lid of
                Inl _ \<Rightarrow> None
              | Inr m \<Rightarrow> if SupersededBy m \<noteq> None then None
                         else Some \<lparr> sMemory = m, Score = minScore * 0.5, MatchedChunk = '''' \<rparr>)
            (links_to_fetch results)
      in if linked = [] then results
         else let merged = sort_desc (results @ linked)
           in if 0 < k \<and> k < int (length merged) then take (nat k) merged else merged)"

definition maybeExpandLinked ::
    "bool \<Rightarrow> (string \<Rightarrow> string \<Rightarrow> store_error + memory) \<Rightarrow> (Scored list \<Rightarrow> Scored list)
      \<Rightarrow> Scored list \<Rightarrow> int \<Rightarrow> Scored list" where
  "maybeExpandLinked include get sort_desc results k =
     (if \<not> include \<or> results = [] then results else expandLinked get sort_desc results k)"

section \<open>The token budget\<close>

definition budgetItemCost :: "memory \<Rightarrow> bool \<Rightarrow> nat \<Rightarrow> nat" where
  "budgetItemCost m concise conciseMax =
     ApproxTokens (if concise then fst (Concise (Content m) (Summary m) conciseMax) else Content m)
       + ItemOverheadTokens"

fun fits_within :: "(Scored \<Rightarrow> nat) \<Rightarrow> int \<Rightarrow> nat \<Rightarrow> Scored list \<Rightarrow> nat" where
  "fits_within cost budget used [] = 0"
| "fits_within cost budget used (r # rs) =
     (if int (used + cost r) > budget then 0 else Suc (fits_within cost budget (used + cost r) rs))"

text \<open>The loop's condition spares the first item.\<close>

definition applyRecallBudget :: "int \<Rightarrow> bool \<Rightarrow> Scored list \<Rightarrow> Scored list \<times> nat" where
  "applyRecallBudget maxTokens concise results =
     (let cost = (\<lambda>r. budgetItemCost (sMemory r) concise SearchMax) in
      if 0 < maxTokens
      then case results of
             [] \<Rightarrow> ([], 0)
           | r # rs \<Rightarrow> let kept = Suc (fits_within cost maxTokens (cost r) rs)
                       in (take kept results, length results - kept)
      else (results, 0))"

section \<open>Merged legs\<close>

interpretation leg_order: strict_weak_order leg_order
  by unfold_locales (auto simp: leg_order_def split: if_splits)

lemma keep_best_ids: "hit_id ` set (keep_best s xs) = insert (hit_id s) (hit_id ` set xs)"
  by (induction s xs rule: keep_best.induct) auto

lemma keep_best_distinct: "distinct (map hit_id xs) \<Longrightarrow> distinct (map hit_id (keep_best s xs))"
  by (induction s xs rule: keep_best.induct) (auto simp: keep_best_ids)

lemma keep_best_set: "set (keep_best s xs) \<subseteq> insert s (set xs)"
  by (induction s xs rule: keep_best.induct) auto

lemma hit_unique: "distinct (map hit_id xs) \<Longrightarrow> a \<in> set xs \<Longrightarrow> b \<in> set xs \<Longrightarrow> hit_id a = hit_id b \<Longrightarrow> a = b"
  by (metis distinct_map inj_onD)

lemma keep_best_max:
  "distinct (map hit_id xs) \<Longrightarrow> x \<in> set (keep_best s xs) \<Longrightarrow>
   (hit_id x = hit_id s \<longrightarrow> Score s \<le> Score x) \<and> (\<forall>y \<in> set xs. hit_id y = hit_id x \<longrightarrow> Score y \<le> Score x)"
proof (induction s xs rule: keep_best.induct)
  case (2 s y xs)
  show ?case
  proof (cases "hit_id y = hit_id s")
    case True
    then have x: "x = s \<and> Score y < Score s \<or> x = y \<and> Score s \<le> Score y \<or> x \<in> set xs"
      using "2.prems"(2) by (auto split: if_splits)
    have rest: "hit_id z \<noteq> hit_id s" if "z \<in> set xs" for z
    proof -
      have "hit_id z \<in> hit_id ` set xs" using that by (rule imageI)
      moreover have "hit_id y \<notin> hit_id ` set xs" using "2.prems"(1) by simp
      ultimately show ?thesis using True by metis
    qed
    have "z = x" if "z \<in> set xs" "hit_id z = hit_id x" "x \<in> set xs" for z
      using hit_unique [of xs z x] "2.prems"(1) that by simp
    note same = this
    show ?thesis
    proof (cases "x \<in> set xs")
      case in_xs: True
      have "hit_id x \<noteq> hit_id s" "hit_id y \<noteq> hit_id x" using rest [OF in_xs] True by simp_all
      then show ?thesis using same [OF _ _ in_xs] by auto
    next
      case False
      then show ?thesis using x rest True by auto
    qed
  next
    case False
    then have x: "x = y \<or> x \<in> set (keep_best s xs)" using "2.prems"(2) by simp
    then show ?thesis
    proof
      assume xy: "x = y"
      have "z = x" if "z \<in> set (y # xs)" "hit_id z = hit_id x" for z
        using hit_unique [OF "2.prems"(1) that(1), of y] that(2) xy by simp
      then show ?thesis using False xy by auto
    next
      assume *: "x \<in> set (keep_best s xs)"
      then have "hit_id x = hit_id s \<or> hit_id x \<in> hit_id ` set xs"
        using keep_best_ids [of s xs] by (metis image_eqI insertE)
      then have "hit_id y \<noteq> hit_id x" using False "2.prems"(1) by auto
      then show ?thesis using "2.IH" [OF False _ *] "2.prems"(1) by simp
    qed
  qed
qed simp

lemma fold_keep_best:
  assumes "distinct (map hit_id acc)"
  shows "distinct (map hit_id (fold keep_best xs acc))"
    and "set (fold keep_best xs acc) \<subseteq> set acc \<union> set xs"
    and "hit_id ` set (fold keep_best xs acc) = hit_id ` (set acc \<union> set xs)"
    and "x \<in> set (fold keep_best xs acc) \<Longrightarrow> y \<in> set acc \<union> set xs \<Longrightarrow> hit_id y = hit_id x \<Longrightarrow> Score y \<le> Score x"
proof -
  have "distinct (map hit_id (fold keep_best xs acc)) \<and> set (fold keep_best xs acc) \<subseteq> set acc \<union> set xs
      \<and> hit_id ` set (fold keep_best xs acc) = hit_id ` (set acc \<union> set xs)
      \<and> (\<forall>x \<in> set (fold keep_best xs acc). \<forall>y \<in> set acc \<union> set xs. hit_id y = hit_id x \<longrightarrow> Score y \<le> Score x)"
    using assms
  proof (induction xs arbitrary: acc)
    case Nil
    then have "y = x" if "x \<in> set acc" "y \<in> set acc" "hit_id y = hit_id x" for x y
      using that hit_unique by metis
    then show ?case using Nil by auto
  next
    case (Cons s xs)
    let ?acc = "keep_best s acc"
    have d: "distinct (map hit_id ?acc)" by (rule keep_best_distinct [OF Cons.prems])
    note IH = Cons.IH [OF d]
    have max: "Score y \<le> Score x"
      if "x \<in> set (fold keep_best xs ?acc)" "y = s \<or> y \<in> set acc" "hit_id y = hit_id x" for x y
    proof -
      have "hit_id y \<in> hit_id ` set ?acc" using that(2) by (auto simp: keep_best_ids)
      then obtain z where z: "z \<in> set ?acc" "hit_id z = hit_id y" by auto
      have "Score y \<le> Score z" using keep_best_max [OF Cons.prems z(1)] that(2) z(2) by auto
      also have "Score z \<le> Score x" using IH that(1,3) z by auto
      finally show ?thesis .
    qed
    have "set (fold keep_best xs ?acc) \<subseteq> set acc \<union> set (s # xs)" using IH keep_best_set [of s acc] by auto
    moreover have "hit_id ` set (fold keep_best xs ?acc) = hit_id ` (set acc \<union> set (s # xs))"
      using IH keep_best_ids [of s acc] by (simp add: image_Un)
    moreover have "Score y \<le> Score x"
      if "x \<in> set (fold keep_best xs ?acc)" "y \<in> set acc \<union> set (s # xs)" "hit_id y = hit_id x" for x y
      using that IH max [OF that(1) _ that(3)] by (elim conjE) (simp, metis UnI2)
    ultimately show ?case using IH by simp
  qed
  note all = this
  show "distinct (map hit_id (fold keep_best xs acc))" using all by (elim conjE)
  show "set (fold keep_best xs acc) \<subseteq> set acc \<union> set xs" using all by (elim conjE)
  show "hit_id ` set (fold keep_best xs acc) = hit_id ` (set acc \<union> set xs)" using all by (elim conjE)
  show "x \<in> set (fold keep_best xs acc) \<Longrightarrow> y \<in> set acc \<union> set xs \<Longrightarrow> hit_id y = hit_id x \<Longrightarrow> Score y \<le> Score x"
    using all by (elim conjE) simp
qed

lemma mergeVectorLegs_distinct: "distinct (map hit_id (mergeVectorLegs docs chunks w k))"
proof -
  let ?all = "fold keep_best (docs @ map (\<lambda>c. WithScore c (Score c * w)) chunks) []"
  have "distinct (map hit_id ?all)" by (rule fold_keep_best(1)) simp
  then have "distinct (map hit_id (SliceStable leg_order ?all))"
    unfolding distinct_map by simp
  moreover from this have "distinct (map hit_id (take n (SliceStable leg_order ?all)))" for n
    unfolding take_map [symmetric] by (rule distinct_take)
  ultimately show ?thesis by (simp add: mergeVectorLegs_def Let_def)
qed

lemma mergeVectorLegs_set:
  "set (mergeVectorLegs docs chunks w k) \<subseteq> set docs \<union> (\<lambda>c. WithScore c (Score c * w)) ` set chunks"
proof -
  let ?hits = "docs @ map (\<lambda>c. WithScore c (Score c * w)) chunks"
  have "set (mergeVectorLegs docs chunks w k) \<subseteq> set (SliceStable leg_order (fold keep_best ?hits []))"
    by (simp only: mergeVectorLegs_def Let_def set_take_subset order_refl simp_thms split: if_split)
  also have "\<dots> \<subseteq> set ?hits" using fold_keep_best(2) [of "[]" ?hits] by simp
  finally show ?thesis by simp
qed

lemma mergeIfChunked_memories:
  "sMemory ` set (mergeIfChunked docs chunks w k) \<subseteq> sMemory ` (set docs \<union> set chunks)"
proof -
  have "sMemory ` set (mergeVectorLegs docs chunks w k) \<subseteq> sMemory ` (set docs \<union> (\<lambda>c. WithScore c (Score c * w)) ` set chunks)"
    by (rule image_mono [OF mergeVectorLegs_set])
  then show ?thesis by (auto simp: mergeIfChunked_def image_Un image_image)
qed

section \<open>Durable slots\<close>

text \<open>
  What the promotion keeps of the selected indices: as many as the window has, every durable
  hit of the window among them, and what came from behind the window is durable and reached
  the bar of a hit that left. Hits leave from the back.
\<close>

definition selection_ok :: "Scored list \<Rightarrow> nat \<Rightarrow> (nat \<Rightarrow> real) \<Rightarrow> nat set \<Rightarrow> nat \<Rightarrow> bool" where
  "selection_ok ranked limit bar selected n \<longleftrightarrow>
     selected \<subseteq> {0..<length ranked} \<and> card selected = limit
     \<and> card {j \<in> selected. durable (ranked ! j)} = n
     \<and> (\<forall>j < limit. durable (ranked ! j) \<longrightarrow> j \<in> selected)
     \<and> (\<forall>j < limit. j \<notin> selected \<longrightarrow> (\<forall>i \<in> selected. i < limit \<and> \<not> durable (ranked ! i) \<longrightarrow> i < j))
     \<and> (\<forall>j \<in> selected. limit \<le> j \<longrightarrow> durable (ranked ! j)
          \<and> (\<exists>e < limit. e \<notin> selected \<and> \<not> durable (ranked ! e) \<and> bar e \<le> Score (ranked ! j)))"

lemma find_last_below:
  assumes "find p (rev [0..<n]) = Some e"
  shows "e < n \<and> p e \<and> (\<forall>j < n. e < j \<longrightarrow> \<not> p j)"
proof -
  obtain k where k: "k < n" "rev [0..<n] ! k = e" "p e" "\<forall>k' < k. \<not> p (rev [0..<n] ! k')"
    using assms by (auto simp: find_Some_iff)
  then have e: "e = n - Suc k" by (simp add: rev_nth)
  have "\<not> p j" if "j < n" "e < j" for j
  proof -
    have "n - Suc j < k" "rev [0..<n] ! (n - Suc j) = j" using that k(1) e by (simp_all add: rev_nth)
    then show ?thesis using k(4) by metis
  qed
  then show ?thesis using k(1,3) e by simp
qed

lemma selection_swap:
  assumes ok: "selection_ok ranked limit bar selected n" and "limit \<le> i" "i < length ranked" "i \<notin> selected"
    and "durable (ranked ! i)"
    and e: "e < limit" "e \<in> selected" "\<not> durable (ranked ! e)"
    and last: "\<And>j. j < limit \<Longrightarrow> e < j \<Longrightarrow> \<not> (j \<in> selected \<and> \<not> durable (ranked ! j))"
    and "bar e \<le> Score (ranked ! i)"
  shows "selection_ok ranked limit bar (insert i (selected - {e})) (n + 1)"
proof -
  let ?s = "insert i (selected - {e})"
  have fin: "finite selected" using ok finite_subset unfolding selection_ok_def by blast
  have ie: "i \<noteq> e" using assms(2) e(1) by simp
  have card: "card ?s = limit"
    using fin e(2) assms(4) ok unfolding selection_ok_def
    by (simp add: card_Diff_singleton) (metis card_gt_0_iff empty_iff Suc_pred)
  have "{j \<in> ?s. durable (ranked ! j)} = insert i {j \<in> selected. durable (ranked ! j)}"
    using assms(5) e(3) by auto
  then have count: "card {j \<in> ?s. durable (ranked ! j)} = n + 1"
    using fin assms(4) ok unfolding selection_ok_def by simp
  have kept: "j \<in> ?s" if "j < limit" "durable (ranked ! j)" for j
    using that ok e(3) unfolding selection_ok_def by auto
  have leave: "i' < j" if "j < limit" "j \<notin> ?s" "i' \<in> ?s" "i' < limit \<and> \<not> durable (ranked ! i')" for i' j
  proof (cases "j = e")
    case True
    then have "i' \<noteq> e" "i' \<in> selected" using that assms(2) by auto
    then have "\<not> e < i'" using last [of i'] that by blast
    then show ?thesis using True \<open>i' \<noteq> e\<close> by simp
  next
    case False
    then have "j \<notin> selected" "i' \<in> selected" using that assms(2) by auto
    then show ?thesis using that ok unfolding selection_ok_def by blast
  qed
  have front: "durable (ranked ! j) \<and> (\<exists>e' < limit. e' \<notin> ?s \<and> \<not> durable (ranked ! e') \<and> bar e' \<le> Score (ranked ! j))"
    if j: "j \<in> ?s" "limit \<le> j" for j
  proof (cases "j = i")
    case True
    then show ?thesis using assms(2,5,10) e ie by auto
  next
    case False
    then have "j \<in> selected" using j(1) by simp
    then obtain e' where "durable (ranked ! j)" "e' < limit" "e' \<notin> selected" "\<not> durable (ranked ! e')" "bar e' \<le> Score (ranked ! j)"
      using j(2) ok unfolding selection_ok_def by blast
    then show ?thesis using assms(2) by (intro conjI exI [of _ e']) auto
  qed
  have sub: "?s \<subseteq> {0..<length ranked}" using ok assms(3) unfolding selection_ok_def by auto
  show ?thesis
    unfolding selection_ok_def using sub card count kept leave front
    by (intro conjI allI ballI impI) (simp_all only: simp_thms)
qed

lemma promote_durables_ok:
  assumes "selection_ok ranked limit bar selected n" and "n \<le> reserve"
    and "distinct is" and "\<forall>i \<in> set is. limit \<le> i \<and> i < length ranked \<and> i \<notin> selected"
  shows "\<exists>n' \<le> reserve. n \<le> n' \<and> selection_ok ranked limit bar (promote_durables ranked limit reserve bar is selected n) n'"
  using assms
proof (induction ranked limit reserve bar "is" selected n rule: promote_durables.induct)
  case (2 ranked limit reserve bar i "is" selected n)
  show ?case
  proof (cases "reserve \<le> n \<or> \<not> durable (ranked ! i)")
    case True
    then show ?thesis using 2 by auto
  next
    case False
    show ?thesis
    proof (cases "find (\<lambda>j. j \<in> selected \<and> \<not> durable (ranked ! j)) (rev [0..<limit])")
      case None
      then show ?thesis using "2.prems" False by (auto intro!: exI [of _ n])
    next
      case (Some e)
      note e = find_last_below [OF Some]
      show ?thesis
      proof (cases "Score (ranked ! i) < bar e")
        case True
        then show ?thesis using "2.prems" False Some by (auto intro!: exI [of _ n])
      next
        case bar: False
        have "selection_ok ranked limit bar (insert i (selected - {e})) (n + 1)"
          using selection_swap [OF "2.prems"(1), of i e] "2.prems"(4) False e bar by auto
        moreover have "\<forall>j \<in> set is. limit \<le> j \<and> j < length ranked \<and> j \<notin> insert i (selected - {e})"
          using "2.prems"(3,4) by auto
        ultimately obtain n' where "n' \<le> reserve" "n + 1 \<le> n'" "selection_ok ranked limit bar
            (promote_durables ranked limit reserve bar is (insert i (selected - {e})) (n + 1)) n'"
          using "2.IH"(2) [OF _ _ Some bar] "2.prems"(3) False by auto
        then show ?thesis using Some bar False by (intro exI [of _ n']) simp
      qed
    qed
  qed
qed auto

lemma take_as_map: "n \<le> length xs \<Longrightarrow> take n xs = map ((!) xs) [0..<n]"
  by (rule nth_equalityI) simp_all

lemma mset_pick: "mset (map f (filter p xs)) + mset (map f (filter (\<lambda>x. \<not> p x) xs)) = mset (map f xs)"
  by (induction xs) auto

lemma recompose_mset:
  assumes "limit \<le> length ranked"
  shows "mset (recompose ranked limit selected) = mset ranked"
proof -
  have all: "mset (map ((!) ranked) [0..<length ranked]) = mset ranked" by (simp add: map_nth)
  have "[0..<length ranked] = [0..<limit] @ [limit..<length ranked]"
    using assms by (metis le_add_diff_inverse upt_add_eq_append zero_le)
  then have "mset (map ((!) ranked) (filter (\<lambda>i. i \<in> selected) [0..<limit]))
      + mset (map ((!) ranked) (filter (\<lambda>i. i \<in> selected) [limit..<length ranked]))
      = mset (map ((!) ranked) (filter (\<lambda>i. i \<in> selected) [0..<length ranked]))" by simp
  moreover have "mset (take 1 w @ p @ drop 1 w @ r) = mset w + mset p + mset r" for w p r :: "Scored list"
  proof -
    have "mset (take 1 w) + mset (drop 1 w) = mset w" by (metis append_take_drop_id mset_append)
    then show ?thesis by (simp add: ac_simps)
  qed
  ultimately show ?thesis
    unfolding recompose_def Let_def
    by (simp only: mset_pick [of "(!) ranked" "\<lambda>i. i \<in> selected" "[0..<length ranked]"] all)
qed

lemma recompose_window:
  assumes "selected \<subseteq> {0..<length ranked}" and "card selected = limit" and "limit \<le> length ranked"
  shows "mset (take limit (recompose ranked limit selected)) = image_mset ((!) ranked) (mset_set selected)"
proof -
  let ?w = "map ((!) ranked) (filter (\<lambda>i. i \<in> selected) [0..<limit])"
  let ?p = "map ((!) ranked) (filter (\<lambda>i. i \<in> selected) [limit..<length ranked])"
  let ?r = "map ((!) ranked) (filter (\<lambda>i. i \<notin> selected) [0..<length ranked])"
  have fin: "finite selected" using assms(1) finite_subset by blast
  have parts: "mset_set selected = mset (filter (\<lambda>i. i \<in> selected) [0..<limit]) + mset (filter (\<lambda>i. i \<in> selected) [limit..<length ranked])"
  proof -
    have "[0..<length ranked] = [0..<limit] @ [limit..<length ranked]"
      using assms(3) by (metis le_add_diff_inverse upt_add_eq_append zero_le)
    moreover have "mset (filter (\<lambda>i. i \<in> selected) [0..<length ranked]) = mset_set selected"
    proof -
      have "set (filter (\<lambda>i. i \<in> selected) [0..<length ranked]) = selected" using assms(1) by auto
      then show ?thesis by (metis distinct_filter distinct_upt mset_set_set)
    qed
    ultimately show ?thesis by simp
  qed
  have "size (mset_set selected) = limit" using assms(2) fin by simp
  then have "length ?w + length ?p = limit" unfolding parts by (simp only: size_union size_mset length_map)
  then have "length (take 1 ?w @ ?p @ drop 1 ?w) = limit" by simp
  moreover have "recompose ranked limit selected = (take 1 ?w @ ?p @ drop 1 ?w) @ ?r"
    by (simp add: recompose_def Let_def)
  ultimately have t: "take limit (recompose ranked limit selected) = take 1 ?w @ ?p @ drop 1 ?w"
    by (metis append_eq_conv_conj)
  have "mset (take 1 w @ p @ drop 1 w) = mset w + mset p" for w p :: "Scored list"
  proof -
    have "mset (take 1 w) + mset (drop 1 w) = mset w" by (metis append_take_drop_id mset_append)
    then show ?thesis by (simp add: ac_simps)
  qed
  then show ?thesis unfolding t parts by (simp only: image_mset_union mset_map)
qed

lemma recompose_hd:
  assumes "0 \<in> selected" and "0 < limit"
  shows "hd (recompose ranked limit selected) = ranked ! 0"
proof -
  have "[0..<limit] = 0 # [1..<limit]" using assms(2) by (simp add: upt_conv_Cons)
  then show ?thesis using assms(1) by (simp add: recompose_def Let_def)
qed

text \<open>What \<open>reserveDurableTiers\<close> does to a list with its best hits first.\<close>

lemma reserveDurableTiers_cases:
  obtains (same) "reserveDurableTiers ranked limit reserve ratio topAnchor gatePct = ranked"
  | (moved) selected n where
      "reserveDurableTiers ranked limit reserve ratio topAnchor gatePct = recompose ranked (nat limit) selected"
      "selection_ok ranked (nat limit) (promotion_bar ranked (nat limit) ratio topAnchor gatePct) selected n"
      "0 < limit" "limit < int (length ranked)" "n \<le> nat (min reserve limit)"
      "length (filter durable (take (nat limit) ranked)) \<le> n"
proof (cases "reserve \<le> 0 \<or> limit \<le> 0 \<or> int (length ranked) \<le> limit
    \<or> nat (min reserve limit) \<le> length (filter durable (take (nat limit) ranked))")
  case True
  then show thesis using same by (auto simp: reserveDurableTiers_def Let_def)
next
  case False
  let ?l = "nat limit" and ?r = "nat (min reserve limit)"
  let ?bar = "promotion_bar ranked ?l ratio topAnchor gatePct"
  let ?n = "length (filter durable (take ?l ranked))"
  have "card {j \<in> {0..<?l}. durable (ranked ! j)} = ?n"
  proof -
    have "{j \<in> {0..<?l}. durable (ranked ! j)} = {i. i < length (take ?l ranked) \<and> durable (take ?l ranked ! i)}"
      using False by auto
    then show ?thesis by (simp add: length_filter_conv_card)
  qed
  then have "selection_ok ranked ?l ?bar {0..<?l} ?n"
    using False by (auto simp: selection_ok_def)
  then obtain n' where n': "n' \<le> ?r" "?n \<le> n'"
      "selection_ok ranked ?l ?bar (promote_durables ranked ?l ?r ?bar [?l..<length ranked] {0..<?l} ?n) n'"
    using promote_durables_ok [of ranked ?l ?bar "{0..<?l}" ?n ?r "[?l..<length ranked]"] False by auto
  have "reserveDurableTiers ranked limit reserve ratio topAnchor gatePct
      = recompose ranked ?l (promote_durables ranked ?l ?r ?bar [?l..<length ranked] {0..<?l} ?n)"
    using False by (simp add: reserveDurableTiers_def Let_def)
  from moved [OF this n'(3) _ _ n'(1,2)] False show thesis by simp
qed

lemma reserveDurableTiers_mset: "mset (reserveDurableTiers ranked limit reserve ratio topAnchor gatePct) = mset ranked"
proof (cases rule: reserveDurableTiers_cases [of ranked limit reserve ratio topAnchor gatePct])
  case (moved selected n)
  then show ?thesis using recompose_mset [of "nat limit" ranked selected] by simp
qed simp

text \<open>The top hit stays unless the reserve takes every slot of the window.\<close>

lemma reserveDurableTiers_hd:
  assumes "reserve < limit"
  shows "hd (reserveDurableTiers ranked limit reserve ratio topAnchor gatePct) = hd ranked"
proof (cases rule: reserveDurableTiers_cases [of ranked limit reserve ratio topAnchor gatePct])
  case (moved selected n)
  have "0 \<in> selected"
  proof (rule ccontr)
    assume no: "0 \<notin> selected"
    have "durable (ranked ! i)" if "i \<in> selected" for i
    proof (rule ccontr)
      assume nd: "\<not> durable (ranked ! i)"
      have "i < nat limit" using moved(2) that nd unfolding selection_ok_def by (meson not_le)
      moreover have "\<forall>j < nat limit. j \<notin> selected \<longrightarrow> (\<forall>i \<in> selected. i < nat limit \<and> \<not> durable (ranked ! i) \<longrightarrow> i < j)"
        using moved(2) unfolding selection_ok_def by (elim conjE)
      moreover have "0 < nat limit" using moved(3) by simp
      ultimately have "i < 0" using that nd no by blast
      then show False by simp
    qed
    then have "{j \<in> selected. durable (ranked ! j)} = selected" by auto
    then have "n = nat limit" using moved(2) unfolding selection_ok_def by simp
    then show False using moved(3,5) assms by simp
  qed
  then have "hd (recompose ranked (nat limit) selected) = ranked ! 0"
    using recompose_hd moved(3) by simp
  then show ?thesis using moved(1,4) by (metis hd_conv_nth length_greater_0_conv moved(3) of_nat_0_less_iff order.strict_trans)
qed simp

lemma reserveDurableTiers_window:
  fixes ranked limit reserve ratio topAnchor gatePct
  defines "out \<equiv> reserveDurableTiers ranked limit reserve ratio topAnchor gatePct"
  shows "mset (filter durable (take (nat limit) ranked)) \<subseteq># mset (take (nat limit) out)"
    and "r \<in> set (take (nat limit) out) \<Longrightarrow> r \<in> set (take (nat limit) ranked)
      \<or> durable r \<and> (\<exists>e \<in> set (take (nat limit) ranked). \<not> durable e
          \<and> (if 0 < gatePct then percentile (map Score (take (nat limit) ranked)) gatePct
              else max (ratio * Score e) (topAnchor * Score (hd ranked))) \<le> Score r)"
proof -
  have "mset (filter durable (take (nat limit) ranked)) \<subseteq># mset (take (nat limit) out)
    \<and> (r \<in> set (take (nat limit) out) \<longrightarrow> r \<in> set (take (nat limit) ranked)
      \<or> durable r \<and> (\<exists>e \<in> set (take (nat limit) ranked). \<not> durable e
          \<and> (if 0 < gatePct then percentile (map Score (take (nat limit) ranked)) gatePct
              else max (ratio * Score e) (topAnchor * Score (hd ranked))) \<le> Score r))"
  proof (cases rule: reserveDurableTiers_cases [of ranked limit reserve ratio topAnchor gatePct])
    case same
    then show ?thesis by (simp add: out_def multiset_filter_subset)
  next
    case (moved selected n)
    let ?l = "nat limit"
    let ?bar = "promotion_bar ranked ?l ratio topAnchor gatePct"
    have l: "?l < length ranked" using moved(3,4) by simp
    have sel: "selected \<subseteq> {0..<length ranked}" "card selected = ?l" "finite selected"
      using moved(2) finite_subset unfolding selection_ok_def by blast+
    have w: "mset (take ?l out) = image_mset ((!) ranked) (mset_set selected)"
      using recompose_window [OF sel(1,2)] l moved(1) by (simp add: out_def)
    have "{j. j < ?l \<and> durable (ranked ! j)} \<subseteq> selected"
      using moved(2) unfolding selection_ok_def by blast
    then have "image_mset ((!) ranked) (mset_set {j. j < ?l \<and> durable (ranked ! j)}) \<subseteq># image_mset ((!) ranked) (mset_set selected)"
      using sel(3) by (simp add: image_mset_subseteq_mono subset_imp_msubset_mset_set)
    moreover have "image_mset ((!) ranked) (mset_set {j. j < ?l \<and> durable (ranked ! j)}) = mset (filter durable (take ?l ranked))"
    proof -
      show ?thesis unfolding take_as_map [OF less_imp_le [OF l]] filter_map by (simp add: comp_def)
    qed
    moreover have "r \<in> set (take ?l ranked) \<or> durable r \<and> (\<exists>e \<in> set (take ?l ranked). \<not> durable e
          \<and> (if 0 < gatePct then percentile (map Score (take ?l ranked)) gatePct
              else max (ratio * Score e) (topAnchor * Score (hd ranked))) \<le> Score r)"
      if "r \<in> set (take ?l out)"
    proof -
      have "r \<in># image_mset ((!) ranked) (mset_set selected)" using that unfolding w [symmetric] by simp
      then obtain j where j: "j \<in> selected" "r = ranked ! j" using sel(3) by auto
      have nth: "ranked ! i \<in> set (take ?l ranked)" if "i < ?l" for i
        using that l by (metis in_set_conv_nth length_take min.absorb2 less_imp_le nth_take)
      have h: "ranked ! 0 = hd ranked" using l by (metis hd_conv_nth list.size(3) not_less_zero)
      show ?thesis
      proof (cases "j < ?l")
        case True
        then show ?thesis using j nth by simp
      next
        case False
        then obtain e where "durable (ranked ! j)" "e < ?l" "\<not> durable (ranked ! e)" "?bar e \<le> Score (ranked ! j)"
          using moved(2) j(1) unfolding selection_ok_def by (metis not_le)
        then show ?thesis
          unfolding promotion_bar_def h j(2) using nth [of e] by blast
      qed
    qed
    ultimately show ?thesis using w by metis
  qed
  note both = this
  show "mset (filter durable (take (nat limit) ranked)) \<subseteq># mset (take (nat limit) out)"
    using both by (rule conjunct1)
  show "r \<in> set (take (nat limit) out) \<Longrightarrow> r \<in> set (take (nat limit) ranked)
      \<or> durable r \<and> (\<exists>e \<in> set (take (nat limit) ranked). \<not> durable e
          \<and> (if 0 < gatePct then percentile (map Score (take (nat limit) ranked)) gatePct
              else max (ratio * Score e) (topAnchor * Score (hd ranked))) \<le> Score r)"
    using both by (elim conjE) (erule (1) mp)
qed

section \<open>Important slots\<close>

lemma swap_update:
  assumes "i < length xs" and "e < length xs"
  shows "mset (xs[i := xs ! e, e := xs ! i]) = mset xs"
  using mset_swap [OF assms(2,1)] by (cases "i = e") (simp_all add: list_update_swap)

lemma filter_update_grows:
  "j < length xs \<Longrightarrow> \<not> p (xs ! j) \<Longrightarrow> length (filter p xs) \<le> length (filter p (xs[j := y]))"
proof (induction xs arbitrary: j)
  case (Cons x xs)
  then show ?case by (cases j) auto
qed simp

lemma promote_important_ok:
  assumes "\<forall>i \<in> set is. poolSize \<le> i \<and> i < length out" and "k \<le> poolSize" and "poolSize \<le> length out"
  shows "mset (promote_important minImp k poolSize reserve ratio topAnchor is n out) = mset out
    \<and> take k (promote_important minImp k poolSize reserve ratio topAnchor is n out) = take k out
    \<and> length (filter (important minImp) (take poolSize out))
        \<le> length (filter (important minImp) (take poolSize (promote_important minImp k poolSize reserve ratio topAnchor is n out)))"
  using assms
proof (induction minImp k poolSize reserve ratio topAnchor "is" n out rule: promote_important.induct)
  case (2 minImp k poolSize reserve ratio topAnchor i "is" n out)
  show ?case
  proof (cases "reserve \<le> n \<or> \<not> important minImp (out ! i)")
    case True
    then show ?thesis using 2 by auto
  next
    case False
    show ?thesis
    proof (cases "find (\<lambda>j. \<not> important minImp (out ! j)) (rev [k..<poolSize])")
      case None
      then show ?thesis using False by simp
    next
      case (Some e)
      then have e: "k \<le> e" "e < poolSize" "\<not> important minImp (out ! e)" by (auto dest!: find_Some_set)
      have i: "poolSize \<le> i" "i < length out" using "2.prems"(1) by simp_all
      show ?thesis
      proof (cases "Score (out ! i) < max (ratio * Score (out ! e)) (topAnchor * Score (out ! 0))")
        case True
        then show ?thesis using False Some by simp
      next
        case bar: False
        let ?out = "out[i := out ! e, e := out ! i]"
        have IH: "mset (promote_important minImp k poolSize reserve ratio topAnchor is (n + 1) ?out) = mset ?out
          \<and> take k (promote_important minImp k poolSize reserve ratio topAnchor is (n + 1) ?out) = take k ?out
          \<and> length (filter (important minImp) (take poolSize ?out))
              \<le> length (filter (important minImp) (take poolSize (promote_important minImp k poolSize reserve ratio topAnchor is (n + 1) ?out)))"
          using "2.IH"(2) [OF _ _ Some bar] "2.prems" False by simp
        have m: "mset ?out = mset out" using swap_update [of i out e] i e(2) by simp
        have t: "take k ?out = take k out" using e(1,2) i(1) "2.prems"(2) by (simp add: take_update_cancel)
        have "take poolSize ?out = (take poolSize out)[e := out ! i]"
          using i(1) by (simp add: take_update_swap) (simp add: list_update_beyond)
        then have "length (filter (important minImp) (take poolSize out)) \<le> length (filter (important minImp) (take poolSize ?out))"
          using e "2.prems"(3) False by (simp add: filter_update_grows)
        note grows = le_trans [OF this IH [THEN conjunct2, THEN conjunct2]]
        have step: "promote_important minImp k poolSize reserve ratio topAnchor (i # is) n out
            = promote_important minImp k poolSize reserve ratio topAnchor is (n + 1) ?out"
          using Some bar False by simp
        show ?thesis
          unfolding step using IH [THEN conjunct1] IH [THEN conjunct2, THEN conjunct1] grows
          by (simp only: m t simp_thms)
      qed
    qed
  qed
qed auto

text \<open>
  The reserve keeps the hits in front of the answer's end and the set of the candidates, and
  the pool never has fewer important candidates than before.
\<close>

lemma reserveImportantPool_ok:
  shows "mset (reserveImportantPool deduped k poolSize reserve minImp ratio topAnchor) = mset deduped"
    and "take (nat k) (reserveImportantPool deduped k poolSize reserve minImp ratio topAnchor) = take (nat k) deduped"
    and "length (filter (important minImp) (take (nat poolSize) deduped))
      \<le> length (filter (important minImp) (take (nat poolSize) (reserveImportantPool deduped k poolSize reserve minImp ratio topAnchor)))"
proof -
  have "mset (reserveImportantPool deduped k poolSize reserve minImp ratio topAnchor) = mset deduped
    \<and> take (nat k) (reserveImportantPool deduped k poolSize reserve minImp ratio topAnchor) = take (nat k) deduped
    \<and> length (filter (important minImp) (take (nat poolSize) deduped))
      \<le> length (filter (important minImp) (take (nat poolSize) (reserveImportantPool deduped k poolSize reserve minImp ratio topAnchor)))"
  proof (cases "reserve \<le> 0 \<or> k < 0 \<or> poolSize \<le> k \<or> int (length deduped) \<le> poolSize
      \<or> nat reserve \<le> length (filter (important minImp) (take (nat poolSize) deduped))")
    case True
    then show ?thesis by (auto simp: reserveImportantPool_def Let_def)
  next
    case False
    then have "\<forall>i \<in> set [nat poolSize..<length deduped]. nat poolSize \<le> i \<and> i < length deduped"
      "nat k \<le> nat poolSize" "nat poolSize \<le> length deduped" by auto
    from promote_important_ok [OF this] False show ?thesis by (simp add: reserveImportantPool_def Let_def)
  qed
  then show "mset (reserveImportantPool deduped k poolSize reserve minImp ratio topAnchor) = mset deduped"
    "take (nat k) (reserveImportantPool deduped k poolSize reserve minImp ratio topAnchor) = take (nat k) deduped"
    "length (filter (important minImp) (take (nat poolSize) deduped))
      \<le> length (filter (important minImp) (take (nat poolSize) (reserveImportantPool deduped k poolSize reserve minImp ratio topAnchor)))"
    by simp_all
qed

section \<open>Gates and the budget\<close>

lemma gateSemantic_nth:
  assumes "i < length legs"
  shows "set (fst (gateSemantic legs gate ! i)) \<subseteq> set (fst (legs ! i))"
    and "set (snd (gateSemantic legs gate ! i)) \<subseteq> set (snd (legs ! i))"
    and "length (gateSemantic legs gate) = length legs"
  using assms by (auto simp: gateSemantic_def gate_namespace_def)

lemma applyRecallScoreFloor_subset: "set (applyRecallScoreFloor fused alpha d o') \<subseteq> set fused"
  by (auto simp: applyRecallScoreFloor_def Let_def)

lemma applyMinRankScore_split:
  "mset (fst (applyMinRankScore results gate)) + mset (snd (applyMinRankScore results gate)) = mset results"
  "0 < gate \<Longrightarrow> r \<in> set (fst (applyMinRankScore results gate)) \<Longrightarrow> gate \<le> Score r"
  by (auto simp: applyMinRankScore_def)

lemma clampRecallLimit_range: "1 \<le> clampRecallLimit n" "clampRecallLimit n \<le> 100"
  by (simp_all add: clampRecallLimit_def)

lemma applyTurnEchoGuard_subset: "set (applyTurnEchoGuard window now ranked) \<subseteq> set ranked"
  by (auto simp: applyTurnEchoGuard_def)

definition total_cost :: "bool \<Rightarrow> Scored list \<Rightarrow> nat" where
  "total_cost concise rs = sum_list (map (\<lambda>r. budgetItemCost (sMemory r) concise SearchMax) rs)"

lemma fits_within_length: "fits_within cost budget used rs \<le> length rs"
  by (induction cost budget used rs rule: fits_within.induct) auto

lemma fits_within_cost:
  "int used \<le> budget \<Longrightarrow> int (used + sum_list (map cost (take (fits_within cost budget used rs) rs))) \<le> budget"
  by (induction cost budget used rs rule: fits_within.induct) (auto simp: add.assoc)

lemma fits_within_tight:
  "fits_within cost budget used rs < length rs \<Longrightarrow>
   budget < int (used + sum_list (map cost (take (Suc (fits_within cost budget used rs)) rs)))"
  by (induction cost budget used rs rule: fits_within.induct) (auto simp: add.assoc)

lemma fits_within_over: "budget < int used \<Longrightarrow> fits_within cost budget used rs = 0"
  by (cases rs) auto

text \<open>The longest prefix within the budget, but never an empty one.\<close>

lemma applyRecallBudget_prefix:
  fixes results maxTokens concise
  defines "n \<equiv> length (fst (applyRecallBudget maxTokens concise results))"
  shows "fst (applyRecallBudget maxTokens concise results) = take n results"
    and "n \<le> length results" and "snd (applyRecallBudget maxTokens concise results) = length results - n"
    and "results \<noteq> [] \<Longrightarrow> 0 < n"
    and "0 < maxTokens \<Longrightarrow> 1 < n \<Longrightarrow> int (total_cost concise (take n results)) \<le> maxTokens"
    and "n < length results \<Longrightarrow> maxTokens < int (total_cost concise (take (Suc n) results))"
proof -
  let ?cost = "\<lambda>r. budgetItemCost (sMemory r) concise SearchMax"
  have "fst (applyRecallBudget maxTokens concise results) = take n results \<and> n \<le> length results
    \<and> snd (applyRecallBudget maxTokens concise results) = length results - n
    \<and> (results \<noteq> [] \<longrightarrow> 0 < n)
    \<and> (0 < maxTokens \<longrightarrow> 1 < n \<longrightarrow> int (total_cost concise (take n results)) \<le> maxTokens)
    \<and> (n < length results \<longrightarrow> maxTokens < int (total_cost concise (take (Suc n) results)))"
  proof (cases "0 < maxTokens \<and> results \<noteq> []")
    case False
    then show ?thesis by (cases results) (auto simp: n_def applyRecallBudget_def Let_def)
  next
    case True
    then obtain r rs where rs: "results = r # rs" by (cases results) auto
    let ?f = "fits_within ?cost maxTokens (?cost r) rs"
    have len: "?f \<le> length rs" by (rule fits_within_length)
    have b: "applyRecallBudget maxTokens concise results = (take (Suc ?f) results, length results - Suc ?f)"
      using True rs by (simp add: applyRecallBudget_def Let_def)
    then have n: "n = Suc ?f" using len rs by (simp add: n_def)
    have "int (total_cost concise (take n results)) \<le> maxTokens" if "1 < n"
    proof -
      have "int (?cost r) \<le> maxTokens" using that n fits_within_over [of maxTokens "?cost r" ?cost rs] by linarith
      then show ?thesis using fits_within_cost [of "?cost r" maxTokens ?cost rs] by (simp add: total_cost_def n rs)
    qed
    moreover have "maxTokens < int (total_cost concise (take (Suc n) results))" if "n < length results"
      using fits_within_tight [of ?cost maxTokens "?cost r" rs] that n rs by (simp add: total_cost_def)
    ultimately show ?thesis using b n rs len by simp
  qed
  note all = this
  show "fst (applyRecallBudget maxTokens concise results) = take n results" "n \<le> length results"
    "snd (applyRecallBudget maxTokens concise results) = length results - n" using all by simp_all
  show "results \<noteq> [] \<Longrightarrow> 0 < n" using all by simp
  show "0 < maxTokens \<Longrightarrow> 1 < n \<Longrightarrow> int (total_cost concise (take n results)) \<le> maxTokens" using all by simp
  show "n < length results \<Longrightarrow> maxTokens < int (total_cost concise (take (Suc n) results))" using all by simp
qed

section \<open>Links\<close>

lemma unseen_links_fresh: "(lid, ns) \<in> set (unseen_links seen ls) \<Longrightarrow> lid \<notin> seen \<and> (lid, ns) \<in> set ls"
  by (induction seen ls rule: unseen_links.induct) (auto split: if_splits)

lemma unseen_links_distinct: "distinct (map fst (unseen_links seen ls))"
proof (induction seen ls rule: unseen_links.induct)
  case (2 seen lid ns ls)
  then show ?case by (auto dest: unseen_links_fresh)
qed simp

text \<open>A result of the expansion is a direct hit or an unsuperseded memory that a direct hit links to.\<close>

definition linked_from :: "(string \<Rightarrow> string \<Rightarrow> store_error + memory) \<Rightarrow> Scored list \<Rightarrow> Scored \<Rightarrow> bool" where
  "linked_from get results r \<longleftrightarrow>
     (\<exists>q \<in> set results. \<exists>lid \<in> set (LinkedMemoryIDs (sMemory q)).
        get (Namespace (sMemory q)) lid = Inr (sMemory r) \<and> lid \<notin> hit_id ` set results)
     \<and> SupersededBy (sMemory r) = None \<and> Score r = Score (last results) * 0.5"

lemma expandLinked_set:
  assumes "\<And>xs. mset (sort_desc xs) = mset xs" and "r \<in> set (expandLinked get sort_desc results k)"
  shows "r \<in> set results \<or> linked_from get results r"
proof -
  let ?linked = "List.map_filter
      (\<lambda>(lid, ns). case get ns lid of
          Inl _ \<Rightarrow> None
        | Inr m \<Rightarrow> if SupersededBy m \<noteq> None then None
                   else Some \<lparr> sMemory = m, Score = Score (last results) * 0.5, MatchedChunk = '''' \<rparr>)
      (links_to_fetch results)"
  define L where "L = ?linked"
  have e: "expandLinked get sort_desc results k =
      (if L = [] then results
       else if 0 < k \<and> k < int (length (sort_desc (results @ L))) then take (nat k) (sort_desc (results @ L))
       else sort_desc (results @ L))"
    unfolding expandLinked_def L_def Let_def ..
  have m: "set (sort_desc (results @ L)) = set results \<union> set L"
    using assms(1) [of "results @ L"] by (metis set_append set_mset_mset)
  have "r \<in> set results \<or> r \<in> set (sort_desc (results @ L))"
    using assms(2) unfolding e by (auto split: if_splits dest: in_set_takeD)
  with m have "r \<in> set results \<or> r \<in> set L" by blast
  then have "r \<in> set results \<or> r \<in> set ?linked" unfolding L_def .
  moreover have "linked_from get results r" if in_linked: "r \<in> set ?linked"
  proof -
    obtain lid ns where f: "(lid, ns) \<in> set (links_to_fetch results)"
        "(case get ns lid of Inl _ \<Rightarrow> None
          | Inr m \<Rightarrow> if SupersededBy m \<noteq> None then None
                     else Some \<lparr> sMemory = m, Score = Score (last results) * 0.5, MatchedChunk = '''' \<rparr>) = Some r"
      using in_linked by (auto simp: in_map_filter)
    obtain m where m: "get ns lid = Inr m" "SupersededBy m = None"
        "r = \<lparr> sMemory = m, Score = Score (last results) * 0.5, MatchedChunk = '''' \<rparr>"
      using f(2) by (auto split: sum.splits if_splits)
    have "lid \<notin> hit_id ` set results" "\<exists>q \<in> set results. lid \<in> set (LinkedMemoryIDs (sMemory q)) \<and> ns = Namespace (sMemory q)"
      using unseen_links_fresh [OF f(1) [unfolded links_to_fetch_def]] by auto
    then show ?thesis using m unfolding linked_from_def by auto
  qed
  ultimately show ?thesis by blast
qed

text \<open>
  With the least score last, as the plain composite order has it, no linked memory scores
  above a direct hit.
\<close>

lemma linked_below_direct:
  assumes "linked_from get results r" and "q \<in> set results" and "0 \<le> Score (last results)"
    and "sorted_wrt (\<lambda>a b. Score b \<le> Score a) results"
  shows "Score r \<le> Score q"
proof -
  have ne: "results \<noteq> []" using assms(2) by auto
  have "Score (last results) \<le> Score q"
  proof (cases "q = last results")
    case False
    then have "q \<in> set (butlast results)" using assms(2) ne by (metis append_butlast_last_id in_set_conv_decomp_last rotate1.simps(2) set_ConsD set_rotate1)
    moreover have "sorted_wrt (\<lambda>a b. Score b \<le> Score a) (butlast results @ [last results])" using assms(4) ne by simp
    ultimately show ?thesis by (simp add: sorted_wrt_append)
  qed simp
  then show ?thesis using assms(1,3) by (simp add: linked_from_def)
qed

text \<open>The stages before the expansion do not keep that order, and then a linked memory can win.\<close>

definition scored_note :: "string \<Rightarrow> string list \<Rightarrow> real \<Rightarrow> Scored" where
  "scored_note i links sc =
     \<lparr> sMemory = \<lparr> ID = i, Namespace = ''app'', mTier = TierSemantic, mLevel = '''', Content = i, Summary = '''',
        Metadata = Map.empty, Tags = [], Importance = 0, CreatedAt = 0, UpdatedAt = 0, LastAccessedAt = 0,
        AccessCount = 0, ExpiresAt = None, SupersededBy = None, ValidFrom = None, ValidTo = None, Confidence = None,
        AssessedImportance = None, LinkedMemoryIDs = links, Embedding = [], EmbedState = '''', Chunks = None \<rparr>,
       Score = sc, MatchedChunk = '''' \<rparr>"

lemma linked_outranks_direct:
  "map hit_id (expandLinked (\<lambda>ns i. Inr (sMemory (scored_note i [] 0))) (SliceStable higher)
      [scored_note ''a'' [''c''] 0.9, scored_note ''b'' [] 0.3, scored_note ''d'' [] 0.8] 3)
    = [''a'', ''d'', ''c'']"
  by (simp add: scored_note_def expandLinked_def links_to_fetch_def List.map_filter_def SliceStable_Cons Let_def)

end
