(* ===== verification/Temporal.thy ===== *)
theory Temporal
  imports Search
begin

text \<open>
  The temporal re-rank of \<open>internal/search/temporal.go\<close>: candidates dated near the time that a
  query names are amplified. What the query names is the parameter \<open>AnchorExtractor\<close> of the
  code. \<open>now.AddDate(0, 0, -n)\<close> is \<open>n\<close> times 24 hours back, as the service's clock is UTC.
\<close>

definition DefaultTemporalBoost :: real where "DefaultTemporalBoost = 0.4"

record TimeAnchor =
  Days :: int
  Tolerance :: int

type_synonym AnchorExtractor = "string \<Rightarrow> Time \<Rightarrow> TimeAnchor option"

definition daysAgo :: "Time \<Rightarrow> Time \<Rightarrow> int" where
  "daysAgo target now = (let d = Hours (Sub now target) / 24 in if d < 0 then \<lceil>d\<rceil> else \<lfloor>d\<rfloor>)"

definition temporalProximity :: "Time \<Rightarrow> Time \<Rightarrow> int \<Rightarrow> real" where
  "temporalProximity date target tol =
     (if IsZero date \<or> tol \<le> 0 then 0
      else let delta = \<bar>Hours (Sub target date) / 24\<bar> in
        if delta \<le> real_of_int tol then 1
        else if delta \<le> real_of_int (3 * tol) then 1 - (delta - real_of_int tol) / real_of_int (2 * tol)
        else 0)"

text \<open>The date of a candidate: when a backdated fact became true, else when it was written.\<close>

definition candidate_date :: "Scored \<Rightarrow> Time" where
  "candidate_date r = (case ValidFrom (sMemory r) of Some t \<Rightarrow> t | None \<Rightarrow> CreatedAt (sMemory r))"

definition boosted :: "Time \<Rightarrow> int \<Rightarrow> real \<Rightarrow> Scored \<Rightarrow> Scored" where
  "boosted target tol boost r =
     WithScore r (Score r * (1 + boost * temporalProximity (candidate_date r) target tol))"

definition RerankTemporal ::
    "tuning \<Rightarrow> Scored list \<Rightarrow> string \<Rightarrow> Time \<Rightarrow> RerankWeights \<Rightarrow> AnchorExtractor option \<Rightarrow> real \<Rightarrow> Scored list" where
  "RerankTemporal cfg results query now w ex boost =
     (let base = RerankWith cfg results now w in
      case ex of
        None \<Rightarrow> base
      | Some extract \<Rightarrow>
          if boost \<le> 0 \<or> IsZero now then base
          else case extract query now of
                 None \<Rightarrow> base
               | Some anchor \<Rightarrow>
                   let target = now - Days anchor * (24 * Hour);
                       out = map (boosted target (Tolerance anchor) boost) base
                   in map snd (SliceStable best_first (List.enumerate 0 out)))"

section \<open>What the boost can do\<close>

lemma temporalProximity_bounds: "0 \<le> temporalProximity date target tol" "temporalProximity date target tol \<le> 1"
proof -
  define delta where "delta = \<bar>Hours (Sub target date) / 24\<bar>"
  have "0 \<le> 1 - (delta - real_of_int tol) / real_of_int (2 * tol)" if "0 < tol" "delta \<le> real_of_int (3 * tol)"
    using that by (simp add: field_simps)
  moreover have "1 - (delta - real_of_int tol) / real_of_int (2 * tol) \<le> 1" if "0 < tol" "\<not> delta \<le> real_of_int tol"
    using that by simp
  ultimately show "0 \<le> temporalProximity date target tol" "temporalProximity date target tol \<le> 1"
    unfolding temporalProximity_def Let_def delta_def [symmetric] by simp_all
qed

lemma boosted_simps [simp]: "sMemory (boosted g t b r) = sMemory r" "MatchedChunk (boosted g t b r) = MatchedChunk r"
  by (simp_all add: boosted_def)

text \<open>The boost only raises a score, and at most by the factor \<open>1 + boost\<close>.\<close>

lemma boosted_score:
  assumes "0 \<le> Score r" and "0 \<le> boost"
  shows "Score r \<le> Score (boosted g t boost r)" "Score (boosted g t boost r) \<le> Score r * (1 + boost)"
proof -
  let ?p = "temporalProximity (candidate_date r) g t"
  have "0 \<le> boost * ?p" "boost * ?p \<le> boost * 1"
    using temporalProximity_bounds(1) assms(2) mult_left_mono [OF temporalProximity_bounds(2) assms(2)]
    by (simp_all add: mult_nonneg_nonneg)
  then show "Score r \<le> Score (boosted g t boost r)" "Score (boosted g t boost r) \<le> Score r * (1 + boost)"
    using assms(1) mult_left_mono [of "1 + boost * ?p" "1 + boost" "Score r"]
      mult_left_mono [of 1 "1 + boost * ?p" "Score r"]
    by (simp_all add: boosted_def)
qed

lemma RerankTemporal_cases:
  "RerankTemporal cfg results query now w ex boost = RerankWith cfg results now w
   \<or> (\<exists>g t. 0 < boost \<and> RerankTemporal cfg results query now w ex boost
        = SliceStable higher (map (boosted g t boost) (RerankWith cfg results now w)))"
  unfolding RerankTemporal_def Let_def sort_enumerate by (auto split: option.splits)

lemma RerankTemporal_memories:
  "mset (map sMemory (RerankTemporal cfg results query now w ex boost)) = mset (map sMemory results)"
proof -
  have b: "mset (map sMemory (RerankWith cfg results now w)) = mset (map sMemory results)"
    using RerankWith_perm by simp
  have "mset (map sMemory (SliceStable higher (map (boosted g t boost) xs))) = mset (map sMemory xs)" for g t xs
    by (simp add: image_mset.compositionality comp_def)
  then show ?thesis using RerankTemporal_cases [of cfg results query now w ex boost] b by metis
qed

lemma RerankTemporal_sorted:
  "sorted_wrt (\<lambda>a b. Score b \<le> Score a) (RerankTemporal cfg results query now w ex boost)"
  using RerankTemporal_cases [of cfg results query now w ex boost] sorted_higher RerankWith_sorted by metis

end
