(* ===== verification/Query_Rewrite.thy ===== *)
theory Query_Rewrite
  imports Go_Strings
begin

text \<open>
  Rewriting a query into variants before a recall: \<open>expandQueries\<close> and its gate of
  \<open>internal/service/answer_expand.go\<close>. The language model under its fixed system prompt is
  the argument \<open>llm\<close>, which answers nothing on an error or a timeout.
\<close>

definition upper_char :: "char \<Rightarrow> char" where
  "upper_char c = (let n = of_char c :: nat in if 97 \<le> n \<and> n \<le> 122 then char_of (n - 32) else c)"

definition ToUpper :: "string \<Rightarrow> string" where
  "ToUpper = map upper_char"

definition hex_digit_any :: "char \<Rightarrow> bool" where
  "hex_digit_any c = (let n = of_char c :: nat in
     48 \<le> n \<and> n \<le> 57 \<or> 97 \<le> n \<and> n \<le> 102 \<or> 65 \<le> n \<and> n \<le> 70)"

definition isUUIDOrCode :: "string \<Rightarrow> bool" where
  "isUUIDOrCode q \<longleftrightarrow>
     (let groups = split_on (\<lambda>c. c = CHR ''-'') q in
      map length groups = [8, 4, 4, 4, 12] \<and> list_all (list_all hex_digit_any) groups)
     \<or> ToUpper q = q \<and> (CHR ''_'' \<in> set q \<or> CHR ''-'' \<in> set q) \<and> length q < 40"

definition shouldExpandQuery :: "string \<Rightarrow> bool" where
  "shouldExpandQuery query =
     (let q = TrimSpace query in
      if q = '''' then False
      else if length (Fields q) < 3 then False
      else if CHR 0x22 \<in> set q \<or> CHR 0x27 \<in> set q then False
      else \<not> isUUIDOrCode q)"

definition clean_line :: "string \<Rightarrow> string" where
  "clean_line line = TrimSpace (dropWhile (\<lambda>c. c \<in> set ''-*0123456789. '') (TrimSpace line))"

definition expandQueries :: "(string \<Rightarrow> string option) \<Rightarrow> string \<Rightarrow> string list" where
  "expandQueries llm query =
     (if \<not> shouldExpandQuery query then [query]
      else case llm (''Question: '' @ query) of
             None \<Rightarrow> [query]
           | Some rewrites \<Rightarrow>
               query # take 3 (filter (\<lambda>q. q \<noteq> '''') (map clean_line (split_on (\<lambda>c. c = CHR 0x0A) rewrites))))"

lemma expandQueries_length: "1 \<le> length (expandQueries llm query)" "length (expandQueries llm query) \<le> 4"
  by (auto simp: expandQueries_def split: option.split)

lemma expandQueries_nonempty: "query \<noteq> '''' \<Longrightarrow> '''' \<notin> set (expandQueries llm query)"
  by (auto simp: expandQueries_def split: option.split dest: in_set_takeD)

end
