(* ===== verification/Recall.thy ===== *)
theory Recall
  imports Recall_Stages Temporal Query_Rewrite Sqlite_Queries
begin

text \<open>
  \<open>Recall\<close> of \<open>internal/service/service.go\<close>: the checks of the request, the read set, the two
  search legs of every namespace, the fusion, the gates, the re-rank and the final cuts, over
  a store that is given by its read operations; and the reinforcement that follows.

  The embedder, the reranker and the language model are fields of the record \<open>service\<close>. The
  legs of the search run concurrently into slots of their own, so the model evaluates them in
  order. When both the embedding and the read set fail, the code reports either; the model
  reports the embedding's error.
\<close>

section \<open>The service and its collaborators\<close>

datatype embed_error = DeadlineExceeded | EmbedFailure

text \<open>
  \<open>embedder\<close> embeds a query; \<open>reranker\<close> answers the ids in its order or nothing on an error;
  \<open>answerer\<close> completes a prompt.
\<close>

record service =
  embedder :: "string \<Rightarrow> embed_error + vec"
  answerer :: "(string \<Rightarrow> string option) option"
  reranker :: "(string \<Rightarrow> (string \<times> string) list \<Rightarrow> string list option) option"
  rerankEmptyVerdict :: bool
  rerankPrompt :: bool
  rerankPool :: int
  importancePoolReserve :: int
  importancePoolMin :: real
  recallEmbedTimeout :: Duration
  recallMinScore :: real
  recallMinSemanticScore :: real
  recallSemanticReserve :: int
  reservePromoteRatio :: real
  reserveTopAnchor :: real
  reserveGatePercentile :: real
  chunkEmbed :: bool
  chunkScoreWeight :: real
  turnEchoWindow :: Duration
  queryPrefix :: string
  scoreFusionAlpha :: real
  poolFactor :: int
  poolFloor :: int
  cascades :: bool
  reinforceSkipMarkers :: bool
  temporalBoost :: real
  temporalAnchor :: "AnchorExtractor option"
  scoring :: tuning

text \<open>What a recall reads of the store; the chunk search is an optional interface.\<close>

record recall_store =
  rs_reads :: read_store
  rs_vector :: "string \<Rightarrow> vec \<Rightarrow> Filter \<Rightarrow> nat \<Rightarrow> store_error + Scored list"
  rs_keyword :: "string \<Rightarrow> string \<Rightarrow> Filter \<Rightarrow> nat \<Rightarrow> store_error + Scored list"
  rs_chunk :: "(string \<Rightarrow> vec \<Rightarrow> Filter \<Rightarrow> int \<Rightarrow> store_error + Scored list) option"
  rs_get :: "string \<Rightarrow> string \<Rightarrow> store_error + memory"

record RecallInput =
  rNamespace :: string
  rQuery :: string
  NoReinforce :: bool
  rSource :: string
  rTiers :: "Tier list"
  rLevels :: "Level list"
  rTags :: "string list"
  rMetadata :: "(string \<times> string) list"
  rExcludeMetadata :: "(string \<times> string) list"
  rExcludeIDs :: "string list"
  IncludeFreshTurns :: bool
  IncludeHandoffs :: bool
  QueryRewrite :: bool
  rLimit :: int
  rIncludeExpired :: bool
  rIncludeSuperseded :: bool
  rAsOf :: Time
  Subtree :: bool
  rNamespaces :: "string list"
  rHome :: string
  rScope :: string
  MinScore :: real
  MinRankScore :: real
  MinSemanticScore :: real
  SemanticReserve :: int
  IncludeLinked :: bool
  MaxTokens :: int
  EstimateConcise :: bool

datatype recall_error =
    EmptyNamespace
  | EmptyQuery
  | BadScope read_error
  | TooManyExcluded nat
  | BadMinRankScore real
  | QueryEmbedFailed embed_error
  | ReadSetFailed read_error
  | KeywordLegFailed store_error

text \<open>The results and what the code reports through its out-parameters and to the activity log.\<close>

record recall_out =
  ro_results :: "Scored list"
  ro_finalized :: "Scored list"
  ro_floored :: "Scored list"
  ro_omitted :: nat
  ro_dropped :: "string list"
  ro_degraded :: "string option"
  ro_readSet :: "ReadSetEntry list"

section \<open>The request\<close>

abbreviation maxRecallExcludeIDs :: nat where "maxRecallExcludeIDs \<equiv> 512"

abbreviation MetaHandoffMarker :: string where "MetaHandoffMarker \<equiv> ''handoff''"

definition recallExcludeMetadata :: "RecallInput \<Rightarrow> (string \<times> string) list" where
  "recallExcludeMetadata q =
     (if IncludeHandoffs q then rExcludeMetadata q
      else filter (\<lambda>p. fst p \<noteq> MetaHandoffMarker) (rExcludeMetadata q) @ [(MetaHandoffMarker, ''1'')])"

definition recall_filter :: "Time \<Rightarrow> RecallInput \<Rightarrow> Filter" where
  "recall_filter now q =
     no_filter\<lparr> fTiers := rTiers q, fLevels := rLevels q, fTags := rTags q, fMetadata := rMetadata q,
       ExcludeMetadata := recallExcludeMetadata q, ExcludeIDs := rExcludeIDs q,
       IncludeExpired := rIncludeExpired q, IncludeSuperseded := rIncludeSuperseded q,
       Now := now, AsOf := rAsOf q \<rparr>"

text \<open>The checks, in their order; the result is the pair \<open>(bare, subtree)\<close> of the scope.\<close>

definition recall_checks :: "RecallInput \<Rightarrow> recall_error + bool \<times> bool" where
  "recall_checks q =
     (if rNamespace q = '''' then Inl EmptyNamespace
      else if rQuery q = '''' then Inl EmptyQuery
      else case parseScope (rScope q) of
             Inl e \<Rightarrow> Inl (BadScope e)
           | Inr flags \<Rightarrow>
               if maxRecallExcludeIDs < length (rExcludeIDs q) then Inl (TooManyExcluded (length (rExcludeIDs q)))
               else if \<not> validMinRankScore (MinRankScore q) then Inl (BadMinRankScore (MinRankScore q))
               else Inr flags)"

definition recall_scope :: "bool \<times> bool \<Rightarrow> RecallInput \<Rightarrow> readScope" where
  "recall_scope flags q =
     \<lparr> sc_primary = rNamespace q, sc_home = rHome q, sc_explicit = rNamespaces q,
       sc_subtree = Subtree q \<or> snd flags, sc_bare = fst flags, sc_reqTiers = rTiers q \<rparr>"

definition resolveSemanticFloor :: "service \<Rightarrow> RecallInput \<Rightarrow> real" where
  "resolveSemanticFloor s q = (if 0 < MinSemanticScore q then MinSemanticScore q else recallMinSemanticScore s)"

definition resolveSemanticReserve :: "service \<Rightarrow> RecallInput \<Rightarrow> int" where
  "resolveSemanticReserve s q = (if 0 < SemanticReserve q then SemanticReserve q else recallSemanticReserve s)"

definition resolveTurnEchoWindow :: "service \<Rightarrow> RecallInput \<Rightarrow> Duration" where
  "resolveTurnEchoWindow s q = (if IncludeFreshTurns q then 0 else turnEchoWindow s)"

section \<open>The search legs\<close>

definition vectorLeg ::
    "service \<Rightarrow> recall_store \<Rightarrow> string \<Rightarrow> vec \<Rightarrow> Filter \<Rightarrow> int \<Rightarrow> store_error + Scored list" where
  "vectorLeg s st ns v f k =
     (case rs_vector st ns v f (nat k) of
        Inl e \<Rightarrow> Inl e
      | Inr docs \<Rightarrow>
          (case (if chunkEmbed s then rs_chunk st else None) of
             None \<Rightarrow> Inr docs
           | Some search \<Rightarrow>
               (case search ns v f k of
                  Inl _ \<Rightarrow> Inr docs
                | Inr chunks \<Rightarrow> Inr (mergeIfChunked docs chunks (chunkScoreWeight s) k))))"

definition leg_filter :: "Filter \<Rightarrow> scopeEntry \<Rightarrow> Filter" where
  "leg_filter f e = (case leg_tiers e of None \<Rightarrow> f | Some ts \<Rightarrow> f\<lparr> fTiers := ts \<rparr>)"

type_synonym leg_result = "(store_error + Scored list) \<times> (store_error + Scored list)"

text \<open>The vector leg runs only with a query vector; without one its slot stays empty.\<close>

definition search_legs ::
    "service \<Rightarrow> recall_store \<Rightarrow> string \<Rightarrow> vec option \<Rightarrow> Filter \<Rightarrow> int \<Rightarrow> scopeEntry \<Rightarrow> leg_result" where
  "search_legs s st query v f k e =
     ((case v of None \<Rightarrow> Inr [] | Some q \<Rightarrow> vectorLeg s st (leg_ns e) q (leg_filter f e) k),
      rs_keyword st (leg_ns e) query (leg_filter f e) (nat k))"

fun reportRecallLegs :: "(scopeEntry \<times> leg_result) list \<Rightarrow> recall_error + string list" where
  "reportRecallLegs [] = Inr []"
| "reportRecallLegs ((e, v, k) # legs) =
     (case k of
        Inl er \<Rightarrow>
          if leg_origin e = OriginPrimary then Inl (KeywordLegFailed er)
          else (case reportRecallLegs legs of Inl er' \<Rightarrow> Inl er' | Inr names \<Rightarrow> Inr (leg_ns e # names))
      | Inr _ \<Rightarrow> reportRecallLegs legs)"

definition leg_hits :: "leg_result \<Rightarrow> Scored list \<times> Scored list" where
  "leg_hits r = ((case fst r of Inl _ \<Rightarrow> [] | Inr hits \<Rightarrow> hits), (case snd r of Inl _ \<Rightarrow> [] | Inr hits \<Rightarrow> hits))"

definition fuseLegs :: "service \<Rightarrow> Scored list \<times> Scored list \<Rightarrow> Scored list" where
  "fuseLegs s legs =
     (if 0 \<le> scoreFusionAlpha s
      then FuseScores [fst legs, snd legs] [scoreFusionAlpha s, 1 - scoreFusionAlpha s] 0
      else Fuse [fst legs, snd legs] 0 DefaultRRFK)"

definition fuse_namespaces :: "service \<Rightarrow> Scored list list \<Rightarrow> Scored list" where
  "fuse_namespaces s perNS =
     (if length perNS = 1 then hd perNS
      else if 0 \<le> scoreFusionAlpha s then FuseScores perNS [] 0
      else Fuse perNS 0 DefaultRRFK)"

text \<open>The candidates: searched, gated, fused per namespace and across namespaces, floored.\<close>

definition recall_candidates ::
    "service \<Rightarrow> RecallInput \<Rightarrow> vec option \<Rightarrow> (scopeEntry \<times> leg_result) list \<Rightarrow> Scored list" where
  "recall_candidates s q v legs =
     (let hits = map (\<lambda>(e, r). leg_hits r) legs;
          gated = (if v \<noteq> None then gateSemantic hits (resolveSemanticFloor s q) else hits)
      in applyRecallScoreFloor (fuse_namespaces s (map (fuseLegs s) gated))
           (scoreFusionAlpha s) (recallMinScore s) (MinScore q))"

section \<open>Ranking\<close>

fun take_order :: "string list \<Rightarrow> (string \<rightharpoonup> Scored) \<Rightarrow> Scored list" where
  "take_order [] byID = []"
| "take_order (i # order) byID =
     (case byID i of None \<Rightarrow> take_order order byID | Some r \<Rightarrow> r # take_order order (byID(i := None)))"

definition candidate_of :: "Scored \<Rightarrow> string \<times> string" where
  "candidate_of r = (hit_id r, if MatchedChunk r \<noteq> '''' then MatchedChunk r else Content (sMemory r))"

definition rerank_pool :: "service \<Rightarrow> Scored list \<Rightarrow> int \<Rightarrow> Scored list" where
  "rerank_pool s ranked k =
     (let poolSize = max (rerankPool s) k;
          deduped = reserveImportantPool (Dedup ranked 0) k poolSize (importancePoolReserve s)
            (importancePoolMin s) (reservePromoteRatio s) (reserveTopAnchor s)
      in if 0 < poolSize \<and> poolSize < int (length deduped) then take (nat poolSize) deduped else deduped)"

text \<open>\<open>in_time\<close>: the caller's deadline, if any, leaves time for the reranker.\<close>

definition finalizeRecall :: "service \<Rightarrow> bool \<Rightarrow> string \<Rightarrow> Scored list \<Rightarrow> int \<Rightarrow> Scored list" where
  "finalizeRecall s in_time query ranked k =
     (case reranker s of
        None \<Rightarrow> Dedup ranked k
      | Some rr \<Rightarrow>
          let pool = rerank_pool s ranked k;
              fallback = (if rerankEmptyVerdict s then [] else Dedup ranked k)
          in if \<not> in_time then fallback
             else case rr query (map candidate_of pool) of
                    None \<Rightarrow> fallback
                  | Some order \<Rightarrow>
                      let out = take_order order (map_of (rev (map (\<lambda>r. (hit_id r, r)) pool)))
                      in if out = [] then fallback
                         else if 0 < k \<and> k < int (length out) then take (nat k) out else out)"

definition rank_candidates :: "service \<Rightarrow> Time \<Rightarrow> RecallInput \<Rightarrow> Scored list \<Rightarrow> Scored list" where
  "rank_candidates s now q fused =
     (let k = clampRecallLimit (rLimit q);
          ranked = (if 0 < temporalBoost s \<and> temporalAnchor s \<noteq> None
                    then RerankTemporal (scoring s) fused (rQuery q) now DefaultRerankWeights (temporalAnchor s) (temporalBoost s)
                    else Rerank (scoring s) fused now)
      in applyTurnEchoGuard (resolveTurnEchoWindow s q) now
           (reserveDurableTiers ranked k (resolveSemanticReserve s q) (reservePromoteRatio s)
              (reserveTopAnchor s) (reserveGatePercentile s)))"

definition finalize_candidates :: "service \<Rightarrow> bool \<Rightarrow> RecallInput \<Rightarrow> Scored list \<Rightarrow> Scored list" where
  "finalize_candidates s in_time q ranked =
     (let k = clampRecallLimit (rLimit q) in
      if rSource q = ''prompt'' \<and> \<not> rerankPrompt s then Dedup ranked k
      else finalizeRecall s in_time (rQuery q) ranked k)"

section \<open>Recall\<close>

text \<open>
  The circumstances of a call: the clock, whether time is left to rerank, and the sort whose
  order of equal scores the code leaves to \<open>slices.SortFunc\<close>.
\<close>

record recall_env =
  re_now :: Time
  re_in_time :: bool
  re_sort :: "Scored list \<Rightarrow> Scored list"

text \<open>The query's vector, or none and the reason when the recall may degrade.\<close>

definition embed_query :: "service \<Rightarrow> RecallInput \<Rightarrow> recall_error + vec option \<times> string option" where
  "embed_query s q =
     (case embedder s (queryPrefix s @ rQuery q) of
        Inr v \<Rightarrow> Inr (Some v, None)
      | Inl e \<Rightarrow>
          if 0 < recallEmbedTimeout s
          then Inr (None, Some (if e = DeadlineExceeded then ''embed_timeout'' else ''embed_error''))
          else Inl (QueryEmbedFailed e))"

definition serve ::
    "service \<Rightarrow> recall_store \<Rightarrow> recall_env \<Rightarrow> RecallInput \<Rightarrow> Scored list \<Rightarrow> recall_out" where
  "serve s st env q finalized =
     (let (kept, floored) = applyMinRankScore finalized (MinRankScore q);
          expanded = maybeExpandLinked (IncludeLinked q) (rs_get st) (re_sort env) kept (clampRecallLimit (rLimit q));
          (results, omitted) = applyRecallBudget (MaxTokens q) (EstimateConcise q) expanded
      in \<lparr> ro_results = results, ro_finalized = finalized, ro_floored = floored, ro_omitted = omitted,
           ro_dropped = [], ro_degraded = None, ro_readSet = [] \<rparr>)"

definition recall_single ::
    "service \<Rightarrow> recall_store \<Rightarrow> recall_env \<Rightarrow> RecallInput \<Rightarrow> recall_error + recall_out" where
  "recall_single s st env q =
     (case recall_checks q of
        Inl e \<Rightarrow> Inl e
      | Inr flags \<Rightarrow>
          (case embed_query s q of
             Inl e \<Rightarrow> Inl e
           | Inr (v, degraded) \<Rightarrow>
               (case resolveReadSet (cascades s) (rs_reads st) (recall_scope flags q) of
                  Inl e \<Rightarrow> Inl (ReadSetFailed e)
                | Inr entries \<Rightarrow>
                    let poolK = max (clampRecallLimit (rLimit q) * poolFactor s) (poolFloor s);
                        legs = map (\<lambda>e. (e, search_legs s st (rQuery q) v (recall_filter (re_now env) q) poolK e)) entries
                    in case reportRecallLegs legs of
                         Inl e \<Rightarrow> Inl e
                       | Inr dropped \<Rightarrow>
                           Inr ((serve s st env q
                                   (finalize_candidates s (re_in_time env) q
                                      (rank_candidates s (re_now env) q (recall_candidates s q v legs))))
                                \<lparr> ro_dropped := dropped, ro_degraded := degraded, ro_readSet := toReadSetEntries entries \<rparr>))))"

text \<open>\<open>tryQueryRewrite\<close>: the recalls of the variants, fused; nothing when a variant fails.\<close>

definition variant :: "RecallInput \<Rightarrow> string \<Rightarrow> RecallInput" where
  "variant q query = q\<lparr> rQuery := query, QueryRewrite := False, MaxTokens := 0 \<rparr>"

fun collect_results :: "(recall_error + recall_out) list \<Rightarrow> recall_out list option" where
  "collect_results [] = Some []"
| "collect_results (Inl e # rs) = None"
| "collect_results (Inr r # rs) = map_option (Cons r) (collect_results rs)"

definition tryQueryRewrite ::
    "service \<Rightarrow> recall_store \<Rightarrow> recall_env \<Rightarrow> RecallInput \<Rightarrow> recall_out list option" where
  "tryQueryRewrite s st env q =
     (if \<not> QueryRewrite q then None
      else case answerer s of
             None \<Rightarrow> None
           | Some llm \<Rightarrow>
               let queries = expandQueries llm (rQuery q) in
               if length queries \<le> 1 then None
               else collect_results (map (\<lambda>query. recall_single s st env (variant q query)) queries))"

definition Recall ::
    "service \<Rightarrow> recall_store \<Rightarrow> recall_env \<Rightarrow> RecallInput \<Rightarrow> recall_error + recall_out" where
  "Recall s st env q =
     (case recall_checks q of
        Inl e \<Rightarrow> Inl e
      | Inr _ \<Rightarrow>
          (case tryQueryRewrite s st env q of
             None \<Rightarrow> recall_single s st env q
           | Some outs \<Rightarrow>
               let fused = Fuse (map ro_results outs) (rLimit q) DefaultRRFK;
                   (results, omitted) = applyRecallBudget (MaxTokens q) (EstimateConcise q) fused
               in Inr \<lparr> ro_results = results, ro_finalized = [], ro_floored = [], ro_omitted = omitted,
                        ro_dropped = (case rev outs of [] \<Rightarrow> [] | o' # _ \<Rightarrow> ro_dropped o'),
                        ro_degraded = (case find (\<lambda>o'. ro_degraded o' \<noteq> None) outs of
                                         None \<Rightarrow> None | Some o' \<Rightarrow> ro_degraded o'),
                        ro_readSet = (case outs of [] \<Rightarrow> [] | o' # _ \<Rightarrow> ro_readSet o') \<rparr>))"

end
