(* ===== verification/Recall_Sound.thy ===== *)
theory Recall_Sound
  imports Recall
begin

text \<open>
  What a recall may return. The locale \<open>recall_source\<close> states what it asks of the store's
  searches, the client lemmas follow the hits through every stage, and the interpretation is
  on the SQLite driver.
\<close>

section \<open>The stages keep the memories they are given\<close>

lemma see_hit_memories: "sMemory ` fst ` set (see_hit h a) \<subseteq> insert (sMemory (fst h)) (sMemory ` fst ` set a)"
  by (induction h a rule: see_hit.induct) auto

lemma fold_see_hit_memories:
  "sMemory ` fst ` set (fold see_hit hits a) \<subseteq> sMemory ` fst ` set hits \<union> sMemory ` fst ` set a"
proof (induction hits arbitrary: a)
  case (Cons h hits)
  have "sMemory ` fst ` set (fold see_hit hits (see_hit h a))
      \<subseteq> sMemory ` fst ` set hits \<union> insert (sMemory (fst h)) (sMemory ` fst ` set a)"
    using Cons.IH [of "see_hit h a"] see_hit_memories [of h a] by (meson Un_mono order_refl order_trans)
  then show ?case by simp
qed simp

lemma fuse_hits_memories: "sMemory ` set (fuse_hits hits k) \<subseteq> sMemory ` fst ` set hits"
proof -
  have "sMemory ` set (fuse_hits hits k) \<subseteq> sMemory ` (\<lambda>(m, s). WithScore m s) ` set (fold see_hit hits [])"
    unfolding fuse_hits_def by (rule image_mono [OF finish_set])
  also have "\<dots> = sMemory ` fst ` set (fold see_hit hits [])" by (force simp: image_iff)
  finally show ?thesis using fold_see_hit_memories [of hits "[]"] by auto
qed

lemma rrf_hits_fst: "fst ` set (rrf_hits c l) = set l"
proof -
  have "fst ` set (rrf_hits c l) = set (map snd (List.enumerate 0 l))"
    by (simp add: rrf_hits_def case_prod_unfold image_image del: map_snd_enumerate)
  then show ?thesis by (simp only: map_snd_enumerate)
qed

lemma norm_hits_fst: "fst ` set (norm_hits w l) = set l"
  by (simp add: norm_hits_def case_prod_unfold Let_def image_image)

lemma Fuse_memories: "sMemory ` set (Fuse legs k c) \<subseteq> sMemory ` (\<Union>l \<in> set legs. set l)"
proof -
  have "fst ` set (concat (map (rrf_hits c') legs)) = (\<Union>l \<in> set legs. set l)" for c'
    using rrf_hits_fst by (auto simp: image_UN)
  then show ?thesis unfolding Fuse_hits by (metis fuse_hits_memories)
qed

lemma FuseScores_memories: "sMemory ` set (FuseScores legs ws k) \<subseteq> sMemory ` (\<Union>l \<in> set legs. set l)"
proof -
  have "fst ` set (concat (map (\<lambda>(li, l). norm_hits (weight_of ws li) l) (List.enumerate n legs))) = (\<Union>l \<in> set legs. set l)" for n
    by (induction legs arbitrary: n) (simp_all add: image_Un norm_hits_fst)
  then show ?thesis unfolding FuseScores_hits by (metis fuse_hits_memories)
qed

lemma fuseLegs_memories: "sMemory ` set (fuseLegs s legs) \<subseteq> sMemory ` (set (fst legs) \<union> set (snd legs))"
  using FuseScores_memories [of "[fst legs, snd legs]"] Fuse_memories [of "[fst legs, snd legs]"]
  by (simp add: fuseLegs_def)

lemma fuse_namespaces_memories: "sMemory ` set (fuse_namespaces s perNS) \<subseteq> sMemory ` (\<Union>l \<in> set perNS. set l)"
  using FuseScores_memories [of perNS] Fuse_memories [of perNS]
  by (auto simp: fuse_namespaces_def length_Suc_conv)

definition legs_memories :: "(scopeEntry \<times> leg_result) list \<Rightarrow> memory set" where
  "legs_memories legs = (\<Union>(e, r) \<in> set legs. sMemory ` (set (fst (leg_hits r)) \<union> set (snd (leg_hits r))))"

lemma gateSemantic_legs:
  "(\<Union>l \<in> set (gateSemantic hits g). set (fst l) \<union> set (snd l)) \<subseteq> (\<Union>l \<in> set hits. set (fst l) \<union> set (snd l))"
  by (auto simp: gateSemantic_def gate_namespace_def)

lemma recall_candidates_memories: "sMemory ` set (recall_candidates s q v legs) \<subseteq> legs_memories legs"
proof -
  let ?hits = "map (\<lambda>(e, r). leg_hits r) legs"
  let ?gated = "if v \<noteq> None then gateSemantic ?hits (resolveSemanticFloor s q) else ?hits"
  have "sMemory ` set (recall_candidates s q v legs) \<subseteq> sMemory ` set (fuse_namespaces s (map (fuseLegs s) ?gated))"
    unfolding recall_candidates_def Let_def by (rule image_mono [OF applyRecallScoreFloor_subset])
  also have "\<dots> \<subseteq> sMemory ` (\<Union>l \<in> set (map (fuseLegs s) ?gated). set l)" by (rule fuse_namespaces_memories)
  also have "\<dots> \<subseteq> sMemory ` (\<Union>l \<in> set ?gated. set (fst l) \<union> set (snd l))"
    using fuseLegs_memories [of s] by (simp add: image_UN) (meson UN_mono subset_refl)
  also have "\<dots> \<subseteq> sMemory ` (\<Union>l \<in> set ?hits. set (fst l) \<union> set (snd l))"
    using gateSemantic_legs by (cases v) (simp_all only: simp_thms if_True if_False option.distinct image_mono order_refl)
  also have "\<dots> = legs_memories legs" by (force simp: legs_memories_def image_UN case_prod_unfold)
  finally show ?thesis .
qed

lemma Rerank_memories: "mset (map sMemory (Rerank cfg fused now)) = mset (map sMemory fused)"
  unfolding Rerank_def using RerankWith_perm by simp

lemma rank_candidates_memories: "mset (map sMemory (rank_candidates s now q fused)) \<subseteq># mset (map sMemory fused)"
proof -
  define ranked where "ranked = (if 0 < temporalBoost s \<and> temporalAnchor s \<noteq> None
      then RerankTemporal (scoring s) fused (rQuery q) now DefaultRerankWeights (temporalAnchor s) (temporalBoost s)
      else Rerank (scoring s) fused now)"
  have r: "mset (map sMemory ranked) = mset (map sMemory fused)"
    by (simp add: ranked_def RerankTemporal_memories Rerank_memories del: mset_map)
  define moved where "moved = reserveDurableTiers ranked (clampRecallLimit (rLimit q)) (resolveSemanticReserve s q)
      (reservePromoteRatio s) (reserveTopAnchor s) (reserveGatePercentile s)"
  have m: "mset (map sMemory moved) = mset (map sMemory fused)"
    using r by (simp add: moved_def reserveDurableTiers_mset)
  have "rank_candidates s now q fused = applyTurnEchoGuard (resolveTurnEchoWindow s q) now moved"
    by (simp add: rank_candidates_def Let_def ranked_def moved_def)
  moreover have "mset (map sMemory (applyTurnEchoGuard w now moved)) \<subseteq># mset (map sMemory moved)" for w
    by (simp add: applyTurnEchoGuard_def image_mset_subseteq_mono multiset_filter_subset)
  ultimately show ?thesis using m by metis
qed

lemma take_order_set: "set (take_order order byID) \<subseteq> ran byID"
proof (induction order byID rule: take_order.induct)
  case (2 i order byID)
  have "ran (byID(i := None)) \<subseteq> ran byID" by (auto simp: ran_def split: if_splits)
  note less = this
  show ?case
  proof (cases "byID i")
    case None
    then show ?thesis using 2 by simp
  next
    case (Some r)
    have "set (take_order order (byID(i := None))) \<subseteq> ran byID" using "2.IH"(2) [OF Some] less by (rule order_trans)
    moreover have "r \<in> ran byID" using Some by (rule ranI)
    moreover have "take_order (i # order) byID = r # take_order order (byID(i := None))" using Some by simp
    ultimately show ?thesis by simp
  qed
qed simp

lemma map_of_pool: "ran (map_of (rev (map (\<lambda>r. (hit_id r, r)) pool))) \<subseteq> set pool"
  by (auto simp: ran_def dest!: map_of_SomeD)

lemma rerank_pool_set: "set (rerank_pool s ranked k) \<subseteq> set ranked"
proof -
  define out where "out = reserveImportantPool (Dedup ranked 0) k (max (rerankPool s) k) (importancePoolReserve s)
      (importancePoolMin s) (reservePromoteRatio s) (reserveTopAnchor s)"
  have "mset out = mset (Dedup ranked 0)" unfolding out_def by (rule reserveImportantPool_ok(1))
  then have "set out \<subseteq> set ranked"
    using dedup_loop_subseq by (metis Dedup_def mset_eq_setD set_nths_subset subseq_conv_nths)
  then show ?thesis unfolding rerank_pool_def Let_def out_def [symmetric] by (auto dest: in_set_takeD)
qed

lemma Dedup_set: "set (Dedup ranked k) \<subseteq> set ranked"
  using dedup_loop_subseq by (metis Dedup_def set_nths_subset subseq_conv_nths)

lemma finalizeRecall_set: "set (finalizeRecall s t q ranked k) \<subseteq> set ranked"
proof -
  have "set (take_order order (map_of (rev (map (\<lambda>r. (hit_id r, r)) (rerank_pool s ranked k))))) \<subseteq> set ranked" for order
    using take_order_set map_of_pool rerank_pool_set by (meson order_trans)
  then show ?thesis
    unfolding finalizeRecall_def Let_def
    using Dedup_set by (auto split: option.split if_splits dest!: in_set_takeD)
qed

lemma finalize_candidates_set: "set (finalize_candidates s t q ranked) \<subseteq> set ranked"
  using Dedup_set finalizeRecall_set by (simp add: finalize_candidates_def Let_def)

text \<open>The way to a result.\<close>

abbreviation recall_legs ::
    "service \<Rightarrow> recall_store \<Rightarrow> recall_env \<Rightarrow> RecallInput \<Rightarrow> vec option \<Rightarrow> scopeEntry list \<Rightarrow> (scopeEntry \<times> leg_result) list" where
  "recall_legs s st env q v entries \<equiv>
     map (\<lambda>e. (e, search_legs s st (rQuery q) v (recall_filter (re_now env) q)
                    (max (clampRecallLimit (rLimit q) * poolFactor s) (poolFloor s)) e)) entries"

abbreviation final_hits ::
    "service \<Rightarrow> recall_env \<Rightarrow> RecallInput \<Rightarrow> vec option \<Rightarrow> (scopeEntry \<times> leg_result) list \<Rightarrow> Scored list" where
  "final_hits s env q v legs \<equiv>
     finalize_candidates s (re_in_time env) q (rank_candidates s (re_now env) q (recall_candidates s q v legs))"

lemma recall_single_Inr:
  assumes "recall_single s st env q = Inr out"
  obtains flags v degraded entries dropped where "recall_checks q = Inr flags" "embed_query s q = Inr (v, degraded)"
    "resolveReadSet (cascades s) (rs_reads st) (recall_scope flags q) = Inr entries"
    "reportRecallLegs (recall_legs s st env q v entries) = Inr dropped"
    "out = (serve s st env q (final_hits s env q v (recall_legs s st env q v entries)))
        \<lparr> ro_dropped := dropped, ro_degraded := degraded, ro_readSet := toReadSetEntries entries \<rparr>"
proof -
  obtain flags where f: "recall_checks q = Inr flags"
    using assms unfolding recall_single_def by (cases "recall_checks q") simp_all
  obtain v degraded where v: "embed_query s q = Inr (v, degraded)"
    using assms f unfolding recall_single_def by (cases "embed_query s q") auto
  obtain entries where e: "resolveReadSet (cascades s) (rs_reads st) (recall_scope flags q) = Inr entries"
    using assms f v unfolding recall_single_def
    by (cases "resolveReadSet (cascades s) (rs_reads st) (recall_scope flags q)") simp_all
  obtain dropped where d: "reportRecallLegs (recall_legs s st env q v entries) = Inr dropped"
    using assms f v e unfolding recall_single_def
    by (cases "reportRecallLegs (recall_legs s st env q v entries)") (simp_all add: Let_def)
  show thesis using that [OF f v e d] assms f v e d unfolding recall_single_def by (simp add: Let_def)
qed

section \<open>What the store promises\<close>

text \<open>
  \<open>found d ns f m\<close>: the store \<open>d\<close> holds the memory \<open>m\<close> in the namespace \<open>ns\<close> and the filter \<open>f\<close>
  lets it through. The laws of the searches: they return only such memories; \<open>Get\<close> returns
  the memory of the given id.
\<close>

locale recall_source =
  fixes view :: "'d \<Rightarrow> recall_store" and ok :: "'d \<Rightarrow> bool"
    and found :: "'d \<Rightarrow> string \<Rightarrow> Filter \<Rightarrow> memory \<Rightarrow> bool"
    and held :: "'d \<Rightarrow> string \<Rightarrow> memory \<Rightarrow> bool"
  assumes vector: "ok d \<Longrightarrow> rs_vector (view d) ns v f k = Inr hits \<Longrightarrow> h \<in> set hits \<Longrightarrow> found d ns f (sMemory h)"
    and keyword: "ok d \<Longrightarrow> rs_keyword (view d) ns query f k = Inr hits \<Longrightarrow> h \<in> set hits \<Longrightarrow> found d ns f (sMemory h)"
    and chunk: "ok d \<Longrightarrow> rs_chunk (view d) = Some search \<Longrightarrow> search ns v f k' = Inr hits \<Longrightarrow> h \<in> set hits
      \<Longrightarrow> found d ns f (sMemory h)"
    and get: "rs_get (view d) ns i = Inr m \<Longrightarrow> held d ns m \<and> ID m = i"
begin

lemma vectorLeg_found:
  assumes "ok d" and "vectorLeg s (view d) ns v f k = Inr hits" and "h \<in> set hits"
  shows "found d ns f (sMemory h)"
proof -
  obtain docs where docs: "rs_vector (view d) ns v f (nat k) = Inr docs"
    using assms(2) by (auto simp: vectorLeg_def split: sum.splits)
  consider "hits = docs"
    | search chunks where "rs_chunk (view d) = Some search" "search ns v f k = Inr chunks"
        "hits = mergeIfChunked docs chunks (chunkScoreWeight s) k"
    using assms(2) docs by (auto simp: vectorLeg_def split: option.splits sum.splits if_splits)
  then show ?thesis
  proof cases
    case 1
    then show ?thesis using vector [OF assms(1) docs] assms(3) by simp
  next
    case 2
    have "sMemory h \<in> sMemory ` (set docs \<union> set chunks)"
      using mergeIfChunked_memories assms(3) 2(3) by blast
    then show ?thesis using vector [OF assms(1) docs] chunk [OF assms(1) 2(1,2)] by auto
  qed
qed

lemma search_legs_found:
  assumes "ok d" and "m \<in> sMemory ` (set (fst (leg_hits (search_legs s (view d) query v f k e))) \<union> set (snd (leg_hits (search_legs s (view d) query v f k e))))"
  shows "found d (leg_ns e) (leg_filter f e) m"
proof -
  obtain h where h: "m = sMemory h" "h \<in> set (fst (leg_hits (search_legs s (view d) query v f k e)))
      \<or> h \<in> set (snd (leg_hits (search_legs s (view d) query v f k e)))" using assms(2) by auto
  from h(2) show ?thesis
  proof
    assume "h \<in> set (fst (leg_hits (search_legs s (view d) query v f k e)))"
    then obtain q where q: "v = Some q" "h \<in> set (case vectorLeg s (view d) (leg_ns e) q (leg_filter f e) k of Inl _ \<Rightarrow> [] | Inr hits \<Rightarrow> hits)"
      by (cases v) (simp_all add: leg_hits_def search_legs_def)
    then obtain hits where "vectorLeg s (view d) (leg_ns e) q (leg_filter f e) k = Inr hits" "h \<in> set hits"
      by (cases "vectorLeg s (view d) (leg_ns e) q (leg_filter f e) k") simp_all
    then show ?thesis using vectorLeg_found [OF assms(1)] h(1) by blast
  next
    assume "h \<in> set (snd (leg_hits (search_legs s (view d) query v f k e)))"
    then obtain hits where "rs_keyword (view d) (leg_ns e) query (leg_filter f e) (nat k) = Inr hits" "h \<in> set hits"
      by (cases "rs_keyword (view d) (leg_ns e) query (leg_filter f e) (nat k)") (simp_all add: leg_hits_def search_legs_def)
    then show ?thesis using keyword [OF assms(1)] h(1) by blast
  qed
qed

text \<open>A direct hit comes from a leg of the read set; a linked one hangs on a direct hit.\<close>

definition served :: "'d \<Rightarrow> Filter \<Rightarrow> scopeEntry list \<Rightarrow> memory \<Rightarrow> bool" where
  "served d f entries m \<longleftrightarrow> (\<exists>e \<in> set entries. found d (leg_ns e) (leg_filter f e) m)"

lemma recall_single_served:
  assumes "ok d" and "recall_single s (view d) env q = Inr out" and sort: "\<And>xs. mset (re_sort env xs) = mset xs"
  shows "\<exists>flags entries. recall_checks q = Inr flags
    \<and> resolveReadSet (cascades s) (rs_reads (view d)) (recall_scope flags q) = Inr entries
    \<and> ro_readSet out = toReadSetEntries entries
    \<and> (\<forall>r \<in> set (ro_results out).
         served d (recall_filter (re_now env) q) entries (sMemory r)
         \<or> IncludeLinked q \<and> SupersededBy (sMemory r) = None
           \<and> (\<exists>m. served d (recall_filter (re_now env) q) entries m
                \<and> ID (sMemory r) \<in> set (LinkedMemoryIDs m) \<and> held d (Namespace m) (sMemory r)))"
proof -
  obtain flags v degraded entries dropped where e: "recall_checks q = Inr flags"
      "resolveReadSet (cascades s) (rs_reads (view d)) (recall_scope flags q) = Inr entries"
    and o: "out = (serve s (view d) env q (final_hits s env q v (recall_legs s (view d) env q v entries)))
        \<lparr> ro_dropped := dropped, ro_degraded := degraded, ro_readSet := toReadSetEntries entries \<rparr>"
    by (rule recall_single_Inr [OF assms(2)]) (rule that)
  define f where "f = recall_filter (re_now env) q"
  define legs where "legs = recall_legs s (view d) env q v entries"
  define final where "final = final_hits s env q v legs"
  note out = o [folded legs_def, folded final_def]
  have final: "served d f entries (sMemory r)" if "r \<in> set final" for r
  proof -
    have "sMemory ` set final \<subseteq> sMemory ` set (rank_candidates s (re_now env) q (recall_candidates s q v legs))"
      unfolding final_def by (rule image_mono [OF finalize_candidates_set])
    also have "\<dots> \<subseteq> sMemory ` set (recall_candidates s q v legs)"
      using mset_subset_eqD [OF rank_candidates_memories] by (metis image_set set_mset_mset subsetI)
    also have "\<dots> \<subseteq> legs_memories legs" by (rule recall_candidates_memories)
    finally have "sMemory r \<in> legs_memories legs" using that by blast
    then obtain e r' where er: "(e, r') \<in> set legs" "sMemory r \<in> sMemory ` (set (fst (leg_hits r')) \<union> set (snd (leg_hits r')))"
      unfolding legs_memories_def by blast
    then have "e \<in> set entries" "r' = search_legs s (view d) (rQuery q) v f (max (clampRecallLimit (rLimit q) * poolFactor s) (poolFloor s)) e"
      unfolding legs_def f_def by auto
    then show ?thesis using search_legs_found [OF assms(1)] er(2) unfolding served_def by blast
  qed
  define kept where "kept = fst (applyMinRankScore final (MinRankScore q))"
  have kept: "set kept \<subseteq> set final" by (auto simp: kept_def applyMinRankScore_def)
  have results: "ro_results out = fst (applyRecallBudget (MaxTokens q) (EstimateConcise q)
      (maybeExpandLinked (IncludeLinked q) (rs_get (view d)) (re_sort env) kept (clampRecallLimit (rLimit q))))"
    by (simp add: out serve_def kept_def case_prod_unfold Let_def)
  have "served d f entries (sMemory r) \<or> IncludeLinked q \<and> SupersededBy (sMemory r) = None
      \<and> (\<exists>m. served d f entries m \<and> ID (sMemory r) \<in> set (LinkedMemoryIDs m) \<and> held d (Namespace m) (sMemory r))"
    if "r \<in> set (ro_results out)" for r
  proof -
    have "r \<in> set (maybeExpandLinked (IncludeLinked q) (rs_get (view d)) (re_sort env) kept (clampRecallLimit (rLimit q)))"
      using that applyRecallBudget_prefix(1) unfolding results by (metis in_set_takeD)
    then have "r \<in> set kept \<or> IncludeLinked q \<and> linked_from (rs_get (view d)) kept r"
      using expandLinked_set [OF sort] by (auto simp: maybeExpandLinked_def split: if_splits)
    then show ?thesis
    proof
      assume "r \<in> set kept"
      then show ?thesis using kept final by blast
    next
      assume l: "IncludeLinked q \<and> linked_from (rs_get (view d)) kept r"
      then obtain p lid where p: "p \<in> set kept" "lid \<in> set (LinkedMemoryIDs (sMemory p))"
          "rs_get (view d) (Namespace (sMemory p)) lid = Inr (sMemory r)" "SupersededBy (sMemory r) = None"
        unfolding linked_from_def by blast
      then show ?thesis using get [OF p(3)] final kept l by blast
    qed
  qed
  then show ?thesis using e out by (intro exI [of _ flags] exI [of _ entries]) (simp add: f_def)
qed

end

section \<open>The SQLite driver as a source\<close>

definition sqlite_recall :: "engine \<Rightarrow> Time \<Rightarrow> read_store \<Rightarrow> db \<Rightarrow> recall_store" where
  "sqlite_recall eng wall reads d =
     \<lparr> rs_reads = reads,
       rs_vector = (\<lambda>ns v f k. VectorSearch eng wall ns v f k d),
       rs_keyword = (\<lambda>ns query f k. Inr (KeywordSearch eng wall ns query f k d)),
       rs_chunk = Some (\<lambda>ns v f k. ChunkVectorSearch eng wall ns v f k d),
       rs_get = (\<lambda>ns i. Get ns i d) \<rparr>"

definition found_row :: "engine \<Rightarrow> Time \<Rightarrow> db \<Rightarrow> string \<Rightarrow> Filter \<Rightarrow> memory \<Rightarrow> bool" where
  "found_row eng wall d ns f m \<longleftrightarrow>
     (\<exists>r \<in> set (memories d). m = scanRow r \<and> c_namespace r = ns \<and> filterClause eng wall f r)"

definition held_row :: "db \<Rightarrow> string \<Rightarrow> memory \<Rightarrow> bool" where
  "held_row d ns m \<longleftrightarrow> (\<exists>r \<in> set (memories d). m = scanRow r \<and> c_namespace r = ns)"

interpretation sq: recall_source "sqlite_recall eng wall reads" db_ok "found_row eng wall" held_row
  for eng wall reads
proof unfold_locales
  fix d ns v f k hits h
  assume "db_ok d" "rs_vector (sqlite_recall eng wall reads d) ns v f k = Inr hits" "h \<in> set hits"
  then show "found_row eng wall d ns f (sMemory h)"
    using VectorSearch_sound unfolding sqlite_recall_def found_row_def by fastforce
next
  fix d ns query f k hits h
  assume "db_ok d" "rs_keyword (sqlite_recall eng wall reads d) ns query f k = Inr hits" "h \<in> set hits"
  then show "found_row eng wall d ns f (sMemory h)"
    using KeywordSearch_sound(1) unfolding sqlite_recall_def found_row_def by fastforce
next
  fix d search ns v f k' hits h
  assume "db_ok d" "rs_chunk (sqlite_recall eng wall reads d) = Some search" "search ns v f k' = Inr hits" "h \<in> set hits"
  then show "found_row eng wall d ns f (sMemory h)"
    using ChunkVectorSearch_sound unfolding sqlite_recall_def found_row_def by fastforce
next
  fix d ns i m
  assume "rs_get (sqlite_recall eng wall reads d) ns i = Inr m"
  then show "held_row d ns m \<and> ID m = i"
    by (auto simp: sqlite_recall_def Get_def held_row_def row_at_def scanRow_key split: option.splits dest!: find_Some_set)
qed

section \<open>How many results, and no repetition\<close>

lemma dedup_loop_length: "0 < limit \<Longrightarrow> int n < limit \<Longrightarrow> int (length (dedup_loop seen n rs limit)) \<le> limit - int n"
proof (induction seen n rs limit rule: dedup_loop.induct)
  case (2 seen n r rs limit)
  then show ?case by (auto simp: Let_def)
qed simp

lemma Dedup_length: "0 < k \<Longrightarrow> int (length (Dedup ranked k)) \<le> k"
  using dedup_loop_length [of k 0] by (simp add: Dedup_def)

lemma finalize_length: "int (length (finalize_candidates s t q ranked)) \<le> clampRecallLimit (rLimit q)"
proof -
  have k: "0 < clampRecallLimit (rLimit q)" using clampRecallLimit_range(1) by (metis zero_less_one order.strict_trans2)
  then have "int (length (finalizeRecall s t query ranked (clampRecallLimit (rLimit q)))) \<le> clampRecallLimit (rLimit q)" for query
    using Dedup_length [OF k, of ranked] by (auto simp: finalizeRecall_def Let_def split: option.split)
  then show ?thesis using Dedup_length [OF k] by (simp add: finalize_candidates_def Let_def)
qed

lemma expandLinked_length:
  "0 < k \<Longrightarrow> int (length results) \<le> k \<Longrightarrow> int (length (maybeExpandLinked b get sort_desc results k)) \<le> k"
  by (auto simp: maybeExpandLinked_def expandLinked_def Let_def)

lemma recall_single_length:
  assumes "recall_single s st env q = Inr out"
  shows "int (length (ro_results out)) \<le> clampRecallLimit (rLimit q)"
proof -
  let ?k = "clampRecallLimit (rLimit q)"
  obtain final where out: "ro_results out = ro_results (serve s st env q final)" "int (length final) \<le> ?k"
    by (rule recall_single_Inr [OF assms]) (use finalize_length in simp)
  define kept where "kept = fst (applyMinRankScore final (MinRankScore q))"
  have "length kept \<le> length final" by (simp add: kept_def applyMinRankScore_def)
  then have kept: "int (length kept) \<le> ?k" using out(2) by simp
  have k: "0 < ?k" using clampRecallLimit_range(1) by (metis zero_less_one order.strict_trans2)
  define expanded where "expanded = maybeExpandLinked (IncludeLinked q) (rs_get st) (re_sort env) kept ?k"
  have "ro_results out = fst (applyRecallBudget (MaxTokens q) (EstimateConcise q) expanded)"
    by (simp add: out(1) serve_def kept_def expanded_def case_prod_unfold Let_def)
  then have "length (ro_results out) \<le> length expanded"
    using applyRecallBudget_prefix(2) by simp
  then show ?thesis using expandLinked_length [OF k kept] unfolding expanded_def by (meson of_nat_le_iff order_trans)
qed

text \<open>The pool has distinct contents, and the reranker's order cannot bring one back twice.\<close>

lemma take_order_ids:
  "(\<And>i r. byID i = Some r \<Longrightarrow> hit_id r = i) \<Longrightarrow>
   distinct (map hit_id (take_order order byID)) \<and> hit_id ` set (take_order order byID) \<subseteq> dom byID"
proof (induction order byID rule: take_order.induct)
  case (2 i order byID)
  show ?case
  proof (cases "byID i")
    case None
    then show ?thesis using 2 by simp
  next
    case (Some r)
    have p: "hit_id r' = j" if "(byID(i := None)) j = Some r'" for j r'
      using that 2(3) by (simp split: if_splits)
    have "distinct (map hit_id (take_order order (byID(i := None))))"
      and "hit_id ` set (take_order order (byID(i := None))) \<subseteq> dom (byID(i := None))"
      using "2.IH"(2) [OF Some p] by blast+
    moreover have "hit_id r = i" using 2(3) [OF Some] .
    ultimately show ?thesis using Some by auto
  qed
qed simp

lemma rerank_pool_distinct: "distinct (map content_key (rerank_pool s ranked k))"
proof -
  define out where "out = reserveImportantPool (Dedup ranked 0) k (max (rerankPool s) k) (importancePoolReserve s)
      (importancePoolMin s) (reservePromoteRatio s) (reserveTopAnchor s)"
  have "mset out = mset (Dedup ranked 0)" unfolding out_def by (rule reserveImportantPool_ok(1))
  then have "mset (map content_key out) = mset (map content_key (Dedup ranked 0))" by simp
  moreover have "distinct (map content_key (Dedup ranked 0))" by (simp add: Dedup_def dedup_loop_distinct)
  ultimately have "distinct (map content_key out)" using mset_eq_imp_distinct_iff by blast
  then show ?thesis
    unfolding rerank_pool_def Let_def out_def [symmetric] by (simp add: take_map [symmetric] del: map_map)
qed

lemma take_order_distinct:
  assumes "distinct (map content_key pool)"
  shows "distinct (map content_key (take_order order (map_of (rev (map (\<lambda>r. (hit_id r, r)) pool)))))"
proof -
  define byID where "byID = map_of (rev (map (\<lambda>r. (hit_id r, r)) pool))"
  have "hit_id r = i" if "byID i = Some r" for i r
    using that unfolding byID_def by (auto dest!: map_of_SomeD)
  then have "distinct (take_order order byID)" using take_order_ids [of byID] by (simp add: distinct_map)
  moreover have "set (take_order order byID) \<subseteq> set pool"
    unfolding byID_def using take_order_set map_of_pool by (rule order_trans)
  moreover have "inj_on content_key (set pool)" using assms by (simp add: distinct_map)
  ultimately show ?thesis unfolding byID_def [symmetric] by (simp add: distinct_map inj_on_subset)
qed

lemma finalize_distinct: "distinct (map content_key (finalize_candidates s t q ranked))"
proof -
  have d: "distinct (map content_key (Dedup ranked k))" for k by (simp add: Dedup_def dedup_loop_distinct)
  have "distinct (map content_key (finalizeRecall s t query ranked k))" for query k
  proof -
    have "distinct (map content_key (take n (take_order order (map_of (rev (map (\<lambda>r. (hit_id r, r)) (rerank_pool s ranked k)))))))" for n order
      using take_order_distinct [OF rerank_pool_distinct] by (simp add: take_map [symmetric] del: map_map)
    moreover note take_order_distinct [OF rerank_pool_distinct]
    ultimately show ?thesis using d by (simp add: finalizeRecall_def Let_def split: option.split)
  qed
  then show ?thesis using d by (simp add: finalize_candidates_def Let_def)
qed

lemma recall_single_distinct:
  assumes "recall_single s st env q = Inr out" and "\<not> IncludeLinked q"
  shows "distinct (map content_key (ro_results out))"
proof -
  obtain final where out: "ro_results out = ro_results (serve s st env q final)" "distinct (map content_key final)"
    by (rule recall_single_Inr [OF assms(1)]) (use finalize_distinct in simp)
  define kept where "kept = fst (applyMinRankScore final (MinRankScore q))"
  have kept: "distinct (map content_key kept)" using out(2) by (simp add: kept_def applyMinRankScore_def distinct_map_filter)
  have "ro_results out = fst (applyRecallBudget (MaxTokens q) (EstimateConcise q) kept)"
    using assms(2) by (simp add: out(1) serve_def kept_def case_prod_unfold Let_def maybeExpandLinked_def)
  then obtain n where "ro_results out = take n kept" using applyRecallBudget_prefix(1) by metis
  then show ?thesis using kept by (simp add: take_map [symmetric] del: map_map)
qed

section \<open>The variants of a query\<close>

lemma collect_results_Some: "collect_results rs = Some outs \<Longrightarrow> rs = map Inr outs"
  by (induction rs arbitrary: outs rule: collect_results.induct) (auto split: option.splits)

lemma recall_checks_variant:
  "query \<noteq> '''' \<Longrightarrow> rQuery q \<noteq> '''' \<Longrightarrow> recall_checks (variant q query) = recall_checks q"
  by (cases "parseScope (rScope q)") (simp_all add: recall_checks_def variant_def)

lemma variant_same [simp]:
  "recall_scope flags (variant q query) = recall_scope flags q"
  "recall_filter now (variant q query) = recall_filter now q"
  "IncludeLinked (variant q query) = IncludeLinked q" "rQuery (variant q query) = query"
  by (simp_all add: variant_def recall_scope_def recall_filter_def recallExcludeMetadata_def)

lemma recall_checks_query: "recall_checks q = Inr flags \<Longrightarrow> rQuery q \<noteq> ''''"
  by (auto simp: recall_checks_def split: if_splits)

lemma Recall_cases:
  assumes "Recall s st env q = Inr out"
  obtains (single) "recall_single s st env q = Inr out"
    | (variants) queries outs where "'''' \<notin> set queries"
        "map (\<lambda>query. recall_single s st env (variant q query)) queries = map Inr outs" "queries \<noteq> []"
        "ro_results out = fst (applyRecallBudget (MaxTokens q) (EstimateConcise q) (Fuse (map ro_results outs) (rLimit q) DefaultRRFK))"
proof -
  obtain flags where f: "recall_checks q = Inr flags"
    using assms by (cases "recall_checks q") (simp_all add: Recall_def)
  show thesis
  proof (cases "tryQueryRewrite s st env q")
    case None
    then show ?thesis using assms f single by (simp add: Recall_def)
  next
    case (Some outs)
    then obtain llm where r: "collect_results (map (\<lambda>query. recall_single s st env (variant q query)) (expandQueries llm (rQuery q))) = Some outs"
      by (auto simp: tryQueryRewrite_def Let_def split: if_splits option.splits)
    have "ro_results out = fst (applyRecallBudget (MaxTokens q) (EstimateConcise q) (Fuse (map ro_results outs) (rLimit q) DefaultRRFK))"
      using assms f Some by (auto simp: Recall_def Let_def case_prod_unfold)
    moreover have "expandQueries llm (rQuery q) \<noteq> []" using expandQueries_length(1) by (metis length_0_conv not_one_le_zero)
    ultimately show ?thesis
      using variants expandQueries_nonempty [OF recall_checks_query [OF f]] collect_results_Some [OF r] by blast
  qed
qed

lemma Fuse_hit: "r \<in> set (Fuse legs k c) \<Longrightarrow> \<exists>l \<in> set legs. \<exists>r' \<in> set l. sMemory r = sMemory r'"
  using Fuse_memories [of legs k c] by blast

context recall_source
begin

lemma Recall_served:
  assumes ok: "ok d" and r: "Recall s (view d) env q = Inr out" and sort: "\<And>xs. mset (re_sort env xs) = mset xs"
  shows "\<exists>flags entries. recall_checks q = Inr flags
    \<and> resolveReadSet (cascades s) (rs_reads (view d)) (recall_scope flags q) = Inr entries
    \<and> (\<forall>r \<in> set (ro_results out).
         served d (recall_filter (re_now env) q) entries (sMemory r)
         \<or> IncludeLinked q \<and> SupersededBy (sMemory r) = None
           \<and> (\<exists>m. served d (recall_filter (re_now env) q) entries m
                \<and> ID (sMemory r) \<in> set (LinkedMemoryIDs m) \<and> held d (Namespace m) (sMemory r)))"
proof (cases rule: Recall_cases [OF r])
  case 1
  show ?thesis using recall_single_served [OF ok 1 sort] by blast
next
  case (2 queries outs)
  obtain flags where flags: "recall_checks q = Inr flags" using r by (cases "recall_checks q") (simp_all add: Recall_def)
  have qq: "rQuery q \<noteq> ''''" using flags by (rule recall_checks_query)
  let ?good = "\<lambda>entries m. served d (recall_filter (re_now env) q) entries m
         \<or> IncludeLinked q \<and> SupersededBy m = None
           \<and> (\<exists>m'. served d (recall_filter (re_now env) q) entries m'
                \<and> ID m \<in> set (LinkedMemoryIDs m') \<and> held d (Namespace m') m)"
  have one: "\<exists>entries. resolveReadSet (cascades s) (rs_reads (view d)) (recall_scope flags q) = Inr entries
      \<and> (\<forall>r \<in> set (ro_results o'). ?good entries (sMemory r))" if o': "o' \<in> set outs" for o'
  proof -
    have "Inr o' \<in> set (map (\<lambda>query. recall_single s (view d) env (variant q query)) queries)"
      unfolding 2(2) using o' by simp
    then obtain query where q: "query \<in> set queries" "recall_single s (view d) env (variant q query) = Inr o'" by auto
    have "recall_checks (variant q query) = recall_checks q" using q(1) 2(1) qq by (intro recall_checks_variant) auto
    then show ?thesis using recall_single_served [OF ok q(2) sort] flags by auto
  qed
  obtain o1 where "o1 \<in> set outs" using 2(2,3) by (cases outs) auto
  then obtain entries where e: "resolveReadSet (cascades s) (rs_reads (view d)) (recall_scope flags q) = Inr entries"
    using one by blast
  have "?good entries (sMemory r)" if r: "r \<in> set (ro_results out)" for r
  proof -
    have "r \<in> set (Fuse (map ro_results outs) (rLimit q) DefaultRRFK)"
      using r applyRecallBudget_prefix(1) unfolding 2(4) by (metis in_set_takeD)
    then obtain o' r' where o': "o' \<in> set outs" "r' \<in> set (ro_results o')" "sMemory r = sMemory r'"
      using Fuse_hit by fastforce
    then show ?thesis using one [OF o'(1)] e by auto
  qed
  then show ?thesis using flags e by blast
qed

end

section \<open>When a recall fails\<close>

lemma reportRecallLegs_Inr:
  "list_all (\<lambda>(e, v, k). \<exists>hits. k = Inr hits) legs \<Longrightarrow> reportRecallLegs legs = Inr []"
  by (induction legs rule: reportRecallLegs.induct) auto

definition recall_fault :: "service \<Rightarrow> read_store \<Rightarrow> RecallInput \<Rightarrow> recall_error option" where
  "recall_fault s reads q =
     (case recall_checks q of
        Inl e \<Rightarrow> Some e
      | Inr flags \<Rightarrow>
          (case embedder s (queryPrefix s @ rQuery q) of
             Inl x \<Rightarrow>
               if 0 < recallEmbedTimeout s
               then (case resolveReadSet (cascades s) reads (recall_scope flags q) of Inl er \<Rightarrow> Some (ReadSetFailed er) | Inr _ \<Rightarrow> None)
               else Some (QueryEmbedFailed x)
           | Inr _ \<Rightarrow> (case resolveReadSet (cascades s) reads (recall_scope flags q) of Inl er \<Rightarrow> Some (ReadSetFailed er) | Inr _ \<Rightarrow> None)))"

lemma recall_single_fault:
  "recall_single s (sqlite_recall eng wall reads d) env q = Inl e \<longleftrightarrow> recall_fault s reads q = Some e"
proof -
  have k: "reportRecallLegs (recall_legs s (sqlite_recall eng wall reads d) env q v entries) = Inr []" for v entries
    by (rule reportRecallLegs_Inr) (simp add: list_all_iff search_legs_def sqlite_recall_def)
  have rs: "rs_reads (sqlite_recall eng wall reads d) = reads" by (simp add: sqlite_recall_def)
  show ?thesis
    unfolding recall_single_def recall_fault_def embed_query_def rs
    by (auto simp: Let_def k split: sum.split)
qed

lemma collect_results_fails: "Inl e \<in> set rs \<Longrightarrow> collect_results rs = None"
  by (induction rs rule: collect_results.induct) auto

lemma expandQueries_first: "query \<in> set (expandQueries llm query)"
  by (auto simp: expandQueries_def split: option.split)

text \<open>The query itself is a variant, so when its own recall fails the rewriting is given up.\<close>

lemma Recall_fault:
  "Recall s (sqlite_recall eng wall reads d) env q = Inl e \<longleftrightarrow> recall_fault s reads q = Some e"
proof (cases "recall_checks q")
  case (Inl x)
  then show ?thesis by (simp add: Recall_def recall_fault_def)
next
  case (Inr flags)
  let ?st = "sqlite_recall eng wall reads d"
  show ?thesis
  proof (cases "tryQueryRewrite s ?st env q")
    case None
    then show ?thesis using Inr recall_single_fault by (simp add: Recall_def)
  next
    case (Some outs)
    then obtain llm where c: "collect_results (map (\<lambda>query. recall_single s ?st env (variant q query)) (expandQueries llm (rQuery q))) = Some outs"
      by (auto simp: tryQueryRewrite_def Let_def split: if_splits option.splits)
    have "recall_single s ?st env (variant q (rQuery q)) \<noteq> Inl x" for x
    proof
      assume "recall_single s ?st env (variant q (rQuery q)) = Inl x"
      then have "Inl x \<in> set (map (\<lambda>query. recall_single s ?st env (variant q query)) (expandQueries llm (rQuery q)))"
        using expandQueries_first by (metis (mono_tags, lifting) image_eqI list.set_map)
      then show False using collect_results_fails c by fastforce
    qed
    then have "recall_fault s reads (variant q (rQuery q)) = None"
      using recall_single_fault by (metis not_Some_eq)
    moreover have "recall_fault s reads (variant q (rQuery q)) = recall_fault s reads q"
      using recall_checks_variant [of "rQuery q" q] recall_checks_query [OF Inr]
      by (simp add: recall_fault_def cong: sum.case_cong if_cong)
    ultimately show ?thesis using Inr Some by (simp add: Recall_def Let_def case_prod_unfold)
  qed
qed

end
