(* ===== verification/Recall_Properties.thy ===== *)
theory Recall_Properties
  imports Recall_Sound Store_Properties
begin

text \<open>
  What a recall promises its caller: where its results come from, how many there are, when it
  fails, and what the reserved slots, the token budget and the concise form may change.
\<close>

section \<open>Results\<close>

text \<open>
  C11: Over a SQLite database every result of a recall, query rewriting included, is a stored
  memory: it stands in a namespace of the read set and passes the request's filter there (its
  tiers, tags and metadata, not expired, not superseded, no handoff note unless asked for), or
  the caller asked for linked memories and it is an unsuperseded memory that such a hit links to.
\<close>

theorem recall_served:
  assumes "db_ok d" and "Recall s (sqlite_recall eng wall reads d) env q = Inr out"
    and "\<And>xs. mset (re_sort env xs) = mset xs"
  shows "\<exists>flags entries. recall_checks q = Inr flags
    \<and> resolveReadSet (cascades s) reads (recall_scope flags q) = Inr entries
    \<and> (\<forall>r \<in> set (ro_results out).
         (\<exists>e \<in> set entries. found_row eng wall d (leg_ns e) (leg_filter (recall_filter (re_now env) q) e) (sMemory r))
         \<or> IncludeLinked q \<and> SupersededBy (sMemory r) = None
           \<and> (\<exists>m. (\<exists>e \<in> set entries. found_row eng wall d (leg_ns e) (leg_filter (recall_filter (re_now env) q) e) m)
                \<and> ID (sMemory r) \<in> set (LinkedMemoryIDs m) \<and> held_row d (Namespace m) (sMemory r)))"
proof -
  have reads: "rs_reads (sqlite_recall eng wall reads d) = reads" by (simp add: sqlite_recall_def)
  show ?thesis
    using sq.Recall_served [OF assms(1,2) assms(3)] unfolding sq.served_def reads .
qed

definition plain_service :: service where
  "plain_service = \<lparr> embedder = (\<lambda>_. Inl DeadlineExceeded), answerer = None, reranker = None, rerankEmptyVerdict = False,
     rerankPrompt = False, rerankPool = 20, importancePoolReserve = 0, importancePoolMin = 1, recallEmbedTimeout = 1,
     recallMinScore = 0, recallMinSemanticScore = 0, recallSemanticReserve = 0, reservePromoteRatio = 0,
     reserveTopAnchor = 0, reserveGatePercentile = 0, chunkEmbed = False, chunkScoreWeight = 1, turnEchoWindow = 0,
     queryPrefix = '''', scoreFusionAlpha = - 1, poolFactor = 4, poolFloor = 20, cascades = True,
     reinforceSkipMarkers = False, temporalBoost = 0, temporalAnchor = None, scoring = \<lparr> StabilityK = 1, AssessedSalienceWeight = 0 \<rparr> \<rparr>"

definition ask_tea :: RecallInput where
  "ask_tea = \<lparr> rNamespace = ''a'', rQuery = ''tea'', NoReinforce = True, rSource = '''', rTiers = [], rLevels = [],
     rTags = [], rMetadata = [], rExcludeMetadata = [], rExcludeIDs = [], IncludeFreshTurns = False, IncludeHandoffs = False,
     QueryRewrite = False, rLimit = 5, rIncludeExpired = False, rIncludeSuperseded = False, rAsOf = 0,
     Subtree = False, rNamespaces = [], rHome = '''', rScope = '''', MinScore = 0, MinRankScore = 0, MinSemanticScore = 0,
     SemanticReserve = 0, IncludeLinked = True, MaxTokens = 0, EstimateConcise = False \<rparr>"

definition tea_env :: recall_env where
  "tea_env = \<lparr> re_now = 5, re_in_time = True, re_sort = SliceStable higher \<rparr>"

definition no_reads :: read_store where
  "no_reads = \<lparr> list_namespaces = Inr [''a''], list_links = None \<rparr>"

text \<open>The engine of the samples matches every text.\<close>

definition tea_engine :: engine where
  "tea_engine = \<lparr> json_text = (\<lambda>_. ''''), distance = (\<lambda>x y. 0), bm25 = (\<lambda>_ _. Some 1) \<rparr>"

lemma ask_tea_checked: "recall_checks ask_tea = Inr (False, False)"
  by code_simp

lemma tea_env_sorts: "mset (re_sort tea_env xs) = mset xs"
  by (simp add: tea_env_def)

lemma ask_tea_answered:
  "\<exists>out. Recall plain_service (sqlite_recall tea_engine 5 no_reads tea_db) tea_env ask_tea = Inr out"
proof -
  have "(case resolveReadSet True no_reads (recall_scope (False, False) ask_tea) of Inr es \<Rightarrow> Some (map leg_ns es) | Inl _ \<Rightarrow> None)
      = Some [''a'']"
    by code_simp
  then have "recall_fault plain_service no_reads ask_tea = None"
    by (auto simp: recall_fault_def ask_tea_checked plain_service_def split: sum.splits)
  then show ?thesis using Recall_fault by (metis option.distinct(1) sum.exhaust)
qed

lemma recall_served_witness:
  "\<exists>out. Recall plain_service (sqlite_recall tea_engine 5 no_reads tea_db) tea_env ask_tea = Inr out
     \<and> (\<exists>entries. resolveReadSet True no_reads (recall_scope (False, False) ask_tea) = Inr entries)"
proof -
  obtain out where out: "Recall plain_service (sqlite_recall tea_engine 5 no_reads tea_db) tea_env ask_tea = Inr out"
    using ask_tea_answered by blast
  have "cascades plain_service = True" by (simp add: plain_service_def)
  then show ?thesis
    using recall_served [OF tea_db_ok out tea_env_sorts] out ask_tea_checked by auto
qed

text \<open>
  A recall without query rewriting returns at most the requested number of results, never
  more than a hundred, and without linked memories no two of them say the same.
\<close>

theorem recall_bounded:
  assumes "Recall s st env q = Inr out" and "\<not> QueryRewrite q"
  shows "int (length (ro_results out)) \<le> clampRecallLimit (rLimit q) \<and> length (ro_results out) \<le> 100
    \<and> (IncludeLinked q \<or> distinct (map (\<lambda>r. NormalizeContent (Content (sMemory r))) (ro_results out)))"
proof -
  have single: "recall_single s st env q = Inr out"
    using assms by (auto simp: Recall_def tryQueryRewrite_def split: sum.splits)
  have "int (length (ro_results out)) \<le> clampRecallLimit (rLimit q)" by (rule recall_single_length [OF single])
  moreover from this have "length (ro_results out) \<le> 100" using clampRecallLimit_range(2) [of "rLimit q"] by linarith
  ultimately show ?thesis using recall_single_distinct [OF single] by blast
qed

lemma recall_bounded_witness:
  "\<exists>out. Recall plain_service (sqlite_recall tea_engine 5 no_reads tea_db) tea_env ask_tea = Inr out
     \<and> length (ro_results out) \<le> 5"
proof -
  obtain out where out: "Recall plain_service (sqlite_recall tea_engine 5 no_reads tea_db) tea_env ask_tea = Inr out"
    using ask_tea_answered by blast
  have "\<not> QueryRewrite ask_tea" "clampRecallLimit (rLimit ask_tea) = 5" by (simp_all add: ask_tea_def clampRecallLimit_def)
  then show ?thesis using recall_bounded [OF out] out by auto
qed

text \<open>
  C12: Over a SQLite database a recall fails exactly when the request is bad, when the read set
  cannot be resolved, or when the query cannot be embedded and no embedding time limit allows
  keyword results alone: neither the vector and chunk searches nor the rewriting of the query,
  the reranker or the links can make it fail.
\<close>

theorem recall_fails_only:
  "Recall s (sqlite_recall eng wall reads d) env q = Inl e \<longleftrightarrow>
     recall_checks q = Inl e
     \<or> (\<exists>flags x. recall_checks q = Inr flags \<and> embedder s (queryPrefix s @ rQuery q) = Inl x
          \<and> recallEmbedTimeout s \<le> 0 \<and> e = QueryEmbedFailed x)
     \<or> (\<exists>flags er. recall_checks q = Inr flags
          \<and> (0 < recallEmbedTimeout s \<or> \<not> isl (embedder s (queryPrefix s @ rQuery q)))
          \<and> resolveReadSet (cascades s) reads (recall_scope flags q) = Inl er \<and> e = ReadSetFailed er)"
  unfolding Recall_fault recall_fault_def by (auto split: sum.splits)

lemma recall_fails_only_witness:
  "Recall plain_service (sqlite_recall tea_engine 5 no_reads tea_db) tea_env (ask_tea\<lparr> rQuery := '''' \<rparr>) = Inl EmptyQuery"
proof -
  have "recall_checks (ask_tea\<lparr> rQuery := '''' \<rparr>) = Inl EmptyQuery" by code_simp
  then show ?thesis using recall_fails_only by blast
qed

section \<open>Reserved slots, budget and concise texts\<close>

text \<open>
  Reserving slots for durable memories only reorders the hits. While the reserve is
  smaller than the window the best hit stays first, a durable hit never loses its place in the
  window, and a hit that enters it is durable and reaches the promotion bar: the percentile
  gate of the window, or the ratio of the hit it displaces and of the best hit.
\<close>

theorem durable_slots:
  assumes "out = reserveDurableTiers ranked limit reserve ratio topAnchor gatePct" and "reserve < limit"
  shows "mset out = mset ranked \<and> hd out = hd ranked
    \<and> mset (filter durable (take (nat limit) ranked)) \<subseteq># mset (take (nat limit) out)
    \<and> list_all (\<lambda>r. r \<in> set (take (nat limit) ranked)
        \<or> durable r \<and> (\<exists>e \<in> set (take (nat limit) ranked). \<not> durable e
            \<and> (if 0 < gatePct then percentile (map Score (take (nat limit) ranked)) gatePct
                else max (ratio * Score e) (topAnchor * Score (hd ranked))) \<le> Score r)) (take (nat limit) out)"
  using reserveDurableTiers_window(2) [of _ limit ranked reserve ratio topAnchor gatePct]
  unfolding list_all_iff assms(1)
  by (intro conjI reserveDurableTiers_mset reserveDurableTiers_hd [OF assms(2)] reserveDurableTiers_window(1) ballI) blast

definition turn_hit :: "string \<Rightarrow> Tier \<Rightarrow> real \<Rightarrow> Scored" where
  "turn_hit i t sc = WithScore ((scored_note i [] sc)\<lparr> sMemory := (sMemory (scored_note i [] sc))\<lparr> mTier := t \<rparr> \<rparr>) sc"

definition mixed_hits :: "Scored list" where
  "mixed_hits = [turn_hit ''w1'' TierWorking 0.9, turn_hit ''w2'' TierWorking 0.8, turn_hit ''s1'' TierSemantic 0.7]"

lemma durable_slots_witness:
  "hd (reserveDurableTiers mixed_hits 2 1 0.5 0 0) = hd mixed_hits
    \<and> map hit_id (reserveDurableTiers mixed_hits 2 1 0.5 0 0) = [''w1'', ''s1'', ''w2'']"
proof
  show "hd (reserveDurableTiers mixed_hits 2 1 0.5 0 0) = hd mixed_hits"
    using durable_slots [OF refl, where ranked = mixed_hits and limit = 2 and reserve = 1 and ratio = "0.5" and topAnchor = 0 and gatePct = 0] by simp
  show "map hit_id (reserveDurableTiers mixed_hits 2 1 0.5 0 0) = [''w1'', ''s1'', ''w2'']"
    by (simp add: mixed_hits_def turn_hit_def scored_note_def reserveDurableTiers_def durable_def promotion_bar_def
        recompose_def upt_rec Let_def)
qed

text \<open>
  The pool of the reranker keeps its best \<open>k\<close> candidates when slots are reserved for
  important ones: it only reorders the candidates, and the pool never gets fewer important ones.
\<close>

theorem important_pool:
  "mset (reserveImportantPool deduped k poolSize reserve minImp ratio topAnchor) = mset deduped
    \<and> take (nat k) (reserveImportantPool deduped k poolSize reserve minImp ratio topAnchor) = take (nat k) deduped
    \<and> length (filter (important minImp) (take (nat poolSize) deduped))
      \<le> length (filter (important minImp) (take (nat poolSize) (reserveImportantPool deduped k poolSize reserve minImp ratio topAnchor)))"
  by (intro conjI reserveImportantPool_ok)

text \<open>
  The token budget cuts the results to a prefix that is never empty, that fits the budget
  unless it is a single result, and that is as long as the budget allows; the number of
  omitted results is the rest.
\<close>

theorem budget_prefix:
  assumes "applyRecallBudget maxTokens concise results = (kept, omitted)" and "results \<noteq> []"
  shows "kept = take (length kept) results \<and> kept \<noteq> [] \<and> length kept + omitted = length results
    \<and> (maxTokens \<le> 0 \<or> length kept = 1
        \<or> int (sum_list (map (\<lambda>r. budgetItemCost (sMemory r) concise SearchMax) kept)) \<le> maxTokens)
    \<and> (omitted = 0 \<or> maxTokens < int (sum_list (map (\<lambda>r. budgetItemCost (sMemory r) concise SearchMax)
        (take (length kept + 1) results))))"
proof -
  note p = applyRecallBudget_prefix [where results = results and maxTokens = maxTokens and concise = concise, unfolded assms(1) fst_conv snd_conv]
  have kept: "kept = take (length kept) results" by (rule p(1))
  have pos: "0 < length kept" using p(4) assms(2) by blast
  have sum: "length kept + omitted = length results" using p(2,3) by linarith
  have fits: "maxTokens \<le> 0 \<or> length kept = 1 \<or> int (total_cost concise kept) \<le> maxTokens"
  proof (cases "0 < maxTokens \<and> 1 < length kept")
    case True
    then have "int (total_cost concise (take (length kept) results)) \<le> maxTokens" using p(5) by blast
    then show ?thesis by (simp only: kept [symmetric] simp_thms)
  next
    case False
    then show ?thesis using pos by arith
  qed
  have tight: "omitted = 0 \<or> maxTokens < int (total_cost concise (take (length kept + 1) results))"
  proof (cases "omitted = 0")
    case False
    then have "length kept < length results" using sum by linarith
    then show ?thesis using p(6) by simp
  qed simp
  show ?thesis using kept pos sum fits tight by (simp add: total_cost_def)
qed

lemma budget_prefix_witness:
  "fst (applyRecallBudget 12 False mixed_hits) \<noteq> []"
proof -
  obtain kept omitted where e: "applyRecallBudget 12 False mixed_hits = (kept, omitted)" by (metis prod.exhaust)
  have "mixed_hits \<noteq> []" by (simp add: mixed_hits_def)
  then show ?thesis using budget_prefix [OF e] e by simp
qed

text \<open>
  The concise form of a text without summary is the text itself when it is short enough;
  otherwise it is a non-empty prefix of at most \<open>mx\<close> characters and an ellipsis, and it ends
  before white space, except when one unbroken token fills the limit.
\<close>

theorem concise_whole_words:
  assumes "Concise content '''' mx = (text, cut_off)" and "0 < mx"
  shows "text = content \<and> \<not> cut_off \<and> length content \<le> mx
    \<or> cut_off \<and> mx < length content
      \<and> (\<exists>n. text = take n content @ ellipsis \<and> 0 < n \<and> n \<le> mx
          \<and> (is_space (content ! n) \<or> n = mx \<and> (\<exists>p. (\<forall>i < p. is_space (content ! i))
                \<and> (\<forall>i \<in> {p..<mx}. \<not> is_space (content ! i)))))"
proof (cases "length content \<le> mx")
  case True
  then show ?thesis using assms(1) by (auto simp: Concise_def)
next
  case False
  then have e: "text = cut content mx @ ellipsis" "cut_off" using assms(1) by (auto simp: Concise_def)
  obtain n where n: "n \<le> mx" "cut content mx = take n content" "0 < n"
      "is_space (content ! n) \<or> n = mx \<and> (\<forall>j < mx. is_space (content ! j) \<longrightarrow> (\<forall>i < j. is_space (content ! i)))"
    using cut_boundary [of mx content] False assms(2) by auto
  have "\<exists>p. (\<forall>i < p. is_space (content ! i)) \<and> (\<forall>i \<in> {p..<mx}. \<not> is_space (content ! i))"
    if all: "\<forall>j < mx. is_space (content ! j) \<longrightarrow> (\<forall>i < j. is_space (content ! i))"
  proof -
    define p where "p = length (takeWhile is_space content)"
    have w: "is_space (content ! i)" if "i < p" for i
      using that unfolding p_def by (metis nth_mem set_takeWhileD takeWhile_nth)
    have "\<not> is_space (content ! i)" if i: "i \<in> {p..<mx}" for i
    proof
      assume s: "is_space (content ! i)"
      have "p < length content" using i False by auto
      then have np: "\<not> is_space (content ! p)" unfolding p_def by (rule nth_length_takeWhile)
      have "p \<noteq> i" using s np by auto
      then have "p < i" using i by auto
      then show False using all s np i by auto
    qed
    then show ?thesis using w by (intro exI [of _ p]) blast
  qed
  then show ?thesis using e n False by auto
qed

lemma concise_whole_words_witness:
  "Concise ''abc def ghi'' '''' 6 = (''abc'' @ ellipsis, True) \<and> length ''abc def ghi'' > 6"
proof -
  obtain out cut_off where e: "Concise ''abc def ghi'' '''' 6 = (out, cut_off)" by (metis prod.exhaust)
  have "Concise ''abc def ghi'' '''' 6 = (''abc'' @ ellipsis, True)" by code_simp
  then show ?thesis using concise_whole_words [OF e] by simp
qed

end
