(* ===== verification/Sanitize.thy ===== *)
theory Sanitize
  imports Prelude
begin

text \<open>
  \<open>internal/sanitize/sanitize.go\<close>: stripping corruption from a text before it is stored
  (\<open>Clean\<close>), and the detection of script salad (\<open>Garbled\<close>), whose Unicode tables are the
  argument \<open>scriptOf\<close>. Texts are bytes here: the UTF-8 decoding that Go's \<open>strings\<close> does is
  written out.
\<close>

section \<open>UTF-8\<close>

definition continuation :: "nat \<Rightarrow> bool" where
  "continuation b \<longleftrightarrow> 128 \<le> b \<and> b \<le> 191"

text \<open>The rune at the front of the bytes and its width; \<open>None\<close> when the bytes are invalid.\<close>

fun rune_at :: "nat list \<Rightarrow> (nat \<times> nat) option" where
  "rune_at [] = None"
| "rune_at (a # bs) =
     (if a < 128 then Some (a, 1)
      else if 194 \<le> a \<and> a \<le> 223 then
        (case bs of b # _ \<Rightarrow> if continuation b then Some ((a - 192) * 64 + (b - 128), 2) else None | [] \<Rightarrow> None)
      else if 224 \<le> a \<and> a \<le> 239 then
        (case bs of
           b # c # _ \<Rightarrow>
             if (if a = 224 then 160 else 128) \<le> b \<and> b \<le> (if a = 237 then 159 else 191) \<and> continuation c
             then Some ((a - 224) * 4096 + (b - 128) * 64 + (c - 128), 3) else None
         | _ \<Rightarrow> None)
      else if 240 \<le> a \<and> a \<le> 244 then
        (case bs of
           b # c # d # _ \<Rightarrow>
             if (if a = 240 then 144 else 128) \<le> b \<and> b \<le> (if a = 244 then 143 else 191)
                \<and> continuation c \<and> continuation d
             then Some ((a - 240) * 262144 + (b - 128) * 4096 + (c - 128) * 64 + (d - 128), 4) else None
         | _ \<Rightarrow> None)
      else None)"

lemma rune_at_width: "rune_at bs = Some (r, w) \<Longrightarrow> 0 < w \<and> w \<le> length bs"
  by (cases bs) (auto split: if_splits list.splits)

lemma rune_at_append: "rune_at bs = Some (r, w) \<Longrightarrow> rune_at (take w bs @ rest) = Some (r, w)"
  by (cases bs) (auto split: if_splits list.splits)

text \<open>The valid encodings in the bytes, in order; a byte that starts none is dropped.\<close>

function units :: "nat list \<Rightarrow> nat list list" where
  "units bs =
     (if bs = [] then []
      else case rune_at bs of
             None \<Rightarrow> units (tl bs)
           | Some (r, w) \<Rightarrow> take w bs # units (drop w bs))"
  by auto
termination
  by (relation "measure length") (auto dest: rune_at_width simp: neq_Nil_conv)

declare units.simps [simp del]

definition unit_ok :: "nat list \<Rightarrow> bool" where
  "unit_ok u \<longleftrightarrow> (\<exists>r. rune_at u = Some (r, length u))"

definition rune_of :: "nat list \<Rightarrow> nat" where
  "rune_of u = (case rune_at u of None \<Rightarrow> 65533 | Some (r, w) \<Rightarrow> r)"

lemma units_ok: "list_all unit_ok (units bs)"
proof (induction bs rule: units.induct)
  case (1 bs)
  show ?case
  proof (cases "bs = []")
    case True
    then show ?thesis by (simp add: units.simps)
  next
    case False
    show ?thesis
    proof (cases "rune_at bs")
      case None
      then show ?thesis using 1(1) False by (subst units.simps) simp
    next
      case (Some p)
      obtain r w where p: "p = (r, w)" by (cases p)
      have "rune_at (take w bs @ []) = Some (r, w)" using rune_at_append Some p by blast
      moreover have "length (take w bs) = w" using rune_at_width [of bs r w] Some p by simp
      ultimately have "unit_ok (take w bs)" by (simp add: unit_ok_def)
      then show ?thesis using 1(2) [OF False Some p [symmetric]] Some p False by (subst units.simps) simp
    qed
  qed
qed

lemma units_concat: "list_all unit_ok us \<Longrightarrow> units (concat us) = us"
proof (induction us)
  case Nil
  then show ?case by (simp add: units.simps)
next
  case (Cons u us)
  then obtain r where r: "rune_at u = Some (r, length u)" by (auto simp: unit_ok_def)
  then have "rune_at (take (length u) u @ concat us) = Some (r, length u)" by (rule rune_at_append)
  moreover have "u \<noteq> []" using r by auto
  ultimately show ?case using Cons by (subst units.simps) simp
qed

section \<open>Clean\<close>

definition bytes_of :: "string \<Rightarrow> nat list" where
  "bytes_of s = map of_char s"

definition string_of :: "nat list \<Rightarrow> string" where
  "string_of bs = map char_of bs"

definition ToValidUTF8 :: "string \<Rightarrow> string" where
  "ToValidUTF8 s = string_of (concat (units (bytes_of s)))"

definition isNonCharacter :: "nat \<Rightarrow> bool" where
  "isNonCharacter r \<longleftrightarrow> 64976 \<le> r \<and> r \<le> 65007 \<or> r mod 65536 = 65534 \<or> r mod 65536 = 65535"

definition keeps_rune :: "nat \<Rightarrow> bool" where
  "keeps_rune r \<longleftrightarrow>
     (if r = 9 \<or> r = 10 \<or> r = 13 then True
      else if r = 65533 then False
      else if r < 32 \<or> 127 \<le> r \<and> r \<le> 159 then False
      else \<not> isNonCharacter r)"

definition Clean :: "string \<Rightarrow> string" where
  "Clean s =
     (if s = '''' then s
      else string_of (concat (filter (\<lambda>u. keeps_rune (rune_of u)) (units (bytes_of (ToValidUTF8 s))))))"

lemma bytes_of_string_of: "list_all (\<lambda>b. b < 256) bs \<Longrightarrow> bytes_of (string_of bs) = bs"
  by (induction bs) (simp_all add: bytes_of_def string_of_def)

lemma string_of_bytes_of [simp]: "string_of (bytes_of s) = s"
  by (induction s) (simp_all add: bytes_of_def string_of_def)

lemma bytes_of_small: "list_all (\<lambda>b. b < 256) (bytes_of s)"
  by (simp add: bytes_of_def list_all_iff)

lemma units_bytes: "u \<in> set (units bs) \<Longrightarrow> b \<in> set u \<Longrightarrow> b \<in> set bs"
proof (induction bs rule: units.induct)
  case (1 bs)
  show ?case
  proof (cases "bs = []")
    case True
    then show ?thesis using "1.prems" by (simp add: units.simps)
  next
    case False
    show ?thesis
    proof (cases "rune_at bs")
      case None
      then have "u \<in> set (units (tl bs))" using "1.prems"(1) False by (simp add: units.simps [of bs])
      then have "b \<in> set (tl bs)" using "1.IH"(1) [OF False None] "1.prems"(2) by blast
      then show ?thesis using False by (metis list.set_sel(2))
    next
      case (Some p)
      obtain r w where p: "p = (r, w)" by (cases p)
      have "u = take w bs \<or> u \<in> set (units (drop w bs))"
        using "1.prems"(1) False Some p by (simp add: units.simps [of bs])
      then show ?thesis
        using "1.IH"(2) [OF False Some p [symmetric]] "1.prems"(2) by (auto dest: in_set_takeD in_set_dropD)
    qed
  qed
qed

lemma concat_units_small: "set us \<subseteq> set (units (bytes_of s)) \<Longrightarrow> list_all (\<lambda>b. b < 256) (concat us)"
  using units_bytes bytes_of_small unfolding list_all_iff by fastforce

text \<open>The two passes together: the valid units whose rune is kept.\<close>

lemma Clean_units: "Clean s = string_of (concat (filter (\<lambda>u. keeps_rune (rune_of u)) (units (bytes_of s))))"
proof -
  have "bytes_of (ToValidUTF8 s) = concat (units (bytes_of s))"
    unfolding ToValidUTF8_def by (rule bytes_of_string_of, rule concat_units_small [of _ s]) simp
  then have "units (bytes_of (ToValidUTF8 s)) = units (bytes_of s)"
    using units_concat [OF units_ok] by simp
  moreover have "units (bytes_of '''') = []" by (simp add: bytes_of_def units.simps)
  ultimately show ?thesis by (auto simp: Clean_def string_of_def)
qed

lemma units_Clean: "units (bytes_of (Clean s)) = filter (\<lambda>u. keeps_rune (rune_of u)) (units (bytes_of s))"
proof -
  let ?us = "filter (\<lambda>u. keeps_rune (rune_of u)) (units (bytes_of s))"
  have "bytes_of (Clean s) = concat ?us"
    unfolding Clean_units by (rule bytes_of_string_of, rule concat_units_small [of _ s]) auto
  moreover have "list_all unit_ok ?us" using units_ok [of "bytes_of s"] by (auto simp: list_all_iff)
  ultimately show ?thesis by (simp add: units_concat)
qed

lemma Clean_idem [simp]: "Clean (Clean s) = Clean s"
  unfolding Clean_units [of "Clean s"] units_Clean by (simp add: Clean_units)

text \<open>A text of printable ASCII, tabs and line ends is left alone.\<close>

lemma units_ascii: "list_all (\<lambda>b. b < 128) bs \<Longrightarrow> units bs = map (\<lambda>b. [b]) bs"
proof (induction bs)
  case (Cons b bs)
  then show ?case by (subst units.simps) simp
qed (simp add: units.simps)

lemma Clean_ascii:
  assumes "list_all (\<lambda>c. of_char c < (127 :: nat) \<and> (32 \<le> (of_char c :: nat) \<or> c \<in> {CHR 0x09, CHR 0x0A, CHR 0x0D})) s"
  shows "Clean s = s"
proof -
  have "list_all (\<lambda>b. b < 128) (bytes_of s)" using assms by (auto simp: list_all_iff bytes_of_def)
  then have "units (bytes_of s) = map (\<lambda>b. [b]) (bytes_of s)" by (rule units_ascii)
  moreover have "filter (\<lambda>u. keeps_rune (rune_of u)) (map (\<lambda>b. [b]) (bytes_of s)) = map (\<lambda>b. [b]) (bytes_of s)"
    using assms by (auto simp: filter_id_conv bytes_of_def list_all_iff keeps_rune_def rune_of_def isNonCharacter_def)
  ultimately show ?thesis unfolding Clean_units by simp
qed

section \<open>Garbled\<close>

abbreviation garbleMinLetters :: nat where "garbleMinLetters \<equiv> 12"
abbreviation garbleMinTransitions :: nat where "garbleMinTransitions \<equiv> 6"

text \<open>The go_runes that Go's \<open>range\<close> yields: an invalid byte is U+FFFD.\<close>

function go_runes :: "nat list \<Rightarrow> nat list" where
  "go_runes bs =
     (if bs = [] then []
      else case rune_at bs of
             None \<Rightarrow> 65533 # go_runes (tl bs)
           | Some (r, w) \<Rightarrow> r # go_runes (drop w bs))"
  by auto
termination
  by (relation "measure length") (auto dest: rune_at_width simp: neq_Nil_conv)

declare go_runes.simps [simp del]

text \<open>\<open>scriptOf\<close> gives a letter's script, \<open>sep\<close> for a rune that is no letter, \<open>other\<close> for the rest.\<close>

fun script_counts :: "(nat \<Rightarrow> string) \<Rightarrow> string \<Rightarrow> bool \<Rightarrow> nat list \<Rightarrow> nat \<times> nat \<Rightarrow> nat \<times> nat" where
  "script_counts scriptOf prev adjacent [] acc = acc"
| "script_counts scriptOf prev adjacent (r # rs) (letters, transitions) =
     (let sc = scriptOf r in
      if sc = ''sep'' then script_counts scriptOf prev False rs (letters, transitions)
      else script_counts scriptOf sc True rs
             (letters + 1,
              if adjacent \<and> prev \<noteq> ''other'' \<and> sc \<noteq> ''other'' \<and> prev \<noteq> sc then transitions + 1 else transitions))"

definition Garbled :: "(nat \<Rightarrow> string) \<Rightarrow> string \<Rightarrow> bool" where
  "Garbled scriptOf s =
     (case script_counts scriptOf '''' False (go_runes (bytes_of s)) (0, 0) of (letters, transitions) \<Rightarrow>
        if letters < garbleMinLetters \<or> transitions < garbleMinTransitions then False
        else 1 / 5 \<le> real transitions / real letters)"

end
