(* ===== verification/Entities.thy ===== *)
theory Entities
  imports Sanitize "HOL-Library.Code_Target_Nat"
begin

text \<open>
  \<open>internal/extract/entities.go\<close>: named entities of a text by capitalisation. Texts are runes
  here (what Go's \<open>range\<close> and \<open>unicode\<close> see); the classes and the case folding of the Unicode
  tables are the record \<open>unicode\<close>, an argument of the definitions.
\<close>

section \<open>Runes\<close>

text \<open>The split with a shared recursive call, for evaluation.\<close>

lemma split_on_code [code]:
  "split_on p [] = [[]]"
  "split_on p (x # xs) =
     (case split_on p xs of [] \<Rightarrow> [] | w # ws \<Rightarrow> if p x then [] # w # ws else (x # w) # ws)"
  using split_on_nonempty [of p xs] by (auto split: list.splits)

type_synonym runes = "nat list"

record unicode =
  uLetter :: "nat \<Rightarrow> bool"
  uDigit :: "nat \<Rightarrow> bool"
  uUpper :: "nat \<Rightarrow> bool"
  uLower :: "nat \<Rightarrow> nat"

text \<open>The tables restricted to ASCII, for evaluation.\<close>

definition ascii :: unicode where
  "ascii =
     \<lparr> uLetter = (\<lambda>r. 65 \<le> r \<and> r \<le> 90 \<or> 97 \<le> r \<and> r \<le> 122),
       uDigit = (\<lambda>r. 48 \<le> r \<and> r \<le> 57),
       uUpper = (\<lambda>r. 65 \<le> r \<and> r \<le> 90),
       uLower = (\<lambda>r. if 65 \<le> r \<and> r \<le> 90 then r + 32 else r) \<rparr>"

definition runes_of :: "string \<Rightarrow> runes" where
  "runes_of s = go_runes (bytes_of s)"

definition lower_runes :: "unicode \<Rightarrow> runes \<Rightarrow> runes" where
  "lower_runes u s = map (uLower u) s"

text \<open>\<open>unicode.IsSpace\<close>.\<close>

definition space_rune :: "nat \<Rightarrow> bool" where
  "space_rune r \<longleftrightarrow>
     9 \<le> r \<and> r \<le> 13 \<or> r \<in> {32, 133, 160, 5760, 8232, 8233, 8239, 8287, 12288} \<or> 8192 \<le> r \<and> r \<le> 8202"

definition fields_of :: "runes \<Rightarrow> runes list" where
  "fields_of s = filter (\<lambda>w. w \<noteq> []) (split_on space_rune s)"

definition ends_with :: "'a list \<Rightarrow> 'a list \<Rightarrow> bool" where
  "ends_with s suf \<longleftrightarrow> length suf \<le> length s \<and> drop (length s - length suf) s = suf"

definition TrimSuffix :: "'a list \<Rightarrow> 'a list \<Rightarrow> 'a list" where
  "TrimSuffix s suf = (if ends_with s suf then take (length s - length suf) s else s)"

text \<open>\<open>strings.LastIndex\<close> and \<open>strings.Contains\<close>.\<close>

definition occurs_at :: "'a list \<Rightarrow> 'a list \<Rightarrow> nat \<Rightarrow> bool" where
  "occurs_at s sub i \<longleftrightarrow> take (length sub) (drop i s) = sub"

definition LastIndexOf :: "'a list \<Rightarrow> 'a list \<Rightarrow> nat option" where
  "LastIndexOf s sub = find (occurs_at s sub) (rev [0..<Suc (length s)])"

definition Contains :: "'a list \<Rightarrow> 'a list \<Rightarrow> bool" where
  "Contains s sub \<longleftrightarrow> list_ex (occurs_at s sub) [0..<Suc (length s)]"

text \<open>The search by recursion, for evaluation.\<close>

fun starts :: "'a list \<Rightarrow> 'a list \<Rightarrow> bool" where
  "starts s [] = True"
| "starts [] (y # ys) = False"
| "starts (x # xs) (y # ys) = (x = y \<and> starts xs ys)"

lemma occurs_at_0: "occurs_at s sub 0 \<longleftrightarrow> starts s sub"
  by (induction s sub rule: starts.induct) (auto simp: occurs_at_def)

lemma Contains_code [code]:
  "Contains [] sub = (sub = [])"
  "Contains (x # xs) sub \<longleftrightarrow> starts (x # xs) sub \<or> Contains xs sub"
proof -
  show "Contains [] sub = (sub = [])" by (auto simp: Contains_def occurs_at_def)
  have "[0..<Suc (length (x # xs))] = 0 # map Suc [0..<Suc (length xs)]"
    by (metis length_Cons map_Suc_upt upt_conv_Cons zero_less_Suc)
  moreover have "list_ex (occurs_at (x # xs) sub) (map Suc is) = list_ex (occurs_at xs sub) is" for "is"
    by (induction "is") (simp_all add: occurs_at_def)
  ultimately show "Contains (x # xs) sub \<longleftrightarrow> starts (x # xs) sub \<or> Contains xs sub"
    unfolding Contains_def by (simp add: occurs_at_0 del: upt_Suc)
qed

section \<open>Words\<close>

definition entityStopwords :: "string list" where
  "entityStopwords =
    [''i'', ''me'', ''my'', ''mine'', ''we'', ''us'', ''our'', ''ours'', ''you'', ''your'', ''yours'',
     ''he'', ''him'', ''his'', ''she'', ''her'', ''hers'', ''it'', ''its'', ''they'', ''them'',
     ''their'', ''theirs'', ''this'', ''that'', ''these'', ''those'', ''the'', ''a'', ''an'',
     ''some'', ''any'', ''each'', ''every'', ''all'', ''both'', ''few'', ''many'', ''much'',
     ''one'', ''two'', ''other'', ''another'', ''such'', ''same'', ''own'', ''no'', ''none'',
     ''what'', ''when'', ''where'', ''who'', ''whom'', ''whose'', ''why'', ''how'', ''which'',
     ''is'', ''are'', ''was'', ''were'', ''be'', ''been'', ''being'', ''am'', ''do'', ''does'',
     ''did'', ''don'', ''didn'', ''doesn'', ''isn'', ''aren'', ''wasn'', ''weren'', ''have'',
     ''has'', ''had'', ''haven'', ''hasn'', ''hadn'', ''will'', ''would'', ''wouldn'',
     ''should'', ''shouldn'', ''could'', ''couldn'', ''can'', ''cannot'', ''may'', ''might'',
     ''must'', ''shall'', ''won'', ''let'', ''get'', ''got'', ''go'', ''going'', ''gonna'',
     ''come'', ''make'', ''see'', ''know'', ''think'', ''want'', ''need'', ''try'', ''keep'',
     ''and'', ''or'', ''but'', ''nor'', ''so'', ''yet'', ''if'', ''then'', ''than'', ''as'',
     ''at'', ''by'', ''for'', ''from'', ''in'', ''into'', ''of'', ''off'', ''on'', ''onto'',
     ''out'', ''over'', ''to'', ''under'', ''up'', ''down'', ''with'', ''without'', ''about'',
     ''after'', ''before'', ''during'', ''while'', ''since'', ''until'', ''because'',
     ''though'', ''although'', ''however'', ''also'', ''too'', ''very'', ''not'', ''there'',
     ''here'', ''again'', ''once'', ''just'', ''still'', ''even'', ''only'', ''now'',
     ''hey'', ''hi'', ''hello'', ''bye'', ''goodbye'', ''wow'', ''oh'', ''ah'', ''ok'', ''okay'',
     ''yes'', ''yeah'', ''yep'', ''no'', ''nope'', ''thanks'', ''thank'', ''please'',
     ''sor'' @ ''ry'', ''sure'', ''great'', ''good'', ''cool'', ''nice'', ''well'', ''right'',
     ''awesome'', ''amazing'', ''perfect'', ''exactly'', ''definitely'', ''absolutely'',
     ''maybe'', ''perhaps'', ''anyway'', ''alright'', ''congrats'', ''congratulations'',
     ''cheers'', ''dear'', ''happy'', ''glad'', ''sounds'', ''haha'', ''lol'', ''hmm'',
     ''today'', ''tomorrow'', ''yesterday'', ''tonight'']"

definition calendarWords :: "string list" where
  "calendarWords =
    [''monday'', ''tuesday'', ''wednesday'', ''thursday'', ''friday'', ''saturday'', ''sunday'',
     ''january'', ''february'', ''march'', ''april'', ''may'', ''june'', ''july'', ''august'',
     ''september'', ''october'', ''november'', ''december'']"

text \<open>A word of one of these lists, as runes; all of them are ASCII.\<close>

definition listed :: "string list \<Rightarrow> runes \<Rightarrow> bool" where
  "listed ws w \<longleftrightarrow> w \<in> set (map bytes_of ws)"

lemma listed_code [code]:
  "listed ws w \<longleftrightarrow> list_all (\<lambda>b. b < 256) w \<and> string_of w \<in> set ws"
proof -
  have *: "w = bytes_of s \<longleftrightarrow> list_all (\<lambda>b. b < 256) w \<and> string_of w = s" for s
  proof
    assume "w = bytes_of s"
    then show "list_all (\<lambda>b. b < 256) w \<and> string_of w = s" using bytes_of_small [of s] by (simp only: string_of_bytes_of)
  next
    assume w: "list_all (\<lambda>b. b < 256) w \<and> string_of w = s"
    then have "bytes_of (string_of w) = w" using bytes_of_string_of by blast
    then show "w = bytes_of s" using w by simp
  qed
  have "listed ws w \<longleftrightarrow> (\<exists>s \<in> set ws. w = bytes_of s)" unfolding listed_def set_map image_iff ..
  also have "\<dots> \<longleftrightarrow> list_all (\<lambda>b. b < 256) w \<and> string_of w \<in> set ws" unfolding * by blast
  finally show ?thesis .
qed

definition entityStopword :: "runes \<Rightarrow> bool" where
  "entityStopword w \<longleftrightarrow>
     listed entityStopwords w
     \<or> (let stem = takeWhile (\<lambda>r. r \<noteq> 39) w in
        stem \<noteq> w \<and> stem \<noteq> [] \<and> listed entityStopwords stem)"

definition allCalendar :: "runes list \<Rightarrow> bool" where
  "allCalendar words \<longleftrightarrow> list_all (listed calendarWords) words"

section \<open>Tokens\<close>

text \<open>A rune that \<open>trimToken\<close> keeps at the ends of a token: 39 is the apostrophe, 8217 the
  typographic one, 45 the hyphen.\<close>

definition token_rune :: "unicode \<Rightarrow> nat \<Rightarrow> bool" where
  "token_rune u r \<longleftrightarrow> uLetter u r \<or> uDigit u r \<or> r = 39 \<or> r = 8217 \<or> r = 45"

definition TrimFunc :: "('a \<Rightarrow> bool) \<Rightarrow> 'a list \<Rightarrow> 'a list" where
  "TrimFunc p s = rev (dropWhile p (rev (dropWhile p s)))"

definition trailingPunct :: "runes \<Rightarrow> runes \<Rightarrow> runes" where
  "trailingPunct tok trimmed =
     (if trimmed = [] then tok
      else case LastIndexOf tok trimmed of None \<Rightarrow> tok | Some i \<Rightarrow> drop (i + length trimmed) tok)"

definition trimToken :: "unicode \<Rightarrow> runes \<Rightarrow> runes \<times> bool" where
  "trimToken u tok =
     (let trimmed = TrimFunc (\<lambda>r. \<not> token_rune u r) tok
      in (trimmed, list_ex (\<lambda>r. r \<in> set (bytes_of ''.!?;:'')) (trailingPunct tok trimmed)))"

definition startsUpper :: "unicode \<Rightarrow> runes \<Rightarrow> bool" where
  "startsUpper u tok = (case tok of [] \<Rightarrow> False | r # _ \<Rightarrow> uUpper u r)"

definition selfEvidentEntity :: "unicode \<Rightarrow> runes \<Rightarrow> bool" where
  "selfEvidentEntity u raw = list_ex (\<lambda>r. uUpper u r \<or> uDigit u r) (tl raw)"

definition hasLetter :: "unicode \<Rightarrow> runes \<Rightarrow> bool" where
  "hasLetter u w = list_ex (uLetter u) w"

definition normalizeEntityWord :: "unicode \<Rightarrow> runes \<Rightarrow> runes" where
  "normalizeEntityWord u tok =
     (let w = map (\<lambda>r. if r = 8217 then 39 else r) (lower_runes u tok)
      in TrimSuffix (TrimSuffix w [39, 115]) [39])"

section \<open>Spans\<close>

abbreviation MaxEntities :: nat where "MaxEntities \<equiv> 12"
abbreviation maxEntitySpanTokens :: nat where "maxEntitySpanTokens \<equiv> 4"

record entitySpan =
  esWords :: "runes list"
  esRaw :: "runes list"
  esInitial :: bool

definition no_span :: entitySpan where
  "no_span = \<lparr> esWords = [], esRaw = [], esInitial = False \<rparr>"

record span_scan =
  scSpans :: "entitySpan list"
  scCur :: entitySpan
  scStart :: bool
  scBracket :: bool

definition flush_span :: "span_scan \<Rightarrow> span_scan" where
  "flush_span st =
     (let ws = esWords (scCur st) in
      st\<lparr> scSpans := (if ws \<noteq> [] \<and> length ws \<le> maxEntitySpanTokens \<and> \<not> allCalendar ws
                      then scSpans st @ [scCur st] else scSpans st),
          scCur := no_span \<rparr>)"

definition extend_span :: "runes \<Rightarrow> runes \<Rightarrow> span_scan \<Rightarrow> span_scan" where
  "extend_span nw trimmed st =
     (let c = scCur st in
      st\<lparr> scCur := \<lparr> esWords = esWords c @ [nw], esRaw = esRaw c @ [trimmed],
                     esInitial = (if esWords c = [] then scStart st else esInitial c) \<rparr> \<rparr>)"

definition scan_token :: "unicode \<Rightarrow> runes \<Rightarrow> span_scan \<Rightarrow> span_scan" where
  "scan_token u tok st =
     (if scBracket st \<or> take 1 tok = [91]
      then flush_span (st\<lparr> scBracket := 93 \<notin> set tok \<rparr>)
      else case trimToken u tok of (trimmed, endsSentence) \<Rightarrow>
        if trimmed = [] then
          (let st1 = flush_span st in if endsSentence then st1\<lparr> scStart := True \<rparr> else st1)
        else
          (let nw = normalizeEntityWord u trimmed;
               st1 = (if \<not> startsUpper u trimmed \<or> entityStopword nw \<or> nw = []
                         \<or> \<not> hasLetter u nw \<or> length nw < 2
                      then flush_span st else extend_span nw trimmed st);
               st2 = (if endsSentence then flush_span st1 else st1)
           in st2\<lparr> scStart := endsSentence \<rparr>))"

definition scan_line :: "unicode \<Rightarrow> span_scan \<Rightarrow> runes \<Rightarrow> span_scan" where
  "scan_line u st line =
     flush_span (fold (scan_token u) (fields_of line) (st\<lparr> scStart := True, scBracket := False \<rparr>))"

definition entitySpans :: "unicode \<Rightarrow> runes \<Rightarrow> entitySpan list" where
  "entitySpans u txt =
     scSpans (flush_span (foldl (scan_line u)
       \<lparr> scSpans = [], scCur = no_span, scStart = False, scBracket = False \<rparr>
       (split_on (\<lambda>r. r = 10) txt)))"

section \<open>Entities\<close>

definition midWords :: "entitySpan list \<Rightarrow> runes list" where
  "midWords spans = concat (map (\<lambda>sp. if esInitial sp then tl (esWords sp) else esWords sp) spans)"

definition suppressed :: "unicode \<Rightarrow> runes list \<Rightarrow> entitySpan \<Rightarrow> bool" where
  "suppressed u mid sp \<longleftrightarrow>
     esInitial sp \<and> length (esWords sp) < 2 \<and> hd (esWords sp) \<notin> set mid
     \<and> \<not> selfEvidentEntity u (hd (esRaw sp))"

definition entity_key :: "entitySpan \<Rightarrow> runes" where
  "entity_key sp = Join (esWords sp) [32]"

fun collect_entities :: "unicode \<Rightarrow> runes list \<Rightarrow> entitySpan list \<Rightarrow> runes list \<Rightarrow> runes list" where
  "collect_entities u mid [] out = out"
| "collect_entities u mid (sp # spans) out =
     (if suppressed u mid sp then collect_entities u mid spans out
      else if entity_key sp \<in> set out then collect_entities u mid spans out
      else let out1 = out @ [entity_key sp] in
           if MaxEntities \<le> length out1 then out1 else collect_entities u mid spans out1)"

definition Entities :: "unicode \<Rightarrow> runes \<Rightarrow> runes list" where
  "Entities u txt =
     (let spans = entitySpans u txt in collect_entities u (midWords spans) spans [])"

end
