(* ===== verification/Utf8.thy ===== *)
theory Utf8
  imports Entities
begin

text \<open>
  Go's conversions between strings and runes: \<open>[]rune(s)\<close> is \<open>runes_of\<close>, \<open>string(runes)\<close> is
  \<open>string_of_runes\<close>, and \<open>strings.TrimSpace\<close> on runes. The lemmas are the round trip of the two
  conversions.
\<close>

section \<open>Encoding\<close>

text \<open>UTF-8, with U+FFFD for what is no code point.\<close>

definition encode_rune :: "nat \<Rightarrow> nat list" where
  "encode_rune r =
     (if r < 0x80 then [r]
      else if r < 0x800 then [0xC0 + r div 0x40, 0x80 + r mod 0x40]
      else if 0xD800 \<le> r \<and> r \<le> 0xDFFF \<or> 0x10FFFF < r then [0xEF, 0xBF, 0xBD]
      else if r < 0x10000 then [0xE0 + r div 0x1000, 0x80 + r div 0x40 mod 0x40, 0x80 + r mod 0x40]
      else [0xF0 + r div 0x40000, 0x80 + r div 0x1000 mod 0x40, 0x80 + r div 0x40 mod 0x40, 0x80 + r mod 0x40])"

definition string_of_runes :: "runes \<Rightarrow> string" where
  "string_of_runes rs = string_of (concat (map encode_rune rs))"

definition trim_runes :: "runes \<Rightarrow> runes" where
  "trim_runes rs = rev (dropWhile space_rune (rev (dropWhile space_rune rs)))"

section \<open>The round trip\<close>

definition code_point :: "nat \<Rightarrow> bool" where
  "code_point r \<longleftrightarrow> r < 0xD800 \<or> 0xE000 \<le> r \<and> r \<le> 0x10FFFF"

lemma rune_at_encode:
  assumes "code_point r"
  shows "rune_at (encode_rune r @ rest) = Some (r, length (encode_rune r))"
proof -
  consider (one) "r < 0x80" | (two) "0x80 \<le> r" "r < 0x800" | (three) "0x800 \<le> r" "r < 0x10000" "r < 0xD800 \<or> 0xE000 \<le> r"
    | (four) "0x10000 \<le> r" "r \<le> 0x10FFFF"
    using assms unfolding code_point_def by linarith
  then show ?thesis
  proof cases
    case one
    then show ?thesis by (simp add: encode_rune_def)
  next
    case two
    have e: "encode_rune r = [192 + r div 64, 128 + r mod 64]" using two by (simp add: encode_rune_def)
    have "2 \<le> r div 64" "r div 64 \<le> 31" using two by linarith+
    moreover have "r mod 64 < 64" "r div 64 * 64 + r mod 64 = r" by simp_all
    ultimately show ?thesis unfolding e by (simp add: continuation_def)
  next
    case three
    have e: "encode_rune r = [224 + r div 4096, 128 + r div 64 mod 64, 128 + r mod 64]"
      using three by (auto simp: encode_rune_def)
    have b: "r div 4096 \<le> 15" "r div 64 mod 64 < 64" "r mod 64 < 64" using three by simp_all
    have s: "r div 4096 * 4096 + r div 64 mod 64 * 64 + r mod 64 = r"
    proof -
      have "r div 64 = r div 4096 * 64 + r div 64 mod 64" using div_mult_mod_eq [of "r div 64" 64] by (simp add: div_mult2_eq [symmetric])
      then show ?thesis using div_mult_mod_eq [of r 64] by linarith
    qed
    have low: "r div 4096 = 0 \<Longrightarrow> 32 \<le> r div 64 mod 64" using three(1) s b by linarith
    have high: "r div 4096 = 13 \<Longrightarrow> r div 64 mod 64 \<le> 31" using three(3) s b by linarith
    show ?thesis unfolding e using b s low high by (auto simp: continuation_def)
  next
    case four
    have e: "encode_rune r = [240 + r div 262144, 128 + r div 4096 mod 64, 128 + r div 64 mod 64, 128 + r mod 64]"
      using four by (simp add: encode_rune_def)
    have m: "x mod 64 \<le> 63" for x :: nat using mod_less_divisor [of 64 x] by linarith
    have b: "r div 262144 \<le> 4" using four by simp
    have s: "r div 262144 * 262144 + r div 4096 mod 64 * 4096 + r div 64 mod 64 * 64 + r mod 64 = r"
    proof -
      have "r div 64 = r div 4096 * 64 + r div 64 mod 64" using div_mult_mod_eq [of "r div 64" 64] by (simp add: div_mult2_eq [symmetric])
      moreover have "r div 4096 = r div 262144 * 64 + r div 4096 mod 64"
        using div_mult_mod_eq [of "r div 4096" 64] by (simp add: div_mult2_eq [symmetric])
      ultimately show ?thesis using div_mult_mod_eq [of r 64] by linarith
    qed
    have low: "r div 262144 = 0 \<Longrightarrow> 16 \<le> r div 4096 mod 64" using four(1) s m [of "r div 64"] m [of r] by linarith
    have high: "r div 262144 = 4 \<Longrightarrow> r div 4096 mod 64 \<le> 15" using four(2) s b by linarith
    show ?thesis unfolding e using b s low high m by (auto simp: continuation_def)
  qed
qed

lemma encode_rune_bytes: "list_all (\<lambda>b. b < 256) (encode_rune r)"
proof -
  have "r div 64 < 32" if "r < 0x800" using that by linarith
  moreover have "r div 4096 < 16" if "r < 0x10000" using that by linarith
  moreover have "r div 262144 < 5" if "r \<le> 0x10FFFF" using that by linarith
  moreover have "128 + x mod 64 < 256" for x :: nat
    using mod_less_divisor [of 64 x] by linarith
  ultimately show ?thesis by (auto simp: encode_rune_def)
qed

lemma encode_rune_ne [simp]: "encode_rune r \<noteq> []"
  by (simp add: encode_rune_def)

lemma go_runes_encode: "list_all code_point rs \<Longrightarrow> go_runes (concat (map encode_rune rs)) = rs"
proof (induction rs)
  case Nil
  then show ?case by (simp add: go_runes.simps)
next
  case (Cons r rs)
  then show ?case by (subst go_runes.simps) (simp add: rune_at_encode)
qed

lemma runes_of_string_of_runes: "list_all code_point rs \<Longrightarrow> runes_of (string_of_runes rs) = rs"
proof -
  assume "list_all code_point rs"
  moreover have "list_all (\<lambda>b. b < 256) (concat (map encode_rune rs))"
    using encode_rune_bytes by (auto simp: list_all_iff)
  ultimately show ?thesis by (simp add: runes_of_def string_of_runes_def bytes_of_string_of go_runes_encode)
qed

lemma string_of_runes_empty [simp]: "string_of_runes rs = '''' \<longleftrightarrow> rs = []"
  by (cases rs) (auto simp: string_of_runes_def string_of_def)

lemma rune_at_code_point: "rune_at bs = Some (r, w) \<Longrightarrow> code_point r"
proof (cases bs)
  case (Cons a cs)
  assume r: "rune_at bs = Some (r, w)"
  show ?thesis
  proof (cases "240 \<le> a")
    case True
    then obtain b c d where b: "a \<le> 244" "(if a = 240 then 144 else 128) \<le> b" "b \<le> (if a = 244 then 143 else 191)"
      "continuation c" "continuation d" "r = (a - 240) * 262144 + (b - 128) * 4096 + (c - 128) * 64 + (d - 128)"
      using r Cons by (auto split: if_split_asm list.split_asm)
    then have "c - 128 \<le> 63" "d - 128 \<le> 63" by (auto simp: continuation_def)
    moreover have "0x10000 \<le> (a - 240) * 262144 + (b - 128) * 4096" "(a - 240) * 262144 + (b - 128) * 4096 \<le> 0x10F000"
      using b(1-3) True by (auto split: if_split_asm)
    ultimately show ?thesis unfolding code_point_def b(6) by linarith
  next
    case False
    then show ?thesis using r Cons
      by (auto simp: code_point_def continuation_def split: if_split_asm list.split_asm)
  qed
qed simp

lemma go_runes_code_points: "list_all code_point (go_runes bs)"
proof (induction bs rule: go_runes.induct)
  case (1 bs)
  have "code_point 65533" by (simp add: code_point_def)
  then show ?case using 1 rune_at_code_point
    by (subst go_runes.simps) (auto split: option.split)
qed

lemma runes_of_code_points: "list_all code_point (runes_of s)"
  by (simp add: runes_of_def go_runes_code_points)

lemma runes_of_empty [simp]: "runes_of s = [] \<longleftrightarrow> s = ''''"
  by (cases "bytes_of s") (auto simp: runes_of_def go_runes.simps bytes_of_def split: option.split)

text \<open>A text of ASCII characters is its own runes.\<close>

lemma go_runes_ascii: "list_all (\<lambda>b. b < 128) bs \<Longrightarrow> go_runes bs = bs"
proof (induction bs)
  case (Cons b bs)
  then show ?case by (subst go_runes.simps) simp
qed (simp add: go_runes.simps)

section \<open>Trimming\<close>

lemma trim_runes_set: "set (trim_runes rs) \<subseteq> set rs"
  unfolding trim_runes_def by (auto dest!: set_dropWhileD)

lemma trim_runes_not_blank: "trim_runes rs \<noteq> [] \<Longrightarrow> \<not> list_all space_rune (trim_runes rs)"
proof
  assume ne: "trim_runes rs \<noteq> []" and b: "list_all space_rune (trim_runes rs)"
  let ?u = "dropWhile space_rune (rev (dropWhile space_rune rs))"
  have u: "?u \<noteq> []" using ne by (simp add: trim_runes_def)
  then have "\<not> space_rune (hd ?u)" by (rule hd_dropWhile)
  then have "\<not> space_rune (last (trim_runes rs))" using u by (simp add: trim_runes_def last_rev)
  then show False using b ne by (auto simp: list_all_iff)
qed

end
