(* ===== verification/Chunking.thy ===== *)
theory Chunking
  imports Utf8
begin

text \<open>
  \<open>internal/chunk/chunk.go\<close>: splitting a long text into overlapping segments. The
  text is converted to its runes and cut between two of them; a segment is converted back to a
  string, without the white space at its ends. The loop of \<open>Split\<close> is a partial function, so that its termination is a theorem
  about the code's own bounds: \<open>None\<close> would be a loop that never ends.
\<close>

record ChunkConfig =
  ckSize :: int
  ckOverlap :: int
  ckMinContent :: int
  ckMaxChunks :: int

definition DefaultConfig :: ChunkConfig where
  "DefaultConfig = \<lparr> ckSize = 1200, ckOverlap = 200, ckMinContent = 1200, ckMaxChunks = 64 \<rparr>"

record SplitResult =
  srChunks :: "string list"
  srTruncated :: bool

definition separators :: "runes list" where
  "separators = map runes_of [[CHR 0x0A, CHR 0x0A], [CHR 0x0A], ''. '', ''? '', ''! '', ''; '', '' '']"

definition hasAt :: "runes \<Rightarrow> nat \<Rightarrow> runes \<Rightarrow> bool" where
  "hasAt runes i sep \<longleftrightarrow> i + length sep \<le> length runes \<and> take (length sep) (drop i runes) = sep"

text \<open>The indices of one separator are tried from the last one down to above \<open>lo\<close>.\<close>

fun boundary_of :: "runes \<Rightarrow> nat \<Rightarrow> nat \<Rightarrow> nat \<Rightarrow> runes list \<Rightarrow> nat" where
  "boundary_of runes start stop prev [] = stop"
| "boundary_of runes start stop prev (sep # seps) =
     (let lo = max start (prev - length sep) in
      case find (\<lambda>i. hasAt runes i sep) (rev [Suc lo..<Suc (stop - length sep)]) of
        Some i \<Rightarrow> i + length sep
      | None \<Rightarrow> boundary_of runes start stop prev seps)"

definition boundary :: "runes \<Rightarrow> nat \<Rightarrow> nat \<Rightarrow> nat \<Rightarrow> nat" where
  "boundary runes start stop prev = boundary_of runes start stop prev separators"

definition segment :: "runes \<Rightarrow> nat \<Rightarrow> nat \<Rightarrow> string" where
  "segment runes a b = string_of_runes (trim_runes (take (b - a) (drop a runes)))"

definition add_segment :: "string list \<Rightarrow> string \<Rightarrow> string list" where
  "add_segment out s = (if s \<noteq> '''' then out @ [s] else out)"

partial_function (option) split_loop ::
    "ChunkConfig \<Rightarrow> runes \<Rightarrow> int \<Rightarrow> nat \<Rightarrow> nat \<Rightarrow> string list \<Rightarrow> SplitResult option" where
  "split_loop cfg runes overlap start prevCut out =
     (if length runes \<le> start then Some \<lparr> srChunks = out, srTruncated = False \<rparr>
      else if 0 < ckMaxChunks cfg \<and> ckMaxChunks cfg \<le> int (length out)
      then Some \<lparr> srChunks = out, srTruncated = True \<rparr>
      else if length runes \<le> start + nat (ckSize cfg)
      then Some \<lparr> srChunks = add_segment out (segment runes start (length runes)), srTruncated = False \<rparr>
      else split_loop cfg runes overlap
             (if int (boundary runes start (start + nat (ckSize cfg)) prevCut) - overlap \<le> int start
              then boundary runes start (start + nat (ckSize cfg)) prevCut
              else nat (int (boundary runes start (start + nat (ckSize cfg)) prevCut) - overlap))
             (boundary runes start (start + nat (ckSize cfg)) prevCut)
             (add_segment out (segment runes start (boundary runes start (start + nat (ckSize cfg)) prevCut))))"

definition split_overlap :: "ChunkConfig \<Rightarrow> int" where
  "split_overlap cfg =
     (let overlap = max (ckOverlap cfg) 0 in if ckSize cfg \<le> overlap then ckSize cfg div 2 else overlap)"

definition Split :: "string \<Rightarrow> ChunkConfig \<Rightarrow> SplitResult option" where
  "Split content cfg =
     (if ckSize cfg \<le> 0 then Some \<lparr> srChunks = [], srTruncated = False \<rparr>
      else let runes = runes_of content in
        if 0 < ckMinContent cfg \<and> int (length runes) \<le> ckMinContent cfg
        then Some \<lparr> srChunks = [], srTruncated = False \<rparr>
        else if length runes = 0 then Some \<lparr> srChunks = [], srTruncated = False \<rparr>
        else split_loop cfg runes (split_overlap cfg) 0 0 [])"

definition IsWhitespaceOnly :: "string \<Rightarrow> bool" where
  "IsWhitespaceOnly s \<longleftrightarrow> list_all space_rune (runes_of s)"

section \<open>Where a chunk ends\<close>

lemma boundary_of_bounds:
  "start < stop \<Longrightarrow> prev < stop \<Longrightarrow> [] \<notin> set seps \<Longrightarrow>
   start < boundary_of runes start stop prev seps \<and> prev < boundary_of runes start stop prev seps
   \<and> boundary_of runes start stop prev seps \<le> stop"
proof (induction seps)
  case (Cons sep seps)
  let ?lo = "max start (prev - length sep)"
  let ?f = "find (\<lambda>i. hasAt runes i sep) (rev [Suc ?lo..<Suc (stop - length sep)])"
  show ?case
  proof (cases ?f)
    case None
    then show ?thesis using Cons by (simp add: Let_def)
  next
    case (Some i)
    then have "i \<in> set (rev [Suc ?lo..<Suc (stop - length sep)])" by (metis find_Some_iff2 nth_mem)
    then have i: "?lo < i" "i \<le> stop - length sep" by auto
    then have "start < i + length sep" "prev < i + length sep" "i + length sep \<le> stop" by auto
    then show ?thesis using Some by (simp add: Let_def)
  qed
qed simp

lemma separators_runes: "separators = [[10, 10], [10], [46, 32], [63, 32], [33, 32], [59, 32], [32]]"
  by (simp add: separators_def runes_of_def bytes_of_def go_runes_ascii)

lemma boundary_bounds:
  assumes "start < stop" and "prev < stop"
  shows "start < boundary runes start stop prev" "prev < boundary runes start stop prev"
    "boundary runes start stop prev \<le> stop"
proof -
  have "[] \<notin> set separators" by (simp add: separators_runes)
  then show "start < boundary runes start stop prev" "prev < boundary runes start stop prev"
    "boundary runes start stop prev \<le> stop"
    using boundary_of_bounds [OF assms] by (simp_all add: boundary_def)
qed

text \<open>A cut that is not the hard limit stands right after a separator.\<close>

lemma boundary_of_after:
  "boundary_of runes start stop prev seps = stop
   \<or> (\<exists>sep \<in> set seps. length sep \<le> boundary_of runes start stop prev seps
        \<and> hasAt runes (boundary_of runes start stop prev seps - length sep) sep)"
proof (induction seps)
  case (Cons sep seps)
  let ?f = "find (\<lambda>i. hasAt runes i sep) (rev [Suc (max start (prev - length sep))..<Suc (stop - length sep)])"
  show ?case
  proof (cases ?f)
    case None
    then have "boundary_of runes start stop prev (sep # seps) = boundary_of runes start stop prev seps"
      by (simp add: Let_def)
    then show ?thesis using Cons by auto
  next
    case (Some i)
    then have "hasAt runes i sep" by (metis find_Some_iff2)
    then show ?thesis using Some by (auto simp: Let_def)
  qed
qed simp

lemma split_overlap_bounds: "0 < ckSize cfg \<Longrightarrow> 0 \<le> split_overlap cfg \<and> split_overlap cfg < ckSize cfg"
  by (auto simp: split_overlap_def Let_def)

section \<open>What the loop covers\<close>

text \<open>
  The pieces of the text that the chunks are cut from: each starts inside or right after the
  one before and reaches further.
\<close>

definition next_piece :: "nat \<times> nat \<Rightarrow> nat \<times> nat \<Rightarrow> bool" where
  "next_piece p q \<longleftrightarrow> fst p < fst q \<and> fst q \<le> snd p \<and> snd p < snd q"

definition piece_ok :: "nat \<Rightarrow> int \<Rightarrow> nat \<times> nat \<Rightarrow> bool" where
  "piece_ok n mx p \<longleftrightarrow> fst p < snd p \<and> snd p \<le> n \<and> int (snd p - fst p) \<le> mx"

definition texts_of :: "runes \<Rightarrow> (nat \<times> nat) list \<Rightarrow> string list" where
  "texts_of runes ps = filter (\<lambda>s. s \<noteq> '''') (map (\<lambda>p. segment runes (fst p) (snd p)) ps)"

lemma texts_of_Cons: "out @ texts_of runes ((a, b) # ps) = add_segment out (segment runes a b) @ texts_of runes ps"
  by (simp add: texts_of_def add_segment_def)

lemma add_segment_length: "length (add_segment out s) \<le> Suc (length out)"
  by (simp add: add_segment_def)

lemma split_loop_spec:
  assumes "0 \<le> overlap" and "overlap < ckSize cfg" and "start < length runes" and "prev < start + nat (ckSize cfg)"
    and "prev < length runes"
  shows "\<exists>r ps. split_loop cfg runes overlap start prev out = Some r
    \<and> srChunks r = out @ texts_of runes ps \<and> list_all (piece_ok (length runes) (ckSize cfg)) ps
    \<and> successively next_piece ps \<and> (ps = [] \<or> fst (hd ps) = start \<and> prev < snd (hd ps))
    \<and> (srTruncated r \<or> ps \<noteq> [] \<and> snd (last ps) = length runes)
    \<and> (ckMaxChunks cfg \<le> 0 \<or> int (length (srChunks r)) \<le> max (ckMaxChunks cfg) (int (length out)))"
  using assms(3-5)
proof (induction "length runes - start" arbitrary: start prev out rule: less_induct)
  case less
  let ?size = "nat (ckSize cfg)"
  let ?stop = "start + ?size"
  have size: "0 < ?size" using assms(1,2) by simp
  consider (full) "0 < ckMaxChunks cfg \<and> ckMaxChunks cfg \<le> int (length out)"
    | (tail) "\<not> (0 < ckMaxChunks cfg \<and> ckMaxChunks cfg \<le> int (length out))" "length runes \<le> ?stop"
    | (cut) "\<not> (0 < ckMaxChunks cfg \<and> ckMaxChunks cfg \<le> int (length out))" "?stop < length runes"
    by linarith
  then show ?case
  proof cases
    case full
    then show ?thesis
      using less.prems(1) by (subst split_loop.simps) (auto intro!: exI [of _ "[]"] simp: texts_of_def)
  next
    case tail
    let ?ps = "[(start, length runes)]"
    let ?out = "add_segment out (segment runes start (length runes))"
    have "split_loop cfg runes overlap start prev out = Some \<lparr> srChunks = ?out, srTruncated = False \<rparr>"
      using tail less.prems(1) by (subst split_loop.simps) auto
    moreover have "?out = out @ texts_of runes ?ps"
      by (simp add: texts_of_def add_segment_def)
    moreover have "piece_ok (length runes) (ckSize cfg) (start, length runes)"
      using tail(2) less.prems(1) size by (simp add: piece_ok_def)
    moreover have "ckMaxChunks cfg \<le> 0 \<or> int (length ?out) \<le> max (ckMaxChunks cfg) (int (length out))"
      using tail(1) add_segment_length [of out "segment runes start (length runes)"] by linarith
    ultimately show ?thesis using less.prems(3)
      by (intro exI [of _ "\<lparr> srChunks = ?out, srTruncated = False \<rparr>"] exI [of _ ?ps]) simp
  next
    case cut
    define c where "c = boundary runes start ?stop prev"
    define nxt where "nxt = (if int c - overlap \<le> int start then c else nat (int c - overlap))"
    let ?out = "add_segment out (segment runes start c)"
    have c: "start < c" "prev < c" "c \<le> ?stop"
      unfolding c_def using boundary_bounds [of start ?stop prev] size less.prems(2) by simp_all
    have n: "start < nxt" "nxt \<le> c" "c < nxt + ?size" "c < length runes"
      using c assms(1,2) size cut(2) by (auto simp: nxt_def)
    have loop: "split_loop cfg runes overlap start prev out = split_loop cfg runes overlap nxt c ?out"
      unfolding nxt_def c_def by (subst split_loop.simps) (use cut less.prems(1) in auto)
    obtain r ps where r: "split_loop cfg runes overlap nxt c ?out = Some r"
        "srChunks r = ?out @ texts_of runes ps" "list_all (piece_ok (length runes) (ckSize cfg)) ps"
        "successively next_piece ps" "ps = [] \<or> fst (hd ps) = nxt \<and> c < snd (hd ps)"
        "srTruncated r \<or> ps \<noteq> [] \<and> snd (last ps) = length runes"
        "ckMaxChunks cfg \<le> 0 \<or> int (length (srChunks r)) \<le> max (ckMaxChunks cfg) (int (length ?out))"
    proof -
      have "length runes - nxt < length runes - start" "nxt < length runes" using n less.prems(1) by linarith+
      note less.hyps [OF this n(3,4), of ?out]
      then show thesis by (elim exE conjE) (rule that)
    qed
    have "srChunks r = out @ texts_of runes ((start, c) # ps)" using r(2) by (simp add: texts_of_Cons)
    moreover have "piece_ok (length runes) (ckSize cfg) (start, c)" using c n(4) size by (simp add: piece_ok_def)
    moreover have "successively next_piece ((start, c) # ps)"
      using r(4,5) n by (cases ps) (auto simp: next_piece_def)
    moreover have "ckMaxChunks cfg \<le> 0 \<or> int (length (srChunks r)) \<le> max (ckMaxChunks cfg) (int (length out))"
      using r(7) cut(1) add_segment_length [of out "segment runes start c"] by linarith
    ultimately show ?thesis
      using loop r(1,3,6) c(2) by (intro exI [of _ r] exI [of _ "(start, c) # ps"]) auto
  qed
qed

lemma Split_spec:
  "\<exists>r ps. Split content cfg = Some r \<and> srChunks r = texts_of (runes_of content) ps
    \<and> list_all (piece_ok (length (runes_of content)) (ckSize cfg)) ps \<and> successively next_piece ps
    \<and> (ps = [] \<or> fst (hd ps) = 0)
    \<and> (if ckSize cfg \<le> 0 \<or> content = '''' \<or> 0 < ckMinContent cfg \<and> int (length (runes_of content)) \<le> ckMinContent cfg
       then srChunks r = [] \<and> \<not> srTruncated r
       else srTruncated r \<or> ps \<noteq> [] \<and> snd (last ps) = length (runes_of content))
    \<and> (ckMaxChunks cfg \<le> 0 \<or> int (length (srChunks r)) \<le> ckMaxChunks cfg)"
proof (cases "ckSize cfg \<le> 0 \<or> 0 < ckMinContent cfg \<and> int (length (runes_of content)) \<le> ckMinContent cfg \<or> content = ''''")
  case True
  then have "Split content cfg = Some \<lparr> srChunks = [], srTruncated = False \<rparr>" by (auto simp: Split_def Let_def)
  then show ?thesis using True by (auto intro!: exI [of _ "[]"] simp: texts_of_def)
next
  case False
  then have "Split content cfg = split_loop cfg (runes_of content) (split_overlap cfg) 0 0 []" by (auto simp: Split_def Let_def)
  moreover have "\<exists>r ps. split_loop cfg (runes_of content) (split_overlap cfg) 0 0 [] = Some r
    \<and> srChunks r = [] @ texts_of (runes_of content) ps \<and> list_all (piece_ok (length (runes_of content)) (ckSize cfg)) ps
    \<and> successively next_piece ps \<and> (ps = [] \<or> fst (hd ps) = 0 \<and> 0 < snd (hd ps))
    \<and> (srTruncated r \<or> ps \<noteq> [] \<and> snd (last ps) = length (runes_of content))
    \<and> (ckMaxChunks cfg \<le> 0 \<or> int (length (srChunks r)) \<le> max (ckMaxChunks cfg) (int (length ([] :: string list))))"
    by (rule split_loop_spec) (use False split_overlap_bounds [of cfg] in auto)
  then obtain r ps where r: "split_loop cfg (runes_of content) (split_overlap cfg) 0 0 [] = Some r"
      "srChunks r = [] @ texts_of (runes_of content) ps" "list_all (piece_ok (length (runes_of content)) (ckSize cfg)) ps"
      "successively next_piece ps" "ps = [] \<or> fst (hd ps) = 0 \<and> 0 < snd (hd ps)"
      "srTruncated r \<or> ps \<noteq> [] \<and> snd (last ps) = length (runes_of content)"
      "ckMaxChunks cfg \<le> 0 \<or> int (length (srChunks r)) \<le> max (ckMaxChunks cfg) (int (length ([] :: string list)))"
    by (elim exE conjE) (rule that)
  moreover have "ckMaxChunks cfg \<le> 0 \<or> int (length (srChunks r)) \<le> ckMaxChunks cfg" using r(7) by auto
  ultimately show ?thesis using False by (intro exI [of _ r] exI [of _ ps]) auto
qed

text \<open>Every position of the text lies in a piece.\<close>

lemma pieces_cover:
  "successively next_piece ps \<Longrightarrow> ps \<noteq> [] \<Longrightarrow> fst (hd ps) \<le> i \<Longrightarrow> i < snd (last ps) \<Longrightarrow>
   \<exists>p \<in> set ps. fst p \<le> i \<and> i < snd p"
proof (induction ps)
  case (Cons p ps)
  show ?case
  proof (cases "i < snd p")
    case True
    then show ?thesis using Cons.prems(3) by auto
  next
    case False
    then have ps: "ps \<noteq> []" using Cons.prems(4) by auto
    then have "next_piece p (hd ps)" "successively next_piece ps"
      using Cons.prems(1) by (cases ps; simp)+
    then have "\<exists>q \<in> set ps. fst q \<le> i \<and> i < snd q"
      using Cons.IH ps False Cons.prems(4) by (auto simp: next_piece_def)
    then show ?thesis by auto
  qed
qed simp

section \<open>What a chunk is\<close>

text \<open>No chunk cuts a rune: the runes of a chunk are runes of the text, in one piece.\<close>

lemma runes_of_segment: "runes_of (segment (runes_of content) a b) = trim_runes (take (b - a) (drop a (runes_of content)))"
proof -
  have "set (trim_runes (take (b - a) (drop a (runes_of content)))) \<subseteq> set (runes_of content)"
    by (rule subset_trans [OF trim_runes_set]) (meson order_trans set_drop_subset set_take_subset)
  then have "list_all code_point (trim_runes (take (b - a) (drop a (runes_of content))))"
    using runes_of_code_points [of content] by (auto simp: list_all_iff)
  then show ?thesis unfolding segment_def by (rule runes_of_string_of_runes)
qed

lemma segment_not_blank:
  assumes "segment (runes_of content) a b \<noteq> ''''"
  shows "\<not> IsWhitespaceOnly (segment (runes_of content) a b)"
  using assms trim_runes_not_blank [of "take (b - a) (drop a (runes_of content))"]
  unfolding IsWhitespaceOnly_def runes_of_segment by (simp add: segment_def)

text \<open>The runes of the chunks.\<close>

lemma runes_of_texts:
  "map runes_of (texts_of (runes_of content) ps)
     = filter (\<lambda>rs. rs \<noteq> []) (map (\<lambda>p. trim_runes (take (snd p - fst p) (drop (fst p) (runes_of content)))) ps)"
  by (induction ps) (simp_all add: texts_of_def runes_of_segment, simp_all add: segment_def)

end
