(* ===== verification/Text_Properties.thy ===== *)
theory Text_Properties
  imports Chunking Sanitize
begin

text \<open>What the service may rely on when it cuts and cleans texts.\<close>

text \<open>
  C40: Splitting a text terminates for every configuration. The runes of the chunks are the
  trimmed, non-empty runes of consecutive pieces of the text's runes (so no rune is cut in two)
  that start at the beginning, advance, overlap or touch and are never longer than the size;
  there are at most \<open>MaxChunks\<close> of them; a text of at most \<open>MinContent\<close> runes is not split; and a
  text that is long enough to be split is covered to its last rune unless truncation is reported.
\<close>

theorem split_covers:
  "\<exists>r ps. Split content cfg = Some r
    \<and> map runes_of (srChunks r)
        = filter (\<lambda>rs. rs \<noteq> []) (map (\<lambda>p. trim_runes (take (snd p - fst p) (drop (fst p) (runes_of content)))) ps)
    \<and> list_all (\<lambda>p. fst p < snd p \<and> snd p \<le> length (runes_of content) \<and> int (snd p - fst p) \<le> ckSize cfg) ps
    \<and> successively (\<lambda>p q. fst p < fst q \<and> fst q \<le> snd p \<and> snd p < snd q) ps
    \<and> (ps = [] \<or> fst (hd ps) = 0)
    \<and> (if ckSize cfg \<le> 0 \<or> content = '''' \<or> 0 < ckMinContent cfg \<and> int (length (runes_of content)) \<le> ckMinContent cfg
       then srChunks r = [] \<and> \<not> srTruncated r
       else srTruncated r \<or> ps \<noteq> [] \<and> snd (last ps) = length (runes_of content))
    \<and> (ckMaxChunks cfg \<le> 0 \<or> int (length (srChunks r)) \<le> ckMaxChunks cfg)"
proof -
  have p: "piece_ok n mx = (\<lambda>p. fst p < snd p \<and> snd p \<le> n \<and> int (snd p - fst p) \<le> mx)" for n mx
    by (intro ext) (simp add: piece_ok_def)
  have n: "next_piece = (\<lambda>p q. fst p < fst q \<and> fst q \<le> snd p \<and> snd p < snd q)"
    by (intro ext) (simp add: next_piece_def)
  note spec = Split_spec [of content cfg, unfolded p n]
  show ?thesis
    by (rule exE [OF spec], erule exE) (rule exI, rule exI, (elim conjE, intro conjI; assumption?), simp add: runes_of_texts)
qed

text \<open>
  Cleaning a text twice changes nothing more; what remains is exactly the text's valid
  UTF-8 units, in order, whose rune is no control code, no replacement character and no
  non-character.
\<close>

theorem clean_fixpoint:
  "Clean (Clean s) = Clean s
    \<and> units (bytes_of (Clean s)) = filter (\<lambda>u. keeps_rune (rune_of u)) (units (bytes_of s))
    \<and> concat (units (bytes_of (Clean s))) = bytes_of (Clean s)"
proof -
  have e: "bytes_of (Clean s) = concat (filter (\<lambda>u. keeps_rune (rune_of u)) (units (bytes_of s)))"
    unfolding Clean_units by (rule bytes_of_string_of, rule concat_units_small [of _ s]) auto
  have "concat (units (bytes_of (Clean s))) = bytes_of (Clean s)"
    by (subst units_Clean) (rule e [symmetric])
  then show ?thesis using Clean_idem units_Clean by blast
qed

end
