(* ===== verification/Write_Stages.thy ===== *)
theory Write_Stages
  imports Recall Sanitize
begin

text \<open>
  The steps of a write of \<open>internal/service/service.go\<close>, \<open>handoff.go\<close> and
  \<open>capture_hygiene.go\<close> up to the decision to store: validation and the tier, the stamps on
  the metadata, scrubbing and cleaning, the value gate, the embedding, and the fields of the
  new memory. Metadata is a value here: the code's updates in place of the request's own map
  are the updates of the record.
\<close>

section \<open>The service's writing half\<close>

datatype Kind = KindDecision | KindPreference | KindProblem | KindFact | KindHowTo

definition Kind_Tier :: "Kind \<Rightarrow> Tier" where
  "Kind_Tier k = (if k = KindPreference \<or> k = KindHowTo then TierProcedural else TierSemantic)"

type_synonym WriteDedupAction = string

abbreviation WriteDedupOff :: WriteDedupAction where "WriteDedupOff \<equiv> ''off''"
abbreviation WriteDedupHint :: WriteDedupAction where "WriteDedupHint \<equiv> ''hint''"
abbreviation WriteDedupCoalesce :: WriteDedupAction where "WriteDedupCoalesce \<equiv> ''coalesce''"
abbreviation WriteDedupSupersede :: WriteDedupAction where "WriteDedupSupersede \<equiv> ''supersede''"

type_synonym ConsolidateMode = string

abbreviation ConsolidateAsync :: ConsolidateMode where "ConsolidateAsync \<equiv> ''async''"
abbreviation ConsolidateSync :: ConsolidateMode where "ConsolidateSync \<equiv> ''sync''"
abbreviation ConsolidateOff :: ConsolidateMode where "ConsolidateOff \<equiv> ''off''"

type_synonym Action = string

abbreviation ActionUpdate :: Action where "ActionUpdate \<equiv> ''update''"
abbreviation ActionSupersede :: Action where "ActionSupersede \<equiv> ''supersede''"

record Decision =
  dAction :: Action
  dTarget :: string
  dContent :: string
  dSummary :: string
  dLinkedIDs :: "string list"
  dImportance :: "real option"

text \<open>
  The fields a write uses. Functions that the development does not translate are fields too:
  \<open>classifyWith\<close> (\<open>extract.ClassifyWith\<close>), \<open>secrets\<close> (\<open>redact.Secrets\<close>), \<open>scriptOf\<close> (the
  Unicode tables), \<open>stripCapture\<close> (\<open>stripCaptureBoilerplate\<close>), \<open>signalChars\<close>
  (\<open>episodicSignalChars\<close>) and \<open>contradicts\<close> (\<open>contradict.Classify\<close> answering an update).
  \<open>consolidator\<close> gets the content, the tier and the candidates, and answers nothing on an error.
\<close>

record writer = service +
  consolidator :: "(string \<Rightarrow> Tier \<Rightarrow> (string \<times> string) list \<Rightarrow> Decision option) option"
  consolidateMode :: ConsolidateMode
  consolidateMinScore :: real
  classifyWith :: "string \<Rightarrow> int \<Rightarrow> Kind option"
  classifyMaxChars :: int
  secrets :: "string \<Rightarrow> string"
  redactSecrets :: bool
  scriptOf :: "nat \<Rightarrow> string"
  quarantineGarbled :: bool
  stripCapture :: "string \<Rightarrow> string"
  signalChars :: "string \<Rightarrow> int"
  episodicMinChars :: int
  writeEmbedTimeout :: Duration
  fingerprintDedup :: bool
  writeDedupScore :: real
  writeDedupAction :: WriteDedupAction
  splitDedupLLMMerge :: bool
  corroborateMinScore :: real
  contradictMinScore :: real
  contradicts :: "string \<Rightarrow> string \<Rightarrow> bool"
  hasDistiller :: bool
  distillOnWrite :: bool
  extractOnWrite :: bool

record RememberInput =
  wNamespace :: string
  wHome :: string
  wVisibility :: string
  wContent :: string
  wTier :: Tier
  wSummary :: string
  wTags :: "string list"
  wMetadata :: metadata
  wImportance :: real
  wTTL :: "Duration option"
  wID :: string
  wConfidence :: "real option"
  wAssessedImportance :: "real option"
  ClearAssessedImportance :: bool
  wValidFrom :: "Time option"
  wValidTo :: "Time option"
  wLevel :: Level
  wAuthor :: string

datatype remember_error =
    NamespaceRequired
  | ContentRequired
  | InvalidTier Tier
  | InvalidLevel Level
  | SlotNotString
  | SlotEmpty
  | SlotTooLong nat
  | VisibilityRefused read_error
  | EmptyAfterCleaning
  | WriteEmbedFailed embed_error
  | WriteStoreFailed store_error

section \<open>Handoffs\<close>

abbreviation HandoffTag :: string where "HandoffTag \<equiv> ''handoff''"
abbreviation MetaHandoffSlot :: string where "MetaHandoffSlot \<equiv> ''handoff_slot''"
abbreviation HandoffMemoryType :: string where "HandoffMemoryType \<equiv> ''handoff''"
abbreviation handoffMarkerValue :: string where "handoffMarkerValue \<equiv> ''1''"
abbreviation DefaultHandoffSlot :: string where "DefaultHandoffSlot \<equiv> ''main''"
abbreviation maxHandoffSlot :: nat where "maxHandoffSlot \<equiv> 200"

definition isHandoff :: "string list \<Rightarrow> bool" where
  "isHandoff tags \<longleftrightarrow> HandoffTag \<in> set tags"

definition metaString :: "metadata \<Rightarrow> string \<Rightarrow> string" where
  "metaString m key = (case m key of Some (JStr s) \<Rightarrow> s | _ \<Rightarrow> '''')"

definition handoffSlot :: "metadata \<Rightarrow> string" where
  "handoffSlot m =
     (let slot = TrimSpace (metaString m MetaHandoffSlot)
      in if slot = '''' \<or> maxHandoffSlot < length slot then DefaultHandoffSlot else slot)"

definition stampHandoff :: "RememberInput \<Rightarrow> RememberInput" where
  "stampHandoff q =
     (if \<not> isHandoff (wTags q) then q
      else q\<lparr> wMetadata := (wMetadata q)
                (''memory_type'' \<mapsto> JStr HandoffMemoryType, MetaHandoffMarker \<mapsto> JStr handoffMarkerValue,
                 MetaHandoffSlot \<mapsto> JStr (handoffSlot (wMetadata q))) \<rparr>)"

definition validateHandoffSlot :: "RememberInput \<Rightarrow> remember_error option" where
  "validateHandoffSlot q =
     (if \<not> isHandoff (wTags q) then None
      else case wMetadata q MetaHandoffSlot of
             None \<Rightarrow> None
           | Some JNull \<Rightarrow> None
           | Some (JStr slot) \<Rightarrow>
               (if TrimSpace slot = '''' then Some SlotEmpty
                else if maxHandoffSlot < length (TrimSpace slot) then Some (SlotTooLong (length (TrimSpace slot)))
                else None)
           | Some _ \<Rightarrow> Some SlotNotString)"

definition handoffExclusion :: "(string \<times> string) list" where
  "handoffExclusion = [(MetaHandoffMarker, handoffMarkerValue)]"

section \<open>Validation and stamps\<close>

definition defaultTier :: "writer \<Rightarrow> RememberInput \<Rightarrow> Tier" where
  "defaultTier w q =
     (if isHandoff (wTags q) then TierProcedural
      else case classifyWith w (wContent q) (classifyMaxChars w) of
             Some kind \<Rightarrow> Kind_Tier kind
           | None \<Rightarrow> TierWorking)"

definition validateRememberInput :: "writer \<Rightarrow> RememberInput \<Rightarrow> remember_error + RememberInput \<times> Tier" where
  "validateRememberInput w q =
     (if wNamespace q = '''' then Inl NamespaceRequired
      else if wContent q = '''' then Inl ContentRequired
      else let tier = (if wTier q = '''' then defaultTier w q else wTier q) in
        if \<not> Tier_Valid tier then Inl (InvalidTier tier)
        else if wLevel q \<noteq> '''' \<and> \<not> Level_Valid (wLevel q) then Inl (InvalidLevel (wLevel q))
        else case validateHandoffSlot q of
               Some e \<Rightarrow> Inl e
             | None \<Rightarrow>
                 (case resolveVisibility (wNamespace q) (wVisibility q) (wHome q) tier of
                    Inl e \<Rightarrow> Inl (VisibilityRefused e)
                  | Inr ns \<Rightarrow> Inr (q\<lparr> wNamespace := ns \<rparr>, tier)))"

definition stampClassifiedTier :: "Tier \<Rightarrow> RememberInput \<Rightarrow> RememberInput" where
  "stampClassifiedTier tier q =
     (if wTier q \<noteq> '''' \<or> Tier_Term tier \<noteq> LongTerm then q
      else q\<lparr> wMetadata := (wMetadata q)(''tier_classified'' \<mapsto> JStr ''marker'') \<rparr>)"

definition stampAuthor :: "RememberInput \<Rightarrow> RememberInput" where
  "stampAuthor q =
     (if wAuthor q = '''' \<or> wMetadata q ''author'' \<noteq> None then q
      else q\<lparr> wMetadata := (wMetadata q)(''author'' \<mapsto> JStr (wAuthor q)) \<rparr>)"

section \<open>Scrubbing and cleaning\<close>

text \<open>\<open>redact.Metadata\<close>: every string value, at every depth.\<close>

primrec redact_value :: "(string \<Rightarrow> string) \<Rightarrow> json \<Rightarrow> json" where
  "redact_value f JNull = JNull"
| "redact_value f (JBool b) = JBool b"
| "redact_value f (JNum x) = JNum x"
| "redact_value f (JStr s) = JStr (f s)"
| "redact_value f (JArr xs) = JArr (map (redact_value f) xs)"
| "redact_value f (JObj kvs) = JObj (map (map_prod id (redact_value f)) kvs)"

definition redact_metadata :: "(string \<Rightarrow> string) \<Rightarrow> metadata \<Rightarrow> metadata" where
  "redact_metadata f m = (\<lambda>k. map_option (redact_value f) (m k))"

definition scrubInput :: "writer \<Rightarrow> RememberInput \<Rightarrow> RememberInput" where
  "scrubInput w q =
     (if \<not> redactSecrets w then q
      else q\<lparr> wContent := secrets w (wContent q), wSummary := secrets w (wSummary q),
              wMetadata := redact_metadata (secrets w) (wMetadata q) \<rparr>)"

definition sanitizeContent :: "writer \<Rightarrow> RememberInput \<Rightarrow> remember_error + RememberInput" where
  "sanitizeContent w q0 =
     (let q = q0\<lparr> wContent := Clean (wContent q0), wSummary := Clean (wSummary q0) \<rparr> in
      if wContent q = '''' then Inl EmptyAfterCleaning
      else if quarantineGarbled w \<and> Garbled (scriptOf w) (wContent q)
      then Inr (q\<lparr> wImportance := 0, wMetadata := (wMetadata q)(''quarantined'' \<mapsto> JBool True) \<rparr>)
      else Inr q)"

definition dropsLowSignalEpisodic :: "writer \<Rightarrow> Tier \<Rightarrow> string \<Rightarrow> bool" where
  "dropsLowSignalEpisodic w tier content \<longleftrightarrow>
     tier = TierEpisodic \<and> 0 < episodicMinChars w \<and> signalChars w content < episodicMinChars w"

text \<open>The decision to drop, and the request with its content rewritten.\<close>

definition dropsAsCaptureOrLowSignal :: "writer \<Rightarrow> Tier \<Rightarrow> RememberInput \<Rightarrow> bool \<times> RememberInput" where
  "dropsAsCaptureOrLowSignal w tier q =
     (let q' = (if isTurnCapture (wMetadata q) then q\<lparr> wContent := stripCapture w (wContent q) \<rparr> else q)
      in (isTurnCapture (wMetadata q) \<and> wContent q' = '''' \<or> dropsLowSignalEpisodic w tier (wContent q'), q'))"

section \<open>Fields of the new memory\<close>

definition quarantined :: "metadata \<Rightarrow> bool" where
  "quarantined m \<longleftrightarrow> m ''quarantined'' = Some (JBool True)"

definition resolveImportance :: "RememberInput \<Rightarrow> memory option \<Rightarrow> Tier \<Rightarrow> real" where
  "resolveImportance q existing tier =
     (if wImportance q \<noteq> 0 then wImportance q
      else if quarantined (wMetadata q) then 0
      else case existing of Some e \<Rightarrow> Importance e | None \<Rightarrow> SeedImportance tier)"

definition explicitImportance :: "RememberInput \<Rightarrow> memory option \<Rightarrow> bool" where
  "explicitImportance q existing \<longleftrightarrow>
     ClearAssessedImportance q
     \<or> wImportance q \<noteq> 0 \<and> (case existing of None \<Rightarrow> True | Some e \<Rightarrow> wImportance q \<noteq> Importance e)"

definition clampConfidence :: "real \<Rightarrow> real" where
  "clampConfidence c = (if c < 1 / 10 then 1 / 10 else if 7 / 10 < c then 7 / 10 else c)"

definition clampAssessedImportance :: "real \<Rightarrow> real" where
  "clampAssessedImportance v = (if v < 1 / 10 then 1 / 10 else if 9 / 10 < v then 9 / 10 else v)"

definition resolveAssessedImportance :: "RememberInput \<Rightarrow> memory option \<Rightarrow> real option" where
  "resolveAssessedImportance q existing =
     (if explicitImportance q existing then None
      else if quarantined (wMetadata q) then None
      else case wAssessedImportance q of
             Some a \<Rightarrow> Some (clampAssessedImportance a)
           | None \<Rightarrow> (case existing of Some e \<Rightarrow> AssessedImportance e | None \<Rightarrow> None))"

definition resolveExpiry :: "Time \<Rightarrow> Tier \<Rightarrow> Duration option \<Rightarrow> Time option" where
  "resolveExpiry now tier ttl =
     (case ttl of
        Some t \<Rightarrow> if t < 0 then None else if t = 0 then None else Some (now + t)
      | None \<Rightarrow> if DefaultTTL tier \<le> 0 then None else Some (now + DefaultTTL tier))"

abbreviation ttlSecondsMetaKey :: string where "ttlSecondsMetaKey \<equiv> ''ttl_seconds''"

definition markCustomTTL :: "Duration option \<Rightarrow> metadata \<Rightarrow> metadata" where
  "markCustomTTL ttl m =
     (case ttl of
        Some t \<Rightarrow> if t \<le> 0 then m else m(ttlSecondsMetaKey \<mapsto> JNum (of_int (t div Second)))
      | None \<Rightarrow> m)"

definition degradedRepairState :: "vec \<Rightarrow> string" where
  "degradedRepairState v = (if v = [] then RepairPending else '''')"

definition resolve_confidence :: "RememberInput \<Rightarrow> memory option \<Rightarrow> Tier \<Rightarrow> real option" where
  "resolve_confidence q existing tier =
     (if Tier_Term tier \<noteq> LongTerm then None
      else case wConfidence q of
             Some c \<Rightarrow> Some (clampConfidence c)
           | None \<Rightarrow> (case existing of Some e \<Rightarrow> Confidence e | None \<Rightarrow> Some ConfidenceSeedFresh))"

definition resolve_valid_from :: "Time \<Rightarrow> RememberInput \<Rightarrow> memory option \<Rightarrow> Time option" where
  "resolve_valid_from now q existing =
     (case wValidFrom q of
        Some t \<Rightarrow> Some t
      | None \<Rightarrow> (case existing of Some e \<Rightarrow> ValidFrom e | None \<Rightarrow> Some now))"

definition resolve_valid_to :: "RememberInput \<Rightarrow> memory option \<Rightarrow> Time option" where
  "resolve_valid_to q existing =
     (case wValidTo q of
        Some t \<Rightarrow> Some t
      | None \<Rightarrow> (case existing of Some e \<Rightarrow> ValidTo e | None \<Rightarrow> None))"

text \<open>The memory that a write is about to store.\<close>

definition new_memory :: "Time \<Rightarrow> string \<Rightarrow> RememberInput \<Rightarrow> Tier \<Rightarrow> memory option \<Rightarrow> vec \<Rightarrow> memory" where
  "new_memory now i q tier existing v =
     (let expiry = resolveExpiry now tier (wTTL q) in
      \<lparr> ID = i, Namespace = wNamespace q, mTier = tier, mLevel = wLevel q, Content = wContent q,
        Summary = wSummary q,
        Metadata = (if expiry = None then wMetadata q else markCustomTTL (wTTL q) (wMetadata q)),
        Tags = wTags q, Importance = resolveImportance q existing tier,
        CreatedAt = (case existing of Some e \<Rightarrow> CreatedAt e | None \<Rightarrow> now),
        UpdatedAt = now, LastAccessedAt = now, AccessCount = 0, ExpiresAt = expiry, SupersededBy = None,
        ValidFrom = resolve_valid_from now q existing, ValidTo = resolve_valid_to q existing,
        Confidence = resolve_confidence q existing tier,
        AssessedImportance = resolveAssessedImportance q existing,
        LinkedMemoryIDs = [], Embedding = v, EmbedState = degradedRepairState v, Chunks = None \<rparr>)"

section \<open>Embedding\<close>

definition reusableVector :: "RememberInput \<Rightarrow> memory option \<Rightarrow> db \<Rightarrow> vec option" where
  "reusableVector q existing d =
     (case existing of
        None \<Rightarrow> None
      | Some e \<Rightarrow>
          if Content e \<noteq> wContent q then None
          else case GetEmbedding (wNamespace q) (wID q) d of
                 Inr (Some v) \<Rightarrow> if v = [] then None else Some v
               | _ \<Rightarrow> None)"

text \<open>The vector, empty for a degraded write, and the metadata with its flag set or cleared.\<close>

definition embedForRemember ::
    "writer \<Rightarrow> RememberInput \<Rightarrow> memory option \<Rightarrow> db \<Rightarrow> remember_error + vec \<times> RememberInput" where
  "embedForRemember w q existing d =
     (let cleared = q\<lparr> wMetadata := (wMetadata q)(PendingEmbedKey := None) \<rparr> in
      case reusableVector q existing d of
        Some v \<Rightarrow> Inr (v, cleared)
      | None \<Rightarrow>
          (case embedder w (wContent q) of
             Inr v \<Rightarrow> Inr (v, cleared)
           | Inl e \<Rightarrow>
               if writeEmbedTimeout w \<le> 0 then Inl (WriteEmbedFailed e)
               else Inr ([], q\<lparr> wMetadata := (wMetadata q)(PendingEmbedKey \<mapsto> JStr PendingEmbedValue) \<rparr>)))"

section \<open>Preparing a write\<close>

text \<open>
  Everything before the store is asked: \<open>None\<close> for a write that the value gate drops, else the
  request as it will be stored, with its tier.
\<close>

definition prepare :: "writer \<Rightarrow> RememberInput \<Rightarrow> remember_error + (RememberInput \<times> Tier) option" where
  "prepare w q =
     (case validateRememberInput w q of
        Inl e \<Rightarrow> Inl e
      | Inr (q1, tier) \<Rightarrow>
          (case sanitizeContent w (scrubInput w (stampHandoff (stampAuthor (stampClassifiedTier tier q1)))) of
             Inl e \<Rightarrow> Inl e
           | Inr q2 \<Rightarrow>
               (case dropsAsCaptureOrLowSignal w tier q2 of
                  (True, _) \<Rightarrow> Inr None
                | (False, q3) \<Rightarrow> Inr (Some (q3, tier)))))"

end
