(* ===== verification/Remember.thy ===== *)
theory Remember
  imports Write_Stages
begin

text \<open>
  \<open>Remember\<close> of \<open>internal/service/service.go\<close> over the SQLite driver: the fingerprint fast
  path, the write-time dedup, the synchronous consolidation of \<open>consolidate.go\<close>, the write
  itself and the work it leaves for the background. A write answers an error, which leaves the
  database as it was, or the memory, the new database and the jobs it has started.
\<close>

section \<open>Circumstances, results and jobs\<close>

text \<open>
  The clock of the service, that of the driver, the next generated id, and the engine. The
  code reads its clock at each use; a call takes one reading here.
\<close>

record write_env =
  we_now :: Time
  we_wall :: Time
  we_newID :: string
  we_engine :: engine

record MergeHint =
  SimilarID :: string
  SimilarContent :: string
  hScore :: real
  hTier :: Tier

datatype job =
    JReinforceCorroborate memory
  | JSupersede string string string      \<comment> \<open>namespace, old id, new id\<close>
  | JConsolidate string string
  | JCorroborateNearest memory
  | JContradictNearest memory

datatype fact_build = BuildDistill | BuildExtract

record remember_out =
  rm_memory :: "memory option"
  rm_db :: db
  rm_jobs :: "job list"
  rm_facts :: "fact_build option"
  rm_tier :: Tier
  rm_reinforced :: bool
  rm_autoSuperseded :: bool
  rm_hint :: "MergeHint option"

section \<open>Exact restatements\<close>

definition fingerprintHit :: "writer \<Rightarrow> write_env \<Rightarrow> RememberInput \<Rightarrow> Tier \<Rightarrow> db \<Rightarrow> memory option" where
  "fingerprintHit w env q tier d =
     (if wID q \<noteq> '''' \<or> \<not> fingerprintDedup w then None
      else case GetByFingerprint (we_wall env) (wNamespace q) tier (Fingerprint (wContent q)) (we_now env) d of
             Inl e \<Rightarrow> None
           | Inr m \<Rightarrow> Some m)"

section \<open>Assessed importance\<close>

definition assessable :: "memory \<Rightarrow> bool" where
  "assessable m \<longleftrightarrow>
     (if quarantined (Metadata m) then False
      else AssessedImportance m \<noteq> None \<or> Importance m = SeedImportance (mTier m))"

definition stampAssessedImportance :: "Decision \<Rightarrow> memory \<Rightarrow> memory" where
  "stampAssessedImportance dec m =
     (case dImportance dec of
        None \<Rightarrow> m
      | Some v \<Rightarrow> if assessable m then m\<lparr> AssessedImportance := Some (clampAssessedImportance v) \<rparr> else m)"

section \<open>Write-time dedup\<close>

abbreviation dedupCandidates :: nat where "dedupCandidates \<equiv> 5"
abbreviation dedupLLMCloseness :: real where "dedupLLMCloseness \<equiv> 0.05"

definition wordSetScore :: "string \<Rightarrow> nat" where
  "wordSetScore s = (let ws = Fields (ToLower s) in length ws + 10 * length (remdups ws))"

text \<open>
  \<open>dedupCheck\<close>: the write folds into a stored memory, or goes on, with the memory as adjusted,
  a hint, and the id to supersede (empty for none).
\<close>

datatype dedup_verdict =
    Folded memory "job list" db
  | Proceed memory "MergeHint option" string

definition dedupLLMMerge :: "writer \<Rightarrow> memory \<Rightarrow> Scored list \<Rightarrow> db \<Rightarrow> (memory \<times> db) + string" where
  "dedupLLMMerge w m near d =
     (case consolidator w of
        None \<Rightarrow> Inr ''''
      | Some ask \<Rightarrow>
          (case ask (Content m) (mTier m) (map (\<lambda>c. (hit_id c, Content (sMemory c))) near) of
             None \<Rightarrow> Inr ''''
           | Some dec \<Rightarrow>
               if dAction dec = ActionSupersede then Inr (dTarget dec)
               else if dAction dec = ActionUpdate \<and> dTarget dec \<noteq> '''' then
                 let content = (if dContent dec = '''' then Content m else dContent dec) in
                 (case Get (Namespace m) (dTarget dec) d of
                    Inl _ \<Rightarrow> Inr ''''
                  | Inr target \<Rightarrow>
                      (case embedder w content of
                         Inl _ \<Rightarrow> Inr ''''
                       | Inr v \<Rightarrow>
                           let merged = target\<lparr> Content := content, Embedding := v,
                                 Summary := (if dSummary dec \<noteq> '''' then dSummary dec else Summary target) \<rparr> in
                           (case Upsert merged d of Inl _ \<Rightarrow> Inr '''' | Inr d' \<Rightarrow> Inl (merged, d'))))
               else Inr ''''))"

text \<open>A richer restatement takes over the trust and the assessment that the old one has earned.\<close>

definition carry_over :: "memory \<Rightarrow> memory \<Rightarrow> memory" where
  "carry_over old m =
     (let m1 = (case Confidence old of
                  None \<Rightarrow> m
                | Some c \<Rightarrow>
                    if (case Confidence m of None \<Rightarrow> True | Some c' \<Rightarrow> c' < c) then m\<lparr> Confidence := Some c \<rparr> else m)
      in (case AssessedImportance old of
            None \<Rightarrow> m1
          | Some a \<Rightarrow>
              if AssessedImportance m1 = None \<and> assessable m1 then m1\<lparr> AssessedImportance := Some a \<rparr> else m1))"

definition dedup_action :: "writer \<Rightarrow> memory \<Rightarrow> Scored \<Rightarrow> db \<Rightarrow> dedup_verdict" where
  "dedup_action w m best d =
     (let old = sMemory best in
      if writeDedupAction w = WriteDedupSupersede then Proceed m None (ID old)
      else if writeDedupAction w = WriteDedupHint then
        Proceed m (Some \<lparr> SimilarID = ID old,
            SimilarContent = (if 200 < length (Content old) then take 200 (Content old) @ ellipsis else Content old),
            hScore = Score best, hTier = mTier old \<rparr>) ''''
      else if writeDedupAction w = WriteDedupCoalesce then
        (if wordSetScore (Content old) < wordSetScore (Content m) then Proceed (carry_over old m) None (ID old)
         else Folded old [JReinforceCorroborate old] d)
      else Proceed m None '''')"

definition dedupCheck :: "writer \<Rightarrow> write_env \<Rightarrow> memory \<Rightarrow> db \<Rightarrow> dedup_verdict" where
  "dedupCheck w env m d =
     (case VectorSearch (we_engine env) (we_wall env) (Namespace m) (Embedding m)
             (no_filter\<lparr> fTiers := [mTier m], ExcludeMetadata := handoffExclusion, Now := we_now env \<rparr>) dedupCandidates d of
        Inl e \<Rightarrow> Proceed m None ''''
      | Inr cands \<Rightarrow>
          (case filter (\<lambda>c. writeDedupScore w \<le> Score c) cands of
             [] \<Rightarrow> Proceed m None ''''
           | best # rest \<Rightarrow>
               if splitDedupLLMMerge w \<and> consolidator w \<noteq> None \<and> rest \<noteq> []
                  \<and> Score best - Score (hd rest) < dedupLLMCloseness
               then (case dedupLLMMerge w m (best # rest) d of
                       Inl (target, d') \<Rightarrow> Folded target [] d'
                     | Inr sid \<Rightarrow> if sid \<noteq> '''' then Proceed m None sid else dedup_action w m best d)
               else dedup_action w m best d))"

definition runSplitDedup :: "writer \<Rightarrow> write_env \<Rightarrow> memory \<Rightarrow> db \<Rightarrow> dedup_verdict" where
  "runSplitDedup w env m d =
     (if writeDedupScore w \<le> 0 \<or> writeDedupAction w = WriteDedupOff \<or> writeDedupAction w = '''' then Proceed m None ''''
      else if Embedding m = [] then Proceed m None ''''
      else if writeDedupAction w = WriteDedupHint \<and> Tier_Term (mTier m) \<noteq> LongTerm then Proceed m None ''''
      else dedupCheck w env m d)"

section \<open>Consolidation\<close>

abbreviation consolidateCandidates :: nat where "consolidateCandidates \<equiv> 10"

definition consolidate_candidates ::
    "write_env \<Rightarrow> memory \<Rightarrow> string \<Rightarrow> db \<Rightarrow> store_error + Scored list" where
  "consolidate_candidates env m excludeID d =
     (let limit = (if excludeID \<noteq> '''' then consolidateCandidates + 1 else consolidateCandidates);
          f = no_filter\<lparr> fTiers := [TierSemantic, TierProcedural], ExcludeMetadata := handoffExclusion, Now := we_now env \<rparr>
      in case VectorSearch (we_engine env) (we_wall env) (Namespace m) (Embedding m) f limit d of
           Inl e \<Rightarrow> Inl e
         | Inr vecs \<Rightarrow>
             let kws = KeywordSearch (we_engine env) (we_wall env) (Namespace m) (Content m) f limit d;
                 near = filter (\<lambda>c. hit_id c \<noteq> excludeID) vecs
             in Inr (near @ filter (\<lambda>c. hit_id c \<noteq> excludeID \<and> hit_id c \<notin> hit_id ` set near) kws))"

definition gated :: "writer \<Rightarrow> Scored list \<Rightarrow> bool" where
  "gated w cands \<longleftrightarrow> (case cands of [] \<Rightarrow> True | c # _ \<Rightarrow> Score c < consolidateMinScore w)"

definition askConsolidator :: "writer \<Rightarrow> memory \<Rightarrow> Scored list \<Rightarrow> Decision option" where
  "askConsolidator w m cands =
     (case consolidator w of
        None \<Rightarrow> None
      | Some ask \<Rightarrow> ask (Content m) (mTier m) (map (\<lambda>c. (hit_id c, Content (sMemory c))) cands))"

text \<open>The stored target with the merged content: a re-observation, so its confidence grows.\<close>

definition merge_into :: "Time \<Rightarrow> Decision \<Rightarrow> string \<Rightarrow> vec \<Rightarrow> memory \<Rightarrow> memory" where
  "merge_into now dec content v target =
     stampAssessedImportance dec
       (target\<lparr> Content := content,
          Summary := (if dSummary dec \<noteq> '''' then dSummary dec else Summary target),
          UpdatedAt := now, Embedding := v,
          Confidence := (if Tier_Term (mTier target) = LongTerm \<and> Confidence target \<noteq> None
                         then Some (GrowConfidence (EffectiveConfidence
                                (target\<lparr> Content := content, UpdatedAt := now, Embedding := v \<rparr>) now))
                         else Confidence target) \<rparr>)"

definition applyUpdate ::
    "writer \<Rightarrow> write_env \<Rightarrow> memory \<Rightarrow> Decision \<Rightarrow> db \<Rightarrow> remember_error + (memory \<times> db) option" where
  "applyUpdate w env m dec d =
     (if dTarget dec = '''' then Inr None
      else let content = (if dContent dec = '''' then Content m else dContent dec) in
        (case embedder w content of
           Inl _ \<Rightarrow> Inr None
         | Inr v \<Rightarrow>
             (case Get (Namespace m) (dTarget dec) d of
                Inl _ \<Rightarrow> Inr None
              | Inr target \<Rightarrow>
                  let merged = merge_into (we_now env) dec content v target in
                  (case Upsert merged d of
                     Inl e \<Rightarrow> Inl (WriteStoreFailed e)
                   | Inr d' \<Rightarrow> Inr (Some (merged, d'))))))"

text \<open>The driver's only failure of the tombstone is a missing target, so no rollback is needed.\<close>

definition applySupersede ::
    "write_env \<Rightarrow> memory \<Rightarrow> Decision \<Rightarrow> db \<Rightarrow> remember_error + (memory \<times> db) option" where
  "applySupersede env m dec d =
     (case Upsert m d of
        Inl e \<Rightarrow> Inl (WriteStoreFailed e)
      | Inr d1 \<Rightarrow>
          if dTarget dec = '''' then Inr (Some (m, d1))
          else (case SetSuperseded (we_wall env) (Namespace m) (dTarget dec) (ID m) d1 of
                  Inr d2 \<Rightarrow> Inr (Some (m, d2))
                | Inl e \<Rightarrow> if e = ErrNotFound then Inr (Some (m, d1)) else Inl (WriteStoreFailed e)))"

text \<open>The memory as it goes on, and the result when the write has been handled.\<close>

definition consolidateSync ::
    "writer \<Rightarrow> write_env \<Rightarrow> memory \<Rightarrow> bool \<Rightarrow> db \<Rightarrow> remember_error + memory \<times> (memory \<times> db) option" where
  "consolidateSync w env m callerImportance d =
     (case consolidate_candidates env m '''' d of
        Inl _ \<Rightarrow> Inr (m, None)
      | Inr cands \<Rightarrow>
          if gated w cands then Inr (m, None)
          else (case askConsolidator w m cands of
                  None \<Rightarrow> Inr (m, None)
                | Some dec \<Rightarrow>
                    let m1 = m\<lparr> LinkedMemoryIDs := dLinkedIDs dec \<rparr>;
                        m2 = (if callerImportance then m1 else stampAssessedImportance dec m1)
                    in if dAction dec = ActionUpdate then map_sum id (Pair m2) (applyUpdate w env m2 dec d)
                       else if dAction dec = ActionSupersede then map_sum id (Pair m2) (applySupersede env m2 dec d)
                       else Inr (m2, None)))"

section \<open>The write\<close>

definition shouldConsolidate :: "writer \<Rightarrow> RememberInput \<Rightarrow> memory \<Rightarrow> bool" where
  "shouldConsolidate w q m \<longleftrightarrow>
     \<not> isHandoff (Tags m) \<and> wID q = '''' \<and> consolidator w \<noteq> None
     \<and> (mTier m = TierSemantic \<or> mTier m = TierProcedural) \<and> consolidateMode w \<noteq> ConsolidateOff"

definition shouldSplitDedup :: "RememberInput \<Rightarrow> memory \<Rightarrow> bool \<Rightarrow> bool" where
  "shouldSplitDedup q m consolidate \<longleftrightarrow> wID q = '''' \<and> \<not> consolidate \<and> \<not> isHandoff (Tags m)"

definition liveHandoffs :: "write_env \<Rightarrow> string \<Rightarrow> string \<Rightarrow> db \<Rightarrow> memory list" where
  "liveHandoffs env ns slot d =
     List_memories (we_engine env) (we_wall env) ns
       (no_filter\<lparr> Now := we_now env, fTags := [HandoffTag], fMetadata := [(MetaHandoffSlot, slot)] \<rparr>) 0 d"

definition priorHandoffIDs :: "write_env \<Rightarrow> RememberInput \<Rightarrow> memory \<Rightarrow> db \<Rightarrow> string list" where
  "priorHandoffIDs env q m d =
     (if wID q \<noteq> '''' \<or> \<not> isHandoff (Tags m) then []
      else filter (\<lambda>i. i \<noteq> ID m) (map ID (liveHandoffs env (Namespace m) (handoffSlot (Metadata m)) d)))"

definition asIDList :: "string \<Rightarrow> string list" where
  "asIDList i = (if i = '''' then [] else [i])"

definition fact_build_of :: "writer \<Rightarrow> Tier \<Rightarrow> bool \<Rightarrow> fact_build option" where
  "fact_build_of w tier isCreate =
     (if distillOnWrite w \<and> hasDistiller w \<and> Tier_Term tier = ShortTerm \<and> isCreate then Some BuildDistill
      else if extractOnWrite w \<and> \<not> hasDistiller w \<and> Tier_Term tier = ShortTerm \<and> isCreate then Some BuildExtract
      else None)"

text \<open>The queue of consolidation jobs exists in the asynchronous mode only; elsewhere nothing is queued.\<close>

definition enqueueConsolidate :: "writer \<Rightarrow> string \<Rightarrow> string \<Rightarrow> job list" where
  [simp]: "enqueueConsolidate w ns i =
     (if consolidator w \<noteq> None \<and> consolidateMode w = ConsolidateAsync then [JConsolidate ns i] else [])"

text \<open>The jobs that a stored write leaves behind, in the order the code starts them.\<close>

definition write_jobs :: "writer \<Rightarrow> RememberInput \<Rightarrow> memory \<Rightarrow> bool \<Rightarrow> string list \<Rightarrow> job list" where
  "write_jobs w q m consolidate supersedeIDs =
     map (\<lambda>i. JSupersede (Namespace m) i (ID m)) (filter (\<lambda>i. i \<noteq> '''') supersedeIDs)
     @ (if consolidate \<and> consolidateMode w = ConsolidateAsync then enqueueConsolidate w (Namespace m) (ID m) else [])
     @ (if wID q = '''' \<and> Tier_Term (mTier m) = ShortTerm \<and> 0 < corroborateMinScore w \<and> Embedding m \<noteq> []
        then [JCorroborateNearest m] else [])
     @ (if wID q = '''' \<and> Tier_Term (mTier m) = LongTerm \<and> 0 < contradictMinScore w \<and> Embedding m \<noteq> []
           \<and> \<not> isHandoff (Tags m)
        then [JContradictNearest m] else [])"

definition insert_write ::
    "writer \<Rightarrow> RememberInput \<Rightarrow> memory option \<Rightarrow> memory \<Rightarrow> bool \<Rightarrow> string list \<Rightarrow> MergeHint option \<Rightarrow> db
      \<Rightarrow> remember_error + remember_out" where
  "insert_write w q existing m consolidate supersedeIDs hint d =
     (case Upsert m d of
        Inl e \<Rightarrow> Inl (WriteStoreFailed e)
      | Inr d' \<Rightarrow>
          Inr \<lparr> rm_memory = Some m, rm_db = d', rm_jobs = write_jobs w q m consolidate supersedeIDs,
                rm_facts = fact_build_of w (mTier m) (existing = None), rm_tier = mTier m, rm_reinforced = False,
                rm_autoSuperseded = list_ex (\<lambda>i. i \<noteq> '''') supersedeIDs, rm_hint = hint \<rparr>)"

definition handled_write :: "memory option \<Rightarrow> db \<Rightarrow> job list \<Rightarrow> Tier \<Rightarrow> bool \<Rightarrow> remember_out" where
  "handled_write result d jobs tier reinforced =
     \<lparr> rm_memory = result, rm_db = d, rm_jobs = jobs, rm_facts = None, rm_tier = tier, rm_reinforced = reinforced,
       rm_autoSuperseded = False, rm_hint = None \<rparr>"

definition consolidate_then_insert ::
    "writer \<Rightarrow> write_env \<Rightarrow> RememberInput \<Rightarrow> memory option \<Rightarrow> memory \<Rightarrow> string list \<Rightarrow> MergeHint option \<Rightarrow> db
      \<Rightarrow> remember_error + remember_out" where
  "consolidate_then_insert w env q existing m supersedeIDs hint d =
     (let consolidate = shouldConsolidate w q m in
      if consolidate \<and> consolidateMode w = ConsolidateSync \<and> Embedding m \<noteq> [] then
        (case consolidateSync w env m (explicitImportance q existing) d of
           Inl e \<Rightarrow> Inl e
         | Inr (m', Some (result, d')) \<Rightarrow> Inr (handled_write (Some result) d' [] (mTier m) False)
         | Inr (m', None) \<Rightarrow> insert_write w q existing m' consolidate supersedeIDs hint d)
      else insert_write w q existing m consolidate supersedeIDs hint d)"

definition store_write ::
    "writer \<Rightarrow> write_env \<Rightarrow> RememberInput \<Rightarrow> memory option \<Rightarrow> memory \<Rightarrow> db \<Rightarrow> remember_error + remember_out" where
  "store_write w env q existing m d =
     (if shouldSplitDedup q m (shouldConsolidate w q m) then
        (case runSplitDedup w env m d of
           Folded hit jobs d' \<Rightarrow> Inr (handled_write (Some hit) d' jobs (mTier m) True)
         | Proceed m' hint sid \<Rightarrow> consolidate_then_insert w env q existing m' (asIDList sid) hint d)
      else consolidate_then_insert w env q existing m (priorHandoffIDs env q m d) None d)"

definition load_existing :: "RememberInput \<Rightarrow> db \<Rightarrow> memory option" where
  "load_existing q d =
     (if wID q = '''' then None
      else case Get (wNamespace q) (wID q) d of Inl _ \<Rightarrow> None | Inr e \<Rightarrow> Some e)"

definition remember_prepared ::
    "writer \<Rightarrow> write_env \<Rightarrow> RememberInput \<Rightarrow> Tier \<Rightarrow> db \<Rightarrow> remember_error + remember_out" where
  "remember_prepared w env q tier d =
     (case fingerprintHit w env q tier d of
        Some e \<Rightarrow> Inr (handled_write (Some e) d [JReinforceCorroborate e] tier True)
      | None \<Rightarrow>
          let existing = load_existing q d in
          (case embedForRemember w q existing d of
             Inl e \<Rightarrow> Inl e
           | Inr (v, q') \<Rightarrow>
               store_write w env q' existing
                 (new_memory (we_now env) (if wID q' = '''' then we_newID env else wID q') q' tier existing v) d))"

definition Remember :: "writer \<Rightarrow> write_env \<Rightarrow> RememberInput \<Rightarrow> db \<Rightarrow> remember_error + remember_out" where
  "Remember w env q d =
     (case prepare w q of
        Inl e \<Rightarrow> Inl e
      | Inr None \<Rightarrow> Inr (handled_write None d [] (if wTier q = '''' then defaultTier w q else wTier q) False)
      | Inr (Some (q', tier)) \<Rightarrow> remember_prepared w env q' tier d)"

end
