(* ===== verification/Write_Jobs.thy ===== *)
theory Write_Jobs
  imports Remember Store_Steps
begin

text \<open>
  The work that writes and recalls leave for the background, of \<open>internal/service/service.go\<close> and
  \<open>consolidate.go\<close>: reinforcement, corroboration of the nearest durable fact, invalidation of a
  contradicted one, tombstones, and the asynchronous consolidation. A job that fails logs and
  leaves the database as it is, which is what \<open>best_effort\<close> says.
\<close>

definition best_effort :: "db \<Rightarrow> store_error + db \<Rightarrow> db" where
  "best_effort d r = (case r of Inl _ \<Rightarrow> d | Inr d' \<Rightarrow> d')"

section \<open>Reinforcement\<close>

definition metaSeconds :: "json option \<Rightarrow> int option" where
  "metaSeconds v =
     (case v of
        Some (JNum x) \<Rightarrow> Some (if 0 \<le> x then \<lfloor>x\<rfloor> else \<lceil>x\<rceil>)
      | _ \<Rightarrow> None)"

definition reinforceTTL :: "memory \<Rightarrow> Duration" where
  "reinforceTTL m =
     (case metaSeconds (Metadata m ttlSecondsMetaKey) of
        Some secs \<Rightarrow> if 0 < secs then secs * Second else DefaultTTL (mTier m)
      | None \<Rightarrow> DefaultTTL (mTier m))"

definition reinforce_key :: "memory \<Rightarrow> string \<times> Duration" where
  "reinforce_key m = (Namespace m, reinforceTTL m)"

text \<open>
  One statement per namespace and lifetime. The code visits the groups in the order of a Go map;
  the groups update different rows.
\<close>

definition reinforce_group :: "Time \<Rightarrow> memory list \<Rightarrow> string \<times> Duration \<Rightarrow> db \<Rightarrow> db" where
  "reinforce_group now results k d =
     Reinforce (fst k) (map ID (filter (\<lambda>m. reinforce_key m = k) results)) now
       (if 0 < snd k then Some (now + snd k) else None) d"

definition reinforce :: "Time \<Rightarrow> memory list \<Rightarrow> db \<Rightarrow> db" where
  "reinforce now results d = fold (reinforce_group now results) (remdups (map reinforce_key results)) d"

abbreviation sessionEndIDPrefix :: string where "sessionEndIDPrefix \<equiv> ''session-end:''"
abbreviation stopIDPrefix :: string where "stopIDPrefix \<equiv> ''stop:''"

definition isSessionMarker :: "memory \<Rightarrow> bool" where
  "isSessionMarker m \<longleftrightarrow> HasPrefix (ID m) sessionEndIDPrefix \<or> HasPrefix (ID m) stopIDPrefix"

definition reinforceResults :: "service \<Rightarrow> Time \<Rightarrow> Scored list \<Rightarrow> db \<Rightarrow> db" where
  "reinforceResults s now results d =
     (let kept = (if reinforceSkipMarkers s then filter (\<lambda>r. \<not> isSessionMarker (sMemory r)) results else results)
      in if kept = [] then d else reinforce now (map sMemory kept) d)"

section \<open>Corroboration\<close>

definition corroborate :: "Time \<Rightarrow> memory \<Rightarrow> db \<Rightarrow> db" where
  "corroborate now m d =
     (if Tier_Term (mTier m) \<noteq> LongTerm \<or> Confidence m = None then d
      else best_effort d (SetConfidence (Namespace m) (ID m) (GrowConfidence (EffectiveConfidence m now)) now d))"

definition reinforceCorroborate :: "Time \<Rightarrow> memory \<Rightarrow> db \<Rightarrow> db" where
  "reinforceCorroborate now m d = corroborate now m (reinforce now [m] d)"

abbreviation corroborateCooldown :: Duration where "corroborateCooldown \<equiv> 24 * Hour"

definition durable_filter :: "Time \<Rightarrow> Filter" where
  "durable_filter now =
     no_filter\<lparr> fTiers := [TierSemantic, TierProcedural], ExcludeMetadata := handoffExclusion, Now := now \<rparr>"

definition corroborateNearest :: "writer \<Rightarrow> write_env \<Rightarrow> memory \<Rightarrow> db \<Rightarrow> db" where
  "corroborateNearest w env m d =
     (case VectorSearch (we_engine env) (we_wall env) (Namespace m) (Embedding m) (durable_filter (we_now env)) 1 d of
        Inl _ \<Rightarrow> d
      | Inr cands \<Rightarrow>
          (case cands of
             [] \<Rightarrow> d
           | c # _ \<Rightarrow>
               if Score c < corroborateMinScore w then d
               else if Sub (we_now env) (UpdatedAt (sMemory c)) < corroborateCooldown then d
               else reinforceCorroborate (we_now env) (sMemory c) d))"

section \<open>Contradiction\<close>

abbreviation contradictCooldown :: Duration where "contradictCooldown \<equiv> 24 * Hour"

definition invalidate :: "Time \<Rightarrow> memory \<Rightarrow> string \<Rightarrow> db \<Rightarrow> db" where
  "invalidate now m newID d =
     (if Tier_Term (mTier m) \<noteq> LongTerm \<or> Confidence m = None then d
      else let usage = 1 + ln (1 + real_of_int (AccessCount m));
               target = min (EffectiveConfidence m now) (0.9 * ConfidenceSeedFresh / usage)
           in best_effort d (MarkContradicted (Namespace m) (ID m) newID target now d))"

definition contradicted_by_write :: "writer \<Rightarrow> Time \<Rightarrow> memory \<Rightarrow> Scored \<Rightarrow> bool" where
  "contradicted_by_write w now m c \<longleftrightarrow>
     \<not> (hit_id c = ID m \<or> Score c < contradictMinScore w)
     \<and> Confidence (sMemory c) \<noteq> None
     \<and> \<not> Sub now (CreatedAt (sMemory c)) < contradictCooldown
     \<and> contradicts w (Content m) (Content (sMemory c))"

definition contradictNearest :: "writer \<Rightarrow> write_env \<Rightarrow> memory \<Rightarrow> db \<Rightarrow> db" where
  "contradictNearest w env m d =
     (case VectorSearch (we_engine env) (we_wall env) (Namespace m) (Embedding m) (durable_filter (we_now env)) 3 d of
        Inl _ \<Rightarrow> d
      | Inr cands \<Rightarrow>
          (case find (contradicted_by_write w (we_now env) m) cands of
             None \<Rightarrow> d
           | Some c \<Rightarrow> invalidate (we_now env) (sMemory c) (ID m) d))"

section \<open>Asynchronous consolidation\<close>

definition asyncUpdate :: "writer \<Rightarrow> write_env \<Rightarrow> memory \<Rightarrow> Decision \<Rightarrow> db \<Rightarrow> db" where
  "asyncUpdate w env m dec d =
     (if dTarget dec = '''' \<or> dTarget dec = ID m then d
      else let content = (if dContent dec = '''' then Content m else dContent dec) in
        (case embedder w content of
           Inl _ \<Rightarrow> d
         | Inr v \<Rightarrow>
             (case Get (Namespace m) (dTarget dec) d of
                Inl _ \<Rightarrow> d
              | Inr target \<Rightarrow>
                  (case Upsert (merge_into (we_now env) dec content v target) d of
                     Inl _ \<Rightarrow> d
                   | Inr d' \<Rightarrow> best_effort d' (SetSuperseded (we_wall env) (Namespace m) (ID m) (dTarget dec) d')))))"

definition asyncSupersede :: "write_env \<Rightarrow> memory \<Rightarrow> Decision \<Rightarrow> db \<Rightarrow> db" where
  "asyncSupersede env m dec d =
     (if dTarget dec = '''' \<or> dTarget dec = ID m then d
      else best_effort d (SetSuperseded (we_wall env) (Namespace m) (dTarget dec) (ID m) d))"

definition apply_decision :: "writer \<Rightarrow> write_env \<Rightarrow> memory \<Rightarrow> Decision \<Rightarrow> db \<Rightarrow> db" where
  "apply_decision w env m dec d =
     (if dAction dec = ActionUpdate then asyncUpdate w env m dec d
      else if dAction dec = ActionSupersede then asyncSupersede env m dec d
      else if dLinkedIDs dec \<noteq> [] then best_effort d (Upsert (m\<lparr> LinkedMemoryIDs := dLinkedIDs dec \<rparr>) d)
      else d)"

definition consolidateOne :: "writer \<Rightarrow> write_env \<Rightarrow> string \<Rightarrow> string \<Rightarrow> db \<Rightarrow> db" where
  "consolidateOne w env ns i d =
     (case Get ns i d of
        Inl _ \<Rightarrow> d
      | Inr m0 \<Rightarrow>
          if SupersededBy m0 \<noteq> None then d
          else (case embedder w (Content m0) of
                  Inl _ \<Rightarrow> d
                | Inr v \<Rightarrow>
                    let m = m0\<lparr> Embedding := v \<rparr> in
                    (case consolidate_candidates env m (ID m) d of
                       Inl _ \<Rightarrow> d
                     | Inr cands \<Rightarrow>
                         if gated w cands then d
                         else (case askConsolidator w m cands of
                                 None \<Rightarrow> d
                               | Some dec \<Rightarrow> apply_decision w env m dec d))))"

section \<open>One job\<close>

fun run_job :: "writer \<Rightarrow> write_env \<Rightarrow> job \<Rightarrow> db \<Rightarrow> db" where
  "run_job w env (JReinforceCorroborate m) d = reinforceCorroborate (we_now env) m d"
| "run_job w env (JSupersede ns old new) d = best_effort d (SetSuperseded (we_wall env) ns old new d)"
| "run_job w env (JConsolidate ns i) d = consolidateOne w env ns i d"
| "run_job w env (JCorroborateNearest m) d = corroborateNearest w env m d"
| "run_job w env (JContradictNearest m) d = contradictNearest w env m d"

end
