(* ===== verification/Memory_Ops.thy ===== *)
theory Memory_Ops
  imports Write_Jobs
begin

text \<open>
  The operations on single memories of \<open>internal/service/service.go\<close> and \<open>update.go\<close>: the partial
  edit, reading by id or by id prefix, the supersession history, forgetting and superseding.
  The feed entries they log are not modelled.
\<close>

section \<open>Updating\<close>

record UpdateInput =
  uNamespace :: string
  uID :: string
  uHome :: string
  uAuthor :: string
  uContent :: "string option"
  uSummary :: "string option"
  uTier :: "Tier option"
  uLevel :: "Level option"
  uImportance :: "real option"
  uConfidence :: "real option"
  uTags :: "string list option"
  uMetadata :: metadata

datatype update_error =
    UpdateStore store_error
  | UpdateTier Tier
  | UpdateLevel Level
  | UpdateWrite remember_error
  | UpdateDropped

text \<open>A \<open>null\<close> of the patch deletes the key.\<close>

definition mergeMetadata :: "metadata \<Rightarrow> metadata \<Rightarrow> metadata" where
  "mergeMetadata cur patch =
     (\<lambda>k. case patch k of None \<Rightarrow> cur k | Some JNull \<Rightarrow> None | Some v \<Rightarrow> Some v)"

definition seed_update :: "UpdateInput \<Rightarrow> memory \<Rightarrow> RememberInput" where
  "seed_update u cur =
     \<lparr> wNamespace = uNamespace u, wHome = uHome u, wVisibility = '''', wContent = Content cur, wTier = mTier cur,
       wSummary = Summary cur, wTags = Tags cur, wMetadata = mergeMetadata (Metadata cur) (uMetadata u),
       wImportance = Importance cur, wTTL = None, wID = ID cur, wConfidence = Confidence cur,
       wAssessedImportance = None, ClearAssessedImportance = False, wValidFrom = ValidFrom cur,
       wValidTo = ValidTo cur, wLevel = mLevel cur, wAuthor = uAuthor u \<rparr>"

definition or_else :: "'a option \<Rightarrow> 'a \<Rightarrow> 'a" where
  "or_else x y = (case x of Some v \<Rightarrow> v | None \<Rightarrow> y)"

definition overlay_update :: "UpdateInput \<Rightarrow> RememberInput \<Rightarrow> RememberInput" where
  "overlay_update u q =
     q\<lparr> wContent := or_else (uContent u) (wContent q), wSummary := or_else (uSummary u) (wSummary q),
        wTier := or_else (uTier u) (wTier q), wLevel := or_else (uLevel u) (wLevel q),
        wTags := or_else (uTags u) (wTags q), wImportance := or_else (uImportance u) (wImportance q),
        ClearAssessedImportance := (uImportance u \<noteq> None),
        wConfidence := (if uConfidence u = None then wConfidence q else uConfidence u) \<rparr>"

definition update_refused :: "UpdateInput \<Rightarrow> update_error option" where
  "update_refused u =
     (if (case uTier u of Some t \<Rightarrow> \<not> Tier_Valid t | None \<Rightarrow> False) then Some (UpdateTier (the (uTier u)))
      else if (case uLevel u of Some l \<Rightarrow> \<not> Level_Valid l | None \<Rightarrow> False) then Some (UpdateLevel (the (uLevel u)))
      else None)"

definition Update :: "writer \<Rightarrow> write_env \<Rightarrow> UpdateInput \<Rightarrow> db \<Rightarrow> update_error + memory \<times> remember_out" where
  "Update w env u d =
     (case Get (uNamespace u) (uID u) d of
        Inl e \<Rightarrow> Inl (UpdateStore e)
      | Inr cur \<Rightarrow>
          (case update_refused u of
             Some e \<Rightarrow> Inl e
           | None \<Rightarrow>
               (case Remember w env (overlay_update u (seed_update u cur)) d of
                  Inl e \<Rightarrow> Inl (UpdateWrite e)
                | Inr r \<Rightarrow> (case rm_memory r of None \<Rightarrow> Inl UpdateDropped | Some m \<Rightarrow> Inr (m, r)))))"

section \<open>Reading by id or by id prefix\<close>

abbreviation idPrefixMinLen :: nat where "idPrefixMinLen \<equiv> 8"

definition prefix_hex :: "char \<Rightarrow> bool" where
  "prefix_hex c \<longleftrightarrow> CHR ''0'' \<le> c \<and> c \<le> CHR ''9'' \<or> CHR ''a'' \<le> c \<and> c \<le> CHR ''f'' \<or> CHR ''A'' \<le> c \<and> c \<le> CHR ''F''"

definition idPrefixEligible :: "string \<Rightarrow> bool" where
  "idPrefixEligible i \<longleftrightarrow>
     idPrefixMinLen \<le> length i
     \<and> list_all (\<lambda>(k, c). prefix_hex c \<or> c = CHR ''-'' \<and> idPrefixMinLen \<le> k) (enumerate 0 i)"

datatype get_error = GetFailed store_error | AmbiguousID string "string list"

definition getByIDPrefix :: "string \<Rightarrow> string \<Rightarrow> store_error \<Rightarrow> db \<Rightarrow> get_error + memory" where
  "getByIDPrefix ns i notFound d =
     (if \<not> idPrefixEligible i then Inl (GetFailed notFound)
      else case IDsByPrefix ns i 2 d of
             [] \<Rightarrow> Inl (GetFailed notFound)
           | [j] \<Rightarrow> map_sum GetFailed id (Get ns j d)
           | ids \<Rightarrow> Inl (AmbiguousID i ids))"

definition GetMemory :: "string \<Rightarrow> string \<Rightarrow> db \<Rightarrow> get_error + memory" where
  "GetMemory ns i d =
     (case Get ns i d of
        Inr m \<Rightarrow> Inr m
      | Inl e \<Rightarrow> if e = ErrNotFound then getByIDPrefix ns i e d else Inl (GetFailed e))"

section \<open>History\<close>

text \<open>\<open>visit\<close>: the memories seen so far and the queue, each in the order of discovery.\<close>

definition visit :: "string \<Rightarrow> db \<Rightarrow> string \<Rightarrow> memory list \<times> memory list \<Rightarrow> memory list \<times> memory list" where
  "visit ns d mid sq =
     (if mid = '''' \<or> mid \<in> ID ` set (fst sq) then sq
      else case Get ns mid d of Inl _ \<Rightarrow> sq | Inr m \<Rightarrow> (fst sq @ [m], snd sq @ [m]))"

definition lineage_ids :: "string \<Rightarrow> db \<Rightarrow> memory \<Rightarrow> string list" where
  "lineage_ids ns d m = (case SupersededBy m of Some i \<Rightarrow> [i] | None \<Rightarrow> []) @ PredecessorIDs ns (ID m) d"

definition unseen_ids :: "db \<Rightarrow> memory list \<Rightarrow> string set" where
  "unseen_ids d seen = c_id ` set (memories d) - ID ` set seen"

lemma visit_measure:
  "visit ns d mid (seen, queue) = (seen', queue') \<Longrightarrow>
     card (unseen_ids d seen') + length queue' \<le> card (unseen_ids d seen) + length queue"
proof (cases "mid = '''' \<or> mid \<in> ID ` set seen")
  case False
  assume v: "visit ns d mid (seen, queue) = (seen', queue')"
  show ?thesis
  proof (cases "Get ns mid d")
    case (Inr m)
    from v False Inr have s: "seen' = seen @ [m]" "queue' = queue @ [m]" by (auto simp: visit_def)
    from Get_InrD [OF Inr] obtain r where "r \<in> set (memories d)" "row_at ns mid r"
      by (auto dest: find_Some_set)
    then have "mid \<in> c_id ` set (memories d)" by (force simp: row_at_def)
    then have "mid \<in> unseen_ids d seen" using False by (simp add: unseen_ids_def)
    moreover have "unseen_ids d seen' = unseen_ids d seen - {mid}"
      using s sqlite.get_key [OF Inr] by (auto simp: unseen_ids_def)
    moreover have "finite (unseen_ids d seen)" by (simp add: unseen_ids_def)
    ultimately show ?thesis using s card_Suc_Diff1 [of "unseen_ids d seen" mid] by simp
  qed (use v False in \<open>auto simp: visit_def\<close>)
qed (auto simp: visit_def)

lemma fold_visit_measure:
  "fold (visit ns d) ids (seen, queue) = (seen', queue') \<Longrightarrow>
     card (unseen_ids d seen') + length queue' \<le> card (unseen_ids d seen) + length queue"
proof (induction ids arbitrary: seen queue)
  case (Cons i ids)
  obtain s q where sq: "visit ns d i (seen, queue) = (s, q)" by (cases "visit ns d i (seen, queue)")
  from Cons.prems sq have "fold (visit ns d) ids (s, q) = (seen', queue')" by simp
  from Cons.IH [OF this] visit_measure [OF sq] show ?case by linarith
qed simp

text \<open>The walk ends: a visit that lengthens the queue uses up an id of the table.\<close>

function history_loop :: "string \<Rightarrow> db \<Rightarrow> memory list \<Rightarrow> memory list \<Rightarrow> memory list" where
  "history_loop ns d seen [] = seen"
| "history_loop ns d seen (cur # queue) =
     (let sq = fold (visit ns d) (lineage_ids ns d cur) (seen, queue) in history_loop ns d (fst sq) (snd sq))"
  by pat_completeness auto
termination
proof (relation "measure (\<lambda>(ns, d, seen, queue). card (unseen_ids d seen) + length queue)")
  fix ns d seen cur queue sq
  assume "sq = fold (visit ns d) (lineage_ids ns d cur) (seen, queue)"
  then show "((ns, d, fst sq, snd sq), ns, d, seen, cur # queue)
      \<in> measure (\<lambda>(ns, d, seen, queue). card (unseen_ids d seen) + length queue)"
    using fold_visit_measure [of ns d "lineage_ids ns d cur" seen queue "fst sq" "snd sq"]
    by (simp add: case_prod_beta)
qed simp

definition history_order :: "memory \<Rightarrow> memory \<Rightarrow> bool" where
  "history_order a b \<longleftrightarrow> (if CreatedAt a = CreatedAt b then ID a < ID b else CreatedAt a < CreatedAt b)"

definition History :: "string \<Rightarrow> string \<Rightarrow> db \<Rightarrow> store_error + memory list" where
  "History ns i d =
     (case Get ns i d of
        Inl e \<Rightarrow> Inl e
      | Inr m \<Rightarrow> Inr (SliceStable history_order (history_loop ns d [m] [m])))"

section \<open>Forgetting and superseding\<close>

definition Forget :: "string \<Rightarrow> string \<Rightarrow> db \<Rightarrow> store_error + db" where
  "Forget ns i d = Delete ns i d"

datatype supersede_error = IDRequired | SupersededByRequired | SupersedeFailed store_error

definition Supersede :: "Time \<Rightarrow> string \<Rightarrow> string \<Rightarrow> string \<Rightarrow> db \<Rightarrow> supersede_error + db" where
  "Supersede wall ns i supersededBy d =
     (if TrimSpace i = '''' then Inl IDRequired
      else if TrimSpace supersededBy = '''' then Inl SupersededByRequired
      else map_sum SupersedeFailed id (SetSuperseded wall ns i supersededBy d))"

end
