(* ===== verification/Write_Sound.thy ===== *)
theory Write_Sound
  imports Memory_Ops
begin

text \<open>
  What a write does to the store, as an abstract relation, and the proof that \<open>Remember\<close> does
  nothing else: it drops the request, folds it into a stored memory, or stores one memory and
  may tombstone another. Every memory it stores is well-formed.
\<close>

section \<open>Well-formed memories\<close>

definition typed_memory :: "memory \<Rightarrow> bool" where
  "typed_memory m \<longleftrightarrow> Tier_Valid (mTier m) \<and> (mLevel m = '''' \<or> Level_Valid (mLevel m))
     \<and> Content m \<noteq> '''' \<and> Namespace m \<noteq> '''' \<and> 0 \<le> AccessCount m
     \<and> null_or (\<lambda>c. 0 \<le> c \<and> c \<le> 1) (Confidence m)
     \<and> null_or (\<lambda>a. 1 / 10 \<le> a \<and> a \<le> 9 / 10) (AssessedImportance m)"

definition typed_db :: "db \<Rightarrow> bool" where
  "typed_db d \<longleftrightarrow> list_all (\<lambda>r. typed_memory (scanRow r)) (memories d)"

lemma null_or_simps [simp]: "null_or P None" "null_or P (Some x) = P x"
  by (simp_all add: null_or_def)

lemma typed_row: "typed_db d \<Longrightarrow> r \<in> set (memories d) \<Longrightarrow> typed_memory (scanRow r)"
  by (simp add: typed_db_def list_all_iff)

lemma typed_Get: "typed_db d \<Longrightarrow> Get ns i d = Inr m \<Longrightarrow> typed_memory m"
  by (auto dest!: Get_InrD find_Some_set intro: typed_row)

lemma Get_of_row:
  assumes "db_ok d" and "r \<in> set (memories d)"
  shows "Get (c_namespace r) (c_id r) d = Inr (scanRow r)"
proof -
  have "lookup c_id (memories d) (c_id r) = Some r"
    using assms by (intro lookup_unique) (auto simp: db_ok_def rows_ok_def)
  then show ?thesis by (simp add: Get_lookup [OF assms(1)])
qed

lemma unique_row:
  assumes "db_ok d" and "r \<in> set (memories d)" and "x \<in> set (memories d)"
  shows "c_id x = c_id r \<longleftrightarrow> x = r" and "c_rowid x = c_rowid r \<longleftrightarrow> x = r"
  using assms by (auto simp: db_ok_def rows_ok_def distinct_map inj_on_def)

lemma find_row:
  assumes "db_ok d" and "r \<in> set (memories d)"
  shows "find (row_at (c_namespace r) (c_id r)) (memories d) = Some r"
    and "find (\<lambda>x. row_at (c_namespace r) (c_id r) x \<and> c_fingerprint x = c_fingerprint r) (memories d) = Some r"
proof -
  have "find P (memories d) = Some r" if "P r" "\<And>x. P x \<Longrightarrow> c_id x = c_id r" for P
  proof -
    have "find P (memories d) \<noteq> None" using that(1) assms(2) by (auto simp: find_None_iff)
    then obtain x where x: "find P (memories d) = Some x" by blast
    then have "x \<in> set (memories d)" "P x" by (auto dest: find_Some_set)
    then show ?thesis using x that(2) unique_row(1) [OF assms] by metis
  qed
  note f = this
  show "find (row_at (c_namespace r) (c_id r)) (memories d) = Some r" by (rule f) (simp_all add: row_at_def)
  show "find (\<lambda>x. row_at (c_namespace r) (c_id r) x \<and> c_fingerprint x = c_fingerprint r) (memories d) = Some r"
    by (rule f) (simp_all add: row_at_def)
qed

lemma clamp_ranges:
  "1 / 10 \<le> clampAssessedImportance v" "clampAssessedImportance v \<le> 9 / 10"
  "0 \<le> clampConfidence c" "clampConfidence c \<le> 1"
  by (simp_all add: clampAssessedImportance_def clampConfidence_def)

lemma grown_range: "0 \<le> GrowConfidence (EffectiveConfidence m now) \<and> GrowConfidence (EffectiveConfidence m now) \<le> 1"
  using GrowConfidence_range [OF EffectiveConfidence_bounds] by blast

section \<open>The abstract write\<close>

fun job_of :: "memory \<Rightarrow> job \<Rightarrow> bool" where
  "job_of m (JReinforceCorroborate x) = (x = m)"
| "job_of m (JSupersede ns old new) = (ns = Namespace m \<and> new = ID m \<and> old \<noteq> '''')"
| "job_of m (JConsolidate ns i) = (ns = Namespace m \<and> i = ID m)"
| "job_of m (JCorroborateNearest x) = (x = m)"
| "job_of m (JContradictNearest x) = (x = m)"

inductive write_spec :: "db \<Rightarrow> memory option \<Rightarrow> job list \<Rightarrow> db \<Rightarrow> bool" where
  dropped: "write_spec d None [] d"
| folded: "Get (Namespace m) (ID m) d = Inr m \<Longrightarrow> write_spec d (Some m) [JReinforceCorroborate m] d"
| stored_one: "typed_memory m \<Longrightarrow> Upsert m d = Inr d' \<Longrightarrow> list_all (job_of m) js \<Longrightarrow> write_spec d (Some m) js d'"
| replaced: "typed_memory m \<Longrightarrow> Upsert m d = Inr d1 \<Longrightarrow>
    SetSuperseded wall (Namespace m) i (ID m) d1 = Inr d' \<Longrightarrow> write_spec d (Some m) [] d'"

section \<open>The prepared request\<close>

lemma resolveVisibility_nonempty: "ns \<noteq> '''' \<Longrightarrow> resolveVisibility ns v h t = Inr ns' \<Longrightarrow> ns' \<noteq> ''''"
proof -
  have "P a" if "filter P xs = [a]" for P and xs :: "string list" and a
  proof -
    have "a \<in> set (filter P xs)" unfolding that by simp
    then show ?thesis by simp
  qed
  then have "lastSegment a = u" if "filter (\<lambda>a. lastSegment a = u) xs = [a]" for u a xs using that by blast
  moreover have "lastSegment '''' = ''''" by (simp add: lastSegment_def CutLast_def LastIndexByte_absent)
  ultimately have "u = ''''" if "filter (\<lambda>a. lastSegment a = u) xs = ['''']" for u xs using that by metis
  then show "ns \<noteq> '''' \<Longrightarrow> resolveVisibility ns v h t = Inr ns' \<Longrightarrow> ns' \<noteq> ''''"
    by (auto simp: resolveVisibility_def Let_def split: if_splits list.splits)
qed

definition prepared_ok :: "RememberInput \<Rightarrow> Tier \<Rightarrow> bool" where
  "prepared_ok q tier \<longleftrightarrow> Tier_Valid tier \<and> (wLevel q = '''' \<or> Level_Valid (wLevel q))
     \<and> wContent q \<noteq> '''' \<and> wNamespace q \<noteq> ''''"

lemma stamps_keep [simp]:
  "wLevel (stampClassifiedTier t q) = wLevel q" "wNamespace (stampClassifiedTier t q) = wNamespace q"
  "wLevel (stampAuthor q) = wLevel q" "wNamespace (stampAuthor q) = wNamespace q"
  "wLevel (stampHandoff q) = wLevel q" "wNamespace (stampHandoff q) = wNamespace q"
  "wLevel (scrubInput w q) = wLevel q" "wNamespace (scrubInput w q) = wNamespace q"
  "wID (stampClassifiedTier t q) = wID q" "wID (stampAuthor q) = wID q" "wID (stampHandoff q) = wID q"
  "wID (scrubInput w q) = wID q"
  "wTags (stampClassifiedTier t q) = wTags q" "wTags (stampAuthor q) = wTags q" "wTags (stampHandoff q) = wTags q"
  "wTags (scrubInput w q) = wTags q"
  by (simp_all add: stampClassifiedTier_def stampAuthor_def stampHandoff_def scrubInput_def)

lemma validate_ok:
  assumes "validateRememberInput w q = Inr (q1, tier)"
  shows "Tier_Valid tier \<and> (wLevel q1 = '''' \<or> Level_Valid (wLevel q1)) \<and> wNamespace q1 \<noteq> ''''
    \<and> q1 = q\<lparr> wNamespace := wNamespace q1 \<rparr>"
proof -
  define t where "t = (if wTier q = '''' then defaultTier w q else wTier q)"
  have "\<exists>ns. wNamespace q \<noteq> '''' \<and> Tier_Valid t \<and> (wLevel q = '''' \<or> Level_Valid (wLevel q))
      \<and> resolveVisibility (wNamespace q) (wVisibility q) (wHome q) t = Inr ns
      \<and> tier = t \<and> q1 = q\<lparr> wNamespace := ns \<rparr>"
    using assms unfolding validateRememberInput_def Let_def t_def [symmetric]
    by (simp split: if_split_asm option.split_asm sum.split_asm)
  then obtain ns where "wNamespace q \<noteq> ''''" "Tier_Valid t" "wLevel q = '''' \<or> Level_Valid (wLevel q)"
    and ns: "resolveVisibility (wNamespace q) (wVisibility q) (wHome q) t = Inr ns" and "tier = t" "q1 = q\<lparr> wNamespace := ns \<rparr>"
    by blast
  then show ?thesis using resolveVisibility_nonempty [OF _ ns] by simp
qed

lemma sanitize_ok:
  assumes "sanitizeContent w q = Inr q'"
  shows "wContent q' \<noteq> '''' \<and> wLevel q' = wLevel q \<and> wNamespace q' = wNamespace q \<and> wID q' = wID q \<and> wTags q' = wTags q"
  using assms by (auto simp: sanitizeContent_def Let_def split: if_splits)

lemma gate_ok:
  assumes "dropsAsCaptureOrLowSignal w tier q = (False, q')" and "wContent q \<noteq> ''''"
  shows "wContent q' \<noteq> '''' \<and> wLevel q' = wLevel q \<and> wNamespace q' = wNamespace q \<and> wID q' = wID q \<and> wTags q' = wTags q"
  using assms by (auto simp: dropsAsCaptureOrLowSignal_def Let_def split: if_splits)

lemma prepare_cases:
  assumes "prepare w q = Inr (Some (q', tier))"
  obtains q1 q2 where "validateRememberInput w q = Inr (q1, tier)"
    and "sanitizeContent w (scrubInput w (stampHandoff (stampAuthor (stampClassifiedTier tier q1)))) = Inr q2"
    and "dropsAsCaptureOrLowSignal w tier q2 = (False, q')"
  using assms by (auto simp: prepare_def split: sum.splits prod.splits bool.splits)

lemma prepare_ok:
  assumes "prepare w q = Inr (Some (q', tier))"
  shows "prepared_ok q' tier" and "wID q' = wID q" and "wTags q' = wTags q"
proof -
  from prepare_cases [OF assms] obtain q1 q2 where
    v: "validateRememberInput w q = Inr (q1, tier)"
    and s: "sanitizeContent w (scrubInput w (stampHandoff (stampAuthor (stampClassifiedTier tier q1)))) = Inr q2"
    and g: "dropsAsCaptureOrLowSignal w tier q2 = (False, q')" .
  note v' = validate_ok [OF v] and s' = sanitize_ok [OF s]
  have c: "wContent q2 \<noteq> ''''" using s' by blast
  note g' = gate_ok [OF g c]
  show "prepared_ok q' tier" using v' s' g' by (simp add: prepared_ok_def)
  have "q1 = q\<lparr> wNamespace := wNamespace q1 \<rparr>" using v' by blast
  then have "wID q1 = wID (q\<lparr> wNamespace := wNamespace q1 \<rparr>)" "wTags q1 = wTags (q\<lparr> wNamespace := wNamespace q1 \<rparr>)"
    by (auto dest: arg_cong [where f = wID] arg_cong [where f = wTags] simp only:)
  then show "wID q' = wID q" "wTags q' = wTags q" using s' g' by simp_all
qed

section \<open>The new memory\<close>

lemma new_memory_typed:
  assumes "prepared_ok q tier" and "case existing of None \<Rightarrow> True | Some e \<Rightarrow> typed_memory e"
  shows "typed_memory (new_memory now i q tier existing v)"
proof -
  have "null_or (\<lambda>c. 0 \<le> c \<and> c \<le> 1) (resolve_confidence q existing tier)"
    using assms(2) clamp_ranges
    by (auto simp: resolve_confidence_def typed_memory_def split: option.splits)
  moreover have "null_or (\<lambda>a. 1 / 10 \<le> a \<and> a \<le> 9 / 10) (resolveAssessedImportance q existing)"
    using assms(2) clamp_ranges
    by (auto simp: resolveAssessedImportance_def typed_memory_def split: option.splits)
  ultimately show ?thesis using assms(1)
    by (simp add: typed_memory_def prepared_ok_def new_memory_def Let_def)
qed

lemma new_memory_key [simp]:
  "ID (new_memory now i q tier existing v) = i" "Namespace (new_memory now i q tier existing v) = wNamespace q"
  "Tags (new_memory now i q tier existing v) = wTags q" "mTier (new_memory now i q tier existing v) = tier"
  "Content (new_memory now i q tier existing v) = wContent q" "Embedding (new_memory now i q tier existing v) = v"
  by (simp_all add: new_memory_def Let_def)

lemma load_existing_typed:
  assumes "typed_db d"
  shows "case load_existing q d of None \<Rightarrow> True | Some e \<Rightarrow> typed_memory e"
  using typed_Get [OF assms] by (auto simp: load_existing_def split: sum.splits)

lemma embed_keeps:
  assumes "embedForRemember w q existing d = Inr (v, q')"
  shows "\<exists>meta. q' = q\<lparr> wMetadata := meta \<rparr>"
  using assms by (auto simp: embedForRemember_def Let_def split: option.splits sum.splits if_splits)

section \<open>Write-time dedup\<close>

text \<open>The write-time checks adjust only the trust, the assessment and the links of the new memory.\<close>

definition same_core :: "memory \<Rightarrow> memory \<Rightarrow> bool" where
  "same_core m m' \<longleftrightarrow> m' = m\<lparr> Confidence := Confidence m', AssessedImportance := AssessedImportance m',
     LinkedMemoryIDs := LinkedMemoryIDs m' \<rparr>"

lemma same_core_refl [simp]: "same_core m m"
  by (simp add: same_core_def)

lemma same_core_fields:
  assumes "same_core m m'"
  shows "ID m' = ID m \<and> Namespace m' = Namespace m \<and> mTier m' = mTier m \<and> mLevel m' = mLevel m
    \<and> Content m' = Content m \<and> Tags m' = Tags m \<and> Embedding m' = Embedding m \<and> Metadata m' = Metadata m
    \<and> ExpiresAt m' = ExpiresAt m \<and> SupersededBy m' = SupersededBy m \<and> ValidTo m' = ValidTo m
    \<and> EmbedState m' = EmbedState m"
  using assms unfolding same_core_def
  by (cases m; cases m') simp

lemma same_core_updates [simp]:
  "same_core m (m\<lparr> Confidence := c \<rparr>)" "same_core m (m\<lparr> AssessedImportance := a \<rparr>)"
  "same_core m (m\<lparr> LinkedMemoryIDs := l \<rparr>)"
  by (simp_all add: same_core_def)

lemma same_core_trans: "same_core m m' \<Longrightarrow> same_core m' m'' \<Longrightarrow> same_core m m''"
  unfolding same_core_def by (cases m; cases m'; cases m'') simp

lemma carry_over_core: "same_core m (carry_over old m)"
proof -
  define m1 where "m1 = (case Confidence old of
                  None \<Rightarrow> m
                | Some c \<Rightarrow>
                    if (case Confidence m of None \<Rightarrow> True | Some c' \<Rightarrow> c' < c) then m\<lparr> Confidence := Some c \<rparr> else m)"
  have m1: "same_core m m1" by (simp add: m1_def split: option.split)
  have "carry_over old m = m1 \<or> (\<exists>a. carry_over old m = m1\<lparr> AssessedImportance := Some a \<rparr>)"
    unfolding carry_over_def Let_def m1_def [symmetric] by (auto split: option.split)
  then show ?thesis using m1 same_core_trans [OF m1 same_core_updates(2)] by auto
qed

lemma carry_over_ok:
  assumes "typed_memory old" and "typed_memory m"
  shows "typed_memory (carry_over old m) \<and> same_core m (carry_over old m)"
proof -
  define m1 where "m1 = (case Confidence old of
                  None \<Rightarrow> m
                | Some c \<Rightarrow>
                    if (case Confidence m of None \<Rightarrow> True | Some c' \<Rightarrow> c' < c) then m\<lparr> Confidence := Some c \<rparr> else m)"
  have m1: "typed_memory m1" "same_core m m1"
    using assms by (auto simp: m1_def typed_memory_def split: option.split)
  have "carry_over old m = m1 \<or> (\<exists>a. AssessedImportance old = Some a \<and> carry_over old m = m1\<lparr> AssessedImportance := Some a \<rparr>)"
    unfolding carry_over_def Let_def m1_def [symmetric] by (auto split: option.split)
  then show ?thesis
  proof
    assume "\<exists>a. AssessedImportance old = Some a \<and> carry_over old m = m1\<lparr> AssessedImportance := Some a \<rparr>"
    then obtain a where a: "AssessedImportance old = Some a" "carry_over old m = m1\<lparr> AssessedImportance := Some a \<rparr>" by blast
    then show ?thesis using m1 assms(1) same_core_trans [OF m1(2) same_core_updates(2)]
      by (simp add: typed_memory_def)
  qed (use m1 in simp)
qed

lemma stampAssessed_ok:
  "typed_memory m \<Longrightarrow> typed_memory (stampAssessedImportance dec m) \<and> same_core m (stampAssessedImportance dec m)"
  using clamp_ranges by (auto simp: stampAssessedImportance_def typed_memory_def split: option.split)

lemma merge_into_key [simp]:
  "ID (merge_into now dec content v t) = ID t" "Namespace (merge_into now dec content v t) = Namespace t"
  by (simp_all add: merge_into_def stampAssessedImportance_def split: option.split)

lemma merge_into_typed:
  assumes "typed_memory target" and "content \<noteq> ''''"
  shows "typed_memory (merge_into now dec content v target)"
  unfolding merge_into_def
  by (rule stampAssessed_ok [THEN conjunct1]) (use assms grown_range in \<open>auto simp: typed_memory_def\<close>)

text \<open>What a verdict of the dedup gate promises for the memory \<open>m\<close>.\<close>

definition verdict_ok :: "memory \<Rightarrow> db \<Rightarrow> dedup_verdict \<Rightarrow> bool" where
  "verdict_ok m d v \<longleftrightarrow>
     (case v of
        Folded hit js d' \<Rightarrow> write_spec d (Some hit) js d'
      | Proceed m' hint sid \<Rightarrow> typed_memory m' \<and> same_core m m')"

lemma verdict_proceed: "typed_memory m \<Longrightarrow> verdict_ok m d (Proceed m hint sid)"
  by (simp add: verdict_ok_def)

lemma dedup_action_ok:
  assumes "typed_db d" and "typed_memory m" and "Get (Namespace (sMemory best)) (ID (sMemory best)) d = Inr (sMemory best)"
  shows "verdict_ok m d (dedup_action w m best d)"
  using carry_over_ok [OF typed_Get [OF assms(1,3)] assms(2)] write_spec.folded [OF assms(3)] assms(2)
  by (simp add: dedup_action_def Let_def verdict_ok_def)

lemma dedupLLMMerge_ok:
  assumes "dedupLLMMerge w m near d = Inl (target, d')" and "typed_db d" and "typed_memory m"
  shows "typed_memory target \<and> Upsert target d = Inr d'"
proof -
  from assms(1) obtain i t where "Get (Namespace m) i d = Inr t" "Upsert target d = Inr d'"
    "Content m \<noteq> '''' \<longrightarrow> Content target \<noteq> ''''"
    "mTier target = mTier t \<and> mLevel target = mLevel t \<and> Namespace target = Namespace t
      \<and> Confidence target = Confidence t \<and> AssessedImportance target = AssessedImportance t
      \<and> AccessCount target = AccessCount t"
    unfolding dedupLLMMerge_def Let_def
    by (fastforce split: option.split_asm if_split_asm sum.split_asm)
  then show ?thesis using typed_Get [OF assms(2)] assms(3) by (auto simp: typed_memory_def)
qed

lemma dedupCheck_ok:
  assumes "db_ok d" and "typed_db d" and "typed_memory m"
  shows "verdict_ok m d (dedupCheck w env m d)"
proof (cases "VectorSearch (we_engine env) (we_wall env) (Namespace m) (Embedding m)
             (no_filter\<lparr> fTiers := [mTier m], ExcludeMetadata := handoffExclusion, Now := we_now env \<rparr>) dedupCandidates d")
  case (Inl e)
  then show ?thesis using assms(3) by (simp add: dedupCheck_def verdict_proceed)
next
  case (Inr cands)
  show ?thesis
  proof (cases "filter (\<lambda>c. writeDedupScore w \<le> Score c) cands")
    case Nil
    then show ?thesis using Inr assms(3) by (simp add: dedupCheck_def verdict_proceed)
  next
    case (Cons best rest)
    have "best \<in> set (filter (\<lambda>c. writeDedupScore w \<le> Score c) cands)" unfolding Cons by simp
    then have "best \<in> set cands" by simp
    from VectorSearch_sound [OF assms(1) Inr this] obtain r where "r \<in> set (memories d)" "sMemory best = scanRow r" by blast
    then have g: "Get (Namespace (sMemory best)) (ID (sMemory best)) d = Inr (sMemory best)"
      using Get_of_row [OF assms(1)] by simp
    note act = dedup_action_ok [OF assms(2,3) g, of w]
    have m: "verdict_ok m d (case dedupLLMMerge w m (best # rest) d of
                       Inl (target, d') \<Rightarrow> Folded target [] d'
                     | Inr sid \<Rightarrow> if sid \<noteq> '''' then Proceed m None sid else dedup_action w m best d)"
      using dedupLLMMerge_ok [OF _ assms(2,3)] act assms(3)
      by (cases "dedupLLMMerge w m (best # rest) d")
        (auto simp: verdict_ok_def intro!: write_spec.stored_one)
    show ?thesis using m act by (simp add: dedupCheck_def Inr Cons)
  qed
qed

lemma runSplitDedup_ok:
  "db_ok d \<Longrightarrow> typed_db d \<Longrightarrow> typed_memory m \<Longrightarrow> verdict_ok m d (runSplitDedup w env m d)"
  by (simp add: runSplitDedup_def dedupCheck_ok verdict_proceed)

section \<open>Consolidation\<close>

lemma applyUpdate_ok:
  assumes "applyUpdate w env m dec d = Inr (Some (res, d'))" and "typed_db d" and "typed_memory m"
  shows "write_spec d (Some res) [] d'"
proof -
  define content where "content = (if dContent dec = '''' then Content m else dContent dec)"
  from assms(1) obtain t v where
    t: "Get (Namespace m) (dTarget dec) d = Inr t"
    and res: "res = merge_into (we_now env) dec content v t" and u: "Upsert res d = Inr d'"
    unfolding applyUpdate_def Let_def content_def [symmetric]
    by (auto split: if_split_asm sum.split_asm simp del: if_split)
  have "content \<noteq> ''''" using assms(3) by (simp add: content_def typed_memory_def)
  then have "typed_memory res" unfolding res using merge_into_typed typed_Get [OF assms(2) t] by blast
  then show ?thesis using write_spec.stored_one [OF _ u, of "[]"] by simp
qed

lemma applySupersede_ok:
  assumes "applySupersede env m dec d = Inr (Some (res, d'))" and "typed_memory m"
  shows "write_spec d (Some res) [] d'"
  using assms write_spec.stored_one [of m d d' "[]"] write_spec.replaced [of m d]
  unfolding applySupersede_def
  by (auto split: sum.split_asm if_split_asm)

lemma consolidateSync_ok:
  assumes c: "consolidateSync w env m ci d = Inr (m', handled)" and "typed_db d" and "typed_memory m"
  shows "(case handled of None \<Rightarrow> typed_memory m' \<and> same_core m m' | Some (res, d') \<Rightarrow> write_spec d (Some res) [] d')"
proof (cases "consolidate_candidates env m '''' d")
  case (Inl e)
  then show ?thesis using assms by (simp add: consolidateSync_def)
next
  case (Inr cands)
  show ?thesis
  proof (cases "gated w cands \<or> askConsolidator w m cands = None")
    case True
    then show ?thesis using Inr assms by (auto simp: consolidateSync_def split: if_split_asm)
  next
    case False
    then obtain dec where dec: "\<not> gated w cands" "askConsolidator w m cands = Some dec" by blast
    define m1 where "m1 = m\<lparr> LinkedMemoryIDs := dLinkedIDs dec \<rparr>"
    define m2 where "m2 = (if ci then m1 else stampAssessedImportance dec m1)"
    have t1: "typed_memory m1" using assms(3) by (simp add: m1_def typed_memory_def)
    have t2: "typed_memory m2" using stampAssessed_ok [OF t1] t1 by (simp add: m2_def)
    have s2: "same_core m m2"
      using same_core_trans [OF _ stampAssessed_ok [OF t1, THEN conjunct2], of m] by (simp add: m2_def m1_def)
    have "consolidateSync w env m ci d =
        (if dAction dec = ActionUpdate then map_sum id (Pair m2) (applyUpdate w env m2 dec d)
         else if dAction dec = ActionSupersede then map_sum id (Pair m2) (applySupersede env m2 dec d)
         else Inr (m2, None))"
      using Inr dec by (simp add: consolidateSync_def Let_def m1_def m2_def)
    then consider "(m', handled) = (m2, None)"
      | "applyUpdate w env m2 dec d = Inr handled" "m' = m2"
      | "applySupersede env m2 dec d = Inr handled" "m' = m2"
      using c by (cases "applyUpdate w env m2 dec d"; cases "applySupersede env m2 dec d") (auto split: if_split_asm)
    then show ?thesis
    proof cases
      case 1
      then show ?thesis using t2 s2 by simp
    next
      case 2
      then show ?thesis using applyUpdate_ok [OF _ assms(2) t2] t2 s2 by (cases handled) auto
    next
      case 3
      then show ?thesis using applySupersede_ok [OF _ t2] t2 s2 by (cases handled) auto
    qed
  qed
qed

section \<open>The write\<close>

lemma write_jobs_of: "list_all (job_of m) (write_jobs w q m c ids)"
  by (auto simp: write_jobs_def list_all_iff)

lemma insert_write_ok:
  assumes "insert_write w q existing m c ids hint d = Inr r" and "typed_memory m"
  shows "write_spec d (rm_memory r) (rm_jobs r) (rm_db r)"
  using assms write_spec.stored_one [OF assms(2) _ write_jobs_of]
  by (auto simp: insert_write_def split: sum.split_asm)

lemma consolidate_then_insert_ok:
  assumes "consolidate_then_insert w env q existing m ids hint d = Inr r" and "typed_db d" and "typed_memory m"
  shows "write_spec d (rm_memory r) (rm_jobs r) (rm_db r)"
proof (cases "shouldConsolidate w q m \<and> consolidateMode w = ConsolidateSync \<and> Embedding m \<noteq> []")
  case False
  then have "insert_write w q existing m (shouldConsolidate w q m) ids hint d = Inr r"
    using assms(1) by (simp only: consolidate_then_insert_def Let_def if_False)
  then show ?thesis using insert_write_ok assms(3) by blast
next
  case True
  obtain m' handled where c: "consolidateSync w env m (explicitImportance q existing) d = Inr (m', handled)"
    using assms(1) True unfolding consolidate_then_insert_def Let_def
    by (cases "consolidateSync w env m (explicitImportance q existing) d") auto
  note ok = consolidateSync_ok [OF c assms(2,3)]
  show ?thesis
  proof (cases handled)
    case None
    then have "insert_write w q existing m' True ids hint d = Inr r"
      using assms(1) True c unfolding consolidate_then_insert_def Let_def by simp
    then show ?thesis using insert_write_ok ok None by auto
  next
    case (Some a)
    obtain res d' where a: "a = (res, d')" by (cases a)
    then have "r = handled_write (Some res) d' [] (mTier m) False"
      using assms(1) True c Some unfolding consolidate_then_insert_def Let_def by simp
    then show ?thesis using ok Some a by (simp add: handled_write_def)
  qed
qed

lemma store_write_ok:
  assumes "store_write w env q existing m d = Inr r" and "db_ok d" and "typed_db d" and "typed_memory m"
  shows "write_spec d (rm_memory r) (rm_jobs r) (rm_db r)"
proof (cases "shouldSplitDedup q m (shouldConsolidate w q m)")
  case False
  then show ?thesis using assms(1) consolidate_then_insert_ok [OF _ assms(3,4)] by (simp add: store_write_def)
next
  case True
  note v = runSplitDedup_ok [OF assms(2-4), of w env]
  show ?thesis
  proof (cases "runSplitDedup w env m d")
    case (Folded hit js d')
    then have "r = handled_write (Some hit) d' js (mTier m) True"
      using assms(1) True by (simp add: store_write_def)
    then show ?thesis using v Folded by (simp add: verdict_ok_def handled_write_def)
  next
    case (Proceed m' hint sid)
    then have "consolidate_then_insert w env q existing m' (asIDList sid) hint d = Inr r"
      using assms(1) True by (simp add: store_write_def)
    then show ?thesis using consolidate_then_insert_ok [OF _ assms(3)] v Proceed by (auto simp: verdict_ok_def)
  qed
qed

lemma fingerprintHit_stored:
  assumes "fingerprintHit w env q tier d = Some e" and "db_ok d"
  shows "Get (Namespace e) (ID e) d = Inr e"
proof -
  from assms(1) have "GetByFingerprint (we_wall env) (wNamespace q) tier (Fingerprint (wContent q)) (we_now env) d = Inr e"
    by (auto simp: fingerprintHit_def split: if_split_asm sum.split_asm)
  then obtain r rest p where "order_by (\<lambda>a b. c_created_at b < c_created_at a) (filter p (memories d)) = r # rest"
    and e: "e = scanRow r"
    unfolding GetByFingerprint_def Let_def by (auto split: if_split_asm list.split_asm)
  then have "r \<in> set (order_by (\<lambda>a b. c_created_at b < c_created_at a) (filter p (memories d)))" by simp
  then have "r \<in> set (memories d)" by simp
  then show ?thesis using Get_of_row [OF assms(2)] e by simp
qed

lemma remember_prepared_ok:
  assumes "remember_prepared w env q tier d = Inr r" and "db_ok d" and "typed_db d" and "prepared_ok q tier"
  shows "write_spec d (rm_memory r) (rm_jobs r) (rm_db r)"
proof (cases "fingerprintHit w env q tier d")
  case (Some e)
  then have "r = handled_write (Some e) d [JReinforceCorroborate e] tier True"
    using assms(1) by (simp add: remember_prepared_def)
  then show ?thesis using write_spec.folded [OF fingerprintHit_stored [OF Some assms(2)]]
    by (simp add: handled_write_def)
next
  case None
  obtain v q' where e: "embedForRemember w q (load_existing q d) d = Inr (v, q')"
    using assms(1) None by (auto simp: remember_prepared_def Let_def split: sum.split_asm)
  have p: "prepared_ok q' tier" using embed_keeps [OF e] assms(4) by (auto simp: prepared_ok_def)
  have "store_write w env q' (load_existing q d)
      (new_memory (we_now env) (if wID q' = '''' then we_newID env else wID q') q' tier (load_existing q d) v) d = Inr r"
    using assms(1) None e by (simp add: remember_prepared_def Let_def)
  then show ?thesis
    by (rule store_write_ok [OF _ assms(2,3) new_memory_typed [OF p load_existing_typed [OF assms(3)]]])
qed

lemma Remember_spec:
  assumes "Remember w env q d = Inr r" and "db_ok d" and "typed_db d"
  shows "write_spec d (rm_memory r) (rm_jobs r) (rm_db r)"
proof (cases "prepare w q")
  case (Inl e)
  then show ?thesis using assms(1) by (simp add: Remember_def)
next
  case (Inr p)
  show ?thesis
  proof (cases p)
    case None
    then show ?thesis using assms(1) Inr write_spec.dropped
      by (auto simp: Remember_def handled_write_def)
  next
    case (Some a)
    obtain q' tier where "a = (q', tier)" by (cases a)
    then show ?thesis using assms remember_prepared_ok prepare_ok(1) Inr Some
      by (auto simp: Remember_def)
  qed
qed

section \<open>Every stored memory is well-formed\<close>

lemma typed_stored: "typed_memory m \<Longrightarrow> typed_memory (stored m old)"
  by (simp add: typed_memory_def stored_def)

lemma typed_scanRow_insert: "typed_memory m \<Longrightarrow> typed_memory (scanRow (insert_row i m))"
  by (simp add: typed_memory_def scanRow_def insert_row_def)

lemma typed_scanRow_update: "typed_memory m \<Longrightarrow> c_namespace r \<noteq> '''' \<Longrightarrow> typed_memory (scanRow (update_row m r))"
  by (simp add: typed_memory_def scanRow_def update_row_def)

lemma typed_namespace: "typed_db d \<Longrightarrow> r \<in> set (memories d) \<Longrightarrow> c_namespace r \<noteq> ''''"
  using typed_row [of d r] by (simp add: typed_memory_def)

lemma Upsert_typed:
  assumes "Upsert m d = Inr d'" and "db_ok d" and "typed_db d" and "typed_memory m"
  shows "typed_db d'"
proof -
  have m': "memories d' = upsert_rows m (memories d)" using Upsert_ok [OF assms(1,2)] by auto
  show ?thesis
    using typed_scanRow_insert [OF assms(4)] typed_scanRow_update [OF assms(4)] typed_namespace [OF assms(3)]
      typed_row [OF assms(3)]
    unfolding typed_db_def list_all_iff m' upsert_rows_def
    by (auto simp: update_where_def split: option.split)
qed

lemma update_typed:
  assumes "update_or_notfound p f d = Inr d'" and "typed_db d"
    and "\<And>r. typed_memory (scanRow r) \<Longrightarrow> typed_memory (scanRow (f r))"
  shows "typed_db d'"
  using assms by (auto simp: update_or_notfound_def typed_db_def list_all_iff update_where_def split: if_split_asm)

lemma SetSuperseded_typed: "SetSuperseded wall ns i k d = Inr d' \<Longrightarrow> typed_db d \<Longrightarrow> typed_db d'"
  unfolding SetSuperseded_def by (erule update_typed) (simp_all add: typed_memory_def scanRow_def)

lemma SetConfidence_typed:
  "SetConfidence ns i c now d = Inr d' \<Longrightarrow> 0 \<le> c \<and> c \<le> 1 \<Longrightarrow> typed_db d \<Longrightarrow> typed_db d'"
  unfolding SetConfidence_def by (erule update_typed) (simp_all add: typed_memory_def scanRow_def)

lemma MarkContradicted_typed:
  "MarkContradicted ns i k c now d = Inr d' \<Longrightarrow> 0 \<le> c \<and> c \<le> 1 \<Longrightarrow> typed_db d \<Longrightarrow> typed_db d'"
  unfolding MarkContradicted_def by (erule update_typed) (simp_all add: typed_memory_def scanRow_def)

lemma Reinforce_typed: "typed_db d \<Longrightarrow> typed_db (Reinforce ns ids t e d)"
  by (auto simp: Reinforce_def typed_db_def list_all_iff update_where_def typed_memory_def scanRow_def)

lemma Delete_typed: "Delete ns i d = Inr d' \<Longrightarrow> typed_db d \<Longrightarrow> typed_db d'"
  by (auto simp: Delete_def delete_memory_rows_purge purge_def delete_where_def typed_db_def list_all_iff split: option.split_asm)

lemma write_spec_typed:
  assumes "write_spec d res js d'" and "db_ok d" and "typed_db d"
  shows "db_ok d' \<and> typed_db d'"
  using assms
proof cases
  case (stored_one m)
  then show ?thesis using Upsert_typed [OF _ assms(2,3)] Upsert_ok [OF _ assms(2)] by blast
next
  case (replaced m d1 wall i)
  then show ?thesis
    using Upsert_typed [OF replaced(4) assms(2,3) replaced(3)] Upsert_ok [OF replaced(4) assms(2)]
      SetSuperseded_typed [OF replaced(5)] sqlite.supersede_wf [OF _ replaced(5)] by blast
qed (use assms in auto)

end
