(* ===== verification/Service_Steps.thy ===== *)
theory Service_Steps
  imports Write_Sound
begin

text \<open>
  The service as a transition system over the database and the jobs under way: writes, edits,
  background jobs in any order (or lost at a shutdown or on a full queue), reinforcement after a
  recall, forgetting and superseding. It refines the driver's steps, and every database it
  reaches holds well-formed memories only.
\<close>

section \<open>Moves\<close>

text \<open>A move is a sequence of the driver's statements that keeps memories well-formed.\<close>

definition moves :: "db \<Rightarrow> db \<Rightarrow> bool" where
  "moves d d' \<longleftrightarrow> store_step\<^sup>*\<^sup>* d d' \<and> (db_ok d \<and> typed_db d \<longrightarrow> db_ok d' \<and> typed_db d')"

lemma moves_refl [simp, intro]: "moves d d"
  by (simp add: moves_def)

lemma moves_trans [trans]: "moves d d' \<Longrightarrow> moves d' d'' \<Longrightarrow> moves d d''"
  unfolding moves_def using rtranclp_trans [of store_step d d' d''] by blast

lemma moves_step:
  "store_step d d' \<Longrightarrow> (db_ok d \<Longrightarrow> typed_db d \<Longrightarrow> db_ok d' \<and> typed_db d') \<Longrightarrow> moves d d'"
  unfolding moves_def by blast

lemma moves_upsert: "Upsert m d = Inr d' \<Longrightarrow> typed_memory m \<Longrightarrow> moves d d'"
  by (rule moves_step [OF store_step.upsert]) (use Upsert_ok Upsert_typed in blast)+

lemma moves_superseded: "SetSuperseded wall ns i k d = Inr d' \<Longrightarrow> moves d d'"
  by (rule moves_step [OF store_step.superseded]) (use sqlite.supersede_wf SetSuperseded_typed in blast)+

lemma moves_confidence: "SetConfidence ns i c now d = Inr d' \<Longrightarrow> 0 \<le> c \<and> c \<le> 1 \<Longrightarrow> moves d d'"
  by (rule moves_step [OF store_step.confidence])
    (blast, blast intro: point_updates_ok(4) SetConfidence_typed)

lemma moves_contradicted: "MarkContradicted ns i k c now d = Inr d' \<Longrightarrow> 0 \<le> c \<and> c \<le> 1 \<Longrightarrow> moves d d'"
  by (rule moves_step [OF store_step.contradicted])
    (blast, blast intro: point_updates_ok(6) MarkContradicted_typed)

lemma moves_reinforce: "moves d (Reinforce ns ids t e d)"
  by (rule moves_step [OF store_step.reinforce]) (use Reinforce_ok Reinforce_typed in blast)

lemma moves_delete: "Delete ns i d = Inr d' \<Longrightarrow> moves d d'"
  by (rule moves_step [OF store_step.delete]) (use Delete_ok Delete_typed in blast)+

lemma moves_best_effort: "(\<And>d'. r = Inr d' \<Longrightarrow> moves d d') \<Longrightarrow> moves d (best_effort d r)"
  by (cases r) (auto simp: best_effort_def)

lemma moves_fold: "(\<And>x e. moves e (f x e)) \<Longrightarrow> moves d (fold f xs d)"
proof (induction xs arbitrary: d)
  case (Cons x xs)
  from Cons.prems have "moves d (f x d)" .
  also have "moves (f x d) (fold f xs (f x d))" by (rule Cons.IH [OF Cons.prems])
  finally show ?case by simp
qed simp

lemma write_spec_moves: "write_spec d res js d' \<Longrightarrow> moves d d'"
proof (induction rule: write_spec.induct)
  case (replaced m d d1 wall i d')
  show ?case using moves_trans [OF moves_upsert [OF replaced(2,1)] moves_superseded [OF replaced(3)]] .
qed (simp_all add: moves_upsert)

section \<open>Jobs\<close>

lemma reinforce_moves: "moves d (reinforce now rs d)"
  unfolding reinforce_def reinforce_group_def by (rule moves_fold) (rule moves_reinforce)

lemma reinforceResults_moves: "moves d (reinforceResults s now results d)"
  by (simp add: reinforceResults_def Let_def reinforce_moves)

lemma corroborate_moves: "moves d (corroborate now m d)"
  using grown_range by (auto simp: corroborate_def intro!: moves_best_effort elim!: moves_confidence)

lemma reinforceCorroborate_moves: "moves d (reinforceCorroborate now m d)"
  unfolding reinforceCorroborate_def by (rule moves_trans [OF reinforce_moves corroborate_moves])

lemma corroborateNearest_moves: "moves d (corroborateNearest w env m d)"
  by (simp add: corroborateNearest_def reinforceCorroborate_moves split: sum.split list.split)

lemma invalidate_moves:
  assumes "0 \<le> AccessCount m"
  shows "moves d (invalidate now m k d)"
proof -
  have u: "1 \<le> 1 + ln (1 + real_of_int (AccessCount m))" using usage_ge_1 assms by blast
  have "0 \<le> min (EffectiveConfidence m now) (0.9 * ConfidenceSeedFresh / (1 + ln (1 + real_of_int (AccessCount m))))"
    using u EffectiveConfidence_bounds [of m now] by simp
  moreover have "min (EffectiveConfidence m now) (0.9 * ConfidenceSeedFresh / (1 + ln (1 + real_of_int (AccessCount m)))) \<le> 1"
    using EffectiveConfidence_bounds [of m now] by (simp add: min.coboundedI1)
  ultimately show ?thesis unfolding invalidate_def Let_def
    by (auto intro!: moves_best_effort elim!: moves_contradicted simp del: min_le_iff_disj min.bounded_iff)
qed

lemma contradictNearest_moves:
  assumes "db_ok d" and "typed_db d"
  shows "moves d (contradictNearest w env m d)"
proof (cases "VectorSearch (we_engine env) (we_wall env) (Namespace m) (Embedding m) (durable_filter (we_now env)) 3 d")
  case (Inr cands)
  show ?thesis
  proof (cases "find (contradicted_by_write w (we_now env) m) cands")
    case (Some c)
    then have "c \<in> set cands" by (auto dest: find_Some_set)
    from VectorSearch_sound [OF assms(1) Inr this] obtain r where "r \<in> set (memories d)" "sMemory c = scanRow r" by blast
    then have "0 \<le> AccessCount (sMemory c)" using typed_row [OF assms(2)] by (simp add: typed_memory_def)
    then show ?thesis using Inr Some invalidate_moves by (simp add: contradictNearest_def)
  qed (simp add: contradictNearest_def Inr)
qed (simp add: contradictNearest_def)

lemma asyncUpdate_moves:
  assumes "typed_db d" and "typed_memory m"
  shows "moves d (asyncUpdate w env m dec d)"
proof -
  define content where "content = (if dContent dec = '''' then Content m else dContent dec)"
  have c: "content \<noteq> ''''" using assms(2) by (simp add: content_def typed_memory_def)
  have "moves d (best_effort d' (SetSuperseded wall ns i k d'))"
    if "Get (Namespace m) (dTarget dec) d = Inr t" "Upsert (merge_into now dec content v t) d = Inr d'" for t v d' now wall ns i k
  proof -
    have "moves d d'" using moves_upsert [OF that(2) merge_into_typed [OF typed_Get [OF assms(1) that(1)] c]] .
    also have "moves d' (best_effort d' (SetSuperseded wall ns i k d'))"
      by (rule moves_best_effort) (rule moves_superseded)
    finally show ?thesis .
  qed
  then show ?thesis unfolding asyncUpdate_def Let_def content_def [symmetric]
    by (auto split: sum.split)
qed

lemma consolidateOne_moves:
  assumes "typed_db d"
  shows "moves d (consolidateOne w env ns i d)"
proof (cases "Get ns i d")
  case (Inr m0)
  have t0: "typed_memory m0" using typed_Get [OF assms Inr] .
  have "moves d (apply_decision w env (m0\<lparr> Embedding := v \<rparr>) dec d)" for v dec
  proof -
    have t: "typed_memory (m0\<lparr> Embedding := v \<rparr>)" using t0 by (simp add: typed_memory_def)
    have tl: "typed_memory (m0\<lparr> Embedding := v, LinkedMemoryIDs := l \<rparr>)" for l
      using t0 by (simp add: typed_memory_def)
    show ?thesis
      using asyncUpdate_moves [OF assms t] moves_upsert [OF _ tl]
      by (auto simp: apply_decision_def asyncSupersede_def intro!: moves_best_effort elim: moves_superseded)
  qed
  then show ?thesis by (auto simp: consolidateOne_def Inr Let_def split: sum.split option.split)
qed (simp add: consolidateOne_def)

lemma run_job_moves: "db_ok d \<Longrightarrow> typed_db d \<Longrightarrow> moves d (run_job w env j d)"
  by (cases j) (simp_all add: reinforceCorroborate_moves consolidateOne_moves corroborateNearest_moves
      contradictNearest_moves moves_best_effort moves_superseded)

section \<open>Steps of the service\<close>

text \<open>A job is one step: the statements of two jobs are not interleaved.\<close>

inductive service_step :: "writer \<Rightarrow> db \<times> job multiset \<Rightarrow> db \<times> job multiset \<Rightarrow> bool" for w :: writer where
  remember: "Remember w env q d = Inr r \<Longrightarrow> service_step w (d, js) (rm_db r, js + mset (rm_jobs r))"
| update: "Update w env u d = Inr (m, r) \<Longrightarrow> service_step w (d, js) (rm_db r, js + mset (rm_jobs r))"
| job: "service_step w (d, add_mset j js) (run_job w env j d, js)"
| lost: "service_step w (d, add_mset j js) (d, js)"
| used: "service_step w (d, js) (reinforceResults s now results d, js)"
| forget: "Forget ns i d = Inr d' \<Longrightarrow> service_step w (d, js) (d', js)"
| supersede: "Supersede wall ns i k d = Inr d' \<Longrightarrow> service_step w (d, js) (d', js)"

inductive service_reachable :: "writer \<Rightarrow> nat \<Rightarrow> db \<times> job multiset \<Rightarrow> bool" for w :: writer and n :: nat where
  empty: "service_reachable w n (empty_db n, {#})"
| step: "service_reachable w n s \<Longrightarrow> service_step w s s' \<Longrightarrow> service_reachable w n s'"

lemma Update_cases:
  assumes "Update w env u d = Inr (m, r)"
  obtains cur where "Get (uNamespace u) (uID u) d = Inr cur" and "update_refused u = None"
    and "Remember w env (overlay_update u (seed_update u cur)) d = Inr r" and "rm_memory r = Some m"
  using assms by (auto simp: Update_def split: sum.split_asm option.split_asm)

lemma service_step_moves:
  "service_step w s s' \<Longrightarrow> db_ok (fst s) \<Longrightarrow> typed_db (fst s) \<Longrightarrow> moves (fst s) (fst s')"
proof (induction rule: service_step.induct)
  case (remember env q d r js)
  then show ?case using write_spec_moves [OF Remember_spec] by simp
next
  case (update env u d m r js)
  from Update_cases [OF this(1)] update(2,3) show ?case using write_spec_moves [OF Remember_spec] by (metis fst_conv)
next
  case (supersede wall ns i k d d' js)
  then show ?case
    by (cases "SetSuperseded wall ns i k d") (auto simp: Supersede_def split: if_split_asm intro: moves_superseded)
qed (simp_all add: run_job_moves reinforceResults_moves Forget_def moves_delete)

lemma store_reachable_star: "store_step\<^sup>*\<^sup>* d d' \<Longrightarrow> store_reachable n d \<Longrightarrow> store_reachable n d'"
  by (induction rule: rtranclp_induct) (auto intro: store_reachable.step)

lemma empty_typed: "typed_db (empty_db n)"
  by (simp add: typed_db_def empty_db_def)

lemma service_reachable_sound:
  "service_reachable w n s \<Longrightarrow> store_reachable n (fst s) \<and> typed_db (fst s)"
proof (induction rule: service_reachable.induct)
  case empty
  then show ?case by (simp add: store_reachable.empty empty_typed)
next
  case (step s s')
  then have ok: "db_ok (fst s)" using reachable_store_ok [of n "fst s"] by (simp add: store_ok_def)
  with step have "moves (fst s) (fst s')" by (simp add: service_step_moves)
  then show ?case using ok step.IH store_reachable_star by (auto simp: moves_def)
qed

end
