(* ===== verification/Write_Effects.thy ===== *)
theory Write_Effects
  imports Service_Steps
begin

text \<open>
  Consequences of the abstract write: what is read back, what is kept, and the effect of a fresh
  write, of a repeated one, of a handoff, of a degraded write and of an edit.
\<close>

section \<open>Reading back and keeping\<close>

text \<open>What a memory is apart from its times, its vectors and its place in the supersession chain.\<close>

definition same_facts :: "memory \<Rightarrow> memory \<Rightarrow> bool" where
  "same_facts m x \<longleftrightarrow> ID x = ID m \<and> Namespace x = Namespace m \<and> mTier x = mTier m \<and> mLevel x = mLevel m
     \<and> Content x = Content m \<and> Summary x = Summary m \<and> Metadata x = Metadata m \<and> Tags x = Tags m
     \<and> Importance x = Importance m \<and> Confidence x = Confidence m \<and> AssessedImportance x = AssessedImportance m
     \<and> AccessCount x = AccessCount m \<and> EmbedState x = EmbedState m \<and> LinkedMemoryIDs x = LinkedMemoryIDs m"

lemma same_facts_stored: "same_facts m (stored m old)"
  by (simp add: same_facts_def stored_def)

lemma same_facts_superseded: "same_facts m x \<Longrightarrow> same_facts m (superseded wall k x)"
  by (simp add: same_facts_def superseded_def)

lemma write_spec_read_back:
  assumes "write_spec d (Some m) js d'" and "db_ok d"
  shows "\<exists>x. Get (Namespace m) (ID m) d' = Inr x \<and> same_facts m x"
  using assms(1)
proof cases
  case folded
  then show ?thesis by (auto simp: same_facts_def)
next
  case stored_one
  then show ?thesis using sqlite.put_get [OF assms(2)] same_facts_stored by blast
next
  case (replaced d1 wall i)
  note g = sqlite.put_get [OF assms(2) replaced(3)] and ok = sqlite.put_wf [OF assms(2) replaced(3)]
  show ?thesis
  proof (cases "i = ID m")
    case True
    show ?thesis using sqlite.supersede_get [OF ok replaced(4)] g same_facts_superseded [OF same_facts_stored]
      unfolding True by auto
  next
    case False
    then show ?thesis using sqlite.supersede_frame [OF ok replaced(4), of "Namespace m" "ID m"] g same_facts_stored by auto
  qed
qed

text \<open>Nothing that was there is lost: another memory stays as it is, or is superseded by the result.\<close>

lemma write_spec_keeps:
  assumes "write_spec d res js d'" and "db_ok d" and "Get ns i d = Inr x"
  shows "Get ns i d' = Inr x
    \<or> (\<exists>m. res = Some m \<and> (ID m = i \<and> Namespace m = ns \<or> (\<exists>wall. Get ns i d' = Inr (superseded wall (ID m) x))))"
  using assms(1)
proof cases
  case (stored_one m)
  show ?thesis
  proof (cases "i = ID m")
    case True
    have "ns = Namespace m"
    proof (rule ccontr)
      assume "ns \<noteq> Namespace m"
      from stored_one(3) have "width_ok m d" by (auto simp: Upsert_def width_ok_def split: if_split_asm)
      from sqlite.put_conflict [OF assms(2) this] assms(3) True \<open>ns \<noteq> Namespace m\<close> have "Upsert m d = Inl (ErrConflict (ID m) ns)" by blast
      then show False using stored_one(3) by simp
    qed
    then show ?thesis using True stored_one(1) by blast
  next
    case False
    then show ?thesis using sqlite.put_frame [OF assms(2) stored_one(3)] assms(3) by simp
  qed
next
  case (replaced m d1 wall j)
  have w: "width_ok m d" using replaced(4) by (auto simp: Upsert_def width_ok_def split: if_split_asm)
  note ok = sqlite.put_wf [OF assms(2) replaced(4)]
  show ?thesis
  proof (cases "i = ID m")
    case True
    then show ?thesis using sqlite.put_conflict [OF assms(2) w, of ns x] assms(3) replaced(1,4) by auto
  next
    case False
    then have g: "Get ns i d1 = Inr x" using sqlite.put_frame [OF assms(2) replaced(4)] assms(3) by simp
    show ?thesis
    proof (cases "(ns, i) = (Namespace m, j)")
      case True
      then show ?thesis using sqlite.supersede_get [OF ok replaced(5)] g replaced(1) by auto
    next
      case False
      then show ?thesis using sqlite.supersede_frame [OF ok replaced(5)] g by auto
    qed
  qed
qed (use assms(3) in auto)

section \<open>A fresh write\<close>

text \<open>
  How a write that neither folds nor is consolidated before it is stored comes about: the memory
  is the new one up to trust, assessment and links, and the database is that of its \<open>Upsert\<close>.
\<close>

definition fresh_write :: "writer \<Rightarrow> write_env \<Rightarrow> RememberInput \<Rightarrow> Tier \<Rightarrow> db \<Rightarrow> remember_out \<Rightarrow> memory \<Rightarrow> bool" where
  "fresh_write w env q tier d r m \<longleftrightarrow> fingerprintHit w env q tier d = None
     \<and> (\<exists>v q' ids. embedForRemember w q (load_existing q d) d = Inr (v, q')
         \<and> same_core (new_memory (we_now env) (if wID q = '''' then we_newID env else wID q) q' tier (load_existing q d) v) m
         \<and> Upsert m d = Inr (rm_db r) \<and> rm_jobs r = write_jobs w q' m (shouldConsolidate w q' m) ids)"

lemma insert_write_fresh:
  assumes "insert_write w q existing m c ids hint d = Inr r"
  shows "rm_memory r = Some m \<and> Upsert m d = Inr (rm_db r) \<and> rm_jobs r = write_jobs w q m c ids \<and> \<not> rm_reinforced r"
  using assms by (auto simp: insert_write_def split: sum.split_asm)

lemma shouldConsolidate_core: "same_core m m' \<Longrightarrow> shouldConsolidate w q m' = shouldConsolidate w q m"
  using same_core_fields by (simp add: shouldConsolidate_def)

lemma consolidate_then_insert_async:
  assumes "consolidate_then_insert w env q existing m ids hint d = Inr r" and "consolidateMode w \<noteq> ConsolidateSync"
  shows "rm_memory r = Some m \<and> Upsert m d = Inr (rm_db r)
    \<and> rm_jobs r = write_jobs w q m (shouldConsolidate w q m) ids \<and> \<not> rm_reinforced r"
proof -
  have "insert_write w q existing m (shouldConsolidate w q m) ids hint d = Inr r"
    using assms by (simp add: consolidate_then_insert_def Let_def)
  then show ?thesis by (rule insert_write_fresh)
qed

lemma dedupCheck_core:
  assumes "dedupCheck w env m d = Proceed m' hint sid"
  shows "same_core m m'"
proof -
  have act: "same_core m m'" if "dedup_action w m best d = Proceed m' hint sid" for best
    using that carry_over_core by (auto simp: dedup_action_def Let_def split: if_split_asm)
  show ?thesis using assms act unfolding dedupCheck_def
    by (auto split: sum.split_asm list.split_asm if_split_asm)
qed

lemma runSplitDedup_core: "runSplitDedup w env m d = Proceed m' hint sid \<Longrightarrow> same_core m m'"
  using dedupCheck_core by (auto simp: runSplitDedup_def split: if_split_asm)

lemma store_write_async:
  assumes "store_write w env q existing m d = Inr r" and "consolidateMode w \<noteq> ConsolidateSync" and "\<not> rm_reinforced r"
  shows "\<exists>m' ids. rm_memory r = Some m' \<and> same_core m m' \<and> Upsert m' d = Inr (rm_db r)
    \<and> rm_jobs r = write_jobs w q m' (shouldConsolidate w q m') ids"
proof (cases "shouldSplitDedup q m (shouldConsolidate w q m)")
  case False
  then show ?thesis using consolidate_then_insert_async [OF _ assms(2)] assms(1)
    by (simp add: store_write_def) blast
next
  case True
  show ?thesis
  proof (cases "runSplitDedup w env m d")
    case (Folded hit js d')
    then have "rm_reinforced r" using assms(1) True by (auto simp: store_write_def handled_write_def)
    then show ?thesis using assms(3) by simp
  next
    case (Proceed m' hint sid)
    then have "consolidate_then_insert w env q existing m' (asIDList sid) hint d = Inr r"
      using assms(1) True by (simp add: store_write_def)
    from consolidate_then_insert_async [OF this assms(2)] runSplitDedup_core [OF Proceed] show ?thesis by blast
  qed
qed

lemma Remember_fresh:
  assumes "Remember w env q d = Inr r" and "consolidateMode w \<noteq> ConsolidateSync" and "\<not> rm_reinforced r"
    and "rm_memory r = Some m"
  obtains q' tier where "prepare w q = Inr (Some (q', tier))" and "fresh_write w env q' tier d r m"
proof -
  obtain q' tier where p: "prepare w q = Inr (Some (q', tier))"
    using assms(1,4) by (auto simp: Remember_def handled_write_def split: sum.split_asm option.split_asm)
  have rp: "remember_prepared w env q' tier d = Inr r" using assms(1) p by (simp add: Remember_def)
  have f: "fingerprintHit w env q' tier d = None"
    using rp assms(3) by (cases "fingerprintHit w env q' tier d") (auto simp: remember_prepared_def handled_write_def)
  obtain v q'' where e: "embedForRemember w q' (load_existing q' d) d = Inr (v, q'')"
    using rp f by (auto simp: remember_prepared_def Let_def split: sum.split_asm)
  have i: "wID q'' = wID q'" using embed_keeps [OF e] by auto
  have "store_write w env q'' (load_existing q' d)
      (new_memory (we_now env) (if wID q' = '''' then we_newID env else wID q') q'' tier (load_existing q' d) v) d = Inr r"
    using rp f e by (simp add: remember_prepared_def Let_def i cong: if_cong split del: if_split)
  from store_write_async [OF this assms(2,3)] assms(4) obtain ids where
    "same_core (new_memory (we_now env) (if wID q' = '''' then we_newID env else wID q') q'' tier (load_existing q' d) v) m"
    "Upsert m d = Inr (rm_db r)" "rm_jobs r = write_jobs w q'' m (shouldConsolidate w q'' m) ids"
    by auto
  then have "fresh_write w env q' tier d r m"
    using e f unfolding fresh_write_def by blast
  with p show ?thesis by (rule that)
qed

end
