(* ===== verification/Write_Cases.thy ===== *)
theory Write_Cases
  imports Write_Effects
begin

text \<open>
  Four kinds of writes in detail: an exact repetition, a handoff to a slot, a write without a
  vector, and an edit by id.
\<close>

section \<open>Repeating a write\<close>

lemma live_at_antimono: "live_at now' r \<Longrightarrow> now \<le> now' \<Longrightarrow> live_at now r"
  using UnixMilli_mono [of now now'] unfolding live_at_def valid_at_def null_or_def
  by (auto split: option.splits)

definition lives_at :: "Time \<Rightarrow> memory \<Rightarrow> bool" where
  "lives_at now m \<longleftrightarrow> SupersededBy m = None \<and> null_or (\<lambda>e. ms now < ms e) (ExpiresAt m)
     \<and> null_or (\<lambda>e. ms now < ms e) (ValidTo m)"

lemma Upsert_rows:
  assumes "Upsert m d = Inr d'" and "db_ok d"
  shows "r \<in> set (memories d') \<longleftrightarrow>
    (r \<in> set (memories d) \<and> c_id r \<noteq> ID m)
    \<or> r = (case lookup c_id (memories d) (ID m) of
              None \<Rightarrow> insert_row (next_rowid (map c_rowid (memories d))) m
            | Some x \<Rightarrow> update_row m x)"
proof -
  have ok: "distinct (map c_rowid (memories d))" "distinct (map c_id (memories d))"
    using assms(2) by (simp_all add: db_ok_def rows_ok_def)
  have m': "memories d' = upsert_rows m (memories d)" using Upsert_ok [OF assms] by blast
  show ?thesis
  proof (cases "lookup c_id (memories d) (ID m)")
    case None
    then have "ID m \<notin> c_id ` set (memories d)" by (simp add: lookup_None_iff)
    then have "c_id r \<noteq> ID m" if "r \<in> set (memories d)" using that by (metis image_eqI)
    then show ?thesis using None by (auto simp: m' upsert_rows_def)
  next
    case (Some x)
    note x = lookup_Some [OF Some]
    have same: "c_rowid r = c_rowid x \<longleftrightarrow> c_id r = ID m" if "r \<in> set (memories d)" for r
      using that x ok by (metis inj_on_eq_iff distinct_map)
    have "r \<in> set (memories d') \<longleftrightarrow> (\<exists>y \<in> set (memories d). r = (if c_rowid y = c_rowid x then update_row m y else y))"
      by (auto simp: m' upsert_rows_def Some update_where_def)
    also have "\<dots> \<longleftrightarrow> (r \<in> set (memories d) \<and> c_id r \<noteq> ID m) \<or> r = update_row m x"
    proof
      assume "\<exists>y \<in> set (memories d). r = (if c_rowid y = c_rowid x then update_row m y else y)"
      then obtain y where y: "y \<in> set (memories d)" "r = (if c_rowid y = c_rowid x then update_row m y else y)" by blast
      show "(r \<in> set (memories d) \<and> c_id r \<noteq> ID m) \<or> r = update_row m x"
      proof (cases "c_rowid y = c_rowid x")
        case True
        then have "y = x" using y(1) x ok by (metis inj_on_eq_iff distinct_map)
        then show ?thesis using y by simp
      qed (use y same in auto)
    next
      assume "(r \<in> set (memories d) \<and> c_id r \<noteq> ID m) \<or> r = update_row m x"
      then show "\<exists>y \<in> set (memories d). r = (if c_rowid y = c_rowid x then update_row m y else y)"
        using x same by auto
    qed
    finally show ?thesis by (simp add: Some)
  qed
qed

definition stored_row :: "memory \<Rightarrow> db \<Rightarrow> mem_row" where
  "stored_row m d = (case lookup c_id (memories d) (ID m) of
     None \<Rightarrow> insert_row (next_rowid (map c_rowid (memories d))) m | Some x \<Rightarrow> update_row m x)"

lemma stored_row_columns:
  assumes "Upsert m d = Inr d'"
  shows "c_id (stored_row m d) = ID m" and "c_namespace (stored_row m d) = Namespace m"
    and "c_tier (stored_row m d) = mTier m" and "c_fingerprint (stored_row m d) = Fingerprint (Content m)"
    and "c_superseded_by (stored_row m d) = SupersededBy m"
    and "c_expires_at (stored_row m d) = map_option ms (ExpiresAt m)"
    and "c_valid_to (stored_row m d) = map_option ms (ValidTo m)"
    and "c_embed_state (stored_row m d) = EmbedState m" and "c_metadata (stored_row m d) = Metadata m"
    and "c_tags (stored_row m d) = Tags m"
proof -
  have "c_id x = ID m \<and> c_namespace x = Namespace m" if "lookup c_id (memories d) (ID m) = Some x" for x
    using Upsert_error_free [OF assms that] lookup_Some [OF that] by simp
  then show "c_id (stored_row m d) = ID m" "c_namespace (stored_row m d) = Namespace m"
    "c_tier (stored_row m d) = mTier m" "c_fingerprint (stored_row m d) = Fingerprint (Content m)"
    "c_superseded_by (stored_row m d) = SupersededBy m" "c_expires_at (stored_row m d) = map_option ms (ExpiresAt m)"
    "c_valid_to (stored_row m d) = map_option ms (ValidTo m)" "c_embed_state (stored_row m d) = EmbedState m"
    "c_metadata (stored_row m d) = Metadata m" "c_tags (stored_row m d) = Tags m"
    by (cases "lookup c_id (memories d) (ID m)"; simp add: stored_row_def insert_row_def update_row_def)+
qed

lemma null_or_map: "null_or P (map_option f x) = null_or (\<lambda>y. P (f y)) x"
  by (simp add: null_or_def split: option.split)

text \<open>After a fresh write its own row is the only live one with its fingerprint.\<close>

lemma fingerprint_after:
  assumes "db_ok d" and "Upsert m d = Inr d'" and "now \<le> now'" and "lives_at now' m"
    and "fingerprint_rows (Namespace m) (mTier m) (Fingerprint (Content m)) now d = {}"
  shows "fingerprint_rows (Namespace m) (mTier m) (Fingerprint (Content m)) now' d' = {stored_row m d}"
proof -
  note cols = stored_row_columns [OF assms(2)] and rows = Upsert_rows [OF assms(2,1), folded stored_row_def]
  have "live_at now' (stored_row m d)" using assms(4)
    by (simp add: live_at_def valid_at_def lives_at_def cols null_or_map)
  then have own: "stored_row m d \<in> fingerprint_rows (Namespace m) (mTier m) (Fingerprint (Content m)) now' d'"
    by (simp add: fingerprint_rows_def rows cols)
  have "r = stored_row m d"
    if "r \<in> fingerprint_rows (Namespace m) (mTier m) (Fingerprint (Content m)) now' d'" for r
    using that assms(5) live_at_antimono [OF _ assms(3)] by (auto simp: fingerprint_rows_def rows)
  with own show ?thesis by blast
qed

lemma fingerprintHit_rows:
  assumes "fingerprintDedup w" and "wID q = ''''" and "\<not> IsZero (we_now env)"
  shows "fingerprintHit w env q tier d = None \<longleftrightarrow>
      fingerprint_rows (wNamespace q) tier (Fingerprint (wContent q)) (we_now env) d = {}"
    and "fingerprintHit w env q tier d = Some e \<Longrightarrow>
      \<exists>r \<in> fingerprint_rows (wNamespace q) tier (Fingerprint (wContent q)) (we_now env) d. e = scanRow r"
proof -
  let ?g = "GetByFingerprint (we_wall env) (wNamespace q) tier (Fingerprint (wContent q)) (we_now env) d"
  have h: "fingerprintHit w env q tier d = (case ?g of Inl e \<Rightarrow> None | Inr m \<Rightarrow> Some m)"
    using assms(1,2) by (simp add: fingerprintHit_def)
  show "fingerprintHit w env q tier d = None \<longleftrightarrow>
      fingerprint_rows (wNamespace q) tier (Fingerprint (wContent q)) (we_now env) d = {}"
    using GetByFingerprint_Inl [of _ _ _ _ "we_now env" d] GetByFingerprint_Inr [of _ _ _ _ "we_now env" d] assms(3)
    by (cases ?g) (fastforce simp: h)+
  show "\<exists>r \<in> fingerprint_rows (wNamespace q) tier (Fingerprint (wContent q)) (we_now env) d. e = scanRow r"
    if "fingerprintHit w env q tier d = Some e"
    using GetByFingerprint_Inr [of _ _ _ _ "we_now env" d e] assms(3) that
    by (cases ?g) (fastforce simp: h)+
qed

lemma repeated_write:
  assumes "db_ok d" and p: "prepare w q = Inr (Some (q', tier))" and f: "fresh_write w env q' tier d r m"
    and "wID q = []" and "fingerprintDedup w" and "0 < we_now env" and "we_now env \<le> we_now env'"
    and l: "lives_at (we_now env') m"
  shows "\<exists>x. Remember w env' q (rm_db r) =
      Inr (handled_write (Some x) (rm_db r) [JReinforceCorroborate x] tier True) \<and> ID x = ID m"
proof -
  have i: "wID q' = []" using prepare_ok(2) [OF p] assms(4) by simp
  have nz: "\<not> IsZero (we_now env)" "\<not> IsZero (we_now env')" using assms(6,7) by (simp_all add: IsZero_def)
  from f obtain v q'' where e: "embedForRemember w q' (load_existing q' d) d = Inr (v, q'')"
    and c: "same_core (new_memory (we_now env) (if wID q' = [] then we_newID env else wID q') q'' tier (load_existing q' d) v) m"
    and u: "Upsert m d = Inr (rm_db r)" and n: "fingerprintHit w env q' tier d = None"
    unfolding fresh_write_def by blast
  from embed_keeps [OF e] obtain meta where q'': "q'' = q'\<lparr> wMetadata := meta \<rparr>" by blast
  have m: "Namespace m = wNamespace q'" "mTier m = tier" "Content m = wContent q'"
    using same_core_fields [OF c] q'' by simp_all
  have "fingerprint_rows (Namespace m) (mTier m) (Fingerprint (Content m)) (we_now env) d = {}"
    using fingerprintHit_rows(1) [OF assms(5) i nz(1)] n by (simp add: m)
  note rows = fingerprint_after [OF assms(1) u assms(7) l this]
  have "fingerprintHit w env' q' tier (rm_db r) \<noteq> None"
    using fingerprintHit_rows(1) [OF assms(5) i nz(2)] rows by (simp add: m)
  then obtain x where x: "fingerprintHit w env' q' tier (rm_db r) = Some x" by blast
  then have "x = scanRow (stored_row m d)" using fingerprintHit_rows(2) [OF assms(5) i nz(2) x] rows by (simp add: m)
  then have "ID x = ID m" using stored_row_columns(1) [OF u] by simp
  then show ?thesis using p x by (intro exI [of _ x]) (simp add: Remember_def remember_prepared_def)
qed

section \<open>A handoff takes over its slot\<close>

definition supersede_all :: "writer \<Rightarrow> write_env \<Rightarrow> job list \<Rightarrow> db \<Rightarrow> db" where
  "supersede_all w env js d =
     fold (run_job w env) (filter (\<lambda>j. case j of JSupersede ns old new \<Rightarrow> True | _ \<Rightarrow> False) js) d"

lemma superseded_rows:
  assumes "r \<in> set (memories (best_effort d (SetSuperseded wall ns i k d)))" and "c_superseded_by r = None"
  shows "r \<in> set (memories d) \<and> \<not> row_at ns i r"
proof (cases "SetSuperseded wall ns i k d")
  case (Inl e)
  then have "\<forall>x \<in> set (memories d). \<not> row_at ns i x"
    by (auto simp: SetSuperseded_def update_or_notfound_def split: if_split_asm)
  then show ?thesis using assms(1) Inl by (auto simp: best_effort_def)
next
  case (Inr d')
  obtain f where f: "memories d' = update_where (row_at ns i) f (memories d)" "\<And>r. c_superseded_by (f r) = Some k"
    using Inr unfolding SetSuperseded_def update_or_notfound_Inr by fastforce
  have "r \<in> set (update_where (row_at ns i) f (memories d))"
    using assms(1) Inr f(1) by (simp add: best_effort_def)
  then obtain r0 where "r0 \<in> set (memories d)" "r = (if row_at ns i r0 then f r0 else r0)"
    unfolding set_update_where by blast
  then show ?thesis using assms(2) f(2) by (simp split: if_split_asm)
qed

lemma superseded_rows_fold:
  assumes "r \<in> set (memories (fold (run_job w env) (map (\<lambda>i. JSupersede ns i k) ids) d))" and "c_superseded_by r = None"
  shows "r \<in> set (memories d) \<and> (c_namespace r = ns \<longrightarrow> c_id r \<notin> set ids)"
  using assms(1)
proof (induction ids arbitrary: d)
  case (Cons i ids)
  have "r \<in> set (memories (fold (run_job w env) (map (\<lambda>i. JSupersede ns i k) ids)
      (best_effort d (SetSuperseded (we_wall env) ns i k d))))" using Cons.prems by simp
  from Cons.IH [OF this] have h: "r \<in> set (memories (best_effort d (SetSuperseded (we_wall env) ns i k d)))"
      "c_namespace r = ns \<longrightarrow> c_id r \<notin> set ids" by blast+
  from superseded_rows [OF h(1) assms(2)] h(2) show ?case by (simp add: row_at_def) blast
qed simp

lemma supersede_all_write_jobs:
  "supersede_all w env (write_jobs w' q m c ids) d =
     fold (run_job w env) (map (\<lambda>i. JSupersede (Namespace m) i (ID m)) (filter (\<lambda>i. i \<noteq> '''') ids)) d"
proof -
  have "filter (\<lambda>j. case j of JSupersede ns old new \<Rightarrow> True | _ \<Rightarrow> False) (write_jobs w' q m c ids)
      = map (\<lambda>i. JSupersede (Namespace m) i (ID m)) (filter (\<lambda>i. i \<noteq> '''') ids)"
    by (simp add: write_jobs_def filter_map comp_def)
  then show ?thesis by (simp add: supersede_all_def)
qed

lemma handoff_write:
  assumes r: "Remember w env q d = Inr r" and "isHandoff (wTags q)" and "wID q = ''''"
    and "\<not> rm_reinforced r" and "rm_memory r = Some m"
  obtains q' where "Upsert m d = Inr (rm_db r)" and "SupersededBy m = None"
    and "rm_jobs r = write_jobs w q' m False
      (filter (\<lambda>i. i \<noteq> ID m) (map ID (liveHandoffs env (Namespace m) (handoffSlot (Metadata m)) d)))"
proof -
  obtain q' tier where p: "prepare w q = Inr (Some (q', tier))"
    using assms(1,5) by (auto simp: Remember_def handled_write_def split: sum.split_asm option.split_asm)
  have i: "wID q' = ''''" "wTags q' = wTags q" using prepare_ok(2,3) [OF p] assms(3) by simp_all
  have rp: "remember_prepared w env q' tier d = Inr r" using assms(1) p by (simp add: Remember_def)
  have f: "fingerprintHit w env q' tier d = None"
    using rp assms(4) by (cases "fingerprintHit w env q' tier d") (auto simp: remember_prepared_def handled_write_def)
  obtain v q'' where e: "embedForRemember w q' (load_existing q' d) d = Inr (v, q'')"
    using rp f by (auto simp: remember_prepared_def Let_def split: sum.split_asm)
  have i'': "wID q'' = ''''" "wTags q'' = wTags q" using embed_keeps [OF e] i by auto
  define n where "n = new_memory (we_now env) (we_newID env) q'' tier (load_existing q' d) v"
  have h: "isHandoff (Tags n)" using assms(2) i'' by (simp add: n_def)
  have "store_write w env q'' (load_existing q' d) n d = Inr r"
    using rp f e i'' by (simp add: remember_prepared_def Let_def n_def)
  then have "insert_write w q'' (load_existing q' d) n False (priorHandoffIDs env q'' n d) None d = Inr r"
    using h by (simp add: store_write_def shouldSplitDedup_def shouldConsolidate_def consolidate_then_insert_def)
  from insert_write_fresh [OF this] assms(5) h i''(1) show thesis
    by (intro that [of q'']) (simp_all add: priorHandoffIDs_def n_def new_memory_def Let_def)
qed

lemma supersede_fold_frame:
  assumes "db_ok d" and "k \<notin> set ids"
  shows "Get ns k (fold (run_job w env) (map (\<lambda>i. JSupersede ns i new) ids) d) = Get ns k d"
  using assms
proof (induction ids arbitrary: d)
  case (Cons i ids)
  have "db_ok (best_effort d (SetSuperseded (we_wall env) ns i new d))
      \<and> Get ns k (best_effort d (SetSuperseded (we_wall env) ns i new d)) = Get ns k d"
    using Cons.prems sqlite.supersede_wf [OF Cons.prems(1)] sqlite.supersede_frame [OF Cons.prems(1)]
    by (cases "SetSuperseded (we_wall env) ns i new d") (auto simp: best_effort_def)
  then show ?case using Cons.IH Cons.prems(2) by simp
qed simp

lemma handoff_takes_slot:
  assumes "db_ok d" and u: "Upsert m d = Inr d'"
    and js: "js = write_jobs w' q m False
      (filter (\<lambda>i. i \<noteq> ID m) (map ID (liveHandoffs env (Namespace m) slot d)))"
    and x: "x \<in> set (liveHandoffs env (Namespace m) slot (supersede_all w env js d'))" and "ID x \<noteq> ''''"
    and "0 < we_now env"
  shows "ID x = ID m"
proof (rule ccontr)
  assume ne: "ID x \<noteq> ID m"
  let ?f = "no_filter\<lparr> Now := we_now env, fTags := [HandoffTag], fMetadata := [(MetaHandoffSlot, slot)] \<rparr>"
  let ?ids = "filter (\<lambda>i. i \<noteq> '''') (filter (\<lambda>i. i \<noteq> ID m) (map ID (liveHandoffs env (Namespace m) slot d)))"
  from x obtain r where r: "r \<in> set (memories (supersede_all w env js d'))" "x = scanRow r" "c_namespace r = Namespace m"
    and fc: "filterClause (we_engine env) (we_wall env) ?f r"
    unfolding liveHandoffs_def by (blast dest: List_memories_sound)
  have s: "c_superseded_by r = None"
    using default_view_live [OF _ fc] assms(6) by (simp add: default_view_def live_at_def no_filter_def IsZero_def)
  have "r \<in> set (memories (fold (run_job w env) (map (\<lambda>i. JSupersede (Namespace m) i (ID m)) ?ids) d'))"
    using r(1) by (simp only: js supersede_all_write_jobs)
  from superseded_rows_fold [OF this s] r(3) have "r \<in> set (memories d')" "c_id r \<notin> set ?ids" by blast+
  moreover from this(1) have "r \<in> set (memories d)"
    using Upsert_rows [OF u assms(1), folded stored_row_def, of r] stored_row_columns(1) [OF u] ne r(2) by auto
  then have "scanRow r \<in> set (liveHandoffs env (Namespace m) slot d)"
    unfolding liveHandoffs_def List_memories_complete [OF order_refl] using r(3) fc by blast
  then have "c_id r \<in> set ?ids" using ne assms(5) r(2) by force
  ultimately show False by blast
qed

section \<open>A write without a vector\<close>

lemma degraded_memory:
  assumes f: "fresh_write w env q' tier d r m" and "wID q' = ''''" and "embedder w (wContent q') = Inl e"
  shows "Embedding m = [] \<and> EmbedState m = RepairPending
    \<and> Metadata m PendingEmbedKey = Some (JStr PendingEmbedValue) \<and> 0 < writeEmbedTimeout w \<and> Content m = wContent q'"
proof -
  from f obtain v q'' where e: "embedForRemember w q' (load_existing q' d) d = Inr (v, q'')"
    and c: "same_core (new_memory (we_now env) (we_newID env) q'' tier (load_existing q' d) v) m"
    using assms(2) unfolding fresh_write_def by auto
  have x: "load_existing q' d = None" using assms(2) by (simp add: load_existing_def)
  from e have e': "0 < writeEmbedTimeout w" "v = []"
      "q'' = q'\<lparr> wMetadata := (wMetadata q')(PendingEmbedKey \<mapsto> JStr PendingEmbedValue) \<rparr>"
    using assms(3) by (auto simp: embedForRemember_def x reusableVector_def Let_def split: if_split_asm)
  have "Metadata m PendingEmbedKey = Some (JStr PendingEmbedValue)"
    using same_core_fields [OF c] e'(3) by (simp add: new_memory_def Let_def markCustomTTL_def split: option.split)
  moreover have "EmbedState m = RepairPending"
    using same_core_fields [OF c] e'(2) by (simp add: new_memory_def Let_def degradedRepairState_def)
  ultimately show ?thesis using same_core_fields [OF c] e' by simp
qed

section \<open>An edit by id\<close>

lemma TrimSpace_Nil [simp]: "TrimSpace '''' = ''''"
  by (simp add: TrimSpace_def)

lemma validate_visibility:
  assumes "validateRememberInput w q = Inr (q1, tier)" and "wVisibility q = ''''" and "wTier q \<noteq> ''''"
  shows "q1 = q \<and> tier = wTier q"
proof -
  have "q\<lparr> wNamespace := wNamespace q \<rparr> = q" by simp
  then show ?thesis
    using assms unfolding validateRememberInput_def Let_def
    by (auto simp: resolveVisibility_def split: if_split_asm option.split_asm)
qed

text \<open>The fields of a request that no preparation touches.\<close>

definition request_frame ::
    "RememberInput \<Rightarrow> string \<times> string list \<times> Level \<times> real option \<times> Duration option \<times> Time option \<times> Time option" where
  "request_frame q = (wNamespace q, wTags q, wLevel q, wConfidence q, wTTL q, wValidFrom q, wValidTo q)"

lemma request_frame_steps:
  "request_frame (stampClassifiedTier t q) = request_frame q" "request_frame (stampAuthor q) = request_frame q"
  "request_frame (stampHandoff q) = request_frame q" "request_frame (scrubInput w q) = request_frame q"
  "sanitizeContent w q = Inr q' \<Longrightarrow> request_frame q' = request_frame q"
  "dropsAsCaptureOrLowSignal w tier q = (b, q') \<Longrightarrow> request_frame q' = request_frame q"
  by (auto simp: request_frame_def stampClassifiedTier_def stampAuthor_def stampHandoff_def scrubInput_def
      sanitizeContent_def dropsAsCaptureOrLowSignal_def Let_def split: if_split_asm)

lemma prepare_frame:
  assumes "prepare w q = Inr (Some (q', tier))" and "wVisibility q = []" and "wTier q \<noteq> []"
  shows "request_frame q' = request_frame q \<and> tier = wTier q"
  using assms(1)
proof (rule prepare_cases)
  fix q1 q2
  assume v: "validateRememberInput w q = Inr (q1, tier)"
    and s: "sanitizeContent w (scrubInput w (stampHandoff (stampAuthor (stampClassifiedTier tier q1)))) = Inr q2"
    and g: "dropsAsCaptureOrLowSignal w tier q2 = (False, q')"
  from validate_visibility [OF v assms(2,3)] request_frame_steps(5) [OF s] request_frame_steps(6) [OF g]
  show ?thesis by (simp add: request_frame_steps(1-4))
qed

lemma write_by_id:
  assumes r: "Remember w env q d = Inr r" and "rm_memory r = Some m" and i: "wID q \<noteq> []"
    and vis: "wVisibility q = []" "wTier q \<noteq> []" and cur: "Get (wNamespace q) (wID q) d = Inr cur"
  obtains q' v where "request_frame q' = request_frame q"
    and "m = new_memory (we_now env) (wID q) q' (wTier q) (Some cur) v"
    and "Upsert m d = Inr (rm_db r)" and "rm_jobs r = []"
proof -
  obtain q' tier where p: "prepare w q = Inr (Some (q', tier))"
    using assms(1,2) by (auto simp: Remember_def handled_write_def split: sum.split_asm option.split_asm)
  note fr = prepare_frame [OF p vis]
  have t: "tier = wTier q" using fr by blast
  have i': "wID q' = wID q" using prepare_ok(2) [OF p] .
  have ns: "wNamespace q' = wNamespace q" using fr by (simp add: request_frame_def)
  have ex: "load_existing q' d = Some cur" using cur i by (simp add: load_existing_def i' ns)
  have rp: "remember_prepared w env q' tier d = Inr r" using assms(1) p by (simp add: Remember_def)
  have f: "fingerprintHit w env q' tier d = None" using i i' by (simp add: fingerprintHit_def)
  obtain v q'' where e: "embedForRemember w q' (Some cur) d = Inr (v, q'')"
    using rp f ex by (auto simp: remember_prepared_def Let_def split: sum.split_asm)
  from embed_keeps [OF e] obtain meta where q'': "q'' = q'\<lparr> wMetadata := meta \<rparr>" by blast
  define n where "n = new_memory (we_now env) (wID q) q'' tier (Some cur) v"
  have "store_write w env q'' (Some cur) n d = Inr r"
    using rp f e i i' q'' by (simp add: remember_prepared_def Let_def n_def ex)
  then have "insert_write w q'' (Some cur) n False [] None d = Inr r"
    using i i' q'' by (simp add: store_write_def shouldSplitDedup_def shouldConsolidate_def consolidate_then_insert_def
        priorHandoffIDs_def)
  from insert_write_fresh [OF this] assms(2) i i' q'' fr
  show thesis by (intro that [of q'' v]) (simp_all add: n_def t write_jobs_def request_frame_def)
qed

lemma edit_effect:
  assumes u: "Update w env u d = Inr (m, r)" and "db_ok d" and "typed_db d" and "uID u \<noteq> []"
    and cur: "Get (uNamespace u) (uID u) d = Inr cur"
  shows "ID m = uID u \<and> Namespace m = uNamespace u \<and> mTier m = or_else (uTier u) (mTier cur)
    \<and> mLevel m = or_else (uLevel u) (mLevel cur) \<and> Tags m = or_else (uTags u) (Tags cur)
    \<and> CreatedAt m = CreatedAt cur \<and> ValidFrom m = ValidFrom cur \<and> ValidTo m = ValidTo cur"
    and "Confidence m = (if Tier_Term (mTier m) \<noteq> LongTerm then None
        else map_option clampConfidence (if uConfidence u = None then Confidence cur else uConfidence u))"
    and "AccessCount m = 0 \<and> LinkedMemoryIDs m = [] \<and> SupersededBy m = None
      \<and> ExpiresAt m = resolveExpiry (we_now env) (mTier m) None"
    and "Upsert m d = Inr (rm_db r)" and "rm_jobs r = []"
proof -
  from Update_cases [OF u] cur have ref: "update_refused u = None"
    and re: "Remember w env (overlay_update u (seed_update u cur)) d = Inr r" and m: "rm_memory r = Some m" by auto
  define q where "q = overlay_update u (seed_update u cur)"
  have tc: "typed_memory cur" using typed_Get [OF assms(3) cur] .
  have key: "ID cur = uID u" "Namespace cur = uNamespace u" using sqlite.get_key [OF cur] by simp_all
  have q: "wID q = uID u" "wNamespace q = uNamespace u" "wVisibility q = []"
    "wTier q = or_else (uTier u) (mTier cur)"
    by (simp_all add: q_def overlay_update_def seed_update_def key)
  have "wTier q \<noteq> []"
    using ref tc by (auto simp: q(4) or_else_def update_refused_def typed_memory_def Tier_Valid_def
        split: option.split if_split_asm option.split_asm)
  then obtain q' v where fr: "request_frame q' = request_frame q"
    and mm: "m = new_memory (we_now env) (wID q) q' (wTier q) (Some cur) v"
    and up: "Upsert m d = Inr (rm_db r)" and js: "rm_jobs r = []"
    using write_by_id [OF re [folded q_def] m _ q(3)] q assms(4) cur by metis
  have f: "wNamespace q' = uNamespace u" "wTags q' = or_else (uTags u) (Tags cur)" "wLevel q' = or_else (uLevel u) (mLevel cur)"
    "wConfidence q' = (if uConfidence u = None then Confidence cur else uConfidence u)" "wTTL q' = None"
    "wValidFrom q' = ValidFrom cur" "wValidTo q' = ValidTo cur"
    using fr by (simp_all add: request_frame_def q_def overlay_update_def seed_update_def)
  show "ID m = uID u \<and> Namespace m = uNamespace u \<and> mTier m = or_else (uTier u) (mTier cur)
    \<and> mLevel m = or_else (uLevel u) (mLevel cur) \<and> Tags m = or_else (uTags u) (Tags cur)
    \<and> CreatedAt m = CreatedAt cur \<and> ValidFrom m = ValidFrom cur \<and> ValidTo m = ValidTo cur"
    by (simp add: mm new_memory_def Let_def q f resolve_valid_from_def resolve_valid_to_def split: option.split)
  show "Confidence m = (if Tier_Term (mTier m) \<noteq> LongTerm then None
        else map_option clampConfidence (if uConfidence u = None then Confidence cur else uConfidence u))"
    by (simp add: mm new_memory_def Let_def q f resolve_confidence_def split: option.split)
  show "AccessCount m = 0 \<and> LinkedMemoryIDs m = [] \<and> SupersededBy m = None
      \<and> ExpiresAt m = resolveExpiry (we_now env) (mTier m) None"
    by (simp add: mm new_memory_def Let_def q f)
  show "Upsert m d = Inr (rm_db r)" "rm_jobs r = []" by (fact up js)+
qed

section \<open>The vector of a write\<close>

lemma write_indexes_vectors:
  assumes "write_indexes i rw m d = Inr d'"
  shows "vec_memories d' = delete_where (\<lambda>v. v_rowid v = i) (vec_memories d)
    @ (if Embedding m \<noteq> [] then [\<lparr> v_rowid = i, v_namespace = Namespace m, v_embedding = Embedding m \<rparr>] else [])"
proof -
  define d2 where "d2 = (if Embedding m \<noteq> [] then vec_insert i (Namespace m) (Embedding m) (vec_clear i d) else vec_clear i d)"
  from assms obtain d3 where "(if rw then writeChunks i (Namespace m) (case Chunks m of None \<Rightarrow> [] | Some cs \<Rightarrow> cs) d2
      else Inr d2) = Inr d3" and d': "d' = fts_rewrite i m d3"
    unfolding write_indexes_def Let_def d2_def [symmetric] by (auto split: sum.split_asm)
  then have "vec_memories d3 = vec_memories d2" using writeChunks_frame by (auto split: if_split_asm)
  then show ?thesis by (simp add: d' db_simps) (simp add: d2_def vec_insert_def vec_clear_def)
qed

lemma Upsert_vectors:
  assumes "Upsert m d = Inr d'"
  shows "vec_memories d' = delete_where (\<lambda>v. v_rowid v = c_rowid (stored_row m d)) (vec_memories d)
    @ (if Embedding m \<noteq> [] then [\<lparr> v_rowid = c_rowid (stored_row m d), v_namespace = Namespace m, v_embedding = Embedding m \<rparr>]
       else [])"
proof (cases "lookup c_id (memories d) (ID m)")
  case None
  have "c_rowid (stored_row m d) = next_rowid (map c_rowid (memories d))" by (simp add: stored_row_def None insert_row_def)
  then show ?thesis using assms None write_indexes_vectors
    by (fastforce simp: Upsert_def Let_def split: if_split_asm)
next
  case (Some x)
  have "c_rowid (stored_row m d) = c_rowid x" by (simp add: stored_row_def Some update_row_def)
  then show ?thesis using assms Some write_indexes_vectors
    by (fastforce simp: Upsert_def Let_def split: if_split_asm)
qed

lemma lookup_vector_deleted:
  "lookup v_rowid (delete_where (\<lambda>v. v_rowid v = i) vs) i = None"
  by (auto simp: lookup_None_iff set_delete_where)

lemma stored_row_due: "EmbedState m \<noteq> '''' \<Longrightarrow> c_embed_next_run_at (stored_row m d) = Some 0"
  by (simp add: stored_row_def insert_row_def update_row_def repairDueAt_def split: option.split)

lemma degraded_row:
  assumes "Upsert m d = Inr d'" and "db_ok d" and "Embedding m = []" and "EmbedState m = RepairPending" and "0 \<le> ms now"
  shows "stored_row m d \<in> set (memories d') \<and> row_at (Namespace m) (ID m) (stored_row m d)
    \<and> claimable RepairPending now (stored_row m d)
    \<and> lookup v_rowid (vec_memories d') (c_rowid (stored_row m d)) = None"
  using Upsert_rows [OF assms(1,2), folded stored_row_def] stored_row_columns [OF assms(1)] stored_row_due [of m d] assms(3-5)
    Upsert_vectors [OF assms(1)] lookup_vector_deleted
  by (simp add: row_at_def claimable_def null_or_def)

end
