(* ===== verification/Memory_Ops_Sound.thy ===== *)
theory Memory_Ops_Sound
  imports Write_Sound
begin

text \<open>
  The history walk returns exactly the supersession lineage of a memory, in order of creation,
  and reading by a prefix answers only with the memory that the prefix determines.
\<close>

section \<open>The lineage\<close>

text \<open>One link of the chain, followed in either direction, between memories that exist.\<close>

definition linked :: "string \<Rightarrow> db \<Rightarrow> memory \<Rightarrow> memory \<Rightarrow> bool" where
  "linked ns d a b \<longleftrightarrow> ID b \<in> set (lineage_ids ns d a) \<and> ID b \<noteq> '''' \<and> Get ns (ID b) d = Inr b"

definition genuine :: "string \<Rightarrow> db \<Rightarrow> memory list \<Rightarrow> bool" where
  "genuine ns d xs \<longleftrightarrow> (\<forall>x \<in> set xs. Get ns (ID x) d = Inr x) \<and> distinct (map ID xs)"

lemma visit_ok:
  assumes "visit ns d i (s, q) = (s', q')" and "genuine ns d s" and "set q \<subseteq> set s"
  shows "genuine ns d s'" and "set q' \<subseteq> set s'" and "set s \<subseteq> set s'" and "set q \<subseteq> set q'"
    and "set s' - set s \<subseteq> set q'" and "\<And>x. x \<in> set s' \<Longrightarrow> x \<notin> set s \<Longrightarrow> ID x = i \<and> i \<noteq> '''' \<and> Get ns i d = Inr x"
    and "\<And>b. Get ns i d = Inr b \<Longrightarrow> i \<noteq> '''' \<Longrightarrow> b \<in> set s'"
proof -
  have g: "b \<in> set s" if "i \<in> ID ` set s" "Get ns i d = Inr b" for b
    using that assms(2) by (auto simp: genuine_def)
  have "genuine ns d s' \<and> set q' \<subseteq> set s' \<and> set s \<subseteq> set s' \<and> set q \<subseteq> set q' \<and> set s' - set s \<subseteq> set q'
      \<and> (\<forall>x. x \<in> set s' \<longrightarrow> x \<notin> set s \<longrightarrow> ID x = i \<and> i \<noteq> '''' \<and> Get ns i d = Inr x)
      \<and> (\<forall>b. Get ns i d = Inr b \<longrightarrow> i \<noteq> '''' \<longrightarrow> b \<in> set s')"
  proof (cases "i = '''' \<or> i \<in> ID ` set s")
    case True
    then have "s' = s" "q' = q" using assms(1) by (auto simp: visit_def)
    then show ?thesis using True g assms(2,3) by auto
  next
    case False
    show ?thesis
    proof (cases "Get ns i d")
      case (Inl e)
      then have "s' = s" "q' = q" using assms(1) False by (auto simp: visit_def)
      then show ?thesis using Inl assms(2,3) by auto
    next
      case (Inr m)
      then have "s' = s @ [m]" "q' = q @ [m]" using assms(1) False by (auto simp: visit_def)
      then show ?thesis using Inr False sqlite.get_key [OF Inr] assms(2,3) by (auto simp: genuine_def)
    qed
  qed
  then show "genuine ns d s'" "set q' \<subseteq> set s'" "set s \<subseteq> set s'" "set q \<subseteq> set q'" "set s' - set s \<subseteq> set q'"
    "\<And>x. x \<in> set s' \<Longrightarrow> x \<notin> set s \<Longrightarrow> ID x = i \<and> i \<noteq> '''' \<and> Get ns i d = Inr x"
    "\<And>b. Get ns i d = Inr b \<Longrightarrow> i \<noteq> '''' \<Longrightarrow> b \<in> set s'" by blast+
qed

lemma fold_visit_ok:
  assumes "fold (visit ns d) is (s, q) = (s', q')" and "genuine ns d s" and "set q \<subseteq> set s"
  shows "genuine ns d s' \<and> set q' \<subseteq> set s' \<and> set s \<subseteq> set s' \<and> set q \<subseteq> set q' \<and> set s' - set s \<subseteq> set q'
    \<and> (\<forall>x. x \<in> set s' \<longrightarrow> x \<notin> set s \<longrightarrow> ID x \<in> set is \<and> ID x \<noteq> '''' \<and> Get ns (ID x) d = Inr x)
    \<and> (\<forall>b. ID b \<in> set is \<longrightarrow> Get ns (ID b) d = Inr b \<longrightarrow> ID b \<noteq> '''' \<longrightarrow> b \<in> set s')"
  using assms
proof (induction "is" arbitrary: s q)
  case (Cons i "is")
  obtain t u where v: "visit ns d i (s, q) = (t, u)" by (cases "visit ns d i (s, q)")
  note v' = visit_ok [OF v Cons.prems(2,3)]
  have f: "fold (visit ns d) is (t, u) = (s', q')" using Cons.prems(1) v by simp
  note ih = Cons.IH [OF f v'(1,2)]
  have "x \<in> set s' \<Longrightarrow> x \<notin> set s \<Longrightarrow> ID x \<in> set (i # is) \<and> ID x \<noteq> '''' \<and> Get ns (ID x) d = Inr x" for x
    using ih v'(6) [of x] by (cases "x \<in> set t") auto
  moreover have "b \<in> set s'" if "ID b \<in> set (i # is)" "Get ns (ID b) d = Inr b" "ID b \<noteq> ''''" for b
    using ih v'(7) [of b] that by auto
  moreover have "set s' - set s \<subseteq> set q'" using ih v'(5) by blast
  ultimately show ?case using ih v'(3,4) by blast
qed auto

lemma history_loop_ok:
  assumes "genuine ns d s" and "set q \<subseteq> set s" and "\<forall>x \<in> set s. (linked ns d)\<^sup>*\<^sup>* a x"
    and "\<forall>x \<in> set s. x \<notin> set q \<longrightarrow> (\<forall>b. linked ns d x b \<longrightarrow> b \<in> set s)"
  shows "genuine ns d (history_loop ns d s q) \<and> set s \<subseteq> set (history_loop ns d s q)
    \<and> (\<forall>x \<in> set (history_loop ns d s q). (linked ns d)\<^sup>*\<^sup>* a x)
    \<and> (\<forall>x \<in> set (history_loop ns d s q). \<forall>b. linked ns d x b \<longrightarrow> b \<in> set (history_loop ns d s q))"
  using assms
proof (induction ns d s q rule: history_loop.induct)
  case (1 ns d s)
  then show ?case by simp
next
  case (2 ns d s cur q)
  define sq where "sq = fold (visit ns d) (lineage_ids ns d cur) (s, q)"
  obtain s' q' where p: "sq = (s', q')" by (cases sq)
  have q: "set q \<subseteq> set s" and c: "cur \<in> set s" using "2.prems"(2) by auto
  note v = fold_visit_ok [OF sq_def [symmetric, unfolded p] "2.prems"(1) q]
  have r: "\<forall>x \<in> set s'. (linked ns d)\<^sup>*\<^sup>* a x"
  proof
    fix x assume "x \<in> set s'"
    show "(linked ns d)\<^sup>*\<^sup>* a x"
    proof (cases "x \<in> set s")
      case False
      then have "linked ns d cur x" using v \<open>x \<in> set s'\<close> by (simp add: linked_def)
      then show ?thesis using "2.prems"(3) c by (meson rtranclp.rtrancl_into_rtrancl)
    qed (use "2.prems"(3) in blast)
  qed
  have cl: "\<forall>x \<in> set s'. x \<notin> set q' \<longrightarrow> (\<forall>b. linked ns d x b \<longrightarrow> b \<in> set s')"
  proof (intro ballI impI allI)
    fix x b assume x: "x \<in> set s'" "x \<notin> set q'" "linked ns d x b"
    then have "x \<in> set s" "x \<notin> set q" using v by blast+
    show "b \<in> set s'"
    proof (cases "x = cur")
      case True
      then show ?thesis using v x(3) by (simp add: linked_def)
    next
      case False
      then have "b \<in> set s" using "2.prems"(4) \<open>x \<in> set s\<close> \<open>x \<notin> set q\<close> x(3) by auto
      then show ?thesis using v by blast
    qed
  qed
  have "genuine ns d (fst sq)" "set (snd sq) \<subseteq> set (fst sq)" using v p by simp_all
  from "2.IH" [OF sq_def this] have ih: "genuine ns d (history_loop ns d (fst sq) (snd sq))
    \<and> set (fst sq) \<subseteq> set (history_loop ns d (fst sq) (snd sq))
    \<and> (\<forall>x \<in> set (history_loop ns d (fst sq) (snd sq)). (linked ns d)\<^sup>*\<^sup>* a x)
    \<and> (\<forall>x \<in> set (history_loop ns d (fst sq) (snd sq)). \<forall>b. linked ns d x b \<longrightarrow> b \<in> set (history_loop ns d (fst sq) (snd sq)))"
    using r cl p by simp
  have eq: "history_loop ns d s (cur # q) = history_loop ns d (fst sq) (snd sq)" by (simp add: sq_def Let_def)
  have "set s \<subseteq> set (fst sq)" using v p by simp
  with ih show ?case unfolding eq by (elim conjE) (intro conjI, assumption, rule subset_trans)
qed

lemma history_walk:
  assumes "Get ns i d = Inr a"
  shows "set (history_loop ns d [a] [a]) = {x. (linked ns d)\<^sup>*\<^sup>* a x}" and "distinct (map ID (history_loop ns d [a] [a]))"
proof -
  have "genuine ns d [a]" using assms sqlite.get_key [OF assms] by (simp add: genuine_def)
  from history_loop_ok [OF this, of "[a]" a]
  have h: "genuine ns d (history_loop ns d [a] [a])" "a \<in> set (history_loop ns d [a] [a])"
    "\<forall>x \<in> set (history_loop ns d [a] [a]). (linked ns d)\<^sup>*\<^sup>* a x"
    "\<forall>x \<in> set (history_loop ns d [a] [a]). \<forall>b. linked ns d x b \<longrightarrow> b \<in> set (history_loop ns d [a] [a])"
    by auto
  have "x \<in> set (history_loop ns d [a] [a])" if "(linked ns d)\<^sup>*\<^sup>* a x" for x
    using that by (induction rule: rtranclp_induct) (use h(2,4) in blast)+
  then show "set (history_loop ns d [a] [a]) = {x. (linked ns d)\<^sup>*\<^sup>* a x}" using h(3) by blast
  show "distinct (map ID (history_loop ns d [a] [a]))" using h(1) by (simp add: genuine_def)
qed

interpretation history_sort: strict_weak_order history_order
  by unfold_locales (auto simp: history_order_def split: if_split_asm)

section \<open>Reading by a prefix\<close>

definition ids_with_prefix :: "string \<Rightarrow> string \<Rightarrow> db \<Rightarrow> string set" where
  "ids_with_prefix ns p d = {c_id r |r. r \<in> set (memories d) \<and> c_namespace r = ns \<and> prefix p (c_id r)}"

lemma IDsByPrefix_two:
  assumes "db_ok d" and "p \<noteq> ''''"
  obtains xs where "IDsByPrefix ns p 2 d = take 2 xs" and "set xs = ids_with_prefix ns p d" and "distinct xs"
proof -
  let ?rows = "filter (\<lambda>r. c_namespace r = ns \<and> like (CHR 92) (escapeLike p @ ''%'') (c_id r)
                 \<and> take (length p) (c_id r) = p) (memories d)"
  let ?xs = "map c_id (order_by (\<lambda>a b. c_id a < c_id b) ?rows)"
  have "IDsByPrefix ns p 2 d = take 2 ?xs" using assms(2) by (simp add: IDsByPrefix_def limit_rows_def)
  moreover have "set ?xs = ids_with_prefix ns p d"
  proof -
    have "like (CHR 92) (escapeLike p @ ''%'') i \<and> take (length p) i = p \<longleftrightarrow> prefix p i" for i
      by (auto simp: like_prefix prefix_def take_is_prefix simp del: like.simps) (metis append_take_drop_id)
    then show ?thesis by (auto simp: ids_with_prefix_def simp del: like.simps)
  qed
  moreover have "distinct ?xs"
  proof -
    have "distinct (map c_id (memories d))" using assms(1) by (simp add: db_ok_def rows_ok_def)
    then have "inj_on c_id (set ?rows)" "distinct (memories d)"
      by (auto simp: distinct_map inj_on_def)
    then show ?thesis by (simp add: distinct_map del: like.simps)
  qed
  ultimately show thesis by (rule that)
qed

lemma GetMemory_by_prefix:
  assumes ok: "db_ok d" and miss: "Get ns i d = Inl ErrNotFound"
  shows "GetMemory ns i d = Inr m \<longleftrightarrow>
      idPrefixEligible i \<and> ids_with_prefix ns i d = {ID m} \<and> Get ns (ID m) d = Inr m"
    and "GetMemory ns i d = Inl (AmbiguousID p ids) \<Longrightarrow>
      p = i \<and> idPrefixEligible i \<and> length ids = 2 \<and> distinct ids \<and> set ids \<subseteq> ids_with_prefix ns i d"
proof -
  have ne: "i \<noteq> ''''" if "idPrefixEligible i" using that by (auto simp: idPrefixEligible_def)
  have g: "GetMemory ns i d = getByIDPrefix ns i ErrNotFound d" by (simp add: GetMemory_def miss)
  show "GetMemory ns i d = Inr m \<longleftrightarrow>
      idPrefixEligible i \<and> ids_with_prefix ns i d = {ID m} \<and> Get ns (ID m) d = Inr m"
  proof (cases "idPrefixEligible i")
    case False
    then show ?thesis by (simp add: g getByIDPrefix_def)
  next
    case True
    obtain xs where xs: "IDsByPrefix ns i 2 d = take 2 xs" "set xs = ids_with_prefix ns i d" "distinct xs"
      using IDsByPrefix_two [OF ok ne [OF True]] .
    consider "xs = []" | j where "xs = [j]" | j k ys where "xs = j # k # ys"
      by (cases xs; cases "tl xs") auto
    then show ?thesis
    proof cases
      case 1
      then show ?thesis using xs by (simp add: g getByIDPrefix_def True)
    next
      case (2 j)
      then have s: "ids_with_prefix ns i d = {j}" using xs(2) by simp
      show ?thesis using 2 xs(1) sqlite.get_key [of ns j d m]
        by (cases "Get ns j d") (auto simp: g getByIDPrefix_def True s)
    next
      case (3 j k ys)
      then have "j \<noteq> k" "{j, k} \<subseteq> ids_with_prefix ns i d" using xs by auto
      then have "ids_with_prefix ns i d \<noteq> {ID m}" by (metis insert_subset singletonD)
      then show ?thesis using 3 xs(1) by (simp add: g getByIDPrefix_def True)
    qed
  qed
  show "p = i \<and> idPrefixEligible i \<and> length ids = 2 \<and> distinct ids \<and> set ids \<subseteq> ids_with_prefix ns i d"
    if a: "GetMemory ns i d = Inl (AmbiguousID p ids)"
  proof -
    have e: "idPrefixEligible i" using a by (auto simp: g getByIDPrefix_def split: if_split_asm)
    obtain xs where xs: "IDsByPrefix ns i 2 d = take 2 xs" "set xs = ids_with_prefix ns i d" "distinct xs"
      using IDsByPrefix_two [OF ok ne [OF e]] .
    consider "xs = []" | j where "xs = [j]" | j k ys where "xs = j # k # ys"
      by (cases xs; cases "tl xs") auto
    then show ?thesis
    proof cases
      case (2 j)
      then show ?thesis using a xs(1) by (cases "Get ns j d") (simp_all add: g getByIDPrefix_def e)
    next
      case (3 j k ys)
      then have "p = i" "ids = [j, k]" using a xs(1) by (auto simp: g getByIDPrefix_def e)
      then show ?thesis using 3 xs(2,3) e by auto
    qed (use a xs(1) e in \<open>simp add: g getByIDPrefix_def\<close>)
  qed
qed

end
