(* ===== verification/Write_Properties.thy ===== *)
theory Write_Properties
  imports Write_Cases Memory_Ops_Sound Store_Properties Recall_Properties
begin

text \<open>
  What the operations that change memories promise: what a write may do to the store, what is
  read back, and the exact effect of a repetition, a handoff, a degraded write and an edit.
\<close>

section \<open>A concrete service\<close>

definition plain_writer :: writer where
  "plain_writer = service.extend plain_service
     \<lparr> consolidator = None, consolidateMode = ConsolidateOff, consolidateMinScore = 0, classifyWith = (\<lambda>_ _. None),
       classifyMaxChars = 0, secrets = id, redactSecrets = False, scriptOf = (\<lambda>_. ''''), quarantineGarbled = False,
       stripCapture = id, signalChars = (\<lambda>s. int (length s)), episodicMinChars = 0, writeEmbedTimeout = 1,
       fingerprintDedup = True, writeDedupScore = 0, writeDedupAction = WriteDedupOff, splitDedupLLMMerge = False,
       corroborateMinScore = 0, contradictMinScore = 0, contradicts = (\<lambda>_ _. False), hasDistiller = False,
       distillOnWrite = False, extractOnWrite = False \<rparr>"

definition milk_env :: write_env where
  "milk_env = \<lparr> we_now = unix_epoch, we_wall = unix_epoch, we_newID = ''m9'', we_engine = sample_engine \<rparr>"

definition milk_note :: "string list \<Rightarrow> RememberInput" where
  "milk_note tags = \<lparr> wNamespace = ''b'', wHome = '''', wVisibility = '''', wContent = ''milk'', wTier = TierSemantic,
     wSummary = '''', wTags = tags, wMetadata = Map.empty, wImportance = 0, wTTL = None, wID = '''', wConfidence = None,
     wAssessedImportance = None, ClearAssessedImportance = False, wValidFrom = None, wValidTo = None,
     wLevel = LevelExplicit, wAuthor = '''' \<rparr>"

lemma plain_writer_simps [simp]:
  "consolidator plain_writer = None" "consolidateMode plain_writer = ConsolidateOff" "redactSecrets plain_writer = False"
  "quarantineGarbled plain_writer = False" "writeEmbedTimeout plain_writer = 1" "fingerprintDedup plain_writer = True"
  "writeDedupAction plain_writer = WriteDedupOff" "embedder plain_writer c = Inl DeadlineExceeded"
  "writeDedupScore plain_writer = 0"
  by (simp_all add: plain_writer_def service.defs plain_service_def)

lemma milk_env_simps [simp]:
  "we_now milk_env = unix_epoch" "we_newID milk_env = ''m9''" "we_wall milk_env = unix_epoch" "we_engine milk_env = sample_engine"
  by (simp_all add: milk_env_def)

lemma milk_note_simps [simp]:
  "wNamespace (milk_note t) = ''b''" "wContent (milk_note t) = ''milk''" "wTier (milk_note t) = TierSemantic"
  "wID (milk_note t) = ''''" "wTags (milk_note t) = t" "wVisibility (milk_note t) = ''''"
  "wMetadata (milk_note t) = Map.empty" "wAuthor (milk_note t) = ''''" "wLevel (milk_note t) = LevelExplicit"
  "wTTL (milk_note t) = None" "wValidTo (milk_note t) = None" "wSummary (milk_note t) = ''''"
  by (simp_all add: milk_note_def)

lemma Clean_milk: "Clean ''milk'' = ''milk''" "Clean '''' = ''''"
  by (rule Clean_ascii, simp)+

lemma prepare_milk: "prepare plain_writer (milk_note []) = Inr (Some (milk_note [], TierSemantic))"
proof -
  have v: "validateRememberInput plain_writer (milk_note []) = Inr (milk_note [], TierSemantic)"
    by (simp add: validateRememberInput_def Let_def Tier_Valid_def Level_Valid_def validateHandoffSlot_def isHandoff_def
        resolveVisibility_def)
  have same: "(milk_note [])\<lparr> wContent := ''milk'', wSummary := '''' \<rparr> = milk_note []" by (simp add: milk_note_def)
  have s: "sanitizeContent plain_writer (milk_note []) = Inr (milk_note [])"
    unfolding sanitizeContent_def Let_def milk_note_simps Clean_milk same by simp
  show ?thesis
    by (simp add: prepare_def v s stampClassifiedTier_def stampAuthor_def stampHandoff_def isHandoff_def scrubInput_def
        dropsAsCaptureOrLowSignal_def isTurnCapture_def dropsLowSignalEpisodic_def Let_def)
qed

text \<open>A write of the sample service that passes the preparation is inserted.\<close>

lemma Upsert_new:
  assumes "lookup c_id (memories d) (ID m) = None" and "Embedding m = []" and "Chunks m = None"
  obtains d' where "Upsert m d = Inr d'"
  using assms by (simp add: Upsert_def write_indexes_def writeChunks_def Let_def)

text \<open>A write whose embedding fails, by any service that tolerates it.\<close>

lemma degraded_write:
  assumes p: "prepare w q = Inr (Some (q', tier))" and i: "wID q = ''''"
    and f: "fingerprintHit w env q' tier d = None" and n: "lookup c_id (memories d) (we_newID env) = None"
    and emb: "embedder w (wContent q') = Inl err" "0 < writeEmbedTimeout w"
  obtains r m where "Remember w env q d = Inr r" and "rm_memory r = Some m" and "\<not> rm_reinforced r"
    and "ID m = we_newID env" and "Namespace m = wNamespace q'" and "Content m = wContent q'"
    and "Embedding m = []" and "SupersededBy m = None"
    and "ValidTo m = wValidTo q'" and "ExpiresAt m = resolveExpiry (we_now env) tier (wTTL q')" and "Upsert m d = Inr (rm_db r)"
    and "Metadata m PendingEmbedKey = Some (JStr PendingEmbedValue)" and "EmbedState m = RepairPending"
proof -
  have i': "wID q' = ''''" using prepare_ok(2) [OF p] i by simp
  define q2 where "q2 = q'\<lparr> wMetadata := (wMetadata q')(PendingEmbedKey \<mapsto> JStr PendingEmbedValue) \<rparr>"
  define m where "m = new_memory (we_now env) (we_newID env) q2 tier None []"
  have e: "embedForRemember w q' None d = Inr ([], q2)"
    using emb by (simp add: embedForRemember_def reusableVector_def Let_def q2_def)
  have m: "Embedding m = []" "Chunks m = None" "SupersededBy m = None" "ID m = we_newID env" "Namespace m = wNamespace q'"
    "Content m = wContent q'" "ExpiresAt m = resolveExpiry (we_now env) tier (wTTL q')" "ValidTo m = wValidTo q'"
    "EmbedState m = RepairPending"
    by (simp_all add: m_def new_memory_def Let_def q2_def resolve_valid_to_def degradedRepairState_def split: option.split)
  have meta: "Metadata m PendingEmbedKey = Some (JStr PendingEmbedValue)"
    by (simp add: m_def new_memory_def Let_def markCustomTTL_def q2_def split: option.split)
  obtain d' where u: "Upsert m d = Inr d'" using Upsert_new [of d m] n m by (auto simp: m_def)
  have ins: "consolidate_then_insert w env q2 None m ids hint d = insert_write w q2 None m (shouldConsolidate w q2 m) ids hint d"
    for ids hint using m(1) by (simp add: consolidate_then_insert_def Let_def)
  have "runSplitDedup w env m d = Proceed m None ''''" using m(1) by (simp add: runSplitDedup_def)
  then have "store_write w env q2 None m d = insert_write w q2 None m (shouldConsolidate w q2 m)
      (if shouldSplitDedup q2 m (shouldConsolidate w q2 m) then asIDList '''' else priorHandoffIDs env q2 m d) None d"
    by (simp add: store_write_def ins)
  then obtain ids where "store_write w env q2 None m d = insert_write w q2 None m (shouldConsolidate w q2 m) ids None d"
    by blast
  then have w: "store_write w env q2 None m d = Inr
      \<lparr> rm_memory = Some m, rm_db = d', rm_jobs = write_jobs w q2 m (shouldConsolidate w q2 m) ids,
        rm_facts = fact_build_of w (mTier m) True, rm_tier = mTier m, rm_reinforced = False,
        rm_autoSuperseded = list_ex (\<lambda>i. i \<noteq> '''') ids, rm_hint = None \<rparr>"
    by (simp add: insert_write_def u)
  have "remember_prepared w env q' tier d = store_write w env q2 None m d"
    using f e i' by (simp add: remember_prepared_def load_existing_def Let_def m_def q2_def)
  then have "Remember w env q d = store_write w env q2 None m d"
    using p by (simp add: Remember_def)
  from this [unfolded w] show thesis
    by (rule that [of _ m]) (simp_all add: m u meta)
qed

lemma plain_write:
  assumes "prepare plain_writer q = Inr (Some (q', tier))" and "wID q = ''''"
    and "fingerprintHit plain_writer milk_env q' tier d = None" and "lookup c_id (memories d) ''m9'' = None"
  obtains r m where "Remember plain_writer milk_env q d = Inr r" and "rm_memory r = Some m" and "\<not> rm_reinforced r"
    and "ID m = ''m9''" and "Namespace m = wNamespace q'" and "Content m = wContent q'"
    and "Embedding m = []" and "SupersededBy m = None"
    and "ValidTo m = wValidTo q'" and "ExpiresAt m = resolveExpiry unix_epoch tier (wTTL q')" and "Upsert m d = Inr (rm_db r)"
    and "Metadata m PendingEmbedKey = Some (JStr PendingEmbedValue)"
proof -
  have "lookup c_id (memories d) (we_newID milk_env) = None" using assms(4) by simp
  moreover have "0 < writeEmbedTimeout plain_writer" by simp
  ultimately show thesis
    using degraded_write [OF assms(1-3) _ plain_writer_simps(8)] that unfolding milk_env_simps by blast
qed

lemma milk_no_hit: "fingerprintHit plain_writer milk_env (milk_note t) tier tea_db = None"
  by (simp add: fingerprintHit_def GetByFingerprint_def Let_def tea_db_def insert_row_def sample_memory_def)

lemma milk_id_free: "lookup c_id (memories tea_db) ''m9'' = None"
  by (simp add: tea_db_def lookup_def)

lemma milk_written:
  obtains r m where "Remember plain_writer milk_env (milk_note []) tea_db = Inr r" and "rm_memory r = Some m"
    and "\<not> rm_reinforced r" and "ID m = ''m9''" and "Namespace m = ''b''" and "Content m = ''milk''"
    and "lives_at unix_epoch m" and "Metadata m PendingEmbedKey = Some (JStr PendingEmbedValue)"
proof -
  from plain_write [OF prepare_milk milk_note_simps(4) milk_no_hit milk_id_free] obtain r m where
    "Remember plain_writer milk_env (milk_note []) tea_db = Inr r" "rm_memory r = Some m" "\<not> rm_reinforced r"
    "ID m = ''m9''" "Namespace m = wNamespace (milk_note [])" "Content m = wContent (milk_note [])"
    "SupersededBy m = None" "ValidTo m = wValidTo (milk_note [])"
    "ExpiresAt m = resolveExpiry unix_epoch TierSemantic (wTTL (milk_note []))"
    "Metadata m PendingEmbedKey = Some (JStr PendingEmbedValue)" .
  then show thesis
    by (intro that [of r m]) (simp_all add: lives_at_def resolveExpiry_def DefaultTTL_def)
qed

lemma tea_typed: "typed_db tea_db"
  by (simp add: typed_db_def tea_db_def typed_memory_def scanRow_def insert_row_def sample_memory_def Tier_Valid_def
      Level_Valid_def)

lemma coffee_typed: "typed_db coffee_db"
  by (simp add: typed_db_def coffee_db_def typed_memory_def scanRow_def insert_row_def sample_memory_def Tier_Valid_def
      Level_Valid_def)

section \<open>The service over the store\<close>

text \<open>
  C13: \<open>Remember\<close> implements the abstract write: whatever its configuration, its dedup and its
  consolidator answer, a write that succeeds is dropped without a trace, folded into a memory
  that was already stored (with one job that reinforces it), stored as one well-formed memory
  (its jobs only name that memory), or stored with one other memory tombstoned in its favour.
\<close>

theorem remember_refines:
  assumes "Remember w env q d = Inr r" and "db_ok d" and "typed_db d"
  shows "write_spec d (rm_memory r) (rm_jobs r) (rm_db r)"
  by (rule Remember_spec [OF assms])

lemma remember_refines_witness:
  "\<exists>r m. Remember plain_writer milk_env (milk_note []) tea_db = Inr r \<and> rm_memory r = Some m
    \<and> write_spec tea_db (Some m) (rm_jobs r) (rm_db r)"
proof -
  obtain r m where r: "Remember plain_writer milk_env (milk_note []) tea_db = Inr r" "rm_memory r = Some m"
    using milk_written .
  then show ?thesis using remember_refines [OF r(1) tea_db_ok tea_typed] by auto
qed

text \<open>
  C14: Whatever sequence of writes, edits, background jobs in any order (or lost), reinforcing
  recalls, deletions and supersessions the service executes from an empty store, the database is
  one that the driver's own statements reach, and every stored memory is well-formed: a valid
  tier and level, a text, a namespace, a confidence within the unit interval, an assessment
  between 0.1 and 0.9, no negative access count.
\<close>

theorem service_rows_typed:
  assumes "service_reachable w n s"
  shows "store_reachable n (fst s) \<and> typed_db (fst s)"
  by (rule service_reachable_sound [OF assms])

lemma service_rows_typed_witness:
  "\<exists>r. Remember plain_writer milk_env (milk_note []) (empty_db 2) = Inr r
    \<and> store_reachable 2 (rm_db r) \<and> typed_db (rm_db r)"
proof -
  have "fingerprintHit plain_writer milk_env (milk_note []) TierSemantic (empty_db 2) = None"
    by (simp add: fingerprintHit_def GetByFingerprint_def Let_def empty_db_def)
  moreover have "lookup c_id (memories (empty_db 2)) ''m9'' = None" by (simp add: empty_db_def lookup_def)
  ultimately obtain r where r: "Remember plain_writer milk_env (milk_note []) (empty_db 2) = Inr r"
    using plain_write [OF prepare_milk milk_note_simps(4)] by metis
  have "service_reachable plain_writer 2 (rm_db r, {#} + mset (rm_jobs r))"
    by (rule service_reachable.step [OF service_reachable.empty service_step.remember [OF r]])
  from service_rows_typed [OF this] r show ?thesis by simp
qed

section \<open>Writes\<close>

text \<open>
  C15: What a write answers is what the store holds: the memory it returns is read back at its
  id with the same tier, level, text, summary, metadata, tags, importance, confidence,
  assessment, links and repair state; when it returns none, the database is as it was.
\<close>

theorem write_read_back:
  assumes "Remember w env q d = Inr r" and "db_ok d" and "typed_db d"
  shows "case rm_memory r of
      Some m \<Rightarrow> \<exists>x. Get (Namespace m) (ID m) (rm_db r) = Inr x \<and> same_facts m x
    | None \<Rightarrow> rm_db r = d \<and> rm_jobs r = []"
proof (cases "rm_memory r")
  case None
  with Remember_spec [OF assms] show ?thesis by (auto elim: write_spec.cases)
next
  case (Some m)
  with Remember_spec [OF assms] write_spec_read_back [OF _ assms(2)] show ?thesis by auto
qed

lemma write_read_back_witness:
  "\<exists>r m x. Remember plain_writer milk_env (milk_note []) tea_db = Inr r \<and> rm_memory r = Some m
    \<and> Get ''b'' ''m9'' (rm_db r) = Inr x \<and> Content x = ''milk''"
proof -
  obtain r m where r: "Remember plain_writer milk_env (milk_note []) tea_db = Inr r" "rm_memory r = Some m"
    "ID m = ''m9''" "Namespace m = ''b''" "Content m = ''milk''"
    using milk_written .
  then show ?thesis using write_read_back [OF r(1) tea_db_ok tea_typed] by (auto simp: same_facts_def)
qed

text \<open>
  C16: A write loses nothing: every memory that was stored is still stored as it was, unless it
  is the memory that the write answers (an edit, or a merge into it), or it has been tombstoned
  in favour of the memory that the write answers; and that one is stored.
\<close>

theorem write_loses_nothing:
  assumes "Remember w env q d = Inr r" and "db_ok d" and "typed_db d" and "Get ns i d = Inr x"
  shows "Get ns i (rm_db r) = Inr x
    \<or> (\<exists>m y. rm_memory r = Some m \<and> Get (Namespace m) (ID m) (rm_db r) = Inr y \<and> same_facts m y
        \<and> (ID m = i \<and> Namespace m = ns \<or> (\<exists>wall. Get ns i (rm_db r) = Inr (superseded wall (ID m) x))))"
proof -
  note s = Remember_spec [OF assms(1-3)]
  from write_spec_keeps [OF s assms(2,4)] show ?thesis
  proof
    assume "\<exists>m. rm_memory r = Some m \<and> (ID m = i \<and> Namespace m = ns
      \<or> (\<exists>wall. Get ns i (rm_db r) = Inr (superseded wall (ID m) x)))"
    then obtain m where m: "rm_memory r = Some m"
      "ID m = i \<and> Namespace m = ns \<or> (\<exists>wall. Get ns i (rm_db r) = Inr (superseded wall (ID m) x))" by blast
    moreover obtain y where "Get (Namespace m) (ID m) (rm_db r) = Inr y" "same_facts m y"
      using write_spec_read_back [OF s [unfolded m(1)] assms(2)] by blast
    ultimately show ?thesis by blast
  qed simp
qed

lemma write_loses_nothing_witness:
  "\<exists>r. Remember plain_writer milk_env (milk_note []) tea_db = Inr r
    \<and> Get ''a'' ''m1'' (rm_db r) \<noteq> Inl ErrNotFound"
proof -
  obtain r m where r: "Remember plain_writer milk_env (milk_note []) tea_db = Inr r"
    using milk_written .
  have "Get ''a'' ''m1'' tea_db = Inr (scanRow (insert_row 1 tea))"
    by (simp add: Get_def tea_db_def row_at_def)
  from write_loses_nothing [OF r tea_db_ok tea_typed this] r show ?thesis by auto
qed

text \<open>
  C17: Saying the same thing twice stores it once, when deduplication by fingerprint is on, the
  service does not consolidate synchronously (in that mode a merge may decide first) and the caller
  names no id: after a fresh write, the same request at a clock that has not gone back answers the
  memory of the first one for as long as that is live, marked as reinforced; it changes nothing in
  the database and starts only the job that reinforces that memory.
\<close>

theorem repeated_write_folds:
  assumes "Remember w env q d = Inr r" and "db_ok d" and "fingerprintDedup w"
    and "consolidateMode w \<noteq> ConsolidateSync" and "wID q = ''''"
    and "rm_memory r = Some m" and "\<not> rm_reinforced r"
    and "0 < we_now env" and "we_now env \<le> we_now env'" and "lives_at (we_now env') m"
  shows "\<exists>r' x. Remember w env' q (rm_db r) = Inr r' \<and> rm_memory r' = Some x \<and> ID x = ID m
    \<and> rm_reinforced r' \<and> rm_db r' = rm_db r \<and> rm_jobs r' = [JReinforceCorroborate x]"
proof -
  obtain q' tier where p: "prepare w q = Inr (Some (q', tier))" and f: "fresh_write w env q' tier d r m"
    using Remember_fresh [OF assms(1,4,7,6)] .
  from repeated_write [OF assms(2) p f assms(5,3,8,9,10)] show ?thesis by (auto simp: handled_write_def)
qed

lemma repeated_write_folds_witness:
  "\<exists>r r' x. Remember plain_writer milk_env (milk_note []) tea_db = Inr r
    \<and> Remember plain_writer milk_env (milk_note []) (rm_db r) = Inr r' \<and> rm_memory r' = Some x
    \<and> ID x = ''m9'' \<and> rm_db r' = rm_db r"
proof -
  obtain r m where r: "Remember plain_writer milk_env (milk_note []) tea_db = Inr r" "rm_memory r = Some m"
    "\<not> rm_reinforced r" "ID m = ''m9''" "lives_at unix_epoch m"
    using milk_written .
  have "0 < we_now milk_env" by (simp add: unix_epoch_def)
  from repeated_write_folds [OF r(1) tea_db_ok _ _ _ r(2,3) this, of milk_env] r show ?thesis by auto
qed

text \<open>
  C18: A write that the embedder fails is kept, in every consolidation mode: when the service
  tolerates it (a write timeout is set), the request passes the preparation, names no id and
  repeats no live memory, and the new id is unused, \<open>Remember\<close> succeeds and stores the prepared
  content without a vector, marked in its metadata and in its repair state, and a repair worker
  can claim it at once.
\<close>

theorem degraded_write_kept:
  assumes "prepare w q = Inr (Some (q', tier))" and "wID q = ''''" and "fingerprintHit w env q' tier d = None"
    and "embedder w (wContent q') = Inl e" and "0 < writeEmbedTimeout w"
    and "lookup c_id (memories d) (we_newID env) = None" and "db_ok d" and "unix_epoch \<le> now"
  shows "\<exists>r m. Remember w env q d = Inr r \<and> rm_memory r = Some m \<and> \<not> rm_reinforced r
    \<and> ID m = we_newID env \<and> Namespace m = wNamespace q' \<and> Content m = wContent q' \<and> Embedding m = [] \<and> PendingEmbed m
    \<and> (\<exists>row \<in> set (memories (rm_db r)). row_at (Namespace m) (ID m) row \<and> c_content row = Content m
        \<and> claimable RepairPending now row \<and> lookup v_rowid (vec_memories (rm_db r)) (c_rowid row) = None)"
proof -
  obtain r m where r: "Remember w env q d = Inr r" "rm_memory r = Some m" "\<not> rm_reinforced r" "ID m = we_newID env"
      "Namespace m = wNamespace q'" "Content m = wContent q'" "Embedding m = []" "Upsert m d = Inr (rm_db r)"
      "Metadata m PendingEmbedKey = Some (JStr PendingEmbedValue)" "EmbedState m = RepairPending"
    by (rule degraded_write [OF assms(1-3,6,4,5)])
  have "0 \<le> ms now" using assms(8) by (simp add: UnixMilli_def)
  note row = degraded_row [OF r(8) assms(7) r(7,10) this]
  have "c_content (stored_row m d) = Content m"
    by (simp add: stored_row_def insert_row_def update_row_def split: option.split)
  then show ?thesis using r row by (intro exI [of _ r] exI [of _ m]) (auto simp: PendingEmbed_def)
qed

lemma degraded_write_kept_witness:
  "\<exists>r m. Remember plain_writer milk_env (milk_note []) tea_db = Inr r \<and> rm_memory r = Some m
    \<and> Content m = ''milk'' \<and> PendingEmbed m"
proof -
  have e: "embedder plain_writer (wContent (milk_note [])) = Inl DeadlineExceeded" "0 < writeEmbedTimeout plain_writer"
    and n: "lookup c_id (memories tea_db) (we_newID milk_env) = None" using milk_id_free by simp_all
  have "unix_epoch \<le> unix_epoch" by simp
  from degraded_write_kept [OF prepare_milk milk_note_simps(4) milk_no_hit e n tea_db_ok this]
  show ?thesis unfolding milk_note_simps by blast
qed

section \<open>Handoffs\<close>

text \<open>
  C19: A handoff takes over its slot: once the tombstones of a fresh handoff have been written,
  it is the only live handoff of its slot in its namespace (whatever strays an earlier race had
  left there), and it is stored and superseded by nothing.
\<close>

theorem handoff_succession:
  assumes "Remember w env q d = Inr r" and "db_ok d" and "isHandoff (wTags q)" and "wID q = ''''"
    and "rm_memory r = Some m" and "\<not> rm_reinforced r" and "0 < we_now env"
    and "d' = supersede_all w env (rm_jobs r) (rm_db r)"
  shows "(\<exists>y. Get (Namespace m) (ID m) d' = Inr y \<and> same_facts m y \<and> SupersededBy y = None)
    \<and> (\<forall>x \<in> set (liveHandoffs env (Namespace m) (handoffSlot (Metadata m)) d'). ID x \<noteq> '''' \<longrightarrow> ID x = ID m)"
proof
  obtain q' where u: "Upsert m d = Inr (rm_db r)" and s: "SupersededBy m = None"
    and js: "rm_jobs r = write_jobs w q' m False
      (filter (\<lambda>i. i \<noteq> ID m) (map ID (liveHandoffs env (Namespace m) (handoffSlot (Metadata m)) d)))"
    using handoff_write [OF assms(1,3,4,6,5)] .
  show "\<forall>x \<in> set (liveHandoffs env (Namespace m) (handoffSlot (Metadata m)) d'). ID x \<noteq> '''' \<longrightarrow> ID x = ID m"
    using handoff_takes_slot [OF assms(2) u js _ _ assms(7)] assms(8) by blast
  have "Get (Namespace m) (ID m) d' = Get (Namespace m) (ID m) (rm_db r)"
    unfolding assms(8) js supersede_all_write_jobs
    by (rule supersede_fold_frame [OF sqlite.put_wf [OF assms(2) u]]) simp
  then show "\<exists>y. Get (Namespace m) (ID m) d' = Inr y \<and> same_facts m y \<and> SupersededBy y = None"
    using sqlite.put_get [OF assms(2) u] same_facts_stored s by (auto simp: stored_def)
qed

definition handoff_note :: RememberInput where
  "handoff_note = stampHandoff (milk_note [HandoffTag])"

lemma prepare_handoff: "prepare plain_writer (milk_note [HandoffTag]) = Inr (Some (handoff_note, TierSemantic))"
proof -
  have v: "validateRememberInput plain_writer (milk_note [HandoffTag]) = Inr (milk_note [HandoffTag], TierSemantic)"
    by (simp add: validateRememberInput_def Let_def Tier_Valid_def Level_Valid_def validateHandoffSlot_def isHandoff_def
        resolveVisibility_def)
  have same: "handoff_note\<lparr> wContent := ''milk'', wSummary := '''' \<rparr> = handoff_note"
    "wContent handoff_note = ''milk''" "wSummary handoff_note = ''''"
    by (simp_all add: handoff_note_def stampHandoff_def milk_note_def)
  have s: "sanitizeContent plain_writer handoff_note = Inr handoff_note"
    unfolding sanitizeContent_def Let_def Clean_milk same by (simp add: same)
  have "isTurnCapture (wMetadata handoff_note) = False"
    by (simp add: isTurnCapture_def handoff_note_def stampHandoff_def)
  then show ?thesis
    using s by (simp add: prepare_def v stampClassifiedTier_def stampAuthor_def scrubInput_def
        dropsAsCaptureOrLowSignal_def dropsLowSignalEpisodic_def Let_def handoff_note_def)
qed

lemma handoff_succession_witness:
  "\<exists>r m. Remember plain_writer milk_env (milk_note [HandoffTag]) tea_db = Inr r \<and> rm_memory r = Some m
    \<and> (\<exists>y. Get ''b'' ''m9'' (supersede_all plain_writer milk_env (rm_jobs r) (rm_db r)) = Inr y \<and> SupersededBy y = None)"
proof -
  have "fingerprintHit plain_writer milk_env handoff_note TierSemantic tea_db = None"
    by (simp add: fingerprintHit_def GetByFingerprint_def Let_def tea_db_def insert_row_def sample_memory_def handoff_note_def
        stampHandoff_def)
  from plain_write [OF prepare_handoff milk_note_simps(4) this milk_id_free] obtain r m where
    r: "Remember plain_writer milk_env (milk_note [HandoffTag]) tea_db = Inr r" "rm_memory r = Some m" "\<not> rm_reinforced r"
      "ID m = ''m9''" "Namespace m = wNamespace handoff_note" .
  have "isHandoff (wTags (milk_note [HandoffTag]))" "0 < we_now milk_env"
    by (simp_all add: isHandoff_def unix_epoch_def)
  from handoff_succession [OF r(1) tea_db_ok this(1) _ r(2,3) this(2) refl]
  have "\<exists>y. Get (Namespace m) (ID m) (supersede_all plain_writer milk_env (rm_jobs r) (rm_db r)) = Inr y \<and> SupersededBy y = None"
    by auto
  moreover have "wNamespace handoff_note = ''b''" by (simp add: handoff_note_def)
  ultimately show ?thesis using r by auto
qed

section \<open>Edits\<close>

text \<open>
  C20: An edit by id touches its own row only and starts no job. It keeps the id, namespace,
  creation time and validity, and takes tier, level and tags from the request or else from the
  row. It does not keep the rest, though every field that a request omits is documented to
  keep its value: the access count restarts, the links and the tombstone are dropped, the expiry
  is that of the tier from now on, and a confidence that the memory has earned is capped.
\<close>

theorem edit_exact:
  assumes "Update w env u d = Inr (m, r)" and "db_ok d" and "typed_db d" and "uID u \<noteq> ''''"
    and "Get (uNamespace u) (uID u) d = Inr cur"
  shows "ID m = uID u \<and> Namespace m = uNamespace u \<and> mTier m = or_else (uTier u) (mTier cur)
    \<and> mLevel m = or_else (uLevel u) (mLevel cur) \<and> Tags m = or_else (uTags u) (Tags cur)
    \<and> CreatedAt m = CreatedAt cur \<and> ValidFrom m = ValidFrom cur \<and> ValidTo m = ValidTo cur
    \<and> Confidence m = (if Tier_Term (mTier m) \<noteq> LongTerm then None
        else map_option clampConfidence (if uConfidence u = None then Confidence cur else uConfidence u))
    \<and> AccessCount m = 0 \<and> LinkedMemoryIDs m = [] \<and> SupersededBy m = None
    \<and> ExpiresAt m = resolveExpiry (we_now env) (mTier m) None \<and> rm_jobs r = []
    \<and> (\<forall>ns i. i \<noteq> uID u \<longrightarrow> Get ns i (rm_db r) = Get ns i d)"
proof -
  note e = edit_effect [OF assms]
  have "\<forall>ns i. i \<noteq> ID m \<longrightarrow> Get ns i (rm_db r) = Get ns i d" using sqlite.put_frame [OF assms(2) e(4)] by blast
  then show ?thesis using e(1,2,3,5) by (elim conjE) (intro conjI; simp)
qed

definition tag_tea :: UpdateInput where
  "tag_tea = \<lparr> uNamespace = ''a'', uID = ''m1'', uHome = '''', uAuthor = '''', uContent = None, uSummary = None, uTier = None,
     uLevel = None, uImportance = None, uConfidence = None, uTags = Some [''hot''], uMetadata = Map.empty \<rparr>"

lemma tag_tea_done:
  obtains m r where "Update plain_writer milk_env tag_tea tea_db = Inr (m, r)"
proof -
  define cur where "cur = scanRow (insert_row 1 tea)"
  have g: "Get ''a'' ''m1'' tea_db = Inr cur" by (simp add: Get_def tea_db_def row_at_def cur_def)
  define q where "q = overlay_update tag_tea (seed_update tag_tea cur)"
  have q: "wNamespace q = ''a''" "wID q = ''m1''" "wTier q = TierSemantic" "wVisibility q = ''''" "wContent q = ''tea''"
    "wSummary q = ''''" "wAuthor q = ''''" "wTags q = [''hot'']" "wMetadata q = Map.empty" "wLevel q = LevelExplicit"
    by (simp_all add: q_def overlay_update_def seed_update_def tag_tea_def cur_def scanRow_def insert_row_def
        sample_memory_def or_else_def mergeMetadata_def)
  have v: "validateRememberInput plain_writer q = Inr (q, TierSemantic)"
    by (simp add: validateRememberInput_def Let_def Tier_Valid_def Level_Valid_def validateHandoffSlot_def isHandoff_def
        resolveVisibility_def q)
  have c: "Clean ''tea'' = ''tea''" "Clean '''' = ''''" by (rule Clean_ascii, simp)+
  have same: "q\<lparr> wContent := ''tea'', wSummary := '''' \<rparr> = q" by (simp add: q [symmetric] q(5,6))
  have s: "sanitizeContent plain_writer q = Inr q"
    unfolding sanitizeContent_def Let_def q(5,6) c same by (simp add: q)
  have p: "prepare plain_writer q = Inr (Some (q, TierSemantic))"
    by (simp add: prepare_def v s stampClassifiedTier_def stampAuthor_def stampHandoff_def isHandoff_def scrubInput_def
        dropsAsCaptureOrLowSignal_def isTurnCapture_def dropsLowSignalEpisodic_def Let_def q)
  have f: "fingerprintHit plain_writer milk_env q TierSemantic tea_db = None" by (simp add: fingerprintHit_def q)
  have l: "load_existing q tea_db = Some cur" by (simp add: load_existing_def q g)
  have "GetEmbedding ''a'' ''m1'' tea_db = Inr None"
    by (simp add: GetEmbedding_def tea_db_def row_at_def lookup_def empty_db_def)
  then have "reusableVector q (Some cur) tea_db = None" by (simp add: reusableVector_def q)
  then obtain q2 where e: "embedForRemember plain_writer q (Some cur) tea_db = Inr ([], q2)"
    and q2: "q2 = q\<lparr> wMetadata := (wMetadata q)(PendingEmbedKey \<mapsto> JStr PendingEmbedValue) \<rparr>"
    by (simp add: embedForRemember_def Let_def)
  define m where "m = new_memory unix_epoch ''m1'' q2 TierSemantic (Some cur) []"
  have m: "Embedding m = []" "Chunks m = None" "ID m = ''m1''" "Namespace m = ''a''" "Tags m = [''hot'']"
    by (simp_all add: m_def new_memory_def Let_def q2 q)
  obtain d' where u: "Upsert m tea_db = Inr d'"
    using m by (cases "c_fingerprint (insert_row 1 tea) = Fingerprint (Content m)")
      (simp_all add: Upsert_def tea_db_def lookup_def write_indexes_def writeChunks_def Let_def)
  have "store_write plain_writer milk_env q2 (Some cur) m tea_db = insert_write plain_writer q2 (Some cur) m False [] None tea_db"
    by (simp add: store_write_def shouldConsolidate_def shouldSplitDedup_def consolidate_then_insert_def priorHandoffIDs_def
        m q2 q)
  then obtain r where "store_write plain_writer milk_env q2 (Some cur) m tea_db = Inr r" "rm_memory r = Some m"
    by (simp add: insert_write_def u)
  moreover have "Remember plain_writer milk_env q tea_db = store_write plain_writer milk_env q2 (Some cur) m tea_db"
    using p f l e by (simp add: Remember_def remember_prepared_def Let_def m_def q2 q)
  moreover have "update_refused tag_tea = None" by (simp add: update_refused_def tag_tea_def)
  ultimately have "Update plain_writer milk_env tag_tea tea_db = Inr (m, r)"
    using g by (simp add: Update_def q_def tag_tea_def)
  then show thesis by (rule that)
qed

lemma edit_exact_witness:
  "\<exists>m r. Update plain_writer milk_env tag_tea tea_db = Inr (m, r) \<and> Tags m = [''hot''] \<and> AccessCount tea = 3
    \<and> AccessCount m = 0"
proof -
  obtain m r where u: "Update plain_writer milk_env tag_tea tea_db = Inr (m, r)" using tag_tea_done .
  have "Get (uNamespace tag_tea) (uID tag_tea) tea_db = Inr (scanRow (insert_row 1 tea))"
    by (simp add: Get_def tea_db_def row_at_def tag_tea_def)
  moreover have "uID tag_tea \<noteq> ''''" "uTags tag_tea = Some [''hot'']" by (simp_all add: tag_tea_def)
  ultimately show ?thesis using edit_exact [OF u tea_db_ok tea_typed] u
    by (auto simp: or_else_def sample_memory_def)
qed

text \<open>
  A merge into a stored fact grows its confidence from the stored value: the decay since its
  last use, from which the growth is documented to start, is never applied, because the merge
  has set the time of the last update before.
\<close>

theorem merge_growth_undecayed:
  assumes "Tier_Term (mTier target) = LongTerm" and "Confidence target = Some c"
  shows "Confidence (merge_into now dec content v target) = Some (GrowConfidence (clamp01 c))
    \<or> now < LastAccessedAt target"
proof -
  have "EffectiveConfidence (target\<lparr> Content := content, UpdatedAt := now, Embedding := v \<rparr>) now = clamp01 c"
    if "\<not> now < LastAccessedAt target"
    using that assms by (simp add: EffectiveConfidence_def After_def decayConfidence_def Let_def Sub_def Hours_def)
  then show ?thesis using assms
    by (auto simp: merge_into_def stampAssessedImportance_def split: option.split)
qed

section \<open>Reading\<close>

text \<open>
  C21: The history of a memory is its whole supersession lineage and nothing else: the walk ends,
  and returns, once each and in order of creation, exactly the memories that links of
  supersession connect to it, followed in both directions; it fails only when the memory is
  missing.
\<close>

theorem history_is_lineage:
  shows "case History ns i d of
      Inl e \<Rightarrow> Get ns i d = Inl e
    | Inr xs \<Rightarrow> \<exists>a. Get ns i d = Inr a \<and> set xs = {x. (linked ns d)\<^sup>*\<^sup>* a x} \<and> distinct (map ID xs)
        \<and> sorted_wrt (\<lambda>x y. \<not> history_order y x) xs"
proof (cases "Get ns i d")
  case (Inr a)
  have "distinct (map ID (SliceStable history_order (history_loop ns d [a] [a])))"
    using history_walk(2) [OF Inr] by (simp add: distinct_map)
  then show ?thesis using history_walk(1) [OF Inr] history_sort.sorted_SliceStable
    by (simp add: History_def Inr)
qed (simp add: History_def)

text \<open>
  Reading by id answers the memory with exactly that id when there is one. Otherwise an id
  shaped like a prefix (eight or more characters of a UUID) answers the memory whose id starts
  with it if that is the only such memory of the namespace, and nothing else does.
\<close>

theorem get_by_prefix:
  assumes "db_ok d"
  shows "GetMemory ns i d = Inr m \<longleftrightarrow> Get ns i d = Inr m
    \<or> Get ns i d = Inl ErrNotFound \<and> idPrefixEligible i \<and> ids_with_prefix ns i d = {ID m} \<and> Get ns (ID m) d = Inr m"
proof (cases "Get ns i d")
  case (Inl e)
  then have "Get ns i d = Inl ErrNotFound" using sqlite.get_missing by blast
  then show ?thesis using GetMemory_by_prefix(1) [OF assms] by simp
qed (simp add: GetMemory_def)

lemma get_by_prefix_witness:
  "GetMemory ''a'' ''m1'' tea_db = Inr (scanRow (insert_row 1 tea))"
  using get_by_prefix [OF tea_db_ok, of "''a''" "''m1''" "scanRow (insert_row 1 tea)"]
  by (simp add: Get_def tea_db_def row_at_def)

end
