(* ===== verification/Repair_Worker.thy ===== *)
theory Repair_Worker
  imports Write_Cases
begin

text \<open>
  The deferred-repair worker of \<open>internal/service/repair.go\<close> and \<open>repair_enrich.go\<close>: it claims
  memories that were stored without a vector, embeds them, replays the write-time checks, and
  records the outcome on the row. The lemmas show that a batch takes its rows out of the pending
  queue when the embedder works, so that draining ends with nothing due, and what the replayed
  dedup does to the memory itself.
\<close>

section \<open>Outcomes\<close>

datatype repair_error = RepairEmbed embed_error | RepairStore store_error

datatype repair_verdict = RepairOK | RepairMoot | RepairError repair_error

text \<open>The clocks and the engine, the text of an error, and the random number of a backoff.\<close>

record repair_env =
  rp_env :: write_env
  rp_text :: "repair_error \<Rightarrow> string"
  rp_random :: "string \<Rightarrow> int"

abbreviation repairBatch :: int where "repairBatch \<equiv> 8"
abbreviation repairLeaseTTL :: Duration where "repairLeaseTTL \<equiv> 10 * Minute"
abbreviation repairMaxAttempts :: int where "repairMaxAttempts \<equiv> 12"
abbreviation repairRearmAfter :: Duration where "repairRearmAfter \<equiv> Hour"
abbreviation repairBackoffBase :: Duration where "repairBackoffBase \<equiv> 5 * Second"
abbreviation repairBackoffCap :: Duration where "repairBackoffCap \<equiv> 30 * Minute"

text \<open>The loop of \<open>repairBackoff\<close>, and its jitter for the random number \<open>x\<close>.\<close>

primrec backoff_delay :: "nat \<Rightarrow> Duration \<Rightarrow> Duration" where
  "backoff_delay 0 t = t"
| "backoff_delay (Suc n) t = (if repairBackoffCap \<le> 2 * t then repairBackoffCap else backoff_delay n (2 * t))"

definition repairBackoff :: "int \<Rightarrow> int \<Rightarrow> Duration" where
  "repairBackoff attempts x =
     (let t = backoff_delay (nat ((if attempts < 1 then 1 else attempts) - 1)) repairBackoffBase
      in x mod t + 1)"

section \<open>The embedding stage\<close>

definition advanceToEnrich :: "RepairRow \<Rightarrow> db \<Rightarrow> repair_verdict \<times> db" where
  "advanceToEnrich row d =
     (case SetRepairState (RepairRow.rNamespace row) (rID row) (rFingerprint row) RepairEnrich d of
        Inl e \<Rightarrow> (RepairError (RepairStore e), d)
      | Inr (ok, d') \<Rightarrow> (if ok then RepairOK else RepairMoot, d'))"

definition repairEmbed :: "writer \<Rightarrow> RepairRow \<Rightarrow> db \<Rightarrow> repair_verdict \<times> db" where
  "repairEmbed w row d =
     (case GetEmbedding (RepairRow.rNamespace row) (rID row) d of
        Inl e \<Rightarrow> (if e = ErrNotFound then RepairMoot else RepairError (RepairStore e), d)
      | Inr (Some (x # xs)) \<Rightarrow> advanceToEnrich row d
      | Inr _ \<Rightarrow>
          (case embedder w (rContent row) of
             Inl e \<Rightarrow> (RepairError (RepairEmbed e), d)
           | Inr fresh \<Rightarrow>
               (case SetEmbeddingIfUnchanged (RepairRow.rNamespace row) (rID row) (rFingerprint row) fresh RepairEnrich d of
                  Inl e \<Rightarrow> (RepairError (RepairStore e), d)
                | Inr (ok, d') \<Rightarrow> (if ok then RepairOK else RepairMoot, d'))))"

section \<open>The enrichment stage\<close>

definition clearRepair :: "RepairRow \<Rightarrow> db \<Rightarrow> repair_verdict \<times> db" where
  "clearRepair row d =
     (case SetRepairState (RepairRow.rNamespace row) (rID row) (rFingerprint row) RepairNone d of
        Inl e \<Rightarrow> (RepairError (RepairStore e), d)
      | Inr (ok, d') \<Rightarrow> (if ok then RepairOK else RepairMoot, d'))"

text \<open>Whether the memory was retired, the memory as the checks left it, the jobs and the database.\<close>

definition repairDedup :: "writer \<Rightarrow> write_env \<Rightarrow> memory \<Rightarrow> db \<Rightarrow> bool \<times> memory \<times> job list \<times> db" where
  "repairDedup w env m d =
     (if writeDedupScore w \<le> 0 \<or> writeDedupAction w = WriteDedupOff \<or> writeDedupAction w = '''' then (False, m, [], d)
      else case dedupCheck w env m d of
             Folded hit js d1 \<Rightarrow>
               let d2 = reinforceCorroborate (we_now env) hit d1 in
               (case SetSuperseded (we_wall env) (Namespace m) (ID m) (ID hit) d2 of
                  Inl _ \<Rightarrow> (False, m, js, d2)
                | Inr d3 \<Rightarrow> (True, m, js, d3))
           | Proceed m' hint sid \<Rightarrow>
               (False, m', (if sid \<noteq> '''' then [JSupersede (Namespace m) sid (ID m)] else []), d))"

definition repair_routes :: "writer \<Rightarrow> memory \<Rightarrow> job list" where
  "repair_routes w m =
     (if Tier_Term (mTier m) = ShortTerm \<and> 0 < corroborateMinScore w \<and> Embedding m \<noteq> [] then [JCorroborateNearest m] else [])
     @ (if Tier_Term (mTier m) = LongTerm \<and> 0 < contradictMinScore w \<and> Embedding m \<noteq> [] \<and> \<not> isHandoff (Tags m)
        then [JContradictNearest m] else [])
     @ (if consolidator w \<noteq> None \<and> consolidateMode w \<noteq> ConsolidateOff \<and> Tier_Term (mTier m) = LongTerm
        then enqueueConsolidate w (Namespace m) (ID m) else [])"

definition repairEnrich :: "writer \<Rightarrow> write_env \<Rightarrow> RepairRow \<Rightarrow> db \<Rightarrow> repair_verdict \<times> job list \<times> db" where
  "repairEnrich w env row d =
     (case Get (RepairRow.rNamespace row) (rID row) d of
        Inl e \<Rightarrow> (if e = ErrNotFound then RepairMoot else RepairError (RepairStore e), [], d)
      | Inr m0 \<Rightarrow>
          if SupersededBy m0 \<noteq> None then (RepairMoot, [], d)
          else (case GetEmbedding (RepairRow.rNamespace row) (rID row) d of
                  Inl e \<Rightarrow> (if e = ErrNotFound then RepairMoot else RepairError (RepairStore e), [], d)
                | Inr (Some (x # xs)) \<Rightarrow>
                    (case repairDedup w env (m0\<lparr> Embedding := x # xs \<rparr>) d of
                       (retired, m, js, d1) \<Rightarrow>
                         (case clearRepair row d1 of
                            (v, d2) \<Rightarrow> (v, js @ (if retired then [] else repair_routes w m), d2)))
                | Inr _ \<Rightarrow>
                    (case SetRepairState (RepairRow.rNamespace row) (rID row) (rFingerprint row) RepairPending d of
                       Inl e \<Rightarrow> (RepairError (RepairStore e), [], d)
                     | Inr (ok, d') \<Rightarrow> (if ok then RepairOK else RepairMoot, [], d'))))"

section \<open>One row, one batch, one drain\<close>

definition dispatchRepair :: "writer \<Rightarrow> write_env \<Rightarrow> RepairRow \<Rightarrow> db \<Rightarrow> repair_verdict \<times> job list \<times> db" where
  "dispatchRepair w env row d =
     (if State row = RepairPending then (case repairEmbed w row d of (v, d') \<Rightarrow> (v, [], d'))
      else if State row = RepairEnrich then repairEnrich w env row d
      else (RepairMoot, [], d))"

definition runOneRepair :: "writer \<Rightarrow> repair_env \<Rightarrow> RepairRow \<Rightarrow> job list \<times> db \<Rightarrow> job list \<times> db" where
  "runOneRepair w renv row s =
     (case dispatchRepair w (rp_env renv) row (snd s) of
        (v, js, d) \<Rightarrow>
          (fst s @ js,
           (case v of
              RepairOK \<Rightarrow> d
            | RepairMoot \<Rightarrow>
                (case SetRepairState (RepairRow.rNamespace row) (rID row) (rFingerprint row) RepairNone d of
                   Inl _ \<Rightarrow> d
                 | Inr (ok, d') \<Rightarrow> d')
            | RepairError e \<Rightarrow>
                if repairMaxAttempts \<le> Attempts row
                then ParkRepair (RepairRow.rNamespace row) (rID row) (rp_text renv e) (we_now (rp_env renv)) d
                else FailRepair (RepairRow.rNamespace row) (rID row) (rp_text renv e)
                       (we_now (rp_env renv) + repairBackoff (Attempts row) (rp_random renv (rID row))) d)))"

text \<open>
  A batch: how many rows it claimed, the jobs and the database. A shutdown after \<open>cut_at\<close> rows
  releases the rest.
\<close>

definition releaseUnrun :: "Time \<Rightarrow> RepairRow list \<Rightarrow> db \<Rightarrow> db" where
  "releaseUnrun now rows d = fold (\<lambda>row. FailRepair (RepairRow.rNamespace row) (rID row) ''worker shutdown'' now) rows d"

definition runRepairBatch ::
    "writer \<Rightarrow> repair_env \<Rightarrow> nat option \<Rightarrow> RepairState \<Rightarrow> db \<Rightarrow> store_error + nat \<times> job list \<times> db" where
  "runRepairBatch w renv cut_at state d =
     (case ClaimRepairs state (we_now (rp_env renv)) repairLeaseTTL repairBatch d of
        Inl e \<Rightarrow> Inl e
      | Inr (rows, d1) \<Rightarrow>
          let mine = (case cut_at of None \<Rightarrow> rows | Some n \<Rightarrow> take n rows);
              rest = (case cut_at of None \<Rightarrow> [] | Some n \<Rightarrow> drop n rows)
          in (case fold (runOneRepair w renv) mine ([], d1) of
                (js, d2) \<Rightarrow> Inr (length rows, js, releaseUnrun (we_now (rp_env renv)) rest d2)))"

text \<open>
  \<open>DrainRepairs\<close> for one state: batches until one is not full; the error that ended it, how many
  rows it ran, the jobs and the database. It is a partial function, since a row that keeps
  failing within one reading of the clock could be claimed again.
\<close>

partial_function (option) drain_state ::
    "writer \<Rightarrow> repair_env \<Rightarrow> RepairState \<Rightarrow> nat \<Rightarrow> job list \<Rightarrow> db
      \<Rightarrow> (store_error option \<times> nat \<times> job list \<times> db) option" where
  "drain_state w renv state k js d =
     (case runRepairBatch w renv None state d of
        Inl e \<Rightarrow> Some (Some e, k, js, d)
      | Inr (n, js', d') \<Rightarrow>
          if int n < repairBatch then Some (None, k + n, js @ js', d')
          else drain_state w renv state (k + n) (js @ js') d')"

definition DrainRepairs :: "writer \<Rightarrow> repair_env \<Rightarrow> db \<Rightarrow> (store_error option \<times> nat \<times> job list \<times> db) option" where
  "DrainRepairs w renv d =
     (case drain_state w renv RepairPending 0 [] d of
        None \<Rightarrow> None
      | Some (Some e, n, js, d1) \<Rightarrow> Some (Some e, n, js, d1)
      | Some (None, n, js, d1) \<Rightarrow> drain_state w renv RepairEnrich n js d1)"

section \<open>The sweeper\<close>

abbreviation adoptBatch :: int where "adoptBatch \<equiv> 200"

definition adopt_filter :: "Time \<Rightarrow> Filter" where
  "adopt_filter now = no_filter\<lparr> fMetadata := [(PendingEmbedKey, PendingEmbedValue)], Now := now \<rparr>"

fun adoptUnmarked :: "write_env \<Rightarrow> string list \<Rightarrow> db \<Rightarrow> store_error + db" where
  "adoptUnmarked env [] d = Inr d"
| "adoptUnmarked env (ns # rest) d =
     (case map ID (List_memories (we_engine env) (we_wall env) ns (adopt_filter (we_now env)) adoptBatch d) of
        [] \<Rightarrow> adoptUnmarked env rest d
      | ids \<Rightarrow>
          (case MarkRepairNeeded ns ids RepairPending d of
             Inl e \<Rightarrow> Inl e
           | Inr (n, d') \<Rightarrow> adoptUnmarked env rest d'))"

definition SweepRepairs :: "write_env \<Rightarrow> db \<Rightarrow> store_error + db" where
  "SweepRepairs env d =
     (let d1 = fst (RearmRepairs (we_now env - repairRearmAfter) (we_now env) d)
      in adoptUnmarked env (ListNamespaces d1) d1)"

section \<open>The embedding stage drains\<close>

text \<open>The memory of an id has left the pending stage and has a vector.\<close>

definition repaired :: "db \<Rightarrow> string \<Rightarrow> bool" where
  "repaired d i \<longleftrightarrow> (\<exists>r \<in> set (memories d). c_id r = i \<and> c_embed_state r = RepairEnrich
     \<and> lookup v_rowid (vec_memories d) (c_rowid r) \<noteq> None)"

text \<open>Two databases that agree on all memories but those of the ids in \<open>X\<close>.\<close>

definition agree_but :: "string set \<Rightarrow> db \<Rightarrow> db \<Rightarrow> bool" where
  "agree_but X d d' \<longleftrightarrow> dims d' = dims d
     \<and> (\<forall>r. c_id r \<notin> X \<longrightarrow> (r \<in> set (memories d') \<longleftrightarrow> r \<in> set (memories d)))
     \<and> (\<forall>r \<in> set (memories d). c_id r \<notin> X \<longrightarrow>
          lookup v_rowid (vec_memories d') (c_rowid r) = lookup v_rowid (vec_memories d) (c_rowid r))"

lemma agree_but_refl [simp]: "agree_but X d d"
  by (simp add: agree_but_def)

lemma agree_but_trans: "agree_but X d d' \<Longrightarrow> agree_but Y d' d'' \<Longrightarrow> agree_but (X \<union> Y) d d''"
  by (simp add: agree_but_def)

lemma repaired_agree: "agree_but X d d' \<Longrightarrow> repaired d i \<Longrightarrow> i \<notin> X \<Longrightarrow> repaired d' i"
  unfolding repaired_def agree_but_def by metis

text \<open>A claim of the row \<open>r\<close> that is still good.\<close>

definition claims :: "RepairRow \<Rightarrow> mem_row \<Rightarrow> bool" where
  "claims row r \<longleftrightarrow> rID row = c_id r \<and> RepairRow.rNamespace row = c_namespace r \<and> rFingerprint row = c_fingerprint r
     \<and> State row = RepairPending"

definition works :: "writer \<Rightarrow> nat \<Rightarrow> bool" where
  "works w n \<longleftrightarrow> (\<forall>c. \<exists>v. embedder w c = Inr v \<and> length v = n \<and> v \<noteq> [])"

lemma update_one_row:
  assumes ok: "db_ok d" and r: "r \<in> set (memories d)" and f: "c_id (f r) = c_id r"
    and p: "\<And>x. x \<in> set (memories d) \<Longrightarrow> p x \<longleftrightarrow> x = r"
    and d': "memories d' = update_where p f (memories d)" "dims d' = dims d"
    and v: "\<And>x. x \<in> set (memories d) \<Longrightarrow> x \<noteq> r \<Longrightarrow>
      lookup v_rowid (vec_memories d') (c_rowid x) = lookup v_rowid (vec_memories d) (c_rowid x)"
  shows "agree_but {c_id r} d d'" and "f r \<in> set (memories d')"
proof -
  have s: "set (memories d') = (\<lambda>x. if x = r then f r else x) ` set (memories d)"
    unfolding d'(1) set_update_where by (rule image_cong) (auto simp: p)
  show "f r \<in> set (memories d')" unfolding s using r by force
  have "x \<in> set (memories d') \<longleftrightarrow> x \<in> set (memories d)" if "c_id x \<noteq> c_id r" for x
    unfolding s using that f by force
  then show "agree_but {c_id r} d d'"
    using d'(2) v unique_row(1) [OF ok r] by (auto simp: agree_but_def)
qed

lemma embed_row_done:
  assumes ok: "db_ok d" and r: "r \<in> set (memories d)" and v: "v \<noteq> []" "length v = dims d"
  shows "\<exists>d'. SetEmbeddingIfUnchanged (c_namespace r) (c_id r) (c_fingerprint r) v RepairEnrich d = Inr (True, d')
    \<and> db_ok d' \<and> agree_but {c_id r} d d' \<and> repaired d' (c_id r)"
proof -
  define f :: "mem_row \<Rightarrow> mem_row" where "f = (\<lambda>x. x\<lparr> c_embed_state := RepairEnrich, c_embed_attempts := 0, c_embed_next_run_at := Some 0,
                    c_embed_last_error := [] \<rparr>)"
  define d' where "d' = setRepairColumnsTx (c_rowid r) RepairEnrich (vec_insert (c_rowid r) (c_namespace r) v (vec_clear (c_rowid r) d))"
  have s: "SetEmbeddingIfUnchanged (c_namespace r) (c_id r) (c_fingerprint r) v RepairEnrich d = Inr (True, d')"
    using v by (simp add: SetEmbeddingIfUnchanged_def ValidRepairState_def find_row(2) [OF ok r] d'_def Let_def)
  have m: "memories d' = update_where (\<lambda>x. c_rowid x = c_rowid r) f (memories d)" "dims d' = dims d"
    and vm: "vec_memories d' = delete_where (\<lambda>x. v_rowid x = c_rowid r) (vec_memories d)
      @ [\<lparr> v_rowid = c_rowid r, v_namespace = c_namespace r, v_embedding = v \<rparr>]"
    by (simp_all add: d'_def setRepairColumnsTx_def vec_insert_def vec_clear_def f_def)
  have l: "lookup v_rowid (vec_memories d') i = (if i = c_rowid r then Some \<lparr> v_rowid = c_rowid r, v_namespace = c_namespace r, v_embedding = v \<rparr>
      else lookup v_rowid (vec_memories d) i)" for i
    by (simp add: vm lookup_append lookup_single lookup_delete_key [where q = "\<lambda>k. k = c_rowid r"] split: option.split)
  have "agree_but {c_id r} d d'" and fr: "f r \<in> set (memories d')"
    using update_one_row [OF ok r, of f "\<lambda>x. c_rowid x = c_rowid r" d'] unique_row(2) [OF ok r] m l
    by (auto simp: f_def)
  moreover have "repaired d' (c_id r)"
    unfolding repaired_def using fr by (intro bexI [of _ "f r"]) (simp_all add: f_def l)
  ultimately show ?thesis using s SetEmbeddingIfUnchanged_ok [OF s ok] by blast
qed

lemma advance_row_done:
  assumes ok: "db_ok d" and r: "r \<in> set (memories d)" and v: "lookup v_rowid (vec_memories d) (c_rowid r) \<noteq> None"
  shows "\<exists>d'. SetRepairState (c_namespace r) (c_id r) (c_fingerprint r) RepairEnrich d = Inr (True, d')
    \<and> db_ok d' \<and> agree_but {c_id r} d d' \<and> repaired d' (c_id r)"
proof -
  define p where "p = (\<lambda>x. row_at (c_namespace r) (c_id r) x \<and> c_fingerprint x = c_fingerprint r)"
  define f :: "mem_row \<Rightarrow> mem_row" where "f = (\<lambda>x. x\<lparr> c_embed_state := RepairEnrich, c_embed_attempts := 0, c_embed_next_run_at := Some 0,
                    c_embed_last_error := [], c_metadata := c_metadata x \<rparr>)"
  define d' where "d' = d\<lparr> memories := update_where p f (memories d) \<rparr>"
  have p: "p x \<longleftrightarrow> x = r" if "x \<in> set (memories d)" for x
    using unique_row(1) [OF ok r that] by (auto simp: p_def row_at_def)
  have "count_where p (memories d) > 0" using p [OF r] r by (auto simp: neq0_conv [symmetric] simp del: neq0_conv)
  then have s: "SetRepairState (c_namespace r) (c_id r) (c_fingerprint r) RepairEnrich d = Inr (True, d')"
    by (simp add: SetRepairState_def ValidRepairState_def Let_def p_def f_def d'_def)
  have "agree_but {c_id r} d d'" and fr: "f r \<in> set (memories d')"
    using update_one_row [OF ok r, of f p d'] p by (auto simp: f_def d'_def)
  moreover have "repaired d' (c_id r)"
    unfolding repaired_def using fr v by (intro bexI [of _ "f r"]) (simp_all add: f_def d'_def)
  ultimately show ?thesis using s SetRepairState_ok [OF s ok] by blast
qed

lemma repairEmbed_done:
  assumes ok: "db_ok d" and r: "r \<in> set (memories d)" and c: "claims row r" and w: "works w (dims d)"
  shows "\<exists>d'. repairEmbed w row d = (RepairOK, d') \<and> db_ok d' \<and> agree_but {c_id r} d d' \<and> repaired d' (c_id r)"
proof -
  have row: "rID row = c_id r" "RepairRow.rNamespace row = c_namespace r" "rFingerprint row = c_fingerprint r"
    using c by (simp_all add: claims_def)
  have g: "GetEmbedding (c_namespace r) (c_id r) d = Inr (map_option v_embedding (lookup v_rowid (vec_memories d) (c_rowid r)))"
    by (simp add: GetEmbedding_def find_row(1) [OF ok r])
  show ?thesis
  proof (cases "\<exists>x xs. map_option v_embedding (lookup v_rowid (vec_memories d) (c_rowid r)) = Some (x # xs)")
    case True
    then obtain x xs where v: "map_option v_embedding (lookup v_rowid (vec_memories d) (c_rowid r)) = Some (x # xs)" by blast
    then have "lookup v_rowid (vec_memories d) (c_rowid r) \<noteq> None" by auto
    from advance_row_done [OF ok r this] v show ?thesis
      by (auto simp: repairEmbed_def row g advanceToEnrich_def)
  next
    case False
    obtain v where v: "embedder w (rContent row) = Inr v" "length v = dims d" "v \<noteq> []"
      using w by (auto simp: works_def)
    from embed_row_done [OF ok r v(3,2)] False v(1) show ?thesis
      by (auto simp: repairEmbed_def row g split: option.split list.split)
  qed
qed

text \<open>A claimed batch, run row by row.\<close>

lemma run_rows_done:
  assumes "db_ok d" and "list_all2 (\<lambda>row r. claims row r \<and> r \<in> set (memories d)) rows rs"
    and "distinct (map c_id rs)" and "works w (dims d)"
  shows "\<exists>d'. fold (runOneRepair w renv) rows (js, d) = (js, d') \<and> db_ok d' \<and> agree_but (c_id ` set rs) d d'
    \<and> (\<forall>r \<in> set rs. repaired d' (c_id r))"
  using assms
proof (induction rows arbitrary: d rs)
  case (Cons row rows)
  then obtain r rs' where rs: "rs = r # rs'" "claims row r" "r \<in> set (memories d)"
    "list_all2 (\<lambda>row r. claims row r \<and> r \<in> set (memories d)) rows rs'" by (auto simp: list_all2_Cons1)
  obtain d1 where d1: "repairEmbed w row d = (RepairOK, d1)" "db_ok d1" "agree_but {c_id r} d d1" "repaired d1 (c_id r)"
    using repairEmbed_done [OF Cons.prems(1) rs(3,2) Cons.prems(4)] by blast
  have one: "runOneRepair w renv row (js, d) = (js, d1)"
    using d1(1) rs(2) by (simp add: runOneRepair_def dispatchRepair_def claims_def)
  have ne: "c_id x \<noteq> c_id r" if "x \<in> set rs'" for x
    using imageI [OF that, of c_id] Cons.prems(3) rs(1) by (simp; metis)
  have "list_all2 (\<lambda>row r. claims row r \<and> r \<in> set (memories d1)) rows rs'"
    using rs(4) ne d1(3) nth_mem [of _ rs'] by (auto simp: list_all2_conv_all_nth agree_but_def)
  moreover have "distinct (map c_id rs')" "works w (dims d1)"
    using Cons.prems(3,4) rs(1) d1(3) by (simp_all add: agree_but_def)
  ultimately obtain d' where d': "fold (runOneRepair w renv) rows (js, d1) = (js, d')" "db_ok d'"
    "agree_but (c_id ` set rs') d1 d'" "\<forall>r \<in> set rs'. repaired d' (c_id r)"
    using Cons.IH [OF d1(2)] by blast
  have "repaired d' (c_id r)" using repaired_agree [OF d'(3) d1(4)] ne by force
  then show ?case using one d' agree_but_trans [OF d1(3) d'(3)] rs(1) by auto
qed simp

text \<open>The ids of the memories whose embedding is due.\<close>

definition due :: "Time \<Rightarrow> db \<Rightarrow> string set" where
  "due now d = c_id ` {r \<in> set (memories d). claimable RepairPending now r}"

lemma finite_due [simp]: "finite (due now d)"
  by (simp add: due_def)

lemma due_after:
  assumes "agree_but X d d'" and "\<forall>i \<in> X. repaired d' i" and ok': "db_ok d'"
  shows "due now d' = due now d - X"
proof -
  have "c_id r \<notin> X" if "r \<in> set (memories d')" "claimable RepairPending now r" for r
  proof
    assume "c_id r \<in> X"
    with assms(2) obtain x where x: "x \<in> set (memories d')" "c_id x = c_id r" "c_embed_state x = RepairEnrich"
      by (auto simp: repaired_def)
    then have "x = r" using unique_row(1) [OF ok' that(1) x(1)] by simp
    then show False using x(3) that(2) by (simp add: claimable_def)
  qed
  then show ?thesis using assms(1) by (auto simp: due_def agree_but_def)
qed

lemma claimed_ids_due:
  assumes ok: "db_ok d"
  shows "claimed_ids RepairPending now repairBatch d \<subseteq> due now d"
    and "card (claimed_ids RepairPending now repairBatch d) = min 8 (card (due now d))"
proof -
  let ?l = "filter (claimable RepairPending now) (memories d)"
  have eq: "claim_selection RepairPending now repairBatch d = take 8 (order_by claim_less ?l)"
    by (simp add: claim_selection_def limit_rows_def)
  show sub: "claimed_ids RepairPending now repairBatch d \<subseteq> due now d"
    by (auto simp: claimed_ids_def due_def dest!: claim_selection_set)
  have d0: "distinct (map c_id ?l)" using ok by (simp add: db_ok_def rows_ok_def distinct_map_filter)
  have m: "mset (map c_id (order_by claim_less ?l)) = mset (map c_id ?l)" by simp
  have ds: "distinct (map c_id (order_by claim_less ?l))" using d0 mset_eq_imp_distinct_iff [OF m] by blast
  have len: "length (order_by claim_less ?l) = length ?l" using mset_eq_length [OF m] by simp
  have "card (due now d) = length ?l"
    using distinct_card [OF d0] by (simp add: due_def)
  moreover have "card (claimed_ids RepairPending now repairBatch d) = length (map c_id (take 8 (order_by claim_less ?l)))"
    unfolding claimed_ids_def eq by (rule distinct_card) (use ds in \<open>simp add: take_map [symmetric] distinct_take\<close>)
  ultimately show "card (claimed_ids RepairPending now repairBatch d) = min 8 (card (due now d))"
    using len by simp
qed

lemma claim_batch:
  assumes ok: "db_ok d" and c: "ClaimRepairs RepairPending now lease repairBatch d = Inr (rows, d1)"
  obtains rs where "rows = map repair_row_of rs" "list_all2 (\<lambda>row r. claims row r \<and> r \<in> set (memories d1)) rows rs"
    "distinct (map c_id rs)" "c_id ` set rs = claimed_ids RepairPending now repairBatch d"
    "agree_but (claimed_ids RepairPending now repairBatch d) d d1" "db_ok d1"
proof -
  let ?C = "claimed_ids RepairPending now repairBatch d"
  define rs where "rs = filter (\<lambda>r. c_id r \<in> ?C) (memories d1)"
  have pos: "0 < repairBatch" by simp
  note m = ClaimRepairs_InrD(1) [OF c pos]
  have rows: "rows = map repair_row_of rs" using ClaimRepairs_InrD(2) [OF c pos] by (simp add: rs_def)
  have ok1: "db_ok d1" using ClaimRepairs_ok [OF c ok] .
  have s1: "set (memories d1) = (\<lambda>r. if c_id r \<in> ?C then charge now lease r else r) ` set (memories d)"
    unfolding m set_update_where ..
  have pending: "c_embed_state r = RepairPending" if "r \<in> set rs" for r
  proof -
    have "c_id r \<in> ?C" and "r \<in> (\<lambda>r. if c_id r \<in> ?C then charge now lease r else r) ` set (memories d)"
      using that unfolding rs_def set_filter s1 [symmetric] by blast+
    then obtain r0 where x: "r0 \<in> set (memories d)" "r = (if c_id r0 \<in> ?C then charge now lease r0 else r0)"
      and i: "c_id r \<in> ?C" by (elim imageE) blast
    have "c_id r0 \<in> ?C" using x(2) i by (cases "c_id r0 \<in> ?C") simp_all
    then have r0: "r0 \<in> set (memories d)" "r = charge now lease r0" "c_id r0 \<in> ?C" using x by simp_all
    obtain y where "y \<in> set (memories d)" "claimable RepairPending now y" "c_id y = c_id r0"
      using r0(3) by (auto simp: claimed_ids_def dest!: claim_selection_set)
    then have "claimable RepairPending now r0" using unique_row(1) [OF ok r0(1)] by auto
    then show ?thesis by (simp add: r0(2) charge_def claimable_def)
  qed
  have "list_all2 (\<lambda>row r. claims row r \<and> r \<in> set (memories d1)) rows rs"
    unfolding rows list.rel_map by (rule list.rel_refl_strong) (use pending in \<open>auto simp: claims_def repair_row_of_def rs_def\<close>)
  moreover have "distinct (map c_id rs)" using ok1 by (simp add: rs_def db_ok_def rows_ok_def distinct_map_filter)
  moreover have "c_id ` set rs = ?C"
    using ClaimRepairs_rows_ids [OF c pos] by (auto simp: rows repair_row_of_def image_iff)
  moreover have "agree_but ?C d d1"
  proof -
    have "dims d1 = dims d" "vec_memories d1 = vec_memories d"
      using c by (auto simp: ClaimRepairs_def Let_def split: if_splits)
    moreover have "r \<in> set (memories d1) \<longleftrightarrow> r \<in> set (memories d)" if "c_id r \<notin> ?C" for r
      unfolding s1 using that by (force simp: charge_def)
    ultimately show ?thesis by (simp add: agree_but_def)
  qed
  ultimately show ?thesis using that rows ok1 by blast
qed

lemma repair_batch:
  assumes ok: "db_ok d" and w: "works w (dims d)"
  obtains d' where
    "runRepairBatch w renv None RepairPending d = Inr (min 8 (card (due (we_now (rp_env renv)) d)), [], d')" "db_ok d'"
    "agree_but (claimed_ids RepairPending (we_now (rp_env renv)) repairBatch d) d d'"
    "\<forall>i \<in> claimed_ids RepairPending (we_now (rp_env renv)) repairBatch d. repaired d' i"
proof -
  let ?now = "we_now (rp_env renv)" let ?C = "claimed_ids RepairPending ?now repairBatch d"
  obtain rows d1 where c: "ClaimRepairs RepairPending ?now repairLeaseTTL repairBatch d = Inr (rows, d1)"
    by (simp add: ClaimRepairs_def ValidRepairState_def Let_def)
  from claim_batch [OF ok c] obtain rs where rs: "rows = map repair_row_of rs"
    "list_all2 (\<lambda>row r. claims row r \<and> r \<in> set (memories d1)) rows rs" "distinct (map c_id rs)"
    "c_id ` set rs = ?C" "agree_but ?C d d1" "db_ok d1" .
  have "works w (dims d1)" using w rs(5) by (simp add: agree_but_def)
  from run_rows_done [OF rs(6,2,3) this] obtain d' where
    d': "fold (runOneRepair w renv) rows ([], d1) = ([], d')" "db_ok d'" "agree_but (c_id ` set rs) d1 d'"
      "\<forall>r \<in> set rs. repaired d' (c_id r)" by blast
  have "length rows = card ?C" using distinct_card [OF rs(3)] rs(1,4) by simp
  then have "runRepairBatch w renv None RepairPending d = Inr (min 8 (card (due ?now d)), [], d')"
    using claimed_ids_due(2) [OF ok] c d'(1) by (simp add: runRepairBatch_def releaseUnrun_def)
  moreover have "agree_but ?C d d'" using agree_but_trans [OF rs(5) d'(3)] rs(4) by simp
  moreover have "\<forall>i \<in> ?C. repaired d' i" using d'(4) rs(4) by (metis imageE)
  ultimately show ?thesis using that d'(2) by blast
qed

text \<open>Draining ends, runs every due memory, and leaves each with a vector.\<close>

lemma drain_repairs:
  assumes "db_ok d" and "works w (dims d)"
  shows "\<exists>d'. drain_state w renv RepairPending k js d = Some (None, k + card (due (we_now (rp_env renv)) d), js, d')
    \<and> db_ok d' \<and> agree_but (due (we_now (rp_env renv)) d) d d' \<and> (\<forall>i \<in> due (we_now (rp_env renv)) d. repaired d' i)"
  using assms
proof (induction "card (due (we_now (rp_env renv)) d)" arbitrary: d k rule: less_induct)
  case less
  let ?now = "we_now (rp_env renv)" let ?C = "claimed_ids RepairPending ?now repairBatch d"
  from repair_batch [OF less.prems] obtain d1 where
    b: "runRepairBatch w renv None RepairPending d = Inr (min 8 (card (due ?now d)), [], d1)" "db_ok d1"
      "agree_but ?C d d1" "\<forall>i \<in> ?C. repaired d1 i" .
  note C = claimed_ids_due [OF less.prems(1), of ?now]
  have due1: "due ?now d1 = due ?now d - ?C" using due_after [OF b(3,4,2)] .
  show ?case
  proof (cases "card (due ?now d) < 8")
    case True
    then have "?C = due ?now d" using C card_subset_eq [OF finite_due C(1)] by simp
    then show ?thesis using True b by (simp add: drain_state.simps [of w renv RepairPending k js d])
  next
    case False
    then have n: "card (due ?now d1) = card (due ?now d) - 8"
      using C finite_subset [OF C(1)] by (simp add: due1 card_Diff_subset)
    then have "card (due ?now d1) < card (due ?now d)" "works w (dims d1)"
      using False less.prems(2) b(3) by (simp_all add: agree_but_def)
    from less.hyps [OF this(1) b(2) this(2), of "k + 8"] obtain d' where
      d': "drain_state w renv RepairPending (k + 8) js d1 = Some (None, k + 8 + card (due ?now d1), js, d')" "db_ok d'"
        "agree_but (due ?now d1) d1 d'" "\<forall>i \<in> due ?now d1. repaired d' i" by blast
    have "drain_state w renv RepairPending k js d = Some (None, k + card (due ?now d), js, d')"
      using False b(1) d'(1) n by (simp add: drain_state.simps [of w renv RepairPending k js d])
    moreover have "agree_but (due ?now d) d d'"
      using agree_but_trans [OF b(3) d'(3)] C(1) by (simp add: due1 Un_absorb1 Un_Diff_cancel)
    moreover have "repaired d' i" if "i \<in> due ?now d" for i
    proof (cases "i \<in> ?C")
      case True
      then show ?thesis using b(4) repaired_agree [OF d'(3)] due1 by blast
    qed (use d'(4) that due1 in blast)
    ultimately show ?thesis using d'(2) by blast
  qed
qed

section \<open>A repaired memory is its own duplicate\<close>

text \<open>
  The replayed dedup searches the whole store, in which the memory already stands with its own
  vector: its nearest neighbour is itself, and coalescing supersedes it by itself.
\<close>

definition row_keys :: "db \<Rightarrow> (string \<times> string) list" where
  "row_keys d = map (\<lambda>r. (c_namespace r, c_id r)) (memories d)"

lemma Get_by_key: "(\<exists>m. Get ns i d = Inr m) \<longleftrightarrow> (ns, i) \<in> set (row_keys d)"
proof (cases "find (row_at ns i) (memories d)")
  case None
  then have "(ns, i) \<notin> set (row_keys d)" by (auto simp: row_keys_def find_None_iff row_at_def)
  then show ?thesis using None by (simp add: Get_def)
next
  case (Some r)
  then have "r \<in> set (memories d)" "(ns, i) = (c_namespace r, c_id r)" by (auto simp: row_at_def dest: find_Some_set)
  then have "(ns, i) \<in> set (row_keys d)" by (auto simp: row_keys_def)
  then show ?thesis using Some by (simp add: Get_def)
qed

lemma update_or_notfound_keys:
  assumes "\<And>r. (c_namespace (f r), c_id (f r)) = (c_namespace r, c_id r)"
  shows "update_or_notfound p f d = Inr d' \<Longrightarrow> row_keys d' = row_keys d"
  using map_update_where [of "\<lambda>r. (c_namespace r, c_id r)" f, OF assms]
  by (auto simp: update_or_notfound_def row_keys_def split: if_splits)

lemma reinforceCorroborate_keys: "row_keys (reinforceCorroborate now m d) = row_keys d"
proof -
  have r: "row_keys (Reinforce ns ids t e d) = row_keys d" for ns ids t e d
    by (simp add: Reinforce_def row_keys_def map_update_where)
  have "row_keys (fold (reinforce_group now [m]) ks d) = row_keys d" for ks
    by (induction ks arbitrary: d) (simp_all add: reinforce_group_def r)
  moreover have "row_keys (corroborate now m d) = row_keys d" for d
    by (auto simp: corroborate_def best_effort_def SetConfidence_def dest!: update_or_notfound_keys [rotated] split: sum.split)
  ultimately show ?thesis by (simp only: reinforceCorroborate_def reinforce_def)
qed

lemma reinforceCorroborate_ok:
  assumes "db_ok d"
  shows "db_ok (reinforceCorroborate now m d)"
proof -
  have "db_ok (fold (reinforce_group now [m]) ks d)" for ks
    using assms by (induction ks arbitrary: d) (simp_all add: reinforce_group_def Reinforce_ok)
  moreover have "db_ok (corroborate now m d)" if "db_ok d" for d
    using that point_updates_ok(4) [OF that] by (auto simp: corroborate_def best_effort_def split: sum.split)
  ultimately show ?thesis by (simp only: reinforceCorroborate_def reinforce_def)
qed

lemma SetRepairState_superseded:
  assumes "SetRepairState ns i fp next d = Inr (b, d')" and "Get ns j d = Inr m"
  shows "\<exists>m'. Get ns j d' = Inr m' \<and> SupersededBy m' = SupersededBy m"
proof -
  obtain r where r: "find (row_at ns j) (memories d) = Some r" "m = scanRow r" using Get_InrD [OF assms(2)] by blast
  obtain p f where d': "memories d' = update_where p f (memories d)"
    and f: "\<And>x. c_namespace (f x) = c_namespace x \<and> c_id (f x) = c_id x \<and> c_superseded_by (f x) = c_superseded_by x"
    using assms(1) by (auto simp: SetRepairState_def Let_def split: if_splits)
  have "find (row_at ns j) (update_where p f t) = map_option (\<lambda>x. if p x then f x else x) (find (row_at ns j) t)" for t
    by (induction t) (auto simp: update_where_def row_at_def f)
  then show ?thesis using r f by (simp add: Get_def d' scanRow_def)
qed

text \<open>
  The merge by the language model is tried when its option is on, a consolidator is configured and
  a second duplicate is nearly as close as the best one.
\<close>

definition merge_asked :: "writer \<Rightarrow> Scored \<Rightarrow> Scored list \<Rightarrow> bool" where
  "merge_asked w c cs \<longleftrightarrow> splitDedupLLMMerge w \<and> consolidator w \<noteq> None
     \<and> (case filter (\<lambda>x. writeDedupScore w \<le> Score x) cs of
          [] \<Rightarrow> False | x # _ \<Rightarrow> Score c - Score x < dedupLLMCloseness)"

lemma self_is_duplicate:
  assumes ok: "db_ok d" and g: "Get ns i d = Inr m0"
    and act: "writeDedupAction w = WriteDedupCoalesce" "0 < writeDedupScore w" "\<not> merge_asked w c cs"
    and s: "VectorSearch (we_engine env) (we_wall env) ns v
        (no_filter\<lparr> fTiers := [mTier m0], ExcludeMetadata := handoffExclusion, Now := we_now env \<rparr>) dedupCandidates d = Inr (c # cs)"
      "hit_id c = i" "writeDedupScore w \<le> Score c"
  obtains js d1 m' where "repairDedup w env (m0\<lparr> Embedding := v \<rparr>) d = (True, m0\<lparr> Embedding := v \<rparr>, js, d1)" "db_ok d1"
    "Get ns i d1 = Inr m'" "SupersededBy m' = Some i"
proof -
  obtain r where r: "find (row_at ns i) (memories d) = Some r" "m0 = scanRow r" using Get_InrD [OF g] by blast
  then have rd: "r \<in> set (memories d)" "c_namespace r = ns" "c_id r = i" by (auto simp: row_at_def dest!: find_Some_set)
  have m0: "Namespace m0 = ns" "ID m0 = i" by (simp_all add: r(2) rd scanRow_def)
  obtain x where x: "x \<in> set (memories d)" "sMemory c = scanRow x"
    using VectorSearch_sound [OF ok s(1), of c] by auto
  have "c_id x = i" using s(2) x(2) by (simp add: scanRow_def)
  then have c: "sMemory c = m0" using unique_row(1) [OF ok rd(1) x(1)] x(2) r(2) rd(3) by simp
  have dc: "dedupCheck w env (m0\<lparr> Embedding := v \<rparr>) d = Folded m0 [JReinforceCorroborate m0] d"
    using s act
    by (cases "filter (\<lambda>x. writeDedupScore w \<le> Score x) cs")
      (auto simp: dedupCheck_def m0 dedup_action_def c Let_def merge_asked_def)
  define d2 where "d2 = reinforceCorroborate (we_now env) m0 d"
  have ok2: "db_ok d2"
    unfolding d2_def by (rule reinforceCorroborate_ok [OF ok])
  obtain m2 where m2: "Get ns i d2 = Inr m2"
    using Get_by_key [of ns i d2] Get_by_key [of ns i d] g by (auto simp: d2_def reinforceCorroborate_keys)
  then obtain d3 where d3: "SetSuperseded (we_wall env) ns i i d2 = Inr d3"
    using sqlite.supersede_iff [OF ok2] by blast
  have "repairDedup w env (m0\<lparr> Embedding := v \<rparr>) d = (True, m0\<lparr> Embedding := v \<rparr>, [JReinforceCorroborate m0], d3)"
    using act d3 dc by (simp add: repairDedup_def m0 d2_def [symmetric])
  moreover obtain m' where "Get ns i d3 = Inr m'" "SupersededBy m' = Some i"
    using sqlite.supersede_get [OF ok2 d3] m2 by (auto simp: superseded_def)
  moreover have "db_ok d3" using sqlite.supersede_wf ok2 d3 by blast
  ultimately show ?thesis using that by blast
qed

lemma repair_supersedes_itself:
  assumes ok: "db_ok d" and g: "Get (RepairRow.rNamespace row) (rID row) d = Inr m0" and live: "SupersededBy m0 = None"
    and v: "GetEmbedding (RepairRow.rNamespace row) (rID row) d = Inr (Some v)" "v \<noteq> []"
    and act: "writeDedupAction w = WriteDedupCoalesce" "0 < writeDedupScore w" "\<not> merge_asked w c cs"
    and s: "VectorSearch (we_engine env) (we_wall env) (RepairRow.rNamespace row) v
        (no_filter\<lparr> fTiers := [mTier m0], ExcludeMetadata := handoffExclusion, Now := we_now env \<rparr>) dedupCandidates d = Inr (c # cs)"
      "hit_id c = rID row" "writeDedupScore w \<le> Score c"
  shows "\<exists>verdict js d' m'. repairEnrich w env row d = (verdict, js, d')
    \<and> Get (RepairRow.rNamespace row) (rID row) d' = Inr m' \<and> SupersededBy m' = Some (rID row)"
proof -
  obtain x xs where vx: "v = x # xs" using v(2) by (cases v) auto
  from self_is_duplicate [OF ok g act s] obtain js d1 m1 where
    d1: "repairDedup w env (m0\<lparr> Embedding := v \<rparr>) d = (True, m0\<lparr> Embedding := v \<rparr>, js, d1)" "db_ok d1"
      "Get (RepairRow.rNamespace row) (rID row) d1 = Inr m1" "SupersededBy m1 = Some (rID row)" .
  obtain b d2 where d2: "SetRepairState (RepairRow.rNamespace row) (rID row) (rFingerprint row) RepairNone d1 = Inr (b, d2)"
    by (simp add: SetRepairState_def ValidRepairState_def Let_def)
  from SetRepairState_superseded [OF this d1(3)] obtain m2 where
    "Get (RepairRow.rNamespace row) (rID row) d2 = Inr m2" "SupersededBy m2 = Some (rID row)" using d1(4) by auto
  then show ?thesis using g live v(1) d1(1) d2 by (cases b) (simp_all add: repairEnrich_def clearRepair_def vx)
qed

end
