(* ===== verification/Repair_Properties.thy ===== *)
theory Repair_Properties
  imports Repair_Worker Write_Properties
begin

text \<open>
  What the deferred-repair worker promises, and what its replayed dedup does to the memory it
  repairs.
\<close>

section \<open>Concrete memories\<close>

definition able_writer :: writer where
  "able_writer = plain_writer\<lparr> embedder := (\<lambda>_. Inr [1, 0]) \<rparr>"

definition coalescing_writer :: writer where
  "coalescing_writer = plain_writer\<lparr> writeDedupAction := WriteDedupCoalesce, writeDedupScore := 1/2 \<rparr>"

definition milk_repairs :: repair_env where
  "milk_repairs = \<lparr> rp_env = milk_env, rp_text = (\<lambda>_. ''''), rp_random = (\<lambda>_. 0) \<rparr>"

abbreviation late_tea :: memory where "late_tea \<equiv> tea\<lparr> EmbedState := RepairPending \<rparr>"

definition late_db :: db where
  "late_db = (empty_db 2)\<lparr> memories := [insert_row 1 late_tea], fts_memories := [fts_row_of 1 late_tea] \<rparr>"

lemma Upsert_late: "Upsert late_tea (empty_db 2) = Inr late_db"
  by (simp add: upsert_eval late_db_def)

lemma late_db_ok: "db_ok late_db"
  using Upsert_ok [OF Upsert_late empty_db_ok] by simp

section \<open>Draining\<close>

text \<open>
  C27: While the embedder works, draining the embedding stage of the repair queue ends: it returns
  without an error after running exactly the memories that were due, each of them then has a
  vector and stands in the enrichment stage, nothing is due any more, and no other memory has
  been touched.
\<close>

theorem drain_repairs_all:
  assumes "db_ok d" and "works w (dims d)"
  shows "\<exists>d'. drain_state w renv RepairPending 0 js d = Some (None, card (due (we_now (rp_env renv)) d), js, d')
    \<and> db_ok d' \<and> due (we_now (rp_env renv)) d' = {}
    \<and> (\<forall>i \<in> due (we_now (rp_env renv)) d. repaired d' i)
    \<and> agree_but (due (we_now (rp_env renv)) d) d d'"
  using drain_repairs [OF assms, of renv 0 js] due_after by fastforce

lemma drain_repairs_all_witness:
  "\<exists>d'. drain_state able_writer milk_repairs RepairPending 0 [] late_db = Some (None, 1, [], d') \<and> repaired d' ''m1''"
proof -
  have w: "works able_writer (dims late_db)" by (simp add: works_def able_writer_def late_db_def empty_db_def)
  have due: "due (we_now (rp_env milk_repairs)) late_db = {''m1''}"
  proof -
    have "memories late_db = [insert_row 1 late_tea]" by (simp add: late_db_def)
    moreover have "claimable RepairPending unix_epoch (insert_row 1 late_tea)"
      by (simp add: claimable_def null_or_def insert_row_def repairDueAt_def UnixMilli_def)
    ultimately have "{r \<in> set (memories late_db). claimable RepairPending unix_epoch r} = {insert_row 1 late_tea}" by auto
    then show ?thesis by (simp add: due_def milk_repairs_def)
  qed
  show ?thesis using drain_repairs_all [OF late_db_ok w, of milk_repairs "[]"] by (auto simp: due)
qed

section \<open>Enrichment\<close>

text \<open>
  C28: The replayed dedup does not leave out the memory that is being repaired. Take a live memory
  that is the best hit of the search for its own stored vector and reaches the dedup score, with
  coalescing on, and the language model not asked to merge (its option is off, no consolidator is
  configured, or no second hit that reaches the score is within 0.05 of the best). It is then
  folded into itself: after the repair it is recorded as superseded by its own id, and so it is no
  longer served, although nothing replaces it.
\<close>

theorem repair_retires_itself:
  assumes "db_ok d" and "Get (RepairRow.rNamespace row) (rID row) d = Inr m" and "SupersededBy m = None"
    and "GetEmbedding (RepairRow.rNamespace row) (rID row) d = Inr (Some v)" and "v \<noteq> []"
    and "writeDedupAction w = WriteDedupCoalesce" and "0 < writeDedupScore w"
    and "\<not> (splitDedupLLMMerge w \<and> consolidator w \<noteq> None
        \<and> (case filter (\<lambda>x. writeDedupScore w \<le> Score x) cs of
             [] \<Rightarrow> False | x # _ \<Rightarrow> Score c - Score x < dedupLLMCloseness))"
    and "VectorSearch (we_engine env) (we_wall env) (RepairRow.rNamespace row) v
      (no_filter\<lparr> fTiers := [mTier m], ExcludeMetadata := handoffExclusion, Now := we_now env \<rparr>) dedupCandidates d = Inr (c # cs)"
    and "hit_id c = rID row" and "writeDedupScore w \<le> Score c"
  shows "\<exists>verdict js d' m'. repairEnrich w env row d = (verdict, js, d')
    \<and> Get (RepairRow.rNamespace row) (rID row) d' = Inr m' \<and> SupersededBy m' = Some (rID row)"
  using repair_supersedes_itself [OF assms(1-7) assms(8) [folded merge_asked_def] assms(9-)] .

lemma repair_retires_itself_witness:
  "\<exists>verdict js d' m'. repairEnrich coalescing_writer milk_env (repair_row_of (insert_row 2 coffee)) coffee_db = (verdict, js, d')
    \<and> Get ''a'' ''m2'' d' = Inr m' \<and> SupersededBy m' = Some ''m2''"
proof -
  let ?row = "repair_row_of (insert_row 2 coffee)"
  have row: "RepairRow.rNamespace ?row = ''a''" "rID ?row = ''m2''" by (simp_all add: repair_row_of_def)
  define m where "m = scanRow (insert_row 2 coffee)"
  define c where "c = \<lparr> sMemory = m, Score = 1, MatchedChunk = [] \<rparr>"
  have m: "Get ''a'' ''m2'' coffee_db = Inr m" "SupersededBy m = None" "mTier m = c_tier (insert_row 2 coffee)" "hit_id c = ''m2''"
    by (simp_all add: Get_def row_at_def m_def c_def scanRow_def)
  have "filterClause sample_engine unix_epoch (no_filter\<lparr> fTiers := [mTier m], ExcludeMetadata := handoffExclusion,
      Now := unix_epoch \<rparr>) (insert_row 2 coffee)"
    by (simp add: filterClause_def no_filter_def m(3) handoffExclusion_def meta_has_def insert_row_def sample_memory_def null_or_def
        UnixMilli_def unix_epoch_def IsZero_def)
  then have s: "VectorSearch (we_engine milk_env) (we_wall milk_env) ''a'' [1, 0]
      (no_filter\<lparr> fTiers := [mTier m], ExcludeMetadata := handoffExclusion, Now := we_now milk_env \<rparr>) dedupCandidates coffee_db
        = Inr [c]"
    by (simp add: VectorSearch_def coffee_db_def tea_db_def empty_db_def join_memories_def knn_def lookup_def sample_engine_def
        distanceToScore_def c_def m_def SliceStable_def map_filter_simps)
  have split_off: "\<not> splitDedupLLMMerge plain_writer" by (simp add: plain_writer_def service.defs)
  have e: "GetEmbedding ''a'' ''m2'' coffee_db = Inr (Some [1, 0])"
    by (simp add: GetEmbedding_def row_at_def coffee_db_def lookup_def)
  show ?thesis
    using repair_retires_itself [of coffee_db ?row m "[1, 0]" coalescing_writer c "[]" milk_env, unfolded row]
      coffee_db_ok m e s by (simp add: coalescing_writer_def c_def split_off)
qed

end
