(* ===== verification/Maintenance.thy ===== *)
theory Maintenance
  imports Service_Steps
begin

text \<open>
  The passes of \<open>internal/maintenance\<close> that walk over the memories: purging the expired, the cap
  on short-term memories, the garbage collection of tombstones, demotion, the activity log, the
  scrub, forgetting by tag, the confidence and importance backfills, and the sweep that composes
  them. A pass answers how many rows it changed, the error that ended it, and the database.
\<close>

section \<open>Walks\<close>

type_synonym outcome = "nat \<times> store_error option \<times> db"

text \<open>One statement of a pass: a row that is gone is not counted and is no error.\<close>

definition tally :: "db \<Rightarrow> store_error + db \<Rightarrow> outcome" where
  "tally d r =
     (case r of
        Inl e \<Rightarrow> (0, if e = ErrNotFound then None else Some e, d)
      | Inr d' \<Rightarrow> (1, None, d'))"

text \<open>A loop that adds up the counts of its rounds and stops at the first error.\<close>

fun walk :: "('a \<Rightarrow> db \<Rightarrow> outcome) \<Rightarrow> 'a list \<Rightarrow> db \<Rightarrow> outcome" where
  "walk f [] d = (0, None, d)"
| "walk f (x # xs) d =
     (case f x d of
        (n, Some e, d1) \<Rightarrow> (n, Some e, d1)
      | (n, None, d1) \<Rightarrow> (case walk f xs d1 of (k, e, d2) \<Rightarrow> (n + k, e, d2)))"

text \<open>The clock of the engine, the engine, the tuning of the scores, and \<open>sort.Slice\<close>.\<close>

record upkeep =
  up_engine :: engine
  up_wall :: Time
  up_tuning :: tuning
  up_sort :: "(memory \<Rightarrow> memory \<Rightarrow> bool) \<Rightarrow> memory list \<Rightarrow> memory list"

abbreviation listed :: "upkeep \<Rightarrow> string \<Rightarrow> Filter \<Rightarrow> db \<Rightarrow> memory list" where
  "listed u ns f d \<equiv> List_memories (up_engine u) (up_wall u) ns f 0 d"

abbreviation whole_namespace :: Filter where
  "whole_namespace \<equiv> no_filter\<lparr> IncludeSuperseded := True, IncludeExpired := True \<rparr>"

section \<open>Expiry\<close>

abbreviation purgeBatch :: nat where "purgeBatch \<equiv> 500"

definition delete_expired :: "Time \<Rightarrow> memory \<Rightarrow> db \<Rightarrow> outcome" where
  "delete_expired now m d = tally d (DeleteIfExpiredBefore (Namespace m) (ID m) now d)"

partial_function (option) purge_loop :: "Time \<Rightarrow> nat \<Rightarrow> db \<Rightarrow> outcome option" where
  "purge_loop now total_count d =
     (case walk (delete_expired now) (ListExpired now (int purgeBatch) d) d of
        (n, Some e, d') \<Rightarrow> Some (total_count + n, Some e, d')
      | (n, None, d') \<Rightarrow>
          if length (ListExpired now (int purgeBatch) d) < purgeBatch then Some (total_count + n, None, d')
          else purge_loop now (total_count + n) d')"

definition PurgeExpired :: "Time \<Rightarrow> db \<Rightarrow> outcome option" where
  "PurgeExpired now d = purge_loop now 0 d"

section \<open>The short-term cap\<close>

abbreviation shortTermTiers :: "Tier list" where "shortTermTiers \<equiv> [TierWorking, TierEpisodic]"

definition delete_one :: "string \<Rightarrow> memory \<Rightarrow> db \<Rightarrow> outcome" where
  "delete_one ns m d = tally d (Delete ns (ID m) d)"

definition cap_namespace :: "upkeep \<Rightarrow> int \<Rightarrow> Time \<Rightarrow> string \<Rightarrow> db \<Rightarrow> outcome" where
  "cap_namespace u cap now ns d =
     (let mems = listed u ns (no_filter\<lparr> fTiers := shortTermTiers \<rparr>) d
      in if int (length mems) \<le> cap then (0, None, d)
         else let ranked = up_sort u (\<lambda>a b. RetentionScore (up_tuning u) a now < RetentionScore (up_tuning u) b now) mems
              in walk (delete_one ns) (take (length mems - nat cap) ranked) d)"

definition EnforceShortTermCap :: "upkeep \<Rightarrow> int \<Rightarrow> Time \<Rightarrow> db \<Rightarrow> outcome" where
  "EnforceShortTermCap u cap now d =
     (if cap \<le> 0 then (0, None, d) else walk (cap_namespace u cap now) (ListNamespaces d) d)"

section \<open>The consistency sweep\<close>

record Report =
  ExpiredPurged :: nat
  ShortTermEvicted :: nat
  Namespaces :: nat
  DuplicateGroups :: "string list list"

text \<open>The ids of the memories by a key, in the order of the first of each key.\<close>

definition groups_of :: "('a \<Rightarrow> string) \<Rightarrow> ('a \<Rightarrow> string) \<Rightarrow> 'a list \<Rightarrow> string list list" where
  "groups_of key name xs = map (\<lambda>k. map name (filter (\<lambda>x. key x = k) xs)) (remdups (map key xs))"

definition duplicate_groups :: "upkeep \<Rightarrow> string \<Rightarrow> db \<Rightarrow> string list list" where
  "duplicate_groups u ns d =
     filter (\<lambda>ids. 1 < length ids) (groups_of (\<lambda>m. NormalizeContent (Content m)) ID (listed u ns no_filter d))"

definition Fsck :: "upkeep \<Rightarrow> int \<Rightarrow> Time \<Rightarrow> db \<Rightarrow> (Report \<times> store_error option \<times> db) option" where
  "Fsck u cap now d =
     (case PurgeExpired now d of
        None \<Rightarrow> None
      | Some (n, Some e, d1) \<Rightarrow>
          Some (\<lparr> ExpiredPurged = 0, ShortTermEvicted = 0, Namespaces = 0, DuplicateGroups = [] \<rparr>, Some e, d1)
      | Some (n, None, d1) \<Rightarrow>
          (case EnforceShortTermCap u cap now d1 of
             (k, Some e, d2) \<Rightarrow>
               Some (\<lparr> ExpiredPurged = n, ShortTermEvicted = 0, Namespaces = 0, DuplicateGroups = [] \<rparr>, Some e, d2)
           | (k, None, d2) \<Rightarrow>
               Some (\<lparr> ExpiredPurged = n, ShortTermEvicted = k, Namespaces = length (ListNamespaces d2),
                       DuplicateGroups = concat (map (\<lambda>ns. duplicate_groups u ns d2) (ListNamespaces d2)) \<rparr>,
                     None, d2)))"

section \<open>Tombstones\<close>

definition tombstonedAt :: "memory \<Rightarrow> Time" where
  "tombstonedAt m = (case ValidTo m of Some t \<Rightarrow> t | None \<Rightarrow> UpdatedAt m)"

definition purge_tombstone :: "Time \<Rightarrow> string \<Rightarrow> memory \<Rightarrow> db \<Rightarrow> outcome" where
  "purge_tombstone olderThan ns m d =
     (if SupersededBy m = None then (0, None, d)
      else if \<not> Before (tombstonedAt m) olderThan then (0, None, d)
      else delete_one ns m d)"

definition PurgeTombstones :: "upkeep \<Rightarrow> Time \<Rightarrow> db \<Rightarrow> outcome" where
  "PurgeTombstones u olderThan d =
     walk (\<lambda>ns d. walk (purge_tombstone olderThan ns) (listed u ns whole_namespace d) d) (ListNamespaces d) d"

section \<open>Demotion\<close>

abbreviation PinnedTag :: string where "PinnedTag \<equiv> ''pinned''"
abbreviation longTermTiers :: "Tier list" where "longTermTiers \<equiv> [TierSemantic, TierProcedural]"

definition demotes :: "Time \<Rightarrow> Time \<Rightarrow> memory \<Rightarrow> bool" where
  "demotes olderThan now m \<longleftrightarrow>
     \<not> (0 < AccessCount m \<or> 0.75 \<le> Importance m)
     \<and> Before (UpdatedAt m) olderThan
     \<and> EffectiveConfidence m now < ConfidenceDemoteFloor
     \<and> \<not> (PinnedTag \<in> set (Tags m) \<or> HandoffTag \<in> set (Tags m))"

definition demote_one :: "Time \<Rightarrow> Time \<Rightarrow> string \<Rightarrow> memory \<Rightarrow> db \<Rightarrow> outcome" where
  "demote_one olderThan now ns m d =
     (if \<not> demotes olderThan now m then (0, None, d)
      else tally d (Retier ns (ID m) TierEpisodic (Some (now + DefaultTTL TierEpisodic)) d))"

definition DemoteStale :: "upkeep \<Rightarrow> Time \<Rightarrow> Time \<Rightarrow> db \<Rightarrow> outcome" where
  "DemoteStale u olderThan now d =
     walk (\<lambda>ns d. walk (demote_one olderThan now ns) (listed u ns (no_filter\<lparr> fTiers := longTermTiers, Now := now \<rparr>) d) d)
       (ListNamespaces d) d"

section \<open>The activity log\<close>

definition prune_events :: "Time \<Rightarrow> Duration \<Rightarrow> int \<Rightarrow> db \<Rightarrow> nat \<times> db" where
  "prune_events now retention maxRows d =
     (let olderThan = (if 0 < retention then now - retention else 0)
      in if IsZero olderThan \<and> maxRows \<le> 0 then (0, d) else PruneEvents olderThan maxRows d)"

section \<open>The sweep\<close>

record SweeperConfig =
  ShortTermCap :: int
  TombstoneTTL :: Duration
  DemoteAfter :: Duration
  ActivityRetention :: Duration
  ActivityMaxRows :: int

abbreviation after_pass :: "outcome \<Rightarrow> db" where
  "after_pass r \<equiv> snd (snd r)"

definition sweep :: "upkeep \<Rightarrow> SweeperConfig \<Rightarrow> Time \<Rightarrow> db \<Rightarrow> db option" where
  "sweep u cfg now d =
     (case PurgeExpired now d of
        None \<Rightarrow> None
      | Some r1 \<Rightarrow>
          let d2 = after_pass (EnforceShortTermCap u (ShortTermCap cfg) now (after_pass r1));
              d3 = (if 0 < TombstoneTTL cfg then after_pass (PurgeTombstones u (now - TombstoneTTL cfg) d2) else d2);
              d4 = (if 0 < DemoteAfter cfg then after_pass (DemoteStale u (now - DemoteAfter cfg) now d3) else d3)
          in Some (snd (prune_events now (ActivityRetention cfg) (ActivityMaxRows cfg) d4)))"

section \<open>Forgetting by tag\<close>

definition forget_tagged :: "string \<Rightarrow> string \<Rightarrow> memory \<Rightarrow> db \<Rightarrow> outcome" where
  "forget_tagged ns tag m d = (if tag \<notin> set (Tags m) then (0, None, d) else delete_one ns m d)"

definition ForgetByTag :: "upkeep \<Rightarrow> string \<Rightarrow> string \<Rightarrow> db \<Rightarrow> outcome" where
  "ForgetByTag u ns tag d = walk (forget_tagged ns tag) (listed u ns whole_namespace d) d"

section \<open>The scrub\<close>

record ScrubReport =
  LifecycleNoise :: nat
  ExactDuplicates :: nat
  sNamespaces :: nat

definition lifecycleNoisePrefixes :: "string list" where
  "lifecycleNoisePrefixes = [''session ended in '', ''stop checkpoint in '']"

definition isLifecycleNoise :: "string \<Rightarrow> bool" where
  "isLifecycleNoise normalized \<longleftrightarrow> list_ex (\<lambda>p. HasPrefix normalized p) lifecycleNoisePrefixes"

definition scrub_less :: "memory \<Rightarrow> memory \<Rightarrow> bool" where
  "scrub_less a b = (if CreatedAt a \<noteq> CreatedAt b then CreatedAt a < CreatedAt b else ID a < ID b)"

definition scrub_key :: "memory \<Rightarrow> string" where
  "scrub_key m = mTier m @ CHR 0x00 # NormalizeContent (Content m)"

definition scrub_delete :: "bool \<Rightarrow> string \<Rightarrow> string \<Rightarrow> db \<Rightarrow> store_error + db" where
  "scrub_delete doit ns i d =
     (if \<not> doit then Inr d
      else (case Delete ns i d of
              Inl e \<Rightarrow> if e = ErrNotFound then Inr d else Inl e
            | Inr d' \<Rightarrow> Inr d'))"

text \<open>The noise and the duplicates found, the error, the database; \<open>seen\<close> holds the keys met.\<close>

fun scrub_rows :: "bool \<Rightarrow> string \<Rightarrow> string list \<Rightarrow> memory list \<Rightarrow> db \<Rightarrow> nat \<times> nat \<times> store_error option \<times> db" where
  "scrub_rows doit ns seen [] d = (0, 0, None, d)"
| "scrub_rows doit ns seen (m # rest) d =
     (if isLifecycleNoise (NormalizeContent (Content m)) then
        (case scrub_delete doit ns (ID m) d of
           Inl e \<Rightarrow> (0, 0, Some e, d)
         | Inr d' \<Rightarrow> (case scrub_rows doit ns seen rest d' of (a, b, e, d'') \<Rightarrow> (Suc a, b, e, d'')))
      else if scrub_key m \<in> set seen then
        (case scrub_delete doit ns (ID m) d of
           Inl e \<Rightarrow> (0, 0, Some e, d)
         | Inr d' \<Rightarrow> (case scrub_rows doit ns seen rest d' of (a, b, e, d'') \<Rightarrow> (a, Suc b, e, d'')))
      else scrub_rows doit ns (scrub_key m # seen) rest d)"

fun scrub_namespaces :: "upkeep \<Rightarrow> bool \<Rightarrow> string list \<Rightarrow> db \<Rightarrow> nat \<times> nat \<times> store_error option \<times> db" where
  "scrub_namespaces u doit [] d = (0, 0, None, d)"
| "scrub_namespaces u doit (ns # rest) d =
     (case scrub_rows doit ns [] (SliceStable scrub_less (listed u ns no_filter d)) d of
        (a, b, Some e, d') \<Rightarrow> (a, b, Some e, d')
      | (a, b, None, d') \<Rightarrow>
          (case scrub_namespaces u doit rest d' of (a', b', e, d'') \<Rightarrow> (a + a', b + b', e, d'')))"

definition Scrub :: "upkeep \<Rightarrow> bool \<Rightarrow> db \<Rightarrow> ScrubReport \<times> store_error option \<times> db" where
  "Scrub u doit d =
     (case scrub_namespaces u doit (ListNamespaces d) d of
        (a, b, e, d') \<Rightarrow>
          (\<lparr> LifecycleNoise = a, ExactDuplicates = b, sNamespaces = length (ListNamespaces d) \<rparr>, e, d'))"

end
