(* ===== verification/Cluster_Dedup.thy ===== *)
theory Cluster_Dedup
  imports Maintenance
begin

text \<open>
  The clustering dedup of \<open>internal/maintenance/dedup.go\<close> with its union-find, and the repair of
  broken supersession chains of \<open>repair.go\<close>. The union-find is the code's: a map of parents with
  path compression, whose search is a partial function. The lemmas show that it computes the
  connected components of the pairs that were joined.
\<close>

section \<open>Union-find\<close>

type_synonym parents = "string \<rightharpoonup> string"

definition newUnionFind :: "string list \<Rightarrow> parents" where
  "newUnionFind ids = (\<lambda>x. if x \<in> set ids then Some x else None)"

text \<open>A missing key reads as the empty string, as in a Go map.\<close>

definition parent_of :: "parents \<Rightarrow> string \<Rightarrow> string" where
  "parent_of p x = (case p x of None \<Rightarrow> '''' | Some y \<Rightarrow> y)"

partial_function (option) uf_find :: "string \<Rightarrow> parents \<Rightarrow> (string \<times> parents) option" where
  "uf_find x p =
     (if parent_of p x \<noteq> x
      then Option.bind (uf_find (parent_of p x) p) (\<lambda>(r, p'). Some (r, p'(x \<mapsto> r)))
      else Some (x, p))"

definition uf_union :: "string \<Rightarrow> string \<Rightarrow> parents \<Rightarrow> parents option" where
  "uf_union x y p =
     Option.bind (uf_find x p) (\<lambda>(rx, p1).
     Option.bind (uf_find y p1) (\<lambda>(ry, p2).
     Some (if rx \<noteq> ry then p2(rx \<mapsto> ry) else p2)))"

section \<open>Options and reports\<close>

datatype pass_error = PassEmbed embed_error | PassStore store_error | PassPanic | PassNoEmbedder

record batch_embedder =
  Embed :: "string list \<Rightarrow> embed_error + vec list"
  Dims :: nat

record DedupOptions =
  Similarity :: real
  MinClusterSize :: int
  dTiers :: "Tier list"
  dNamespaces :: "string list"
  NeighboursPerAnchor :: int
  dDryRun :: bool
  dNow :: Time
  Merger :: "(string list \<Rightarrow> string option) option"
  MaxMergeClusterSize :: int

record ClusterAction =
  RepresentativeID :: string
  TombstonedIDs :: "string list"
  cSize :: nat

record DedupReport =
  rNamespaces :: nat
  MemoriesSeen :: nat
  ClustersFound :: nat
  Tombstoned :: nat
  rDryRun :: bool
  Actions :: "ClusterAction list"

record nsDedup =
  memoriesSeen :: nat
  clustersFound :: nat
  tombstoned :: nat
  actions :: "ClusterAction list"

definition no_dedup :: nsDedup where
  "no_dedup = \<lparr> memoriesSeen = 0, clustersFound = 0, tombstoned = 0, actions = [] \<rparr>"

section \<open>Clusters\<close>

definition betterRepresentative :: "tuning \<Rightarrow> Time \<Rightarrow> memory \<Rightarrow> memory \<Rightarrow> bool" where
  "betterRepresentative tun now a b =
     (let ra = RetentionScore tun a now; rb = RetentionScore tun b now
      in if ra \<noteq> rb then rb < ra
         else if UpdatedAt a \<noteq> UpdatedAt b then After (UpdatedAt a) (UpdatedAt b)
         else After (CreatedAt a) (CreatedAt b))"

text \<open>The neighbours of an anchor that are joined with it, best first.\<close>

definition joined_hits :: "real \<Rightarrow> string \<Rightarrow> Scored list \<Rightarrow> string list" where
  "joined_hits sim anchor cands =
     map hit_id (takeWhile (\<lambda>c. sim \<le> Score c) (filter (\<lambda>c. hit_id c \<noteq> anchor) cands))"

fun join_all :: "string \<Rightarrow> string list \<Rightarrow> parents \<Rightarrow> parents option" where
  "join_all a [] p = Some p"
| "join_all a (b # bs) p =
     (if p b = None then join_all a bs p else Option.bind (uf_union a b p) (join_all a bs))"

text \<open>The anchors with their vectors; a vector that is missing or of another width is skipped.\<close>

fun link_anchors ::
    "(vec \<Rightarrow> store_error + Scored list) \<Rightarrow> nat \<Rightarrow> real \<Rightarrow> memory list \<Rightarrow> vec list \<Rightarrow> parents
      \<Rightarrow> (store_error + parents) option" where
  "link_anchors search n sim [] vecs p = Some (Inr p)"
| "link_anchors search n sim (m # rest) vecs p =
     (case vecs of
        [] \<Rightarrow> link_anchors search n sim rest [] p
      | v # vs \<Rightarrow>
          if v = [] \<or> length v \<noteq> n then link_anchors search n sim rest vs p
          else (case search v of
                  Inl e \<Rightarrow> Some (Inl e)
                | Inr cands \<Rightarrow>
                    Option.bind (join_all (ID m) (joined_hits sim (ID m) cands) p) (link_anchors search n sim rest vs)))"

fun roots_of :: "string list \<Rightarrow> parents \<Rightarrow> (string list \<times> parents) option" where
  "roots_of [] p = Some ([], p)"
| "roots_of (x # xs) p =
     Option.bind (uf_find x p) (\<lambda>(r, p1). Option.bind (roots_of xs p1) (\<lambda>(rs, p2). Some (r # rs, p2)))"

text \<open>
  The components, in the order of their first members. The code visits them in the order of a Go
  map; they are disjoint.
\<close>

definition components_by :: "string list \<Rightarrow> 'a list \<Rightarrow> 'a list list" where
  "components_by roots xs = map (\<lambda>k. map snd (filter (\<lambda>(r, x). r = k) (zip roots xs))) (remdups roots)"

text \<open>The representative with the merged content, and the database.\<close>

definition mergeCluster ::
    "batch_embedder \<Rightarrow> DedupOptions \<Rightarrow> memory \<Rightarrow> memory list \<Rightarrow> db \<Rightarrow> pass_error + memory \<times> db" where
  "mergeCluster emb opts keep cluster d =
     (case Merger opts of
        None \<Rightarrow> Inr (keep, d)
      | Some merge \<Rightarrow>
          if length cluster < 2 then Inr (keep, d)
          else
            (let cap = (if MaxMergeClusterSize opts \<le> 0 then 10 else nat (MaxMergeClusterSize opts))
             in case merge (map Content (take cap cluster)) of
                  None \<Rightarrow> Inr (keep, d)
                | Some merged \<Rightarrow>
                    if merged = '''' \<or> merged = Content keep then Inr (keep, d)
                    else (case Embed emb [merged] of
                            Inl e \<Rightarrow> Inr (keep, d)
                          | Inr [] \<Rightarrow> Inl PassPanic
                          | Inr (v # _) \<Rightarrow>
                              let keep' = keep\<lparr> Content := merged, Embedding := v, UpdatedAt := dNow opts \<rparr>
                              in Inr (keep', if dDryRun opts then d
                                             else case Upsert keep' d of Inl _ \<Rightarrow> d | Inr d' \<Rightarrow> d'))))"

definition supersede_one :: "Time \<Rightarrow> string \<Rightarrow> string \<Rightarrow> memory \<Rightarrow> db \<Rightarrow> outcome" where
  "supersede_one wall ns keep m d = tally d (SetSuperseded wall ns (ID m) keep d)"

definition add_cluster :: "memory \<Rightarrow> memory list \<Rightarrow> nsDedup \<Rightarrow> nsDedup" where
  "add_cluster keep rest res =
     res\<lparr> clustersFound := clustersFound res + 1,
          actions := actions res @ [\<lparr> RepresentativeID = ID keep, TombstonedIDs = map ID rest, cSize = length rest + 1 \<rparr>] \<rparr>"

definition add_tombstones :: "nat \<Rightarrow> nsDedup \<Rightarrow> nsDedup" where
  "add_tombstones n res = res\<lparr> tombstoned := tombstoned res + n \<rparr>"

fun retire_clusters ::
    "upkeep \<Rightarrow> batch_embedder \<Rightarrow> DedupOptions \<Rightarrow> string \<Rightarrow> memory list list \<Rightarrow> nsDedup \<Rightarrow> db
      \<Rightarrow> nsDedup \<times> pass_error option \<times> db" where
  "retire_clusters u emb opts ns [] res d = (res, None, d)"
| "retire_clusters u emb opts ns (cluster # rest) res d =
     (if int (length cluster) < MinClusterSize opts then retire_clusters u emb opts ns rest res d
      else (case SliceStable (betterRepresentative (up_tuning u) (dNow opts)) cluster of
              [] \<Rightarrow> (res, Some PassPanic, d)
            | keep # losers \<Rightarrow>
                (let res1 = add_cluster keep losers res
                 in case mergeCluster emb opts keep (keep # losers) d of
                      Inl e \<Rightarrow> (res1, Some e, d)
                    | Inr (keep', d1) \<Rightarrow>
                        if dDryRun opts
                        then retire_clusters u emb opts ns rest (add_tombstones (length losers) res1) d1
                        else (case walk (supersede_one (up_wall u) ns (ID keep')) losers d1 of
                                (n, Some e, d2) \<Rightarrow> (add_tombstones n res1, Some (PassStore e), d2)
                              | (n, None, d2) \<Rightarrow> retire_clusters u emb opts ns rest (add_tombstones n res1) d2))))"

section \<open>A namespace and the pass\<close>

definition dedup_filter :: "DedupOptions \<Rightarrow> Filter" where
  "dedup_filter opts = no_filter\<lparr> fTiers := dTiers opts, Now := dNow opts \<rparr>"

definition live_snapshot :: "upkeep \<Rightarrow> DedupOptions \<Rightarrow> string \<Rightarrow> db \<Rightarrow> memory list" where
  "live_snapshot u opts ns d = filter (\<lambda>m. \<not> Expired m (dNow opts)) (listed u ns (dedup_filter opts) d)"

definition dedupNamespace ::
    "upkeep \<Rightarrow> batch_embedder \<Rightarrow> DedupOptions \<Rightarrow> string \<Rightarrow> db \<Rightarrow> (nsDedup \<times> pass_error option \<times> db) option" where
  "dedupNamespace u emb opts ns d =
     (let mems = live_snapshot u opts ns d
      in if int (length mems) < MinClusterSize opts then Some (no_dedup, None, d)
         else
           (let res = no_dedup\<lparr> memoriesSeen := length mems \<rparr>
            in case Embed emb (map Content mems) of
                 Inl e \<Rightarrow> Some (res, Some (PassEmbed e), d)
               | Inr vecs \<Rightarrow>
                   Option.bind
                     (link_anchors
                       (\<lambda>v. VectorSearch (up_engine u) (up_wall u) ns v (dedup_filter opts) (nat (NeighboursPerAnchor opts)) d)
                       (Dims emb) (Similarity opts) mems vecs (newUnionFind (map ID mems)))
                     (\<lambda>r. case r of
                            Inl e \<Rightarrow> Some (res, Some (PassStore e), d)
                          | Inr p \<Rightarrow>
                              Option.bind (roots_of (map ID mems) p)
                                (\<lambda>(roots, p'). Some (retire_clusters u emb opts ns (components_by roots mems) res d)))))"

definition with_defaults :: "Time \<Rightarrow> DedupOptions \<Rightarrow> DedupOptions" where
  "with_defaults now opts =
     opts\<lparr> Similarity := (if Similarity opts = 0 then 0.85 else Similarity opts),
           MinClusterSize := (if MinClusterSize opts < 2 then 2 else MinClusterSize opts),
           NeighboursPerAnchor := (if NeighboursPerAnchor opts \<le> 0 then 20 else NeighboursPerAnchor opts),
           dNow := (if IsZero (dNow opts) then now else dNow opts) \<rparr>"

definition add_namespace :: "nsDedup \<Rightarrow> DedupReport \<Rightarrow> DedupReport" where
  "add_namespace res rep =
     rep\<lparr> rNamespaces := rNamespaces rep + 1, MemoriesSeen := MemoriesSeen rep + memoriesSeen res,
          ClustersFound := ClustersFound rep + clustersFound res, Tombstoned := Tombstoned rep + tombstoned res,
          Actions := Actions rep @ actions res \<rparr>"

fun dedup_namespaces ::
    "upkeep \<Rightarrow> batch_embedder \<Rightarrow> DedupOptions \<Rightarrow> bool \<Rightarrow> string list \<Rightarrow> DedupReport \<Rightarrow> db
      \<Rightarrow> (DedupReport \<times> pass_error option \<times> db) option" where
  "dedup_namespaces u emb opts scoped [] rep d = Some (rep, None, d)"
| "dedup_namespaces u emb opts scoped (ns # rest) rep d =
     Option.bind (dedupNamespace u emb opts ns d)
       (\<lambda>(res, err, d').
          case err of
            Some e \<Rightarrow>
              if scoped \<or> e = PassPanic then Some (rep, Some e, d')
              else dedup_namespaces u emb opts scoped rest rep d'
          | None \<Rightarrow>
              dedup_namespaces u emb opts scoped rest
                (if memoriesSeen res = 0 then rep else add_namespace res rep) d')"

definition empty_report :: "bool \<Rightarrow> DedupReport" where
  "empty_report dry = \<lparr> rNamespaces = 0, MemoriesSeen = 0, ClustersFound = 0, Tombstoned = 0, rDryRun = dry, Actions = [] \<rparr>"

definition Dedup_clusters ::
    "upkeep \<Rightarrow> batch_embedder \<Rightarrow> DedupOptions \<Rightarrow> Time \<Rightarrow> db \<Rightarrow> (DedupReport \<times> pass_error option \<times> db) option" where
  "Dedup_clusters u emb opts0 now d =
     (if Similarity opts0 < 0 then Some (empty_report False, None, d)
      else
        (let opts = with_defaults now opts0;
             namespaces = (if dNamespaces opts = [] then ListNamespaces d else dNamespaces opts)
         in dedup_namespaces u emb opts (length namespaces = 1) namespaces (empty_report (dDryRun opts)) d))"

section \<open>Broken supersession chains\<close>

text \<open>The ids of a namespace; a later row of an id replaces an earlier one, as in a Go map.\<close>

definition by_id :: "memory list \<Rightarrow> string \<rightharpoonup> memory" where
  "by_id mems = map_of (rev (map (\<lambda>m. (ID m, m)) mems))"

lemma by_id_Some: "by_id mems k = Some m \<Longrightarrow> m \<in> set mems \<and> ID m = k"
  by (auto simp: by_id_def dest!: map_of_SomeD)

function reaches_loop :: "memory list \<Rightarrow> string list \<Rightarrow> memory \<Rightarrow> bool" where
  "reaches_loop mems seen m =
     (case SupersededBy m of
        None \<Rightarrow> True
      | Some k \<Rightarrow>
          if ID m \<in> set seen then False
          else (case by_id mems k of
                  None \<Rightarrow> False
                | Some m' \<Rightarrow> reaches_loop mems (ID m # seen) m'))"
  by pat_completeness auto

termination
proof (relation "measure (\<lambda>(mems, seen, m). card (insert (ID m) (ID ` set mems) - set seen))", simp)
  fix mems seen k and m m' :: memory
  assume a: "SupersededBy m = Some k" "ID m \<notin> set seen" "by_id mems k = Some m'"
  have "insert (ID m') (ID ` set mems) - set (ID m # seen) \<subset> insert (ID m) (ID ` set mems) - set seen"
    using a(2) by_id_Some [OF a(3)] by auto
  then show "((mems, ID m # seen, m'), mems, seen, m) \<in> measure (\<lambda>(mems, seen, m). card (insert (ID m) (ID ` set mems) - set seen))"
    by (simp add: psubset_card_mono)
qed

declare reaches_loop.simps [simp del]

definition reachesLive :: "memory list \<Rightarrow> memory \<Rightarrow> bool" where
  "reachesLive mems m = reaches_loop mems [] m"

definition stranded :: "memory list \<Rightarrow> memory list" where
  "stranded mems = filter (\<lambda>m. SupersededBy m \<noteq> None \<and> \<not> reachesLive mems m) mems"

definition restore_one :: "bool \<Rightarrow> string \<Rightarrow> memory \<Rightarrow> db \<Rightarrow> outcome" where
  "restore_one dry ns m d =
     (if dry then (1, None, d)
      else (case Restore ns (ID m) d of
              Inl e \<Rightarrow> (1, if e = ErrNotFound then None else Some e, d)
            | Inr d' \<Rightarrow> (1, None, d')))"

definition repairNamespace :: "upkeep \<Rightarrow> bool \<Rightarrow> string \<Rightarrow> db \<Rightarrow> outcome" where
  "repairNamespace u dry ns d = walk (restore_one dry ns) (stranded (listed u ns whole_namespace d)) d"

record RepairReport =
  Restored :: nat
  pNamespaces :: nat

fun repair_namespaces :: "upkeep \<Rightarrow> bool \<Rightarrow> string list \<Rightarrow> RepairReport \<Rightarrow> db \<Rightarrow> RepairReport \<times> db" where
  "repair_namespaces u dry [] rep d = (rep, d)"
| "repair_namespaces u dry (ns # rest) rep d =
     (case repairNamespace u dry ns d of
        (n, Some e, d') \<Rightarrow> repair_namespaces u dry rest rep d'
      | (n, None, d') \<Rightarrow>
          repair_namespaces u dry rest
            (if 0 < n then \<lparr> Restored = Restored rep + n, pNamespaces = pNamespaces rep + 1 \<rparr> else rep) d')"

definition RepairSupersession :: "upkeep \<Rightarrow> string list \<Rightarrow> bool \<Rightarrow> db \<Rightarrow> RepairReport \<times> db" where
  "RepairSupersession u namespaces dry d =
     repair_namespaces u dry (if namespaces = [] then ListNamespaces d else namespaces)
       \<lparr> Restored = 0, pNamespaces = 0 \<rparr> d"

text \<open>One pass of the periodic job: the dedup, then the repair unless the dedup failed.\<close>

definition pass :: "upkeep \<Rightarrow> batch_embedder \<Rightarrow> DedupOptions \<Rightarrow> Time \<Rightarrow> db \<Rightarrow> db option" where
  "pass u emb opts now d =
     (case Dedup_clusters u emb (opts\<lparr> dNow := now \<rparr>) now d of
        None \<Rightarrow> None
      | Some (rep, Some e, d') \<Rightarrow> Some d'
      | Some (rep, None, d') \<Rightarrow> Some (snd (RepairSupersession u (dNamespaces opts) False d')))"

end
