(* ===== verification/Maintenance_Passes.thy ===== *)
theory Maintenance_Passes
  imports Cluster_Dedup Namespaces Go_Strings
begin

text \<open>
  The other passes of \<open>internal/maintenance\<close>: the confidence and importance backfills
  (\<open>backfill.go\<close>, \<open>assess.go\<close>), re-embedding (\<open>reembed.go\<close>), moves and splits of namespaces
  (\<open>renamespace.go\<close>) and the migration of the old shared scopes (\<open>scopes.go\<close>).
\<close>

section \<open>Confidence\<close>

record BackfillConfidenceReport =
  Inspected :: nat
  Seeded :: nat
  Skipped :: nat

definition backfill_row ::
    "bool \<Rightarrow> Time \<Rightarrow> string \<Rightarrow> memory \<Rightarrow> BackfillConfidenceReport \<times> db \<Rightarrow> store_error + BackfillConfidenceReport \<times> db" where
  "backfill_row doit now ns m s =
     (let rep = (fst s)\<lparr> Inspected := Inspected (fst s) + 1 \<rparr>; d = snd s
      in if Confidence m \<noteq> None then Inr (rep\<lparr> Skipped := Skipped rep + 1 \<rparr>, d)
         else if \<not> doit then Inr (rep\<lparr> Seeded := Seeded rep + 1 \<rparr>, d)
         else (case SetConfidence ns (ID m) ConfidenceSeedImported now d of
                 Inl e \<Rightarrow> if e = ErrNotFound then Inr (rep\<lparr> Skipped := Skipped rep + 1 \<rparr>, d) else Inl e
               | Inr d' \<Rightarrow> Inr (rep\<lparr> Seeded := Seeded rep + 1 \<rparr>, d')))"

fun fold_until :: "('a \<Rightarrow> 's \<Rightarrow> 'e + 's) \<Rightarrow> 'a list \<Rightarrow> 's \<Rightarrow> 'e option \<times> 's" where
  "fold_until f [] s = (None, s)"
| "fold_until f (x # xs) s = (case f x s of Inl e \<Rightarrow> (Some e, s) | Inr s' \<Rightarrow> fold_until f xs s')"

definition backfill_namespace ::
    "upkeep \<Rightarrow> bool \<Rightarrow> Time \<Rightarrow> string \<Rightarrow> BackfillConfidenceReport \<times> db
      \<Rightarrow> (store_error \<times> BackfillConfidenceReport \<times> db) + BackfillConfidenceReport \<times> db" where
  "backfill_namespace u doit now ns s =
     (case fold_until (backfill_row doit now ns) (listed u ns (no_filter\<lparr> fTiers := longTermTiers \<rparr>) (snd s)) s of
        (Some e, s') \<Rightarrow> Inl (e, s')
      | (None, s') \<Rightarrow> Inr s')"

definition backfillConfidence ::
    "upkeep \<Rightarrow> Time \<Rightarrow> bool \<Rightarrow> db \<Rightarrow> store_error option \<times> BackfillConfidenceReport \<times> db" where
  "backfillConfidence u now doit d =
     (case fold_until (backfill_namespace u doit now) (ListNamespaces d) (\<lparr> Inspected = 0, Seeded = 0, Skipped = 0 \<rparr>, d) of
        (Some (e, s), _) \<Rightarrow> (Some e, s)
      | (None, s) \<Rightarrow> (None, s))"

section \<open>Assessed importance\<close>

record AssessOptions =
  Batch :: int
  MaxPerRun :: int
  MinAge :: Duration

record assessCandidate =
  acNamespace :: string
  acID :: string
  acContent :: string
  acCreatedAt :: Time

abbreviation minAssessedImportance :: real where "minAssessedImportance \<equiv> 0.1"
abbreviation maxAssessedImportance :: real where "maxAssessedImportance \<equiv> 0.9"

definition clampAssessed :: "real \<Rightarrow> real" where
  "clampAssessed v =
     (if v < minAssessedImportance then minAssessedImportance
      else if maxAssessedImportance < v then maxAssessedImportance else v)"

definition assess_defaults :: "AssessOptions \<Rightarrow> AssessOptions" where
  "assess_defaults o' =
     \<lparr> Batch = (if Batch o' \<le> 0 then 20 else Batch o'),
       MaxPerRun = (if MaxPerRun o' \<le> 0 then 200 else MaxPerRun o'),
       MinAge = (if MinAge o' \<le> 0 then Hour else MinAge o') \<rparr>"

definition assessable_row :: "AssessOptions \<Rightarrow> Time \<Rightarrow> memory \<Rightarrow> bool" where
  "assessable_row o' now m \<longleftrightarrow>
     AssessedImportance m = None \<and> MinAge o' < Sub now (CreatedAt m) \<and> Importance m = SeedImportance (mTier m)"

definition assess_candidate_of :: "string \<Rightarrow> memory \<Rightarrow> assessCandidate" where
  "assess_candidate_of ns m = \<lparr> acNamespace = ns, acID = ID m, acContent = Content m, acCreatedAt = CreatedAt m \<rparr>"

definition assessCandidates :: "upkeep \<Rightarrow> AssessOptions \<Rightarrow> Time \<Rightarrow> db \<Rightarrow> assessCandidate list" where
  "assessCandidates u o' now d =
     (let cands = concat (map (\<lambda>ns. map (assess_candidate_of ns) (filter (assessable_row o' now)
                    (listed u ns (no_filter\<lparr> fTiers := longTermTiers, Now := now \<rparr>) d))) (ListNamespaces d))
      in take (nat (MaxPerRun o')) (SliceStable (\<lambda>a b. acCreatedAt a < acCreatedAt b) cands))"

definition assess_one :: "Time \<Rightarrow> assessCandidate \<times> real option \<Rightarrow> db \<Rightarrow> outcome" where
  "assess_one now cs d =
     (case snd cs of
        None \<Rightarrow> (0, None, d)
      | Some v \<Rightarrow> tally d (SetAssessedImportance (acNamespace (fst cs)) (acID (fst cs)) (clampAssessed v) now d))"

definition persistAssessments :: "Time \<Rightarrow> assessCandidate list \<Rightarrow> real option list \<Rightarrow> db \<Rightarrow> outcome" where
  "persistAssessments now batch scores d = walk (assess_one now) (zip batch scores) d"

text \<open>The model's scores, nothing when it fails; \<open>first\<close> marks the first batch.\<close>

type_synonym assessor = "string list \<Rightarrow> real option list option"

function assess_batches :: "assessor \<Rightarrow> nat \<Rightarrow> Time \<Rightarrow> bool \<Rightarrow> assessCandidate list \<Rightarrow> db \<Rightarrow> outcome" where
  "assess_batches a n now first cands d =
     (if cands = [] \<or> n = 0 then (0, None, d)
      else
        (let batch = take n cands;
             answer = (case a (map acContent batch) of
                         None \<Rightarrow> None
                       | Some scores \<Rightarrow> if length scores \<noteq> length batch then None else Some scores)
         in case answer of
              None \<Rightarrow> if first then (0, None, d) else assess_batches a n now False (drop n cands) d
            | Some scores \<Rightarrow>
                (case persistAssessments now batch scores d of
                   (k, Some e, d') \<Rightarrow> (k, Some e, d')
                 | (k, None, d') \<Rightarrow>
                     (case assess_batches a n now False (drop n cands) d' of (j, e, d'') \<Rightarrow> (k + j, e, d'')))))"
  by pat_completeness auto

termination
  by (relation "measure (\<lambda>(a, n, now, first, cands, d). length cands)") auto

declare assess_batches.simps [simp del]

definition AssessImportanceBackfill :: "upkeep \<Rightarrow> assessor option \<Rightarrow> AssessOptions \<Rightarrow> Time \<Rightarrow> db \<Rightarrow> outcome" where
  "AssessImportanceBackfill u ao opts now d =
     (case ao of
        None \<Rightarrow> (0, None, d)
      | Some a \<Rightarrow>
          (let o' = assess_defaults opts
           in assess_batches a (nat (Batch o')) now True (assessCandidates u o' now d) d))"

definition AssessImportancePreview :: "upkeep \<Rightarrow> AssessOptions \<Rightarrow> Time \<Rightarrow> db \<Rightarrow> nat" where
  "AssessImportancePreview u opts now d = length (assessCandidates u (assess_defaults opts) now d)"

section \<open>Re-embedding\<close>

record ReembedReport =
  eNamespaces :: nat
  eTotal :: nat
  Reembedded :: nat

text \<open>An answer with too few vectors makes the code panic, after the rows before have been written.\<close>

fun reembed_rows :: "memory list \<Rightarrow> vec list \<Rightarrow> nat \<Rightarrow> db \<Rightarrow> nat \<times> pass_error option \<times> db" where
  "reembed_rows [] vecs n d = (n, None, d)"
| "reembed_rows (m # rest) [] n d = (n, Some PassPanic, d)"
| "reembed_rows (m # rest) (v # vs) n d =
     (case Upsert (m\<lparr> Embedding := v, Chunks := Some [] \<rparr>) d of
        Inl e \<Rightarrow> (n, Some (PassStore e), d)
      | Inr d' \<Rightarrow> reembed_rows rest vs (n + 1) d')"

function reembed_batches :: "batch_embedder \<Rightarrow> nat \<Rightarrow> memory list \<Rightarrow> nat \<Rightarrow> db \<Rightarrow> nat \<times> pass_error option \<times> db" where
  "reembed_batches emb size' mems n d =
     (if mems = [] \<or> size' = 0 then (n, None, d)
      else (case Embed emb (map Content (take size' mems)) of
              Inl e \<Rightarrow> (n, Some (PassEmbed e), d)
            | Inr vecs \<Rightarrow>
                (case reembed_rows (take size' mems) vecs n d of
                   (n', Some e, d') \<Rightarrow> (n', Some e, d')
                 | (n', None, d') \<Rightarrow> reembed_batches emb size' (drop size' mems) n' d')))"
  by pat_completeness auto

termination
  by (relation "measure (\<lambda>(emb, size', mems, n, d). length mems)") auto

declare reembed_batches.simps [simp del]

fun reembed_namespaces ::
    "upkeep \<Rightarrow> batch_embedder \<Rightarrow> nat \<Rightarrow> string list \<Rightarrow> ReembedReport \<Rightarrow> db \<Rightarrow> ReembedReport \<times> pass_error option \<times> db" where
  "reembed_namespaces u emb size' [] rep d = (rep, None, d)"
| "reembed_namespaces u emb size' (ns # rest) rep d =
     (let mems = listed u ns whole_namespace d
      in if mems = [] then reembed_namespaces u emb size' rest rep d
         else (case reembed_batches emb size' mems (Reembedded rep) d of
                 (n, err, d') \<Rightarrow>
                   let rep' = \<lparr> eNamespaces = eNamespaces rep + 1, eTotal = eTotal rep + length mems, Reembedded = n \<rparr>
                   in if err \<noteq> None then (rep', err, d') else reembed_namespaces u emb size' rest rep' d'))"

definition Reembed ::
    "upkeep \<Rightarrow> batch_embedder \<Rightarrow> string list \<Rightarrow> int \<Rightarrow> db \<Rightarrow> ReembedReport \<times> pass_error option \<times> db" where
  "Reembed u emb namespaces batchSize d =
     reembed_namespaces u emb (if batchSize \<le> 0 then 128 else nat batchSize)
       (if namespaces = [] then ListNamespaces d else namespaces)
       \<lparr> eNamespaces = 0, eTotal = 0, Reembedded = 0 \<rparr> d"

section \<open>Moving and splitting namespaces\<close>

definition DefaultSplitKeys :: "string list" where
  "DefaultSplitKeys = [''import_source_namespace'', ''user_id'', ''agent_id'', ''run_id'', ''project'']"

record RenamespaceReport =
  Moved :: nat
  Targets :: "(string \<times> nat) list"
  nSkipped :: nat

abbreviation nothing_moved :: RenamespaceReport where
  "nothing_moved \<equiv> \<lparr> Moved = 0, Targets = [], nSkipped = 0 \<rparr>"

definition Move :: "upkeep \<Rightarrow> string \<Rightarrow> string \<Rightarrow> bool \<Rightarrow> db \<Rightarrow> RenamespaceReport \<times> db" where
  "Move u fromNS toNS dry d =
     (if fromNS = toNS then (nothing_moved, d)
      else
        (let ids = map ID (listed u fromNS whole_namespace d)
         in if ids = [] then (nothing_moved, d)
            else if dry then (\<lparr> Moved = length ids, Targets = [(toNS, length ids)], nSkipped = 0 \<rparr>, d)
            else
              (case Reassign fromNS ids toNS d of
                 (d1, n) \<Rightarrow>
                   (\<lparr> Moved = n, Targets = [(toNS, n)], nSkipped = 0 \<rparr>,
                    RenamePinNamespaces fromNS toNS
                      (RenameAPIKeyNamespaces fromNS toNS (RenameLinkEndpoints fromNS toNS d1))))))"

fun firstMetaValue :: "metadata \<Rightarrow> string list \<Rightarrow> string" where
  "firstMetaValue md [] = ''''"
| "firstMetaValue md (k # ks) =
     (case md k of
        Some (JStr s) \<Rightarrow> if TrimSpace s \<noteq> '''' then TrimSpace s else firstMetaValue md ks
      | _ \<Rightarrow> firstMetaValue md ks)"

definition split_target :: "string \<Rightarrow> string list \<Rightarrow> memory \<Rightarrow> string option" where
  "split_target fromNS keys m =
     (let target = NormalizeNamespace (firstMetaValue (Metadata m) keys)
      in if target = '''' \<or> target = fromNS \<or> ValidateNamespace target \<noteq> None \<or> CHR ''*'' \<in> set target
         then None else Some target)"

definition split_groups :: "string \<Rightarrow> string list \<Rightarrow> memory list \<Rightarrow> (string \<times> string list) list" where
  "split_groups fromNS keys mems =
     map (\<lambda>t. (t, map ID (filter (\<lambda>m. split_target fromNS keys m = Some t) mems)))
       (SliceStable (<) (remdups (List.map_filter (split_target fromNS keys) mems)))"

fun split_moves :: "string \<Rightarrow> bool \<Rightarrow> (string \<times> string list) list \<Rightarrow> RenamespaceReport \<Rightarrow> db \<Rightarrow> RenamespaceReport \<times> db" where
  "split_moves fromNS dry [] rep d = (rep, d)"
| "split_moves fromNS dry ((target, ids) # rest) rep d =
     (case (if dry then (d, length ids) else Reassign fromNS ids target d) of
        (d', n) \<Rightarrow>
          split_moves fromNS dry rest (rep\<lparr> Targets := Targets rep @ [(target, n)], Moved := Moved rep + n \<rparr>) d')"

definition Split_namespace :: "upkeep \<Rightarrow> string \<Rightarrow> string list \<Rightarrow> bool \<Rightarrow> db \<Rightarrow> RenamespaceReport \<times> db" where
  "Split_namespace u fromNS byKeys dry d =
     (let keys = (if byKeys = [] then DefaultSplitKeys else byKeys);
          mems = listed u fromNS whole_namespace d
      in split_moves fromNS dry (split_groups fromNS keys mems)
           (nothing_moved\<lparr> nSkipped := length (filter (\<lambda>m. split_target fromNS keys m = None) mems) \<rparr>) d)"

section \<open>The old shared scopes\<close>

abbreviation sharedSegment :: string where "sharedSegment \<equiv> ''_shared''"

record ScopeMerge =
  msFrom :: string
  msTo :: string
  msMoved :: nat
  DedupClusters :: nat
  DedupTombstoned :: nat

record ScopesReport =
  Merges :: "ScopeMerge list"
  BareShared :: "string list"

definition splitShared :: "string \<Rightarrow> (string \<times> string) option" where
  "splitShared ns =
     (case CutLast ns (CHR ''/'') of
        (parent, segment, found) \<Rightarrow>
          if \<not> found then (if ns = sharedSegment then Some (ns, '''') else None)
          else if segment \<noteq> sharedSegment then None
          else Some (ns, parent))"

definition mergeShared ::
    "upkeep \<Rightarrow> batch_embedder \<Rightarrow> DedupOptions \<Rightarrow> Time \<Rightarrow> bool \<Rightarrow> string \<Rightarrow> string \<Rightarrow> db
      \<Rightarrow> (ScopeMerge \<times> pass_error option \<times> db) option" where
  "mergeShared u emb opts now dry src dst d =
     (case Move u src dst dry d of
        (mrep, d1) \<Rightarrow>
          let merge = \<lparr> msFrom = src, msTo = dst, msMoved = Moved mrep, DedupClusters = 0, DedupTombstoned = 0 \<rparr>
          in if dry \<or> Moved mrep = 0 then Some (merge, None, d1)
             else (case Dedup_clusters u emb (opts\<lparr> dNamespaces := [dst], dDryRun := False \<rparr>) now d1 of
                     None \<Rightarrow> None
                   | Some (rep, Some e, d2) \<Rightarrow> Some (merge, Some e, d2)
                   | Some (rep, None, d2) \<Rightarrow>
                       Some (merge\<lparr> DedupClusters := ClustersFound rep, DedupTombstoned := Tombstoned rep \<rparr>, None, d2)))"

fun migrate_names ::
    "upkeep \<Rightarrow> batch_embedder \<Rightarrow> DedupOptions \<Rightarrow> Time \<Rightarrow> bool \<Rightarrow> string list \<Rightarrow> ScopesReport \<Rightarrow> db
      \<Rightarrow> (ScopesReport \<times> pass_error option \<times> db) option" where
  "migrate_names u emb opts now dry [] rep d = Some (rep, None, d)"
| "migrate_names u emb opts now dry (ns # rest) rep d =
     (case splitShared ns of
        None \<Rightarrow> migrate_names u emb opts now dry rest rep d
      | Some (seg, parent) \<Rightarrow>
          if parent = '''' then migrate_names u emb opts now dry rest (rep\<lparr> BareShared := BareShared rep @ [seg] \<rparr>) d
          else (case mergeShared u emb opts now dry ns parent d of
                  None \<Rightarrow> None
                | Some (merge, Some e, d') \<Rightarrow>
                    Some (if 0 < msMoved merge then rep\<lparr> Merges := Merges rep @ [merge] \<rparr> else rep, Some e, d')
                | Some (merge, None, d') \<Rightarrow>
                    migrate_names u emb opts now dry rest (rep\<lparr> Merges := Merges rep @ [merge] \<rparr>) d'))"

definition MigrateScopes ::
    "upkeep \<Rightarrow> batch_embedder option \<Rightarrow> DedupOptions \<Rightarrow> Time \<Rightarrow> bool \<Rightarrow> db
      \<Rightarrow> (ScopesReport \<times> pass_error option \<times> db) option" where
  "MigrateScopes u embo opts now dry d =
     (let rep = \<lparr> Merges = [], BareShared = [] \<rparr>
      in case embo of
           None \<Rightarrow>
             if \<not> dry \<and> 0 \<le> Similarity opts then Some (rep, Some PassNoEmbedder, d)
             else migrate_names u \<lparr> Embed = (\<lambda>_. Inr []), Dims = 0 \<rparr> opts now dry (SliceStable (<) (ListNamespaces d)) rep d
         | Some emb \<Rightarrow> migrate_names u emb opts now dry (SliceStable (<) (ListNamespaces d)) rep d)"

end
