(* ===== verification/Maintenance_Sound.thy ===== *)
theory Maintenance_Sound
  imports Maintenance_Passes
begin

text \<open>
  What the maintenance passes do to the store: which rows a deleting pass removes, that purging
  ends, what the cap keeps and what a demotion changes, and that the sweep is made of the
  driver's steps.
\<close>

section \<open>Walks\<close>

lemma walk_preserves:
  "(\<And>x d. x \<in> set xs \<Longrightarrow> P d \<Longrightarrow> P (after_pass (f x d))) \<Longrightarrow> P d \<Longrightarrow> P (after_pass (walk f xs d))"
proof (induction xs arbitrary: d)
  case (Cons x xs)
  obtain n e d1 where 1: "f x d = (n, e, d1)" using prod_cases3 by blast
  then have "P d1" using Cons.prems(1) [of x d] Cons.prems(2) by simp
  moreover obtain k e' d2 where 2: "walk f xs d1 = (k, e', d2)" using prod_cases3 by blast
  ultimately have "P d2" using Cons.IH [of d1] Cons.prems(1) by simp
  then show ?case using 1 2 \<open>P d1\<close> by (cases e) simp_all
qed simp

lemma walk_moves:
  assumes "\<And>x d. moves d (after_pass (f x d))"
  shows "moves d (after_pass (walk f xs d))"
  by (rule walk_preserves [where P = "moves d"]) (blast intro: moves_trans assms, simp)

lemma tally_moves: "(\<And>d'. r = Inr d' \<Longrightarrow> moves d d') \<Longrightarrow> moves d (after_pass (tally d r))"
  by (cases r) (auto simp: tally_def)

lemma walk_skip: "(\<And>x d. x \<in> set xs \<Longrightarrow> \<not> c x \<Longrightarrow> f x d = (0, None, d)) \<Longrightarrow> walk f xs d = walk f (filter c xs) d"
  by (induction xs arbitrary: d) (auto split: prod.split option.split)

section \<open>Deletions\<close>

lemma delete_row:
  assumes ok: "db_ok d" and r: "r \<in> set (memories d)"
  shows "memories (delete_memory_rows (c_rowid r) d) = filter (\<lambda>x. x \<noteq> r) (memories d)"
    and "db_ok (delete_memory_rows (c_rowid r) d)"
proof -
  show "db_ok (delete_memory_rows (c_rowid r) d)" using purge_ok [OF ok] by (simp add: delete_memory_rows_purge)
  show "memories (delete_memory_rows (c_rowid r) d) = filter (\<lambda>x. x \<noteq> r) (memories d)"
    using unique_row(2) [OF ok r] by (auto simp: delete_memory_rows_purge purge_def delete_where_def intro: filter_cong)
qed

lemma delete_one_row:
  assumes "db_ok d" and "r \<in> set (memories d)" and "c_namespace r = ns"
  shows "delete_one ns (scanRow r) d = (1, None, delete_memory_rows (c_rowid r) d)"
  using find_row(1) [OF assms(1,2)] assms(3) by (simp add: delete_one_def tally_def Delete_def scanRow_def)

definition expired_row :: "Time \<Rightarrow> mem_row \<Rightarrow> bool" where
  "expired_row now r \<longleftrightarrow> (case c_expires_at r of None \<Rightarrow> False | Some e \<Rightarrow> e \<le> ms now)"

lemma delete_expired_row:
  assumes ok: "db_ok d" and r: "r \<in> set (memories d)" and e: "expired_row now r"
  shows "delete_expired now (scanRow r) d = (1, None, delete_memory_rows (c_rowid r) d)"
proof -
  let ?P = "\<lambda>x. row_at (c_namespace r) (c_id r) x
    \<and> (case c_expires_at x of None \<Rightarrow> False | Some e \<Rightarrow> e \<le> ms now)"
  have P: "?P x \<longleftrightarrow> x = r" if "x \<in> set (memories d)" for x
    using unique_row(1) [OF ok r that] e by (auto simp: row_at_def expired_row_def)
  have "find ?P (memories d) \<noteq> None" using P [OF r] r by (auto simp: find_None_iff)
  then obtain x where "find ?P (memories d) = Some x" by blast
  moreover from this have "x = r" using P find_Some_set by metis
  ultimately show ?thesis by (simp add: delete_expired_def tally_def DeleteIfExpiredBefore_def scanRow_def)
qed

text \<open>A walk that deletes the rows \<open>rs\<close>, one by one.\<close>

lemma walk_deletes:
  assumes f: "\<And>r d. r \<in> set rs \<Longrightarrow> db_ok d \<Longrightarrow> r \<in> set (memories d) \<Longrightarrow> f (scanRow r) d = (1, None, delete_memory_rows (c_rowid r) d)"
    and "db_ok d" and "distinct rs" and "set rs \<subseteq> set (memories d)"
  shows "\<exists>d'. walk f (map scanRow rs) d = (length rs, None, d') \<and> db_ok d'
    \<and> memories d' = filter (\<lambda>r. r \<notin> set rs) (memories d)"
  using assms
proof (induction rs arbitrary: d)
  case (Cons r rs)
  let ?d = "delete_memory_rows (c_rowid r) d"
  have r: "r \<in> set (memories d)" using Cons.prems(4) by simp
  have m: "memories ?d = filter (\<lambda>x. x \<noteq> r) (memories d)" "db_ok ?d" using delete_row [OF Cons.prems(2) r] .
  have "set rs \<subseteq> set (memories ?d)" using Cons.prems(3,4) by (auto simp: m(1))
  then obtain d' where d': "walk f (map scanRow rs) ?d = (length rs, None, d')" "db_ok d'"
    "memories d' = filter (\<lambda>r. r \<notin> set rs) (memories ?d)"
    using Cons.IH [of ?d] Cons.prems(1,3) m(2) by auto
  then show ?case using Cons.prems(1) [of r d] Cons.prems(2) r by (auto simp: m(1) intro: filter_cong)
qed simp

lemma memories_distinct: "db_ok d \<Longrightarrow> distinct (memories d)"
  by (auto simp: db_ok_def rows_ok_def distinct_map)

section \<open>Purging ends\<close>

lemma ListExpired_rows: "ListExpired now limit d = map scanRow (limit_rows limit (filter (expired_row now) (memories d)))"
  by (simp add: ListExpired_def expired_row_def [abs_def])

lemma purge_round:
  assumes ok: "db_ok d"
  shows "\<exists>d'. walk (delete_expired now) (ListExpired now (int purgeBatch) d) d
      = (length (ListExpired now (int purgeBatch) d), None, d') \<and> db_ok d'
    \<and> memories d' = filter (\<lambda>r. r \<notin> set (take purgeBatch (filter (expired_row now) (memories d)))) (memories d)"
proof -
  let ?rs = "take purgeBatch (filter (expired_row now) (memories d))"
  have l: "ListExpired now (int purgeBatch) d = map scanRow ?rs" by (simp add: ListExpired_rows limit_rows_def)
  have "set ?rs \<subseteq> {r \<in> set (memories d). expired_row now r}" by (auto dest: in_set_takeD)
  then show ?thesis
    unfolding l length_map using memories_distinct [OF ok]
    by (intro walk_deletes [OF delete_expired_row ok]) (auto simp: distinct_take)
qed

lemma purge_loop_done:
  assumes "db_ok d"
  shows "\<exists>d'. purge_loop now k d = Some (k + length (filter (expired_row now) (memories d)), None, d') \<and> db_ok d'
    \<and> memories d' = filter (\<lambda>r. \<not> expired_row now r) (memories d)"
  using assms
proof (induction "length (filter (expired_row now) (memories d))" arbitrary: d k rule: less_induct)
  case less
  let ?exp = "\<lambda>d. filter (expired_row now) (memories d)"
  obtain d1 where d1: "walk (delete_expired now) (ListExpired now (int purgeBatch) d) d
      = (length (ListExpired now (int purgeBatch) d), None, d1)" "db_ok d1"
    and m: "memories d1 = filter (\<lambda>r. r \<notin> set (take purgeBatch (?exp d))) (memories d)"
    using purge_round [OF less.prems] by blast
  have len: "length (ListExpired now (int purgeBatch) d) = min (length (?exp d)) purgeBatch"
    by (simp add: ListExpired_rows limit_rows_def)
  show ?case
  proof (cases "length (?exp d) < purgeBatch")
    case True
    then have "take purgeBatch (?exp d) = ?exp d" by simp
    then have "memories d1 = filter (\<lambda>r. \<not> expired_row now r) (memories d)" unfolding m by (auto intro: filter_cong)
    then show ?thesis using True d1 len by (simp add: purge_loop.simps [of now k d])
  next
    case False
    have "distinct (?exp d)" using memories_distinct [OF less.prems] by simp
    then have dp: "?exp d1 = drop purgeBatch (?exp d)"
      unfolding m filter_filter
    proof -
      assume ds: "distinct (?exp d)"
      have "filter (\<lambda>r. expired_row now r \<and> r \<notin> set (take purgeBatch (?exp d))) (memories d)
          = filter (\<lambda>r. r \<notin> set (take purgeBatch (?exp d))) (take purgeBatch (?exp d) @ drop purgeBatch (?exp d))"
        by (simp add: conj_commute)
      also have "\<dots> = drop purgeBatch (?exp d)"
        using set_take_disj_set_drop_if_distinct [OF ds order_refl, of purgeBatch]
        unfolding filter_append by (auto simp: filter_id_conv filter_empty_conv)
      finally show "filter (\<lambda>r. r \<notin> set (take purgeBatch (?exp d)) \<and> expired_row now r) (memories d) = drop purgeBatch (?exp d)"
        by (simp add: conj_commute)
    qed
    then have n: "length (?exp d1) = length (?exp d) - purgeBatch" "length (?exp d1) < length (?exp d)"
      using False by simp_all
    from less.hyps [OF n(2) d1(2), of "k + purgeBatch"] obtain d' where
      d': "purge_loop now (k + purgeBatch) d1 = Some (k + purgeBatch + length (?exp d1), None, d')" "db_ok d'"
        "memories d' = filter (\<lambda>r. \<not> expired_row now r) (memories d1)" by blast
    have "memories d' = filter (\<lambda>r. \<not> expired_row now r) (memories d)"
      unfolding d'(3) m filter_filter by (rule filter_cong) (auto dest: in_set_takeD)
    then show ?thesis using False d1 d' len n(1) by (simp add: purge_loop.simps [of now k d])
  qed
qed

section \<open>Listings\<close>

definition listed_rows :: "upkeep \<Rightarrow> string \<Rightarrow> Filter \<Rightarrow> db \<Rightarrow> mem_row list" where
  "listed_rows u ns f d = order_by (orderClause (fSort f))
     (filter (\<lambda>r. c_namespace r = ns \<and> filterClause (up_engine u) (up_wall u) f r) (memories d))"

lemma listed_map: "listed u ns f d = map scanRow (listed_rows u ns f d)"
  by (simp add: List_memories_def listed_rows_def Let_def)

lemma set_listed_rows [simp]:
  "set (listed_rows u ns f d) = {r \<in> set (memories d). c_namespace r = ns \<and> filterClause (up_engine u) (up_wall u) f r}"
  by (auto simp: listed_rows_def)

lemma distinct_listed_rows: "db_ok d \<Longrightarrow> distinct (listed_rows u ns f d)"
  using mset_eq_imp_distinct_iff [OF mset_SliceStable] memories_distinct [of d] by (simp add: listed_rows_def)

lemma length_listed_rows:
  "length (filter P (listed_rows u ns f d)) =
     length (filter (\<lambda>r. P r \<and> c_namespace r = ns \<and> filterClause (up_engine u) (up_wall u) f r) (memories d))"
proof -
  let ?Q = "\<lambda>r. c_namespace r = ns \<and> filterClause (up_engine u) (up_wall u) f r"
  have "mset (filter P (listed_rows u ns f d)) = mset (filter P (filter ?Q (memories d)))"
    unfolding mset_filter listed_rows_def mset_SliceStable ..
  then have "length (filter P (listed_rows u ns f d)) = length (filter P (filter ?Q (memories d)))" by (rule mset_eq_length)
  moreover have "filter P (filter ?Q (memories d)) = filter (\<lambda>r. P r \<and> ?Q r) (memories d)"
    unfolding filter_filter by (rule filter_cong) blast+
  ultimately show ?thesis by simp
qed

lemma whole_filter [simp]: "filterClause eng wall whole_namespace r"
  by (simp add: filterClause_def no_filter_def IsZero_def)

text \<open>A walk over a listing that deletes what is \<open>bad\<close> and leaves the rest.\<close>

lemma walk_listing_deletes:
  assumes ok: "db_ok d"
    and bad: "\<And>r d. db_ok d \<Longrightarrow> r \<in> set (memories d) \<Longrightarrow> c_namespace r = ns \<Longrightarrow> bad r \<Longrightarrow>
      f (scanRow r) d = (1, None, delete_memory_rows (c_rowid r) d)"
    and good: "\<And>r d. \<not> bad r \<Longrightarrow> f (scanRow r) d = (0, None, d)"
  shows "\<exists>d'. walk f (listed u ns whole_namespace d) d
      = (length (filter (\<lambda>r. c_namespace r = ns \<and> bad r) (memories d)), None, d') \<and> db_ok d'
    \<and> memories d' = filter (\<lambda>r. \<not> (c_namespace r = ns \<and> bad r)) (memories d)"
proof -
  let ?rs = "filter bad (listed_rows u ns whole_namespace d)"
  have "walk f (map scanRow xs) d = walk f (map scanRow (filter bad xs)) d" for xs
    by (induction xs arbitrary: d) (auto simp: good split: prod.split option.split)
  then have w: "walk f (listed u ns whole_namespace d) d = walk f (map scanRow ?rs) d" by (simp add: listed_map)
  have len: "length ?rs = length (filter (\<lambda>r. c_namespace r = ns \<and> bad r) (memories d))"
    by (simp add: length_listed_rows conj_commute)
  have "\<exists>d'. walk f (map scanRow ?rs) d = (length ?rs, None, d') \<and> db_ok d'
      \<and> memories d' = filter (\<lambda>r. r \<notin> set ?rs) (memories d)"
  proof (rule walk_deletes [OF _ ok])
    show "f (scanRow r) d = (1, None, delete_memory_rows (c_rowid r) d)"
      if "r \<in> set ?rs" "db_ok d" "r \<in> set (memories d)" for r d using that by (intro bad) simp_all
    show "distinct ?rs" using distinct_listed_rows [OF ok] by (rule distinct_filter)
    show "set ?rs \<subseteq> set (memories d)" by auto
  qed
  moreover have "filter (\<lambda>r. r \<notin> set ?rs) (memories d) = filter (\<lambda>r. \<not> (c_namespace r = ns \<and> bad r)) (memories d)"
    by (rule filter_cong) auto
  ultimately show ?thesis unfolding w len by (simp only: cong: conj_cong)
qed

lemma walk_namespaces:
  assumes g: "\<And>ns d. db_ok d \<Longrightarrow> \<exists>d'. g ns d = (length (filter (\<lambda>r. c_namespace r = ns \<and> bad r) (memories d)), None, d')
      \<and> db_ok d' \<and> memories d' = filter (\<lambda>r. \<not> (c_namespace r = ns \<and> bad r)) (memories d)"
    and "db_ok d" and "distinct nss"
  shows "\<exists>d'. walk g nss d = (length (filter (\<lambda>r. c_namespace r \<in> set nss \<and> bad r) (memories d)), None, d')
    \<and> db_ok d' \<and> memories d' = filter (\<lambda>r. \<not> (c_namespace r \<in> set nss \<and> bad r)) (memories d)"
  using assms(2,3)
proof (induction nss arbitrary: d)
  case (Cons ns nss)
  obtain d1 where d1: "g ns d = (length (filter (\<lambda>r. c_namespace r = ns \<and> bad r) (memories d)), None, d1)" "db_ok d1"
    "memories d1 = filter (\<lambda>r. \<not> (c_namespace r = ns \<and> bad r)) (memories d)" using g [OF Cons.prems(1)] by blast
  obtain d2 where d2: "walk g nss d1 = (length (filter (\<lambda>r. c_namespace r \<in> set nss \<and> bad r) (memories d1)), None, d2)"
    "db_ok d2" "memories d2 = filter (\<lambda>r. \<not> (c_namespace r \<in> set nss \<and> bad r)) (memories d1)"
    using Cons.IH [OF d1(2)] Cons.prems(2) by auto
  have f: "filter (\<lambda>r. c_namespace r \<in> set nss \<and> bad r) (memories d1) = filter (\<lambda>r. c_namespace r \<in> set nss \<and> bad r) (memories d)"
    unfolding d1(3) filter_filter using Cons.prems(2) by (auto intro: filter_cong)
  have "length (filter (\<lambda>r. c_namespace r = ns \<and> bad r) t) + length (filter (\<lambda>r. c_namespace r \<in> set nss \<and> bad r) t)
      = length (filter (\<lambda>r. c_namespace r \<in> set (ns # nss) \<and> bad r) t)" for t
    using Cons.prems(2) by (induction t) auto
  moreover have "memories d2 = filter (\<lambda>r. \<not> (c_namespace r \<in> set (ns # nss) \<and> bad r)) (memories d)"
    unfolding d2(3) d1(3) filter_filter by (auto intro: filter_cong)
  ultimately show ?case using d1(1) d2 f by simp
qed simp

lemma ListNamespaces_set: "set (ListNamespaces d) = c_namespace ` set (memories d)"
  and ListNamespaces_distinct: "distinct (ListNamespaces d)"
  using mset_eq_imp_distinct_iff [OF mset_SliceStable [of "(<)" "remdups (map c_namespace (memories d))"]]
  by (simp_all add: ListNamespaces_def)

section \<open>Tombstones and tags\<close>

definition old_tombstone :: "Time \<Rightarrow> mem_row \<Rightarrow> bool" where
  "old_tombstone olderThan r \<longleftrightarrow> SupersededBy (scanRow r) \<noteq> None \<and> Before (tombstonedAt (scanRow r)) olderThan"

lemma PurgeTombstones_exact:
  assumes "db_ok d"
  shows "\<exists>d'. PurgeTombstones u olderThan d = (length (filter (old_tombstone olderThan) (memories d)), None, d')
    \<and> db_ok d' \<and> memories d' = filter (\<lambda>r. \<not> old_tombstone olderThan r) (memories d)"
proof -
  have g: "\<exists>d'. walk (purge_tombstone olderThan ns) (listed u ns whole_namespace d) d
      = (length (filter (\<lambda>r. c_namespace r = ns \<and> old_tombstone olderThan r) (memories d)), None, d') \<and> db_ok d'
      \<and> memories d' = filter (\<lambda>r. \<not> (c_namespace r = ns \<and> old_tombstone olderThan r)) (memories d)"
    if "db_ok d" for ns d
    using delete_one_row
    by (intro walk_listing_deletes [OF that]) (auto simp: purge_tombstone_def old_tombstone_def)
  have "filter (\<lambda>r. c_namespace r \<in> set (ListNamespaces d) \<and> P r) (memories d) = filter P (memories d)"
    "filter (\<lambda>r. \<not> (c_namespace r \<in> set (ListNamespaces d) \<and> P r)) (memories d) = filter (\<lambda>r. \<not> P r) (memories d)" for P
    by (auto simp: ListNamespaces_set intro: filter_cong)
  then show ?thesis
    using walk_namespaces [OF g assms ListNamespaces_distinct [of d]] by (simp add: PurgeTombstones_def)
qed

lemma ForgetByTag_exact:
  assumes "db_ok d"
  shows "\<exists>d'. ForgetByTag u ns tag d = (length (filter (\<lambda>r. c_namespace r = ns \<and> tag \<in> set (c_tags r)) (memories d)), None, d')
    \<and> db_ok d' \<and> memories d' = filter (\<lambda>r. \<not> (c_namespace r = ns \<and> tag \<in> set (c_tags r))) (memories d)"
  unfolding ForgetByTag_def using delete_one_row
  by (intro walk_listing_deletes [OF assms]) (auto simp: forget_tagged_def scanRow_def)

section \<open>The short-term cap\<close>

text \<open>\<open>sort.Slice\<close>: a permutation in the order of its \<open>less\<close>.\<close>

definition sorts :: "upkeep \<Rightarrow> bool" where
  "sorts u \<longleftrightarrow> (\<forall>lt xs. strict_weak_order lt \<longrightarrow>
     mset (up_sort u lt xs) = mset xs \<and> sorted_wrt (\<lambda>a b. \<not> lt b a) (up_sort u lt xs))"

lemma scanRow_inj: "db_ok d \<Longrightarrow> A \<subseteq> set (memories d) \<Longrightarrow> inj_on scanRow A"
proof (rule inj_onI)
  fix x y assume a: "db_ok d" "A \<subseteq> set (memories d)" "x \<in> A" "y \<in> A" "scanRow x = scanRow y"
  then have "c_id x = c_id y" using arg_cong [OF a(5), of ID] by (simp add: scanRow_def)
  then show "x = y" using unique_row(1) [of d y x] a by auto
qed

lemma map_of_permuted:
  assumes "mset ys = mset (map f xs)" and "inj_on f (set xs)"
  obtains zs where "ys = map f zs" and "mset zs = mset xs"
proof -
  let ?g = "inv_into (set xs) f"
  have "set ys = f ` set xs" using mset_eq_setD [OF assms(1)] by simp
  then have "map (\<lambda>y. f (?g y)) ys = ys" by (intro map_idI) (simp add: f_inv_into_f)
  then have "ys = map f (map ?g ys)" by (simp add: comp_def)
  moreover have "mset (map ?g ys) = image_mset (\<lambda>x. ?g (f x)) (mset xs)"
    by (simp add: assms(1) multiset.map_comp comp_def)
  moreover have "map (\<lambda>x. ?g (f x)) xs = xs" by (intro map_idI) (simp add: inv_into_f_f [OF assms(2)])
  then have "image_mset (\<lambda>x. ?g (f x)) (mset xs) = mset xs" by (metis mset_map)
  ultimately show ?thesis using that by metis
qed

abbreviation short_filter :: Filter where
  "short_filter \<equiv> no_filter\<lparr> fTiers := shortTermTiers \<rparr>"

definition retention :: "upkeep \<Rightarrow> Time \<Rightarrow> mem_row \<Rightarrow> real" where
  "retention u now r = RetentionScore (up_tuning u) (scanRow r) now"

text \<open>The rows \<open>E\<close> were evicted: the worst of their namespace, down to the cap.\<close>

definition evicts :: "upkeep \<Rightarrow> int \<Rightarrow> Time \<Rightarrow> string set \<Rightarrow> mem_row set \<Rightarrow> db \<Rightarrow> db \<Rightarrow> bool" where
  "evicts u cap now nss E d d' \<longleftrightarrow>
     memories d' = filter (\<lambda>r. r \<notin> E) (memories d)
     \<and> (\<forall>r \<in> E. c_namespace r \<in> nss \<and> r \<in> set (listed_rows u (c_namespace r) short_filter d)
          \<and> (\<forall>k \<in> set (listed_rows u (c_namespace r) short_filter d'). retention u now r \<le> retention u now k))
     \<and> (\<forall>ns \<in> nss. length (listed_rows u ns short_filter d')
          = min (length (listed_rows u ns short_filter d)) (nat cap))"

lemma cap_namespace_evicts:
  assumes ok: "db_ok d" and s: "sorts u" and cap: "0 < cap"
  shows "\<exists>E d'. cap_namespace u cap now ns d = (card E, None, d') \<and> db_ok d' \<and> evicts u cap now {ns} E d d'"
proof (cases "int (length (listed_rows u ns short_filter d)) \<le> cap")
  case True
  then have "cap_namespace u cap now ns d = (card ({} :: mem_row set), None, d)"
    by (simp add: cap_namespace_def listed_map)
  moreover have "evicts u cap now {ns} {} d d" using True by (simp add: evicts_def)
  ultimately show ?thesis using ok by blast
next
  case False
  let ?L = "listed_rows u ns short_filter d"
  let ?lt = "\<lambda>a b. RetentionScore (up_tuning u) a now < RetentionScore (up_tuning u) b now"
  have "strict_weak_order ?lt" by unfold_locales auto
  then have r: "mset (up_sort u ?lt (map scanRow ?L)) = mset (map scanRow ?L)"
    "sorted_wrt (\<lambda>a b. \<not> ?lt b a) (up_sort u ?lt (map scanRow ?L))" using s by (auto simp: sorts_def)
  have "inj_on scanRow (set ?L)" by (rule scanRow_inj [OF ok]) auto
  with r(1) obtain rs where rs: "up_sort u ?lt (map scanRow ?L) = map scanRow rs" "mset rs = mset ?L"
    by (rule map_of_permuted)
  define k where "k = length ?L - nat cap"
  have d: "distinct rs" "set rs = set ?L" "length rs = length ?L"
    using distinct_listed_rows [OF ok] mset_eq_imp_distinct_iff [OF rs(2)] mset_eq_setD [OF rs(2)] mset_eq_length [OF rs(2)]
    by blast+
  have sub: "set (take k rs) \<subseteq> set (memories d)" using d(2) by (auto dest: in_set_takeD)
  have f: "delete_one ns (scanRow r) e = (1, None, delete_memory_rows (c_rowid r) e)"
    if "r \<in> set (take k rs)" "db_ok e" "r \<in> set (memories e)" for r e
    using that d(2) by (intro delete_one_row) (auto dest: in_set_takeD)
  obtain d' where d': "walk (delete_one ns) (map scanRow (take k rs)) d = (length (take k rs), None, d')" "db_ok d'"
    "memories d' = filter (\<lambda>r. r \<notin> set (take k rs)) (memories d)"
    using walk_deletes [OF f ok distinct_take [OF d(1)] sub] by blast
  have "cap_namespace u cap now ns d = (length (take k rs), None, d')"
    using False d'(1) rs(1) by (simp add: cap_namespace_def listed_map Let_def k_def take_map)
  moreover have "length (take k rs) = card (set (take k rs))" using d(1) by (simp add: distinct_card distinct_take)
  moreover have rest: "set (listed_rows u ns short_filter d') = set (drop k rs)"
  proof -
    have "set (listed_rows u ns short_filter d') = set ?L - set (take k rs)" by (auto simp: d'(3))
    also have "\<dots> = set rs - set (take k rs)" by (simp only: d(2))
    also have "\<dots> = set (drop k rs)"
      using set_take_disj_set_drop_if_distinct [OF d(1) order_refl, of k] set_append [of "take k rs" "drop k rs"]
      unfolding append_take_drop_id by blast
    finally show ?thesis .
  qed
  moreover have "length (listed_rows u ns short_filter d') = nat cap"
    using distinct_card [OF distinct_listed_rows [OF d'(2)], of u ns short_filter] distinct_card [OF distinct_drop [OF d(1), of k]]
      rest False d(3) k_def by simp
  moreover have "retention u now a \<le> retention u now b" if "a \<in> set (take k rs)" "b \<in> set (drop k rs)" for a b
  proof -
    have "sorted_wrt (\<lambda>a b. \<not> ?lt b a) (map scanRow (take k rs @ drop k rs))" using r(2) rs(1) by simp
    then have "\<not> ?lt (scanRow b) (scanRow a)" using that unfolding map_append sorted_wrt_append by simp
    then show ?thesis by (simp add: retention_def)
  qed
  moreover have "r \<in> set ?L" if "r \<in> set (take k rs)" for r using that d(2) by (auto dest: in_set_takeD)
  ultimately have "evicts u cap now {ns} (set (take k rs)) d d'"
    using False d'(3) unfolding evicts_def by simp
  then show ?thesis
    using \<open>cap_namespace u cap now ns d = (length (take k rs), None, d')\<close>
      \<open>length (take k rs) = card (set (take k rs))\<close> d'(2) by auto
qed

lemma listed_rows_other:
  assumes "memories d' = filter (\<lambda>r. r \<notin> E) (memories d)" and "\<forall>r \<in> E. c_namespace r \<noteq> ns"
  shows "listed_rows u ns f d' = listed_rows u ns f d"
proof -
  have "filter (\<lambda>r. c_namespace r = ns \<and> filterClause (up_engine u) (up_wall u) f r) (memories d')
      = filter (\<lambda>r. c_namespace r = ns \<and> filterClause (up_engine u) (up_wall u) f r) (memories d)"
    unfolding assms(1) filter_filter using assms(2) by (auto intro: filter_cong)
  then show ?thesis by (simp add: listed_rows_def)
qed

lemma evicts_step:
  assumes 1: "evicts u cap now {ns} E d d1" and 2: "evicts u cap now nss F d1 d2" and n: "ns \<notin> nss"
  shows "evicts u cap now (insert ns nss) (E \<union> F) d d2"
proof -
  have E: "\<forall>r \<in> E. c_namespace r = ns" and F: "\<forall>r \<in> F. c_namespace r \<in> nss" using 1 2 by (auto simp: evicts_def)
  have m: "memories d1 = filter (\<lambda>r. r \<notin> E) (memories d)" "memories d2 = filter (\<lambda>r. r \<notin> F) (memories d1)"
    using 1 2 by (auto simp: evicts_def)
  have l1: "listed_rows u k short_filter d1 = listed_rows u k short_filter d" if "k \<in> nss" for k
    using E n that by (intro listed_rows_other [OF m(1)]) auto
  have l2: "listed_rows u ns short_filter d2 = listed_rows u ns short_filter d1"
    using F n by (intro listed_rows_other [OF m(2)]) auto
  have "memories d2 = filter (\<lambda>r. r \<notin> E \<union> F) (memories d)" unfolding m filter_filter by (rule filter_cong) auto
  moreover have "r \<in> set (listed_rows u (c_namespace r) short_filter d)
      \<and> (\<forall>k \<in> set (listed_rows u (c_namespace r) short_filter d2). retention u now r \<le> retention u now k)" if "r \<in> E" for r
    using 1 that E l2 by (simp only: evicts_def) metis
  moreover have "r \<in> set (listed_rows u (c_namespace r) short_filter d)
      \<and> (\<forall>k \<in> set (listed_rows u (c_namespace r) short_filter d2). retention u now r \<le> retention u now k)" if "r \<in> F" for r
    using 2 that F l1 by (simp only: evicts_def) metis
  moreover have "length (listed_rows u k short_filter d2) = min (length (listed_rows u k short_filter d)) (nat cap)"
    if "k \<in> insert ns nss" for k
  proof (cases "k = ns")
    case True
    then show ?thesis using 1 l2 by (simp add: evicts_def)
  next
    case False
    then show ?thesis using 2 that l1 by (simp add: evicts_def)
  qed
  ultimately show ?thesis using E F unfolding evicts_def by blast
qed

lemma cap_walk_evicts:
  assumes "db_ok d" and "sorts u" and "0 < cap" and "distinct nss"
  shows "\<exists>E d'. walk (cap_namespace u cap now) nss d = (card E, None, d') \<and> db_ok d' \<and> evicts u cap now (set nss) E d d'"
  using assms
proof (induction nss arbitrary: d)
  case Nil
  have "evicts u cap now {} {} d d" by (simp add: evicts_def)
  then show ?case using Nil by (intro exI [of _ "{}"]) simp
next
  case (Cons ns nss)
  obtain E d1 where d1: "cap_namespace u cap now ns d = (card E, None, d1)" "db_ok d1" "evicts u cap now {ns} E d d1"
    using cap_namespace_evicts [OF Cons.prems(1-3)] by blast
  obtain F d2 where d2: "walk (cap_namespace u cap now) nss d1 = (card F, None, d2)" "db_ok d2"
    "evicts u cap now (set nss) F d1 d2" using Cons.IH [OF d1(2)] Cons.prems(2-4) by auto
  have sub: "E \<subseteq> set (memories d)" "F \<subseteq> set (memories d1)" using d1(3) d2(3) by (auto simp: evicts_def)
  have disj: "E \<inter> F = {}" using d1(3) sub by (auto simp: evicts_def)
  have "card E + card F = card (E \<union> F)"
    using card_Un_disjoint [OF _ _ disj] finite_subset [OF sub(1)] finite_subset [OF sub(2)] by simp
  then show ?case using d1(1) d2(1,2) evicts_step [OF d1(3) d2(3)] Cons.prems(4) by auto
qed

lemma EnforceShortTermCap_evicts:
  assumes "db_ok d" and "sorts u" and "0 < cap"
  shows "\<exists>E d'. EnforceShortTermCap u cap now d = (card E, None, d') \<and> db_ok d' \<and> evicts u cap now UNIV E d d'"
proof -
  obtain E d' where 1: "walk (cap_namespace u cap now) (ListNamespaces d) d = (card E, None, d')" "db_ok d'"
    "evicts u cap now (set (ListNamespaces d)) E d d'"
    using cap_walk_evicts [OF assms ListNamespaces_distinct] by blast
  have m: "memories d' = filter (\<lambda>r. r \<notin> E) (memories d)" using 1(3) by (simp add: evicts_def)
  have "length (listed_rows u ns short_filter d') = min (length (listed_rows u ns short_filter d)) (nat cap)"
    if "ns \<notin> set (ListNamespaces d)" for ns
  proof -
    have "set (listed_rows u ns short_filter d) = {}" using that by (auto simp: ListNamespaces_set)
    moreover have "set (listed_rows u ns short_filter d') = {}" using that by (auto simp: ListNamespaces_set m)
    ultimately show ?thesis unfolding set_empty by simp
  qed
  then have "evicts u cap now UNIV E d d'" using 1(3) unfolding evicts_def by blast
  then show ?thesis using 1 assms(3) by (auto simp: EnforceShortTermCap_def)
qed

section \<open>Demotion\<close>

definition demoted :: "upkeep \<Rightarrow> Time \<Rightarrow> Time \<Rightarrow> mem_row \<Rightarrow> bool" where
  "demoted u olderThan now r \<longleftrightarrow>
     filterClause (up_engine u) (up_wall u) (no_filter\<lparr> fTiers := longTermTiers, Now := now \<rparr>) r
     \<and> c_access_count r \<le> 0 \<and> c_importance r < 3 / 4 \<and> fromMs (c_updated_at r) < olderThan
     \<and> EffectiveConfidence (scanRow r) now < 35 / 100
     \<and> ''pinned'' \<notin> set (c_tags r) \<and> ''handoff'' \<notin> set (c_tags r)"

lemma demoted_iff: "demoted u olderThan now r \<longleftrightarrow>
    filterClause (up_engine u) (up_wall u) (no_filter\<lparr> fTiers := longTermTiers, Now := now \<rparr>) r
    \<and> demotes olderThan now (scanRow r)"
proof -
  have "AccessCount (scanRow r) = c_access_count r" "Importance (scanRow r) = c_importance r"
    "UpdatedAt (scanRow r) = fromMs (c_updated_at r)" "Tags (scanRow r) = c_tags r" by (simp_all add: scanRow_def)
  then show ?thesis by (simp add: demoted_def demotes_def Before_def not_le not_less)
qed

definition to_episodic :: "Time \<Rightarrow> mem_row \<Rightarrow> mem_row" where
  "to_episodic now r = r\<lparr> c_tier := TierEpisodic, c_expires_at := Some (ms (now + DefaultTTL TierEpisodic)) \<rparr>"

lemma Retier_row:
  assumes ok: "db_ok d" and r: "r \<in> set (memories d)"
  shows "\<exists>d'. Retier (c_namespace r) (c_id r) TierEpisodic (Some (now + DefaultTTL TierEpisodic)) d = Inr d' \<and> db_ok d'
    \<and> memories d' = map (\<lambda>x. if x = r then to_episodic now x else x) (memories d)"
proof -
  have p: "row_at (c_namespace r) (c_id r) x \<longleftrightarrow> x = r" if "x \<in> set (memories d)" for x
    using unique_row(1) [OF ok r that] by (auto simp: row_at_def)
  have "\<exists>x \<in> set (memories d). row_at (c_namespace r) (c_id r) x" using p r by blast
  then obtain d' where d': "Retier (c_namespace r) (c_id r) TierEpisodic (Some (now + DefaultTTL TierEpisodic)) d = Inr d'"
    by (auto simp: Retier_def update_or_notfound_def)
  then have "memories d' = update_where (row_at (c_namespace r) (c_id r)) (to_episodic now) (memories d)"
    by (auto simp: Retier_def update_or_notfound_def to_episodic_def [abs_def] split: if_splits)
  also have "\<dots> = map (\<lambda>x. if x = r then to_episodic now x else x) (memories d)"
    unfolding update_where_def by (rule map_cong) (simp_all add: p)
  finally show ?thesis using d' point_updates_ok(3) [OF ok] by blast
qed

text \<open>A walk that changes the rows \<open>rs\<close> by \<open>g\<close>, one by one.\<close>

lemma walk_updates:
  assumes f: "\<And>r d. r \<in> set rs \<Longrightarrow> db_ok d \<Longrightarrow> r \<in> set (memories d) \<Longrightarrow>
      \<exists>d'. f (scanRow r) d = (1, None, d') \<and> db_ok d' \<and> memories d' = map (\<lambda>x. if x = r then g x else x) (memories d)"
    and g: "\<And>r. c_id (g r) = c_id r"
    and "db_ok d" and "distinct rs" and "set rs \<subseteq> set (memories d)"
  shows "\<exists>d'. walk f (map scanRow rs) d = (length rs, None, d') \<and> db_ok d'
    \<and> memories d' = map (\<lambda>x. if x \<in> set rs then g x else x) (memories d)"
  using assms
proof (induction rs arbitrary: d)
  case (Cons r rs)
  have r: "r \<in> set (memories d)" using Cons.prems(5) by simp
  obtain d1 where d1: "f (scanRow r) d = (1, None, d1)" "db_ok d1"
    "memories d1 = map (\<lambda>x. if x = r then g x else x) (memories d)" using Cons.prems(1) [OF _ Cons.prems(3) r] by auto
  have ne: "x \<noteq> r" "x \<in> set (memories d)" if "x \<in> set rs" for x using that Cons.prems(4,5) by auto
  then have "set rs \<subseteq> set (memories d1)" by (auto simp: d1(3) image_iff)
  then obtain d2 where d2: "walk f (map scanRow rs) d1 = (length rs, None, d2)" "db_ok d2"
    "memories d2 = map (\<lambda>x. if x \<in> set rs then g x else x) (memories d1)"
    using Cons.IH [of d1] Cons.prems(1,2,4) d1(2) by auto
  have "g r \<notin> set rs"
    using ne unique_row(1) [OF Cons.prems(3) r] g [of r] by metis
  then have "memories d2 = map (\<lambda>x. if x \<in> set (r # rs) then g x else x) (memories d)"
    unfolding d2(3) d1(3) map_map using ne by (auto intro!: map_cong simp: comp_def)
  then show ?case using d1(1) d2(1,2) by simp
qed simp

lemma walk_namespaces_update:
  assumes g: "\<And>ns d. db_ok d \<Longrightarrow> \<exists>d'. h ns d = (length (filter (\<lambda>r. c_namespace r = ns \<and> bad r) (memories d)), None, d')
      \<and> db_ok d' \<and> memories d' = map (\<lambda>r. if c_namespace r = ns \<and> bad r then g r else r) (memories d)"
    and n: "\<And>r. c_namespace (g r) = c_namespace r"
    and "db_ok d" and "distinct nss"
  shows "\<exists>d'. walk h nss d = (length (filter (\<lambda>r. c_namespace r \<in> set nss \<and> bad r) (memories d)), None, d')
    \<and> db_ok d' \<and> memories d' = map (\<lambda>r. if c_namespace r \<in> set nss \<and> bad r then g r else r) (memories d)"
  using assms(3,4)
proof (induction nss arbitrary: d)
  case (Cons ns nss)
  obtain d1 where d1: "h ns d = (length (filter (\<lambda>r. c_namespace r = ns \<and> bad r) (memories d)), None, d1)" "db_ok d1"
    "memories d1 = map (\<lambda>r. if c_namespace r = ns \<and> bad r then g r else r) (memories d)" using g [OF Cons.prems(1)] by blast
  obtain d2 where d2: "walk h nss d1 = (length (filter (\<lambda>r. c_namespace r \<in> set nss \<and> bad r) (memories d1)), None, d2)"
    "db_ok d2" "memories d2 = map (\<lambda>r. if c_namespace r \<in> set nss \<and> bad r then g r else r) (memories d1)"
    using Cons.IH [OF d1(2)] Cons.prems(2) by auto
  have len: "length (filter (\<lambda>r. c_namespace r = ns \<and> bad r) t)
      + length (filter (\<lambda>r. c_namespace r \<in> set nss \<and> bad r) (map (\<lambda>r. if c_namespace r = ns \<and> bad r then g r else r) t))
      = length (filter (\<lambda>r. c_namespace r \<in> set (ns # nss) \<and> bad r) t)" for t
    using Cons.prems(2) by (induction t) (auto simp: n)
  have "memories d2 = map (\<lambda>r. if c_namespace r \<in> set (ns # nss) \<and> bad r then g r else r) (memories d)"
    unfolding d2(3) d1(3) map_map using Cons.prems(2) by (auto intro!: map_cong simp: comp_def n)
  then show ?case using d1(1) d2(1,2) len [of "memories d"] by (simp add: d1(3))
qed simp

lemma DemoteStale_exact:
  assumes "db_ok d"
  shows "\<exists>d'. DemoteStale u olderThan now d = (length (filter (demoted u olderThan now) (memories d)), None, d') \<and> db_ok d'
    \<and> memories d' = map (\<lambda>r. if demoted u olderThan now r then to_episodic now r else r) (memories d)"
proof -
  let ?F = "no_filter\<lparr> fTiers := longTermTiers, Now := now \<rparr>" let ?bad = "demoted u olderThan now"
  have h: "\<exists>d'. walk (demote_one olderThan now ns) (listed u ns ?F d) d
      = (length (filter (\<lambda>r. c_namespace r = ns \<and> ?bad r) (memories d)), None, d') \<and> db_ok d'
      \<and> memories d' = map (\<lambda>r. if c_namespace r = ns \<and> ?bad r then to_episodic now r else r) (memories d)"
    if ok: "db_ok d" for ns d
  proof -
    let ?rs = "filter (\<lambda>r. demotes olderThan now (scanRow r)) (listed_rows u ns ?F d)"
    have "walk (demote_one olderThan now ns) (listed u ns ?F d) d
        = walk (demote_one olderThan now ns) (filter (demotes olderThan now) (listed u ns ?F d)) d"
      by (rule walk_skip) (simp add: demote_one_def)
    then have w: "walk (demote_one olderThan now ns) (listed u ns ?F d) d = walk (demote_one olderThan now ns) (map scanRow ?rs) d"
      by (simp add: listed_map filter_map comp_def)
    have len: "length ?rs = length (filter (\<lambda>r. c_namespace r = ns \<and> ?bad r) (memories d))"
      unfolding length_listed_rows by (rule arg_cong [of _ _ length], rule filter_cong) (auto simp: demoted_iff)
    have "\<exists>d'. walk (demote_one olderThan now ns) (map scanRow ?rs) d = (length ?rs, None, d') \<and> db_ok d'
        \<and> memories d' = map (\<lambda>x. if x \<in> set ?rs then to_episodic now x else x) (memories d)"
    proof (rule walk_updates [OF _ _ ok])
      fix r e assume r: "r \<in> set ?rs" "db_ok e" "r \<in> set (memories e)"
      then have "demote_one olderThan now ns (scanRow r) e
          = tally e (Retier (c_namespace r) (c_id r) TierEpisodic (Some (now + DefaultTTL TierEpisodic)) e)"
        by (auto simp: demote_one_def scanRow_def)
      then show "\<exists>d'. demote_one olderThan now ns (scanRow r) e = (1, None, d') \<and> db_ok d'
          \<and> memories d' = map (\<lambda>x. if x = r then to_episodic now x else x) (memories e)"
        using Retier_row [OF r(2,3), of now] by (auto simp: tally_def)
    next
      show "distinct ?rs" using distinct_listed_rows [OF ok] by (rule distinct_filter)
    qed (auto simp: to_episodic_def)
    moreover have "map (\<lambda>x. if x \<in> set ?rs then to_episodic now x else x) (memories d)
        = map (\<lambda>r. if c_namespace r = ns \<and> ?bad r then to_episodic now r else r) (memories d)"
      by (rule map_cong) (auto simp: demoted_iff)
    ultimately show ?thesis unfolding w len by (simp only: cong: conj_cong)
  qed
  have all: "filter (\<lambda>r. c_namespace r \<in> set (ListNamespaces d) \<and> ?bad r) (memories d) = filter ?bad (memories d)"
    "map (\<lambda>r. if c_namespace r \<in> set (ListNamespaces d) \<and> ?bad r then to_episodic now r else r) (memories d)
     = map (\<lambda>r. if ?bad r then to_episodic now r else r) (memories d)"
    by (auto simp: ListNamespaces_set intro!: filter_cong map_cong)
  have "c_namespace (to_episodic now r) = c_namespace r" for r by (simp add: to_episodic_def)
  from walk_namespaces_update [OF h this assms ListNamespaces_distinct [of d]] show ?thesis
    unfolding all by (simp only: DemoteStale_def)
qed

end
