(* ===== verification/Dedup_Sound.thy ===== *)
theory Dedup_Sound
  imports Maintenance_Sound
begin

text \<open>
  The union-find computes connected components, the dedup leaves one live memory in every
  component, and the repair of supersession chains restores exactly the stranded memories.
\<close>

section \<open>Roots\<close>

text \<open>The root that the search is after; a map is good when every key has one.\<close>

inductive root_of :: "parents \<Rightarrow> string \<Rightarrow> string \<Rightarrow> bool" for p :: parents where
  at_root: "p x = Some x \<Longrightarrow> root_of p x x"
| up: "p x = Some y \<Longrightarrow> y \<noteq> x \<Longrightarrow> root_of p y r \<Longrightarrow> root_of p x r"

inductive_cases root_ofE: "root_of p x r"

definition uf_ok :: "parents \<Rightarrow> bool" where
  "uf_ok p \<longleftrightarrow> (\<forall>x \<in> dom p. \<exists>r. root_of p x r)"

lemma root_is_root: "root_of p x r \<Longrightarrow> p r = Some r"
  by (induction rule: root_of.induct)

lemma root_self: "p r = Some r \<Longrightarrow> root_of p r s \<longleftrightarrow> s = r"
  by (auto intro: at_root elim: root_ofE)

lemma root_up: "p x = Some y \<Longrightarrow> y \<noteq> x \<Longrightarrow> root_of p x s \<longleftrightarrow> root_of p y s"
  by (auto intro: up elim: root_ofE)

lemma root_unique: "root_of p x r \<Longrightarrow> root_of p x s \<Longrightarrow> s = r"
proof (induction rule: root_of.induct)
  case (at_root x)
  then show ?case by (simp add: root_self)
next
  case (up x y r)
  from up(1,2) have "root_of p x s \<longleftrightarrow> root_of p y s" by (rule root_up)
  then show ?case using up by simp
qed

lemma root_dom: "root_of p x r \<Longrightarrow> x \<in> dom p \<and> r \<in> dom p"
  using root_is_root by (auto elim: root_ofE)

text \<open>Compressing a path changes no root.\<close>

lemma compress_root:
  assumes x: "root_of p x r" and ne: "x \<noteq> r"
  shows "root_of (p(x \<mapsto> r)) y s \<longleftrightarrow> root_of p y s"
proof
  have r: "(p(x \<mapsto> r)) r = Some r" using root_is_root [OF x] ne by simp
  show "root_of (p(x \<mapsto> r)) y s \<Longrightarrow> root_of p y s"
  proof (induction rule: root_of.induct)
    case (at_root y)
    then show ?case using ne by (auto intro: root_of.at_root split: if_splits)
  next
    case (up y z s)
    show ?case
    proof (cases "y = x")
      case True
      then have "s = r" using up(1,4) root_is_root [OF x] by (simp add: root_self)
      then show ?thesis using x True by simp
    qed (use up in \<open>auto intro: root_of.up\<close>)
  qed
  show "root_of p y s \<Longrightarrow> root_of (p(x \<mapsto> r)) y s"
  proof (induction rule: root_of.induct)
    case (at_root y)
    then have "y \<noteq> x" using x ne root_self by metis
    then show ?case using at_root by (auto intro: root_of.at_root)
  next
    case (up y z s)
    show ?case
    proof (cases "y = x")
      case True
      then have "s = r" using root_unique [OF x] root_of.up [OF up(1-3)] by simp
      have "root_of (p(x \<mapsto> r)) r r" using r by (rule root_of.at_root)
      then have "root_of (p(x \<mapsto> r)) x r" using ne by (intro root_of.up [of _ x r]) simp_all
      then show ?thesis using True \<open>s = r\<close> by (simp del: fun_upd_apply)
    qed (use up in \<open>auto intro: root_of.up\<close>)
  qed
qed

lemma find_root:
  "root_of p x r \<Longrightarrow> \<exists>p'. uf_find x p = Some (r, p') \<and> dom p' = dom p \<and> root_of p' = root_of p"
proof (induction rule: root_of.induct)
  case (at_root x)
  then show ?case by (simp add: uf_find.simps [of x] parent_of_def)
next
  case (up x y r)
  then obtain p1 where p1: "uf_find y p = Some (r, p1)" "dom p1 = dom p" "root_of p1 = root_of p" by blast
  have x: "root_of p x r" using root_of.up [OF up(1-3)] .
  have "x \<noteq> r" using root_is_root [OF x] up(1,2) by auto
  then have "root_of (p1(x \<mapsto> r)) = root_of p" using compress_root [of p1 x r] x p1(3) by (intro ext) simp
  moreover have "dom (p1(x \<mapsto> r)) = dom p" using p1(2) root_dom [OF x] by auto
  ultimately show ?case using up(1,2) p1(1) by (simp add: uf_find.simps [of x] parent_of_def)
qed

text \<open>Hanging one root below another.\<close>

lemma link_root:
  assumes rx: "p rx = Some rx" and ry: "p ry = Some ry" and ne: "rx \<noteq> ry" and z: "root_of p z t"
  shows "root_of (p(rx \<mapsto> ry)) z (if t = rx then ry else t)"
  using z
proof (induction rule: root_of.induct)
  case (at_root z)
  have "root_of (p(rx \<mapsto> ry)) ry ry" using ry ne by (intro root_of.at_root) simp
  then have "root_of (p(rx \<mapsto> ry)) rx ry" using ne by (intro root_of.up [of _ rx ry]) simp_all
  moreover have "root_of (p(rx \<mapsto> ry)) z z" if "z \<noteq> rx" using at_root that by (intro root_of.at_root) simp
  ultimately show ?case by (simp del: fun_upd_apply)
next
  case (up z y t)
  have "z \<noteq> rx" using up(1,2) rx by auto
  then show ?case using up by (auto intro: root_of.up)
qed

section \<open>Classes\<close>

definition same :: "parents \<Rightarrow> string \<Rightarrow> string \<Rightarrow> bool" where
  "same p a b \<longleftrightarrow> (\<exists>r. root_of p a r \<and> root_of p b r)"

lemma same_dom: "same p a b \<Longrightarrow> a \<in> dom p \<and> b \<in> dom p"
  using root_dom by (auto simp: same_def)

lemma same_refl: "uf_ok p \<Longrightarrow> a \<in> dom p \<Longrightarrow> same p a a"
  by (auto simp: uf_ok_def same_def)

lemma same_sym: "same p a b \<Longrightarrow> same p b a"
  by (auto simp: same_def)

lemma same_trans: "same p a b \<Longrightarrow> same p b c \<Longrightarrow> same p a c"
proof -
  assume "same p a b" "same p b c"
  then obtain r s where "root_of p a r" "root_of p b r" "root_of p b s" "root_of p c s" by (auto simp: same_def)
  then show "same p a c" using root_unique [of p b r s] by (auto simp: same_def)
qed

lemma same_roots: "root_of p a s \<Longrightarrow> root_of p b t \<Longrightarrow> same p a b \<longleftrightarrow> s = t"
proof -
  assume a: "root_of p a s" and b: "root_of p b t"
  show "same p a b \<longleftrightarrow> s = t"
    using a b root_unique [OF a] root_unique [OF b] unfolding same_def by blast
qed

lemma union_same:
  assumes ok: "uf_ok p" and x: "x \<in> dom p" and y: "y \<in> dom p"
  shows "\<exists>p'. uf_union x y p = Some p' \<and> uf_ok p' \<and> dom p' = dom p
    \<and> (\<forall>a b. same p' a b \<longleftrightarrow> same p a b \<or> (same p a x \<and> same p y b) \<or> (same p a y \<and> same p x b))"
proof -
  obtain rx where rx: "root_of p x rx" using ok x by (auto simp: uf_ok_def)
  obtain p1 where p1: "uf_find x p = Some (rx, p1)" "dom p1 = dom p" "root_of p1 = root_of p" using find_root [OF rx] by blast
  obtain ry where ry: "root_of p y ry" using ok y by (auto simp: uf_ok_def)
  then have "root_of p1 y ry" using p1(3) by simp
  then obtain p2 where p2: "uf_find y p1 = Some (ry, p2)" "dom p2 = dom p" "root_of p2 = root_of p"
    using find_root p1(2,3) by metis
  show ?thesis
  proof (cases "rx = ry")
    case True
    then have "uf_union x y p = Some p2" using p1(1) p2(1) by (simp add: uf_union_def)
    moreover have "uf_ok p2" using ok p2(2,3) by (simp add: uf_ok_def)
    moreover have "same p2 a b \<longleftrightarrow> same p a b" for a b by (simp add: same_def p2(3))
    moreover have "same p x y" using rx ry True by (auto simp: same_def)
    moreover have "same p a b \<longleftrightarrow> same p a b \<or> (same p a x \<and> same p y b) \<or> (same p a y \<and> same p x b)" for a b
      using \<open>same p x y\<close> by (blast intro: same_trans same_sym)
    ultimately show ?thesis using p2(2) by simp
  next
    case False
    define q where "q = p2(rx \<mapsto> ry)"
    have u: "uf_union x y p = Some q" using p1(1) p2(1) False by (simp add: uf_union_def q_def)
    have roots: "p2 rx = Some rx" "p2 ry = Some ry" using root_is_root rx ry p2(3) by metis+
    have to: "root_of q z (if t = rx then ry else t)" if "root_of p z t" for z t
      using link_root [OF roots False] that by (simp add: q_def p2(3))
    have dom: "dom q = dom p" using p2(2) root_dom [OF rx] by (auto simp: q_def)
    have "uf_ok q" using ok to dom unfolding uf_ok_def by metis
    moreover have "same q a b \<longleftrightarrow> same p a b \<or> (same p a x \<and> same p y b) \<or> (same p a y \<and> same p x b)" for a b
    proof (cases "a \<in> dom p \<and> b \<in> dom p")
      case True
      then obtain ta tb where t: "root_of p a ta" "root_of p b tb" using ok unfolding uf_ok_def by blast
      show ?thesis
        unfolding same_roots [OF to [OF t(1)] to [OF t(2)]] same_roots [OF t] same_roots [OF t(1) rx] same_roots [OF ry t(2)]
          same_roots [OF t(1) ry] same_roots [OF rx t(2)] using False by auto
    qed (use dom same_dom in blast)
    ultimately show ?thesis using u dom by blast
  qed
qed

lemma newUnionFind_ok: "uf_ok (newUnionFind ids)" "dom (newUnionFind ids) = set ids"
  "same (newUnionFind ids) a b \<longleftrightarrow> a = b \<and> a \<in> set ids"
proof -
  have r: "root_of (newUnionFind ids) x x" if "x \<in> set ids" for x
    using that by (intro at_root) (simp add: newUnionFind_def)
  show dom: "dom (newUnionFind ids) = set ids" by (auto simp: newUnionFind_def split: if_splits)
  then show "uf_ok (newUnionFind ids)" using r unfolding uf_ok_def by blast
  show "same (newUnionFind ids) a b \<longleftrightarrow> a = b \<and> a \<in> set ids"
    using r root_unique root_dom dom unfolding same_def by metis
qed

section \<open>Connected components\<close>

text \<open>Two memories are connected when a path of joined pairs leads from one to the other.\<close>

definition linked :: "string set \<Rightarrow> (string \<times> string) set \<Rightarrow> string \<Rightarrow> string \<Rightarrow> bool" where
  "linked V E a b \<longleftrightarrow> a \<in> V \<and> b \<in> V \<and> (a, b) \<in> (E \<union> E\<inverse>)\<^sup>*"

definition components_of :: "string set \<Rightarrow> (string \<times> string) set \<Rightarrow> parents \<Rightarrow> bool" where
  "components_of V E p \<longleftrightarrow> uf_ok p \<and> dom p = V \<and> (\<forall>a b. same p a b \<longleftrightarrow> linked V E a b)"

lemma linked_insert:
  assumes "x \<in> V" and "y \<in> V" and "E \<subseteq> V \<times> V"
  shows "linked V (insert (x, y) E) a b \<longleftrightarrow>
    linked V E a b \<or> (linked V E a x \<and> linked V E y b) \<or> (linked V E a y \<and> linked V E x b)"
proof -
  let ?S = "E \<union> E\<inverse>"
  have sym: "(b, a) \<in> ?S\<^sup>*" if "(a, b) \<in> ?S\<^sup>*" for a b
    using that sym_rtrancl [of ?S] by (auto simp: sym_Un_converse dest: symD)
  have i: "insert (x, y) E \<union> (insert (x, y) E)\<inverse> = insert (x, y) (insert (y, x) ?S)" by auto
  have "(a, b) \<in> (insert (x, y) (insert (y, x) ?S))\<^sup>* \<longleftrightarrow>
      (a, b) \<in> ?S\<^sup>* \<or> ((a, x) \<in> ?S\<^sup>* \<and> (y, b) \<in> ?S\<^sup>*) \<or> ((a, y) \<in> ?S\<^sup>* \<and> (x, b) \<in> ?S\<^sup>*)"
    unfolding rtrancl_insert [of x y] rtrancl_insert [of y x] by (auto intro: rtrancl_trans)
  then show ?thesis using assms(1,2) unfolding linked_def i by blast
qed

lemma components_union:
  assumes c: "components_of V E p" and "x \<in> V" and "y \<in> V" and "E \<subseteq> V \<times> V"
  shows "\<exists>p'. uf_union x y p = Some p' \<and> components_of V (insert (x, y) E) p'"
proof -
  have ok: "uf_ok p" "dom p = V" "\<And>a b. same p a b \<longleftrightarrow> linked V E a b" using c by (auto simp: components_of_def)
  from union_same [OF ok(1), of x y] assms(2,3) ok(2) obtain p' where
    p': "uf_union x y p = Some p'" "uf_ok p'" "dom p' = V"
      "\<And>a b. same p' a b \<longleftrightarrow> same p a b \<or> (same p a x \<and> same p y b) \<or> (same p a y \<and> same p x b)" by auto
  then show ?thesis unfolding components_of_def linked_insert [OF assms(2-4)] by (simp add: ok(3))
qed

section \<open>Linking the anchors\<close>

lemma join_all_components:
  assumes "components_of V E p" and "a \<in> V" and "E \<subseteq> V \<times> V"
  shows "\<exists>p'. join_all a bs p = Some p' \<and> components_of V (E \<union> {(a, b) |b. b \<in> set bs \<inter> V}) p'"
  using assms
proof (induction bs arbitrary: p E)
  case (Cons b bs)
  show ?case
  proof (cases "b \<in> V")
    case True
    from components_union [OF Cons.prems(1,2) True Cons.prems(3)] obtain p1 where
      p1: "uf_union a b p = Some p1" "components_of V (insert (a, b) E) p1" by blast
    have "insert (a, b) E \<subseteq> V \<times> V" using Cons.prems(2,3) True by auto
    from Cons.IH [OF p1(2) Cons.prems(2) this] obtain p' where
      p': "join_all a bs p1 = Some p'" "components_of V (insert (a, b) E \<union> {(a, b) |b. b \<in> set bs \<inter> V}) p'" by blast
    have "insert (a, b) E \<union> {(a, b) |b. b \<in> set bs \<inter> V} = E \<union> {(a, c) |c. c \<in> set (b # bs) \<inter> V}" using True by auto
    moreover have "p b \<noteq> None" using True Cons.prems(1) by (auto simp: components_of_def)
    ultimately show ?thesis using p1(1) p' by auto
  next
    case False
    then have "{(a, c) |c. c \<in> set (b # bs) \<inter> V} = {(a, b) |b. b \<in> set bs \<inter> V}" by auto
    moreover have "p b = None" using False Cons.prems(1) by (auto simp: components_of_def)
    ultimately show ?thesis using Cons.IH [OF Cons.prems] by simp
  qed
qed simp

text \<open>The pairs that a pass joins.\<close>

fun anchor_edges ::
    "(vec \<Rightarrow> store_error + Scored list) \<Rightarrow> nat \<Rightarrow> real \<Rightarrow> string set \<Rightarrow> memory list \<Rightarrow> vec list \<Rightarrow> (string \<times> string) set" where
  "anchor_edges search n sim V (m # rest) (v # vs) =
     (if v = [] \<or> length v \<noteq> n then {}
      else (case search v of
              Inl e \<Rightarrow> {}
            | Inr cands \<Rightarrow> {(ID m, b) |b. b \<in> set (joined_hits sim (ID m) cands) \<inter> V}))
     \<union> anchor_edges search n sim V rest vs"
| "anchor_edges search n sim V _ _ = {}"

lemma link_anchors_components:
  assumes "components_of V E p" and "E \<subseteq> V \<times> V" and "ID ` set mems \<subseteq> V"
  shows "\<exists>r. link_anchors search n sim mems vecs p = Some r
    \<and> (\<forall>p'. r = Inr p' \<longrightarrow> components_of V (E \<union> anchor_edges search n sim V mems vecs) p')"
  using assms
proof (induction search n sim mems vecs p arbitrary: E rule: link_anchors.induct)
  case (2 search n sim m rest vecs p)
  have sub: "ID ` set rest \<subseteq> V" and m: "ID m \<in> V" using 2(6) by auto
  show ?case
  proof (cases vecs)
    case Nil
    have none: "anchor_edges search n sim V rest [] = {}" by (cases rest) simp_all
    show ?thesis using 2(1) [OF Nil 2(4,5) sub] Nil none by simp
  next
    case (Cons v vs)
    show ?thesis
    proof (cases "v = [] \<or> length v \<noteq> n")
      case True
      then show ?thesis using 2(2) [OF Cons True 2(4,5) sub] Cons by auto
    next
      case False
      show ?thesis
      proof (cases "search v")
        case (Inr cands)
        let ?N = "{(ID m, b) |b. b \<in> set (joined_hits sim (ID m) cands) \<inter> V}"
        obtain p1 where p1: "join_all (ID m) (joined_hits sim (ID m) cands) p = Some p1" "components_of V (E \<union> ?N) p1"
          using join_all_components [OF 2(4) m 2(5)] by blast
        have "E \<union> ?N \<subseteq> V \<times> V" using 2(5) m by auto
        from 2(3) [OF Cons False Inr p1 this sub] show ?thesis
          using Cons False Inr p1(1) by (simp add: Un_assoc)
      qed (use Cons False in simp)
    qed
  qed
qed simp

lemma roots_of_done:
  assumes "uf_ok p" and "set xs \<subseteq> dom p"
  shows "\<exists>rs p'. roots_of xs p = Some (rs, p') \<and> list_all2 (root_of p) xs rs"
  using assms
proof (induction xs arbitrary: p)
  case (Cons x xs)
  then obtain r where r: "root_of p x r" unfolding uf_ok_def by (meson list.set_intros(1) subsetD)
  from find_root [OF r] obtain p1 where p1: "uf_find x p = Some (r, p1)" "dom p1 = dom p" "root_of p1 = root_of p" by blast
  then have "uf_ok p1" "set xs \<subseteq> dom p1" using Cons.prems by (simp_all add: uf_ok_def)
  from Cons.IH [OF this] obtain rs p' where "roots_of xs p1 = Some (rs, p')" "list_all2 (root_of p1) xs rs" by blast
  then show ?case using p1 r by auto
qed simp

text \<open>The clusters: one for each root.\<close>

lemma components_by_roots:
  "components_by (map f xs) xs = map (\<lambda>k. filter (\<lambda>x. f x = k) xs) (remdups (map f xs))"
proof -
  have "map snd (filter (\<lambda>(r, x). r = k) (zip (map f ys) ys)) = filter (\<lambda>x. f x = k) ys" for k ys
    by (induction ys) simp_all
  then show ?thesis by (simp add: components_by_def)
qed

section \<open>Retiring the clusters\<close>

definition big :: "DedupOptions \<Rightarrow> 'a list \<Rightarrow> bool" where
  "big opts C \<longleftrightarrow> MinClusterSize opts \<le> int (length C)"

definition keeper :: "upkeep \<Rightarrow> DedupOptions \<Rightarrow> memory list \<Rightarrow> memory" where
  "keeper u opts C = hd (SliceStable (betterRepresentative (up_tuning u) (dNow opts)) C)"

text \<open>The id that stands for a memory after the pass: its own when it is not in a large cluster.\<close>

fun rep_id :: "upkeep \<Rightarrow> DedupOptions \<Rightarrow> memory list list \<Rightarrow> string \<Rightarrow> string" where
  "rep_id u opts [] i = i"
| "rep_id u opts (C # Cs) i = (if big opts C \<and> i \<in> ID ` set C then ID (keeper u opts C) else rep_id u opts Cs i)"

definition supersede_row :: "Time \<Rightarrow> string \<Rightarrow> mem_row \<Rightarrow> mem_row" where
  "supersede_row wall k r = r\<lparr> c_superseded_by := Some k,
     c_valid_to := (case c_valid_to r of Some v \<Rightarrow> Some v | None \<Rightarrow> Some (ms wall)) \<rparr>"

definition retire :: "Time \<Rightarrow> (string \<Rightarrow> string) \<Rightarrow> mem_row \<Rightarrow> mem_row" where
  "retire wall rep r = (if rep (c_id r) = c_id r then r else supersede_row wall (rep (c_id r)) r)"

lemma update_row_of:
  assumes ok: "db_ok d" and r: "r \<in> set (memories d)" and ind: "\<And>r. indexed (g r) = indexed r"
  shows "\<exists>d'. update_or_notfound (row_at (c_namespace r) (c_id r)) g d = Inr d' \<and> db_ok d'
    \<and> memories d' = map (\<lambda>x. if x = r then g x else x) (memories d)"
proof -
  have p: "row_at (c_namespace r) (c_id r) x \<longleftrightarrow> x = r" if "x \<in> set (memories d)" for x
    using unique_row(1) [OF ok r that] by (auto simp: row_at_def)
  have "\<exists>x \<in> set (memories d). row_at (c_namespace r) (c_id r) x" using p r by blast
  then obtain d' where d': "update_or_notfound (row_at (c_namespace r) (c_id r)) g d = Inr d'"
    by (auto simp: update_or_notfound_def)
  then have "memories d' = update_where (row_at (c_namespace r) (c_id r)) g (memories d)"
    by (auto simp: update_or_notfound_def split: if_splits)
  also have "\<dots> = map (\<lambda>x. if x = r then g x else x) (memories d)"
    unfolding update_where_def by (rule map_cong) (simp_all add: p)
  finally show ?thesis using d' db_ok_update_or_notfound [OF ind ok d'] by blast
qed

lemma supersede_one_row:
  assumes "db_ok d" and "r \<in> set (memories d)" and "c_namespace r = ns"
  shows "\<exists>d'. supersede_one wall ns k (scanRow r) d = (1, None, d') \<and> db_ok d'
    \<and> memories d' = map (\<lambda>x. if x = r then supersede_row wall k x else x) (memories d)"
proof -
  have "indexed (supersede_row wall k r) = indexed r" for r by (simp add: supersede_row_def indexed_def)
  from update_row_of [OF assms(1,2) this] obtain d' where
    "update_or_notfound (row_at (c_namespace r) (c_id r)) (supersede_row wall k) d = Inr d'" "db_ok d'"
    "memories d' = map (\<lambda>x. if x = r then supersede_row wall k x else x) (memories d)" by blast
  moreover have "SetSuperseded wall ns (ID (scanRow r)) k d
      = update_or_notfound (row_at (c_namespace r) (c_id r)) (supersede_row wall k) d"
    by (simp add: SetSuperseded_def supersede_row_def [abs_def] assms(3) [symmetric] scanRow_def)
  ultimately show ?thesis by (simp add: supersede_one_def tally_def)
qed

interpretation better: strict_weak_order "betterRepresentative tun now" for tun now
  by unfold_locales (auto simp: betterRepresentative_def After_def Let_def split: if_splits)

lemma keeper_best:
  assumes "C \<noteq> []"
  shows "keeper u opts C \<in> set C"
    and "m \<in> set C \<Longrightarrow> RetentionScore (up_tuning u) m (dNow opts) \<le> RetentionScore (up_tuning u) (keeper u opts C) (dNow opts)"
proof -
  let ?lt = "betterRepresentative (up_tuning u) (dNow opts)"

  obtain k ks where s: "SliceStable ?lt C = k # ks" using assms
    by (metis list.exhaust set_SliceStable set_empty)
  have set: "set C = insert k (set ks)" using set_SliceStable [of ?lt C] s by simp
  show "keeper u opts C \<in> set C" using set s by (simp add: keeper_def)
  assume "m \<in> set C"
  moreover have "\<forall>x \<in> set ks. \<not> ?lt x k" using better.sorted_SliceStable [of "up_tuning u" "dNow opts" C] s by simp
  ultimately have "\<not> ?lt m k \<or> m = k" using set by auto
  then show "RetentionScore (up_tuning u) m (dNow opts) \<le> RetentionScore (up_tuning u) (keeper u opts C) (dNow opts)"
    using s by (auto simp: keeper_def betterRepresentative_def Let_def split: if_splits)
qed

lemma id_among:
  assumes "db_ok d" and "x \<in> set (memories d)" and "set rows \<subseteq> set (memories d)"
  shows "c_id x \<in> ID ` set (map scanRow rows) \<longleftrightarrow> x \<in> set rows"
proof -
  have "ID ` set (map scanRow rows) = c_id ` set rows" by (simp add: image_image scanRow_def)
  moreover have "c_id x \<in> c_id ` set rows \<longleftrightarrow> x \<in> set rows"
  proof
    assume "c_id x \<in> c_id ` set rows"
    then obtain y where y: "c_id y = c_id x" "y \<in> set rows" by force
    then show "x \<in> set rows" using unique_row(1) [OF assms(1,2), of y] assms(3) by auto
  qed simp
  ultimately show ?thesis by simp
qed

lemma retire_one_cluster:
  fixes rows :: "mem_row list"
  defines "C \<equiv> map scanRow rows"
  assumes ok: "db_ok d" and rows: "set rows \<subseteq> set (memories d)" "distinct rows" "rows \<noteq> []"
    and ns: "\<forall>r \<in> set rows. c_namespace r = ns"
  shows "\<exists>losers d'. SliceStable (betterRepresentative (up_tuning u) (dNow opts)) C = keeper u opts C # losers
    \<and> length losers = length C - 1
    \<and> walk (supersede_one wall ns (ID (keeper u opts C))) losers d = (length losers, None, d') \<and> db_ok d'
    \<and> memories d' = map (retire wall (\<lambda>i. if i \<in> ID ` set C then ID (keeper u opts C) else i)) (memories d)"
proof -
  let ?lt = "betterRepresentative (up_tuning u) (dNow opts)" let ?k = "ID (keeper u opts C)"
  have "mset (SliceStable ?lt C) = mset (map scanRow rows)" by (simp add: C_def)
  from map_of_permuted [OF this scanRow_inj [OF ok rows(1)]] obtain rs where
    rs: "SliceStable ?lt C = map scanRow rs" "mset rs = mset rows" .
  have d: "distinct rs" "set rs = set rows" "length rs = length rows"
    using rows(2) mset_eq_imp_distinct_iff [OF rs(2)] mset_eq_setD [OF rs(2)] mset_eq_length [OF rs(2)] by blast+
  then obtain kr ls where kr: "rs = kr # ls" using rows(3) by (cases rs) auto
  have k: "SliceStable ?lt C = keeper u opts C # map scanRow ls" "keeper u opts C = scanRow kr"
    using rs(1) kr by (simp_all add: keeper_def)
  have kid: "?k = c_id kr" by (simp add: k(2) scanRow_def)
  have ls: "set ls \<subseteq> set (memories d)" "kr \<in> set (memories d)" "\<forall>r \<in> set ls. c_namespace r = ns"
    using d(2) kr rows(1) ns by auto
  have "\<exists>d'. walk (supersede_one wall ns ?k) (map scanRow ls) d = (length ls, None, d') \<and> db_ok d'
    \<and> memories d' = map (\<lambda>x. if x \<in> set ls then supersede_row wall ?k x else x) (memories d)"
  proof (rule walk_updates [OF _ _ ok _ ls(1)])
    fix r e assume "r \<in> set ls" "db_ok e" "r \<in> set (memories e)"
    then show "\<exists>d'. supersede_one wall ns ?k (scanRow r) e = (1, None, d') \<and> db_ok d'
        \<and> memories d' = map (\<lambda>x. if x = r then supersede_row wall ?k x else x) (memories e)"
      using supersede_one_row ls(3) by blast
  qed (use d(1) kr in \<open>simp_all add: supersede_row_def\<close>)
  then obtain d' where d': "walk (supersede_one wall ns ?k) (map scanRow ls) d = (length ls, None, d')" "db_ok d'"
    "memories d' = map (\<lambda>x. if x \<in> set ls then supersede_row wall ?k x else x) (memories d)" by blast
  have "(if x \<in> set ls then supersede_row wall ?k x else x)
      = retire wall (\<lambda>i. if i \<in> ID ` set C then ?k else i) x" if x: "x \<in> set (memories d)" for x
  proof -
    have "c_id x \<in> ID ` set C \<longleftrightarrow> x \<in> set rows"
      unfolding C_def by (rule id_among [OF ok x rows(1)])
    then have among: "c_id x \<in> ID ` set C \<longleftrightarrow> x = kr \<or> x \<in> set ls" using d(2) kr by auto
    have k: "c_id x = ?k \<longleftrightarrow> x = kr" unfolding kid using unique_row(1) [OF ok ls(2) x] .
    show ?thesis
    proof (cases "x \<in> set ls")
      case True
      then have "x \<noteq> kr" using d(1) kr by auto
      then have "?k \<noteq> c_id x" using k by metis
      then show ?thesis using True among by (simp add: retire_def)
    next
      case False
      then have "c_id x \<in> ID ` set C \<Longrightarrow> ?k = c_id x" using among k by metis
      then show ?thesis using False by (auto simp: retire_def)
    qed
  qed
  then have "memories d' = map (retire wall (\<lambda>i. if i \<in> ID ` set C then ?k else i)) (memories d)"
    unfolding d'(3) by (intro map_cong) simp_all
  moreover have "length ls = length C - 1" using d(3) kr by (simp add: C_def)
  ultimately show ?thesis using k(1) d'(1,2) by (intro exI [of _ "map scanRow ls"] exI [of _ d']) simp
qed

lemma rep_id_outside: "i \<notin> ID ` set (concat Cs) \<Longrightarrow> rep_id u opts Cs i = i"
  by (induction Cs) auto

lemma retire_clusters_done:
  assumes "db_ok d" and "Merger opts = None" and "\<not> dDryRun opts" and "1 \<le> MinClusterSize opts"
    and "\<forall>rows \<in> set rss. set rows \<subseteq> set (memories d) \<and> distinct rows \<and> (\<forall>r \<in> set rows. c_namespace r = ns)"
    and "distinct (concat rss)"
  shows "\<exists>res' d'. retire_clusters u emb opts ns (map (map scanRow) rss) res d = (res', None, d') \<and> db_ok d'
    \<and> memories d' = map (retire (up_wall u) (rep_id u opts (map (map scanRow) rss))) (memories d)
    \<and> tombstoned res' = tombstoned res + sum_list (map (\<lambda>rows. length rows - 1) (filter (big opts) rss))
    \<and> memoriesSeen res' = memoriesSeen res"
  using assms
proof (induction rss arbitrary: d res)
  case Nil
  have "retire (up_wall u) (\<lambda>i. i) = (\<lambda>r. r)" by (intro ext) (simp add: retire_def)
  then show ?case using Nil by simp
next
  case (Cons rows rss)
  let ?C = "map scanRow rows" let ?Cs = "map (map scanRow) rss"
  show ?case
  proof (cases "big opts rows")
    case False
    then have "rep_id u opts (map (map scanRow) (rows # rss)) = rep_id u opts ?Cs" by (intro ext) (simp add: big_def)
    then show ?thesis using Cons.IH [of d res] Cons.prems False by (simp add: big_def not_le)
  next
    case True
    then have ne: "rows \<noteq> []" using Cons.prems(4) by (auto simp: big_def)
    let ?k = "ID (keeper u opts ?C)"
    obtain losers d1 where d1: "SliceStable (betterRepresentative (up_tuning u) (dNow opts)) ?C = keeper u opts ?C # losers"
      "length losers = length rows - 1" "walk (supersede_one (up_wall u) ns ?k) losers d = (length losers, None, d1)" "db_ok d1"
      "memories d1 = map (retire (up_wall u) (\<lambda>i. if i \<in> ID ` set ?C then ?k else i)) (memories d)"
      using retire_one_cluster [OF Cons.prems(1) _ _ ne, of ns u opts "up_wall u"] Cons.prems(5) by auto
    have keep: "x \<in> set (memories d1)" if "xs \<in> set rss" "x \<in> set xs" for xs x
    proof -
      have x: "x \<in> set (memories d)" "x \<notin> set rows" using that Cons.prems(5,6) by auto
      have "c_id x \<notin> ID ` set ?C"
        using id_among [OF Cons.prems(1) x(1), of rows] Cons.prems(5) x(2) by simp
      then have "retire (up_wall u) (\<lambda>i. if i \<in> ID ` set ?C then ?k else i) x = x" by (simp add: retire_def)
      then show ?thesis using x(1) unfolding d1(5) by force
    qed
    define res1 where "res1 = add_tombstones (length losers) (add_cluster (keeper u opts ?C) losers res)"
    have sub: "\<forall>xs \<in> set rss. set xs \<subseteq> set (memories d1) \<and> distinct xs \<and> (\<forall>r \<in> set xs. c_namespace r = ns)"
      using keep Cons.prems(5) by auto
    have ds: "distinct (concat rss)" using Cons.prems(6) by simp
    from Cons.IH [OF d1(4) Cons.prems(2-4) sub ds, of res1] obtain res' d' where d': "retire_clusters u emb opts ns ?Cs res1 d1 = (res', None, d')" "db_ok d'"
      "memories d' = map (retire (up_wall u) (rep_id u opts ?Cs)) (memories d1)"
      "tombstoned res' = tombstoned res1 + sum_list (map (\<lambda>rows. length rows - 1) (filter (big opts) rss))"
      "memoriesSeen res' = memoriesSeen res1" by blast
    have "retire_clusters u emb opts ns (map (map scanRow) (rows # rss)) res d = (res', None, d')"
      using True d1(1,3) d'(1) Cons.prems(2,3) by (simp add: big_def mergeCluster_def Let_def res1_def not_less)
    moreover have "memories d' = map (retire (up_wall u) (rep_id u opts (map (map scanRow) (rows # rss)))) (memories d)"
    proof -
      have "retire (up_wall u) (rep_id u opts ?Cs) (retire (up_wall u) (\<lambda>i. if i \<in> ID ` set ?C then ?k else i) x)
          = retire (up_wall u) (rep_id u opts (map (map scanRow) (rows # rss))) x" if x: "x \<in> set (memories d)" for x
      proof (cases "c_id x \<in> ID ` set ?C")
        case False
        then show ?thesis by (simp add: retire_def)
      next
        case True
        then have "x \<in> set rows" using id_among [OF Cons.prems(1) x, of rows] Cons.prems(5) by simp
        then have "x \<notin> set (concat rss)" using Cons.prems(6) by auto
        moreover have "set (concat rss) \<subseteq> set (memories d)" using Cons.prems(5) by auto
        ultimately have "c_id x \<notin> ID ` set (concat ?Cs)"
          using id_among [OF Cons.prems(1) x, of "concat rss"] unfolding map_concat [symmetric] by blast
        then have "rep_id u opts ?Cs (c_id x) = c_id x" by (rule rep_id_outside)
        then show ?thesis using True \<open>big opts rows\<close> by (simp add: retire_def supersede_row_def big_def)
      qed
      then show ?thesis unfolding d'(3) d1(5) map_map by (intro map_cong) simp_all
    qed
    moreover have "tombstoned res1 = tombstoned res + (length rows - 1)" "memoriesSeen res1 = memoriesSeen res"
      by (simp_all add: res1_def add_tombstones_def add_cluster_def d1(2))
    ultimately show ?thesis using d'(2,4,5) True by (intro exI [of _ res'] exI [of _ d'] conjI) (assumption | simp)+
  qed
qed

section \<open>A namespace\<close>

lemma distinct_classes: "distinct xs \<Longrightarrow> distinct ks \<Longrightarrow> distinct (concat (map (\<lambda>k. filter (\<lambda>x. f x = k) xs) ks))"
  by (induction ks) auto

lemma rep_id_class:
  assumes "distinct (map ID mems)" and m: "m \<in> set mems"
  shows "rep_id u opts (map (\<lambda>k. filter (\<lambda>x. f x = k) mems) ks) (ID m) =
    (if f m \<in> set ks \<and> big opts (filter (\<lambda>x. f x = f m) mems) then ID (keeper u opts (filter (\<lambda>x. f x = f m) mems)) else ID m)"
proof (induction ks)
  case (Cons k ks)
  have i: "x = m" if "x \<in> set mems" "ID x = ID m" for x
    using assms that by (auto simp: distinct_map inj_on_def)
  have "ID m \<in> ID ` set (filter (\<lambda>x. f x = k) mems) \<longleftrightarrow> f m = k"
    using m by (auto simp: image_iff dest: i [OF _ sym])
  then show ?case using Cons.IH by (auto simp: big_def)
qed simp

lemma snapshot_rows:
  "live_snapshot u opts ns d = map scanRow (filter (\<lambda>r. \<not> Expired (scanRow r) (dNow opts)) (listed_rows u ns (dedup_filter opts) d))"
  by (simp add: live_snapshot_def listed_map filter_map comp_def)

lemma distinct_ids:
  assumes "db_ok d" and "set rows \<subseteq> set (memories d)" and "distinct rows"
  shows "distinct (map ID (map scanRow rows))"
  using assms(3) unique_row(1) [OF assms(1)] assms(2)
  by (auto simp: distinct_map inj_on_def scanRow_def)

text \<open>What stands for what after a pass over the memories \<open>mems\<close> joined by the pairs \<open>E\<close>.\<close>

definition stands_for :: "upkeep \<Rightarrow> DedupOptions \<Rightarrow> memory list \<Rightarrow> (string \<times> string) set \<Rightarrow> (string \<Rightarrow> string) \<Rightarrow> bool" where
  "stands_for u opts mems E rep \<longleftrightarrow>
     (let V = ID ` set mems in
       (\<forall>i. i \<notin> V \<longrightarrow> rep i = i) \<and>
       (\<forall>i \<in> V. linked V E i (rep i) \<and> rep (rep i) = rep i) \<and>
       (\<forall>i \<in> V. \<forall>j \<in> V. rep i = rep j \<longleftrightarrow>
          i = j \<or> (linked V E i j \<and> MinClusterSize opts \<le> int (card {k. linked V E i k}))) \<and>
       (\<forall>m \<in> set mems. \<forall>k \<in> set mems. ID k = rep (ID m) \<longrightarrow>
          RetentionScore (up_tuning u) m (dNow opts) \<le> RetentionScore (up_tuning u) k (dNow opts)))"

lemma classes_stand:
  assumes ids: "distinct (map ID mems)"
    and f: "\<And>m k. m \<in> set mems \<Longrightarrow> k \<in> set mems \<Longrightarrow> f m = f k \<longleftrightarrow> linked (ID ` set mems) E (ID m) (ID k)"
  shows "stands_for u opts mems E (rep_id u opts (map (\<lambda>k. filter (\<lambda>x. f x = k) mems) (remdups (map f mems))))"
proof -
  let ?V = "ID ` set mems" and ?C = "\<lambda>m. filter (\<lambda>x. f x = f m) mems"
  let ?rep = "rep_id u opts (map (\<lambda>k. filter (\<lambda>x. f x = k) mems) (remdups (map f mems)))"
  have rep: "?rep (ID m) = (if big opts (?C m) then ID (keeper u opts (?C m)) else ID m)" if "m \<in> set mems" for m
    using rep_id_class [OF ids that, of u opts f "remdups (map f mems)"] that by simp
  have inj: "x = y" if "x \<in> set mems" "y \<in> set mems" "ID x = ID y" for x y
    using ids that by (auto simp: distinct_map inj_on_def)
  have kp: "keeper u opts (?C m) \<in> set mems" "f (keeper u opts (?C m)) = f m"
    "x \<in> set mems \<Longrightarrow> f x = f m \<Longrightarrow> RetentionScore (up_tuning u) x (dNow opts)
      \<le> RetentionScore (up_tuning u) (keeper u opts (?C m)) (dNow opts)" if "m \<in> set mems" for m x
  proof -
    have "m \<in> set (?C m)" using that by simp
    then have ne: "?C m \<noteq> []" by (cases "?C m") auto
    have "keeper u opts (?C m) \<in> set (?C m)" by (rule keeper_best(1) [OF ne])
    then show "keeper u opts (?C m) \<in> set mems" "f (keeper u opts (?C m)) = f m" by simp_all
    show "x \<in> set mems \<Longrightarrow> f x = f m \<Longrightarrow> RetentionScore (up_tuning u) x (dNow opts)
      \<le> RetentionScore (up_tuning u) (keeper u opts (?C m)) (dNow opts)"
      by (rule keeper_best(2) [OF ne]) simp
  qed
  have class_size: "int (card {k. linked ?V E (ID m) k}) = int (length (?C m))" if m: "m \<in> set mems" for m
  proof -
    have "{k. linked ?V E (ID m) k} = ID ` set (?C m)"
    proof
      show "{k. linked ?V E (ID m) k} \<subseteq> ID ` set (?C m)"
      proof
        fix k assume "k \<in> {k. linked ?V E (ID m) k}"
        then obtain x where "x \<in> set mems" "k = ID x" "linked ?V E (ID m) (ID x)" by (auto simp: linked_def)
        then show "k \<in> ID ` set (?C m)" using f [OF m, of x] by auto
      qed
      show "ID ` set (?C m) \<subseteq> {k. linked ?V E (ID m) k}"
      proof
        fix i assume "i \<in> ID ` set (?C m)"
        then obtain x where "x \<in> set mems" "f x = f m" "i = ID x" by auto
        then show "i \<in> {k. linked ?V E (ID m) k}" using f [OF m, of x] by simp
      qed
    qed
    moreover have "distinct (map ID (?C m))" using ids by (rule distinct_map_filter)
    ultimately show ?thesis using distinct_card [of "map ID (?C m)"] by simp
  qed
  have "?rep i = i" if "i \<notin> ?V" for i by (rule rep_id_outside) (use that in auto)
  moreover have "linked ?V E i (?rep i) \<and> ?rep (?rep i) = ?rep i" if i: "i \<in> ?V" for i
  proof -
    obtain m where m: "m \<in> set mems" "i = ID m" using i by auto
    have "linked ?V E (ID m) (ID m)" using m(1) by (auto simp: linked_def)
    moreover have "linked ?V E (ID m) (ID (keeper u opts (?C m)))" using f [OF m(1) kp(1) [OF m(1)]] kp(2) [OF m(1)] by simp
    moreover have "?rep (ID (keeper u opts (?C m))) = ID (keeper u opts (?C m))" if "big opts (?C m)"
      using rep [OF kp(1) [OF m(1)]] kp(2) [OF m(1)] that by simp
    ultimately show ?thesis using rep [OF m(1)] m(2) by (cases "big opts (?C m)") simp_all
  qed
  moreover have "?rep i = ?rep j \<longleftrightarrow>
      i = j \<or> (linked ?V E i j \<and> MinClusterSize opts \<le> int (card {k. linked ?V E i k}))"
    if ij: "i \<in> ?V" "j \<in> ?V" for i j
  proof -
    obtain m k where m: "m \<in> set mems" "i = ID m" and k: "k \<in> set mems" "j = ID k" using ij by auto
    note fk = f [OF m(1) k(1)] and b = class_size [OF m(1)]
    show ?thesis
    proof (cases "f m = f k")
      case True
      then have "?C k = ?C m" by simp
      then show ?thesis using rep [OF m(1)] rep [OF k(1)] True fk b m(2) k(2) by (auto simp: big_def)
    next
      case False
      have "f x = f m" if "x \<in> set mems" "ID x = ?rep (ID m)" for x
        using rep [OF m(1)] kp(1,2) [OF m(1)] that inj [of x] m(1) by (cases "big opts (?C m)") auto
      moreover have "\<exists>x \<in> set mems. ID x = ?rep (ID k) \<and> f x = f k"
        using rep [OF k(1)] kp(1,2) [OF k(1)] k(1) by (cases "big opts (?C k)") auto
      ultimately have "?rep i \<noteq> ?rep j" using False m(2) k(2) by metis
      then show ?thesis using False fk m(2) k(2) by auto
    qed
  qed
  moreover have "RetentionScore (up_tuning u) m (dNow opts) \<le> RetentionScore (up_tuning u) k (dNow opts)"
    if "m \<in> set mems" "k \<in> set mems" "ID k = ?rep (ID m)" for m k
    using rep [OF that(1)] kp [OF that(1)] inj [OF that(2)] that by (cases "big opts (?C m)") auto
  ultimately show ?thesis unfolding stands_for_def Let_def by blast
qed

definition pass_edges :: "upkeep \<Rightarrow> batch_embedder \<Rightarrow> DedupOptions \<Rightarrow> string \<Rightarrow> vec list \<Rightarrow> db \<Rightarrow> (string \<times> string) set" where
  "pass_edges u emb opts ns vecs d =
     anchor_edges (\<lambda>v. VectorSearch (up_engine u) (up_wall u) ns v (dedup_filter opts) (nat (NeighboursPerAnchor opts)) d)
       (Dims emb) (Similarity opts) (ID ` set (live_snapshot u opts ns d)) (live_snapshot u opts ns d) vecs"

lemma link_anchors_ok:
  assumes "\<And>v. length v = n \<Longrightarrow> \<exists>c. search v = Inr c" and "link_anchors search n sim mems vecs p = Some r"
  shows "\<exists>p'. r = Inr p'"
  using assms
proof (induction search n sim mems vecs p rule: link_anchors.induct)
  case (2 search n sim m rest vecs p)
  show ?case
  proof (cases vecs)
    case (Cons v vs)
    show ?thesis
    proof (cases "v = [] \<or> length v \<noteq> n")
      case False
      then obtain c where c: "search v = Inr c" using 2(4) by blast
      then obtain p1 where "join_all (ID m) (joined_hits sim (ID m) c) p = Some p1" "link_anchors search n sim rest vs p1 = Some r"
        using 2(5) Cons False by (auto split: Option.bind_split_asm)
      then show ?thesis using 2(3) [OF Cons False c] 2(4) by blast
    qed (use 2 Cons in auto)
  qed (use 2 in auto)
qed auto

lemma dedupNamespace_done:
  assumes ok: "db_ok d" and opts: "Merger opts = None" "\<not> dDryRun opts" "1 \<le> MinClusterSize opts"
    and n: "MinClusterSize opts \<le> int (length (live_snapshot u opts ns d))"
    and e: "Embed emb (map Content (live_snapshot u opts ns d)) = Inr vecs" and dim: "Dims emb = dims d"
  shows "\<exists>res d' rep. dedupNamespace u emb opts ns d = Some (res, None, d') \<and> db_ok d'
    \<and> memories d' = map (retire (up_wall u) rep) (memories d)
    \<and> stands_for u opts (live_snapshot u opts ns d) (pass_edges u emb opts ns vecs d) rep"
proof -
  define rows where "rows = filter (\<lambda>r. \<not> Expired (scanRow r) (dNow opts)) (listed_rows u ns (dedup_filter opts) d)"
  define mems where "mems = map scanRow rows"
  define V where "V = ID ` set mems"
  define search where "search = (\<lambda>v. VectorSearch (up_engine u) (up_wall u) ns v (dedup_filter opts) (nat (NeighboursPerAnchor opts)) d)"
  have snap: "live_snapshot u opts ns d = mems" by (simp add: mems_def rows_def snapshot_rows)
  have rows: "set rows \<subseteq> set (memories d)" "distinct rows" "\<forall>r \<in> set rows. c_namespace r = ns"
    using distinct_listed_rows [OF ok] by (auto simp: rows_def)
  have ids: "distinct (map ID mems)" unfolding mems_def by (rule distinct_ids [OF ok rows(1,2)])
  have start: "components_of V {} (newUnionFind (map ID mems))"
    using newUnionFind_ok [of "map ID mems"] by (auto simp: components_of_def linked_def V_def)
  obtain r where r: "link_anchors search (Dims emb) (Similarity opts) mems vecs (newUnionFind (map ID mems)) = Some r"
    and comps: "\<And>p. r = Inr p \<Longrightarrow> components_of V (anchor_edges search (Dims emb) (Similarity opts) V mems vecs) p"
    using link_anchors_components [OF start, of mems search "Dims emb" "Similarity opts" vecs] by (auto simp: V_def)
  have run: "dedupNamespace u emb opts ns d = (case r of
        Inl e \<Rightarrow> Some (no_dedup\<lparr> memoriesSeen := length mems \<rparr>, Some (PassStore e), d)
      | Inr p \<Rightarrow> Option.bind (roots_of (map ID mems) p) (\<lambda>(roots, p').
          Some (retire_clusters u emb opts ns (components_by roots mems) (no_dedup\<lparr> memoriesSeen := length mems \<rparr>) d)))"
    using n e r by (simp add: dedupNamespace_def snap search_def not_less Let_def)
  have "\<exists>c. search v = Inr c" if "length v = Dims emb" for v
    using that by (simp add: search_def VectorSearch_def dim)
  from link_anchors_ok [OF this r] obtain p where Inr: "r = Inr p" by blast
  show ?thesis
  proof -
    let ?E = "anchor_edges search (Dims emb) (Similarity opts) V mems vecs"
    have p: "uf_ok p" "dom p = V" "\<And>a b. same p a b \<longleftrightarrow> linked V ?E a b"
      using comps [OF Inr] by (auto simp: components_of_def)
    have "set (map ID mems) \<subseteq> dom p" by (simp add: p(2) V_def)
    from roots_of_done [OF p(1) this] obtain roots p' where
      roots: "roots_of (map ID mems) p = Some (roots, p')" "list_all2 (root_of p) (map ID mems) roots" by blast
    define f :: "memory \<Rightarrow> string" where "f = (\<lambda>m. THE k. root_of p (ID m) k)"
    have the: "f m = k" if "root_of p (ID m) k" for m k
      unfolding f_def using that root_unique [OF that] by (rule the_equality)
    have fr: "root_of p (ID m) (f m)" if "m \<in> set mems" for m
    proof -
      have "ID m \<in> dom p" using that by (simp add: p(2) V_def)
      then obtain k where "root_of p (ID m) k" using p(1) unfolding uf_ok_def by blast
      then show ?thesis using the [of m k] by simp
    qed
    have "roots = map f mems"
      using roots(2) the by (auto simp: list_all2_conv_all_nth intro!: nth_equalityI)
    then have cl: "components_by roots mems = map (\<lambda>k. filter (\<lambda>x. f x = k) mems) (remdups (map f mems))"
      by (simp only: components_by_roots)
    define rss where "rss = map (\<lambda>k. filter (\<lambda>x. f (scanRow x) = k) rows) (remdups (map f mems))"
    have rss: "components_by roots mems = map (map scanRow) rss"
      unfolding cl by (simp add: rss_def mems_def filter_map comp_def)
    have "distinct (concat rss)" unfolding rss_def by (rule distinct_classes [OF rows(2)]) simp
    moreover have "\<forall>xs \<in> set rss. set xs \<subseteq> set (memories d) \<and> distinct xs \<and> (\<forall>r \<in> set xs. c_namespace r = ns)"
      using rows by (auto simp: rss_def)
    ultimately obtain res' d' where
      d': "retire_clusters u emb opts ns (map (map scanRow) rss) (no_dedup\<lparr> memoriesSeen := length mems \<rparr>) d = (res', None, d')"
        "db_ok d'" "memories d' = map (retire (up_wall u) (rep_id u opts (map (map scanRow) rss))) (memories d)"
      using retire_clusters_done [OF ok opts] by blast
    have "f m = f k \<longleftrightarrow> linked (ID ` set mems) ?E (ID m) (ID k)" if "m \<in> set mems" "k \<in> set mems" for m k
      using same_roots [OF fr [OF that(1)] fr [OF that(2)]] p(3) by (simp add: V_def)
    from classes_stand [OF ids this] have "stands_for u opts mems ?E (rep_id u opts (map (map scanRow) rss))"
      unfolding cl [symmetric] rss .
    moreover have "pass_edges u emb opts ns vecs d = ?E" by (simp add: pass_edges_def snap search_def V_def)
    moreover have "dedupNamespace u emb opts ns d = Some (res', None, d')" using run Inr roots(1) rss d'(1) by simp
    ultimately show ?thesis using d'(2,3) snap by auto
  qed
qed

section \<open>Supersession chains\<close>

text \<open>A chain from a memory leads to a memory that is not superseded, in \<open>n\<close> links.\<close>

inductive leads :: "memory list \<Rightarrow> nat \<Rightarrow> memory \<Rightarrow> bool" for mems :: "memory list" where
  live: "SupersededBy m = None \<Longrightarrow> leads mems 0 m"
| link: "SupersededBy m = Some k \<Longrightarrow> by_id mems k = Some m' \<Longrightarrow> leads mems n m' \<Longrightarrow> leads mems (Suc n) m"

inductive_cases leadsE: "leads mems n m"

lemma leads_unique: "leads mems n m \<Longrightarrow> leads mems k m \<Longrightarrow> k = n"
proof (induction arbitrary: k rule: leads.induct)
  case (live m)
  from live(2) show ?case using live(1) by (cases rule: leads.cases) simp_all
next
  case (link m i m' n)
  note L = link
  from L(5) show ?case
  proof (cases rule: leads.cases)
    case live
    then show ?thesis using L(1) by simp
  next
    case (link i' m'' n')
    then have "m'' = m'" using L(1,2) by simp
    then show ?thesis using L(4) link by simp
  qed
qed

lemma reaches_loop_leads: "reaches_loop mems seen m \<Longrightarrow> \<exists>n. leads mems n m"
proof (induction mems seen m rule: reaches_loop.induct)
  case (1 mems seen m)
  show ?case
  proof (cases "SupersededBy m")
    case None
    then show ?thesis by (blast intro: leads.live)
  next
    case (Some k)
    with 1(2) have s: "ID m \<notin> set seen" by (auto simp: reaches_loop.simps [of mems seen m])
    with 1(2) Some obtain m' where m': "by_id mems k = Some m'" "reaches_loop mems (ID m # seen) m'"
      by (auto simp: reaches_loop.simps [of mems seen m] split: option.splits)
    from 1(1) [OF Some s m'] show ?thesis using leads.link [OF Some m'(1)] by blast
  qed
qed

lemma leads_reaches_loop:
  assumes "leads mems n m" and "by_id mems (ID m) = Some m"
    and "\<forall>i \<in> set seen. \<exists>x k. by_id mems i = Some x \<and> leads mems k x \<and> n < k"
  shows "reaches_loop mems seen m"
  using assms
proof (induction arbitrary: seen rule: leads.induct)
  case (live m)
  then show ?case by (simp add: reaches_loop.simps [of mems seen m])
next
  case (link m k m' n)
  have here: "leads mems (Suc n) m" using link(1-3) by (rule leads.link)
  have "ID m \<notin> set seen"
  proof
    assume "ID m \<in> set seen"
    then obtain j where "leads mems j m" "Suc n < j" using link(5,6) by auto
    then show False using leads_unique [OF here] by auto
  qed
  moreover have "reaches_loop mems (ID m # seen) m'"
  proof (rule link(4))
    show "by_id mems (ID m') = Some m'" using link(2) by_id_Some [OF link(2)] by simp
    show "\<forall>i \<in> set (ID m # seen). \<exists>x j. by_id mems i = Some x \<and> leads mems j x \<and> n < j"
    proof
      fix i assume i: "i \<in> set (ID m # seen)"
      show "\<exists>x j. by_id mems i = Some x \<and> leads mems j x \<and> n < j"
      proof (cases "i = ID m")
        case True
        then show ?thesis using link(5) here by blast
      next
        case False
        then obtain x j where "by_id mems i = Some x" "leads mems j x" "Suc n < j" using i link(6) by auto
        then show ?thesis using Suc_lessD by blast
      qed
    qed
  qed
  ultimately show ?case using link(1,2) by (simp add: reaches_loop.simps [of mems seen m])
qed

lemma by_id_unique: "distinct (map ID mems) \<Longrightarrow> m \<in> set mems \<Longrightarrow> by_id mems (ID m) = Some m"
proof -
  assume "distinct (map ID mems)" and m: "m \<in> set mems"
  moreover have "map fst (rev (map (\<lambda>m. (ID m, m)) mems)) = rev (map ID mems)" by (simp add: rev_map comp_def)
  ultimately have "distinct (map fst (rev (map (\<lambda>m. (ID m, m)) mems)))" by (simp only: distinct_rev)
  then show ?thesis unfolding by_id_def using m by (intro map_of_is_SomeI) auto
qed

lemma reachesLive_leads:
  assumes "distinct (map ID mems)" and "m \<in> set mems"
  shows "reachesLive mems m \<longleftrightarrow> (\<exists>n. leads mems n m)"
  unfolding reachesLive_def
  using reaches_loop_leads leads_reaches_loop [OF _ by_id_unique [OF assms], of _ "[]"] by auto

section \<open>The repair of chains\<close>

definition restored_row :: "mem_row \<Rightarrow> mem_row" where
  "restored_row r = r\<lparr> c_superseded_by := None, c_valid_to := None \<rparr>"

lemma restore_one_row:
  assumes "db_ok d" and "r \<in> set (memories d)" and "c_namespace r = ns"
  shows "\<exists>d'. restore_one False ns (scanRow r) d = (1, None, d') \<and> db_ok d'
    \<and> memories d' = map (\<lambda>x. if x = r then restored_row x else x) (memories d)"
proof -
  have "indexed (restored_row r) = indexed r" for r by (simp add: restored_row_def indexed_def)
  from update_row_of [OF assms(1,2) this] obtain d' where
    "update_or_notfound (row_at (c_namespace r) (c_id r)) restored_row d = Inr d'" "db_ok d'"
    "memories d' = map (\<lambda>x. if x = r then restored_row x else x) (memories d)" by blast
  moreover have "Restore ns (ID (scanRow r)) d = update_or_notfound (row_at (c_namespace r) (c_id r)) restored_row d"
    by (simp add: Restore_def restored_row_def [abs_def] assms(3) [symmetric] scanRow_def)
  ultimately show ?thesis by (simp add: restore_one_def)
qed

text \<open>The rows of a namespace whose chain leads to no live memory.\<close>

definition stranded_row :: "upkeep \<Rightarrow> string \<Rightarrow> db \<Rightarrow> mem_row \<Rightarrow> bool" where
  "stranded_row u ns d r \<longleftrightarrow> c_namespace r = ns \<and> c_superseded_by r \<noteq> None
     \<and> \<not> reachesLive (listed u ns whole_namespace d) (scanRow r)"

lemma whole_listing: "set (listed u ns whole_namespace d) = scanRow ` {r \<in> set (memories d). c_namespace r = ns}"
  by (simp add: listed_map)

lemma whole_listing_ids: "db_ok d \<Longrightarrow> distinct (map ID (listed u ns whole_namespace d))"
  unfolding listed_map by (rule distinct_ids) (auto simp: distinct_listed_rows)

lemma repairNamespace_done:
  assumes ok: "db_ok d"
  shows "\<exists>d'. repairNamespace u False ns d = (length (filter (stranded_row u ns d) (memories d)), None, d') \<and> db_ok d'
    \<and> memories d' = map (\<lambda>r. if stranded_row u ns d r then restored_row r else r) (memories d)"
proof -
  let ?P = "\<lambda>r. c_superseded_by r \<noteq> None \<and> \<not> reachesLive (listed u ns whole_namespace d) (scanRow r)"
  define rs where "rs = filter ?P (listed_rows u ns whole_namespace d)"
  have st: "stranded (listed u ns whole_namespace d) = map scanRow rs"
    unfolding stranded_def rs_def using listed_map [of u ns whole_namespace d]
    by (simp add: filter_map comp_def) (simp add: scanRow_def)
  have rs: "set rs = {r \<in> set (memories d). stranded_row u ns d r}" by (auto simp: rs_def stranded_row_def)
  have "\<exists>d'. walk (restore_one False ns) (map scanRow rs) d = (length rs, None, d') \<and> db_ok d'
      \<and> memories d' = map (\<lambda>x. if x \<in> set rs then restored_row x else x) (memories d)"
  proof (rule walk_updates [OF _ _ ok])
    fix r e assume "r \<in> set rs" "db_ok e" "r \<in> set (memories e)"
    then show "\<exists>d'. restore_one False ns (scanRow r) e = (1, None, d') \<and> db_ok d'
        \<and> memories d' = map (\<lambda>x. if x = r then restored_row x else x) (memories e)"
      using restore_one_row rs by (simp add: stranded_row_def)
  next
    show "distinct rs" unfolding rs_def using distinct_listed_rows [OF ok] by (rule distinct_filter)
  qed (use rs in \<open>auto simp: restored_row_def\<close>)
  moreover have "length rs = length (filter (stranded_row u ns d) (memories d))"
    unfolding rs_def length_listed_rows by (rule arg_cong [of _ _ length], rule filter_cong) (auto simp: stranded_row_def)
  moreover have "map (\<lambda>x. if x \<in> set rs then restored_row x else x) (memories d)
      = map (\<lambda>r. if stranded_row u ns d r then restored_row r else r) (memories d)"
    by (rule map_cong) (auto simp: rs)
  ultimately show ?thesis unfolding repairNamespace_def st by (simp only: cong: conj_cong)
qed

text \<open>Afterwards every chain of the namespace leads to a live memory.\<close>

lemma repaired_chains:
  assumes ok: "db_ok d" and ok': "db_ok d'"
    and m: "memories d' = map (\<lambda>r. if stranded_row u ns d r then restored_row r else r) (memories d)"
    and r: "r \<in> set (memories d')" "c_namespace r = ns"
  shows "reachesLive (listed u ns whole_namespace d') (scanRow r)"
proof -
  let ?L = "listed u ns whole_namespace d" and ?L' = "listed u ns whole_namespace d'"
  have dist: "distinct (map ID ?L)" "distinct (map ID ?L')" using whole_listing_ids ok ok' by blast+
  have here: "scanRow x \<in> set ?L" if "x \<in> set (memories d)" "c_namespace x = ns" for x
    using that by (auto simp: whole_listing)
  have keep: "scanRow x \<in> set ?L'" if "x \<in> set (memories d)" "c_namespace x = ns" "\<not> stranded_row u ns d x" for x
    using that by (force simp: whole_listing m)
  have old: "leads ?L n (scanRow x) \<Longrightarrow> x \<in> set (memories d) \<Longrightarrow> c_namespace x = ns \<Longrightarrow> leads ?L' n (scanRow x)" for n x
  proof (induction n arbitrary: x)
    case 0
    from 0(1) show ?case by (rule leadsE) (simp_all add: leads.live)
  next
    case (Suc n)
    from Suc.prems(1) obtain k m' where l: "SupersededBy (scanRow x) = Some k" "by_id ?L k = Some m'" "leads ?L n m'"
      by (rule leadsE) simp_all
    have "m' \<in> set ?L" "ID m' = k" using by_id_Some [OF l(2)] by auto
    then obtain y where y: "y \<in> set (memories d)" "c_namespace y = ns" "m' = scanRow y" by (auto simp: whole_listing)
    have "reachesLive ?L (scanRow y)" using reachesLive_leads [OF dist(1) here [OF y(1,2)]] l(3) y(3) by blast
    then have "\<not> stranded_row u ns d y" by (simp add: stranded_row_def)
    then have "by_id ?L' k = Some m'" using by_id_unique [OF dist(2) keep [OF y(1,2)]] y(3) \<open>ID m' = k\<close> by simp
    moreover have "leads ?L' n m'" using Suc.IH [of y] l(3) y by simp
    ultimately show ?case using leads.link [OF l(1)] by blast
  qed
  obtain r0 where r0: "r0 \<in> set (memories d)" "r = (if stranded_row u ns d r0 then restored_row r0 else r0)"
    using r(1) unfolding m by auto
  have in': "scanRow r \<in> set ?L'" using r by (auto simp: whole_listing)
  have "\<exists>n. leads ?L' n (scanRow r)"
  proof (cases "c_superseded_by r = None")
    case True
    then have "SupersededBy (scanRow r) = None" by (simp add: scanRow_def)
    then show ?thesis using leads.live by blast
  next
    case False
    have ns0: "\<not> stranded_row u ns d r0"
    proof
      assume "stranded_row u ns d r0"
      then have "r = restored_row r0" using r0(2) by simp
      then have "c_superseded_by r = None" by (simp add: restored_row_def)
      then show False using False by simp
    qed
    then have "r = r0" using r0(2) by simp
    with ns0 have "reachesLive ?L (scanRow r0)" using False r(2) by (auto simp: stranded_row_def)
    then obtain n where "leads ?L n (scanRow r0)" using reachesLive_leads [OF dist(1) here [OF r0(1)]] r(2) \<open>r = r0\<close> by auto
    then show ?thesis using old r0(1) r(2) \<open>r = r0\<close> by blast
  qed
  then show ?thesis using reachesLive_leads [OF dist(2) in'] by simp
qed

end
