(* ===== verification/Sweep_Sound.thy ===== *)
theory Sweep_Sound
  imports Dedup_Sound
begin

text \<open>
  The passes composed: the sweep is made of the driver's steps, ends, and leaves no expired
  memory and no old tombstone; a move takes a whole namespace with all that refers to it.
\<close>

section \<open>Steps\<close>

abbreviation steps :: "db \<Rightarrow> db \<Rightarrow> bool" where "steps \<equiv> store_step\<^sup>*\<^sup>*"

lemma tally_steps: "(\<And>d'. r = Inr d' \<Longrightarrow> store_step d d') \<Longrightarrow> steps d (after_pass (tally d r))"
  by (cases r) (auto simp: tally_def)

lemma walk_steps: "(\<And>x d. x \<in> set xs \<Longrightarrow> steps d (after_pass (f x d))) \<Longrightarrow> steps d (after_pass (walk f xs d))"
  by (rule walk_preserves [where P = "steps d"]) (blast intro: rtranclp_trans, simp)

lemma delete_one_steps: "steps d (after_pass (delete_one ns m d))"
  unfolding delete_one_def by (rule tally_steps) (rule store_step.delete)

lemma after_steps [simp]:
  "steps d (after_pass (0, e, d))"
  by simp

lemma purge_loop_steps: "purge_loop now k d = Some r \<Longrightarrow> steps d (after_pass r)"
proof (rule purge_loop.raw_induct [where P = "\<lambda>_ _ d r. steps d (after_pass r)"])
  fix f now k d r
  assume ih: "\<And>now k d r. f now k d = Some r \<Longrightarrow> steps d (after_pass r)"
    and r: "(case walk (delete_expired now) (ListExpired now (int purgeBatch) d) d of
        (n, None, d') \<Rightarrow>
          if length (ListExpired now (int purgeBatch) d) < purgeBatch then Some (k + n, None, d') else f now (k + n) d'
      | (n, Some e, d') \<Rightarrow> Some (k + n, Some e, d')) = Some r"
  have w: "steps d (after_pass (walk (delete_expired now) (ListExpired now (int purgeBatch) d) d))"
    unfolding delete_expired_def by (rule walk_steps, rule tally_steps) (rule store_step.expired)
  obtain n e d1 where d1: "walk (delete_expired now) (ListExpired now (int purgeBatch) d) d = (n, e, d1)"
    using prod_cases3 by blast
  have s: "steps d d1" using w d1 by simp
  show "steps d (after_pass r)"
  proof (cases "e = None \<and> \<not> length (ListExpired now (int purgeBatch) d) < purgeBatch")
    case True
    then have "f now (k + n) d1 = Some r" using r d1 by simp
    from rtranclp_trans [OF s ih [OF this]] show ?thesis .
  next
    case False
    then show ?thesis using r d1 s by (auto split: option.splits if_splits)
  qed
qed

lemma cap_steps: "steps d (after_pass (EnforceShortTermCap u cap now d))"
proof -
  have "steps d (after_pass (cap_namespace u cap now ns d))" for ns d
    by (simp add: cap_namespace_def Let_def walk_steps delete_one_steps)
  then show ?thesis by (simp add: EnforceShortTermCap_def walk_steps)
qed

lemma tombstones_steps: "steps d (after_pass (PurgeTombstones u t d))"
proof -
  have "steps d (after_pass (purge_tombstone t ns m d))" for ns m d
    by (simp add: purge_tombstone_def delete_one_steps)
  then show ?thesis by (simp add: PurgeTombstones_def walk_steps)
qed

lemma demote_steps: "steps d (after_pass (DemoteStale u t now d))"
proof -
  have "steps d (after_pass (tally d (Retier ns i TierEpisodic e d)))" for ns i e d
    by (rule tally_steps) (rule store_step.retier)
  then have "steps d (after_pass (demote_one t now ns m d))" for ns m d by (simp add: demote_one_def)
  then show ?thesis by (simp add: DemoteStale_def walk_steps)
qed

lemma prune_events_steps: "steps d (snd (prune_events now r n d))"
  using store_step.prune by (auto simp: prune_events_def Let_def)

section \<open>The sweep\<close>

lemma prune_events_memories: "memories (snd (prune_events now r n d)) = memories d"
  by (simp add: prune_events_def PruneEvents_def Let_def split: prod.split)

lemma evicts_sub: "evicts u cap now nss E d d' \<Longrightarrow> set (memories d') \<subseteq> set (memories d)"
  by (auto simp: evicts_def)

lemma cap_sub:
  assumes "db_ok d" and "sorts u"
  shows "\<exists>n d'. EnforceShortTermCap u cap now d = (n, None, d') \<and> db_ok d' \<and> set (memories d') \<subseteq> set (memories d)"
proof (cases "0 < cap")
  case True
  then show ?thesis using EnforceShortTermCap_evicts [OF assms True, of now] evicts_sub by blast
qed (simp add: EnforceShortTermCap_def assms(1))

lemma episodic_not_expired: "\<not> expired_row now (to_episodic now r)"
proof -
  have "UnixMilli (now + 1000000) \<le> UnixMilli (now + DefaultTTL TierEpisodic)"
    by (rule UnixMilli_mono) (simp add: DefaultTTL_def)
  moreover have "UnixMilli (now + 1000000) = UnixMilli now + 1" by (simp add: UnixMilli_def)
  ultimately show ?thesis by (simp add: expired_row_def to_episodic_def)
qed

lemma episodic_tombstone: "old_tombstone t (to_episodic now r) = old_tombstone t r"
  by (simp add: old_tombstone_def to_episodic_def tombstonedAt_def scanRow_def split: option.split)

lemma sweep_done:
  assumes ok: "db_ok d" and s: "sorts u"
  shows "\<exists>d'. sweep u cfg now d = Some d' \<and> steps d d' \<and> (\<forall>r \<in> set (memories d'). \<not> expired_row now r)
    \<and> (0 < TombstoneTTL cfg \<longrightarrow> (\<forall>r \<in> set (memories d'). \<not> old_tombstone (now - TombstoneTTL cfg) r))"
proof -
  let ?t = "now - TombstoneTTL cfg"
  obtain n1 d1 where d1: "PurgeExpired now d = Some (n1, None, d1)" "db_ok d1"
    "memories d1 = filter (\<lambda>r. \<not> expired_row now r) (memories d)"
    using purge_loop_done [OF ok, of now 0] by (auto simp: PurgeExpired_def)
  obtain n2 d2 where d2: "EnforceShortTermCap u (ShortTermCap cfg) now d1 = (n2, None, d2)" "db_ok d2"
    "set (memories d2) \<subseteq> set (memories d1)" using cap_sub [OF d1(2) s] by blast
  define d3 where "d3 = (if 0 < TombstoneTTL cfg then after_pass (PurgeTombstones u ?t d2) else d2)"
  have d3: "db_ok d3" "set (memories d3) \<subseteq> set (memories d2)"
    "0 < TombstoneTTL cfg \<Longrightarrow> \<forall>r \<in> set (memories d3). \<not> old_tombstone ?t r"
    using PurgeTombstones_exact [OF d2(2), of u ?t] d2(2) by (auto simp: d3_def)
  define d4 where "d4 = (if 0 < DemoteAfter cfg then after_pass (DemoteStale u (now - DemoteAfter cfg) now d3) else d3)"
  have d4: "r \<in> set (memories d3) \<or> (\<exists>x \<in> set (memories d3). r = to_episodic now x)" if "r \<in> set (memories d4)" for r
    using DemoteStale_exact [OF d3(1), of u "now - DemoteAfter cfg" now] that by (auto simp: d4_def split: if_splits)
  let ?d5 = "snd (prune_events now (ActivityRetention cfg) (ActivityMaxRows cfg) d4)"
  have run: "sweep u cfg now d = Some ?d5" using d1(1) d2(1) by (simp add: sweep_def d3_def d4_def Let_def)
  have "steps d d1" using purge_loop_steps d1(1) by (fastforce simp: PurgeExpired_def)
  also have "steps d1 d2" using cap_steps [of d1 u "ShortTermCap cfg" now] d2(1) by simp
  also have "steps d2 d3" using tombstones_steps by (simp add: d3_def)
  also have "steps d3 d4" using demote_steps by (simp add: d4_def)
  also have "steps d4 ?d5" by (rule prune_events_steps)
  finally have st: "steps d ?d5" .
  have live: "\<not> expired_row now r" if "r \<in> set (memories d3)" for r using that d3(2) d2(3) d1(3) by auto
  have "\<not> expired_row now r" if "r \<in> set (memories ?d5)" for r
    using d4 [of r] that live episodic_not_expired by (auto simp: prune_events_memories)
  moreover have "\<not> old_tombstone ?t r" if "0 < TombstoneTTL cfg" "r \<in> set (memories ?d5)" for r
    using d4 [of r] that d3(3) episodic_tombstone by (auto simp: prune_events_memories)
  ultimately show ?thesis using run st by blast
qed

section \<open>Moving a namespace\<close>

lemma reassign_rows:
  assumes "db_ok d" and "set rs \<subseteq> set (memories d)" and "distinct rs" and "\<forall>r \<in> set rs. c_namespace r = src"
  shows "\<exists>d'. fold (reassign_one src dst) (map c_id rs) (d, k) = (d', k + length rs) \<and> db_ok d'
    \<and> memories d' = map (\<lambda>x. if x \<in> set rs then x\<lparr> c_namespace := dst \<rparr> else x) (memories d)"
  using assms
proof (induction rs arbitrary: d k)
  case (Cons r rs)
  have r: "r \<in> set (memories d)" "c_namespace r = src" using Cons.prems(2,4) by auto
  have f: "find (row_at src (c_id r)) (memories d) = Some r" using find_row(1) [OF Cons.prems(1) r(1)] r(2) by simp
  obtain d1 k1 where d1: "reassign_one src dst (c_id r) (d, k) = (d1, k1)" by (cases "reassign_one src dst (c_id r) (d, k)") auto
  then have k1: "k1 = Suc k" using f by (auto simp: reassign_one_def Let_def)
  have ok1: "db_ok d1" and "memories d1 = move_rows src dst (c_id r) (memories d)"
    using reassign_one_ok [of "(d, k)" src dst "c_id r"] d1 Cons.prems(1) by simp_all
  then have "memories d1 = update_where (\<lambda>x. c_rowid x = c_rowid r) (\<lambda>x. x\<lparr> c_namespace := dst \<rparr>) (memories d)"
    using f by (simp add: move_rows_def)
  also have "\<dots> = map (\<lambda>x. if x = r then x\<lparr> c_namespace := dst \<rparr> else x) (memories d)"
    unfolding update_where_def using unique_row(2) [OF Cons.prems(1) r(1)] by (intro map_cong) simp_all
  finally have m1: "memories d1 = map (\<lambda>x. if x = r then x\<lparr> c_namespace := dst \<rparr> else x) (memories d)" .
  have ne: "x \<noteq> r" "x \<in> set (memories d)" if "x \<in> set rs" for x using that Cons.prems(2,3) by auto
  then have "set rs \<subseteq> set (memories d1)" by (auto simp: m1 image_iff)
  from Cons.IH [OF ok1 this, of "Suc k"] Cons.prems(3,4) obtain d2 where
    d2: "fold (reassign_one src dst) (map c_id rs) (d1, Suc k) = (d2, Suc k + length rs)" "db_ok d2"
      "memories d2 = map (\<lambda>x. if x \<in> set rs then x\<lparr> c_namespace := dst \<rparr> else x) (memories d1)" by auto
  have "r\<lparr> c_namespace := dst \<rparr> \<notin> set rs"
  proof
    assume a: "r\<lparr> c_namespace := dst \<rparr> \<in> set rs"
    have "r\<lparr> c_namespace := dst \<rparr> = r" using unique_row(1) [OF Cons.prems(1) r(1), of "r\<lparr> c_namespace := dst \<rparr>"] ne(2) [OF a] by simp
    then show False using ne(1) [OF a] by simp
  qed
  then have "memories d2 = map (\<lambda>x. if x \<in> set (r # rs) then x\<lparr> c_namespace := dst \<rparr> else x) (memories d)"
    unfolding d2(3) m1 map_map using ne by (auto intro!: map_cong simp: comp_def)
  then show ?case using d1 k1 d2(1,2) by simp
qed simp

lemma Move_done:
  assumes ok: "db_ok d" and ne: "src \<noteq> dst" and some: "src \<in> c_namespace ` set (memories d)"
  shows "\<exists>rep d'. Move u src dst False d = (rep, d') \<and> db_ok d'
    \<and> Moved rep = length (filter (\<lambda>r. c_namespace r = src) (memories d))
    \<and> memories d' = map (\<lambda>r. if c_namespace r = src then r\<lparr> c_namespace := dst \<rparr> else r) (memories d)
    \<and> namespace_links d' = namespace_links (RenameLinkEndpoints src dst d)
    \<and> api_keys d' = api_keys (RenameAPIKeyNamespaces src dst d) \<and> pins d' = pins (RenamePinNamespaces src dst d)"
proof -
  let ?rs = "listed_rows u src whole_namespace d"
  have ids: "map ID (listed u src whole_namespace d) = map c_id ?rs" by (simp add: listed_map scanRow_def comp_def)
  obtain x where "x \<in> set ?rs" using some by auto
  then have rne: "?rs \<noteq> []" by (cases ?rs) simp_all
  obtain d1 where d1: "fold (reassign_one src dst) (map c_id ?rs) (d, 0) = (d1, length ?rs)" "db_ok d1"
    "memories d1 = map (\<lambda>x. if x \<in> set ?rs then x\<lparr> c_namespace := dst \<rparr> else x) (memories d)"
  proof -
    have "set ?rs \<subseteq> set (memories d)" "\<forall>r \<in> set ?rs. c_namespace r = src" by auto
    from reassign_rows [OF ok this(1) distinct_listed_rows [OF ok] this(2), of dst 0] that show ?thesis by auto
  qed
  have R: "Reassign src (map c_id ?rs) dst d = (d1, length ?rs)" using d1(1) ne rne by (simp add: Reassign_def)
  have side: "side d1 = side d" using Reassign_side [of src "map c_id ?rs" dst d] R by simp
  let ?d2 = "RenamePinNamespaces src dst (RenameAPIKeyNamespaces src dst (RenameLinkEndpoints src dst d1))"
  have run: "Move u src dst False d = (\<lparr> Moved = length ?rs, Targets = [(dst, length ?rs)], nSkipped = 0 \<rparr>, ?d2)"
    using ne rne R by (simp add: Move_def ids Let_def)
  have core: "core ?d2 = core d1" by (simp add: core_side_operations)
  then have "db_ok ?d2" "memories ?d2 = memories d1" using core_ok [OF core] d1(2) by (simp_all add: core_def)
  moreover have "namespace_links ?d2 = namespace_links (RenameLinkEndpoints src dst d)"
    "api_keys ?d2 = api_keys (RenameAPIKeyNamespaces src dst d)" "pins ?d2 = pins (RenamePinNamespaces src dst d)"
    using side by (simp_all add: side_def RenamePinNamespaces_def RenameAPIKeyNamespaces_def RenameLinkEndpoints_def Let_def)
  moreover have "memories d1 = map (\<lambda>r. if c_namespace r = src then r\<lparr> c_namespace := dst \<rparr> else r) (memories d)"
    unfolding d1(3) by (rule map_cong) simp_all
  moreover have "length ?rs = length (filter (\<lambda>r. c_namespace r = src) (memories d))"
    using length_listed_rows [of "\<lambda>_. True" u src whole_namespace d] by simp
  ultimately show ?thesis using run by simp
qed

end
