(* ===== verification/Maintenance_Properties.thy ===== *)
theory Maintenance_Properties
  imports Sweep_Sound Store_Properties
begin

text \<open>What the maintenance passes promise, with their witnesses on concrete databases.\<close>

section \<open>A concrete pass\<close>

definition plain_upkeep :: upkeep where
  "plain_upkeep = \<lparr> up_engine = sample_engine, up_wall = unix_epoch,
     up_tuning = \<lparr> StabilityK = 0, AssessedSalienceWeight = 0 \<rparr>, up_sort = SliceStable \<rparr>"

lemma plain_sorts: "sorts plain_upkeep"
  using strict_weak_order.sorted_SliceStable by (auto simp: sorts_def plain_upkeep_def)

definition hourly :: SweeperConfig where
  "hourly = \<lparr> ShortTermCap = 1, TombstoneTTL = Hour, DemoteAfter = Hour, ActivityRetention = 0, ActivityMaxRows = 0 \<rparr>"

section \<open>The sweep\<close>

text \<open>
  C29: A sweep ends (the purge repeats its batches until nothing is left), consists of the driver's
  steps only, and afterwards no memory has expired and, when tombstones are collected, no
  tombstone older than their lifetime is left; the demotions of the same sweep do not undo this.
\<close>

theorem sweep_cleans:
  assumes "db_ok d" and "sorts u"
  shows "\<exists>d'. sweep u cfg now d = Some d' \<and> store_step\<^sup>*\<^sup>* d d'
    \<and> (\<forall>r \<in> set (memories d'). \<not> expired_row now r)
    \<and> (0 < TombstoneTTL cfg \<longrightarrow> (\<forall>r \<in> set (memories d'). \<not> old_tombstone (now - TombstoneTTL cfg) r))"
  by (rule sweep_done [OF assms])

lemma sweep_cleans_witness: "\<exists>d'. sweep plain_upkeep hourly unix_epoch coffee_db = Some d' \<and> store_step\<^sup>*\<^sup>* coffee_db d'"
  using sweep_cleans [OF coffee_db_ok plain_sorts, of hourly unix_epoch] by blast

text \<open>
  C30: The cap on short-term memories is exact: afterwards every namespace holds the smaller of the
  cap and what it held, the count reported is the number of memories removed, only live
  short-term memories were removed, each with a retention score not above that of any memory kept
  in its namespace, and all other memories stand as they were.
\<close>

theorem cap_evicts_worst:
  assumes "db_ok d" and "sorts u" and "0 < cap"
  shows "\<exists>E d'. EnforceShortTermCap u cap now d = (card E, None, d')
    \<and> memories d' = filter (\<lambda>r. r \<notin> E) (memories d)
    \<and> (\<forall>r \<in> E. r \<in> set (listed_rows u (c_namespace r) short_filter d)
         \<and> (\<forall>k \<in> set (listed_rows u (c_namespace r) short_filter d'). retention u now r \<le> retention u now k))
    \<and> (\<forall>ns. length (listed_rows u ns short_filter d') = min (length (listed_rows u ns short_filter d)) (nat cap))"
  using EnforceShortTermCap_evicts [OF assms, of now] unfolding evicts_def by auto

lemma cap_evicts_worst_witness:
  "\<exists>E d'. EnforceShortTermCap plain_upkeep 1 unix_epoch coffee_db = (card E, None, d')
    \<and> memories d' = filter (\<lambda>r. r \<notin> E) (memories coffee_db)"
proof -
  have "(0 :: int) < 1" by simp
  from cap_evicts_worst [OF coffee_db_ok plain_sorts this, of unix_epoch] show ?thesis by (elim exE conjE, intro exI conjI)
qed

text \<open>
  A demotion changes exactly the live durable memories that were never recalled, are below
  the importance bar, have not been updated since the given time, have a confidence below the
  floor, and are neither pinned nor a handoff: they become episodic and expire one episodic
  lifetime later. Every other memory is left as it was, and the count reported is exact.
\<close>

theorem demotion_exact:
  assumes "db_ok d"
  shows "\<exists>d'. DemoteStale u olderThan now d = (length (filter (demoted u olderThan now) (memories d)), None, d')
    \<and> memories d' = map (\<lambda>r. if demoted u olderThan now r then to_episodic now r else r) (memories d)"
  using DemoteStale_exact [OF assms] by blast

lemma demotion_exact_witness:
  "\<exists>d'. DemoteStale plain_upkeep 5 9 coffee_db = (length (filter (demoted plain_upkeep 5 9) (memories coffee_db)), None, d')"
  using demotion_exact [OF coffee_db_ok, of plain_upkeep 5 9] by blast

section \<open>Deduplication\<close>

text \<open>
  C31: The clustering dedup of a namespace computes connected components and leaves one head in
  each: without a merger, two memories of the snapshot get the same representative exactly when a
  path of joined neighbours connects them and their component is large enough; the representative
  is a member of the component with the highest retention score; every other member of a large
  component is superseded by it, and no other memory of the database changes.
\<close>

theorem dedup_one_head:
  assumes "db_ok d" and "Merger opts = None" and "\<not> dDryRun opts" and "1 \<le> MinClusterSize opts"
    and "MinClusterSize opts \<le> int (length (live_snapshot u opts ns d))"
    and "Embed emb (map Content (live_snapshot u opts ns d)) = Inr vecs" and "Dims emb = dims d"
  shows "\<exists>res d' rep. dedupNamespace u emb opts ns d = Some (res, None, d')
    \<and> memories d' = map (retire (up_wall u) rep) (memories d)
    \<and> stands_for u opts (live_snapshot u opts ns d) (pass_edges u emb opts ns vecs d) rep"
  using dedupNamespace_done [OF assms] by blast

definition twin_options :: DedupOptions where
  "twin_options = \<lparr> Similarity = 1/2, MinClusterSize = 2, dTiers = [], dNamespaces = [], NeighboursPerAnchor = 20,
     dDryRun = False, dNow = unix_epoch, Merger = None, MaxMergeClusterSize = 0 \<rparr>"

definition flat_embedder :: batch_embedder where
  "flat_embedder = \<lparr> Embed = (\<lambda>ts. Inr (map (\<lambda>_. [1, 0]) ts)), Dims = 2 \<rparr>"

lemma dedup_one_head_witness:
  "\<exists>res d' rep. dedupNamespace plain_upkeep flat_embedder twin_options ''a'' coffee_db = Some (res, None, d')
    \<and> memories d' = map (retire unix_epoch rep) (memories coffee_db)"
proof -
  have opts: "Merger twin_options = None" "\<not> dDryRun twin_options" "1 \<le> MinClusterSize twin_options"
    "MinClusterSize twin_options = 2" "up_wall plain_upkeep = unix_epoch"
    by (simp_all add: twin_options_def plain_upkeep_def)
  have f: "filterClause sample_engine unix_epoch (dedup_filter twin_options) (insert_row i m)"
    if "m = tea \<or> m = coffee" for i m
    using that by (auto simp: filterClause_def dedup_filter_def no_filter_def twin_options_def UnixMilli_def IsZero_def
        unix_epoch_def)
  have e: "\<not> Expired (scanRow (insert_row i m)) unix_epoch" if "m = tea \<or> m = coffee" for i m
    using that by (auto simp: Expired_def scanRow_def)
  have "length (live_snapshot plain_upkeep twin_options ''a'' coffee_db) = 2"
    unfolding snapshot_rows length_map length_listed_rows
    using f e by (simp add: plain_upkeep_def twin_options_def)
  moreover have "Dims flat_embedder = dims coffee_db"
    by (simp add: flat_embedder_def coffee_db_def tea_db_def empty_db_def)
  ultimately show ?thesis
    using dedup_one_head [OF coffee_db_ok opts(1-3), of plain_upkeep "''a''" flat_embedder] opts(4,5)
    by (auto simp: flat_embedder_def)
qed

text \<open>
  C33: The repair of supersession chains restores exactly the memories whose chain of replacements
  leads to no live memory (a target is missing, or the chain is a cycle), and afterwards the chain
  of every memory of the namespace leads to a live one; no other memory changes.
\<close>

theorem chains_repaired:
  assumes "db_ok d"
  shows "\<exists>d'. repairNamespace u False ns d = (length (filter (stranded_row u ns d) (memories d)), None, d')
    \<and> memories d' = map (\<lambda>r. if stranded_row u ns d r then restored_row r else r) (memories d)
    \<and> (\<forall>r \<in> set (memories d'). c_namespace r = ns \<longrightarrow> reachesLive (listed u ns whole_namespace d') (scanRow r))"
  using repairNamespace_done [OF assms, of u ns] repaired_chains [OF assms] by blast

lemma chains_repaired_witness:
  "\<exists>d'. repairNamespace plain_upkeep False ''a'' coffee_db
      = (length (filter (stranded_row plain_upkeep ''a'' coffee_db) (memories coffee_db)), None, d')"
  using chains_repaired [OF coffee_db_ok, of plain_upkeep "''a''"] by blast

section \<open>Moving a namespace\<close>

text \<open>
  C32: Moving a namespace (not a dry run) of a sound database to another name takes all of it: every
  memory of the source, live or not, stands in the target under its old id and row, the report
  counts them, and the links, the keys' home and default namespaces and the pins that named the
  source name the target, as the renames of the driver make them; the memories of other namespaces
  stay as they are. The source holds at least one memory; else the code moves nothing.
\<close>

theorem move_complete:
  assumes "db_ok d" and "src \<noteq> dst" and "src \<in> c_namespace ` set (memories d)"
  shows "\<exists>rep d'. Move u src dst False d = (rep, d') \<and> db_ok d'
    \<and> Moved rep = length (filter (\<lambda>r. c_namespace r = src) (memories d))
    \<and> memories d' = map (\<lambda>r. if c_namespace r = src then r\<lparr> c_namespace := dst \<rparr> else r) (memories d)
    \<and> namespace_links d' = namespace_links (RenameLinkEndpoints src dst d)
    \<and> api_keys d' = api_keys (RenameAPIKeyNamespaces src dst d) \<and> pins d' = pins (RenamePinNamespaces src dst d)"
  by (rule Move_done [OF assms])

lemma move_complete_witness:
  "\<exists>rep d'. Move plain_upkeep ''a'' ''b'' False coffee_db = (rep, d') \<and> Moved rep = 2"
  using move_complete [OF coffee_db_ok, of "''a''" "''b''" plain_upkeep] by auto

end
