(* ===== verification/Contradict.thy ===== *)
theory Contradict
  imports Entities Memory_Types "HOL-Library.List_Lexorder" "HOL-Library.Char_ord"
begin

text \<open>
  \<open>internal/contradict/contradict.go\<close>: the lexical detector that tells a restatement from an
  update. The code's regular expressions are matchers written out; a Go set
  (\<open>map[string]bool\<close>) is a list without duplicates. Where the code ranges over such a map and
  the order can be observed, the order is the argument \<open>map_order\<close>. A \<open>Reason\<close> is a value that
  carries what the code formats into its text.
\<close>

section \<open>Results and configuration\<close>

datatype Class = Distinct | Restatement | Update

datatype Reason =
    IdenticalContent
  | NoContentTokens
  | BelowFloor real
  | ValueSwap runes runes
  | PolarityCue string
  | NegationFlip
  | NoDecisiveChange real

record Result = crClass :: Class crReason :: Reason

definition result :: "Class \<Rightarrow> Reason \<Rightarrow> Result" where
  "result c r = \<lparr> crClass = c, crReason = r \<rparr>"

record ContradictConfig =
  OverlapFloor :: real
  ResidueMax :: nat
  NegOverlapFloor :: real
  AliasPrefixMin :: nat

definition ContradictDefault :: ContradictConfig where
  "ContradictDefault = \<lparr> OverlapFloor = 0.5, ResidueMax = 2, NegOverlapFloor = 0.6, AliasPrefixMin = 4 \<rparr>"

section \<open>Vocabulary\<close>

definition retroCues :: "string list" where
  "retroCues =
    [''no longer'', ''anymore'', ''any more'',
     ''switched from'', ''switched to'', ''switched off'', ''switched away'',
     ''migrated from'', ''migrated to'', ''migrated off'', ''migrated away'',
     ''moved off'', ''moved away from'',
     ''stopped using'', ''stopped doing'', ''we stopped'',
     ''deprecated'', ''used to'', ''retired'']"

definition cueWords :: "string list" where
  "cueWords =
    [''longer'', ''anymore'', ''switched'', ''switch'', ''migrated'', ''migrate'', ''moved'', ''mov'',
     ''deprecated'', ''deprecat'', ''stopped'', ''stopp'', ''stop'', ''used'', ''using'', ''us'', ''doing'',
     ''retired'', ''retir'', ''dropped'', ''dropp'', ''drop'', ''instead'', ''currently'']"

definition negators :: "string list" where
  "negators =
    [''not'', ''no'', ''never'', ''cannot'', ''don'', ''doesn'', ''didn'', ''won'',
     ''isn'', ''aren'', ''wasn'', ''weren'']"

definition extraStopwords :: "string list" where
  "extraStopwords = [''per'', ''via'', ''through'', ''throughout'']"

definition numberWords :: "(string \<times> string) list" where
  "numberWords =
    [(''zero'', ''0''), (''one'', ''1''), (''two'', ''2''), (''three'', ''3''), (''four'', ''4''),
     (''five'', ''5''), (''six'', ''6''), (''seven'', ''7''), (''eight'', ''8''), (''nine'', ''9''),
     (''ten'', ''10''), (''eleven'', ''11''), (''twelve'', ''12''), (''thirteen'', ''13''),
     (''fourteen'', ''14''), (''fifteen'', ''15''), (''sixteen'', ''16''), (''seventeen'', ''17''),
     (''eighteen'', ''18''), (''nineteen'', ''19''), (''twenty'', ''20''), (''thirty'', ''30''),
     (''forty'', ''40''), (''fifty'', ''50''), (''sixty'', ''60''), (''seventy'', ''70''),
     (''eighty'', ''80''), (''ninety'', ''90''), (''hundred'', ''100''), (''thousand'', ''1000'')]"

definition irregularVerbs :: "(string \<times> string) list" where
  "irregularVerbs =
    [(''sent'', ''send''), (''ran'', ''run''), (''kept'', ''keep''), (''built'', ''build''),
     (''wrote'', ''write''), (''took'', ''take''), (''gave'', ''give'')]"

definition unitAliases :: "(string \<times> string) list" where
  "unitAliases =
    [(''megabyte'', ''mb''), (''gigabyte'', ''gb''), (''kilobyte'', ''kb''), (''terabyte'', ''tb''),
     (''second'', ''sec''), (''minute'', ''min''), (''hour'', ''hr''), (''millisecond'', ''ms''),
     (''request'', ''req''), (''percent'', ''percent'')]"

definition word_for :: "(string \<times> string) list \<Rightarrow> runes \<Rightarrow> runes option" where
  "word_for table w = map_of (map (\<lambda>(k, v). (bytes_of k, bytes_of v)) table) w"

section \<open>Matchers for the regular expressions\<close>

definition digit_rune :: "nat \<Rightarrow> bool" where "digit_rune r \<longleftrightarrow> 48 \<le> r \<and> r \<le> 57"
definition alpha_rune :: "nat \<Rightarrow> bool" where "alpha_rune r \<longleftrightarrow> 97 \<le> r \<and> r \<le> 122"

text \<open>The ASCII word characters of \<open>\b\<close>.\<close>

definition word_rune :: "nat \<Rightarrow> bool" where
  "word_rune r \<longleftrightarrow> digit_rune r \<or> alpha_rune r \<or> 65 \<le> r \<and> r \<le> 90 \<or> r = 95"

definition ends_word :: "runes \<Rightarrow> bool" where
  "ends_word s \<longleftrightarrow> (case s of [] \<Rightarrow> True | r # _ \<Rightarrow> \<not> word_rune r)"

text \<open>
  \<open>tokenRe\<close>: a run of letters, or digits with groups of digits behind dots and colons. The
  first rune of \<open>number_run\<close> is a digit.
\<close>

fun number_run :: "runes \<Rightarrow> runes \<times> runes" where
  "number_run [] = ([], [])"
| "number_run (c # s) =
     (if digit_rune c \<or> (c = 46 \<or> c = 58) \<and> (case s of q # _ \<Rightarrow> digit_rune q | [] \<Rightarrow> False)
      then (case number_run s of (a, b) \<Rightarrow> (c # a, b))
      else ([], c # s))"

lemma number_run_append: "number_run s = (a, b) \<Longrightarrow> s = a @ b"
  by (induction s arbitrary: a) (auto split: if_splits prod.splits)

lemma number_run_length: "(a, b) = number_run s \<Longrightarrow> length b \<le> length s"
  using number_run_append [of s a b] by simp

function tokens_of :: "runes \<Rightarrow> runes list" where
  "tokens_of [] = []"
| "tokens_of (c # s) =
     (if alpha_rune c then (c # takeWhile alpha_rune s) # tokens_of (dropWhile alpha_rune s)
      else if digit_rune c then
        (case number_run s of (a, b) \<Rightarrow> (c # a) # tokens_of b)
      else tokens_of s)"
  by pat_completeness auto
termination
  by (relation "measure length") (auto simp: less_Suc_eq_le length_dropWhile_le dest: number_run_length)

text \<open>
  \<open>quotedRe\<close>: a double quote, a backquote or an apostrophe, one to eighty other runes, and the
  same quote again.
\<close>

definition quote_at :: "runes \<Rightarrow> (runes \<times> runes) option" where
  "quote_at s =
     (case s of
        [] \<Rightarrow> None
      | q # rest \<Rightarrow>
          let body = takeWhile (\<lambda>r. r \<noteq> q) rest in
          if q \<in> {34, 96, 39} \<and> 1 \<le> length body \<and> length body \<le> 80 \<and> body \<noteq> rest
          then Some (body, drop (Suc (length body)) rest) else None)"

function quoted_spans :: "runes \<Rightarrow> runes list" where
  "quoted_spans s =
     (if s = [] then []
      else case quote_at s of
             None \<Rightarrow> quoted_spans (tl s)
           | Some (body, rest) \<Rightarrow> body # quoted_spans rest)"
  by auto
termination
  by (relation "measure length") (auto simp: quote_at_def Let_def neq_Nil_conv split: list.splits if_splits)

declare quoted_spans.simps [simp del]

text \<open>\<open>ampmRe\<close>: one or two digits, an optional colon with two digits, white space, am or pm.\<close>

definition two_digits :: "runes \<Rightarrow> bool" where
  "two_digits s \<longleftrightarrow> 2 \<le> length s \<and> list_all digit_rune (take 2 s)"

definition ampm_at :: "runes \<Rightarrow> ((runes \<times> runes \<times> bool) \<times> runes) option" where
  "ampm_at s =
     (let h = takeWhile digit_rune s;
          s1 = drop (length h) s;
          mm = (if take 1 s1 = [58] \<and> two_digits (drop 1 s1) then take 2 (drop 1 s1) else []);
          s2 = (if mm = [] then s1 else drop 3 s1);
          s3 = dropWhile (\<lambda>r. r \<in> {9, 10, 12, 13, 32}) s2;
          mark = take 2 s3
      in if 1 \<le> length h \<and> length h \<le> 2 \<and> (mark = bytes_of ''am'' \<or> mark = bytes_of ''pm'') \<and> ends_word (drop 2 s3)
         then Some ((h, mm, mark = bytes_of ''pm''), drop 2 s3) else None)"

definition atoiSafe :: "runes \<Rightarrow> nat" where
  "atoiSafe s = foldl (\<lambda>n r. n * 10 + (r - 48)) 0 s"

text \<open>\<open>%d\<close> of an hour, which has at most two digits.\<close>

definition show_hour :: "nat \<Rightarrow> runes" where
  "show_hour h = (if h < 10 then [48 + h] else [48 + h div 10, 48 + h mod 10])"

definition clock24 :: "runes \<times> runes \<times> bool \<Rightarrow> runes" where
  "clock24 g =
     (case g of (h, mm, pm) \<Rightarrow>
        show_hour (atoiSafe h mod 12 + (if pm then 12 else 0)) @ [58] @ (if mm = [] then [48, 48] else mm))"

lemma ampm_at_length: "ampm_at s = Some (g, rest) \<Longrightarrow> length rest < length s"
proof -
  assume a: "ampm_at s = Some (g, rest)"
  define h where "h = takeWhile digit_rune s"
  define s1 where "s1 = drop (length h) s"
  define mm where "mm = (if take 1 s1 = [58] \<and> two_digits (drop 1 s1) then take 2 (drop 1 s1) else [])"
  define s2 where "s2 = (if mm = [] then s1 else drop 3 s1)"
  define s3 where "s3 = dropWhile (\<lambda>r. r \<in> {9, 10, 12, 13, 32}) s2"
  have "take 2 s3 \<noteq> []" "rest = drop 2 s3"
    using a unfolding ampm_at_def Let_def h_def [symmetric] s1_def [symmetric] mm_def [symmetric] s2_def [symmetric]
      s3_def [symmetric] by (auto simp: bytes_of_def split: if_splits)
  then have "length rest < length s3" by auto
  also have "\<dots> \<le> length s2" unfolding s3_def by (rule length_dropWhile_le)
  also have "\<dots> \<le> length s" by (simp add: s2_def s1_def)
  finally show ?thesis .
qed

text \<open>The replacement walks the text; \<open>inword\<close> says whether the rune before is a word rune.\<close>

function replace_ampm :: "bool \<Rightarrow> runes \<Rightarrow> runes" where
  "replace_ampm inword s =
     (if s = [] then []
      else case (if inword then None else ampm_at s) of
             None \<Rightarrow> hd s # replace_ampm (word_rune (hd s)) (tl s)
           | Some (g, rest) \<Rightarrow> clock24 g @ replace_ampm True rest)"
  by auto
termination
  by (relation "measure (\<lambda>(w, s). length s)") (auto dest: ampm_at_length split: if_splits)

declare replace_ampm.simps [simp del]

text \<open>\<open>clockRe\<close>: a zero, a digit, a colon, two digits.\<close>

definition clock_at :: "runes \<Rightarrow> runes option" where
  "clock_at s =
     (if take 1 s = [48] \<and> take 1 (drop 1 s) \<noteq> [] \<and> list_all digit_rune (take 1 (drop 1 s))
         \<and> take 1 (drop 2 s) = [58] \<and> two_digits (drop 3 s) \<and> ends_word (drop 5 s)
      then Some (drop 5 s) else None)"

function replace_clock :: "bool \<Rightarrow> runes \<Rightarrow> runes" where
  "replace_clock inword s =
     (if s = [] then []
      else case (if inword then None else clock_at s) of
             None \<Rightarrow> hd s # replace_clock (word_rune (hd s)) (tl s)
           | Some rest \<Rightarrow> take 4 (drop 1 s) @ replace_clock True rest)"
  by auto
termination
  by (relation "measure (\<lambda>(w, s). length s)") (auto simp: clock_at_def split: if_splits)

declare replace_clock.simps [simp del]

definition normalizeTimes :: "runes \<Rightarrow> runes" where
  "normalizeTimes s = replace_clock False (replace_ampm False s)"

section \<open>Words\<close>

text \<open>The first suffix of the list that leaves three runes.\<close>

definition strip_suffix :: "runes \<Rightarrow> runes" where
  "strip_suffix tok =
     (case find (\<lambda>suf. ends_with tok suf \<and> length suf + 3 \<le> length tok)
             (map bytes_of [''ies'', ''ing'', ''ed'', ''es'', ''s'']) of
        None \<Rightarrow> tok
      | Some suf \<Rightarrow>
          take (length tok - length suf) tok @ (if suf = bytes_of ''ies'' then bytes_of ''y'' else []))"

definition undouble :: "runes \<Rightarrow> runes" where
  "undouble tok =
     (let n = length tok in
      if 4 \<le> n \<and> tok ! (n - 1) = tok ! (n - 2) \<and> tok ! (n - 1) \<notin> set (bytes_of ''aeiou'')
      then take (n - 1) tok else tok)"

definition trim_e :: "runes \<Rightarrow> runes" where
  "trim_e tok =
     (let n = length tok in if 4 \<le> n \<and> tok ! (n - 1) = 101 then take (n - 1) tok else tok)"

definition normalizeWord :: "runes \<Rightarrow> runes" where
  "normalizeWord tok =
     (let base = (case word_for irregularVerbs tok of Some b \<Rightarrow> b | None \<Rightarrow> tok);
          stem = trim_e (undouble (strip_suffix base))
      in case word_for unitAliases stem of Some alias \<Rightarrow> alias | None \<Rightarrow> stem)"

definition retroCue :: "unicode \<Rightarrow> runes \<Rightarrow> string" where
  "retroCue u txt =
     (case find (\<lambda>cue. Contains (lower_runes u txt) (bytes_of cue)) retroCues of
        Some cue \<Rightarrow> cue | None \<Rightarrow> '''')"

section \<open>Features\<close>

record features =
  fTokens :: "runes list"
  fValues :: "runes list"
  fEntities :: "runes list"
  fNegated :: bool

definition quoted_words :: "runes \<Rightarrow> runes list" where
  "quoted_words lower = concat (map tokens_of (quoted_spans lower))"

definition add_token :: "runes list \<Rightarrow> runes list \<Rightarrow> runes \<Rightarrow> features \<Rightarrow> features" where
  "add_token quoted entityWords tok f =
     (let letter = (97 \<le> hd tok);
          isValue = (tok \<in> set quoted \<or> tok \<in> set entityWords \<or> digit_rune (hd tok));
          f1 = (if letter \<and> listed negators tok then f\<lparr> fNegated := True \<rparr> else f)
      in case (if letter then
                 (case word_for numberWords tok of
                    Some n \<Rightarrow> (n, True)
                  | None \<Rightarrow> let w = normalizeWord tok in (w, isValue \<or> w \<in> set entityWords))
               else (tok, isValue)) of
           (t, v) \<Rightarrow>
             if length t < 2 \<or> entityStopword t \<or> listed extraStopwords t then f1
             else f1\<lparr> fTokens := List.insert t (fTokens f1),
                      fValues := (if v then List.insert t (fValues f1) else fValues f1) \<rparr>)"

definition analyze :: "unicode \<Rightarrow> runes \<Rightarrow> features" where
  "analyze u txt =
     (let entities = Entities u txt;
          entityWords = concat (map fields_of entities);
          lower = normalizeTimes (lower_runes u txt)
      in fold (add_token (quoted_words lower) entityWords) (tokens_of lower)
           \<lparr> fTokens = [], fValues = [], fEntities = remdups entities, fNegated = False \<rparr>)"

section \<open>Sets of words\<close>

definition intersect :: "runes list \<Rightarrow> runes list \<Rightarrow> runes list" where
  "intersect a b = filter (\<lambda>k. k \<in> set b) a"

definition subtract :: "runes list \<Rightarrow> runes list \<Rightarrow> runes list" where
  "subtract a b = filter (\<lambda>k. k \<notin> set b) a"

definition first_key :: "runes list \<Rightarrow> runes" where
  "first_key m = (case sort m of [] \<Rightarrow> [] | k # _ \<Rightarrow> k)"

definition drop_trailing_dots :: "runes \<Rightarrow> runes" where
  "drop_trailing_dots a = rev (dropWhile (\<lambda>r. r = 46) (rev (TrimSuffix a (bytes_of ''.0''))))"

definition numEqual :: "runes \<Rightarrow> runes \<Rightarrow> bool" where
  "numEqual a b \<longleftrightarrow>
     a \<noteq> [] \<and> b \<noteq> [] \<and> digit_rune (hd a) \<and> digit_rune (hd b)
     \<and> drop_trailing_dots a = drop_trailing_dots b"

definition prefixAlias :: "runes \<Rightarrow> runes \<Rightarrow> nat \<Rightarrow> bool" where
  "prefixAlias a b minPrefix \<longleftrightarrow>
     (let s = (if length b < length a then b else a); l = (if length b < length a then a else b)
      in minPrefix \<le> length s \<and> take (length s) l = s)"

definition alias_pair :: "nat \<Rightarrow> runes \<Rightarrow> runes \<Rightarrow> bool" where
  "alias_pair minPrefix a b \<longleftrightarrow> numEqual a b \<or> prefixAlias a b minPrefix"

text \<open>The order in which the code ranges over a map, for each run of the loop.\<close>

record map_order =
  moOuter :: "runes list \<Rightarrow> runes list"
  moInner :: "runes \<Rightarrow> runes list \<Rightarrow> runes list"

definition drop_pair :: "nat \<Rightarrow> runes \<Rightarrow> runes \<Rightarrow> runes list \<times> runes list \<Rightarrow> runes list \<times> runes list" where
  "drop_pair minPrefix a b st =
     (case st of (outNew, outOld) \<Rightarrow>
        if a \<notin> set outNew \<or> b \<notin> set outOld then (outNew, outOld)
        else if alias_pair minPrefix a b then (removeAll a outNew, removeAll b outOld)
        else (outNew, outOld))"

definition dropAliases :: "map_order \<Rightarrow> runes list \<Rightarrow> runes list \<Rightarrow> nat \<Rightarrow> runes list \<times> runes list" where
  "dropAliases mo vNew vOld minPrefix =
     fold (\<lambda>a. fold (drop_pair minPrefix a) (moInner mo a vOld)) (moOuter mo vNew) (vNew, vOld)"

section \<open>Classify\<close>

abbreviation cue_words :: "runes list" where
  "cue_words \<equiv> map bytes_of cueWords"

text \<open>The share of the smaller text that the two have in common.\<close>

definition overlap_of :: "features \<Rightarrow> features \<Rightarrow> real" where
  "overlap_of nf old =
     real (length (intersect (fTokens nf) (fTokens old))) / real (min (length (fTokens nf)) (length (fTokens old)))"

definition sharedEntity :: "features \<Rightarrow> features \<Rightarrow> bool" where
  "sharedEntity nf old \<longleftrightarrow> 0 < length (intersect (fEntities nf) (fEntities old))"

definition value_slots :: "map_order \<Rightarrow> ContradictConfig \<Rightarrow> features \<Rightarrow> features \<Rightarrow> runes list \<times> runes list" where
  "value_slots mo cfg nf old =
     dropAliases mo (intersect (subtract (fTokens nf) (fTokens old)) (fValues nf))
       (intersect (subtract (fTokens old) (fTokens nf)) (fValues old)) (AliasPrefixMin cfg)"

definition residue :: "features \<Rightarrow> features \<Rightarrow> runes list" where
  "residue f g = subtract (subtract (subtract (fTokens f) (fTokens g)) (fValues f)) cue_words"

definition containment :: "features \<Rightarrow> features \<Rightarrow> real" where
  "containment nf old =
     real (length (subtract (intersect (fTokens nf) (fTokens old)) cue_words))
     / real (max 1 (length (subtract (fTokens nf) cue_words)))"

text \<open>The comparison behind the fingerprint check; \<open>cue\<close> is the \<open>retroCue\<close> of the new text.\<close>

definition compare_features ::
    "map_order \<Rightarrow> ContradictConfig \<Rightarrow> string \<Rightarrow> features \<Rightarrow> features \<Rightarrow> Result" where
  "compare_features mo cfg cue nf old =
     (if fTokens nf = [] \<or> fTokens old = [] then result Distinct NoContentTokens
      else
        let shared = length (intersect (fTokens nf) (fTokens old));
            overlap = overlap_of nf old
        in if overlap < OverlapFloor cfg \<or> \<not> sharedEntity nf old \<and> shared < 2
           then result Distinct (BelowFloor overlap)
           else case value_slots mo cfg nf old of (vNew, vOld) \<Rightarrow>
             if 0 < length vNew \<and> 0 < length vOld
                \<and> length (residue nf old) \<le> ResidueMax cfg \<and> length (residue old nf) \<le> ResidueMax cfg
             then result Update (ValueSwap (first_key vOld) (first_key vNew))
             else if (sharedEntity nf old \<or> 3 \<le> shared)
                     \<and> cue \<noteq> '''' \<and> NegOverlapFloor cfg \<le> containment nf old
                     \<and> length (residue nf old) \<le> ResidueMax cfg
             then result Update (PolarityCue cue)
             else if (sharedEntity nf old \<or> 3 \<le> shared)
                     \<and> (fNegated nf \<and> \<not> fNegated old)
                     \<and> max (NegOverlapFloor cfg) 0.75 \<le> containment nf old
                     \<and> length (residue nf old) \<le> 1
             then result Update NegationFlip
             else result Restatement (NoDecisiveChange overlap))"

definition compare_texts :: "unicode \<Rightarrow> map_order \<Rightarrow> string \<Rightarrow> string \<Rightarrow> ContradictConfig \<Rightarrow> Result" where
  "compare_texts u mo newText oldText cfg =
     compare_features mo cfg (retroCue u (runes_of newText))
       (analyze u (runes_of newText)) (analyze u (runes_of oldText))"

definition Classify :: "unicode \<Rightarrow> map_order \<Rightarrow> string \<Rightarrow> string \<Rightarrow> ContradictConfig \<Rightarrow> Result" where
  "Classify u mo newText oldText cfg =
     (if Fingerprint newText = Fingerprint oldText then result Restatement IdenticalContent
      else compare_texts u mo newText oldText cfg)"

end
