(* ===== verification/Contradict_Sound.thy ===== *)
theory Contradict_Sound
  imports Contradict "HOL-Library.Multiset"
begin

text \<open>
  What the detector of \<open>Contradict\<close> computes: the tokens of a text, what the pairing of aliases
  leaves whatever the order of the map, when that order cannot be observed, and what an update
  rests on.
\<close>

section \<open>Features\<close>

text \<open>Every token has two runes or more, so a single digit is never one; values are tokens.\<close>

definition features_ok :: "features \<Rightarrow> bool" where
  "features_ok f \<longleftrightarrow>
     distinct (fTokens f) \<and> distinct (fValues f) \<and> set (fValues f) \<subseteq> set (fTokens f)
     \<and> list_all (\<lambda>t. 2 \<le> length t \<and> \<not> entityStopword t) (fTokens f)"

lemma add_token_ok: "features_ok f \<Longrightarrow> features_ok (add_token q e tok f)"
proof -
  assume f: "features_ok f"
  obtain t v where tv: "(if 97 \<le> hd tok then
        (case word_for numberWords tok of
           Some n \<Rightarrow> (n, True)
         | None \<Rightarrow> let w = normalizeWord tok
                  in (w, (tok \<in> set q \<or> tok \<in> set e \<or> digit_rune (hd tok)) \<or> w \<in> set e))
      else (tok, tok \<in> set q \<or> tok \<in> set e \<or> digit_rune (hd tok))) = (t, v)"
    by fastforce
  show ?thesis
    using f unfolding features_ok_def add_token_def Let_def tv [unfolded Let_def] prod.case
    by (auto simp: not_less list_all_iff)
qed

lemma fold_add_token_ok: "features_ok f \<Longrightarrow> features_ok (fold (add_token q e) toks f)"
  by (induction toks arbitrary: f) (simp_all add: add_token_ok)

lemma analyze_ok: "features_ok (analyze u txt)"
  unfolding analyze_def Let_def by (rule fold_add_token_ok) (simp add: features_ok_def)

lemma intersect_set [simp]: "set (intersect a b) = set a \<inter> set b"
  by (auto simp: intersect_def)

lemma subtract_set [simp]: "set (subtract a b) = set a - set b"
  by (auto simp: subtract_def)

section \<open>The pairing of aliases\<close>

text \<open>An order in which a map can be visited: every key once.\<close>

definition map_range :: "map_order \<Rightarrow> bool" where
  "map_range mo \<longleftrightarrow> (\<forall>vs. mset (moOuter mo vs) = mset vs) \<and> (\<forall>a vs. mset (moInner mo a vs) = mset vs)"

lemma map_range_set:
  "map_range mo \<Longrightarrow> set (moOuter mo vs) = set vs" "map_range mo \<Longrightarrow> set (moInner mo a vs) = set vs"
  by (metis map_range_def set_mset_mset)+

definition pair_off :: "nat \<Rightarrow> runes list \<Rightarrow> runes \<Rightarrow> runes list \<times> runes list \<Rightarrow> runes list \<times> runes list" where
  "pair_off n bs a st =
     (case st of (N, V) \<Rightarrow>
        if a \<notin> set N then (N, V)
        else case find (\<lambda>b. b \<in> set V \<and> alias_pair n a b) bs of
               None \<Rightarrow> (N, V)
             | Some b \<Rightarrow> (removeAll a N, removeAll b V))"

lemma drop_pair_gone: "a \<notin> set N \<Longrightarrow> fold (drop_pair n a) bs (N, V) = (N, V)"
  by (induction bs) (simp_all add: drop_pair_def)

lemma drop_pairs: "fold (drop_pair n a) bs = pair_off n bs a"
proof (rule ext)
  fix st
  show "fold (drop_pair n a) bs st = pair_off n bs a st"
proof (induction bs arbitrary: st)
  case Nil
  then show ?case by (auto simp: pair_off_def split: prod.splits)
next
  case (Cons b bs)
  obtain N V where st: "st = (N, V)" by (cases st)
  show ?case
  proof (cases "a \<in> set N \<and> b \<in> set V \<and> alias_pair n a b")
    case True
    then have "drop_pair n a b st = (removeAll a N, removeAll b V)" by (simp add: st drop_pair_def)
    then have "fold (drop_pair n a) (b # bs) st = (removeAll a N, removeAll b V)"
      by (simp add: drop_pair_gone)
    then show ?thesis using True by (simp add: st pair_off_def)
  next
    case False
    then have "drop_pair n a b st = st" by (auto simp: st drop_pair_def)
    then have "fold (drop_pair n a) (b # bs) st = pair_off n bs a st" using Cons.IH by simp
    then show ?thesis using False by (auto simp: st pair_off_def)
  qed
qed
qed

lemma dropAliases_pairs:
  "dropAliases mo vNew vOld n = fold (\<lambda>a. pair_off n (moInner mo a vOld) a) (moOuter mo vNew) (vNew, vOld)"
  unfolding dropAliases_def drop_pairs ..

lemma pair_off_shrinks:
  "pair_off n bs a (N, V) = (N', V') \<Longrightarrow> set N' \<subseteq> set N \<and> set V' \<subseteq> set V"
  by (auto simp: pair_off_def split: if_splits option.splits)

text \<open>What is left has no alias on the other side, for the keys that were visited.\<close>

lemma pair_off_maximal:
  assumes "pair_off n bs a (N, V) = (N', V')" and "set V \<subseteq> set bs"
    and "\<And>c b. c \<in> P \<Longrightarrow> c \<in> set N \<Longrightarrow> b \<in> set V \<Longrightarrow> \<not> alias_pair n c b"
    and "c \<in> insert a P" and "c \<in> set N'" and "b \<in> set V'"
  shows "\<not> alias_pair n c b"
proof (cases "c \<in> P")
  case True
  then show ?thesis using pair_off_shrinks [OF assms(1)] assms(3,5,6) by blast
next
  case False
  then have c: "c = a" using assms(4) by blast
  have a: "a \<in> set N" using pair_off_shrinks [OF assms(1)] assms(5) c by blast
  have "find (\<lambda>b. b \<in> set V \<and> alias_pair n a b) bs = None"
    using assms(1,5) a c by (auto simp: pair_off_def split: option.splits)
  then have "\<not> alias_pair n a b'" if "b' \<in> set V" for b' using that assms(2) by (auto simp: find_None_iff)
  then show ?thesis using pair_off_shrinks [OF assms(1)] assms(6) c by blast
qed

lemma pairs_maximal:
  assumes "fold (\<lambda>a. pair_off n (bs a) a) as (N, V) = (N', V')" and "\<And>a. set V \<subseteq> set (bs a)"
    and "\<And>c b. c \<in> P \<Longrightarrow> c \<in> set N \<Longrightarrow> b \<in> set V \<Longrightarrow> \<not> alias_pair n c b"
    and "c \<in> set as \<union> P" and "c \<in> set N'" and "b \<in> set V'"
  shows "\<not> alias_pair n c b"
  using assms
proof (induction as arbitrary: N V P)
  case Nil
  then show ?case by simp
next
  case (Cons a as)
  obtain N1 V1 where s: "pair_off n (bs a) a (N, V) = (N1, V1)" by fastforce
  show ?case
  proof (rule Cons.IH [of N1 V1 "insert a P"])
    show "fold (\<lambda>a. pair_off n (bs a) a) as (N1, V1) = (N', V')" using Cons.prems(1) s by simp
    show "set V1 \<subseteq> set (bs a')" for a' using pair_off_shrinks [OF s] Cons.prems(2) by blast
    show "\<not> alias_pair n c b" if "c \<in> insert a P" "c \<in> set N1" "b \<in> set V1" for c b
      using pair_off_maximal [OF s Cons.prems(2) _ that] Cons.prems(3) by blast
    show "c \<in> set as \<union> insert a P" using Cons.prems(4) by auto
  qed (use Cons.prems in blast)+
qed

lemma pairs_shrink:
  "fold (\<lambda>a. pair_off n (bs a) a) as (N, V) = (N', V') \<Longrightarrow> set N' \<subseteq> set N \<and> set V' \<subseteq> set V"
proof (induction as arbitrary: N V)
  case (Cons a as)
  obtain N1 V1 where s: "pair_off n (bs a) a (N, V) = (N1, V1)" by fastforce
  then show ?case using Cons.IH [of N1 V1] Cons.prems pair_off_shrinks [OF s] by simp blast
qed simp

lemma dropAliases_sound:
  assumes "map_range mo" and "dropAliases mo vNew vOld n = (vN, vO)"
  shows "set vN \<subseteq> set vNew" "set vO \<subseteq> set vOld"
    and "a \<in> set vN \<Longrightarrow> b \<in> set vO \<Longrightarrow> \<not> alias_pair n a b"
proof -
  note f = assms(2) [unfolded dropAliases_pairs]
  show s: "set vN \<subseteq> set vNew" "set vO \<subseteq> set vOld" using pairs_shrink [OF f] by blast+
  show "\<not> alias_pair n a b" if "a \<in> set vN" "b \<in> set vO"
    by (rule pairs_maximal [OF f, of "{}"])
      (use that s map_range_set [OF assms(1)] in auto)
qed

section \<open>When the order of the map cannot be observed\<close>

text \<open>No value is an alias of two values of the other text.\<close>

definition unrivalled :: "nat \<Rightarrow> runes list \<Rightarrow> runes list \<Rightarrow> bool" where
  "unrivalled n vNew vOld \<longleftrightarrow>
     list_all (\<lambda>a. length (filter (alias_pair n a) vOld) \<le> 1) vNew
     \<and> list_all (\<lambda>b. length (filter (\<lambda>a. alias_pair n a b) vNew) \<le> 1) vOld"

lemma at_most_one:
  assumes "length (filter p xs) \<le> 1" and "x \<in> set xs" "p x" "y \<in> set xs" "p y"
  shows "x = y"
proof -
  have m: "x \<in> set (filter p xs)" "y \<in> set (filter p xs)" using assms by auto
  obtain z where "filter p xs = [] \<or> filter p xs = [z]"
    using assms(1) by (cases "filter p xs") auto
  then show ?thesis using m by (elim disjE) (simp_all only: list.set empty_iff singleton_iff)
qed

lemma unrivalled_old:
  "unrivalled n vNew vOld \<Longrightarrow> a \<in> set vNew \<Longrightarrow> b \<in> set vOld \<Longrightarrow> b' \<in> set vOld
   \<Longrightarrow> alias_pair n a b \<Longrightarrow> alias_pair n a b' \<Longrightarrow> b = b'"
  unfolding unrivalled_def list_all_iff by (rule at_most_one [of "alias_pair n a" vOld]) auto

lemma unrivalled_new:
  "unrivalled n vNew vOld \<Longrightarrow> b \<in> set vOld \<Longrightarrow> a \<in> set vNew \<Longrightarrow> a' \<in> set vNew
   \<Longrightarrow> alias_pair n a b \<Longrightarrow> alias_pair n a' b \<Longrightarrow> a = a'"
  unfolding unrivalled_def list_all_iff by (rule at_most_one [of "\<lambda>a. alias_pair n a b" vNew]) auto

text \<open>The state of the pairing once the keys \<open>P\<close> have been visited.\<close>

definition unpaired :: "nat \<Rightarrow> runes list \<Rightarrow> runes list \<Rightarrow> runes set \<Rightarrow> runes list \<times> runes list" where
  "unpaired n vNew vOld P =
     (filter (\<lambda>a. \<not> (a \<in> P \<and> (\<exists>b \<in> set vOld. alias_pair n a b))) vNew,
      filter (\<lambda>b. \<not> (\<exists>a \<in> P. alias_pair n a b)) vOld)"

lemma pair_off_unpaired:
  assumes u: "unrivalled n vNew vOld" and P: "P \<subseteq> set vNew" and a: "a \<in> set vNew" and bs: "set bs = set vOld"
  shows "pair_off n bs a (unpaired n vNew vOld P) = unpaired n vNew vOld (insert a P)"
proof (cases "\<exists>b \<in> set vOld. alias_pair n a b")
  case False
  then have "find (\<lambda>b. b \<in> set V \<and> alias_pair n a b) bs = None" for V using bs by (auto simp: find_None_iff)
  moreover have "unpaired n vNew vOld (insert a P) = unpaired n vNew vOld P"
    using False unfolding unpaired_def by (auto intro!: filter_cong)
  ultimately show ?thesis unfolding unpaired_def pair_off_def by (simp only: prod.case option.case) simp
next
  case True
  then obtain b where b: "b \<in> set vOld" "alias_pair n a b" by blast
  show ?thesis
  proof (cases "a \<in> P")
    case True
    then have "insert a P = P" by blast
    then show ?thesis using True b by (auto simp: pair_off_def unpaired_def)
  next
    case False
    obtain N V where NV: "unpaired n vNew vOld P = (N, V)" by fastforce
    have N: "N = filter (\<lambda>a. \<not> (a \<in> P \<and> (\<exists>b \<in> set vOld. alias_pair n a b))) vNew"
      and V: "V = filter (\<lambda>b. \<not> (\<exists>a \<in> P. alias_pair n a b)) vOld"
      using NV by (simp_all add: unpaired_def)
    have bV: "b \<in> set V" using b unrivalled_new [OF u b(1) a _ b(2)] P False by (auto simp: V)
    have only: "b' = b" if "b' \<in> set vOld" "alias_pair n a b'" for b'
      using unrivalled_old [OF u a b(1) that(1) b(2) that(2)] by simp
    have "find (\<lambda>b. b \<in> set V \<and> alias_pair n a b) bs \<noteq> None"
      using bV b bs by (auto simp: find_None_iff)
    then obtain b' where f: "find (\<lambda>b. b \<in> set V \<and> alias_pair n a b) bs = Some b'" by blast
    then have "b' = b" using find_Some_set [OF f] bs by (auto intro: only)
    then have "pair_off n bs a (N, V) = (removeAll a N, removeAll b V)"
      using f False a by (simp add: pair_off_def N)
    moreover have "removeAll a N = fst (unpaired n vNew vOld (insert a P))"
      using b by (auto simp: unpaired_def N removeAll_filter_not_eq intro!: filter_cong)
    moreover have "removeAll b V = snd (unpaired n vNew vOld (insert a P))"
    proof -
      have al: "alias_pair n a x \<longleftrightarrow> x = b" if "x \<in> set vOld" for x using only that b(2) by blast
      have "removeAll b V = filter (\<lambda>x. b \<noteq> x \<and> \<not> (\<exists>a \<in> P. alias_pair n a x)) vOld"
        unfolding V removeAll_filter_not_eq filter_filter by (simp only: conj_commute)
      also have "\<dots> = filter (\<lambda>x. \<not> (\<exists>a' \<in> insert a P. alias_pair n a' x)) vOld"
      proof (rule filter_cong [OF refl])
        fix x assume "x \<in> set vOld"
        from al [OF this] show "(b \<noteq> x \<and> \<not> (\<exists>a \<in> P. alias_pair n a x)) = (\<not> (\<exists>a' \<in> insert a P. alias_pair n a' x))"
          by blast
      qed
      finally show ?thesis by (simp only: unpaired_def snd_conv)
    qed
    ultimately show ?thesis by (simp add: NV)
  qed
qed

lemma pairs_unpaired:
  assumes u: "unrivalled n vNew vOld" and bs: "\<And>a. set (bs a) = set vOld"
  shows "P \<subseteq> set vNew \<Longrightarrow> set as \<subseteq> set vNew
    \<Longrightarrow> fold (\<lambda>a. pair_off n (bs a) a) as (unpaired n vNew vOld P) = unpaired n vNew vOld (set as \<union> P)"
proof (induction as arbitrary: P)
  case (Cons a as)
  have "pair_off n (bs a) a (unpaired n vNew vOld P) = unpaired n vNew vOld (insert a P)"
    using Cons.prems by (intro pair_off_unpaired [OF u _ _ bs]) auto
  then show ?case using Cons.IH [of "insert a P"] Cons.prems by simp
qed simp

lemma dropAliases_unrivalled:
  assumes "map_range mo" and "unrivalled n vNew vOld"
  shows "dropAliases mo vNew vOld n = unpaired n vNew vOld (set vNew)"
proof -
  have "unpaired n vNew vOld {} = (vNew, vOld)" by (simp add: unpaired_def)
  then show ?thesis
    using pairs_unpaired [OF assms(2), of "\<lambda>a. moInner mo a vOld" "{}" "moOuter mo vNew"] map_range_set [OF assms(1)]
    by (simp add: dropAliases_pairs)
qed

lemma compare_features_order:
  assumes "map_range mo" and "map_range mo'"
    and "unrivalled (AliasPrefixMin cfg) (intersect (subtract (fTokens nf) (fTokens old)) (fValues nf))
           (intersect (subtract (fTokens old) (fTokens nf)) (fValues old))"
  shows "compare_features mo cfg cue nf old = compare_features mo' cfg cue nf old"
  unfolding compare_features_def value_slots_def
    dropAliases_unrivalled [OF assms(1,3)] dropAliases_unrivalled [OF assms(2,3)] ..

section \<open>What an update rests on\<close>

text \<open>A changed value slot: a value of either text that the other lacks, the two no aliases.\<close>

definition value_changed :: "nat \<Rightarrow> features \<Rightarrow> features \<Rightarrow> bool" where
  "value_changed n nf old \<longleftrightarrow>
     list_ex (\<lambda>a. list_ex (\<lambda>b. \<not> alias_pair n a b) (subtract (fValues old) (fTokens nf)))
       (subtract (fValues nf) (fTokens old))"

definition polarity_flipped :: "string \<Rightarrow> features \<Rightarrow> features \<Rightarrow> bool" where
  "polarity_flipped cue nf old \<longleftrightarrow> cue \<noteq> '''' \<or> fNegated nf \<and> \<not> fNegated old"

lemma result_sel [simp]: "crClass (result c r) = c" "crReason (result c r) = r"
  by (simp_all add: result_def)

lemma compare_Update_cases:
  assumes "crClass (compare_features mo cfg cue nf old) = Update"
  obtains
    (topic) vN vO where "OverlapFloor cfg \<le> overlap_of nf old"
      "sharedEntity nf old \<or> 2 \<le> length (intersect (fTokens nf) (fTokens old))"
      "value_slots mo cfg nf old = (vN, vO)"
      "vN \<noteq> [] \<and> vO \<noteq> [] \<and> length (residue nf old) \<le> ResidueMax cfg \<and> length (residue old nf) \<le> ResidueMax cfg
       \<or> (sharedEntity nf old \<or> 3 \<le> length (intersect (fTokens nf) (fTokens old)))
         \<and> NegOverlapFloor cfg \<le> containment nf old
         \<and> (cue \<noteq> '''' \<and> length (residue nf old) \<le> ResidueMax cfg
            \<or> fNegated nf \<and> \<not> fNegated old \<and> length (residue nf old) \<le> 1)"
proof -
  obtain vN vO where v: "value_slots mo cfg nf old = (vN, vO)" by fastforce
  show ?thesis
    using assms unfolding compare_features_def Let_def v prod.case
    by (intro topic [OF _ _ v]) (auto split: if_splits)
qed

lemma value_slots_changed:
  assumes "map_range mo" and "value_slots mo cfg nf old = (vN, vO)" and "vN \<noteq> []" and "vO \<noteq> []"
  shows "value_changed (AliasPrefixMin cfg) nf old"
proof -
  note s = dropAliases_sound [OF assms(1) assms(2) [unfolded value_slots_def]]
  obtain a b where ab: "a \<in> set vN" "b \<in> set vO" using assms(3,4) hd_in_set by blast
  then have "\<not> alias_pair (AliasPrefixMin cfg) a b" by (rule s(3))
  moreover have "a \<in> set (subtract (fValues nf) (fTokens old))" "b \<in> set (subtract (fValues old) (fTokens nf))"
    using s(1,2) ab by auto
  ultimately show ?thesis unfolding value_changed_def list_ex_iff by blast
qed

text \<open>A text without a value, a cue or a negation of its own cannot update anything.\<close>

lemma no_evidence_no_update:
  assumes "map_range mo" and "\<not> value_changed (AliasPrefixMin cfg) nf old" and "\<not> polarity_flipped cue nf old"
  shows "crClass (compare_features mo cfg cue nf old) \<noteq> Update"
proof
  assume "crClass (compare_features mo cfg cue nf old) = Update"
  then show False
    by (cases rule: compare_Update_cases)
      (use assms value_slots_changed in \<open>auto simp: polarity_flipped_def\<close>)
qed

lemma Classify_Update:
  "crClass (Classify u mo n old cfg) = Update \<Longrightarrow>
     Fingerprint n \<noteq> Fingerprint old \<and> Classify u mo n old cfg = compare_texts u mo n old cfg"
  by (simp add: Classify_def split: if_splits)

end
