(* ===== verification/Fingerprint_Samples.thy ===== *)
theory Fingerprint_Samples
  imports Memory_Types
begin

text \<open>
  The fingerprints of two sample texts, evaluated in the kernel in steps of 24 words of the message
  schedule and 16 rounds of SHA-256, so that a witness can tell the texts apart.
\<close>

lemma schedule_add: "sha256_schedule (m + n) ws = sha256_schedule n (sha256_schedule m ws)"
  by (induction m arbitrary: ws) (simp_all add: Let_def)

lemma replicate_24: "replicate 24 x = [x, x, x, x, x, x, x, x, x, x, x, x, x, x, x, x, x, x, x, x, x, x, x, x]"
  by (simp add: numeral_eq_Suc)

lemma upt_8: "[0..<8] = [0, 1, 2, 3, 4, 5, 6, 7]"
  by (simp add: upt_rec)

lemma split_on_word:
  "list_all (\<lambda>c. \<not> p c) w \<Longrightarrow> p x \<Longrightarrow> split_on p rest = ws \<Longrightarrow> split_on p (w @ x # rest) = w # ws"
  by (induction w) simp_all

lemma split_on_last: "list_all (\<lambda>c. \<not> p c) w \<Longrightarrow> split_on p w = [w]"
  by (induction w) simp_all

lemma lower_E: "lower_char (CHR ''E'') = CHR ''e''"
  by code_simp

text \<open>A message of one block, from the pieces of its evaluation.\<close>

lemma one_block:
  assumes "sha256_words (sha256_pad (map of_char s)) = ws" and "length ws = 16"
    and "sha256_schedule 24 (rev ws) = w1" and "sha256_schedule 24 w1 = w2"
    and "zip sha256_k (rev w2) = p1 @ p2 @ p3 @ p4"
    and "foldl sha256_round sha256_init p1 = s1" and "foldl sha256_round s1 p2 = s2"
    and "foldl sha256_round s2 p3 = s3" and "foldl sha256_round s3 p4 = s4"
  shows "sha256_hex s = concat (map hex_word (map2 (+) sha256_init s4))"
proof -
  have "sha256_schedule 48 (rev ws) = w2" using schedule_add [of 24 24 "rev ws"] assms(3,4) by simp
  then have "sha256_block sha256_init ws = map2 (+) sha256_init s4"
    using assms(5-9) by (simp add: sha256_block_def)
  moreover have "sha256_blocks sha256_init ws = sha256_block sha256_init ws"
    using assms(2) by (subst sha256_blocks.simps) (auto simp: sha256_blocks.simps)
  ultimately show ?thesis using assms(1) by (simp add: sha256_hex_def)
qed

section \<open>Entries expire after 30 minutes\<close>

definition expire30_words :: "32 word list" where
  "expire30_words =
    [1701737586, 1768256288, 1702391913, 1919230049, 1718904178, 540225568, 1835626101, 1952805760, 0,
    0, 0, 0, 0, 0, 0, 248]"

definition expire30_half :: "32 word list" where
  "expire30_half =
    [2427648205, 3632027988, 673377094, 3956963265, 3585269378, 2490854096, 2258200508, 3208598454,
    3836453479, 301931831, 497170394, 762066759, 974961837, 2024308611, 905704165, 3736072545,
    2223043843, 1406433912, 4248583657, 3002694127, 1912406021, 3522912248, 742922963, 1990521677, 248,
    0, 0, 0, 0, 0, 0, 0, 1952805760, 1835626101, 540225568, 1718904178, 1919230049, 1702391913,
    1768256288, 1701737586]"

definition expire30_full :: "32 word list" where
  "expire30_full =
    [2258639516, 4191367185, 649995760, 2539780602, 3506512757, 2875845691, 2116235589, 3038292653,
    2108456633, 1611062488, 4031974333, 80959686, 3041017559, 3388532235, 1722574536, 2014207861,
    2299211419, 3400097386, 1971087957, 479087322, 2826559401, 2219041035, 64173515, 1030620683,
    2427648205, 3632027988, 673377094, 3956963265, 3585269378, 2490854096, 2258200508, 3208598454,
    3836453479, 301931831, 497170394, 762066759, 974961837, 2024308611, 905704165, 3736072545,
    2223043843, 1406433912, 4248583657, 3002694127, 1912406021, 3522912248, 742922963, 1990521677, 248,
    0, 0, 0, 0, 0, 0, 0, 1952805760, 1835626101, 540225568, 1718904178, 1919230049, 1702391913,
    1768256288, 1701737586]"

definition expire30_in1 :: "(32 word \<times> 32 word) list" where
  "expire30_in1 =
    [(1116352408, 1701737586), (1899447441, 1768256288), (3049323471, 1702391913),
    (3921009573, 1919230049), (961987163, 1718904178), (1508970993, 540225568),
    (2453635748, 1835626101), (2870763221, 1952805760), (3624381080, 0), (310598401, 0),
    (607225278, 0), (1426881987, 0), (1925078388, 0), (2162078206, 0), (2614888103, 0),
    (3248222580, 248)]"

definition expire30_in2 :: "(32 word \<times> 32 word) list" where
  "expire30_in2 =
    [(3835390401, 1990521677), (4022224774, 742922963), (264347078, 3522912248),
    (604807628, 1912406021), (770255983, 3002694127), (1249150122, 4248583657),
    (1555081692, 1406433912), (1996064986, 2223043843), (2554220882, 3736072545),
    (2821834349, 905704165), (2952996808, 2024308611), (3210313671, 974961837),
    (3336571891, 762066759), (3584528711, 497170394), (113926993, 301931831), (338241895, 3836453479)]"

definition expire30_in3 :: "(32 word \<times> 32 word) list" where
  "expire30_in3 =
    [(666307205, 3208598454), (773529912, 2258200508), (1294757372, 2490854096),
    (1396182291, 3585269378), (1695183700, 3956963265), (1986661051, 673377094),
    (2177026350, 3632027988), (2456956037, 2427648205), (2730485921, 1030620683),
    (2820302411, 64173515), (3259730800, 2219041035), (3345764771, 2826559401),
    (3516065817, 479087322), (3600352804, 1971087957), (4094571909, 3400097386),
    (275423344, 2299211419)]"

definition expire30_in4 :: "(32 word \<times> 32 word) list" where
  "expire30_in4 =
    [(430227734, 2014207861), (506948616, 1722574536), (659060556, 3388532235),
    (883997877, 3041017559), (958139571, 80959686), (1322822218, 4031974333), (1537002063, 1611062488),
    (1747873779, 2108456633), (1955562222, 3038292653), (2024104815, 2116235589),
    (2227730452, 2875845691), (2361852424, 3506512757), (2428436474, 2539780602),
    (2756734187, 649995760), (3204031479, 4191367185), (3329325298, 2258639516)]"

definition expire30_out1 :: "32 word list" where
  "expire30_out1 =
    [788163557, 531233907, 1701422914, 811345793, 3674683354, 1713697853, 2326018012, 101054751]"

definition expire30_out2 :: "32 word list" where
  "expire30_out2 =
    [2767936839, 3522571211, 675238890, 3373694365, 1307995146, 3031971681, 3043561655, 1245732797]"

definition expire30_out3 :: "32 word list" where
  "expire30_out3 =
    [3867894584, 1115737974, 1757969776, 2639989178, 196009488, 1931540309, 3631209075, 1761392579]"

definition expire30_out4 :: "32 word list" where
  "expire30_out4 =
    [3650548403, 3557997304, 2810465989, 775023772, 3489105257, 3477177950, 4030517115, 267611091]"

lemma expire30_message: "sha256_words (sha256_pad (map of_char ''entries expire after 30 minutes'')) = expire30_words"
  by (simp add: sha256_pad_def replicate_24 upt_8 expire30_words_def)

lemma expire30_length: "length expire30_words = 16"
  by code_simp

lemma expire30_schedule1: "sha256_schedule 24 (rev expire30_words) = expire30_half"
  by code_simp

lemma expire30_schedule2: "sha256_schedule 24 expire30_half = expire30_full"
  by code_simp

lemma expire30_pairs: "zip sha256_k (rev expire30_full) = expire30_in1 @ expire30_in2 @ expire30_in3 @ expire30_in4"
  by code_simp

lemma expire30_rounds1: "foldl sha256_round sha256_init expire30_in1 = expire30_out1"
  by code_simp

lemma expire30_rounds2: "foldl sha256_round expire30_out1 expire30_in2 = expire30_out2"
  by code_simp

lemma expire30_rounds3: "foldl sha256_round expire30_out2 expire30_in3 = expire30_out3"
  by code_simp

lemma expire30_rounds4: "foldl sha256_round expire30_out3 expire30_in4 = expire30_out4"
  by code_simp

lemma expire30_normal: "NormalizeContent ''Entries expire after 30 minutes'' = ''entries expire after 30 minutes''"
proof -
  have "split_on is_space (''Entries'' @ CHR '' '' # ''expire'' @ CHR '' '' # ''after'' @ CHR '' '' # ''30'' @ CHR '' '' # ''minutes'')
      = [''Entries'', ''expire'', ''after'', ''30'', ''minutes'']"
    by ((rule split_on_word, simp add: is_space_def, simp add: is_space_def)+, rule split_on_last, simp add: is_space_def)
  then have "Fields ''Entries expire after 30 minutes'' = [''Entries'', ''expire'', ''after'', ''30'', ''minutes'']"
    by (simp add: Fields_def del: split_on.simps)
  then show ?thesis
    by (simp add: NormalizeContent_def ToLower_def lower_E) (simp add: lower_char_def)
qed

lemma expire30_digest:
  "concat (map hex_word (map2 (+) sha256_init expire30_out4)) =
    ''43a0d91a8f7a697de3f34237d381e1d62105d7e86a46eeea0fc0a9266bd438ec''"
  by (simp add: sha256_init_def expire30_out4_def hex_word_def hex_digit_def upt_8)

lemma expire30_print:
  "Fingerprint ''Entries expire after 30 minutes'' = ''43a0d91a8f7a697de3f34237d381e1d62105d7e86a46eeea0fc0a9266bd438ec''"
  unfolding Fingerprint_def expire30_normal
  by (simp only: one_block [OF expire30_message expire30_length expire30_schedule1 expire30_schedule2 expire30_pairs expire30_rounds1 expire30_rounds2 expire30_rounds3 expire30_rounds4] expire30_digest)

section \<open>Entries expire after 10 minutes\<close>

definition expire10_words :: "32 word list" where
  "expire10_words =
    [1701737586, 1768256288, 1702391913, 1919230049, 1718904178, 540094496, 1835626101, 1952805760, 0,
    0, 0, 0, 0, 0, 0, 248]"

definition expire10_half :: "32 word list" where
  "expire10_half =
    [3250716488, 1902721384, 2718852027, 952860510, 851353526, 3212386639, 3614967205, 3492579623,
    3325040481, 1473093330, 235437772, 120391655, 3541934503, 1700784569, 930851557, 3968436073,
    1149302402, 2838800967, 4248452585, 855227887, 1912406021, 3522912248, 742922963, 1990521677, 248,
    0, 0, 0, 0, 0, 0, 0, 1952805760, 1835626101, 540094496, 1718904178, 1919230049, 1702391913,
    1768256288, 1701737586]"

definition expire10_full :: "32 word list" where
  "expire10_full =
    [2443591821, 3738263721, 596840362, 3480245965, 952644627, 3665342393, 3612887182, 4119503694,
    1813066292, 3452131673, 4108482476, 2341475710, 1767810180, 1448573394, 1626446067, 2510071473,
    1572741835, 997539007, 51538350, 3529551271, 22255305, 4086017721, 998305934, 2780809660,
    3250716488, 1902721384, 2718852027, 952860510, 851353526, 3212386639, 3614967205, 3492579623,
    3325040481, 1473093330, 235437772, 120391655, 3541934503, 1700784569, 930851557, 3968436073,
    1149302402, 2838800967, 4248452585, 855227887, 1912406021, 3522912248, 742922963, 1990521677, 248,
    0, 0, 0, 0, 0, 0, 0, 1952805760, 1835626101, 540094496, 1718904178, 1919230049, 1702391913,
    1768256288, 1701737586]"

definition expire10_in1 :: "(32 word \<times> 32 word) list" where
  "expire10_in1 =
    [(1116352408, 1701737586), (1899447441, 1768256288), (3049323471, 1702391913),
    (3921009573, 1919230049), (961987163, 1718904178), (1508970993, 540094496),
    (2453635748, 1835626101), (2870763221, 1952805760), (3624381080, 0), (310598401, 0),
    (607225278, 0), (1426881987, 0), (1925078388, 0), (2162078206, 0), (2614888103, 0),
    (3248222580, 248)]"

definition expire10_in2 :: "(32 word \<times> 32 word) list" where
  "expire10_in2 =
    [(3835390401, 1990521677), (4022224774, 742922963), (264347078, 3522912248),
    (604807628, 1912406021), (770255983, 855227887), (1249150122, 4248452585),
    (1555081692, 2838800967), (1996064986, 1149302402), (2554220882, 3968436073),
    (2821834349, 930851557), (2952996808, 1700784569), (3210313671, 3541934503),
    (3336571891, 120391655), (3584528711, 235437772), (113926993, 1473093330), (338241895, 3325040481)]"

definition expire10_in3 :: "(32 word \<times> 32 word) list" where
  "expire10_in3 =
    [(666307205, 3492579623), (773529912, 3614967205), (1294757372, 3212386639),
    (1396182291, 851353526), (1695183700, 952860510), (1986661051, 2718852027),
    (2177026350, 1902721384), (2456956037, 3250716488), (2730485921, 2780809660),
    (2820302411, 998305934), (3259730800, 4086017721), (3345764771, 22255305),
    (3516065817, 3529551271), (3600352804, 51538350), (4094571909, 997539007), (275423344, 1572741835)]"

definition expire10_in4 :: "(32 word \<times> 32 word) list" where
  "expire10_in4 =
    [(430227734, 2510071473), (506948616, 1626446067), (659060556, 1448573394),
    (883997877, 1767810180), (958139571, 2341475710), (1322822218, 4108482476),
    (1537002063, 3452131673), (1747873779, 1813066292), (1955562222, 4119503694),
    (2024104815, 3612887182), (2227730452, 3665342393), (2361852424, 952644627),
    (2428436474, 3480245965), (2756734187, 596840362), (3204031479, 3738263721),
    (3329325298, 2443591821)]"

definition expire10_out1 :: "32 word list" where
  "expire10_out1 =
    [1804280126, 1695281740, 2219303289, 1053060567, 2584678616, 3643980325, 2850189383, 1199374277]"

definition expire10_out2 :: "32 word list" where
  "expire10_out2 =
    [3387799891, 2993791089, 1353798777, 1264146236, 766325630, 506751139, 752922078, 724542116]"

definition expire10_out3 :: "32 word list" where
  "expire10_out3 =
    [1867590895, 1842875400, 2219779683, 1192631926, 970414119, 2976618425, 5389669, 472833204]"

definition expire10_out4 :: "32 word list" where
  "expire10_out4 =
    [2471747330, 2808515398, 2012369317, 3536799846, 947804763, 2349890951, 4036773995, 3925680339]"

lemma expire10_message: "sha256_words (sha256_pad (map of_char ''entries expire after 10 minutes'')) = expire10_words"
  by (simp add: sha256_pad_def replicate_24 upt_8 expire10_words_def)

lemma expire10_length: "length expire10_words = 16"
  by code_simp

lemma expire10_schedule1: "sha256_schedule 24 (rev expire10_words) = expire10_half"
  by code_simp

lemma expire10_schedule2: "sha256_schedule 24 expire10_half = expire10_full"
  by code_simp

lemma expire10_pairs: "zip sha256_k (rev expire10_full) = expire10_in1 @ expire10_in2 @ expire10_in3 @ expire10_in4"
  by code_simp

lemma expire10_rounds1: "foldl sha256_round sha256_init expire10_in1 = expire10_out1"
  by code_simp

lemma expire10_rounds2: "foldl sha256_round expire10_out1 expire10_in2 = expire10_out2"
  by code_simp

lemma expire10_rounds3: "foldl sha256_round expire10_out2 expire10_in3 = expire10_out3"
  by code_simp

lemma expire10_rounds4: "foldl sha256_round expire10_out3 expire10_in4 = expire10_out4"
  by code_simp

lemma expire10_normal: "NormalizeContent ''Entries expire after 10 minutes'' = ''entries expire after 10 minutes''"
proof -
  have "split_on is_space (''Entries'' @ CHR '' '' # ''expire'' @ CHR '' '' # ''after'' @ CHR '' '' # ''10'' @ CHR '' '' # ''minutes'')
      = [''Entries'', ''expire'', ''after'', ''10'', ''minutes'']"
    by ((rule split_on_word, simp add: is_space_def, simp add: is_space_def)+, rule split_on_last, simp add: is_space_def)
  then have "Fields ''Entries expire after 10 minutes'' = [''Entries'', ''expire'', ''after'', ''10'', ''minutes'']"
    by (simp add: Fields_def del: split_on.simps)
  then show ?thesis
    by (simp add: NormalizeContent_def ToLower_def lower_E) (simp add: lower_char_def)
qed

lemma expire10_digest:
  "concat (map hex_word (map2 (+) sha256_init expire10_out4)) =
    ''fd5dc56962ce39cbb4614517781f3da0898cacda2715e6131020221645ddedec''"
  by (simp add: sha256_init_def expire10_out4_def hex_word_def hex_digit_def upt_8)

lemma expire10_print:
  "Fingerprint ''Entries expire after 10 minutes'' = ''fd5dc56962ce39cbb4614517781f3da0898cacda2715e6131020221645ddedec''"
  unfolding Fingerprint_def expire10_normal
  by (simp only: one_block [OF expire10_message expire10_length expire10_schedule1 expire10_schedule2 expire10_pairs expire10_rounds1 expire10_rounds2 expire10_rounds3 expire10_rounds4] expire10_digest)

end
