(* ===== verification/Contradict_Properties.thy ===== *)
theory Contradict_Properties
  imports Contradict_Sound Fingerprint_Samples
begin

text \<open>
  Properties of the contradiction detector: what an update rests on, when the order of Go's maps
  cannot change a verdict and when it does, and changes it cannot see.
\<close>

section \<open>Texts and orders for the witnesses\<close>

definition source_order :: map_order where
  "source_order = \<lparr> moOuter = (\<lambda>vs. vs), moInner = (\<lambda>a vs. vs) \<rparr>"

definition reverse_order :: map_order where
  "reverse_order = \<lparr> moOuter = rev, moInner = (\<lambda>a vs. rev vs) \<rparr>"

lemma orders_are_ranges: "map_range source_order" "map_range reverse_order"
  by (simp_all add: map_range_def source_order_def reverse_order_def)

definition plain_features :: "string list \<Rightarrow> string list \<Rightarrow> features" where
  "plain_features toks vals =
     \<lparr> fTokens = map bytes_of toks, fValues = map bytes_of vals, fEntities = [], fNegated = False \<rparr>"

lemma ttl30: "analyze ascii (runes_of ''Entries expire after 30 minutes'') =
    plain_features [''minut'', ''30'', ''expir'', ''entry''] [''30'']"
  by code_simp

lemma ttl10: "analyze ascii (runes_of ''Entries expire after 10 minutes'') =
    plain_features [''minut'', ''10'', ''expir'', ''entry''] [''10'']"
  by code_simp

lemma retry5: "analyze ascii (runes_of ''Calls are retried 5 times'') =
    plain_features [''tim'', ''retri'', ''cal''] []"
  by code_simp

lemma retry3: "analyze ascii (runes_of ''Calls are retried 3 times'') =
    plain_features [''tim'', ''retri'', ''cal''] []"
  by code_simp

lemma limit10000: "analyze ascii (runes_of ''The queue limit is 10000'') =
    plain_features [''10000'', ''limit'', ''queu''] [''10000'']"
  by code_simp

lemma limit1000: "analyze ascii (runes_of ''The queue limit is 1000'') =
    plain_features [''1000'', ''limit'', ''queu''] [''1000'']"
  by code_simp

lemma limits_new: "analyze ascii (runes_of ''queue limits 1000 and 100000'') =
    plain_features [''100000'', ''1000'', ''limit'', ''queu''] [''100000'', ''1000'']"
  by code_simp

lemma limits_old: "analyze ascii (runes_of ''queue limits 10000 and 10005'') =
    plain_features [''10005'', ''10000'', ''limit'', ''queu''] [''10005'', ''10000'']"
  by code_simp

lemma no_cues:
  "retroCue ascii (runes_of ''Entries expire after 30 minutes'') = ''''"
  "retroCue ascii (runes_of ''Calls are retried 5 times'') = ''''"
  "retroCue ascii (runes_of ''The queue limit is 10000'') = ''''"
  "retroCue ascii (runes_of ''queue limits 1000 and 100000'') = ''''"
  by code_simp+

lemma ttl_prints: "Fingerprint ''Entries expire after 30 minutes'' \<noteq> Fingerprint ''Entries expire after 10 minutes''"
  unfolding expire30_print expire10_print by simp

section \<open>Updates rest on evidence\<close>

text \<open>
  C22: the detector calls a text an update of another only when their content fingerprints
  differ, the two share a claim (overlap not below the floor, and a common entity or two common
  words), little else on the new side differs, and there is evidence: either both texts have a
  value that the other lacks and that is no alias of it, or the new text carries a retrospective
  cue or a negation of its own while most of what it says is in the old one.
\<close>

theorem update_has_evidence:
  assumes "map_range mo" and "crClass (Classify u mo newText oldText cfg) = Update"
  shows "Fingerprint newText \<noteq> Fingerprint oldText \<and> (let nf = analyze u (runes_of newText); old = analyze u (runes_of oldText);
             shared = length (intersect (fTokens nf) (fTokens old)) in
    OverlapFloor cfg \<le> overlap_of nf old
    \<and> (sharedEntity nf old \<or> 2 \<le> shared)
    \<and> length (residue nf old) \<le> max 1 (ResidueMax cfg)
    \<and> (value_changed (AliasPrefixMin cfg) nf old
       \<or> polarity_flipped (retroCue u (runes_of newText)) nf old
         \<and> (sharedEntity nf old \<or> 3 \<le> shared) \<and> NegOverlapFloor cfg \<le> containment nf old))"
proof
  show "Fingerprint newText \<noteq> Fingerprint oldText"
    using assms(2) by (auto simp: Classify_def result_def)
  with assms(2) have "crClass (compare_texts u mo newText oldText cfg) = Update" by (simp add: Classify_def)
  from this [unfolded compare_texts_def]
  show "let nf = analyze u (runes_of newText); old = analyze u (runes_of oldText);
             shared = length (intersect (fTokens nf) (fTokens old)) in
    OverlapFloor cfg \<le> overlap_of nf old
    \<and> (sharedEntity nf old \<or> 2 \<le> shared)
    \<and> length (residue nf old) \<le> max 1 (ResidueMax cfg)
    \<and> (value_changed (AliasPrefixMin cfg) nf old
       \<or> polarity_flipped (retroCue u (runes_of newText)) nf old
         \<and> (sharedEntity nf old \<or> 3 \<le> shared) \<and> NegOverlapFloor cfg \<le> containment nf old)"

  proof (cases rule: compare_Update_cases)
    case (topic vN vO)
    then show ?thesis
      using value_slots_changed [OF assms(1) topic(3)] unfolding Let_def polarity_flipped_def by fastforce
  qed
qed

lemma update_has_evidence_witness:
  "crClass (Classify ascii source_order ''Entries expire after 30 minutes''
      ''Entries expire after 10 minutes'' ContradictDefault) = Update
   \<and> value_changed 4 (analyze ascii (runes_of ''Entries expire after 30 minutes''))
        (analyze ascii (runes_of ''Entries expire after 10 minutes''))"
proof -
  let ?n = "''Entries expire after 30 minutes''" and ?o = "''Entries expire after 10 minutes''"
  have "crClass (compare_texts ascii source_order ?n ?o ContradictDefault) = Update"
    unfolding compare_texts_def ttl30 ttl10 no_cues by code_simp
  then have u: "crClass (Classify ascii source_order ?n ?o ContradictDefault) = Update"
    using ttl_prints by (simp add: Classify_def)
  have "\<not> polarity_flipped (retroCue ascii (runes_of ?n)) (analyze ascii (runes_of ?n)) (analyze ascii (runes_of ?o))"
    unfolding ttl30 ttl10 no_cues by (simp add: polarity_flipped_def plain_features_def)
  moreover have "AliasPrefixMin ContradictDefault = 4" by (simp add: ContradictDefault_def)
  ultimately show ?thesis
    using u update_has_evidence [OF orders_are_ranges(1) u] unfolding Let_def by simp
qed

section \<open>The order of the maps\<close>

text \<open>
  C23: the verdict does not depend on the order in which Go happens to visit its maps, as long as
  no value of one text is an alias of two values of the other: two runs of the detector on the
  same pair of texts then give the same class and the same reason.
\<close>

theorem verdict_order_free:
  assumes "map_range mo" and "map_range mo'"
    and "let nf = analyze u (runes_of newText); old = analyze u (runes_of oldText) in
         unrivalled (AliasPrefixMin cfg) (intersect (subtract (fTokens nf) (fTokens old)) (fValues nf))
           (intersect (subtract (fTokens old) (fTokens nf)) (fValues old))"
  shows "Classify u mo newText oldText cfg = Classify u mo' newText oldText cfg"
  unfolding Classify_def compare_texts_def
  using compare_features_order [OF assms(1,2) assms(3) [unfolded Let_def]] by simp

lemma verdict_order_free_witness:
  "Classify ascii source_order ''The queue limit is 10000'' ''The queue limit is 1000'' ContradictDefault
   = Classify ascii reverse_order ''The queue limit is 10000'' ''The queue limit is 1000'' ContradictDefault"
  by (rule verdict_order_free [OF orders_are_ranges], unfold limit10000 limit1000) code_simp

text \<open>
  without that restriction the order decides. The pairing of aliases is greedy over Go maps,
  whose order is random, so of two runs on the same texts one can call the new text an update
  (and the old fact is invalidated) and the other a restatement.
\<close>

theorem alias_order_decides:
  "let newText = ''queue limits 1000 and 100000''; oldText = ''queue limits 10000 and 10005'' in
     map_range source_order \<and> map_range reverse_order
     \<and> crClass (compare_texts ascii source_order newText oldText ContradictDefault) = Restatement
     \<and> crClass (compare_texts ascii reverse_order newText oldText ContradictDefault) = Update"
proof -
  have "crClass (compare_features source_order ContradictDefault ''''
      (plain_features [''100000'', ''1000'', ''limit'', ''queu''] [''100000'', ''1000''])
      (plain_features [''10005'', ''10000'', ''limit'', ''queu''] [''10005'', ''10000''])) = Restatement"
    by code_simp
  moreover have "crClass (compare_features reverse_order ContradictDefault ''''
      (plain_features [''100000'', ''1000'', ''limit'', ''queu''] [''100000'', ''1000''])
      (plain_features [''10005'', ''10000'', ''limit'', ''queu''] [''10005'', ''10000''])) = Update"
    by code_simp
  ultimately show ?thesis
    unfolding Let_def compare_texts_def limits_new limits_old no_cues using orders_are_ranges by blast
qed

section \<open>What the detector cannot see\<close>

text \<open>
  Two changes of a number that the detector takes for restatements, in any order of the maps:
  a change between single digits, which are dropped with the single letters, and a change from
  one number to another that continues it (1000 to 10000), which passes for two spellings of one
  name.
\<close>

theorem number_changes_missed:
  assumes "map_range mo"
  shows "crClass (Classify ascii mo ''Calls are retried 5 times'' ''Calls are retried 3 times'' ContradictDefault) = Restatement
    \<and> crClass (Classify ascii mo ''The queue limit is 10000'' ''The queue limit is 1000'' ContradictDefault) = Restatement"
proof -
  let ?digits = "plain_features [''tim'', ''retri'', ''cal''] []"
  let ?n = "plain_features [''10000'', ''limit'', ''queu''] [''10000'']"
  let ?o = "plain_features [''1000'', ''limit'', ''queu''] [''1000'']"
  have "unrivalled 4 (intersect (subtract (fTokens ?digits) (fTokens ?digits)) (fValues ?digits))
          (intersect (subtract (fTokens ?digits) (fTokens ?digits)) (fValues ?digits))"
    "unrivalled 4 (intersect (subtract (fTokens ?n) (fTokens ?o)) (fValues ?n))
          (intersect (subtract (fTokens ?o) (fTokens ?n)) (fValues ?o))"
    by code_simp+
  then have "compare_features mo ContradictDefault '''' ?digits ?digits
      = compare_features source_order ContradictDefault '''' ?digits ?digits"
    "compare_features mo ContradictDefault '''' ?n ?o = compare_features source_order ContradictDefault '''' ?n ?o"
    by (intro compare_features_order [OF assms orders_are_ranges(1)], simp add: ContradictDefault_def)+
  moreover have "crClass (compare_features source_order ContradictDefault '''' ?digits ?digits) = Restatement"
    "crClass (compare_features source_order ContradictDefault '''' ?n ?o) = Restatement"
    by code_simp+
  ultimately show ?thesis
    by (simp add: Classify_def compare_texts_def retry5 retry3 limit10000 limit1000 no_cues)
qed

lemma number_changes_missed_witness:
  "map_range reverse_order
   \<and> crClass (Classify ascii reverse_order ''Calls are retried 5 times'' ''Calls are retried 3 times''
       ContradictDefault) = Restatement"
  using orders_are_ranges(2) number_changes_missed [OF orders_are_ranges(2)] by blast

text \<open>
  The unit aliases are looked up after the trailing e is trimmed, so those of minute and of the
  byte units never apply.
\<close>

lemma unit_aliases_unused:
  "map normalizeWord (map bytes_of [''minute'', ''kilobyte'', ''megabyte'', ''gigabyte'', ''terabyte'']) =
   map bytes_of [''minut'', ''kilobyt'', ''megabyt'', ''gigabyt'', ''terabyt'']"
  by code_simp

end
