(* ===== verification/Answer.thy ===== *)
theory Answer
  imports Recall Contradict
begin

text \<open>
  \<open>answer.go\<close>, \<open>answer_expand.go\<close> and \<open>answer_loop.go\<close> of \<open>internal/service\<close>: answering a question
  from recalled memories in one shot, over rewritten queries, or in a bounded loop of tool calls.
  The language model is the record \<open>reader\<close>, a function of the prompt or the conversation; the
  error of a failed completion is \<open>None\<close>. An answer whose extraction never ends is \<open>None\<close> too.
\<close>

section \<open>Dates\<close>

text \<open>\<open>time.Format\<close> and \<open>time.Parse\<close> with the layout 2006-01-02, in UTC: the proleptic
  Gregorian calendar, counted in years that begin on the first of March.\<close>

definition civil_of_days :: "int \<Rightarrow> int \<times> int \<times> int" where
  "civil_of_days n =
     (let z = n + 306;
          era = z div 146097;
          doe = z mod 146097;
          yoe = (doe - doe div 1460 + doe div 36524 - doe div 146096) div 365;
          doy = doe - (365 * yoe + yoe div 4 - yoe div 100);
          mp = (5 * doy + 2) div 153;
          d = doy - (153 * mp + 2) div 5 + 1;
          m = (if mp < 10 then mp + 3 else mp - 9)
      in (yoe + era * 400 + (if m \<le> 2 then 1 else 0), m, d))"

definition days_of_civil :: "int \<times> int \<times> int \<Rightarrow> int" where
  "days_of_civil ymd =
     (case ymd of (y0, m, d) \<Rightarrow>
        let y = (if m \<le> 2 then y0 - 1 else y0);
            era = y div 400;
            yoe = y mod 400;
            doy = (153 * (if 2 < m then m - 3 else m + 9) + 2) div 5 + d - 1
        in era * 146097 + yoe * 365 + yoe div 4 - yoe div 100 + doy - 306)"

fun show_nat :: "nat \<Rightarrow> string" where
  "show_nat n = (if n < 10 then [char_of (48 + n)] else show_nat (n div 10) @ [char_of (48 + n mod 10)])"

declare show_nat.simps [simp del]

definition pad_zeros :: "nat \<Rightarrow> string \<Rightarrow> string" where
  "pad_zeros w s = replicate (w - length s) CHR ''0'' @ s"

definition format_date :: "Time \<Rightarrow> string" where
  "format_date t =
     (case civil_of_days (t div (24 * Hour)) of (y, m, d) \<Rightarrow>
        pad_zeros 4 (show_nat (nat y)) @ ''-'' @ pad_zeros 2 (show_nat (nat m)) @ ''-'' @ pad_zeros 2 (show_nat (nat d)))"

definition decimal :: "string \<Rightarrow> nat" where
  "decimal s = foldl (\<lambda>n c. n * 10 + (of_char c - 48)) 0 s"

definition digits :: "string \<Rightarrow> bool" where
  "digits s \<longleftrightarrow> list_all (\<lambda>c. 48 \<le> (of_char c :: nat) \<and> (of_char c :: nat) \<le> 57) s"

text \<open>A date is accepted when its day exists, which is when formatting it gives it back.\<close>

definition parse_date :: "string \<Rightarrow> Time option" where
  "parse_date s =
     (if length s = 10 \<and> s ! 4 = CHR ''-'' \<and> s ! 7 = CHR ''-''
         \<and> digits (take 4 s) \<and> digits (take 2 (drop 5 s)) \<and> digits (drop 8 s)
      then let ymd = (int (decimal (take 4 s)), int (decimal (take 2 (drop 5 s))), int (decimal (drop 8 s)));
               n = days_of_civil ymd
           in if 1 \<le> fst (snd ymd) \<and> fst (snd ymd) \<le> 12 \<and> civil_of_days n = ymd then Some (n * (24 * Hour)) else None
      else None)"

section \<open>The context of an answer\<close>

abbreviation newline :: string where "newline \<equiv> [CHR 0x0A]"

definition dateOf :: "memory \<Rightarrow> Time" where
  "dateOf m = (case ValidFrom m of Some t \<Rightarrow> t | None \<Rightarrow> CreatedAt m)"

text \<open>\<open>contradict.Classify\<close> at the default configuration.\<close>

definition detects :: "unicode \<Rightarrow> map_order \<Rightarrow> string \<Rightarrow> string \<Rightarrow> bool" where
  "detects u mo newText oldText \<longleftrightarrow> crClass (Classify u mo newText oldText ContradictDefault) = Update"

text \<open>The detector is the argument \<open>det\<close> from here on.\<close>

definition conflicting :: "(string \<Rightarrow> string \<Rightarrow> bool) \<Rightarrow> memory \<Rightarrow> memory \<Rightarrow> bool" where
  "conflicting det a b \<longleftrightarrow>
     (let (newer, older) = (if After (CreatedAt b) (CreatedAt a) then (b, a) else (a, b))
      in det (Content newer) (Content older))"

definition tag_pair :: "nat \<Rightarrow> nat \<Rightarrow> (nat \<Rightarrow> nat list) \<Rightarrow> nat \<Rightarrow> nat list" where
  "tag_pair i j tags = tags(i := tags i @ [j + 1], j := tags j @ [i + 1])"

definition conflictTags :: "(string \<Rightarrow> string \<Rightarrow> bool) \<Rightarrow> Scored list \<Rightarrow> nat \<Rightarrow> nat list" where
  "conflictTags det res =
     fold (\<lambda>i. fold (\<lambda>j tags. if conflicting det (sMemory (res ! i)) (sMemory (res ! j)) then tag_pair i j tags else tags)
                 [Suc i..<length res])
       [0..<length res] (\<lambda>_. [])"

definition refList :: "nat list \<Rightarrow> string" where
  "refList ids = Join (map (\<lambda>n. ''#'' @ show_nat n) ids) '', ''"

text \<open>The insertion sort by date, on the sorted part with its last element first.\<close>

fun sink :: "Scored \<times> nat \<Rightarrow> (Scored \<times> nat) list \<Rightarrow> (Scored \<times> nat) list" where
  "sink x [] = [x]"
| "sink x (y # ys) =
     (if Before (dateOf (sMemory (fst x))) (dateOf (sMemory (fst y))) then y # sink x ys else x # y # ys)"

definition chronological :: "Scored list \<Rightarrow> (Scored \<times> nat) list" where
  "chronological res = rev (fold sink (zip res [0..<length res]) [])"

definition answer_line :: "(nat \<Rightarrow> nat list) \<Rightarrow> nat \<Rightarrow> Scored \<times> nat \<Rightarrow> string" where
  "answer_line conflicts newNum s =
     show_nat (newNum + 1) @ ''. ['' @ format_date (dateOf (sMemory (fst s))) @ ''] '' @ Content (sMemory (fst s))
     @ (if conflicts (snd s) = [] then ''''
        else '' [may conflict with '' @ refList (conflicts (snd s)) @ '']'') @ newline"

fun answer_lines :: "(nat \<Rightarrow> nat list) \<Rightarrow> nat \<Rightarrow> string \<Rightarrow> (Scored \<times> nat) list \<Rightarrow> string" where
  "answer_lines conflicts n prevDate [] = ''''"
| "answer_lines conflicts n prevDate (s # ss) =
     (let dateStr = format_date (dateOf (sMemory (fst s)))
      in (if dateStr \<noteq> prevDate
          then (if prevDate = '''' then '''' else newline) @ ''--- '' @ dateStr @ '' ---'' @ newline else '''')
         @ answer_line conflicts n s @ answer_lines conflicts (n + 1) dateStr ss)"

definition formatAnswerContext :: "(string \<Rightarrow> string \<Rightarrow> bool) \<Rightarrow> Scored list \<Rightarrow> string" where
  "formatAnswerContext det res = answer_lines (conflictTags det res) 0 '''' (chronological res)"

section \<open>Stripping the reasoning\<close>

definition IndexOf :: "string \<Rightarrow> string \<Rightarrow> nat option" where
  "IndexOf s sub = find (occurs_at s sub) [0..<Suc (length s)]"

abbreviation open_tag :: string where "open_tag \<equiv> ''<mem_thinking>''"
abbreviation close_tag :: string where "close_tag \<equiv> ''</mem_thinking>''"

text \<open>The loop; \<open>None\<close> when it does not end.\<close>

partial_function (option) stripMemThinking :: "string \<Rightarrow> string option" where
  "stripMemThinking s =
     (case IndexOf s open_tag of
        None \<Rightarrow> Some (TrimSpace s)
      | Some i \<Rightarrow>
          (case IndexOf s close_tag of
             None \<Rightarrow> Some (TrimSpace (take i s))
           | Some j \<Rightarrow> stripMemThinking (take i s @ drop (j + length close_tag) s)))"

declare stripMemThinking.simps [code]

section \<open>Requests, the reader and results\<close>

record AnswerInput =
  aNamespace :: string
  aHome :: string
  aQuery :: string
  aLimit :: int
  aTiers :: "Tier list"
  aLevels :: "Level list"
  aTags :: "string list"
  aMetadata :: "(string \<times> string) list"
  aReasoning :: string
  aScope :: string
  aWantReadSet :: bool

text \<open>The system prompts.\<close>

datatype answer_prompt = AnswerSystem | ExpandSystem | GateSystem

text \<open>A tool call; the arguments are query, tier and date as \<open>json.Unmarshal\<close> decodes them.\<close>

record ToolCall =
  tcID :: string
  tcName :: string
  tcArgs :: "(string \<times> string \<times> string) option"

record ChatTurn =
  ctRole :: string
  ctText :: string
  ctCalls :: "ToolCall list"
  ctCallID :: string
  ctName :: string

record ChatResult =
  chText :: string
  chCalls :: "ToolCall list"

text \<open>\<open>rdTools\<close> is there when the client can call tools; its flag says whether tools are offered.\<close>

record reader =
  rdComplete :: "answer_prompt \<Rightarrow> string \<Rightarrow> string option"
  rdTools :: "(ChatTurn list \<Rightarrow> bool \<Rightarrow> ChatResult option) option"

datatype answer_error =
    NoAnswerer
  | AnswerBadScope read_error
  | AnswerReadSet read_error
  | AnswerRecall recall_error
  | GenerateFailed
  | ExpandFailed
  | ExpandSynthesisFailed
  | GateFailed
  | LoopFailed
  | ForcedSynthesisFailed

record AnswerResult =
  arAnswer :: "string option"
  arSources :: "Scored list"

text \<open>
  The circumstances of an answer: those of its recalls, the detector, and how an error reads in
  the transcript.
\<close>

record answer_env =
  ae_recall :: recall_env
  ae_detects :: "string \<Rightarrow> string \<Rightarrow> bool"
  ae_recall_error :: "recall_error \<Rightarrow> string"
  ae_arg_error :: string

section \<open>One shot\<close>

text \<open>The recall of an answer; the reader also rewrites queries for a recall.\<close>

definition answer_recall :: "AnswerInput \<Rightarrow> string \<Rightarrow> int \<Rightarrow> Tier list \<Rightarrow> Time \<Rightarrow> bool \<Rightarrow> RecallInput" where
  "answer_recall q query k tiers asOf linked =
     \<lparr> rNamespace = aNamespace q, rQuery = query, NoReinforce = False, rSource = ''answer'', rTiers = tiers,
       rLevels = aLevels q, rTags = aTags q, rMetadata = aMetadata q, rExcludeMetadata = [], rExcludeIDs = [],
       IncludeFreshTurns = False, IncludeHandoffs = False, QueryRewrite = False, rLimit = k,
       rIncludeExpired = False, rIncludeSuperseded = False, rAsOf = asOf, Subtree = False, rNamespaces = [],
       rHome = aHome q, rScope = aScope q, MinScore = 0, MinRankScore = 0, MinSemanticScore = 0,
       SemanticReserve = 0, IncludeLinked = linked, MaxTokens = 0, EstimateConcise = False \<rparr>"

definition answer_question :: "answer_env \<Rightarrow> AnswerInput \<Rightarrow> Scored list \<Rightarrow> string" where
  "answer_question env q res =
     ''Today's date: '' @ format_date (re_now (ae_recall env)) @ newline @ ''Memories:'' @ newline
     @ formatAnswerContext (ae_detects env) res @ newline @ ''Question: '' @ aQuery q @ newline @ ''Answer:''"

definition answered :: "string \<Rightarrow> Scored list \<Rightarrow> AnswerResult" where
  "answered txt sources = \<lparr> arAnswer = stripMemThinking (TrimSpace txt), arSources = sources \<rparr>"

definition answerSingle ::
    "service \<Rightarrow> recall_store \<Rightarrow> answer_env \<Rightarrow> reader \<Rightarrow> AnswerInput \<Rightarrow> answer_error + AnswerResult" where
  "answerSingle s st env rd q =
     (case Recall s st (ae_recall env) (answer_recall q (aQuery q) (aLimit q) (aTiers q) 0 True) of
        Inl e \<Rightarrow> Inl (AnswerRecall e)
      | Inr out \<Rightarrow>
          (case rdComplete rd AnswerSystem (answer_question env q (ro_results out)) of
             None \<Rightarrow> Inl GenerateFailed
           | Some txt \<Rightarrow> Inr (answered txt (ro_results out))))"

section \<open>Rewritten queries\<close>

definition expand_queries :: "string \<Rightarrow> string \<Rightarrow> string list" where
  "expand_queries query rewrites =
     query # take 3 (filter (\<lambda>q. q \<noteq> '''') (map clean_line (split_on (\<lambda>c. c = CHR 0x0A) rewrites)))"

text \<open>\<open>collect\<close>: the first hit of every memory.\<close>

fun collect_sources :: "Scored list \<Rightarrow> Scored list \<Rightarrow> Scored list" where
  "collect_sources sources [] = sources"
| "collect_sources sources (r # rs) =
     collect_sources (if hit_id r \<in> hit_id ` set sources then sources else sources @ [r]) rs"

fun expand_recalls ::
    "service \<Rightarrow> recall_store \<Rightarrow> answer_env \<Rightarrow> AnswerInput \<Rightarrow> string list \<Rightarrow> Scored list \<Rightarrow> recall_error + Scored list" where
  "expand_recalls s st env q [] sources = Inr sources"
| "expand_recalls s st env q (query # queries) sources =
     (case Recall s st (ae_recall env) (answer_recall q query (aLimit q) (aTiers q) 0 False) of
        Inl e \<Rightarrow> Inl e
      | Inr out \<Rightarrow> expand_recalls s st env q queries (collect_sources sources (ro_results out)))"

definition answerExpand ::
    "service \<Rightarrow> recall_store \<Rightarrow> answer_env \<Rightarrow> reader \<Rightarrow> AnswerInput \<Rightarrow> answer_error + AnswerResult" where
  "answerExpand s st env rd q =
     (case rdComplete rd ExpandSystem (''Question: '' @ aQuery q) of
        None \<Rightarrow> Inl ExpandFailed
      | Some rewrites \<Rightarrow>
          (case expand_recalls s st env q (expand_queries (aQuery q) rewrites) [] of
             Inl e \<Rightarrow> Inl (AnswerRecall e)
           | Inr sources \<Rightarrow>
               (case rdComplete rd AnswerSystem (answer_question env q sources) of
                  None \<Rightarrow> Inl ExpandSynthesisFailed
                | Some txt \<Rightarrow> Inr (answered txt sources))))"

section \<open>The tool loop\<close>

definition iterations :: "string \<Rightarrow> nat" where
  "iterations r = (if r = ''low'' then 3 else if r = ''medium'' then 6 else if r = ''high'' then 10 else 0)"

definition holds_text :: "string \<Rightarrow> string \<Rightarrow> bool" where
  "holds_text s sub \<longleftrightarrow> IndexOf s sub \<noteq> None"

definition gateInsufficient :: "string \<Rightarrow> bool" where
  "gateInsufficient reply =
     (let up = ToUpper reply in
      holds_text up ''INSUFFICIENT'' \<or> holds_text up ''DON'T KNOW'' \<or> holds_text up ''DO NOT KNOW'')"

text \<open>\<open>keywordSearchReadSet\<close> of \<open>service.go\<close>; its legs run concurrently, the model reports the first error.\<close>

fun keyword_legs :: "(scopeEntry \<Rightarrow> store_error + Scored list) \<Rightarrow> scopeEntry list \<Rightarrow> store_error + Scored list list" where
  "keyword_legs search [] = Inr []"
| "keyword_legs search (e # es) =
     (case search e of
        Inl er \<Rightarrow> Inl er
      | Inr hits \<Rightarrow> (case keyword_legs search es of Inl er \<Rightarrow> Inl er | Inr legs \<Rightarrow> Inr (hits # legs)))"

definition keywordSearchReadSet ::
    "service \<Rightarrow> recall_store \<Rightarrow> Time \<Rightarrow> string \<Rightarrow> string \<Rightarrow> string \<Rightarrow> string \<Rightarrow> int \<Rightarrow> recall_error + Scored list" where
  "keywordSearchReadSet s st now prim hm scope query k =
     (case parseScope scope of
        Inl e \<Rightarrow> Inl (BadScope e)
      | Inr (bare, subtree) \<Rightarrow>
          (case resolveReadSet (cascades s) (rs_reads st)
                  \<lparr> sc_primary = prim, sc_home = hm, sc_explicit = [], sc_subtree = subtree, sc_bare = bare,
                    sc_reqTiers = [] \<rparr> of
             Inl e \<Rightarrow> Inl (ReadSetFailed e)
           | Inr entries \<Rightarrow>
               (case keyword_legs (\<lambda>e. rs_keyword st (leg_ns e) query
                        (leg_filter (no_filter\<lparr> Now := now \<rparr>) e) (nat k)) entries of
                  Inl er \<Rightarrow> Inl (KeywordLegFailed er)
                | Inr perNS \<Rightarrow> Inr (take (nat k) (fuse_namespaces s perNS)))))"

text \<open>One tool call: the text for the transcript and the hits to collect.\<close>

definition tool_result :: "answer_env \<Rightarrow> recall_error + Scored list \<Rightarrow> string \<times> Scored list" where
  "tool_result env r =
     (case r of
        Inl e \<Rightarrow> (''error: '' @ ae_recall_error env e, [])
      | Inr [] \<Rightarrow> (''no memories found'', [])
      | Inr res \<Rightarrow> (formatAnswerContext (ae_detects env) res, res))"

definition recall_hits ::
    "service \<Rightarrow> recall_store \<Rightarrow> answer_env \<Rightarrow> RecallInput \<Rightarrow> recall_error + Scored list" where
  "recall_hits s st env r = (case Recall s st (ae_recall env) r of Inl e \<Rightarrow> Inl e | Inr out \<Rightarrow> Inr (ro_results out))"

definition execAnswerTool ::
    "service \<Rightarrow> recall_store \<Rightarrow> answer_env \<Rightarrow> AnswerInput \<Rightarrow> ToolCall \<Rightarrow> string \<times> Scored list" where
  "execAnswerTool s st env q call =
     (case tcArgs call of
        None \<Rightarrow> (''error: bad arguments: '' @ ae_arg_error env, [])
      | Some (query, tier, date) \<Rightarrow>
          if TrimSpace query = '''' then (''error: query is required'', [])
          else let k = (if aLimit q \<le> 0 then 5 else aLimit q) in
            if tcName call = ''search_memory'' then
              tool_result env (recall_hits s st env (answer_recall q query k
                (if tier = ''episodic'' then [TierWorking, TierEpisodic]
                 else if tier = ''durable'' then [TierSemantic, TierProcedural] else aTiers q) 0 False))
            else if tcName call = ''keyword_search'' then
              tool_result env (keywordSearchReadSet s st (re_now (ae_recall env)) (aNamespace q) (aHome q) (aScope q) query k)
            else if tcName call = ''recall_as_of'' then
              (case parse_date (TrimSpace date) of
                 None \<Rightarrow> (''error: date must be YYYY-MM-DD'', [])
               | Some asOf \<Rightarrow> tool_result env (recall_hits s st env (answer_recall q query k [] asOf False)))
            else (''error: unknown tool '' @ tcName call, []))"

definition user_turn :: "string \<Rightarrow> ChatTurn" where
  "user_turn txt = \<lparr> ctRole = ''user'', ctText = txt, ctCalls = [], ctCallID = '''', ctName = '''' \<rparr>"

fun run_calls ::
    "service \<Rightarrow> recall_store \<Rightarrow> answer_env \<Rightarrow> AnswerInput \<Rightarrow> ToolCall list
     \<Rightarrow> ChatTurn list \<times> Scored list \<Rightarrow> ChatTurn list \<times> Scored list" where
  "run_calls s st env q [] acc = acc"
| "run_calls s st env q (call # calls) (turns, sources) =
     (case execAnswerTool s st env q call of
        (txt, res) \<Rightarrow>
          run_calls s st env q calls
            (turns @ [\<lparr> ctRole = ''tool'', ctText = txt, ctCalls = [], ctCallID = tcID call, ctName = tcName call \<rparr>],
             collect_sources sources res))"

text \<open>The rounds that are left, then the forced synthesis.\<close>

fun answer_rounds ::
    "service \<Rightarrow> recall_store \<Rightarrow> answer_env \<Rightarrow> AnswerInput \<Rightarrow> (ChatTurn list \<Rightarrow> bool \<Rightarrow> ChatResult option)
     \<Rightarrow> nat \<Rightarrow> ChatTurn list \<Rightarrow> Scored list \<Rightarrow> answer_error + AnswerResult" where
  "answer_rounds s st env q chat 0 turns sources =
     (case chat (turns @ [user_turn ''Answer now from the memories you have found.'']) False of
        None \<Rightarrow> Inl ForcedSynthesisFailed
      | Some res \<Rightarrow> Inr (answered (chText res) sources))"
| "answer_rounds s st env q chat (Suc n) turns sources =
     (case chat turns True of
        None \<Rightarrow> Inl LoopFailed
      | Some res \<Rightarrow>
          if chCalls res = [] then Inr (answered (chText res) sources)
          else (case run_calls s st env q (chCalls res)
                      (turns @ [\<lparr> ctRole = ''assistant'', ctText = chText res, ctCalls = chCalls res,
                                  ctCallID = '''', ctName = '''' \<rparr>], sources) of
                  (turns1, sources1) \<Rightarrow> answer_rounds s st env q chat n turns1 sources1))"

definition answerAgentic ::
    "service \<Rightarrow> recall_store \<Rightarrow> answer_env \<Rightarrow> reader \<Rightarrow> (ChatTurn list \<Rightarrow> bool \<Rightarrow> ChatResult option)
     \<Rightarrow> nat \<Rightarrow> AnswerInput \<Rightarrow> answer_error + AnswerResult" where
  "answerAgentic s st env rd chat iters q =
     (case Recall s st (ae_recall env) (answer_recall q (aQuery q) (aLimit q) (aTiers q) 0 False) of
        Inl e \<Rightarrow> Inl (AnswerRecall e)
      | Inr out \<Rightarrow>
          let sources = collect_sources [] (ro_results out) in
          (case rdComplete rd GateSystem (answer_question env q (ro_results out)) of
             None \<Rightarrow> Inl GateFailed
           | Some direct \<Rightarrow>
               if \<not> gateInsufficient direct then Inr (answered direct sources)
               else answer_rounds s st env q chat iters
                 [user_turn (''Today's date: '' @ format_date (re_now (ae_recall env)) @ newline @ ''Memories:'' @ newline
                    @ formatAnswerContext (ae_detects env) (ro_results out) @ newline @ ''Question: '' @ aQuery q @ newline
                    @ ''A first read found these memories insufficient. Search for what is missing, then answer.'')]
                 sources))"

section \<open>Answer\<close>

text \<open>The result and, when asked for, the read set.\<close>

definition Answer ::
    "service \<Rightarrow> recall_store \<Rightarrow> answer_env \<Rightarrow> reader option \<Rightarrow> AnswerInput
     \<Rightarrow> answer_error + AnswerResult \<times> ReadSetEntry list" where
  "Answer s0 st env reader q =
     (case reader of
        None \<Rightarrow> Inl NoAnswerer
      | Some rd \<Rightarrow>
          let s = s0\<lparr> answerer := Some (rdComplete rd ExpandSystem) \<rparr> in
          (case parseScope (aScope q) of
             Inl e \<Rightarrow> Inl (AnswerBadScope e)
           | Inr _ \<Rightarrow>
               (case (if aWantReadSet q then ResolveReadSetInfo (cascades s) (rs_reads st) (aNamespace q) (aHome q)
                      else Inr []) of
                  Inl e \<Rightarrow> Inl (AnswerReadSet e)
                | Inr entries \<Rightarrow>
                    (case (if aReasoning q = ''expand'' then answerExpand s st env rd q
                           else case (if 0 < iterations (aReasoning q) then rdTools rd else None) of
                                  Some chat \<Rightarrow> answerAgentic s st env rd chat (iterations (aReasoning q)) q
                                | None \<Rightarrow> answerSingle s st env rd q) of
                       Inl e \<Rightarrow> Inl e
                     | Inr res \<Rightarrow> Inr (res, entries)))))"

end
