(* ===== verification/Contradict_Use.thy ===== *)
theory Contradict_Use
  imports Contradict_Sound Answer Write_Jobs
begin

text \<open>
  The detector behind its two clients: the background job of a write, which invalidates a durable
  fact, and the conflict tags of an answer. The writer's field \<open>contradicts\<close> is the detector at
  its default configuration, \<open>detects\<close>.
\<close>

lemma detects_evidence:
  assumes "map_range mo" and "detects u mo n old"
  shows "Fingerprint n \<noteq> Fingerprint old
    \<and> (value_changed (AliasPrefixMin ContradictDefault) (analyze u (runes_of n)) (analyze u (runes_of old))
       \<or> polarity_flipped (retroCue u (runes_of n)) (analyze u (runes_of n)) (analyze u (runes_of old)))"
proof -
  have c: "crClass (Classify u mo n old ContradictDefault) = Update" using assms(2) by (simp add: detects_def)
  then have "crClass (compare_texts u mo n old ContradictDefault) = Update" "Fingerprint n \<noteq> Fingerprint old"
    using Classify_Update [OF c] by simp_all
  then show ?thesis using no_evidence_no_update [OF assms(1)] unfolding compare_texts_def by blast
qed

text \<open>
  A write invalidates a fact only when the fact is near enough, is a day old, has a confidence and
  another fingerprint, and the texts show a changed value or a flipped polarity.
\<close>

lemma invalidation_has_evidence:
  assumes "map_range mo" and "contradicts w = detects u mo" and "contradictNearest w env m d \<noteq> d"
  obtains c where
    "contradictNearest w env m d = invalidate (we_now env) (sMemory c) (ID m) d"
    "hit_id c \<noteq> ID m" "contradictMinScore w \<le> Score c" "Confidence (sMemory c) \<noteq> None"
    "contradictCooldown \<le> Sub (we_now env) (CreatedAt (sMemory c))"
    "Fingerprint (Content m) \<noteq> Fingerprint (Content (sMemory c))"
    "value_changed (AliasPrefixMin ContradictDefault) (analyze u (runes_of (Content m)))
         (analyze u (runes_of (Content (sMemory c))))
     \<or> polarity_flipped (retroCue u (runes_of (Content m))) (analyze u (runes_of (Content m)))
         (analyze u (runes_of (Content (sMemory c))))"
proof -
  obtain cands where v: "VectorSearch (we_engine env) (we_wall env) (Namespace m) (Embedding m)
      (durable_filter (we_now env)) 3 d = Inr cands"
    using assms(3) unfolding contradictNearest_def
    by (cases "VectorSearch (we_engine env) (we_wall env) (Namespace m) (Embedding m) (durable_filter (we_now env)) 3 d") auto
  obtain c where c: "find (contradicted_by_write w (we_now env) m) cands = Some c"
    using assms(3) unfolding contradictNearest_def v sum.case
    by (cases "find (contradicted_by_write w (we_now env) m) cands") auto
  have "contradicted_by_write w (we_now env) m c" using find_Some_set [OF c] by blast
  then have by_write: "hit_id c \<noteq> ID m" "contradictMinScore w \<le> Score c" "Confidence (sMemory c) \<noteq> None"
      "contradictCooldown \<le> Sub (we_now env) (CreatedAt (sMemory c))"
      "detects u mo (Content m) (Content (sMemory c))"
    unfolding contradicted_by_write_def assms(2) by auto
  have run: "contradictNearest w env m d = invalidate (we_now env) (sMemory c) (ID m) d"
    unfolding contradictNearest_def v sum.case c option.case ..
  show ?thesis using detects_evidence [OF assms(1) by_write(5)] by (intro that [OF run by_write(1-4)]) auto
qed

end
