(* ===== verification/Answer_Sound.thy ===== *)
theory Answer_Sound
  imports Answer Recall_Sound Contradict_Sound
begin

text \<open>
  The context of an answer (its order and its conflict tags), the loop that strips the reasoning
  out of a reply, and where the sources of an answer come from.
\<close>

section \<open>The order of the context\<close>

abbreviation hit_date :: "Scored \<times> nat \<Rightarrow> Time" where
  "hit_date x \<equiv> dateOf (sMemory (fst x))"

lemma mset_sink: "mset (sink x ys) = add_mset x (mset ys)"
  by (induction ys) auto

lemma sink_sorted: "sorted (rev (map hit_date ys)) \<Longrightarrow> sorted (rev (map hit_date (sink x ys)))"
proof (induction ys)
  case (Cons y ys)
  have set: "hit_date ` set (sink x ys) = insert (hit_date x) (hit_date ` set ys)"
    using arg_cong [OF mset_sink [of x ys], of "\<lambda>m. hit_date ` set_mset m"] by simp
  show ?case using Cons set by (auto simp: sorted_append Before_def image_iff)
qed simp

text \<open>An element sinks below those of its own date only, so equal dates keep their order.\<close>

lemma sink_stable:
  "sorted (rev (map hit_date ys)) \<Longrightarrow>
     filter (\<lambda>z. hit_date z = t) (sink x ys) = filter (\<lambda>z. hit_date z = t) (x # ys)"
proof (induction ys)
  case (Cons y ys)
  show ?case
  proof (cases "Before (hit_date x) (hit_date y)")
    case True
    then have "hit_date x \<noteq> hit_date y" by (auto simp: Before_def)
    then show ?thesis using True Cons by (auto simp: sorted_append)
  next
    case False
    then show ?thesis by simp
  qed
qed simp

lemma fold_sink:
  "sorted (rev (map hit_date ys)) \<Longrightarrow>
     sorted (rev (map hit_date (fold sink xs ys)))
     \<and> mset (fold sink xs ys) = mset xs + mset ys
     \<and> (\<forall>t. filter (\<lambda>z. hit_date z = t) (rev (fold sink xs ys))
          = filter (\<lambda>z. hit_date z = t) (rev ys @ xs))"
proof (induction xs arbitrary: ys)
  case (Cons x xs)
  have s: "sorted (rev (map hit_date (sink x ys)))" by (rule sink_sorted [OF Cons.prems])
  have "filter (\<lambda>z. hit_date z = t) (rev (sink x ys) @ xs) = filter (\<lambda>z. hit_date z = t) (rev ys @ x # xs)" for t
    using sink_stable [OF Cons.prems, of t x] by (simp add: rev_filter [symmetric])
  then show ?case using Cons.IH [OF s] by (simp add: mset_sink)
qed simp

lemma chronological_sort_key:
  "chronological res = sort_key hit_date (zip res [0..<length res])"
proof (rule properties_for_sort_key [symmetric])
  note f = fold_sink [of "[]" "zip res [0..<length res]", simplified]
  show "mset (chronological res) = mset (zip res [0..<length res])"
    using f by (simp add: chronological_def)
  show "filter (\<lambda>y. hit_date x = hit_date y) (chronological res) = filter (\<lambda>y. hit_date x = hit_date y) (zip res [0..<length res])"
    if "x \<in> set (chronological res)" for x
  proof -
    have "filter (\<lambda>z. hit_date z = hit_date x) (chronological res) = filter (\<lambda>z. hit_date z = hit_date x) (zip res [0..<length res])"
      using f unfolding chronological_def by blast
    then show ?thesis by (simp add: eq_commute [of "hit_date x"])
  qed
  show "sorted (map hit_date (chronological res))"
    using f by (simp add: chronological_def rev_map)
qed

section \<open>Conflict tags\<close>

definition disagree :: "(string \<Rightarrow> string \<Rightarrow> bool) \<Rightarrow> Scored list \<Rightarrow> nat \<Rightarrow> nat \<Rightarrow> bool" where
  "disagree det res i j \<longleftrightarrow>
     i < length res \<and> j < length res
     \<and> (i < j \<and> conflicting det (sMemory (res ! i)) (sMemory (res ! j))
        \<or> j < i \<and> conflicting det (sMemory (res ! j)) (sMemory (res ! i)))"

lemma disagree_sym: "disagree det res i j \<longleftrightarrow> disagree det res j i"
  by (auto simp: disagree_def)

text \<open>One row of the scan adds every later partner to the row and the row to each partner.\<close>

lemma tag_row:
  "i \<notin> set js \<Longrightarrow> distinct js \<Longrightarrow>
     fold (\<lambda>j tags. if p j then tag_pair i j tags else tags) js tags
     = (\<lambda>k. if k = i then tags i @ map Suc (filter p js)
            else if k \<in> set js \<and> p k then tags k @ [Suc i] else tags k)"
proof (induction js arbitrary: tags)
  case Nil
  then show ?case by auto
next
  case (Cons j js)
  define tags1 where "tags1 = (if p j then tag_pair i j tags else tags)"
  have "i \<noteq> j" using Cons.prems by simp
  then have t: "tags1 i = tags i @ (if p j then [Suc j] else [])"
      "tags1 j = tags j @ (if p j then [Suc i] else [])"
      "\<And>k. k \<noteq> i \<Longrightarrow> k \<noteq> j \<Longrightarrow> tags1 k = tags k"
    by (auto simp: tags1_def tag_pair_def)
  have "fold (\<lambda>j tags. if p j then tag_pair i j tags else tags) (j # js) tags
      = (\<lambda>k. if k = i then tags1 i @ map Suc (filter p js)
            else if k \<in> set js \<and> p k then tags1 k @ [Suc i] else tags1 k)"
    using Cons.IH [of tags1] Cons.prems by (simp add: tags1_def)
  also have "\<dots> = (\<lambda>k. if k = i then tags i @ map Suc (filter p (j # js))
            else if k \<in> set (j # js) \<and> p k then tags k @ [Suc i] else tags k)"
  proof (rule ext)
    fix k
    consider "k = i" | "k = j" "k \<noteq> i" | "k \<noteq> i" "k \<noteq> j" by blast
    then show "(if k = i then tags1 i @ map Suc (filter p js)
            else if k \<in> set js \<and> p k then tags1 k @ [Suc i] else tags1 k)
        = (if k = i then tags i @ map Suc (filter p (j # js))
            else if k \<in> set (j # js) \<and> p k then tags k @ [Suc i] else tags k)"
      by cases (use t Cons.prems in auto)
  qed
  finally show ?case .
qed

text \<open>After the rows before \<open>m\<close>: all partners of a finished row, the finished ones of another.\<close>

lemma conflict_rows:
  assumes "m \<le> length res"
  shows "fold (\<lambda>i. fold (\<lambda>j tags. if conflicting det (sMemory (res ! i)) (sMemory (res ! j)) then tag_pair i j tags else tags)
                 [Suc i..<length res]) [0..<m] (\<lambda>_. [])
     = (\<lambda>k. map Suc (filter (\<lambda>j. disagree det res k j) [0..<(if k < m then length res else m)]))"
  using assms
proof (induction m)
  case 0
  then show ?case by simp
next
  case (Suc m)
  let ?n = "length res"
  let ?p = "\<lambda>j. conflicting det (sMemory (res ! m)) (sMemory (res ! j))"
  let ?prev = "\<lambda>k. map Suc (filter (\<lambda>j. disagree det res k j) [0..<(if k < m then ?n else m)])"
  have m: "m < ?n" using Suc.prems by simp
  have row: "fold (\<lambda>j tags. if ?p j then tag_pair m j tags else tags) [Suc m..<?n] ?prev
      = (\<lambda>k. if k = m then ?prev m @ map Suc (filter ?p [Suc m..<?n])
            else if k \<in> set [Suc m..<?n] \<and> ?p k then ?prev k @ [Suc m] else ?prev k)"
    by (rule tag_row) auto
  have "(if k = m then ?prev m @ map Suc (filter ?p [Suc m..<?n])
            else if k \<in> set [Suc m..<?n] \<and> ?p k then ?prev k @ [Suc m] else ?prev k)
      = map Suc (filter (\<lambda>j. disagree det res k j) [0..<(if k < Suc m then ?n else Suc m)])" for k
  proof -
    consider (own) "k = m" | (old) "k < m" | (later) "m < k" "k < ?n" | (out) "?n \<le> k" "m < k"
      using m by linarith
    then show ?thesis
    proof cases
      case own
      have split: "[0..<?n] = [0..<m] @ m # [Suc m..<?n]"
        using m by (metis le_add_diff_inverse less_imp_le_nat upt_add_eq_append upt_conv_Cons zero_le)
      have "filter ?p [Suc m..<?n] = filter (\<lambda>j. disagree det res m j) [Suc m..<?n]"
        using m by (intro filter_cong) (auto simp: disagree_def)
      moreover have "\<not> disagree det res m m" by (simp add: disagree_def)
      ultimately show ?thesis using own by (simp add: split)
    next
      case old
      then show ?thesis by simp
    next
      case later
      have "disagree det res k m \<longleftrightarrow> ?p k" using later m by (auto simp: disagree_def)
      then show ?thesis using later by simp
    next
      case out
      then have "\<not> disagree det res k j" for j by (simp add: disagree_def)
      then show ?thesis using out m by simp
    qed
  qed
  then show ?case using Suc.IH m by (simp add: row)
qed

lemma conflictTags_eq: "conflictTags det res = (\<lambda>k. map Suc (filter (disagree det res k) [0..<length res]))"
proof (rule ext)
  fix k
  have "\<not> disagree det res k j" if "length res \<le> k" for j using that by (simp add: disagree_def)
  then show "conflictTags det res k = map Suc (filter (disagree det res k) [0..<length res])"
    unfolding conflictTags_def conflict_rows [OF order_refl] by (cases "k < length res") auto
qed

section \<open>The context\<close>

lemma format_date_ne [simp]: "format_date t \<noteq> ''''"
proof -
  obtain y m d where "civil_of_days (t div (24 * Hour)) = (y, m, d)" by (metis prod_cases3)
  then have "format_date t = pad_zeros 4 (show_nat (nat y)) @ CHR ''-'' # pad_zeros 2 (show_nat (nat m)) @ ''-'' @ pad_zeros 2 (show_nat (nat d))"
    unfolding format_date_def by (simp only: prod.case append.simps)
  then show ?thesis by (simp only: append_is_Nil_conv list.distinct simp_thms)
qed

definition day_of :: "Scored \<times> nat \<Rightarrow> string" where
  "day_of x = format_date (dateOf (sMemory (fst x)))"

text \<open>The header of a line: a new day, with an empty line in front of all but the first.\<close>

definition day_header :: "string \<Rightarrow> string \<Rightarrow> string" where
  "day_header prev day =
     (if day = prev then '''' else (if prev = '''' then '''' else newline) @ ''--- '' @ day @ '' ---'' @ newline)"

lemma answer_lines_eq:
  "answer_lines conflicts n prev ss =
     concat (map (\<lambda>k. day_header (if k = 0 then prev else day_of (ss ! (k - 1))) (day_of (ss ! k))
                      @ answer_line conflicts (n + k) (ss ! k)) [0..<length ss])"
proof (induction ss arbitrary: n prev)
  case (Cons x ss)
  have u: "[0..<length (x # ss)] = 0 # map Suc [0..<length ss]" by (simp add: map_Suc_upt upt_conv_Cons del: upt_Suc)
  let ?F = "\<lambda>k. day_header (if k = 0 then prev else day_of ((x # ss) ! (k - 1))) (day_of ((x # ss) ! k))
      @ answer_line conflicts (n + k) ((x # ss) ! k)"
  let ?G = "\<lambda>k. day_header (if k = 0 then day_of x else day_of (ss ! (k - 1))) (day_of (ss ! k))
      @ answer_line conflicts (n + 1 + k) (ss ! k)"
  have "?F (Suc k) = ?G k" for k by (cases k) simp_all
  then have "concat (map ?F [0..<length (x # ss)]) = ?F 0 @ concat (map ?G [0..<length ss])"
    unfolding u list.map map_map comp_def concat.simps by simp
  moreover have "answer_lines conflicts n prev (x # ss) = ?F 0 @ answer_lines conflicts (n + 1) (day_of x) ss"
    by (simp add: Let_def day_of_def day_header_def)
  ultimately show ?case unfolding Cons.IH by (simp only:)
qed simp

section \<open>Stripping the reasoning\<close>

lemma IndexOf_Some:
  "IndexOf s sub = Some i \<longleftrightarrow> i \<le> length s \<and> occurs_at s sub i \<and> (\<forall>j < i. \<not> occurs_at s sub j)"
proof
  assume "IndexOf s sub = Some i"
  then show "i \<le> length s \<and> occurs_at s sub i \<and> (\<forall>j < i. \<not> occurs_at s sub j)"
    unfolding IndexOf_def find_Some_iff by (auto simp del: upt_Suc)
next
  assume "i \<le> length s \<and> occurs_at s sub i \<and> (\<forall>j < i. \<not> occurs_at s sub j)"
  then show "IndexOf s sub = Some i"
    unfolding IndexOf_def find_Some_iff by (intro exI [of _ i]) (auto simp del: upt_Suc)
qed

lemma IndexOf_None: "IndexOf s sub = None \<longleftrightarrow> (\<forall>i \<le> length s. \<not> occurs_at s sub i)"
  unfolding IndexOf_def find_None_iff by (auto simp: less_Suc_eq_le simp del: upt_Suc)

lemma occurs_at_append: "occurs_at (a @ sub @ b) sub (length a)"
  by (simp add: occurs_at_def)

lemma occurs_at_nth: "occurs_at s sub i \<Longrightarrow> k < length sub \<Longrightarrow> i + k < length s \<and> s ! (i + k) = sub ! k"
proof -
  assume *: "occurs_at s sub i" "k < length sub"
  have e: "take (length sub) (drop i s) = sub" using *(1) by (simp add: occurs_at_def)
  then have "length sub \<le> length (drop i s)" by (metis length_take min.absorb_iff2 min.commute)
  then have "i + k < length s" using *(2) by simp
  moreover have "sub ! k = drop i s ! k" using e *(2) by (metis nth_take)
  ultimately show ?thesis by simp
qed

lemma occurs_at_fits: "occurs_at s sub i \<Longrightarrow> sub \<noteq> [] \<Longrightarrow> i + length sub \<le> length s"
  using occurs_at_nth [of s sub i "length sub - 1"] by (cases sub) auto

lemma tag_lengths: "length open_tag = 14" "length close_tag = 15"
  by simp_all

lemma tag_marks:
  "occurs_at s open_tag i \<Longrightarrow> i < length s \<and> s ! i = CHR ''<'' \<and> Suc i < length s \<and> s ! Suc i = CHR ''m''"
  "occurs_at s close_tag i \<Longrightarrow> i < length s \<and> s ! i = CHR ''<'' \<and> Suc i < length s \<and> s ! Suc i = CHR ''/''"
  using occurs_at_nth [of s open_tag i 0] occurs_at_nth [of s open_tag i 1]
    occurs_at_nth [of s close_tag i 0] occurs_at_nth [of s close_tag i 1] by auto

text \<open>A tag has its only mark at its start, so it cannot run into text that starts with a mark.\<close>

lemma occurs_before_mark:
  assumes "occurs_at (a @ CHR ''<'' # b) tag j" and "j < length a" and "CHR ''<'' \<notin> set (tl tag)"
  shows "occurs_at a tag j"
proof (cases "j + length tag \<le> length a")
  case True
  then show ?thesis using assms(1) by (simp add: occurs_at_def drop_append)
next
  case False
  define k where "k = length a - j"
  have k: "0 < k" "k < length tag" "j + k = length a" using False assms(2) by (auto simp: k_def)
  have "(a @ CHR ''<'' # b) ! (j + k) = tag ! k" using occurs_at_nth [OF assms(1) k(2)] by blast
  then have "tag ! k = CHR ''<''" unfolding k(3) by simp
  then have "tl tag ! (k - 1) = CHR ''<''" "k - 1 < length (tl tag)" using k(1,2) by (simp_all add: nth_tl)
  then show ?thesis using assms(3) nth_mem by metis
qed

lemma occurs_at_left: "occurs_at a sub i \<Longrightarrow> sub \<noteq> [] \<Longrightarrow> occurs_at (a @ b) sub i"
  using occurs_at_fits [of a sub i] by (simp add: occurs_at_def drop_append)

lemma occurs_at_right: "occurs_at (a @ b) sub (length a + i) \<longleftrightarrow> occurs_at b sub i"
  by (simp add: occurs_at_def)

lemma absent_iff: "sub \<noteq> [] \<Longrightarrow> IndexOf s sub = None \<longleftrightarrow> (\<forall>i. \<not> occurs_at s sub i)"
  unfolding IndexOf_None using occurs_at_fits by (metis add_leD1)

lemma absent_left: "IndexOf (a @ b) sub = None \<Longrightarrow> sub \<noteq> [] \<Longrightarrow> IndexOf a sub = None"
  using occurs_at_left [of a sub _ b] by (auto simp: absent_iff)

lemma IndexOf_open:
  assumes "IndexOf a open_tag = None"
  shows "IndexOf (a @ open_tag @ b) open_tag = Some (length a)"
  unfolding IndexOf_Some
proof (intro conjI occurs_at_append allI impI)
  fix j assume "j < length a"
  then show "\<not> occurs_at (a @ open_tag @ b) open_tag j"
    using occurs_before_mark [of a "tl open_tag @ b" open_tag j] assms by (auto simp: absent_iff)
qed simp

text \<open>No closing tag starts in an opening one or in front of it.\<close>

lemma no_close_in_block:
  assumes "IndexOf a close_tag = None" and "IndexOf r close_tag = None"
  shows "IndexOf (a @ open_tag @ r) close_tag = None"
proof -
  have "\<not> occurs_at (a @ open_tag @ r) close_tag j" for j
  proof
    assume o: "occurs_at (a @ open_tag @ r) close_tag j"
    show False
    proof (cases "j < length a")
      case True
      then show False using occurs_before_mark [of a "tl open_tag @ r" close_tag j] o assms(1) by (auto simp: absent_iff)
    next
      case False
      then obtain k where k: "j = length a + k" using le_Suc_ex not_less by blast
      then have ok: "occurs_at (open_tag @ r) close_tag k" using o by (simp only: occurs_at_right)
      then have m: "(open_tag @ r) ! k = CHR ''<''" "(open_tag @ r) ! Suc k = CHR ''/''" using tag_marks(2) by blast+
      have "length open_tag \<le> k"
      proof (rule ccontr)
        assume "\<not> length open_tag \<le> k"
        then have "k < 14" by simp
        then have "k \<in> {0..13}" by simp
        then show False using m by (auto simp: atLeastAtMost_insertL nth_Cons split: nat.splits)
      qed
      then obtain l where "k = length open_tag + l" using le_Suc_ex by blast
      then have "occurs_at r close_tag l" using ok by (simp only: occurs_at_right)
      then show False using assms(2) by (simp add: absent_iff)
    qed
  qed
  then show ?thesis by (simp add: absent_iff)
qed

lemma IndexOf_close:
  assumes "IndexOf a close_tag = None" and "IndexOf r close_tag = None"
  shows "IndexOf (a @ open_tag @ r @ close_tag @ b) close_tag = Some (length (a @ open_tag @ r))"
  unfolding IndexOf_Some
proof (intro conjI allI impI)
  let ?s = "a @ open_tag @ r @ close_tag @ b" and ?p = "a @ open_tag @ r"
  show "length ?p \<le> length ?s" by simp
  show "occurs_at ?s close_tag (length ?p)"
    using occurs_at_append [of ?p close_tag b] by simp
  fix j assume "j < length ?p"
  then show "\<not> occurs_at ?s close_tag j"
    using occurs_before_mark [of ?p "tl close_tag @ b" close_tag j] no_close_in_block [OF assms] by (auto simp: absent_iff)
qed

text \<open>A text whose blocks of reasoning are closed, one after the other, and the rest of it.\<close>

definition with_reasoning :: "(string \<times> string) list \<Rightarrow> string \<Rightarrow> string" where
  "with_reasoning blocks rest = concat (map (\<lambda>(t, r). t @ open_tag @ r @ close_tag) blocks) @ rest"

lemma strip_plain: "IndexOf s open_tag = None \<Longrightarrow> stripMemThinking s = Some (TrimSpace s)"
  by (subst stripMemThinking.simps) (simp only: option.case)

lemma strip_unclosed:
  assumes "IndexOf a open_tag = None" and "IndexOf a close_tag = None" and "IndexOf c close_tag = None"
  shows "stripMemThinking (a @ open_tag @ c) = Some (TrimSpace a)"
proof -
  have "take (length a) (a @ open_tag @ c) = a" by simp
  then show ?thesis
    using IndexOf_open [OF assms(1), of c] no_close_in_block [OF assms(2,3)]
    by (subst stripMemThinking.simps) (simp only: option.case)
qed

lemma drop_tags: "drop (length x + length y) (x @ y @ b) = b"
  by simp

lemma drop_past: "i \<le> length s \<Longrightarrow> drop (i + m) (take i s @ t) = drop m t"
  by simp

lemma strip_block:
  assumes "IndexOf a open_tag = None" and "IndexOf a close_tag = None" and "IndexOf r close_tag = None"
  shows "stripMemThinking (a @ open_tag @ r @ close_tag @ b) = stripMemThinking (a @ b)"
proof -
  let ?s = "a @ open_tag @ r @ close_tag @ b"
  have i: "IndexOf ?s open_tag = Some (length a)" by (rule IndexOf_open [OF assms(1)])
  have j: "IndexOf ?s close_tag = Some (length (a @ open_tag @ r))" by (rule IndexOf_close [OF assms(2,3)])
  have "take (length a) ?s = a" by simp
  moreover have "drop (length (a @ open_tag @ r) + length close_tag) ?s = b"
    using drop_tags [of "a @ open_tag @ r" close_tag b] by (simp only: append_assoc)
  ultimately show ?thesis by (subst stripMemThinking.simps) (simp only: i j option.case)
qed

text \<open>The end of a reply: nothing more, or a block that is never closed.\<close>

definition open_end :: "string \<Rightarrow> bool" where
  "open_end e \<longleftrightarrow> e = '''' \<or> (\<exists>c. e = open_tag @ c \<and> IndexOf c close_tag = None)"

lemma strip_blocks:
  "list_all (\<lambda>b. IndexOf (snd b) close_tag = None) blocks \<Longrightarrow> open_end e \<Longrightarrow>
     IndexOf (p @ concat (map fst blocks) @ rest) open_tag = None \<Longrightarrow>
     IndexOf (p @ concat (map fst blocks) @ rest) close_tag = None \<Longrightarrow>
     stripMemThinking (p @ with_reasoning blocks rest @ e) = Some (TrimSpace (p @ concat (map fst blocks) @ rest))"
proof (induction blocks arbitrary: p)
  case Nil
  then show ?case
    using strip_plain [of "p @ rest"] strip_unclosed [of "p @ rest"] unfolding open_end_def with_reasoning_def by auto
next
  case (Cons b blocks)
  obtain t r where b: "b = (t, r)" by (cases b)
  have n: "IndexOf (p @ t) open_tag = None" "IndexOf (p @ t) close_tag = None" "IndexOf r close_tag = None"
    using Cons.prems absent_left [of "p @ t" "concat (map fst blocks) @ rest"] b by simp_all
  have "stripMemThinking (p @ with_reasoning (b # blocks) rest @ e)
      = stripMemThinking ((p @ t) @ open_tag @ r @ close_tag @ with_reasoning blocks rest @ e)"
    by (simp only: b with_reasoning_def list.map concat.simps prod.case append_assoc)
  also have "\<dots> = stripMemThinking ((p @ t) @ with_reasoning blocks rest @ e)" by (rule strip_block [OF n])
  also have "\<dots> = Some (TrimSpace ((p @ t) @ concat (map fst blocks) @ rest))"
    using Cons.prems b by (intro Cons.IH) simp_all
  finally show ?case by (simp add: b)
qed

text \<open>What is left has no opening tag.\<close>

lemma absent_trim: "IndexOf s open_tag = None \<Longrightarrow> IndexOf (TrimSpace s) open_tag = None"
proof -
  assume s: "IndexOf s open_tag = None"
  define u where "u = dropWhile is_space s"
  have "s = takeWhile is_space s @ u" by (simp add: u_def)
  moreover have "u = TrimSpace s @ rev (takeWhile is_space (rev u))"
    by (metis TrimSpace_def rev_append rev_rev_ident takeWhile_dropWhile_id u_def)
  ultimately obtain a b where "s = a @ TrimSpace s @ b" by metis
  then have "occurs_at (TrimSpace s) open_tag i \<Longrightarrow> occurs_at s open_tag (length a + i)" for i
    using occurs_at_right [of a "TrimSpace s @ b" open_tag i] occurs_at_left [of "TrimSpace s" open_tag i b] by auto
  then show ?thesis using s by (auto simp: absent_iff)
qed

lemma absent_before: "IndexOf s open_tag = Some i \<Longrightarrow> IndexOf (take i s) open_tag = None"
proof -
  assume i: "IndexOf s open_tag = Some i"
  have "\<not> occurs_at (take i s) open_tag j" for j
  proof
    assume o: "occurs_at (take i s) open_tag j"
    then have "j < i" using occurs_at_fits [OF o] by simp
    moreover have "occurs_at s open_tag j" using occurs_at_left [OF o, of "drop i s"] by simp
    ultimately show False using i unfolding IndexOf_Some by blast
  qed
  then show ?thesis by (simp add: absent_iff)
qed

lemma stripped_clean: "stripMemThinking s = Some t \<Longrightarrow> IndexOf t open_tag = None"
proof (rule stripMemThinking.raw_induct [of "\<lambda>s t. IndexOf t open_tag = None"])
  fix f x z
  assume IH: "\<And>x z. f x = Some z \<Longrightarrow> IndexOf z open_tag = None"
    and body: "(case IndexOf x open_tag of None \<Rightarrow> Some (TrimSpace x)
      | Some i \<Rightarrow> (case IndexOf x close_tag of None \<Rightarrow> Some (TrimSpace (take i x))
           | Some j \<Rightarrow> f (take i x @ drop (j + length close_tag) x))) = Some z"
  show "IndexOf z open_tag = None"
  proof (cases "IndexOf x open_tag")
    case None
    then show ?thesis using body absent_trim [OF None] by (auto simp only: option.case)
  next
    case (Some i)
    show ?thesis
    proof (cases "IndexOf x close_tag")
      case None
      then have "z = TrimSpace (take i x)" using body Some by (simp only: option.case option.inject)
      then show ?thesis using absent_trim [OF absent_before [OF Some]] by simp
    next
      case (Some j)
      then have "f (take i x @ drop (j + length close_tag) x) = Some z"
        using body \<open>IndexOf x open_tag = Some i\<close> by (simp only: option.case)
      then show ?thesis by (rule IH)
    qed
  qed
qed

text \<open>A closing tag ahead of the first opening one: the loop never ends.\<close>

definition stray_close :: "string \<Rightarrow> bool" where
  "stray_close s \<longleftrightarrow> (\<exists>i j. IndexOf s open_tag = Some i \<and> IndexOf s close_tag = Some j \<and> j < i)"

lemma occurs_at_take:
  "i + length sub \<le> n \<Longrightarrow> n \<le> length s \<Longrightarrow> occurs_at (take n s @ t) sub i \<longleftrightarrow> occurs_at s sub i"
  by (simp add: occurs_at_def drop_take)

lemma stray_close_again:
  assumes i: "IndexOf s open_tag = Some i" and j: "IndexOf s close_tag = Some j" and "j < i"
  shows "stray_close (take i s @ drop (j + length close_tag) s)"
proof -
  let ?s' = "take i s @ drop (j + length close_tag) s"
  have oi: "i \<le> length s" "occurs_at s open_tag i" "\<And>k. k < i \<Longrightarrow> \<not> occurs_at s open_tag k"
    using i unfolding IndexOf_Some by blast+
  have oj: "occurs_at s close_tag j" "\<And>k. k < j \<Longrightarrow> \<not> occurs_at s close_tag k"
    using j unfolding IndexOf_Some by blast+
  have far: "j + 15 \<le> i"
  proof (rule ccontr)
    assume "\<not> j + 15 \<le> i"
    then obtain k where k: "i = j + k" "0 < k" "k < 15" using \<open>j < i\<close> by (metis less_imp_add_positive nat_add_left_cancel_less not_le)
    have "s ! i = close_tag ! k" using occurs_at_nth [OF oj(1), of k] k by simp
    moreover have "s ! i = CHR ''<''" using tag_marks(1) [OF oi(2)] by blast
    moreover have "k \<in> {1..14}" using k by simp
    ultimately show False by (auto simp: atLeastAtMost_insertL nth_Cons split: nat.splits)
  qed
  have cl: "occurs_at ?s' close_tag j \<and> (\<forall>k < j. \<not> occurs_at ?s' close_tag k)"
    using oj far oi(1) occurs_at_take [of _ close_tag i s] by (auto simp: tag_lengths)
  then have j': "IndexOf ?s' close_tag = Some j" using far oi(1) by (auto simp: IndexOf_Some)
  let ?p = "i + (i - (j + 15))"
  have "occurs_at ?s' open_tag ?p"
  proof -
    have "drop ?p ?s' = drop (i - (j + 15)) (drop (j + length close_tag) s)" by (rule drop_past [OF oi(1)])
    also have "\<dots> = drop i s" using far by (simp only: drop_drop tag_lengths le_add_diff_inverse2)
    finally have "drop ?p ?s' = drop i s" .
    then show ?thesis using oi(2) by (simp add: occurs_at_def)
  qed
  moreover have "?p \<le> length ?s'" using far oi(1) by (simp add: tag_lengths)
  ultimately obtain i' where i': "IndexOf ?s' open_tag = Some i'" using IndexOf_None by (metis not_Some_eq)
  have "j < i'"
  proof (rule ccontr)
    assume "\<not> j < i'"
    then have "i' + length open_tag \<le> i" "i' < i" using far by (simp_all add: tag_lengths)
    moreover have "occurs_at ?s' open_tag i'" using i' IndexOf_Some by blast
    ultimately show False using occurs_at_take [of i' open_tag i s] oi(1,3) by blast
  qed
  then show ?thesis using i' j' unfolding stray_close_def by blast
qed

lemma strip_diverges: "stray_close s \<Longrightarrow> stripMemThinking s = None"
proof (rule ccontr)
  assume "stray_close s" and "stripMemThinking s \<noteq> None"
  then obtain y where y: "stripMemThinking s = Some y" by blast
  have "\<not> stray_close s"
  proof (rule stripMemThinking.raw_induct [OF _ y])
    fix f x z
    assume IH: "\<And>x z. f x = Some z \<Longrightarrow> \<not> stray_close x"
      and body: "(case IndexOf x open_tag of None \<Rightarrow> Some (TrimSpace x)
        | Some i \<Rightarrow> (case IndexOf x close_tag of None \<Rightarrow> Some (TrimSpace (take i x))
             | Some j \<Rightarrow> f (take i x @ drop (j + length close_tag) x))) = Some z"
    show "\<not> stray_close x"
    proof
      assume "stray_close x"
      then obtain i j where ij: "IndexOf x open_tag = Some i" "IndexOf x close_tag = Some j" "j < i"
        unfolding stray_close_def by blast
      have "f (take i x @ drop (j + length close_tag) x) = Some z" using body by (simp only: ij option.case)
      then show False using IH stray_close_again [OF ij] by blast
    qed
  qed
  then show False using \<open>stray_close s\<close> by blast
qed

section \<open>Where the sources come from\<close>

text \<open>A memory held by a namespace of some read set of the request.\<close>

definition answer_scope :: "AnswerInput \<Rightarrow> bool \<times> bool \<Rightarrow> Tier list \<Rightarrow> readScope" where
  "answer_scope q flags tiers =
     \<lparr> sc_primary = aNamespace q, sc_home = aHome q, sc_explicit = [], sc_subtree = snd flags,
       sc_bare = fst flags, sc_reqTiers = tiers \<rparr>"

definition in_read_set :: "bool \<Rightarrow> read_store \<Rightarrow> db \<Rightarrow> AnswerInput \<Rightarrow> memory \<Rightarrow> bool" where
  "in_read_set cascade reads d q m \<longleftrightarrow>
     (\<exists>flags tiers es. parseScope (aScope q) = Inr flags
        \<and> resolveReadSet cascade reads (answer_scope q flags tiers) = Inr es
        \<and> (\<exists>e \<in> set es. held_row d (leg_ns e) m))"

definition linked_from_read_set :: "bool \<Rightarrow> read_store \<Rightarrow> db \<Rightarrow> AnswerInput \<Rightarrow> memory \<Rightarrow> bool" where
  "linked_from_read_set cascade reads d q m \<longleftrightarrow>
     (\<exists>m'. in_read_set cascade reads d q m' \<and> ID m \<in> set (LinkedMemoryIDs m') \<and> held_row d (Namespace m') m)"

lemma found_held: "found_row eng wall d ns f m \<Longrightarrow> held_row d ns m"
  by (auto simp: found_row_def held_row_def)

lemma recall_checks_scope: "recall_checks q = Inr flags \<Longrightarrow> parseScope (rScope q) = Inr flags"
  by (auto simp: recall_checks_def split: if_splits sum.splits)

lemma answer_recall_found:
  assumes ok: "db_ok d" and sort: "\<And>xs. mset (re_sort env xs) = mset xs"
    and r: "Recall s (sqlite_recall eng wall reads d) env (answer_recall q query k tiers asOf linked) = Inr out"
    and x: "x \<in> set (ro_results out)"
  shows "in_read_set (cascades s) reads d q (sMemory x)
     \<or> linked \<and> linked_from_read_set (cascades s) reads d q (sMemory x)"
proof -
  let ?q = "answer_recall q query k tiers asOf linked"
  let ?f = "recall_filter (re_now env) ?q"
  have reads: "rs_reads (sqlite_recall eng wall reads d) = reads" by (simp add: sqlite_recall_def)
  obtain flags entries where f: "recall_checks ?q = Inr flags"
      "resolveReadSet (cascades s) reads (recall_scope flags ?q) = Inr entries"
    and good: "sq.served eng wall d ?f entries (sMemory x)
      \<or> IncludeLinked ?q \<and> SupersededBy (sMemory x) = None
        \<and> (\<exists>m'. sq.served eng wall d ?f entries m' \<and> ID (sMemory x) \<in> set (LinkedMemoryIDs m')
             \<and> held_row d (Namespace m') (sMemory x))"
    using sq.Recall_served [OF ok r sort] x unfolding reads by blast
  have scope: "recall_scope flags ?q = answer_scope q flags tiers"
    by (simp add: recall_scope_def answer_scope_def answer_recall_def)
  have p: "parseScope (aScope q) = Inr flags" using recall_checks_scope [OF f(1)] by (simp add: answer_recall_def)
  have linked: "IncludeLinked ?q = linked" by (simp add: answer_recall_def)
  have in_set: "in_read_set (cascades s) reads d q m" if "sq.served eng wall d ?f entries m" for m
    using that found_held f(2) p unfolding sq.served_def scope in_read_set_def by blast
  show ?thesis using good in_set unfolding linked linked_from_read_set_def by blast
qed

lemma keyword_legs_Inr:
  "keyword_legs search es = Inr legs \<Longrightarrow> l \<in> set legs \<Longrightarrow> \<exists>e \<in> set es. search e = Inr l"
  by (induction es arbitrary: legs) (fastforce split: sum.splits)+

lemma keyword_found:
  assumes ok: "db_ok d"
    and r: "keywordSearchReadSet s (sqlite_recall eng wall reads d) now (aNamespace q) (aHome q) (aScope q) query k = Inr hits"
    and x: "x \<in> set hits"
  shows "in_read_set (cascades s) reads d q (sMemory x)"
proof -
  have reads: "rs_reads (sqlite_recall eng wall reads d) = reads" by (simp add: sqlite_recall_def)
  let ?legs = "keyword_legs (\<lambda>e. rs_keyword (sqlite_recall eng wall reads d) (leg_ns e) query
        (leg_filter (no_filter\<lparr> Now := now \<rparr>) e) (nat k))"
  obtain flags where p: "parseScope (aScope q) = Inr flags"
    using r by (cases "parseScope (aScope q)") (simp_all add: keywordSearchReadSet_def)
  have r1: "(case resolveReadSet (cascades s) reads (answer_scope q flags []) of
             Inl e \<Rightarrow> Inl (ReadSetFailed e)
           | Inr entries \<Rightarrow>
               (case ?legs entries of
                  Inl er \<Rightarrow> Inl (KeywordLegFailed er)
                | Inr perNS \<Rightarrow> Inr (take (nat k) (fuse_namespaces s perNS)))) = Inr hits"
    using r by (cases flags) (simp only: keywordSearchReadSet_def p sum.case prod.case reads answer_scope_def fst_conv snd_conv)
  then obtain entries where es: "resolveReadSet (cascades s) reads (answer_scope q flags []) = Inr entries"
    by (cases "resolveReadSet (cascades s) reads (answer_scope q flags [])") simp_all
  obtain perNS where legs: "?legs entries = Inr perNS"
    using r1 unfolding es by (cases "?legs entries") simp_all
  have hits: "hits = take (nat k) (fuse_namespaces s perNS)"
    using r1 unfolding es sum.case legs by simp
  have "x \<in> set (fuse_namespaces s perNS)" using x unfolding hits by (rule in_set_takeD)
  then have "sMemory x \<in> sMemory ` (\<Union>l \<in> set perNS. set l)"
    by (rule subsetD [OF fuse_namespaces_memories imageI])
  then obtain l y where l: "l \<in> set perNS" "y \<in> set l" "sMemory x = sMemory y" by blast
  obtain e where e: "e \<in> set entries" "rs_keyword (sqlite_recall eng wall reads d) (leg_ns e) query
        (leg_filter (no_filter\<lparr> Now := now \<rparr>) e) (nat k) = Inr l"
    using keyword_legs_Inr [OF legs l(1)] by blast
  have "held_row d (leg_ns e) (sMemory x)"
    using found_held [OF sq.keyword [OF ok e(2) l(2)]] l(3) by simp
  then show ?thesis using p es e(1) unfolding in_read_set_def by blast
qed

lemma tool_result_hits:
  "x \<in> set (snd (tool_result env r)) \<Longrightarrow> \<exists>hits. r = Inr hits \<and> x \<in> set hits"
  by (auto simp: tool_result_def split: sum.splits list.splits)

lemma recall_hits_Inr: "recall_hits s st env r = Inr hits \<Longrightarrow> \<exists>out. Recall s st (ae_recall env) r = Inr out \<and> hits = ro_results out"
  by (auto simp: recall_hits_def split: sum.splits)

lemma execAnswerTool_found:
  assumes ok: "db_ok d" and sort: "\<And>xs. mset (re_sort (ae_recall env) xs) = mset xs"
    and x: "x \<in> set (snd (execAnswerTool s (sqlite_recall eng wall reads d) env q call))"
  shows "in_read_set (cascades s) reads d q (sMemory x)"
proof -
  let ?st = "sqlite_recall eng wall reads d"
  have rec: "in_read_set (cascades s) reads d q (sMemory x)"
    if "x \<in> set (snd (tool_result env (recall_hits s ?st env (answer_recall q query k tiers asOf False))))"
    for query k tiers asOf
    using tool_result_hits [OF that] recall_hits_Inr answer_recall_found [OF ok sort] by blast
  have key: "in_read_set (cascades s) reads d q (sMemory x)"
    if "x \<in> set (snd (tool_result env (keywordSearchReadSet s ?st now (aNamespace q) (aHome q) (aScope q) query k)))"
    for now query k
    using tool_result_hits [OF that] keyword_found [OF ok] by blast
  let ?k = "if aLimit q \<le> 0 then 5 else aLimit q"
  show ?thesis
  proof (cases "tcArgs call")
    case None
    then show ?thesis using x by (simp add: execAnswerTool_def)
  next
    case (Some args)
    obtain query tier date where a: "args = (query, tier, date)" by (cases args)
    note ex = execAnswerTool_def [of s ?st env q call, unfolded Some option.case a prod.case Let_def]
    consider (none) "snd (execAnswerTool s ?st env q call) = []"
      | (search) "tcName call = ''search_memory''" "TrimSpace query \<noteq> ''''"
      | (keyword) "tcName call = ''keyword_search''" "TrimSpace query \<noteq> ''''"
      | (past) asOf where "tcName call = ''recall_as_of''" "TrimSpace query \<noteq> ''''"
          "parse_date (TrimSpace date) = Some asOf"
      using ex by (cases "parse_date (TrimSpace date)") (auto split: if_splits)
    then show ?thesis
    proof cases
      case none
      then show ?thesis using x by simp
    next
      case search
      then show ?thesis using x rec ex by simp
    next
      case keyword
      then show ?thesis using x key ex by simp
    next
      case past
      then show ?thesis using x rec ex by simp
    qed
  qed
qed

section \<open>Collecting\<close>

definition sources_ok :: "(memory \<Rightarrow> bool) \<Rightarrow> Scored list \<Rightarrow> bool" where
  "sources_ok good sources \<longleftrightarrow> distinct (map hit_id sources) \<and> (\<forall>r \<in> set sources. good (sMemory r))"

lemma sources_ok_Nil [simp]: "sources_ok good []"
  by (simp add: sources_ok_def)

lemma collect_sources_ok:
  "sources_ok good sources \<Longrightarrow> (\<And>r. r \<in> set res \<Longrightarrow> good (sMemory r)) \<Longrightarrow> sources_ok good (collect_sources sources res)"
proof (induction res arbitrary: sources)
  case (Cons r res)
  have "sources_ok good (if hit_id r \<in> hit_id ` set sources then sources else sources @ [r])"
    using Cons.prems(1) Cons.prems(2) [of r] by (simp add: sources_ok_def image_iff)
  then show ?case using Cons.IH Cons.prems(2) by simp
qed simp

lemma run_calls_ok:
  assumes "\<And>call r. r \<in> set (snd (execAnswerTool s st env q call)) \<Longrightarrow> good (sMemory r)"
  shows "sources_ok good sources \<Longrightarrow> run_calls s st env q calls (turns, sources) = (turns', sources') \<Longrightarrow> sources_ok good sources'"
proof (induction calls arbitrary: turns sources)
  case (Cons call calls)
  obtain reply res where e: "execAnswerTool s st env q call = (reply, res)" by fastforce
  have "sources_ok good (collect_sources sources res)"
    using collect_sources_ok [OF Cons.prems(1)] assms [of _ call] e by simp
  then show ?case using Cons.IH Cons.prems(2) by (auto simp: e)
qed simp

lemma answer_rounds_ok:
  assumes tools: "\<And>call r. r \<in> set (snd (execAnswerTool s st env q call)) \<Longrightarrow> good (sMemory r)"
  shows "sources_ok good sources \<Longrightarrow> answer_rounds s st env q chat n turns sources = Inr res \<Longrightarrow> sources_ok good (arSources res)"
proof (induction n arbitrary: turns sources)
  case 0
  then show ?case by (auto simp: answered_def split: option.splits)
next
  case (Suc n)
  show ?case
  proof (cases "chat turns True")
    case None
    then show ?thesis using Suc.prems by simp
  next
    case (Some c)
    show ?thesis
    proof (cases "chCalls c = []")
      case True
      then show ?thesis using Suc.prems Some by (auto simp: answered_def)
    next
      case False
      obtain turns1 sources1 where rc: "run_calls s st env q (chCalls c)
          (turns @ [\<lparr> ctRole = ''assistant'', ctText = chText c, ctCalls = chCalls c, ctCallID = '''', ctName = '''' \<rparr>], sources)
          = (turns1, sources1)" by fastforce
      have "sources_ok good sources1" by (rule run_calls_ok [OF tools Suc.prems(1) rc])
      then show ?thesis using Suc.IH Suc.prems(2) Some False rc by simp
    qed
  qed
qed

lemma expand_recalls_ok:
  assumes "\<And>query out r. Recall s st (ae_recall env) (answer_recall q query (aLimit q) (aTiers q) 0 False) = Inr out
      \<Longrightarrow> r \<in> set (ro_results out) \<Longrightarrow> good (sMemory r)"
  shows "sources_ok good sources \<Longrightarrow> expand_recalls s st env q queries sources = Inr sources' \<Longrightarrow> sources_ok good sources'"
proof (induction queries arbitrary: sources)
  case (Cons query queries)
  then obtain out where out: "Recall s st (ae_recall env) (answer_recall q query (aLimit q) (aTiers q) 0 False) = Inr out"
    "expand_recalls s st env q queries (collect_sources sources (ro_results out)) = Inr sources'"
    by (auto split: sum.splits)
  then show ?case using Cons.IH [OF collect_sources_ok [OF Cons.prems(1)]] assms by blast
qed simp

lemma holds_text_self: "holds_text s s"
  using occurs_at_append [of "[]" s "[]"] by (auto simp: holds_text_def IndexOf_None)

lemma answer_at_once:
  "0 < n \<Longrightarrow> chat turns True = Some c \<Longrightarrow> chCalls c = [] \<Longrightarrow>
     answer_rounds s st env q chat n turns sources = Inr (answered (chText c) sources)"
  by (cases n) simp_all

end
