(* ===== verification/Answer_Properties.thy ===== *)
theory Answer_Properties
  imports Answer_Sound Recall_Properties
begin

text \<open>
  Properties of answering: where the sources come from, the context that the model reads, the
  numbers of its conflict tags, and the loop that strips the reasoning from the reply.
\<close>

section \<open>Sources\<close>

text \<open>
  C24: whatever the strategy (one shot, rewritten queries or the tool loop) and whatever the model
  asks of the tools, every source of an answer is a memory of a namespace in a read set of the
  request, or one that such a memory links to; and unless it is the single recall of the one-shot
  answer, no memory is listed twice and linked memories do not occur.
\<close>

theorem answer_grounded:
  assumes "db_ok d" and "\<And>xs. mset (re_sort (ae_recall env) xs) = mset xs"
    and "Answer s (sqlite_recall eng wall reads d) env (Some rd) q = Inr (res, entries)"
  shows "list_all (\<lambda>r. in_read_set (cascades s) reads d q (sMemory r)
             \<or> linked_from_read_set (cascades s) reads d q (sMemory r)) (arSources res)
    \<and> (aReasoning q = ''expand'' \<or> 0 < iterations (aReasoning q) \<and> rdTools rd \<noteq> None \<longrightarrow>
         sources_ok (in_read_set (cascades s) reads d q) (arSources res))"
proof -
  let ?st = "sqlite_recall eng wall reads d" and ?s = "s\<lparr> answerer := Some (rdComplete rd ExpandSystem) \<rparr>"
  let ?in = "in_read_set (cascades s) reads d q" and ?lk = "linked_from_read_set (cascades s) reads d q"
  have c: "cascades ?s = cascades s" by simp
  note rec = answer_recall_found [OF assms(1,2), where s = ?s and q = q, unfolded c]
  have tools: "?in (sMemory r)" if "r \<in> set (snd (execAnswerTool ?s ?st env q call))" for call r
    using execAnswerTool_found [OF assms(1,2) that] c by simp
  have run: "(if aReasoning q = ''expand'' then answerExpand ?s ?st env rd q
              else case (if 0 < iterations (aReasoning q) then rdTools rd else None) of
                     Some chat \<Rightarrow> answerAgentic ?s ?st env rd chat (iterations (aReasoning q)) q
                   | None \<Rightarrow> answerSingle ?s ?st env rd q) = Inr res"
    using assms(3) unfolding Answer_def option.case Let_def by (auto split: sum.splits)
  have expand: "sources_ok ?in (arSources res)" if ex: "answerExpand ?s ?st env rd q = Inr res"
  proof -
    obtain variants where v: "rdComplete rd ExpandSystem (''Question: '' @ aQuery q) = Some variants"
    proof (cases "rdComplete rd ExpandSystem (''Question: '' @ aQuery q)")
      case None
      then show ?thesis using ex unfolding answerExpand_def None option.case by blast
    qed blast
    obtain sources where src: "expand_recalls ?s ?st env q (expand_queries (aQuery q) variants) [] = Inr sources"
      using ex unfolding answerExpand_def v option.case
      by (cases "expand_recalls ?s ?st env q (expand_queries (aQuery q) variants) []") simp_all
    have "arSources res = sources"
      using ex unfolding answerExpand_def v option.case src sum.case by (auto simp: answered_def split: option.splits)
    moreover have "sources_ok ?in sources"
      by (rule expand_recalls_ok [OF _ sources_ok_Nil src]) (drule (1) rec, simp)
    ultimately show ?thesis by simp
  qed
  have agentic: "sources_ok ?in (arSources res)" if ag: "answerAgentic ?s ?st env rd chat n q = Inr res" for chat n
  proof -
    obtain out where out: "Recall ?s ?st (ae_recall env) (answer_recall q (aQuery q) (aLimit q) (aTiers q) 0 False) = Inr out"
      using ag unfolding answerAgentic_def
      by (cases "Recall ?s ?st (ae_recall env) (answer_recall q (aQuery q) (aLimit q) (aTiers q) 0 False)") simp_all
    let ?src = "collect_sources [] (ro_results out)"
    have ok: "sources_ok ?in ?src" by (rule collect_sources_ok, simp) (drule rec [OF out], simp)
    have "arSources res = ?src \<or> (\<exists>turns. answer_rounds ?s ?st env q chat n turns ?src = Inr res)"
      using ag unfolding answerAgentic_def out sum.case Let_def answered_def
      by (simp split: option.splits if_splits) (drule sym, simp, blast)
    then show ?thesis
    proof
      assume "\<exists>turns. answer_rounds ?s ?st env q chat n turns ?src = Inr res"
      then obtain turns where t: "answer_rounds ?s ?st env q chat n turns ?src = Inr res" by blast
      show ?thesis by (rule answer_rounds_ok [OF _ ok t]) (rule tools)
    qed (simp add: ok)
  qed
  have single: "list_all (\<lambda>r. ?in (sMemory r) \<or> ?lk (sMemory r)) (arSources res)"
    if sg: "answerSingle ?s ?st env rd q = Inr res"
  proof -
    obtain out where "Recall ?s ?st (ae_recall env) (answer_recall q (aQuery q) (aLimit q) (aTiers q) 0 True) = Inr out"
      "arSources res = ro_results out"
      using sg unfolding answerSingle_def
      by (cases "Recall ?s ?st (ae_recall env) (answer_recall q (aQuery q) (aLimit q) (aTiers q) 0 True)")
        (auto simp: answered_def split: option.splits)
    then show ?thesis unfolding list_all_iff by (metis rec)
  qed
  have weaken: "list_all (\<lambda>r. ?in (sMemory r) \<or> ?lk (sMemory r)) (arSources res)"
    if "sources_ok ?in (arSources res)"
    using that by (simp add: sources_ok_def list_all_iff)
  show ?thesis
  proof (cases "aReasoning q = ''expand''")
    case True
    then show ?thesis using run expand weaken by simp
  next
    case no: False
    show ?thesis
    proof (cases "if 0 < iterations (aReasoning q) then rdTools rd else None")
      case None
      then show ?thesis using run no single by (auto split: if_splits)
    next
      case (Some chat)
      then show ?thesis using run no agentic weaken by auto
    qed
  qed
qed

definition tea_question :: AnswerInput where
  "tea_question = \<lparr> aNamespace = ''a'', aHome = '''', aQuery = ''tea'', aLimit = 5, aTiers = [], aLevels = [],
     aTags = [], aMetadata = [], aReasoning = ''low'', aScope = '''', aWantReadSet = False \<rparr>"

definition tea_answer_env :: answer_env where
  "tea_answer_env = \<lparr> ae_recall = tea_env, ae_detects = (\<lambda>_ _. False), ae_recall_error = (\<lambda>_. ''recall failed''),
     ae_arg_error = ''not JSON'' \<rparr>"

text \<open>A reader that is never content with the prefetch and then answers without a tool call.\<close>

definition doubting_reader :: reader where
  "doubting_reader = \<lparr> rdComplete = (\<lambda>_ _. Some ''INSUFFICIENT''),
     rdTools = Some (\<lambda>_ _. Some \<lparr> chText = ''green'', chCalls = [] \<rparr>) \<rparr>"

lemma answer_grounded_witness:
  "\<exists>res. Answer plain_service (sqlite_recall tea_engine 5 no_reads tea_db) tea_answer_env (Some doubting_reader) tea_question
       = Inr (res, [])
     \<and> sources_ok (in_read_set True no_reads tea_db tea_question) (arSources res)"
proof -
  let ?st = "sqlite_recall tea_engine 5 no_reads tea_db"
  let ?s = "plain_service\<lparr> answerer := Some (rdComplete doubting_reader ExpandSystem) \<rparr>"
  let ?q = "answer_recall tea_question ''tea'' 5 [] 0 False"
  have "(case resolveReadSet True no_reads (recall_scope (False, False) ?q) of Inr es \<Rightarrow> Some (map leg_ns es) | Inl _ \<Rightarrow> None)
      = Some [''a'']"
    by code_simp
  moreover have "recall_checks ?q = Inr (False, False)" by code_simp
  ultimately have "recall_fault ?s no_reads ?q = None"
    by (auto simp: recall_fault_def plain_service_def split: sum.splits)
  then obtain out where out: "Recall ?s ?st tea_env ?q = Inr out"
  proof (cases "Recall ?s ?st tea_env ?q")
    case (Inl e)
    then have "recall_fault ?s no_reads ?q = Some e" unfolding Recall_fault .
    then show ?thesis using \<open>recall_fault ?s no_reads ?q = None\<close> by simp
  qed blast
  have "ToUpper ''INSUFFICIENT'' = ''INSUFFICIENT''" by code_simp
  then have g: "gateInsufficient ''INSUFFICIENT''"
    using holds_text_self [of "''INSUFFICIENT''"] unfolding gateInsufficient_def Let_def by simp
  have scope: "parseScope '''' = Inr (False, False)" by code_simp
  have q: "aReasoning tea_question = ''low''" "aScope tea_question = ''''" "\<not> aWantReadSet tea_question"
      "aQuery tea_question = ''tea''" "aLimit tea_question = 5" "aTiers tea_question = []" "iterations ''low'' = 3"
    by (simp_all add: tea_question_def iterations_def)
  have rd: "rdTools doubting_reader = Some (\<lambda>_ _. Some \<lparr> chText = ''green'', chCalls = [] \<rparr>)"
      "\<And>p t. rdComplete doubting_reader p t = Some ''INSUFFICIENT''"
    by (simp_all add: doubting_reader_def)
  have env: "ae_recall tea_answer_env = tea_env" by (simp add: tea_answer_env_def)
  have "answerAgentic ?s ?st tea_answer_env doubting_reader (\<lambda>_ _. Some \<lparr> chText = ''green'', chCalls = [] \<rparr>) 3 tea_question
      = Inr (answered ''green'' (collect_sources [] (ro_results out)))"
    unfolding answerAgentic_def env q out sum.case Let_def rd(2) option.case by (simp add: g answer_at_once)
  then obtain res where res: "Answer plain_service ?st tea_answer_env (Some doubting_reader) tea_question = Inr (res, [])"
    unfolding Answer_def option.case Let_def q scope sum.case rd(1) by (simp add: q)
  have sorts: "mset (re_sort (ae_recall tea_answer_env) xs) = mset xs" for xs
    by (simp add: tea_answer_env_def tea_env_sorts)
  have "0 < iterations (aReasoning tea_question) \<and> rdTools doubting_reader \<noteq> None" "cascades plain_service = True"
    by (simp_all add: tea_question_def iterations_def doubting_reader_def plain_service_def)
  then show ?thesis using answer_grounded [OF tea_db_ok sorts res] res by auto
qed

section \<open>The context\<close>

text \<open>
  C25: the context that \<open>formatAnswerContext\<close> shows to the model. It has one line for every recalled
  memory, numbered from 1, the oldest first and memories of one date in the order of their
  relevance (the code's insertion loop is the stable sort by date); a line has the date, the
  content and, when the memory disagrees with others, the tag that lists them, and a new day is
  announced by a header. The numbers in a tag are the memories' positions in the recall, which is
  ordered by relevance: they are not the numbers of the lines, so they point to the intended lines
  only when both orders agree. The tagging itself is symmetric and never names the memory itself.
\<close>

theorem context_exact:
  "formatAnswerContext det res =
     (let lines = sort_key (\<lambda>x. dateOf (sMemory (fst x))) (zip res [0..<length res]);
          day = (\<lambda>k. format_date (dateOf (sMemory (fst (lines ! k)))));
          refs = (\<lambda>i. map Suc (filter (disagree det res i) [0..<length res]))
      in concat (map (\<lambda>k.
           (if 0 < k \<and> day (k - 1) = day k then ''''
            else (if k = 0 then '''' else newline) @ ''--- '' @ day k @ '' ---'' @ newline)
           @ show_nat (k + 1) @ ''. ['' @ day k @ ''] '' @ Content (sMemory (fst (lines ! k)))
           @ (if refs (snd (lines ! k)) = [] then ''''
              else '' [may conflict with '' @ refList (refs (snd (lines ! k))) @ '']'') @ newline) [0..<length res]))
   \<and> (Suc j \<in> set (conflictTags det res i)) = (Suc i \<in> set (conflictTags det res j))
   \<and> Suc i \<notin> set (conflictTags det res i)"
proof (intro conjI)
  have m: "(Suc j \<in> set (conflictTags det res i)) = disagree det res i j" for i j
    unfolding conflictTags_eq by (auto simp: disagree_def)
  show "(Suc j \<in> set (conflictTags det res i)) = (Suc i \<in> set (conflictTags det res j))" unfolding m by (rule disagree_sym)
  show "Suc i \<notin> set (conflictTags det res i)" unfolding m by (simp add: disagree_def)
qed (auto simp: formatAnswerContext_def chronological_sort_key answer_lines_eq conflictTags_eq day_header_def day_of_def
      answer_line_def Let_def intro!: arg_cong [where f = concat])

text \<open>
  the numbers in the conflict tags are positions in the order of relevance, but the lines are
  numbered by date. When two memories conflict and the newer one is the more relevant, which is
  the common case, the context tells the model that each of them conflicts with itself.
\<close>

theorem conflict_refs_misnumbered:
  assumes "Before (dateOf (sMemory b)) (dateOf (sMemory a))"
    and "conflicting det (sMemory a) (sMemory b)"
    and "format_date (dateOf (sMemory a)) \<noteq> format_date (dateOf (sMemory b))"
    and "format_date (dateOf (sMemory b)) \<noteq> ''''"
  shows "formatAnswerContext det [a, b] =
      ''--- '' @ format_date (dateOf (sMemory b)) @ '' ---'' @ newline
      @ ''1. ['' @ format_date (dateOf (sMemory b)) @ ''] '' @ Content (sMemory b) @ '' [may conflict with #1]'' @ newline
      @ newline @ ''--- '' @ format_date (dateOf (sMemory a)) @ '' ---'' @ newline
      @ ''2. ['' @ format_date (dateOf (sMemory a)) @ ''] '' @ Content (sMemory a) @ '' [may conflict with #2]'' @ newline"
proof -
  have order: "chronological [a, b] = [(b, 1), (a, 0)]"
    using assms(1) by (simp add: chronological_def)
  have tags: "conflictTags det [a, b] 0 = [2]" "conflictTags det [a, b] (Suc 0) = [1]"
    using assms(2) by (simp_all add: conflictTags_eq disagree_def numeral_2_eq_2)
  have "show_nat 1 = ''1''" "show_nat 2 = ''2''" by code_simp+
  then have digits: "show_nat (Suc 0) = ''1''" "show_nat (Suc (Suc 0)) = ''2''" "show_nat 2 = ''2''"
    by (simp_all add: numeral_2_eq_2)
  show ?thesis
    using assms(3,4) unfolding formatAnswerContext_def order
    by (simp add: answer_line_def tags refList_def digits Let_def)
qed

text \<open>Two statements about the port, the newer one first in the recall.\<close>

definition port_hit :: "string \<Rightarrow> string \<Rightarrow> Time \<Rightarrow> Scored" where
  "port_hit i content t =
     \<lparr> sMemory = (sample_memory ''a'' i content)\<lparr> CreatedAt := t \<rparr>, Score = 1, MatchedChunk = '''' \<rparr>"

lemma conflict_refs_misnumbered_witness:
  "formatAnswerContext (\<lambda>_ _. True) [port_hit ''m2'' ''port 9000'' (24 * Hour), port_hit ''m1'' ''port 8000'' 0] =
      ''--- 0001-01-01 ---'' @ newline @ ''1. [0001-01-01] port 8000 [may conflict with #1]'' @ newline
      @ newline @ ''--- 0001-01-02 ---'' @ newline @ ''2. [0001-01-02] port 9000 [may conflict with #2]'' @ newline"
proof -
  let ?a = "port_hit ''m2'' ''port 9000'' (24 * Hour)" and ?b = "port_hit ''m1'' ''port 8000'' 0"
  have d: "dateOf (sMemory ?a) = 24 * Hour" "dateOf (sMemory ?b) = 0"
    by (simp_all add: port_hit_def dateOf_def sample_memory_def)
  have f: "format_date (24 * Hour) = ''0001-01-02''" "format_date 0 = ''0001-01-01''" by code_simp+
  have "Before (dateOf (sMemory ?b)) (dateOf (sMemory ?a))" unfolding d by (simp add: Before_def)
  moreover have "conflicting (\<lambda>_ _. True) (sMemory ?a) (sMemory ?b)" by (simp add: conflicting_def)
  moreover have "Content (sMemory ?a) = ''port 9000''" "Content (sMemory ?b) = ''port 8000''"
    by (simp_all add: port_hit_def sample_memory_def)
  ultimately show ?thesis
    using conflict_refs_misnumbered [of ?b ?a "\<lambda>_ _. True"] unfolding d f by simp
qed

section \<open>The reply\<close>

text \<open>
  C26: the loop that strips the reasoning. Take a reply of texts, each followed by a closed block
  of reasoning, of a last text, and possibly of a block that is never closed; no reasoning contains
  a closing tag, and no tag occurs in the texts put together (so none arises when a block between
  two of them is cut out). The loop then ends, and what is left is exactly those texts, trimmed.
  Whatever the reply, an answer that the loop does return contains no opening tag. But the loop does
  not end when the first closing tag comes before the first opening one: each round copies the text
  between the two once more, and the request never returns.
\<close>

theorem reasoning_stripped:
  "(list_all (\<lambda>b. IndexOf (snd b) close_tag = None) blocks
      \<and> (unclosed = '''' \<or> (\<exists>c. unclosed = open_tag @ c \<and> IndexOf c close_tag = None))
      \<and> IndexOf (concat (map fst blocks) @ rest) open_tag = None
      \<and> IndexOf (concat (map fst blocks) @ rest) close_tag = None \<longrightarrow>
      stripMemThinking (concat (map (\<lambda>(t, r). t @ open_tag @ r @ close_tag) blocks) @ rest @ unclosed)
        = Some (TrimSpace (concat (map fst blocks) @ rest)))
   \<and> (stripMemThinking s = Some answer \<longrightarrow> IndexOf answer open_tag = None)
   \<and> (IndexOf s open_tag = Some i \<and> IndexOf s close_tag = Some j \<and> j < i \<longrightarrow> stripMemThinking s = None)"
  using strip_blocks [of blocks unclosed "''''" rest] stripped_clean [of s answer] strip_diverges [of s]
  by (auto simp: open_end_def with_reasoning_def stray_close_def)

lemma reasoning_stripped_witness:
  "stripMemThinking (''So '' @ open_tag @ ''two <b>dates'' @ close_tag @ ''May <8'' @ open_tag @ ''and'') = Some ''So May <8''
   \<and> stripMemThinking (''May 8'' @ close_tag @ '' or '' @ open_tag @ ''hm'') = None"
proof -
  have 1: "IndexOf ''two <b>dates'' close_tag = None" "IndexOf ''and'' close_tag = None"
    "IndexOf ''So May <8'' open_tag = None" "IndexOf ''So May <8'' close_tag = None"
    by code_simp+
  have 2: "IndexOf (''May 8'' @ close_tag @ '' or '' @ open_tag @ ''hm'') open_tag = Some 24"
    "IndexOf (''May 8'' @ close_tag @ '' or '' @ open_tag @ ''hm'') close_tag = Some 5"
    by code_simp+
  have "TrimSpace ''So May <8'' = ''So May <8''" by code_simp
  then show ?thesis
    using reasoning_stripped [of "[(''So '', ''two <b>dates'')]" "open_tag @ ''and''" "''May <8''"
        "''May 8'' @ close_tag @ '' or '' @ open_tag @ ''hm''" "''''" 24 5] 1 2 by auto
qed

end
