(* ===== verification/Embed_Pipeline.thy ===== *)
theory Embed_Pipeline
  imports Utf8 Store_Types "HOL-Library.AList"
begin

text \<open>
  \<open>internal/embed\<close>: the client of the embeddings service and the wrappers around it (metrics, the
  concurrency limit, batches, the caches, the document prefix), composed as \<open>buildEmbedder\<close> of
  \<open>cmd/memini/root.go\<close> does. The service is a function of the texts and of a state of its own;
  vectors are lists of reals, so the rounding to 32 bits is not modelled.
\<close>

section \<open>Embedders\<close>

datatype pipeline_error =
    EmbedDisabled
  | RequestFailed
  | WrongCount nat nat
  | IndexOutOfRange int
  | WrongDims int nat int
  | NotAcquired
  | Panicked

text \<open>
  A call answers an error or the vectors, and the state after it; \<open>None\<close> is a call that never
  returns. A panic of the Go runtime is an error of its own.
\<close>

type_synonym 's reply = "((pipeline_error + vec list) \<times> 's) option"
type_synonym 's embedding = "string list \<Rightarrow> 's \<Rightarrow> 's reply"

definition Disabled_Embed :: "'s embedding" where
  "Disabled_Embed texts s = Some (Inl EmbedDisabled, s)"

definition EmbedOne :: "'s embedding \<Rightarrow> string \<Rightarrow> 's \<Rightarrow> ((pipeline_error + vec) \<times> 's) option" where
  "EmbedOne inner t s =
     (case inner [t] s of
        None \<Rightarrow> None
      | Some (Inl e, s') \<Rightarrow> Some (Inl e, s')
      | Some (Inr vs, s') \<Rightarrow> Some (case vs of [] \<Rightarrow> Inl Panicked | v # _ \<Rightarrow> Inr v, s'))"

section \<open>The client\<close>

text \<open>The answer of the service: an index and a vector each; \<open>None\<close> when the request failed.\<close>

type_synonym 's service_post = "string list \<Rightarrow> 's \<Rightarrow> (int \<times> vec) list option \<times> 's"

fun place :: "int \<Rightarrow> (int \<times> vec) list \<Rightarrow> vec list \<Rightarrow> pipeline_error + vec list" where
  "place dimensions [] vecs = Inr vecs"
| "place dimensions ((i, v) # rest) vecs =
     (if int (length vecs) \<le> i then Inl (IndexOutOfRange i)
      else if int (length v) \<noteq> dimensions then Inl (WrongDims i (length v) dimensions)
      else if i < 0 then Inl Panicked
      else place dimensions rest (vecs[nat i := v]))"

definition OpenAI_Embed :: "int \<Rightarrow> 's service_post \<Rightarrow> 's embedding" where
  "OpenAI_Embed dimensions post texts s =
     (if texts = [] then Some (Inr [], s)
      else case post texts s of
             (None, s') \<Rightarrow> Some (Inl RequestFailed, s')
           | (Some replies, s') \<Rightarrow>
               Some (if length replies \<noteq> length texts then Inl (WrongCount (length texts) (length replies))
                     else place dimensions replies (replicate (length texts) []), s'))"

section \<open>Metrics\<close>

datatype metric_event = Observed string nat | Failed string

definition Instrumented_Embed :: "string \<Rightarrow> 's embedding \<Rightarrow> ('s \<times> metric_event list) embedding" where
  "Instrumented_Embed backend inner texts s =
     (if texts = [] then Some (Inr [], s)
      else case inner texts (fst s) of
             None \<Rightarrow> None
           | Some (Inl e, s') \<Rightarrow> Some (Inl e, (s', snd s @ [Failed backend]))
           | Some (Inr vs, s') \<Rightarrow> Some (Inr vs, (s', snd s @ [Observed backend (length texts)])))"

section \<open>Batches\<close>

record batch_limits =
  bMaxItems :: int
  bMaxChars :: int
  bMaxItemChars :: int

definition NewBatched :: "int \<Rightarrow> int \<Rightarrow> int \<Rightarrow> batch_limits" where
  "NewBatched items chars itemChars =
     \<lparr> bMaxItems = (if items \<le> 0 then 16 else items), bMaxChars = chars, bMaxItemChars = itemChars \<rparr>"

definition truncateRunes :: "string \<Rightarrow> int \<Rightarrow> string" where
  "truncateRunes t n =
     (if n \<le> 0 \<or> int (length t) \<le> n then t
      else if int (length (runes_of t)) \<le> n then t
      else string_of_runes (take (nat n) (runes_of t)))"

text \<open>The inner loop: one request, from the front of the texts; lengths are bytes.\<close>

fun gather :: "batch_limits \<Rightarrow> string list \<Rightarrow> string list \<Rightarrow> string list" where
  "gather b sub [] = sub"
| "gather b sub (t # ts) =
     (if bMaxItems b \<le> int (length sub) then sub
      else let x = truncateRunes t (bMaxItemChars b) in
        if sub \<noteq> [] \<and> 0 < bMaxChars b \<and> bMaxChars b < int (sum_list (map length sub) + length x) then sub
        else gather b (sub @ [x]) ts)"

text \<open>\<open>copy\<close> into the places of the request: what is missing stays nil.\<close>

definition copy_into :: "nat \<Rightarrow> vec list \<Rightarrow> vec list" where
  "copy_into n vecs = take n vecs @ replicate (n - length vecs) []"

partial_function (option) batched_loop ::
    "batch_limits \<Rightarrow> 's embedding \<Rightarrow> vec list \<Rightarrow> string list \<Rightarrow> 's \<Rightarrow> 's reply" where
  "batched_loop b inner out texts s =
     (if texts = [] then Some (Inr out, s)
      else case inner (gather b [] texts) s of
             None \<Rightarrow> None
           | Some (Inl e, s') \<Rightarrow> Some (Inl e, s')
           | Some (Inr vecs, s') \<Rightarrow>
               batched_loop b inner (out @ copy_into (length (gather b [] texts)) vecs)
                 (drop (length (gather b [] texts)) texts) s')"

definition Batched_Embed :: "batch_limits \<Rightarrow> 's embedding \<Rightarrow> 's embedding" where
  "Batched_Embed b inner texts s = batched_loop b inner [] texts s"

section \<open>The shared part of the caches\<close>

definition key :: "string \<Rightarrow> string" where
  "key t = sha256_hex t"

text \<open>A cache: what a lookup and an insertion do. A lookup may change the cache (its recency).\<close>

record 'c cache_ops =
  cacheGet :: "string \<Rightarrow> 'c \<Rightarrow> vec option \<times> 'c"
  cacheAdd :: "string \<Rightarrow> vec \<Rightarrow> 'c \<Rightarrow> 'c"

text \<open>The first loop: the vectors that are there, and the misses with their places.\<close>

fun scan_texts :: "'c cache_ops \<Rightarrow> nat \<Rightarrow> string list \<Rightarrow> vec list \<Rightarrow> (nat \<times> string) list \<Rightarrow> 'c
    \<Rightarrow> vec list \<times> (nat \<times> string) list \<times> 'c" where
  "scan_texts ops i [] out miss c = (out, miss, c)"
| "scan_texts ops i (t # ts) out miss c =
     (case cacheGet ops (key t) c of
        (Some v, c') \<Rightarrow> scan_texts ops (Suc i) ts (out[i := v]) miss c'
      | (None, c') \<Rightarrow> scan_texts ops (Suc i) ts out (miss @ [(i, t)]) c')"

text \<open>The second loop: the new vectors go to their places and into the cache.\<close>

fun fill_misses :: "'c cache_ops \<Rightarrow> (nat \<times> string) list \<Rightarrow> vec list \<Rightarrow> vec list \<Rightarrow> 'c
    \<Rightarrow> (pipeline_error + vec list) \<times> 'c" where
  "fill_misses ops miss [] out c = (Inr out, c)"
| "fill_misses ops [] (v # vs) out c = (Inl Panicked, c)"
| "fill_misses ops ((i, t) # miss) (v # vs) out c =
     fill_misses ops miss vs (out[i := v]) (cacheAdd ops (key t) v c)"

definition Cached_Embed :: "'c cache_ops \<Rightarrow> 's embedding \<Rightarrow> ('s \<times> 'c) embedding" where
  "Cached_Embed ops inner texts sc =
     (case scan_texts ops 0 texts (replicate (length texts) []) [] (snd sc) of
        (out, miss, c) \<Rightarrow>
          if miss = [] then Some (Inr out, (fst sc, c))
          else (case inner (map snd miss) (fst sc) of
                  None \<Rightarrow> None
                | Some (Inl e, s') \<Rightarrow> Some (Inl e, (s', c))
                | Some (Inr vecs, s') \<Rightarrow>
                    (case fill_misses ops miss vecs out c of (r, c') \<Rightarrow> Some (r, (s', c')))))"

section \<open>The cache on disk\<close>

text \<open>The file at the cache's path; writing it goes through a temporary file and a rename.\<close>

datatype cache_file = NoFile | CorruptFile | SavedFile "(string \<times> vec) list"

record disk_cache =
  dcCache :: "(string \<times> vec) list"
  dcDirty :: bool
  dcLastSaved :: nat
  dcFile :: cache_file

text \<open>Whether the steps of a save succeed.\<close>

record save_io =
  ioCreate :: bool
  ioEncode :: bool
  ioClose :: bool
  ioRename :: bool

abbreviation autosaveEvery :: nat where "autosaveEvery \<equiv> 500"

definition map_ops :: "(string \<times> vec) list cache_ops" where
  "map_ops = \<lparr> cacheGet = (\<lambda>k c. (map_of c k, c)), cacheAdd = AList.update \<rparr>"

definition NewDiskCache :: "cache_file \<Rightarrow> disk_cache" where
  "NewDiskCache file =
     \<lparr> dcCache = (case file of SavedFile c \<Rightarrow> c | _ \<Rightarrow> []), dcDirty = False, dcLastSaved = 0, dcFile = file \<rparr>"

text \<open>Whether the save went well, and the cache after it.\<close>

definition Save :: "save_io \<Rightarrow> disk_cache \<Rightarrow> bool \<times> disk_cache" where
  "Save io d =
     (if \<not> dcDirty d then (True, d)
      else if \<not> ioCreate io then (False, d)
      else if \<not> ioEncode io then (False, d)
      else if \<not> ioClose io then (False, d)
      else if \<not> ioRename io then (False, d)
      else (True, d\<lparr> dcFile := SavedFile (dcCache d), dcDirty := False, dcLastSaved := length (dcCache d) \<rparr>))"

definition Disk_Embed :: "save_io \<Rightarrow> 's embedding \<Rightarrow> ('s \<times> disk_cache) embedding" where
  "Disk_Embed io inner texts sd =
     (case scan_texts map_ops 0 texts (replicate (length texts) []) [] (dcCache (snd sd)) of
        (out, miss, c) \<Rightarrow>
          if miss = [] then Some (Inr out, sd)
          else (case inner (map snd miss) (fst sd) of
                  None \<Rightarrow> None
                | Some (Inl e, s') \<Rightarrow> Some (Inl e, (s', snd sd))
                | Some (Inr vecs, s') \<Rightarrow>
                    (case fill_misses map_ops miss vecs out c of
                       (Inl e, c') \<Rightarrow> Some (Inl e, (s', (snd sd)\<lparr> dcCache := c' \<rparr>))
                     | (Inr out', c') \<Rightarrow>
                         let d = (snd sd)\<lparr> dcCache := c', dcDirty := True \<rparr> in
                         Some (Inr out', (s',
                           if int autosaveEvery \<le> int (length c') - int (dcLastSaved d) then snd (Save io d) else d)))))"

section \<open>The document prefix and the limit\<close>

definition WithDocumentPrefix :: "string \<Rightarrow> 's embedding \<Rightarrow> bool \<Rightarrow> 's embedding" where
  "WithDocumentPrefix prefix inner query texts s =
     (if prefix = '''' then inner texts s
      else if query then inner texts s
      else inner (map (\<lambda>t. prefix @ t) texts) s)"

text \<open>
  One call through the limit: \<open>granted\<close> says whether the semaphore lets it in before its context
  ends. The calls that run at the same time are the step relation of \<open>Embed_Limited\<close>.
\<close>

definition Limited_Embed :: "int \<Rightarrow> ('s \<Rightarrow> bool) \<Rightarrow> 's embedding \<Rightarrow> 's embedding" where
  "Limited_Embed n granted inner texts s =
     (if n \<le> 0 then inner texts s
      else if granted s then inner texts s
      else Some (Inl NotAcquired, s))"

section \<open>The embedder of the server\<close>

record embedder_config =
  ecBaseURL :: string
  ecModel :: string
  ecDims :: int
  ecMaxConcurrency :: int
  ecMaxBatch :: int
  ecMaxBatchChars :: int
  ecMaxItemChars :: int
  ecDocPrefix :: string

datatype client_error = BaseURLRequired | ModelRequired | DimsNotPositive

definition NewOpenAI :: "embedder_config \<Rightarrow> 's service_post \<Rightarrow> client_error + 's embedding" where
  "NewOpenAI cfg post =
     (if ecBaseURL cfg = '''' then Inl BaseURLRequired
      else if ecModel cfg = '''' then Inl ModelRequired
      else if ecDims cfg \<le> 0 then Inl DimsNotPositive
      else Inr (OpenAI_Embed (ecDims cfg) post))"

text \<open>The LRU cache of \<open>hashicorp/golang-lru\<close> is the argument \<open>ops\<close>.\<close>

definition buildEmbedder ::
    "embedder_config \<Rightarrow> 'c cache_ops \<Rightarrow> 's service_post \<Rightarrow> ('s \<Rightarrow> bool)
      \<Rightarrow> client_error + (bool \<Rightarrow> ('s \<times> 'c) embedding)" where
  "buildEmbedder cfg ops post granted =
     (if ecBaseURL cfg = '''' then Inr (\<lambda>query. Disabled_Embed)
      else case NewOpenAI cfg post of
             Inl e \<Rightarrow> Inl e
           | Inr client \<Rightarrow>
               Inr (WithDocumentPrefix (ecDocPrefix cfg)
                 (Cached_Embed ops
                   (Batched_Embed (NewBatched (ecMaxBatch cfg) (ecMaxBatchChars cfg) (ecMaxItemChars cfg))
                     (Limited_Embed (ecMaxConcurrency cfg) granted client)))))"

text \<open>The calls of a run, each a query or not, with the results in their order.\<close>

fun embed_run :: "(bool \<Rightarrow> 's embedding) \<Rightarrow> (bool \<times> string list) list \<Rightarrow> 's
    \<Rightarrow> ((pipeline_error + vec list) list \<times> 's) option" where
  "embed_run e [] s = Some ([], s)"
| "embed_run e ((query, texts) # calls) s =
     (case e query texts s of
        None \<Rightarrow> None
      | Some (r, s') \<Rightarrow> (case embed_run e calls s' of None \<Rightarrow> None | Some (rs, s'') \<Rightarrow> Some (r # rs, s'')))"

end
