(* ===== verification/Embed_Sound.thy ===== *)
theory Embed_Sound
  imports Embed_Pipeline
begin

text \<open>
  The contract of an embedder, and that every part of \<open>Embed_Pipeline\<close> keeps it: a vector for each
  text, in the order of the texts, requests within the limits, no panic and no endless loop. The
  laws of a cache are the locale \<open>vector_cache\<close>; the map of the disk cache obeys them.
\<close>

section \<open>The contract\<close>

text \<open>
  Asked for texts within \<open>Q\<close>, in a state within \<open>I\<close>, the embedder returns, keeps \<open>I\<close>, does not
  panic, and a vector that it answers stands in the relation \<open>R\<close> to its text.
\<close>

definition answers ::
    "(string list \<Rightarrow> bool) \<Rightarrow> 's embedding \<Rightarrow> (string \<Rightarrow> vec \<Rightarrow> bool) \<Rightarrow> ('s \<Rightarrow> bool) \<Rightarrow> bool" where
  "answers Q e R I \<longleftrightarrow> (\<forall>texts s. Q texts \<longrightarrow> I s \<longrightarrow>
     (\<exists>r s'. e texts s = Some (r, s') \<and> I s' \<and> r \<noteq> Inl Panicked \<and> (\<forall>vs. r = Inr vs \<longrightarrow> list_all2 R texts vs)))"

lemma answersI:
  assumes "\<And>texts s. Q texts \<Longrightarrow> I s \<Longrightarrow>
    \<exists>r s'. e texts s = Some (r, s') \<and> I s' \<and> r \<noteq> Inl Panicked \<and> (\<forall>vs. r = Inr vs \<longrightarrow> list_all2 R texts vs)"
  shows "answers Q e R I"
  using assms by (simp add: answers_def)

lemma answersE:
  assumes "answers Q e R I" and "Q texts" and "I s"
  obtains (failed) err s' where "e texts s = Some (Inl err, s')" and "I s'" and "err \<noteq> Panicked"
    | (served) vs s' where "e texts s = Some (Inr vs, s')" and "I s'" and "list_all2 R texts vs"
proof -
  from assms obtain r s' where r: "e texts s = Some (r, s')" "I s'" "r \<noteq> Inl Panicked"
    "\<forall>vs. r = Inr vs \<longrightarrow> list_all2 R texts vs"
    unfolding answers_def by blast
  show thesis
  proof (cases r)
    case (Inl err)
    then show thesis using r failed by auto
  next
    case (Inr vs)
    then show thesis using r served by auto
  qed
qed

lemma answers_mono: "answers Q e R I \<Longrightarrow> (\<And>t v. R t v \<Longrightarrow> R' t v) \<Longrightarrow> answers Q e R' I"
  unfolding answers_def by (metis list_all2_mono)

lemma answers_stronger: "answers Q e R I \<Longrightarrow> (\<And>ts. Q' ts \<Longrightarrow> Q ts) \<Longrightarrow> answers Q' e R I"
  by (simp add: answers_def)

section \<open>The client\<close>

text \<open>What the service documents: an answer has one vector per text, each with its index.\<close>

definition service_ok :: "(string list \<Rightarrow> bool) \<Rightarrow> int \<Rightarrow> 's service_post \<Rightarrow> (string \<Rightarrow> vec) \<Rightarrow> ('s \<Rightarrow> bool) \<Rightarrow> bool" where
  "service_ok Q dimensions post f I \<longleftrightarrow> (\<forall>texts s. Q texts \<longrightarrow> I s \<longrightarrow> I (snd (post texts s))
     \<and> (\<forall>replies. fst (post texts s) = Some replies \<longrightarrow>
          mset replies = mset (map (\<lambda>i. (int i, f (texts ! i))) [0..<length texts]))
     \<and> (\<forall>t. int (length (f t)) = dimensions))"

lemma place_distinct:
  assumes "\<And>i v. (i, v) \<in> set replies \<Longrightarrow> 0 \<le> i \<and> i < int (length vecs) \<and> int (length v) = k"
    and "distinct (map fst replies)"
  shows "\<exists>out. place k replies vecs = Inr out \<and> length out = length vecs
    \<and> (\<forall>i v. (i, v) \<in> set replies \<longrightarrow> out ! nat i = v)
    \<and> (\<forall>j. int j \<notin> fst ` set replies \<longrightarrow> out ! j = vecs ! j)"
  using assms
proof (induction replies arbitrary: vecs)
  case (Cons p rest)
  obtain i v where p: "p = (i, v)" by fastforce
  have h: "0 \<le> i" "i < int (length vecs)" "int (length v) = k" using Cons.prems(1) [of i v] by (auto simp: p)
  let ?w = "vecs[nat i := v]"
  have prem: "\<And>a b. (a, b) \<in> set rest \<Longrightarrow> 0 \<le> a \<and> a < int (length ?w) \<and> int (length b) = k"
    "distinct (map fst rest)"
    using Cons.prems by auto
  obtain out where out: "place k rest ?w = Inr out" "length out = length vecs"
    "\<And>a b. (a, b) \<in> set rest \<Longrightarrow> out ! nat a = b" "\<And>j. int j \<notin> fst ` set rest \<Longrightarrow> out ! j = ?w ! j"
    using Cons.IH [OF prem] by auto
  have i: "i \<notin> fst ` set rest" using Cons.prems(2) by (auto simp: p)
  then have "out ! nat i = v" using out(4) [of "nat i"] h by simp
  moreover have "out ! j = vecs ! j" if "int j \<notin> fst ` set (p # rest)" for j
    using that out(4) [of j] h by (auto simp: p)
  ultimately show ?case using out h by (auto simp: p)
qed simp

lemma place_answers:
  assumes m: "mset replies = mset (map (\<lambda>i. (int i, f (texts ! i))) [0..<length texts])"
    and k: "\<And>t. int (length (f t)) = k"
  shows "place k replies (replicate (length texts) []) = Inr (map f texts)"
proof -
  let ?n = "length texts"
  have s: "set replies = (\<lambda>i. (int i, f (texts ! i))) ` {0..<?n}"
    using arg_cong [OF m, of set_mset] by simp
  have "mset (map fst replies) = mset (map int [0..<?n])"
    using arg_cong [OF m, of "image_mset fst"] by (simp add: image_mset.compositionality comp_def)
  then have d: "distinct (map fst replies)"
    by (metis distinct_upt distinct_map inj_on_of_nat mset_eq_imp_distinct_iff)
  have "\<exists>out. place k replies (replicate ?n []) = Inr out \<and> length out = length (replicate ?n ([]::vec))
    \<and> (\<forall>i v. (i, v) \<in> set replies \<longrightarrow> out ! nat i = v)
    \<and> (\<forall>j. int j \<notin> fst ` set replies \<longrightarrow> out ! j = replicate ?n [] ! j)"
    by (rule place_distinct [OF _ d]) (auto simp: s k)
  then obtain out where out: "place k replies (replicate ?n []) = Inr out" "length out = ?n"
    "\<And>i v. (i, v) \<in> set replies \<Longrightarrow> out ! nat i = v" by auto
  have "out ! i = f (texts ! i)" if "i < ?n" for i
    using out(3) [of "int i" "f (texts ! i)"] that by (auto simp: s)
  then have "out = map f texts" using out(2) by (simp add: list_eq_iff_nth_eq)
  with out(1) show ?thesis by simp
qed

lemma client_answers:
  assumes "service_ok Q k post f I"
  shows "answers Q (OpenAI_Embed k post) (\<lambda>t v. v = f t) I"
proof (rule answersI)
  fix texts s
  assume q: "Q texts" and i: "I s"
  obtain r s' where p: "post texts s = (r, s')" by fastforce
  have laws: "I s'" "\<And>replies. r = Some replies \<Longrightarrow>
      mset replies = mset (map (\<lambda>i. (int i, f (texts ! i))) [0..<length texts])" "\<And>t. int (length (f t)) = k"
    using assms q i by (auto simp: service_ok_def p dest!: spec [of _ texts] spec [of _ s])
  have "place k replies (replicate (length texts) []) = Inr (map f texts) \<and> length replies = length texts"
    if "r = Some replies" for replies
    using place_answers [OF laws(2) [OF that] laws(3)] mset_eq_length [OF laws(2) [OF that]] by simp
  then show "\<exists>r s'. OpenAI_Embed k post texts s = Some (r, s') \<and> I s' \<and> r \<noteq> Inl Panicked
      \<and> (\<forall>vs. r = Inr vs \<longrightarrow> list_all2 (\<lambda>t v. v = f t) texts vs)"
    using i laws(1) by (cases r) (auto simp: OpenAI_Embed_def p list_all2_map2 list.rel_refl)
qed

lemma limited_answers: "answers Q e R I \<Longrightarrow> answers Q (Limited_Embed n granted e) R I"
  unfolding answers_def Limited_Embed_def by auto

lemma prefixed_answers:
  assumes "answers (\<lambda>_. True) e R I"
  shows "answers (\<lambda>_. True) (WithDocumentPrefix prefix e query) (\<lambda>t v. R (if query then t else prefix @ t) v) I"
proof (rule answersI)
  fix texts s
  assume i: "I s"
  have h: "\<exists>r s'. e ts s = Some (r, s') \<and> I s' \<and> r \<noteq> Inl Panicked \<and> (\<forall>vs. r = Inr vs \<longrightarrow> list_all2 R ts vs)" for ts
    using assms i by (auto simp: answers_def)
  show "\<exists>r s'. WithDocumentPrefix prefix e query texts s = Some (r, s') \<and> I s' \<and> r \<noteq> Inl Panicked
      \<and> (\<forall>vs. r = Inr vs \<longrightarrow> list_all2 (\<lambda>t v. R (if query then t else prefix @ t) v) texts vs)"
    using h [of texts] h [of "map (\<lambda>t. prefix @ t) texts"]
    by (auto simp: WithDocumentPrefix_def list_all2_map1 cong: if_cong)
qed

section \<open>Batches\<close>

text \<open>A request within the limits; a single text may exceed the budget of a request on its own.\<close>

definition request_ok :: "batch_limits \<Rightarrow> string list \<Rightarrow> bool" where
  "request_ok b sub \<longleftrightarrow> sub \<noteq> [] \<and> int (length sub) \<le> bMaxItems b
     \<and> (0 < bMaxChars b \<longrightarrow> length sub = 1 \<or> int (sum_list (map length sub)) \<le> bMaxChars b)"

lemma gather_prefix:
  "\<exists>n \<le> length ts. gather b sub ts = sub @ map (\<lambda>t. truncateRunes t (bMaxItemChars b)) (take n ts)"
proof (induction b sub ts rule: gather.induct)
  case (2 b sub t ts)
  let ?x = "truncateRunes t (bMaxItemChars b)"
  show ?case
  proof (cases "bMaxItems b \<le> int (length sub)
      \<or> sub \<noteq> [] \<and> 0 < bMaxChars b \<and> bMaxChars b < int (sum_list (map length sub) + length ?x)")
    case True
    then show ?thesis by (intro exI [of _ 0]) (auto simp: Let_def)
  next
    case False
    then obtain n where "n \<le> length ts"
      "gather b (sub @ [?x]) ts = (sub @ [?x]) @ map (\<lambda>t. truncateRunes t (bMaxItemChars b)) (take n ts)"
      using "2.IH" by auto
    with False show ?thesis by (intro exI [of _ "Suc n"]) (auto simp: Let_def)
  qed
qed simp

lemma gather_ok:
  assumes "sub = [] \<or> request_ok b sub" and "gather b sub ts \<noteq> []"
  shows "request_ok b (gather b sub ts)"
  using assms
proof (induction b sub ts rule: gather.induct)
  case (2 b sub t ts)
  let ?x = "truncateRunes t (bMaxItemChars b)"
  show ?case
  proof (cases "bMaxItems b \<le> int (length sub)
      \<or> sub \<noteq> [] \<and> 0 < bMaxChars b \<and> bMaxChars b < int (sum_list (map length sub) + length ?x)")
    case True
    then have "gather b sub (t # ts) = sub" by (auto simp: Let_def)
    then show ?thesis using 2(2,3) by auto
  next
    case False
    then have g: "gather b sub (t # ts) = gather b (sub @ [?x]) ts" by (auto simp: Let_def)
    have "request_ok b (sub @ [?x])" using False by (auto simp: request_ok_def)
    then show ?thesis using "2.IH" False 2(3) unfolding g by auto
  qed
qed auto

lemma gather_some: "ts \<noteq> [] \<Longrightarrow> 0 < bMaxItems b \<Longrightarrow> gather b [] ts \<noteq> []"
proof (cases ts)
  case (Cons t ts')
  assume "0 < bMaxItems b"
  then have "gather b [] ts = gather b [truncateRunes t (bMaxItemChars b)] ts'" by (simp add: Cons Let_def)
  then show ?thesis using gather_prefix [of ts' b "[truncateRunes t (bMaxItemChars b)]"] by auto
qed simp

lemma copy_into_all: "length vs = n \<Longrightarrow> copy_into n vs = vs"
  by (simp add: copy_into_def)

lemma batched_loop_answers:
  assumes e: "answers (request_ok b) e R I" and b: "0 < bMaxItems b" and i: "I s"
    and out: "list_all2 (\<lambda>t v. R (truncateRunes t (bMaxItemChars b)) v) done_ts out"
  shows "\<exists>r s'. batched_loop b e out texts s = Some (r, s') \<and> I s' \<and> r \<noteq> Inl Panicked
    \<and> (\<forall>vs. r = Inr vs \<longrightarrow> list_all2 (\<lambda>t v. R (truncateRunes t (bMaxItemChars b)) v) (done_ts @ texts) vs)"
  using i out
proof (induction texts arbitrary: s out done_ts rule: length_induct)
  case (1 texts)
  let ?R = "\<lambda>t v. R (truncateRunes t (bMaxItemChars b)) v"
  show ?case
  proof (cases "texts = []")
    case True
    then show ?thesis using 1(2,3) by (simp add: batched_loop.simps)
  next
    case False
    let ?sub = "gather b [] texts"
    have ne: "?sub \<noteq> []" by (rule gather_some [OF False b])
    have q: "request_ok b ?sub" by (rule gather_ok) (use ne in auto)
    obtain n where n: "n \<le> length texts" "?sub = map (\<lambda>t. truncateRunes t (bMaxItemChars b)) (take n texts)"
      using gather_prefix [of texts b "[]"] by auto
    then have len: "length ?sub = n" "n \<noteq> 0" using ne by auto
    consider (failed) err s' where "e ?sub s = Some (Inl err, s')" "I s'" "err \<noteq> Panicked"
      | (served) vs s' where "e ?sub s = Some (Inr vs, s')" "I s'" "list_all2 R ?sub vs"
      using answersE [OF e q 1(2)] by metis
    then show ?thesis
    proof cases
      case (failed err s')
      then show ?thesis using False by (subst batched_loop.simps) simp
    next
      case (served vs s')
      then have c: "copy_into (length ?sub) vs = vs" by (simp add: copy_into_all list_all2_lengthD)
      have "list_all2 ?R (take n texts) vs" using served(3) unfolding n(2) by (simp add: list_all2_map1)
      then have o: "list_all2 ?R (done_ts @ take n texts) (out @ vs)" using 1(3) by (rule list_all2_appendI [rotated])
      have shorter: "length (drop n texts) < length texts" using len(2) False by (cases texts) auto
      from 1(1) [rule_format, OF shorter served(2) o]
      have "\<exists>r s''. batched_loop b e (out @ vs) (drop n texts) s' = Some (r, s'') \<and> I s'' \<and> r \<noteq> Inl Panicked
        \<and> (\<forall>vs. r = Inr vs \<longrightarrow> list_all2 ?R (done_ts @ texts) vs)" by simp
      then show ?thesis using False served(1) c len(1) by (subst batched_loop.simps) simp
    qed
  qed
qed

lemma batched_answers:
  assumes "answers (request_ok b) e R I" and "0 < bMaxItems b"
  shows "answers (\<lambda>_. True) (Batched_Embed b e) (\<lambda>t v. R (truncateRunes t (bMaxItemChars b)) v) I"
proof (rule answersI)
  fix texts s
  assume i: "I s"
  show "\<exists>r s'. Batched_Embed b e texts s = Some (r, s') \<and> I s' \<and> r \<noteq> Inl Panicked
      \<and> (\<forall>vs. r = Inr vs \<longrightarrow> list_all2 (\<lambda>t v. R (truncateRunes t (bMaxItemChars b)) v) texts vs)"
    using batched_loop_answers [OF assms i, of "[]" "[]" texts] by (simp add: Batched_Embed_def)
qed

lemma NewBatched_items: "0 < bMaxItems (NewBatched n c m)"
  by (simp add: NewBatched_def)

section \<open>The caches\<close>

text \<open>
  The laws of a cache: a lookup answers what the cache holds and adds nothing, an insertion adds
  its own entry and may evict others.
\<close>

locale vector_cache =
  fixes ops :: "'c cache_ops" and contents :: "'c \<Rightarrow> string \<Rightarrow> vec option"
  assumes get_value: "cacheGet ops k c = (r, c') \<Longrightarrow> r = contents c k"
    and get_keeps: "cacheGet ops k c = (r, c') \<Longrightarrow> contents c' \<subseteq>\<^sub>m contents c"
    and add_only: "contents (cacheAdd ops k v c) \<subseteq>\<^sub>m (contents c)(k \<mapsto> v)"
begin

text \<open>Every entry is a vector of a text with that key.\<close>

definition cache_sound :: "(string \<Rightarrow> vec \<Rightarrow> bool) \<Rightarrow> 'c \<Rightarrow> bool" where
  "cache_sound R c \<longleftrightarrow> (\<forall>k v. contents c k = Some v \<longrightarrow> (\<exists>t. key t = k \<and> R t v))"

lemma empty_sound: "contents c = Map.empty \<Longrightarrow> cache_sound R c"
  by (simp add: cache_sound_def)

lemma sound_sub: "contents c' \<subseteq>\<^sub>m contents c \<Longrightarrow> cache_sound R c \<Longrightarrow> cache_sound R c'"
  unfolding cache_sound_def map_le_def by (metis domI)

lemma add_sound:
  assumes "cache_sound R c" and "R t v"
  shows "cache_sound R (cacheAdd ops (key t) v c)"
  unfolding cache_sound_def
proof (intro allI impI)
  fix k w
  assume "contents (cacheAdd ops (key t) v c) k = Some w"
  then have "((contents c)(key t \<mapsto> v)) k = Some w" using add_only [of "key t" v c] unfolding map_le_def by (metis domI)
  then show "\<exists>t. key t = k \<and> R t w" using assms by (cases "k = key t") (auto simp: cache_sound_def)
qed

lemma scan_spec:
  assumes "scan_texts ops i ts out miss c = (out', miss', c')" and "cache_sound R c" and "i + length ts \<le> length out"
  shows "cache_sound R c' \<and> length out' = length out
    \<and> (\<exists>new. miss' = miss @ new \<and> distinct (map fst new)
        \<and> (\<forall>j t. (j, t) \<in> set new \<longrightarrow> i \<le> j \<and> j < i + length ts \<and> t = ts ! (j - i))
        \<and> (\<forall>j < length ts. (i + j, ts ! j) \<in> set new \<or> (\<exists>t'. key t' = key (ts ! j) \<and> R t' (out' ! (i + j)))))
    \<and> (\<forall>j < i. out' ! j = out ! j)"
  using assms
proof (induction ts arbitrary: i out miss c)
  case (Cons t ts)
  obtain v c1 where g: "cacheGet ops (key t) c = (v, c1)" by fastforce
  have s1: "cache_sound R c1" by (rule sound_sub [OF get_keeps [OF g] Cons.prems(2)])
  show ?case
  proof (cases v)
    case None
    have r: "scan_texts ops (Suc i) ts out (miss @ [(i, t)]) c1 = (out', miss', c')"
      using Cons.prems(1) by (simp add: g None)
    from Cons.IH [OF r s1] Cons.prems(3) obtain new where n: "cache_sound R c'" "length out' = length out"
      "miss' = (miss @ [(i, t)]) @ new" "distinct (map fst new)"
      "\<And>j t. (j, t) \<in> set new \<Longrightarrow> Suc i \<le> j \<and> j < Suc i + length ts \<and> t = ts ! (j - Suc i)"
      "\<And>j. j < length ts \<Longrightarrow> (Suc i + j, ts ! j) \<in> set new \<or> (\<exists>t'. key t' = key (ts ! j) \<and> R t' (out' ! (Suc i + j)))"
      "\<And>j. j < Suc i \<Longrightarrow> out' ! j = out ! j" by auto
    have "distinct (map fst ((i, t) # new))" using n(4,5) by fastforce
    moreover have "i \<le> j \<and> j < i + length (t # ts) \<and> u = (t # ts) ! (j - i)" if "(j, u) \<in> set ((i, t) # new)" for j u
      using that n(5) [of j u] by (auto simp: nth_Cons')
    moreover have "(i + j, (t # ts) ! j) \<in> set ((i, t) # new)
        \<or> (\<exists>t'. key t' = key ((t # ts) ! j) \<and> R t' (out' ! (i + j)))" if "j < length (t # ts)" for j
      using that n(6) [of "j - 1"] by (cases j) auto
    ultimately show ?thesis using n(1,2,3,7) by (intro conjI exI [of _ "(i, t) # new"]) auto
  next
    case (Some w)
    have w: "contents c (key t) = Some w" using get_value [OF g] Some by simp
    then obtain t' where t': "key t' = key t" "R t' w" using Cons.prems(2) by (auto simp: cache_sound_def)
    have r: "scan_texts ops (Suc i) ts (out[i := w]) miss c1 = (out', miss', c')"
      using Cons.prems(1) by (simp add: g Some)
    from Cons.IH [OF r s1] Cons.prems(3) obtain new where n: "cache_sound R c'" "length out' = length out"
      "miss' = miss @ new" "distinct (map fst new)"
      "\<And>j t. (j, t) \<in> set new \<Longrightarrow> Suc i \<le> j \<and> j < Suc i + length ts \<and> t = ts ! (j - Suc i)"
      "\<And>j. j < length ts \<Longrightarrow> (Suc i + j, ts ! j) \<in> set new \<or> (\<exists>t'. key t' = key (ts ! j) \<and> R t' (out' ! (Suc i + j)))"
      "\<And>j. j < Suc i \<Longrightarrow> out' ! j = out[i := w] ! j" by auto
    have "out' ! i = w" using n(7) [of i] Cons.prems(3) by simp
    then have "(i + j, (t # ts) ! j) \<in> set new
        \<or> (\<exists>t'. key t' = key ((t # ts) ! j) \<and> R t' (out' ! (i + j)))" if "j < length (t # ts)" for j
      using that n(6) [of "j - 1"] t' by (cases j) auto
    moreover have "i \<le> j \<and> j < i + length (t # ts) \<and> u = (t # ts) ! (j - i)" if "(j, u) \<in> set new" for j u
      using n(5) [OF that] by (auto simp: nth_Cons')
    ultimately show ?thesis using n(1,2,3,4,7) by (intro conjI exI [of _ new]) auto
  qed
qed auto

lemma fill_spec:
  assumes "list_all2 R (map snd miss) vs" and "distinct (map fst miss)"
    and "\<And>j t. (j, t) \<in> set miss \<Longrightarrow> j < length out" and "cache_sound R c"
  shows "\<exists>out' c'. fill_misses ops miss vs out c = (Inr out', c') \<and> length out' = length out \<and> cache_sound R c'
    \<and> (\<forall>j t. (j, t) \<in> set miss \<longrightarrow> R t (out' ! j)) \<and> (\<forall>j. j \<notin> fst ` set miss \<longrightarrow> out' ! j = out ! j)"
  using assms
proof (induction miss arbitrary: vs out c)
  case (Cons p miss)
  obtain j t where p: "p = (j, t)" by fastforce
  obtain v vs' where vs: "vs = v # vs'" "R t v" "list_all2 R (map snd miss) vs'"
    using Cons.prems(1) by (auto simp: p list_all2_Cons1)
  have j: "j < length out" "j \<notin> fst ` set miss" using Cons.prems(2,3) by (auto simp: p)
  have r: "i < length (out[j := v])" if "(i, u) \<in> set miss" for i u using Cons.prems(3) [of i u] that by simp
  have d: "distinct (map fst miss)" using Cons.prems(2) by simp
  obtain out' c' where o: "fill_misses ops miss vs' (out[j := v]) (cacheAdd ops (key t) v c) = (Inr out', c')"
    "length out' = length out" "cache_sound R c'" "\<And>i u. (i, u) \<in> set miss \<Longrightarrow> R u (out' ! i)"
    "\<And>i. i \<notin> fst ` set miss \<Longrightarrow> out' ! i = out[j := v] ! i"
    using Cons.IH [of vs' "out[j := v]" "cacheAdd ops (key t) v c"] vs(3) d r
      add_sound [of R c t v, OF Cons.prems(4) vs(2)] by auto
  have "out' ! j = v" using o(5) [OF j(2)] j(1) by simp
  then have "R u (out' ! i)" if "(i, u) \<in> set (p # miss)" for i u
    using that o(4) vs(2) by (auto simp: p)
  moreover have "out' ! i = out ! i" if "i \<notin> fst ` set (p # miss)" for i
    using that o(5) [of i] by (auto simp: p)
  ultimately show ?case using o(1,2,3) by (auto simp: p vs(1))
qed simp

text \<open>Both loops with the call between them, when the inner embedder answers every miss.\<close>

lemma misses_served:
  assumes scan: "scan_texts ops 0 texts (replicate (length texts) []) [] c = (out, miss, c1)"
    and c: "cache_sound R c" and vs: "list_all2 R (map snd miss) vs"
  shows "\<exists>out' c2. fill_misses ops miss vs out c1 = (Inr out', c2) \<and> cache_sound R c2
    \<and> list_all2 (\<lambda>t v. \<exists>t'. key t' = key t \<and> R t' v) texts out'"
proof -
  have s: "cache_sound R c1" "length out = length texts" "distinct (map fst miss)"
    "\<And>j t. (j, t) \<in> set miss \<Longrightarrow> j < length texts \<and> t = texts ! j"
    "\<And>j. j < length texts \<Longrightarrow> (j, texts ! j) \<in> set miss \<or> (\<exists>t'. key t' = key (texts ! j) \<and> R t' (out ! j))"
    using scan_spec [OF scan c] by auto
  obtain out' c2 where f: "fill_misses ops miss vs out c1 = (Inr out', c2)" "length out' = length out"
    "cache_sound R c2" "\<And>j t. (j, t) \<in> set miss \<Longrightarrow> R t (out' ! j)" "\<And>j. j \<notin> fst ` set miss \<Longrightarrow> out' ! j = out ! j"
    using fill_spec [OF vs s(3) _ s(1), of out] s(2,4) by auto
  have "\<exists>t'. key t' = key (texts ! j) \<and> R t' (out' ! j)" if j: "j < length texts" for j
  proof (cases "j \<in> fst ` set miss")
    case True
    then show ?thesis using s(4) f(4) by fastforce
  next
    case False
    then have "(j, texts ! j) \<notin> set miss" by force
    then show ?thesis using s(5) [OF j] f(5) [OF False] by simp
  qed
  with f s(2) show ?thesis by (auto simp: list_all2_conv_all_nth)
qed

lemma all_hits:
  assumes scan: "scan_texts ops 0 texts (replicate (length texts) []) [] c = (out, [], c1)" and c: "cache_sound R c"
  shows "cache_sound R c1 \<and> list_all2 (\<lambda>t v. \<exists>t'. key t' = key t \<and> R t' v) texts out"
  using scan_spec [OF scan c] by (auto simp: list_all2_conv_all_nth)

lemma scan_sound: "scan_texts ops 0 texts (replicate (length texts) []) [] c = (out, miss, c1) \<Longrightarrow> cache_sound R c
    \<Longrightarrow> cache_sound R c1"
  using scan_spec by fastforce

lemma cached_answers:
  assumes e: "answers (\<lambda>_. True) e R I"
  shows "answers (\<lambda>_. True) (Cached_Embed ops e) (\<lambda>t v. \<exists>t'. key t' = key t \<and> R t' v)
    (\<lambda>sc. I (fst sc) \<and> cache_sound R (snd sc))"
proof (rule answersI)
  fix texts sc
  assume i: "I (fst sc) \<and> cache_sound R (snd sc)"
  obtain s c where sc: "sc = (s, c)" by fastforce
  obtain out miss c1 where scan: "scan_texts ops 0 texts (replicate (length texts) []) [] c = (out, miss, c1)"
    using prod_cases3 by blast
  note c1 = scan_sound [OF scan, of R]
  show "\<exists>r s'. Cached_Embed ops e texts sc = Some (r, s') \<and> (I (fst s') \<and> cache_sound R (snd s'))
      \<and> r \<noteq> Inl Panicked \<and> (\<forall>vs. r = Inr vs \<longrightarrow> list_all2 (\<lambda>t v. \<exists>t'. key t' = key t \<and> R t' v) texts vs)"
  proof (cases "miss = []")
    case True
    then show ?thesis using all_hits [of texts c out c1 R] scan i by (simp add: Cached_Embed_def sc)
  next
    case False
    have "I s" using i by (simp add: sc)
    consider (failed) err s' where "e (map snd miss) s = Some (Inl err, s')" "I s'" "err \<noteq> Panicked"
      | (served) vs s' where "e (map snd miss) s = Some (Inr vs, s')" "I s'" "list_all2 R (map snd miss) vs"
      using answersE [OF e TrueI \<open>I s\<close>] by metis
    then show ?thesis
    proof cases
      case failed
      then show ?thesis using False scan c1 i by (simp add: Cached_Embed_def sc)
    next
      case served
      then show ?thesis using False scan misses_served [OF scan _ served(3)] i
        by (auto simp: Cached_Embed_def sc)
    qed
  qed
qed

end

interpretation disk: vector_cache map_ops map_of
  by unfold_locales (auto simp: map_ops_def update_conv map_le_def)

lemma disk_answers:
  assumes e: "answers (\<lambda>_. True) e R I"
  shows "answers (\<lambda>_. True) (Disk_Embed io e) (\<lambda>t v. \<exists>t'. key t' = key t \<and> R t' v)
    (\<lambda>sd. I (fst sd) \<and> disk.cache_sound R (dcCache (snd sd)))"
proof (rule answersI)
  fix texts and sd :: "_ \<times> disk_cache"
  assume i: "I (fst sd) \<and> disk.cache_sound R (dcCache (snd sd))"
  obtain s d where sd: "sd = (s, d)" by fastforce
  obtain out miss c1 where scan: "scan_texts map_ops 0 texts (replicate (length texts) []) [] (dcCache d) = (out, miss, c1)"
    using prod_cases3 by blast
  show "\<exists>r s'. Disk_Embed io e texts sd = Some (r, s') \<and> (I (fst s') \<and> disk.cache_sound R (dcCache (snd s')))
      \<and> r \<noteq> Inl Panicked \<and> (\<forall>vs. r = Inr vs \<longrightarrow> list_all2 (\<lambda>t v. \<exists>t'. key t' = key t \<and> R t' v) texts vs)"
  proof (cases "miss = []")
    case True
    then show ?thesis using disk.all_hits [of texts "dcCache d" out c1 R] scan i by (simp add: Disk_Embed_def sd)
  next
    case False
    have "I s" using i by (simp add: sd)
    consider (failed) err s' where "e (map snd miss) s = Some (Inl err, s')" "I s'" "err \<noteq> Panicked"
      | (served) vs s' where "e (map snd miss) s = Some (Inr vs, s')" "I s'" "list_all2 R (map snd miss) vs"
      using answersE [OF e TrueI \<open>I s\<close>] by metis
    then show ?thesis
    proof cases
      case failed
      then show ?thesis using False scan i by (simp add: Disk_Embed_def sd)
    next
      case served
      then show ?thesis using False scan disk.misses_served [OF scan _ served(3)] i
        by (auto simp: Disk_Embed_def sd Let_def Save_def)
    qed
  qed
qed

section \<open>What the map of the disk cache holds\<close>

lemma scan_map:
  assumes "scan_texts map_ops i ts out miss c = (out', miss', c')" and "i + length ts \<le> length out"
  shows "c' = c \<and> length out' = length out
    \<and> (\<exists>new. miss' = miss @ new \<and> distinct (map fst new)
        \<and> (\<forall>j t. (j, t) \<in> set new \<longrightarrow> i \<le> j \<and> j < i + length ts \<and> t = ts ! (j - i) \<and> map_of c (key t) = None)
        \<and> (\<forall>j < length ts. (i + j, ts ! j) \<in> set new \<or> map_of c (key (ts ! j)) = Some (out' ! (i + j))))
    \<and> (\<forall>j < i. out' ! j = out ! j)"
  using assms
proof (induction ts arbitrary: i out miss)
  case (Cons t ts)
  show ?case
  proof (cases "map_of c (key t)")
    case None
    have r: "scan_texts map_ops (Suc i) ts out (miss @ [(i, t)]) c = (out', miss', c')"
      using Cons.prems(1) by (simp add: map_ops_def None)
    from Cons.IH [OF r] Cons.prems(2) obtain new where n: "c' = c" "length out' = length out"
      "miss' = (miss @ [(i, t)]) @ new" "distinct (map fst new)"
      "\<And>j t. (j, t) \<in> set new \<Longrightarrow> Suc i \<le> j \<and> j < Suc i + length ts \<and> t = ts ! (j - Suc i) \<and> map_of c (key t) = None"
      "\<And>j. j < length ts \<Longrightarrow> (Suc i + j, ts ! j) \<in> set new \<or> map_of c (key (ts ! j)) = Some (out' ! (Suc i + j))"
      "\<And>j. j < Suc i \<Longrightarrow> out' ! j = out ! j" by auto
    have "distinct (map fst ((i, t) # new))" using n(4,5) by fastforce
    moreover have "i \<le> j \<and> j < i + length (t # ts) \<and> u = (t # ts) ! (j - i) \<and> map_of c (key u) = None"
      if "(j, u) \<in> set ((i, t) # new)" for j u
      using that n(5) [of j u] None by (auto simp: nth_Cons')
    moreover have "(i + j, (t # ts) ! j) \<in> set ((i, t) # new) \<or> map_of c (key ((t # ts) ! j)) = Some (out' ! (i + j))"
      if "j < length (t # ts)" for j
      using that n(6) [of "j - 1"] by (cases j) auto
    ultimately show ?thesis using n(1,2,3,7) by (intro conjI exI [of _ "(i, t) # new"]) auto
  next
    case (Some w)
    have r: "scan_texts map_ops (Suc i) ts (out[i := w]) miss c = (out', miss', c')"
      using Cons.prems(1) by (simp add: map_ops_def Some)
    from Cons.IH [OF r] Cons.prems(2) obtain new where n: "c' = c" "length out' = length out"
      "miss' = miss @ new" "distinct (map fst new)"
      "\<And>j t. (j, t) \<in> set new \<Longrightarrow> Suc i \<le> j \<and> j < Suc i + length ts \<and> t = ts ! (j - Suc i) \<and> map_of c (key t) = None"
      "\<And>j. j < length ts \<Longrightarrow> (Suc i + j, ts ! j) \<in> set new \<or> map_of c (key (ts ! j)) = Some (out' ! (Suc i + j))"
      "\<And>j. j < Suc i \<Longrightarrow> out' ! j = out[i := w] ! j" by auto
    have "out' ! i = w" using n(7) [of i] Cons.prems(2) by simp
    then have "(i + j, (t # ts) ! j) \<in> set new \<or> map_of c (key ((t # ts) ! j)) = Some (out' ! (i + j))"
      if "j < length (t # ts)" for j
      using that n(6) [of "j - 1"] Some by (cases j) auto
    moreover have "i \<le> j \<and> j < i + length (t # ts) \<and> u = (t # ts) ! (j - i) \<and> map_of c (key u) = None"
      if "(j, u) \<in> set new" for j u
      using n(5) [OF that] by (auto simp: nth_Cons')
    ultimately show ?thesis using n(1,2,3,4,7) by (intro conjI exI [of _ new]) auto
  qed
qed auto

lemma fill_map:
  assumes "fill_misses map_ops miss vs out c = (Inr out', c')" and "length vs = length miss"
    and "distinct (map fst miss)" and "\<And>j t. (j, t) \<in> set miss \<Longrightarrow> j < length out"
  shows "length out' = length out \<and> (\<forall>j. j \<notin> fst ` set miss \<longrightarrow> out' ! j = out ! j)
    \<and> (\<forall>k. k \<notin> key ` snd ` set miss \<longrightarrow> map_of c' k = map_of c k)
    \<and> (\<forall>j t. (j, t) \<in> set miss \<longrightarrow>
        (\<exists>j' t'. (j', t') \<in> set miss \<and> key t' = key t \<and> map_of c' (key t) = Some (out' ! j')))"
  using assms
proof (induction miss arbitrary: vs out c)
  case (Cons p miss)
  obtain j t where p: "p = (j, t)" by fastforce
  obtain v vs' where vs: "vs = v # vs'" "length vs' = length miss" using Cons.prems(2) by (cases vs) auto
  have j: "j < length out" "j \<notin> fst ` set miss" using Cons.prems(3,4) by (auto simp: p)
  have r: "fill_misses map_ops miss vs' (out[j := v]) (AList.update (key t) v c) = (Inr out', c')"
    using Cons.prems(1) by (simp add: p vs(1) map_ops_def)
  have d: "distinct (map fst miss)" "\<And>i u. (i, u) \<in> set miss \<Longrightarrow> i < length (out[j := v])"
    using Cons.prems(3,4) by auto
  note ih = Cons.IH [OF r vs(2) d]
  have o: "length out' = length out" "\<And>i. i \<notin> fst ` set miss \<Longrightarrow> out' ! i = out[j := v] ! i"
    "\<And>k. k \<notin> key ` snd ` set miss \<Longrightarrow> map_of c' k = map_of (AList.update (key t) v c) k"
    "\<And>i u. (i, u) \<in> set miss \<Longrightarrow> \<exists>i' u'. (i', u') \<in> set miss \<and> key u' = key u \<and> map_of c' (key u) = Some (out' ! i')"
    using ih by auto
  have head: "\<exists>i' u'. (i', u') \<in> set (p # miss) \<and> key u' = key t \<and> map_of c' (key t) = Some (out' ! i')"
  proof (cases "key t \<in> key ` snd ` set miss")
    case True
    then obtain i u where u: "(i, u) \<in> set miss" "key u = key t" by force
    then show ?thesis using o(4) [OF u(1)] by auto
  next
    case False
    have "map_of c' (key t) = Some (out' ! j)" using o(3) [OF False] o(2) [OF j(2)] j(1) by (simp add: update_conv')
    then show ?thesis by (auto simp: p)
  qed
  have "\<exists>i' u'. (i', u') \<in> set (p # miss) \<and> key u' = key u \<and> map_of c' (key u) = Some (out' ! i')"
    if "(i, u) \<in> set (p # miss)" for i u
    using that head o(4) [of i u] by (auto simp: p)
  moreover have "map_of c' k = map_of c k" if "k \<notin> key ` snd ` set (p # miss)" for k
    using that o(3) [of k] by (auto simp: p update_conv')
  moreover have "out' ! i = out ! i" if "i \<notin> fst ` set (p # miss)" for i
    using that o(2) [of i] by (auto simp: p)
  ultimately show ?case using o(1) by simp
qed simp

text \<open>After an answer the map holds a vector of the answer for every text.\<close>

definition holds_answer :: "(string \<times> vec) list \<Rightarrow> string list \<Rightarrow> vec list \<Rightarrow> bool" where
  "holds_answer c texts vs \<longleftrightarrow> (\<forall>j < length texts. \<exists>j' < length texts.
     key (texts ! j') = key (texts ! j) \<and> map_of c (key (texts ! j)) = Some (vs ! j'))"

lemma disk_embed_holds:
  assumes e: "Disk_Embed io inner texts (s, d) = Some (Inr vs, (s', d'))"
    and full: "\<And>ts s vs s'. inner ts s = Some (Inr vs, s') \<Longrightarrow> length vs = length ts"
  shows "length vs = length texts \<and> holds_answer (dcCache d') texts vs"
proof -
  obtain out miss c1 where scan: "scan_texts map_ops 0 texts (replicate (length texts) []) [] (dcCache d) = (out, miss, c1)"
    using prod_cases3 by blast
  have s: "c1 = dcCache d" "length out = length texts" "distinct (map fst miss)"
    "\<And>j t. (j, t) \<in> set miss \<Longrightarrow> j < length texts \<and> t = texts ! j \<and> map_of (dcCache d) (key t) = None"
    "\<And>j. j < length texts \<Longrightarrow> (j, texts ! j) \<in> set miss \<or> map_of (dcCache d) (key (texts ! j)) = Some (out ! j)"
    using scan_map [OF scan] by auto
  show ?thesis
  proof (cases "miss = []")
    case True
    then have "vs = out" "d' = d" using e scan by (auto simp: Disk_Embed_def)
    then show ?thesis using s(2,5) True by (auto simp: holds_answer_def)
  next
    case False
    obtain vecs where i: "inner (map snd miss) s = Some (Inr vecs, s')"
      using e scan False by (auto simp: Disk_Embed_def Let_def split: option.split_asm sum.split_asm prod.split_asm)
    obtain c2 where f: "fill_misses map_ops miss vecs out (dcCache d) = (Inr vs, c2)" and d': "dcCache d' = c2"
      using e scan False i s(1) by (auto simp: Disk_Embed_def Let_def Save_def split: sum.split_asm prod.split_asm if_split_asm)
    have o: "length vs = length out" "\<And>j. j \<notin> fst ` set miss \<Longrightarrow> vs ! j = out ! j"
      "\<And>k. k \<notin> key ` snd ` set miss \<Longrightarrow> map_of c2 k = map_of (dcCache d) k"
      "\<And>j t. (j, t) \<in> set miss \<Longrightarrow> \<exists>j' t'. (j', t') \<in> set miss \<and> key t' = key t \<and> map_of c2 (key t) = Some (vs ! j')"
      using fill_map [OF f _ s(3)] full [OF i] s(2,4) by auto
    have "\<exists>j' < length texts. key (texts ! j') = key (texts ! j) \<and> map_of c2 (key (texts ! j)) = Some (vs ! j')"
      if j: "j < length texts" for j
    proof (cases "(j, texts ! j) \<in> set miss")
      case True
      from o(4) [OF this] obtain j' t' where m: "(j', t') \<in> set miss" "key t' = key (texts ! j)"
        "map_of c2 (key (texts ! j)) = Some (vs ! j')" by blast
      then show ?thesis using s(4) [OF m(1)] by auto
    next
      case False
      then have h: "map_of (dcCache d) (key (texts ! j)) = Some (out ! j)" using s(5) [OF j] by simp
      have k: "key (texts ! j) \<notin> key ` snd ` set miss"
      proof
        assume "key (texts ! j) \<in> key ` snd ` set miss"
        then obtain i u where u: "(i, u) \<in> set miss" "key u = key (texts ! j)" by force
        show False using s(4) [OF u(1)] h u(2) by simp
      qed
      have "j \<notin> fst ` set miss" using False s(4) by force
      then show ?thesis using h o(2) o(3) [OF k] j by auto
    qed
    then show ?thesis using o(1) s(2) d' by (simp add: holds_answer_def)
  qed
qed

text \<open>A call whose texts are all there asks nobody.\<close>

lemma disk_embed_hits:
  assumes "\<And>t. t \<in> set us \<Longrightarrow> map_of (dcCache d) (key t) \<noteq> None"
  shows "Disk_Embed io inner us (x, d) = Some (Inr (map (\<lambda>t. the (map_of (dcCache d) (key t))) us), (x, d))"
proof -
  obtain out miss c1 where scan: "scan_texts map_ops 0 us (replicate (length us) []) [] (dcCache d) = (out, miss, c1)"
    using prod_cases3 by blast
  have s: "length out = length us"
    "\<And>j t. (j, t) \<in> set miss \<Longrightarrow> j < length us \<and> t = us ! j \<and> map_of (dcCache d) (key t) = None"
    "\<And>j. j < length us \<Longrightarrow> (j, us ! j) \<in> set miss \<or> map_of (dcCache d) (key (us ! j)) = Some (out ! j)"
    using scan_map [OF scan] by auto
  have m: "miss = []"
  proof (rule ccontr)
    assume "miss \<noteq> []"
    then obtain j t where "(j, t) \<in> set miss" by (cases miss) auto
    from s(2) [OF this] assms [of t] show False by auto
  qed
  have "out = map (\<lambda>t. the (map_of (dcCache d) (key t))) us"
  proof (rule nth_equalityI)
    fix j
    assume "j < length out"
    then show "out ! j = map (\<lambda>t. the (map_of (dcCache d) (key t))) us ! j" using s(3) [of j] s(1) by (simp add: m)
  qed (simp add: s(1))
  then show ?thesis using scan m by (simp add: Disk_Embed_def)
qed

text \<open>A cache that is not dirty agrees with its file.\<close>

definition disk_ok :: "disk_cache \<Rightarrow> bool" where
  "disk_ok d \<longleftrightarrow> dcDirty d \<or> dcCache d = dcCache (NewDiskCache (dcFile d))"

lemma NewDiskCache_ok: "disk_ok (NewDiskCache file)"
  by (simp add: disk_ok_def NewDiskCache_def)

lemma Disk_Embed_ok:
  assumes "Disk_Embed io inner texts (s, d) = Some (Inr vs, (s', d'))" and "disk_ok d"
  shows "disk_ok d'"
  using assms
  by (auto simp: Disk_Embed_def Save_def disk_ok_def NewDiskCache_def Let_def
      split: option.split_asm sum.split_asm prod.split_asm if_split_asm)

lemma Save_reload:
  assumes "Save io d = (True, d')" and "disk_ok d"
  shows "dcCache (NewDiskCache (dcFile d')) = dcCache d"
  using assms by (auto simp: Save_def disk_ok_def NewDiskCache_def split: if_split_asm)

end
