(* ===== verification/Embed_Limited.thy ===== *)
theory Embed_Limited
  imports Embed_Pipeline
begin

text \<open>
  The concurrency limit of \<open>internal/embed/limited.go\<close> as a step relation: calls that take the
  semaphore, count themselves, run, count themselves out and release, with every interleaving.
  The counter is atomic; the callback that receives its value is not, so it is a step of its own.
\<close>

section \<open>Calls, steps and runs\<close>

text \<open>
  Where a call is: before the semaphore; holding it; having added one to the counter, with the
  value it is about to report; running; having subtracted one, with the value to report; having
  reported; gone.
\<close>

datatype call_phase =
    Waiting
  | Acquired
  | CountedIn int
  | Running
  | CountedOut int
  | Leaving
  | Returned

text \<open>The weight that the semaphore has given out, the counter, and the last value reported.\<close>

record limited =
  lHeld :: nat
  lInFlight :: int
  lGauge :: int
  lPhase :: "nat \<Rightarrow> call_phase"

definition NewLimited :: limited where
  "NewLimited = \<lparr> lHeld = 0, lInFlight = 0, lGauge = 0, lPhase = (\<lambda>_. Waiting) \<rparr>"

text \<open>\<open>semaphore.Weighted\<close> gives out at most its size; \<open>cancelled\<close> is a context that ended first.\<close>

inductive limited_step :: "nat \<Rightarrow> limited \<Rightarrow> limited \<Rightarrow> bool" for n where
  acquire: "lPhase l i = Waiting \<Longrightarrow> lHeld l < n
    \<Longrightarrow> limited_step n l (l\<lparr> lHeld := lHeld l + 1, lPhase := (lPhase l)(i := Acquired) \<rparr>)"
| cancelled: "lPhase l i = Waiting \<Longrightarrow> limited_step n l (l\<lparr> lPhase := (lPhase l)(i := Returned) \<rparr>)"
| bump_in: "lPhase l i = Acquired
    \<Longrightarrow> limited_step n l (l\<lparr> lInFlight := lInFlight l + 1, lPhase := (lPhase l)(i := CountedIn (lInFlight l + 1)) \<rparr>)"
| report_in: "lPhase l i = CountedIn x
    \<Longrightarrow> limited_step n l (l\<lparr> lGauge := x, lPhase := (lPhase l)(i := Running) \<rparr>)"
| bump_out: "lPhase l i = Running
    \<Longrightarrow> limited_step n l (l\<lparr> lInFlight := lInFlight l - 1, lPhase := (lPhase l)(i := CountedOut (lInFlight l - 1)) \<rparr>)"
| report_out: "lPhase l i = CountedOut x
    \<Longrightarrow> limited_step n l (l\<lparr> lGauge := x, lPhase := (lPhase l)(i := Leaving) \<rparr>)"
| release: "lPhase l i = Leaving
    \<Longrightarrow> limited_step n l (l\<lparr> lHeld := lHeld l - 1, lPhase := (lPhase l)(i := Returned) \<rparr>)"

inductive_cases limited_stepE: "limited_step n l l'"

definition limited_reachable :: "nat \<Rightarrow> limited \<Rightarrow> bool" where
  "limited_reachable n l \<longleftrightarrow> (limited_step n)\<^sup>*\<^sup>* NewLimited l"

section \<open>The invariant\<close>

definition holds :: "call_phase \<Rightarrow> bool" where
  "holds p \<longleftrightarrow> p \<noteq> Waiting \<and> p \<noteq> Returned"

definition counted :: "call_phase \<Rightarrow> bool" where
  "counted p \<longleftrightarrow> p = Running \<or> (\<exists>x. p = CountedIn x)"

definition in_bounds :: "nat \<Rightarrow> call_phase \<Rightarrow> bool" where
  "in_bounds n p \<longleftrightarrow> (case p of CountedIn x \<Rightarrow> 0 \<le> x \<and> x \<le> int n | CountedOut x \<Rightarrow> 0 \<le> x \<and> x \<le> int n | _ \<Rightarrow> True)"

definition holding :: "(nat \<Rightarrow> call_phase) \<Rightarrow> nat set" where
  "holding f = {i. holds (f i)}"

definition counting :: "(nat \<Rightarrow> call_phase) \<Rightarrow> nat set" where
  "counting f = {i. counted (f i)}"

definition limited_inv :: "nat \<Rightarrow> limited \<Rightarrow> bool" where
  "limited_inv n l \<longleftrightarrow> finite (holding (lPhase l)) \<and> lHeld l = card (holding (lPhase l)) \<and> lHeld l \<le> n
     \<and> lInFlight l = int (card (counting (lPhase l)))
     \<and> 0 \<le> lGauge l \<and> lGauge l \<le> int n \<and> (\<forall>i. in_bounds n (lPhase l i))"

text \<open>What a change of one call does to the two sets.\<close>

lemma holding_upd: "holding (f(i := p)) = (if holds p then insert i (holding f) else holding f - {i})"
  by (auto simp: holding_def)

lemma counting_upd: "counting (f(i := p)) = (if counted p then insert i (counting f) else counting f - {i})"
  by (auto simp: counting_def)

lemma bounds_upd: "\<forall>j. in_bounds n (f j) \<Longrightarrow> in_bounds n p \<Longrightarrow> \<forall>j. in_bounds n ((f(i := p)) j)"
  by simp

lemma phase_classes [simp]:
  "\<not> holds Waiting" "holds Acquired" "holds (CountedIn x)" "holds Running" "holds (CountedOut x)" "holds Leaving"
  "\<not> holds Returned" "\<not> counted Waiting" "\<not> counted Acquired" "counted (CountedIn x)" "counted Running"
  "\<not> counted (CountedOut x)" "\<not> counted Leaving" "\<not> counted Returned"
  by (simp_all add: holds_def counted_def)

lemma mem_holding [simp]: "i \<in> holding f \<longleftrightarrow> holds (f i)"
  by (simp add: holding_def)

lemma mem_counting [simp]: "i \<in> counting f \<longleftrightarrow> counted (f i)"
  by (simp add: counting_def)

lemma counted_holds: "counted p \<Longrightarrow> holds p"
  by (cases p) simp_all

lemma counting_bounds:
  assumes h: "finite (holding f)" "card (holding f) \<le> n"
  shows "finite (counting f)" "card (counting f) \<le> n"
    "holds (f i) \<Longrightarrow> \<not> counted (f i) \<Longrightarrow> card (counting f) < n"
    "counted (f i) \<Longrightarrow> 0 < card (counting f)"
proof -
  have sub: "counting f \<subseteq> holding f" using counted_holds by (auto simp: holding_def counting_def)
  show fin: "finite (counting f)" using h(1) sub by (rule rev_finite_subset)
  show "card (counting f) \<le> n" using card_mono [OF h(1) sub] h(2) by simp
  show "card (counting f) < n" if "holds (f i)" "\<not> counted (f i)"
  proof -
    have "counting f \<noteq> holding f" using that mem_holding [of i f] mem_counting [of i f] by metis
    then have "card (counting f) < card (holding f)" using sub by (intro psubset_card_mono [OF h(1)]) blast
    then show ?thesis using h(2) by simp
  qed
  show "0 < card (counting f)" if "counted (f i)"
  proof -
    have "counting f \<noteq> {}" using that mem_counting [of i f] by blast
    then show ?thesis using fin by (simp add: card_gt_0_iff)
  qed
qed

lemma limited_inv_step:
  assumes inv: "limited_inv n l" and "limited_step n l l'"
  shows "limited_inv n l'"
proof -
  let ?f = "lPhase l"
  have i: "finite (holding ?f)" "lHeld l = card (holding ?f)" "card (holding ?f) \<le> n"
    "lInFlight l = int (card (counting ?f))" "0 \<le> lGauge l" "lGauge l \<le> int n" "\<forall>i. in_bounds n (?f i)"
    using inv by (auto simp: limited_inv_def)
  note c = counting_bounds [OF i(1,3)]
  note sets = holding_upd counting_upd insert_absorb card_insert_disjoint card_Diff_singleton
  have shape: "limited_inv n \<lparr> lHeld = h, lInFlight = x, lGauge = g, lPhase = ?f(k := p) \<rparr>"
    if "finite (holding (?f(k := p)))" "h = card (holding (?f(k := p)))" "h \<le> n"
      "x = int (card (counting (?f(k := p))))" "0 \<le> g" "g \<le> int n" "in_bounds n p" for h x g k p
    using that bounds_upd [OF i(7)] by (simp add: limited_inv_def del: fun_upd_apply)
  obtain h x g f where l: "l = \<lparr> lHeld = h, lInFlight = x, lGauge = g, lPhase = f \<rparr>" by (cases l)
  show ?thesis
    using assms(2)
  proof cases
    case (acquire k)
    show ?thesis using shape [of k Acquired "lHeld l + 1" "lInFlight l" "lGauge l"] i acquire(2,3)
      unfolding acquire(1) by (simp add: sets in_bounds_def l)
  next
    case (cancelled k)
    show ?thesis using shape [of k Returned "lHeld l" "lInFlight l" "lGauge l"] i cancelled(2)
      unfolding cancelled(1) by (simp add: sets in_bounds_def l)
  next
    case (bump_in k)
    have "card (counting ?f) < n" using c(3) [of k] bump_in(2) by simp
    then show ?thesis
      using shape [of k "CountedIn (lInFlight l + 1)" "lHeld l" "lInFlight l + 1" "lGauge l"] i c(1) bump_in(2)
      unfolding bump_in(1) by (simp add: sets in_bounds_def l add.commute)
  next
    case (report_in k y)
    have "in_bounds n (?f k)" using i(7) by blast
    then have y: "0 \<le> y" "y \<le> int n" by (simp_all add: report_in(2) in_bounds_def)
    show ?thesis using shape [of k Running "lHeld l" "lInFlight l" y] i y report_in(2)
      unfolding report_in(1) by (simp add: sets in_bounds_def l)
  next
    case (bump_out k)
    have "0 < card (counting ?f)" "card (counting ?f) \<le> n" using c(2) c(4) [of k] bump_out(2) by simp_all
    then show ?thesis
      using shape [of k "CountedOut (lInFlight l - 1)" "lHeld l" "lInFlight l - 1" "lGauge l"] i c(1) bump_out(2)
      unfolding bump_out(1) by (simp add: sets in_bounds_def l of_nat_diff)
  next
    case (report_out k y)
    have "in_bounds n (?f k)" using i(7) by blast
    then have y: "0 \<le> y" "y \<le> int n" by (simp_all add: report_out(2) in_bounds_def)
    show ?thesis using shape [of k Leaving "lHeld l" "lInFlight l" y] i y report_out(2)
      unfolding report_out(1) by (simp add: sets in_bounds_def l)
  next
    case (release k)
    show ?thesis using shape [of k Returned "lHeld l - 1" "lInFlight l" "lGauge l"] i release(2)
      unfolding release(1) by (simp add: sets in_bounds_def l)
  qed
qed

lemma limited_inv_reachable: "limited_reachable n l \<Longrightarrow> limited_inv n l"
  unfolding limited_reachable_def
proof (induction rule: rtranclp_induct)
  case base
  show ?case by (simp add: limited_inv_def NewLimited_def holding_def counting_def in_bounds_def)
next
  case (step l l')
  then show ?case using limited_inv_step by blast
qed

section \<open>Reports that overtake each other\<close>

text \<open>Two calls count themselves out, and the second reports first.\<close>

definition two_calls :: "nat \<Rightarrow> int \<Rightarrow> int \<Rightarrow> call_phase \<Rightarrow> call_phase \<Rightarrow> limited" where
  "two_calls h x g p q = \<lparr> lHeld = h, lInFlight = x, lGauge = g, lPhase = (\<lambda>_. Waiting)(0 := p, Suc 0 := q) \<rparr>"

lemma overtaking_run:
  assumes "2 \<le> n"
  shows "limited_reachable n (two_calls 0 0 1 Returned Returned)"
proof -
  have upd: "(\<lambda>_. Waiting)(0 := p, Suc 0 := q, 0 := p') = (\<lambda>_. Waiting)(0 := p', Suc 0 := q)" for p q p' by auto
  have s0: "limited_step n (two_calls 0 0 0 Waiting Waiting) (two_calls 1 0 0 Acquired Waiting)"
    using limited_step.acquire [of "two_calls 0 0 0 Waiting Waiting" "0" n] assms by (simp add: two_calls_def upd numeral_2_eq_2)
  have s1: "limited_step n (two_calls 1 0 0 Acquired Waiting) (two_calls 2 0 0 Acquired Acquired)"
    using limited_step.acquire [of "two_calls 1 0 0 Acquired Waiting" "Suc 0" n] assms by (simp add: two_calls_def upd numeral_2_eq_2)
  have s2: "limited_step n (two_calls 2 0 0 Acquired Acquired) (two_calls 2 1 0 (CountedIn 1) Acquired)"
    using limited_step.bump_in [of "two_calls 2 0 0 Acquired Acquired" "0" n] assms by (simp add: two_calls_def upd numeral_2_eq_2)
  have s3: "limited_step n (two_calls 2 1 0 (CountedIn 1) Acquired) (two_calls 2 1 1 Running Acquired)"
    using limited_step.report_in [of "two_calls 2 1 0 (CountedIn 1) Acquired" "0" _ n] assms by (simp add: two_calls_def upd numeral_2_eq_2)
  have s4: "limited_step n (two_calls 2 1 1 Running Acquired) (two_calls 2 2 1 Running (CountedIn 2))"
    using limited_step.bump_in [of "two_calls 2 1 1 Running Acquired" "Suc 0" n] assms by (simp add: two_calls_def upd numeral_2_eq_2)
  have s5: "limited_step n (two_calls 2 2 1 Running (CountedIn 2)) (two_calls 2 2 2 Running Running)"
    using limited_step.report_in [of "two_calls 2 2 1 Running (CountedIn 2)" "Suc 0" _ n] assms by (simp add: two_calls_def upd numeral_2_eq_2)
  have s6: "limited_step n (two_calls 2 2 2 Running Running) (two_calls 2 1 2 (CountedOut 1) Running)"
    using limited_step.bump_out [of "two_calls 2 2 2 Running Running" "0" n] assms by (simp add: two_calls_def upd numeral_2_eq_2)
  have s7: "limited_step n (two_calls 2 1 2 (CountedOut 1) Running) (two_calls 2 0 2 (CountedOut 1) (CountedOut 0))"
    using limited_step.bump_out [of "two_calls 2 1 2 (CountedOut 1) Running" "Suc 0" n] assms by (simp add: two_calls_def upd numeral_2_eq_2)
  have s8: "limited_step n (two_calls 2 0 2 (CountedOut 1) (CountedOut 0)) (two_calls 2 0 0 (CountedOut 1) Leaving)"
    using limited_step.report_out [of "two_calls 2 0 2 (CountedOut 1) (CountedOut 0)" "Suc 0" _ n] assms by (simp add: two_calls_def upd numeral_2_eq_2)
  have s9: "limited_step n (two_calls 2 0 0 (CountedOut 1) Leaving) (two_calls 2 0 1 Leaving Leaving)"
    using limited_step.report_out [of "two_calls 2 0 0 (CountedOut 1) Leaving" "0" _ n] assms by (simp add: two_calls_def upd numeral_2_eq_2)
  have s10: "limited_step n (two_calls 2 0 1 Leaving Leaving) (two_calls 1 0 1 Returned Leaving)"
    using limited_step.release [of "two_calls 2 0 1 Leaving Leaving" "0" n] assms by (simp add: two_calls_def upd numeral_2_eq_2)
  have s11: "limited_step n (two_calls 1 0 1 Returned Leaving) (two_calls 0 0 1 Returned Returned)"
    using limited_step.release [of "two_calls 1 0 1 Returned Leaving" "Suc 0" n] assms by (simp add: two_calls_def upd numeral_2_eq_2)
  have start: "NewLimited = two_calls 0 0 0 Waiting Waiting" by (simp add: NewLimited_def two_calls_def fun_upd_idem)
  show ?thesis
    unfolding limited_reachable_def start
    by (rule s0 s1 s2 s3 s4 s5 s6 s7 s8 s9 s10 s11 converse_rtranclp_into_rtranclp rtranclp.rtrancl_refl)+
qed

end
