(* ===== verification/Embed_Properties.thy ===== *)
theory Embed_Properties
  imports Embed_Sound Embed_Limited
begin

text \<open>The properties of the embedding pipeline.\<close>

section \<open>The pipeline\<close>

text \<open>The state of the pipeline that the lemmas keep: that of the service, and a sound cache.\<close>

lemma buildEmbedder_answers:
  assumes built: "buildEmbedder cfg ops post granted = Inr e" and on: "ecBaseURL cfg \<noteq> ''''"
    and service: "service_ok (request_ok (NewBatched (ecMaxBatch cfg) (ecMaxBatchChars cfg) (ecMaxItemChars cfg)))
        (ecDims cfg) post f I"
    and cache: "vector_cache ops contents"
  shows "answers (\<lambda>_. True) (e query)
    (\<lambda>t v. \<exists>t'. key t' = key (if query then t else ecDocPrefix cfg @ t) \<and> v = f (truncateRunes t' (ecMaxItemChars cfg)))
    (\<lambda>sc. I (fst sc) \<and> vector_cache.cache_sound contents (\<lambda>t v. v = f (truncateRunes t (ecMaxItemChars cfg))) (snd sc))"
proof -
  let ?b = "NewBatched (ecMaxBatch cfg) (ecMaxBatchChars cfg) (ecMaxItemChars cfg)"
  have e: "e = WithDocumentPrefix (ecDocPrefix cfg) (Cached_Embed ops
      (Batched_Embed ?b (Limited_Embed (ecMaxConcurrency cfg) granted (OpenAI_Embed (ecDims cfg) post))))"
    using built on by (auto simp: buildEmbedder_def NewOpenAI_def split: if_split_asm)
  have m: "bMaxItemChars ?b = ecMaxItemChars cfg" by (simp add: NewBatched_def)
  note batched = batched_answers [OF limited_answers [OF client_answers [OF service]] NewBatched_items, unfolded m]
  show ?thesis unfolding e
    by (rule prefixed_answers [OF vector_cache.cached_answers [OF cache batched]])
qed

lemma run_answers:
  assumes e: "\<And>query. answers (\<lambda>_. True) (e query) (R query) I" and "I s"
  shows "\<exists>rs s'. embed_run e calls s = Some (rs, s') \<and> I s' \<and> Inl Panicked \<notin> set rs
    \<and> list_all2 (\<lambda>(query, texts) r. \<forall>vs. r = Inr vs \<longrightarrow> list_all2 (R query) texts vs) calls rs"
  using assms(2)
proof (induction calls arbitrary: s)
  case (Cons c calls)
  obtain query texts where c: "c = (query, texts)" by fastforce
  obtain r s1 where r: "e query texts s = Some (r, s1)" "I s1" "r \<noteq> Inl Panicked"
    "\<forall>vs. r = Inr vs \<longrightarrow> list_all2 (R query) texts vs"
    using e [of query] Cons.prems unfolding answers_def by blast
  from Cons.IH [OF r(2)] obtain rs s' where "embed_run e calls s1 = Some (rs, s')" "I s'" "Inl Panicked \<notin> set rs"
    "list_all2 (\<lambda>(query, texts) r. \<forall>vs. r = Inr vs \<longrightarrow> list_all2 (R query) texts vs) calls rs" by blast
  then show ?case using r by (auto simp: c)
qed simp

text \<open>An answer of the pipeline: for each text the vector of the prefixed and truncated text, up to its key.\<close>

definition right_vectors :: "embedder_config \<Rightarrow> (string \<Rightarrow> vec) \<Rightarrow> bool \<times> string list \<Rightarrow> pipeline_error + vec list \<Rightarrow> bool" where
  "right_vectors cfg f call r \<longleftrightarrow>
     (case r of
        Inl err \<Rightarrow> err \<noteq> Panicked
      | Inr vs \<Rightarrow> list_all2 (\<lambda>t v. \<exists>t'. key t' = key (if fst call then t else ecDocPrefix cfg @ t)
                     \<and> v = f (truncateRunes t' (ecMaxItemChars cfg))) (snd call) vs)"

text \<open>
  C34: whatever calls came before, the server's embedder returns, does not panic, and an answer
  that is no error has one vector per text in the order of the texts: the service's vector of the
  document prefix (not for a query) and the text, cut to the length limit, or of a text with the
  same SHA-256. It relies on the service only for requests within the limits of items and
  characters, in whatever order the service lists its vectors, and on any cache that invents
  nothing; the start is an empty cache.
\<close>

theorem embedding_exact:
  assumes "buildEmbedder cfg ops post granted = Inr e" and "ecBaseURL cfg \<noteq> ''''"
    and "service_ok (request_ok (NewBatched (ecMaxBatch cfg) (ecMaxBatchChars cfg) (ecMaxItemChars cfg)))
        (ecDims cfg) post f I"
    and "vector_cache ops contents" and "I s" and "contents c = Map.empty"
  shows "\<exists>rs s'. embed_run e calls (s, c) = Some (rs, s') \<and> list_all2 (right_vectors cfg f) calls rs"
proof -
  let ?I = "\<lambda>sc. I (fst sc) \<and> vector_cache.cache_sound contents (\<lambda>t v. v = f (truncateRunes t (ecMaxItemChars cfg))) (snd sc)"
  let ?R = "\<lambda>query t v. \<exists>t'. key t' = key (if query then t else ecDocPrefix cfg @ t)
      \<and> v = f (truncateRunes t' (ecMaxItemChars cfg))"
  have i: "?I (s, c)" using vector_cache.empty_sound [OF assms(4,6)] assms(5) by simp
  have e: "answers (\<lambda>_. True) (e query) (?R query) ?I" for query
    by (rule buildEmbedder_answers [OF assms(1-4)])
  obtain rs s' where rs: "embed_run e calls (s, c) = Some (rs, s')" "Inl Panicked \<notin> set rs"
    "list_all2 (\<lambda>(query, texts) r. \<forall>vs. r = Inr vs \<longrightarrow> list_all2 (?R query) texts vs) calls rs"
    using run_answers [where R = ?R and I = ?I, OF e i] by blast
  have "list_all2 (right_vectors cfg f) calls rs"
    using rs(3)
  proof (rule list.rel_mono_strong)
    fix c r
    assume "r \<in> set rs"
      and h: "(\<lambda>(query, texts) r. \<forall>vs. r = Inr vs \<longrightarrow> list_all2 (?R query) texts vs) c r"
    then have "r \<noteq> Inl Panicked" using rs(2) by auto
    then show "right_vectors cfg f c r" using h by (cases r) (auto simp: right_vectors_def split: prod.split_asm)
  qed
  with rs(1) show ?thesis by blast
qed

section \<open>The disk cache\<close>

text \<open>The vector \<open>w\<close> is what a call answered for a text with the key of \<open>u\<close>.\<close>

definition earlier_answer :: "string list \<Rightarrow> vec list \<Rightarrow> string \<Rightarrow> vec \<Rightarrow> bool" where
  "earlier_answer texts vs u w \<longleftrightarrow> (\<exists>j < length texts. key (texts ! j) = key u \<and> w = vs ! j)"

text \<open>
  C35: what the disk cache has answered survives a save and a restart: the new process answers
  each of those texts, in any selection and order, with a vector that the old one answered for a
  text of the same key, without asking its own embedder and without a change of its cache.
\<close>

theorem disk_cache_roundtrip:
  assumes "Disk_Embed io inner texts (s, d) = Some (Inr vs, (s', d1))"
    and "\<And>ts s vs s'. inner ts s = Some (Inr vs, s') \<Longrightarrow> length vs = length ts"
    and "disk_ok d" and "Save io' d1 = (True, d2)" and "set us \<subseteq> set texts"
  shows "\<exists>ws. Disk_Embed io'' inner' us (x, NewDiskCache (dcFile d2)) = Some (Inr ws, (x, NewDiskCache (dcFile d2)))
    \<and> list_all2 (earlier_answer texts vs) us ws"
proof -
  let ?d = "NewDiskCache (dcFile d2)"
  have c: "dcCache ?d = dcCache d1" by (rule Save_reload [OF assms(4) Disk_Embed_ok [OF assms(1,3)]])
  have "holds_answer (dcCache d1) texts vs" using disk_embed_holds [OF assms(1,2)] by simp
  then have h: "\<exists>j < length texts. key (texts ! j) = key u \<and> map_of (dcCache ?d) (key u) = Some (vs ! j)"
    if "u \<in> set us" for u
    using that assms(5) unfolding c holds_answer_def by (metis in_set_conv_nth subsetD)
  have "map_of (dcCache ?d) (key u) \<noteq> None" if "u \<in> set us" for u using h [OF that] by auto
  from disk_embed_hits [where d = ?d, OF this]
  have "Disk_Embed io'' inner' us (x, ?d) = Some (Inr (map (\<lambda>t. the (map_of (dcCache ?d) (key t))) us), (x, ?d))" .
  moreover have "list_all2 (earlier_answer texts vs) us
      (map (\<lambda>t. the (map_of (dcCache ?d) (key t))) us)"
    unfolding list_all2_conv_all_nth earlier_answer_def using h by (auto dest!: nth_mem) (metis option.sel)
  ultimately show ?thesis by blast
qed

text \<open>A cache that was loaded with many entries is written again at its first new vector.\<close>

lemma reload_autosaves:
  assumes "500 \<le> length c" and "Disk_Embed io inner texts (s, NewDiskCache (SavedFile c)) = Some (Inr vs, (s', d'))"
    and "dcCache d' \<noteq> c" and "ioCreate io" "ioEncode io" "ioClose io" "ioRename io"
  shows "dcFile d' = SavedFile (dcCache d')"
proof -
  have mono: "length a \<le> length a'" if "fill_misses map_ops miss ws out a = (r, a')" for miss ws out a r and a' :: "(string \<times> vec) list"
    using that
  proof (induction miss arbitrary: ws out a)
    case Nil
    then show ?case by (cases ws) auto
  next
    case (Cons p miss)
    have u: "length a \<le> length (AList.update k v a)" for k v and a :: "(string \<times> vec) list"
      by (induction a) auto
    show ?case
    proof (cases ws)
      case Nil
      then show ?thesis using Cons.prems by simp
    next
      case (Cons v ws')
      obtain j t where p: "p = (j, t)" by fastforce
      have "fill_misses map_ops miss ws' (out[j := v]) (AList.update (key t) v a) = (r, a')"
        using Cons.prems by (simp add: p Cons map_ops_def)
      from Cons.IH [OF this] u [of a "key t" v] show ?thesis by linarith
    qed
  qed
  obtain out miss c1 where scan: "scan_texts map_ops 0 texts (replicate (length texts) []) [] c = (out, miss, c1)"
    using prod_cases3 by blast
  have "c1 = c" using scan_map [OF scan] by simp
  then show ?thesis using assms scan
    by (auto simp: Disk_Embed_def NewDiskCache_def Save_def Let_def dest!: mono
        split: option.split_asm sum.split_asm prod.split_asm if_split_asm)
qed

section \<open>A malformed answer\<close>

text \<open>
  C0: an answer of the service with the right number of vectors, of the right width and with
  indices in range, in which an index occurs twice, is accepted without an error, and some text
  is left without a vector (nil).
\<close>

theorem repeated_index_nil_vector:
  assumes "post texts s = (Some replies, s')" and "length replies = length texts"
    and "\<And>i v. (i, v) \<in> set replies \<Longrightarrow> 0 \<le> i \<and> i < int (length texts) \<and> int (length v) = k"
    and "\<not> distinct (map fst replies)"
  shows "\<exists>vs j. OpenAI_Embed k post texts s = Some (Inr vs, s') \<and> length vs = length texts \<and> j < length texts \<and> vs ! j = []"
proof -
  have placed: "\<exists>out. place k rs vecs = Inr out \<and> length out = length vecs
      \<and> (\<forall>j. int j \<notin> fst ` set rs \<longrightarrow> out ! j = vecs ! j)"
    if "\<And>i v. (i, v) \<in> set rs \<Longrightarrow> 0 \<le> i \<and> i < int (length vecs) \<and> int (length v) = k" for rs vecs
    using that
  proof (induction rs arbitrary: vecs)
    case (Cons p rs)
    obtain i v where p: "p = (i, v)" by fastforce
    have h: "0 \<le> i" "i < int (length vecs)" "int (length v) = k" using Cons.prems [of i v] by (auto simp: p)
    have "0 \<le> a \<and> a < int (length (vecs[nat i := v])) \<and> int (length b) = k" if "(a, b) \<in> set rs" for a b
      using Cons.prems [of a b] that by simp
    from Cons.IH [OF this] obtain out where o: "place k rs (vecs[nat i := v]) = Inr out" "length out = length vecs"
      "\<forall>j. int j \<notin> fst ` set rs \<longrightarrow> out ! j = vecs[nat i := v] ! j" by auto
    have "out ! j = vecs ! j" if "int j \<notin> fst ` set (p # rs)" for j using that o(3) h by (auto simp: p)
    then show ?case using o h by (auto simp: p)
  qed simp
  obtain out where o: "place k replies (replicate (length texts) []) = Inr out" "length out = length texts"
    "\<And>j. int j \<notin> fst ` set replies \<Longrightarrow> out ! j = replicate (length texts) [] ! j"
    using placed [of replies "replicate (length texts) []"] assms(3) by auto
  have "card (fst ` set replies) < length (map fst replies)"
    using assms(4) card_distinct [of "map fst replies"] card_length [of "map fst replies"] by fastforce
  then have "card (fst ` set replies) < card (int ` {..<length texts})" by (simp add: card_image assms(2))
  then have "\<not> int ` {..<length texts} \<subseteq> fst ` set replies" by (meson List.finite_set card_mono finite_imageI not_le)
  then obtain j where j: "j < length texts" "int j \<notin> fst ` set replies" by auto
  have "texts \<noteq> []" using j by auto
  then have "OpenAI_Embed k post texts s = Some (Inr out, s')" by (simp add: OpenAI_Embed_def assms(1,2) o(1))
  then show ?thesis using o(2) o(3) [OF j(2)] j(1) by auto
qed

section \<open>The concurrency limit\<close>

text \<open>
  C36: in every reachable state, for every interleaving of the calls, at most the configured number
  of calls is inside the wrapped embedder, the counter is the number of the calls that have counted
  themselves in and not out, and it and every reported value stay between zero and the limit.
\<close>

theorem in_flight_bounded:
  assumes "limited_reachable n l"
  shows "card {i. lPhase l i = Running} \<le> n \<and> lHeld l \<le> n
    \<and> lInFlight l = int (card {i. counted (lPhase l i)}) \<and> lInFlight l \<le> int n
    \<and> 0 \<le> lGauge l \<and> lGauge l \<le> int n"
proof -
  have inv: "limited_inv n l" by (rule limited_inv_reachable [OF assms])
  then have h: "finite (holding (lPhase l))" "card (holding (lPhase l)) \<le> n" by (auto simp: limited_inv_def)
  have "{i. lPhase l i = Running} \<subseteq> counting (lPhase l)" by (auto simp: counting_def counted_def)
  then have "card {i. lPhase l i = Running} \<le> n"
    using card_mono counting_bounds(1,2) [OF h] by (meson le_trans)
  then show ?thesis using inv counting_bounds(2) [OF h] by (auto simp: limited_inv_def counting_def)
qed

text \<open>No call is under way.\<close>

definition idle :: "limited \<Rightarrow> bool" where
  "idle l \<longleftrightarrow> lHeld l = 0 \<and> lInFlight l = 0 \<and> (\<forall>i. \<not> holds (lPhase l i))"

text \<open>
  C37: with a limit of two or more the reported gauge can be left at one with no call under way:
  the two callbacks of the last two calls may run in the other order than their decrements.
\<close>

theorem gauge_can_stick:
  assumes "2 \<le> n"
  shows "\<exists>l. limited_reachable n l \<and> idle l \<and> lGauge l = 1"
proof -
  show ?thesis
    using overtaking_run [OF assms] by (auto simp: idle_def two_calls_def intro!: exI [of _ "two_calls 0 0 1 Returned Returned"] split: if_split_asm)
qed

section \<open>Witnesses\<close>

text \<open>A cache of the last \<open>n\<close> entries, a service that lists its vectors backwards, a configuration.\<close>

definition recent_ops :: "nat \<Rightarrow> (string \<times> vec) list cache_ops" where
  "recent_ops n = \<lparr>
     cacheGet = (\<lambda>k c. case map_of c k of None \<Rightarrow> (None, c) | Some v \<Rightarrow> (Some v, (k, v) # AList.delete k c)),
     cacheAdd = (\<lambda>k v c. take n ((k, v) # AList.delete k c)) \<rparr>"

lemma map_of_take: "map_of (take n xs) \<subseteq>\<^sub>m map_of xs"
  by (metis append_take_drop_id map_le_map_add map_of_append)

interpretation recent: vector_cache "recent_ops n" map_of for n
proof unfold_locales
  fix k c r c'
  assume g: "cacheGet (recent_ops n) k c = (r, c')"
  show "r = map_of c k" using g by (auto simp: recent_ops_def split: option.split_asm)
  show "map_of c' \<subseteq>\<^sub>m map_of c"
    using g by (auto simp: recent_ops_def delete_conv' map_le_def split: option.split_asm)
next
  fix k v and c :: "(string \<times> vec) list"
  have eq: "cacheAdd (recent_ops n) k v c = take n ((k, v) # AList.delete k c)" by (simp add: recent_ops_def)
  have m: "map_of ((k, v) # AList.delete k c) = (map_of c)(k \<mapsto> v)" by (simp add: delete_conv' fun_eq_iff)
  show "map_of (cacheAdd (recent_ops n) k v c) \<subseteq>\<^sub>m (map_of c)(k \<mapsto> v)"
    unfolding eq m [symmetric] by (rule map_of_take)
qed

definition backwards_post :: "nat service_post" where
  "backwards_post texts s = (Some (rev (map (\<lambda>i. (int i, [real (length (texts ! i))])) [0..<length texts])), s + 1)"

definition small_config :: embedder_config where
  "small_config = \<lparr> ecBaseURL = ''http://localhost'', ecModel = ''m'', ecDims = 1, ecMaxConcurrency = 2, ecMaxBatch = 2,
     ecMaxBatchChars = 10, ecMaxItemChars = 0, ecDocPrefix = ''doc: '' \<rparr>"

definition small_embedder :: "bool \<Rightarrow> (nat \<times> (string \<times> vec) list) embedding" where
  "small_embedder = projr (buildEmbedder small_config (recent_ops 2) backwards_post (\<lambda>_. True))"

theorem embedding_exact_witness:
  "\<exists>rs s'. embed_run small_embedder [(False, [''a'', ''bb'', ''a'']), (True, [''a'']), (False, [''bb''])] (0, []) = Some (rs, s')
    \<and> list_all2 (right_vectors small_config (\<lambda>t. [real (length t)]))
        [(False, [''a'', ''bb'', ''a'']), (True, [''a'']), (False, [''bb''])] rs"
proof (rule embedding_exact [where ops = "recent_ops 2" and I = "\<lambda>_. True" and contents = map_of])
  show "buildEmbedder small_config (recent_ops 2) backwards_post (\<lambda>_. True) = Inr small_embedder"
    by (simp add: small_embedder_def buildEmbedder_def NewOpenAI_def small_config_def)
  show "service_ok (request_ok (NewBatched (ecMaxBatch small_config) (ecMaxBatchChars small_config) (ecMaxItemChars small_config)))
      (ecDims small_config) backwards_post (\<lambda>t. [real (length t)]) (\<lambda>_. True)"
    by (simp add: service_ok_def backwards_post_def small_config_def)
qed (simp_all add: small_config_def recent.vector_cache_axioms)

definition ok_io :: save_io where
  "ok_io = \<lparr> ioCreate = True, ioEncode = True, ioClose = True, ioRename = True \<rparr>"

definition unit_vectors :: "unit embedding" where
  "unit_vectors texts s = Some (Inr (map (\<lambda>_. [1]) texts), s)"

theorem disk_cache_roundtrip_witness:
  "\<exists>ws. Disk_Embed ok_io Disabled_Embed [''a'', ''a''] ((), NewDiskCache (SavedFile [(key ''a'', [1])]))
      = Some (Inr ws, ((), NewDiskCache (SavedFile [(key ''a'', [1])])))
    \<and> list_all2 (earlier_answer [''a''] [[1]]) [''a'', ''a''] ws"
proof -
  let ?d1 = "\<lparr> dcCache = [(key ''a'', [1])], dcDirty = True, dcLastSaved = 0, dcFile = NoFile \<rparr>"
  let ?d2 = "\<lparr> dcCache = [(key ''a'', [1])], dcDirty = False, dcLastSaved = 1, dcFile = SavedFile [(key ''a'', [1])] \<rparr>"
  have e: "Disk_Embed ok_io unit_vectors [''a''] ((), NewDiskCache NoFile) = Some (Inr [[1]], ((), ?d1))"
    by (simp add: Disk_Embed_def NewDiskCache_def map_ops_def unit_vectors_def)
  have s: "Save ok_io ?d1 = (True, ?d2)" by (simp add: Save_def ok_io_def)
  have f: "\<And>ts s vs s'. unit_vectors ts s = Some (Inr vs, s') \<Longrightarrow> length vs = length ts"
    by (auto simp: unit_vectors_def)
  show ?thesis
    using disk_cache_roundtrip [where us = "[''a'', ''a'']" and io'' = ok_io and inner' = Disabled_Embed and x = "()",
        OF e f NewDiskCache_ok s] by simp
qed

theorem repeated_index_nil_vector_witness:
  "\<exists>vs j. OpenAI_Embed 1 (\<lambda>texts s. (Some [(0, [1]), (0, [2])], s)) [''a'', ''b''] () = Some (Inr vs, ())
    \<and> length vs = 2 \<and> j < 2 \<and> vs ! j = []"
proof -
  have "\<exists>vs j. OpenAI_Embed 1 (\<lambda>texts s. (Some [(0, [1]), (0, [2])], s)) [''a'', ''b''] () = Some (Inr vs, ())
      \<and> length vs = length [''a'', ''b''] \<and> j < length [''a'', ''b''] \<and> vs ! j = []"
    by (rule repeated_index_nil_vector) auto
  then show ?thesis by (simp add: numeral_2_eq_2)
qed

theorem in_flight_bounded_witness:
  "card {i. lPhase (two_calls 0 0 1 Returned Returned) i = Running} \<le> 2
    \<and> lGauge (two_calls 0 0 1 Returned Returned) \<le> 2"
  using in_flight_bounded [OF overtaking_run [OF order_refl]] by simp

theorem gauge_can_stick_witness: "\<exists>l. limited_reachable 2 l \<and> idle l \<and> lGauge l = 1"
  by (rule gauge_can_stick [OF order_refl])

end
