(* ===== verification/Backfill.thy ===== *)
theory Backfill
  imports Repair_Worker Chunking
begin

text \<open>
  The backfills of \<open>internal/service\<close>: \<open>chunk_backfill.go\<close>, which splits and embeds the long
  memories without chunks, and \<open>embed_backfill.go\<close>, which embeds the memories stored without a
  vector when the store has no repair queue. Other workers may change the database while a text
  is embedded: \<open>others\<close> says how, for each memory that is examined.
\<close>

section \<open>Chunks\<close>

abbreviation chunkBackfillBatch :: nat where "chunkBackfillBatch \<equiv> 25"
abbreviation chunkBackfillScanCap :: nat where "chunkBackfillScanCap \<equiv> 20 * chunkBackfillBatch"

record chunk_worker =
  cwOn :: bool
  cwConfig :: ChunkConfig
  cwEmbed :: "string list \<Rightarrow> embed_error + vec list"

datatype chunk_error = ChunkEmbedFailed embed_error | ErrChunkVecCount

text \<open>The segments that are not blank, with their places.\<close>

definition kept_segments :: "string list \<Rightarrow> (nat \<times> string) list" where
  "kept_segments texts = filter (\<lambda>p. \<not> IsWhitespaceOnly (snd p)) (zip [0..<length texts] texts)"

definition embedChunks :: "(string list \<Rightarrow> embed_error + vec list) \<Rightarrow> string list \<Rightarrow> chunk_error + chunk list" where
  "embedChunks embedAll texts =
     (let kept = kept_segments texts in
      if kept = [] then Inr []
      else case embedAll (map snd kept) of
             Inl e \<Rightarrow> Inl (ChunkEmbedFailed e)
           | Inr vecs \<Rightarrow>
               if length vecs \<noteq> length kept then Inl ErrChunkVecCount
               else Inr (map2 (\<lambda>p v. \<lparr> Idx = int (fst p), Text = snd p, chunkEmbedding = v \<rparr>) kept vecs))"

text \<open>The variables of the walk.\<close>

record chunk_walk =
  cbDone :: nat
  cbScanned :: nat
  cbFailures :: nat
  cbAfter :: string
  cbDb :: db

text \<open>
  The rows of one page: whether the walk ends, and its state. \<open>None\<close> would be a split that does
  not end.
\<close>

fun chunk_rows :: "chunk_worker \<Rightarrow> (nat \<Rightarrow> db \<Rightarrow> db) \<Rightarrow> memory list \<Rightarrow> chunk_walk \<Rightarrow> (bool \<times> chunk_walk) option" where
  "chunk_rows w others [] s = Some (False, s)"
| "chunk_rows w others (m # rest) s0 =
     (let s = s0\<lparr> cbAfter := ID m, cbScanned := cbScanned s0 + 1 \<rparr> in
      if chunkBackfillBatch \<le> cbDone s \<or> chunkBackfillScanCap < cbScanned s then Some (True, s)
      else case Split (Content m) (cwConfig w) of
             None \<Rightarrow> None
           | Some res \<Rightarrow>
               if srChunks res = [] then chunk_rows w others rest s
               else let d = others (cbScanned s) (cbDb s) in
                 (case embedChunks (cwEmbed w) (srChunks res) of
                    Inl e \<Rightarrow>
                      if 2 \<le> cbFailures s + 1 then Some (True, s\<lparr> cbFailures := cbFailures s + 1, cbDb := d \<rparr>)
                      else chunk_rows w others rest (s\<lparr> cbFailures := cbFailures s + 1, cbDb := d \<rparr>)
                  | Inr vecs \<Rightarrow>
                      (case PutChunks (Namespace m) (ID m) (UpdatedAt m) vecs d of
                         Inl e \<Rightarrow> chunk_rows w others rest (s\<lparr> cbFailures := 0, cbDb := d \<rparr>)
                       | Inr (ok, d') \<Rightarrow>
                           chunk_rows w others rest
                             (s\<lparr> cbFailures := 0, cbDb := d', cbDone := (if ok then cbDone s + 1 else cbDone s) \<rparr>))))"

partial_function (option) chunk_scan ::
    "chunk_worker \<Rightarrow> (nat \<Rightarrow> db \<Rightarrow> db) \<Rightarrow> chunk_walk \<Rightarrow> chunk_walk option" where
  "chunk_scan w others s =
     (if \<not> (cbDone s < chunkBackfillBatch \<and> cbScanned s < chunkBackfillScanCap) then Some s
      else case ListUnchunked '''' (ckMinContent (cwConfig w)) (cbAfter s) (int chunkBackfillBatch) (cbDb s) of
             [] \<Rightarrow> Some s
           | m # rest \<Rightarrow>
               (case chunk_rows w others (m # rest) s of
                  None \<Rightarrow> None
                | Some (stop, s') \<Rightarrow> if stop then Some s' else chunk_scan w others s'))"

definition walk_start :: "db \<Rightarrow> chunk_walk" where
  "walk_start d = \<lparr> cbDone = 0, cbScanned = 0, cbFailures = 0, cbAfter = '''', cbDb = d \<rparr>"

text \<open>How many memories were chunked, and the database.\<close>

definition BackfillChunks :: "chunk_worker \<Rightarrow> (nat \<Rightarrow> db \<Rightarrow> db) \<Rightarrow> db \<Rightarrow> (nat \<times> db) option" where
  "BackfillChunks w others d =
     (if \<not> cwOn w then Some (0, d)
      else map_option (\<lambda>s. (cbDone s, cbDb s)) (chunk_scan w others (walk_start d)))"

definition ChunkBacklog :: "chunk_worker \<Rightarrow> db \<Rightarrow> nat" where
  "ChunkBacklog w d = (if \<not> cwOn w then 0 else CountUnchunked '''' (ckMinContent (cwConfig w)) d)"

section \<open>Vectors\<close>

abbreviation backfillBatch :: nat where "backfillBatch \<equiv> 100"

definition backfilled :: "vec \<Rightarrow> memory \<Rightarrow> memory" where
  "backfilled v fresh = fresh\<lparr> Metadata := (Metadata fresh)(PendingEmbedKey := None), Embedding := v \<rparr>"

text \<open>The rows of a tick: how many were written, and the database.\<close>

fun backfill_rows :: "writer \<Rightarrow> (nat \<Rightarrow> db \<Rightarrow> db) \<Rightarrow> nat \<Rightarrow> memory list \<Rightarrow> nat \<times> db \<Rightarrow> nat \<times> db" where
  "backfill_rows w others i [] s = s"
| "backfill_rows w others i (m # rest) (n, d0) =
     (let d = others i d0 in
      case embedder w (Content m) of
        Inl e \<Rightarrow> if i = 0 then (n, d) else backfill_rows w others (Suc i) rest (n, d)
      | Inr v \<Rightarrow>
          (case Get (Namespace m) (ID m) d of
             Inl e \<Rightarrow> backfill_rows w others (Suc i) rest (n, d)
           | Inr fresh \<Rightarrow>
               if UpdatedAt fresh \<noteq> UpdatedAt m then backfill_rows w others (Suc i) rest (n, d)
               else (case Upsert (backfilled v fresh) d of
                       Inl e \<Rightarrow> backfill_rows w others (Suc i) rest (n, d)
                     | Inr d' \<Rightarrow> backfill_rows w others (Suc i) rest (n + 1, d'))))"

definition pending_rows :: "write_env \<Rightarrow> db \<Rightarrow> memory list" where
  "pending_rows env d =
     concat (map (\<lambda>ns. List_memories (we_engine env) (we_wall env) ns (adopt_filter (we_now env)) 0 d) (ListNamespaces d))"

text \<open>How many rows were written, how many are still pending, and the database.\<close>

definition BackfillEmbeddings :: "writer \<Rightarrow> write_env \<Rightarrow> (nat \<Rightarrow> db \<Rightarrow> db) \<Rightarrow> db \<Rightarrow> nat \<times> nat \<times> db" where
  "BackfillEmbeddings w env others d =
     (case backfill_rows w others 0 (take backfillBatch (pending_rows env d)) (0, d) of
        (n, d') \<Rightarrow> (n, length (pending_rows env d) - n, d'))"

section \<open>The walk ends\<close>

text \<open>A page is left early or scanned to its end.\<close>

definition scanned_all :: "nat \<Rightarrow> (bool \<times> chunk_walk) option \<Rightarrow> bool" where
  "scanned_all n r \<longleftrightarrow> (case r of None \<Rightarrow> False | Some (stop, s') \<Rightarrow> stop \<or> cbScanned s' = n)"

lemma scanned_all_simps [simp]: "scanned_all n (Some (True, s))" "scanned_all n (Some (False, s)) \<longleftrightarrow> cbScanned s = n"
  by (simp_all add: scanned_all_def)

lemma chunk_rows_some: "scanned_all (cbScanned s + length rows) (chunk_rows w others rows s)"
proof (induction rows arbitrary: s)
  case (Cons m rows)
  obtain res where res: "Split (Content m) (cwConfig w) = Some res" using Split_spec by blast
  have ih: "scanned_all (Suc (cbScanned s + length rows)) (chunk_rows w others rows t)" if "cbScanned t = cbScanned s + 1" for t
    using Cons.IH [of t] that by simp
  show ?case using ih by (simp add: Let_def res split: sum.split prod.split)
qed simp

lemma chunk_scan_some:
  "\<exists>s'. chunk_scan w others s = Some s'"
proof (induction "chunkBackfillScanCap - cbScanned s" arbitrary: s rule: less_induct)
  case less
  show ?case
  proof (cases "cbDone s < chunkBackfillBatch \<and> cbScanned s < chunkBackfillScanCap")
    case False
    then show ?thesis by (subst chunk_scan.simps) simp
  next
    case True
    define page where "page = ListUnchunked '''' (ckMinContent (cwConfig w)) (cbAfter s) (int chunkBackfillBatch) (cbDb s)"
    show ?thesis
    proof (cases page)
      case Nil
      then show ?thesis using True unfolding page_def by (subst chunk_scan.simps) simp
    next
      case (Cons m rest)
      obtain stop s' where r: "chunk_rows w others (m # rest) s = Some (stop, s')"
        "stop \<or> cbScanned s' = cbScanned s + length (m # rest)"
        using chunk_rows_some [of s "m # rest" w others] by (auto simp: scanned_all_def split: option.split_asm)
      have "\<exists>s''. chunk_scan w others s' = Some s''" if "\<not> stop"
        by (rule less.hyps) (use r(2) that True in auto)
      then show ?thesis using True Cons r(1) unfolding page_def
        by (subst chunk_scan.simps) auto
    qed
  qed
qed

section \<open>Writing chunks\<close>

text \<open>The memories that own a chunk.\<close>

definition owners :: "db \<Rightarrow> int set" where
  "owners d = k_memory_rowid ` set (memory_chunks d)"

lemma has_chunks_owners: "has_chunks d r \<longleftrightarrow> c_rowid r \<in> owners d"
  by (force simp: has_chunks_def owners_def list_ex_iff)

lemma insert_chunks_succeeds:
  assumes "\<And>c. c \<in> set cs \<Longrightarrow> length (chunkEmbedding c) = dims d" and "distinct (map Idx cs)"
    and "\<And>c k. c \<in> set cs \<Longrightarrow> k \<in> set (memory_chunks d) \<Longrightarrow> k_memory_rowid k = j \<Longrightarrow> k_chunk_idx k \<noteq> Idx c"
    and "v_rowid ` set (vec_chunks d) \<subseteq> k_rowid ` set (memory_chunks d)"
  shows "\<exists>d'. insert_chunks j ns cs d = Inr d' \<and> owners d' = owners d \<union> (if cs = [] then {} else {j})"
  using assms
proof (induction cs arbitrary: d)
  case (Cons c cs)
  let ?k = "next_rowid (map k_rowid (memory_chunks d))"
  let ?row = "\<lparr> k_rowid = ?k, k_memory_rowid = j, k_chunk_idx = Idx c, k_text = Text c \<rparr>"
  let ?d1 = "d\<lparr> memory_chunks := memory_chunks d @ [?row],
                vec_chunks := vec_chunks d @ [\<lparr> v_rowid = ?k, v_namespace = ns, v_embedding = chunkEmbedding c \<rparr>] \<rparr>"
  have fresh: "?k \<notin> set (map v_rowid (vec_chunks d))"
    using next_rowid_fresh [of "map k_rowid (memory_chunks d)"] Cons.prems(4) by auto
  have new: "(j, Idx c) \<notin> set (map (\<lambda>k. (k_memory_rowid k, k_chunk_idx k)) (memory_chunks d))"
  proof
    assume "(j, Idx c) \<in> set (map (\<lambda>k. (k_memory_rowid k, k_chunk_idx k)) (memory_chunks d))"
    then obtain k where "k \<in> set (memory_chunks d)" "k_memory_rowid k = j" "k_chunk_idx k = Idx c" by force
    then show False using Cons.prems(3) [of c k] by simp
  qed
  have step: "insert_chunks j ns (c # cs) d = insert_chunks j ns cs ?d1"
    using Cons.prems(1) [of c] fresh new by (auto simp: Let_def)
  have "\<exists>d'. insert_chunks j ns cs ?d1 = Inr d' \<and> owners d' = owners ?d1 \<union> (if cs = [] then {} else {j})"
  proof (rule Cons.IH)
    show "length (chunkEmbedding x) = dims ?d1" if "x \<in> set cs" for x using Cons.prems(1) [of x] that by simp
    show "distinct (map Idx cs)" using Cons.prems(2) by simp
    show "k_chunk_idx k \<noteq> Idx x" if "x \<in> set cs" "k \<in> set (memory_chunks ?d1)" "k_memory_rowid k = j" for x k
    proof -
      have "Idx c \<noteq> Idx x" using Cons.prems(2) that(1) by (metis distinct.simps(2) image_eqI list.simps(9) set_map)
      then show ?thesis using that Cons.prems(3) [of x k] by (cases "k = ?row") auto
    qed
    show "v_rowid ` set (vec_chunks ?d1) \<subseteq> k_rowid ` set (memory_chunks ?d1)" using Cons.prems(4) by auto
  qed
  then show ?case unfolding step by (auto simp: owners_def)
qed (simp add: owners_def)

lemma clear_chunks_owners: "owners (clear_chunks j d) = owners d - {j}"
  by (auto simp: owners_def clear_chunks_def set_delete_where)

lemma PutChunks_succeeds:
  assumes ok: "db_ok d" and r: "r \<in> set (memories d)"
    and cs: "cs \<noteq> []" "\<And>c. c \<in> set cs \<Longrightarrow> length (chunkEmbedding c) = dims d" "distinct (map Idx cs)"
  shows "\<exists>d'. PutChunks (Namespace (scanRow r)) (ID (scanRow r)) (UpdatedAt (scanRow r)) cs d = Inr (True, d')
    \<and> db_ok d' \<and> memories d' = memories d \<and> dims d' = dims d \<and> owners d' = insert (c_rowid r) (owners d)"
proof -
  let ?c = "clear_chunks (c_rowid r) d"
  have sub: "v_rowid ` set (vec_chunks ?c) \<subseteq> k_rowid ` set (memory_chunks ?c)"
  proof
    fix i
    assume "i \<in> v_rowid ` set (vec_chunks ?c)"
    then have i: "i \<in> v_rowid ` set (vec_chunks d)" "i \<notin> chunk_ids_of (c_rowid r) d"
      by (auto simp: clear_chunks_def set_delete_where)
    then obtain k where k: "k \<in> set (memory_chunks d)" "k_rowid k = i"
      using ok by (auto simp: db_ok_def chunk_vecs_ok_def)
    then have "k_memory_rowid k \<noteq> c_rowid r" using i(2) by (auto simp: chunk_ids_of_def)
    then show "i \<in> k_rowid ` set (memory_chunks ?c)" using k by (auto simp: clear_chunks_def set_delete_where)
  qed
  have "\<exists>d'. insert_chunks (c_rowid r) (c_namespace r) cs ?c = Inr d'
      \<and> owners d' = owners ?c \<union> (if cs = [] then {} else {c_rowid r})"
    by (rule insert_chunks_succeeds [OF _ cs(3) _ sub])
      (use cs(2) in \<open>auto simp: clear_chunks_def set_delete_where\<close>)
  then obtain d' where d': "writeChunks (c_rowid r) (c_namespace r) cs d = Inr d'" "owners d' = insert (c_rowid r) (owners d)"
    using cs(1) by (auto simp: writeChunks_def clear_chunks_owners)
  have p: "PutChunks (Namespace (scanRow r)) (ID (scanRow r)) (UpdatedAt (scanRow r)) cs d = Inr (True, d')"
    using find_row(1) [OF ok r] d'(1) by (simp add: PutChunks_def scanRow_def)
  from PutChunks_ok [OF p ok] writeChunks_frame [OF d'(1)] p d'(2) show ?thesis by blast
qed

section \<open>A tick that is not disturbed\<close>

lemma kept_all:
  assumes "\<And>t. t \<in> set texts \<Longrightarrow> \<not> IsWhitespaceOnly t"
  shows "kept_segments texts = zip [0..<length texts] texts"
  unfolding kept_segments_def using assms by (auto simp: filter_id_conv dest: set_zip_rightD)

text \<open>The embedder answers one vector of the right width for each text.\<close>

definition embeds_all :: "chunk_worker \<Rightarrow> nat \<Rightarrow> bool" where
  "embeds_all w n \<longleftrightarrow> (\<forall>texts. \<exists>vs. cwEmbed w texts = Inr vs \<and> length vs = length texts \<and> (\<forall>v \<in> set vs. length v = n))"

lemma embedChunks_split:
  assumes w: "embeds_all w n" and s: "Split content cfg = Some res" "srChunks res \<noteq> []"
  shows "\<exists>cs. embedChunks (cwEmbed w) (srChunks res) = Inr cs \<and> map Text cs = srChunks res
    \<and> cs \<noteq> [] \<and> distinct (map Idx cs) \<and> (\<forall>c \<in> set cs. length (chunkEmbedding c) = n)"
proof -
  let ?ts = "srChunks res"
  obtain ps where "?ts = texts_of (runes_of content) ps" using Split_spec [of content cfg] s(1) by auto
  then have "\<not> IsWhitespaceOnly t" if "t \<in> set ?ts" for t
    using that segment_not_blank by (auto simp: texts_of_def)
  then have k: "kept_segments ?ts = zip [0..<length ?ts] ?ts" by (rule kept_all)
  obtain vs where vs: "cwEmbed w ?ts = Inr vs" "length vs = length ?ts" "\<forall>v \<in> set vs. length v = n"
    using w by (auto simp: embeds_all_def)
  let ?cs = "map2 (\<lambda>p v. \<lparr> Idx = int (fst p), Text = snd p, chunkEmbedding = v \<rparr>) (zip [0..<length ?ts] ?ts) vs"
  have e: "embedChunks (cwEmbed w) ?ts = Inr ?cs" using s(2) vs by (simp add: embedChunks_def k)
  have "map Idx ?cs = map int [0..<length ?ts]" by (rule nth_equalityI) (simp_all add: vs(2))
  then have d: "distinct (map Idx ?cs)" by (simp add: distinct_map)
  have t: "map Text ?cs = ?ts" by (rule nth_equalityI) (simp_all add: vs(2))
  have "?cs \<noteq> []" using t s(2) by (metis list.map_disc_iff)
  moreover have "\<forall>c \<in> set ?cs. length (chunkEmbedding c) = n" using vs(3) by (auto dest: set_zip_rightD)
  ultimately show ?thesis using e d t by blast
qed

text \<open>Every long memory without chunks has text to cut.\<close>

definition splittable :: "ChunkConfig \<Rightarrow> mem_row \<Rightarrow> bool" where
  "splittable cfg r \<longleftrightarrow> (\<exists>res. Split (c_content r) cfg = Some res \<and> srChunks res \<noteq> [])"

text \<open>A row of a page is chunked.\<close>

lemma chunk_rows_step:
  assumes w: "embeds_all w (dims (cbDb s))" and ok: "db_ok (cbDb s)" and r: "r \<in> set (memories (cbDb s))"
    and sp: "splittable (cwConfig w) r" and room: "cbDone s < chunkBackfillBatch" "cbScanned s < chunkBackfillScanCap"
  shows "\<exists>s'. chunk_rows w (\<lambda>_ d. d) (scanRow r # rest) s = chunk_rows w (\<lambda>_ d. d) rest s'
    \<and> cbDone s' = cbDone s + 1 \<and> cbScanned s' = cbScanned s + 1 \<and> cbAfter s' = c_id r
    \<and> db_ok (cbDb s') \<and> memories (cbDb s') = memories (cbDb s) \<and> dims (cbDb s') = dims (cbDb s)
    \<and> owners (cbDb s') = insert (c_rowid r) (owners (cbDb s))"
proof -
  have f: "Content (scanRow r) = c_content r" "ID (scanRow r) = c_id r" by (simp_all add: scanRow_def)
  obtain res where res: "Split (c_content r) (cwConfig w) = Some res" "srChunks res \<noteq> []"
    using sp by (auto simp: splittable_def)
  obtain cs where cs: "embedChunks (cwEmbed w) (srChunks res) = Inr cs" "cs \<noteq> []" "distinct (map Idx cs)"
    "\<And>c. c \<in> set cs \<Longrightarrow> length (chunkEmbedding c) = dims (cbDb s)"
    using embedChunks_split [OF w res] by blast
  obtain d' where d': "PutChunks (Namespace (scanRow r)) (c_id r) (UpdatedAt (scanRow r)) cs (cbDb s) = Inr (True, d')"
    "db_ok d'" "memories d' = memories (cbDb s)" "dims d' = dims (cbDb s)" "owners d' = insert (c_rowid r) (owners (cbDb s))"
    using PutChunks_succeeds [OF ok r cs(2,4,3)] unfolding f by blast
  show ?thesis
    by (rule exI [of _ "s\<lparr> cbAfter := c_id r, cbScanned := cbScanned s + 1, cbFailures := 0, cbDb := d',
          cbDone := cbDone s + 1 \<rparr>"])
      (use room d' in \<open>simp add: Let_def f res cs(1)\<close>)
qed

lemma chunk_rows_all:
  assumes "embeds_all w (dims (cbDb s))" and "db_ok (cbDb s)" and "set rows \<subseteq> set (memories (cbDb s))"
    and "\<And>r. r \<in> set rows \<Longrightarrow> splittable (cwConfig w) r"
    and "cbDone s + length rows \<le> chunkBackfillBatch" and "cbScanned s + length rows \<le> chunkBackfillScanCap"
  shows "\<exists>s'. chunk_rows w (\<lambda>_ d. d) (map scanRow rows) s = Some (False, s')
    \<and> cbDone s' = cbDone s + length rows \<and> cbScanned s' = cbScanned s + length rows
    \<and> db_ok (cbDb s') \<and> memories (cbDb s') = memories (cbDb s) \<and> dims (cbDb s') = dims (cbDb s)
    \<and> owners (cbDb s') = c_rowid ` set rows \<union> owners (cbDb s)"
  using assms
proof (induction rows arbitrary: s)
  case (Cons r rows)
  have r: "r \<in> set (memories (cbDb s))" "splittable (cwConfig w) r"
    "cbDone s < chunkBackfillBatch" "cbScanned s < chunkBackfillScanCap" using Cons.prems(3-6) by auto
  obtain s1 where s1: "chunk_rows w (\<lambda>_ d. d) (scanRow r # map scanRow rows) s = chunk_rows w (\<lambda>_ d. d) (map scanRow rows) s1"
    "cbDone s1 = cbDone s + 1" "cbScanned s1 = cbScanned s + 1" "db_ok (cbDb s1)" "memories (cbDb s1) = memories (cbDb s)"
    "dims (cbDb s1) = dims (cbDb s)" "owners (cbDb s1) = insert (c_rowid r) (owners (cbDb s))"
    using chunk_rows_step [OF Cons.prems(1,2) r, of "map scanRow rows"] by blast
  obtain s' where s': "chunk_rows w (\<lambda>_ d. d) (map scanRow rows) s1 = Some (False, s')"
    "cbDone s' = cbDone s1 + length rows" "cbScanned s' = cbScanned s1 + length rows" "db_ok (cbDb s')"
    "memories (cbDb s') = memories (cbDb s1)" "dims (cbDb s') = dims (cbDb s1)" "owners (cbDb s') = c_rowid ` set rows \<union> owners (cbDb s1)"
    using Cons.IH [of s1] Cons.prems s1(2-6) by auto
  show ?case
    using s1 s' by (intro exI [of _ s']) (simp add: Un_commute)
qed simp

text \<open>The first page, and the backlog.\<close>

definition backlog_rows :: "chunk_worker \<Rightarrow> db \<Rightarrow> mem_row list" where
  "backlog_rows w d = filter (unchunked '''' (ckMinContent (cwConfig w)) d) (memories d)"

lemma CountUnchunked_rows: "CountUnchunked '''' (ckMinContent (cwConfig w)) d = length (backlog_rows w d)"
  by (simp add: CountUnchunked_def backlog_rows_def count_where_def)

lemma first_page:
  "ListUnchunked '''' (ckMinContent (cwConfig w)) '''' (int chunkBackfillBatch) d
     = map scanRow (take chunkBackfillBatch (order_by (\<lambda>a b. c_id a < c_id b) (backlog_rows w d)))"
  by (simp add: ListUnchunked_def backlog_rows_def limit_rows_def)

lemma backlog_after:
  assumes ok: "db_ok d" and m: "memories d' = memories d" and o: "owners d' = c_rowid ` set rows \<union> owners d"
    and rows: "set rows \<subseteq> set (memories d)"
  shows "backlog_rows w d' = filter (\<lambda>r. r \<notin> set rows) (backlog_rows w d)"
proof -
  have "c_rowid r \<in> owners d' \<longleftrightarrow> r \<in> set rows \<or> c_rowid r \<in> owners d" if "r \<in> set (memories d)" for r
    using that rows unique_row(2) [OF ok] unfolding o by (metis UnE UnI1 UnI2 imageE image_eqI subsetD)
  then show ?thesis
    unfolding backlog_rows_def m filter_filter by (intro filter_cong) (auto simp: unchunked_def has_chunks_owners)
qed

lemma length_filter_out:
  assumes "distinct xs" and "distinct ys" and "set ys \<subseteq> set xs"
  shows "length (filter (\<lambda>x. x \<notin> set ys) xs) = length xs - length ys"
proof -
  have "length (filter (\<lambda>x. x \<notin> set ys) xs) = card (set xs - set ys)"
    using assms(1) by (metis distinct_card distinct_filter set_diff_eq set_filter)
  also have "\<dots> = card (set xs) - card (set ys)" using assms(3) by (simp add: card_Diff_subset)
  finally show ?thesis using assms(1,2) by (simp add: distinct_card)
qed

text \<open>
  With a working embedder and nobody else at work, a tick chunks the first memories of the queue,
  as many as the batch has room for.
\<close>

lemma BackfillChunks_progress:
  assumes on: "cwOn w" and w: "embeds_all w (dims d)" and ok: "db_ok d"
    and sp: "\<And>r. r \<in> set (backlog_rows w d) \<Longrightarrow> splittable (cwConfig w) r"
  shows "\<exists>d'. BackfillChunks w (\<lambda>_ d. d) d = Some (min chunkBackfillBatch (ChunkBacklog w d), d')
    \<and> ChunkBacklog w d' = ChunkBacklog w d - chunkBackfillBatch \<and> db_ok d' \<and> memories d' = memories d
    \<and> dims d' = dims d \<and> set (backlog_rows w d') \<subseteq> set (backlog_rows w d)"
proof -
  let ?q = "order_by (\<lambda>a b. c_id a < c_id b) (backlog_rows w d)"
  let ?page = "take chunkBackfillBatch ?q"
  have q: "mset ?q = mset (backlog_rows w d)" by simp
  then have qs: "set ?q = set (backlog_rows w d)" "length ?q = length (backlog_rows w d)" by (metis set_mset_mset, metis size_mset)
  have dist: "distinct (backlog_rows w d)" "distinct ?q"
    using ok mset_eq_imp_distinct_iff [OF q]
    by (auto simp: backlog_rows_def db_ok_def rows_ok_def distinct_map)
  have len: "length ?page = min chunkBackfillBatch (ChunkBacklog w d)"
    using on by (simp add: ChunkBacklog_def CountUnchunked_rows qs(2))
  have sub: "set ?page \<subseteq> set (backlog_rows w d)" using set_take_subset [of chunkBackfillBatch ?q] qs(1) by simp
  then have mem: "set ?page \<subseteq> set (memories d)" by (auto simp: backlog_rows_def)
  show ?thesis
  proof (cases "?page = []")
    case True
    then have "chunk_scan w (\<lambda>_ d. d) (walk_start d) = Some (walk_start d)"
      by (subst chunk_scan.simps) (simp add: walk_start_def first_page [simplified])
    then show ?thesis using on len True ok by (simp add: BackfillChunks_def walk_start_def)
  next
    case False
    have "\<exists>s'. chunk_rows w (\<lambda>_ d. d) (map scanRow ?page) (walk_start d) = Some (False, s')
        \<and> cbDone s' = cbDone (walk_start d) + length ?page \<and> cbScanned s' = cbScanned (walk_start d) + length ?page
        \<and> db_ok (cbDb s') \<and> memories (cbDb s') = memories (cbDb (walk_start d)) \<and> dims (cbDb s') = dims (cbDb (walk_start d))
        \<and> owners (cbDb s') = c_rowid ` set ?page \<union> owners (cbDb (walk_start d))"
      by (rule chunk_rows_all) (use w ok mem sp sub in \<open>auto simp: walk_start_def\<close>)
    then obtain s' where s': "chunk_rows w (\<lambda>_ d. d) (map scanRow ?page) (walk_start d) = Some (False, s')"
      "cbDone s' = length ?page" "db_ok (cbDb s')" "memories (cbDb s') = memories d"
      "owners (cbDb s') = c_rowid ` set ?page \<union> owners d" "dims (cbDb s') = dims d"
      by (auto simp: walk_start_def)
    have after: "backlog_rows w (cbDb s') = filter (\<lambda>r. r \<notin> set ?page) (backlog_rows w d)"
      by (rule backlog_after [OF ok s'(4,5) mem])
    have count: "ChunkBacklog w (cbDb s') = ChunkBacklog w d - chunkBackfillBatch"
    proof -
      have "length (backlog_rows w (cbDb s')) = length (backlog_rows w d) - length ?page"
        unfolding after by (rule length_filter_out [OF dist(1) _ sub]) (use dist(2) in simp)
      then show ?thesis using on by (simp add: ChunkBacklog_def CountUnchunked_rows qs(2))
    qed
    have "chunk_scan w (\<lambda>_ d. d) s' = Some s'"
    proof (cases "length ?page < chunkBackfillBatch")
      case False
      then show ?thesis using s'(2) by (subst chunk_scan.simps) simp
    next
      case True
      then have "ChunkBacklog w d - chunkBackfillBatch = 0" using len by linarith
      then have "backlog_rows w (cbDb s') = []" using count on by (simp add: ChunkBacklog_def CountUnchunked_rows)
      then have "ListUnchunked '''' (ckMinContent (cwConfig w)) (cbAfter s') (int chunkBackfillBatch) (cbDb s') = []"
        by (auto simp: ListUnchunked_def backlog_rows_def filter_empty_conv limit_rows_def)
      then show ?thesis by (subst chunk_scan.simps) simp
    qed
    moreover have "chunk_scan w (\<lambda>_ d. d) (walk_start d) = chunk_scan w (\<lambda>_ d. d) s'"
      using False s'(1) by (subst chunk_scan.simps) (cases ?page; simp add: walk_start_def first_page [simplified])
    moreover have "set (backlog_rows w (cbDb s')) \<subseteq> set (backlog_rows w d)" unfolding after by auto
    ultimately show ?thesis using on len count s' by (simp add: BackfillChunks_def)
  qed
qed

text \<open>Every tick returns, whatever the others do.\<close>

lemma BackfillChunks_returns: "\<exists>n d'. BackfillChunks w others d = Some (n, d')"
  using chunk_scan_some [of w others "walk_start d"] by (auto simp: BackfillChunks_def)

text \<open>The database after a number of ticks.\<close>

fun chunk_ticks :: "chunk_worker \<Rightarrow> nat \<Rightarrow> db \<Rightarrow> db option" where
  "chunk_ticks w 0 d = Some d"
| "chunk_ticks w (Suc n) d = (case BackfillChunks w (\<lambda>_ d. d) d of None \<Rightarrow> None | Some (k, d') \<Rightarrow> chunk_ticks w n d')"

section \<open>Two memories that the embedder rejects\<close>

definition rejected :: "chunk_worker \<Rightarrow> mem_row \<Rightarrow> bool" where
  "rejected w r \<longleftrightarrow>
     (case Split (c_content r) (cwConfig w) of
        None \<Rightarrow> False
      | Some res \<Rightarrow> srChunks res \<noteq> [] \<and> (case embedChunks (cwEmbed w) (srChunks res) of Inl _ \<Rightarrow> True | Inr _ \<Rightarrow> False))"

lemma chunk_rows_rejected:
  assumes "rejected w r" and "rejected w r'" and "cbDone s = 0" "cbScanned s = 0" "cbFailures s = 0"
  shows "\<exists>s'. chunk_rows w (\<lambda>_ d. d) (scanRow r # scanRow r' # rest) s = Some (True, s') \<and> cbDone s' = 0 \<and> cbDb s' = cbDb s"
  using assms by (auto simp: rejected_def Let_def scanRow_def split: option.split_asm sum.split_asm)

lemma BackfillChunks_rejected:
  assumes on: "cwOn w" and q: "order_by (\<lambda>a b. c_id a < c_id b) (backlog_rows w d) = r # r' # rest"
    and rej: "rejected w r" "rejected w r'"
  shows "BackfillChunks w (\<lambda>_ d. d) d = Some (0, d)"
proof -
  have "take chunkBackfillBatch (r # r' # rest) = r # r' # take 23 rest" by (simp add: take_Cons')
  then have page: "ListUnchunked '''' (ckMinContent (cwConfig w)) '''' 25 d = scanRow r # scanRow r' # map scanRow (take 23 rest)"
    using first_page [of w d, simplified] q by simp
  obtain s' where "chunk_rows w (\<lambda>_ d. d) (scanRow r # scanRow r' # map scanRow (take 23 rest)) (walk_start d) = Some (True, s')"
    "cbDone s' = 0" "cbDb s' = d"
    using chunk_rows_rejected [OF rej, of "walk_start d"] by (auto simp: walk_start_def)
  then have "chunk_scan w (\<lambda>_ d. d) (walk_start d) = Some s'"
    using page by (subst chunk_scan.simps) (simp add: walk_start_def)
  then show ?thesis using on \<open>cbDone s' = 0\<close> \<open>cbDb s' = d\<close> by (simp add: BackfillChunks_def)
qed

section \<open>The embedding backfill\<close>

lemma backfill_rows_ok:
  assumes "\<And>i d. db_ok d \<Longrightarrow> db_ok (others i d)"
  shows "db_ok (snd s) \<Longrightarrow> db_ok (snd (backfill_rows w others i rows s))"
  using assms
proof (induction w others i rows s rule: backfill_rows.induct)
  case (2 w others i m rest n d0)
  let ?d = "others i d0"
  have ok: "db_ok ?d" using "2.prems" by simp
  show ?case
  proof (cases "embedder w (Content m)")
    case (Inl e)
    then show ?thesis using "2.IH"(1) [OF refl Inl] ok "2.prems"(2) by (auto simp: Let_def)
  next
    case v: (Inr v)
    show ?thesis
    proof (cases "Get (Namespace m) (ID m) ?d")
      case (Inl e)
      then show ?thesis using "2.IH"(2) [OF refl v Inl] ok "2.prems"(2) v by (simp add: Let_def)
    next
      case fresh: (Inr fresh)
      show ?thesis
      proof (cases "UpdatedAt fresh \<noteq> UpdatedAt m")
        case True
        then show ?thesis using "2.IH"(3) [OF refl v fresh] ok "2.prems"(2) v fresh by (simp add: Let_def)
      next
        case False
        show ?thesis
        proof (cases "Upsert (backfilled v fresh) ?d")
          case (Inl e)
          then show ?thesis using "2.IH"(4) [OF refl v fresh False Inl] ok "2.prems"(2) v fresh False by (simp add: Let_def)
        next
          case (Inr d')
          have "db_ok d'" using Upsert_ok Inr ok by blast
          then show ?thesis using "2.IH"(5) [OF refl v fresh False Inr] "2.prems"(2) v fresh False Inr by (simp add: Let_def)
        qed
      qed
    qed
  qed
qed simp

lemma BackfillEmbeddings_ok:
  assumes "\<And>i d. db_ok d \<Longrightarrow> db_ok (others i d)" and "db_ok d"
  shows "db_ok (snd (snd (BackfillEmbeddings w env others d)))"
  using backfill_rows_ok [of others "(0, d)" w 0 "take backfillBatch (pending_rows env d)"] assms
  by (auto simp: BackfillEmbeddings_def split: prod.split)

text \<open>
  What a tick writes over a row: its flag is gone, its vector is the new one, and its times stay,
  so that a repair does not look like an edit.
\<close>

lemma backfilled_row:
  assumes "db_ok d" and "Get ns i d = Inr fresh" and "Upsert (backfilled v fresh) d = Inr d'"
  shows "\<exists>x. Get ns i d' = Inr x \<and> same_facts (backfilled v fresh) x \<and> Metadata x PendingEmbedKey = None"
proof -
  obtain r where r: "find (row_at ns i) (memories d) = Some r" "fresh = scanRow r"
    using assms(2) by (auto simp: Get_def split: option.split_asm)
  then have k: "Namespace fresh = ns" "ID fresh = i"
    using find_Some_set [OF r(1)] by (simp_all add: scanRow_def row_at_def)
  have "Namespace (backfilled v fresh) = ns" "ID (backfilled v fresh) = i" by (simp_all add: backfilled_def k)
  then obtain x where x: "Get ns i d' = Inr x" "same_facts (backfilled v fresh) x"
    using sqlite.put_get [OF assms(1,3)] same_facts_stored by metis
  then have "Metadata x PendingEmbedKey = None" by (simp add: same_facts_def backfilled_def)
  then show ?thesis using x by blast
qed

end
