(* ===== verification/Backfill_Properties.thy ===== *)
theory Backfill_Properties
  imports Backfill Store_Properties
begin

text \<open>The properties of the chunk backfill.\<close>

text \<open>
  C38: with a working embedder, nobody else at work and text to cut in every waiting memory, the
  ticks drain the queue: after \<open>n\<close> ticks the backlog is smaller by \<open>n\<close> batches (or empty), the
  memories themselves are as they were, and the database is well formed.
\<close>

theorem chunk_ticks_drain:
  assumes "cwOn w" and "embeds_all w (dims d)" and "db_ok d"
    and "\<And>r. r \<in> set (backlog_rows w d) \<Longrightarrow> splittable (cwConfig w) r"
  shows "\<exists>d'. chunk_ticks w n d = Some d' \<and> ChunkBacklog w d' = ChunkBacklog w d - chunkBackfillBatch * n
    \<and> memories d' = memories d \<and> db_ok d'"
  using assms(2-4)
proof (induction n arbitrary: d)
  case (Suc n)
  obtain d1 where d1: "BackfillChunks w (\<lambda>_ d. d) d = Some (min chunkBackfillBatch (ChunkBacklog w d), d1)"
    "ChunkBacklog w d1 = ChunkBacklog w d - chunkBackfillBatch" "db_ok d1" "memories d1 = memories d" "dims d1 = dims d"
    "set (backlog_rows w d1) \<subseteq> set (backlog_rows w d)"
    using BackfillChunks_progress [OF assms(1) Suc.prems] by blast
  obtain d' where "chunk_ticks w n d1 = Some d'" "ChunkBacklog w d' = ChunkBacklog w d1 - chunkBackfillBatch * n"
    "memories d' = memories d1" "db_ok d'"
    using Suc.IH [of d1] Suc.prems d1(3,5,6) by auto
  then show ?case using d1 by simp
qed simp

text \<open>
  C39: two memories at the head of the queue whose segments the embedder rejects are taken for an
  outage: no tick chunks anything, however many memories wait behind them.
\<close>

theorem rejected_pair_starves:
  assumes "cwOn w" and "order_by (\<lambda>a b. c_id a < c_id b) (backlog_rows w d) = r # r' # rest"
    and "rejected w r" and "rejected w r'"
  shows "chunk_ticks w n d = Some d \<and> ChunkBacklog w d = 2 + length rest"
proof
  show "chunk_ticks w n d = Some d"
    by (induction n) (simp_all add: BackfillChunks_rejected [OF assms])
  have "length (backlog_rows w d) = length (r # r' # rest)"
    using arg_cong [OF assms(2), of mset] by (metis mset_SliceStable size_mset)
  then show "ChunkBacklog w d = 2 + length rest" using assms(1) by (simp add: ChunkBacklog_def CountUnchunked_rows)
qed

section \<open>Witnesses\<close>

definition short_chunks :: ChunkConfig where
  "short_chunks = \<lparr> ckSize = 100, ckOverlap = 0, ckMinContent = 2, ckMaxChunks = 10 \<rparr>"

definition flat_chunker :: chunk_worker where
  "flat_chunker = \<lparr> cwOn = True, cwConfig = short_chunks, cwEmbed = (\<lambda>ts. Inr (map (\<lambda>_. [1, 0]) ts)) \<rparr>"

definition broken_chunker :: chunk_worker where
  "broken_chunker = \<lparr> cwOn = True, cwConfig = short_chunks, cwEmbed = (\<lambda>_. Inl EmbedFailure) \<rparr>"

lemma short_split:
  "trim_runes (runes_of t) = runes_of t \<Longrightarrow> string_of_runes (runes_of t) = t \<Longrightarrow> t \<noteq> '''' \<Longrightarrow>
   2 < length (runes_of t) \<Longrightarrow> length (runes_of t) \<le> 100
   \<Longrightarrow> Split t short_chunks = Some \<lparr> srChunks = [t], srTruncated = False \<rparr>"
  by (auto simp: Split_def Let_def short_chunks_def split_loop.simps segment_def add_segment_def)

lemma coffee_runes: "runes_of ''tea'' = [116, 101, 97]" "runes_of ''coffee'' = [99, 111, 102, 102, 101, 101]"
  by (simp_all add: runes_of_def bytes_of_def go_runes_ascii)

lemma coffee_strings: "string_of_runes [116, 101, 97] = ''tea''" "string_of_runes [99, 111, 102, 102, 101, 101] = ''coffee''"
  by (code_simp, code_simp)

lemma coffee_split:
  "Split ''tea'' short_chunks = Some \<lparr> srChunks = [''tea''], srTruncated = False \<rparr>"
  "Split ''coffee'' short_chunks = Some \<lparr> srChunks = [''coffee''], srTruncated = False \<rparr>"
  by (rule short_split; simp add: coffee_runes coffee_strings trim_runes_def space_rune_def)
    (rule short_split; simp add: coffee_runes coffee_strings trim_runes_def space_rune_def)

lemma coffee_content: "c_content (insert_row i m) = Content m"
  by (simp add: insert_row_def)

theorem chunk_ticks_drain_witness:
  "\<exists>d'. chunk_ticks flat_chunker 1 coffee_db = Some d' \<and> ChunkBacklog flat_chunker d' = 0
    \<and> memories d' = memories coffee_db"
proof -
  have b: "ChunkBacklog flat_chunker coffee_db \<le> 25"
    by (simp add: ChunkBacklog_def CountUnchunked_def count_where_def)
  have "\<exists>d'. chunk_ticks flat_chunker 1 coffee_db = Some d'
      \<and> ChunkBacklog flat_chunker d' = ChunkBacklog flat_chunker coffee_db - chunkBackfillBatch * 1
      \<and> memories d' = memories coffee_db \<and> db_ok d'"
  proof (rule chunk_ticks_drain [OF _ _ coffee_db_ok])
    show "cwOn flat_chunker" by (simp add: flat_chunker_def)
    show "embeds_all flat_chunker (dims coffee_db)"
      by (auto simp: embeds_all_def flat_chunker_def coffee_db_def tea_db_def empty_db_def)
    fix r
    assume "r \<in> set (backlog_rows flat_chunker coffee_db)"
    then have "r \<in> set (memories coffee_db)" by (simp add: backlog_rows_def del: coffee_memories)
    then have "c_content r = ''tea'' \<or> c_content r = ''coffee''" by (auto simp: coffee_content)
    then show "splittable (cwConfig flat_chunker) r"
      using coffee_split by (auto simp: splittable_def flat_chunker_def)
  qed
  then show ?thesis using b by auto
qed

theorem rejected_pair_starves_witness:
  "chunk_ticks broken_chunker 7 coffee_db = Some coffee_db \<and> ChunkBacklog broken_chunker coffee_db = 2"
proof -
  have rej: "rejected broken_chunker (insert_row 1 tea)" "rejected broken_chunker (insert_row 2 coffee)"
    using coffee_split
    by (simp_all add: rejected_def broken_chunker_def coffee_content embedChunks_def kept_segments_def IsWhitespaceOnly_def
        coffee_runes space_rune_def)
  have q: "order_by (\<lambda>a b. c_id a < c_id b) (backlog_rows broken_chunker coffee_db) = insert_row 1 tea # insert_row 2 coffee # []"
    by (simp add: backlog_rows_def unchunked_def sql_length_def has_chunks_def coffee_content broken_chunker_def short_chunks_def
        coffee_db_def tea_db_def empty_db_def SliceStable_def)
  show ?thesis using rejected_pair_starves [OF _ q rej, of 7] by (simp add: broken_chunker_def)
qed

end
