(* ===== verification/Spec2Isabelle.thy ===== *)
theory Spec2Isabelle
  imports Store_Properties Log_Properties Search_Properties Access_Properties Scope_Properties Recall_Properties
    Text_Properties Write_Properties Repair_Properties
    Maintenance_Properties Contradict_Properties Contradict_Use Answer_Properties
    Embed_Properties Backfill_Properties
begin

text \<open>
  A verification development of memini, a memory server for language model agents.

  The program stores short texts (memories) in namespaces, with a tier, scores, vectors and a
  validity window, retrieves them by vector and by keyword, and maintains them (repairs missing
  vectors, supersedes, restores and expires). The HTTP and MCP front ends call the service
  layer, which calls a store (the interface \<open>Store\<close>, implemented over SQLite and PostgreSQL)
  and the ranking of \<open>internal/search\<close>.

  The theories, from the bottom:

  \<^item> \<open>Prelude\<close>: Go's times, strings and stable sort, generic list lemmas, and the locale
    \<open>strict_weak_order\<close> (what \<open>sort.SliceStable\<close> asks of its \<open>less\<close>), interpreted for every
    order that the code sorts by.
  \<^item> \<open>Memory_Types\<close>: \<open>internal/memory/types.go\<close>. The record \<open>memory\<close> is the Go struct; the
    scores are functions of it and of the tuning variables; the fingerprint is SHA-256 of the
    normalised content.
  \<^item> \<open>Namespaces\<close>: \<open>internal/httputil/httputil.go\<close>, normalising and validating names.
  \<^item> \<open>Client_Settings\<close>: the settings of \<open>internal/store/store.go\<close>, their validation, defaults
    and layering, and the wire view in which the layering is the override of finite maps.
  \<^item> \<open>Store_Types\<close>: the other types of that file.
  \<^item> \<open>Sql_Tables\<close>: tables as lists of rows and the statements on them.
  \<^item> \<open>Sqlite_Schema\<close>, \<open>Sqlite_Memories\<close>, \<open>Sqlite_Repair\<close>, \<open>Sqlite_Links\<close>, \<open>Sqlite_Events\<close>:
    the driver of \<open>internal/store/sqlitevec\<close>. The record \<open>db\<close> has a field per table; every
    method is a function from the database to an error or the new database and its result.
  \<^item> \<open>Sqlite_Invariant\<close>: the schema invariant and its preservation by every operation.
  \<^item> \<open>Store_Contract\<close>: the contract of \<open>Store\<close> as the locale \<open>memory_store\<close>, the client
    lemmas proved in it (the replacement protocol and its undoing), and its interpretation on
    the driver.
  \<^item> \<open>Sqlite_Queries\<close>: soundness, order and limits of the searches and listings.
  \<^item> \<open>Store_Steps\<close>: all operations as one step relation, and the invariant of every
    reachable database. \<open>Lease_Steps\<close>: the operations that do not hand a claimed repair back,
    and that they keep its lease.
  \<^item> \<open>Search\<close>: \<open>internal/search\<close>: rank fusion, score fusion, the composite re-rank and the
    dedup. \<open>Temporal\<close>: the date boost of \<open>temporal.go\<close>, whose recognition of dates in a
    query is the parameter \<open>AnchorExtractor\<close>. \<open>Render\<close>: \<open>internal/api/render\<close>.
  \<^item> \<open>Go_Strings\<close>: the functions of Go's \<open>strings\<close> that cut texts at separators.
  \<^item> \<open>Read_Set\<close>: \<open>internal/service/readset.go\<close> and \<open>visibility.go\<close>, which namespaces a read
    sees (own, subtree, ancestors, home, links, or an explicit list) and where a write lands.
    What the code asks of the store is the record \<open>read_store\<close>.
  \<^item> \<open>Namespace_Resolution\<close>: \<open>internal/nsresolve\<close>, the canonical form of git remotes, the pin
    keys of a project and the precedence of pin, environment, declaration, derivation and
    defaults.
  \<^item> \<open>Api_Auth\<close>: \<open>internal/apiauth\<close> (the admin key, the keys of the declarative file, the key
    table behind its emptiness cache) and the middleware chain of \<open>internal/api/rest\<close>.
  \<^item> \<open>Config_Api\<close>: the REST handlers that read and change keys, settings and pins, and the
    handshake. A handler is a function of the caller's context, the request and the state
    \<open>live\<close> (the database and the cache of the authenticator).
  \<^item> \<open>Config_Steps\<close>: these handlers as a step relation, its refinement to the steps of the
    store, and what a run of the handlers keeps.
  \<^item> \<open>Query_Rewrite\<close>, \<open>Recall_Stages\<close>, \<open>Recall\<close>: the recall of \<open>internal/service\<close>. The
    record \<open>service\<close> holds the fields of the Go struct that a recall uses, the embedder, the
    reranker and the language model among them as functions; \<open>recall_store\<close> is what it reads
    of the store. Each stage is a function on lists of hits, composed by \<open>Recall\<close> as the code
    composes them.
  \<^item> \<open>Utf8\<close>: Go's conversions between strings and runes, with their round trip. \<open>Chunking\<close>:
    \<open>internal/chunk\<close>, the split of a long text between its runes, whose loop is a partial function
    that is proved to end. \<open>Sanitize\<close>: \<open>internal/sanitize\<close>, cleaning on the bytes of a text.
  \<^item> \<open>Recall_Sound\<close>: the locale \<open>recall_source\<close> (what a recall asks of the searches), what may
    be served under it, its interpretation on the SQLite driver, and when a recall fails.
  \<^item> \<open>Write_Stages\<close>, \<open>Remember\<close>: the write of \<open>internal/service\<close> with \<open>handoff.go\<close>,
    \<open>capture_hygiene.go\<close> and the synchronous half of \<open>consolidate.go\<close>. The record \<open>writer\<close>
    extends \<open>service\<close> by the fields a write uses; \<open>Remember\<close> answers an error or the memory,
    the new database and the jobs it leaves. \<open>Write_Jobs\<close>: these jobs (reinforcement,
    corroboration, contradiction, tombstones, asynchronous consolidation). \<open>Memory_Ops\<close>:
    \<open>update.go\<close>, reading by id or prefix, the history, forgetting and superseding.
  \<^item> \<open>Write_Sound\<close>: the abstract write and the proof that \<open>Remember\<close> refines it, and what a
    well-formed memory is. \<open>Service_Steps\<close>: the service as a step relation over the database
    and its pending jobs, refined to the steps of the store. \<open>Write_Effects\<close>, \<open>Write_Cases\<close>,
    \<open>Memory_Ops_Sound\<close>: what a write keeps, and repetitions, handoffs, degraded writes,
    edits, the lineage and prefixes in detail.
  \<^item> \<open>Repair_Worker\<close>: \<open>repair.go\<close> and \<open>repair_enrich.go\<close>, the worker that embeds the memories
    stored without a vector and replays the checks of a write. Draining is a partial function;
    the lemmas show that it ends when the embedder works.
  \<^item> \<open>Maintenance\<close>, \<open>Cluster_Dedup\<close>, \<open>Maintenance_Passes\<close>: \<open>internal/maintenance\<close>. A pass is
    a walk over listings that answers a count, an error and the database; the union-find of the
    dedup is the code's map of parents, its search a partial function. \<open>Maintenance_Sound\<close>: what
    the deleting and updating walks do. \<open>Dedup_Sound\<close>: the union-find computes connected
    components, the dedup leaves one head in each, the repair of chains is exact.
    \<open>Sweep_Sound\<close>: the sweep ends and is made of the driver's steps; a move is complete.
  \<^item> \<open>Entities\<close>: \<open>entities.go\<close> of \<open>internal/extract\<close>, named entities by capitalisation, on the
    runes of a text. \<open>Contradict\<close>: \<open>internal/contradict\<close>, the lexical detector of updates;
    \<open>Contradict_Sound\<close>: what its pairing of aliases leaves and what an update rests on;
    \<open>Contradict_Use\<close>: the detector behind the background job that invalidates a fact.
  \<^item> \<open>Answer\<close>: \<open>answer.go\<close>, \<open>answer_expand.go\<close> and \<open>answer_loop.go\<close>, answering a question in one
    shot, over rewritten queries or with tools; the model that is asked is the record \<open>reader\<close>.
    \<open>Answer_Sound\<close>: the order and the tags of the context, the loop that strips the reasoning,
    and where the sources come from.
  \<^item> \<open>Fingerprint_Samples\<close>: the fingerprints of two sample texts, evaluated in the kernel for a
    witness of the detector.
  \<^item> \<open>Embed_Pipeline\<close>: \<open>internal/embed\<close>, the client of the embeddings service and its wrappers
    (batches, the two caches, the document prefix, metrics), each a function from an embedder to
    an embedder, composed by \<open>buildEmbedder\<close> as \<open>root.go\<close> composes them. \<open>Embed_Sound\<close>: the
    contract of an embedder, the locale \<open>vector_cache\<close>, and that every wrapper keeps the
    contract. \<open>Embed_Limited\<close>: the concurrency limit as a step relation over its calls.
  \<^item> \<open>Backfill\<close>: \<open>chunk_backfill.go\<close> and \<open>embed_backfill.go\<close>, the workers that split and embed
    long memories and that embed memories without a vector; what other workers do while a text
    is embedded is an argument. The lemmas: a tick ends, and what it writes.
  \<^item> \<open>Core_Properties\<close>, \<open>Store_Properties\<close>, \<open>Log_Properties\<close>, \<open>Search_Properties\<close>,
    \<open>Access_Properties\<close>, \<open>Scope_Properties\<close>, \<open>Recall_Properties\<close>, \<open>Text_Properties\<close>,
    \<open>Write_Properties\<close>, \<open>Repair_Properties\<close>, \<open>Maintenance_Properties\<close>, \<open>Contradict_Properties\<close>,
    \<open>Answer_Properties\<close>, \<open>Embed_Properties\<close>, \<open>Backfill_Properties\<close>: the properties, each with its number, and their witnesses on concrete
    databases, lists and requests.

  Choices. Times are nanoseconds since year 1 as integers, stored to the millisecond as the
  driver stores them. \<open>float64\<close> is \<open>real\<close>: rounding, infinities and NaN are not modelled.
  Strings are byte lists; case folding and white space are those of ASCII, except in \<open>Sanitize\<close>,
  \<open>Entities\<close>, \<open>Contradict\<close>, \<open>Chunking\<close> and the truncation of \<open>Embed_Pipeline\<close>, which decode the
  runes (with Unicode white space) and take the other Unicode tables as an argument. The length that
  SQLite's queries bound counts characters.
  Where the order in which Go visits a map can be observed, it is an argument too. A transaction that
  fails leaves the database as it was, so an operation returns an error or a new database;
  failures of the engine itself (I/O, cancellation) are not modelled. The distance of
  sqlite-vec, the ranking of FTS5 and the text SQLite prints for a JSON value are the
  parameter \<open>engine\<close>. Go maps whose order cannot be observed are functions or association
  lists. There is no fuel: the loops of the modelled code are structural, have a measure, or are partial
  functions whose termination is a theorem.
  The handlers run against the SQLite driver, whose optional interfaces are all present, so
  their answers for a store without them (501) are not branches of the model; the secret that
  a handler generates is its argument.

  Not modelled: opening and migrating a database, serialisation of vectors, metrics, the
  JSON layer of the HTTP front end, the MCP front end, the clients of external models,
  importers and commands; in a recall, the recognition of dates, metrics, logging and the
  cancellation of the caller's context; of the writes, the entries they log in the activity
  feed, the building of facts from a capture (which such a write only announces) and the
  rules of regular expressions, which the model takes as functions. A background job is one
  step: the statements of two jobs are not interleaved. The rest of the service layer and the
  PostgreSQL driver are not modelled.
\<close>

end
